(* ===== verification/Prelude.thy ===== *)
theory Prelude
  imports Main "HOL-Library.Word"
begin

text \<open>
  Shared vocabulary of the development: the C++ integer types as machine words, a
  \<^verbatim>\<open>std::string\<close> or \<^verbatim>\<open>std::vector<uint8_t>\<close> as a list of bytes, the little-endian
  codec that reading or writing a packed struct through a pointer amounts to on x86-64,
  and the lemmas on words, slices and padding that the components share.
\<close>

unbundle bit_operations_syntax

named_theorems codec_simps \<open>lengths and round trips of the little-endian codec\<close>
named_theorems unat_bounds \<open>reading word arithmetic that does not wrap as nat arithmetic\<close>

type_synonym u8 = "8 word"
type_synonym u16 = "16 word"
type_synonym u32 = "32 word"
type_synonym u64 = "64 word"
type_synonym bytes = "8 word list"

section \<open>Little-endian codec\<close>

text \<open>The value of a byte string, least significant byte first, and its bytes back.\<close>

fun le_nat :: "bytes \<Rightarrow> nat" where
  "le_nat [] = 0"
| "le_nat (b # bs) = unat b + 256 * le_nat bs"

definition le_word :: "bytes \<Rightarrow> 'a::len word" where
  "le_word bs = of_nat (le_nat bs)"

fun le_bytes :: "nat \<Rightarrow> 'a::len word \<Rightarrow> bytes" where
  "le_bytes 0 w = []"
| "le_bytes (Suc n) w = ucast w # le_bytes n (drop_bit 8 w)"

text \<open>A field of \<open>n\<close> bytes at offset \<open>k\<close> of a struct image.\<close>

definition field :: "nat \<Rightarrow> nat \<Rightarrow> bytes \<Rightarrow> bytes" where
  "field k n bs = take n (drop k bs)"

text \<open>A string literal as the bytes of its characters.\<close>

definition str_bytes :: "string \<Rightarrow> bytes" where
  "str_bytes s = map of_char s"

lemma length_le_bytes [simp, codec_simps]: "length (le_bytes n w) = n"
  by (induction n arbitrary: w) auto

lemma unat_byte_less: "unat (b :: u8) < 256"
proof -
  have "unat b < 2 ^ LENGTH(8)" by (rule unsigned_less)
  then show ?thesis by simp
qed

lemma le_nat_bound: "le_nat bs < 256 ^ length bs"
proof (induction bs)
  case Nil
  then show ?case by simp
next
  case (Cons b bs)
  have "unat b + 256 * le_nat bs < 256 + 256 * le_nat bs"
    using unat_byte_less [of b] by simp
  also have "\<dots> \<le> 256 * 256 ^ length bs"
    using Cons.IH by simp
  finally show ?case by simp
qed

lemma unat_ucast_byte: "unat (ucast (w :: 'a::len word) :: u8) = unat w mod 256"
  by (simp add: unsigned_ucast_eq take_bit_eq_mod)

lemma le_nat_le_bytes: "le_nat (le_bytes n w) = unat w mod 256 ^ n"
proof (induction n arbitrary: w)
  case 0
  then show ?case by simp
next
  case (Suc n)
  have "unat w mod 256 + 256 * (unat w div 256 mod 256 ^ n) = unat w mod (256 * 256 ^ n)"
    by (simp add: mod_mult2_eq)
  moreover have "unat (drop_bit 8 w) = unat w div 256"
    by (simp only: unat_drop_bit_eq) (simp add: drop_bit_eq_div)
  ultimately show ?case
    by (simp only: le_bytes.simps le_nat.simps Suc.IH unat_ucast_byte) simp
qed

lemma le_word_le_bytes [codec_simps]:
  assumes "LENGTH('a::len) \<le> 8 * n"
  shows "le_word (le_bytes n w) = (w :: 'a word)"
proof -
  have "unat w < 2 ^ LENGTH('a)" by (rule unsigned_less)
  also have "(2 :: nat) ^ LENGTH('a) \<le> 2 ^ (8 * n)"
    using assms by (intro power_increasing) auto
  also have "(2 :: nat) ^ (8 * n) = 256 ^ n" by (simp add: power_mult)
  finally have "unat w mod 256 ^ n = unat w" by simp
  then show ?thesis by (simp add: le_word_def le_nat_le_bytes)
qed

lemma le_bytes_Suc_nth: "i < n \<Longrightarrow> le_bytes n w ! i = ucast (drop_bit (8 * i) w)"
proof (induction n arbitrary: i w)
  case 0
  then show ?case by simp
next
  case (Suc n)
  then show ?case by (cases i) (auto simp: drop_bit_drop_bit ac_simps)
qed

lemma le_word_byte [simp]: "(le_word [b] :: u8) = b"
  by (simp add: le_word_def)

lemma length_field [simp, codec_simps]: "k + n \<le> length bs \<Longrightarrow> length (field k n bs) = n"
  by (simp add: field_def)

lemma length_str_bytes [simp]: "length (str_bytes s) = length s"
  by (simp add: str_bytes_def)

section \<open>Words read as natural numbers\<close>

lemma unat_add_nowrap [unat_bounds]:
  "unat (x :: 'a::len word) + unat y < 2 ^ LENGTH('a) \<Longrightarrow> unat (x + y) = unat x + unat y"
  by (simp add: unat_word_ariths)

lemma unat_mult_nowrap [unat_bounds]:
  "unat (x :: 'a::len word) * unat y < 2 ^ LENGTH('a) \<Longrightarrow> unat (x * y) = unat x * unat y"
  by (simp add: unat_word_ariths)

lemma unat_of_nat_small [unat_bounds]:
  "n < 2 ^ LENGTH('a) \<Longrightarrow> unat (of_nat n :: 'a::len word) = n"
  by (simp add: unat_of_nat)

lemma unat_u32_less: "unat (x :: u32) < 4294967296"
proof -
  have "unat x < 2 ^ LENGTH(32)" by (rule unsigned_less)
  then show ?thesis by simp
qed

lemma unat_ucast_u32_u64 [simp]: "unat (ucast (x :: u32) :: u64) = unat x"
proof -
  have "unat x < 2 ^ 64" using unat_u32_less [of x] by simp
  then show ?thesis by (simp add: unsigned_ucast_eq take_bit_nat_eq_self)
qed

lemma and_not_mask_eq: "(x :: 'a::len word) AND NOT (mask k) = x - take_bit k x"
proof -
  have "x = (x AND mask k) + (x AND NOT (mask k))"
    by (subst disjunctive_add) (auto simp: bit_eq_iff bit_simps)
  then show ?thesis by (simp add: take_bit_eq_mask algebra_simps)
qed

lemma unat_and_not_mask:
  "unat ((x :: 'a::len word) AND NOT (mask k)) = unat x div 2 ^ k * 2 ^ k"
proof -
  have le: "take_bit k x \<le> x"
    by (simp add: word_le_nat_alt unsigned_take_bit_eq take_bit_nat_less_eq_self)
  have "unat (x AND NOT (mask k)) = unat x - unat (take_bit k x)"
    unfolding and_not_mask_eq using le by (rule unat_sub)
  also have "\<dots> = unat x - unat x mod 2 ^ k"
    by (simp add: unsigned_take_bit_eq) (simp add: take_bit_eq_mod)
  also have "\<dots> = unat x div 2 ^ k * 2 ^ k"
    by (metis minus_mod_eq_div_mult)
  finally show ?thesis .
qed

section \<open>Slices and padding\<close>

lemma take_drop_append_left:
  "k + n \<le> length xs \<Longrightarrow> take n (drop k (xs @ ys)) = take n (drop k xs)"
  by simp

lemma take_drop_append_exact:
  "length xs = k \<Longrightarrow> length ys = n \<Longrightarrow> take n (drop k (xs @ ys @ zs)) = ys"
  by simp

lemma takeWhile_nul:
  "0 \<notin> set xs \<Longrightarrow> takeWhile (\<lambda>b. b \<noteq> (0 :: u8)) (xs @ 0 # ys) = xs"
  by (induction xs) auto

lemma find_SomeD: "find P xs = Some x \<Longrightarrow> P x \<and> x \<in> set xs"
  by (induction xs) (auto split: if_splits)

end
