(* ===== verification/Util.thy ===== *)
theory Util
  imports Prelude
begin

text \<open>
  Models \<^verbatim>\<open>src/util.hpp\<close>: the input \<^verbatim>\<open>Buffer\<close> (load, bounds-checked struct access
  \<^verbatim>\<open>at\<close>, C strings \<^verbatim>\<open>str\<close>), the output \<^verbatim>\<open>OutBuf\<close> (append, padding, patching) and
  \<^verbatim>\<open>align_up\<close>.  A \<^verbatim>\<open>size_t\<close> offset is a natural number: every offset the program forms
  is a sum of 32-bit quantities and of sizes of data in memory, so that no 64-bit sum of
  offsets wraps.  Arithmetic that the source does in \<^verbatim>\<open>uint32_t\<close> stays in 32-bit words,
  and address arithmetic stays in 64-bit words.
\<close>

section \<open>Buffer\<close>

text \<open>
  What the C library reports of a file that \<^verbatim>\<open>fopen\<close> could open: the value of \<^verbatim>\<open>ftell\<close>
  at its end, and the bytes \<^verbatim>\<open>fread\<close> delivered.  The host file system is a partial
  function from paths (as bytes) to such reports.
\<close>

record host_file =
  ftell_size :: int
  fread_data :: bytes

type_synonym host_fs = "bytes \<Rightarrow> host_file option"

definition buffer_load :: "host_fs \<Rightarrow> bytes \<Rightarrow> bytes option" where
  "buffer_load fs path =
     (case fs path of
        None \<Rightarrow> None
      | Some f \<Rightarrow>
          if ftell_size f \<le> 0 then None
          else if length (fread_data f) = nat (ftell_size f) then Some (fread_data f)
          else None)"

text \<open>\<^verbatim>\<open>at<T>(off)\<close>: the image of a \<open>n\<close>-byte struct, or the null pointer.\<close>

definition buf_at :: "nat \<Rightarrow> bytes \<Rightarrow> nat \<Rightarrow> bytes option" where
  "buf_at n data off = (if off + n > length data then None else Some (take n (drop off data)))"

text \<open>
  \<^verbatim>\<open>str(off)\<close>: the scan for a terminator from \<open>off\<close> on, and the C string found there
  (its bytes up to the terminator); the empty string when there is none.
\<close>

fun has_nul :: "bytes \<Rightarrow> bool" where
  "has_nul [] = False"
| "has_nul (b # bs) = (if b = 0 then True else has_nul bs)"

definition c_str :: "bytes \<Rightarrow> bytes" where
  "c_str bs = takeWhile (\<lambda>b. b \<noteq> 0) bs"

definition buf_str :: "bytes \<Rightarrow> nat \<Rightarrow> bytes" where
  "buf_str data off =
     (if off \<ge> length data then []
      else if has_nul (drop off data) then c_str (drop off data) else [])"

section \<open>OutBuf\<close>

definition out_append :: "bytes \<Rightarrow> bytes \<Rightarrow> bytes" where
  "out_append data p = data @ p"

definition append_val :: "nat \<Rightarrow> bytes \<Rightarrow> 'a::len word \<Rightarrow> bytes" where
  "append_val n data v = out_append data (le_bytes n v)"

function pad_to_size :: "bytes \<Rightarrow> nat \<Rightarrow> bytes" where
  "pad_to_size data target =
     (if length data < target then pad_to_size (data @ [0]) target else data)"
  by pat_completeness auto
termination
  by (relation "measure (\<lambda>(data, target). target - length data)") auto

declare pad_to_size.simps [simp del]

text \<open>\<^verbatim>\<open>pad_to\<close> divides by its argument: \<open>None\<close> is the trap on zero.\<close>

function pad_to_loop :: "nat \<Rightarrow> bytes \<Rightarrow> bytes" where
  "pad_to_loop a data =
     (if a \<noteq> 0 \<and> length data mod a \<noteq> 0 then pad_to_loop a (data @ [0]) else data)"
  by pat_completeness auto
termination
proof (relation "measure (\<lambda>(a, data). (a - length data mod a) mod a)")
  fix a :: nat and data :: bytes
  assume g: "a \<noteq> 0 \<and> length data mod a \<noteq> 0"
  then have lt: "length data mod a < a" by simp
  have "(a - Suc (length data) mod a) mod a < (a - length data mod a) mod a"
  proof (cases "Suc (length data mod a) = a")
    case True
    then have "Suc (length data) mod a = 0" by (simp add: mod_Suc)
    with True g show ?thesis by (cases a) auto
  next
    case False
    then have "Suc (length data) mod a = Suc (length data mod a)" by (simp add: mod_Suc)
    with g lt show ?thesis by simp
  qed
  then show "((a, data @ [0]), a, data) \<in> measure (\<lambda>(a, data). (a - length data mod a) mod a)"
    by simp
qed simp

declare pad_to_loop.simps [simp del]

definition pad_to :: "nat \<Rightarrow> bytes \<Rightarrow> bytes option" where
  "pad_to a data = (if a = 0 then None else Some (pad_to_loop a data))"

text \<open>\<^verbatim>\<open>patch\<close> asserts that the value fits; \<open>None\<close> is the failed assertion.\<close>

definition patch :: "nat \<Rightarrow> bytes \<Rightarrow> nat \<Rightarrow> 'a::len word \<Rightarrow> bytes option" where
  "patch n data off v =
     (if off + n \<le> length data
      then Some (take off data @ le_bytes n v @ drop (off + n) data) else None)"

section \<open>Alignment\<close>

definition align_up :: "u64 \<Rightarrow> u64 \<Rightarrow> u64" where
  "align_up v a = (v + a - 1) AND NOT (a - 1)"

definition kPageSize :: u64 where
  "kPageSize = 0x1000"

section \<open>Facts\<close>

lemma buf_at_Some_iff:
  "buf_at n data off = Some bs \<longleftrightarrow> off + n \<le> length data \<and> bs = take n (drop off data)"
  by (auto simp: buf_at_def)

lemma buf_at_length: "buf_at n data off = Some bs \<Longrightarrow> length bs = n"
  by (auto simp: buf_at_Some_iff)

lemma buf_at_append: "off + n \<le> length xs \<Longrightarrow> buf_at n (xs @ ys) off = buf_at n xs off"
  by (simp add: buf_at_def)

lemma has_nul_iff: "has_nul bs \<longleftrightarrow> 0 \<in> set bs"
  by (induction bs) auto

lemma c_str_no_nul: "0 \<notin> set (c_str bs)"
  by (auto simp: c_str_def dest: set_takeWhileD)

lemma c_str_append_nul: "0 \<notin> set xs \<Longrightarrow> c_str (xs @ 0 # ys) = xs"
  by (simp add: c_str_def takeWhile_nul)

lemma buf_str_no_nul: "0 \<notin> set (buf_str data off)"
  using c_str_no_nul by (auto simp: buf_str_def)

lemma buf_str_at:
  "0 \<notin> set xs \<Longrightarrow> buf_str (pre @ xs @ 0 # post) (length pre) = xs"
  by (simp add: buf_str_def has_nul_iff c_str_append_nul)

lemma pad_to_size_eq: "pad_to_size data target = data @ replicate (target - length data) 0"
proof (induction data target rule: pad_to_size.induct)
  case (1 data target)
  show ?case
  proof (cases "length data < target")
    case True
    then have "target - length data = Suc (target - Suc (length data))" by simp
    with True "1.IH" show ?thesis by (simp add: pad_to_size.simps [of data])
  next
    case False
    then show ?thesis by (simp add: pad_to_size.simps [of data])
  qed
qed

lemma length_pad_to_size [simp]: "length (pad_to_size data target) = max (length data) target"
  by (simp add: pad_to_size_eq)

lemma pad_to_loop_aligned: "a \<noteq> 0 \<Longrightarrow> length (pad_to_loop a data) mod a = 0"
proof (induction a data rule: pad_to_loop.induct)
  case (1 a data)
  then show ?case
    by (cases "length data mod a = 0") (simp_all add: pad_to_loop.simps [of a data])
qed

lemma patch_reads_back:
  assumes "patch n data off (v :: 'a::len word) = Some data'" and "LENGTH('a) \<le> 8 * n"
  shows "\<exists>bs. buf_at n data' off = Some bs \<and> le_word bs = v \<and> length data' = length data"
  using assms by (auto simp: patch_def buf_at_Some_iff le_word_le_bytes split: if_splits)

text \<open>Rounding up to a power of two, as long as the sum does not wrap.\<close>

definition round_up :: "nat \<Rightarrow> nat \<Rightarrow> nat" where
  "round_up a n = (n + a - 1) div a * a"

lemma unat_align_up:
  assumes "a = 2 ^ k" and "k < 64" and "unat v + 2 ^ k \<le> 2 ^ 64"
  shows "unat (align_up v a) = round_up (2 ^ k) (unat v)"
proof -
  have m: "a - 1 = mask k" using assms(1) by (simp add: mask_eq_exp_minus_1)
  have one: "(1::nat) \<le> 2 ^ k" by simp
  have um: "unat (mask k :: u64) = 2 ^ k - 1"
  proof -
    have "unat (mask k :: u64) = unat (of_nat (mask k) :: u64)" by (simp add: of_nat_mask_eq)
    also have "\<dots> = mask k"
    proof (rule unat_of_nat_small)
      have "mask k < (2::nat) ^ k" by simp
      also have "(2::nat) ^ k \<le> 2 ^ 64" using assms(2) by (intro power_increasing) auto
      finally show "mask k < (2::nat) ^ LENGTH(64)" by simp
    qed
    finally show ?thesis by (simp add: mask_eq_exp_minus_1)
  qed
  have "unat (v + mask k) = unat v + unat (mask k :: u64)"
    by (rule unat_add_nowrap) (use assms(3) um one in simp)
  then have "unat (v + mask k) = unat v + 2 ^ k - 1" using um one by simp
  moreover have "align_up v a = (v + mask k) AND NOT (mask k)"
    unfolding align_up_def m [symmetric] by (simp add: algebra_simps)
  ultimately show ?thesis by (simp add: unat_and_not_mask round_up_def)
qed

lemma round_up_ge: "0 < a \<Longrightarrow> n \<le> round_up a n"
proof -
  assume a: "0 < a"
  have "n + a - 1 = (n + a - 1) div a * a + (n + a - 1) mod a" by simp
  moreover have "(n + a - 1) mod a < a" using a by simp
  ultimately show ?thesis unfolding round_up_def by linarith
qed

lemma round_up_less: "0 < a \<Longrightarrow> round_up a n < n + a"
proof -
  assume "0 < a"
  have "(n + a - 1) div a * a \<le> n + a - 1" by (rule div_times_less_eq_dividend)
  with \<open>0 < a\<close> show ?thesis unfolding round_up_def by linarith
qed

lemma round_up_dvd [simp]: "a dvd round_up a n"
  by (simp add: round_up_def)

lemma round_up_id: "0 < a \<Longrightarrow> a dvd n \<Longrightarrow> round_up a n = n"
proof (elim dvdE)
  fix k assume "0 < a" and "n = a * k"
  then have "n + a - 1 = a * k + (a - 1)" and "(a - 1) div a = 0" by auto
  then have "(n + a - 1) div a = k" using \<open>0 < a\<close> by (simp only: div_mult_self4)
  then show ?thesis using \<open>n = a * k\<close> by (simp only: round_up_def mult.commute)
qed

lemma unat_align_up_page:
  "unat v + 4096 \<le> 2 ^ 64 \<Longrightarrow> unat (align_up v kPageSize) = round_up 4096 (unat v)"
  using unat_align_up [of kPageSize 12 v] by (simp add: kPageSize_def)

lemma unat_align_up_8:
  "unat v + 8 \<le> 2 ^ 64 \<Longrightarrow> unat (align_up v 8) = round_up 8 (unat v)"
  using unat_align_up [of 8 3 v] by simp

section \<open>Properties\<close>

text \<open>
  \<^verbatim>\<open>align_up(v, a)\<close> for a power of two \<open>a\<close>, when \<open>v + a\<close> fits in 64 bits: the result is
  a multiple of \<open>a\<close>, at least \<open>v\<close>, and no smaller multiple of \<open>a\<close> is.
\<close>

theorem align_up_least:
  assumes "a = 2 ^ k" and "k < 64" and "unat v + 2 ^ k \<le> 2 ^ 64"
  shows "2 ^ k dvd unat (align_up v a) \<and> v \<le> align_up v a
    \<and> (\<forall>m. 2 ^ k dvd m \<and> unat v \<le> m \<longrightarrow> unat (align_up v a) \<le> m)"
proof -
  note u = unat_align_up [OF assms]
  have "round_up (2 ^ k) (unat v) \<le> m" if d: "2 ^ k dvd m" and le: "unat v \<le> m" for m
  proof -
    obtain j where j: "m = 2 ^ k * j" using d by (elim dvdE)
    have "round_up (2 ^ k) (unat v) < unat v + 2 ^ k" by (rule round_up_less) simp
    with le j have "round_up (2 ^ k) (unat v) < 2 ^ k * (j + 1)" by simp
    moreover obtain i where "round_up (2 ^ k) (unat v) = 2 ^ k * i"
      using round_up_dvd [of "2 ^ k" "unat v"] by (elim dvdE)
    ultimately have "2 ^ k * i < 2 ^ k * (j + 1)" by simp
    then have "i < j + 1" by (simp only: mult_less_cancel1)
    then show ?thesis using j \<open>round_up (2 ^ k) (unat v) = 2 ^ k * i\<close> by simp
  qed
  then show ?thesis using u round_up_ge [of "2 ^ k" "unat v"] by (simp add: word_le_nat_alt)
qed

theorem align_up_least_witness:
  "2 ^ 12 dvd unat (align_up 0x1001 kPageSize) \<and> 0x1001 \<le> align_up 0x1001 kPageSize"
  using align_up_least [of kPageSize 12 "0x1001"] by (simp add: kPageSize_def)

end
