(* ===== verification/Pe_Types.thy ===== *)
theory Pe_Types
  imports Util
begin

text \<open>
  Models \<^verbatim>\<open>src/pe_types.hpp\<close>: the packed PE structs as records and the reading of one
  through a pointer into the input (\<^verbatim>\<open>buf.at<T>(off)\<close>): \<open>at_T data off\<close> is \<open>None\<close> for the
  null pointer.  Field names that several structs use carry a prefix here.
\<close>

section \<open>Structures\<close>

record pe_dos_header =
  dos_Magic :: u16
  UsedBytesInTheLastPage :: u16
  FileSizeInPages :: u16
  NumberOfRelocationItems :: u16
  HeaderSizeInParagraphs :: u16
  MinimumExtraParagraphs :: u16
  MaximumExtraParagraphs :: u16
  InitialRelativeSS :: u16
  InitialSP :: u16
  Checksum :: u16
  InitialIP :: u16
  InitialRelativeCS :: u16
  AddressOfRelocationTable :: u16
  OverlayNumber :: u16
  Reserved :: bytes
  OEMid :: u16
  OEMinfo :: u16
  Reserved2 :: bytes
  AddressOfNewExeHeader :: u32

record pe_header =
  signature :: bytes
  Machine :: u16
  NumberOfSections :: u16
  peh_TimeDateStamp :: u32
  PointerToSymbolTable :: u32
  NumberOfSymbols :: u32
  SizeOfOptionalHeader :: u16
  peh_Characteristics :: u16

record pe64_optional_header =
  opt_Magic :: u16
  MajorLinkerVersion :: u8
  MinorLinkerVersion :: u8
  SizeOfCode :: u32
  SizeOfInitializedData :: u32
  SizeOfUninitializedData :: u32
  AddressOfEntryPoint :: u32
  BaseOfCode :: u32
  ImageBase :: u64
  SectionAlignment :: u32
  FileAlignment :: u32
  MajorOperatingSystemVersion :: u16
  MinorOperatingSystemVersion :: u16
  MajorImageVersion :: u16
  MinorImageVersion :: u16
  MajorSubsystemVersion :: u16
  MinorSubsystemVersion :: u16
  Win32VersionValue :: u32
  SizeOfImage :: u32
  SizeOfHeaders :: u32
  CheckSum :: u32
  Subsystem :: u16
  DLLCharacteristics :: u16
  SizeOfStackReserve :: u64
  SizeOfStackCommit :: u64
  SizeOfHeapReserve :: u64
  SizeOfHeapCommit :: u64
  LoaderFlags :: u32
  NumberOfRvaAndSize :: u32

record pe_data_directory =
  RelativeVirtualAddress :: u32
  dd_Size :: u32

record pe_section =
  Name :: bytes
  VirtualSize :: u32
  sec_VirtualAddress :: u32
  SizeOfRawData :: u32
  PointerToRawData :: u32
  PointerToRelocations :: u32
  PointerToLineNumbers :: u32
  NumberOfRelocations :: u16
  NumberOfLineNumbers :: u16
  sec_Characteristics :: u32

record pe_import =
  ImportLookupTableRVA :: u32
  imp_TimeDateStamp :: u32
  ForwarderChain :: u32
  imp_NameRVA :: u32
  ImportAddressTableRVA :: u32

record pe_export =
  exp_Characteristics :: u32
  exp_TimeDateStamp :: u32
  MajorVersion :: u16
  MinorVersion :: u16
  exp_NameRVA :: u32
  OrdinalBase :: u32
  NumberOfFunctions :: u32
  NumberOfNames :: u32
  FunctionsRVA :: u32
  NamesRVA :: u32
  NameOrdinalsRVA :: u32

record pe_tls64 =
  StartAddressOfRawData :: u64
  EndAddressOfRawData :: u64
  AddressOfIndex :: u64
  AddressOfCallBacks :: u64
  SizeOfZeroFill :: u32
  tls_Characteristics :: u32

record pe_base_reloc =
  blk_VirtualAddress :: u32
  SizeOfBlock :: u32

section \<open>Reading them\<close>

definition dec_pe_dos_header :: "bytes \<Rightarrow> pe_dos_header" where
  "dec_pe_dos_header b = \<lparr>dos_Magic = le_word (field 0 2 b),
     UsedBytesInTheLastPage = le_word (field 2 2 b), FileSizeInPages = le_word (field 4 2 b),
     NumberOfRelocationItems = le_word (field 6 2 b), HeaderSizeInParagraphs = le_word (field 8 2 b),
     MinimumExtraParagraphs = le_word (field 10 2 b), MaximumExtraParagraphs = le_word (field 12 2 b),
     InitialRelativeSS = le_word (field 14 2 b), InitialSP = le_word (field 16 2 b),
     Checksum = le_word (field 18 2 b), InitialIP = le_word (field 20 2 b),
     InitialRelativeCS = le_word (field 22 2 b), AddressOfRelocationTable = le_word (field 24 2 b),
     OverlayNumber = le_word (field 26 2 b), Reserved = field 28 8 b, OEMid = le_word (field 36 2 b),
     OEMinfo = le_word (field 38 2 b), Reserved2 = field 40 20 b,
     AddressOfNewExeHeader = le_word (field 60 4 b)\<rparr>"

definition dec_pe_header :: "bytes \<Rightarrow> pe_header" where
  "dec_pe_header b = \<lparr>signature = field 0 4 b, Machine = le_word (field 4 2 b),
     NumberOfSections = le_word (field 6 2 b), peh_TimeDateStamp = le_word (field 8 4 b),
     PointerToSymbolTable = le_word (field 12 4 b), NumberOfSymbols = le_word (field 16 4 b),
     SizeOfOptionalHeader = le_word (field 20 2 b), peh_Characteristics = le_word (field 22 2 b)\<rparr>"

definition dec_pe64_optional_header :: "bytes \<Rightarrow> pe64_optional_header" where
  "dec_pe64_optional_header b = \<lparr>opt_Magic = le_word (field 0 2 b),
     MajorLinkerVersion = le_word (field 2 1 b), MinorLinkerVersion = le_word (field 3 1 b),
     SizeOfCode = le_word (field 4 4 b), SizeOfInitializedData = le_word (field 8 4 b),
     SizeOfUninitializedData = le_word (field 12 4 b), AddressOfEntryPoint = le_word (field 16 4 b),
     BaseOfCode = le_word (field 20 4 b), ImageBase = le_word (field 24 8 b),
     SectionAlignment = le_word (field 32 4 b), FileAlignment = le_word (field 36 4 b),
     MajorOperatingSystemVersion = le_word (field 40 2 b),
     MinorOperatingSystemVersion = le_word (field 42 2 b),
     MajorImageVersion = le_word (field 44 2 b), MinorImageVersion = le_word (field 46 2 b),
     MajorSubsystemVersion = le_word (field 48 2 b), MinorSubsystemVersion = le_word (field 50 2 b),
     Win32VersionValue = le_word (field 52 4 b), SizeOfImage = le_word (field 56 4 b),
     SizeOfHeaders = le_word (field 60 4 b), CheckSum = le_word (field 64 4 b),
     Subsystem = le_word (field 68 2 b), DLLCharacteristics = le_word (field 70 2 b),
     SizeOfStackReserve = le_word (field 72 8 b), SizeOfStackCommit = le_word (field 80 8 b),
     SizeOfHeapReserve = le_word (field 88 8 b), SizeOfHeapCommit = le_word (field 96 8 b),
     LoaderFlags = le_word (field 104 4 b), NumberOfRvaAndSize = le_word (field 108 4 b)\<rparr>"

definition dec_pe_data_directory :: "bytes \<Rightarrow> pe_data_directory" where
  "dec_pe_data_directory b =
     \<lparr>RelativeVirtualAddress = le_word (field 0 4 b), dd_Size = le_word (field 4 4 b)\<rparr>"

definition dec_pe_section :: "bytes \<Rightarrow> pe_section" where
  "dec_pe_section b = \<lparr>Name = field 0 8 b, VirtualSize = le_word (field 8 4 b),
     sec_VirtualAddress = le_word (field 12 4 b), SizeOfRawData = le_word (field 16 4 b),
     PointerToRawData = le_word (field 20 4 b), PointerToRelocations = le_word (field 24 4 b),
     PointerToLineNumbers = le_word (field 28 4 b), NumberOfRelocations = le_word (field 32 2 b),
     NumberOfLineNumbers = le_word (field 34 2 b), sec_Characteristics = le_word (field 36 4 b)\<rparr>"

definition dec_pe_import :: "bytes \<Rightarrow> pe_import" where
  "dec_pe_import b = \<lparr>ImportLookupTableRVA = le_word (field 0 4 b),
     imp_TimeDateStamp = le_word (field 4 4 b), ForwarderChain = le_word (field 8 4 b),
     imp_NameRVA = le_word (field 12 4 b), ImportAddressTableRVA = le_word (field 16 4 b)\<rparr>"

definition dec_pe_export :: "bytes \<Rightarrow> pe_export" where
  "dec_pe_export b = \<lparr>exp_Characteristics = le_word (field 0 4 b),
     exp_TimeDateStamp = le_word (field 4 4 b), MajorVersion = le_word (field 8 2 b),
     MinorVersion = le_word (field 10 2 b), exp_NameRVA = le_word (field 12 4 b),
     OrdinalBase = le_word (field 16 4 b), NumberOfFunctions = le_word (field 20 4 b),
     NumberOfNames = le_word (field 24 4 b), FunctionsRVA = le_word (field 28 4 b),
     NamesRVA = le_word (field 32 4 b), NameOrdinalsRVA = le_word (field 36 4 b)\<rparr>"

definition dec_pe_tls64 :: "bytes \<Rightarrow> pe_tls64" where
  "dec_pe_tls64 b = \<lparr>StartAddressOfRawData = le_word (field 0 8 b),
     EndAddressOfRawData = le_word (field 8 8 b), AddressOfIndex = le_word (field 16 8 b),
     AddressOfCallBacks = le_word (field 24 8 b), SizeOfZeroFill = le_word (field 32 4 b),
     tls_Characteristics = le_word (field 36 4 b)\<rparr>"

definition dec_pe_base_reloc :: "bytes \<Rightarrow> pe_base_reloc" where
  "dec_pe_base_reloc b =
     \<lparr>blk_VirtualAddress = le_word (field 0 4 b), SizeOfBlock = le_word (field 4 4 b)\<rparr>"

text \<open>\<^verbatim>\<open>buf.at<uint16_t>\<close> and so on: reading integers and structs in place.\<close>

definition at_u16 :: "bytes \<Rightarrow> nat \<Rightarrow> u16 option" where
  "at_u16 data off = map_option le_word (buf_at 2 data off)"

definition at_u32 :: "bytes \<Rightarrow> nat \<Rightarrow> u32 option" where
  "at_u32 data off = map_option le_word (buf_at 4 data off)"

definition at_u64 :: "bytes \<Rightarrow> nat \<Rightarrow> u64 option" where
  "at_u64 data off = map_option le_word (buf_at 8 data off)"

definition at_dos :: "bytes \<Rightarrow> nat \<Rightarrow> pe_dos_header option" where
  "at_dos data off = map_option dec_pe_dos_header (buf_at 64 data off)"

definition at_peh :: "bytes \<Rightarrow> nat \<Rightarrow> pe_header option" where
  "at_peh data off = map_option dec_pe_header (buf_at 24 data off)"

definition at_opt64 :: "bytes \<Rightarrow> nat \<Rightarrow> pe64_optional_header option" where
  "at_opt64 data off = map_option dec_pe64_optional_header (buf_at 112 data off)"

definition at_dd :: "bytes \<Rightarrow> nat \<Rightarrow> pe_data_directory option" where
  "at_dd data off = map_option dec_pe_data_directory (buf_at 8 data off)"

definition at_section :: "bytes \<Rightarrow> nat \<Rightarrow> pe_section option" where
  "at_section data off = map_option dec_pe_section (buf_at 40 data off)"

definition at_import :: "bytes \<Rightarrow> nat \<Rightarrow> pe_import option" where
  "at_import data off = map_option dec_pe_import (buf_at 20 data off)"

definition at_export :: "bytes \<Rightarrow> nat \<Rightarrow> pe_export option" where
  "at_export data off = map_option dec_pe_export (buf_at 40 data off)"

definition at_tls :: "bytes \<Rightarrow> nat \<Rightarrow> pe_tls64 option" where
  "at_tls data off = map_option dec_pe_tls64 (buf_at 40 data off)"

definition at_base_reloc :: "bytes \<Rightarrow> nat \<Rightarrow> pe_base_reloc option" where
  "at_base_reloc data off = map_option dec_pe_base_reloc (buf_at 8 data off)"

section \<open>Constants\<close>

abbreviation PE_SCN_MEM_EXECUTE :: u32 where "PE_SCN_MEM_EXECUTE \<equiv> 0x20000000"
abbreviation PE_SCN_MEM_READ :: u32 where "PE_SCN_MEM_READ \<equiv> 0x40000000"
abbreviation PE_SCN_MEM_WRITE :: u32 where "PE_SCN_MEM_WRITE \<equiv> 0x80000000"
abbreviation PE_DD_EXPORT :: nat where "PE_DD_EXPORT \<equiv> 0"
abbreviation PE_DD_IMPORT :: nat where "PE_DD_IMPORT \<equiv> 1"
abbreviation PE_DD_BASERELOC :: nat where "PE_DD_BASERELOC \<equiv> 5"
abbreviation PE_DD_TLS :: nat where "PE_DD_TLS \<equiv> 9"

lemma at_u64_Some_iff:
  "at_u64 data off = Some v \<longleftrightarrow>
     off + 8 \<le> length data \<and> v = le_word (take 8 (drop off data))"
  by (auto simp: at_u64_def buf_at_def)

lemma at_u32_bound: "at_u32 data off = Some v \<Longrightarrow> off + 4 \<le> length data"
  by (auto simp: at_u32_def buf_at_def split: if_splits)

lemma at_base_reloc_bound: "at_base_reloc data off = Some b \<Longrightarrow> off + 8 \<le> length data"
  by (auto simp: at_base_reloc_def buf_at_def split: if_splits)

end
