(* ===== verification/Pe_Sections.thy ===== *)
theory Pe_Sections
  imports Pe_Types
begin

text \<open>
  Models \<^verbatim>\<open>PESectionMap\<close> of \<^verbatim>\<open>src/pe_image.hpp\<close>: the section table and the two lookups the
  converter makes in it.  The end of a section is a 32-bit sum and may wrap; the model
  keeps the wrap-around.
\<close>

record Entry =
  sec_va :: u32
  sec_raw :: u32
  sec_rawsz :: u32
  sec_virtsz :: u32
  sec_chars :: u32
  sec_name :: bytes
  sec_name_str :: bytes
  elf_foff :: u64

definition sec_end :: "Entry \<Rightarrow> u32" where
  "sec_end e = sec_va e + max (sec_virtsz e) (sec_rawsz e)"

definition in_sec :: "Entry \<Rightarrow> u32 \<Rightarrow> bool" where
  "in_sec e rva \<longleftrightarrow> rva \<ge> sec_va e \<and> rva < sec_end e"

fun rva_to_offset :: "Entry list \<Rightarrow> u32 \<Rightarrow> u32 option" where
  "rva_to_offset [] rva = None"
| "rva_to_offset (e # es) rva =
     (if in_sec e rva then
        let delta = rva - sec_va e in
        if delta < sec_rawsz e then Some (sec_raw e + delta) else rva_to_offset es rva
      else rva_to_offset es rva)"

fun section_of_from :: "int \<Rightarrow> Entry list \<Rightarrow> u32 \<Rightarrow> int" where
  "section_of_from i [] rva = - 1"
| "section_of_from i (e # es) rva = (if in_sec e rva then i else section_of_from (i + 1) es rva)"

definition section_of :: "Entry list \<Rightarrow> u32 \<Rightarrow> int" where
  "section_of secs rva = section_of_from 0 secs rva"

section \<open>Facts\<close>

lemma rva_to_offset_Some_iff:
  "rva_to_offset secs rva = Some off \<longleftrightarrow>
     (\<exists>i < length secs. in_sec (secs ! i) rva \<and> rva - sec_va (secs ! i) < sec_rawsz (secs ! i) \<and>
        off = sec_raw (secs ! i) + (rva - sec_va (secs ! i)) \<and>
        (\<forall>j < i. in_sec (secs ! j) rva \<longrightarrow> \<not> rva - sec_va (secs ! j) < sec_rawsz (secs ! j)))"
proof (induction secs)
  case Nil
  then show ?case by simp
next
  case (Cons e es)
  show ?case
  proof (cases "in_sec e rva \<and> rva - sec_va e < sec_rawsz e")
    case True
    then show ?thesis
      by (auto simp: Let_def All_less_Suc2 Ex_less_Suc2)
  next
    case False
    then have "rva_to_offset (e # es) rva = rva_to_offset es rva" by (auto simp: Let_def)
    with False Cons.IH show ?thesis
      by (simp add: Ex_less_Suc2 All_less_Suc2) blast
  qed
qed

lemma section_of_from_range:
  "section_of_from i secs rva = - 1 \<and> (\<forall>e \<in> set secs. \<not> in_sec e rva) \<or>
   (\<exists>k < length secs. section_of_from i secs rva = i + int k \<and> in_sec (secs ! k) rva \<and>
      (\<forall>j < k. \<not> in_sec (secs ! j) rva))"
proof (induction i secs rva rule: section_of_from.induct)
  case (1 i rva)
  then show ?case by simp
next
  case (2 i e es rva)
  show ?case
  proof (cases "in_sec e rva")
    case True
    then show ?thesis by (intro disjI2 exI [of _ 0]) simp
  next
    case False
    with 2 show ?thesis
      by (auto simp: Ex_less_Suc2 All_less_Suc2 algebra_simps)
  qed
qed

lemma section_of_cases:
  obtains (none) "section_of secs rva = - 1" and "\<forall>e \<in> set secs. \<not> in_sec e rva"
  | (found) k where "k < length secs" and "section_of secs rva = int k"
      and "in_sec (secs ! k) rva" and "\<forall>j < k. \<not> in_sec (secs ! j) rva"
  using section_of_from_range [of 0 secs rva] unfolding section_of_def by auto

lemma section_of_nonneg:
  assumes "section_of secs rva \<ge> 0"
  shows "nat (section_of secs rva) < length secs \<and> in_sec (secs ! nat (section_of secs rva)) rva"
  using assms by (cases rule: section_of_cases [of secs rva]) auto

lemma section_of_neg: "section_of secs rva < 0 \<longleftrightarrow> (\<forall>e \<in> set secs. \<not> in_sec e rva)"
proof (cases rule: section_of_cases [of secs rva])
  case none
  then show ?thesis by simp
next
  case (found k)
  then have "secs ! k \<in> set secs" by simp
  with found show ?thesis by auto
qed

text \<open>An address that has file bytes lies in a section.\<close>

lemma rva_to_offset_section_of:
  assumes "rva_to_offset secs rva = Some off"
  shows "section_of secs rva \<ge> 0"
proof (rule ccontr)
  assume "\<not> section_of secs rva \<ge> 0"
  then have "\<forall>e \<in> set secs. \<not> in_sec e rva" by (simp only: section_of_neg not_le)
  with assms show False by (auto simp: rva_to_offset_Some_iff)
qed

text \<open>Neither lookup reads the file offset that the layout pass fills in later.\<close>

lemma in_sec_foff [simp]: "in_sec (e\<lparr>elf_foff := x\<rparr>) rva = in_sec e rva"
  by (simp add: in_sec_def sec_end_def)

lemma section_of_from_map_foff:
  "section_of_from i (map (\<lambda>e. e\<lparr>elf_foff := f e\<rparr>) secs) rva = section_of_from i secs rva"
  by (induction i secs rva rule: section_of_from.induct) auto

section \<open>Properties\<close>

text \<open>
  \<^verbatim>\<open>rva_to_offset\<close> answers with the first section that covers the address and has file
  bytes there: the answer is that section's raw offset plus the distance from its start,
  and \<^verbatim>\<open>section_of\<close> is then not \<open>-1\<close>.  It fails exactly when no section does.
\<close>

theorem rva_to_offset_first:
  "case rva_to_offset secs rva of
     Some off \<Rightarrow> section_of secs rva \<ge> 0 \<and> (\<exists>i < length secs. in_sec (secs ! i) rva
       \<and> rva - sec_va (secs ! i) < sec_rawsz (secs ! i)
       \<and> off = sec_raw (secs ! i) + (rva - sec_va (secs ! i))
       \<and> (\<forall>j < i. in_sec (secs ! j) rva \<longrightarrow> \<not> rva - sec_va (secs ! j) < sec_rawsz (secs ! j)))
   | None \<Rightarrow> (\<forall>e \<in> set secs. in_sec e rva \<longrightarrow> \<not> rva - sec_va e < sec_rawsz e)"
proof (cases "rva_to_offset secs rva")
  case None
  then have "\<forall>e \<in> set secs. in_sec e rva \<longrightarrow> \<not> rva - sec_va e < sec_rawsz e"
    by (induction secs) (auto simp: Let_def split: if_splits)
  with None show ?thesis by simp
next
  case (Some off)
  with rva_to_offset_section_of [OF Some] rva_to_offset_Some_iff [of secs rva off]
  show ?thesis by simp
qed

theorem rva_to_offset_first_witness:
  "section_of [\<lparr>sec_va = 0x1000, sec_raw = 0x400, sec_rawsz = 0x200, sec_virtsz = 0x1000,
     sec_chars = 0, sec_name = [], sec_name_str = [], elf_foff = 0\<rparr>] 0x1010 \<ge> 0"
  using rva_to_offset_first [of "[\<lparr>sec_va = 0x1000, sec_raw = 0x400, sec_rawsz = 0x200,
     sec_virtsz = 0x1000, sec_chars = 0, sec_name = [], sec_name_str = [], elf_foff = 0\<rparr>]" "0x1010"]
  by (simp add: in_sec_def sec_end_def)

end
