(* ===== verification/Pe_Ordinals.thy ===== *)
theory Pe_Ordinals
  imports Pe_Sections
begin

text \<open>
  Models \<^verbatim>\<open>OrdinalResolver\<close> and \<^verbatim>\<open>resolve_ordinal_import\<close> of \<^verbatim>\<open>src/pe_image.hpp\<close>: the
  export table of a side copy of a DLL under \<^verbatim>\<open>dll/\<close> gives the name an ordinal stands for,
  and a process-wide cache keeps one resolver per DLL name.  A load that fails leaves
  \<^verbatim>\<open>loaded\<close> false, after which \<^verbatim>\<open>resolve\<close> looks at nothing else, so that the model keeps
  the fresh resolver for it.
\<close>

record OrdinalResolver =
  ordinal_base :: u32
  ord_to_name :: "u32 \<rightharpoonup> bytes"
  loaded :: bool

definition fresh_resolver :: OrdinalResolver where
  "fresh_resolver = \<lparr>ordinal_base = 0, ord_to_name = Map.empty, loaded = False\<rparr>"

definition to_lower :: "u8 \<Rightarrow> u8" where
  "to_lower c = (if 65 \<le> c \<and> c \<le> 90 then c + 32 else c)"

text \<open>The file tried first is \<^verbatim>\<open>dll/<lowercase name>\<close>, then the same with \<^verbatim>\<open>.dll\<close> appended.\<close>

definition load_dll_file :: "host_fs \<Rightarrow> bytes \<Rightarrow> bytes option" where
  "load_dll_file fs dll =
     (let base = map to_lower dll in
      case buffer_load fs (str_bytes ''dll/'' @ base) of
        Some d \<Rightarrow> Some d
      | None \<Rightarrow>
          if length base < 4 \<or> drop (length base - 4) base \<noteq> str_bytes ''.dll''
          then buffer_load fs (str_bytes ''dll/'' @ base @ str_bytes ''.dll'')
          else None)"

fun dll_sections :: "bytes \<Rightarrow> nat \<Rightarrow> nat \<Rightarrow> Entry list" where
  "dll_sections data sec_off 0 = []"
| "dll_sections data sec_off (Suc n) =
     (case at_section data sec_off of
        None \<Rightarrow> []
      | Some s \<Rightarrow>
          \<lparr>sec_va = sec_VirtualAddress s, sec_raw = PointerToRawData s,
           sec_rawsz = SizeOfRawData s, sec_virtsz = VirtualSize s,
           sec_chars = sec_Characteristics s, sec_name = Name s @ [0], sec_name_str = [],
           elf_foff = 0\<rparr> # dll_sections data (sec_off + 40) n)"

text \<open>The loop over the export names: entry \<open>j\<close>, with \<open>n\<close> entries to go.\<close>

fun export_names ::
  "bytes \<Rightarrow> Entry list \<Rightarrow> u32 \<Rightarrow> u32 \<Rightarrow> nat \<Rightarrow> u32 \<Rightarrow> (u32 \<rightharpoonup> bytes) \<Rightarrow> (u32 \<rightharpoonup> bytes)" where
  "export_names data secs names_off ords_off 0 j m = m"
| "export_names data secs names_off ords_off (Suc n) j m =
     export_names data secs names_off ords_off n (j + 1)
       (case (at_u32 data (unat (names_off + j * 4)), at_u16 data (unat (ords_off + j * 2))) of
          (Some name_rva, Some fn_idx) \<Rightarrow>
            (case rva_to_offset secs name_rva of
               None \<Rightarrow> m
             | Some o' \<Rightarrow> m(ucast fn_idx \<mapsto> buf_str data (unat o')))
        | _ \<Rightarrow> m)"

definition load_exports :: "bytes \<Rightarrow> Entry list \<Rightarrow> nat \<Rightarrow> OrdinalResolver option" where
  "load_exports data secs dd_off =
     (case at_dd data (dd_off + PE_DD_EXPORT * 8) of
        None \<Rightarrow> None
      | Some dd \<Rightarrow>
          if RelativeVirtualAddress dd = 0 then None
          else case rva_to_offset secs (RelativeVirtualAddress dd) of
            None \<Rightarrow> None
          | Some exp_off \<Rightarrow>
              (case at_export data (unat exp_off) of
                 None \<Rightarrow> None
               | Some ex \<Rightarrow>
                   (case (rva_to_offset secs (NamesRVA ex), rva_to_offset secs (NameOrdinalsRVA ex)) of
                      (Some names_off, Some ords_off) \<Rightarrow>
                        Some \<lparr>ordinal_base = OrdinalBase ex,
                          ord_to_name = export_names data secs names_off ords_off
                            (unat (NumberOfNames ex)) 0 Map.empty,
                          loaded = True\<rparr>
                    | _ \<Rightarrow> None)))"

text \<open>
  Where the optional header says the data directories are: \<^verbatim>\<open>dd_off\<close> and \<^verbatim>\<open>num_dd\<close> of a
  PE32+ (\<^verbatim>\<open>0x20B\<close>) or PE32 (\<^verbatim>\<open>0x10B\<close>) file.
\<close>

definition dll_directories :: "bytes \<Rightarrow> nat \<Rightarrow> (nat \<times> u32) option" where
  "dll_directories data opt_off =
     (case at_u16 data opt_off of
        None \<Rightarrow> None
      | Some magic \<Rightarrow>
          if magic = 0x20B then
            map_option (\<lambda>oh. (opt_off + 112, NumberOfRvaAndSize oh)) (at_opt64 data opt_off)
          else if magic = 0x10B then
            map_option (\<lambda>n. (opt_off + 96, n)) (at_u32 data (opt_off + 92))
          else None)"

definition load :: "host_fs \<Rightarrow> bytes \<Rightarrow> OrdinalResolver option" where
  "load fs dll =
     (case load_dll_file fs dll of
        None \<Rightarrow> None
      | Some data \<Rightarrow>
          (case at_dos data 0 of
             None \<Rightarrow> None
           | Some dos \<Rightarrow>
               if dos_Magic dos \<noteq> 0x5A4D then None
               else let pe_off = unat (AddressOfNewExeHeader dos) in
                 case at_peh data pe_off of
                   None \<Rightarrow> None
                 | Some peh \<Rightarrow>
                     if signature peh \<noteq> [80, 69, 0, 0] then None
                     else case dll_directories data (pe_off + 24) of
                       None \<Rightarrow> None
                     | Some (dd_off, num_dd) \<Rightarrow>
                         if unat num_dd \<le> PE_DD_EXPORT then None
                         else load_exports data
                           (dll_sections data (pe_off + 24 + unat (SizeOfOptionalHeader peh))
                              (unat (NumberOfSections peh))) dd_off))"

definition resolve :: "OrdinalResolver \<Rightarrow> u16 \<Rightarrow> bytes" where
  "resolve r ordinal =
     (if \<not> loaded r \<or> ucast ordinal < ordinal_base r then []
      else case ord_to_name r (ucast ordinal - ordinal_base r) of
        None \<Rightarrow> [] | Some s \<Rightarrow> s)"

type_synonym resolver_cache = "bytes \<rightharpoonup> OrdinalResolver"

definition resolve_ordinal_import ::
  "host_fs \<Rightarrow> resolver_cache \<Rightarrow> bytes \<Rightarrow> u16 \<Rightarrow> resolver_cache \<times> bytes" where
  "resolve_ordinal_import fs cache dll ordinal =
     (case cache dll of
        Some r \<Rightarrow> (cache, resolve r ordinal)
      | None \<Rightarrow>
          let r = (case load fs dll of Some r \<Rightarrow> r | None \<Rightarrow> fresh_resolver)
          in (cache(dll \<mapsto> r), resolve r ordinal))"

section \<open>Facts\<close>

text \<open>The cache is transparent: it only ever holds what loading the DLL gives.\<close>

definition resolver_of :: "host_fs \<Rightarrow> bytes \<Rightarrow> OrdinalResolver" where
  "resolver_of fs dll = (case load fs dll of Some r \<Rightarrow> r | None \<Rightarrow> fresh_resolver)"

definition cache_ok :: "host_fs \<Rightarrow> resolver_cache \<Rightarrow> bool" where
  "cache_ok fs cache \<longleftrightarrow> (\<forall>dll r. cache dll = Some r \<longrightarrow> r = resolver_of fs dll)"

lemma cache_ok_empty [simp]: "cache_ok fs Map.empty"
  by (simp add: cache_ok_def)

lemma resolve_ordinal_import_spec:
  assumes "cache_ok fs cache"
  shows "snd (resolve_ordinal_import fs cache dll ordinal) = resolve (resolver_of fs dll) ordinal
    \<and> cache_ok fs (fst (resolve_ordinal_import fs cache dll ordinal))"
proof (cases "cache dll")
  case None
  with assms show ?thesis
    by (auto simp: resolve_ordinal_import_def cache_ok_def Let_def simp flip: resolver_of_def)
next
  case (Some r)
  with assms have "r = resolver_of fs dll" by (auto simp: cache_ok_def)
  with Some assms show ?thesis by (simp add: resolve_ordinal_import_def)
qed

lemma export_names_no_nul:
  assumes "\<forall>k s. m k = Some s \<longrightarrow> 0 \<notin> set s"
  shows "export_names data secs no oo n j m k = Some s \<Longrightarrow> 0 \<notin> set s"
  using assms
proof (induction data secs no oo n j m rule: export_names.induct)
  case (1 data secs no oo j m)
  then show ?case by simp
next
  case (2 data secs no oo n j m)
  show ?case
    by (rule "2.IH") (use "2.prems" buf_str_no_nul in \<open>auto split: option.splits if_splits\<close>)
qed

lemma load_no_nul:
  assumes "load fs dll = Some r" and "ord_to_name r k = Some s"
  shows "0 \<notin> set s"
proof -
  obtain data secs no oo n where "ord_to_name r = export_names data secs no oo n 0 Map.empty"
    using assms(1)
    by (auto simp: load_def load_exports_def Let_def split: option.splits if_splits prod.splits)
  with assms(2) show ?thesis using export_names_no_nul [of Map.empty data secs no oo n 0 k s] by simp
qed

lemma resolve_no_nul: "0 \<notin> set (resolve (resolver_of fs dll) ordinal)"
  by (auto simp: resolve_def resolver_of_def fresh_resolver_def split: option.splits
      dest!: load_no_nul [OF _ sym])

section \<open>Properties\<close>

text \<open>A sequence of lookups, threading the cache.\<close>

fun resolve_all :: "host_fs \<Rightarrow> resolver_cache \<Rightarrow> (bytes \<times> u16) list \<Rightarrow> bytes list" where
  "resolve_all fs cache [] = []"
| "resolve_all fs cache ((dll, ordinal) # qs) =
     (let (cache', name) = resolve_ordinal_import fs cache dll ordinal
      in name # resolve_all fs cache' qs)"

lemma resolve_all_spec:
  "cache_ok fs cache \<Longrightarrow>
   resolve_all fs cache qs = map (\<lambda>(dll, ordinal). resolve (resolver_of fs dll) ordinal) qs"
proof (induction fs cache qs rule: resolve_all.induct)
  case (1 fs cache)
  then show ?case by simp
next
  case (2 fs cache dll ordinal qs)
  obtain c n where r: "resolve_ordinal_import fs cache dll ordinal = (c, n)" by fastforce
  with resolve_ordinal_import_spec [OF "2.prems", of dll ordinal]
  have "n = resolve (resolver_of fs dll) ordinal" "cache_ok fs c" by auto
  with "2.IH" [OF r [symmetric] refl] r show ?case by simp
qed

text \<open>
  The resolver cache is transparent.  Whatever sequence of ordinal lookups ran before,
  starting from the empty cache, a lookup answers what loading the DLL afresh would answer.
\<close>

theorem ordinal_cache_transparent:
  "resolve_all fs Map.empty qs = map (\<lambda>(dll, ordinal). resolve (resolver_of fs dll) ordinal) qs"
  by (rule resolve_all_spec) simp

end
