(* ===== verification/Pe_Image.thy ===== *)
theory Pe_Image
  imports Pe_Ordinals
begin

text \<open>
  Models \<^verbatim>\<open>PeImage::parse\<close> and \<^verbatim>\<open>PeImage::collect_imports\<close> of \<^verbatim>\<open>src/pe_image.hpp\<close>.  The
  header pointers \<^verbatim>\<open>peh\<close> and \<^verbatim>\<open>oh\<close> point into the buffer, which a rebase later patches in
  place; the model keeps their offsets and reads the fields through them.  Every message
  followed by \<^verbatim>\<open>return false\<close> is a constructor of \<open>conv_error\<close>.
\<close>

datatype conv_error =
    CannotLoad
  | BadDosMagic
  | BadPeSignature
  | NotAMD64 u16
  | NotPE32Plus u16
  | NoOptionalHeader
  | TooManyDirectories u32
  | TooManySections u16
  | DirectoriesPastEnd
  | ImportDirectoryUnmapped
  | UnresolvedOrdinal bytes u16
  | RelocDirectoryUnmapped
  | RelocLoopDiverges
  | NoBaseRelocations u64 u64
  | RebaseUnmapped u32
  | RebaseOutOfBounds u32
  | MemoryFault
  | NoRetByte
  | TrampolineOutOfRange u64
  | CannotCreate
  | WriteError

type_synonym 'a result = "conv_error + 'a"

record BaseRelocEntry =
  re_va :: u64
  re_addend :: u64

record ImportEntry =
  dll_name :: bytes
  func_name :: bytes
  iat_rva :: u32
  sym_index :: u32

record PeImage =
  img_buf :: bytes
  peh_off :: nat
  oh_off :: nat
  dd_off :: nat
  num_dd :: u32
  img_secs :: "Entry list"
  img_imports :: "ImportEntry list"
  img_relocs :: "BaseRelocEntry list"
  image_base :: u64
  ep_rva :: u32
  rdata_sec_idx :: int
  iat_sec_idx :: "int list"
  tls_template_va :: u64
  tls_template_sz :: u64
  tls_zero_fill :: u64
  tls_align_chars :: u64
  tls_index_va :: u64
  tls_callbacks_va :: u64

definition is_iat_sec :: "PeImage \<Rightarrow> int \<Rightarrow> bool" where
  "is_iat_sec img i \<longleftrightarrow> list_ex (\<lambda>s. s = i) (iat_sec_idx img)"

text \<open>The fields read through the header pointers.\<close>

definition img_peh :: "PeImage \<Rightarrow> pe_header" where
  "img_peh img = dec_pe_header (take 24 (drop (peh_off img) (img_buf img)))"

definition img_oh :: "PeImage \<Rightarrow> pe64_optional_header" where
  "img_oh img = dec_pe64_optional_header (take 112 (drop (oh_off img) (img_buf img)))"

section \<open>parse\<close>

text \<open>\<^verbatim>\<open>strtoull(p, nullptr, 10)\<close> on at most seven digits, which cannot overflow.\<close>

fun strtoull10 :: "u64 \<Rightarrow> bytes \<Rightarrow> u64" where
  "strtoull10 acc [] = acc"
| "strtoull10 acc (b # bs) =
     (if 48 \<le> b \<and> b \<le> 57 then strtoull10 (acc * 10 + ucast (b - 48)) bs else acc)"

definition strnlen_str :: "nat \<Rightarrow> bytes \<Rightarrow> bytes" where
  "strnlen_str n bs = takeWhile (\<lambda>b. b \<noteq> 0) (take n bs)"

text \<open>The section name: the long form \<^verbatim>\<open>/N\<close> through the COFF string table, else the eight bytes.\<close>

definition long_name :: "bytes \<Rightarrow> pe_header \<Rightarrow> bytes \<Rightarrow> bytes" where
  "long_name data peh name =
     (if name ! 0 = 47 \<and> 48 \<le> name ! 1 \<and> name ! 1 \<le> 57 then
        let name_off = strtoull10 0 (drop 1 name);
            strtab = ucast (PointerToSymbolTable peh) + ucast (NumberOfSymbols peh) * (18 :: u64);
            str_off = strtab + name_off
        in if PointerToSymbolTable peh \<noteq> 0 \<and> unat str_off < length data then
             strnlen_str (min (length data - unat str_off) 255) (drop (unat str_off) data)
           else []
      else [])"

definition section_name :: "bytes \<Rightarrow> pe_header \<Rightarrow> bytes \<Rightarrow> bytes" where
  "section_name data peh name =
     (let s = long_name data peh name in
      if s = [] then
        let t = c_str name in if t = [] then str_bytes ''.pe_sec'' else t
      else s)"

fun parse_sections :: "bytes \<Rightarrow> pe_header \<Rightarrow> nat \<Rightarrow> nat \<Rightarrow> Entry list" where
  "parse_sections data peh sec_off 0 = []"
| "parse_sections data peh sec_off (Suc n) =
     (case at_section data sec_off of
        None \<Rightarrow> []
      | Some s \<Rightarrow>
          \<lparr>sec_va = sec_VirtualAddress s, sec_raw = PointerToRawData s,
           sec_rawsz = SizeOfRawData s, sec_virtsz = VirtualSize s,
           sec_chars = sec_Characteristics s, sec_name = Name s @ [0],
           sec_name_str = section_name data peh (Name s @ [0]), elf_foff = 0\<rparr>
          # parse_sections data peh (sec_off + 40) n)"

definition parse_headers :: "bytes \<Rightarrow> (nat \<times> pe_header \<times> pe64_optional_header) result" where
  "parse_headers data =
     (case at_dos data 0 of
        None \<Rightarrow> Inl BadDosMagic
      | Some dos \<Rightarrow>
          if dos_Magic dos \<noteq> 0x5A4D then Inl BadDosMagic
          else let pe_off = unat (AddressOfNewExeHeader dos) in
          (case at_peh data pe_off of
             None \<Rightarrow> Inl BadPeSignature
           | Some peh \<Rightarrow>
               if signature peh \<noteq> [80, 69, 0, 0] then Inl BadPeSignature
               else if Machine peh \<noteq> 0x8664 then Inl (NotAMD64 (Machine peh))
               else let opt_off = pe_off + 24 in
               (case at_u16 data opt_off of
                  None \<Rightarrow> Inl (NotPE32Plus 0)
                | Some magic \<Rightarrow>
                    if magic \<noteq> 0x20B then Inl (NotPE32Plus magic)
                    else case at_opt64 data opt_off of
                      None \<Rightarrow> Inl NoOptionalHeader
                    | Some oh \<Rightarrow> Inr (pe_off, peh, oh))))"

definition parse :: "host_fs \<Rightarrow> bytes \<Rightarrow> PeImage result" where
  "parse fs path =
     (case buffer_load fs path of
        None \<Rightarrow> Inl CannotLoad
      | Some data \<Rightarrow>
          (case parse_headers data of
             Inl e \<Rightarrow> Inl e
           | Inr (pe_off, peh, oh) \<Rightarrow>
               let n = NumberOfRvaAndSize oh; dd = pe_off + 24 + 112 in
               if n > 96 then Inl (TooManyDirectories n)
               else if NumberOfSections peh > 96 then Inl (TooManySections (NumberOfSections peh))
               else if dd + unat n * 8 > length data then Inl DirectoriesPastEnd
               else Inr \<lparr>img_buf = data, peh_off = pe_off, oh_off = pe_off + 24, dd_off = dd,
                 num_dd = n,
                 img_secs = parse_sections data peh (pe_off + 24 + unat (SizeOfOptionalHeader peh))
                   (unat (NumberOfSections peh)),
                 img_imports = [], img_relocs = [], image_base = ImageBase oh,
                 ep_rva = AddressOfEntryPoint oh, rdata_sec_idx = - 1, iat_sec_idx = [],
                 tls_template_va = 0, tls_template_sz = 0, tls_zero_fill = 0,
                 tls_align_chars = 0, tls_index_va = 0, tls_callbacks_va = 0\<rparr>))"

section \<open>collect_imports\<close>

text \<open>
  One entry of an import lookup table: \<open>Inl\<close> is the fatal unresolved ordinal; otherwise the
  cache and the import recorded, if any.
\<close>

definition import_entry ::
  "host_fs \<Rightarrow> bytes \<Rightarrow> Entry list \<Rightarrow> bytes \<Rightarrow> u32 \<Rightarrow> u64 \<Rightarrow> resolver_cache \<Rightarrow>
     (resolver_cache \<times> ImportEntry option) result" where
  "import_entry fs data ss dll slot_rva v cache =
     (if section_of ss slot_rva < 0 then Inr (cache, None)
      else if v AND 0x8000000000000000 \<noteq> 0 then
        let ordinal = ucast (v AND 0xFFFF);
            (cache', fname) = resolve_ordinal_import fs cache dll ordinal
        in if fname = [] then Inl (UnresolvedOrdinal dll ordinal)
           else Inr (cache', Some \<lparr>dll_name = dll, func_name = fname, iat_rva = slot_rva,
                  sym_index = 0\<rparr>)
      else case rva_to_offset ss (ucast (v AND 0x7FFFFFFF)) of
          None \<Rightarrow> Inr (cache, None)
        | Some hint_off \<Rightarrow>
            if unat (hint_off + 2) < length data then
              Inr (cache, Some \<lparr>dll_name = dll, func_name = buf_str data (unat (hint_off + 2)),
                iat_rva = slot_rva, sym_index = 0\<rparr>)
            else Inr (cache, None))"

text \<open>The loop over a lookup table: index \<open>j\<close>, at most \<open>n\<close> entries to go.\<close>

fun ilt_loop ::
  "host_fs \<Rightarrow> bytes \<Rightarrow> Entry list \<Rightarrow> bytes \<Rightarrow> u32 \<Rightarrow> u32 \<Rightarrow> nat \<Rightarrow> u32 \<Rightarrow> resolver_cache \<Rightarrow>
     ImportEntry list \<Rightarrow> (resolver_cache \<times> ImportEntry list) result" where
  "ilt_loop fs data ss dll iat ilt_off 0 j cache acc = Inr (cache, acc)"
| "ilt_loop fs data ss dll iat ilt_off (Suc n) j cache acc =
     (case at_u64 data (unat (ilt_off + j * 8)) of
        None \<Rightarrow> Inr (cache, acc)
      | Some v \<Rightarrow>
          if v = 0 then Inr (cache, acc)
          else case import_entry fs data ss dll (iat + j * 8) v cache of
            Inl e \<Rightarrow> Inl e
          | Inr (cache', None) \<Rightarrow> ilt_loop fs data ss dll iat ilt_off n (j + 1) cache' acc
          | Inr (cache', Some ie) \<Rightarrow>
              ilt_loop fs data ss dll iat ilt_off n (j + 1) cache' (acc @ [ie]))"

text \<open>One import descriptor: skipped when its name, its IAT or its lookup table is not usable.\<close>

definition import_descriptor ::
  "host_fs \<Rightarrow> bytes \<Rightarrow> Entry list \<Rightarrow> pe_import \<Rightarrow> resolver_cache \<Rightarrow> ImportEntry list \<Rightarrow>
     (resolver_cache \<times> ImportEntry list) result" where
  "import_descriptor fs data ss imp cache acc =
     (case (if imp_NameRVA imp \<noteq> 0 then rva_to_offset ss (imp_NameRVA imp) else None) of
        None \<Rightarrow> Inr (cache, acc)
      | Some name_off \<Rightarrow>
          let dll = strnlen_str 256 (drop (unat name_off) data);
              iat = ImportAddressTableRVA imp
          in if iat = 0 then Inr (cache, acc)
             else
               let ilt = (if ImportLookupTableRVA imp \<noteq> 0 then ImportLookupTableRVA imp else iat)
               in case rva_to_offset ss ilt of
                    None \<Rightarrow> Inr (cache, acc)
                  | Some ilt_off \<Rightarrow> ilt_loop fs data ss dll iat ilt_off 65536 0 cache acc)"

fun import_loop ::
  "host_fs \<Rightarrow> bytes \<Rightarrow> Entry list \<Rightarrow> nat \<Rightarrow> nat \<Rightarrow> resolver_cache \<Rightarrow> ImportEntry list \<Rightarrow>
     (resolver_cache \<times> ImportEntry list) result" where
  "import_loop fs data ss off 0 cache acc = Inr (cache, acc)"
| "import_loop fs data ss off (Suc n) cache acc =
     (case at_import data off of
        None \<Rightarrow> Inr (cache, acc)
      | Some imp \<Rightarrow>
          if imp_NameRVA imp = 0 \<and> ImportLookupTableRVA imp = 0 \<and> ImportAddressTableRVA imp = 0
          then Inr (cache, acc)
          else case import_descriptor fs data ss imp cache acc of
            Inl e \<Rightarrow> Inl e
          | Inr (cache', acc') \<Rightarrow> import_loop fs data ss (off + 20) n cache' acc')"

fun iat_sections :: "Entry list \<Rightarrow> ImportEntry list \<Rightarrow> int list \<Rightarrow> int list" where
  "iat_sections ss [] idx = idx"
| "iat_sections ss (ie # ies) idx =
     (let s = section_of ss (iat_rva ie) in
      iat_sections ss ies (if s \<in> set idx then idx else idx @ [s]))"

definition finish_imports :: "PeImage \<Rightarrow> ImportEntry list \<Rightarrow> PeImage" where
  "finish_imports img ies =
     (let idx = iat_sections (img_secs img) ies (iat_sec_idx img) in
      img\<lparr>img_imports := ies, iat_sec_idx := idx,
          rdata_sec_idx := (if idx = [] then rdata_sec_idx img else idx ! 0)\<rparr>)"

definition collect_imports ::
  "host_fs \<Rightarrow> resolver_cache \<Rightarrow> PeImage \<Rightarrow> (resolver_cache \<times> PeImage) result" where
  "collect_imports fs cache img =
     (if unat (num_dd img) \<le> PE_DD_IMPORT then Inr (cache, img)
      else case at_dd (img_buf img) (dd_off img + PE_DD_IMPORT * 8) of
        None \<Rightarrow> Inr (cache, img)
      | Some dd \<Rightarrow>
          if RelativeVirtualAddress dd = 0 then Inr (cache, img)
          else case rva_to_offset (img_secs img) (RelativeVirtualAddress dd) of
            None \<Rightarrow> Inl ImportDirectoryUnmapped
          | Some imp_off \<Rightarrow>
              (case import_loop fs (img_buf img) (img_secs img) (unat imp_off) 4096 cache
                      (img_imports img) of
                 Inl e \<Rightarrow> Inl e
               | Inr (cache', ies) \<Rightarrow> Inr (cache', finish_imports img ies)))"

section \<open>Facts\<close>

lemma length_parse_sections: "length (parse_sections data peh off n) \<le> n"
  by (induction data peh off n rule: parse_sections.induct) (auto split: option.splits)

lemma is_iat_sec_iff: "is_iat_sec img i \<longleftrightarrow> i \<in> set (iat_sec_idx img)"
  by (auto simp: is_iat_sec_def list_ex_iff)

lemma parse_headers_bounds:
  assumes "parse_headers data = Inr (pe_off, peh, oh)"
  shows "pe_off + 24 + 112 \<le> length data
    \<and> peh = dec_pe_header (take 24 (drop pe_off data))
    \<and> oh = dec_pe64_optional_header (take 112 (drop (pe_off + 24) data))
    \<and> Machine peh = 0x8664"
  using assms
  by (auto simp: parse_headers_def Let_def at_peh_def at_opt64_def at_u16_def buf_at_def
      split: option.splits if_splits)

text \<open>
  What a parsed image satisfies: the limits that \<^verbatim>\<open>parse\<close> checks and that its pointers point
  into the buffer.
\<close>

definition image_wf :: "PeImage \<Rightarrow> bool" where
  "image_wf img \<longleftrightarrow>
     length (img_secs img) \<le> 96 \<and> unat (num_dd img) \<le> 96 \<and>
     peh_off img + 24 = oh_off img \<and> oh_off img + 112 = dd_off img \<and>
     dd_off img + unat (num_dd img) * 8 \<le> length (img_buf img)"

lemma parse_wf:
  assumes "parse fs path = Inr img"
  shows "image_wf img \<and> Machine (img_peh img) = 0x8664 \<and> image_base img = ImageBase (img_oh img)
    \<and> ep_rva img = AddressOfEntryPoint (img_oh img) \<and> buffer_load fs path = Some (img_buf img)
    \<and> img_imports img = [] \<and> img_relocs img = [] \<and> iat_sec_idx img = []"
proof -
  obtain data pe_off peh oh where l: "buffer_load fs path = Some data"
    and h: "parse_headers data = Inr (pe_off, peh, oh)"
    using assms by (auto simp: parse_def split: option.splits sum.splits prod.splits)
  then have n: "\<not> NumberOfRvaAndSize oh > 96" "\<not> NumberOfSections peh > 96"
      "\<not> pe_off + 24 + 112 + unat (NumberOfRvaAndSize oh) * 8 > length data"
    using assms by (auto simp: parse_def Let_def split: if_splits)
  then have "unat (NumberOfRvaAndSize oh) \<le> 96" "unat (NumberOfSections peh) \<le> 96"
    by (simp_all add: word_less_nat_alt)
  then show ?thesis
    using assms l h n parse_headers_bounds [OF h]
      order.trans [OF length_parse_sections [of data peh "pe_off + 24 + unat (SizeOfOptionalHeader peh)"
          "unat (NumberOfSections peh)"]]
    by (auto simp: parse_def Let_def image_wf_def img_peh_def img_oh_def add.assoc)
qed

text \<open>What every recorded import satisfies.\<close>

definition import_ok :: "Entry list \<Rightarrow> ImportEntry \<Rightarrow> bool" where
  "import_ok ss ie \<longleftrightarrow>
     section_of ss (iat_rva ie) \<ge> 0 \<and> 0 \<notin> set (dll_name ie) \<and> 0 \<notin> set (func_name ie)"

lemma strnlen_str_no_nul: "0 \<notin> set (strnlen_str n bs)"
  by (auto simp: strnlen_str_def dest: set_takeWhileD)

lemma import_entry_ok:
  assumes "import_entry fs data ss dll slot v cache = Inr (cache', r)"
    and "cache_ok fs cache" and "0 \<notin> set dll"
  shows "cache_ok fs cache' \<and> (\<forall>ie. r = Some ie \<longrightarrow> import_ok ss ie)"
proof -
  let ?o = "ucast (v AND 0xFFFF) :: u16"
  have res: "snd (resolve_ordinal_import fs cache dll ?o) = resolve (resolver_of fs dll) ?o"
      "cache_ok fs (fst (resolve_ordinal_import fs cache dll ?o))"
    using resolve_ordinal_import_spec [OF assms(2)] by blast+
  show ?thesis
    using assms res resolve_no_nul [of fs dll ?o]
    by (auto simp: import_entry_def import_ok_def Let_def buf_str_no_nul case_prod_beta
        split: if_splits option.splits)
qed

lemma ilt_loop_ok:
  assumes "ilt_loop fs data ss dll iat ilt n j cache acc = Inr (cache', acc')"
    and "cache_ok fs cache" and "0 \<notin> set dll" and "list_all (import_ok ss) acc"
  shows "cache_ok fs cache' \<and> list_all (import_ok ss) acc'"
  using assms
proof (induction fs data ss dll iat ilt n j cache acc rule: ilt_loop.induct)
  case (1 fs data ss dll iat ilt j cache acc)
  then show ?case by simp
next
  case (2 fs data ss dll iat ilt n j cache acc)
  show ?case
  proof (cases "\<exists>v c r. at_u64 data (unat (ilt + j * 8)) = Some v \<and> v \<noteq> 0 \<and>
      import_entry fs data ss dll (iat + j * 8) v cache = Inr (c, r)")
    case True
    then obtain v c r where v: "at_u64 data (unat (ilt + j * 8)) = Some v" "v \<noteq> 0"
      and e: "import_entry fs data ss dll (iat + j * 8) v cache = Inr (c, r)" by blast
    from import_entry_ok [OF e] "2.prems" have "cache_ok fs c" "\<forall>ie. r = Some ie \<longrightarrow> import_ok ss ie"
      by auto
    with "2.IH" [OF v e refl] "2.prems" v e show ?thesis by (cases r) auto
  next
    case False
    with "2.prems" show ?thesis by (auto split: option.splits if_splits sum.splits)
  qed
qed

lemma import_descriptor_ok:
  assumes "import_descriptor fs data ss imp cache acc = Inr (cache', acc')"
    and "cache_ok fs cache" and "list_all (import_ok ss) acc"
  shows "cache_ok fs cache' \<and> list_all (import_ok ss) acc'"
  using assms strnlen_str_no_nul
  by (auto simp: import_descriptor_def Let_def split: option.splits if_splits dest!: ilt_loop_ok)

lemma import_loop_ok:
  assumes "import_loop fs data ss off n cache acc = Inr (cache', acc')"
    and "cache_ok fs cache" and "list_all (import_ok ss) acc"
  shows "cache_ok fs cache' \<and> list_all (import_ok ss) acc'"
  using assms
proof (induction fs data ss off n cache acc rule: import_loop.induct)
  case (1 fs data ss off cache acc)
  then show ?case by simp
next
  case (2 fs data ss off n cache acc)
  show ?case
  proof (cases "\<exists>imp c a. at_import data off = Some imp \<and>
      \<not> (imp_NameRVA imp = 0 \<and> ImportLookupTableRVA imp = 0 \<and> ImportAddressTableRVA imp = 0) \<and>
      import_descriptor fs data ss imp cache acc = Inr (c, a)")
    case True
    then obtain imp c a where i: "at_import data off = Some imp"
        "\<not> (imp_NameRVA imp = 0 \<and> ImportLookupTableRVA imp = 0 \<and> ImportAddressTableRVA imp = 0)"
      and d: "import_descriptor fs data ss imp cache acc = Inr (c, a)" by blast
    from "2.prems"(1) i d have "import_loop fs data ss (off + 20) n c a = Inr (cache', acc')"
      by auto
    with "2.IH" [OF i d refl] import_descriptor_ok [OF d] "2.prems" show ?thesis by blast
  next
    case False
    with "2.prems" show ?thesis by (auto split: option.splits if_splits sum.splits)
  qed
qed

lemma set_iat_sections:
  "set (iat_sections ss ies idx) = set idx \<union> (\<lambda>ie. section_of ss (iat_rva ie)) ` set ies"
  by (induction ss ies idx rule: iat_sections.induct) (auto simp: Let_def)

lemma distinct_iat_sections: "distinct idx \<Longrightarrow> distinct (iat_sections ss ies idx)"
  by (induction ss ies idx rule: iat_sections.induct) (auto simp: Let_def)

text \<open>The summary invariant of the import pass.\<close>

definition imports_wf :: "PeImage \<Rightarrow> bool" where
  "imports_wf img \<longleftrightarrow>
     list_all (import_ok (img_secs img)) (img_imports img) \<and>
     set (iat_sec_idx img) = (\<lambda>ie. section_of (img_secs img) (iat_rva ie)) ` set (img_imports img) \<and>
     distinct (iat_sec_idx img)"

lemma finish_imports_wf:
  assumes "list_all (import_ok (img_secs img)) ies" and "iat_sec_idx img = []"
  shows "imports_wf (finish_imports img ies)"
  using assms
  by (auto simp: imports_wf_def finish_imports_def Let_def set_iat_sections distinct_iat_sections)

lemma collect_imports_cases:
  assumes "collect_imports fs cache img = Inr (cache', img')"
  obtains (same) "img' = img" and "cache' = cache"
  | (loop) off ies where
      "import_loop fs (img_buf img) (img_secs img) off 4096 cache (img_imports img) = Inr (cache', ies)"
      and "img' = finish_imports img ies"
proof (cases "unat (num_dd img) \<le> PE_DD_IMPORT")
  case True
  with assms same show ?thesis by (simp add: collect_imports_def)
next
  case nd: False
  show ?thesis
  proof (cases "at_dd (img_buf img) (dd_off img + PE_DD_IMPORT * 8)")
    case None
    with nd assms same show ?thesis by (simp add: collect_imports_def)
  next
    case (Some dd)
    show ?thesis
    proof (cases "rva_to_offset (img_secs img) (RelativeVirtualAddress dd)")
      case None
      with Some nd assms same show ?thesis by (simp add: collect_imports_def split: if_splits)
    next
      case off: (Some off)
      show ?thesis
      proof (cases "RelativeVirtualAddress dd = 0")
        case True
        with Some nd assms same show ?thesis by (simp add: collect_imports_def)
      next
        case False
        with Some off nd assms loop [of "unat off"] show ?thesis
          by (auto simp: collect_imports_def simp del: import_loop.simps
              split: sum.splits prod.splits)
      qed
    qed
  qed
qed

lemma collect_imports_frame:
  assumes "collect_imports fs cache img = Inr (cache', img')"
  shows "img_buf img' = img_buf img \<and> img_secs img' = img_secs img \<and> peh_off img' = peh_off img
    \<and> oh_off img' = oh_off img \<and> dd_off img' = dd_off img \<and> num_dd img' = num_dd img
    \<and> image_base img' = image_base img \<and> ep_rva img' = ep_rva img
    \<and> img_relocs img' = img_relocs img"
  using assms by (cases rule: collect_imports_cases) (simp_all add: finish_imports_def Let_def)

lemma collect_imports_wf:
  assumes "collect_imports fs cache img = Inr (cache', img')" and "cache_ok fs cache"
    and "img_imports img = []" and "iat_sec_idx img = []"
  shows "imports_wf img' \<and> cache_ok fs cache'"
proof -
  have trivial: "imports_wf img" using assms(3,4) by (simp add: imports_wf_def)
  from assms(1) show ?thesis
  proof (cases rule: collect_imports_cases)
    case same
    with trivial assms(2) show ?thesis by simp
  next
    case (loop off ies)
    then have "cache_ok fs cache'" "list_all (import_ok (img_secs img)) ies"
      using import_loop_ok [OF loop(1) assms(2)] assms(3) by auto
    with loop(2) assms(4) show ?thesis by (simp add: finish_imports_wf)
  qed
qed

end
