(* ===== verification/Pe_Relocs.thy ===== *)
theory Pe_Relocs
  imports Pe_Image
begin

text \<open>
  Models \<^verbatim>\<open>collect_relocs\<close>, \<^verbatim>\<open>collect_tls\<close> and \<^verbatim>\<open>rebase\<close> of \<^verbatim>\<open>PeImage\<close>
  (\<^verbatim>\<open>src/pe_image.hpp\<close>).  The walk over the relocation blocks adds a 32-bit size taken from
  the file to a 32-bit offset; nothing stops that sum from wrapping back, so that the loop
  may run forever.  It is modelled with fuel (\<open>None\<close>: the fuel ran out), with a lemma that
  the file size is enough fuel when no visited block wraps, and with a file on which no
  amount of fuel is enough.
\<close>

section \<open>collect_relocs\<close>

definition is_iat :: "PeImage \<Rightarrow> u64 \<Rightarrow> bool" where
  "is_iat img va \<longleftrightarrow> list_ex (\<lambda>ie. image_base img + ucast (iat_rva ie) = va) (img_imports img)"

text \<open>One \<^verbatim>\<open>IMAGE_REL_BASED_DIR64\<close> entry; the warnings skip the entry.\<close>

definition reloc_entry :: "PeImage \<Rightarrow> u32 \<Rightarrow> BaseRelocEntry option" where
  "reloc_entry img rva =
     (case rva_to_offset (img_secs img) rva of
        None \<Rightarrow> None
      | Some data_off \<Rightarrow>
          (case at_u64 (img_buf img) (unat data_off) of
             None \<Rightarrow> None
           | Some v \<Rightarrow>
               let va = image_base img + ucast rva in
               if is_iat img va then None else Some \<lparr>re_va = va, re_addend = v\<rparr>))"

fun reloc_entries ::
  "PeImage \<Rightarrow> u32 \<Rightarrow> u32 \<Rightarrow> nat \<Rightarrow> u32 \<Rightarrow> BaseRelocEntry list \<Rightarrow> BaseRelocEntry list" where
  "reloc_entries img cur_off blk_va 0 i acc = acc"
| "reloc_entries img cur_off blk_va (Suc n) i acc =
     (case at_u16 (img_buf img) (unat (cur_off + 8 + i * 2)) of
        None \<Rightarrow> acc
      | Some entry \<Rightarrow>
          let type = drop_bit 12 entry;
              rva = blk_va + ucast (entry AND 0xFFF)
          in reloc_entries img cur_off blk_va n (i + 1)
               (if type = 10 then
                  (case reloc_entry img rva of None \<Rightarrow> acc | Some re \<Rightarrow> acc @ [re])
                else acc))"

fun reloc_blocks ::
  "nat \<Rightarrow> PeImage \<Rightarrow> u32 \<Rightarrow> u32 \<Rightarrow> BaseRelocEntry list \<Rightarrow> BaseRelocEntry list option" where
  "reloc_blocks 0 img end_off cur_off acc = None"
| "reloc_blocks (Suc fuel) img end_off cur_off acc =
     (if unat cur_off + 8 \<le> unat end_off then
        (case at_base_reloc (img_buf img) (unat cur_off) of
           None \<Rightarrow> Some acc
         | Some blk \<Rightarrow>
             if SizeOfBlock blk < 8 \<or> (blk_VirtualAddress blk = 0 \<and> SizeOfBlock blk = 0)
             then Some acc
             else reloc_blocks fuel img end_off (cur_off + SizeOfBlock blk)
                    (reloc_entries img cur_off (blk_VirtualAddress blk)
                       (unat ((SizeOfBlock blk - 8) div 2)) 0 acc))
      else Some acc)"

definition reloc_end :: "PeImage \<Rightarrow> u32 \<Rightarrow> u32 \<Rightarrow> u32" where
  "reloc_end img cur_off sz =
     (let end_u64 = ucast cur_off + ucast sz :: u64 in
      if unat end_u64 > length (img_buf img) then of_nat (length (img_buf img)) else ucast end_u64)"

definition collect_relocs :: "nat \<Rightarrow> PeImage \<Rightarrow> PeImage result" where
  "collect_relocs fuel img =
     (if unat (num_dd img) \<le> PE_DD_BASERELOC then Inr img
      else case at_dd (img_buf img) (dd_off img + PE_DD_BASERELOC * 8) of
        None \<Rightarrow> Inr img
      | Some dd \<Rightarrow>
          if RelativeVirtualAddress dd = 0 then Inr img
          else case rva_to_offset (img_secs img) (RelativeVirtualAddress dd) of
            None \<Rightarrow> Inl RelocDirectoryUnmapped
          | Some cur_off \<Rightarrow>
              if (ucast cur_off + ucast (dd_Size dd) :: u64) < ucast cur_off then Inr img
              else case reloc_blocks fuel img (reloc_end img cur_off (dd_Size dd)) cur_off
                          (img_relocs img) of
                None \<Rightarrow> Inl RelocLoopDiverges
              | Some rs \<Rightarrow> Inr (img\<lparr>img_relocs := rs\<rparr>))"

section \<open>collect_tls\<close>

definition collect_tls :: "PeImage \<Rightarrow> PeImage" where
  "collect_tls img =
     (if unat (num_dd img) \<le> PE_DD_TLS then img
      else case at_dd (img_buf img) (dd_off img + PE_DD_TLS * 8) of
        None \<Rightarrow> img
      | Some dd \<Rightarrow>
          if RelativeVirtualAddress dd = 0 then img
          else case rva_to_offset (img_secs img) (RelativeVirtualAddress dd) of
            None \<Rightarrow> img
          | Some off \<Rightarrow>
              (case at_tls (img_buf img) (unat off) of
                 None \<Rightarrow> img
               | Some tls \<Rightarrow>
                   img\<lparr>tls_template_va := StartAddressOfRawData tls,
                       tls_template_sz :=
                         (if EndAddressOfRawData tls > StartAddressOfRawData tls
                          then EndAddressOfRawData tls - StartAddressOfRawData tls else 0),
                       tls_zero_fill := ucast (SizeOfZeroFill tls),
                       tls_align_chars := ucast (tls_Characteristics tls),
                       tls_index_va := AddressOfIndex tls,
                       tls_callbacks_va := AddressOfCallBacks tls\<rparr>))"

section \<open>rebase\<close>

definition read64 :: "bytes \<Rightarrow> nat \<Rightarrow> u64" where
  "read64 data off = le_word (take 8 (drop off data))"

definition write64 :: "bytes \<Rightarrow> nat \<Rightarrow> u64 \<Rightarrow> bytes" where
  "write64 data off v = take off data @ le_bytes 8 v @ drop (off + 8) data"

text \<open>
  The bounds check is in 32 bits on both sides; \<open>MemoryFault\<close> is the access out of the
  buffer that it would let through.
\<close>

fun rebase_loop ::
  "Entry list \<Rightarrow> u64 \<Rightarrow> u64 \<Rightarrow> BaseRelocEntry list \<Rightarrow> bytes \<Rightarrow> bytes result" where
  "rebase_loop ss base delta [] data = Inr data"
| "rebase_loop ss base delta (re # res) data =
     (let rva = ucast (re_va re - base) in
      case rva_to_offset ss rva of
        None \<Rightarrow> Inl (RebaseUnmapped rva)
      | Some off \<Rightarrow>
          if off + 8 > of_nat (length data) then Inl (RebaseOutOfBounds off)
          else if unat off + 8 > length data then Inl MemoryFault
          else rebase_loop ss base delta res
                 (write64 data (unat off) (read64 data (unat off) + delta)))"

definition rebase :: "u64 \<Rightarrow> PeImage \<Rightarrow> PeImage result" where
  "rebase new_base img =
     (if new_base = image_base img then Inr (img\<lparr>img_relocs := []\<rparr>)
      else if img_relocs img = [] then Inl (NoBaseRelocations (image_base img) new_base)
      else case rebase_loop (img_secs img) (image_base img) (new_base - image_base img)
                  (img_relocs img) (img_buf img) of
        Inl e \<Rightarrow> Inl e
      | Inr data \<Rightarrow> Inr (img\<lparr>img_buf := data, image_base := new_base, img_relocs := []\<rparr>))"

section \<open>Facts: what a collected relocation is\<close>

text \<open>
  The invariant of \<^verbatim>\<open>relocs\<close>: the address maps to eight bytes of the file, which hold the
  addend, it is within 4 GB of the image base, and it is not the address of an import slot.
\<close>

definition reloc_site :: "PeImage \<Rightarrow> BaseRelocEntry \<Rightarrow> u32 option" where
  "reloc_site img re = rva_to_offset (img_secs img) (ucast (re_va re - image_base img))"

definition reloc_ok :: "PeImage \<Rightarrow> BaseRelocEntry \<Rightarrow> bool" where
  "reloc_ok img re \<longleftrightarrow>
     (case reloc_site img re of
        None \<Rightarrow> False
      | Some off \<Rightarrow> unat off + 8 \<le> length (img_buf img) \<and> re_addend re = read64 (img_buf img) (unat off))
     \<and> unat (re_va re - image_base img) < 2 ^ 32 \<and> \<not> is_iat img (re_va re)"

lemma ucast_ucast_u32 [simp]: "ucast (ucast (x :: u32) :: u64) = x"
  by (rule ucast_up_ucast_id) (simp add: is_up)

lemma reloc_entry_ok: "reloc_entry img rva = Some re \<Longrightarrow> reloc_ok img re"
  using unat_u32_less [of rva]
  by (auto simp: reloc_entry_def reloc_ok_def reloc_site_def at_u64_Some_iff read64_def Let_def
      split: option.splits if_splits)

lemma reloc_entries_ok:
  "list_all (reloc_ok img) acc \<Longrightarrow> list_all (reloc_ok img) (reloc_entries img cur va n i acc)"
proof (induction img cur va n i acc rule: reloc_entries.induct)
  case (1 img cur va i acc)
  then show ?case by simp
next
  case (2 img cur va n i acc)
  then show ?case
    by (auto simp: Let_def reloc_entry_ok split: option.splits)
qed

lemma reloc_blocks_ok:
  "reloc_blocks fuel img e cur acc = Some rs \<Longrightarrow> list_all (reloc_ok img) acc \<Longrightarrow>
   list_all (reloc_ok img) rs"
proof (induction fuel img e cur acc rule: reloc_blocks.induct)
  case (1 img e cur acc)
  then show ?case by simp
next
  case (2 fuel img e cur acc)
  then show ?case
    by (auto simp: reloc_entries_ok split: if_splits option.splits)
qed

lemma reloc_ok_relocs [simp]: "reloc_ok (img\<lparr>img_relocs := rs\<rparr>) re = reloc_ok img re"
  by (simp add: reloc_ok_def reloc_site_def is_iat_def split: option.split)

lemma collect_relocs_ok:
  assumes "collect_relocs fuel img = Inr img'" and "list_all (reloc_ok img) (img_relocs img)"
  shows "list_all (reloc_ok img') (img_relocs img') \<and> img' = img\<lparr>img_relocs := img_relocs img'\<rparr>"
  using assms
  by (auto simp: collect_relocs_def list.pred_set split: if_splits option.splits
      dest!: reloc_blocks_ok)

section \<open>Facts: the walk over the blocks\<close>

text \<open>The offsets the loop visits from \<open>cur\<close>, as a relation, whatever the fuel.\<close>

inductive visits :: "PeImage \<Rightarrow> u32 \<Rightarrow> u32 \<Rightarrow> u32 \<Rightarrow> bool" for img end_off cur where
  here: "visits img end_off cur cur"
| next_block: "visits img end_off cur off \<Longrightarrow> unat off + 8 \<le> unat end_off \<Longrightarrow>
    at_base_reloc (img_buf img) (unat off) = Some blk \<Longrightarrow> \<not> SizeOfBlock blk < 8 \<Longrightarrow>
    visits img end_off cur (off + SizeOfBlock blk)"

lemma visits_step:
  assumes "unat cur + 8 \<le> unat end_off" and "at_base_reloc (img_buf img) (unat cur) = Some blk"
    and "\<not> SizeOfBlock blk < 8" and "visits img end_off (cur + SizeOfBlock blk) off"
  shows "visits img end_off cur off"
  using assms(4)
proof (induction rule: visits.induct)
  case here
  show ?case by (rule visits.next_block [OF visits.here assms(1,2,3)])
next
  case (next_block off blk)
  then show ?case by (blast intro: visits.next_block)
qed

text \<open>No visited block makes the 32-bit offset wrap.\<close>

definition blocks_no_wrap :: "PeImage \<Rightarrow> u32 \<Rightarrow> u32 \<Rightarrow> bool" where
  "blocks_no_wrap img end_off cur \<longleftrightarrow>
     (\<forall>off blk. visits img end_off cur off \<longrightarrow> at_base_reloc (img_buf img) (unat off) = Some blk \<longrightarrow>
        unat off + unat (SizeOfBlock blk) < 2 ^ 32)"

lemma reloc_blocks_enough_fuel:
  assumes "blocks_no_wrap img end_off cur" and "unat end_off < fuel + unat cur" and "0 < fuel"
  shows "\<exists>rs. reloc_blocks fuel img end_off cur acc = Some rs"
  using assms
proof (induction fuel arbitrary: cur acc)
  case 0
  then show ?case by simp
next
  case (Suc fuel)
  show ?case
  proof (cases "\<exists>blk. unat cur + 8 \<le> unat end_off \<and>
      at_base_reloc (img_buf img) (unat cur) = Some blk \<and> \<not> SizeOfBlock blk < 8")
    case False
    then show ?thesis by (auto split: option.splits)
  next
    case True
    then obtain blk where b: "unat cur + 8 \<le> unat end_off"
        "at_base_reloc (img_buf img) (unat cur) = Some blk" "\<not> SizeOfBlock blk < 8" by blast
    have sum: "unat (cur + SizeOfBlock blk) = unat cur + unat (SizeOfBlock blk)"
      using Suc.prems(1) b(2) visits.here unfolding blocks_no_wrap_def
      by (intro unat_add_nowrap) auto
    have ge: "8 \<le> unat (SizeOfBlock blk)" using b(3) by (simp add: word_less_nat_alt)
    have "blocks_no_wrap img end_off (cur + SizeOfBlock blk)"
      using Suc.prems(1) visits_step [OF b] unfolding blocks_no_wrap_def by blast
    moreover have "unat end_off < fuel + unat (cur + SizeOfBlock blk)"
      using Suc.prems(2) sum ge by simp
    moreover have "0 < fuel" using Suc.prems(2) b(1) by simp
    ultimately show ?thesis
      using Suc.IH b by (auto simp: word_less_nat_alt)
  qed
qed

section \<open>Facts: rebasing\<close>

text \<open>
  The interface a store of 64-bit cells offers, and what a pass that updates each cell of a
  list of disjoint cells does to it.
\<close>

locale cell_store =
  fixes rd :: "'m \<Rightarrow> nat \<Rightarrow> u64"
    and wr :: "'m \<Rightarrow> nat \<Rightarrow> u64 \<Rightarrow> 'm"
    and valid :: "'m \<Rightarrow> nat \<Rightarrow> bool"
    and apart :: "nat \<Rightarrow> nat \<Rightarrow> bool"
  assumes rd_wr_same: "valid m a \<Longrightarrow> rd (wr m a v) a = v"
    and rd_wr_apart: "apart a b \<Longrightarrow> valid m a \<Longrightarrow> valid m b \<Longrightarrow> rd (wr m a v) b = rd m b"
    and valid_wr: "valid m a \<Longrightarrow> valid (wr m a v) b = valid m b"
begin

lemma update_pass_other:
  "list_all (valid m) cs \<Longrightarrow> valid m b \<Longrightarrow> list_all (\<lambda>a. apart a b) cs \<Longrightarrow>
   rd (fold (\<lambda>a m. wr m a (f (rd m a))) cs m) b = rd m b"
proof (induction cs arbitrary: m)
  case Nil
  then show ?case by simp
next
  case (Cons c cs)
  then show ?case by (simp add: valid_wr rd_wr_apart list.pred_set)
qed

lemma update_pass_each:
  "list_all (valid m) cs \<Longrightarrow> sorted_wrt (\<lambda>a b. apart a b \<and> apart b a) cs \<Longrightarrow> c \<in> set cs \<Longrightarrow>
   rd (fold (\<lambda>a m. wr m a (f (rd m a))) cs m) c = f (rd m c)"
proof (induction cs arbitrary: m)
  case Nil
  then show ?case by simp
next
  case (Cons a cs)
  let ?m = "wr m a (f (rd m a))"
  have v: "list_all (valid ?m) cs" "valid ?m a" "valid m a"
    using Cons.prems(1) by (auto simp: valid_wr list.pred_set)
  show ?case
  proof (cases "c = a")
    case True
    have "list_all (\<lambda>b. apart b a) cs" using Cons.prems(2) by (auto simp: list.pred_set)
    with v True show ?thesis by (simp add: update_pass_other rd_wr_same)
  next
    case False
    then have c: "c \<in> set cs" using Cons.prems(3) by simp
    then have "rd ?m c = rd m c"
      using Cons.prems(1,2) by (auto intro!: rd_wr_apart simp: list.pred_set)
    with Cons.IH [OF v(1)] Cons.prems(2) c show ?thesis by simp
  qed
qed

lemma update_pass_valid:
  "list_all (valid m) cs \<Longrightarrow> valid (fold (\<lambda>a m. wr m a (f (rd m a))) cs m) b = valid m b"
  by (induction cs arbitrary: m) (auto simp: valid_wr list.pred_set)

end

definition disjoint8 :: "nat \<Rightarrow> nat \<Rightarrow> bool" where
  "disjoint8 a b \<longleftrightarrow> a + 8 \<le> b \<or> b + 8 \<le> a"

lemma length_write64:
  "off + 8 \<le> length data \<Longrightarrow> length (write64 data off v) = length data"
  by (simp add: write64_def)

lemma write64_nth:
  assumes "off + 8 \<le> length data" and "i < off \<or> off + 8 \<le> i"
  shows "write64 data off v ! i = data ! i"
  using assms by (auto simp: write64_def nth_append)

lemma read64_write64_other:
  assumes "off + 8 \<le> length data" and "b + 8 \<le> length data" and "disjoint8 off b"
  shows "read64 (write64 data off v) b = read64 data b"
proof -
  have "take 8 (drop b (write64 data off v)) = take 8 (drop b data)"
  proof (rule nth_equalityI)
    show "length (take 8 (drop b (write64 data off v))) = length (take 8 (drop b data))"
      using assms(1) by (simp add: length_write64)
  next
    fix i assume "i < length (take 8 (drop b (write64 data off v)))"
    then show "take 8 (drop b (write64 data off v)) ! i = take 8 (drop b data) ! i"
      using assms by (simp add: length_write64 disjoint8_def) (auto intro!: write64_nth)
  qed
  then show ?thesis by (simp add: read64_def)
qed

interpretation buf64: cell_store read64 write64 "\<lambda>data off. off + 8 \<le> length data" disjoint8
proof
  fix m :: bytes and a b :: nat and v :: u64
  show "a + 8 \<le> length m \<Longrightarrow> read64 (write64 m a v) a = v"
    by (simp add: read64_def write64_def le_word_le_bytes)
  show "disjoint8 a b \<Longrightarrow> a + 8 \<le> length m \<Longrightarrow> b + 8 \<le> length m \<Longrightarrow>
      read64 (write64 m a v) b = read64 m b"
    by (rule read64_write64_other)
  show "a + 8 \<le> length m \<Longrightarrow> (b + 8 \<le> length (write64 m a v)) = (b + 8 \<le> length m)"
    by (simp add: length_write64)
qed

text \<open>On sites inside a buffer of less than 4 GB the loop is exactly that update pass.\<close>

definition site_of :: "PeImage \<Rightarrow> BaseRelocEntry \<Rightarrow> nat" where
  "site_of img re = (case reloc_site img re of Some off \<Rightarrow> unat off | None \<Rightarrow> 0)"

lemma length_update_pass:
  "list_all (\<lambda>a. a + 8 \<le> length data) cs \<Longrightarrow>
   length (fold (\<lambda>a m. write64 m a (f (read64 m a))) cs data) = length data"
  by (induction cs arbitrary: data) (auto simp: length_write64 list.pred_set)

lemma rebase_loop_eq:
  assumes "\<forall>re \<in> set rs. \<exists>off. rva_to_offset ss (ucast (re_va re - base)) = Some off \<and>
      unat off + 8 \<le> length data \<and> site re = unat off"
    and "length data < 2 ^ 32"
  shows "rebase_loop ss base delta rs data =
      Inr (fold (\<lambda>a m. write64 m a (read64 m a + delta)) (map site rs) data)"
  using assms
proof (induction rs arbitrary: data)
  case Nil
  then show ?case by simp
next
  case (Cons re rs)
  then obtain off where off: "rva_to_offset ss (ucast (re_va re - base)) = Some off"
      "unat off + 8 \<le> length data" "site re = unat off" by auto
  have sum: "unat (off + 8) = unat off + 8"
    using off(2) Cons.prems(2) by (subst unat_add_nowrap) auto
  have "\<not> off + 8 > of_nat (length data)"
    using off(2) Cons.prems(2) by (simp add: word_less_nat_alt sum unat_of_nat_small)
  moreover have "rebase_loop ss base delta rs (write64 data (unat off) (read64 data (unat off) + delta)) =
      Inr (fold (\<lambda>a m. write64 m a (read64 m a + delta)) (map site rs)
        (write64 data (unat off) (read64 data (unat off) + delta)))"
    by (rule Cons.IH) (use Cons.prems off(2) in \<open>auto simp: length_write64\<close>)
  ultimately show ?case using off by (simp add: Let_def)
qed

section \<open>A walk that never ends\<close>

text \<open>
  Two relocation blocks that point at each other: the first is eight bytes long, the size of
  the second takes the 32-bit offset back to the first.
\<close>

definition cyclic_image :: PeImage where
  "cyclic_image = \<lparr>img_buf = replicate 40 0 @ [0, 0x10, 0, 0, 16, 0, 0, 0] @
     [0, 0x10, 0, 0, 8, 0, 0, 0] @ [0, 0x10, 0, 0, 0xf8, 0xff, 0xff, 0xff],
     peh_off = 0, oh_off = 0, dd_off = 0, num_dd = 6,
     img_secs = [\<lparr>sec_va = 0x1000, sec_raw = 48, sec_rawsz = 16, sec_virtsz = 16, sec_chars = 0,
       sec_name = [], sec_name_str = [], elf_foff = 0\<rparr>],
     img_imports = [], img_relocs = [], image_base = 0x140000000, ep_rva = 0, rdata_sec_idx = - 1,
     iat_sec_idx = [], tls_template_va = 0, tls_template_sz = 0, tls_zero_fill = 0,
     tls_align_chars = 0, tls_index_va = 0, tls_callbacks_va = 0\<rparr>"

lemma cyclic_reads:
  "at_dd (img_buf cyclic_image) 40 = Some \<lparr>RelativeVirtualAddress = 0x1000, dd_Size = 16\<rparr>"
  "at_base_reloc (img_buf cyclic_image) 48 = Some \<lparr>blk_VirtualAddress = 0x1000, SizeOfBlock = 8\<rparr>"
  "at_base_reloc (img_buf cyclic_image) 56 =
     Some \<lparr>blk_VirtualAddress = 0x1000, SizeOfBlock = 0xfffffff8\<rparr>"
  "at_u16 (img_buf cyclic_image) 64 = None" "length (img_buf cyclic_image) = 64"
  by (simp_all add: cyclic_image_def at_dd_def dec_pe_data_directory_def at_base_reloc_def
      dec_pe_base_reloc_def at_u16_def buf_at_def field_def le_word_def)

lemma reloc_entries_stop:
  "at_u16 (img_buf img) (unat (cur + 8 + i * 2)) = None \<Longrightarrow> reloc_entries img cur va n i acc = acc"
  by (cases n) simp_all

lemma cyclic_blocks:
  "reloc_blocks fuel cyclic_image 64 48 acc = None \<and> reloc_blocks fuel cyclic_image 64 56 acc = None"
proof (induction fuel arbitrary: acc)
  case 0
  then show ?case by simp
next
  case (Suc fuel)
  have "reloc_entries cyclic_image 56 0x1000 n 0 acc = acc" for n
    by (rule reloc_entries_stop) (simp add: cyclic_reads)
  moreover have wrap: "(4294967344 :: u32) = 48" by simp
  have "reloc_blocks fuel cyclic_image 64 4294967344 acc = None"
    using Suc unfolding wrap by blast
  ultimately show ?case using Suc by (simp add: cyclic_reads)
qed

section \<open>Properties\<close>

text \<open>
  \<^verbatim>\<open>collect_relocs\<close> does not end on every file.  On an image whose second relocation block
  has the size \<^verbatim>\<open>0xfffffff8\<close> the 32-bit sum \<^verbatim>\<open>cur_off += blk->SizeOfBlock\<close> leads back to the
  first block, so that no number of iterations is enough.
\<close>

theorem collect_relocs_cycles:
  "collect_relocs fuel cyclic_image = Inl RelocLoopDiverges"
proof -
  have "rva_to_offset (img_secs cyclic_image) 0x1000 = Some 48" "num_dd cyclic_image = 6"
      "dd_off cyclic_image = 0"
    by (simp_all add: cyclic_image_def in_sec_def sec_end_def)
  moreover have "reloc_end cyclic_image 48 16 = 64" by (simp add: reloc_end_def cyclic_reads)
  ultimately show ?thesis
    using cyclic_blocks by (simp add: collect_relocs_def cyclic_reads del: reloc_blocks.simps)
qed

text \<open>
  C16: when no block visited makes the offset wrap, one iteration per byte of the file is
  enough: the walk over the relocation blocks returns.
\<close>

theorem collect_relocs_returns:
  assumes "\<forall>dd cur. at_dd (img_buf img) (dd_off img + PE_DD_BASERELOC * 8) = Some dd \<and>
      rva_to_offset (img_secs img) (RelativeVirtualAddress dd) = Some cur \<longrightarrow>
      blocks_no_wrap img (reloc_end img cur (dd_Size dd)) cur"
    and "length (img_buf img) < 2 ^ 32" and "length (img_buf img) < fuel"
  shows "collect_relocs fuel img \<noteq> Inl RelocLoopDiverges"
proof -
  have e: "unat (reloc_end img cur sz) \<le> length (img_buf img)" for cur sz
  proof -
    let ?s = "ucast cur + ucast sz :: u64"
    have "unat (ucast ?s :: u32) \<le> unat ?s"
      by (simp add: unsigned_ucast_eq unsigned_take_bit_eq)
    then show ?thesis using assms(2) by (auto simp: reloc_end_def Let_def unat_of_nat_small)
  qed
  show ?thesis
  proof
    assume d: "collect_relocs fuel img = Inl RelocLoopDiverges"
    then obtain dd cur where "at_dd (img_buf img) (dd_off img + PE_DD_BASERELOC * 8) = Some dd"
        "rva_to_offset (img_secs img) (RelativeVirtualAddress dd) = Some cur"
      and none: "reloc_blocks fuel img (reloc_end img cur (dd_Size dd)) cur (img_relocs img) = None"
      by (auto simp: collect_relocs_def split: if_splits option.splits)
    then have "blocks_no_wrap img (reloc_end img cur (dd_Size dd)) cur" using assms(1) by blast
    then have "\<exists>rs. reloc_blocks fuel img (reloc_end img cur (dd_Size dd)) cur (img_relocs img) = Some rs"
      by (rule reloc_blocks_enough_fuel) (use assms(3) e [of cur "dd_Size dd"] in auto)
    with none show False by simp
  qed
qed

lemma update_pass_nth:
  "list_all (\<lambda>a. a + 8 \<le> length data) cs \<Longrightarrow> list_all (\<lambda>a. i < a \<or> a + 8 \<le> i) cs \<Longrightarrow>
   fold (\<lambda>a m. write64 m a (f (read64 m a))) cs data ! i = data ! i"
proof (induction cs arbitrary: data)
  case Nil
  then show ?case by simp
next
  case (Cons c cs)
  then show ?case by (simp add: length_write64 write64_nth list.pred_set)
qed

text \<open>
  C15: rebasing an image of less than 4 GB whose relocation sites do not overlap succeeds;
  it adds the difference of the bases to the eight bytes at each site, changes no other
  byte, records the new base and leaves no relocations.
\<close>

theorem rebase_adds_delta:
  assumes ok: "list_all (reloc_ok img) (img_relocs img)" and ne: "img_relocs img \<noteq> []"
    and small: "length (img_buf img) < 2 ^ 32" and base: "nb \<noteq> image_base img"
    and apart: "sorted_wrt (\<lambda>a b. disjoint8 a b \<and> disjoint8 b a) (map (site_of img) (img_relocs img))"
  shows "\<exists>img'. rebase nb img = Inr img' \<and> image_base img' = nb \<and> img_relocs img' = []
    \<and> length (img_buf img') = length (img_buf img)
    \<and> (\<forall>re \<in> set (img_relocs img).
         read64 (img_buf img') (site_of img re) = re_addend re + (nb - image_base img))
    \<and> (\<forall>i. (\<forall>re \<in> set (img_relocs img). i < site_of img re \<or> site_of img re + 8 \<le> i) \<longrightarrow>
         img_buf img' ! i = img_buf img ! i)"
proof -
  let ?d = "nb - image_base img" and ?sites = "map (site_of img) (img_relocs img)"
  let ?out = "fold (\<lambda>a m. write64 m a (read64 m a + ?d)) ?sites (img_buf img)"
  have site: "\<exists>off. rva_to_offset (img_secs img) (ucast (re_va re - image_base img)) = Some off \<and>
      unat off + 8 \<le> length (img_buf img) \<and> site_of img re = unat off \<and>
      re_addend re = read64 (img_buf img) (site_of img re)" if "re \<in> set (img_relocs img)" for re
    using ok that
    by (auto simp: list.pred_set reloc_ok_def site_of_def reloc_site_def split: option.splits)
  have in_buf: "list_all (\<lambda>a. a + 8 \<le> length (img_buf img)) ?sites"
    using site by (fastforce simp: list.pred_set)
  have "rebase_loop (img_secs img) (image_base img) ?d (img_relocs img) (img_buf img) = Inr ?out"
    by (rule rebase_loop_eq [OF _ small]) (use site in blast)
  then have r: "rebase nb img = Inr (img\<lparr>img_buf := ?out, image_base := nb, img_relocs := []\<rparr>)"
    using ne base by (simp add: rebase_def)
  have "read64 ?out (site_of img re) = re_addend re + ?d" if "re \<in> set (img_relocs img)" for re
    using buf64.update_pass_each [OF in_buf apart, of "site_of img re" "\<lambda>v. v + ?d"] site [OF that] that
    by auto
  moreover have "?out ! i = img_buf img ! i"
    if "\<forall>re \<in> set (img_relocs img). i < site_of img re \<or> site_of img re + 8 \<le> i" for i
    by (rule update_pass_nth [OF in_buf]) (use that in \<open>simp add: list.pred_set\<close>)
  moreover have "length ?out = length (img_buf img)" by (rule length_update_pass [OF in_buf])
  ultimately show ?thesis using r by simp
qed

end
