(* ===== verification/Elf_Types.thy ===== *)
theory Elf_Types
  imports Util
begin

text \<open>
  Models \<^verbatim>\<open>src/elf_types.hpp\<close>: the packed ELF64 structs as records, their images in memory
  (what \<^verbatim>\<open>out.append(&s, sizeof(s))\<close> writes on a little-endian host) and the constants.
  A signed field is the word of its bits.  The interface of a packed struct is the locale
  \<open>packed_struct\<close>: a fixed size and a decoder that inverts the encoder.  Its lemmas about
  tables of structs are interpreted for every struct of the output file.
\<close>

section \<open>Packed structs\<close>

locale packed_struct =
  fixes enc :: "'a \<Rightarrow> bytes"
    and dec :: "bytes \<Rightarrow> 'a"
    and size_of :: nat
  assumes length_enc: "length (enc x) = size_of"
    and dec_enc: "dec (enc x) = x"
begin

lemma length_table: "length (concat (map enc xs)) = length xs * size_of"
  by (induction xs) (simp_all add: length_enc)

lemma enc_inject: "enc x = enc y \<longleftrightarrow> x = y"
  by (metis dec_enc)

text \<open>The struct at index \<open>i\<close> of a table is found at \<open>i * size_of\<close>.\<close>

lemma table_nth:
  "i < length xs \<Longrightarrow> take size_of (drop (i * size_of) (concat (map enc xs))) = enc (xs ! i)"
proof (induction xs arbitrary: i)
  case Nil
  then show ?case by simp
next
  case (Cons x xs)
  show ?case
  proof (cases i)
    case 0
    then show ?thesis by (simp add: length_enc)
  next
    case (Suc j)
    with Cons show ?thesis by (simp add: length_enc)
  qed
qed

lemma table_lookup:
  assumes "i < length xs"
  shows "map_option dec (buf_at size_of (pre @ concat (map enc xs) @ post)
           (length pre + i * size_of)) = Some (xs ! i)"
proof -
  have "Suc i * size_of \<le> length xs * size_of" using assms by (intro mult_le_mono) auto
  then have b: "i * size_of + size_of \<le> length (concat (map enc xs))"
    by (simp add: length_table)
  then have "buf_at size_of (pre @ concat (map enc xs) @ post) (length pre + i * size_of) =
      Some (enc (xs ! i))"
    using table_nth [OF assms] by (simp add: buf_at_Some_iff)
  then show ?thesis by (simp add: dec_enc)
qed

end

section \<open>ELF structures\<close>

record Elf64_Ehdr =
  e_ident :: bytes
  e_type :: u16
  e_machine :: u16
  e_version :: u32
  e_entry :: u64
  e_phoff :: u64
  e_shoff :: u64
  e_flags :: u32
  e_ehsize :: u16
  e_phentsize :: u16
  e_phnum :: u16
  e_shentsize :: u16
  e_shnum :: u16
  e_shstrndx :: u16

record Elf64_Phdr =
  p_type :: u32
  p_flags :: u32
  p_offset :: u64
  p_vaddr :: u64
  p_paddr :: u64
  p_filesz :: u64
  p_memsz :: u64
  p_align :: u64

record Elf64_Shdr =
  sh_name :: u32
  sh_type :: u32
  sh_flags :: u64
  sh_addr :: u64
  sh_offset :: u64
  sh_size :: u64
  sh_link :: u32
  sh_info :: u32
  sh_addralign :: u64
  sh_entsize :: u64

record Elf64_Sym =
  st_name :: u32
  st_info :: u8
  st_other :: u8
  st_shndx :: u16
  st_value :: u64
  st_size :: u64

record Elf64_Rela =
  r_offset :: u64
  r_info :: u64
  r_addend :: u64

record Elf64_Dyn =
  d_tag :: u64
  d_val :: u64

definition enc_ehdr :: "Elf64_Ehdr \<Rightarrow> bytes" where
  "enc_ehdr h = e_ident h @ le_bytes 2 (e_type h) @ le_bytes 2 (e_machine h) @
     le_bytes 4 (e_version h) @ le_bytes 8 (e_entry h) @ le_bytes 8 (e_phoff h) @
     le_bytes 8 (e_shoff h) @ le_bytes 4 (e_flags h) @ le_bytes 2 (e_ehsize h) @
     le_bytes 2 (e_phentsize h) @ le_bytes 2 (e_phnum h) @ le_bytes 2 (e_shentsize h) @
     le_bytes 2 (e_shnum h) @ le_bytes 2 (e_shstrndx h)"

definition dec_ehdr :: "bytes \<Rightarrow> Elf64_Ehdr" where
  "dec_ehdr b = \<lparr>e_ident = field 0 16 b, e_type = le_word (field 16 2 b),
     e_machine = le_word (field 18 2 b), e_version = le_word (field 20 4 b),
     e_entry = le_word (field 24 8 b), e_phoff = le_word (field 32 8 b),
     e_shoff = le_word (field 40 8 b), e_flags = le_word (field 48 4 b),
     e_ehsize = le_word (field 52 2 b), e_phentsize = le_word (field 54 2 b),
     e_phnum = le_word (field 56 2 b), e_shentsize = le_word (field 58 2 b),
     e_shnum = le_word (field 60 2 b), e_shstrndx = le_word (field 62 2 b)\<rparr>"

definition enc_phdr :: "Elf64_Phdr \<Rightarrow> bytes" where
  "enc_phdr p = le_bytes 4 (p_type p) @ le_bytes 4 (p_flags p) @ le_bytes 8 (p_offset p) @
     le_bytes 8 (p_vaddr p) @ le_bytes 8 (p_paddr p) @ le_bytes 8 (p_filesz p) @
     le_bytes 8 (p_memsz p) @ le_bytes 8 (p_align p)"

definition dec_phdr :: "bytes \<Rightarrow> Elf64_Phdr" where
  "dec_phdr b = \<lparr>p_type = le_word (field 0 4 b), p_flags = le_word (field 4 4 b),
     p_offset = le_word (field 8 8 b), p_vaddr = le_word (field 16 8 b),
     p_paddr = le_word (field 24 8 b), p_filesz = le_word (field 32 8 b),
     p_memsz = le_word (field 40 8 b), p_align = le_word (field 48 8 b)\<rparr>"

definition enc_shdr :: "Elf64_Shdr \<Rightarrow> bytes" where
  "enc_shdr s = le_bytes 4 (sh_name s) @ le_bytes 4 (sh_type s) @ le_bytes 8 (sh_flags s) @
     le_bytes 8 (sh_addr s) @ le_bytes 8 (sh_offset s) @ le_bytes 8 (sh_size s) @
     le_bytes 4 (sh_link s) @ le_bytes 4 (sh_info s) @ le_bytes 8 (sh_addralign s) @
     le_bytes 8 (sh_entsize s)"

definition dec_shdr :: "bytes \<Rightarrow> Elf64_Shdr" where
  "dec_shdr b = \<lparr>sh_name = le_word (field 0 4 b), sh_type = le_word (field 4 4 b),
     sh_flags = le_word (field 8 8 b), sh_addr = le_word (field 16 8 b),
     sh_offset = le_word (field 24 8 b), sh_size = le_word (field 32 8 b),
     sh_link = le_word (field 40 4 b), sh_info = le_word (field 44 4 b),
     sh_addralign = le_word (field 48 8 b), sh_entsize = le_word (field 56 8 b)\<rparr>"

definition enc_sym :: "Elf64_Sym \<Rightarrow> bytes" where
  "enc_sym s = le_bytes 4 (st_name s) @ le_bytes 1 (st_info s) @ le_bytes 1 (st_other s) @
     le_bytes 2 (st_shndx s) @ le_bytes 8 (st_value s) @ le_bytes 8 (st_size s)"

definition dec_sym :: "bytes \<Rightarrow> Elf64_Sym" where
  "dec_sym b = \<lparr>st_name = le_word (field 0 4 b), st_info = le_word (field 4 1 b),
     st_other = le_word (field 5 1 b), st_shndx = le_word (field 6 2 b),
     st_value = le_word (field 8 8 b), st_size = le_word (field 16 8 b)\<rparr>"

definition enc_rela :: "Elf64_Rela \<Rightarrow> bytes" where
  "enc_rela r = le_bytes 8 (r_offset r) @ le_bytes 8 (r_info r) @ le_bytes 8 (r_addend r)"

definition dec_rela :: "bytes \<Rightarrow> Elf64_Rela" where
  "dec_rela b = \<lparr>r_offset = le_word (field 0 8 b), r_info = le_word (field 8 8 b),
     r_addend = le_word (field 16 8 b)\<rparr>"

definition enc_dyn :: "Elf64_Dyn \<Rightarrow> bytes" where
  "enc_dyn d = le_bytes 8 (d_tag d) @ le_bytes 8 (d_val d)"

definition dec_dyn :: "bytes \<Rightarrow> Elf64_Dyn" where
  "dec_dyn b = \<lparr>d_tag = le_word (field 0 8 b), d_val = le_word (field 8 8 b)\<rparr>"

text \<open>A value-initialised struct, \<^verbatim>\<open>Elf64_Sym{}\<close> and its kin.\<close>

definition zero_sym :: Elf64_Sym where
  "zero_sym = \<lparr>st_name = 0, st_info = 0, st_other = 0, st_shndx = 0, st_value = 0, st_size = 0\<rparr>"

definition zero_rela :: Elf64_Rela where
  "zero_rela = \<lparr>r_offset = 0, r_info = 0, r_addend = 0\<rparr>"

definition zero_phdr :: Elf64_Phdr where
  "zero_phdr = \<lparr>p_type = 0, p_flags = 0, p_offset = 0, p_vaddr = 0, p_paddr = 0,
     p_filesz = 0, p_memsz = 0, p_align = 0\<rparr>"

definition zero_shdr :: Elf64_Shdr where
  "zero_shdr = \<lparr>sh_name = 0, sh_type = 0, sh_flags = 0, sh_addr = 0, sh_offset = 0,
     sh_size = 0, sh_link = 0, sh_info = 0, sh_addralign = 0, sh_entsize = 0\<rparr>"

section \<open>Constants\<close>

abbreviation ET_EXEC :: u16 where "ET_EXEC \<equiv> 2"
abbreviation ET_DYN :: u16 where "ET_DYN \<equiv> 3"
abbreviation EM_X86_64 :: u16 where "EM_X86_64 \<equiv> 62"
abbreviation PT_LOAD :: u32 where "PT_LOAD \<equiv> 1"
abbreviation PT_DYNAMIC :: u32 where "PT_DYNAMIC \<equiv> 2"
abbreviation PT_INTERP :: u32 where "PT_INTERP \<equiv> 3"
abbreviation PT_PHDR :: u32 where "PT_PHDR \<equiv> 6"
abbreviation PT_GNU_RELRO :: u32 where "PT_GNU_RELRO \<equiv> 0x6474e552"
abbreviation PT_GNU_STACK :: u32 where "PT_GNU_STACK \<equiv> 0x6474e551"
abbreviation PF_X :: u32 where "PF_X \<equiv> 1"
abbreviation PF_W :: u32 where "PF_W \<equiv> 2"
abbreviation PF_R :: u32 where "PF_R \<equiv> 4"
abbreviation SHT_NULL :: u32 where "SHT_NULL \<equiv> 0"
abbreviation SHT_PROGBITS :: u32 where "SHT_PROGBITS \<equiv> 1"
abbreviation SHT_STRTAB :: u32 where "SHT_STRTAB \<equiv> 3"
abbreviation SHT_RELA :: u32 where "SHT_RELA \<equiv> 4"
abbreviation SHT_HASH :: u32 where "SHT_HASH \<equiv> 5"
abbreviation SHT_DYNAMIC :: u32 where "SHT_DYNAMIC \<equiv> 6"
abbreviation SHT_NOBITS :: u32 where "SHT_NOBITS \<equiv> 8"
abbreviation SHT_DYNSYM :: u32 where "SHT_DYNSYM \<equiv> 11"
abbreviation SHF_ALLOC :: u64 where "SHF_ALLOC \<equiv> 2"
abbreviation SHF_EXECINSTR :: u64 where "SHF_EXECINSTR \<equiv> 4"
abbreviation SHF_WRITE :: u64 where "SHF_WRITE \<equiv> 1"
abbreviation SHN_UNDEF :: u16 where "SHN_UNDEF \<equiv> 0"
abbreviation STB_GLOBAL :: u8 where "STB_GLOBAL \<equiv> 1"
abbreviation STT_FUNC :: u8 where "STT_FUNC \<equiv> 2"

definition ELF64_R_INFO :: "u64 \<Rightarrow> u32 \<Rightarrow> u64" where
  "ELF64_R_INFO s t = push_bit 32 s OR ucast t"

abbreviation R_X86_64_64 :: u32 where "R_X86_64_64 \<equiv> 1"
abbreviation R_X86_64_RELATIVE :: u32 where "R_X86_64_RELATIVE \<equiv> 8"
abbreviation DT_NEEDED :: u64 where "DT_NEEDED \<equiv> 1"
abbreviation DT_HASH :: u64 where "DT_HASH \<equiv> 4"
abbreviation DT_STRTAB :: u64 where "DT_STRTAB \<equiv> 5"
abbreviation DT_SYMTAB :: u64 where "DT_SYMTAB \<equiv> 6"
abbreviation DT_RELA :: u64 where "DT_RELA \<equiv> 7"
abbreviation DT_RELASZ :: u64 where "DT_RELASZ \<equiv> 8"
abbreviation DT_RELAENT :: u64 where "DT_RELAENT \<equiv> 9"
abbreviation DT_STRSZ :: u64 where "DT_STRSZ \<equiv> 10"
abbreviation DT_SYMENT :: u64 where "DT_SYMENT \<equiv> 11"
abbreviation DT_DEBUG :: u64 where "DT_DEBUG \<equiv> 21"
abbreviation DT_RUNPATH :: u64 where "DT_RUNPATH \<equiv> 29"
abbreviation DT_FLAGS_1 :: u64 where "DT_FLAGS_1 \<equiv> 0x6ffffffb"
abbreviation DT_NULL :: u64 where "DT_NULL \<equiv> 0"
abbreviation DF_1_NOW :: u64 where "DF_1_NOW \<equiv> 1"

section \<open>The structs satisfy the interface\<close>

lemmas struct_codec_simps = field_def le_word_le_bytes

interpretation phdr: packed_struct enc_phdr dec_phdr 56
  by unfold_locales (simp_all add: enc_phdr_def dec_phdr_def struct_codec_simps)

interpretation shdr: packed_struct enc_shdr dec_shdr 64
  by unfold_locales (simp_all add: enc_shdr_def dec_shdr_def struct_codec_simps)

interpretation sym: packed_struct enc_sym dec_sym 24
  by unfold_locales (simp_all add: enc_sym_def dec_sym_def struct_codec_simps)

interpretation rela: packed_struct enc_rela dec_rela 24
  by unfold_locales (simp_all add: enc_rela_def dec_rela_def struct_codec_simps)

interpretation dyn: packed_struct enc_dyn dec_dyn 16
  by unfold_locales (simp_all add: enc_dyn_def dec_dyn_def struct_codec_simps)

text \<open>
  The file header holds a 16-byte array, so that its codec law needs the array's length.
\<close>

lemma length_enc_ehdr: "length (e_ident h) = 16 \<Longrightarrow> length (enc_ehdr h) = 64"
  by (simp add: enc_ehdr_def)

lemma dec_enc_ehdr: "length (e_ident h) = 16 \<Longrightarrow> dec_ehdr (enc_ehdr h @ rest) = h"
  by (simp add: enc_ehdr_def dec_ehdr_def struct_codec_simps)

lemma rela_info_sym: "unat s < 2 ^ 32 \<Longrightarrow> drop_bit 32 (ELF64_R_INFO s t) = s"
proof -
  assume s: "unat s < 2 ^ 32"
  have "drop_bit 32 (ELF64_R_INFO s t) = drop_bit 32 (push_bit 32 s) OR drop_bit 32 (ucast t)"
    by (simp only: ELF64_R_INFO_def drop_bit_or)
  moreover have "drop_bit 32 (push_bit 32 s) = s"
  proof -
    have "drop_bit 32 (push_bit 32 s) = take_bit 32 s"
      by (rule bit_word_eqI) (auto simp: bit_simps)
    also have "\<dots> = s"
      using s by (simp add: word_unat_eq_iff unsigned_take_bit_eq take_bit_nat_eq_self)
    finally show ?thesis .
  qed
  moreover have "drop_bit 32 (ucast t :: u64) = 0"
    by (rule bit_word_eqI) (auto simp: bit_simps dest: bit_imp_le_length)
  ultimately show ?thesis by simp
qed

lemma rela_info_type: "ucast (ELF64_R_INFO s t) = t"
  by (rule bit_word_eqI) (auto simp: ELF64_R_INFO_def bit_simps)

section \<open>Properties\<close>

text \<open>
  Every ELF struct the program writes is recovered from its image in memory: the
  encoders of program headers, section headers, symbols, relocations and dynamic entries
  have the decoders as left inverses, and so has the file header when its identification
  array has its 16 bytes.
\<close>

theorem elf_structs_round_trip:
  "dec_phdr (enc_phdr p) = p \<and> dec_shdr (enc_shdr s) = s \<and> dec_sym (enc_sym y) = y
   \<and> dec_rela (enc_rela r) = r \<and> dec_dyn (enc_dyn d) = d
   \<and> (length (e_ident h) = 16 \<longrightarrow> dec_ehdr (enc_ehdr h) = h)"
  using dec_enc_ehdr [of h "[]"]
  by (simp add: phdr.dec_enc shdr.dec_enc sym.dec_enc rela.dec_enc dyn.dec_enc)

theorem elf_structs_round_trip_witness:
  "dec_rela (enc_rela \<lparr>r_offset = 0x1000, r_info = 8, r_addend = 0x140001000\<rparr>) =
     \<lparr>r_offset = 0x1000, r_info = 8, r_addend = 0x140001000\<rparr>"
  using elf_structs_round_trip [of zero_phdr zero_shdr zero_sym
      "\<lparr>r_offset = 0x1000, r_info = 8, r_addend = 0x140001000\<rparr>"] by simp

end
