(* ===== verification/Elf_Plan.thy ===== *)
theory Elf_Plan
  imports Pe_Relocs Elf_Types
begin

text \<open>
  Models \<^verbatim>\<open>compute_plan\<close> of \<^verbatim>\<open>src/elf_plan.hpp\<close>: the addresses and file offsets of
  everything in the output, in 64-bit words as the source has them.  The lemmas read the
  plan as natural numbers (no sum wraps for sizes below 4 GB and at most 96 sections) and
  show that the parts follow one another without overlap.
\<close>

record Plan =
  synth_va :: u64
  synth_foff :: u64
  synth_end_va :: u64
  interp_foff :: u64
  dynsym_foff :: u64
  dynstr_foff :: u64
  hash_foff :: u64
  rela_foff :: u64
  dynamic_foff :: u64
  trampoline_foff :: u64
  interp_va :: u64
  dynsym_va :: u64
  dynstr_va :: u64
  hash_va :: u64
  rela_va :: u64
  dynamic_va :: u64
  trampoline_va :: u64
  pe_data_foff :: u64
  pe_hdr_foff :: u64

definition kTrampolineSize :: u64 where
  "kTrampolineSize = 80"

definition kPhdrsMaxCount :: u64 where
  "kPhdrsMaxCount = 20"

definition kSynthMargin :: u64 where
  "kSynthMargin = 0x10000"

definition kSynthFallbackVa :: u64 where
  "kSynthFallbackVa = 0x200000"

text \<open>The padded size of a table of \<open>n\<close> elements of \<open>k\<close> bytes.\<close>

definition sized8 :: "nat \<Rightarrow> nat \<Rightarrow> u64" where
  "sized8 n k = align_up (of_nat n * of_nat k) 8"

text \<open>The size assumed for the synthetic segment when its address is chosen.\<close>

definition syn_size_needed :: "nat \<Rightarrow> nat \<Rightarrow> nat \<Rightarrow> nat \<Rightarrow> nat \<Rightarrow> nat \<Rightarrow> u64" where
  "syn_size_needed interp_size dynsym_count dynstr_size rela_count dt_entry_count hash_size =
     align_up
       (sized8 interp_size 1 + sized8 dynsym_count 24 + sized8 dynstr_size 1 + sized8 hash_size 1 +
        sized8 rela_count 24 + sized8 dt_entry_count 16 + kTrampolineSize +
        (64 + kPhdrsMaxCount * 56)) kPageSize"

definition choose_synth_va :: "u64 \<Rightarrow> u64 \<Rightarrow> u64" where
  "choose_synth_va base needed =
     (if base < needed + kSynthMargin then kSynthFallbackVa
      else (base - needed - kPageSize) AND NOT (kPageSize - 1))"

definition hdr_file_end :: "nat \<Rightarrow> u64" where
  "hdr_file_end n_pe_secs = align_up (64 + ucast (4 + of_nat n_pe_secs + 2 + 1 :: u32) * 56) 8"

text \<open>The section loop: file offsets, and the end of the last section.\<close>

fun layout_secs :: "u64 \<Rightarrow> Entry list \<Rightarrow> Entry list \<times> u64" where
  "layout_secs cur [] = ([], cur)"
| "layout_secs cur (e # es) =
     (let (es', fin) = layout_secs (align_up (cur + ucast (sec_rawsz e)) kPageSize) es
      in (e\<lparr>elf_foff := cur\<rparr> # es', fin))"

definition compute_plan ::
  "PeImage \<Rightarrow> nat \<Rightarrow> nat \<Rightarrow> nat \<Rightarrow> nat \<Rightarrow> nat \<Rightarrow> nat \<Rightarrow> Plan \<times> PeImage" where
  "compute_plan img interp_size dynsym_count dynstr_size rela_count dt_entry_count hash_size =
     (let needed = syn_size_needed interp_size dynsym_count dynstr_size rela_count
                     dt_entry_count hash_size;
          sva = choose_synth_va (image_base img) needed;
          f0 = hdr_file_end (length (img_secs img));
          f1 = f0 + sized8 interp_size 1;
          f2 = f1 + sized8 dynsym_count 24;
          f3 = f2 + sized8 dynstr_size 1;
          f4 = f3 + sized8 hash_size 1;
          f5 = f4 + sized8 rela_count 24;
          f6 = f5 + sized8 dt_entry_count 16;
          f7 = f6 + kTrampolineSize;
          v0 = sva + f0;
          v1 = v0 + sized8 interp_size 1;
          v2 = v1 + sized8 dynsym_count 24;
          v3 = v2 + sized8 dynstr_size 1;
          v4 = v3 + sized8 hash_size 1;
          v5 = v4 + sized8 rela_count 24;
          v6 = v5 + sized8 dt_entry_count 16;
          v7 = v6 + kTrampolineSize;
          data_foff = align_up f7 kPageSize;
          (secs', fin) = layout_secs data_foff (img_secs img)
      in (\<lparr>synth_va = sva, synth_foff = 0, synth_end_va = align_up v7 kPageSize,
           interp_foff = f0, dynsym_foff = f1, dynstr_foff = f2, hash_foff = f3,
           rela_foff = f4, dynamic_foff = f5, trampoline_foff = f6,
           interp_va = v0, dynsym_va = v1, dynstr_va = v2, hash_va = v3,
           rela_va = v4, dynamic_va = v5, trampoline_va = v6,
           pe_data_foff = data_foff, pe_hdr_foff = fin\<rparr>,
          img\<lparr>img_secs := secs'\<rparr>))"

section \<open>The plan over the natural numbers\<close>

text \<open>Sizes for which no sum of the plan wraps: the sizes of things held in memory.\<close>

definition plan_sizes_ok :: "nat list \<Rightarrow> bool" where
  "plan_sizes_ok ns \<longleftrightarrow> list_all (\<lambda>n. n < 2 ^ 32) ns"

lemma unat_add_eq:
  "unat (x :: u64) = a \<Longrightarrow> unat y = b \<Longrightarrow> a + b < 2 ^ 64 \<Longrightarrow> unat (x + y) = a + b"
  by (simp add: unat_add_nowrap)

lemma unat_sized8:
  assumes "n < 2 ^ 32" and "k \<le> 64"
  shows "unat (sized8 n k) = round_up 8 (n * k)"
proof -
  have "n * k \<le> 2 ^ 32 * 64" using assms by (intro mult_le_mono) auto
  then have b: "n * k < 2 ^ 63" by simp
  have "unat (of_nat n * of_nat k :: u64) = n * k"
    using b by (simp flip: of_nat_mult) (intro unat_of_nat_small, simp)
  with b show ?thesis by (simp add: sized8_def unat_align_up_8)
qed

lemma round_up_8_bound: "n < 2 ^ 32 \<Longrightarrow> k \<le> 64 \<Longrightarrow> round_up 8 (n * k) < 2 ^ 39"
proof -
  assume "n < 2 ^ 32" and "k \<le> 64"
  then have "n * k \<le> 2 ^ 32 * 64" by (intro mult_le_mono) auto
  moreover have "round_up 8 (n * k) < n * k + 8" by (rule round_up_less) simp
  ultimately show ?thesis by simp
qed

lemma unat_hdr_file_end: "n \<le> 96 \<Longrightarrow> unat (hdr_file_end n) = 64 + (n + 7) * 56"
proof -
  assume n: "n \<le> 96"
  have c: "(4 + of_nat n + 2 + 1 :: u32) = of_nat (n + 7)" by simp
  have "unat (of_nat (n + 7) :: u32) = n + 7" using n by (intro unat_of_nat_small) simp
  then have u: "unat (ucast (of_nat (n + 7) :: u32) :: u64) = n + 7" by simp
  have m: "unat (ucast (of_nat (n + 7) :: u32) * 56 :: u64) = (n + 7) * 56"
    using n u by (subst unat_mult_nowrap) auto
  have s: "unat (64 + ucast (of_nat (n + 7) :: u32) * 56 :: u64) = 64 + (n + 7) * 56"
    using n m by (subst unat_add_nowrap) auto
  have "round_up 8 (64 + (n + 7) * 56) = 64 + (n + 7) * 56"
    by (rule round_up_id) (auto simp: dvd_def intro!: exI [of _ "8 + (n + 7) * 7"])
  then show ?thesis
    using n s unfolding hdr_file_end_def c by (subst unat_align_up_8) auto
qed

text \<open>The running offsets, with the header block first and the trampoline last.\<close>

definition plan_steps :: "nat \<Rightarrow> nat \<Rightarrow> nat \<Rightarrow> nat \<Rightarrow> nat \<Rightarrow> nat \<Rightarrow> nat \<Rightarrow> nat list" where
  "plan_steps n isz dsym dstr rel dt hs =
     [64 + (n + 7) * 56, round_up 8 (isz * 1), round_up 8 (dsym * 24), round_up 8 (dstr * 1),
      round_up 8 (hs * 1), round_up 8 (rel * 24), round_up 8 (dt * 16)]"

lemma unat_sum_list:
  "sum_list (map unat (ws :: u64 list)) < 2 ^ 64 \<Longrightarrow> unat (sum_list ws) = sum_list (map unat ws)"
  by (induction ws) (simp_all add: unat_add_nowrap)

lemma sum_list_take_le: "sum_list (take k (ns :: nat list)) \<le> sum_list ns"
  by (metis append_take_drop_id le_add1 sum_list.append)

text \<open>The same steps as the words the source adds up.\<close>

definition plan_words :: "nat \<Rightarrow> nat \<Rightarrow> nat \<Rightarrow> nat \<Rightarrow> nat \<Rightarrow> nat \<Rightarrow> nat \<Rightarrow> u64 list" where
  "plan_words n isz dsym dstr rel dt hs =
     [hdr_file_end n, sized8 isz 1, sized8 dsym 24, sized8 dstr 1, sized8 hs 1, sized8 rel 24,
      sized8 dt 16]"

lemma plan_words_nat:
  assumes "n \<le> 96" and "plan_sizes_ok [isz, dsym, dstr, rel, dt, hs]"
  shows "map unat (plan_words n isz dsym dstr rel dt hs) = plan_steps n isz dsym dstr rel dt hs"
    and "sum_list (plan_steps n isz dsym dstr rel dt hs) + 80 < 2 ^ 43"
proof -
  have b: "isz < 2 ^ 32" "dsym < 2 ^ 32" "dstr < 2 ^ 32" "rel < 2 ^ 32" "dt < 2 ^ 32" "hs < 2 ^ 32"
    using assms(2) by (auto simp: plan_sizes_ok_def)
  show "map unat (plan_words n isz dsym dstr rel dt hs) = plan_steps n isz dsym dstr rel dt hs"
    unfolding plan_words_def plan_steps_def
    by (simp only: list.map unat_hdr_file_end [OF assms(1)] unat_sized8 b)
  show "sum_list (plan_steps n isz dsym dstr rel dt hs) + 80 < 2 ^ 43"
    using assms(1) round_up_8_bound [OF b(1), of 1] round_up_8_bound [OF b(2), of 24]
      round_up_8_bound [OF b(3), of 1] round_up_8_bound [OF b(6), of 1]
      round_up_8_bound [OF b(4), of 24] round_up_8_bound [OF b(5), of 16]
    by (simp add: plan_steps_def)
qed

lemma compute_plan_foffs:
  assumes "compute_plan img isz dsym dstr rel dt hs = (p, img')"
  shows "[interp_foff p, dynsym_foff p, dynstr_foff p, hash_foff p, rela_foff p, dynamic_foff p,
       trampoline_foff p] =
      map (\<lambda>k. sum_list (take k (plan_words (length (img_secs img)) isz dsym dstr rel dt hs)))
        [1, 2, 3, 4, 5, 6, 7]"
  using assms by (auto simp: compute_plan_def plan_words_def Let_def case_prod_beta add.assoc)

lemma compute_plan_nat:
  assumes n: "length (img_secs img) \<le> 96"
    and sz: "plan_sizes_ok [isz, dsym, dstr, rel, dt, hs]"
    and p: "compute_plan img isz dsym dstr rel dt hs = (p, img')"
  shows "map unat [interp_foff p, dynsym_foff p, dynstr_foff p, hash_foff p, rela_foff p,
            dynamic_foff p, trampoline_foff p] =
         map (\<lambda>k. sum_list (take k (plan_steps (length (img_secs img)) isz dsym dstr rel dt hs)))
           [1, 2, 3, 4, 5, 6, 7]"
    and "unat (trampoline_foff p) + 80 < 2 ^ 43"
    and "unat (pe_data_foff p) = round_up 4096 (unat (trampoline_foff p) + 80)"
proof -
  let ?ws = "plan_words (length (img_secs img)) isz dsym dstr rel dt hs"
  let ?ns = "plan_steps (length (img_secs img)) isz dsym dstr rel dt hs"
  note nat = plan_words_nat [OF n sz]
  have step: "unat (sum_list (take k ?ws)) = sum_list (take k ?ns)" for k
  proof -
    have "sum_list (take k ?ns) < 2 ^ 64"
      using sum_list_take_le [of k ?ns] nat(2) by simp
    then have "sum_list (map unat (take k ?ws)) < 2 ^ 64" by (simp add: nat(1) take_map [symmetric])
    then show ?thesis by (simp add: unat_sum_list nat(1) take_map [symmetric])
  qed
  show foffs: "map unat [interp_foff p, dynsym_foff p, dynstr_foff p, hash_foff p, rela_foff p,
      dynamic_foff p, trampoline_foff p] = map (\<lambda>k. sum_list (take k ?ns)) [1, 2, 3, 4, 5, 6, 7]"
    unfolding compute_plan_foffs [OF p] by (simp only: list.map step)
  then have tr: "unat (trampoline_foff p) = sum_list (take 7 ?ns)" by simp
  also have "\<dots> \<le> sum_list ?ns" by (rule sum_list_take_le)
  finally show t: "unat (trampoline_foff p) + 80 < 2 ^ 43" using nat(2) by linarith
  have "unat (trampoline_foff p + kTrampolineSize) = unat (trampoline_foff p) + 80"
    by (rule unat_add_eq) (use t in \<open>simp_all add: kTrampolineSize_def\<close>)
  moreover have "pe_data_foff p = align_up (trampoline_foff p + kTrampolineSize) kPageSize"
    using p by (auto simp: compute_plan_def Let_def case_prod_beta)
  ultimately show "unat (pe_data_foff p) = round_up 4096 (unat (trampoline_foff p) + 80)"
    using t by (simp add: unat_align_up_page)
qed

text \<open>Every address of the plan is its file offset shifted by the segment's address.\<close>

lemma compute_plan_va:
  assumes "compute_plan img isz dsym dstr rel dt hs = (p, img')"
  shows "interp_va p = synth_va p + interp_foff p" "dynsym_va p = synth_va p + dynsym_foff p"
    "dynstr_va p = synth_va p + dynstr_foff p" "hash_va p = synth_va p + hash_foff p"
    "rela_va p = synth_va p + rela_foff p" "dynamic_va p = synth_va p + dynamic_foff p"
    "trampoline_va p = synth_va p + trampoline_foff p" "synth_foff p = 0"
  using assms by (auto simp: compute_plan_def Let_def case_prod_beta)

section \<open>The sections\<close>

text \<open>
  The abstract layout of the section data: each at a page boundary at or after the end of
  the one before.
\<close>

fun laid_out :: "nat \<Rightarrow> Entry list \<Rightarrow> nat \<Rightarrow> bool" where
  "laid_out cur [] fin \<longleftrightarrow> fin = cur"
| "laid_out cur (e # es) fin \<longleftrightarrow>
     unat (elf_foff e) = cur \<and> laid_out (round_up 4096 (cur + unat (sec_rawsz e))) es fin"

lemma layout_secs_laid_out:
  assumes "layout_secs cur es = (es', fin)" and "unat cur + length es * 2 ^ 33 < 2 ^ 63"
  shows "laid_out (unat cur) es' (unat fin)"
  using assms
proof (induction cur es arbitrary: es' rule: layout_secs.induct)
  case (1 cur)
  then show ?case by simp
next
  case (2 cur e es)
  let ?next = "align_up (cur + ucast (sec_rawsz e)) kPageSize"
  obtain es1 where l: "layout_secs ?next es = (es1, fin)" and es': "es' = e\<lparr>elf_foff := cur\<rparr> # es1"
    using "2.prems"(1) by (auto simp: Let_def split: prod.splits)
  have r: "unat (sec_rawsz e) < 2 ^ 32" using unat_u32_less [of "sec_rawsz e"] by simp
  have s: "unat (cur + ucast (sec_rawsz e)) = unat cur + unat (sec_rawsz e)"
    by (rule unat_add_eq) (use "2.prems"(2) r in simp_all)
  have nx: "unat ?next = round_up 4096 (unat cur + unat (sec_rawsz e))"
    using "2.prems"(2) r s by (subst unat_align_up_page) auto
  have "unat ?next + length es * 2 ^ 33 < 2 ^ 63"
    using "2.prems"(2) r round_up_less [of 4096 "unat cur + unat (sec_rawsz e)"] nx by simp
  with "2.IH" [OF l] nx es' show ?case by simp
qed

lemma layout_secs_fields:
  "layout_secs cur es = (es', fin) \<Longrightarrow>
   length es' = length es \<and> (\<forall>i < length es. \<exists>f. es' ! i = (es ! i)\<lparr>elf_foff := f\<rparr>)"
proof (induction cur es arbitrary: es' rule: layout_secs.induct)
  case (1 cur)
  then show ?case by simp
next
  case (2 cur e es)
  then show ?case
    by (auto simp: Let_def All_less_Suc2 split: prod.splits)
qed

lemma laid_out_le: "laid_out cur es fin \<Longrightarrow> cur \<le> fin"
proof (induction es arbitrary: cur)
  case Nil
  then show ?case by simp
next
  case (Cons e es)
  then have "round_up 4096 (cur + unat (sec_rawsz e)) \<le> fin" by simp
  moreover have "cur + unat (sec_rawsz e) \<le> round_up 4096 (cur + unat (sec_rawsz e))"
    by (rule round_up_ge) simp
  ultimately show ?case by simp
qed

lemma laid_out_nth:
  assumes "laid_out cur es fin" and "4096 dvd cur" and "i < length es"
  shows "cur \<le> unat (elf_foff (es ! i))" "4096 dvd unat (elf_foff (es ! i))"
    "unat (elf_foff (es ! i)) + unat (sec_rawsz (es ! i)) \<le> fin"
    "j < i \<Longrightarrow> unat (elf_foff (es ! j)) + unat (sec_rawsz (es ! j)) \<le> unat (elf_foff (es ! i))"
proof -
  have "cur \<le> unat (elf_foff (es ! i)) \<and> 4096 dvd unat (elf_foff (es ! i)) \<and>
    unat (elf_foff (es ! i)) + unat (sec_rawsz (es ! i)) \<le> fin \<and>
    (\<forall>j < i. unat (elf_foff (es ! j)) + unat (sec_rawsz (es ! j)) \<le> unat (elf_foff (es ! i)))"
    using assms
  proof (induction es arbitrary: cur i)
    case Nil
    then show ?case by simp
  next
    case (Cons e es)
    let ?n = "round_up 4096 (cur + unat (sec_rawsz e))"
    have ge: "cur + unat (sec_rawsz e) \<le> ?n" by (rule round_up_ge) simp
    from Cons.prems(1) have l: "laid_out ?n es fin" and e: "unat (elf_foff e) = cur" by auto
    show ?case
    proof (cases i)
      case 0
      with e ge laid_out_le [OF l] Cons.prems(2) show ?thesis by simp
    next
      case (Suc k)
      with Cons.prems(3) have k: "k < length es" by simp
      from Cons.IH [OF l round_up_dvd k] e ge Suc show ?thesis by (auto simp: All_less_Suc2)
    qed
  qed
  then show "cur \<le> unat (elf_foff (es ! i))" "4096 dvd unat (elf_foff (es ! i))"
    "unat (elf_foff (es ! i)) + unat (sec_rawsz (es ! i)) \<le> fin"
    "j < i \<Longrightarrow> unat (elf_foff (es ! j)) + unat (sec_rawsz (es ! j)) \<le> unat (elf_foff (es ! i))"
    by auto
qed

lemma compute_plan_secs:
  assumes "compute_plan img isz dsym dstr rel dt hs = (p, img')"
    and "length (img_secs img) \<le> 96" and "plan_sizes_ok [isz, dsym, dstr, rel, dt, hs]"
  shows "laid_out (unat (pe_data_foff p)) (img_secs img') (unat (pe_hdr_foff p))"
    and "4096 dvd unat (pe_data_foff p)"
    and "length (img_secs img') = length (img_secs img)"
    and "img' = img\<lparr>img_secs := img_secs img'\<rparr>"
proof -
  note nat = compute_plan_nat [OF assms(2,3,1)]
  obtain l: "layout_secs (pe_data_foff p) (img_secs img) = (img_secs img', pe_hdr_foff p)"
    and i: "img' = img\<lparr>img_secs := img_secs img'\<rparr>"
    using assms(1) by (auto simp: compute_plan_def Let_def case_prod_beta)
  have "unat (pe_data_foff p) < unat (trampoline_foff p) + 80 + 4096"
    unfolding nat(3) by (rule round_up_less) simp
  with nat(2) assms(2) have "unat (pe_data_foff p) + length (img_secs img) * 2 ^ 33 < 2 ^ 63" by simp
  then show "laid_out (unat (pe_data_foff p)) (img_secs img') (unat (pe_hdr_foff p))"
    by (rule layout_secs_laid_out [OF l])
  show "4096 dvd unat (pe_data_foff p)" by (simp add: nat(3))
  show "length (img_secs img') = length (img_secs img)" using layout_secs_fields [OF l] by simp
  show "img' = img\<lparr>img_secs := img_secs img'\<rparr>" by (rule i)
qed

section \<open>The synthetic segment and the image\<close>

lemma hdr_13: "hdr_file_end 13 = 64 + kPhdrsMaxCount * 56"
  by (simp add: hdr_file_end_def kPhdrsMaxCount_def align_up_def)

lemma unat_syn_size_needed:
  assumes "plan_sizes_ok [isz, dsym, dstr, rel, dt, hs]"
  shows "unat (syn_size_needed isz dsym dstr rel dt hs) =
      round_up 4096 (sum_list (plan_steps 13 isz dsym dstr rel dt hs) + 80)"
proof -
  let ?ws = "plan_words 13 isz dsym dstr rel dt hs"
  note nat = plan_words_nat [OF _ assms, of 13, simplified]
  have w: "syn_size_needed isz dsym dstr rel dt hs =
      align_up (sum_list ?ws + kTrampolineSize) kPageSize"
    by (simp only: syn_size_needed_def plan_words_def sum_list.Cons sum_list.Nil hdr_13 ac_simps
        add_0_left add_0_right)
  have "unat (sum_list ?ws) = sum_list (plan_steps 13 isz dsym dstr rel dt hs)"
    using unat_sum_list [of ?ws] nat by simp
  moreover have "unat (sum_list ?ws + kTrampolineSize) = unat (sum_list ?ws) + 80"
    by (rule unat_add_eq) (use nat calculation in \<open>simp_all add: kTrampolineSize_def\<close>)
  ultimately show ?thesis using nat(2) unfolding w by (subst unat_align_up_page) auto
qed

lemma synth_segment_below:
  assumes p: "compute_plan img isz dsym dstr rel dt hs = (p, img')"
    and n: "length (img_secs img) \<le> 86" and sz: "plan_sizes_ok [isz, dsym, dstr, rel, dt, hs]"
    and room: "\<not> image_base img < syn_size_needed isz dsym dstr rel dt hs + kSynthMargin"
  shows "unat (synth_va p) + unat (trampoline_foff p) + 80 \<le> unat (image_base img)"
    and "4096 dvd unat (synth_va p)"
proof -
  let ?nd = "syn_size_needed isz dsym dstr rel dt hs"
  let ?s = "sum_list (plan_steps 13 isz dsym dstr rel dt hs) + 80"
  have nd: "unat ?nd = round_up 4096 ?s" by (rule unat_syn_size_needed [OF sz])
  have sb: "?s < 2 ^ 43" using plan_words_nat(2) [OF _ sz, of 13] by simp
  have ge: "?s \<le> unat ?nd" "unat ?nd < ?s + 4096"
    unfolding nd by (rule round_up_ge, simp, rule round_up_less, simp)
  have nm: "unat (?nd + kSynthMargin) = unat ?nd + 65536"
    by (rule unat_add_eq) (use ge sb in \<open>simp_all add: kSynthMargin_def\<close>)
  with room have base: "unat ?nd + 65536 \<le> unat (image_base img)" by (simp add: word_less_nat_alt)
  have s1: "unat (image_base img - ?nd) = unat (image_base img) - unat ?nd"
    using base by (intro unat_sub) (simp add: word_le_nat_alt)
  have s2: "unat (image_base img - ?nd - kPageSize) = unat (image_base img) - unat ?nd - 4096"
    using base s1 by (subst unat_sub) (simp_all add: word_le_nat_alt kPageSize_def)
  have va: "synth_va p = (image_base img - ?nd - kPageSize) AND NOT (mask 12)"
    using p room by (auto simp: compute_plan_def Let_def case_prod_beta choose_synth_va_def
        kPageSize_def mask_eq_exp_minus_1)
  have "unat (synth_va p) = (unat (image_base img) - unat ?nd - 4096) div 4096 * 4096"
    unfolding va unat_and_not_mask s2 by simp
  moreover have "unat (trampoline_foff p) + 80 \<le> ?s + 4096"
    using compute_plan_nat(1) [OF _ sz p] n by (simp add: plan_steps_def)
  moreover have "(unat (image_base img) - unat ?nd - 4096) div 4096 * 4096
      \<le> unat (image_base img) - unat ?nd - 4096"
    by (rule div_times_less_eq_dividend)
  ultimately show "unat (synth_va p) + unat (trampoline_foff p) + 80 \<le> unat (image_base img)"
    using base ge(1) by linarith
  show "4096 dvd unat (synth_va p)"
    unfolding va unat_and_not_mask by simp
qed

section \<open>Properties\<close>

text \<open>
  The section data in the output file.  Every section starts at a page boundary at or
  after the end of the trampoline and of all sections before it, and ends before the copy
  of the PE headers.
\<close>

theorem plan_sections_disjoint:
  assumes p: "compute_plan img isz dsym dstr rel dt hs = (p, img')"
    and n: "length (img_secs img) \<le> 96" and sz: "plan_sizes_ok [isz, dsym, dstr, rel, dt, hs]"
    and i: "i < length (img_secs img')"
  shows "4096 dvd unat (elf_foff (img_secs img' ! i))
    \<and> unat (trampoline_foff p) + 80 \<le> unat (elf_foff (img_secs img' ! i))
    \<and> unat (elf_foff (img_secs img' ! i)) + unat (sec_rawsz (img_secs img' ! i)) \<le> unat (pe_hdr_foff p)
    \<and> (\<forall>j < i. unat (elf_foff (img_secs img' ! j)) + unat (sec_rawsz (img_secs img' ! j))
         \<le> unat (elf_foff (img_secs img' ! i)))"
proof -
  note lay = compute_plan_secs [OF p n sz]
  note nth = laid_out_nth [OF lay(1,2) i]
  have "unat (trampoline_foff p) + 80 \<le> unat (pe_data_foff p)"
    using compute_plan_nat(3) [OF n sz p] round_up_ge [of 4096 "unat (trampoline_foff p) + 80"] by simp
  with nth(1) have "unat (trampoline_foff p) + 80 \<le> unat (elf_foff (img_secs img' ! i))" by simp
  with nth show ?thesis by blast
qed

text \<open>A section with some raw bytes, for concrete plans.\<close>

definition raw_section :: "u32 \<Rightarrow> u32 \<Rightarrow> Entry" where
  "raw_section va sz = \<lparr>sec_va = va, sec_raw = 0x400, sec_rawsz = sz, sec_virtsz = sz, sec_chars = 0,
     sec_name = [], sec_name_str = [], elf_foff = 0\<rparr>"

definition plan_image :: "Entry list \<Rightarrow> PeImage" where
  "plan_image secs = \<lparr>img_buf = [], peh_off = 0, oh_off = 0, dd_off = 0, num_dd = 0,
     img_secs = secs, img_imports = [], img_relocs = [], image_base = 0x140000000, ep_rva = 0,
     rdata_sec_idx = - 1, iat_sec_idx = [], tls_template_va = 0, tls_template_sz = 0,
     tls_zero_fill = 0, tls_align_chars = 0, tls_index_va = 0, tls_callbacks_va = 0\<rparr>"

definition plan0 :: Plan where
  "plan0 = fst (compute_plan (plan_image []) 28 3 46 3 12 0)"

theorem plan_sections_disjoint_witness:
  "let img' = snd (compute_plan (plan_image [raw_section 0x1000 0x200, raw_section 0x2000 0x1001])
     28 3 46 3 12 0)
   in 4096 dvd unat (elf_foff (img_secs img' ! 1)) \<and>
      unat (elf_foff (img_secs img' ! 0)) + unat (sec_rawsz (img_secs img' ! 0))
        \<le> unat (elf_foff (img_secs img' ! 1))"
proof -
  let ?img = "plan_image [raw_section 0x1000 0x200, raw_section 0x2000 0x1001]"
  obtain p img' where c: "compute_plan ?img 28 3 46 3 12 0 = (p, img')" by fastforce
  have l: "length (img_secs ?img) \<le> 96" "plan_sizes_ok [28, 3, 46, 3, 12, 0]"
    by (simp_all add: plan_image_def plan_sizes_ok_def)
  have "length (img_secs img') = 2"
    using compute_plan_secs(3) [OF c l] by (simp add: plan_image_def)
  with plan_sections_disjoint [OF c l, of 1] c show ?thesis by simp
qed

text \<open>
  C17: with at most 86 sections and an image base that leaves room, the synthetic segment
  (headers, tables, trampoline) starts at a page boundary and ends at or below the image
  base, so that it cannot overlap the PE image.
\<close>

theorem synth_segment_clear_of_image:
  assumes "compute_plan img isz dsym dstr rel dt hs = (p, img')"
    and "length (img_secs img) \<le> 86" and "plan_sizes_ok [isz, dsym, dstr, rel, dt, hs]"
    and "\<not> image_base img < syn_size_needed isz dsym dstr rel dt hs + kSynthMargin"
  shows "4096 dvd unat (synth_va p)
    \<and> unat (synth_va p) + unat (trampoline_foff p) + 80 \<le> unat (image_base img)"
  using synth_segment_below [OF assms] by simp

theorem synth_segment_clear_of_image_witness:
  "let p = fst (compute_plan (plan_image (replicate 86 (raw_section 0x1000 0))) 28 3 2464 3 12 0)
   in unat (synth_va p) + unat (trampoline_foff p) + 80 \<le> 0x140000000"
proof -
  let ?img = "plan_image (replicate 86 (raw_section 0x1000 0))"
  obtain p img' where c: "compute_plan ?img 28 3 2464 3 12 0 = (p, img')" by fastforce
  have l: "length (img_secs ?img) \<le> 86" "plan_sizes_ok [28, 3, 2464, 3, 12, 0]"
    by (simp_all add: plan_image_def plan_sizes_ok_def)
  have "\<not> image_base ?img < syn_size_needed 28 3 2464 3 12 0 + kSynthMargin"
    by (simp add: plan_image_def syn_size_needed_def sized8_def align_up_def kPageSize_def
        kTrampolineSize_def kPhdrsMaxCount_def kSynthMargin_def)
  from synth_segment_clear_of_image [OF c l this] c show ?thesis by (simp add: plan_image_def)
qed

text \<open>
  \<^verbatim>\<open>parse\<close> admits 96 sections, but the space reserved below the image counts only twenty
  program headers.  With 96 sections, 28 bytes of interpreter name, 3 symbols, 2464 bytes of
  strings, 3 relocations and 12 dynamic entries, the synthetic segment ends above the image
  base and overlaps the page of the PE headers.
\<close>

theorem synth_segment_overlaps_image:
  "let p = fst (compute_plan (plan_image (replicate 96 (raw_section 0x1000 0))) 28 3 2464 3 12 0)
   in unat (synth_va p) < 0x140000000 \<and>
      unat (synth_va p) + unat (trampoline_foff p) + 80 > 0x140000000"
proof -
  have h: "hdr_file_end 96 = 5832" by (simp add: hdr_file_end_def align_up_def)
  have l: "length (img_secs (plan_image (replicate 96 (raw_section 0x1000 0)))) = 96"
    by (simp add: plan_image_def)
  show ?thesis
    unfolding compute_plan_def l h
    by (simp add: Let_def case_prod_beta syn_size_needed_def sized8_def align_up_def kPageSize_def
        kTrampolineSize_def kPhdrsMaxCount_def kSynthMargin_def choose_synth_va_def plan_image_def)
qed

end
