(* ===== verification/Elf_Symbols.thy ===== *)
theory Elf_Symbols
  imports Elf_Plan
begin

text \<open>
  Models the first half of \<^verbatim>\<open>Builder\<close> (\<^verbatim>\<open>src/elf_build.hpp\<close>): the dynamic string table,
  symbol table, relocation table and SysV hash table of the output.  The builder's fields
  are the record \<open>Builder\<close>; the image it holds a reference to, whose imports get their
  symbol indices here, is passed and returned.
\<close>

record Builder =
  shim_name :: bytes
  interp :: bytes
  strip_pdata :: bool
  inject_name :: bytes
  interp_data :: bytes
  dynstr_data :: bytes
  dynsym_data :: "Elf64_Sym list"
  rela_data :: "Elf64_Rela list"
  dynamic_data :: "Elf64_Dyn list"
  trampoline_data :: bytes
  hash_data :: bytes
  iat_patched :: "int \<rightharpoonup> bytes"
  phdrs :: "Elf64_Phdr list"
  shdrs :: "Elf64_Shdr list"
  shstrtab_data :: bytes
  dynstr_shim_off :: u32
  dynstr_rpath_off :: u32
  dynstr_inject_off :: u32
  b_tls_template_va :: u64
  b_tls_template_sz :: u64
  b_tls_zero_fill :: u64
  b_tls_align_chars :: u64
  b_tls_index_va :: u64
  b_tls_callbacks_va :: u64
  shim_reg_tls_sym_idx :: nat
  shim_reg_tls_rela_idx :: nat
  so_mode :: bool
  safe_entry_va :: u64
  entrypoint_sym_idx :: nat
  tls_va_rela_idx :: "nat option list"

text \<open>The constructor and the default member initialisers; \<open>None\<close> stands for \<^verbatim>\<open>SIZE_MAX\<close>.\<close>

definition new_builder :: "bytes \<Rightarrow> bytes \<Rightarrow> bool \<Rightarrow> bytes \<Rightarrow> Builder" where
  "new_builder shim itp sp inject =
     \<lparr>shim_name = shim, interp = itp, strip_pdata = sp, inject_name = inject,
      interp_data = [], dynstr_data = [], dynsym_data = [], rela_data = [], dynamic_data = [],
      trampoline_data = [], hash_data = [], iat_patched = Map.empty, phdrs = [], shdrs = [],
      shstrtab_data = [], dynstr_shim_off = 0, dynstr_rpath_off = 0, dynstr_inject_off = 0,
      b_tls_template_va = 0, b_tls_template_sz = 0, b_tls_zero_fill = 0, b_tls_align_chars = 0,
      b_tls_index_va = 0, b_tls_callbacks_va = 0, shim_reg_tls_sym_idx = 0,
      shim_reg_tls_rela_idx = 0, so_mode = False, safe_entry_va = 0, entrypoint_sym_idx = 0,
      tls_va_rela_idx = [None, None, None]\<rparr>"

definition dt_entry_count :: "Builder \<Rightarrow> nat" where
  "dt_entry_count b =
     12 + (if inject_name b = [] then 0 else 1) + (if so_mode b then 1 else 0)"

section \<open>The SysV hash table\<close>

text \<open>The loop of \<^verbatim>\<open>elf_sysv_hash\<close> over the characters of a C string.\<close>

fun sysv_hash_loop :: "u32 \<Rightarrow> bytes \<Rightarrow> u32" where
  "sysv_hash_loop h [] = h"
| "sysv_hash_loop h (c # cs) =
     (let h1 = push_bit 4 h + ucast c;
          g = h1 AND 0xf0000000;
          h2 = (if g \<noteq> 0 then h1 XOR drop_bit 24 g else h1)
      in sysv_hash_loop (h2 AND NOT g) cs)"

definition elf_sysv_hash :: "bytes \<Rightarrow> u32" where
  "elf_sysv_hash name = sysv_hash_loop 0 name"

text \<open>The name of a symbol: the C string at \<^verbatim>\<open>st_name\<close> of the string table.\<close>

definition sym_name :: "bytes \<Rightarrow> Elf64_Sym \<Rightarrow> bytes" where
  "sym_name dynstr s = c_str (drop (unat (st_name s)) dynstr)"

definition hash_insert ::
  "bytes \<Rightarrow> Elf64_Sym list \<Rightarrow> u32 \<Rightarrow> nat \<Rightarrow> u32 list \<times> u32 list \<Rightarrow> u32 list \<times> u32 list" where
  "hash_insert dynstr syms nbucket i bc =
     (if unat (st_name (syms ! i)) \<ge> length dynstr then bc
      else
        let (buckets, chain) = bc;
            bucket = unat (elf_sysv_hash (sym_name dynstr (syms ! i)) mod nbucket)
        in (buckets[bucket := of_nat i], chain[i := buckets ! bucket]))"

text \<open>The two arrays after the symbols below \<open>k\<close> have been entered.\<close>

fun hash_fill ::
  "bytes \<Rightarrow> Elf64_Sym list \<Rightarrow> u32 \<Rightarrow> nat \<Rightarrow> u32 list \<times> u32 list \<Rightarrow> u32 list \<times> u32 list" where
  "hash_fill dynstr syms nbucket 0 bc = bc"
| "hash_fill dynstr syms nbucket (Suc k) bc =
     (if k = 0 then bc
      else hash_insert dynstr syms nbucket k (hash_fill dynstr syms nbucket k bc))"

definition hash_arrays :: "bytes \<Rightarrow> Elf64_Sym list \<Rightarrow> u32 list \<times> u32 list" where
  "hash_arrays dynstr syms =
     (let nchain = of_nat (length syms) :: u32;
          nbucket = (if nchain \<noteq> 0 then nchain else 1)
      in hash_fill dynstr syms nbucket (unat nchain)
           (replicate (unat nbucket) 0, replicate (unat nchain) 0))"

definition push32s :: "u32 list \<Rightarrow> bytes" where
  "push32s ws = concat (map (le_bytes 4) ws)"

definition build_hash :: "Builder \<Rightarrow> Builder" where
  "build_hash b =
     (let nchain = of_nat (length (dynsym_data b)) :: u32;
          nbucket = (if nchain \<noteq> 0 then nchain else 1);
          (buckets, chain) = hash_arrays (dynstr_data b) (dynsym_data b)
      in b\<lparr>hash_data := push32s ([nbucket, nchain] @ buckets @ chain)\<rparr>)"

section \<open>Symbol names\<close>

fun rfind :: "u8 \<Rightarrow> bytes \<Rightarrow> nat option" where
  "rfind c [] = None"
| "rfind c (x # xs) =
     (case rfind c xs of
        Some k \<Rightarrow> Some (Suc k)
      | None \<Rightarrow> if x = c then Some 0 else None)"

definition make_elf_sym_name :: "bytes \<Rightarrow> bytes \<Rightarrow> bytes" where
  "make_elf_sym_name dll fn =
     (let prefix = (case rfind 46 dll of Some dot \<Rightarrow> take dot dll | None \<Rightarrow> dll)
      in map to_lower prefix @ [95] @ fn)"

section \<open>build_synthetic_sections\<close>

text \<open>Pushing a string and its terminator.\<close>

definition push_str :: "bytes \<Rightarrow> bytes \<Rightarrow> bytes" where
  "push_str d s = d @ s @ [0]"

fun find_name :: "nat \<Rightarrow> bytes list \<Rightarrow> bytes \<Rightarrow> nat option" where
  "find_name k [] s = None"
| "find_name k (n # ns) s = (if n = s then Some k else find_name (Suc k) ns s)"

text \<open>The loop that numbers the imports by their symbol names.\<close>

fun assign_syms :: "ImportEntry list \<Rightarrow> bytes list \<Rightarrow> ImportEntry list \<times> bytes list" where
  "assign_syms [] uniq = ([], uniq)"
| "assign_syms (ie # ies) uniq =
     (let s = make_elf_sym_name (dll_name ie) (func_name ie) in
      case find_name 0 uniq s of
        Some k \<Rightarrow>
          (let (ies', uniq') = assign_syms ies uniq
           in (ie\<lparr>sym_index := of_nat (k + 1)\<rparr> # ies', uniq'))
      | None \<Rightarrow>
          (let (ies', uniq') = assign_syms ies (uniq @ [s])
           in (ie\<lparr>sym_index := of_nat (length uniq + 1)\<rparr> # ies', uniq')))"

definition func_sym :: "u32 \<Rightarrow> Elf64_Sym" where
  "func_sym off = zero_sym\<lparr>st_name := off, st_info := push_bit 4 STB_GLOBAL OR STT_FUNC,
     st_shndx := SHN_UNDEF\<rparr>"

text \<open>Adding an undefined function symbol: its name to the strings, itself to the table.\<close>

definition add_func_sym :: "bytes \<Rightarrow> bytes \<times> Elf64_Sym list \<Rightarrow> bytes \<times> Elf64_Sym list" where
  "add_func_sym name ds =
     (let (d, syms) = ds in (push_str d name, syms @ [func_sym (of_nat (length d))]))"

definition import_rela :: "u64 \<Rightarrow> ImportEntry \<Rightarrow> Elf64_Rela" where
  "import_rela base ie = zero_rela\<lparr>r_offset := base + ucast (iat_rva ie),
     r_info := ELF64_R_INFO (ucast (sym_index ie)) R_X86_64_64\<rparr>"

definition base_rela :: "BaseRelocEntry \<Rightarrow> Elf64_Rela" where
  "base_rela re = zero_rela\<lparr>r_offset := re_va re,
     r_info := ELF64_R_INFO 0 R_X86_64_RELATIVE, r_addend := re_addend re\<rparr>"

definition add_tls_va_reloc :: "nat \<Rightarrow> u64 \<Rightarrow> Builder \<Rightarrow> Builder" where
  "add_tls_va_reloc which va b =
     (if va = 0 then b
      else b\<lparr>tls_va_rela_idx := (tls_va_rela_idx b)[which := Some (length (rela_data b))],
             rela_data := rela_data b @ [zero_rela\<lparr>r_info := ELF64_R_INFO 0 R_X86_64_RELATIVE,
               r_addend := va\<rparr>]\<rparr>)"

definition entrypoint_sym :: "u32 \<Rightarrow> Elf64_Sym" where
  "entrypoint_sym off = (func_sym off)\<lparr>st_shndx := 1, st_value := 0, st_size := kTrampolineSize\<rparr>"

text \<open>The \<^verbatim>\<open>if( so_mode )\<close> block.\<close>

definition add_so_exports :: "Builder \<Rightarrow> Builder" where
  "add_so_exports b =
     (let b1 = b\<lparr>entrypoint_sym_idx := length (dynsym_data b),
                 dynsym_data := dynsym_data b @ [entrypoint_sym (of_nat (length (dynstr_data b)))],
                 dynstr_data := push_str (dynstr_data b) (str_bytes ''_entrypoint'')\<rparr>;
          b2 = add_tls_va_reloc 0 (b_tls_template_va b1) b1;
          b3 = add_tls_va_reloc 1 (b_tls_index_va b2) b2;
          b4 = add_tls_va_reloc 2 (b_tls_callbacks_va b3) b3
      in build_hash b4)"

text \<open>The fixed strings at the start of the string table.\<close>

definition build_strings :: "Builder \<Rightarrow> Builder" where
  "build_strings b =
     (let d0 = dynstr_data b @ [0];
          d1 = push_str d0 (shim_name b);
          d2 = push_str d1 (str_bytes ''$ORIGIN'');
          b1 = b\<lparr>interp_data := interp b @ [0], dynstr_data := d2,
                 dynstr_shim_off := of_nat (length d0), dynstr_rpath_off := of_nat (length d1)\<rparr>
      in if inject_name b = [] then b1
         else b1\<lparr>dynstr_inject_off := of_nat (length d2),
                 dynstr_data := push_str d2 (inject_name b)\<rparr>)"

definition build_symbols :: "PeImage \<Rightarrow> Builder \<Rightarrow> PeImage \<times> Builder" where
  "build_symbols img b =
     (let (ies, uniq) = assign_syms (img_imports img) [];
          (d, syms) = fold add_func_sym uniq (dynstr_data b, dynsym_data b @ [zero_sym]);
          relas = rela_data b @ map (import_rela (image_base img)) ies @
                    map base_rela (img_relocs img);
          (d', syms') = add_func_sym (str_bytes ''shim_register_tls'') (d, syms)
      in (img\<lparr>img_imports := ies\<rparr>,
          b\<lparr>dynstr_data := d', dynsym_data := syms',
            shim_reg_tls_sym_idx := length syms, shim_reg_tls_rela_idx := length relas,
            rela_data := relas @
              [zero_rela\<lparr>r_info := ELF64_R_INFO (ucast (of_nat (length syms) :: u32)) R_X86_64_64\<rparr>]\<rparr>))"

definition build_synthetic_sections :: "PeImage \<Rightarrow> Builder \<Rightarrow> PeImage \<times> Builder" where
  "build_synthetic_sections img b =
     (let (img', b') = build_symbols img (build_strings b)
      in (img', if so_mode b' then add_so_exports b' else b'))"

section \<open>Facts: the hash table\<close>

interpretation w32: packed_struct "le_bytes 4 :: u32 \<Rightarrow> bytes" le_word 4
  by unfold_locales (simp_all add: le_word_le_bytes)

text \<open>
  The lookup that the System V gABI prescribes over the bytes of the table: the words
  \<^verbatim>\<open>nbucket\<close>, \<^verbatim>\<open>nchain\<close>, the buckets, the chains.  \<open>chain_walk\<close> is the list of symbol indices
  that a search starting at an index visits.
\<close>

definition hash_word :: "bytes \<Rightarrow> nat \<Rightarrow> u32" where
  "hash_word tab k = le_word (take 4 (drop (k * 4) tab))"

fun chain_walk :: "(nat \<Rightarrow> u32) \<Rightarrow> nat \<Rightarrow> nat \<Rightarrow> nat list" where
  "chain_walk chain 0 i = []"
| "chain_walk chain (Suc fuel) i =
     (if i = 0 then [] else i # chain_walk chain fuel (unat (chain i)))"

definition sysv_candidates :: "bytes \<Rightarrow> bytes \<Rightarrow> nat list" where
  "sysv_candidates tab name =
     (let nbucket = hash_word tab 0;
          start = hash_word tab (2 + unat (elf_sysv_hash name mod nbucket))
      in chain_walk (\<lambda>i. hash_word tab (2 + unat nbucket + i)) (unat (hash_word tab 1)) (unat start))"

definition sysv_matches :: "bytes \<Rightarrow> bytes \<Rightarrow> Elf64_Sym list \<Rightarrow> bytes \<Rightarrow> nat list" where
  "sysv_matches tab dynstr syms name =
     filter (\<lambda>i. sym_name dynstr (syms ! i) = name) (sysv_candidates tab name)"

lemma chain_walk_cong:
  "(\<And>i. i \<in> set (chain_walk f fuel k) \<Longrightarrow> g i = f i) \<Longrightarrow> chain_walk g fuel k = chain_walk f fuel k"
proof (induction fuel arbitrary: k)
  case 0
  then show ?case by simp
next
  case (Suc fuel)
  show ?case
  proof (cases "k = 0")
    case True
    then show ?thesis by simp
  next
    case False
    then have "g k = f k" using Suc.prems by simp
    with False Suc show ?thesis by simp
  qed
qed

text \<open>The indices below \<open>k\<close> that belong to a bucket.\<close>

definition in_bucket :: "bytes \<Rightarrow> Elf64_Sym list \<Rightarrow> u32 \<Rightarrow> nat \<Rightarrow> nat \<Rightarrow> bool" where
  "in_bucket dynstr syms nb c i \<longleftrightarrow>
     unat (st_name (syms ! i)) < length dynstr \<and>
     unat (elf_sysv_hash (sym_name dynstr (syms ! i)) mod nb) = c"

lemma unat_mod_less: "nb \<noteq> 0 \<Longrightarrow> unat ((x :: u32) mod nb) < unat nb"
  by (simp add: unat_mod word_neq_0_conv [symmetric] unat_gt_0)

lemma hash_fill_lengths:
  "length (fst (hash_fill dynstr syms nb k bc)) = length (fst bc) \<and>
   length (snd (hash_fill dynstr syms nb k bc)) = length (snd bc)"
  by (induction k) (auto simp: hash_insert_def Let_def case_prod_beta)

lemma hash_fill_walk:
  assumes "nb \<noteq> 0" and "n < 2 ^ 32" and "k \<le> n" and "c < unat nb" and "k \<le> fuel"
    and "hash_fill dynstr syms nb k (replicate (unat nb) 0, replicate n 0) = (bs, ch)"
  shows "chain_walk (\<lambda>i. ch ! i) fuel (unat (bs ! c)) =
      rev (filter (in_bucket dynstr syms nb c) [1..<k])"
  using assms(3-)
proof (induction k arbitrary: fuel bs ch)
  case 0
  then show ?case by (cases fuel) auto
next
  case (Suc k)
  show ?case
  proof (cases "k = 0")
    case True
    with Suc.prems show ?thesis by (cases fuel) auto
  next
    case k: False
    let ?init = "(replicate (unat nb) 0, replicate n 0) :: u32 list \<times> u32 list"
    obtain bs0 ch0 where p: "hash_fill dynstr syms nb k ?init = (bs0, ch0)" by fastforce
    have len: "length bs0 = unat nb" "length ch0 = n"
      using hash_fill_lengths [of dynstr syms nb k ?init] p by auto
    have IH: "chain_walk (\<lambda>i. ch0 ! i) f (unat (bs0 ! c)) =
        rev (filter (in_bucket dynstr syms nb c) [1..<k])" if "k \<le> f" for f
      using Suc.IH [OF _ _ _ p] Suc.prems that by simp
    let ?h = "unat (elf_sysv_hash (sym_name dynstr (syms ! k)) mod nb)"
    have upt: "[1..<Suc k] = [1..<k] @ [k]" using k by simp
    show ?thesis
    proof (cases "unat (st_name (syms ! k)) \<ge> length dynstr")
      case True
      then have "bs = bs0" "ch = ch0" using Suc.prems(4) k p by (simp_all add: hash_insert_def)
      moreover have "\<not> in_bucket dynstr syms nb c k" using True by (simp add: in_bucket_def)
      ultimately show ?thesis using IH [of fuel] Suc.prems(3) by (simp add: upt)
    next
      case False
      then have bc: "bs = bs0[?h := of_nat k]" "ch = ch0[k := bs0 ! ?h]"
        using Suc.prems(4) k p by (simp_all add: hash_insert_def Let_def)
      have old: "chain_walk (\<lambda>i. ch ! i) f (unat (bs0 ! c)) =
          rev (filter (in_bucket dynstr syms nb c) [1..<k])" if "k \<le> f" for f
        unfolding IH [OF that, symmetric]
        by (rule chain_walk_cong) (auto simp: bc(2) IH [OF that])
      show ?thesis
      proof (cases "?h = c")
        case True
        have k32: "unat (of_nat k :: u32) = k"
          using Suc.prems(1) assms(2) by (intro unat_of_nat_small) simp
        obtain f where f: "fuel = Suc f" "k \<le> f" using Suc.prems(3) by (cases fuel) auto
        have "bs ! c = of_nat k" "ch ! k = bs0 ! c"
          using True Suc.prems(1,2) len by (auto simp: bc)
        moreover have "in_bucket dynstr syms nb c k" using False True by (simp add: in_bucket_def)
        ultimately show ?thesis using k32 f k old [OF f(2)] by (simp add: upt)
      next
        case ne: False
        then have "bs ! c = bs0 ! c" by (simp add: bc)
        moreover have "\<not> in_bucket dynstr syms nb c k" using ne by (simp add: in_bucket_def)
        ultimately show ?thesis using old [of fuel] Suc.prems(3) by (simp add: upt)
      qed
    qed
  qed
qed

lemma hash_word_push32s: "k < length ws \<Longrightarrow> hash_word (push32s ws) k = ws ! k"
  by (simp add: hash_word_def push32s_def w32.table_nth le_word_le_bytes)

text \<open>
  The table answers every lookup: its candidates that have the name are all the symbols of
  that name, the one entered last first.
\<close>

lemma build_hash_matches:
  assumes n: "length (dynsym_data b) < 2 ^ 32" "dynsym_data b \<noteq> []"
    and names: "\<forall>s \<in> set (dynsym_data b). unat (st_name s) < length (dynstr_data b)"
  shows "sysv_matches (hash_data (build_hash b)) (dynstr_data b) (dynsym_data b) name =
    rev (filter (\<lambda>i. sym_name (dynstr_data b) (dynsym_data b ! i) = name)
      [1..<length (dynsym_data b)])"
proof -
  let ?n = "length (dynsym_data b)" and ?nb = "of_nat (length (dynsym_data b)) :: u32"
  obtain bs ch where p: "hash_arrays (dynstr_data b) (dynsym_data b) = (bs, ch)" by fastforce
  have un: "unat ?nb = ?n" using n(1) by (intro unat_of_nat_small) simp
  then have nb: "?nb \<noteq> 0" using n(2) by (metis length_0_conv unsigned_0)
  have fill: "hash_fill (dynstr_data b) (dynsym_data b) ?nb ?n
      (replicate (unat ?nb) 0, replicate ?n 0) = (bs, ch)"
    using p nb un by (simp add: hash_arrays_def)
  have len: "length bs = ?n" "length ch = ?n"
    using hash_fill_lengths [of "dynstr_data b" "dynsym_data b" ?nb ?n
        "(replicate (unat ?nb) 0, replicate ?n 0)"] fill un by auto
  let ?ws = "[?nb, ?nb] @ bs @ ch"
  have tab: "hash_data (build_hash b) = push32s ?ws"
    using p nb by (simp add: build_hash_def Let_def)
  let ?c = "unat (elf_sysv_hash name mod ?nb)"
  have c: "?c < ?n" using unat_mod_less [OF nb] un by simp
  have w: "hash_word (push32s ?ws) 0 = ?nb" "hash_word (push32s ?ws) 1 = ?nb"
      "hash_word (push32s ?ws) (2 + ?c) = bs ! ?c"
    using c len by (simp_all add: hash_word_push32s nth_append)
  have chain: "hash_word (push32s ?ws) (2 + ?n + i) = ch ! i" if "i < ?n" for i
    using that len by (simp add: hash_word_push32s nth_append)
  have walk: "chain_walk (\<lambda>i. ch ! i) ?n (unat (bs ! ?c)) =
      rev (filter (in_bucket (dynstr_data b) (dynsym_data b) ?nb ?c) [1..<?n])"
    by (rule hash_fill_walk [OF nb _ _ _ _ fill]) (use n(1) c un in auto)
  have "chain_walk (\<lambda>i. hash_word (push32s ?ws) (2 + ?n + i)) ?n (unat (bs ! ?c)) =
      chain_walk (\<lambda>i. ch ! i) ?n (unat (bs ! ?c))"
    by (rule chain_walk_cong) (simp only: walk set_rev set_filter, rule chain, simp)
  then have cand: "sysv_candidates (hash_data (build_hash b)) name =
      rev (filter (in_bucket (dynstr_data b) (dynsym_data b) ?nb ?c) [1..<?n])"
    by (simp only: sysv_candidates_def tab w un Let_def walk)
  have "filter (\<lambda>i. sym_name (dynstr_data b) (dynsym_data b ! i) = name)
      (filter (in_bucket (dynstr_data b) (dynsym_data b) ?nb ?c) [1..<?n]) =
    filter (\<lambda>i. sym_name (dynstr_data b) (dynsym_data b ! i) = name) [1..<?n]"
    unfolding filter_filter by (rule filter_cong) (use names in \<open>auto simp: in_bucket_def\<close>)
  then show ?thesis by (simp only: sysv_matches_def cand rev_filter [symmetric])
qed

section \<open>Facts: names and numbers of the symbols\<close>

text \<open>A terminated string at an offset of a string table.\<close>

definition str_at :: "bytes \<Rightarrow> nat \<Rightarrow> bytes \<Rightarrow> bool" where
  "str_at d off s \<longleftrightarrow> take (length s + 1) (drop off d) = s @ [0]"

lemma str_at_append: "str_at d off s \<Longrightarrow> str_at (d @ e) off s"
proof -
  assume a: "str_at d off s"
  then have "length (take (length s + 1) (drop off d)) = length s + 1" by (simp add: str_at_def)
  then have "length s + 1 + off \<le> length d" by simp
  with a show ?thesis by (simp add: str_at_def)
qed

lemma str_at_push: "str_at (push_str d s) (length d) s"
  by (simp add: str_at_def push_str_def)

lemma str_at_less: "str_at d off s \<Longrightarrow> off < length d"
  by (rule ccontr) (auto simp: str_at_def)

lemma str_at_c_str:
  assumes "str_at d off s" and "0 \<notin> set s"
  shows "c_str (drop off d) = s"
proof -
  have "drop off d = s @ 0 # drop (length s + 1) (drop off d)"
    using assms(1) append_take_drop_id [of "length s + 1" "drop off d"] by (simp add: str_at_def)
  with assms(2) show ?thesis by (metis c_str_append_nul)
qed

lemma length_push_str: "length (push_str d s) = length d + length s + 1"
  by (simp add: push_str_def)

text \<open>
  Each entry of a table carries, as an offset into a string table, its name.  The locale is
  the interface of the structs that do so (\<^verbatim>\<open>st_name\<close> of a symbol, \<^verbatim>\<open>sh_name\<close> of a section
  header): a name offset that can be read and set.
\<close>

definition named_by :: "('a \<Rightarrow> u32) \<Rightarrow> bytes \<Rightarrow> 'a list \<Rightarrow> bytes list \<Rightarrow> bool" where
  "named_by off d xs ns \<longleftrightarrow> list_all2 (\<lambda>x n. str_at d (unat (off x)) n) xs ns"

locale string_table =
  fixes name_off :: "'a \<Rightarrow> u32"
    and set_off :: "u32 \<Rightarrow> 'a \<Rightarrow> 'a"
  assumes off_set: "name_off (set_off off x) = off"
begin

lemma named_append_strings: "named_by name_off d xs ns \<Longrightarrow> named_by name_off (d @ e) xs ns"
  by (auto simp: named_by_def intro: list.rel_mono_strong str_at_append)

lemma named_snoc:
  assumes "named_by name_off d xs ns" and "length (push_str d n) < 2 ^ 32"
  shows "named_by name_off (push_str d n) (xs @ [set_off (of_nat (length d)) x]) (ns @ [n])"
proof -
  have "unat (of_nat (length d) :: u32) = length d"
    using assms(2) by (intro unat_of_nat_small) (simp add: length_push_str)
  then show ?thesis
    using named_append_strings [OF assms(1), of "n @ [0]"] str_at_push [of d n]
    by (auto simp: named_by_def push_str_def off_set intro!: list_all2_appendI)
qed

lemma named_nth:
  assumes "named_by name_off d xs ns" and "i < length ns"
  shows "str_at d (unat (name_off (xs ! i))) (ns ! i)"
  using assms unfolding named_by_def by (rule list_all2_nthD2)

lemma named_length: "named_by name_off d xs ns \<Longrightarrow> length xs = length ns"
  by (auto simp: named_by_def dest: list_all2_lengthD)

end

interpretation sym_tab: string_table st_name "\<lambda>off s. s\<lparr>st_name := off\<rparr>"
  by unfold_locales simp

abbreviation syms_named :: "bytes \<Rightarrow> Elf64_Sym list \<Rightarrow> bytes list \<Rightarrow> bool" where
  "syms_named \<equiv> named_by st_name"

lemma syms_named_nth:
  assumes "syms_named d syms ns" and "i < length ns" and "0 \<notin> set (ns ! i)"
  shows "sym_name d (syms ! i) = ns ! i" "unat (st_name (syms ! i)) < length d"
  using sym_tab.named_nth [OF assms(1,2)] assms(3)
  by (simp_all add: sym_name_def str_at_c_str str_at_less)

lemma add_func_sym_grows: "length (fst ds) \<le> length (fst (add_func_sym n ds))"
  by (simp add: add_func_sym_def case_prod_beta Let_def length_push_str)

lemma fold_add_func_sym_grows: "length (fst ds) \<le> length (fst (fold add_func_sym ns ds))"
proof (induction ns arbitrary: ds)
  case Nil
  then show ?case by simp
next
  case (Cons n ns)
  from order.trans [OF add_func_sym_grows Cons.IH] show ?case by simp
qed

lemma add_func_sym_named:
  assumes "syms_named d syms ns" and "add_func_sym n (d, syms) = (d', syms')"
    and "length d' < 2 ^ 32"
  shows "syms_named d' syms' (ns @ [n])"
proof -
  have d: "d' = push_str d n" "syms' = syms @ [(func_sym 0)\<lparr>st_name := of_nat (length d)\<rparr>]"
    using assms(2) by (auto simp: add_func_sym_def func_sym_def)
  with sym_tab.named_snoc [OF assms(1)] assms(3) show ?thesis by simp
qed

lemma fold_add_func_sym_named:
  assumes "syms_named d syms ms" and "fold add_func_sym ns (d, syms) = (d', syms')"
    and "length d' < 2 ^ 32"
  shows "syms_named d' syms' (ms @ ns)"
  using assms
proof (induction ns arbitrary: d syms ms)
  case Nil
  then show ?case by simp
next
  case (Cons n ns)
  obtain d1 s1 where s: "add_func_sym n (d, syms) = (d1, s1)" by fastforce
  then have rest: "fold add_func_sym ns (d1, s1) = (d', syms')" using Cons.prems(2) by simp
  have "length d1 < 2 ^ 32"
    using fold_add_func_sym_grows [of "(d1, s1)" ns] rest Cons.prems(3) by simp
  from Cons.IH [OF add_func_sym_named [OF Cons.prems(1) s this] rest Cons.prems(3)]
  show ?case by simp
qed

lemma find_name_Some:
  "find_name k ns s = Some i \<Longrightarrow> k \<le> i \<and> i - k < length ns \<and> ns ! (i - k) = s"
proof (induction k ns s rule: find_name.induct)
  case (1 k s)
  then show ?case by simp
next
  case (2 k n ns s)
  then show ?case by (auto simp: nth_Cons' Suc_diff_le split: if_splits)
qed

lemma find_name_None: "find_name k ns s = None \<longleftrightarrow> s \<notin> set ns"
  by (induction k ns s rule: find_name.induct) auto

abbreviation import_sym_name :: "ImportEntry \<Rightarrow> bytes" where
  "import_sym_name ie \<equiv> make_elf_sym_name (dll_name ie) (func_name ie)"

text \<open>The numbering: equal names share a number, and the number is the name's position.\<close>

definition numbered :: "bytes list \<Rightarrow> ImportEntry \<Rightarrow> ImportEntry \<Rightarrow> bool" where
  "numbered uniq ie ie' \<longleftrightarrow>
     (\<exists>k < length uniq. uniq ! k = import_sym_name ie \<and> ie' = ie\<lparr>sym_index := of_nat (k + 1)\<rparr>)"

lemma numbered_append: "numbered uniq ie ie' \<Longrightarrow> numbered (uniq @ ext) ie ie'"
  unfolding numbered_def by (metis nth_append length_append trans_less_add1)

lemma assign_syms_spec:
  assumes "assign_syms ies uniq = (ies', uniq')"
  shows "list_all2 (numbered uniq') ies ies' \<and> (\<exists>ext. uniq' = uniq @ ext)
    \<and> (distinct uniq \<longrightarrow> distinct uniq') \<and> set uniq' = set uniq \<union> import_sym_name ` set ies
    \<and> length uniq' \<le> length uniq + length ies"
  using assms
proof (induction ies uniq arbitrary: ies' rule: assign_syms.induct)
  case (1 uniq)
  then show ?case by simp
next
  case (2 ie ies uniq)
  let ?s = "import_sym_name ie"
  show ?case
  proof (cases "find_name 0 uniq ?s")
    case None
    then obtain r where r: "assign_syms ies (uniq @ [?s]) = (r, uniq')"
        "ies' = ie\<lparr>sym_index := of_nat (length uniq + 1)\<rparr> # r"
      using "2.prems" by (auto simp: Let_def split: prod.splits)
    from "2.IH"(1) [OF refl None r(1)] obtain ext where ext: "uniq' = (uniq @ [?s]) @ ext" by blast
    have "numbered uniq' ie (ie\<lparr>sym_index := of_nat (length uniq + 1)\<rparr>)"
      unfolding numbered_def ext by (intro exI [of _ "length uniq"]) simp
    with "2.IH"(1) [OF refl None r(1)] r(2) None show ?thesis by (auto simp: find_name_None)
  next
    case (Some k)
    then obtain r where r: "assign_syms ies uniq = (r, uniq')"
        "ies' = ie\<lparr>sym_index := of_nat (k + 1)\<rparr> # r"
      using "2.prems" by (auto simp: Let_def split: prod.splits)
    have k: "k < length uniq" "uniq ! k = ?s" using find_name_Some [OF Some] by auto
    from "2.IH"(2) [OF refl Some r(1)] obtain ext where ext: "uniq' = uniq @ ext" by blast
    have "numbered uniq ie (ie\<lparr>sym_index := of_nat (k + 1)\<rparr>)"
      unfolding numbered_def using k by blast
    then have "numbered uniq' ie (ie\<lparr>sym_index := of_nat (k + 1)\<rparr>)"
      unfolding ext by (rule numbered_append)
    moreover have "?s \<in> set uniq" using k by (metis nth_mem)
    ultimately show ?thesis using "2.IH"(2) [OF refl Some r(1)] r(2) by auto
  qed
qed

lemma to_lower_nonzero: "c \<noteq> 0 \<Longrightarrow> to_lower c \<noteq> 0"
proof
  assume "c \<noteq> 0" and "to_lower c = 0"
  then have c: "65 \<le> c" "c \<le> 90" "c + 32 = 0" by (auto simp: to_lower_def split: if_splits)
  from c(2) have "unat c \<le> 90" by (simp add: word_le_nat_alt)
  then have "unat (c + 32) = unat c + 32" by (subst unat_add_nowrap) auto
  with c(3) show False by simp
qed

lemma make_elf_sym_name_no_nul:
  assumes "0 \<notin> set dll" and "0 \<notin> set fn"
  shows "0 \<notin> set (make_elf_sym_name dll fn)"
proof -
  define q where "q = (case rfind 46 dll of Some dot \<Rightarrow> take dot dll | None \<Rightarrow> dll)"
  have "set q \<subseteq> set dll" by (auto simp: q_def split: option.splits dest: in_set_takeD)
  with assms(1) have nz: "c \<in> set q \<Longrightarrow> c \<noteq> 0" for c by auto
  have "0 \<notin> to_lower ` set q"
  proof
    assume "0 \<in> to_lower ` set q"
    then obtain c where "c \<in> set q" "to_lower c = 0" by (elim imageE) simp
    with nz [of c] to_lower_nonzero [of c] show False by simp
  qed
  moreover have "make_elf_sym_name dll fn = map to_lower q @ 95 # fn"
    by (simp add: make_elf_sym_name_def q_def)
  ultimately show ?thesis using assms(2) by (simp del: image_iff)
qed

text \<open>The facts about one call of \<open>build_symbols\<close> on a builder that holds only strings.\<close>

lemma build_symbols_spec:
  assumes run: "build_symbols img b = (img', b')"
    and fresh: "dynsym_data b = []" "dynstr_data b \<noteq> []" "dynstr_data b ! 0 = 0"
    and small: "length (dynstr_data b') < 2 ^ 32"
  obtains uniq where "syms_named (dynstr_data b') (dynsym_data b')
      ([] # uniq @ [str_bytes ''shim_register_tls''])"
    and "list_all2 (numbered uniq) (img_imports img) (img_imports img')"
    and "distinct uniq" and "set uniq = import_sym_name ` set (img_imports img)"
    and "length uniq \<le> length (img_imports img)"
    and "img' = img\<lparr>img_imports := img_imports img'\<rparr>"
    and "rela_data b' = rela_data b @ map (import_rela (image_base img)) (img_imports img') @
      map base_rela (img_relocs img) @ [zero_rela\<lparr>r_info :=
        ELF64_R_INFO (ucast (of_nat (length uniq + 1) :: u32)) R_X86_64_64\<rparr>]"
    and "shim_reg_tls_rela_idx b' =
      length (rela_data b) + length (img_imports img) + length (img_relocs img)"
proof -
  obtain ies uniq where a: "assign_syms (img_imports img) [] = (ies, uniq)" by fastforce
  obtain d syms where f: "fold add_func_sym uniq (dynstr_data b, [zero_sym]) = (d, syms)"
    by fastforce
  obtain d' syms' where g: "add_func_sym (str_bytes ''shim_register_tls'') (d, syms) = (d', syms')"
    by fastforce
  have d': "dynstr_data b' = d'" "dynsym_data b' = syms'" and img': "img' = img\<lparr>img_imports := ies\<rparr>"
    and rel: "rela_data b' = rela_data b @ map (import_rela (image_base img)) ies @
      map base_rela (img_relocs img) @ [zero_rela\<lparr>r_info :=
        ELF64_R_INFO (ucast (of_nat (length syms) :: u32)) R_X86_64_64\<rparr>]"
    and idx: "shim_reg_tls_rela_idx b' = length (rela_data b) + length ies + length (img_relocs img)"
    using run a f g fresh(1) by (auto simp: build_symbols_def)
  have "length d \<le> length d'" using add_func_sym_grows [of "(d, syms)"] g by (metis fst_conv)
  then have "length d < 2 ^ 32" using small d' by simp
  moreover have "syms_named (dynstr_data b) [zero_sym] [[]]"
    using fresh(2,3) by (cases "dynstr_data b") (auto simp: named_by_def str_at_def zero_sym_def)
  ultimately have n: "syms_named d syms ([[]] @ uniq)" using f fold_add_func_sym_named by blast
  have "syms_named d' syms' (([[]] @ uniq) @ [str_bytes ''shim_register_tls''])"
    by (rule add_func_sym_named [OF n g]) (use small d' in simp)
  moreover have "length syms = length uniq + 1" using sym_tab.named_length [OF n] by simp
  moreover note sp = assign_syms_spec [OF a]
  moreover from sp have "length ies = length (img_imports img)" by (auto dest: list_all2_lengthD)
  ultimately show ?thesis using that [of uniq] d' img' rel idx by simp
qed

lemma build_strings_fields:
  "dynsym_data (build_strings b) = dynsym_data b" "rela_data (build_strings b) = rela_data b"
  "so_mode (build_strings b) = so_mode b" "dynstr_data (build_strings b) \<noteq> []"
  "dynstr_data b = [] \<Longrightarrow> dynstr_data (build_strings b) ! 0 = 0"
  "interp_data (build_strings b) = interp b @ [0]"
  "hash_data (build_strings b) = hash_data b"
  "tls_va_rela_idx (build_strings b) = tls_va_rela_idx b"
  by (simp_all add: build_strings_def Let_def push_str_def)

lemma add_tls_va_reloc_fields:
  "dynsym_data (add_tls_va_reloc w va b) = dynsym_data b"
  "dynstr_data (add_tls_va_reloc w va b) = dynstr_data b"
  "entrypoint_sym_idx (add_tls_va_reloc w va b) = entrypoint_sym_idx b"
  "so_mode (add_tls_va_reloc w va b) = so_mode b"
  "shim_reg_tls_rela_idx (add_tls_va_reloc w va b) = shim_reg_tls_rela_idx b"
  "\<exists>ext. rela_data (add_tls_va_reloc w va b) = rela_data b @ ext"
  by (simp_all add: add_tls_va_reloc_def)

lemma add_so_exports_fields:
  "dynsym_data (add_so_exports b) =
     dynsym_data b @ [entrypoint_sym (of_nat (length (dynstr_data b)))]"
  "dynstr_data (add_so_exports b) = push_str (dynstr_data b) (str_bytes ''_entrypoint'')"
  "entrypoint_sym_idx (add_so_exports b) = length (dynsym_data b)"
  "so_mode (add_so_exports b) = so_mode b"
  "shim_reg_tls_rela_idx (add_so_exports b) = shim_reg_tls_rela_idx b"
  by (simp_all add: add_so_exports_def build_hash_def Let_def add_tls_va_reloc_fields case_prod_beta)

lemma add_so_exports_hash:
  "hash_data (add_so_exports b) = hash_data (build_hash (add_so_exports b))"
  by (simp add: add_so_exports_def build_hash_def Let_def case_prod_beta)

lemma add_so_exports_named:
  assumes "syms_named (dynstr_data b) (dynsym_data b) ns"
    and "length (dynstr_data (add_so_exports b)) < 2 ^ 32"
  shows "syms_named (dynstr_data (add_so_exports b)) (dynsym_data (add_so_exports b))
    (ns @ [str_bytes ''_entrypoint''])"
proof -
  have "entrypoint_sym (of_nat (length (dynstr_data b))) =
      (entrypoint_sym 0)\<lparr>st_name := of_nat (length (dynstr_data b))\<rparr>"
    by (simp add: entrypoint_sym_def func_sym_def)
  then show ?thesis
    using sym_tab.named_snoc [OF assms(1)] assms(2) by (simp only: add_so_exports_fields)
qed

text \<open>The names of all symbols of the output, in order.\<close>

definition all_names :: "Builder \<Rightarrow> bytes list \<Rightarrow> bytes list" where
  "all_names b uniq = [] # uniq @ [str_bytes ''shim_register_tls''] @
     (if so_mode b then [str_bytes ''_entrypoint''] else [])"

lemma build_synthetic_sections_spec:
  assumes run: "build_synthetic_sections img b = (img', b')"
    and fresh: "dynsym_data b = []" "dynstr_data b = []" "rela_data b = []"
    and small: "length (dynstr_data b') < 2 ^ 32"
  obtains uniq where "syms_named (dynstr_data b') (dynsym_data b') (all_names b uniq)"
    and "list_all2 (numbered uniq) (img_imports img) (img_imports img')"
    and "distinct uniq" and "set uniq = import_sym_name ` set (img_imports img)"
    and "length uniq \<le> length (img_imports img)"
    and "img' = img\<lparr>img_imports := img_imports img'\<rparr>"
proof -
  obtain b1 where s: "build_symbols img (build_strings b) = (img', b1)"
    and b': "b' = (if so_mode b then add_so_exports b1 else b1)"
    and so: "so_mode b1 = so_mode b"
    using run
    by (auto simp: build_synthetic_sections_def build_symbols_def build_strings_fields Let_def
        split: prod.splits)
  have small1: "length (dynstr_data b1) < 2 ^ 32"
    using small b' by (auto simp: add_so_exports_fields length_push_str split: if_splits)
  obtain uniq where u: "syms_named (dynstr_data b1) (dynsym_data b1)
        ([] # uniq @ [str_bytes ''shim_register_tls''])"
      "list_all2 (numbered uniq) (img_imports img) (img_imports img')" "distinct uniq"
      "set uniq = import_sym_name ` set (img_imports img)" "length uniq \<le> length (img_imports img)"
      "img' = img\<lparr>img_imports := img_imports img'\<rparr>"
    by (rule build_symbols_spec [OF s]) (use fresh small1 in \<open>simp_all add: build_strings_fields\<close>)
  have "syms_named (dynstr_data b') (dynsym_data b') (all_names b uniq)"
  proof (cases "so_mode b")
    case True
    with add_so_exports_named [OF u(1)] small b' show ?thesis by (simp add: all_names_def)
  next
    case False
    with u(1) b' show ?thesis by (simp add: all_names_def)
  qed
  with u that show ?thesis by blast
qed

section \<open>Properties\<close>


text \<open>Three symbols: the null symbol, \<^verbatim>\<open>a\<close> and \<^verbatim>\<open>b\<close>.\<close>

definition tiny_builder :: Builder where
  "tiny_builder = (new_builder [] [] False [])\<lparr>dynstr_data := [0, 97, 0, 98, 0],
     dynsym_data := [zero_sym, func_sym 1, func_sym 3]\<rparr>"


text \<open>
  Symbol numbering.  \<^verbatim>\<open>build_synthetic_sections\<close> gives two imports the same symbol index
  exactly when their symbol names agree, and the index leads to a symbol of that name.
\<close>

theorem symbols_shared_by_name:
  assumes run: "build_synthetic_sections img b = (img', b')"
    and fresh: "dynsym_data b = []" "dynstr_data b = []" "rela_data b = []"
    and small: "length (dynstr_data b') < 2 ^ 32" "length (img_imports img) < 2 ^ 31"
    and i: "i < length (img_imports img)" and j: "j < length (img_imports img)"
  shows "(sym_index (img_imports img' ! i) = sym_index (img_imports img' ! j)) =
      (import_sym_name (img_imports img ! i) = import_sym_name (img_imports img ! j))
    \<and> str_at (dynstr_data b') (unat (st_name (dynsym_data b' ! unat (sym_index (img_imports img' ! i)))))
        (import_sym_name (img_imports img ! i))"
proof -
  obtain uniq where named: "syms_named (dynstr_data b') (dynsym_data b') (all_names b uniq)"
    and num: "list_all2 (numbered uniq) (img_imports img) (img_imports img')"
    and dist: "distinct uniq" and len: "length uniq \<le> length (img_imports img)"
    by (rule build_synthetic_sections_spec [OF run fresh small(1)])
  have num_nth: "numbered uniq (img_imports img ! m) (img_imports img' ! m)"
    if "m < length (img_imports img)" for m
    using list_all2_nthD [OF num that] .
  obtain k where k: "k < length uniq" "uniq ! k = import_sym_name (img_imports img ! i)"
      "sym_index (img_imports img' ! i) = of_nat (k + 1)"
    using num_nth [OF i] by (auto simp: numbered_def)
  obtain m where m: "m < length uniq" "uniq ! m = import_sym_name (img_imports img ! j)"
      "sym_index (img_imports img' ! j) = of_nat (m + 1)"
    using num_nth [OF j] by (auto simp: numbered_def)
  have u: "unat (of_nat (q + 1) :: u32) = q + 1" if "q < length uniq" for q
    using that len small(2) by (intro unat_of_nat_small) simp
  have "(of_nat (k + 1) = (of_nat (m + 1) :: u32)) = (k = m)"
    using u [OF k(1)] u [OF m(1)] by (metis add_right_cancel)
  then have "(sym_index (img_imports img' ! i) = sym_index (img_imports img' ! j)) =
      (import_sym_name (img_imports img ! i) = import_sym_name (img_imports img ! j))"
    using k m dist by (metis nth_eq_iff_index_eq)
  moreover have "all_names b uniq ! (k + 1) = uniq ! k" "k + 1 < length (all_names b uniq)"
    using k(1) by (simp_all add: all_names_def nth_append)
  then have "str_at (dynstr_data b') (unat (st_name (dynsym_data b' ! (k + 1)))) (uniq ! k)"
    using sym_tab.named_nth [OF named, of "k + 1"] by simp
  ultimately show ?thesis using k u [OF k(1)] by simp
qed

end
