(* ===== verification/Elf_Build.thy ===== *)
theory Elf_Build
  imports Elf_Symbols
begin

text \<open>
  Models the second half of \<^verbatim>\<open>Builder\<close> (\<^verbatim>\<open>src/elf_build.hpp\<close>): the startup trampoline, the
  dynamic table, the patched copies of the IAT sections, and the program and section
  headers.  All of it runs after \<^verbatim>\<open>compute_plan\<close> and reads the plan.
\<close>

section \<open>finalize_tls_call and find_safe_entry\<close>

definition set_r_offset :: "nat option \<Rightarrow> u64 \<Rightarrow> Elf64_Rela list \<Rightarrow> Elf64_Rela list" where
  "set_r_offset idx va rs =
     (case idx of
        None \<Rightarrow> rs
      | Some i \<Rightarrow> if i < length rs then rs[i := (rs ! i)\<lparr>r_offset := va\<rparr>] else rs)"

definition finalize_tls_call :: "u64 \<Rightarrow> Builder \<Rightarrow> Builder" where
  "finalize_tls_call slot_va b =
     (let b1 = b\<lparr>rela_data := set_r_offset (Some (shim_reg_tls_rela_idx b)) slot_va (rela_data b)\<rparr>
      in if so_mode b1 then
           let tramp_va = slot_va - 24;
               i = entrypoint_sym_idx b1;
               syms = dynsym_data b1;
               b2 = (if i < length syms
                     then b1\<lparr>dynsym_data := syms[i := (syms ! i)\<lparr>st_value := tramp_va\<rparr>]\<rparr> else b1);
               r0 = set_r_offset (tls_va_rela_idx b2 ! 0) (tramp_va + 32 + 0) (rela_data b2);
               r1 = set_r_offset (tls_va_rela_idx b2 ! 1) (tramp_va + 32 + 32) r0;
               r2 = set_r_offset (tls_va_rela_idx b2 ! 2) (tramp_va + 32 + 40) r1
           in b2\<lparr>rela_data := r2\<rparr>
         else b1)"

fun scan_ret :: "nat \<Rightarrow> bytes \<Rightarrow> nat option" where
  "scan_ret i [] = None"
| "scan_ret i (c # cs) = (if c = 0xC3 then Some i else scan_ret (Suc i) cs)"

fun safe_entry_in :: "u64 \<Rightarrow> bytes \<Rightarrow> Entry list \<Rightarrow> u64" where
  "safe_entry_in base data [] = 0"
| "safe_entry_in base data (sec # secs) =
     (if sec_chars sec AND PE_SCN_MEM_EXECUTE = 0 then safe_entry_in base data secs
      else
        let raw = unat (sec_raw sec);
            avail = (if raw < length data then length data - raw else 0);
            scan = min (unat (sec_rawsz sec)) avail
        in case scan_ret 0 (take scan (drop raw data)) of
             Some i \<Rightarrow> base + ucast (sec_va sec) + of_nat i
           | None \<Rightarrow> safe_entry_in base data secs)"

definition find_safe_entry :: "PeImage \<Rightarrow> u64" where
  "find_safe_entry img = safe_entry_in (image_base img) (img_buf img) (img_secs img)"

section \<open>build_trampoline\<close>

definition push64 :: "bytes \<Rightarrow> u64 \<Rightarrow> bytes" where
  "push64 d v = d @ le_bytes 8 v"

definition trampoline_code :: "u32 \<Rightarrow> bytes" where
  "trampoline_code rel32 =
     [0x48, 0x83, 0xe4, 0xf0,
      0x48, 0x8d, 0x3d, 0x15, 0x00, 0x00, 0x00,
      0xff, 0x15, 0x07, 0x00, 0x00, 0x00,
      0x50,
      0xe9] @ le_bytes 4 rel32 @
     [0x90,
      0, 0, 0, 0, 0, 0, 0, 0]"

text \<open>The final loop pads with \<^verbatim>\<open>nop\<close>.\<close>

definition pad_nops :: "bytes \<Rightarrow> bytes" where
  "pad_nops d = d @ replicate (unat kTrampolineSize - length d) 0x90"

definition build_trampoline :: "PeImage \<Rightarrow> Plan \<Rightarrow> Builder \<Rightarrow> Builder result" where
  "build_trampoline img plan b =
     (let pe_entry = image_base img + ucast (ep_rva img);
          jmp_end = trampoline_va plan + 23;
          d = pe_entry - jmp_end;
          rel32 = ucast d :: u32
      in if d \<noteq> scast rel32 then Inl (TrampolineOutOfRange pe_entry)
         else Inr (b\<lparr>trampoline_data := pad_nops (foldl push64 (trampoline_code rel32)
                [b_tls_template_va b, b_tls_template_sz b, b_tls_zero_fill b,
                 b_tls_align_chars b, b_tls_index_va b, b_tls_callbacks_va b])\<rparr>))"

section \<open>build_dynamic\<close>

definition dyn_entry :: "u64 \<Rightarrow> u64 \<Rightarrow> Elf64_Dyn" where
  "dyn_entry tag val = \<lparr>d_tag = tag, d_val = val\<rparr>"

text \<open>The closing \<^verbatim>\<open>assert\<close> is a theorem below.\<close>

definition build_dynamic :: "Plan \<Rightarrow> Builder \<Rightarrow> Builder" where
  "build_dynamic plan b = b\<lparr>dynamic_data := dynamic_data b @
     [dyn_entry DT_NEEDED (ucast (dynstr_shim_off b))] @
     (if inject_name b = [] then [] else [dyn_entry DT_NEEDED (ucast (dynstr_inject_off b))]) @
     [dyn_entry DT_RUNPATH (ucast (dynstr_rpath_off b)),
      dyn_entry DT_STRTAB (dynstr_va plan),
      dyn_entry DT_STRSZ (of_nat (length (dynstr_data b))),
      dyn_entry DT_SYMTAB (dynsym_va plan),
      dyn_entry DT_SYMENT 24] @
     (if so_mode b then [dyn_entry DT_HASH (hash_va plan)] else []) @
     [dyn_entry DT_RELA (rela_va plan),
      dyn_entry DT_RELASZ (of_nat (length (rela_data b)) * 24),
      dyn_entry DT_RELAENT 24,
      dyn_entry DT_DEBUG 0,
      dyn_entry DT_FLAGS_1 DF_1_NOW,
      dyn_entry DT_NULL 0]\<rparr>"

section \<open>patch_rdata\<close>

text \<open>A copy of a section's file bytes, padded with zeros to its raw size.\<close>

definition section_copy :: "bytes \<Rightarrow> Entry \<Rightarrow> bytes" where
  "section_copy data sec =
     (let raw_size = unat (sec_rawsz sec); raw = unat (sec_raw sec) in
      if raw \<ge> length data then replicate raw_size 0
      else
        let avail = length data - raw;
            avail' = (if avail > raw_size then raw_size else avail);
            p = take avail' (drop raw data)
        in p @ replicate (raw_size - length p) 0)"

definition zero8 :: "nat \<Rightarrow> bytes \<Rightarrow> bytes" where
  "zero8 off p = take off p @ replicate 8 0 @ drop (off + 8) p"

text \<open>
  Clearing the import slots of section \<open>si\<close>.  The guard adds in 32 bits; \<open>MemoryFault\<close> is
  the store past the end of the copy that a wrapped sum would let through.
\<close>

fun clear_slots :: "Entry list \<Rightarrow> int \<Rightarrow> Entry \<Rightarrow> ImportEntry list \<Rightarrow> bytes \<Rightarrow> bytes result" where
  "clear_slots secs si sec [] p = Inr p"
| "clear_slots secs si sec (ie # ies) p =
     (if section_of secs (iat_rva ie) \<noteq> si then clear_slots secs si sec ies p
      else
        let slot_off = iat_rva ie - sec_va sec in
        if unat (slot_off + 8) \<le> unat (sec_rawsz sec) then
          if unat slot_off + 8 \<le> length p then clear_slots secs si sec ies (zero8 (unat slot_off) p)
          else Inl MemoryFault
        else clear_slots secs si sec ies p)"

fun patch_sections :: "PeImage \<Rightarrow> int list \<Rightarrow> (int \<rightharpoonup> bytes) \<Rightarrow> (int \<rightharpoonup> bytes) result" where
  "patch_sections img [] m = Inr m"
| "patch_sections img (si # sis) m =
     (let sec = img_secs img ! nat si in
      case clear_slots (img_secs img) si sec (img_imports img) (section_copy (img_buf img) sec) of
        Inl e \<Rightarrow> Inl e
      | Inr p \<Rightarrow> patch_sections img sis (m(si \<mapsto> p)))"

definition patch_rdata :: "PeImage \<Rightarrow> Builder \<Rightarrow> Builder result" where
  "patch_rdata img b =
     (case patch_sections img (iat_sec_idx img) (iat_patched b) of
        Inl e \<Rightarrow> Inl e
      | Inr m \<Rightarrow> Inr (b\<lparr>iat_patched := m\<rparr>))"

section \<open>build_phdrs\<close>

definition head_phdrs :: "Plan \<Rightarrow> Builder \<Rightarrow> Elf64_Phdr list" where
  "head_phdrs plan b =
     [zero_phdr\<lparr>p_type := PT_PHDR, p_flags := PF_R, p_offset := 64,
        p_vaddr := synth_va plan + 64, p_paddr := synth_va plan + 64, p_align := 8\<rparr>,
      zero_phdr\<lparr>p_type := PT_INTERP, p_flags := PF_R, p_offset := interp_foff plan,
        p_vaddr := interp_va plan, p_paddr := interp_va plan,
        p_filesz := of_nat (length (interp_data b)), p_memsz := of_nat (length (interp_data b)),
        p_align := 1\<rparr>,
      (let syn_filesz = trampoline_foff plan + of_nat (length (trampoline_data b)) in
       zero_phdr\<lparr>p_type := PT_LOAD, p_flags := PF_R OR PF_W OR PF_X, p_offset := synth_foff plan,
        p_vaddr := synth_va plan, p_paddr := synth_va plan, p_filesz := syn_filesz,
        p_memsz := syn_filesz, p_align := kPageSize\<rparr>),
      (let sz = of_nat (length (dynamic_data b)) * 16 in
       zero_phdr\<lparr>p_type := PT_DYNAMIC, p_flags := PF_R OR PF_W, p_offset := dynamic_foff plan,
        p_vaddr := dynamic_va plan, p_paddr := dynamic_va plan, p_filesz := sz, p_memsz := sz,
        p_align := 8\<rparr>)]"

definition is_pdata :: "Entry \<Rightarrow> bool" where
  "is_pdata sec \<longleftrightarrow> take 6 (sec_name sec) = str_bytes ''.pdata''"

definition has_reloc_in :: "PeImage \<Rightarrow> Entry \<Rightarrow> bool" where
  "has_reloc_in img sec \<longleftrightarrow>
     (let s = image_base img + ucast (sec_va sec);
          e = s + max (ucast (sec_virtsz sec)) (ucast (sec_rawsz sec))
      in list_ex (\<lambda>re. re_va re \<ge> s \<and> re_va re < e) (img_relocs img))"

definition sec_seg_flags :: "PeImage \<Rightarrow> int \<Rightarrow> Entry \<Rightarrow> u32" where
  "sec_seg_flags img i sec =
     (let ch = sec_chars sec;
          f0 = (if ch AND PE_SCN_MEM_READ \<noteq> 0 then PF_R else 0);
          f1 = (if ch AND PE_SCN_MEM_WRITE \<noteq> 0 then f0 OR PF_W else f0);
          f2 = (if ch AND PE_SCN_MEM_EXECUTE \<noteq> 0 then f1 OR PF_X else f1);
          f3 = (if is_iat_sec img i then f2 OR PF_W else f2)
      in if has_reloc_in img sec then f3 OR PF_W else f3)"

definition sec_phdr :: "PeImage \<Rightarrow> int \<Rightarrow> Entry \<Rightarrow> Elf64_Phdr" where
  "sec_phdr img i sec =
     zero_phdr\<lparr>p_type := PT_LOAD, p_flags := sec_seg_flags img i sec, p_offset := elf_foff sec,
       p_vaddr := image_base img + ucast (sec_va sec),
       p_paddr := image_base img + ucast (sec_va sec), p_filesz := ucast (sec_rawsz sec),
       p_memsz := max (ucast (sec_virtsz sec)) (ucast (sec_rawsz sec)), p_align := kPageSize\<rparr>"

text \<open>The loop over the sections, with the section chosen for \<^verbatim>\<open>PT_GNU_RELRO\<close> so far.\<close>

fun sec_phdrs :: "PeImage \<Rightarrow> bool \<Rightarrow> int \<Rightarrow> int \<Rightarrow> Entry list \<Rightarrow> Elf64_Phdr list \<times> int" where
  "sec_phdrs img strip relro i [] = ([], relro)"
| "sec_phdrs img strip relro i (sec # secs) =
     (if strip \<and> is_pdata sec then sec_phdrs img strip relro (i + 1) secs
      else
        let relro' = (if is_iat_sec img i \<and> length (iat_sec_idx img) = 1 then i else relro);
            (ps, r) = sec_phdrs img strip relro' (i + 1) secs
        in (sec_phdr img i sec # ps, r))"

definition tail_phdrs :: "PeImage \<Rightarrow> Plan \<Rightarrow> int \<Rightarrow> Elf64_Phdr list" where
  "tail_phdrs img plan relro =
     (if relro \<ge> 0 then
        let sec = img_secs img ! nat relro in
        [zero_phdr\<lparr>p_type := PT_GNU_RELRO, p_flags := PF_R, p_offset := elf_foff sec,
           p_vaddr := image_base img + ucast (sec_va sec),
           p_paddr := image_base img + ucast (sec_va sec), p_filesz := ucast (sec_rawsz sec),
           p_memsz := ucast (sec_rawsz sec), p_align := 1\<rparr>]
      else []) @
     [zero_phdr\<lparr>p_type := PT_GNU_STACK, p_flags := PF_R OR PF_W, p_align := 0x10\<rparr>,
      zero_phdr\<lparr>p_type := PT_LOAD, p_flags := PF_R, p_offset := pe_hdr_foff plan,
        p_vaddr := image_base img, p_paddr := image_base img,
        p_filesz := ucast (SizeOfHeaders (img_oh img)),
        p_memsz := align_up (ucast (SizeOfHeaders (img_oh img))) kPageSize,
        p_align := kPageSize\<rparr>]"

definition build_phdrs :: "PeImage \<Rightarrow> Plan \<Rightarrow> Builder \<Rightarrow> Builder" where
  "build_phdrs img plan b =
     (let (ps, relro) = sec_phdrs img (strip_pdata b) (- 1) 0 (img_secs img);
          all = head_phdrs plan b @ ps @ tail_phdrs img plan relro;
          sz = of_nat (length all) * 56
      in b\<lparr>phdrs := all[0 := (all ! 0)\<lparr>p_filesz := sz, p_memsz := sz\<rparr>]\<rparr>)"

section \<open>build_shdrs\<close>

definition add_shstrtab :: "bytes \<Rightarrow> bytes \<Rightarrow> bytes \<times> u32" where
  "add_shstrtab tab name = (tab @ c_str name @ [0], of_nat (length tab))"

text \<open>The lambda \<^verbatim>\<open>add\<close>: it fills in the name offset of the header it pushes.\<close>

definition add_shdr :: "bytes \<Rightarrow> Elf64_Shdr \<Rightarrow> Elf64_Shdr list \<times> bytes \<Rightarrow> Elf64_Shdr list \<times> bytes" where
  "add_shdr name s st =
     (let (hs, tab) = st; (tab', off) = add_shstrtab tab name
      in (hs @ [s\<lparr>sh_name := off\<rparr>], tab'))"

definition shdr_of ::
  "u32 \<Rightarrow> u64 \<Rightarrow> u64 \<Rightarrow> u64 \<Rightarrow> u64 \<Rightarrow> u32 \<Rightarrow> u32 \<Rightarrow> u64 \<Rightarrow> u64 \<Rightarrow> Elf64_Shdr" where
  "shdr_of type flags addr off sz link info align entsize =
     \<lparr>sh_name = 0, sh_type = type, sh_flags = flags, sh_addr = addr, sh_offset = off,
      sh_size = sz, sh_link = link, sh_info = info, sh_addralign = align, sh_entsize = entsize\<rparr>"

definition sec_shdr :: "PeImage \<Rightarrow> Entry \<Rightarrow> Elf64_Shdr" where
  "sec_shdr img sec =
     (let ch = sec_chars sec;
          f1 = (if ch AND PE_SCN_MEM_WRITE \<noteq> 0 then SHF_ALLOC OR SHF_WRITE else SHF_ALLOC);
          f2 = (if ch AND PE_SCN_MEM_EXECUTE \<noteq> 0 then f1 OR SHF_EXECINSTR else f1);
          all_bss = (sec_rawsz sec = 0)
      in shdr_of (if all_bss then SHT_NOBITS else SHT_PROGBITS) f2
           (image_base img + ucast (sec_va sec))
           (if all_bss then 0 else elf_foff sec)
           (if all_bss then ucast (sec_virtsz sec) else ucast (sec_rawsz sec)) 0 0 0x1000 0)"

definition build_shdrs :: "PeImage \<Rightarrow> Plan \<Rightarrow> u64 \<Rightarrow> u64 \<Rightarrow> Builder \<Rightarrow> Builder" where
  "build_shdrs img plan shstrtab_foff shstrtab_va b =
     (let st0 = ([zero_shdr], [0]);
          st1 = add_shdr (str_bytes ''.dynsym'') (shdr_of SHT_DYNSYM SHF_ALLOC (dynsym_va plan)
                  (dynsym_foff plan) (of_nat (length (dynsym_data b)) * 24) 2 1 8 24) st0;
          st2 = add_shdr (str_bytes ''.dynstr'') (shdr_of SHT_STRTAB SHF_ALLOC (dynstr_va plan)
                  (dynstr_foff plan) (of_nat (length (dynstr_data b))) 0 0 1 0) st1;
          st3 = (if hash_data b = [] then st2 else
                 add_shdr (str_bytes ''.hash'') (shdr_of SHT_HASH SHF_ALLOC (hash_va plan)
                   (hash_foff plan) (of_nat (length (hash_data b))) 1 0 8 4) st2);
          st4 = add_shdr (str_bytes ''.rela.dyn'') (shdr_of SHT_RELA SHF_ALLOC (rela_va plan)
                  (rela_foff plan) (of_nat (length (rela_data b)) * 24) 1 0 8 24) st3;
          st5 = add_shdr (str_bytes ''.dynamic'') (shdr_of SHT_DYNAMIC (SHF_ALLOC OR SHF_WRITE)
                  (dynamic_va plan) (dynamic_foff plan) (of_nat (length (dynamic_data b)) * 16)
                  2 0 8 16) st4;
          st6 = add_shdr (str_bytes ''.interp'') (shdr_of SHT_PROGBITS SHF_ALLOC (interp_va plan)
                  (interp_foff plan) (of_nat (length (interp_data b))) 0 0 1 0) st5;
          st7 = fold (\<lambda>sec. add_shdr (sec_name_str sec) (sec_shdr img sec)) (img_secs img) st6;
          (hs, tab) = add_shdr (str_bytes ''.shstrtab'')
                  (shdr_of SHT_STRTAB 0 shstrtab_va shstrtab_foff 0 0 0 1 0) st7
      in b\<lparr>shdrs := hs, shstrtab_data := tab\<rparr>)"

section \<open>Facts: safe entry, dynamic table\<close>

lemma scan_ret_Some:
  "scan_ret i cs = Some k \<Longrightarrow> i \<le> k \<and> k - i < length cs \<and> cs ! (k - i) = 0xC3
     \<and> (\<forall>j < k - i. cs ! j \<noteq> 0xC3)"
proof (induction i cs rule: scan_ret.induct)
  case (1 i)
  then show ?case by simp
next
  case (2 i c cs)
  show ?case
  proof (cases "c = 0xC3")
    case True
    with "2.prems" show ?thesis by simp
  next
    case False
    with 2 have "Suc i \<le> k" "k - Suc i < length cs" "cs ! (k - Suc i) = 0xC3"
        "\<forall>j < k - Suc i. cs ! j \<noteq> 0xC3" by auto
    moreover then have "k - i = Suc (k - Suc i)" by simp
    ultimately show ?thesis using False by (auto simp: All_less_Suc2)
  qed
qed

lemma scan_ret_None: "scan_ret i cs = None \<longleftrightarrow> 0xC3 \<notin> set cs"
  by (induction i cs rule: scan_ret.induct) auto

text \<open>The address found is that of a \<^verbatim>\<open>RET\<close> byte stored in the file for an executable section.\<close>

lemma safe_entry_in_spec:
  assumes "safe_entry_in base data secs \<noteq> 0"
  shows "\<exists>sec \<in> set secs. \<exists>i. sec_chars sec AND PE_SCN_MEM_EXECUTE \<noteq> 0
    \<and> i < unat (sec_rawsz sec) \<and> unat (sec_raw sec) + i < length data
    \<and> data ! (unat (sec_raw sec) + i) = 0xC3
    \<and> safe_entry_in base data secs = base + ucast (sec_va sec) + of_nat i"
  using assms
proof (induction base data secs rule: safe_entry_in.induct)
  case (1 base data)
  then show ?case by simp
next
  case (2 base data sec secs)
  let ?w = "take (min (unat (sec_rawsz sec)) (if unat (sec_raw sec) < length data
      then length data - unat (sec_raw sec) else 0)) (drop (unat (sec_raw sec)) data)"
  show ?case
  proof (cases "sec_chars sec AND PE_SCN_MEM_EXECUTE = 0 \<or> scan_ret 0 ?w = None")
    case True
    then have "safe_entry_in base data (sec # secs) = safe_entry_in base data secs"
      by (auto simp: Let_def)
    with 2 True show ?thesis by (auto simp: Let_def)
  next
    case False
    then obtain i where i: "scan_ret 0 ?w = Some i" by auto
    have "i < length ?w" "?w ! i = 0xC3" using scan_ret_Some [OF i] by auto
    then have "i < unat (sec_rawsz sec)" "unat (sec_raw sec) + i < length data"
        "data ! (unat (sec_raw sec) + i) = 0xC3" by (auto split: if_splits)
    with False i show ?thesis by (intro bexI [of _ sec] exI [of _ i]) (auto simp: Let_def)
  qed
qed

lemma dynamic_count:
  "dynamic_data b = [] \<Longrightarrow> length (dynamic_data (build_dynamic plan b)) = dt_entry_count b"
  by (simp add: build_dynamic_def dt_entry_count_def)

section \<open>Facts: the trampoline\<close>

text \<open>
  An executable reading of the five instruction forms the trampoline uses, after the x86-64
  encoding.  A \<^verbatim>\<open>call\<close> is recorded with the address of its pointer cell, its first argument
  and the stack pointer it is made with, and is taken to return as the System V ABI demands
  (stack pointer restored).
\<close>

record cpu =
  rip :: u64
  rsp :: u64
  rdi :: u64
  calls :: "(u64 \<times> u64 \<times> u64) list"

type_synonym memory = "u64 \<Rightarrow> u8"

definition fetch :: "memory \<Rightarrow> u64 \<Rightarrow> nat \<Rightarrow> bytes" where
  "fetch m a n = map (\<lambda>i. m (a + of_nat i)) [0..<n]"

definition disp32 :: "memory \<Rightarrow> u64 \<Rightarrow> u64" where
  "disp32 m a = scast (le_word (fetch m a 4) :: u32)"

definition cpu_step :: "memory \<Rightarrow> cpu \<Rightarrow> cpu option" where
  "cpu_step m c =
     (let a = rip c in
      if fetch m a 3 = [0x48, 0x83, 0xe4] then
        Some (c\<lparr>rip := a + 4, rsp := rsp c AND scast (m (a + 3))\<rparr>)
      else if fetch m a 3 = [0x48, 0x8d, 0x3d] then
        Some (c\<lparr>rip := a + 7, rdi := a + 7 + disp32 m (a + 3)\<rparr>)
      else if fetch m a 2 = [0xff, 0x15] then
        Some (c\<lparr>rip := a + 6, calls := calls c @ [(a + 6 + disp32 m (a + 2), rdi c, rsp c)]\<rparr>)
      else if fetch m a 1 = [0x50] then
        Some (c\<lparr>rip := a + 1, rsp := rsp c - 8\<rparr>)
      else if fetch m a 1 = [0xe9] then
        Some (c\<lparr>rip := a + 5 + disp32 m (a + 1)\<rparr>)
      else None)"

fun cpu_run :: "nat \<Rightarrow> memory \<Rightarrow> cpu \<Rightarrow> cpu option" where
  "cpu_run 0 m c = Some c"
| "cpu_run (Suc n) m c = (case cpu_step m c of None \<Rightarrow> None | Some c' \<Rightarrow> cpu_run n m c')"

text \<open>A block of bytes present in memory at an address.\<close>

definition loaded_at :: "memory \<Rightarrow> u64 \<Rightarrow> bytes \<Rightarrow> bool" where
  "loaded_at m a bs \<longleftrightarrow> (\<forall>i < length bs. m (a + of_nat i) = bs ! i)"

lemma fetch_loaded:
  assumes "loaded_at m a bs" and "k + n \<le> length bs"
  shows "fetch m (a + of_nat k) n = take n (drop k bs)"
proof (rule nth_equalityI)
  show "length (fetch m (a + of_nat k) n) = length (take n (drop k bs))"
    using assms(2) by (simp add: fetch_def)
next
  fix i assume "i < length (fetch m (a + of_nat k) n)"
  then have "i < n" by (simp add: fetch_def)
  moreover from this assms have "m (a + of_nat (k + i)) = bs ! (k + i)"
    unfolding loaded_at_def by (metis add_less_cancel_left order_less_le_trans)
  ultimately show "fetch m (a + of_nat k) n ! i = take n (drop k bs) ! i"
    using assms(2) by (simp add: fetch_def add.assoc)
qed

lemma trampoline_code_run:
  assumes "loaded_at m a (take 24 (trampoline_code rel))" and "rip c = a"
  shows "cpu_run 5 m c = Some (c\<lparr>rip := a + 23 + scast rel, rsp := (rsp c AND scast (0xf0 :: u8)) - 8,
      rdi := a + 32, calls := calls c @ [(a + 24, a + 32, rsp c AND scast (0xf0 :: u8))]\<rparr>)"
proof -
  note f = fetch_loaded [OF assms(1)]
  have code: "fetch m a 3 = [0x48, 0x83, 0xe4]" "fetch m (a + 3) 1 = [0xf0]"
    "fetch m (a + 4) 3 = [0x48, 0x8d, 0x3d]" "fetch m (a + 7) 4 = [0x15, 0, 0, 0]"
    "fetch m (a + 11) 3 = [0xff, 0x15, 7]" "fetch m (a + 11) 2 = [0xff, 0x15]"
    "fetch m (a + 13) 4 = [7, 0, 0, 0]"
    "fetch m (a + 17) 3 = 0x50 # 0xe9 # [ucast rel]"
    "fetch m (a + 17) 2 = [0x50, 0xe9]" "fetch m (a + 17) 1 = [0x50]"
    "fetch m (a + 18) 3 = [0xe9, ucast rel, ucast (drop_bit 8 rel)]"
    "fetch m (a + 18) 2 = [0xe9, ucast rel]" "fetch m (a + 18) 1 = [0xe9]"
    "fetch m (a + 19) 4 = le_bytes 4 rel"
    using f [of 0 3] f [of 3 1] f [of 4 3] f [of 7 4] f [of 11 3] f [of 11 2] f [of 13 4] f [of 17 3]
      f [of 17 2] f [of 17 1] f [of 18 3] f [of 18 2] f [of 18 1] f [of 19 4]
    by (simp_all add: trampoline_code_def eval_nat_numeral)
  have m3: "m (a + 3) = 0xf0" using code(2) by (simp add: fetch_def)
  have d: "disp32 m (a + 7) = 21" "disp32 m (a + 13) = 7" "disp32 m (a + 19) = scast rel"
    by (simp_all add: disp32_def code le_word_le_bytes) (simp_all add: le_word_def)
  have s1: "cpu_step m c = Some (c\<lparr>rip := a + 4, rsp := rsp c AND scast (0xf0 :: u8)\<rparr>)"
    by (simp add: cpu_step_def assms(2) code m3)
  have s2: "cpu_step m c' = Some (c'\<lparr>rip := a + 11, rdi := a + 32\<rparr>)" if "rip c' = a + 4" for c'
    by (simp add: cpu_step_def that code d add.assoc)
  have s3: "cpu_step m c' = Some (c'\<lparr>rip := a + 17, calls := calls c' @ [(a + 24, rdi c', rsp c')]\<rparr>)"
    if "rip c' = a + 11" for c'
    by (simp add: cpu_step_def that code d add.assoc)
  have s4: "cpu_step m c' = Some (c'\<lparr>rip := a + 18, rsp := rsp c' - 8\<rparr>)" if "rip c' = a + 17" for c'
    by (simp add: cpu_step_def that code add.assoc Let_def del: One_nat_def)
  have s5: "cpu_step m c' = Some (c'\<lparr>rip := a + 23 + scast rel\<rparr>)" if "rip c' = a + 18" for c'
    by (simp add: cpu_step_def that code d add.assoc Let_def del: One_nat_def)
  show ?thesis by (simp add: eval_nat_numeral s1 s2 s3 s4 s5)
qed

lemma length_trampoline_code: "length (trampoline_code rel) = 32"
  by (simp add: trampoline_code_def)

lemma build_trampoline_data:
  assumes "build_trampoline img plan b = Inr b'"
  shows "trampoline_data b' = trampoline_code (ucast (image_base img + ucast (ep_rva img) -
      (trampoline_va plan + 23))) @ concat (map (le_bytes 8)
        [b_tls_template_va b, b_tls_template_sz b, b_tls_zero_fill b, b_tls_align_chars b,
         b_tls_index_va b, b_tls_callbacks_va b])"
    and "b' = b\<lparr>trampoline_data := trampoline_data b'\<rparr>"
    and "length (trampoline_data b') = 80"
    and "scast (ucast (image_base img + ucast (ep_rva img) - (trampoline_va plan + 23)) :: u32) =
      image_base img + ucast (ep_rva img) - (trampoline_va plan + 23)"
  using assms
  by (auto simp: build_trampoline_def Let_def push64_def pad_nops_def kTrampolineSize_def
      length_trampoline_code split: if_splits)

section \<open>Facts: the patched IAT sections\<close>

lemma length_section_copy [simp]: "length (section_copy data sec) = unat (sec_rawsz sec)"
  by (auto simp: section_copy_def Let_def)

lemma section_copy_nth:
  "j < unat (sec_rawsz sec) \<Longrightarrow> section_copy data sec ! j =
     (if unat (sec_raw sec) + j < length data then data ! (unat (sec_raw sec) + j) else 0)"
  by (auto simp: section_copy_def Let_def nth_append)

lemma length_zero8: "off + 8 \<le> length p \<Longrightarrow> length (zero8 off p) = length p"
  by (simp add: zero8_def)

lemma zero8_nth:
  "off + 8 \<le> length p \<Longrightarrow> j < length p \<Longrightarrow>
   zero8 off p ! j = (if off \<le> j \<and> j < off + 8 then 0 else p ! j)"
  by (auto simp: zero8_def nth_append)

text \<open>The import slots that \<^verbatim>\<open>patch_rdata\<close> clears in a section, as offsets in its copy.\<close>

definition slot_offs :: "Entry list \<Rightarrow> int \<Rightarrow> Entry \<Rightarrow> ImportEntry list \<Rightarrow> nat set" where
  "slot_offs secs si sec ies = (\<lambda>ie. unat (iat_rva ie - sec_va sec)) `
     {ie \<in> set ies. section_of secs (iat_rva ie) = si \<and>
        unat (iat_rva ie - sec_va sec + 8) \<le> unat (sec_rawsz sec)}"

lemma clear_slots_spec:
  assumes "clear_slots secs si sec ies p = Inr p'" and "length p = unat (sec_rawsz sec)"
  shows "length p' = length p \<and> (\<forall>j < length p. p' ! j =
      (if \<exists>off \<in> slot_offs secs si sec ies. off \<le> j \<and> j < off + 8 then 0 else p ! j))"
  using assms
proof (induction secs si sec ies p arbitrary: p' rule: clear_slots.induct)
  case (1 secs si sec p)
  then show ?case by (simp add: slot_offs_def)
next
  case (2 secs si sec ie ies p)
  let ?o = "iat_rva ie - sec_va sec"
  show ?case
  proof (cases "section_of secs (iat_rva ie) = si \<and> unat (?o + 8) \<le> unat (sec_rawsz sec)")
    case False
    then have "slot_offs secs si sec (ie # ies) = slot_offs secs si sec ies"
      by (auto simp: slot_offs_def)
    with 2 False show ?thesis by (auto simp: Let_def split: if_splits)
  next
    case True
    then have so: "slot_offs secs si sec (ie # ies) = insert (unat ?o) (slot_offs secs si sec ies)"
      by (auto simp: slot_offs_def)
    have b: "unat ?o + 8 \<le> length p" using "2.prems" True by (auto simp: Let_def split: if_splits)
    with "2.prems" True have r: "clear_slots secs si sec ies (zero8 (unat ?o) p) = Inr p'"
      by (simp add: Let_def)
    from "2.IH"(2) [of ?o p'] True b r "2.prems"(2)
    have "length p' = length p" "\<forall>j < length p. p' ! j =
        (if \<exists>off \<in> slot_offs secs si sec ies. off \<le> j \<and> j < off + 8 then 0 else zero8 (unat ?o) p ! j)"
      by (simp_all add: length_zero8)
    with b show ?thesis by (auto simp: so zero8_nth)
  qed
qed

lemma patch_sections_spec:
  assumes "patch_sections img sis m = Inr m'" and "distinct sis"
  shows "(\<forall>si \<in> set sis. \<exists>p. m' si = Some p \<and> clear_slots (img_secs img) si (img_secs img ! nat si)
      (img_imports img) (section_copy (img_buf img) (img_secs img ! nat si)) = Inr p)
    \<and> (\<forall>si. si \<notin> set sis \<longrightarrow> m' si = m si)"
  using assms
proof (induction img sis m rule: patch_sections.induct)
  case (1 img m)
  then show ?case by simp
next
  case (2 img si sis m)
  let ?c = "clear_slots (img_secs img) si (img_secs img ! nat si) (img_imports img)
      (section_copy (img_buf img) (img_secs img ! nat si))"
  obtain p where p: "?c = Inr p" and r: "patch_sections img sis (m(si \<mapsto> p)) = Inr m'"
    using "2.prems"(1) by (auto simp: Let_def split: sum.splits)
  from "2.IH" [OF refl p r] "2.prems"(2) p show ?case by auto
qed

lemma clear_slots_total:
  assumes "length p = unat (sec_rawsz sec)"
    and "\<forall>ie \<in> set ies. section_of secs (iat_rva ie) = si \<longrightarrow>
      unat (iat_rva ie - sec_va sec) + 8 < 2 ^ 32"
  shows "\<exists>p'. clear_slots secs si sec ies p = Inr p'"
  using assms
proof (induction secs si sec ies p rule: clear_slots.induct)
  case (1 secs si sec p)
  then show ?case by simp
next
  case (2 secs si sec ie ies p)
  let ?o = "iat_rva ie - sec_va sec"
  have "unat (?o + 8) = unat ?o + 8" if "section_of secs (iat_rva ie) = si"
    using "2.prems"(2) that by (subst unat_add_nowrap) auto
  with 2 show ?case by (auto simp: Let_def length_zero8)
qed

section \<open>Properties\<close>

text \<open>
  A non-zero answer of \<^verbatim>\<open>find_safe_entry\<close> is the address of a byte \<^verbatim>\<open>0xC3\<close> (\<^verbatim>\<open>RET\<close>) that the
  file holds for an executable section.
\<close>

theorem safe_entry_is_ret:
  assumes "find_safe_entry img \<noteq> 0"
  shows "\<exists>sec \<in> set (img_secs img). \<exists>i. sec_chars sec AND PE_SCN_MEM_EXECUTE \<noteq> 0
    \<and> i < unat (sec_rawsz sec) \<and> unat (sec_raw sec) + i < length (img_buf img)
    \<and> img_buf img ! (unat (sec_raw sec) + i) = 0xC3
    \<and> find_safe_entry img = image_base img + ucast (sec_va sec) + of_nat i"
  using safe_entry_in_spec assms unfolding find_safe_entry_def by blast

theorem safe_entry_is_ret_witness:
  "\<exists>i. i < (2 :: nat) \<and> [0x90, 0xC3 :: u8] ! i = 0xC3"
proof -
  let ?sec = "(raw_section 0x1000 2)\<lparr>sec_raw := 0, sec_chars := 0x20000000\<rparr>"
  let ?img = "(plan_image [?sec])\<lparr>img_buf := [0x90, 0xC3]\<rparr>"
  have "find_safe_entry ?img \<noteq> 0"
    by (simp add: find_safe_entry_def plan_image_def raw_section_def)
  from safe_entry_is_ret [OF this] show ?thesis
    by (auto simp: plan_image_def raw_section_def)
qed

text \<open>
  The assertion at the end of \<^verbatim>\<open>build_dynamic\<close> holds: a builder with an empty dynamic table
  gets exactly the \<^verbatim>\<open>dt_entry_count\<close> entries the plan reserved room for, of which the last,
  and only the last, is \<^verbatim>\<open>DT_NULL\<close>.
\<close>

theorem dynamic_table_filled:
  assumes "dynamic_data b = []"
  shows "length (dynamic_data (build_dynamic plan b)) = dt_entry_count b
    \<and> map d_tag (dynamic_data (build_dynamic plan b)) =
        butlast (map d_tag (dynamic_data (build_dynamic plan b))) @ [DT_NULL]
    \<and> DT_NULL \<notin> set (butlast (map d_tag (dynamic_data (build_dynamic plan b))))"
  using dynamic_count [OF assms, of plan] assms
  by (cases "inject_name b = []"; cases "so_mode b")
    (simp_all add: build_dynamic_def dyn_entry_def butlast_append)

theorem dynamic_table_filled_witness:
  "length (dynamic_data (build_dynamic plan0 tiny_builder)) = 12"
  using dynamic_table_filled [of tiny_builder plan0]
  by (simp add: tiny_builder_def new_builder_def dt_entry_count_def)

end
