(* ===== verification/Elf_Segments.thy ===== *)
theory Elf_Segments
  imports Elf_Build
begin

text \<open>
  What the program headers and section headers of \<^verbatim>\<open>Builder\<close> promise the loader: their
  number fits the space reserved for them, every PE section has a loadable segment, every
  address the dynamic linker relocates lies in a writable one, file offsets and addresses
  agree modulo the page size, and every section header finds its name.
\<close>

section \<open>The segments of the sections\<close>

lemma length_sec_phdrs: "length (fst (sec_phdrs img strip relro i secs)) \<le> length secs"
  by (induction img strip relro i secs rule: sec_phdrs.induct)
    (auto simp: Let_def case_prod_beta)

lemma sec_phdrs_in:
  "k < length secs \<Longrightarrow> \<not> (strip \<and> is_pdata (secs ! k)) \<Longrightarrow>
   sec_phdr img (i + int k) (secs ! k) \<in> set (fst (sec_phdrs img strip relro i secs))"
proof (induction secs arbitrary: i relro k)
  case Nil
  then show ?case by simp
next
  case (Cons sec secs)
  show ?case
  proof (cases k)
    case 0
    with Cons.prems show ?thesis by (auto simp: Let_def case_prod_beta)
  next
    case (Suc j)
    have "sec_phdr img (i + int k) (secs ! j) \<in> set (fst (sec_phdrs img strip r (i + 1) secs))" for r
      using Cons.IH [of j "i + 1" r] Cons.prems Suc by (simp add: ac_simps)
    then show ?thesis using Suc by (cases strip) (simp_all add: Let_def case_prod_beta)
  qed
qed

lemma sec_phdrs_out:
  "p \<in> set (fst (sec_phdrs img strip relro i secs)) \<Longrightarrow>
   \<exists>k < length secs. p = sec_phdr img (i + int k) (secs ! k)"
proof (induction img strip relro i secs rule: sec_phdrs.induct)
  case (1 img strip relro i)
  then show ?case by simp
next
  case (2 img strip relro i sec secs)
  show ?case
  proof (cases "p = sec_phdr img i sec")
    case True
    then show ?thesis by (intro exI [of _ 0]) simp
  next
    case False
    with 2 obtain k where "k < length secs" "p = sec_phdr img (i + 1 + int k) (secs ! k)"
      by (auto simp: Let_def case_prod_beta split: if_splits)
    then show ?thesis by (intro exI [of _ "Suc k"]) (simp add: ac_simps)
  qed
qed

lemma build_phdrs_eq:
  obtains p0 rest ps relro where
    "phdrs (build_phdrs img plan b) = p0 # rest @ ps @ tail_phdrs img plan relro"
    and "sec_phdrs img (strip_pdata b) (- 1) 0 (img_secs img) = (ps, relro)"
    and "head_phdrs plan b = hd (head_phdrs plan b) # rest" and "length rest = 3"
    and "p_type p0 = PT_PHDR" and "p_offset p0 = 64"
    and "p_filesz p0 = of_nat (length (phdrs (build_phdrs img plan b))) * 56"
proof -
  obtain ps relro where s: "sec_phdrs img (strip_pdata b) (- 1) 0 (img_secs img) = (ps, relro)"
    by fastforce
  obtain h rest where h: "head_phdrs plan b = h # rest" "length rest = 3" "p_type h = PT_PHDR"
      "p_offset h = 64"
    by (simp add: head_phdrs_def Let_def)
  let ?sz = "of_nat (length (h # rest @ ps @ tail_phdrs img plan relro)) * 56"
  have e: "phdrs (build_phdrs img plan b) =
      h\<lparr>p_filesz := ?sz, p_memsz := ?sz\<rparr> # rest @ ps @ tail_phdrs img plan relro"
    using s h by (simp add: build_phdrs_def Let_def)
  show ?thesis by (rule that [OF e s]) (simp_all add: h e)
qed

lemma length_tail_phdrs: "length (tail_phdrs img plan relro) \<le> 3"
  by (simp add: tail_phdrs_def Let_def)

lemma length_phdrs: "length (phdrs (build_phdrs img plan b)) \<le> length (img_secs img) + 7"
proof -
  obtain p0 rest ps relro where p: "phdrs (build_phdrs img plan b) =
        p0 # rest @ ps @ tail_phdrs img plan relro"
      "sec_phdrs img (strip_pdata b) (- 1) 0 (img_secs img) = (ps, relro)" "length rest = 3"
    by (rule build_phdrs_eq)
  have "length ps \<le> length (img_secs img)"
    using length_sec_phdrs [of img "strip_pdata b" "- 1" 0 "img_secs img"] p(2) by simp
  with p length_tail_phdrs [of img plan relro] show ?thesis by simp
qed

lemma sec_phdr_in_phdrs:
  assumes "k < length (img_secs img)" and "\<not> (strip_pdata b \<and> is_pdata (img_secs img ! k))"
  shows "sec_phdr img (int k) (img_secs img ! k) \<in> set (phdrs (build_phdrs img plan b))"
proof -
  obtain p0 rest ps relro where p: "phdrs (build_phdrs img plan b) =
        p0 # rest @ ps @ tail_phdrs img plan relro"
      "sec_phdrs img (strip_pdata b) (- 1) 0 (img_secs img) = (ps, relro)"
    by (rule build_phdrs_eq)
  from sec_phdrs_in [OF assms, of img 0 "- 1"] p show ?thesis by simp
qed

section \<open>Relocated addresses are writable\<close>

definition maps_addr :: "Elf64_Phdr \<Rightarrow> u64 \<Rightarrow> bool" where
  "maps_addr p a \<longleftrightarrow> p_type p = PT_LOAD \<and> a - p_vaddr p < p_memsz p"

definition writable :: "Elf64_Phdr \<Rightarrow> bool" where
  "writable p \<longleftrightarrow> p_flags p AND PF_W \<noteq> 0"

lemma in_sec_nat:
  assumes "in_sec e rva"
  shows "unat (sec_va e) \<le> unat rva"
    and "unat rva < unat (sec_va e) + max (unat (sec_virtsz e)) (unat (sec_rawsz e))"
    and "unat (sec_va e) + max (unat (sec_virtsz e)) (unat (sec_rawsz e)) < 2 ^ 32"
proof -
  let ?m = "max (sec_virtsz e) (sec_rawsz e)"
  have um: "unat ?m = max (unat (sec_virtsz e)) (unat (sec_rawsz e))"
    by (auto simp: max_def word_le_nat_alt)
  have a: "unat (sec_va e) \<le> unat rva" "unat rva < unat (sec_va e + ?m)"
    using assms by (auto simp: in_sec_def sec_end_def word_le_nat_alt word_less_nat_alt)
  have "unat (sec_va e) + unat ?m < 2 ^ 32"
  proof (rule ccontr)
    assume "\<not> ?thesis"
    then have "unat (sec_va e + ?m) = unat (sec_va e) + unat ?m - 2 ^ 32"
      using unat_u32_less [of "sec_va e"] unat_u32_less [of ?m]
      by (simp add: unat_word_ariths mod_if)
    then have "unat (sec_va e + ?m) < unat (sec_va e)" using unat_u32_less [of ?m] a by simp
    with a show False by simp
  qed
  moreover from this have "unat (sec_va e + ?m) = unat (sec_va e) + unat ?m"
    by (intro unat_add_nowrap) simp
  ultimately show "unat (sec_va e) \<le> unat rva"
    "unat rva < unat (sec_va e) + max (unat (sec_virtsz e)) (unat (sec_rawsz e))"
    "unat (sec_va e) + max (unat (sec_virtsz e)) (unat (sec_rawsz e)) < 2 ^ 32"
    using a um by auto
qed

lemma ucast_max_u32: "max (ucast (x :: u32)) (ucast y) = (ucast (max x y) :: u64)"
  by (simp add: max_def word_le_nat_alt)

lemma unat_max_u32: "unat (max (x :: u32) y) = max (unat x) (unat y)"
  by (auto simp: max_def word_le_nat_alt)

lemma sec_phdr_maps:
  assumes "in_sec e rva"
  shows "maps_addr (sec_phdr img i e) (image_base img + ucast rva)"
proof -
  note n = in_sec_nat [OF assms]
  have le: "(ucast (sec_va e) :: u64) \<le> ucast rva" using n by (simp add: word_le_nat_alt)
  have "unat ((ucast rva :: u64) - ucast (sec_va e)) = unat rva - unat (sec_va e)"
    using unat_sub [OF le] by simp
  then have "(ucast rva :: u64) - ucast (sec_va e) < max (ucast (sec_virtsz e)) (ucast (sec_rawsz e))"
    using n unfolding ucast_max_u32 by (simp add: word_less_nat_alt unat_max_u32)
  then show ?thesis by (simp add: maps_addr_def sec_phdr_def zero_phdr_def)
qed

lemma writable_or_W: "(f OR PF_W) AND PF_W \<noteq> (0 :: u32)"
proof -
  have "bit ((f OR PF_W) AND PF_W) 1" by (simp add: bit_simps)
  then show ?thesis by (metis bit_0_eq bot_apply bot_bool_def)
qed

lemma iat_sec_writable: "is_iat_sec img i \<Longrightarrow> writable (sec_phdr img i e)"
  using writable_or_W
  by (simp add: writable_def sec_phdr_def sec_seg_flags_def Let_def or.assoc)

lemma reloc_sec_writable: "has_reloc_in img e \<Longrightarrow> writable (sec_phdr img i e)"
  using writable_or_W by (simp add: writable_def sec_phdr_def sec_seg_flags_def Let_def)

lemma has_reloc_in_intro:
  assumes re: "re \<in> set (img_relocs img)" and va: "re_va re = image_base img + ucast rva"
    and sec: "in_sec e rva" and base: "unat (image_base img) + 2 ^ 32 \<le> 2 ^ 64"
  shows "has_reloc_in img e"
proof -
  note n = in_sec_nat [OF sec]
  let ?m = "max (sec_virtsz e) (sec_rawsz e)"
  have s: "unat (image_base img + ucast (sec_va e)) = unat (image_base img) + unat (sec_va e)"
    by (rule unat_add_eq) (use base n in auto)
  have t: "unat (image_base img + ucast (sec_va e) + ucast ?m) =
      unat (image_base img) + unat (sec_va e) + unat ?m"
    by (rule unat_add_eq [OF s]) (use base n in \<open>auto simp: unat_max_u32\<close>)
  have r: "unat (image_base img + ucast rva) = unat (image_base img) + unat rva"
    by (rule unat_add_eq) (use base n in auto)
  have "re_va re \<ge> image_base img + ucast (sec_va e)"
      "re_va re < image_base img + ucast (sec_va e) + ucast ?m"
    using n s t r va by (auto simp: word_le_nat_alt word_less_nat_alt unat_max_u32)
  with re show ?thesis
    by (auto simp: has_reloc_in_def Let_def list_ex_iff ucast_max_u32)
qed

section \<open>File offsets and addresses agree modulo the page size\<close>

lemma dvd_unat_add: "4096 dvd unat (x :: u64) \<Longrightarrow> 4096 dvd unat y \<Longrightarrow> 4096 dvd unat (x + y)"
  by (simp add: unat_word_ariths dvd_mod)

lemma choose_synth_va_aligned: "4096 dvd unat (choose_synth_va base needed)"
proof -
  have "kPageSize - 1 = mask 12" by (simp add: kPageSize_def mask_eq_exp_minus_1)
  then show ?thesis
    by (simp add: choose_synth_va_def kSynthFallbackVa_def unat_and_not_mask)
qed

lemma laid_out_fin_aligned: "laid_out cur es fin \<Longrightarrow> 4096 dvd cur \<Longrightarrow> 4096 dvd fin"
  by (induction es arbitrary: cur) auto

definition page_congruent :: "Elf64_Phdr \<Rightarrow> bool" where
  "page_congruent p \<longleftrightarrow> 4096 dvd unat (p_offset p) \<and> 4096 dvd unat (p_vaddr p)"

lemma sec_phdr_congruent:
  "4096 dvd unat (image_base img) \<Longrightarrow> 4096 dvd unat (sec_va e) \<Longrightarrow> 4096 dvd unat (elf_foff e) \<Longrightarrow>
   page_congruent (sec_phdr img i e)"
  by (simp add: page_congruent_def sec_phdr_def zero_phdr_def dvd_unat_add)

lemma phdrs_congruent:
  assumes plan: "compute_plan img0 isz dsym dstr rel dt hs = (plan, img)"
    and n: "length (img_secs img0) \<le> 96" and sz: "plan_sizes_ok [isz, dsym, dstr, rel, dt, hs]"
    and al: "4096 dvd unat (image_base img)" "\<forall>e \<in> set (img_secs img). 4096 dvd unat (sec_va e)"
    and p: "p \<in> set (phdrs (build_phdrs img plan b))" "p_type p = PT_LOAD"
  shows "page_congruent p"
proof -
  note lay = compute_plan_secs [OF plan n sz]
  obtain p0 rest ps relro where e: "phdrs (build_phdrs img plan b) =
        p0 # rest @ ps @ tail_phdrs img plan relro"
      "sec_phdrs img (strip_pdata b) (- 1) 0 (img_secs img) = (ps, relro)"
      "head_phdrs plan b = hd (head_phdrs plan b) # rest" "p_type p0 = PT_PHDR"
    by (rule build_phdrs_eq)
  have foff: "4096 dvd unat (elf_foff (img_secs img ! k))" if "k < length (img_secs img)" for k
    using laid_out_nth(2) [OF lay(1,2) that] .
  consider "p \<in> set rest" | "p \<in> set ps" | "p \<in> set (tail_phdrs img plan relro)"
    using p e(1,4) by auto
  then show ?thesis
  proof cases
    case 1
    have "synth_foff plan = 0" "4096 dvd unat (synth_va plan)"
      using plan choose_synth_va_aligned
      by (auto simp: compute_plan_def Let_def case_prod_beta)
    moreover have "p \<in> set (head_phdrs plan b)" using 1 e(3) by (metis list.set_intros(2))
    ultimately show ?thesis
      using p(2) by (auto simp: head_phdrs_def Let_def zero_phdr_def page_congruent_def)
  next
    case 2
    then obtain k where "k < length (img_secs img)" "p = sec_phdr img (int k) (img_secs img ! k)"
      using sec_phdrs_out [of p img "strip_pdata b" "- 1" 0 "img_secs img"] e(2) by auto
    with foff al show ?thesis by (auto intro: sec_phdr_congruent)
  next
    case 3
    with p(2) al(1) laid_out_fin_aligned [OF lay(1,2)] show ?thesis
      by (auto simp: tail_phdrs_def Let_def zero_phdr_def page_congruent_def split: if_splits)
  qed
qed

section \<open>The names of the section headers\<close>

interpretation shdr_tab: string_table sh_name "\<lambda>off s. s\<lparr>sh_name := off\<rparr>"
  by unfold_locales simp

lemma add_shdr_eq:
  "0 \<notin> set name \<Longrightarrow> add_shdr name s (hs, tab) =
     (hs @ [s\<lparr>sh_name := of_nat (length tab)\<rparr>], push_str tab name)"
proof -
  assume "0 \<notin> set name"
  then have "c_str name = name" by (induction name) (auto simp: c_str_def)
  then show ?thesis by (simp add: add_shdr_def add_shstrtab_def push_str_def)
qed

definition shdrs_named :: "Elf64_Shdr list \<times> bytes \<Rightarrow> bytes list \<Rightarrow> bool" where
  "shdrs_named st ns \<longleftrightarrow>
     (length (snd st) < 2 ^ 32 \<longrightarrow> named_by sh_name (snd st) (fst st) ns) \<and> length (fst st) = length ns"

lemma add_shdr_named:
  assumes "shdrs_named st ns" and "0 \<notin> set name"
  shows "shdrs_named (add_shdr name s st) (ns @ [name])"
proof -
  obtain hs tab where st: "st = (hs, tab)" by fastforce
  show ?thesis
    using assms shdr_tab.named_snoc [of tab hs ns name s]
    by (auto simp: shdrs_named_def st add_shdr_eq length_push_str)
qed

lemma fold_add_shdr_named:
  assumes "shdrs_named st ns" and "\<forall>e \<in> set es. 0 \<notin> set (nm e)"
  shows "shdrs_named (fold (\<lambda>e. add_shdr (nm e) (f e)) es st) (ns @ map nm es)"
  using assms
proof (induction es arbitrary: st ns)
  case Nil
  then show ?case by simp
next
  case (Cons e es)
  have "shdrs_named (add_shdr (nm e) (f e) st) (ns @ [nm e])"
    by (rule add_shdr_named) (use Cons.prems in auto)
  from Cons.IH [OF this] Cons.prems show ?case by simp
qed

definition shdr_names :: "PeImage \<Rightarrow> Builder \<Rightarrow> bytes list" where
  "shdr_names img b = [[], str_bytes ''.dynsym'', str_bytes ''.dynstr''] @
     (if hash_data b = [] then [] else [str_bytes ''.hash'']) @
     [str_bytes ''.rela.dyn'', str_bytes ''.dynamic'', str_bytes ''.interp''] @
     map sec_name_str (img_secs img) @ [str_bytes ''.shstrtab'']"

lemma build_shdrs_named:
  assumes "\<forall>e \<in> set (img_secs img). 0 \<notin> set (sec_name_str e)"
  shows "shdrs_named (shdrs (build_shdrs img plan foff va b),
      shstrtab_data (build_shdrs img plan foff va b)) (shdr_names img b)"
proof -
  have lit: "0 \<notin> set (str_bytes ''.dynsym'')" "0 \<notin> set (str_bytes ''.dynstr'')"
      "0 \<notin> set (str_bytes ''.hash'')" "0 \<notin> set (str_bytes ''.rela.dyn'')"
      "0 \<notin> set (str_bytes ''.dynamic'')" "0 \<notin> set (str_bytes ''.interp'')"
      "0 \<notin> set (str_bytes ''.shstrtab'')"
    by (simp_all add: str_bytes_def)
  have st0: "shdrs_named ([zero_shdr], [0]) [[]]"
    by (simp add: shdrs_named_def named_by_def zero_shdr_def str_at_def)
  have "shdrs_named (let b' = build_shdrs img plan foff va b in (shdrs b', shstrtab_data b'))
      ((([[]] @ [str_bytes ''.dynsym'']) @ [str_bytes ''.dynstr'']) @
        (if hash_data b = [] then [] else [str_bytes ''.hash'']) @
        [str_bytes ''.rela.dyn''] @ [str_bytes ''.dynamic''] @ [str_bytes ''.interp''] @
        map sec_name_str (img_secs img) @ [str_bytes ''.shstrtab''])"
  proof (cases "hash_data b = []")
    case True
    show ?thesis
      using add_shdr_named [OF fold_add_shdr_named [OF add_shdr_named [OF add_shdr_named [OF
        add_shdr_named [OF add_shdr_named [OF add_shdr_named [OF st0 lit(1)] lit(2)] lit(4)] lit(5)]
        lit(6)] assms] lit(7)] True
      by (simp add: build_shdrs_def Let_def case_prod_beta)
  next
    case False
    show ?thesis
      using add_shdr_named [OF fold_add_shdr_named [OF add_shdr_named [OF add_shdr_named [OF
        add_shdr_named [OF add_shdr_named [OF add_shdr_named [OF add_shdr_named [OF st0 lit(1)]
        lit(2)] lit(3)] lit(4)] lit(5)] lit(6)] assms] lit(7)] False
      by (simp add: build_shdrs_def Let_def case_prod_beta)
  qed
  then show ?thesis by (simp add: shdr_names_def Let_def)
qed

section \<open>Properties\<close>

text \<open>
  Every section header finds its name in \<^verbatim>\<open>.shstrtab\<close>: header number \<open>i\<close> carries the offset
  of the \<open>i\<close>-th name (the fixed sections, the PE sections in order, \<^verbatim>\<open>.shstrtab\<close> last), which
  stands there with its terminator.
\<close>

theorem section_headers_named:
  assumes "\<forall>e \<in> set (img_secs img). 0 \<notin> set (sec_name_str e)"
    and "length (shstrtab_data (build_shdrs img plan foff va b)) < 2 ^ 32"
    and "i < length (shdrs (build_shdrs img plan foff va b))"
  shows "str_at (shstrtab_data (build_shdrs img plan foff va b))
      (unat (sh_name (shdrs (build_shdrs img plan foff va b) ! i))) (shdr_names img b ! i)
    \<and> length (shdrs (build_shdrs img plan foff va b)) = length (shdr_names img b)"
  using build_shdrs_named [OF assms(1), of plan foff va b] assms(2,3) shdr_tab.named_nth
  by (auto simp: shdrs_named_def)

theorem section_headers_named_witness:
  "str_at (shstrtab_data (build_shdrs (plan_image []) plan0 0 0 tiny_builder))
     (unat (sh_name (shdrs (build_shdrs (plan_image []) plan0 0 0 tiny_builder) ! 1)))
     (str_bytes ''.dynsym'')"
  using section_headers_named [of "plan_image []" plan0 0 0 tiny_builder 1]
  by (simp add: plan_image_def build_shdrs_def Let_def add_shdr_def add_shstrtab_def tiny_builder_def
      new_builder_def shdr_names_def c_str_def str_bytes_def)

end
