(* ===== verification/Elf_Write.thy ===== *)
theory Elf_Write
  imports Elf_Segments
begin

text \<open>
  Models \<^verbatim>\<open>Writer\<close> (\<^verbatim>\<open>src/elf_write.hpp\<close>): the file header and the serialisation of
  everything the builder made into one byte string, with padding up to each planned offset.
  The lemmas show that each part is found in the file at its planned offset.
\<close>

definition write_ehdr :: "bool \<Rightarrow> bool \<Rightarrow> Plan \<Rightarrow> Builder \<Rightarrow> u64 \<Rightarrow> Elf64_Ehdr" where
  "write_ehdr keep_shdr pie plan b shoff =
     \<lparr>e_ident = [0x7f, 69, 76, 70, 2, 1, 1, 0] @ replicate 8 0,
      e_type = (if pie \<or> so_mode b then ET_DYN else ET_EXEC), e_machine = EM_X86_64,
      e_version = 1, e_entry = (if so_mode b then safe_entry_va b else trampoline_va plan),
      e_phoff = 64, e_shoff = (if keep_shdr then shoff else 0), e_flags = 0, e_ehsize = 64,
      e_phentsize = 56, e_phnum = of_nat (length (phdrs b)), e_shentsize = 64,
      e_shnum = (if keep_shdr then of_nat (length (shdrs b)) else 0),
      e_shstrndx = (if keep_shdr then of_nat (length (shdrs b) - 1) else 0)\<rparr>"

text \<open>Padding to an offset, then appending.\<close>

definition emit :: "nat \<Rightarrow> bytes \<Rightarrow> bytes \<Rightarrow> bytes" where
  "emit off bs out = out_append (pad_to_size out off) bs"

text \<open>
  The bytes of an unpatched section.  The guard adds in 32 bits; \<open>MemoryFault\<close> is the read
  past the end of the buffer that a wrapped sum lets through.
\<close>

definition sec_bytes :: "bytes \<Rightarrow> Entry \<Rightarrow> bytes result" where
  "sec_bytes data sec =
     (let raw = unat (sec_raw sec); rawsz = unat (sec_rawsz sec) in
      if unat (sec_raw sec + sec_rawsz sec) \<le> length data then
        if raw + rawsz \<le> length data then Inr (take rawsz (drop raw data)) else Inl MemoryFault
      else
        let avail = (if raw < length data then length data - raw else 0)
        in Inr ((if avail > 0 then take avail (drop raw data) else []) @ replicate (rawsz - avail) 0))"

definition section_bytes :: "PeImage \<Rightarrow> Builder \<Rightarrow> int \<Rightarrow> Entry \<Rightarrow> bytes result" where
  "section_bytes img b i sec =
     (case iat_patched b i of
        Some p \<Rightarrow> if p \<noteq> [] then Inr p else sec_bytes (img_buf img) sec
      | None \<Rightarrow> sec_bytes (img_buf img) sec)"

fun write_sections :: "PeImage \<Rightarrow> Builder \<Rightarrow> int \<Rightarrow> Entry list \<Rightarrow> bytes \<Rightarrow> bytes result" where
  "write_sections img b i [] out = Inr out"
| "write_sections img b i (sec # secs) out =
     (case section_bytes img b i sec of
        Inl e \<Rightarrow> Inl e
      | Inr bs \<Rightarrow> write_sections img b (i + 1) secs (emit (unat (elf_foff sec)) bs out))"

definition header_bytes :: "PeImage \<Rightarrow> bytes" where
  "header_bytes img =
     (let sz = SizeOfHeaders (img_oh img);
          sz' = (if unat sz > length (img_buf img) then of_nat (length (img_buf img)) else sz)
      in take (unat sz') (img_buf img))"

definition write_synthetic :: "bool \<Rightarrow> bool \<Rightarrow> Plan \<Rightarrow> Builder \<Rightarrow> u64 \<Rightarrow> bytes" where
  "write_synthetic keep_shdr pie plan b shoff =
     (let o0 = out_append [] (enc_ehdr (write_ehdr keep_shdr pie plan b shoff));
          o1 = out_append o0 (concat (map enc_phdr (phdrs b)));
          o2 = emit (unat (interp_foff plan)) (interp_data b) o1;
          o3 = emit (unat (dynsym_foff plan)) (concat (map enc_sym (dynsym_data b))) o2;
          o4 = emit (unat (dynstr_foff plan)) (dynstr_data b) o3;
          o5 = (if hash_data b = [] then o4 else emit (unat (hash_foff plan)) (hash_data b) o4);
          o6 = emit (unat (rela_foff plan)) (concat (map enc_rela (rela_data b))) o5;
          o7 = emit (unat (dynamic_foff plan)) (concat (map enc_dyn (dynamic_data b))) o6
      in emit (unat (trampoline_foff plan)) (trampoline_data b) o7)"

definition write_image ::
  "PeImage \<Rightarrow> Plan \<Rightarrow> Builder \<Rightarrow> bool \<Rightarrow> bool \<Rightarrow> u64 \<Rightarrow> u64 \<Rightarrow> bytes result" where
  "write_image img plan b keep_shdr pie shoff shstrtab_foff =
     (case write_sections img b 0 (img_secs img) (write_synthetic keep_shdr pie plan b shoff) of
        Inl e \<Rightarrow> Inl e
      | Inr o1 \<Rightarrow>
          let o2 = emit (unat (pe_hdr_foff plan)) (header_bytes img) o1
          in Inr (if keep_shdr then
                    emit (unat shoff) (concat (map enc_shdr (shdrs b)))
                      (emit (unat shstrtab_foff) (shstrtab_data b) o2)
                  else o2))"

text \<open>
  The host's side of writing the file: whether it can be created and how many bytes
  \<^verbatim>\<open>fwrite\<close> accepts.
\<close>

record host_out =
  can_create :: "bytes \<Rightarrow> bool"
  fwrite_count :: "bytes \<Rightarrow> nat \<Rightarrow> nat"

definition write_file ::
  "host_out \<Rightarrow> PeImage \<Rightarrow> Plan \<Rightarrow> Builder \<Rightarrow> bool \<Rightarrow> bool \<Rightarrow> bytes \<Rightarrow> u64 \<Rightarrow> u64 \<Rightarrow> bytes result" where
  "write_file host img plan b keep_shdr pie out_path shoff shstrtab_foff =
     (case write_image img plan b keep_shdr pie shoff shstrtab_foff of
        Inl e \<Rightarrow> Inl e
      | Inr out \<Rightarrow>
          if \<not> can_create host out_path then Inl CannotCreate
          else if fwrite_count host out_path (length out) \<noteq> length out then Inl WriteError
          else Inr out)"

section \<open>Facts\<close>

text \<open>A block of bytes found in a file at an offset.\<close>

definition holds_at :: "bytes \<Rightarrow> nat \<Rightarrow> bytes \<Rightarrow> bool" where
  "holds_at file off bs \<longleftrightarrow> off + length bs \<le> length file \<and> take (length bs) (drop off file) = bs"

lemma holds_at_append: "holds_at file off bs \<Longrightarrow> holds_at (file @ rest) off bs"
  by (simp add: holds_at_def)

lemma holds_at_split:
  "holds_at file off bs \<Longrightarrow> file = take off file @ bs @ drop (off + length bs) file"
  by (metis append_take_drop_id drop_drop holds_at_def add.commute)

context packed_struct
begin

text \<open>A table of structs that a file holds is read back entry by entry.\<close>

lemma table_at:
  assumes "holds_at file off (concat (map enc xs))" and "i < length xs"
  shows "map_option dec (buf_at size_of file (off + i * size_of)) = Some (xs ! i)"
proof -
  let ?t = "concat (map enc xs)"
  have "length (take off file) = off" using assms(1) by (simp add: holds_at_def)
  then show ?thesis
    using table_lookup [OF assms(2), of "take off file" "drop (off + length ?t) file"]
      holds_at_split [OF assms(1)] by simp
qed

end

lemma emit_eq: "emit off bs out = out @ replicate (off - length out) 0 @ bs"
  by (simp add: emit_def out_append_def pad_to_size_eq)

lemma emit_keeps: "holds_at out o' bs' \<Longrightarrow> holds_at (emit off bs out) o' bs'"
  by (simp add: emit_eq holds_at_append)

lemma emit_holds:
  "length out \<le> off \<Longrightarrow> holds_at (emit off bs out) off bs \<and> length (emit off bs out) = off + length bs"
  by (simp add: emit_eq holds_at_def)

lemma sec_bytes_eq:
  assumes "sec_bytes data sec = Inr bs"
  shows "bs = section_copy data sec"
proof -
  let ?raw = "unat (sec_raw sec)" and ?sz = "unat (sec_rawsz sec)"
  show ?thesis
  proof (cases "unat (sec_raw sec + sec_rawsz sec) \<le> length data")
    case True
    then have "?raw + ?sz \<le> length data" "bs = take ?sz (drop ?raw data)"
      using assms by (auto simp: sec_bytes_def Let_def split: if_splits)
    then show ?thesis by (auto simp: section_copy_def Let_def)
  next
    case False
    then have bs: "bs = take (length data - ?raw) (drop ?raw data) @
        replicate (?sz - (length data - ?raw)) 0"
      using assms by (auto simp: sec_bytes_def Let_def split: if_splits)
    show ?thesis
    proof (cases "?raw < length data")
      case True
      have "?raw + ?sz \<ge> length data"
      proof (rule ccontr)
        assume "\<not> ?thesis"
        moreover have "unat (sec_raw sec + sec_rawsz sec) \<le> ?raw + ?sz"
          by (simp add: unat_word_ariths)
        ultimately show False using False by simp
      qed
      with True bs show ?thesis by (simp add: section_copy_def Let_def)
    next
      case raw: False
      with bs show ?thesis by (simp add: section_copy_def)
    qed
  qed
qed

text \<open>The bytes that section \<open>i\<close> has in the output.\<close>

definition out_section :: "PeImage \<Rightarrow> Builder \<Rightarrow> int \<Rightarrow> Entry \<Rightarrow> bytes" where
  "out_section img b i sec =
     (case iat_patched b i of Some p \<Rightarrow> p | None \<Rightarrow> section_copy (img_buf img) sec)"

definition patched_sizes_ok :: "PeImage \<Rightarrow> Builder \<Rightarrow> bool" where
  "patched_sizes_ok img b \<longleftrightarrow>
     (\<forall>k < length (img_secs img). \<forall>p. iat_patched b (int k) = Some p \<longrightarrow>
        length p = unat (sec_rawsz (img_secs img ! k)))"

lemma section_bytes_eq:
  assumes "section_bytes img b i sec = Inr bs"
    and "\<And>p. iat_patched b i = Some p \<Longrightarrow> length p = unat (sec_rawsz sec)"
  shows "bs = out_section img b i sec \<and> length bs = unat (sec_rawsz sec)"
proof (cases "iat_patched b i")
  case None
  then have "bs = section_copy (img_buf img) sec"
    using assms(1) by (intro sec_bytes_eq) (simp add: section_bytes_def)
  with None show ?thesis by (simp add: out_section_def)
next
  case (Some p)
  show ?thesis
  proof (cases "p = []")
    case True
    then have "sec_rawsz sec = 0" using assms(2) Some by (simp add: unsigned_eq_0_iff)
    moreover have "bs = section_copy (img_buf img) sec"
      using assms(1) Some True sec_bytes_eq by (auto simp: section_bytes_def)
    ultimately show ?thesis using Some True
      by (metis length_0_conv length_section_copy option.simps(5) out_section_def unsigned_0)
  next
    case False
    with assms Some show ?thesis by (auto simp: section_bytes_def out_section_def)
  qed
qed

lemma write_sections_keeps:
  "write_sections img b i secs out = Inr out' \<Longrightarrow> \<exists>rest. out' = out @ rest"
proof (induction img b i secs out rule: write_sections.induct)
  case (1 img b i out)
  then show ?case by simp
next
  case (2 img b i sec secs out)
  then show ?case by (fastforce simp: emit_eq split: sum.splits)
qed

lemma write_sections_holds:
  assumes "write_sections img b i secs out = Inr out'" and "laid_out cur secs fin"
    and "length out \<le> cur"
    and "\<And>k p. k < length secs \<Longrightarrow> iat_patched b (i + int k) = Some p \<Longrightarrow>
      length p = unat (sec_rawsz (secs ! k))"
  shows "(\<forall>k < length secs. holds_at out' (unat (elf_foff (secs ! k)))
      (out_section img b (i + int k) (secs ! k))) \<and> length out' \<le> fin"
  using assms
proof (induction img b i secs out arbitrary: cur rule: write_sections.induct)
  case (1 img b i out)
  then show ?case by simp
next
  case (2 img b i sec secs out)
  obtain bs where bs: "section_bytes img b i sec = Inr bs"
    and w: "write_sections img b (i + 1) secs (emit (unat (elf_foff sec)) bs out) = Inr out'"
    using "2.prems"(1) by (auto split: sum.splits)
  have "\<And>p. iat_patched b i = Some p \<Longrightarrow> length p = unat (sec_rawsz sec)"
    using "2.prems"(4) [of 0] by simp
  note eq = section_bytes_eq [OF bs this]
  let ?next = "round_up 4096 (cur + unat (sec_rawsz sec))"
  have l: "unat (elf_foff sec) = cur" "laid_out ?next secs fin" using "2.prems"(2) by auto
  have e: "holds_at (emit cur bs out) cur bs" "length (emit cur bs out) = cur + length bs"
    using emit_holds [OF "2.prems"(3)] by auto
  have n: "cur + unat (sec_rawsz sec) \<le> ?next" by (rule round_up_ge) simp
  have IH: "(\<forall>k < length secs. holds_at out' (unat (elf_foff (secs ! k)))
      (out_section img b (i + 1 + int k) (secs ! k))) \<and> length out' \<le> fin"
  proof (rule "2.IH" [OF bs w l(2)])
    show "length (emit (unat (elf_foff sec)) bs out) \<le> ?next" by (simp only: l(1) e(2) conjunct2 [OF eq] n)
    show "length p = unat (sec_rawsz (secs ! k))"
      if "k < length secs" "iat_patched b (i + 1 + int k) = Some p" for k p
      using "2.prems"(4) [of "Suc k" p] that by (simp add: ac_simps)
  qed
  obtain rest where "out' = emit cur bs out @ rest"
    using write_sections_keeps [OF w] l by auto
  then have "holds_at out' cur bs" using e by (simp add: holds_at_append)
  then show ?case using IH eq l by (auto simp: All_less_Suc2 ac_simps)
qed

text \<open>
  A sequence of blocks, each written at its offset: the file then holds all of them, as long
  as each offset is at or after the end of the block before.
\<close>

fun emit_all :: "(nat \<times> bytes) list \<Rightarrow> bytes \<Rightarrow> bytes" where
  "emit_all [] out = out"
| "emit_all ((off, bs) # cs) out = emit_all cs (emit off bs out)"

fun blocks_fit :: "nat \<Rightarrow> (nat \<times> bytes) list \<Rightarrow> bool" where
  "blocks_fit cur [] = True"
| "blocks_fit cur ((off, bs) # cs) \<longleftrightarrow> cur \<le> off \<and> blocks_fit (off + length bs) cs"

lemma emit_all_keeps: "holds_at out off bs \<Longrightarrow> holds_at (emit_all cs out) off bs"
  by (induction cs out rule: emit_all.induct) (simp_all add: emit_keeps)

lemma emit_all_holds:
  "blocks_fit (length out) cs \<Longrightarrow> (off, bs) \<in> set cs \<Longrightarrow> holds_at (emit_all cs out) off bs"
proof (induction cs out rule: emit_all.induct)
  case (1 out)
  then show ?case by simp
next
  case (2 o1 b1 cs out)
  have e: "holds_at (emit o1 b1 out) o1 b1" "length (emit o1 b1 out) = o1 + length b1"
    using emit_holds [of out o1 b1] "2.prems"(1) by auto
  show ?case
  proof (cases "(off, bs) = (o1, b1)")
    case True
    with e(1) show ?thesis by (simp add: emit_all_keeps)
  next
    case False
    with 2 e(2) show ?thesis by auto
  qed
qed

lemma emit_all_length:
  "blocks_fit (length out) cs \<Longrightarrow> cs \<noteq> [] \<Longrightarrow>
   length (emit_all cs out) = fst (last cs) + length (snd (last cs))"
proof (induction cs out rule: emit_all.induct)
  case (1 out)
  then show ?case by simp
next
  case (2 o1 b1 cs out)
  have "length (emit o1 b1 out) = o1 + length b1"
    using emit_holds [of out o1 b1] "2.prems"(1) by auto
  with 2 show ?case by (cases "cs = []") auto
qed

definition synthetic_blocks :: "bool \<Rightarrow> bool \<Rightarrow> Plan \<Rightarrow> Builder \<Rightarrow> u64 \<Rightarrow> (nat \<times> bytes) list" where
  "synthetic_blocks keep_shdr pie plan b shoff =
     [(0, enc_ehdr (write_ehdr keep_shdr pie plan b shoff)),
      (64, concat (map enc_phdr (phdrs b))),
      (unat (interp_foff plan), interp_data b),
      (unat (dynsym_foff plan), concat (map enc_sym (dynsym_data b))),
      (unat (dynstr_foff plan), dynstr_data b)] @
     (if hash_data b = [] then [] else [(unat (hash_foff plan), hash_data b)]) @
     [(unat (rela_foff plan), concat (map enc_rela (rela_data b))),
      (unat (dynamic_foff plan), concat (map enc_dyn (dynamic_data b))),
      (unat (trampoline_foff plan), trampoline_data b)]"

lemma length_write_ehdr: "length (enc_ehdr (write_ehdr k p plan b shoff)) = 64"
  by (rule length_enc_ehdr) (simp add: write_ehdr_def)

lemma write_synthetic_eq:
  "write_synthetic k p plan b shoff = emit_all (synthetic_blocks k p plan b shoff) []"
proof -
  have "out_append (out_append [] (enc_ehdr (write_ehdr k p plan b shoff))) xs =
      emit 64 xs (emit 0 (enc_ehdr (write_ehdr k p plan b shoff)) [])" for xs
    by (simp add: emit_eq out_append_def length_write_ehdr)
  then show ?thesis
    by (cases "hash_data b = []") (simp_all add: write_synthetic_def synthetic_blocks_def Let_def)
qed

text \<open>The sizes the plan was computed for are the sizes of what is written.\<close>

definition plan_for :: "PeImage \<Rightarrow> PeImage \<Rightarrow> Plan \<Rightarrow> Builder \<Rightarrow> bool" where
  "plan_for img0 img plan b \<longleftrightarrow>
     compute_plan img0 (length (interp_data b)) (length (dynsym_data b)) (length (dynstr_data b))
       (length (rela_data b)) (length (dynamic_data b)) (length (hash_data b)) = (plan, img)
     \<and> length (img_secs img0) \<le> 96
     \<and> plan_sizes_ok [length (interp_data b), length (dynsym_data b), length (dynstr_data b),
         length (rela_data b), length (dynamic_data b), length (hash_data b)]
     \<and> length (phdrs b) \<le> length (img_secs img0) + 7
     \<and> length (trampoline_data b) = 80"

lemma synthetic_blocks_fit:
  assumes "plan_for img0 img plan b"
  shows "blocks_fit 0 (synthetic_blocks k p plan b shoff)"
proof -
  note pf = assms [unfolded plan_for_def]
  from pf have nat: "map unat [interp_foff plan, dynsym_foff plan, dynstr_foff plan, hash_foff plan,
        rela_foff plan, dynamic_foff plan, trampoline_foff plan] =
      map (\<lambda>k. sum_list (take k (plan_steps (length (img_secs img0)) (length (interp_data b))
        (length (dynsym_data b)) (length (dynstr_data b)) (length (rela_data b))
        (length (dynamic_data b)) (length (hash_data b))))) [1, 2, 3, 4, 5, 6, 7]"
    by (intro compute_plan_nat(1)) auto
  have r: "n \<le> round_up 8 n" for n by (rule round_up_ge) simp
  have "64 + length (phdrs b) * 56 \<le> 64 + (length (img_secs img0) + 7) * 56" using pf by simp
  with nat show ?thesis
    using r [of "length (interp_data b)"] r [of "length (dynsym_data b) * 24"]
      r [of "length (dynstr_data b)"] r [of "length (rela_data b) * 24"]
      r [of "length (dynamic_data b) * 16"] r [of "length (hash_data b)"]
    by (simp add: synthetic_blocks_def length_write_ehdr phdr.length_table sym.length_table
        rela.length_table dyn.length_table plan_steps_def)
qed

lemma write_image_holds:
  assumes pf: "plan_for img0 img plan b" and ps: "patched_sizes_ok img b"
    and w: "write_image img plan b keep pie shoff stoff = Inr file"
  shows "\<forall>(off, bs) \<in> set (synthetic_blocks keep pie plan b shoff). holds_at file off bs"
    and "\<forall>k < length (img_secs img). holds_at file (unat (elf_foff (img_secs img ! k)))
      (out_section img b (int k) (img_secs img ! k))"
    and "holds_at file (unat (pe_hdr_foff plan)) (header_bytes img)"
proof -
  let ?out = "write_synthetic keep pie plan b shoff"
  note blocks = synthetic_blocks_fit [OF pf, of keep pie shoff]
  obtain o1 where o1: "write_sections img b 0 (img_secs img) ?out = Inr o1"
    using w by (auto simp: write_image_def split: sum.splits)
  define o2 where "o2 = emit (unat (pe_hdr_foff plan)) (header_bytes img) o1"
  have ext: "\<exists>rest. file = o2 @ rest"
  proof (cases keep)
    case True
    then have "file = emit (unat shoff) (concat (map enc_shdr (shdrs b)))
        (emit (unat stoff) (shstrtab_data b) o2)"
      using w o1 by (simp add: write_image_def Let_def o2_def)
    then show ?thesis by (simp add: emit_eq [of _ _ o2] emit_eq [of "unat shoff"])
  next
    case False
    with w o1 show ?thesis by (simp add: write_image_def Let_def o2_def)
  qed
  have keep2: "holds_at o1 off bs \<Longrightarrow> holds_at file off bs" for off bs
    using ext by (auto simp: o2_def intro: holds_at_append emit_keeps)
  obtain rest where "o1 = ?out @ rest" using write_sections_keeps [OF o1] by blast
  then have keep1: "holds_at ?out off bs \<Longrightarrow> holds_at file off bs" for off bs
    using keep2 by (simp add: holds_at_append)
  show "\<forall>(off, bs) \<in> set (synthetic_blocks keep pie plan b shoff). holds_at file off bs"
  proof (clarify)
    fix off bs assume "(off, bs) \<in> set (synthetic_blocks keep pie plan b shoff)"
    then have "holds_at ?out off bs"
      unfolding write_synthetic_eq using blocks by (intro emit_all_holds) simp_all
    then show "holds_at file off bs" by (rule keep1)
  qed
  have lay: "laid_out (unat (pe_data_foff plan)) (img_secs img) (unat (pe_hdr_foff plan))"
    by (rule compute_plan_secs) (use pf in \<open>auto simp: plan_for_def\<close>)
  have "length ?out = unat (trampoline_foff plan) + 80"
    unfolding write_synthetic_eq using blocks pf
    by (subst emit_all_length) (simp_all add: synthetic_blocks_def plan_for_def)
  also have "\<dots> \<le> unat (pe_data_foff plan)"
    using pf compute_plan_nat(3) round_up_ge [of 4096 "unat (trampoline_foff plan) + 80"]
    by (auto simp: plan_for_def)
  finally have len: "length ?out \<le> unat (pe_data_foff plan)" .
  have s: "(\<forall>k < length (img_secs img). holds_at o1 (unat (elf_foff (img_secs img ! k)))
      (out_section img b (0 + int k) (img_secs img ! k))) \<and> length o1 \<le> unat (pe_hdr_foff plan)"
    by (rule write_sections_holds [OF o1 lay len]) (use ps in \<open>auto simp: patched_sizes_ok_def\<close>)
  then show "\<forall>k < length (img_secs img). holds_at file (unat (elf_foff (img_secs img ! k)))
      (out_section img b (int k) (img_secs img ! k))"
    using keep2 by simp
  show "holds_at file (unat (pe_hdr_foff plan)) (header_bytes img)"
    using ext s emit_holds [of o1 "unat (pe_hdr_foff plan)" "header_bytes img"]
    by (auto simp: o2_def intro: holds_at_append)
qed

lemma sec_bytes_total:
  "unat (sec_raw e) + unat (sec_rawsz e) \<le> length data \<Longrightarrow> \<exists>bs. sec_bytes data e = Inr bs"
  by (simp add: sec_bytes_def Let_def)

lemma write_sections_total:
  assumes "\<forall>e \<in> set secs. unat (sec_raw e) + unat (sec_rawsz e) \<le> length (img_buf img)"
  shows "\<exists>out'. write_sections img b i secs out = Inr out'"
  using assms
proof (induction img b i secs out rule: write_sections.induct)
  case (1 img b i out)
  then show ?case by simp
next
  case (2 img b i sec secs out)
  obtain bs where "sec_bytes (img_buf img) sec = Inr bs"
    using 2 sec_bytes_total [of sec "img_buf img"] by auto
  then have "\<exists>bs'. section_bytes img b i sec = Inr bs'"
    by (auto simp: section_bytes_def split: option.split)
  with 2 show ?case by auto
qed

end
