(* ===== verification/Convert.thy ===== *)
theory Convert
  imports Elf_Write
begin

text \<open>
  Models \<^verbatim>\<open>Converter::convert\<close> and \<^verbatim>\<open>main\<close> of \<^verbatim>\<open>src/pe2elf.cpp\<close>: the passes in the order
  the program runs them, with every early return, and the reading of the command line.
  The messages printed on the way are not modelled.
\<close>

section \<open>Converter\<close>

record Converter =
  c_interp :: bytes
  c_shim_name :: bytes
  c_inject_name :: bytes
  keep_shdr :: bool
  c_strip_pdata :: bool
  pie :: bool
  c_so_mode :: bool
  rebase_to :: u64

definition new_converter :: Converter where
  "new_converter = \<lparr>c_interp = str_bytes ''/lib64/ld-linux-x86-64.so.2'',
     c_shim_name = str_bytes ''winapi_shim.so'', c_inject_name = [], keep_shdr = True,
     c_strip_pdata = False, pie = False, c_so_mode = False, rebase_to = 0\<rparr>"

text \<open>The passes over the PE file; \<open>fuel\<close> bounds the walk over the relocation blocks.\<close>

definition convert_image ::
  "host_fs \<Rightarrow> nat \<Rightarrow> resolver_cache \<Rightarrow> Converter \<Rightarrow> bytes \<Rightarrow> (resolver_cache \<times> PeImage) result" where
  "convert_image fs fuel cache conv in_path =
     (case parse fs in_path of
        Inl e \<Rightarrow> Inl e
      | Inr img0 \<Rightarrow>
          (case collect_imports fs cache img0 of
             Inl e \<Rightarrow> Inl e
           | Inr (cache', img1) \<Rightarrow>
               (case collect_relocs fuel img1 of
                  Inl e \<Rightarrow> Inl e
                | Inr img2 \<Rightarrow>
                    (case (if rebase_to conv \<noteq> 0 then rebase (rebase_to conv) img2 else Inr img2) of
                       Inl e \<Rightarrow> Inl e
                     | Inr img3 \<Rightarrow> Inr (cache', collect_tls img3)))))"

definition init_builder :: "Converter \<Rightarrow> PeImage \<Rightarrow> Builder" where
  "init_builder conv img =
     (new_builder (c_shim_name conv) (c_interp conv) (c_strip_pdata conv) (c_inject_name conv))
       \<lparr>so_mode := c_so_mode conv,
        b_tls_template_va := tls_template_va img, b_tls_template_sz := tls_template_sz img,
        b_tls_zero_fill := tls_zero_fill img, b_tls_align_chars := tls_align_chars img,
        b_tls_index_va := tls_index_va img, b_tls_callbacks_va := tls_callbacks_va img\<rparr>"

text \<open>\<^verbatim>\<open>last_end\<close>: the end of the section data and of the copy of the PE headers.\<close>

definition data_end :: "Plan \<Rightarrow> PeImage \<Rightarrow> u64" where
  "data_end plan img =
     max (fold (\<lambda>sec e. max e (elf_foff sec + ucast (sec_rawsz sec))) (img_secs img) (pe_data_foff plan))
       (pe_hdr_foff plan + ucast (SizeOfHeaders (img_oh img)))"

text \<open>Everything between the passes and the writer: the image, the plan and the builder.\<close>

definition convert_build :: "Converter \<Rightarrow> PeImage \<Rightarrow> (PeImage \<times> Plan \<times> Builder) result" where
  "convert_build conv img =
     (let (img1, b1) = build_synthetic_sections img (init_builder conv img);
          (plan, img2) = compute_plan img1 (length (interp_data b1)) (length (dynsym_data b1))
             (length (dynstr_data b1)) (length (rela_data b1)) (dt_entry_count b1)
             (length (hash_data b1));
          b2 = finalize_tls_call (trampoline_va plan + 24) b1;
          b3 = (if c_so_mode conv then b2\<lparr>safe_entry_va := find_safe_entry img2\<rparr> else b2)
      in if c_so_mode conv \<and> safe_entry_va b3 = 0 then Inl NoRetByte
         else case build_trampoline img2 plan b3 of
           Inl e \<Rightarrow> Inl e
         | Inr b4 \<Rightarrow>
             (case patch_rdata img2 (build_dynamic plan b4) of
                Inl e \<Rightarrow> Inl e
              | Inr b5 \<Rightarrow> Inr (img2, plan, build_phdrs img2 plan b5)))"

text \<open>\<^verbatim>\<open>build.shdrs.back().sh_size = build.shstrtab_data.size()\<close>.\<close>

definition set_last_size :: "Builder \<Rightarrow> Builder" where
  "set_last_size b = b\<lparr>shdrs := butlast (shdrs b) @
     [(last (shdrs b))\<lparr>sh_size := of_nat (length (shstrtab_data b))\<rparr>]\<rparr>"

definition convert ::
  "host_fs \<Rightarrow> host_out \<Rightarrow> nat \<Rightarrow> resolver_cache \<Rightarrow> Converter \<Rightarrow> bytes \<Rightarrow> bytes \<Rightarrow> bytes result" where
  "convert fs host fuel cache conv in_path out_path =
     (case convert_image fs fuel cache conv in_path of
        Inl e \<Rightarrow> Inl e
      | Inr (cache', img) \<Rightarrow>
          (case convert_build conv img of
             Inl e \<Rightarrow> Inl e
           | Inr (img', plan, b) \<Rightarrow>
               let is_pie = pie conv \<or> c_so_mode conv;
                   shstrtab_foff = align_up (data_end plan img') 8;
                   b' = (if keep_shdr conv then set_last_size
                           (build_shdrs img' plan shstrtab_foff (synth_va plan + shstrtab_foff) b)
                         else b);
                   shoff = (if keep_shdr conv
                            then align_up (shstrtab_foff + of_nat (length (shstrtab_data b'))) 8
                            else 0)
               in write_file host img' plan b' (keep_shdr conv) is_pie out_path shoff shstrtab_foff))"

section \<open>main\<close>

text \<open>
  \<^verbatim>\<open>strtoull(s, &endp, 0)\<close> of the C library: leading white space, a sign, a prefix that
  selects the base, the digits.  It yields the value (all ones on overflow) and what
  \<^verbatim>\<open>endp\<close> points at.
\<close>

definition digit_value :: "u8 \<Rightarrow> nat option" where
  "digit_value c =
     (if 48 \<le> c \<and> c \<le> 57 then Some (unat c - 48)
      else if 97 \<le> c \<and> c \<le> 122 then Some (unat c - 87)
      else if 65 \<le> c \<and> c \<le> 90 then Some (unat c - 55)
      else None)"

fun digits :: "nat \<Rightarrow> nat \<Rightarrow> bytes \<Rightarrow> nat \<times> bytes" where
  "digits base acc [] = (acc, [])"
| "digits base acc (c # cs) =
     (case digit_value c of
        Some d \<Rightarrow> if d < base then digits base (acc * base + d) cs else (acc, c # cs)
      | None \<Rightarrow> (acc, c # cs))"

definition is_digit :: "nat \<Rightarrow> u8 \<Rightarrow> bool" where
  "is_digit base c = (case digit_value c of Some d \<Rightarrow> d < base | None \<Rightarrow> False)"

definition strtoull_clamp :: "bool \<Rightarrow> nat \<Rightarrow> u64" where
  "strtoull_clamp neg n =
     (if n \<ge> 2 ^ 64 then - 1 else if neg then - of_nat n else of_nat n)"

definition strtoull0 :: "bytes \<Rightarrow> u64 \<times> bytes" where
  "strtoull0 s =
     (let s1 = dropWhile (\<lambda>c. c = 32 \<or> (9 \<le> c \<and> c \<le> 13)) s;
          neg = (s1 \<noteq> [] \<and> s1 ! 0 = 45);
          s2 = (if s1 \<noteq> [] \<and> (s1 ! 0 = 45 \<or> s1 ! 0 = 43) then drop 1 s1 else s1)
      in if length s2 \<ge> 3 \<and> s2 ! 0 = 48 \<and> (s2 ! 1 = 120 \<or> s2 ! 1 = 88) \<and> is_digit 16 (s2 ! 2) then
           (let (n, rest) = digits 16 0 (drop 2 s2) in (strtoull_clamp neg n, rest))
         else if s2 \<noteq> [] \<and> s2 ! 0 = 48 then
           (let (n, rest) = digits 8 0 s2 in (strtoull_clamp neg n, rest))
         else if s2 \<noteq> [] \<and> is_digit 10 (s2 ! 0) then
           (let (n, rest) = digits 10 0 s2 in (strtoull_clamp neg n, rest))
         else (0, s))"

text \<open>The argument loop.  \<open>None\<close> is every way of printing a message and returning 1.\<close>

function parse_args ::
  "bytes list \<Rightarrow> Converter \<Rightarrow> bytes option \<Rightarrow> bytes option \<Rightarrow>
     (Converter \<times> bytes option \<times> bytes option) option" where
  "parse_args [] conv ip op = Some (conv, ip, op)"
| "parse_args (a # as) conv ip op =
     (if a = str_bytes ''--interp'' \<and> as \<noteq> [] then
        parse_args (tl as) (conv\<lparr>c_interp := as ! 0\<rparr>) ip op
      else if a = str_bytes ''--shim-soname'' \<and> as \<noteq> [] then
        parse_args (tl as) (conv\<lparr>c_shim_name := as ! 0\<rparr>) ip op
      else if a = str_bytes ''--dbg'' then
        parse_args as (conv\<lparr>c_shim_name := str_bytes ''winapi_shim_dbg.so''\<rparr>) ip op
      else if take 9 a = str_bytes ''--inject='' then
        parse_args as (conv\<lparr>c_inject_name := drop 9 a\<rparr>) ip op
      else if a = str_bytes ''--strip-pdata'' then
        parse_args as (conv\<lparr>c_strip_pdata := True\<rparr>) ip op
      else if a = str_bytes ''--no-shdr'' then
        parse_args as (conv\<lparr>keep_shdr := False\<rparr>) ip op
      else if a = str_bytes ''--pie'' then
        parse_args as (conv\<lparr>pie := True\<rparr>) ip op
      else if a = str_bytes ''--so'' then
        parse_args as (conv\<lparr>c_so_mode := True\<rparr>) ip op
      else if take 7 a = str_bytes ''--base='' then
        (let (v, rest) = strtoull0 (drop 7 a)
         in if rest \<noteq> [] then None else parse_args as (conv\<lparr>rebase_to := v\<rparr>) ip op)
      else if ip = None then parse_args as conv (Some a) op
      else if op = None then parse_args as conv ip (Some a)
      else None)"
  by pat_completeness auto
termination
  by (relation "measure (\<lambda>(as, conv, ip, op). length as)") auto

declare parse_args.simps [simp del]

definition main_args :: "bytes list \<Rightarrow> (Converter \<times> bytes \<times> bytes) option" where
  "main_args argv =
     (if length argv < 3 then None
      else case parse_args (drop 1 argv) new_converter None None of
        Some (conv, Some ip, Some op) \<Rightarrow> Some (conv, ip, op)
      | _ \<Rightarrow> None)"

text \<open>The exit status, with the file written on success.\<close>

definition main :: "host_fs \<Rightarrow> host_out \<Rightarrow> nat \<Rightarrow> bytes list \<Rightarrow> nat \<times> bytes option" where
  "main fs host fuel argv =
     (case main_args argv of
        None \<Rightarrow> (1, None)
      | Some (conv, ip, op) \<Rightarrow>
          (case convert fs host fuel Map.empty conv ip op of
             Inl e \<Rightarrow> (1, None)
           | Inr out \<Rightarrow> (0, Some out)))"

section \<open>Facts: the passes\<close>

lemma convert_image_cases:
  assumes "convert_image fs fuel cache conv path = Inr (cache', img)"
  obtains img0 img1 img2 img3 where "parse fs path = Inr img0"
    and "collect_imports fs cache img0 = Inr (cache', img1)"
    and "collect_relocs fuel img1 = Inr img2"
    and "(if rebase_to conv \<noteq> 0 then rebase (rebase_to conv) img2 else Inr img2) = Inr img3"
    and "img = collect_tls img3"
  using assms
  by (auto simp: convert_image_def split: sum.splits prod.splits simp del: if_split)

lemma collect_tls_frame:
  "img_buf (collect_tls img) = img_buf img" "img_secs (collect_tls img) = img_secs img"
  "img_imports (collect_tls img) = img_imports img" "img_relocs (collect_tls img) = img_relocs img"
  "iat_sec_idx (collect_tls img) = iat_sec_idx img" "image_base (collect_tls img) = image_base img"
  "ep_rva (collect_tls img) = ep_rva img" "peh_off (collect_tls img) = peh_off img"
  "oh_off (collect_tls img) = oh_off img" "dd_off (collect_tls img) = dd_off img"
  "num_dd (collect_tls img) = num_dd img"
  by (simp_all add: collect_tls_def split: option.split)

lemma rebase_frame:
  assumes "rebase nb img = Inr img'"
  shows "img_secs img' = img_secs img" "img_imports img' = img_imports img" "img_relocs img' = []"
    "iat_sec_idx img' = iat_sec_idx img" "image_base img' = nb" "ep_rva img' = ep_rva img"
  using assms by (auto simp: rebase_def split: if_splits sum.splits)

text \<open>What the passes hand to the builder.\<close>

lemma convert_image_wf:
  assumes "convert_image fs fuel cache conv path = Inr (cache', img)" and "cache_ok fs cache"
  shows "length (img_secs img) \<le> 96 \<and> imports_wf img \<and>
    (rebase_to conv = 0 \<longrightarrow> list_all (reloc_ok img) (img_relocs img)) \<and>
    (rebase_to conv \<noteq> 0 \<longrightarrow> img_relocs img = [] \<and> image_base img = rebase_to conv)"
proof -
  obtain img0 img1 img2 img3 where p: "parse fs path = Inr img0"
    and i: "collect_imports fs cache img0 = Inr (cache', img1)"
    and r: "collect_relocs fuel img1 = Inr img2"
    and b: "(if rebase_to conv \<noteq> 0 then rebase (rebase_to conv) img2 else Inr img2) = Inr img3"
    and t: "img = collect_tls img3"
    using assms(1) by (rule convert_image_cases)
  note p0 = parse_wf [OF p]
  have w1: "imports_wf img1" using collect_imports_wf [OF i assms(2)] p0 by blast
  have f1: "img_secs img1 = img_secs img0" "img_relocs img1 = []"
    using collect_imports_frame [OF i] p0 by auto
  have r2: "list_all (reloc_ok img2) (img_relocs img2)" "img2 = img1\<lparr>img_relocs := img_relocs img2\<rparr>"
    using collect_relocs_ok [OF r] f1(2) by auto
  have s2: "img_secs img2 = img_secs img0" "img_imports img2 = img_imports img1"
      "iat_sec_idx img2 = iat_sec_idx img1"
    using r2(2) f1 by (metis PeImage.select_convs PeImage.surjective PeImage.update_convs(8))+
  have s3: "img_secs img3 = img_secs img2" "img_imports img3 = img_imports img2"
      "iat_sec_idx img3 = iat_sec_idx img2"
    using b rebase_frame by (auto split: if_splits)
  have "imports_wf img"
    using w1 s2 s3 f1 by (simp add: imports_wf_def t collect_tls_frame)
  moreover have "list_all (reloc_ok img) (img_relocs img)" if "rebase_to conv = 0"
  proof -
    have "img3 = img2" using b that by simp
    then have "reloc_ok img re = reloc_ok img2 re" for re
      by (simp add: t reloc_ok_def reloc_site_def is_iat_def collect_tls_frame cong: option.case_cong)
    with r2(1) \<open>img3 = img2\<close> show ?thesis by (simp add: t collect_tls_frame list.pred_set)
  qed
  moreover have "img_relocs img = []" "image_base img = rebase_to conv" if "rebase_to conv \<noteq> 0"
    using b that rebase_frame [of "rebase_to conv" img2 img3] by (auto simp: t collect_tls_frame)
  moreover have "length (img_secs img) \<le> 96"
    using p0 s2 s3 by (simp add: t collect_tls_frame image_wf_def)
  ultimately show ?thesis by blast
qed

section \<open>Facts: the build\<close>

definition with_safe_entry :: "Converter \<Rightarrow> PeImage \<Rightarrow> Builder \<Rightarrow> Builder" where
  "with_safe_entry conv img b =
     (if c_so_mode conv then b\<lparr>safe_entry_va := find_safe_entry img\<rparr> else b)"

lemma convert_build_cases:
  assumes "convert_build conv img = Inr (img', plan, b)"
  obtains img1 b1 b4 b5 where
    "build_synthetic_sections img (init_builder conv img) = (img1, b1)"
    and "compute_plan img1 (length (interp_data b1)) (length (dynsym_data b1))
      (length (dynstr_data b1)) (length (rela_data b1)) (dt_entry_count b1)
      (length (hash_data b1)) = (plan, img')"
    and "build_trampoline img' plan
      (with_safe_entry conv img' (finalize_tls_call (trampoline_va plan + 24) b1)) = Inr b4"
    and "patch_rdata img' (build_dynamic plan b4) = Inr b5"
    and "b = build_phdrs img' plan b5"
    and "c_so_mode conv \<longrightarrow> find_safe_entry img' \<noteq> 0"
proof -
  obtain img1 b1 where s: "build_synthetic_sections img (init_builder conv img) = (img1, b1)"
    by fastforce
  obtain plan' img2 where c: "compute_plan img1 (length (interp_data b1)) (length (dynsym_data b1))
      (length (dynstr_data b1)) (length (rela_data b1)) (dt_entry_count b1)
      (length (hash_data b1)) = (plan', img2)" by fastforce
  show ?thesis
    using assms s c that
    by (auto simp: convert_build_def with_safe_entry_def Let_def split: if_splits sum.splits)
qed

lemma length_set_r_offset [simp]: "length (set_r_offset i va rs) = length rs"
  by (simp add: set_r_offset_def split: option.split)

lemma finalize_fields:
  "interp_data (finalize_tls_call va b) = interp_data b"
  "dynstr_data (finalize_tls_call va b) = dynstr_data b"
  "hash_data (finalize_tls_call va b) = hash_data b"
  "dynamic_data (finalize_tls_call va b) = dynamic_data b"
  "iat_patched (finalize_tls_call va b) = iat_patched b"
  "so_mode (finalize_tls_call va b) = so_mode b"
  "inject_name (finalize_tls_call va b) = inject_name b"
  "strip_pdata (finalize_tls_call va b) = strip_pdata b"
  "length (dynsym_data (finalize_tls_call va b)) = length (dynsym_data b)"
  "length (rela_data (finalize_tls_call va b)) = length (rela_data b)"
  "entrypoint_sym_idx (finalize_tls_call va b) = entrypoint_sym_idx b"
  by (simp_all add: finalize_tls_call_def Let_def)

text \<open>The six fields of \<^verbatim>\<open>ShimTlsInfo\<close>.\<close>

definition tls_words :: "Builder \<Rightarrow> u64 list" where
  "tls_words b = [b_tls_template_va b, b_tls_template_sz b, b_tls_zero_fill b, b_tls_align_chars b,
     b_tls_index_va b, b_tls_callbacks_va b]"

definition img_tls_words :: "PeImage \<Rightarrow> u64 list" where
  "img_tls_words img = [tls_template_va img, tls_template_sz img, tls_zero_fill img,
     tls_align_chars img, tls_index_va img, tls_callbacks_va img]"

lemma finalize_tls_words [simp]: "tls_words (finalize_tls_call va b) = tls_words b"
  by (simp add: finalize_tls_call_def tls_words_def Let_def)

lemma init_builder_fields:
  "tls_words (init_builder conv img) = img_tls_words img"
  "dynsym_data (init_builder conv img) = []" "dynstr_data (init_builder conv img) = []"
  "rela_data (init_builder conv img) = []" "dynamic_data (init_builder conv img) = []"
  "iat_patched (init_builder conv img) = Map.empty" "hash_data (init_builder conv img) = []"
  "so_mode (init_builder conv img) = c_so_mode conv"
  "strip_pdata (init_builder conv img) = c_strip_pdata conv"
  "inject_name (init_builder conv img) = c_inject_name conv"
  by (simp_all add: init_builder_def new_builder_def tls_words_def img_tls_words_def)

lemma add_so_exports_frame:
  "tls_words (add_so_exports b) = tls_words b"
  "dynamic_data (add_so_exports b) = dynamic_data b" "iat_patched (add_so_exports b) = iat_patched b"
  "inject_name (add_so_exports b) = inject_name b" "strip_pdata (add_so_exports b) = strip_pdata b"
  by (simp_all add: add_so_exports_def build_hash_def add_tls_va_reloc_def Let_def case_prod_beta
      tls_words_def)

lemma build_strings_frame:
  "tls_words (build_strings b) = tls_words b"
  "dynamic_data (build_strings b) = dynamic_data b" "iat_patched (build_strings b) = iat_patched b"
  "inject_name (build_strings b) = inject_name b" "strip_pdata (build_strings b) = strip_pdata b"
  by (simp_all add: build_strings_def Let_def tls_words_def)

lemma build_symbols_frame:
  assumes "build_symbols img b = (img', b')"
  shows "dynamic_data b' = dynamic_data b" "iat_patched b' = iat_patched b" "so_mode b' = so_mode b"
    "inject_name b' = inject_name b" "strip_pdata b' = strip_pdata b"
    "hash_data b' = hash_data b" "img' = img\<lparr>img_imports := img_imports img'\<rparr>"
    "tls_words b' = tls_words b"
  using assms by (auto simp: build_symbols_def Let_def tls_words_def split: prod.splits)

lemma synthetic_frame:
  assumes "build_synthetic_sections img b = (img', b')"
  shows "dynamic_data b' = dynamic_data b" "iat_patched b' = iat_patched b" "so_mode b' = so_mode b"
    "inject_name b' = inject_name b" "strip_pdata b' = strip_pdata b"
    "img_secs img' = img_secs img" "img_buf img' = img_buf img"
    "iat_sec_idx img' = iat_sec_idx img" "img_relocs img' = img_relocs img"
    "image_base img' = image_base img" "oh_off img' = oh_off img" "ep_rva img' = ep_rva img"
    "tls_words b' = tls_words b"
proof -
  obtain b1 where s: "build_symbols img (build_strings b) = (img', b1)"
    and b': "b' = (if so_mode b1 then add_so_exports b1 else b1)"
    using assms by (auto simp: build_synthetic_sections_def split: prod.splits)
  note f = build_symbols_frame [OF s]
  show "dynamic_data b' = dynamic_data b" "iat_patched b' = iat_patched b" "so_mode b' = so_mode b"
    "inject_name b' = inject_name b" "strip_pdata b' = strip_pdata b" "tls_words b' = tls_words b"
    using f by (auto simp: b' add_so_exports_fields add_so_exports_frame build_strings_frame
        build_strings_fields)
  show "img_secs img' = img_secs img" "img_buf img' = img_buf img"
    "iat_sec_idx img' = iat_sec_idx img" "img_relocs img' = img_relocs img"
    "image_base img' = image_base img" "oh_off img' = oh_off img" "ep_rva img' = ep_rva img"
    by (subst f(7), simp)+
qed

lemma patch_rdata_spec:
  assumes "patch_rdata img b = Inr b'" and "distinct (iat_sec_idx img)"
  shows "b' = b\<lparr>iat_patched := iat_patched b'\<rparr>"
    and "\<forall>si \<in> set (iat_sec_idx img). \<exists>p. iat_patched b' si = Some p \<and>
      clear_slots (img_secs img) si (img_secs img ! nat si) (img_imports img)
        (section_copy (img_buf img) (img_secs img ! nat si)) = Inr p"
    and "\<forall>si. si \<notin> set (iat_sec_idx img) \<longrightarrow> iat_patched b' si = iat_patched b si"
proof -
  obtain m where m: "patch_sections img (iat_sec_idx img) (iat_patched b) = Inr m"
    and b': "b' = b\<lparr>iat_patched := m\<rparr>"
    using assms(1) by (auto simp: patch_rdata_def split: sum.splits)
  from patch_sections_spec [OF m assms(2)] b'
  show "b' = b\<lparr>iat_patched := iat_patched b'\<rparr>"
    and "\<forall>si \<in> set (iat_sec_idx img). \<exists>p. iat_patched b' si = Some p \<and>
      clear_slots (img_secs img) si (img_secs img ! nat si) (img_imports img)
        (section_copy (img_buf img) (img_secs img ! nat si)) = Inr p"
    and "\<forall>si. si \<notin> set (iat_sec_idx img) \<longrightarrow> iat_patched b' si = iat_patched b si"
    by auto
qed

lemma build_phdrs_fields:
  "build_phdrs img plan b = b\<lparr>phdrs := phdrs (build_phdrs img plan b)\<rparr>"
  by (simp add: build_phdrs_def Let_def case_prod_beta)

lemma build_dynamic_fields:
  "build_dynamic plan b = b\<lparr>dynamic_data := dynamic_data (build_dynamic plan b)\<rparr>"
  by (simp add: build_dynamic_def)

text \<open>The tables of the finished builder, and the plan made for exactly them.\<close>

lemma convert_build_spec:
  assumes run: "convert_build conv img = Inr (img', plan, b)"
    and n: "length (img_secs img) \<le> 96" and dist: "distinct (iat_sec_idx img)"
  obtains img1 b1 where
    "build_synthetic_sections img (init_builder conv img) = (img1, b1)"
    and "compute_plan img1 (length (interp_data b)) (length (dynsym_data b))
      (length (dynstr_data b)) (length (rela_data b)) (length (dynamic_data b))
      (length (hash_data b)) = (plan, img')"
    and "dynsym_data b = dynsym_data (finalize_tls_call (trampoline_va plan + 24) b1)"
    and "rela_data b = rela_data (finalize_tls_call (trampoline_va plan + 24) b1)"
    and "dynstr_data b = dynstr_data b1" and "hash_data b = hash_data b1"
    and "interp_data b = interp_data b1" and "length (dynamic_data b) = dt_entry_count b1"
    and "length (trampoline_data b) = 80" and "length (phdrs b) \<le> length (img_secs img) + 7"
    and "length (img_secs img') = length (img_secs img)" and "patched_sizes_ok img' b"
    and "so_mode b = c_so_mode conv" and "strip_pdata b = c_strip_pdata conv"
    and "c_so_mode conv \<longrightarrow> safe_entry_va b = find_safe_entry img' \<and> safe_entry_va b \<noteq> 0"
    and "\<exists>b3 b4. build_trampoline img' plan b3 = Inr b4 \<and> trampoline_data b = trampoline_data b4 \<and>
      tls_words b3 = img_tls_words img"
    and "\<exists>b5. b = build_phdrs img' plan b5"
    and "\<exists>b4 b5. patch_rdata img' b4 = Inr b5 \<and> iat_patched b4 = Map.empty \<and>
      iat_patched b = iat_patched b5"
    and "iat_sec_idx img' = iat_sec_idx img" and "img_secs img1 = img_secs img"
proof -
  obtain img1 b1 b4 b5 where s: "build_synthetic_sections img (init_builder conv img) = (img1, b1)"
    and c: "compute_plan img1 (length (interp_data b1)) (length (dynsym_data b1))
      (length (dynstr_data b1)) (length (rela_data b1)) (dt_entry_count b1)
      (length (hash_data b1)) = (plan, img')"
    and t: "build_trampoline img' plan
      (with_safe_entry conv img' (finalize_tls_call (trampoline_va plan + 24) b1)) = Inr b4"
    and p: "patch_rdata img' (build_dynamic plan b4) = Inr b5"
    and b: "b = build_phdrs img' plan b5" and safe: "c_so_mode conv \<longrightarrow> find_safe_entry img' \<noteq> 0"
    using run by (rule convert_build_cases)
  note sf = synthetic_frame [OF s, unfolded init_builder_fields]
  let ?f = "finalize_tls_call (trampoline_va plan + 24) b1"
  have ci: "iat_sec_idx img' = iat_sec_idx img" "img_secs img1 = img_secs img"
    using c sf by (auto simp: compute_plan_def Let_def case_prod_beta)
  have len: "length (img_secs img') = length (img_secs img)"
    using c sf layout_secs_fields by (auto simp: compute_plan_def Let_def split: prod.splits)
  note pr = patch_rdata_spec [OF p]
  have d': "distinct (iat_sec_idx img')" using dist ci by simp
  have b5: "b5 = (build_dynamic plan b4)\<lparr>iat_patched := iat_patched b5\<rparr>" using pr(1) d' by simp
  have b4: "b4 = (with_safe_entry conv img' ?f)\<lparr>trampoline_data := trampoline_data b4\<rparr>"
    using build_trampoline_data(2) [OF t] .
  have f4: "interp_data b4 = interp_data b1" "dynsym_data b4 = dynsym_data ?f"
      "rela_data b4 = rela_data ?f" "dynstr_data b4 = dynstr_data b1" "hash_data b4 = hash_data b1"
      "dynamic_data b4 = []" "iat_patched b4 = Map.empty" "so_mode b4 = c_so_mode conv"
      "strip_pdata b4 = c_strip_pdata conv" "inject_name b4 = inject_name b1"
      "safe_entry_va b4 = (if c_so_mode conv then find_safe_entry img' else safe_entry_va ?f)"
    by (subst b4, simp add: with_safe_entry_def finalize_fields sf)+
  have dyn: "length (dynamic_data (build_dynamic plan b4)) = dt_entry_count b1"
    using dynamic_count [OF f4(6), of plan] f4(8,10) sf(3) by (simp add: dt_entry_count_def)
  have f5: "interp_data b = interp_data b4" "dynsym_data b = dynsym_data b4"
      "rela_data b = rela_data b4" "dynstr_data b = dynstr_data b4" "hash_data b = hash_data b4"
      "dynamic_data b = dynamic_data (build_dynamic plan b4)" "so_mode b = so_mode b4"
      "strip_pdata b = strip_pdata b4" "safe_entry_va b = safe_entry_va b4"
      "trampoline_data b = trampoline_data b4" "iat_patched b = iat_patched b5"
    unfolding b by (subst build_phdrs_fields, subst b5, simp add: build_dynamic_def)+
  show ?thesis
  proof (rule that [OF s])
    show "compute_plan img1 (length (interp_data b)) (length (dynsym_data b))
      (length (dynstr_data b)) (length (rela_data b)) (length (dynamic_data b))
      (length (hash_data b)) = (plan, img')"
      using c f4 f5 dyn by (simp add: finalize_fields)
    show "length (trampoline_data b) = 80" using build_trampoline_data(3) [OF t] f5 by simp
    show "length (phdrs b) \<le> length (img_secs img) + 7"
      using length_phdrs [of img' plan b5] len by (simp add: b)
    show "patched_sizes_ok img' b"
      unfolding patched_sizes_ok_def
    proof (intro allI impI)
      fix k q assume k: "k < length (img_secs img')" "iat_patched b (int k) = Some q"
      then have "int k \<in> set (iat_sec_idx img')" using pr(3) d' f5 f4 by (auto simp: build_dynamic_def)
      with pr(2) [OF d'] k f5 have "clear_slots (img_secs img') (int k) (img_secs img' ! k)
          (img_imports img') (section_copy (img_buf img') (img_secs img' ! k)) = Inr q" by auto
      from clear_slots_spec [OF this] show "length q = unat (sec_rawsz (img_secs img' ! k))" by simp
    qed
    show "\<exists>b3 b4. build_trampoline img' plan b3 = Inr b4 \<and> trampoline_data b = trampoline_data b4 \<and>
        tls_words b3 = img_tls_words img"
    proof (intro exI conjI)
      show "build_trampoline img' plan (with_safe_entry conv img' ?f) = Inr b4" by (rule t)
      show "trampoline_data b = trampoline_data b4" by (rule f5)
      have "tls_words (with_safe_entry conv img' ?f) = tls_words ?f"
        by (simp add: with_safe_entry_def tls_words_def)
      then show "tls_words (with_safe_entry conv img' ?f) = img_tls_words img" using sf by simp
    qed
    show "\<exists>b5. b = build_phdrs img' plan b5" using b by blast
    show "\<exists>b4 b5. patch_rdata img' b4 = Inr b5 \<and> iat_patched b4 = Map.empty \<and>
        iat_patched b = iat_patched b5"
    proof (intro exI conjI)
      show "patch_rdata img' (build_dynamic plan b4) = Inr b5" by (rule p)
      show "iat_patched (build_dynamic plan b4) = Map.empty" using f4 by (simp add: build_dynamic_def)
      show "iat_patched b = iat_patched b5" by (rule f5)
    qed
  qed (use f4 f5 len ci safe dyn in \<open>simp_all\<close>)
qed

section \<open>Facts: the file\<close>

text \<open>The sizes for which the plan does not wrap, read off the finished builder.\<close>

definition build_sizes_ok :: "Builder \<Rightarrow> bool" where
  "build_sizes_ok b \<longleftrightarrow> plan_sizes_ok [length (interp_data b), length (dynsym_data b),
     length (dynstr_data b), length (rela_data b), length (dynamic_data b), length (hash_data b)]"

lemma convert_build_plan_for:
  assumes "convert_build conv img = Inr (img', plan, b)" and "length (img_secs img) \<le> 96"
    and "distinct (iat_sec_idx img)" and "build_sizes_ok b"
  shows "\<exists>img1. plan_for img1 img' plan b" and "patched_sizes_ok img' b"
proof -
  obtain img1 where "compute_plan img1 (length (interp_data b)) (length (dynsym_data b))
      (length (dynstr_data b)) (length (rela_data b)) (length (dynamic_data b))
      (length (hash_data b)) = (plan, img')" "length (trampoline_data b) = 80"
      "length (phdrs b) \<le> length (img_secs img) + 7" "img_secs img1 = img_secs img"
      "patched_sizes_ok img' b"
    by (rule convert_build_spec [OF assms(1-3)])
  with assms(2,4) show "\<exists>img1. plan_for img1 img' plan b" "patched_sizes_ok img' b"
    by (auto simp: plan_for_def build_sizes_ok_def)
qed

lemma plan_for_shdrs:
  "plan_for img0 img plan (set_last_size (build_shdrs img plan f v b)) = plan_for img0 img plan b"
  "patched_sizes_ok img (set_last_size (build_shdrs img plan f v b)) = patched_sizes_ok img b"
  "out_section img (set_last_size (build_shdrs img plan f v b)) = out_section img b"
  by (auto simp: plan_for_def patched_sizes_ok_def out_section_def set_last_size_def
      build_shdrs_def Let_def case_prod_beta fun_eq_iff)

text \<open>The blocks of the output that do not depend on the section headers.\<close>

lemma synthetic_blocks_shdrs:
  "set (tl (synthetic_blocks ks dyn plan (set_last_size (build_shdrs img plan f v b)) shoff)) =
   set (tl (synthetic_blocks ks' dyn' plan b shoff'))"
  by (simp add: synthetic_blocks_def set_last_size_def build_shdrs_def Let_def case_prod_beta)

lemma convert_cases:
  assumes "convert fs host fuel cache conv ip op = Inr file"
  obtains cache' img img' plan b b' shoff stoff where
    "convert_image fs fuel cache conv ip = Inr (cache', img)"
    and "convert_build conv img = Inr (img', plan, b)"
    and "b' = b \<or> b' = set_last_size (build_shdrs img' plan stoff (synth_va plan + stoff) b)"
    and "write_image img' plan b' (keep_shdr conv) (pie conv \<or> c_so_mode conv) shoff stoff = Inr file"
proof -
  obtain cache' img img' plan b where c: "convert_image fs fuel cache conv ip = Inr (cache', img)"
      "convert_build conv img = Inr (img', plan, b)"
    using assms by (auto simp: convert_def split: sum.splits)
  define stoff where "stoff = align_up (data_end plan img') 8"
  define b' where "b' = (if keep_shdr conv then set_last_size
      (build_shdrs img' plan stoff (synth_va plan + stoff) b) else b)"
  obtain shoff where w: "write_image img' plan b' (keep_shdr conv) (pie conv \<or> c_so_mode conv)
      shoff stoff = Inr file"
    using assms c
    by (auto simp: convert_def Let_def write_file_def b'_def stoff_def split: sum.splits if_splits)
  have "b' = b \<or> b' = set_last_size (build_shdrs img' plan stoff (synth_va plan + stoff) b)"
    by (simp add: b'_def)
  from that [OF c this w] show ?thesis .
qed

text \<open>The parts of the builder found in a file at the offsets of the plan.\<close>

definition file_holds :: "bytes \<Rightarrow> PeImage \<Rightarrow> Plan \<Rightarrow> Builder \<Rightarrow> bool" where
  "file_holds file img plan b \<longleftrightarrow>
     (\<forall>i < length (phdrs b). map_option dec_phdr (buf_at 56 file (64 + i * 56)) = Some (phdrs b ! i))
   \<and> holds_at file (unat (interp_foff plan)) (interp_data b)
   \<and> (\<forall>i < length (dynsym_data b).
        map_option dec_sym (buf_at 24 file (unat (dynsym_foff plan) + i * 24)) = Some (dynsym_data b ! i))
   \<and> holds_at file (unat (dynstr_foff plan)) (dynstr_data b)
   \<and> (hash_data b \<noteq> [] \<longrightarrow> holds_at file (unat (hash_foff plan)) (hash_data b))
   \<and> (\<forall>i < length (rela_data b).
        map_option dec_rela (buf_at 24 file (unat (rela_foff plan) + i * 24)) = Some (rela_data b ! i))
   \<and> (\<forall>i < length (dynamic_data b).
        map_option dec_dyn (buf_at 16 file (unat (dynamic_foff plan) + i * 16)) = Some (dynamic_data b ! i))
   \<and> holds_at file (unat (trampoline_foff plan)) (trampoline_data b)
   \<and> (\<forall>k < length (img_secs img). holds_at file (unat (elf_foff (img_secs img ! k)))
        (out_section img b (int k) (img_secs img ! k)))
   \<and> holds_at file (unat (pe_hdr_foff plan)) (header_bytes img)"


lemma write_image_file_holds:
  assumes "plan_for img0 img plan b" and "patched_sizes_ok img b"
    and "write_image img plan b' ks dyn shoff stoff = Inr file"
    and "b' = b \<or> b' = set_last_size (build_shdrs img plan f v b)"
  shows "file_holds file img plan b"
    and "dec_ehdr file = write_ehdr ks dyn plan b' shoff"
proof -
  have pf: "plan_for img0 img plan b'" "patched_sizes_ok img b'"
    using assms(1,2,4) by (auto simp: plan_for_shdrs)
  note w = write_image_holds [OF pf assms(3)]
  have tl: "set (tl (synthetic_blocks ks dyn plan b' shoff)) = set (tl (synthetic_blocks ks dyn plan b shoff))"
    using assms(4) synthetic_blocks_shdrs by blast
  have sec: "out_section img b' = out_section img b" using assms(4) by (auto simp: plan_for_shdrs)
  have blk: "holds_at file off bs" if "(off, bs) \<in> set (tl (synthetic_blocks ks dyn plan b shoff))" for off bs
  proof -
    have "(off, bs) \<in> set (synthetic_blocks ks dyn plan b' shoff)"
      using that tl by (metis empty_iff empty_set list.set_sel(2) tl_Nil)
    with w(1) show ?thesis by auto
  qed
  have "holds_at file 64 (concat (map enc_phdr (phdrs b)))"
    "holds_at file (unat (interp_foff plan)) (interp_data b)"
    "holds_at file (unat (dynsym_foff plan)) (concat (map enc_sym (dynsym_data b)))"
    "holds_at file (unat (dynstr_foff plan)) (dynstr_data b)"
    "hash_data b \<noteq> [] \<Longrightarrow> holds_at file (unat (hash_foff plan)) (hash_data b)"
    "holds_at file (unat (rela_foff plan)) (concat (map enc_rela (rela_data b)))"
    "holds_at file (unat (dynamic_foff plan)) (concat (map enc_dyn (dynamic_data b)))"
    "holds_at file (unat (trampoline_foff plan)) (trampoline_data b)"
    by (rule blk, simp add: synthetic_blocks_def)+
  with w(2,3) sec show "file_holds file img plan b"
    by (simp add: file_holds_def phdr.table_at sym.table_at rela.table_at dyn.table_at)
  have "holds_at file 0 (enc_ehdr (write_ehdr ks dyn plan b' shoff))"
    using w(1) by (auto simp: synthetic_blocks_def)
  from holds_at_split [OF this] obtain rest
    where "file = enc_ehdr (write_ehdr ks dyn plan b' shoff) @ rest" by simp
  moreover have "length (e_ident (write_ehdr ks dyn plan b' shoff)) = 16"
    by (simp add: write_ehdr_def)
  ultimately show "dec_ehdr file = write_ehdr ks dyn plan b' shoff" by (simp add: dec_enc_ehdr)
qed

lemma convert_total:
  assumes "convert_image fs fuel cache conv ip = Inr (cache', img)"
    and "convert_build conv img = Inr (img', plan, b)"
    and "\<forall>e \<in> set (img_secs img'). unat (sec_raw e) + unat (sec_rawsz e) \<le> length (img_buf img')"
    and "can_create host op" and "\<forall>n. fwrite_count host op n = n"
  shows "\<exists>file. convert fs host fuel cache conv ip op = Inr file"
proof -
  have w: "\<exists>file. write_image img' plan b' ks dyn shoff stoff = Inr file" for b' ks dyn shoff stoff
    using write_sections_total [OF assms(3), of b' 0 "write_synthetic ks dyn plan b' shoff"]
    by (auto simp: write_image_def Let_def)
  have "\<exists>file. write_file host img' plan b' ks dyn op shoff stoff = Inr file" for b' ks dyn shoff stoff
    using w [of b' ks dyn shoff stoff] assms(4,5) by (auto simp: write_file_def)
  with assms(1,2) show ?thesis by (simp add: convert_def Let_def)
qed

end
