(* ===== verification/Convert_Tables.thy ===== *)
theory Convert_Tables
  imports Convert
begin

text \<open>
  The relocation table and the exported entry symbol of the output, after
  \<^verbatim>\<open>finalize_tls_call\<close> has patched in the address of the trampoline, and the two lookups in
  the section table after the layout pass.
\<close>

section \<open>The relocation table\<close>

text \<open>The relative relocations of the three address fields of \<^verbatim>\<open>ShimTlsInfo\<close>.\<close>

definition tls_rela :: "u64 \<Rightarrow> u64 \<Rightarrow> Elf64_Rela list" where
  "tls_rela off va = (if va = 0 then [] else [zero_rela\<lparr>r_offset := off,
     r_info := ELF64_R_INFO 0 R_X86_64_RELATIVE, r_addend := va\<rparr>])"

text \<open>
  The whole relocation table of the output, trampoline entries included; \<open>tls\<close> are the six
  words of \<^verbatim>\<open>ShimTlsInfo\<close>.
\<close>

definition all_relas :: "PeImage \<Rightarrow> bool \<Rightarrow> u64 list \<Rightarrow> nat \<Rightarrow> u64 \<Rightarrow> Elf64_Rela list" where
  "all_relas img so tls shim_sym tramp =
     map (import_rela (image_base img)) (img_imports img) @ map base_rela (img_relocs img) @
     [zero_rela\<lparr>r_offset := tramp + 24,
        r_info := ELF64_R_INFO (ucast (of_nat shim_sym :: u32)) R_X86_64_64\<rparr>] @
     (if so then tls_rela (tramp + 32) (tls ! 0) @ tls_rela (tramp + 64) (tls ! 4) @
        tls_rela (tramp + 72) (tls ! 5)
      else [])"

lemma set_r_offset_at:
  "set_r_offset (Some (length xs)) va (xs @ r # ys) = xs @ r\<lparr>r_offset := va\<rparr> # ys"
  "set_r_offset None va rs = rs"
  by (simp_all add: set_r_offset_def)

text \<open>The three optional entries: where they are, and what setting their offsets gives.\<close>

definition tls_slot :: "nat \<Rightarrow> u64 \<Rightarrow> nat option" where
  "tls_slot n va = (if va = 0 then None else Some n)"

lemma set_tls_offset:
  "length xs = n \<Longrightarrow> set_r_offset (tls_slot n va) off (xs @ tls_rela 0 va @ ys) = xs @ tls_rela off va @ ys"
  using set_r_offset_at(1) [of xs off "zero_rela\<lparr>r_offset := 0, r_info := ELF64_R_INFO 0 R_X86_64_RELATIVE,
      r_addend := va\<rparr>" ys]
  by (auto simp: tls_slot_def tls_rela_def set_r_offset_at(2))

lemma add_tls_va_reloc_eq:
  assumes "tls_va_rela_idx b ! w = None"
  shows "rela_data (add_tls_va_reloc w va b) = rela_data b @ tls_rela 0 va"
    and "tls_va_rela_idx (add_tls_va_reloc w va b) =
      (tls_va_rela_idx b)[w := tls_slot (length (rela_data b)) va]"
    and "b_tls_index_va (add_tls_va_reloc w va b) = b_tls_index_va b"
    and "b_tls_callbacks_va (add_tls_va_reloc w va b) = b_tls_callbacks_va b"
  using assms list_update_id [of "tls_va_rela_idx b" w]
  by (simp_all add: add_tls_va_reloc_def tls_rela_def tls_slot_def zero_rela_def)

lemma add_so_exports_relas:
  assumes "tls_va_rela_idx b = [None, None, None]"
  shows "rela_data (add_so_exports b) = rela_data b @ tls_rela 0 (b_tls_template_va b) @
      tls_rela 0 (b_tls_index_va b) @ tls_rela 0 (b_tls_callbacks_va b)"
    and "tls_va_rela_idx (add_so_exports b) =
      [tls_slot (length (rela_data b)) (b_tls_template_va b),
       tls_slot (length (rela_data b @ tls_rela 0 (b_tls_template_va b))) (b_tls_index_va b),
       tls_slot (length (rela_data b @ tls_rela 0 (b_tls_template_va b) @ tls_rela 0 (b_tls_index_va b)))
         (b_tls_callbacks_va b)]"
  using assms
  by (simp_all add: add_so_exports_def build_hash_def Let_def case_prod_beta add_tls_va_reloc_eq)

lemma so_exports_relas:
  assumes r: "rela_data b = xs @ [r]" and i: "shim_reg_tls_rela_idx b = length xs"
    and t: "tls_va_rela_idx b = [None, None, None]" and so: "so_mode b"
  shows "rela_data (finalize_tls_call (t + 24) (add_so_exports b)) =
    xs @ [r\<lparr>r_offset := t + 24\<rparr>] @ tls_rela (t + 32) (b_tls_template_va b) @
      tls_rela (t + 64) (b_tls_index_va b) @ tls_rela (t + 72) (b_tls_callbacks_va b)"
proof -
  let ?v0 = "b_tls_template_va b" and ?v1 = "b_tls_index_va b" and ?v2 = "b_tls_callbacks_va b"
  note e = add_so_exports_relas [OF t, unfolded r]
  have len: "length (tls_rela off va) = length (tls_rela 0 va)" for off va by (simp add: tls_rela_def)
  let ?r = "r\<lparr>r_offset := t + 24\<rparr>"
  have "rela_data (finalize_tls_call (t + 24) (add_so_exports b)) =
      set_r_offset (tls_slot (length (xs @ [r] @ tls_rela 0 ?v0 @ tls_rela 0 ?v1)) ?v2) (t + 72)
       (set_r_offset (tls_slot (length (xs @ [r] @ tls_rela 0 ?v0)) ?v1) (t + 64)
         (set_r_offset (tls_slot (length (xs @ [r])) ?v0) (t + 32)
           (set_r_offset (Some (length xs)) (t + 24)
             (xs @ r # tls_rela 0 ?v0 @ tls_rela 0 ?v1 @ tls_rela 0 ?v2))))"
    using so i e by (simp add: finalize_tls_call_def Let_def add_so_exports_fields add.commute)
  also have "set_r_offset (Some (length xs)) (t + 24)
      (xs @ r # tls_rela 0 ?v0 @ tls_rela 0 ?v1 @ tls_rela 0 ?v2) =
      (xs @ [?r]) @ tls_rela 0 ?v0 @ (tls_rela 0 ?v1 @ tls_rela 0 ?v2)"
    by (simp add: set_r_offset_at)
  also have "set_r_offset (tls_slot (length (xs @ [r])) ?v0) (t + 32) \<dots> =
      (xs @ [?r] @ tls_rela (t + 32) ?v0) @ tls_rela 0 ?v1 @ tls_rela 0 ?v2"
    by (subst set_tls_offset) simp_all
  also have "set_r_offset (tls_slot (length (xs @ [r] @ tls_rela 0 ?v0)) ?v1) (t + 64) \<dots> =
      (xs @ [?r] @ tls_rela (t + 32) ?v0 @ tls_rela (t + 64) ?v1) @ tls_rela 0 ?v2 @ []"
    by (subst set_tls_offset) (simp_all add: len [of "t + 32"] len [of "t + 64"])
  also have "set_r_offset (tls_slot (length (xs @ [r] @ tls_rela 0 ?v0 @ tls_rela 0 ?v1)) ?v2) (t + 72) \<dots> =
      xs @ [?r] @ tls_rela (t + 32) ?v0 @ tls_rela (t + 64) ?v1 @ tls_rela (t + 72) ?v2"
    by (subst set_tls_offset) (simp_all add: len [of "t + 32"] len [of "t + 64"])
  finally show ?thesis .
qed

lemma finalize_no_so:
  assumes "rela_data b = xs @ [r]" and "shim_reg_tls_rela_idx b = length xs" and "\<not> so_mode b"
  shows "rela_data (finalize_tls_call va b) = xs @ [r\<lparr>r_offset := va\<rparr>]"
  using assms by (simp add: finalize_tls_call_def Let_def set_r_offset_def)

lemma build_symbols_relas:
  assumes "build_symbols img b = (img', b')" and "rela_data b = []"
  shows "rela_data b' = (map (import_rela (image_base img)) (img_imports img') @
      map base_rela (img_relocs img)) @
      [zero_rela\<lparr>r_info := ELF64_R_INFO (ucast (of_nat (shim_reg_tls_sym_idx b') :: u32)) R_X86_64_64\<rparr>]"
    and "shim_reg_tls_rela_idx b' = length (map (import_rela (image_base img)) (img_imports img') @
      map base_rela (img_relocs img))"
    and "tls_va_rela_idx b' = tls_va_rela_idx b"
  using assms by (auto simp: build_symbols_def Let_def split: prod.splits)

lemma synthetic_relas:
  assumes run: "build_synthetic_sections img b = (img', b')" and fresh: "rela_data b = []"
    "tls_va_rela_idx b = [None, None, None]"
  shows "rela_data (finalize_tls_call (t + 24) b') =
    all_relas img' (so_mode b') (tls_words b') (shim_reg_tls_sym_idx b') t"
proof -
  obtain b1 where s: "build_symbols img (build_strings b) = (img', b1)"
    and b': "b' = (if so_mode b1 then add_so_exports b1 else b1)"
    using run by (auto simp: build_synthetic_sections_def split: prod.splits)
  note r = build_symbols_relas [OF s]
  have img': "image_base img' = image_base img" "img_relocs img' = img_relocs img"
    using build_symbols_frame(7) [OF s]
    by (metis PeImage.select_convs PeImage.surjective PeImage.update_convs(7))+
  have so: "so_mode (add_so_exports b1) = so_mode b1"
    "shim_reg_tls_sym_idx (add_so_exports b1) = shim_reg_tls_sym_idx b1"
    "b_tls_template_va (add_so_exports b1) = b_tls_template_va b1"
    "b_tls_index_va (add_so_exports b1) = b_tls_index_va b1"
    "b_tls_callbacks_va (add_so_exports b1) = b_tls_callbacks_va b1"
    by (simp_all add: add_so_exports_def build_hash_def add_tls_va_reloc_def Let_def case_prod_beta)
  show ?thesis
  proof (cases "so_mode b1")
    case True
    with b' so_exports_relas [OF r(1,2) _ True] r(3) fresh so img' show ?thesis
      by (simp add: all_relas_def build_strings_fields tls_words_def)
  next
    case False
    with b' finalize_no_so [OF r(1,2)] fresh img' show ?thesis
      by (simp add: all_relas_def build_strings_fields tls_words_def)
  qed
qed

section \<open>The exported entry point\<close>

lemma finalize_syms:
  "dynsym_data (finalize_tls_call va b) =
     (if so_mode b \<and> entrypoint_sym_idx b < length (dynsym_data b)
      then (dynsym_data b)[entrypoint_sym_idx b :=
        (dynsym_data b ! entrypoint_sym_idx b)\<lparr>st_value := va - 24\<rparr>]
      else dynsym_data b)"
  by (simp add: finalize_tls_call_def Let_def)

lemma syms_named_update:
  assumes "named_by st_name d syms ns"
  shows "named_by st_name d (syms[i := (syms ! i)\<lparr>st_value := v\<rparr>]) ns"
  using assms
  by (cases "i < length syms")
    (auto simp: named_by_def list_all2_conv_all_nth nth_list_update list_update_beyond not_less)

text \<open>The hash table only looks at the names of the symbols.\<close>

lemma hash_fill_cong:
  assumes "map st_name syms = map st_name syms'" and "k \<le> length syms"
  shows "hash_fill d syms nb k bc = hash_fill d syms' nb k bc"
  using assms(2)
proof (induction k)
  case 0
  then show ?case by simp
next
  case (Suc k)
  have "st_name (syms ! k) = st_name (syms' ! k)"
    using assms(1) Suc.prems by (metis Suc_le_lessD length_map nth_map)
  with Suc show ?case by (simp add: hash_insert_def sym_name_def)
qed

lemma hash_arrays_cong:
  assumes "map st_name syms = map st_name syms'" and "length syms < 2 ^ 32"
  shows "hash_arrays d syms = hash_arrays d syms'"
proof -
  have l: "length syms' = length syms" using assms(1) by (metis length_map)
  have "unat (of_nat (length syms) :: u32) = length syms"
    using assms(2) by (intro unat_of_nat_small) simp
  then show ?thesis using hash_fill_cong [OF assms(1)] by (simp add: hash_arrays_def l Let_def)
qed

text \<open>
  In \<^verbatim>\<open>--so\<close> mode a lookup of \<^verbatim>\<open>_entrypoint\<close> in the hash table meets the exported symbol first.
\<close>

lemma entrypoint_found:
  assumes run: "build_synthetic_sections img b = (img', b')"
    and fresh: "dynsym_data b = []" "dynstr_data b = []" "rela_data b = []"
    and so: "so_mode b" and small: "length (dynstr_data b') < 2 ^ 32" "length (dynsym_data b') < 2 ^ 32"
    and nonul: "\<forall>ie \<in> set (img_imports img). 0 \<notin> set (dll_name ie) \<and> 0 \<notin> set (func_name ie)"
  shows "\<exists>rest. sysv_matches (hash_data b') (dynstr_data b')
      (dynsym_data (finalize_tls_call (t + 24) b')) (str_bytes ''_entrypoint'') =
        entrypoint_sym_idx b' # rest
    \<and> st_value (dynsym_data (finalize_tls_call (t + 24) b') ! entrypoint_sym_idx b') = t"
proof -
  obtain uniq where u: "syms_named (dynstr_data b') (dynsym_data b') (all_names b uniq)"
      "set uniq = import_sym_name ` set (img_imports img)"
    by (rule build_synthetic_sections_spec [OF run fresh small(1)])
  obtain b1 where b1: "build_symbols img (build_strings b) = (img', b1)" "b' = add_so_exports b1"
    "so_mode b1"
    using run so
    by (auto simp: build_synthetic_sections_def build_symbols_def build_strings_fields Let_def
        split: prod.splits)
  let ?n = "length (dynsym_data b')" and ?e = "entrypoint_sym_idx b'"
  have e: "?e = ?n - 1" "?n > 0" "?e < ?n" "so_mode b'" using b1 by (auto simp: add_so_exports_fields)
  let ?syms = "dynsym_data (finalize_tls_call (t + 24) b')"
  have fin: "?syms = (dynsym_data b')[?e := (dynsym_data b' ! ?e)\<lparr>st_value := t\<rparr>]"
    using e by (simp add: finalize_syms)
  have named: "syms_named (dynstr_data b') ?syms (all_names b uniq)"
    unfolding fin by (rule syms_named_update [OF u(1)])
  have len: "length (all_names b uniq) = ?n" using sym_tab.named_length [OF u(1)] by simp
  have nul: "\<forall>n \<in> set (all_names b uniq). 0 \<notin> set n"
    using u(2) nonul make_elf_sym_name_no_nul by (auto simp: all_names_def str_bytes_def)
  have names: "sym_name (dynstr_data b') (?syms ! i) = all_names b uniq ! i"
      "unat (st_name (?syms ! i)) < length (dynstr_data b')" if "i < ?n" for i
    using syms_named_nth [OF named, of i] that len nul by auto
  let ?c = "b'\<lparr>dynsym_data := ?syms\<rparr>"
  have "map st_name ?syms = map st_name (dynsym_data b')"
    using e(3) by (simp add: fin map_update list_update_same_conv)
  then have "hash_arrays (dynstr_data b') ?syms = hash_arrays (dynstr_data b') (dynsym_data b')"
    by (rule hash_arrays_cong) (use small(2) fin in simp)
  then have same: "hash_data (build_hash ?c) = hash_data b'"
    using add_so_exports_hash [of b1] b1(2) fin by (simp add: build_hash_def Let_def case_prod_beta)
  have "sysv_matches (hash_data b') (dynstr_data b') ?syms name =
      rev (filter (\<lambda>i. sym_name (dynstr_data b') (?syms ! i) = name) [1..<?n])" for name
  proof -
    have "\<forall>s \<in> set ?syms. unat (st_name s) < length (dynstr_data b')"
      using names(2) fin by (metis in_set_conv_nth length_list_update)
    moreover have "?syms \<noteq> []" using e(2) fin by auto
    ultimately show ?thesis
      using build_hash_matches [of ?c name] small(2) same fin by simp
  qed
  moreover have "[1..<?n] = [1..<?e] @ [?e]"
  proof -
    have "1 \<le> ?e" "?n = Suc ?e" using len e by (auto simp: all_names_def)
    then show ?thesis by (metis upt_Suc_append)
  qed
  moreover have "sym_name (dynstr_data b') (?syms ! ?e) = str_bytes ''_entrypoint''"
  proof -
    have "?e = Suc (Suc (length uniq))" using len e so by (simp add: all_names_def)
    then have "all_names b uniq ! ?e = str_bytes ''_entrypoint''"
      using so by (simp add: all_names_def nth_append)
    with names(1) [OF e(3)] show ?thesis by simp
  qed
  ultimately show ?thesis using fin e(3) by (simp add: nth_append)
qed

text \<open>The names of the two kinds of symbols the relocation table refers to.\<close>

lemma shim_sym_index:
  assumes "build_synthetic_sections img b = (img', b')" and "dynsym_data b = []"
  shows "shim_reg_tls_sym_idx b' + (if so_mode b then 2 else 1) = length (dynsym_data b')"
proof -
  obtain b1 where s: "build_symbols img (build_strings b) = (img', b1)"
    and b': "b' = (if so_mode b1 then add_so_exports b1 else b1)" "so_mode b1 = so_mode b"
    using assms(1)
    by (auto simp: build_synthetic_sections_def build_symbols_def build_strings_fields Let_def
        split: prod.splits)
  have "shim_reg_tls_sym_idx b1 + 1 = length (dynsym_data b1)"
    using s by (auto simp: build_symbols_def add_func_sym_def Let_def split: prod.splits)
  moreover have "shim_reg_tls_sym_idx (add_so_exports b1) = shim_reg_tls_sym_idx b1"
    by (simp add: add_so_exports_def build_hash_def add_tls_va_reloc_def Let_def case_prod_beta)
  ultimately show ?thesis using b' by (auto simp: add_so_exports_fields)
qed

section \<open>Lookups after the layout\<close>

text \<open>The layout pass changes nothing but the file offsets of the sections.\<close>

definition same_secs :: "Entry list \<Rightarrow> Entry list \<Rightarrow> bool" where
  "same_secs es es' \<longleftrightarrow> list_all2 (\<lambda>e e'. \<exists>f. e' = e\<lparr>elf_foff := f\<rparr>) es es'"

lemma same_secs_layout: "layout_secs cur es = (es', fin) \<Longrightarrow> same_secs es es'"
  by (auto simp: same_secs_def list_all2_conv_all_nth dest!: layout_secs_fields)

lemma section_of_from_same: "same_secs es es' \<Longrightarrow> section_of_from i es' rva = section_of_from i es rva"
  unfolding same_secs_def
  by (induction es es' arbitrary: i rule: list_all2_induct) auto

lemma rva_to_offset_same: "same_secs es es' \<Longrightarrow> rva_to_offset es' rva = rva_to_offset es rva"
  unfolding same_secs_def
  by (induction es es' rule: list_all2_induct) (auto simp: Let_def)

lemma same_secs_nth:
  "same_secs es es' \<Longrightarrow> k < length es \<Longrightarrow>
   length es' = length es \<and> in_sec (es' ! k) rva = in_sec (es ! k) rva \<and> sec_va (es' ! k) = sec_va (es ! k)
   \<and> sec_rawsz (es' ! k) = sec_rawsz (es ! k) \<and> sec_raw (es' ! k) = sec_raw (es ! k)
   \<and> sec_virtsz (es' ! k) = sec_virtsz (es ! k) \<and> sec_name (es' ! k) = sec_name (es ! k)"
  by (auto simp: same_secs_def list_all2_conv_all_nth dest!: spec [of _ k])

lemma compute_plan_same:
  assumes "compute_plan img isz dsym dstr rel dt hs = (plan, img')"
  shows "same_secs (img_secs img) (img_secs img')" and "img' = img\<lparr>img_secs := img_secs img'\<rparr>"
  using assms same_secs_layout
  by (auto simp: compute_plan_def Let_def split: prod.splits)

text \<open>What \<^verbatim>\<open>convert_build\<close> keeps of the image it is given.\<close>

lemma convert_build_image:
  assumes "convert_build conv img = Inr (img', plan, b)"
  shows "same_secs (img_secs img) (img_secs img')" "img_buf img' = img_buf img"
    "img_relocs img' = img_relocs img" "image_base img' = image_base img"
    "iat_sec_idx img' = iat_sec_idx img" "ep_rva img' = ep_rva img" "oh_off img' = oh_off img"
    "list_all2 (\<lambda>ie ie'. \<exists>i. ie' = ie\<lparr>sym_index := i\<rparr>) (img_imports img) (img_imports img')"
proof -
  obtain img1 b1 b4 b5 where s: "build_synthetic_sections img (init_builder conv img) = (img1, b1)"
    and c: "compute_plan img1 (length (interp_data b1)) (length (dynsym_data b1))
      (length (dynstr_data b1)) (length (rela_data b1)) (dt_entry_count b1)
      (length (hash_data b1)) = (plan, img')"
    using assms by (rule convert_build_cases)
  note sf = synthetic_frame [OF s]
  note cs = compute_plan_same [OF c]
  show "same_secs (img_secs img) (img_secs img')" using cs(1) sf by simp
  show "img_buf img' = img_buf img" "img_relocs img' = img_relocs img"
    "image_base img' = image_base img" "iat_sec_idx img' = iat_sec_idx img"
    "ep_rva img' = ep_rva img" "oh_off img' = oh_off img"
    by (subst cs(2), simp add: sf)+
  have "img_imports img' = img_imports img1" by (subst cs(2)) simp
  moreover obtain uniq where "list_all2 (numbered uniq) (img_imports img) (img_imports img1)"
    using s assign_syms_spec [of "img_imports img" "[]"]
    by (auto simp: build_synthetic_sections_def build_symbols_def Let_def split: prod.splits)
  ultimately show "list_all2 (\<lambda>ie ie'. \<exists>i. ie' = ie\<lparr>sym_index := i\<rparr>) (img_imports img) (img_imports img')"
    by (auto simp: numbered_def elim!: list_all2_mono)
qed

lemma list_all2_right: "list_all2 R xs ys \<Longrightarrow> y \<in> set ys \<Longrightarrow> \<exists>x \<in> set xs. R x y"
  by (induction rule: list_all2_induct) auto

section \<open>Every relocated address can be written\<close>

lemma import_slot_writable:
  assumes wf: "imports_wf img" and run: "convert_build conv img = Inr (img', plan, b)"
    and ie: "ie' \<in> set (img_imports img')"
    and phdrs: "b = build_phdrs img' plan b5" "\<not> strip_pdata b5"
  shows "\<exists>p \<in> set (phdrs b). maps_addr p (image_base img' + ucast (iat_rva ie')) \<and> writable p"
proof -
  note ci = convert_build_image [OF run]
  obtain ie i where ie0: "ie \<in> set (img_imports img)" "ie' = ie\<lparr>sym_index := i\<rparr>"
    using list_all2_right [OF ci(8) ie] by auto
  let ?s = "section_of (img_secs img) (iat_rva ie)" and ?k = "nat (section_of (img_secs img) (iat_rva ie))"
  have s: "?s \<ge> 0" "?s \<in> set (iat_sec_idx img)"
    using wf ie0(1) by (auto simp: imports_wf_def import_ok_def list.pred_set)
  have k: "?k < length (img_secs img)" "in_sec (img_secs img ! ?k) (iat_rva ie)"
    using section_of_nonneg [OF s(1)] by auto
  note sm = same_secs_nth [OF ci(1) k(1)]
  let ?p = "sec_phdr img' (int ?k) (img_secs img' ! ?k)"
  have "?p \<in> set (phdrs b)"
    unfolding phdrs(1) by (rule sec_phdr_in_phdrs) (use k sm phdrs(2) in auto)
  moreover have "writable ?p"
    by (rule iat_sec_writable) (use s ci(5) in \<open>simp add: is_iat_sec_iff\<close>)
  moreover have "maps_addr ?p (image_base img' + ucast (iat_rva ie'))"
    by (rule sec_phdr_maps) (use k sm ie0 in simp)
  ultimately show ?thesis by blast
qed

lemma base_reloc_writable:
  assumes ok: "list_all (reloc_ok img) (img_relocs img)"
    and run: "convert_build conv img = Inr (img', plan, b)"
    and base: "unat (image_base img) + 2 ^ 32 \<le> 2 ^ 64" and re: "re \<in> set (img_relocs img)"
    and phdrs: "b = build_phdrs img' plan b5" "\<not> strip_pdata b5"
  shows "\<exists>p \<in> set (phdrs b). maps_addr p (re_va re) \<and> writable p"
proof -
  note ci = convert_build_image [OF run]
  have in_image: "unat (re_va re - image_base img) < 2 ^ 32"
    using ok re by (auto simp: list.pred_set reloc_ok_def)
  let ?rva = "ucast (re_va re - image_base img) :: u32"
  have va: "re_va re = image_base img + ucast ?rva"
  proof -
    have "unat (ucast ?rva :: u64) = unat (re_va re - image_base img)"
      using in_image by (simp add: unsigned_ucast_eq unsigned_take_bit_eq take_bit_nat_eq_self)
    then have "ucast ?rva = re_va re - image_base img" by (simp add: word_unat_eq_iff)
    then show ?thesis by simp
  qed
  obtain off where "rva_to_offset (img_secs img) ?rva = Some off"
    using ok re by (auto simp: list.pred_set reloc_ok_def reloc_site_def split: option.splits)
  then obtain k where k: "k < length (img_secs img)" "in_sec (img_secs img ! k) ?rva"
    by (auto simp: rva_to_offset_Some_iff)
  note sm = same_secs_nth [OF ci(1) k(1), of ?rva]
  let ?p = "sec_phdr img' (int k) (img_secs img' ! k)"
  have "?p \<in> set (phdrs b)"
    unfolding phdrs(1) by (rule sec_phdr_in_phdrs) (use k sm phdrs(2) in auto)
  moreover have "writable ?p"
    by (rule reloc_sec_writable, rule has_reloc_in_intro [of re _ ?rva])
      (use re ci va sm k base in simp_all)
  moreover have "maps_addr ?p (image_base img' + ucast ?rva)"
    by (rule sec_phdr_maps) (use k sm in simp)
  ultimately show ?thesis using va ci(4) by metis
qed

lemma trampoline_writable:
  assumes pf: "plan_for img0 img plan b" and phdrs: "b = build_phdrs img plan b5"
    and o: "unat o' < 80"
  shows "\<exists>p \<in> set (phdrs b). maps_addr p (trampoline_va plan + o') \<and> writable p"
proof -
  let ?sz = "trampoline_foff plan + of_nat (length (trampoline_data b5))"
  let ?p = "zero_phdr\<lparr>p_type := PT_LOAD, p_flags := PF_R OR PF_W OR PF_X, p_offset := synth_foff plan,
        p_vaddr := synth_va plan, p_paddr := synth_va plan, p_filesz := ?sz,
        p_memsz := ?sz, p_align := kPageSize\<rparr>"
  obtain p0 rest ps relro where "phdrs (build_phdrs img plan b5) =
        p0 # rest @ ps @ tail_phdrs img plan relro" "head_phdrs plan b5 = hd (head_phdrs plan b5) # rest"
    by (rule build_phdrs_eq)
  moreover have "?p \<in> set (tl (head_phdrs plan b5))" by (simp add: head_phdrs_def Let_def)
  ultimately have mem: "?p \<in> set (phdrs b)" unfolding phdrs by (metis Un_iff list.sel(3) list.set_intros(2) set_append)
  have len: "length (trampoline_data b5) = 80"
    using pf build_phdrs_fields [of img plan b5] unfolding phdrs plan_for_def
    by (metis Builder.select_convs(10) Builder.surjective Builder.update_convs(13))
  have b43: "unat (trampoline_foff plan) + 80 < 2 ^ 43"
    by (rule compute_plan_nat(2)) (use pf in \<open>auto simp: plan_for_def\<close>)
  have va: "trampoline_va plan = synth_va plan + trampoline_foff plan"
    by (rule compute_plan_va) (use pf in \<open>auto simp: plan_for_def\<close>)
  have "unat (trampoline_foff plan + o') = unat (trampoline_foff plan) + unat o'"
    "unat (trampoline_foff plan + 80) = unat (trampoline_foff plan) + 80"
    by (rule unat_add_eq; use b43 o in simp)+
  then have "maps_addr ?p (trampoline_va plan + o')"
    using o len by (simp add: maps_addr_def va zero_phdr_def word_less_nat_alt)
  moreover have "writable ?p" by (simp add: writable_def zero_phdr_def)
  ultimately show ?thesis using mem by blast
qed

section \<open>Tables of the finished builder\<close>

text \<open>The stages of the build that the tables depend on.\<close>

lemma convert_build_tables:
  assumes run: "convert_build conv img = Inr (img', plan, b)" and wf: "imports_wf img"
    and n: "length (img_secs img) \<le> 96"
  obtains img1 b1 where
    "build_synthetic_sections img (init_builder conv img) = (img1, b1)"
    and "dynsym_data b = dynsym_data (finalize_tls_call (trampoline_va plan + 24) b1)"
    and "dynstr_data b = dynstr_data b1" and "hash_data b = hash_data b1"
    and "img_imports img' = img_imports img1"
    and "rela_data b = all_relas img' (c_so_mode conv) (img_tls_words img)
      (shim_reg_tls_sym_idx b1) (trampoline_va plan)"
proof -
  have dist: "distinct (iat_sec_idx img)" using wf by (simp add: imports_wf_def)
  obtain img1 b1 where s: "build_synthetic_sections img (init_builder conv img) = (img1, b1)"
    and c: "compute_plan img1 (length (interp_data b)) (length (dynsym_data b))
      (length (dynstr_data b)) (length (rela_data b)) (length (dynamic_data b))
      (length (hash_data b)) = (plan, img')"
    and d: "dynsym_data b = dynsym_data (finalize_tls_call (trampoline_va plan + 24) b1)"
    and r: "rela_data b = rela_data (finalize_tls_call (trampoline_va plan + 24) b1)"
    and t: "dynstr_data b = dynstr_data b1" and h: "hash_data b = hash_data b1"
    by (rule convert_build_spec [OF run n dist])
  note sf = synthetic_frame [OF s, unfolded init_builder_fields]
  have img': "img_imports img' = img_imports img1" "img_relocs img' = img_relocs img1"
      "image_base img' = image_base img1"
    by (subst compute_plan_same(2) [OF c], simp)+
  have "rela_data b = all_relas img' (c_so_mode conv) (img_tls_words img)
      (shim_reg_tls_sym_idx b1) (trampoline_va plan)"
    using synthetic_relas [OF s] r sf img'
    by (simp add: init_builder_fields all_relas_def) (simp add: init_builder_def new_builder_def)
  then show ?thesis by (rule that [OF s d t h img'(1)])
qed

lemma imports_wf_no_nul:
  "imports_wf img \<Longrightarrow> \<forall>ie \<in> set (img_imports img). 0 \<notin> set (dll_name ie) \<and> 0 \<notin> set (func_name ie)"
  by (auto simp: imports_wf_def import_ok_def list.pred_set)

end
