(* ===== verification/Sample_Pe.thy ===== *)
theory Sample_Pe
  imports Convert_Tables
begin

text \<open>
  A small PE32+ file (480 bytes: two sections, one import, one base relocation) on which the
  theorems of the converter are exercised, with the values the passes compute on it.
\<close>

definition sample_pe :: bytes where
  "sample_pe =
     [77, 90, 0, 0, 0, 0, 0, 0, 0, 0, 0, 0, 0, 0, 0, 0, 0, 0, 0, 0, 0, 0, 0, 0, 0, 0, 0, 0, 0,
      0, 0, 0, 0, 0, 0, 0, 0, 0, 0, 0, 0, 0, 0, 0, 0, 0, 0, 0, 0, 0, 0, 0, 0, 0, 0, 0, 0, 0,
      0, 0, 64, 0, 0, 0, 80, 69, 0, 0, 100, 134, 2, 0, 0, 0, 0, 0, 0, 0, 0, 0, 0, 0, 0, 0,
      192, 0, 34, 0, 11, 2, 0, 0, 8, 0, 0, 0, 112, 0, 0, 0, 0, 0, 0, 0, 0, 16, 0, 0, 0, 16, 0,
      0, 0, 0, 0, 64, 1, 0, 0, 0, 0, 16, 0, 0, 0, 2, 0, 0, 0, 0, 0, 0, 0, 0, 0, 0, 0, 0, 0, 0,
      0, 0, 0, 0, 0, 48, 0, 0, 104, 1, 0, 0, 0, 0, 0, 0, 3, 0, 0, 0, 0, 0, 16, 0, 0, 0, 0, 0,
      0, 16, 0, 0, 0, 0, 0, 0, 0, 0, 16, 0, 0, 0, 0, 0, 0, 16, 0, 0, 0, 0, 0, 0, 0, 0, 0, 0,
      10, 0, 0, 0, 0, 0, 0, 0, 0, 0, 0, 0, 0, 32, 0, 0, 40, 0, 0, 0, 0, 0, 0, 0, 0, 0, 0, 0,
      0, 0, 0, 0, 0, 0, 0, 0, 0, 0, 0, 0, 0, 0, 0, 0, 96, 32, 0, 0, 12, 0, 0, 0, 0, 0, 0, 0,
      0, 0, 0, 0, 0, 0, 0, 0, 0, 0, 0, 0, 0, 0, 0, 0, 0, 0, 0, 0, 0, 0, 0, 0, 0, 0, 0, 0, 46,
      116, 101, 120, 116, 0, 0, 0, 8, 0, 0, 0, 0, 16, 0, 0, 8, 0, 0, 0, 104, 1, 0, 0, 0, 0, 0,
      0, 0, 0, 0, 0, 0, 0, 0, 0, 32, 0, 0, 96, 46, 100, 97, 116, 97, 0, 0, 0, 112, 0, 0, 0, 0,
      32, 0, 0, 112, 0, 0, 0, 112, 1, 0, 0, 0, 0, 0, 0, 0, 0, 0, 0, 0, 0, 0, 0, 64, 0, 0, 192,
      144, 195, 0, 0, 0, 0, 0, 0, 40, 32, 0, 0, 0, 0, 0, 0, 0, 0, 0, 0, 72, 32, 0, 0, 56, 32,
      0, 0, 0, 0, 0, 0, 0, 0, 0, 0, 0, 0, 0, 0, 0, 0, 0, 0, 0, 0, 0, 0, 80, 32, 0, 0, 0, 0, 0,
      0, 0, 0, 0, 0, 0, 0, 0, 0, 80, 32, 0, 0, 0, 0, 0, 0, 0, 0, 0, 0, 0, 0, 0, 0, 75, 46,
      100, 108, 108, 0, 0, 0, 0, 0, 70, 0, 0, 0, 0, 0, 0, 16, 0, 64, 1, 0, 0, 0, 0, 32, 0, 0,
      12, 0, 0, 0, 88, 160, 0, 0, 0, 0, 0, 0]"

definition sample_fs :: host_fs where
  "sample_fs path = (if path = str_bytes ''in.exe''
     then Some \<lparr>ftell_size = 480, fread_data = sample_pe\<rparr> else None)"

definition sample_host :: host_out where
  "sample_host = \<lparr>can_create = (\<lambda>p. True), fwrite_count = (\<lambda>p n. n)\<rparr>"

definition sample_secs :: "Entry list" where
  "sample_secs =
     [\<lparr>sec_va = 0x1000, sec_raw = 360, sec_rawsz = 8, sec_virtsz = 8, sec_chars = 0x60000020,
       sec_name = [46, 116, 101, 120, 116, 0, 0, 0, 0], sec_name_str = [46, 116, 101, 120, 116],
       elf_foff = 0\<rparr>,
      \<lparr>sec_va = 0x2000, sec_raw = 368, sec_rawsz = 112, sec_virtsz = 112, sec_chars = 0xC0000040,
       sec_name = [46, 100, 97, 116, 97, 0, 0, 0, 0], sec_name_str = [46, 100, 97, 116, 97],
       elf_foff = 0\<rparr>]"

definition sample_parsed :: PeImage where
  "sample_parsed = \<lparr>img_buf = sample_pe, peh_off = 64, oh_off = 88, dd_off = 200, num_dd = 10,
     img_secs = sample_secs, img_imports = [], img_relocs = [], image_base = 0x140000000,
     ep_rva = 0x1000, rdata_sec_idx = - 1, iat_sec_idx = [], tls_template_va = 0,
     tls_template_sz = 0, tls_zero_fill = 0, tls_align_chars = 0, tls_index_va = 0,
     tls_callbacks_va = 0\<rparr>"

definition sample_import :: ImportEntry where
  "sample_import = \<lparr>dll_name = [75, 46, 100, 108, 108], func_name = [70], iat_rva = 0x2038,
     sym_index = 0\<rparr>"

definition sample_reloc :: BaseRelocEntry where
  "sample_reloc = \<lparr>re_va = 0x140002058, re_addend = 0x140001000\<rparr>"

definition sample_image :: PeImage where
  "sample_image = sample_parsed\<lparr>img_imports := [sample_import], iat_sec_idx := [1],
     rdata_sec_idx := 1, img_relocs := [sample_reloc]\<rparr>"

lemmas sample_read = sample_pe_def buf_at_def field_def le_word_def

lemma length_sample [simp]: "length sample_pe = 480"
  by (simp add: sample_pe_def)

lemma sample_load: "buffer_load sample_fs (str_bytes ''in.exe'') = Some sample_pe"
  by (simp add: buffer_load_def sample_fs_def)

lemma sample_dos:
  "\<exists>d. at_dos sample_pe 0 = Some d \<and> dos_Magic d = 0x5A4D \<and> AddressOfNewExeHeader d = 64"
  by (simp add: at_dos_def dec_pe_dos_header_def sample_read)

lemma sample_peh:
  "\<exists>p. at_peh sample_pe 64 = Some p \<and> signature p = [80, 69, 0, 0] \<and> Machine p = 0x8664 \<and>
     NumberOfSections p = 2 \<and> SizeOfOptionalHeader p = 192"
  by (simp add: at_peh_def dec_pe_header_def sample_read)

lemma sample_opt:
  "at_u16 sample_pe 88 = Some 0x20B"
  "\<exists>h. at_opt64 sample_pe 88 = Some h \<and> ImageBase h = 0x140000000 \<and>
     AddressOfEntryPoint h = 0x1000 \<and> NumberOfRvaAndSize h = 10"
  by (simp_all add: at_u16_def at_opt64_def dec_pe64_optional_header_def sample_read)

lemma sample_sec0: "at_section sample_pe 280 = Some
    \<lparr>Name = [46, 116, 101, 120, 116, 0, 0, 0], VirtualSize = 8, sec_VirtualAddress = 0x1000,
     SizeOfRawData = 8, PointerToRawData = 360, PointerToRelocations = 0, PointerToLineNumbers = 0,
     NumberOfRelocations = 0, NumberOfLineNumbers = 0, sec_Characteristics = 0x60000020\<rparr>"
  by (simp add: at_section_def dec_pe_section_def sample_read)

lemma sample_sec1: "at_section sample_pe 320 = Some
    \<lparr>Name = [46, 100, 97, 116, 97, 0, 0, 0], VirtualSize = 112, sec_VirtualAddress = 0x2000,
     SizeOfRawData = 112, PointerToRawData = 368, PointerToRelocations = 0, PointerToLineNumbers = 0,
     NumberOfRelocations = 0, NumberOfLineNumbers = 0, sec_Characteristics = 0xC0000040\<rparr>"
  by (simp add: at_section_def dec_pe_section_def sample_read)

lemma sample_sections: "parse_sections sample_pe peh 280 2 = sample_secs"
proof -
  have "parse_sections sample_pe peh 280 (Suc (Suc 0)) = sample_secs"
    by (simp add: sample_sec0 sample_sec1 sample_secs_def section_name_def long_name_def c_str_def)
  then show ?thesis by (simp add: numeral_2_eq_2)
qed

lemma sample_parse: "parse sample_fs (str_bytes ''in.exe'') = Inr sample_parsed"
proof -
  obtain d p h where d: "at_dos sample_pe 0 = Some d" "dos_Magic d = 0x5A4D"
      "AddressOfNewExeHeader d = 64"
    and p: "at_peh sample_pe 64 = Some p" "signature p = [80, 69, 0, 0]" "Machine p = 0x8664"
      "NumberOfSections p = 2" "SizeOfOptionalHeader p = 192"
    and h: "at_opt64 sample_pe 88 = Some h" "ImageBase h = 0x140000000"
      "AddressOfEntryPoint h = 0x1000" "NumberOfRvaAndSize h = 10"
    using sample_dos sample_peh sample_opt by auto
  have "parse_headers sample_pe = Inr (64, p, h)"
    using d p h sample_opt(1) by (simp add: parse_headers_def)
  then show ?thesis
    using p h sample_sections [of p] by (simp add: parse_def sample_load sample_parsed_def)
qed

section \<open>Imports and relocations\<close>

lemma sample_dds:
  "at_dd sample_pe 208 = Some \<lparr>RelativeVirtualAddress = 0x2000, dd_Size = 40\<rparr>"
  "at_dd sample_pe 240 = Some \<lparr>RelativeVirtualAddress = 0x2060, dd_Size = 12\<rparr>"
  "at_dd sample_pe 272 = Some \<lparr>RelativeVirtualAddress = 0, dd_Size = 0\<rparr>"
  by (simp_all add: at_dd_def dec_pe_data_directory_def sample_read)

lemma sample_offsets:
  "rva_to_offset sample_secs 0x2000 = Some 368" "rva_to_offset sample_secs 0x2028 = Some 408"
  "rva_to_offset sample_secs 0x2048 = Some 440" "rva_to_offset sample_secs 0x2050 = Some 448"
  "rva_to_offset sample_secs 0x2058 = Some 456" "rva_to_offset sample_secs 0x2060 = Some 464"
  "section_of sample_secs 0x2038 = 1"
  by (simp_all add: sample_secs_def in_sec_def sec_end_def section_of_def)

lemma sample_import_reads:
  "at_import sample_pe 368 = Some \<lparr>ImportLookupTableRVA = 0x2028, imp_TimeDateStamp = 0,
     ForwarderChain = 0, imp_NameRVA = 0x2048, ImportAddressTableRVA = 0x2038\<rparr>"
  "at_import sample_pe 388 = Some \<lparr>ImportLookupTableRVA = 0, imp_TimeDateStamp = 0,
     ForwarderChain = 0, imp_NameRVA = 0, ImportAddressTableRVA = 0\<rparr>"
  "at_u64 sample_pe 408 = Some 0x2050" "at_u64 sample_pe 416 = Some 0"
  "strnlen_str 256 (drop 440 sample_pe) = [75, 46, 100, 108, 108]"
  "buf_str sample_pe 450 = [70]"
  by (simp_all add: at_import_def dec_pe_import_def at_u64_def strnlen_str_def buf_str_def
      c_str_def sample_read)

lemma sample_ilt:
  "ilt_loop fs sample_pe sample_secs [75, 46, 100, 108, 108] 0x2038 408 65536 0 cache [] =
     Inr (cache, [sample_import])"
proof -
  have "ilt_loop fs sample_pe sample_secs [75, 46, 100, 108, 108] 0x2038 408 (Suc (Suc n)) 0 cache [] =
     Inr (cache, [sample_import])" for n
    by (simp add: sample_import_reads import_entry_def sample_offsets sample_import_def)
  from this [of 65534] show ?thesis by simp
qed

lemma sample_import_loop:
  "import_loop fs sample_pe sample_secs 368 4096 cache [] = Inr (cache, [sample_import])"
proof -
  have "import_loop fs sample_pe sample_secs 368 (Suc (Suc n)) cache [] =
      Inr (cache, [sample_import])" for n
    by (simp add: sample_import_reads import_descriptor_def sample_offsets sample_ilt
        del: ilt_loop.simps)
  from this [of 4094] show ?thesis by simp
qed

lemma sample_collect_imports:
  "collect_imports fs cache sample_parsed = Inr (cache, sample_image\<lparr>img_relocs := []\<rparr>)"
  by (simp add: collect_imports_def sample_parsed_def sample_dds sample_offsets sample_import_loop
      finish_imports_def sample_image_def sample_import_def del: import_loop.simps)

lemma sample_reloc_reads:
  "at_base_reloc sample_pe 464 = Some \<lparr>blk_VirtualAddress = 0x2000, SizeOfBlock = 12\<rparr>"
  "at_u16 sample_pe 472 = Some 0xA058" "at_u16 sample_pe 474 = Some 0"
  "at_u64 sample_pe 456 = Some 0x140001000"
  by (simp_all add: at_base_reloc_def dec_pe_base_reloc_def at_u16_def at_u64_def sample_read)

lemma sample_image_fields:
  "img_buf sample_image = sample_pe" "img_secs sample_image = sample_secs"
  "image_base sample_image = 0x140000000" "img_imports sample_image = [sample_import]"
  "num_dd sample_image = 10" "dd_off sample_image = 200" "img_relocs sample_image = [sample_reloc]"
  "iat_sec_idx sample_image = [1]" "ep_rva sample_image = 0x1000"
  by (simp_all add: sample_image_def sample_parsed_def)

lemma sample_reloc_entry:
  "reloc_entry (sample_image\<lparr>img_relocs := []\<rparr>) 0x2058 = Some sample_reloc"
  by (simp add: reloc_entry_def sample_image_fields sample_offsets sample_reloc_reads is_iat_def
      sample_import_def sample_reloc_def)

lemma sample_reloc_entries:
  "reloc_entries (sample_image\<lparr>img_relocs := []\<rparr>) 464 0x2000 2 0 [] = [sample_reloc]"
proof -
  have "reloc_entries (sample_image\<lparr>img_relocs := []\<rparr>) 464 0x2000 (Suc (Suc 0)) 0 [] = [sample_reloc]"
    by (simp add: sample_image_fields sample_reloc_reads sample_reloc_entry)
  then show ?thesis by (simp add: numeral_2_eq_2)
qed

lemma sample_reloc_blocks:
  "reloc_blocks (Suc (Suc n)) (sample_image\<lparr>img_relocs := []\<rparr>) 476 464 [] = Some [sample_reloc]"
  by (simp add: sample_image_fields sample_reloc_reads sample_reloc_entries)

lemma sample_collect_relocs:
  "collect_relocs (Suc (Suc n)) (sample_image\<lparr>img_relocs := []\<rparr>) = Inr sample_image"
  by (simp add: collect_relocs_def sample_image_fields sample_dds sample_offsets reloc_end_def
      sample_reloc_blocks del: reloc_blocks.simps)

lemma sample_convert_image:
  assumes "rebase_to conv = 0"
  shows "convert_image sample_fs 100 cache conv (str_bytes ''in.exe'') = Inr (cache, sample_image)"
proof -
  have "collect_tls sample_image = sample_image"
    by (simp add: collect_tls_def sample_image_def sample_parsed_def sample_dds)
  moreover have "collect_relocs 100 (sample_image\<lparr>img_relocs := []\<rparr>) = Inr sample_image"
    using sample_collect_relocs [of 98] by simp
  ultimately show ?thesis
    using assms by (simp add: convert_image_def sample_parse sample_collect_imports)
qed

section \<open>The build\<close>

definition so_converter :: Converter where
  "so_converter = new_converter\<lparr>c_so_mode := True\<rparr>"

lemma sample_sym_name: "make_elf_sym_name (dll_name sample_import) (func_name sample_import) = [107, 95, 70]"
  by (simp add: sample_import_def make_elf_sym_name_def to_lower_def)

lemma sample_synthetic:
  "\<exists>b1. build_synthetic_sections sample_image (init_builder new_converter sample_image) =
     (sample_image\<lparr>img_imports := [sample_import\<lparr>sym_index := 1\<rparr>]\<rparr>, b1) \<and>
     length (interp_data b1) = 28 \<and> length (dynsym_data b1) = 3 \<and> length (dynstr_data b1) = 46 \<and>
     length (rela_data b1) = 3 \<and> dt_entry_count b1 = 12 \<and> hash_data b1 = []"
  by (simp add: build_synthetic_sections_def build_symbols_def build_strings_def Let_def
      sample_image_fields sample_sym_name add_func_sym_def length_push_str init_builder_def
      new_builder_def new_converter_def dt_entry_count_def)

lemma sample_plan:
  "\<exists>plan. compute_plan (sample_image\<lparr>img_imports := ies\<rparr>) 28 3 46 3 12 0 =
     (plan, sample_image\<lparr>img_imports := ies,
       img_secs := [(sample_secs ! 0)\<lparr>elf_foff := 4096\<rparr>, (sample_secs ! 1)\<lparr>elf_foff := 8192\<rparr>]\<rparr>) \<and>
     trampoline_va plan = 0x13fffe3d8"
  by (simp add: compute_plan_def Let_def sample_image_fields sample_secs_def syn_size_needed_def
     sized8_def align_up_def kPageSize_def kTrampolineSize_def kPhdrsMaxCount_def kSynthMargin_def
     choose_synth_va_def hdr_file_end_def)

definition sample_out_image :: PeImage where
  "sample_out_image = sample_image\<lparr>img_imports := [sample_import\<lparr>sym_index := 1\<rparr>],
     img_secs := [(sample_secs ! 0)\<lparr>elf_foff := 4096\<rparr>, (sample_secs ! 1)\<lparr>elf_foff := 8192\<rparr>]\<rparr>"

lemma sample_trampoline:
  "trampoline_va plan = 0x13fffe3d8 \<or> trampoline_va plan = 0x13fffe438 \<Longrightarrow> \<exists>b'. build_trampoline sample_out_image plan b = Inr b'"
  by (elim disjE) (simp_all add: build_trampoline_def sample_out_image_def sample_image_fields Let_def)

lemma sample_patch: "\<exists>b'. patch_rdata sample_out_image b = Inr b'"
  by (simp add: patch_rdata_def sample_out_image_def sample_image_fields sample_secs_def
      section_of_def in_sec_def sec_end_def sample_import_def)

lemma sample_build:
  "\<exists>plan b. convert_build new_converter sample_image = Inr (sample_out_image, plan, b)"
proof -
  obtain b1 where s: "build_synthetic_sections sample_image (init_builder new_converter sample_image) =
     (sample_image\<lparr>img_imports := [sample_import\<lparr>sym_index := 1\<rparr>]\<rparr>, b1)"
     "length (interp_data b1) = 28" "length (dynsym_data b1) = 3" "length (dynstr_data b1) = 46"
     "length (rela_data b1) = 3" "dt_entry_count b1 = 12" "hash_data b1 = []"
    using sample_synthetic by blast
  obtain plan where p: "compute_plan (sample_image\<lparr>img_imports := [sample_import\<lparr>sym_index := 1\<rparr>]\<rparr>)
      28 3 46 3 12 0 = (plan, sample_out_image)" "trampoline_va plan = 0x13fffe3d8"
    unfolding sample_out_image_def using sample_plan by blast
  obtain b4 where t: "build_trampoline sample_out_image plan
      (finalize_tls_call (trampoline_va plan + 24) b1) = Inr b4"
    using sample_trampoline p(2) by blast
  obtain b5 where "patch_rdata sample_out_image (build_dynamic plan b4) = Inr b5"
    using sample_patch by blast
  with s p t have "convert_build new_converter sample_image =
      Inr (sample_out_image, plan, build_phdrs sample_out_image plan b5)"
    by (simp add: convert_build_def new_converter_def)
  then show ?thesis by blast
qed

lemma convert_build_sizes:
  assumes "convert_build conv img = Inr (img', plan, b)" and "length (img_secs img) \<le> 96"
    and "distinct (iat_sec_idx img)"
    and "build_synthetic_sections img (init_builder conv img) = (img1, b1)"
    and "list_all (\<lambda>n. n < 2 ^ 32) [length (interp_data b1), length (dynsym_data b1),
      length (dynstr_data b1), length (rela_data b1), dt_entry_count b1, length (hash_data b1)]"
  shows "build_sizes_ok b"
proof -
  obtain img2 b2 where "build_synthetic_sections img (init_builder conv img) = (img2, b2)"
      "dynsym_data b = dynsym_data (finalize_tls_call (trampoline_va plan + 24) b2)"
      "rela_data b = rela_data (finalize_tls_call (trampoline_va plan + 24) b2)"
      "dynstr_data b = dynstr_data b2" "hash_data b = hash_data b2" "interp_data b = interp_data b2"
      "length (dynamic_data b) = dt_entry_count b2"
    by (rule convert_build_spec [OF assms(1-3)])
  with assms(4,5) show ?thesis
    by (simp add: build_sizes_ok_def plan_sizes_ok_def finalize_fields)
qed

lemma sample_wf: "length (img_secs sample_image) \<le> 96" "distinct (iat_sec_idx sample_image)"
  by (simp_all add: sample_image_fields sample_secs_def)

lemma sample_sizes:
  assumes "convert_build new_converter sample_image = Inr (img', plan, b)"
  shows "build_sizes_ok b"
proof -
  obtain b1 where "build_synthetic_sections sample_image (init_builder new_converter sample_image) =
     (sample_image\<lparr>img_imports := [sample_import\<lparr>sym_index := 1\<rparr>]\<rparr>, b1)"
     "length (interp_data b1) = 28" "length (dynsym_data b1) = 3" "length (dynstr_data b1) = 46"
     "length (rela_data b1) = 3" "dt_entry_count b1 = 12" "hash_data b1 = []"
    using sample_synthetic by blast
  with convert_build_sizes [OF assms sample_wf] show ?thesis by simp
qed

section \<open>The build of a shared object\<close>

lemma length_build_hash:
  assumes "length (dynsym_data b) < 2 ^ 32" and "dynsym_data b \<noteq> []"
  shows "length (hash_data (build_hash b)) = 8 + 8 * length (dynsym_data b)"
proof -
  let ?n = "length (dynsym_data b)"
  obtain bs ch where p: "hash_arrays (dynstr_data b) (dynsym_data b) = (bs, ch)" by fastforce
  have un: "unat (of_nat ?n :: u32) = ?n" using assms(1) by (intro unat_of_nat_small) simp
  then have nz: "(of_nat ?n :: u32) \<noteq> 0" using assms(2) by (metis length_0_conv unsigned_0)
  have "length bs = ?n" "length ch = ?n"
    using p nz un hash_fill_lengths [of "dynstr_data b" "dynsym_data b" "of_nat ?n" ?n
        "(replicate ?n 0, replicate ?n 0)"]
    by (auto simp: hash_arrays_def)
  then show ?thesis
    using p by (simp add: build_hash_def Let_def push32s_def w32.length_table)
qed

lemma sample_synthetic_so:
  "\<exists>b1. build_synthetic_sections sample_image (init_builder so_converter sample_image) =
     (sample_image\<lparr>img_imports := [sample_import\<lparr>sym_index := 1\<rparr>]\<rparr>, b1) \<and>
     length (interp_data b1) = 28 \<and> length (dynsym_data b1) = 4 \<and> length (dynstr_data b1) = 58 \<and>
     length (rela_data b1) = 3 \<and> dt_entry_count b1 = 13 \<and> length (hash_data b1) = 40"
proof -
  obtain b0 where b0: "build_symbols sample_image (build_strings (init_builder so_converter sample_image))
      = (sample_image\<lparr>img_imports := [sample_import\<lparr>sym_index := 1\<rparr>]\<rparr>, b0)" "so_mode b0"
      "length (interp_data b0) = 28" "length (dynsym_data b0) = 3" "length (dynstr_data b0) = 46"
      "length (rela_data b0) = 3" "inject_name b0 = []" "tls_words b0 = [0, 0, 0, 0, 0, 0]"
    by (simp add: build_symbols_def build_strings_def Let_def sample_image_fields sample_sym_name
        add_func_sym_def length_push_str init_builder_def new_builder_def new_converter_def
        so_converter_def tls_words_def sample_image_def sample_parsed_def)
  let ?b = "add_so_exports b0"
  have "interp_data ?b = interp_data b0" "rela_data ?b = rela_data b0" "inject_name ?b = []"
    using b0(7,8)
    by (simp_all add: add_so_exports_def add_tls_va_reloc_def build_hash_def Let_def case_prod_beta
        tls_words_def)
  moreover have "length (dynsym_data ?b) = 4" "length (dynstr_data ?b) = 58" "so_mode ?b"
    using b0 by (simp_all add: add_so_exports_fields length_push_str)
  moreover have "length (hash_data ?b) = 40"
  proof -
    have "dynsym_data ?b \<noteq> []" by (simp add: add_so_exports_fields)
    then show ?thesis
      using length_build_hash [of ?b] calculation(4) by (simp flip: add_so_exports_hash)
  qed
  ultimately show ?thesis
    using b0 by (simp add: build_synthetic_sections_def dt_entry_count_def)
qed

lemma sample_plan_so:
  "\<exists>plan. compute_plan (sample_image\<lparr>img_imports := ies\<rparr>) 28 4 58 3 13 40 =
     (plan, sample_image\<lparr>img_imports := ies,
       img_secs := [(sample_secs ! 0)\<lparr>elf_foff := 4096\<rparr>, (sample_secs ! 1)\<lparr>elf_foff := 8192\<rparr>]\<rparr>) \<and>
     trampoline_va plan = 0x13fffe438"
  by (simp add: compute_plan_def Let_def sample_image_fields sample_secs_def syn_size_needed_def
     sized8_def align_up_def kPageSize_def kTrampolineSize_def kPhdrsMaxCount_def kSynthMargin_def
     choose_synth_va_def hdr_file_end_def)

lemma sample_safe_entry: "find_safe_entry sample_out_image = 0x140001001"
  by (simp add: find_safe_entry_def sample_out_image_def sample_image_fields sample_secs_def
      sample_pe_def)

lemma sample_build_so:
  "\<exists>plan b. convert_build so_converter sample_image = Inr (sample_out_image, plan, b) \<and> build_sizes_ok b"
proof -
  obtain b1 where s: "build_synthetic_sections sample_image (init_builder so_converter sample_image) =
     (sample_image\<lparr>img_imports := [sample_import\<lparr>sym_index := 1\<rparr>]\<rparr>, b1)"
     "length (interp_data b1) = 28" "length (dynsym_data b1) = 4" "length (dynstr_data b1) = 58"
     "length (rela_data b1) = 3" "dt_entry_count b1 = 13" "length (hash_data b1) = 40"
    using sample_synthetic_so by blast
  obtain plan where p: "compute_plan (sample_image\<lparr>img_imports := [sample_import\<lparr>sym_index := 1\<rparr>]\<rparr>)
      28 4 58 3 13 40 = (plan, sample_out_image)" "trampoline_va plan = 0x13fffe438"
    unfolding sample_out_image_def using sample_plan_so by blast
  obtain b4 where t: "build_trampoline sample_out_image plan
      ((finalize_tls_call (trampoline_va plan + 24) b1)
         \<lparr>safe_entry_va := find_safe_entry sample_out_image\<rparr>) = Inr b4"
    using sample_trampoline p(2) by blast
  obtain b5 where "patch_rdata sample_out_image (build_dynamic plan b4) = Inr b5"
    using sample_patch by blast
  with s p t have c: "convert_build so_converter sample_image =
      Inr (sample_out_image, plan, build_phdrs sample_out_image plan b5)"
    by (simp add: convert_build_def new_converter_def so_converter_def sample_safe_entry)
  from convert_build_sizes [OF this sample_wf s(1)] s c show ?thesis by simp
qed

lemma sample_convert:
  "\<exists>file. convert sample_fs sample_host 100 Map.empty new_converter (str_bytes ''in.exe'') op = Inr file"
proof -
  obtain plan b where b: "convert_build new_converter sample_image = Inr (sample_out_image, plan, b)"
    using sample_build by blast
  show ?thesis
    by (rule convert_total [OF sample_convert_image b])
      (simp_all add: sample_host_def new_converter_def sample_out_image_def sample_image_fields
        sample_secs_def)
qed

lemma sample_imports_wf: "imports_wf sample_image"
  by (simp add: imports_wf_def sample_image_fields import_ok_def sample_import_def sample_offsets)

lemma sample_relocs_ok: "list_all (reloc_ok sample_image) (img_relocs sample_image)"
  using collect_relocs_ok [OF sample_collect_relocs] by simp

end
