(* ===== verification/Pe_Properties.thy ===== *)
theory Pe_Properties
  imports Sample_Pe
begin

text \<open>
  The properties of the PE front end (\<^verbatim>\<open>src/pe_image.hpp\<close>) as statements about whole passes,
  with the sample file as their concrete instance.
\<close>





text \<open>
  C13: what \<^verbatim>\<open>collect_imports\<close> records for a freshly parsed image.  Every import slot lies in a
  section, no recorded name holds a terminator, the IAT section list names each section that
  holds a slot exactly once, and the cache it leaves is transparent.
\<close>

theorem imports_recorded:
  assumes "parse fs path = Inr img" and "cache_ok fs cache"
    and "collect_imports fs cache img = Inr (cache', img')"
  shows "(\<forall>ie \<in> set (img_imports img'). section_of (img_secs img') (iat_rva ie) \<ge> 0
      \<and> 0 \<notin> set (dll_name ie) \<and> 0 \<notin> set (func_name ie))
    \<and> distinct (iat_sec_idx img')
    \<and> set (iat_sec_idx img') = (\<lambda>ie. section_of (img_secs img') (iat_rva ie)) ` set (img_imports img')
    \<and> cache_ok fs cache'"
  using collect_imports_wf [OF assms(3,2)] parse_wf [OF assms(1)]
  by (auto simp: imports_wf_def import_ok_def list.pred_set)

theorem imports_recorded_witness:
  "set (iat_sec_idx sample_image) = {1} \<and> section_of sample_secs (iat_rva sample_import) \<ge> 0"
  using imports_recorded [OF sample_parse cache_ok_empty sample_collect_imports]
  by (simp add: sample_image_fields)

text \<open>
  C14: what \<^verbatim>\<open>collect_relocs\<close> records for a freshly parsed image.  Each relocation maps to eight
  bytes inside the file, its addend is the value stored there, its address is within 4 GB of
  the image base, and it is no import slot.
\<close>

theorem relocs_recorded:
  assumes "parse fs path = Inr img" and "collect_imports fs cache img = Inr (cache', img1)"
    and "collect_relocs fuel img1 = Inr img2" and "re \<in> set (img_relocs img2)"
  shows "(\<exists>off. rva_to_offset (img_secs img2) (ucast (re_va re - image_base img2)) = Some off
      \<and> unat off + 8 \<le> length (img_buf img2) \<and> re_addend re = read64 (img_buf img2) (unat off))
    \<and> unat (re_va re - image_base img2) < 2 ^ 32
    \<and> (\<forall>ie \<in> set (img_imports img2). image_base img2 + ucast (iat_rva ie) \<noteq> re_va re)"
proof -
  have "img_relocs img1 = []" using collect_imports_frame [OF assms(2)] parse_wf [OF assms(1)] by simp
  then have "list_all (reloc_ok img2) (img_relocs img2)" using collect_relocs_ok [OF assms(3)] by simp
  with assms(4) have "reloc_ok img2 re" by (simp add: list.pred_set)
  then show ?thesis
    by (auto simp: reloc_ok_def reloc_site_def is_iat_def list_ex_iff split: option.splits)
qed

theorem relocs_recorded_witness:
  "unat (re_va sample_reloc - image_base sample_image) < 2 ^ 32"
  using relocs_recorded [OF sample_parse sample_collect_imports sample_collect_relocs [of 0],
      of sample_reloc]
  by (simp add: sample_image_fields)

section \<open>Instances of the relocation properties\<close>

lemma sample_visits:
  "visits (sample_image\<lparr>img_relocs := []\<rparr>) 476 464 off \<Longrightarrow> off = 464 \<or> off = 476"
proof (induction rule: visits.induct)
  case here
  then show ?case by simp
next
  case (next_block off blk)
  then have "off = 464" by auto
  with next_block(3) show ?case by (auto simp: sample_image_fields sample_reloc_reads)
qed

lemma sample_no_wrap: "blocks_no_wrap (sample_image\<lparr>img_relocs := []\<rparr>) 476 464"
  unfolding blocks_no_wrap_def
proof (intro allI impI)
  fix off blk
  assume v: "visits (sample_image\<lparr>img_relocs := []\<rparr>) 476 464 off"
    and b: "at_base_reloc (img_buf (sample_image\<lparr>img_relocs := []\<rparr>)) (unat off) = Some blk"
  have "at_base_reloc sample_pe 476 = None" by (simp add: at_base_reloc_def buf_at_def)
  with sample_visits [OF v] b show "unat off + unat (SizeOfBlock blk) < 2 ^ 32"
    by (auto simp: sample_image_fields sample_reloc_reads)
qed

theorem collect_relocs_returns_witness:
  "collect_relocs 481 (sample_image\<lparr>img_relocs := []\<rparr>) \<noteq> Inl RelocLoopDiverges"
  by (rule collect_relocs_returns)
    (auto simp: sample_image_fields sample_dds sample_offsets reloc_end_def sample_no_wrap)

theorem rebase_adds_delta_witness:
  "\<exists>img'. rebase 0x150000000 sample_image = Inr img' \<and> read64 (img_buf img') 456 = 0x150001000"
proof -
  have site: "site_of sample_image sample_reloc = 456"
    by (simp add: site_of_def reloc_site_def sample_image_fields sample_reloc_def sample_offsets)
  then show ?thesis
    using rebase_adds_delta [OF sample_relocs_ok, of "0x150000000"]
    by (auto simp: sample_image_fields sample_reloc_def)
qed

end
