(* ===== verification/Shim_Types.thy ===== *)
theory Shim_Types
  imports Prelude
begin

text \<open>
  The vocabulary of the WinAPI shim (shim_types.h, the first part of shim.cpp): the WinAPI
  constants, the kinds of handles, the last-error codes and their translation from
  \<^verbatim>\<open>errno\<close>.  Error numbers of the host are those of Linux on x86-64.
\<close>

section \<open>Constants\<close>

abbreviation ERROR_INVALID_FUNCTION :: u32 where "ERROR_INVALID_FUNCTION \<equiv> 1"
abbreviation ERROR_FILE_NOT_FOUND :: u32 where "ERROR_FILE_NOT_FOUND \<equiv> 2"
abbreviation ERROR_PATH_NOT_FOUND :: u32 where "ERROR_PATH_NOT_FOUND \<equiv> 3"
abbreviation ERROR_TOO_MANY_OPEN_FILES :: u32 where "ERROR_TOO_MANY_OPEN_FILES \<equiv> 4"
abbreviation ERROR_ACCESS_DENIED :: u32 where "ERROR_ACCESS_DENIED \<equiv> 5"
abbreviation ERROR_INVALID_HANDLE :: u32 where "ERROR_INVALID_HANDLE \<equiv> 6"
abbreviation ERROR_OUTOFMEMORY :: u32 where "ERROR_OUTOFMEMORY \<equiv> 8"
abbreviation ERROR_NO_MORE_FILES :: u32 where "ERROR_NO_MORE_FILES \<equiv> 18"
abbreviation ERROR_INVALID_PARAMETER :: u32 where "ERROR_INVALID_PARAMETER \<equiv> 87"
abbreviation ERROR_CALL_NOT_IMPLEMENTED :: u32 where "ERROR_CALL_NOT_IMPLEMENTED \<equiv> 120"
abbreviation ERROR_SEM_TIMEOUT :: u32 where "ERROR_SEM_TIMEOUT \<equiv> 121"
abbreviation ERROR_INSUFFICIENT_BUFFER :: u32 where "ERROR_INSUFFICIENT_BUFFER \<equiv> 122"
abbreviation ERROR_NO_UNICODE_TRANSLATION :: u32 where "ERROR_NO_UNICODE_TRANSLATION \<equiv> 1113"

abbreviation GENERIC_READ :: u32 where "GENERIC_READ \<equiv> 0x80000000"
abbreviation GENERIC_WRITE :: u32 where "GENERIC_WRITE \<equiv> 0x40000000"
abbreviation FILE_BEGIN :: u32 where "FILE_BEGIN \<equiv> 0"
abbreviation FILE_CURRENT :: u32 where "FILE_CURRENT \<equiv> 1"
abbreviation STD_INPUT_HANDLE :: u32 where "STD_INPUT_HANDLE \<equiv> - 10"
abbreviation STD_OUTPUT_HANDLE :: u32 where "STD_OUTPUT_HANDLE \<equiv> - 11"
abbreviation STD_ERROR_HANDLE :: u32 where "STD_ERROR_HANDLE \<equiv> - 12"

abbreviation INVALID_HANDLE_VALUE :: u64 where "INVALID_HANDLE_VALUE \<equiv> - 1"

text \<open>The answers of the wait functions.\<close>

abbreviation WAIT_OBJECT_0 :: u32 where "WAIT_OBJECT_0 \<equiv> 0"
abbreviation WAIT_TIMEOUT :: u32 where "WAIT_TIMEOUT \<equiv> 258"
abbreviation WAIT_FAILED :: u32 where "WAIT_FAILED \<equiv> 0xFFFFFFFF"
abbreviation STILL_ACTIVE :: u32 where "STILL_ACTIVE \<equiv> 0x103"
abbreviation INFINITE :: u32 where "INFINITE \<equiv> 0xFFFFFFFF"

section \<open>Errors of the host\<close>

datatype errno =
    ENOENT | ENOTDIR | EACCES | EPERM | EISDIR | EBADF | ENOMEM | EEXIST | EINVAL | EMFILE
  | ENOSPC | ENOTEMPTY | EXDEV | EAGAIN | EBUSY | ETIMEDOUT | EINTR | ENAMETOOLONG | ENOSYS
  | ENOTSUP | Other_errno nat

fun errno_to_win32 :: "errno \<Rightarrow> u32" where
  "errno_to_win32 ENOENT = ERROR_FILE_NOT_FOUND"
| "errno_to_win32 ENOTDIR = ERROR_PATH_NOT_FOUND"
| "errno_to_win32 EACCES = ERROR_ACCESS_DENIED"
| "errno_to_win32 EPERM = ERROR_ACCESS_DENIED"
| "errno_to_win32 EISDIR = ERROR_ACCESS_DENIED"
| "errno_to_win32 EBADF = ERROR_INVALID_HANDLE"
| "errno_to_win32 ENOMEM = ERROR_OUTOFMEMORY"
| "errno_to_win32 EEXIST = 80"
| "errno_to_win32 EINVAL = ERROR_INVALID_PARAMETER"
| "errno_to_win32 EMFILE = ERROR_TOO_MANY_OPEN_FILES"
| "errno_to_win32 ENOSPC = 112"
| "errno_to_win32 ENOTEMPTY = 145"
| "errno_to_win32 EXDEV = 17"
| "errno_to_win32 EAGAIN = 258"
| "errno_to_win32 EBUSY = 32"
| "errno_to_win32 ETIMEDOUT = 258"
| "errno_to_win32 EINTR = 995"
| "errno_to_win32 ENAMETOOLONG = 206"
| "errno_to_win32 ENOSYS = ERROR_CALL_NOT_IMPLEMENTED"
| "errno_to_win32 ENOTSUP = ERROR_CALL_NOT_IMPLEMENTED"
| "errno_to_win32 (Other_errno _) = ERROR_INVALID_PARAMETER"

section \<open>Kinds of handles\<close>

datatype HandleKind =
  H_FREE | H_FILE | H_FIND | H_MODULE | H_MUTEX | H_EVENT | H_SEMAPHORE | H_THREAD

text \<open>The code compares kinds by the order of the enumeration (\<^verbatim>\<open>kind >= H_MUTEX\<close>).\<close>

fun kind_rank :: "HandleKind \<Rightarrow> nat" where
  "kind_rank H_FREE = 0"
| "kind_rank H_FILE = 1"
| "kind_rank H_FIND = 2"
| "kind_rank H_MODULE = 3"
| "kind_rank H_MUTEX = 4"
| "kind_rank H_EVENT = 5"
| "kind_rank H_SEMAPHORE = 6"
| "kind_rank H_THREAD = 7"

lemma kind_rank_inject: "kind_rank k = kind_rank k' \<Longrightarrow> k = k'"
  by (cases k; cases k') simp_all

instantiation HandleKind :: linorder
begin

definition less_eq_HandleKind :: "HandleKind \<Rightarrow> HandleKind \<Rightarrow> bool" where
  "less_eq_HandleKind k k' \<longleftrightarrow> kind_rank k \<le> kind_rank k'"

definition less_HandleKind :: "HandleKind \<Rightarrow> HandleKind \<Rightarrow> bool" where
  "less_HandleKind k k' \<longleftrightarrow> kind_rank k < kind_rank k'"

instance
  by standard (auto simp: less_eq_HandleKind_def less_HandleKind_def dest: kind_rank_inject)

end

lemmas kind_order = less_eq_HandleKind_def less_HandleKind_def

lemma sync_kinds: "H_MUTEX \<le> k \<longleftrightarrow> k = H_MUTEX \<or> k = H_EVENT \<or> k = H_SEMAPHORE \<or> k = H_THREAD"
  by (cases k) (simp_all add: kind_order)

end
