(* ===== verification/Shim_Handles.thy ===== *)
theory Shim_Handles
  imports Shim_Types "HOL-Library.Monad_Syntax"
begin

text \<open>
  The handle table of the shim (shim.cpp, HANDLE table) and the objects handles refer to.

  The state holds the table \<^verbatim>\<open>g_handles\<close>, the allocated objects by address, and, for each
  thread, its last error and the object \<^verbatim>\<open>g_thread_obj_key\<close> of the thread (0 for none).  Dereferencing a pointer to an object that has been freed is undefined in
  C: every operation that reads an object answers \<open>None\<close> in that case, so that an operation
  defined in a state does not touch freed memory there.  Each definition is one critical
  section of \<^verbatim>\<open>g_handles_mu\<close> or a sequence of them; the calls the shim makes on the host with
  an effect outside it are appended to a trace.
\<close>

section \<open>Objects and slots\<close>

record FindCtx =
  names :: "bytes list"
  next_ix :: nat
  dirpath :: bytes

text \<open>A recursive mutex: the owner and how often it has locked it.\<close>

record MutexObj =
  mu_owner :: "(nat \<times> nat) option"

record EventObj =
  signaled :: bool
  manual_reset :: bool

record SemaphoreObj =
  sem_value :: nat

record ThreadObj =
  th_tid :: nat
  exit_code :: u64
  th_done :: bool
  suspend_sem :: nat
  suspend_count :: int

datatype body =
    FindB FindCtx | MutexB MutexObj | EventB EventObj | SemaphoreB SemaphoreObj | ThreadB ThreadObj

text \<open>\<^verbatim>\<open>refcount\<close> is the first field of every object and accessed without regard to the kind.\<close>

record obj =
  refcount :: int
  body :: body

fun body_kind :: "body \<Rightarrow> HandleKind" where
  "body_kind (FindB _) = H_FIND"
| "body_kind (MutexB _) = H_MUTEX"
| "body_kind (EventB _) = H_EVENT"
| "body_kind (SemaphoreB _) = H_SEMAPHORE"
| "body_kind (ThreadB _) = H_THREAD"

text \<open>A slot: its kind and the union of a file descriptor and the pointers.\<close>

record HandleSlot =
  kind :: HandleKind
  uval :: int

definition MAX_HANDLES :: nat where
  "MAX_HANDLES = 4096"

datatype host_call =
    Close int | Dlclose int | Dup2 int int | Join nat | Detach nat | Kill nat

record shim =
  g_handles :: "HandleSlot list"
  objs :: "int \<rightharpoonup> obj"
  last_error :: "nat \<Rightarrow> u32"
  g_thread_obj_key :: "nat \<Rightarrow> int"
  host_trace :: "host_call list"

definition SET_LAST_ERROR :: "nat \<Rightarrow> u32 \<Rightarrow> shim \<Rightarrow> shim" where
  "SET_LAST_ERROR t e s = s\<lparr>last_error := (last_error s)(t := e)\<rparr>"

definition set_errno_error :: "nat \<Rightarrow> errno \<Rightarrow> shim \<Rightarrow> shim" where
  "set_errno_error t e s = SET_LAST_ERROR t (errno_to_win32 e) s"

definition host_do :: "host_call \<Rightarrow> shim \<Rightarrow> shim" where
  "host_do c s = s\<lparr>host_trace := host_trace s @ [c]\<rparr>"

text \<open>\<^verbatim>\<open>handles_init\<close>: everything zero, then the three standard streams.\<close>

definition free_slot :: HandleSlot where
  "free_slot = \<lparr>kind = H_FREE, uval = 0\<rparr>"

definition file_slot :: "int \<Rightarrow> HandleSlot" where
  "file_slot fd = \<lparr>kind = H_FILE, uval = fd\<rparr>"

definition handles_init :: shim where
  "handles_init = \<lparr>g_handles = [file_slot 0, file_slot 1, file_slot 2] @ replicate (MAX_HANDLES - 3) free_slot,
     objs = Map.empty, last_error = (\<lambda>_. 0), g_thread_obj_key = (\<lambda>_. 0), host_trace = []\<rparr>"

section \<open>Handles\<close>

definition handle_to_idx :: "u64 \<Rightarrow> int" where
  "handle_to_idx h = (let v = sint h in if v < 1 \<or> v > int MAX_HANDLES then - 1 else v - 1)"

definition idx_to_handle :: "int \<Rightarrow> u64" where
  "idx_to_handle idx = of_int (idx + 1)"

abbreviation slot_at :: "shim \<Rightarrow> int \<Rightarrow> HandleSlot" where
  "slot_at s i \<equiv> g_handles s ! nat i"

definition set_slot :: "nat \<Rightarrow> HandleSlot \<Rightarrow> shim \<Rightarrow> shim" where
  "set_slot i sl s = s\<lparr>g_handles := (g_handles s)[i := sl]\<rparr>"

text \<open>The loop all allocators share: the first free slot, from slot 3 on.\<close>

fun first_free :: "nat \<Rightarrow> HandleSlot list \<Rightarrow> nat option" where
  "first_free i [] = None"
| "first_free i (sl # sls) = (if kind sl = H_FREE then Some i else first_free (Suc i) sls)"

definition find_free :: "shim \<Rightarrow> nat option" where
  "find_free s = first_free 3 (drop 3 (take MAX_HANDLES (g_handles s)))"

definition handle_alloc :: "HandleKind \<Rightarrow> int \<Rightarrow> nat \<Rightarrow> shim \<Rightarrow> u64 \<times> shim" where
  "handle_alloc k v t s = (case find_free s of
       Some i \<Rightarrow> (idx_to_handle (int i), set_slot i \<lparr>kind = k, uval = v\<rparr> s)
     | None \<Rightarrow> (INVALID_HANDLE_VALUE, SET_LAST_ERROR t ERROR_TOO_MANY_OPEN_FILES s))"

definition handle_alloc_file :: "int \<Rightarrow> nat \<Rightarrow> shim \<Rightarrow> u64 \<times> shim" where
  "handle_alloc_file fd = handle_alloc H_FILE fd"

definition handle_alloc_module :: "int \<Rightarrow> nat \<Rightarrow> shim \<Rightarrow> u64 \<times> shim" where
  "handle_alloc_module dlh = handle_alloc H_MODULE dlh"

definition handle_alloc_sync :: "HandleKind \<Rightarrow> int \<Rightarrow> nat \<Rightarrow> shim \<Rightarrow> u64 \<times> shim" where
  "handle_alloc_sync k p = handle_alloc k p"

definition set_obj :: "int \<Rightarrow> obj \<Rightarrow> shim \<Rightarrow> shim" where
  "set_obj p ob s = s\<lparr>objs := (objs s)(p \<mapsto> ob)\<rparr>"

definition free_obj :: "int \<Rightarrow> shim \<Rightarrow> shim" where
  "free_obj p s = s\<lparr>objs := (objs s)(p := None)\<rparr>"

definition handle_alloc_find :: "int \<Rightarrow> nat \<Rightarrow> shim \<Rightarrow> (u64 \<times> shim) option" where
  "handle_alloc_find ctx t s = do {
     ob \<leftarrow> objs s ctx;
     Some (handle_alloc H_FIND ctx t (set_obj ctx (ob\<lparr>refcount := 1\<rparr>) s)) }"

definition get_fd :: "u64 \<Rightarrow> nat \<Rightarrow> shim \<Rightarrow> int \<times> shim" where
  "get_fd h t s = (let idx = handle_to_idx h in
     if idx < 0 \<or> kind (slot_at s idx) \<noteq> H_FILE then (- 1, SET_LAST_ERROR t ERROR_INVALID_HANDLE s)
     else (uval (slot_at s idx), s))"

section \<open>References\<close>

text \<open>
  Taking a reference under the table's lock (\<^verbatim>\<open>find_ctx_retain\<close> in \<^verbatim>\<open>get_find_ctx\<close>, and the
  opening section of every function on synchronisation objects): the slot must be of a kind
  the caller accepts.
\<close>

definition retain :: "(HandleKind \<Rightarrow> bool) \<Rightarrow> u64 \<Rightarrow> nat \<Rightarrow> shim \<Rightarrow> ((HandleKind \<times> int) option \<times> shim) option" where
  "retain ok h t s = (let idx = handle_to_idx h in
     if idx < 0 \<or> \<not> ok (kind (slot_at s idx)) then Some (None, SET_LAST_ERROR t ERROR_INVALID_HANDLE s)
     else do {
       ob \<leftarrow> objs s (uval (slot_at s idx));
       Some (Some (kind (slot_at s idx), uval (slot_at s idx)),
         set_obj (uval (slot_at s idx)) (ob\<lparr>refcount := refcount ob + 1\<rparr>) s) })"

definition find_ctx_free :: "int \<Rightarrow> shim \<Rightarrow> shim option" where
  "find_ctx_free p s = do {
     ob \<leftarrow> objs s p;
     (case body ob of FindB _ \<Rightarrow> Some (free_obj p s) | _ \<Rightarrow> None) }"

text \<open>
  \<^verbatim>\<open>sync_obj_destroy\<close>: a finished thread is joined, a running one detached (a thread handle
  of the calling thread itself has \<^verbatim>\<open>tid\<close> 0 and neither is done).
\<close>

definition sync_obj_destroy :: "HandleKind \<Rightarrow> int \<Rightarrow> shim \<Rightarrow> shim option" where
  "sync_obj_destroy k p s = do {
     ob \<leftarrow> objs s p;
     (case (k, body ob) of
        (H_MUTEX, MutexB _) \<Rightarrow> Some (free_obj p s)
      | (H_EVENT, EventB _) \<Rightarrow> Some (free_obj p s)
      | (H_SEMAPHORE, SemaphoreB _) \<Rightarrow> Some (free_obj p s)
      | (H_THREAD, ThreadB th) \<Rightarrow>
          Some (free_obj p
            (if th_tid th \<noteq> 0 then host_do (if th_done th then Join (th_tid th) else Detach (th_tid th)) s
             else s))
      | _ \<Rightarrow> None) }"

definition destroy :: "HandleKind \<Rightarrow> int \<Rightarrow> shim \<Rightarrow> shim option" where
  "destroy k p s = (if k = H_FIND then find_ctx_free p s else sync_obj_destroy k p s)"

text \<open>
  Dropping a reference (\<^verbatim>\<open>release_find_ctx\<close> and the closing section of the functions on
  synchronisation objects): decrement under the lock, destroy what nobody refers to.
\<close>

definition release :: "HandleKind \<Rightarrow> int \<Rightarrow> shim \<Rightarrow> shim option" where
  "release k p s = do {
     ob \<leftarrow> objs s p;
     let s' = set_obj p (ob\<lparr>refcount := refcount ob - 1\<rparr>) s;
     (if refcount ob - 1 = 0 then destroy k p s' else Some s') }"

definition get_find_ctx :: "u64 \<Rightarrow> nat \<Rightarrow> shim \<Rightarrow> ((HandleKind \<times> int) option \<times> shim) option" where
  "get_find_ctx h t s = retain (\<lambda>k. k = H_FIND) h t s"

definition release_find_ctx :: "int \<Rightarrow> shim \<Rightarrow> shim option" where
  "release_find_ctx p s = release H_FIND p s"

section \<open>Closing\<close>

text \<open>
  \<^verbatim>\<open>kernel32_CloseHandle\<close> in two sections: the first empties the slot and hands its reference
  to the caller, the second drops it (or closes the file or library).
\<close>

definition close_take :: "u64 \<Rightarrow> shim \<Rightarrow> HandleSlot option \<times> shim" where
  "close_take h s = (let idx = handle_to_idx h in
     if idx < 0 \<or> idx \<le> 2 then (None, s)
     else let sl = slot_at s idx in
       (Some sl, if kind sl \<noteq> H_FREE then set_slot (nat idx) (sl\<lparr>kind := H_FREE\<rparr>) s else s))"

definition close_drop :: "HandleSlot \<Rightarrow> nat \<Rightarrow> shim \<Rightarrow> (bool \<times> shim) option" where
  "close_drop sl t s =
    (if kind sl = H_FILE then Some (True, host_do (Close (uval sl)) s)
     else if kind sl = H_FIND then
       (if uval sl \<noteq> 0 then do { s' \<leftarrow> release_find_ctx (uval sl) s; Some (True, s') } else Some (True, s))
     else if kind sl = H_MODULE then
       Some (True, if uval sl \<noteq> 0 then host_do (Dlclose (uval sl)) s else s)
     else if kind sl \<ge> H_MUTEX then do { s' \<leftarrow> release (kind sl) (uval sl) s; Some (True, s') }
     else Some (False, SET_LAST_ERROR t ERROR_INVALID_HANDLE s))"

definition CloseHandle :: "u64 \<Rightarrow> nat \<Rightarrow> shim \<Rightarrow> (bool \<times> shim) option" where
  "CloseHandle h t s = (case close_take h s of
       (None, s') \<Rightarrow> Some (True, s')
     | (Some sl, s') \<Rightarrow> close_drop sl t s')"

definition find_close_take :: "u64 \<Rightarrow> nat \<Rightarrow> shim \<Rightarrow> int option \<times> shim" where
  "find_close_take h t s = (let idx = handle_to_idx h in
     if idx < 0 \<or> kind (slot_at s idx) \<noteq> H_FIND then (None, SET_LAST_ERROR t ERROR_INVALID_HANDLE s)
     else (Some (uval (slot_at s idx)), set_slot (nat idx) free_slot s))"

definition FindClose :: "u64 \<Rightarrow> nat \<Rightarrow> shim \<Rightarrow> (bool \<times> shim) option" where
  "FindClose h t s = (case find_close_take h t s of
       (None, s') \<Rightarrow> Some (False, s')
     | (Some p, s') \<Rightarrow>
         if p \<noteq> 0 then do { s'' \<leftarrow> release_find_ctx p s'; Some (True, s'') } else Some (True, s'))"

end
