(* ===== verification/Shim_Refs.thy ===== *)
theory Shim_Refs
  imports Shim_Handles "HOL-Library.Multiset"
begin

text \<open>
  Reference counting of the objects behind handles.  A thread inside an operation holds
  references of its own (pins) besides those of the table.  The invariant \<open>rc_inv\<close> says that
  the count of every object is the number of slots and pins that refer to it, so that no slot
  and no pin ever refers to a freed object; each critical section keeps it.  The locale
  \<open>ref_store\<close> states what the functions on objects rely on, the relation \<open>shim_step\<close> the
  interleavings of sections of several threads.
\<close>

type_synonym pins = "(HandleKind \<times> int) multiset"

definition counted :: "HandleKind \<Rightarrow> bool" where
  "counted k \<longleftrightarrow> k = H_FIND \<or> H_MUTEX \<le> k"

definition hit :: "int \<Rightarrow> HandleSlot \<Rightarrow> nat" where
  "hit a sl = (if counted (kind sl) \<and> uval sl = a then 1 else 0)"

definition refs :: "HandleSlot list \<Rightarrow> int \<Rightarrow> nat" where
  "refs hs a = sum_list (map (hit a) hs)"

definition pin_refs :: "pins \<Rightarrow> int \<Rightarrow> nat" where
  "pin_refs P a = size (filter_mset (\<lambda>q. snd q = a) P)"

definition rc_inv :: "shim \<Rightarrow> pins \<Rightarrow> bool" where
  "rc_inv s P \<longleftrightarrow> length (g_handles s) = MAX_HANDLES \<and> objs s 0 = None
    \<and> (\<forall>a ob. objs s a = Some ob \<longrightarrow>
          refcount ob = int (refs (g_handles s) a + pin_refs P a) \<and> 0 < refs (g_handles s) a + pin_refs P a)
    \<and> (\<forall>sl\<in>set (g_handles s). counted (kind sl) \<longrightarrow>
          (\<exists>ob. objs s (uval sl) = Some ob \<and> body_kind (body ob) = kind sl))
    \<and> (\<forall>(k, a)\<in>#P. counted k \<and> (\<exists>ob. objs s a = Some ob \<and> body_kind (body ob) = k))"

section \<open>Counting\<close>

lemma counted_simps [simp]:
  "\<not> counted H_FREE" "\<not> counted H_FILE" "\<not> counted H_MODULE" "counted H_FIND"
  "counted H_MUTEX" "counted H_EVENT" "counted H_SEMAPHORE" "counted H_THREAD"
  by (simp_all add: counted_def sync_kinds)

lemma counted_body_kind [simp]: "counted (body_kind b)"
  by (cases b) simp_all

lemma refs_update:
  "i < length hs \<Longrightarrow> refs (hs[i := sl]) a + hit a (hs ! i) = refs hs a + hit a sl"
  unfolding refs_def
proof (induction hs arbitrary: i)
  case (Cons x hs)
  then show ?case by (cases i) auto
qed simp

lemma refs_free: "i < length hs \<Longrightarrow> refs hs a = refs (hs[i := sl]) a + hit a (hs ! i) - hit a sl"
  using refs_update [of i hs sl a] by simp

lemma pin_refs_add [simp]: "pin_refs (add_mset (k, p) P) a = (if a = p then 1 else 0) + pin_refs P a"
  by (simp add: pin_refs_def)

lemma pin_refs_empty [simp]: "pin_refs {#} a = 0"
  by (simp add: pin_refs_def)

lemma refs_pos: "sl \<in> set hs \<Longrightarrow> counted (kind sl) \<Longrightarrow> 0 < refs hs (uval sl)"
  by (induction hs) (auto simp: refs_def hit_def)

lemma set_slot_simps [simp]:
  "g_handles (set_slot i sl s) = (g_handles s)[i := sl]" "objs (set_slot i sl s) = objs s"
  by (simp_all add: set_slot_def)

lemma set_obj_simps [simp]:
  "g_handles (set_obj p ob s) = g_handles s" "objs (set_obj p ob s) = (objs s)(p \<mapsto> ob)"
  "g_handles (free_obj p s) = g_handles s" "objs (free_obj p s) = (objs s)(p := None)"
  by (simp_all add: set_obj_def free_obj_def)

lemma host_simps [simp]:
  "g_handles (SET_LAST_ERROR t e s) = g_handles s" "objs (SET_LAST_ERROR t e s) = objs s"
  "g_handles (host_do c s) = g_handles s" "objs (host_do c s) = objs s"
  by (simp_all add: SET_LAST_ERROR_def host_do_def)

lemma rc_inv_host [simp]:
  "rc_inv (SET_LAST_ERROR t e s) P = rc_inv s P" "rc_inv (host_do c s) P = rc_inv s P"
  by (simp_all add: rc_inv_def)

lemma handle_to_idx_range: "0 \<le> handle_to_idx h \<Longrightarrow> nat (handle_to_idx h) < MAX_HANDLES"
  by (auto simp: handle_to_idx_def Let_def split: if_splits)

lemma rc_inv_count:
  assumes "rc_inv s P" and "objs s a = Some ob"
  shows "refcount ob = int (refs (g_handles s) a + pin_refs P a)"
    and "0 < refs (g_handles s) a + pin_refs P a"
  using assms by (auto simp: rc_inv_def)

lemma rc_inv_slot:
  assumes "rc_inv s P" and "0 \<le> handle_to_idx h" and "counted (kind (slot_at s (handle_to_idx h)))"
  obtains ob where "objs s (uval (slot_at s (handle_to_idx h))) = Some ob"
    "body_kind (body ob) = kind (slot_at s (handle_to_idx h))"
proof -
  have "slot_at s (handle_to_idx h) \<in> set (g_handles s)"
    using assms(1) handle_to_idx_range [OF assms(2)] by (intro nth_mem) (simp add: rc_inv_def)
  with assms show ?thesis by (auto simp: rc_inv_def intro: that)
qed

section \<open>Each section keeps the invariant\<close>

lemma rc_inv_pin:
  assumes "rc_inv s P" and "objs s a = Some ob" and "counted (body_kind (body ob))"
  shows "rc_inv (set_obj a (ob\<lparr>refcount := refcount ob + 1\<rparr>) s) (add_mset (body_kind (body ob), a) P)"
  using assms by (auto simp: rc_inv_def)

lemma retain_ok:
  assumes "rc_inv s P" and "\<And>k. ok k \<Longrightarrow> counted k"
  shows "\<exists>q s'. retain ok h t s = Some (q, s')
    \<and> rc_inv s' (case q of None \<Rightarrow> P | Some q \<Rightarrow> add_mset q P)
    \<and> (\<forall>k p. q = Some (k, p) \<longrightarrow> ok k)"
proof (cases "handle_to_idx h < 0 \<or> \<not> ok (kind (slot_at s (handle_to_idx h)))")
  case True
  then show ?thesis using assms(1) by (auto simp: retain_def Let_def)
next
  case False
  then have k: "0 \<le> handle_to_idx h" "ok (kind (slot_at s (handle_to_idx h)))" by auto
  obtain ob where "objs s (uval (slot_at s (handle_to_idx h))) = Some ob"
      "body_kind (body ob) = kind (slot_at s (handle_to_idx h))"
    by (rule rc_inv_slot [OF assms(1) k(1) assms(2) [OF k(2)]])
  moreover from this have "rc_inv (set_obj (uval (slot_at s (handle_to_idx h))) (ob\<lparr>refcount := refcount ob + 1\<rparr>) s)
      (add_mset (kind (slot_at s (handle_to_idx h)), uval (slot_at s (handle_to_idx h))) P)"
    using rc_inv_pin [OF assms(1), of _ ob] assms(2) [OF k(2)] by simp
  ultimately show ?thesis using k by (simp add: retain_def Let_def)
qed

lemma destroy_ok:
  assumes "objs s p = Some ob" and "body_kind (body ob) = k"
  shows "\<exists>s'. destroy k p s = Some s' \<and> objs s' = (objs s)(p := None) \<and> g_handles s' = g_handles s"
  using assms
  by (cases "body ob") (auto simp: destroy_def find_ctx_free_def sync_obj_destroy_def)

lemma release_ok:
  assumes "rc_inv s (add_mset (k, p) P)"
  shows "\<exists>s'. release k p s = Some s' \<and> rc_inv s' P"
proof -
  obtain ob where ob: "objs s p = Some ob" "body_kind (body ob) = k"
    using assms by (auto simp: rc_inv_def)
  have rc: "refcount ob = int (refs (g_handles s) p + Suc (pin_refs P p))"
    using assms ob(1) by (auto simp: rc_inv_def)
  let ?ob = "ob\<lparr>refcount := refcount ob - 1\<rparr>"
  show ?thesis
  proof (cases "refcount ob - 1 = 0")
    case True
    then have none: "refs (g_handles s) p = 0" "pin_refs P p = 0" using rc by auto
    obtain s' where s': "destroy k p (set_obj p ?ob s) = Some s'" "objs s' = (objs s)(p := None)"
        "g_handles s' = g_handles s"
      using destroy_ok [of "set_obj p ?ob s" p ?ob k] ob by auto
    have "uval sl \<noteq> p" if "sl \<in> set (g_handles s)" "counted (kind sl)" for sl
      using refs_pos [OF that] none by auto
    moreover have "a \<noteq> p" if "(k', a) \<in># P" for k' a
    proof
      assume "a = p"
      with that none show False by (auto simp: pin_refs_def)
    qed
    ultimately have "rc_inv s' P" using assms s' by (fastforce simp: rc_inv_def)
    with s' ob True show ?thesis by (auto simp: release_def)
  next
    case False
    have "refcount oba = int (refs (g_handles s) a + pin_refs P a)" "0 < refs (g_handles s) a + pin_refs P a"
      if "objs s a = Some oba" "a \<noteq> p" for a oba
      using rc_inv_count [OF assms that(1)] that(2) by simp_all
    then have "rc_inv (set_obj p ?ob s) P"
      using assms ob False rc by (auto simp: rc_inv_def)
    with False ob show ?thesis by (auto simp: release_def)
  qed
qed

lemma first_free_spec:
  "first_free i hs = Some j \<Longrightarrow> i \<le> j \<and> j < i + length hs \<and> kind (hs ! (j - i)) = H_FREE
     \<and> (\<forall>m<j - i. kind (hs ! m) \<noteq> H_FREE)"
proof (induction hs arbitrary: i)
  case (Cons sl hs)
  show ?case
  proof (cases "kind sl = H_FREE")
    case True
    with Cons.prems show ?thesis by simp
  next
    case False
    with Cons.prems have ff: "first_free (Suc i) hs = Some j" by simp
    note h = Cons.IH [OF ff]
    then have "j - i = Suc (j - Suc i)" by linarith
    with h False show ?thesis by (auto simp: less_Suc_eq_0_disj)
  qed
qed simp

lemma find_free_spec:
  assumes "find_free s = Some i" and "length (g_handles s) = MAX_HANDLES"
  shows "3 \<le> i" "i < MAX_HANDLES" "kind (g_handles s ! i) = H_FREE"
    "\<And>j. 3 \<le> j \<Longrightarrow> j < i \<Longrightarrow> kind (g_handles s ! j) \<noteq> H_FREE"
proof -
  note h = first_free_spec [OF assms(1) [unfolded find_free_def]]
  from h show i: "3 \<le> i" "i < MAX_HANDLES" using assms(2) by (auto simp: MAX_HANDLES_def)
  from h i show "kind (g_handles s ! i) = H_FREE" using assms(2) by simp
  fix j assume j: "3 \<le> j" "j < i"
  with h have "kind (drop 3 (take MAX_HANDLES (g_handles s)) ! (j - 3)) \<noteq> H_FREE" by auto
  with j i assms(2) show "kind (g_handles s ! j) \<noteq> H_FREE" by simp
qed

lemma rc_inv_set_slot:
  assumes "rc_inv s P" and "i < MAX_HANDLES" and "\<not> counted (kind (g_handles s ! i))"
    and "\<not> counted (kind sl)"
  shows "rc_inv (set_slot i sl s) P"
proof -
  have r: "refs ((g_handles s)[i := sl]) a = refs (g_handles s) a" for a
    using refs_update [of i "g_handles s" sl a] assms by (simp add: rc_inv_def hit_def)
  have "\<exists>ob. objs s (uval x) = Some ob \<and> body_kind (body ob) = kind x"
    if "x \<in> set ((g_handles s)[i := sl])" "counted (kind x)" for x
    using that set_update_subset_insert [of "g_handles s" i sl] assms by (auto simp: rc_inv_def)
  then show ?thesis using assms by (auto simp: rc_inv_def r)
qed

lemma rc_inv_store:
  assumes "rc_inv s (add_mset (kind sl, uval sl) P)" and "i < MAX_HANDLES"
    and "\<not> counted (kind (g_handles s ! i))"
  shows "rc_inv (set_slot i sl s) P"
proof -
  obtain ob where ob: "counted (kind sl)" "objs s (uval sl) = Some ob" "body_kind (body ob) = kind sl"
    using assms(1) by (auto simp: rc_inv_def)
  have r: "refs ((g_handles s)[i := sl]) a = refs (g_handles s) a + (if a = uval sl then 1 else 0)" for a
    using refs_update [of i "g_handles s" sl a] assms ob by (auto simp: rc_inv_def hit_def)
  have "\<exists>ob. objs s (uval x) = Some ob \<and> body_kind (body ob) = kind x"
    if "x \<in> set ((g_handles s)[i := sl])" "counted (kind x)" for x
    using that set_update_subset_insert [of "g_handles s" i sl] assms ob by (auto simp: rc_inv_def)
  then show ?thesis using assms by (auto simp: rc_inv_def r)
qed

lemma rc_inv_take:
  assumes "rc_inv s P" and "i < MAX_HANDLES" and "counted (kind (g_handles s ! i))"
    and "\<not> counted (kind sl)"
  shows "rc_inv (set_slot i sl s) (add_mset (kind (g_handles s ! i), uval (g_handles s ! i)) P)"
proof -
  let ?x = "g_handles s ! i"
  have mem: "?x \<in> set (g_handles s)" using assms by (intro nth_mem) (simp add: rc_inv_def)
  have r: "refs (g_handles s) a = refs ((g_handles s)[i := sl]) a + (if a = uval ?x then 1 else 0)" for a
    using refs_update [of i "g_handles s" sl a] assms by (auto simp: rc_inv_def hit_def)
  have "\<exists>ob. objs s (uval x) = Some ob \<and> body_kind (body ob) = kind x"
    if "x \<in> set ((g_handles s)[i := sl])" "counted (kind x)" for x
    using that set_update_subset_insert [of "g_handles s" i sl] assms by (auto simp: rc_inv_def)
  then show ?thesis using assms mem
    by (auto simp: rc_inv_def r split: if_splits)
qed


lemma idx_handle_valid:
  assumes "i < MAX_HANDLES"
  shows "handle_to_idx (idx_to_handle (int i)) = int i" "idx_to_handle (int i) \<noteq> INVALID_HANDLE_VALUE"
proof -
  have "sint (of_int (int i + 1) :: u64) = int i + 1"
    using assms by (simp only: signed_of_int) (simp add: signed_take_bit_int_eq_self MAX_HANDLES_def)
  then show "handle_to_idx (idx_to_handle (int i)) = int i"
    using assms by (simp add: handle_to_idx_def idx_to_handle_def)
  moreover have "handle_to_idx INVALID_HANDLE_VALUE = - 1"
    by (simp add: handle_to_idx_def MAX_HANDLES_def)
  ultimately show "idx_to_handle (int i) \<noteq> INVALID_HANDLE_VALUE" by auto
qed

lemma handle_alloc_cases:
  assumes "handle_alloc k v t s = (h, s')" and "length (g_handles s) = MAX_HANDLES"
  obtains (full) "h = INVALID_HANDLE_VALUE" "s' = SET_LAST_ERROR t ERROR_TOO_MANY_OPEN_FILES s"
      "find_free s = None"
  | (slot) i where "3 \<le> i" "i < MAX_HANDLES" "kind (g_handles s ! i) = H_FREE"
      "h = idx_to_handle (int i)" "h \<noteq> INVALID_HANDLE_VALUE"
      "s' = set_slot i \<lparr>kind = k, uval = v\<rparr> s"
proof (cases "find_free s")
  case None
  then show ?thesis using assms full by (auto simp: handle_alloc_def)
next
  case (Some i)
  then show ?thesis
    using assms find_free_spec [OF Some assms(2)] idx_handle_valid [of i] slot by (auto simp: handle_alloc_def)
qed

lemma handle_alloc_counted:
  assumes "rc_inv s (add_mset (k, p) P)" and "handle_alloc k p t s = (h, s')"
  shows "if h = INVALID_HANDLE_VALUE then rc_inv s' (add_mset (k, p) P) else rc_inv s' P"
proof -
  have "length (g_handles s) = MAX_HANDLES" using assms(1) by (simp add: rc_inv_def)
  with assms(2) show ?thesis
  proof (cases rule: handle_alloc_cases)
    case full
    with assms(1) show ?thesis by simp
  next
    case (slot i)
    with rc_inv_store [of s "\<lparr>kind = k, uval = p\<rparr>" P i] assms(1) show ?thesis by simp
  qed
qed

lemma handle_alloc_plain:
  assumes "rc_inv s P" and "\<not> counted k" and "handle_alloc k v t s = (h, s')"
  shows "rc_inv s' P"
proof -
  have "length (g_handles s) = MAX_HANDLES" using assms(1) by (simp add: rc_inv_def)
  with assms(3) show ?thesis
  proof (cases rule: handle_alloc_cases)
    case full
    with assms(1) show ?thesis by simp
  next
    case (slot i)
    with rc_inv_set_slot [OF assms(1), of i] assms(2) show ?thesis by simp
  qed
qed

text \<open>A freshly allocated object, held by its creator.\<close>

lemma rc_inv_new:
  assumes "rc_inv s P" and "objs s p = None" and "p \<noteq> 0"
  shows "rc_inv (set_obj p \<lparr>refcount = 1, body = b\<rparr> s) (add_mset (body_kind b, p) P)"
proof -
  have "refs (g_handles s) p = 0"
  proof (rule ccontr)
    assume "refs (g_handles s) p \<noteq> 0"
    then obtain sl where "sl \<in> set (g_handles s)" "hit p sl \<noteq> 0"
      by (auto simp: refs_def)
    then have "sl \<in> set (g_handles s)" "counted (kind sl)" "uval sl = p"
      by (auto simp: hit_def split: if_splits)
    with assms show False by (auto simp: rc_inv_def)
  qed
  moreover have "pin_refs P p = 0"
    using assms by (auto simp: pin_refs_def rc_inv_def)
  moreover have "uval sl \<noteq> p" if "sl \<in> set (g_handles s)" "counted (kind sl)" for sl
    using assms that by (auto simp: rc_inv_def)
  moreover have "a \<noteq> p" if "(k, a) \<in># P" for k a
    using assms that by (auto simp: rc_inv_def)
  ultimately show ?thesis using assms by (fastforce simp: rc_inv_def)
qed

text \<open>The creator frees an object for which no slot was left.\<close>

lemma rc_inv_unmade:
  assumes "rc_inv s (add_mset (k, p) P)" and "refs (g_handles s) p = 0" and "pin_refs P p = 0"
  shows "rc_inv (free_obj p s) P"
proof -
  have "uval sl \<noteq> p" if "sl \<in> set (g_handles s)" "counted (kind sl)" for sl
    using refs_pos [OF that] assms(2) by auto
  moreover have "a \<noteq> p" if "(k', a) \<in># P" for k' a
    using that assms(3) by (auto simp: pin_refs_def)
  ultimately show ?thesis using assms(1) by (fastforce simp: rc_inv_def)
qed

section \<open>Working on a referenced object\<close>

text \<open>What a function does to an object between taking and dropping its reference.\<close>

definition with_body :: "int \<Rightarrow> (body \<Rightarrow> ('r \<times> body) option) \<Rightarrow> shim \<Rightarrow> ('r \<times> shim) option" where
  "with_body p f s = do {
     ob \<leftarrow> objs s p;
     (r, b) \<leftarrow> f (body ob);
     Some (r, set_obj p (ob\<lparr>body := b\<rparr>) s) }"

definition with_handle ::
    "(HandleKind \<Rightarrow> bool) \<Rightarrow> 'r \<Rightarrow> (body \<Rightarrow> ('r \<times> body) option) \<Rightarrow> u64 \<Rightarrow> nat \<Rightarrow> shim \<Rightarrow> ('r \<times> shim) option" where
  "with_handle ok bad f h t s = do {
     (q, s1) \<leftarrow> retain ok h t s;
     (case q of
        None \<Rightarrow> Some (bad, s1)
      | Some (k, p) \<Rightarrow> do {
          (r, s2) \<leftarrow> with_body p f s1;
          s3 \<leftarrow> release k p s2;
          Some (r, s3) }) }"

lemma rc_inv_body:
  assumes "rc_inv s P" and "objs s p = Some ob" and "body_kind b = body_kind (body ob)"
  shows "rc_inv (set_obj p (ob\<lparr>body := b\<rparr>) s) P"
  using assms by (fastforce simp: rc_inv_def)

lemma with_body_ok:
  assumes "rc_inv s P" and "(k, p) \<in># P"
    and "\<And>b. body_kind b = k \<Longrightarrow> \<exists>r b'. f b = Some (r, b') \<and> body_kind b' = k"
  shows "\<exists>r s'. with_body p f s = Some (r, s') \<and> rc_inv s' P"
proof -
  obtain ob where ob: "objs s p = Some ob" "body_kind (body ob) = k"
    using assms(1,2) by (auto simp: rc_inv_def)
  obtain r b where b: "f (body ob) = Some (r, b)" "body_kind b = k" using assms(3) ob(2) by blast
  then have "rc_inv (set_obj p (ob\<lparr>body := b\<rparr>) s) P"
    by (intro rc_inv_body [OF assms(1) ob(1)]) (simp add: ob)
  with ob b show ?thesis by (simp add: with_body_def)
qed

text \<open>
  What the functions on objects rely on: taking a reference answers with one that holds the
  invariant for an additional pin of an accepted kind, dropping it gives the invariant back.
\<close>

locale ref_store =
  fixes inv :: "'s \<Rightarrow> ('k \<times> 'p) multiset \<Rightarrow> bool"
    and cnt :: "'k \<Rightarrow> bool"
    and ret :: "('k \<Rightarrow> bool) \<Rightarrow> 'h \<Rightarrow> 's \<Rightarrow> (('k \<times> 'p) option \<times> 's) option"
    and rel :: "'k \<Rightarrow> 'p \<Rightarrow> 's \<Rightarrow> 's option"
  assumes ret_law: "inv s P \<Longrightarrow> (\<And>k. ok k \<Longrightarrow> cnt k) \<Longrightarrow>
      \<exists>q s'. ret ok h s = Some (q, s') \<and> inv s' (case q of None \<Rightarrow> P | Some q \<Rightarrow> add_mset q P)
        \<and> (\<forall>k p. q = Some (k, p) \<longrightarrow> ok k)"
    and rel_law: "inv s (add_mset (k, p) P) \<Longrightarrow> \<exists>s'. rel k p s = Some s' \<and> inv s' P"
begin

text \<open>The bracket of the functions: whatever is done in between keeps the invariant.\<close>

lemma bracket:
  assumes "inv s P" and "\<And>k. ok k \<Longrightarrow> cnt k"
    and "\<And>k p s. ok k \<Longrightarrow> inv s (add_mset (k, p) P) \<Longrightarrow>
          \<exists>r s'. use k p s = Some (r, s') \<and> inv s' (add_mset (k, p) P)"
  shows "\<exists>r s'. (do {
     (q, s1) \<leftarrow> ret ok h s;
     (case q of
        None \<Rightarrow> Some (bad, s1)
      | Some (k, p) \<Rightarrow> do {
          (r, s2) \<leftarrow> use k p s1;
          s3 \<leftarrow> rel k p s2;
          Some (r, s3) }) }) = Some (r, s') \<and> inv s' P"
proof -
  obtain q s1 where q: "ret ok h s = Some (q, s1)"
      "inv s1 (case q of None \<Rightarrow> P | Some q \<Rightarrow> add_mset q P)" "\<forall>k p. q = Some (k, p) \<longrightarrow> ok k"
    using ret_law [OF assms(1,2)] by blast
  show ?thesis
  proof (cases q)
    case None
    with q show ?thesis by simp
  next
    case (Some kp)
    obtain k p where kp: "kp = (k, p)" by (cases kp)
    obtain r s2 where s2: "use k p s1 = Some (r, s2)" "inv s2 (add_mset (k, p) P)"
      using assms(3) [of k s1 p] q Some kp by auto
    obtain s3 where "rel k p s2 = Some s3" "inv s3 P" using rel_law [OF s2(2)] by blast
    with q Some kp s2 show ?thesis by simp
  qed
qed

end

interpretation store: ref_store rc_inv counted "\<lambda>ok (h, t). retain ok h t" release
proof
  fix s :: shim and P ok and ht :: "u64 \<times> nat"
  assume "rc_inv s P" and "\<And>k. ok k \<Longrightarrow> counted k"
  then show "\<exists>q s'. (case ht of (h, t) \<Rightarrow> retain ok h t) s = Some (q, s')
      \<and> rc_inv s' (case q of None \<Rightarrow> P | Some q \<Rightarrow> add_mset q P) \<and> (\<forall>k p. q = Some (k, p) \<longrightarrow> ok k)"
    using retain_ok [of s P ok "fst ht" "snd ht"] by (cases ht) auto
next
  fix s :: shim and k p P
  assume "rc_inv s (add_mset (k, p) P)"
  then show "\<exists>s'. release k p s = Some s' \<and> rc_inv s' P" by (rule release_ok)
qed

lemma with_handle_ok:
  assumes "rc_inv s P" and "\<And>k. ok k \<Longrightarrow> counted k"
    and "\<And>b. ok (body_kind b) \<Longrightarrow> \<exists>r b'. f b = Some (r, b') \<and> body_kind b' = body_kind b"
  shows "\<exists>r s'. with_handle ok bad f h t s = Some (r, s') \<and> rc_inv s' P"
proof -
  have "\<exists>r s'. with_body p f s = Some (r, s') \<and> rc_inv s' (add_mset (k, p) P)"
    if "ok k" "rc_inv s (add_mset (k, p) P)" for k p s
    using that assms(3) by (intro with_body_ok) auto
  from store.bracket [of s P ok "\<lambda>k p. with_body p f" "(h, t)" bad, OF assms(1,2) this]
  show ?thesis by (simp add: with_handle_def)
qed

section \<open>Closing\<close>

lemma close_take_ok:
  assumes "rc_inv s P" and "close_take h s = (r, s')"
  shows "rc_inv s' (case r of Some sl \<Rightarrow> if counted (kind sl) then add_mset (kind sl, uval sl) P else P | None \<Rightarrow> P)"
proof (cases "handle_to_idx h < 0 \<or> handle_to_idx h \<le> 2")
  case True
  with assms show ?thesis by (auto simp: close_take_def Let_def)
next
  case False
  then have i: "nat (handle_to_idx h) < MAX_HANDLES" by (intro handle_to_idx_range) simp
  then show ?thesis
    using assms False rc_inv_take [OF assms(1) i] rc_inv_set_slot [OF assms(1) i]
    by (auto simp: close_take_def Let_def)
qed

lemma close_drop_ok:
  assumes "rc_inv s (if counted (kind sl) then add_mset (kind sl, uval sl) P else P)"
  shows "\<exists>r s'. close_drop sl t s = Some (r, s') \<and> rc_inv s' P"
proof (cases "counted (kind sl)")
  case True
  with assms have inv: "rc_inv s (add_mset (kind sl, uval sl) P)" by simp
  have "uval sl \<noteq> 0" using inv by (auto simp: rc_inv_def)
  with True release_ok [OF inv] show ?thesis
    by (auto simp: close_drop_def release_find_ctx_def counted_def sync_kinds)
next
  case False
  with assms show ?thesis by (auto simp: close_drop_def counted_def)
qed

lemma CloseHandle_ok:
  assumes "rc_inv s P"
  shows "\<exists>r s'. CloseHandle h t s = Some (r, s') \<and> rc_inv s' P"
proof -
  obtain r s' where c: "close_take h s = (r, s')" by (cases "close_take h s")
  with close_take_ok [OF assms c] close_drop_ok [of s' _ P] assms show ?thesis
    by (cases r) (auto simp: CloseHandle_def)
qed

lemma FindClose_ok:
  assumes "rc_inv s P"
  shows "\<exists>r s'. FindClose h t s = Some (r, s') \<and> rc_inv s' P"
proof (cases "handle_to_idx h < 0 \<or> kind (slot_at s (handle_to_idx h)) \<noteq> H_FIND")
  case True
  with assms show ?thesis by (auto simp: FindClose_def find_close_take_def Let_def)
next
  case False
  let ?p = "uval (slot_at s (handle_to_idx h))" and ?i = "nat (handle_to_idx h)"
  have i: "?i < MAX_HANDLES" using False by (intro handle_to_idx_range) simp
  have inv: "rc_inv (set_slot ?i free_slot s) (add_mset (H_FIND, ?p) P)"
    using rc_inv_take [OF assms i, of free_slot] False by (simp add: free_slot_def)
  then have "?p \<noteq> 0" by (auto simp: rc_inv_def)
  with False release_ok [OF inv] show ?thesis
    by (auto simp: FindClose_def find_close_take_def release_find_ctx_def Let_def)
qed

end
