(* ===== verification/Shim_Sync.thy ===== *)
theory Shim_Sync
  imports Shim_Refs
begin

text \<open>
  Synchronisation objects and threads (shim_kernel32_sync.hpp, shim_kernel32_thread.hpp):
  mutexes, events, semaphores, threads with their suspension count, waiting on one object and
  duplicating handles.  A thread is a number; what \<^verbatim>\<open>malloc\<close>, \<^verbatim>\<open>dup\<close> and \<^verbatim>\<open>pthread_create\<close> answer is an argument.
\<close>

section \<open>Objects under their own lock\<close>

text \<open>A recursive pthread mutex: only its owner can lock it again or unlock it.\<close>

definition mutex_lock :: "nat \<Rightarrow> MutexObj \<Rightarrow> MutexObj option" where
  "mutex_lock t m = (case mu_owner m of
       None \<Rightarrow> Some (m\<lparr>mu_owner := Some (t, 1)\<rparr>)
     | Some (t', n) \<Rightarrow> if t' = t then Some (m\<lparr>mu_owner := Some (t, n + 1)\<rparr>) else None)"

definition mutex_unlock :: "nat \<Rightarrow> MutexObj \<Rightarrow> MutexObj" where
  "mutex_unlock t m = (case mu_owner m of
       None \<Rightarrow> m
     | Some (t', n) \<Rightarrow>
         if t' \<noteq> t then m else m\<lparr>mu_owner := (if n \<le> 1 then None else Some (t, n - 1))\<rparr>)"

text \<open>\<^verbatim>\<open>sem_post\<close> fails at \<^verbatim>\<open>SEM_VALUE_MAX\<close>, which the code does not look at.\<close>

definition sem_post :: "nat \<Rightarrow> nat" where
  "sem_post v = (if v < 2147483647 then v + 1 else v)"

fun release_mutex_b :: "nat \<Rightarrow> body \<Rightarrow> (bool \<times> body) option" where
  "release_mutex_b t (MutexB m) = Some (True, MutexB (mutex_unlock t m))"
| "release_mutex_b t _ = None"

fun event_signal :: "body \<Rightarrow> (bool \<times> body) option" where
  "event_signal (EventB ev) = Some (True, EventB (ev\<lparr>signaled := True\<rparr>))"
| "event_signal _ = None"

fun reset_event_b :: "body \<Rightarrow> (bool \<times> body) option" where
  "reset_event_b (EventB ev) = Some (True, EventB (ev\<lparr>signaled := False\<rparr>))"
| "reset_event_b _ = None"

fun release_semaphore_b :: "u32 \<Rightarrow> body \<Rightarrow> ((bool \<times> nat) \<times> body) option" where
  "release_semaphore_b n (SemaphoreB sm) =
     Some ((True, sem_value sm), SemaphoreB (sm\<lparr>sem_value := (sem_post ^^ nat (sint n)) (sem_value sm)\<rparr>))"
| "release_semaphore_b n _ = None"

fun finish_b :: "u32 \<Rightarrow> body \<Rightarrow> (unit \<times> body) option" where
  "finish_b code (ThreadB th) = Some ((), ThreadB (th\<lparr>exit_code := ucast code, th_done := True\<rparr>))"
| "finish_b code _ = None"

fun exit_code_b :: "body \<Rightarrow> ((bool \<times> u32) \<times> body) option" where
  "exit_code_b (ThreadB th) =
     Some ((True, if th_done th then ucast (exit_code th) else STILL_ACTIVE), ThreadB th)"
| "exit_code_b _ = None"

fun suspend_b :: "body \<Rightarrow> ((int \<times> nat) \<times> body) option" where
  "suspend_b (ThreadB th) =
     Some ((suspend_count th, th_tid th), ThreadB (th\<lparr>suspend_count := suspend_count th + 1\<rparr>))"
| "suspend_b _ = None"

fun resume_b :: "body \<Rightarrow> (u32 \<times> body) option" where
  "resume_b (ThreadB th) =
     (let prev = suspend_count th; r = (if prev < 0 then 0 else of_int prev) in
      if prev \<le> 0 then Some (r, ThreadB th)
      else if prev = 1 then
        Some (r, ThreadB (th\<lparr>suspend_count := prev - 1, suspend_sem := sem_post (suspend_sem th)\<rparr>))
      else Some (r, ThreadB (th\<lparr>suspend_count := prev - 1\<rparr>)))"
| "resume_b _ = None"

section \<open>Creation\<close>

definition create_sync :: "int \<Rightarrow> body \<Rightarrow> nat \<Rightarrow> shim \<Rightarrow> u64 \<times> shim" where
  "create_sync p b t s =
    (case handle_alloc_sync (body_kind b) p t (set_obj p \<lparr>refcount = 1, body = b\<rparr> s) of
       (h, s') \<Rightarrow> if h = INVALID_HANDLE_VALUE then (h, free_obj p s') else (h, s'))"

definition CreateMutexA :: "int option \<Rightarrow> bool \<Rightarrow> nat \<Rightarrow> shim \<Rightarrow> u64 \<times> shim" where
  "CreateMutexA mem initial_owner t s = (case mem of
       None \<Rightarrow> (INVALID_HANDLE_VALUE, s)
     | Some p \<Rightarrow> create_sync p (MutexB \<lparr>mu_owner = (if initial_owner then Some (t, 1) else None)\<rparr>) t s)"

definition CreateEventA :: "int option \<Rightarrow> bool \<Rightarrow> bool \<Rightarrow> nat \<Rightarrow> shim \<Rightarrow> u64 \<times> shim" where
  "CreateEventA mem manual initial t s = (case mem of
       None \<Rightarrow> (INVALID_HANDLE_VALUE, s)
     | Some p \<Rightarrow> create_sync p (EventB \<lparr>signaled = initial, manual_reset = manual\<rparr>) t s)"

text \<open>\<^verbatim>\<open>sem_init\<close> refuses a count above \<^verbatim>\<open>SEM_VALUE_MAX\<close>, as a negative one becomes.\<close>

definition CreateSemaphoreA :: "int option \<Rightarrow> u32 \<Rightarrow> nat \<Rightarrow> shim \<Rightarrow> u64 \<times> shim" where
  "CreateSemaphoreA mem initial t s = (case mem of
       None \<Rightarrow> (INVALID_HANDLE_VALUE, s)
     | Some p \<Rightarrow> if unat initial > 2147483647 then (INVALID_HANDLE_VALUE, s)
         else create_sync p (SemaphoreB \<lparr>sem_value = unat initial\<rparr>) t s)"

definition new_thread_obj :: "u32 \<Rightarrow> ThreadObj" where
  "new_thread_obj flags = \<lparr>th_tid = 0, exit_code = 0, th_done = False, suspend_sem = 0,
     suspend_count = (if flags AND 4 \<noteq> 0 then 1 else 0)\<rparr>"

definition CreateThread ::
    "int option \<Rightarrow> bool \<Rightarrow> nat option \<Rightarrow> u32 \<Rightarrow> nat \<Rightarrow> shim \<Rightarrow> (u64 \<times> shim) option" where
  "CreateThread mem start_ok created flags t s = (case mem of
       None \<Rightarrow> Some (0, SET_LAST_ERROR t ERROR_OUTOFMEMORY s)
     | Some p \<Rightarrow>
        if \<not> start_ok then Some (0, SET_LAST_ERROR t ERROR_OUTOFMEMORY s)
        else (case create_sync p (ThreadB (new_thread_obj flags)) t s of (h, s1) \<Rightarrow>
          if h = INVALID_HANDLE_VALUE then Some (0, SET_LAST_ERROR t ERROR_TOO_MANY_OPEN_FILES s1)
          else (case created of
              None \<Rightarrow> let i = nat (handle_to_idx h) in
                Some (0, SET_LAST_ERROR t ERROR_OUTOFMEMORY
                  (free_obj p (set_slot i ((g_handles s1 ! i)\<lparr>kind := H_FREE\<rparr>) s1)))
            | Some tid \<Rightarrow> do {
                (_, s2) \<leftarrow> with_body p (\<lambda>b. case b of
                    ThreadB th \<Rightarrow> Some ((), ThreadB (th\<lparr>th_tid := tid\<rparr>)) | _ \<Rightarrow> None) s1;
                Some (h, s2) })))"

section \<open>Operations\<close>

definition ReleaseMutex :: "u64 \<Rightarrow> nat \<Rightarrow> shim \<Rightarrow> (bool \<times> shim) option" where
  "ReleaseMutex h t s = with_handle (\<lambda>k. k = H_MUTEX) False (release_mutex_b t) h t s"

definition SetEvent :: "u64 \<Rightarrow> nat \<Rightarrow> shim \<Rightarrow> (bool \<times> shim) option" where
  "SetEvent h t s = with_handle (\<lambda>k. k = H_EVENT) False event_signal h t s"

definition ResetEvent :: "u64 \<Rightarrow> nat \<Rightarrow> shim \<Rightarrow> (bool \<times> shim) option" where
  "ResetEvent h t s = with_handle (\<lambda>k. k = H_EVENT) False reset_event_b h t s"

definition ReleaseSemaphore :: "u64 \<Rightarrow> u32 \<Rightarrow> nat \<Rightarrow> shim \<Rightarrow> ((bool \<times> nat) \<times> shim) option" where
  "ReleaseSemaphore h n t s =
    with_handle (\<lambda>k. k = H_SEMAPHORE) (False, 0) (release_semaphore_b n) h t s"

text \<open>The new thread's side: \<^verbatim>\<open>thread_finish\<close> writes to the object without holding a reference.\<close>

definition thread_finish :: "int \<Rightarrow> u32 \<Rightarrow> shim \<Rightarrow> shim option" where
  "thread_finish p code s =
    (if p = 0 then Some s else do { (_, s') \<leftarrow> with_body p (finish_b code) s; Some s' })"

abbreviation pseudo_thread :: u64 where
  "pseudo_thread \<equiv> - 2"

definition GetExitCodeThread :: "u64 \<Rightarrow> nat \<Rightarrow> shim \<Rightarrow> ((bool \<times> u32) \<times> shim) option" where
  "GetExitCodeThread h t s = (if h = pseudo_thread then Some ((True, STILL_ACTIVE), s)
     else with_handle (\<lambda>k. k = H_THREAD) (False, 0) exit_code_b h t s)"

definition SuspendThread :: "u64 \<Rightarrow> nat \<Rightarrow> shim \<Rightarrow> (u32 \<times> shim) option" where
  "SuspendThread h t s = do {
     (q, s1) \<leftarrow> retain (\<lambda>k. k = H_THREAD) h t s;
     (case q of
        None \<Rightarrow> Some (- 1, s1)
      | Some (k, p) \<Rightarrow> do {
          ((prev, tid), s2) \<leftarrow> with_body p suspend_b s1;
          s3 \<leftarrow> release k p (if prev = 0 then host_do (Kill tid) s2 else s2);
          Some (of_int prev, s3) }) }"

definition ResumeThread :: "u64 \<Rightarrow> nat \<Rightarrow> shim \<Rightarrow> (u32 \<times> shim) option" where
  "ResumeThread h t s = (if h = pseudo_thread then Some (0, s)
     else with_handle (\<lambda>k. k = H_THREAD) (- 1) resume_b h t s)"

section \<open>Waiting\<close>

text \<open>
  What ends a wait: the object may have become available, the deadline may have passed, or the
  pthread call failed.  An object that is available is acquired even when the deadline has
  passed; \<open>None\<close> says that the caller is still blocked.
\<close>

datatype wait_end = Woken | Expired | Broken

type_synonym wait_result = "(u32 \<times> u32 option) option"

definition wait_over :: "wait_end \<Rightarrow> u32 option \<Rightarrow> wait_result" where
  "wait_over e err = (case e of
       Woken \<Rightarrow> None
     | Expired \<Rightarrow> Some (WAIT_TIMEOUT, Some ERROR_SEM_TIMEOUT)
     | Broken \<Rightarrow> Some (WAIT_FAILED, err))"

fun wait_b :: "nat \<Rightarrow> wait_end \<Rightarrow> body \<Rightarrow> (wait_result \<times> body) option" where
  "wait_b t e (MutexB m) = (case mutex_lock t m of
       Some m' \<Rightarrow> if e = Broken then Some (wait_over e (Some ERROR_INVALID_HANDLE), MutexB m)
         else Some (Some (WAIT_OBJECT_0, None), MutexB m')
     | None \<Rightarrow> Some (wait_over e (Some ERROR_INVALID_HANDLE), MutexB m))"
| "wait_b t e (EventB ev) =
     (if signaled ev then Some (Some (WAIT_OBJECT_0, None), EventB (ev\<lparr>signaled := manual_reset ev\<rparr>))
      else Some (wait_over e None, EventB ev))"
| "wait_b t e (SemaphoreB sm) =
     (if e \<noteq> Broken \<and> 0 < sem_value sm
      then Some (Some (WAIT_OBJECT_0, None), SemaphoreB (sm\<lparr>sem_value := sem_value sm - 1\<rparr>))
      else Some (wait_over e (Some ERROR_INVALID_HANDLE), SemaphoreB sm))"
| "wait_b t e (ThreadB th) =
     (if th_done th then Some (Some (WAIT_OBJECT_0, None), ThreadB th)
      else Some (wait_over e None, ThreadB th))"
| "wait_b t e (FindB _) = None"

text \<open>
  The end of a wait: the last reference destroys the object, an acquired mutex being unlocked
  before.
\<close>

definition wait_release :: "HandleKind \<Rightarrow> int \<Rightarrow> u32 \<Rightarrow> nat \<Rightarrow> shim \<Rightarrow> shim option" where
  "wait_release k p ret t s = do {
     ob \<leftarrow> objs s p;
     let s1 = set_obj p (ob\<lparr>refcount := refcount ob - 1\<rparr>) s;
     (if refcount ob - 1 = 0 then do {
        s2 \<leftarrow> (if k = H_MUTEX \<and> ret = WAIT_OBJECT_0
               then do { (_, s2) \<leftarrow> with_body p (release_mutex_b t) s1; Some s2 } else Some s1);
        sync_obj_destroy k p s2 }
      else Some s1) }"

definition note_error :: "nat \<Rightarrow> u32 option \<Rightarrow> shim \<Rightarrow> shim" where
  "note_error t err s = (case err of None \<Rightarrow> s | Some e \<Rightarrow> SET_LAST_ERROR t e s)"

definition WaitForSingleObject :: "wait_end \<Rightarrow> u64 \<Rightarrow> nat \<Rightarrow> shim \<Rightarrow> (u32 option \<times> shim) option" where
  "WaitForSingleObject e h t s =
    (if h = pseudo_thread then Some (Some WAIT_TIMEOUT, SET_LAST_ERROR t ERROR_SEM_TIMEOUT s)
     else do {
       (q, s1) \<leftarrow> retain (\<lambda>k. H_MUTEX \<le> k) h t s;
       (case q of
          None \<Rightarrow> Some (Some WAIT_FAILED, s1)
        | Some (k, p) \<Rightarrow> do {
            (r, s2) \<leftarrow> with_body p (wait_b t e) s1;
            (case r of
               None \<Rightarrow> Some (None, s2)
             | Some (ret, err) \<Rightarrow> do {
                 s3 \<leftarrow> wait_release k p ret t (note_error t err s2);
                 Some (Some ret, s3) }) }) })"

section \<open>Signalling\<close>

definition signal_handle :: "u64 \<Rightarrow> nat \<Rightarrow> shim \<Rightarrow> (bool \<times> shim) option" where
  "signal_handle h t s = (let idx = handle_to_idx h in
     if idx < 0 then Some (False, SET_LAST_ERROR t ERROR_INVALID_HANDLE s)
     else (case kind (slot_at s idx) of
         H_MUTEX \<Rightarrow> ReleaseMutex h t s
       | H_EVENT \<Rightarrow> SetEvent h t s
       | H_SEMAPHORE \<Rightarrow> do { ((ok, _), s') \<leftarrow> ReleaseSemaphore h 1 t s; Some (ok, s') }
       | _ \<Rightarrow> Some (False, SET_LAST_ERROR t ERROR_INVALID_HANDLE s)))"

definition SignalObjectAndWait ::
    "wait_end \<Rightarrow> u64 \<Rightarrow> u64 \<Rightarrow> nat \<Rightarrow> shim \<Rightarrow> (u32 option \<times> shim) option" where
  "SignalObjectAndWait e sig wait t s = do {
     (_, s1) \<leftarrow> signal_handle sig t s;
     WaitForSingleObject e wait t s1 }"

text \<open>\<^verbatim>\<open>undo_wait_acquire\<close> reverses a successful wait.\<close>

fun undo_b :: "nat \<Rightarrow> body \<Rightarrow> (unit \<times> body) option" where
  "undo_b t (MutexB m) = Some ((), MutexB (mutex_unlock t m))"
| "undo_b t (SemaphoreB sm) = Some ((), SemaphoreB (sm\<lparr>sem_value := sem_post (sem_value sm)\<rparr>))"
| "undo_b t (EventB ev) = Some ((), EventB (ev\<lparr>signaled := True\<rparr>))"
| "undo_b t (ThreadB th) = Some ((), ThreadB th)"
| "undo_b t (FindB _) = None"

definition undo_wait_acquire :: "u64 \<Rightarrow> nat \<Rightarrow> shim \<Rightarrow> shim option" where
  "undo_wait_acquire h t s = (let idx = handle_to_idx h in
     if idx < 0 \<or> \<not> H_MUTEX \<le> kind (slot_at s idx) then Some s
     else do { (_, s') \<leftarrow> with_handle (\<lambda>k. H_MUTEX \<le> k) () (undo_b t) h t s; Some s' })"

section \<open>Duplicating handles\<close>

definition self_thread_obj :: ThreadObj where
  "self_thread_obj = \<lparr>th_tid = 0, exit_code = 0, th_done = True, suspend_sem = 0, suspend_count = 0\<rparr>"

text \<open>The pseudo-handle of the calling thread becomes a slot of its thread object.\<close>

definition dup_self :: "int \<Rightarrow> nat \<Rightarrow> shim \<Rightarrow> ((bool \<times> u64) \<times> shim) option" where
  "dup_self p t s = do {
     ob \<leftarrow> objs s p;
     (case find_free s of
        Some i \<Rightarrow> Some ((True, idx_to_handle (int i)),
          set_slot i \<lparr>kind = H_THREAD, uval = p\<rparr> (set_obj p (ob\<lparr>refcount := refcount ob + 1\<rparr>) s))
      | None \<Rightarrow> Some ((False, 0), SET_LAST_ERROR t ERROR_TOO_MANY_OPEN_FILES
          (if refcount ob = 0 then free_obj p (s\<lparr>g_thread_obj_key := (g_thread_obj_key s)(t := 0)\<rparr>) else s))) }"

definition DuplicateHandle_self :: "int option \<Rightarrow> nat \<Rightarrow> shim \<Rightarrow> ((bool \<times> u64) \<times> shim) option" where
  "DuplicateHandle_self mem t s =
    (if g_thread_obj_key s t \<noteq> 0 then dup_self (g_thread_obj_key s t) t s
     else (case mem of
         None \<Rightarrow> Some ((False, 0), SET_LAST_ERROR t ERROR_OUTOFMEMORY s)
       | Some p \<Rightarrow> dup_self p t (set_obj p \<lparr>refcount = 0, body = ThreadB self_thread_obj\<rparr>
           (s\<lparr>g_thread_obj_key := (g_thread_obj_key s)(t := p)\<rparr>))))"

definition dup_slot :: "u64 \<Rightarrow> nat \<Rightarrow> shim \<Rightarrow> ((bool \<times> u64) \<times> shim) option" where
  "dup_slot src t s = (let sl = slot_at s (handle_to_idx src) in
     (case find_free s of
        Some i \<Rightarrow> do {
          s1 \<leftarrow> (if H_MUTEX \<le> kind sl
                 then do { ob \<leftarrow> objs s (uval sl); Some (set_obj (uval sl) (ob\<lparr>refcount := refcount ob + 1\<rparr>) s) }
                 else Some s);
          Some ((True, idx_to_handle (int i)), set_slot i sl s1) }
      | None \<Rightarrow> Some ((False, 0), SET_LAST_ERROR t ERROR_TOO_MANY_OPEN_FILES s)))"

definition dup_file :: "(errno + int) \<Rightarrow> nat \<Rightarrow> shim \<Rightarrow> (bool \<times> u64) \<times> shim" where
  "dup_file dup t s = (case dup of
       Inl e \<Rightarrow> ((False, 0), set_errno_error t e s)
     | Inr fd \<Rightarrow> (case handle_alloc_file fd t s of (h, s1) \<Rightarrow>
         if h = INVALID_HANDLE_VALUE then ((False, h), host_do (Close fd) s1) else ((True, h), s1)))"

definition DuplicateHandle ::
    "int option \<Rightarrow> (errno + int) \<Rightarrow> u64 \<Rightarrow> u32 \<Rightarrow> nat \<Rightarrow> shim \<Rightarrow> ((bool \<times> u64) \<times> shim) option" where
  "DuplicateHandle mem dup src options t s =
    (if src = pseudo_thread then DuplicateHandle_self mem t s
     else if handle_to_idx src < 0 then Some ((False, 0), SET_LAST_ERROR t ERROR_INVALID_HANDLE s)
     else do {
       ((ok, dst), s1) \<leftarrow> (if kind (slot_at s (handle_to_idx src)) = H_FILE
                            then Some (dup_file dup t s) else dup_slot src t s);
       (if ok \<and> options AND 1 \<noteq> 0 then do { (_, s2) \<leftarrow> CloseHandle src t s1; Some ((ok, dst), s2) }
        else Some ((ok, dst), s1)) })"

end
