(* ===== verification/Shim_Safety.thy ===== *)
theory Shim_Safety
  imports Shim_Sync
begin

text \<open>
  Every function of \<open>Shim_Sync\<close> is defined in a state that satisfies the counting invariant,
  and keeps it; so does every interleaving of the critical sections of several threads.  Two
  uses of the interface do reach freed objects: a duplicate of a search handle, and a thread
  that ends after its handle was closed.
\<close>

section \<open>Every function keeps the invariant\<close>

lemma create_sync_ok:
  assumes "rc_inv s P" and "objs s p = None" and "p \<noteq> 0"
  shows "rc_inv (snd (create_sync p b t s)) P"
    and "fst (create_sync p b t s) \<noteq> INVALID_HANDLE_VALUE \<Longrightarrow>
      (\<exists>i. 3 \<le> i \<and> i < MAX_HANDLES \<and> fst (create_sync p b t s) = idx_to_handle (int i)
        \<and> kind (g_handles s ! i) = H_FREE
        \<and> snd (create_sync p b t s) = set_slot i \<lparr>kind = body_kind b, uval = p\<rparr>
            (set_obj p \<lparr>refcount = 1, body = b\<rparr> s))"
proof -
  let ?s = "set_obj p \<lparr>refcount = 1, body = b\<rparr> s"
  obtain h s' where a: "handle_alloc (body_kind b) p t ?s = (h, s')"
    by (cases "handle_alloc (body_kind b) p t ?s")
  have new: "rc_inv ?s (add_mset (body_kind b, p) P)" by (rule rc_inv_new [OF assms])
  then have len: "length (g_handles ?s) = MAX_HANDLES" by (simp add: rc_inv_def)
  have ref: "refs (g_handles s) p = 0" "pin_refs P p = 0"
    using rc_inv_count [OF new, of p "\<lparr>refcount = 1, body = b\<rparr>"] by simp_all
  have both: "rc_inv (snd (create_sync p b t s)) P
    \<and> (fst (create_sync p b t s) \<noteq> INVALID_HANDLE_VALUE \<longrightarrow>
      (\<exists>i. 3 \<le> i \<and> i < MAX_HANDLES \<and> fst (create_sync p b t s) = idx_to_handle (int i)
        \<and> kind (g_handles s ! i) = H_FREE
        \<and> snd (create_sync p b t s) = set_slot i \<lparr>kind = body_kind b, uval = p\<rparr> ?s))"
    using a len
  proof (cases rule: handle_alloc_cases)
    case full
    have "rc_inv (free_obj p s') P"
      using handle_alloc_counted [OF new a] full(1,2) ref by (intro rc_inv_unmade [of s' "body_kind b"]) simp_all
    with full a show ?thesis by (simp add: create_sync_def handle_alloc_sync_def)
  next
    case (slot i)
    then have "rc_inv s' P" using handle_alloc_counted [OF new a] by simp
    with slot a show ?thesis by (auto simp: create_sync_def handle_alloc_sync_def)
  qed
  then show "rc_inv (snd (create_sync p b t s)) P" by simp
  assume "fst (create_sync p b t s) \<noteq> INVALID_HANDLE_VALUE"
  with both show "\<exists>i. 3 \<le> i \<and> i < MAX_HANDLES \<and> fst (create_sync p b t s) = idx_to_handle (int i)
        \<and> kind (g_handles s ! i) = H_FREE
        \<and> snd (create_sync p b t s) = set_slot i \<lparr>kind = body_kind b, uval = p\<rparr> ?s"
    by blast
qed

definition fresh :: "int option \<Rightarrow> shim \<Rightarrow> bool" where
  "fresh mem s \<longleftrightarrow> (\<forall>p. mem = Some p \<longrightarrow> p \<noteq> 0 \<and> objs s p = None)"

lemma Create_ok:
  assumes "rc_inv s P" and "fresh mem s"
  shows "rc_inv (snd (CreateMutexA mem own t s)) P" "rc_inv (snd (CreateEventA mem man ini t s)) P"
    "rc_inv (snd (CreateSemaphoreA mem n t s)) P"
  using assms create_sync_ok(1) [OF assms(1)]
  by (auto simp: CreateMutexA_def CreateEventA_def CreateSemaphoreA_def fresh_def split: option.splits)

lemma CreateThread_ok:
  assumes "rc_inv s P" and "fresh mem s"
  shows "\<exists>h s'. CreateThread mem start_ok created flags t s = Some (h, s') \<and> rc_inv s' P"
proof (cases "mem = None \<or> \<not> start_ok")
  case True
  with assms show ?thesis by (cases mem) (auto simp: CreateThread_def)
next
  case False
  then obtain p where mem: "mem = Some p" and st: "start_ok" by auto
  let ?b = "ThreadB (new_thread_obj flags)"
  have p: "objs s p = None" "p \<noteq> 0" using assms(2) mem by (auto simp: fresh_def)
  obtain h s1 where c: "create_sync p ?b t s = (h, s1)" by (cases "create_sync p ?b t s")
  note ok = create_sync_ok [OF assms(1) p, of ?b t, unfolded c, simplified]
  show ?thesis
  proof (cases "h = INVALID_HANDLE_VALUE")
    case True
    with mem st c ok(1) show ?thesis by (simp add: CreateThread_def)
  next
    case h: False
    then obtain i where i: "3 \<le> i" "i < MAX_HANDLES" "h = idx_to_handle (int i)" "kind (g_handles s ! i) = H_FREE"
        "s1 = set_slot i \<lparr>kind = H_THREAD, uval = p\<rparr> (set_obj p \<lparr>refcount = 1, body = ?b\<rparr> s)"
      using ok(2) by auto
    have len: "length (g_handles s) = MAX_HANDLES" using assms(1) by (simp add: rc_inv_def)
    have obj: "objs s1 p = Some \<lparr>refcount = 1, body = ?b\<rparr>" by (simp add: i)
    show ?thesis
    proof (cases created)
      case None
      let ?s2 = "set_slot i ((g_handles s1 ! i)\<lparr>kind := H_FREE\<rparr>) s1"
      have idx: "nat (handle_to_idx h) = i" using idx_handle_valid(1) [OF i(2)] i(3) by simp
      have inv: "rc_inv ?s2 (add_mset (H_THREAD, p) P)"
        using rc_inv_take [OF ok(1) i(2), of "(g_handles s1 ! i)\<lparr>kind := H_FREE\<rparr>"] i(2,5) len
        by simp
      have "refs (g_handles ?s2) p = 0" "pin_refs P p = 0"
        using rc_inv_count [OF inv, of p "\<lparr>refcount = 1, body = ?b\<rparr>"] obj by simp_all
      from rc_inv_unmade [OF inv this] mem st c h None idx show ?thesis
        by (simp add: CreateThread_def Let_def)
    next
      case (Some tid)
      have "rc_inv (set_obj p (\<lparr>refcount = 1, body = ?b\<rparr>\<lparr>body := ThreadB ((new_thread_obj flags)\<lparr>th_tid := tid\<rparr>)\<rparr>) s1) P"
        by (rule rc_inv_body [OF ok(1) obj]) simp
      with mem st c h Some obj show ?thesis by (simp add: CreateThread_def with_body_def)
    qed
  qed
qed

lemma bodies_total:
  "body_kind b = H_MUTEX \<Longrightarrow> \<exists>r b'. release_mutex_b t b = Some (r, b') \<and> body_kind b' = body_kind b"
  "body_kind b = H_EVENT \<Longrightarrow> \<exists>r b'. event_signal b = Some (r, b') \<and> body_kind b' = body_kind b"
  "body_kind b = H_EVENT \<Longrightarrow> \<exists>r b'. reset_event_b b = Some (r, b') \<and> body_kind b' = body_kind b"
  "body_kind b = H_SEMAPHORE \<Longrightarrow> \<exists>r b'. release_semaphore_b n b = Some (r, b') \<and> body_kind b' = body_kind b"
  "body_kind b = H_THREAD \<Longrightarrow> \<exists>r b'. exit_code_b b = Some (r, b') \<and> body_kind b' = body_kind b"
  "body_kind b = H_THREAD \<Longrightarrow> \<exists>r b'. suspend_b b = Some (r, b') \<and> body_kind b' = body_kind b"
  "body_kind b = H_THREAD \<Longrightarrow> \<exists>r b'. resume_b b = Some (r, b') \<and> body_kind b' = body_kind b"
  "H_MUTEX \<le> body_kind b \<Longrightarrow> \<exists>r b'. wait_b t e b = Some (r, b') \<and> body_kind b' = body_kind b"
  "H_MUTEX \<le> body_kind b \<Longrightarrow> \<exists>r b'. undo_b t b = Some (r, b') \<and> body_kind b' = body_kind b"
  by (cases b; auto simp: Let_def kind_order split: option.splits)+

lemma sync_counted: "H_MUTEX \<le> k \<Longrightarrow> counted k"
  by (simp add: counted_def)

lemma object_ops_ok:
  assumes "rc_inv s P"
  shows "\<exists>r s'. ReleaseMutex h t s = Some (r, s') \<and> rc_inv s' P"
    "\<exists>r s'. SetEvent h t s = Some (r, s') \<and> rc_inv s' P"
    "\<exists>r s'. ResetEvent h t s = Some (r, s') \<and> rc_inv s' P"
    "\<exists>r s'. ReleaseSemaphore h n t s = Some (r, s') \<and> rc_inv s' P"
    "\<exists>r s'. GetExitCodeThread h t s = Some (r, s') \<and> rc_inv s' P"
    "\<exists>r s'. ResumeThread h t s = Some (r, s') \<and> rc_inv s' P"
proof -
  note wh = with_handle_ok [OF assms]
  show "\<exists>r s'. ReleaseMutex h t s = Some (r, s') \<and> rc_inv s' P"
    unfolding ReleaseMutex_def by (rule wh; (erule bodies_total | simp))
  show "\<exists>r s'. SetEvent h t s = Some (r, s') \<and> rc_inv s' P"
    unfolding SetEvent_def by (rule wh; (erule bodies_total | simp))
  show "\<exists>r s'. ResetEvent h t s = Some (r, s') \<and> rc_inv s' P"
    unfolding ResetEvent_def by (rule wh; (erule bodies_total | simp))
  show "\<exists>r s'. ReleaseSemaphore h n t s = Some (r, s') \<and> rc_inv s' P"
    unfolding ReleaseSemaphore_def by (rule wh; (erule bodies_total | simp))
  have "\<exists>r s'. with_handle (\<lambda>k. k = H_THREAD) (False, 0) exit_code_b h t s = Some (r, s') \<and> rc_inv s' P"
    by (rule wh; (erule bodies_total | simp))
  then show "\<exists>r s'. GetExitCodeThread h t s = Some (r, s') \<and> rc_inv s' P"
    using assms by (auto simp: GetExitCodeThread_def)
  have "\<exists>r s'. with_handle (\<lambda>k. k = H_THREAD) (- 1) resume_b h t s = Some (r, s') \<and> rc_inv s' P"
    by (rule wh; (erule bodies_total | simp))
  then show "\<exists>r s'. ResumeThread h t s = Some (r, s') \<and> rc_inv s' P"
    using assms by (simp add: ResumeThread_def)
qed

lemma SuspendThread_ok:
  assumes "rc_inv s P"
  shows "\<exists>r s'. SuspendThread h t s = Some (r, s') \<and> rc_inv s' P"
proof -
  let ?use = "\<lambda>k p s1. do { ((prev, tid), s2) \<leftarrow> with_body p suspend_b s1;
      Some (of_int prev :: u32, if prev = 0 then host_do (Kill tid) s2 else s2) }"
  have "\<exists>r s'. ?use k p s = Some (r, s') \<and> rc_inv s' (add_mset (k, p) P)"
    if "k = H_THREAD" "rc_inv s (add_mset (k, p) P)" for k p s
    using with_body_ok [of s "add_mset (k, p) P" k p suspend_b] that bodies_total(6) by fastforce
  from store.bracket [of s P "\<lambda>k. k = H_THREAD" ?use "(h, t)" "- 1", OF assms _ this]
  show ?thesis by (simp add: SuspendThread_def bind_assoc case_prod_unfold cong: option.case_cong)
qed

lemma wait_release_ok:
  assumes "rc_inv s (add_mset (k, p) P)" and "H_MUTEX \<le> k"
  shows "\<exists>s'. wait_release k p ret t s = Some s' \<and> rc_inv s' P"
proof -
  obtain ob where ob: "objs s p = Some ob" "body_kind (body ob) = k" using assms by (auto simp: rc_inv_def)
  obtain s' where s': "release k p s = Some s'" "rc_inv s' P" using release_ok [OF assms(1)] by blast
  show ?thesis
  proof (cases "refcount ob - 1 = 0 \<and> k = H_MUTEX \<and> ret = WAIT_OBJECT_0")
    case True
    then obtain m where m: "body ob = MutexB m" using ob by (cases "body ob") auto
    have "s' = free_obj p s" using s' ob True m
      by (auto simp: release_def destroy_def sync_obj_destroy_def free_obj_def set_obj_def)
    with True ob m s' show ?thesis
      by (simp add: wait_release_def with_body_def sync_obj_destroy_def Let_def free_obj_def set_obj_def)
  next
    case False
    have "k \<noteq> H_FIND" using assms(2) by (auto simp: kind_order)
    with False s' ob show ?thesis
      by (auto simp: release_def wait_release_def destroy_def Let_def)
  qed
qed

lemma rc_inv_note [simp]: "rc_inv (note_error t err s) P = rc_inv s P"
  by (simp add: note_error_def split: option.splits)

text \<open>A wait either answers, or is still blocked and holds a reference to its object.\<close>

lemma WaitForSingleObject_ok:
  assumes "rc_inv s P"
  shows "\<exists>r s'. WaitForSingleObject e h t s = Some (r, s')
    \<and> (case r of Some ret \<Rightarrow> rc_inv s' P | None \<Rightarrow> \<exists>k p. rc_inv s' (add_mset (k, p) P))"
proof (cases "h = pseudo_thread")
  case True
  with assms show ?thesis by (simp add: WaitForSingleObject_def)
next
  case False
  obtain q s1 where q: "retain (\<lambda>k. H_MUTEX \<le> k) h t s = Some (q, s1)"
      "rc_inv s1 (case q of None \<Rightarrow> P | Some q \<Rightarrow> add_mset q P)" "\<forall>k p. q = Some (k, p) \<longrightarrow> H_MUTEX \<le> k"
    using retain_ok [OF assms, of "\<lambda>k. H_MUTEX \<le> k" h t] sync_counted by blast
  show ?thesis
  proof (cases q)
    case None
    with q False show ?thesis by (simp add: WaitForSingleObject_def)
  next
    case (Some kp)
    obtain k p where kp: "kp = (k, p)" by (cases kp)
    have k: "H_MUTEX \<le> k" using q(3) Some kp by simp
    have inv: "rc_inv s1 (add_mset (k, p) P)" using q(2) Some kp by simp
    have "\<exists>r b'. wait_b t e b = Some (r, b') \<and> body_kind b' = k" if "body_kind b = k" for b
      using bodies_total(8) [of b t e] that k by simp
    then obtain r s2 where w: "with_body p (wait_b t e) s1 = Some (r, s2)" "rc_inv s2 (add_mset (k, p) P)"
      using with_body_ok [OF inv, of k p "wait_b t e"] by auto
    show ?thesis
    proof (cases r)
      case None
      with q Some kp w False show ?thesis by (auto simp: WaitForSingleObject_def)
    next
      case (Some re)
      obtain ret err where re: "re = (ret, err)" by (cases re)
      obtain s3 where "wait_release k p ret t (note_error t err s2) = Some s3" "rc_inv s3 P"
        using wait_release_ok [of "note_error t err s2" k p P ret t] w(2) k by auto
      with q \<open>q = Some kp\<close> kp w Some re False show ?thesis by (simp add: WaitForSingleObject_def)
    qed
  qed
qed

text \<open>With a deadline that has passed a wait always answers.\<close>

lemma wait_b_expired: "wait_b t Expired b = Some (r, b') \<Longrightarrow> r \<noteq> None"
  by (cases b) (auto simp: wait_over_def split: option.splits if_splits)

lemma wait_poll_returns:
  assumes "rc_inv s P"
  shows "\<exists>r s'. WaitForSingleObject Expired h t s = Some (Some r, s') \<and> rc_inv s' P"
proof -
  obtain r s' where w: "WaitForSingleObject Expired h t s = Some (r, s')"
      "case r of Some ret \<Rightarrow> rc_inv s' P | None \<Rightarrow> \<exists>k p. rc_inv s' (add_mset (k, p) P)"
    using WaitForSingleObject_ok [OF assms] by blast
  have "r \<noteq> None" using w(1)
    by (auto simp: WaitForSingleObject_def with_body_def Option.bind_eq_Some_conv dest!: wait_b_expired
        split: if_splits option.splits)
  with w show ?thesis by auto
qed

lemma signal_handle_ok:
  assumes "rc_inv s P"
  shows "\<exists>r s'. signal_handle h t s = Some (r, s') \<and> rc_inv s' P"
  using assms object_ops_ok(1-3) [OF assms, of h t] object_ops_ok(4) [OF assms, of h 1 t]
  by (auto simp: signal_handle_def Let_def split: HandleKind.split)

lemma undo_wait_acquire_ok:
  assumes "rc_inv s P"
  shows "\<exists>s'. undo_wait_acquire h t s = Some s' \<and> rc_inv s' P"
proof -
  have "\<exists>r s'. with_handle (\<lambda>k. H_MUTEX \<le> k) () (undo_b t) h t s = Some (r, s') \<and> rc_inv s' P"
    by (rule with_handle_ok [OF assms]; (erule bodies_total | erule sync_counted))
  with assms show ?thesis by (auto simp: undo_wait_acquire_def Let_def)
qed

lemma dup_slot_ok:
  assumes "rc_inv s P" and "0 \<le> handle_to_idx src" and "kind (slot_at s (handle_to_idx src)) \<noteq> H_FIND"
  shows "\<exists>r s'. dup_slot src t s = Some (r, s') \<and> rc_inv s' P"
proof (cases "find_free s")
  case None
  with assms show ?thesis by (auto simp: dup_slot_def)
next
  case (Some i)
  have len: "length (g_handles s) = MAX_HANDLES" using assms(1) by (simp add: rc_inv_def)
  note f = find_free_spec [OF Some len]
  let ?sl = "slot_at s (handle_to_idx src)"
  show ?thesis
  proof (cases "H_MUTEX \<le> kind ?sl")
    case True
    obtain ob where ob: "objs s (uval ?sl) = Some ob" "body_kind (body ob) = kind ?sl"
      by (rule rc_inv_slot [OF assms(1,2) sync_counted [OF True]])
    have "rc_inv (set_obj (uval ?sl) (ob\<lparr>refcount := refcount ob + 1\<rparr>) s) (add_mset (kind ?sl, uval ?sl) P)"
      using rc_inv_pin [OF assms(1) ob(1)] ob(2) sync_counted [OF True] by simp
    then have "rc_inv (set_slot i ?sl (set_obj (uval ?sl) (ob\<lparr>refcount := refcount ob + 1\<rparr>) s)) P"
      using f by (intro rc_inv_store) simp_all
    with True ob Some show ?thesis by (auto simp: dup_slot_def Let_def)
  next
    case False
    then have "\<not> counted (kind ?sl)" using assms(3) by (simp add: counted_def)
    with rc_inv_set_slot [OF assms(1), of i ?sl] f False Some show ?thesis by (auto simp: dup_slot_def Let_def)
  qed
qed

lemma DuplicateHandle_ok:
  assumes "rc_inv s P" and "src \<noteq> pseudo_thread" and "kind (slot_at s (handle_to_idx src)) \<noteq> H_FIND"
  shows "\<exists>r s'. DuplicateHandle mem dup src options t s = Some (r, s') \<and> rc_inv s' P"
proof (cases "handle_to_idx src < 0")
  case True
  with assms show ?thesis by (auto simp: DuplicateHandle_def)
next
  case False
  let ?d = "if kind (slot_at s (handle_to_idx src)) = H_FILE then Some (dup_file dup t s) else dup_slot src t s"
  have "rc_inv (snd (dup_file dup t s)) P"
    using handle_alloc_plain [OF assms(1), of H_FILE] assms(1)
    by (cases dup) (auto simp: dup_file_def set_errno_error_def handle_alloc_file_def split: prod.split)
  then have "\<exists>r s'. ?d = Some (r, s') \<and> rc_inv s' P"
    using dup_slot_ok [OF assms(1) _ assms(3)] False by (cases "dup_file dup t s") auto
  then obtain ok dst s1 where d: "?d = Some ((ok, dst), s1)" "rc_inv s1 P" by auto
  with CloseHandle_ok [OF d(2), of src t] False assms(2) show ?thesis
    unfolding DuplicateHandle_def by auto
qed

section \<open>Interleavings\<close>

text \<open>
  The critical sections of all threads, in any order.  A state is the shim's state with the
  pins of the threads inside a function: between two sections of one function those of other
  functions may run.  Each function of the interface is, by its definition, a sequence of
  these sections.
\<close>

inductive shim_step :: "shim \<times> pins \<Rightarrow> shim \<times> pins \<Rightarrow> bool" where
  pin: "retain ok h t s = Some (Some q, s') \<Longrightarrow> (\<And>k. ok k \<Longrightarrow> counted k) \<Longrightarrow>
    shim_step (s, P) (s', add_mset q P)"
| refused: "shim_step (s, P) (SET_LAST_ERROR t e s, P)"
| host_call: "shim_step (s, P) (host_do c s, P)"
| work: "(k, p) \<in># P \<Longrightarrow> objs s p = Some ob \<Longrightarrow> body_kind b = k \<Longrightarrow>
    shim_step (s, P) (set_obj p (ob\<lparr>body := b\<rparr>) s, P)"
| unpin: "release k p s = Some s' \<Longrightarrow> shim_step (s, add_mset (k, p) P) (s', P)"
| unpin_wait: "wait_release k p ret t s = Some s' \<Longrightarrow> H_MUTEX \<le> k \<Longrightarrow>
    shim_step (s, add_mset (k, p) P) (s', P)"
| create: "p \<noteq> 0 \<Longrightarrow> objs s p = None \<Longrightarrow> shim_step (s, P) (snd (create_sync p b t s), P)"
| plain_handle: "k = H_FILE \<or> k = H_MODULE \<Longrightarrow> shim_step (s, P) (snd (handle_alloc k v t s), P)"
| empty_slot: "close_take h s = (Some sl, s') \<Longrightarrow>
    shim_step (s, P) (s', if counted (kind sl) then add_mset (kind sl, uval sl) P else P)"
| share_slot: "0 \<le> handle_to_idx src \<Longrightarrow> kind (slot_at s (handle_to_idx src)) \<noteq> H_FIND \<Longrightarrow>
    dup_slot src t s = Some (r, s') \<Longrightarrow> shim_step (s, P) (s', P)"

inductive_cases shim_stepE: "shim_step (s, P) (s', P')"

lemma shim_step_rc_inv:
  assumes "shim_step c c'" and "rc_inv (fst c) (snd c)"
  shows "rc_inv (fst c') (snd c')"
  using assms
proof cases
  case (pin ok h t s q s' P)
  with retain_ok [of s P ok h t] assms(2) show ?thesis by auto
next
  case (work k p P s ob b)
  then have "body_kind b = body_kind (body ob)" using assms(2) by (auto simp: rc_inv_def)
  with work rc_inv_body [of s P p ob b] assms(2) show ?thesis by simp
next
  case (unpin k p s s' P)
  with release_ok [of s k p P] assms(2) show ?thesis by simp
next
  case (unpin_wait k p ret t s s' P)
  with wait_release_ok [of s k p P ret t] assms(2) show ?thesis by simp
next
  case (create p s P b t)
  with create_sync_ok(1) [of s P p b t] assms(2) show ?thesis by simp
next
  case (plain_handle k s P v t)
  with handle_alloc_plain [of s P k v t "fst (handle_alloc k v t s)" "snd (handle_alloc k v t s)"] assms(2)
  show ?thesis by auto
next
  case (empty_slot h s sl s' P)
  with close_take_ok [of s P h "Some sl" s'] assms(2) show ?thesis by simp
next
  case (share_slot src s t r s' P)
  with dup_slot_ok [of s P src t] assms(2) show ?thesis by auto
qed (use assms in auto)

lemma reachable_rc_inv: "shim_step\<^sup>*\<^sup>* c c' \<Longrightarrow> rc_inv (fst c) (snd c) \<Longrightarrow> rc_inv (fst c') (snd c')"
  by (induction rule: rtranclp_induct) (auto dest: shim_step_rc_inv)

lemma rc_inv_init: "rc_inv handles_init {#}"
  by (auto simp: rc_inv_def handles_init_def free_slot_def file_slot_def MAX_HANDLES_def)



section \<open>The handle table\<close>

lemma first_free_None: "first_free i hs = None \<longleftrightarrow> (\<forall>sl\<in>set hs. kind sl \<noteq> H_FREE)"
  by (induction hs arbitrary: i) auto

lemma find_free_None:
  assumes "find_free s = None" and "length (g_handles s) = MAX_HANDLES" and "3 \<le> j" and "j < MAX_HANDLES"
  shows "kind (g_handles s ! j) \<noteq> H_FREE"
proof -
  have "drop 3 (g_handles s) ! (j - 3) = g_handles s ! j" using assms by simp
  moreover have "drop 3 (g_handles s) ! (j - 3) \<in> set (drop 3 (g_handles s))"
    using assms by (intro nth_mem) simp
  ultimately show ?thesis using assms(1,2) by (auto simp: find_free_def first_free_None)
qed

text \<open>
  Allocation of handles.  A new handle denotes the lowest free slot from 3 on, which
  now holds what it was given, every other slot being untouched; a file handle then gives its
  descriptor back.  \<^verbatim>\<open>INVALID_HANDLE_VALUE\<close> is answered exactly when no slot is free, with
  \<^verbatim>\<open>ERROR_TOO_MANY_OPEN_FILES\<close> and the table unchanged.
\<close>

theorem handle_alloc_lowest_free:
  assumes "length (g_handles s) = MAX_HANDLES" and "handle_alloc k v t s = (h, s')"
  shows "if \<exists>j\<ge>3. j < MAX_HANDLES \<and> kind (g_handles s ! j) = H_FREE
    then (\<exists>i\<ge>3. i < MAX_HANDLES \<and> handle_to_idx h = int i \<and> kind (g_handles s ! i) = H_FREE
        \<and> (\<forall>j. 3 \<le> j \<and> j < i \<longrightarrow> kind (g_handles s ! j) \<noteq> H_FREE)
        \<and> g_handles s' = (g_handles s)[i := \<lparr>kind = k, uval = v\<rparr>]
        \<and> (k = H_FILE \<longrightarrow> get_fd h t s' = (v, s')))
    else h = INVALID_HANDLE_VALUE \<and> g_handles s' = g_handles s \<and> last_error s' t = ERROR_TOO_MANY_OPEN_FILES"
proof (cases "find_free s")
  case None
  then have "\<not> (\<exists>j\<ge>3. j < MAX_HANDLES \<and> kind (g_handles s ! j) = H_FREE)"
    using find_free_None [OF None assms(1)] by blast
  with None assms(2) show ?thesis by (auto simp: handle_alloc_def SET_LAST_ERROR_def)
next
  case (Some i)
  note f = find_free_spec [OF Some assms(1)]
  have "get_fd h t s' = (v, s')" if "k = H_FILE"
    using that f Some assms idx_handle_valid(1) [of i]
    by (auto simp: handle_alloc_def get_fd_def Let_def)
  moreover have "\<exists>j\<ge>3. j < MAX_HANDLES \<and> kind (g_handles s ! j) = H_FREE" using f by blast
  moreover have "handle_to_idx h = int i" "g_handles s' = (g_handles s)[i := \<lparr>kind = k, uval = v\<rparr>]"
    using assms(2) Some f idx_handle_valid(1) [of i] by (auto simp: handle_alloc_def)
  ultimately show ?thesis using f by auto
qed

lemma init_table:
  obtains T where "length T = 4091" "g_handles handles_init
    = file_slot 0 # file_slot 1 # file_slot 2 # free_slot # free_slot # T"
proof
  have "replicate (2 + 4091) free_slot = replicate 2 free_slot @ replicate 4091 free_slot"
    by (rule replicate_add)
  then show "g_handles handles_init = file_slot 0 # file_slot 1 # file_slot 2 # free_slot # free_slot
      # replicate 4091 free_slot"
    by (simp add: handles_init_def MAX_HANDLES_def numeral_2_eq_2)
  show "length (replicate 4091 free_slot) = 4091" by simp
qed

theorem handle_alloc_lowest_free_witness:
  "\<exists>h s'. handle_alloc H_FILE 9 1 handles_init = (h, s') \<and> get_fd h 1 s' = (9, s')"
proof -
  obtain T where T: "length T = 4091" "g_handles handles_init
      = file_slot 0 # file_slot 1 # file_slot 2 # free_slot # free_slot # T"
    by (rule init_table)
  obtain h s' where a: "handle_alloc H_FILE 9 1 handles_init = (h, s')"
    by (cases "handle_alloc H_FILE 9 1 handles_init")
  have "\<exists>j\<ge>3. j < MAX_HANDLES \<and> kind (g_handles handles_init ! j) = H_FREE"
    using T by (intro exI [of _ 3]) (simp add: MAX_HANDLES_def free_slot_def)
  moreover have "length (g_handles handles_init) = MAX_HANDLES" using T by (simp add: MAX_HANDLES_def)
  ultimately have "get_fd h 1 s' = (9, s')" using handle_alloc_lowest_free [OF _ a] by auto
  with a show ?thesis by blast
qed

section \<open>Uses that reach freed objects\<close>

text \<open>
  A duplicated search handle dangles.  \<^verbatim>\<open>DuplicateHandle\<close> copies the slot of a search
  handle without taking a reference; after the original is closed the search context is
  freed, and both the next search through the copy and closing the copy use it.
\<close>

theorem duplicated_find_handle_dangles:
  "\<exists>h1 s1 h2 s2 s3. handle_alloc_find 64 t (set_obj 64 \<lparr>refcount = 1, body = FindB ctx\<rparr> handles_init) = Some (h1, s1)
    \<and> DuplicateHandle mem dup h1 0 t s1 = Some ((True, h2), s2)
    \<and> FindClose h1 t s2 = Some (True, s3)
    \<and> get_find_ctx h2 t s3 = None \<and> CloseHandle h2 t s3 = None"
proof -
  obtain T where T: "length T = 4091" "g_handles handles_init
      = file_slot 0 # file_slot 1 # file_slot 2 # free_slot # free_slot # T"
    by (rule init_table)
  have idx: "handle_to_idx (idx_to_handle 3) = 3" "handle_to_idx (idx_to_handle 4) = 4"
    using idx_handle_valid(1) [of 3] idx_handle_valid(1) [of 4] by (simp_all add: MAX_HANDLES_def)
  have np: "idx_to_handle 3 \<noteq> pseudo_thread" by (simp add: idx_to_handle_def)
  define s1 where "s1 = set_slot 3 \<lparr>kind = H_FIND, uval = 64\<rparr> (set_obj 64 \<lparr>refcount = 1, body = FindB ctx\<rparr> handles_init)"
  define s2 where "s2 = set_slot 4 \<lparr>kind = H_FIND, uval = 64\<rparr> s1"
  define s3 where "s3 = free_obj 64 (set_obj 64 \<lparr>refcount = 0, body = FindB ctx\<rparr> (set_slot 3 free_slot s2))"
  have "handle_alloc_find 64 t (set_obj 64 \<lparr>refcount = 1, body = FindB ctx\<rparr> handles_init) = Some (idx_to_handle 3, s1)"
    using T by (simp add: handle_alloc_find_def handle_alloc_def find_free_def s1_def
        MAX_HANDLES_def file_slot_def free_slot_def set_obj_def)
  moreover have "DuplicateHandle mem dup (idx_to_handle 3) 0 t s1 = Some ((True, idx_to_handle 4), s2)"
    using T idx np by (simp add: DuplicateHandle_def dup_slot_def find_free_def s1_def s2_def Let_def
        MAX_HANDLES_def file_slot_def free_slot_def kind_order)
  moreover have "FindClose (idx_to_handle 3) t s2 = Some (True, s3)"
    using T idx by (simp add: FindClose_def find_close_take_def release_find_ctx_def release_def destroy_def
        find_ctx_free_def s1_def s2_def s3_def Let_def)
  moreover have "get_find_ctx (idx_to_handle 4) t s3 = None" "CloseHandle (idx_to_handle 4) t s3 = None"
    using T idx by (simp_all add: get_find_ctx_def retain_def CloseHandle_def close_take_def close_drop_def
        release_find_ctx_def release_def s1_def s2_def s3_def Let_def)
  ultimately show ?thesis by blast
qed

text \<open>
  A thread that outlives its handle.  The new thread keeps a pointer to its object but no
  reference, so that closing the only handle of a running thread frees the object, and the
  end of the thread writes to it.  Likewise the object of the calling thread that
  \<^verbatim>\<open>DuplicateHandle\<close> made for the pseudo-handle stays cached after the handle is closed, and
  the next duplication uses it.
\<close>

theorem thread_outlives_object:
  "(\<exists>h s1 s2. CreateThread (Some 64) True (Some 7) flags t handles_init = Some (h, s1)
    \<and> CloseHandle h t s1 = Some (True, s2) \<and> thread_finish 64 code s2 = None)
  \<and> (\<exists>h s1 s2. DuplicateHandle (Some 64) dup pseudo_thread options t handles_init = Some ((True, h), s1)
    \<and> CloseHandle h t s1 = Some (True, s2) \<and> DuplicateHandle mem dup pseudo_thread options t s2 = None)"
proof -
  obtain T where T: "length T = 4091" "g_handles handles_init
      = file_slot 0 # file_slot 1 # file_slot 2 # free_slot # free_slot # T"
    by (rule init_table)
  have idx: "handle_to_idx (idx_to_handle 3) = 3" "idx_to_handle 3 \<noteq> INVALID_HANDLE_VALUE"
    using idx_handle_valid [of 3] by (simp_all add: MAX_HANDLES_def)
  let ?th = "\<lambda>n. ThreadB ((new_thread_obj flags)\<lparr>th_tid := n\<rparr>)"
  have "create_sync 64 (ThreadB (new_thread_obj flags)) t handles_init = (idx_to_handle 3,
      set_slot 3 \<lparr>kind = H_THREAD, uval = 64\<rparr>
        (set_obj 64 \<lparr>refcount = 1, body = ThreadB (new_thread_obj flags)\<rparr> handles_init))"
    using T idx by (simp add: create_sync_def handle_alloc_sync_def handle_alloc_def find_free_def
        MAX_HANDLES_def file_slot_def free_slot_def)
  then have "CreateThread (Some 64) True (Some 7) flags t handles_init = Some (idx_to_handle 3,
      set_obj 64 \<lparr>refcount = 1, body = ?th 7\<rparr> (set_slot 3 \<lparr>kind = H_THREAD, uval = 64\<rparr>
        (set_obj 64 \<lparr>refcount = 1, body = ThreadB (new_thread_obj flags)\<rparr> handles_init)))"
    using idx by (simp add: CreateThread_def with_body_def)
  then have a: "\<exists>h s1 s2. CreateThread (Some 64) True (Some 7) flags t handles_init = Some (h, s1)
    \<and> CloseHandle h t s1 = Some (True, s2) \<and> thread_finish 64 code s2 = None"
    using T idx by (simp add: CloseHandle_def close_take_def close_drop_def release_def destroy_def
        sync_obj_destroy_def thread_finish_def with_body_def kind_order Let_def)
  let ?s = "handles_init\<lparr>g_thread_obj_key := (g_thread_obj_key handles_init)(t := 64)\<rparr>"
  have "DuplicateHandle (Some 64) dup pseudo_thread options t handles_init = Some ((True, idx_to_handle 3),
      set_slot 3 \<lparr>kind = H_THREAD, uval = 64\<rparr> (set_obj 64 \<lparr>refcount = 1, body = ThreadB self_thread_obj\<rparr>
        (set_obj 64 \<lparr>refcount = 0, body = ThreadB self_thread_obj\<rparr> ?s)))"
    using T by (simp add: DuplicateHandle_def DuplicateHandle_self_def dup_self_def find_free_def
        MAX_HANDLES_def file_slot_def free_slot_def) (simp add: handles_init_def)
  then have b: "\<exists>h s1 s2. DuplicateHandle (Some 64) dup pseudo_thread options t handles_init = Some ((True, h), s1)
    \<and> CloseHandle h t s1 = Some (True, s2) \<and> DuplicateHandle mem dup pseudo_thread options t s2 = None"
    using T idx by (simp add: CloseHandle_def close_take_def close_drop_def release_def destroy_def
        sync_obj_destroy_def self_thread_obj_def DuplicateHandle_def DuplicateHandle_self_def dup_self_def
        kind_order Let_def) (simp add: set_slot_def set_obj_def free_obj_def)
  from a b show ?thesis by (rule conjI)
qed

end
