(* ===== verification/Shim_Wait.thy ===== *)
theory Shim_Wait
  imports Shim_Safety "HOL-Library.Signed_Division"
begin

text \<open>
  \<^verbatim>\<open>WaitForMultipleObjects\<close> (shim_kernel32_thread.hpp): a polling loop over single waits with an
  expired deadline.  The clock of the host, and what other threads do while the caller sleeps
  between two rounds, are arguments; the loop may run for ever and takes the number of rounds
  as fuel.
\<close>

section \<open>Deadlines\<close>

record timespec =
  tv_sec :: int
  tv_nsec :: int

definition deadline_from_ms :: "u32 \<Rightarrow> timespec \<Rightarrow> timespec" where
  "deadline_from_ms ms now =
    (let sec = tv_sec now + int (unat (ms div 1000));
         nsec = tv_nsec now + int (unat (ms mod 1000)) * 1000000
     in if nsec \<ge> 1000000000 then \<lparr>tv_sec = sec + 1, tv_nsec = nsec - 1000000000\<rparr>
        else \<lparr>tv_sec = sec, tv_nsec = nsec\<rparr>)"

definition time_left_ms :: "u32 \<Rightarrow> timespec \<Rightarrow> timespec \<Rightarrow> u32" where
  "time_left_ms ms deadline now =
    (if ms = INFINITE then INFINITE
     else let diff = (tv_sec deadline - tv_sec now) * 1000 + (tv_nsec deadline - tv_nsec now) sdiv 1000000
       in if diff \<le> 0 then 0 else of_int diff)"

section \<open>Rounds\<close>

fun wait_any_scan :: "nat \<Rightarrow> u64 list \<Rightarrow> nat \<Rightarrow> shim \<Rightarrow> (u32 option \<times> shim) option" where
  "wait_any_scan i [] t s = Some (None, s)"
| "wait_any_scan i (h # hs) t s = do {
     (r, s1) \<leftarrow> WaitForSingleObject Expired h t s;
     (if r = Some WAIT_OBJECT_0 then Some (Some (WAIT_OBJECT_0 + of_nat i), s1)
      else wait_any_scan (Suc i) hs t s1) }"

fun wait_all_scan :: "nat \<Rightarrow> u64 list \<Rightarrow> nat \<Rightarrow> shim \<Rightarrow> ((nat \<times> u32) \<times> shim) option" where
  "wait_all_scan n [] t s = Some ((n, WAIT_OBJECT_0), s)"
| "wait_all_scan n (h # hs) t s = do {
     (r, s1) \<leftarrow> WaitForSingleObject Expired h t s;
     (if r = Some WAIT_OBJECT_0 then wait_all_scan (Suc n) hs t s1
      else Some ((n, if r = Some WAIT_FAILED then WAIT_FAILED else WAIT_TIMEOUT), s1)) }"

fun undo_all :: "u64 list \<Rightarrow> nat \<Rightarrow> shim \<Rightarrow> shim option" where
  "undo_all [] t s = Some s"
| "undo_all (h # hs) t s = do { s1 \<leftarrow> undo_wait_acquire h t s; undo_all hs t s1 }"

text \<open>One pass of the loop body; \<open>None\<close> means that the caller goes on polling.\<close>

definition wait_round :: "bool \<Rightarrow> u64 list \<Rightarrow> nat \<Rightarrow> shim \<Rightarrow> (u32 option \<times> shim) option" where
  "wait_round wait_all hs t s =
    (if \<not> wait_all then wait_any_scan 0 hs t s
     else do {
       ((n, fail), s1) \<leftarrow> wait_all_scan 0 hs t s;
       (if fail = WAIT_OBJECT_0 then Some (Some WAIT_OBJECT_0, s1)
        else do {
          s2 \<leftarrow> undo_all (take n hs) t s1;
          Some (if fail = WAIT_FAILED then Some WAIT_FAILED else None, s2) }) })"

fun wait_rounds ::
    "nat \<Rightarrow> nat \<Rightarrow> bool \<Rightarrow> u64 list \<Rightarrow> (nat \<Rightarrow> u32) \<Rightarrow> (nat \<Rightarrow> shim \<Rightarrow> shim) \<Rightarrow> nat \<Rightarrow> shim \<Rightarrow> (u32 option \<times> shim) option" where
  "wait_rounds 0 k wait_all hs left others t s = Some (None, s)"
| "wait_rounds (Suc fuel) k wait_all hs left others t s = do {
     (r, s1) \<leftarrow> wait_round wait_all hs t s;
     (case r of
        Some ret \<Rightarrow> Some (Some ret, s1)
      | None \<Rightarrow>
         if left k = 0 then Some (Some WAIT_TIMEOUT, s1)
         else wait_rounds fuel (Suc k) wait_all hs left others t (others k s1)) }"

definition WaitForMultipleObjects ::
    "nat \<Rightarrow> u32 \<Rightarrow> u64 list option \<Rightarrow> bool \<Rightarrow> u32 \<Rightarrow> (nat \<Rightarrow> timespec) \<Rightarrow> (nat \<Rightarrow> shim \<Rightarrow> shim) \<Rightarrow> nat \<Rightarrow> shim
      \<Rightarrow> (u32 option \<times> shim) option" where
  "WaitForMultipleObjects fuel n handles wait_all ms clock others t s = (case handles of
       None \<Rightarrow> Some (Some WAIT_FAILED, SET_LAST_ERROR t ERROR_INVALID_PARAMETER s)
     | Some hs \<Rightarrow>
         if n = 0 \<or> n > 64 then Some (Some WAIT_FAILED, SET_LAST_ERROR t ERROR_INVALID_PARAMETER s)
         else wait_rounds fuel 0 wait_all (take (unat n) hs)
           (\<lambda>k. time_left_ms ms (deadline_from_ms ms (clock 0)) (clock (Suc k))) others t s)"

section \<open>Effects on the objects\<close>

text \<open>Counts of a mutex and of a semaphore as pthreads keeps them.\<close>

fun body_wf :: "body \<Rightarrow> bool" where
  "body_wf (MutexB m) = (case mu_owner m of None \<Rightarrow> True | Some (_, n) \<Rightarrow> 0 < n)"
| "body_wf (SemaphoreB sm) = (sem_value sm \<le> 2147483647)"
| "body_wf _ = True"

definition bodies_wf :: "shim \<Rightarrow> bool" where
  "bodies_wf s \<longleftrightarrow> (\<forall>a ob. objs s a = Some ob \<longrightarrow> body_wf (body ob))"

lemma wait_b_wf: "wait_b t e b = Some (r, b') \<Longrightarrow> body_wf b \<Longrightarrow> body_wf b'"
  by (cases b) (auto simp: mutex_lock_def split: option.splits if_splits)

lemma wait_b_failed: "wait_b t e b = Some (Some (ret, err), b') \<Longrightarrow> ret \<noteq> WAIT_OBJECT_0 \<Longrightarrow> b' = b"
  by (cases b) (auto split: option.splits if_splits)

lemma undo_wait_b:
  "wait_b t e b = Some (Some (WAIT_OBJECT_0, err), b') \<Longrightarrow> body_wf b \<Longrightarrow> undo_b t b' = Some ((), b)"
  by (cases b) (auto simp: mutex_lock_def mutex_unlock_def wait_over_def sem_post_def
      split: option.splits if_splits wait_end.splits)

text \<open>The slot of a handle, when it refers to a synchronisation object.\<close>

definition sync_slot :: "HandleSlot list \<Rightarrow> u64 \<Rightarrow> int option" where
  "sync_slot g h = (let i = handle_to_idx h in
     if i < 0 \<or> \<not> H_MUTEX \<le> kind (g ! nat i) then None else Some (uval (g ! nat i)))"

definition undo_map :: "nat \<Rightarrow> int option \<Rightarrow> (int \<rightharpoonup> obj) \<Rightarrow> (int \<rightharpoonup> obj)" where
  "undo_map t q m = (case q of
       None \<Rightarrow> m
     | Some p \<Rightarrow> m(p := map_option (\<lambda>ob. ob\<lparr>body := snd (the (undo_b t (body ob)))\<rparr>) (m p)))"

lemma undo_map_commute: "undo_map t q (undo_map t q' m) = undo_map t q' (undo_map t q m)"
  by (auto simp: undo_map_def fun_eq_iff split: option.splits)

lemma sync_slot_obj:
  assumes "rc_inv s P" and "sync_slot (g_handles s) h = Some p"
  obtains ob where "objs s p = Some ob" "body_kind (body ob) = kind (slot_at s (handle_to_idx h))"
    "H_MUTEX \<le> body_kind (body ob)" "0 < refcount ob" "p = uval (slot_at s (handle_to_idx h))" "0 \<le> handle_to_idx h"
proof -
  have i: "0 \<le> handle_to_idx h" "H_MUTEX \<le> kind (slot_at s (handle_to_idx h))"
      "p = uval (slot_at s (handle_to_idx h))"
    using assms(2) by (auto simp: sync_slot_def Let_def split: if_splits)
  obtain ob where ob: "objs s p = Some ob" "body_kind (body ob) = kind (slot_at s (handle_to_idx h))"
    using rc_inv_slot [OF assms(1) i(1) sync_counted [OF i(2)]] i(3) by metis
  have "0 < refcount ob" using rc_inv_count [OF assms(1) ob(1)] by linarith
  with that i ob show ?thesis by simp
qed

text \<open>Retaining, working on and releasing an object leaves the work as the only change.\<close>

lemma retain_sync:
  assumes "rc_inv s P" and "sync_slot (g_handles s) h = Some p" and "objs s p = Some ob"
  shows "retain (\<lambda>k. H_MUTEX \<le> k) h t s
    = Some (Some (body_kind (body ob), p), set_obj p (ob\<lparr>refcount := refcount ob + 1\<rparr>) s)"
proof -
  obtain ob' where "objs s p = Some ob'" "body_kind (body ob') = kind (slot_at s (handle_to_idx h))"
      "H_MUTEX \<le> body_kind (body ob')" "p = uval (slot_at s (handle_to_idx h))" "0 \<le> handle_to_idx h"
    by (rule sync_slot_obj [OF assms(1,2)])
  with assms(3) show ?thesis by (simp add: retain_def Let_def)
qed

lemma undo_effect:
  assumes "rc_inv s P" and "undo_wait_acquire h t s = Some s'"
  shows "objs s' = undo_map t (sync_slot (g_handles s) h) (objs s) \<and> g_handles s' = g_handles s"
proof (cases "sync_slot (g_handles s) h")
  case None
  with assms(2) show ?thesis
    by (auto simp: undo_wait_acquire_def undo_map_def sync_slot_def Let_def split: if_splits)
next
  case (Some p)
  obtain ob where ob: "objs s p = Some ob" "H_MUTEX \<le> body_kind (body ob)" "0 < refcount ob"
    by (rule sync_slot_obj [OF assms(1) Some])
  obtain r b where b: "undo_b t (body ob) = Some (r, b)" using bodies_total(9) [OF ob(2)] by blast
  have "with_handle (\<lambda>k. H_MUTEX \<le> k) () (undo_b t) h t s = Some (r, s')"
    using assms(2) Some by (auto simp: undo_wait_acquire_def sync_slot_def Let_def Option.bind_eq_Some_conv split: if_splits)
  then show ?thesis
    using retain_sync [OF assms(1) Some ob(1), of t] ob b Some
    by (auto simp: with_handle_def with_body_def release_def undo_map_def)
qed

lemma poll_effect:
  assumes "rc_inv s P" and "WaitForSingleObject Expired h t s = Some (r, s')"
  shows "g_handles s' = g_handles s \<and>
    (if r = Some WAIT_OBJECT_0
     then \<exists>p ob err b. sync_slot (g_handles s) h = Some p \<and> objs s p = Some ob
       \<and> wait_b t Expired (body ob) = Some (Some (WAIT_OBJECT_0, err), b)
       \<and> objs s' = (objs s)(p \<mapsto> ob\<lparr>body := b\<rparr>)
     else objs s' = objs s)"
proof (cases "h = pseudo_thread")
  case True
  with assms(2) show ?thesis by (auto simp: WaitForSingleObject_def)
next
  case np: False
  show ?thesis
  proof (cases "sync_slot (g_handles s) h")
    case None
    then have "retain (\<lambda>k. H_MUTEX \<le> k) h t s = Some (None, SET_LAST_ERROR t ERROR_INVALID_HANDLE s)"
      by (auto simp: retain_def sync_slot_def Let_def split: if_splits)
    with assms(2) np show ?thesis by (auto simp: WaitForSingleObject_def)
  next
    case (Some p)
    obtain ob where ob: "objs s p = Some ob" "H_MUTEX \<le> body_kind (body ob)" "0 < refcount ob"
      by (rule sync_slot_obj [OF assms(1) Some])
    obtain w b where b: "wait_b t Expired (body ob) = Some (w, b)" using bodies_total(8) [OF ob(2)] by blast
    obtain ret err where w: "w = Some (ret, err)" using wait_b_expired [OF b] by auto
    have "ret \<noteq> WAIT_OBJECT_0 \<Longrightarrow> b = body ob" using wait_b_failed b w by blast
    with assms(2) np retain_sync [OF assms(1) Some ob(1), of t] ob b w Some show ?thesis
      by (auto simp: WaitForSingleObject_def with_body_def wait_release_def note_error_def fun_eq_iff Let_def
          split: option.splits)
  qed
qed

lemma undo_all_effect:
  assumes "rc_inv s P" and "undo_all hs t s = Some s'"
  shows "objs s' = fold (undo_map t) (map (sync_slot (g_handles s)) hs) (objs s) \<and> g_handles s' = g_handles s"
  using assms
proof (induction hs arbitrary: s)
  case Nil
  then show ?case by simp
next
  case (Cons h hs)
  obtain s1 where s1: "undo_wait_acquire h t s = Some s1" "rc_inv s1 P"
    using undo_wait_acquire_ok [OF Cons.prems(1)] by blast
  with Cons.prems Cons.IH [OF s1(2)] undo_effect [OF Cons.prems(1) s1(1)] show ?case by simp
qed

lemma fold_undo_map: "fold (undo_map t) qs (undo_map t q m) = undo_map t q (fold (undo_map t) qs m)"
proof (induction qs arbitrary: m)
  case (Cons a qs)
  have "undo_map t a (undo_map t q m) = undo_map t q (undo_map t a m)" by (rule undo_map_commute)
  with Cons.IH show ?case by simp
qed simp


lemma scan_then_undo:
  assumes "rc_inv s P" and "bodies_wf s" and "wait_all_scan n hs t s = Some ((m, fail), s')"
  shows "n \<le> m \<and> m - n \<le> length hs \<and> g_handles s' = g_handles s
    \<and> (m - n < length hs \<longrightarrow> fail \<noteq> WAIT_OBJECT_0) \<and> rc_inv s' P
    \<and> fold (undo_map t) (map (sync_slot (g_handles s)) (take (m - n) hs)) (objs s') = objs s"
  using assms
proof (induction hs arbitrary: n s)
  case Nil
  then show ?case by auto
next
  case (Cons h hs)
  obtain r s1 where w: "WaitForSingleObject Expired h t s = Some (Some r, s1)" "rc_inv s1 P"
    using wait_poll_returns [OF Cons.prems(1)] by blast
  note e = poll_effect [OF Cons.prems(1) w(1)]
  show ?case
  proof (cases "r = WAIT_OBJECT_0")
    case True
    with e obtain p ob err b where p: "sync_slot (g_handles s) h = Some p" "objs s p = Some ob"
        "wait_b t Expired (body ob) = Some (Some (WAIT_OBJECT_0, err), b)"
        "objs s1 = (objs s)(p \<mapsto> ob\<lparr>body := b\<rparr>)" by auto
    have "body_wf (body ob)" using Cons.prems(2) p(2) by (simp add: bodies_wf_def)
    then have u: "undo_b t b = Some ((), body ob)" "body_wf b"
      using undo_wait_b [OF p(3)] wait_b_wf [OF p(3)] by auto
    have wf: "bodies_wf s1" using Cons.prems(2) p u by (auto simp: bodies_wf_def)
    have undo: "undo_map t (Some p) (objs s1) = objs s"
      using p u by (auto simp: undo_map_def fun_eq_iff)
    have sc: "wait_all_scan (Suc n) hs t s1 = Some ((m, fail), s')"
      using Cons.prems(3) w True by simp
    note ih = Cons.IH [OF w(2) wf sc]
    have m: "m - n = Suc (m - Suc n)" using ih by linarith
    have g: "g_handles s1 = g_handles s" using e by simp
    have "fold (undo_map t) (map (sync_slot (g_handles s)) (take (m - n) (h # hs))) (objs s') = objs s"
      using ih undo p(1) by (simp add: m g fold_undo_map)
    with ih m g show ?thesis by auto
  next
    case False
    with Cons.prems w e show ?thesis by (auto split: if_splits)
  qed
qed

text \<open>
  C24: waiting for all objects is all or nothing.  A round of \<^verbatim>\<open>WaitForMultipleObjects\<close> that
  does not acquire every object puts back the ones it had acquired: every mutex, event,
  semaphore and thread is then exactly as before the round, even when a handle occurs several
  times in the list.
\<close>

theorem wait_all_rolls_back:
  assumes "shim_step\<^sup>*\<^sup>* (handles_init, {#}) (s, P)" and "bodies_wf s"
    and "wait_round True hs t s = Some (r, s')" and "r \<noteq> Some WAIT_OBJECT_0"
  shows "objs s' = objs s \<and> g_handles s' = g_handles s"
proof -
  have inv: "rc_inv s P" using reachable_rc_inv [OF assms(1)] rc_inv_init by simp
  obtain n fail s1 where sc: "wait_all_scan 0 hs t s = Some ((n, fail), s1)"
    using assms(3) by (auto simp: wait_round_def Option.bind_eq_Some_conv)
  note e = scan_then_undo [OF inv assms(2) sc]
  have "fail \<noteq> WAIT_OBJECT_0" using assms(3,4) sc by (auto simp: wait_round_def)
  with assms(3) sc have u: "undo_all (take n hs) t s1 = Some s'"
    by (auto simp: wait_round_def Option.bind_eq_Some_conv)
  from e undo_all_effect [of s1 P, OF _ u] show ?thesis by simp
qed

section \<open>Termination\<close>

lemma wait_any_scan_ok:
  assumes "rc_inv s P"
  shows "\<exists>r s'. wait_any_scan i hs t s = Some (r, s') \<and> rc_inv s' P"
  using assms
proof (induction hs arbitrary: i s)
  case Nil
  then show ?case by simp
next
  case (Cons h hs)
  obtain r s1 where "WaitForSingleObject Expired h t s = Some (Some r, s1)" "rc_inv s1 P"
    using wait_poll_returns [OF Cons.prems] by blast
  with Cons.IH [of s1 "Suc i"] show ?case by auto
qed

lemma wait_all_scan_ok:
  assumes "rc_inv s P"
  shows "\<exists>r s'. wait_all_scan n hs t s = Some (r, s') \<and> rc_inv s' P"
  using assms
proof (induction hs arbitrary: n s)
  case Nil
  then show ?case by simp
next
  case (Cons h hs)
  obtain r s1 where "WaitForSingleObject Expired h t s = Some (Some r, s1)" "rc_inv s1 P"
    using wait_poll_returns [OF Cons.prems] by blast
  with Cons.IH [of s1 "Suc n"] show ?case by auto
qed

lemma undo_all_ok:
  assumes "rc_inv s P"
  shows "\<exists>s'. undo_all hs t s = Some s' \<and> rc_inv s' P"
  using assms
proof (induction hs arbitrary: s)
  case Nil
  then show ?case by simp
next
  case (Cons h hs)
  obtain s1 where "undo_wait_acquire h t s = Some s1" "rc_inv s1 P"
    using undo_wait_acquire_ok [OF Cons.prems] by blast
  with Cons.IH [of s1] show ?case by auto
qed

lemma wait_round_ok:
  assumes "rc_inv s P"
  shows "\<exists>r s'. wait_round wait_all hs t s = Some (r, s') \<and> rc_inv s' P"
proof (cases wait_all)
  case True
  obtain n fail s1 where "wait_all_scan 0 hs t s = Some ((n, fail), s1)" "rc_inv s1 P"
    using wait_all_scan_ok [OF assms] by fastforce
  with True undo_all_ok [of s1 P "take n hs" t] show ?thesis by (auto simp: wait_round_def)
next
  case False
  with wait_any_scan_ok [OF assms] show ?thesis by (simp add: wait_round_def)
qed

lemma wait_rounds_returns:
  assumes "rc_inv s P" and "\<And>k s. rc_inv s P \<Longrightarrow> rc_inv (others k s) P"
    and "left (k + m) = 0"
  shows "\<exists>r s'. wait_rounds (Suc m) k wait_all hs left others t s = Some (Some r, s')"
  using assms
proof (induction m arbitrary: k s)
  case 0
  then obtain r s1 where "wait_round wait_all hs t s = Some (r, s1)" using wait_round_ok by blast
  with 0 show ?case by (cases r) auto
next
  case (Suc m)
  obtain r s1 where r: "wait_round wait_all hs t s = Some (r, s1)" "rc_inv s1 P"
    using wait_round_ok [OF Suc.prems(1)] by blast
  show ?case
  proof (cases "r = None \<and> left k \<noteq> 0")
    case True
    have "rc_inv (others k s1) P" using Suc.prems(2) r(2) by blast
    from Suc.IH [OF this Suc.prems(2), of "Suc k"] Suc.prems(3)
    obtain x s' where "wait_rounds (Suc m) (Suc k) wait_all hs left others t (others k s1) = Some (Some x, s')"
      by auto
    with r True show ?thesis by (auto simp del: wait_rounds.simps(2) simp: wait_rounds.simps(2) [of "Suc m"])
  next
    case False
    with r show ?thesis by (cases r) auto
  qed
qed

lemma deadline_passed:
  assumes "ms \<noteq> INFINITE" and "tv_sec d \<le> tv_sec now" and "tv_sec d = tv_sec now \<Longrightarrow> tv_nsec d \<le> tv_nsec now"
    and "0 \<le> tv_nsec d" "tv_nsec d < 1000000000" "0 \<le> tv_nsec now" "tv_nsec now < 1000000000"
  shows "time_left_ms ms d now = 0"
proof -
  have q: "x sdiv 1000000 \<le> (if 0 \<le> x then x div 1000000 else 0)" for x :: int
    by (auto simp: signed_divide_int_def sgn_if pos_imp_zdiv_nonneg_iff)
  have "(tv_sec d - tv_sec now) * 1000 + (tv_nsec d - tv_nsec now) sdiv 1000000 \<le> 0"
  proof (cases "tv_sec d = tv_sec now")
    case True
    then show ?thesis using assms(3) q [of "tv_nsec d - tv_nsec now"] by (auto split: if_splits)
  next
    case False
    have "(tv_nsec d - tv_nsec now) div 1000000 \<le> 999" using assms by linarith
    then show ?thesis using False assms(2) q [of "tv_nsec d - tv_nsec now"] by (auto split: if_splits)
  qed
  with assms(1) show ?thesis by (simp add: time_left_ms_def Let_def)
qed

text \<open>
  C25: a wait with a timeout ends.  If after some round of the polling loop the clock has reached
  the deadline, \<^verbatim>\<open>WaitForMultipleObjects\<close> answers by then, whatever other threads do to the
  objects in between (through the interface, so that the invariant of the table holds).
\<close>

theorem wait_multiple_returns:
  assumes "rc_inv s P" and "\<And>k s. rc_inv s P \<Longrightarrow> rc_inv (others k s) P" and "ms \<noteq> INFINITE"
    and "\<And>k. 0 \<le> tv_nsec (clock k) \<and> tv_nsec (clock k) < 1000000000"
    and "deadline_from_ms ms (clock 0) = d"
    and "tv_sec d < tv_sec (clock (Suc k)) \<or> tv_sec d = tv_sec (clock (Suc k)) \<and> tv_nsec d \<le> tv_nsec (clock (Suc k))"
  shows "\<exists>r s'. WaitForMultipleObjects (Suc k) n handles wait_all ms clock others t s = Some (Some r, s')"
proof -
  have "unat (ms mod 1000) < 1000" by (simp add: unat_mod)
  then have "int (unat (ms mod 1000)) < 1000" by linarith
  then have "uint (ms mod 1000) < 1000" by simp
  then have "0 \<le> tv_nsec d" "tv_nsec d < 1000000000"
    using assms(4) [of 0] assms(5) by (auto simp: deadline_from_ms_def Let_def)
  then have "time_left_ms ms d (clock (Suc k)) = 0"
    using assms by (intro deadline_passed) auto
  then have "\<exists>r s'. wait_rounds (Suc k) 0 wait_all hs (\<lambda>k. time_left_ms ms d (clock (Suc k))) others t s
      = Some (Some r, s')" for hs
    by (intro wait_rounds_returns [OF assms(1), of others]) (simp_all add: assms(2))
  then show ?thesis unfolding WaitForMultipleObjects_def assms(5)
    by (auto simp del: wait_rounds.simps split: option.split)
qed

theorem wait_multiple_returns_witness:
  "\<exists>r s'. WaitForMultipleObjects 2 1 (Some [9]) True 500
     (\<lambda>k. \<lparr>tv_sec = 10 + int k, tv_nsec = 600000000\<rparr>) (\<lambda>k s. s) 1 handles_init = Some (Some r, s')"
proof -
  let ?d = "\<lparr>tv_sec = 11, tv_nsec = 100000000\<rparr>"
  have ms: "(500 :: u32) \<noteq> INFINITE" by simp
  have "deadline_from_ms 500 \<lparr>tv_sec = 10 + int 0, tv_nsec = 600000000\<rparr> = ?d"
    by (simp add: deadline_from_ms_def)
  from wait_multiple_returns [where k = 1 and d = ?d and P = "{#}" and others = "\<lambda>k s. s" and ms = 500
      and clock = "\<lambda>k. \<lparr>tv_sec = 10 + int k, tv_nsec = 600000000\<rparr>", OF rc_inv_init _ ms _ this]
  have "\<exists>r s'. WaitForMultipleObjects (Suc 1) 1 (Some [9]) True 500
     (\<lambda>k. \<lparr>tv_sec = 10 + int k, tv_nsec = 600000000\<rparr>) (\<lambda>k s. s) 1 handles_init = Some (Some r, s')"
    by simp
  moreover have "Suc 1 = (2 :: nat)" by simp
  ultimately show ?thesis by (simp only:)
qed

theorem wait_all_rolls_back_witness:
  "\<exists>s r s'. shim_step\<^sup>*\<^sup>* (handles_init, {#}) (s, {#}) \<and> wait_round True [4, 5] 1 s = Some (r, s')
     \<and> objs s 64 = Some \<lparr>refcount = 1, body = EventB \<lparr>signaled = True, manual_reset = False\<rparr>\<rparr>
     \<and> objs s' = objs s \<and> g_handles s' = g_handles s"
proof -
  let ?a = "EventB \<lparr>signaled = True, manual_reset = False\<rparr>"
  define s where "s = snd (create_sync 64 ?a 1 handles_init)"
  have 1: "shim_step (handles_init, {#}) (s, {#})"
    unfolding s_def by (rule create) (simp_all add: handles_init_def)
  then have st: "shim_step\<^sup>*\<^sup>* (handles_init, {#}) (s, {#})" by simp
  obtain T where T: "length T = 4091" "g_handles handles_init
      = file_slot 0 # file_slot 1 # file_slot 2 # free_slot # free_slot # T"
    by (rule init_table)
  have idx: "handle_to_idx 4 = 3" "handle_to_idx 5 = 4" "idx_to_handle 3 \<noteq> INVALID_HANDLE_VALUE"
    using idx_handle_valid [of 3] idx_handle_valid [of 4] by (simp_all add: MAX_HANDLES_def idx_to_handle_def)
  have s: "s = set_slot 3 \<lparr>kind = H_EVENT, uval = 64\<rparr> (set_obj 64 \<lparr>refcount = 1, body = ?a\<rparr> handles_init)"
    using T idx by (simp add: s_def create_sync_def handle_alloc_sync_def handle_alloc_def find_free_def
        MAX_HANDLES_def file_slot_def free_slot_def)
  have wf: "bodies_wf s" by (simp add: s bodies_wf_def handles_init_def)
  have "WaitForSingleObject Expired 5 t s' = Some (Some WAIT_FAILED, SET_LAST_ERROR t ERROR_INVALID_HANDLE s')"
    if "g_handles s' = g_handles s" for s' t
    using that T idx s by (simp add: WaitForSingleObject_def retain_def free_slot_def kind_order Let_def)
  moreover obtain s1 where "WaitForSingleObject Expired 4 1 s = Some (Some WAIT_OBJECT_0, s1)" "g_handles s1 = g_handles s"
    using T idx s by (simp add: WaitForSingleObject_def retain_def with_body_def wait_release_def note_error_def
        kind_order Let_def)
  ultimately obtain s2 where "wait_all_scan 0 [4, 5] 1 s = Some ((1, WAIT_FAILED), s2)" by simp
  moreover have "rc_inv s2 {#}"
    using scan_then_undo [OF _ wf calculation] reachable_rc_inv [OF st] rc_inv_init by simp
  then obtain s3 where "undo_all [4] 1 s2 = Some s3" using undo_all_ok by blast
  ultimately have w: "wait_round True [4, 5] 1 s = Some (Some WAIT_FAILED, s3)" by (simp add: wait_round_def del: wait_all_scan.simps undo_all.simps)
  have "objs s 64 = Some \<lparr>refcount = 1, body = ?a\<rparr>" by (simp add: s)
  with wait_all_rolls_back [OF st wf w] st w show ?thesis by auto
qed

end
