(* ===== verification/Shim_Unicode.thy ===== *)
theory Shim_Unicode
  imports Shim_Types
begin

text \<open>
  The shim's conversions between UTF-8 and UTF-16 (shim.cpp, shim_kernel32_string.hpp).  A
  NUL-terminated string is the list of its units before the terminator.  The encoders and the
  decoder work on 32-bit code points as the code does; their lemmas read them as arithmetic on
  natural numbers.
\<close>

section \<open>Code points to UTF-8\<close>

definition utf8_enc :: "u32 \<Rightarrow> bytes" where
  "utf8_enc cp =
    (if cp < 0x80 then [ucast cp]
     else if cp < 0x800 then [ucast (0xC0 OR drop_bit 6 cp), ucast (0x80 OR (cp AND 0x3F))]
     else if cp < 0x10000 then
       [ucast (0xE0 OR drop_bit 12 cp), ucast (0x80 OR (drop_bit 6 cp AND 0x3F)), ucast (0x80 OR (cp AND 0x3F))]
     else [ucast (0xF0 OR drop_bit 18 cp), ucast (0x80 OR (drop_bit 12 cp AND 0x3F)),
           ucast (0x80 OR (drop_bit 6 cp AND 0x3F)), ucast (0x80 OR (cp AND 0x3F))])"

definition is_high :: "u16 \<Rightarrow> bool" where
  "is_high c \<longleftrightarrow> 0xD800 \<le> c \<and> c \<le> 0xDBFF"

definition is_low :: "u16 \<Rightarrow> bool" where
  "is_low c \<longleftrightarrow> 0xDC00 \<le> c \<and> c \<le> 0xDFFF"

definition join_surrogates :: "u16 \<Rightarrow> u16 \<Rightarrow> u32" where
  "join_surrogates hi lo = 0x10000 + push_bit 10 (ucast hi - 0xD800) + (ucast lo - 0xDC00)"

text \<open>The loop of \<^verbatim>\<open>wchar_to_utf8\<close>: \<open>i\<close> bytes are written so far.\<close>

fun wchar_to_utf8_loop :: "nat \<Rightarrow> nat \<Rightarrow> u16 list \<Rightarrow> bytes" where
  "wchar_to_utf8_loop dstsz i [] = []"
| "wchar_to_utf8_loop dstsz i (c # cs) =
     (if c = 0 \<or> \<not> i + 4 < dstsz then []
      else (case cs of
          d # ds \<Rightarrow> if is_high c \<and> is_low d
            then utf8_enc (join_surrogates c d)
              @ wchar_to_utf8_loop dstsz (i + length (utf8_enc (join_surrogates c d))) ds
            else utf8_enc (ucast c) @ wchar_to_utf8_loop dstsz (i + length (utf8_enc (ucast c))) cs
        | [] \<Rightarrow> utf8_enc (ucast c)))"

definition wchar_to_utf8 :: "u16 list option \<Rightarrow> nat \<Rightarrow> bytes option" where
  "wchar_to_utf8 src dstsz = (case src of
       None \<Rightarrow> None
     | Some w \<Rightarrow> if dstsz = 0 then None else Some (wchar_to_utf8_loop dstsz 0 w))"

section \<open>UTF-8 to code points\<close>

text \<open>
  The continuation bytes of \<^verbatim>\<open>utf8_next\<close>: \<open>Inl i\<close> when byte \<open>i\<close> is missing or no continuation.
\<close>

fun utf8_cont :: "nat \<Rightarrow> nat \<Rightarrow> u32 \<Rightarrow> bytes \<Rightarrow> nat + u32" where
  "utf8_cont 0 i v bs = Inr v"
| "utf8_cont (Suc n) i v bs = (case bs of
       [] \<Rightarrow> Inl i
     | b # bs' \<Rightarrow> if b AND 0xC0 \<noteq> 0x80 then Inl i
         else utf8_cont n (Suc i) (push_bit 6 v OR (ucast b AND 0x3F)) bs')"

definition utf8_lead :: "u8 \<Rightarrow> (nat \<times> u32) option" where
  "utf8_lead c =
    (if 0xC2 \<le> c \<and> c \<le> 0xDF then Some (1, ucast c AND 0x1F)
     else if 0xE0 \<le> c \<and> c \<le> 0xEF then Some (2, ucast c AND 0x0F)
     else if 0xF0 \<le> c \<and> c \<le> 0xF4 then Some (3, ucast c AND 0x07)
     else None)"

text \<open>The bytes consumed, the code point and whether the bytes were bad.\<close>

definition utf8_next :: "u8 \<Rightarrow> bytes \<Rightarrow> nat \<times> u32 \<times> bool" where
  "utf8_next c bs =
    (if c < 0x80 then (1, ucast c, False)
     else (case utf8_lead c of
         None \<Rightarrow> (1, 0xFFFD, True)
       | Some (n, v) \<Rightarrow> (case utf8_cont n 1 v bs of
           Inl i \<Rightarrow> (i, 0xFFFD, True)
         | Inr v \<Rightarrow>
             if n = 2 \<and> v < 0x800 \<or> n = 3 \<and> v < 0x10000 \<or> v > 0x10FFFF \<or> 0xD800 \<le> v \<and> v \<le> 0xDFFF
             then (n + 1, 0xFFFD, True) else (n + 1, v, False))))"

definition utf16_enc :: "u32 \<Rightarrow> u16 list" where
  "utf16_enc cp =
    (if cp < 0x10000 then [ucast cp]
     else [ucast (0xD800 OR drop_bit 10 (cp - 0x10000)), ucast (0xDC00 OR ((cp - 0x10000) AND 0x3FF))])"

lemma utf8_cont_pos: "utf8_cont n i v bs = Inl j \<Longrightarrow> i \<le> j"
  by (induction n arbitrary: i v bs) (auto split: list.splits if_splits dest: Suc_leD)

lemma utf8_next_pos: "utf8_next c bs = (k, cp, bad) \<Longrightarrow> 0 < k"
  by (auto simp: utf8_next_def split: if_splits option.splits sum.splits dest!: utf8_cont_pos)

text \<open>The loop of \<^verbatim>\<open>utf8_to_wchar\<close>: \<open>i\<close> units are written so far.\<close>

function utf8_to_wchar_loop :: "nat \<Rightarrow> nat \<Rightarrow> bytes \<Rightarrow> u16 list" where
  "utf8_to_wchar_loop dstsz i [] = []"
| "utf8_to_wchar_loop dstsz i (b # bs) =
     (if \<not> i + 1 < dstsz then []
      else (case utf8_next b bs of (k, cp, _) \<Rightarrow>
        if cp < 0x10000 then ucast cp # utf8_to_wchar_loop dstsz (i + 1) (drop k (b # bs))
        else if i + 2 \<ge> dstsz then []
        else utf16_enc cp @ utf8_to_wchar_loop dstsz (i + 2) (drop k (b # bs))))"
  by pat_completeness auto
termination
  by (relation "measure (\<lambda>(dstsz, i, bs). length bs)") (auto dest!: utf8_next_pos [OF sym])

definition c_string :: "bytes \<Rightarrow> bytes" where
  "c_string bs = takeWhile (\<lambda>b. b \<noteq> 0) bs"

definition utf8_to_wchar :: "bytes option \<Rightarrow> nat \<Rightarrow> u16 list option" where
  "utf8_to_wchar src dstsz = (case src of
       None \<Rightarrow> None
     | Some b \<Rightarrow> if dstsz = 0 then None else Some (utf8_to_wchar_loop dstsz 0 (c_string b)))"

section \<open>Bit fields as arithmetic\<close>

lemma unat_ucast_u8 [simp]: "unat (ucast (b :: u8) :: u32) = unat b"
proof -
  have "unat b < 2 ^ 32" using unat_byte_less [of b] by simp
  then show ?thesis by (simp add: unsigned_ucast_eq take_bit_nat_eq_self)
qed

lemma unat_ucast_u16 [simp]: "unat (ucast (b :: u16) :: u32) = unat b"
proof -
  have "unat b < 2 ^ LENGTH(16)" by (rule unsigned_less)
  then have "unat b < 2 ^ 32" by simp
  then show ?thesis by (simp add: unsigned_ucast_eq take_bit_nat_eq_self)
qed

lemma take_bit_small: "unat (x :: u32) < 2 ^ n \<Longrightarrow> take_bit n x = x"
  by (rule word_unat_eq_iff [THEN iffD2]) (simp only: unsigned_take_bit_eq take_bit_nat_eq_self)

lemma or_add:
  assumes "unat (x :: u32) < 2 ^ n"
  shows "push_bit n a OR x = push_bit n a + x"
proof -
  have "push_bit n a AND take_bit n x = 0" by (rule bit_word_eqI) (auto simp: bit_simps)
  then show ?thesis using take_bit_small [OF assms] by (simp add: disjunctive_add_eq_or)
qed

lemma unat_and_mask: "unat (x AND mask n :: u32) = unat x mod 2 ^ n"
  by (metis take_bit_eq_mask unsigned_take_bit_eq take_bit_nat_def)

lemma masks:
  "x AND (0x3F :: u32) = x AND mask 6" "x AND (0x1F :: u32) = x AND mask 5"
  "x AND (0x0F :: u32) = x AND mask 4" "x AND (0x07 :: u32) = x AND mask 3"
  "x AND (0x3FF :: u32) = x AND mask 10"
  by (simp_all add: mask_eq_exp_minus_1)

lemma unat_drop: "unat (drop_bit n (x :: u32)) = unat x div 2 ^ n"
  by (metis unat_drop_bit_eq drop_bit_nat_def)

text \<open>A lead or continuation byte: its marker above \<open>n\<close> bits of payload.\<close>

lemma unat_marked:
  assumes "unat (x :: u32) < 2 ^ n" and "unat (push_bit n a :: u32) + 2 ^ n \<le> 256"
  shows "unat (ucast (push_bit n a OR x) :: u8) = unat (push_bit n a :: u32) + unat x"
proof -
  have "unat (push_bit n a + x) = unat (push_bit n a :: u32) + unat x"
    using assms by (intro unat_add_nowrap) simp
  with assms show ?thesis by (simp add: or_add unat_ucast_byte)
qed

lemma marked_bytes:
  "unat x < 64 \<Longrightarrow> unat (ucast (0x80 OR x :: u32) :: u8) = 128 + unat x"
  "unat x < 32 \<Longrightarrow> unat (ucast (0xC0 OR x :: u32) :: u8) = 192 + unat x"
  "unat x < 16 \<Longrightarrow> unat (ucast (0xE0 OR x :: u32) :: u8) = 224 + unat x"
  "unat x < 8 \<Longrightarrow> unat (ucast (0xF0 OR x :: u32) :: u8) = 240 + unat x"
  using unat_marked [of x 6 2] unat_marked [of x 5 6] unat_marked [of x 4 14] unat_marked [of x 3 30]
  by simp_all

lemma is_cont: "(b :: u8) AND 0xC0 = 0x80 \<longleftrightarrow> 128 \<le> unat b \<and> unat b < 192"
proof -
  have c0: "(0xC0 :: u8) = NOT (mask 6)" by (simp add: mask_eq_exp_minus_1)
  have "b AND 0xC0 = 0x80 \<longleftrightarrow> unat (b AND NOT (mask 6)) = 128"
    by (simp only: c0 word_unat_eq_iff) simp
  also have "\<dots> \<longleftrightarrow> unat b div 64 * 64 = 128" by (simp only: unat_and_not_mask) simp
  also have "\<dots> \<longleftrightarrow> 128 \<le> unat b \<and> unat b < 192"
    using div_mult_mod_eq [of "unat b" 64] mod_less_divisor [of 64 "unat b"] by auto
  finally show ?thesis .
qed

lemma unat_join6:
  assumes "unat (v :: u32) < 2 ^ 26"
  shows "unat (push_bit 6 v OR (ucast (b :: u8) AND 0x3F)) = unat v * 64 + unat b mod 64"
proof -
  have b: "unat (ucast b AND 0x3F :: u32) = unat b mod 64"
    by (simp only: masks unat_and_mask) simp
  have p: "unat (push_bit 6 v) = unat v * 64"
    using assms by (simp only: unsigned_push_bit_eq) (simp add: push_bit_eq_mult take_bit_nat_eq_self)
  have "push_bit 6 v OR (ucast b AND 0x3F) = push_bit 6 v + (ucast b AND 0x3F)"
    by (rule or_add) (simp only: b, simp)
  also have "unat \<dots> = unat v * 64 + unat b mod 64"
    using assms b p by (subst unat_add_nowrap) simp_all
  finally show ?thesis .
qed

section \<open>Decoding what was encoded\<close>

lemma strip_marker:
  "q < 64 \<Longrightarrow> (128 + q) mod 64 = (q :: nat)" "q < 32 \<Longrightarrow> (192 + q) mod 32 = (q :: nat)"
  "q < 16 \<Longrightarrow> (224 + q) mod 16 = (q :: nat)" "q < 8 \<Longrightarrow> (240 + q) mod 8 = (q :: nat)"
  using mod_mult_self3 [of 2 64 q] mod_mult_self3 [of 6 32 q] mod_mult_self3 [of 14 16 q] mod_mult_self3 [of 30 8 q]
  by simp_all

lemma div_steps: "(x :: nat) div 262144 = x div 4096 div 64" "x div 4096 = x div 64 div 64"
  by (simp_all flip: div_mult2_eq)

lemma div_join: "(x :: nat) div 64 * 64 + x mod 64 = x"
  by (rule div_mult_mod_eq)

text \<open>The scalar values: what UTF-8 and UTF-16 can encode.\<close>

definition scalar :: "u32 \<Rightarrow> bool" where
  "scalar c \<longleftrightarrow> unat c < 0x110000 \<and> \<not> (0xD800 \<le> unat c \<and> unat c < 0xE000)"

lemma word_eq_unat: "unat (a :: u32) = unat b \<Longrightarrow> a = b"
  by (simp add: word_unat_eq_iff)

lemma utf8_cont_step:
  assumes "128 \<le> unat b" and "unat b < 192"
  shows "utf8_cont (Suc n) i v (b # bs) = utf8_cont n (Suc i) (push_bit 6 v OR (ucast b AND 0x3F)) bs"
  using assms is_cont [of b] by simp

lemma unat_lead:
  "unat (ucast (c :: u8) AND 0x1F :: u32) = unat c mod 32"
  "unat (ucast c AND 0x0F :: u32) = unat c mod 16"
  "unat (ucast c AND 0x07 :: u32) = unat c mod 8"
  by (simp_all only: masks unat_and_mask) simp_all

lemma utf8_next_enc2:
  assumes "0x80 \<le> unat c" and "unat c < 0x800"
  shows "utf8_next (ucast (0xC0 OR drop_bit 6 c)) (ucast (0x80 OR (c AND 0x3F)) # bs) = (2, c, False)"
proof -
  let ?l = "ucast (0xC0 OR drop_bit 6 c) :: u8" and ?t = "ucast (0x80 OR (c AND 0x3F)) :: u8"
  have l: "unat ?l = 192 + unat c div 64"
    using assms by (subst marked_bytes) (simp_all add: unat_drop)
  have t: "unat ?t = 128 + unat c mod 64"
    by (subst marked_bytes) (simp_all only: masks unat_and_mask, simp_all)
  have v: "push_bit 6 (ucast ?l AND 0x1F :: u32) OR (ucast ?t AND 0x3F) = c"
  proof (rule word_eq_unat, subst unat_join6)
    show "unat (ucast ?l AND 0x1F :: u32) < 2 ^ 26" by (simp add: unat_lead)
    show "unat (ucast ?l AND 0x1F :: u32) * 64 + unat ?t mod 64 = unat c"
      unfolding unat_lead l t using assms by (simp add: strip_marker less_mult_imp_div_less div_join)
  qed
  have "2 \<le> unat c div 64" "unat c div 64 < 32"
    using assms div_join [of "unat c"] mod_less_divisor [of 64 "unat c"] by linarith+
  then have "utf8_lead ?l = Some (1, ucast ?l AND 0x1F)"
    using l by (simp add: utf8_lead_def word_le_nat_alt)
  moreover have "utf8_cont 1 1 (ucast ?l AND 0x1F) (?t # bs) = Inr c"
    using utf8_cont_step [of ?t 0 1 _ bs] t v by simp
  ultimately show ?thesis using assms l
    by (simp add: utf8_next_def word_less_nat_alt word_le_nat_alt)
qed

lemma utf8_next_enc3:
  assumes "0x800 \<le> unat c" and "unat c < 0x10000" and "\<not> (0xD800 \<le> unat c \<and> unat c < 0xE000)"
  shows "utf8_next (ucast (0xE0 OR drop_bit 12 c))
    (ucast (0x80 OR (drop_bit 6 c AND 0x3F)) # ucast (0x80 OR (c AND 0x3F)) # bs) = (3, c, False)"
proof -
  let ?l = "ucast (0xE0 OR drop_bit 12 c) :: u8" and ?s = "ucast (0x80 OR (drop_bit 6 c AND 0x3F)) :: u8"
    and ?t = "ucast (0x80 OR (c AND 0x3F)) :: u8"
  have l: "unat ?l = 224 + unat c div 4096"
    using assms by (subst marked_bytes) (simp_all add: unat_drop)
  have s: "unat ?s = 128 + unat c div 64 mod 64"
    by (subst marked_bytes) (simp_all only: masks unat_and_mask unat_drop, simp_all)
  have t: "unat ?t = 128 + unat c mod 64"
    by (subst marked_bytes) (simp_all only: masks unat_and_mask, simp_all)
  let ?v1 = "push_bit 6 (ucast ?l AND 0x0F :: u32) OR (ucast ?s AND 0x3F)"
  have v1: "unat ?v1 = unat c div 64"
  proof (subst unat_join6)
    show "unat (ucast ?l AND 0x0F :: u32) < 2 ^ 26" by (simp add: unat_lead)
    show "unat (ucast ?l AND 0x0F :: u32) * 64 + unat ?s mod 64 = unat c div 64"
      unfolding unat_lead l s using assms(2)
      by (simp add: strip_marker less_mult_imp_div_less div_join div_steps)
  qed
  have v2: "push_bit 6 ?v1 OR (ucast ?t AND 0x3F) = c"
  proof (rule word_eq_unat, subst unat_join6)
    show "unat ?v1 < 2 ^ 26" unfolding v1 using assms(2) by simp
    show "unat ?v1 * 64 + unat ?t mod 64 = unat c" unfolding v1 t by (simp add: strip_marker div_join)
  qed
  have "utf8_lead ?l = Some (2, ucast ?l AND 0x0F)"
    using assms l by (simp add: utf8_lead_def word_le_nat_alt)
  moreover have "utf8_cont 2 1 (ucast ?l AND 0x0F) (?s # ?t # bs) = Inr c"
    using utf8_cont_step [of ?s 1 1 _ "?t # bs"] utf8_cont_step [of ?t 0 2 _ bs] s t v2
    by (simp add: numeral_2_eq_2)
  ultimately show ?thesis using assms l
    by (simp add: utf8_next_def word_less_nat_alt word_le_nat_alt) linarith
qed

lemma utf8_next_enc4:
  assumes "0x10000 \<le> unat c" and "unat c < 0x110000"
  shows "utf8_next (ucast (0xF0 OR drop_bit 18 c)) (ucast (0x80 OR (drop_bit 12 c AND 0x3F))
    # ucast (0x80 OR (drop_bit 6 c AND 0x3F)) # ucast (0x80 OR (c AND 0x3F)) # bs) = (4, c, False)"
proof -
  let ?l = "ucast (0xF0 OR drop_bit 18 c) :: u8" and ?r = "ucast (0x80 OR (drop_bit 12 c AND 0x3F)) :: u8"
    and ?s = "ucast (0x80 OR (drop_bit 6 c AND 0x3F)) :: u8" and ?t = "ucast (0x80 OR (c AND 0x3F)) :: u8"
  have l: "unat ?l = 240 + unat c div 262144"
    using assms by (subst marked_bytes) (simp_all add: unat_drop)
  have r: "unat ?r = 128 + unat c div 4096 mod 64"
    by (subst marked_bytes) (simp_all only: masks unat_and_mask unat_drop, simp_all)
  have s: "unat ?s = 128 + unat c div 64 mod 64"
    by (subst marked_bytes) (simp_all only: masks unat_and_mask unat_drop, simp_all)
  have t: "unat ?t = 128 + unat c mod 64"
    by (subst marked_bytes) (simp_all only: masks unat_and_mask, simp_all)
  let ?v1 = "push_bit 6 (ucast ?l AND 0x07 :: u32) OR (ucast ?r AND 0x3F)"
  let ?v2 = "push_bit 6 ?v1 OR (ucast ?s AND 0x3F)"
  have v1: "unat ?v1 = unat c div 4096"
  proof (subst unat_join6)
    show "unat (ucast ?l AND 0x07 :: u32) < 2 ^ 26" by (simp add: unat_lead)
    show "unat (ucast ?l AND 0x07 :: u32) * 64 + unat ?r mod 64 = unat c div 4096"
      unfolding unat_lead l r using assms
      by (simp add: strip_marker less_mult_imp_div_less div_join div_steps)
  qed
  have v2: "unat ?v2 = unat c div 64"
  proof (subst unat_join6)
    show "unat ?v1 < 2 ^ 26" unfolding v1 using assms by simp
    show "unat ?v1 * 64 + unat ?s mod 64 = unat c div 64" unfolding v1 s div_steps by (simp add: strip_marker div_join)
  qed
  have v3: "push_bit 6 ?v2 OR (ucast ?t AND 0x3F) = c"
  proof (rule word_eq_unat, subst unat_join6)
    show "unat ?v2 < 2 ^ 26" unfolding v2 using assms(2) by simp
    show "unat ?v2 * 64 + unat ?t mod 64 = unat c" unfolding v2 t by (simp add: strip_marker div_join)
  qed
  have "utf8_lead ?l = Some (3, ucast ?l AND 0x07)"
    using assms l by (simp add: utf8_lead_def word_le_nat_alt)
  moreover have "utf8_cont 3 1 (ucast ?l AND 0x07) (?r # ?s # ?t # bs) = Inr c"
    using utf8_cont_step [of ?r 2 1 _ "?s # ?t # bs"] utf8_cont_step [of ?s 1 2 _ "?t # bs"]
      utf8_cont_step [of ?t 0 3 _ bs] r s t v3
    by (simp add: numeral_3_eq_3 numeral_2_eq_2)
  ultimately show ?thesis using assms l
    by (simp add: utf8_next_def word_less_nat_alt word_le_nat_alt)
qed

text \<open>Decoding an encoded scalar value consumes its bytes and gives it back.\<close>

lemma utf8_next_enc:
  assumes "scalar c"
  shows "\<exists>b bs'. utf8_enc c @ bs = b # bs' \<and> utf8_next b bs' = (length (utf8_enc c), c, False)"
proof -
  note r = assms [unfolded scalar_def]
  consider "unat c < 0x80" | "0x80 \<le> unat c" "unat c < 0x800" | "0x800 \<le> unat c" "unat c < 0x10000"
    | "0x10000 \<le> unat c" by linarith
  then show ?thesis
  proof cases
    case 1
    then have "unat (ucast c :: u8) = unat c" by (simp add: unat_ucast_byte)
    moreover from this have "ucast (ucast c :: u8) = c" by (intro word_eq_unat) simp
    ultimately show ?thesis using 1 by (simp add: utf8_enc_def utf8_next_def word_less_nat_alt)
  next
    case 2
    with utf8_next_enc2 [OF 2] show ?thesis by (simp add: utf8_enc_def word_less_nat_alt)
  next
    case 3
    with utf8_next_enc3 [OF 3] r show ?thesis by (simp add: utf8_enc_def word_less_nat_alt)
  next
    case 4
    with utf8_next_enc4 [OF 4] r show ?thesis by (simp add: utf8_enc_def word_less_nat_alt)
  qed
qed

section \<open>Surrogates\<close>

lemma unat_join:
  assumes "is_high hi" and "is_low lo"
  shows "unat (join_surrogates hi lo) = 0x10000 + (unat hi - 0xD800) * 1024 + (unat lo - 0xDC00)"
    and "0x10000 \<le> unat (join_surrogates hi lo)" and "unat (join_surrogates hi lo) < 0x110000"
proof -
  have r: "0xD800 \<le> unat hi" "unat hi \<le> 0xDBFF" "0xDC00 \<le> unat lo" "unat lo \<le> 0xDFFF"
    using assms by (simp_all add: is_high_def is_low_def word_le_nat_alt)
  have h: "unat (ucast hi - 0xD800 :: u32) = unat hi - 0xD800"
    using r by (subst unat_sub) (simp_all add: word_le_nat_alt)
  have l: "unat (ucast lo - 0xDC00 :: u32) = unat lo - 0xDC00"
    using r by (subst unat_sub) (simp_all add: word_le_nat_alt)
  have p: "unat (push_bit 10 (ucast hi - 0xD800 :: u32)) = (unat hi - 0xD800) * 1024"
    using r by (simp only: unsigned_push_bit_eq h) (simp add: push_bit_eq_mult take_bit_nat_eq_self)
  have "unat (0x10000 + push_bit 10 (ucast hi - 0xD800) :: u32) = 0x10000 + (unat hi - 0xD800) * 1024"
    using r by (subst unat_add_nowrap) (simp_all only: p, simp_all)
  then show j: "unat (join_surrogates hi lo) = 0x10000 + (unat hi - 0xD800) * 1024 + (unat lo - 0xDC00)"
    unfolding join_surrogates_def using r by (subst unat_add_nowrap) (simp_all only: l, simp_all)
  show "0x10000 \<le> unat (join_surrogates hi lo)" "unat (join_surrogates hi lo) < 0x110000"
    unfolding j using r by auto
qed

lemma unat_ucast_small16: "unat (x :: u32) < 0x10000 \<Longrightarrow> unat (ucast x :: u16) = unat x"
  by (simp add: unsigned_ucast_eq take_bit_eq_mod)

lemma utf16_enc_join:
  assumes "is_high hi" and "is_low lo"
  shows "utf16_enc (join_surrogates hi lo) = [hi, lo]"
proof -
  have r: "0xD800 \<le> unat hi" "unat hi \<le> 0xDBFF" "0xDC00 \<le> unat lo" "unat lo \<le> 0xDFFF"
    using assms by (simp_all add: is_high_def is_low_def word_le_nat_alt)
  let ?j = "join_surrogates hi lo - 0x10000"
  have j: "unat ?j = (unat hi - 0xD800) * 1024 + (unat lo - 0xDC00)"
    using unat_join [OF assms] by (subst unat_sub) (simp_all add: word_le_nat_alt)
  have split: "(a * 1024 + b) div 1024 = a" "(a * 1024 + b) mod 1024 = b" if "b < 1024" for a b :: nat
    using that by simp_all
  have d: "unat ?j div 1024 = unat hi - 0xD800" "unat ?j mod 1024 = unat lo - 0xDC00"
    unfolding j by (rule split, use r in simp)+
  have "push_bit 10 54 OR drop_bit 10 ?j = push_bit 10 54 + drop_bit 10 ?j"
    using d r by (intro or_add) (simp add: unat_drop)
  moreover have "unat (push_bit 10 54 + drop_bit 10 ?j :: u32) = unat hi"
    using d r by (subst unat_add_nowrap) (simp_all add: unat_drop)
  ultimately have hi: "unat (ucast (0xD800 OR drop_bit 10 ?j) :: u16) = unat hi"
    using r by (subst unat_ucast_small16) simp_all
  have m: "unat (?j AND 0x3FF) = unat lo - 0xDC00" using d by (simp only: masks unat_and_mask) simp
  have "push_bit 10 55 OR (?j AND 0x3FF) = push_bit 10 55 + (?j AND 0x3FF)"
    using r by (intro or_add) (simp only: m, simp)
  moreover from m have "unat (push_bit 10 55 + (?j AND 0x3FF) :: u32) = unat lo"
    using r by (subst unat_add_nowrap) simp_all
  ultimately have lo: "unat (ucast (0xDC00 OR (?j AND 0x3FF)) :: u16) = unat lo"
    using r by (subst unat_ucast_small16) simp_all
  from hi lo show ?thesis using unat_join(2) [OF assms]
    by (simp add: utf16_enc_def word_less_nat_alt word_unat_eq_iff)
qed

text \<open>Well-formed UTF-16 without a NUL: surrogates come in pairs.\<close>

fun utf16_ok :: "u16 list \<Rightarrow> bool" where
  "utf16_ok [] = True"
| "utf16_ok (c # cs) = (c \<noteq> 0 \<and> (if is_high c then (case cs of d # ds \<Rightarrow> is_low d \<and> utf16_ok ds | [] \<Rightarrow> False)
     else \<not> is_low c \<and> utf16_ok cs))"

text \<open>The code points of such a string.\<close>

fun code_points :: "u16 list \<Rightarrow> u32 list" where
  "code_points [] = []"
| "code_points (c # cs) = (case cs of
       d # ds \<Rightarrow> if is_high c \<and> is_low d then join_surrogates c d # code_points ds else ucast c # code_points cs
     | [] \<Rightarrow> [ucast c])"

lemma utf16_ok_induct [consumes 1, case_names Nil pair single]:
  assumes "utf16_ok w" and "P []"
    and "\<And>c d ds. is_high c \<Longrightarrow> is_low d \<Longrightarrow> utf16_ok ds \<Longrightarrow> P ds \<Longrightarrow> P (c # d # ds)"
    and "\<And>c cs. c \<noteq> 0 \<Longrightarrow> \<not> is_high c \<Longrightarrow> \<not> is_low c \<Longrightarrow> utf16_ok cs \<Longrightarrow> P cs \<Longrightarrow> P (c # cs)"
  shows "P w"
  using assms(1)
proof (induction w rule: length_induct)
  case (1 w)
  then show ?case
  proof (cases w)
    case (Cons c cs)
    then show ?thesis
    proof (cases "is_high c")
      case True
      with 1 Cons obtain d ds where "cs = d # ds" "is_low d" "utf16_ok ds" by (auto split: list.splits)
      with 1 Cons True show ?thesis by (auto intro!: assms(3))
    next
      case False
      with 1 Cons show ?thesis by (auto intro!: assms(4))
    qed
  qed (simp add: assms(2))
qed

lemma high_nonzero: "is_high c \<Longrightarrow> c \<noteq> 0"
  by (auto simp: is_high_def)

lemma code_points_pair: "is_high c \<Longrightarrow> is_low d \<Longrightarrow> code_points (c # d # ds) = join_surrogates c d # code_points ds"
  by simp

lemma code_points_single: "\<not> is_high c \<Longrightarrow> code_points (c # cs) = ucast c # code_points cs"
  by (cases cs) simp_all

lemma code_points_scalar:
  assumes "utf16_ok w" and "c \<in> set (code_points w)"
  shows "scalar c \<and> c \<noteq> 0"
  using assms
proof (induction rule: utf16_ok_induct)
  case (pair x d ds)
  have "scalar (join_surrogates x d) \<and> join_surrogates x d \<noteq> 0"
    using unat_join [OF pair(1,2)] by (auto simp: scalar_def word_unat_eq_iff)
  with pair show ?case by (auto simp del: code_points.simps simp: code_points_pair)
next
  case (single x xs)
  have "unat x < 2 ^ LENGTH(16)" by (rule unsigned_less)
  with single(1-3) have "scalar (ucast x) \<and> (ucast x :: u32) \<noteq> 0"
    by (auto simp: scalar_def is_high_def is_low_def word_le_nat_alt word_unat_eq_iff)
  with single show ?case by (auto simp del: code_points.simps simp: code_points_single)
qed simp

lemma code_points_utf16: "utf16_ok w \<Longrightarrow> concat (map utf16_enc (code_points w)) = w"
proof (induction rule: utf16_ok_induct)
  case (pair x d ds)
  then show ?case by (simp del: code_points.simps add: code_points_pair utf16_enc_join)
next
  case (single x xs)
  have "unat x < 2 ^ LENGTH(16)" by (rule unsigned_less)
  then have "utf16_enc (ucast x) = [x]"
    by (simp add: utf16_enc_def word_less_nat_alt word_unat_eq_iff unat_ucast_small16)
  with single show ?case by (simp del: code_points.simps add: code_points_single)
qed simp

lemma length_utf8_enc: "1 \<le> length (utf8_enc c)" "length (utf8_enc c) \<le> 4"
  "unat c < 0x10000 \<Longrightarrow> length (utf8_enc c) \<le> 3"
  by (auto simp: utf8_enc_def word_less_nat_alt)

text \<open>With room for three bytes per unit the whole string is converted.\<close>

lemma wchar_to_utf8_all:
  "utf16_ok w \<Longrightarrow> i + 3 * length w + 1 < n \<Longrightarrow>
    wchar_to_utf8_loop n i w = concat (map utf8_enc (code_points w))"
proof (induction arbitrary: i rule: utf16_ok_induct)
  case (pair c d ds)
  have l: "length (utf8_enc (join_surrogates c d)) \<le> 4" by (rule length_utf8_enc)
  have "wchar_to_utf8_loop n (i + length (utf8_enc (join_surrogates c d))) ds = concat (map utf8_enc (code_points ds))"
    using pair.prems l by (intro pair.IH) simp
  with pair show ?case by (simp add: high_nonzero)
next
  case (single c cs)
  have "unat c < 2 ^ LENGTH(16)" by (rule unsigned_less)
  then have l: "length (utf8_enc (ucast c)) \<le> 3" by (intro length_utf8_enc) simp
  have "wchar_to_utf8_loop n (i + length (utf8_enc (ucast c))) cs = concat (map utf8_enc (code_points cs))"
    using single.prems l by (intro single.IH) simp
  with single show ?case by (cases cs) simp_all
qed simp

text \<open>Decoding the encoding of a list of scalar values.\<close>

lemma utf8_to_wchar_all:
  assumes "\<And>c. c \<in> set cs \<Longrightarrow> scalar c" and "i + length (concat (map utf16_enc cs)) < m"
  shows "utf8_to_wchar_loop m i (concat (map utf8_enc cs)) = concat (map utf16_enc cs)"
  using assms
proof (induction cs arbitrary: i)
  case (Cons c cs)
  obtain b bs where b: "utf8_enc c @ concat (map utf8_enc cs) = b # bs"
      "utf8_next b bs = (length (utf8_enc c), c, False)"
    using utf8_next_enc [of c "concat (map utf8_enc cs)"] Cons.prems(1) by auto
  then have d: "drop (length (utf8_enc c)) (b # bs) = concat (map utf8_enc cs)" by (metis append_eq_conv_conj)
  have len: "length (utf16_enc c) = (if c < 0x10000 then 1 else 2)" by (simp add: utf16_enc_def)
  have ih: "utf8_to_wchar_loop m (i + length (utf16_enc c)) (concat (map utf8_enc cs)) = concat (map utf16_enc cs)"
    using Cons.prems by (intro Cons.IH) auto
  have "utf8_to_wchar_loop m i (b # bs) = utf16_enc c @ concat (map utf16_enc cs)"
    using Cons.prems(2) b d len ih by (auto simp: utf16_enc_def split: if_splits)
  with b show ?case by simp
qed simp

lemma utf8_enc_nonzero:
  assumes "scalar c" and "c \<noteq> 0"
  shows "0 \<notin> set (utf8_enc c)"
proof -
  have z: "(x :: u8) = 0 \<longleftrightarrow> unat x = 0" for x by (simp add: word_unat_eq_iff)
  have m: "unat (x AND 0x3F :: u32) < 64" for x by (simp only: masks unat_and_mask) simp
  have t: "unat (ucast (0x80 OR (x AND 0x3F :: u32)) :: u8) \<noteq> 0" for x
    using marked_bytes(1) [OF m [of x]] by simp
  have c: "unat c < 0x110000" "unat c \<noteq> 0" using assms by (auto simp: scalar_def word_unat_eq_iff)
  have l2: "unat (ucast (0xC0 OR drop_bit 6 c) :: u8) \<noteq> 0" if "unat c < 0x800"
    using that by (subst marked_bytes) (simp_all add: unat_drop)
  have l3: "unat (ucast (0xE0 OR drop_bit 12 c) :: u8) \<noteq> 0" if "unat c < 0x10000"
    using that by (subst marked_bytes) (simp_all add: unat_drop)
  have l4: "unat (ucast (0xF0 OR drop_bit 18 c) :: u8) \<noteq> 0"
    using c by (subst marked_bytes) (simp_all add: unat_drop)
  from c t l2 l3 l4 show ?thesis
    by (auto simp: utf8_enc_def z word_less_nat_alt unat_ucast_byte split: if_splits)
qed

text \<open>
  C36: converting a wide string to UTF-8 and back.  For well-formed UTF-16 and buffers that
  are large enough (three bytes per unit and the terminator; one unit more than the string),
  \<^verbatim>\<open>utf8_to_wchar\<close> recovers exactly the string \<^verbatim>\<open>wchar_to_utf8\<close> was given, surrogate pairs
  included.
\<close>

theorem wide_string_round_trip:
  assumes "utf16_ok w" and "3 * length w + 1 < n" and "length w < m"
  shows "utf8_to_wchar (wchar_to_utf8 (Some w) n) m = Some w"
proof -
  let ?b = "concat (map utf8_enc (code_points w))"
  have "wchar_to_utf8 (Some w) n = Some ?b"
    using assms(1,2) by (simp add: wchar_to_utf8_def wchar_to_utf8_all)
  moreover have "c_string ?b = ?b"
    using code_points_scalar [OF assms(1)] utf8_enc_nonzero
    by (fastforce simp: c_string_def takeWhile_eq_all_conv)
  moreover have "utf8_to_wchar_loop m 0 ?b = w"
    using code_points_scalar [OF assms(1)] code_points_utf16 [OF assms(1)] assms(3)
      utf8_to_wchar_all [of "code_points w" 0 m] by simp
  ultimately show ?thesis using assms(3) by (simp add: utf8_to_wchar_def)
qed

theorem wide_string_round_trip_witness:
  "utf8_to_wchar (wchar_to_utf8 (Some [0x43, 0xE9, 0x4E2D, 0xD83D, 0xDE00]) 20) 6
     = Some [0x43, 0xE9, 0x4E2D, 0xD83D, 0xDE00]"
  by (rule wide_string_round_trip) (simp_all add: is_high_def is_low_def)

end
