(* ===== verification/Shim_Strings.thy ===== *)
theory Shim_Strings
  imports Shim_Unicode
begin

text \<open>
  The code-page functions and string functions exported to the program
  (shim_kernel32_string.hpp, \<^verbatim>\<open>CompareStringA\<close> of shim_kernel32_tail.hpp).  An argument pointer
  is \<open>None\<close> when it is NULL, otherwise the units in memory from it on; a function that fails
  answers with the error it sets.
\<close>

section \<open>Code pages\<close>

definition GetACP :: u32 where
  "GetACP = 1252"

definition GetOEMCP :: u32 where
  "GetOEMCP = 437"

definition IsValidCodePage :: "u32 \<Rightarrow> bool" where
  "IsValidCodePage cp \<longleftrightarrow> cp = 65001 \<or> cp = 437 \<or> cp = 1252"

record CPINFO =
  MaxCharSize :: u32
  DefaultChar :: bytes
  LeadByte :: bytes

definition GetCPInfo :: "u32 \<Rightarrow> bool \<Rightarrow> u32 + CPINFO" where
  "GetCPInfo cp info_null = (if info_null then Inl ERROR_INVALID_PARAMETER
     else Inr \<lparr>MaxCharSize = (if cp = 65001 then 4 else 2), DefaultChar = [0x3F, 0],
       LeadByte = replicate 12 0\<rparr>)"

abbreviation MB_ERR_INVALID_CHARS :: u32 where "MB_ERR_INVALID_CHARS \<equiv> 0x08"
abbreviation WC_ERR_INVALID_CHARS :: u32 where "WC_ERR_INVALID_CHARS \<equiv> 0x80"

section \<open>MultiByteToWideChar\<close>

text \<open>The loop: \<open>n\<close> units are counted so far, \<open>dstlen\<close> 0 only counts.\<close>

function mb_loop :: "bool \<Rightarrow> nat \<Rightarrow> nat \<Rightarrow> bytes \<Rightarrow> u32 + u16 list" where
  "mb_loop strict dstlen n [] = Inr []"
| "mb_loop strict dstlen n (b # bs) = (case utf8_next b bs of (k, c, bad) \<Rightarrow>
     if bad \<and> strict then Inl ERROR_NO_UNICODE_TRANSLATION
     else if dstlen \<noteq> 0 \<and> n + length (utf16_enc c) > dstlen then Inl ERROR_INSUFFICIENT_BUFFER
     else (case mb_loop strict dstlen (n + length (utf16_enc c)) (drop k (b # bs)) of
         Inl e \<Rightarrow> Inl e
       | Inr us \<Rightarrow> Inr (utf16_enc c @ us)))"
  by pat_completeness auto
termination
  by (relation "measure (\<lambda>(strict, dstlen, n, bs). length bs)") (auto dest!: utf8_next_pos [OF sym])

text \<open>The source: the string and its NUL when the length is negative, else exactly that much.\<close>

definition mb_source :: "bytes \<Rightarrow> int \<Rightarrow> bytes" where
  "mb_source src srclen = (if srclen < 0 then c_string src @ [0] else take (nat srclen) src)"

text \<open>The answer: the error, or the count and the units written (none when only counting).\<close>

definition MultiByteToWideChar :: "u32 \<Rightarrow> bytes option \<Rightarrow> int \<Rightarrow> bool \<Rightarrow> int \<Rightarrow> u32 + (nat \<times> u16 list)" where
  "MultiByteToWideChar flags src srclen dst_null dstlen = (case src of
       None \<Rightarrow> Inl ERROR_INVALID_PARAMETER
     | Some s \<Rightarrow>
        if srclen = 0 \<or> dstlen < 0 \<or> dstlen > 0 \<and> dst_null then Inl ERROR_INVALID_PARAMETER
        else (case mb_loop (flags AND MB_ERR_INVALID_CHARS \<noteq> 0) (nat dstlen) 0 (mb_source s srclen) of
            Inl e \<Rightarrow> Inl e
          | Inr us \<Rightarrow> Inr (length us, if dstlen = 0 then [] else us)))"

section \<open>WideCharToMultiByte\<close>

text \<open>The next code point; a lone surrogate is \<open>None\<close>.\<close>

definition wc_next :: "u16 \<Rightarrow> u16 list \<Rightarrow> u32 option \<times> u16 list" where
  "wc_next c s = (case s of
       d # ds \<Rightarrow> if is_high c \<and> is_low d then (Some (join_surrogates c d), ds)
         else if is_high c \<or> is_low c then (None, s) else (Some (ucast c), s)
     | [] \<Rightarrow> if is_high c \<or> is_low c then (None, s) else (Some (ucast c), s))"

lemma wc_next_length: "wc_next c s = (r, s') \<Longrightarrow> length s' \<le> length s"
  by (auto simp: wc_next_def split: list.splits if_splits)

function wc_loop :: "bool \<Rightarrow> nat \<Rightarrow> nat \<Rightarrow> u16 list \<Rightarrow> u32 + bytes" where
  "wc_loop strict dstlen n [] = Inr []"
| "wc_loop strict dstlen n (c # s) = (case wc_next c s of (r, s') \<Rightarrow>
     if r = None \<and> strict then Inl ERROR_NO_UNICODE_TRANSLATION
     else let b = utf8_enc (case r of Some cp \<Rightarrow> cp | None \<Rightarrow> 0xFFFD) in
       if dstlen \<noteq> 0 \<and> n + length b > dstlen then Inl ERROR_INSUFFICIENT_BUFFER
       else (case wc_loop strict dstlen (n + length b) s' of
           Inl e \<Rightarrow> Inl e
         | Inr bs \<Rightarrow> Inr (b @ bs)))"
  by pat_completeness auto
termination
  by (relation "measure (\<lambda>(strict, dstlen, n, s). length s)") (auto dest!: wc_next_length [OF sym])

definition wc_source :: "u16 list \<Rightarrow> int \<Rightarrow> u16 list" where
  "wc_source src srclen = (if srclen < 0 then takeWhile (\<lambda>c. c \<noteq> 0) src @ [0] else take (nat srclen) src)"

definition WideCharToMultiByte :: "u32 \<Rightarrow> u16 list option \<Rightarrow> int \<Rightarrow> bool \<Rightarrow> int \<Rightarrow> u32 + (nat \<times> bytes)" where
  "WideCharToMultiByte flags src srclen dst_null dstlen = (case src of
       None \<Rightarrow> Inl ERROR_INVALID_PARAMETER
     | Some s \<Rightarrow>
        if srclen = 0 \<or> dstlen < 0 \<or> dstlen > 0 \<and> dst_null then Inl ERROR_INVALID_PARAMETER
        else (case wc_loop (flags AND WC_ERR_INVALID_CHARS \<noteq> 0) (nat dstlen) 0 (wc_source s srclen) of
            Inl e \<Rightarrow> Inl e
          | Inr bs \<Rightarrow> Inr (length bs, if dstlen = 0 then [] else bs)))"

section \<open>Case mapping, classification, comparison\<close>

abbreviation LCMAP_LOWERCASE :: u32 where "LCMAP_LOWERCASE \<equiv> 0x100"
abbreviation LCMAP_UPPERCASE :: u32 where "LCMAP_UPPERCASE \<equiv> 0x200"
abbreviation NORM_IGNORECASE :: u32 where "NORM_IGNORECASE \<equiv> 1"

definition ascii_upper :: "u16 \<Rightarrow> u16" where
  "ascii_upper c = (if 0x61 \<le> c \<and> c \<le> 0x7A then c - 32 else c)"

definition ascii_lower :: "u16 \<Rightarrow> u16" where
  "ascii_lower c = (if 0x41 \<le> c \<and> c \<le> 0x5A then c + 32 else c)"

text \<open>The count answered and the units written to a buffer of \<open>dstlen\<close> units, if there is one.\<close>

definition LCMapStringW :: "u32 \<Rightarrow> u16 list \<Rightarrow> int \<Rightarrow> bool \<Rightarrow> int \<Rightarrow> int \<times> u16 list" where
  "LCMapStringW flags src srclen dst_null dstlen =
    (let n = (if srclen < 0 then int (length (takeWhile (\<lambda>c. c \<noteq> 0) src)) + 1 else srclen);
         mem = takeWhile (\<lambda>c. c \<noteq> 0) src @ [0];
         units = take (nat (min n dstlen)) (if srclen < 0 then mem else src);
         f = (if flags AND LCMAP_UPPERCASE \<noteq> 0 then ascii_upper
              else if flags AND LCMAP_LOWERCASE \<noteq> 0 then ascii_lower else (\<lambda>c. c))
     in (n, if \<not> dst_null \<and> dstlen > 0 then map f units else []))"

definition classify_ctype1 :: "u32 \<Rightarrow> u16" where
  "classify_ctype1 c = (if c > 127 then 0x100 else
     let u = unat c;
         upper = 65 \<le> u \<and> u \<le> 90; lower = 97 \<le> u \<and> u \<le> 122; digit = 48 \<le> u \<and> u \<le> 57;
         space = 9 \<le> u \<and> u \<le> 13 \<or> u = 32; cntrl = u < 32 \<or> u = 127;
         punct = 33 \<le> u \<and> u \<le> 126 \<and> \<not> upper \<and> \<not> lower \<and> \<not> digit;
         xdigit = digit \<or> 65 \<le> u \<and> u \<le> 70 \<or> 97 \<le> u \<and> u \<le> 102;
         flag = (\<lambda>p v. if p then v else 0)
     in flag upper (0x1 OR 0x100) OR flag lower (0x2 OR 0x100) OR flag digit 0x4 OR flag space 0x8
        OR flag punct 0x10 OR flag cntrl 0x20 OR flag (u = 32 \<or> u = 9) 0x40 OR flag xdigit 0x80)"

definition GetStringTypeW :: "u32 \<Rightarrow> u16 list option \<Rightarrow> int \<Rightarrow> u32 + u16 list" where
  "GetStringTypeW type src n = (case src of
       None \<Rightarrow> Inl ERROR_INVALID_PARAMETER
     | Some s \<Rightarrow> if n = 0 then Inl ERROR_INVALID_PARAMETER
         else Inr (map (\<lambda>c. if type = 1 then classify_ctype1 (ucast c) else 0)
           (if n < 0 then takeWhile (\<lambda>c. c \<noteq> 0) s else take (nat n) s)))"

datatype cstr = CSTR_LESS_THAN | CSTR_EQUAL | CSTR_GREATER_THAN

text \<open>The loop of \<^verbatim>\<open>CompareStringW\<close> over the units before each string's end.\<close>

fun compare_units :: "bool \<Rightarrow> u16 list \<Rightarrow> u16 list \<Rightarrow> cstr" where
  "compare_units ic [] [] = CSTR_EQUAL"
| "compare_units ic [] (d # ds) = CSTR_LESS_THAN"
| "compare_units ic (c # cs) [] = CSTR_GREATER_THAN"
| "compare_units ic (c # cs) (d # ds) =
     (let c1 = (if ic then ascii_lower c else c); c2 = (if ic then ascii_lower d else d) in
      if c1 < c2 then CSTR_LESS_THAN else if c1 > c2 then CSTR_GREATER_THAN else compare_units ic cs ds)"

definition counted_units :: "u16 list \<Rightarrow> int \<Rightarrow> u16 list" where
  "counted_units s n = (if n \<ge> 0 then take (nat n) s else takeWhile (\<lambda>c. c \<noteq> 0) s)"

definition CompareStringW :: "u32 \<Rightarrow> u16 list \<Rightarrow> int \<Rightarrow> u16 list \<Rightarrow> int \<Rightarrow> cstr" where
  "CompareStringW flags s1 n1 s2 n2 =
    compare_units (flags AND NORM_IGNORECASE \<noteq> 0) (counted_units s1 n1) (counted_units s2 n2)"

section \<open>Counting before converting\<close>

text \<open>
  Both conversions take their input piece by piece and append what a piece becomes, first
  looking whether it fits.  What holds of every such loop: the count of a run without a buffer
  is what a run with a buffer needs.
\<close>

locale converter_loop =
  fixes loop :: "bool \<Rightarrow> nat \<Rightarrow> nat \<Rightarrow> 'a list \<Rightarrow> u32 + 'b list"
    and piece :: "bool \<Rightarrow> 'a list \<Rightarrow> u32 + ('b list \<times> 'a list)"
  assumes loop_Nil: "loop strict d n [] = Inr []"
    and loop_piece: "xs \<noteq> [] \<Longrightarrow> loop strict d n xs = (case piece strict xs of
        Inl e \<Rightarrow> Inl e
      | Inr (c, rest) \<Rightarrow> if d \<noteq> 0 \<and> n + length c > d then Inl ERROR_INSUFFICIENT_BUFFER
          else (case loop strict d (n + length c) rest of Inl e \<Rightarrow> Inl e | Inr us \<Rightarrow> Inr (c @ us)))"
    and piece_shrinks: "xs \<noteq> [] \<Longrightarrow> piece strict xs = Inr (c, rest) \<Longrightarrow> length rest < length xs"
begin

lemma sizing:
  "loop strict 0 n xs = Inr us \<Longrightarrow> 0 < d \<Longrightarrow> m \<le> d \<Longrightarrow>
    loop strict d m xs = (if m + length us \<le> d then Inr us else Inl ERROR_INSUFFICIENT_BUFFER)"
proof (induction xs arbitrary: n m us rule: length_induct)
  case (1 xs)
  show ?case
  proof (cases "xs = []")
    case True
    with 1 show ?thesis by (simp add: loop_Nil)
  next
    case False
    with 1(2) obtain c rest vs where p: "piece strict xs = Inr (c, rest)"
        "loop strict 0 (n + length c) rest = Inr vs" "us = c @ vs"
      by (auto simp: loop_piece split: sum.splits prod.splits)
    have "loop strict d (m + length c) rest
        = (if m + length c + length vs \<le> d then Inr vs else Inl ERROR_INSUFFICIENT_BUFFER)"
      if "m + length c \<le> d"
      using 1(1) piece_shrinks [OF False p(1)] p(2) 1(3) that by blast
    with False p 1(3) show ?thesis by (auto simp: loop_piece)
  qed
qed

end

fun mb_piece :: "bool \<Rightarrow> bytes \<Rightarrow> u32 + (u16 list \<times> bytes)" where
  "mb_piece strict [] = Inr ([], [])"
| "mb_piece strict (b # bs) = (case utf8_next b bs of (k, c, bad) \<Rightarrow>
     if bad \<and> strict then Inl ERROR_NO_UNICODE_TRANSLATION else Inr (utf16_enc c, drop k (b # bs)))"

fun wc_piece :: "bool \<Rightarrow> u16 list \<Rightarrow> u32 + (bytes \<times> u16 list)" where
  "wc_piece strict [] = Inr ([], [])"
| "wc_piece strict (c # s) = (case wc_next c s of (r, s') \<Rightarrow>
     if r = None \<and> strict then Inl ERROR_NO_UNICODE_TRANSLATION
     else Inr (utf8_enc (case r of Some cp \<Rightarrow> cp | None \<Rightarrow> 0xFFFD), s'))"

interpretation mb: converter_loop mb_loop mb_piece
proof
  fix strict d n and xs :: bytes
  assume "xs \<noteq> []"
  then obtain b bs where "xs = b # bs" by (cases xs) auto
  then show "mb_loop strict d n xs = (case mb_piece strict xs of
      Inl e \<Rightarrow> Inl e
    | Inr (c, rest) \<Rightarrow> if d \<noteq> 0 \<and> n + length c > d then Inl ERROR_INSUFFICIENT_BUFFER
        else (case mb_loop strict d (n + length c) rest of Inl e \<Rightarrow> Inl e | Inr us \<Rightarrow> Inr (c @ us)))"
    by (cases "utf8_next b bs") auto
next
  fix strict c rest and xs :: bytes
  assume "xs \<noteq> []" "mb_piece strict xs = Inr (c, rest)"
  then show "length rest < length xs" by (cases xs) (auto split: if_splits prod.splits dest: utf8_next_pos)
qed simp

interpretation wc: converter_loop wc_loop wc_piece
proof
  fix strict d n and xs :: "u16 list"
  assume "xs \<noteq> []"
  then obtain c s where "xs = c # s" by (cases xs) auto
  then show "wc_loop strict d n xs = (case wc_piece strict xs of
      Inl e \<Rightarrow> Inl e
    | Inr (c, rest) \<Rightarrow> if d \<noteq> 0 \<and> n + length c > d then Inl ERROR_INSUFFICIENT_BUFFER
        else (case wc_loop strict d (n + length c) rest of Inl e \<Rightarrow> Inl e | Inr us \<Rightarrow> Inr (c @ us)))"
    by (cases "wc_next c s") (auto simp: Let_def)
next
  fix strict c rest and xs :: "u16 list"
  assume "xs \<noteq> []" "wc_piece strict xs = Inr (c, rest)"
  then show "length rest < length xs"
    by (cases xs) (auto split: if_splits prod.splits dest: wc_next_length simp: less_Suc_eq_le)
qed simp

lemma wc_count: "utf16_ok w \<Longrightarrow> wc_loop strict 0 n w = Inr (concat (map utf8_enc (code_points w)))"
proof (induction arbitrary: n rule: utf16_ok_induct)
  case (pair c d ds)
  then show ?case by (simp add: wc_next_def Let_def)
next
  case (single c cs)
  have "wc_next c cs = (Some (ucast c), cs)" using single by (auto simp: wc_next_def split: list.splits)
  with single show ?case by (simp del: code_points.simps add: code_points_single Let_def)
qed simp

lemma mb_count:
  "(\<And>c. c \<in> set cs \<Longrightarrow> scalar c) \<Longrightarrow>
    mb_loop strict 0 n (concat (map utf8_enc cs)) = Inr (concat (map utf16_enc cs))"
proof (induction cs arbitrary: n)
  case (Cons c cs)
  obtain b bs where b: "utf8_enc c @ concat (map utf8_enc cs) = b # bs"
      "utf8_next b bs = (length (utf8_enc c), c, False)"
    using utf8_next_enc [of c "concat (map utf8_enc cs)"] Cons.prems by auto
  then have "drop (length (utf8_enc c)) (b # bs) = concat (map utf8_enc cs)" by (metis append_eq_conv_conj)
  with b Cons show ?case by simp
qed simp

text \<open>
  The two-call protocol of the code-page functions.  For a well-formed wide string,
  asking \<^verbatim>\<open>WideCharToMultiByte\<close> for the size and then converting into a buffer of that size
  succeeds and fills it exactly, any smaller buffer being refused with
  \<^verbatim>\<open>ERROR_INSUFFICIENT_BUFFER\<close>; \<^verbatim>\<open>MultiByteToWideChar\<close> by the same protocol gives back the
  string, in strict mode as well.
\<close>

theorem code_page_round_trip:
  assumes "utf16_ok w" and "w \<noteq> []"
  shows "\<exists>n b. WideCharToMultiByte fl (Some w) (int (length w)) True 0 = Inr (n, [])
    \<and> WideCharToMultiByte fl (Some w) (int (length w)) False (int n) = Inr (n, b) \<and> length b = n
    \<and> (\<forall>m. 0 < m \<and> m < n \<longrightarrow>
          WideCharToMultiByte fl (Some w) (int (length w)) False (int m) = Inl ERROR_INSUFFICIENT_BUFFER)
    \<and> MultiByteToWideChar fl' (Some b) (int n) True 0 = Inr (length w, [])
    \<and> MultiByteToWideChar fl' (Some b) (int n) False (int (length w)) = Inr (length w, w)"
proof (intro exI conjI)
  let ?b = "concat (map utf8_enc (code_points w))"
  have sc: "scalar c" if "c \<in> set (code_points w)" for c using code_points_scalar [OF assms(1) that] by simp
  have w: "concat (map utf16_enc (code_points w)) = w" by (rule code_points_utf16 [OF assms(1)])
  obtain c cs where "code_points w = c # cs" using assms(2) w by (cases "code_points w") auto
  then have pos: "0 < length ?b" using length_utf8_enc(1) [of c] by (simp add: Suc_le_eq)
  note wsize = wc.sizing [OF wc_count [OF assms(1)], of _ 0]
  note msize = mb.sizing [OF mb_count [of "code_points w", OF sc], of _ 0]
  show "WideCharToMultiByte fl (Some w) (int (length w)) True 0 = Inr (length ?b, [])"
    using assms(2) wc_count [OF assms(1)] by (simp add: WideCharToMultiByte_def wc_source_def)
  show "WideCharToMultiByte fl (Some w) (int (length w)) False (int (length ?b)) = Inr (length ?b, ?b)"
    using assms(2) pos wsize by (simp add: WideCharToMultiByte_def wc_source_def)
  show "length ?b = length ?b" ..
  show "\<forall>m. 0 < m \<and> m < length ?b \<longrightarrow>
      WideCharToMultiByte fl (Some w) (int (length w)) False (int m) = Inl ERROR_INSUFFICIENT_BUFFER"
    using assms(2) wsize by (simp add: WideCharToMultiByte_def wc_source_def)
  show "MultiByteToWideChar fl' (Some ?b) (int (length ?b)) True 0 = Inr (length w, [])"
    using pos mb_count [of "code_points w", OF sc] w by (simp add: MultiByteToWideChar_def mb_source_def)
  show "MultiByteToWideChar fl' (Some ?b) (int (length ?b)) False (int (length w)) = Inr (length w, w)"
    using pos msize w assms(2) by (simp add: MultiByteToWideChar_def mb_source_def)
qed

theorem code_page_round_trip_witness:
  "\<exists>n b. WideCharToMultiByte 0 (Some [0x41, 0xD83D, 0xDE00]) 3 False (int n) = Inr (n, b) \<and> length b = n
    \<and> MultiByteToWideChar 8 (Some b) (int n) False 3 = Inr (3, [0x41, 0xD83D, 0xDE00])"
  using code_page_round_trip [of "[0x41, 0xD83D, 0xDE00]" 0 8] by (auto simp: is_high_def is_low_def)

section \<open>Comparison is an order\<close>

fun flip_cstr :: "cstr \<Rightarrow> cstr" where
  "flip_cstr CSTR_LESS_THAN = CSTR_GREATER_THAN"
| "flip_cstr CSTR_EQUAL = CSTR_EQUAL"
| "flip_cstr CSTR_GREATER_THAN = CSTR_LESS_THAN"

definition folded :: "bool \<Rightarrow> u16 list \<Rightarrow> u16 list" where
  "folded ic s = (if ic then map ascii_lower s else s)"

lemma compare_units_flip: "compare_units ic t s = flip_cstr (compare_units ic s t)"
  by (induction ic s t rule: compare_units.induct) (auto simp: Let_def)

lemma compare_units_equal: "compare_units ic s t = CSTR_EQUAL \<longleftrightarrow> folded ic s = folded ic t"
  by (induction ic s t rule: compare_units.induct) (auto simp: Let_def folded_def)

lemma compare_units_less:
  "compare_units ic (c # cs) (d # ds) = CSTR_LESS_THAN \<longleftrightarrow>
     (let f = (if ic then ascii_lower else id) in f c < f d \<or> f c = f d \<and> compare_units ic cs ds = CSTR_LESS_THAN)"
  by (auto simp: Let_def)

lemma compare_units_trans:
  "compare_units ic s t = CSTR_LESS_THAN \<Longrightarrow> compare_units ic t u = CSTR_LESS_THAN \<Longrightarrow>
    compare_units ic s u = CSTR_LESS_THAN"
proof (induction ic s t arbitrary: u rule: compare_units.induct)
  case (2 ic d ds)
  then show ?case by (cases u) auto
next
  case (4 ic c cs d ds)
  define f where "f = (if ic then ascii_lower else id)"
  obtain e es where u: "u = e # es" using 4 by (cases u) auto
  have "f c < f d \<or> f c = f d \<and> compare_units ic cs ds = CSTR_LESS_THAN"
    "f d < f e \<or> f d = f e \<and> compare_units ic ds es = CSTR_LESS_THAN"
    using 4(2,3) unfolding u compare_units_less f_def Let_def by blast+
  moreover have "f c = f d \<Longrightarrow> compare_units ic cs ds = CSTR_LESS_THAN \<Longrightarrow>
      compare_units ic ds es = CSTR_LESS_THAN \<Longrightarrow> compare_units ic cs es = CSTR_LESS_THAN"
    by (rule 4(1) [OF refl refl]) (auto simp: f_def split: if_splits)
  ultimately have "f c < f e \<or> f c = f e \<and> compare_units ic cs es = CSTR_LESS_THAN"
    using less_trans [of "f c" "f d" "f e"] by auto
  then show ?case unfolding u compare_units_less f_def Let_def .
qed auto

text \<open>
  \<^verbatim>\<open>CompareStringW\<close> is a total order on strings up to case when \<^verbatim>\<open>NORM_IGNORECASE\<close> is set:
  swapping the arguments reverses the answer, equality is answered exactly for strings that
  are equal after folding ASCII letters, and less-than is transitive.
\<close>

theorem compare_string_order:
  "CompareStringW fl s2 n2 s1 n1 = flip_cstr (CompareStringW fl s1 n1 s2 n2)
   \<and> (CompareStringW fl s1 n1 s2 n2 = CSTR_EQUAL \<longleftrightarrow>
        folded (fl AND NORM_IGNORECASE \<noteq> 0) (counted_units s1 n1) = folded (fl AND NORM_IGNORECASE \<noteq> 0) (counted_units s2 n2))
   \<and> \<not> (CompareStringW fl s1 n1 s2 n2 = CSTR_LESS_THAN \<and> CompareStringW fl s2 n2 s3 n3 = CSTR_LESS_THAN
        \<and> CompareStringW fl s1 n1 s3 n3 \<noteq> CSTR_LESS_THAN)"
  unfolding CompareStringW_def
proof (intro conjI notI)
  assume "compare_units (fl AND NORM_IGNORECASE \<noteq> 0) (counted_units s1 n1) (counted_units s2 n2) = CSTR_LESS_THAN
    \<and> compare_units (fl AND NORM_IGNORECASE \<noteq> 0) (counted_units s2 n2) (counted_units s3 n3) = CSTR_LESS_THAN
    \<and> compare_units (fl AND NORM_IGNORECASE \<noteq> 0) (counted_units s1 n1) (counted_units s3 n3) \<noteq> CSTR_LESS_THAN"
  then show False using compare_units_trans by blast
qed (rule compare_units_flip compare_units_equal)+

end
