(* ===== verification/Shim_Paths.thy ===== *)
theory Shim_Paths
  imports Shim_Unicode
begin

text \<open>
  Path translation (shim.cpp, \<^verbatim>\<open>path_join\<close>, \<^verbatim>\<open>win_path_to_posix\<close>, \<^verbatim>\<open>posix_to_win_path\<close>).  A
  function that fills a buffer is modelled by the bytes it writes there, the terminating NUL
  included; \<open>None\<close> is a buffer left alone.  Strings are byte lists without NULs.
\<close>

abbreviation ch_slash :: u8 where "ch_slash \<equiv> 47"
abbreviation ch_backslash :: u8 where "ch_backslash \<equiv> 92"
abbreviation ch_colon :: u8 where "ch_colon \<equiv> 58"

section \<open>Joining\<close>

text \<open>
  \<^verbatim>\<open>path_join\<close>: both parts are cut so that the result and its NUL fit (\<^verbatim>\<open>dst_sz\<close> is at least 2,
  every caller passes \<^verbatim>\<open>PATH_MAX\<close>).
\<close>

definition path_join :: "nat \<Rightarrow> bytes \<Rightarrow> bytes \<Rightarrow> bytes" where
  "path_join dst_sz dir name =
    (let a = take (dst_sz - 2) dir; b = take (dst_sz - length a - 2) name in a @ [ch_slash] @ b @ [0])"

section \<open>Windows to POSIX\<close>

definition is_letter :: "u8 \<Rightarrow> bool" where
  "is_letter c \<longleftrightarrow> 65 \<le> c \<and> c \<le> 90 \<or> 97 \<le> c \<and> c \<le> 122"

text \<open>The prefix of an extended or device path (two backslashes, a question mark or a dot, a backslash).\<close>

fun skip_prefix :: "bytes \<Rightarrow> bytes" where
  "skip_prefix (a # b # c # d # r) =
     (if a = ch_backslash \<and> b = ch_backslash \<and> (c = 63 \<or> c = 46) \<and> d = ch_backslash then r else a # b # c # d # r)"
| "skip_prefix s = s"

fun skip_drive :: "bytes \<Rightarrow> bytes" where
  "skip_drive (a # b # r) = (if is_letter a \<and> b = ch_colon then r else a # b # r)"
| "skip_drive s = s"

definition to_slash :: "u8 \<Rightarrow> u8" where
  "to_slash c = (if c = ch_backslash then ch_slash else c)"

definition win_path_to_posix :: "bytes option \<Rightarrow> nat \<Rightarrow> bytes option" where
  "win_path_to_posix inp outsz = (case inp of
       None \<Rightarrow> None
     | Some s \<Rightarrow> if outsz = 0 then None
         else let out = take (outsz - 1) (map to_slash (skip_drive (skip_prefix s)))
              in Some (if out = [] then [ch_slash, 0] else out @ [0]))"

section \<open>POSIX to Windows\<close>

definition to_backslash :: "u8 \<Rightarrow> u8" where
  "to_backslash c = (if c = ch_slash then ch_backslash else c)"

definition posix_to_win_path :: "bytes option \<Rightarrow> nat \<Rightarrow> bytes option" where
  "posix_to_win_path posix wsz = (case posix of
       None \<Rightarrow> None
     | Some p \<Rightarrow> if wsz < 4 then None
         else let pre = (if p \<noteq> [] \<and> p ! 0 = ch_slash then [67, ch_colon] else [])
              in Some (pre @ take (wsz - 1 - length pre) (map to_backslash p) @ [0]))"

section \<open>Properties\<close>

lemma path_join_fits: "2 \<le> dst_sz \<Longrightarrow> length (path_join dst_sz dir name) \<le> dst_sz"
  by (auto simp: path_join_def Let_def)

lemma path_join_exact:
  "length dir + length name + 2 \<le> dst_sz \<Longrightarrow> path_join dst_sz dir name = dir @ [ch_slash] @ name @ [0]"
  by (simp add: path_join_def Let_def)

lemma to_slash_back: "c \<noteq> ch_backslash \<Longrightarrow> to_slash (to_backslash c) = c"
  by (simp add: to_slash_def to_backslash_def)

lemma skip_prefix_drive: "skip_prefix (67 # ch_colon # r) = 67 # ch_colon # r"
proof (cases r)
  case (Cons a r')
  then show ?thesis by (cases r') simp_all
qed simp

lemma c_string_nul: "0 \<notin> set s \<Longrightarrow> c_string (s @ [0]) = s"
  by (auto simp: c_string_def takeWhile_append)

text \<open>
  The paths the shim hands to the program come back to the same file.  For an absolute POSIX
  path without backslashes, \<^verbatim>\<open>posix_to_win_path\<close> into a buffer with room for the drive gives a
  Windows path that \<^verbatim>\<open>win_path_to_posix\<close> turns into the original, byte for byte; neither writes
  outside its buffer.
\<close>

theorem path_round_trip:
  assumes "p \<noteq> []" and "hd p = ch_slash" and "ch_backslash \<notin> set p" and "0 \<notin> set p"
    and "length p + 3 \<le> wsz" and "length p < outsz"
  shows "\<exists>w. posix_to_win_path (Some p) wsz = Some (w @ [0]) \<and> 0 \<notin> set w \<and> length w < wsz \<and>
    win_path_to_posix (Some w) outsz = Some (p @ [0])"
proof -
  let ?w = "67 # ch_colon # map to_backslash p"
  have p0: "p ! 0 = ch_slash" using assms(1,2) by (simp add: hd_conv_nth)
  have m: "map to_slash (map to_backslash p) = p"
    using assms(3) by (auto intro!: map_idI to_slash_back)
  have "0 < length p" using assms(1) by simp
  then have "\<not> wsz < 4" using assms(5) by linarith
  then have "posix_to_win_path (Some p) wsz = Some (?w @ [0])"
    using assms(1,5) p0 by (simp add: posix_to_win_path_def)
  moreover have "0 \<notin> set ?w" using assms(4) by (auto simp: to_backslash_def)
  moreover have "win_path_to_posix (Some ?w) outsz = Some (p @ [0])"
    using assms(1,6) m
    by (simp add: win_path_to_posix_def skip_prefix_drive is_letter_def Let_def del: map_map)
  ultimately show ?thesis using assms(5) by (intro exI [of _ ?w]) simp
qed

theorem path_round_trip_witness:
  "\<exists>w. posix_to_win_path (Some [47, 97, 32, 98, 47, 46, 99]) 10 = Some (w @ [0]) \<and> 0 \<notin> set w \<and> length w < 10 \<and>
    win_path_to_posix (Some w) 8 = Some ([47, 97, 32, 98, 47, 46, 99] @ [0])"
  by (rule path_round_trip) simp_all

text \<open>
  The empty remainder of a bare drive becomes the root, which takes two bytes: with room for
  one, \<^verbatim>\<open>win_path_to_posix\<close> writes past the buffer.  For every other size it stays inside.
\<close>

lemma win_path_to_posix_fits:
  "outsz \<noteq> 1 \<Longrightarrow> win_path_to_posix inp outsz = Some out \<Longrightarrow> length out \<le> outsz"
  by (auto simp: win_path_to_posix_def Let_def split: option.splits if_splits)

lemma win_path_to_posix_overruns:
  "win_path_to_posix (Some s) 1 = Some [ch_slash, 0]"
  by (simp add: win_path_to_posix_def)

end
