(* ===== verification/Shim_Find.thy ===== *)
theory Shim_Find
  imports Shim_Safety Shim_Paths "HOL-Library.List_Lexorder" "HOL-Library.Product_Lexorder"
begin

text \<open>
  Directory search (shim_kernel32_file.hpp, 7.6): the order of names, the collection of the
  matching entries of a directory, \<^verbatim>\<open>FindFirstFileExW\<close> and \<^verbatim>\<open>FindNextFileW\<close>.  The host's directories,
  its \<^verbatim>\<open>fnmatch\<close> (with the flags the shim passes) and its \<^verbatim>\<open>stat\<close> are arguments; \<^verbatim>\<open>qsort\<close> is an
  insertion sort, which by \<open>qsort_unique\<close> is the only sorted arrangement of different names.
\<close>

section \<open>Attributes and find data\<close>

record stat =
  st_mode :: u32
  st_mtime :: u64
  st_size :: u64

definition s_isdir :: "stat \<Rightarrow> bool" where
  "s_isdir st \<longleftrightarrow> st_mode st AND 0xF000 = 0x4000"

definition s_isreg :: "stat \<Rightarrow> bool" where
  "s_isreg st \<longleftrightarrow> st_mode st AND 0xF000 = 0x8000"

definition stat_to_win_attrs :: "stat \<Rightarrow> u32" where
  "stat_to_win_attrs st =
    (let a = (if st_mode st AND 0x92 = 0 then 1 else 0);
         b = (if st_mode st AND 0x49 \<noteq> 0 then a OR 4 else a);
         c = (if s_isdir st then b OR 0x10 else if s_isreg st then b OR 0x20 else b)
     in if c = 0 then 0x80 else c)"

definition FILETIME_EPOCH :: u64 where
  "FILETIME_EPOCH = 116444736000000000"

record FILETIME =
  dwLowDateTime :: u32
  dwHighDateTime :: u32

definition ft_to_u64 :: "FILETIME \<Rightarrow> u64" where
  "ft_to_u64 f = push_bit 32 (ucast (dwHighDateTime f)) OR ucast (dwLowDateTime f)"

definition u64_to_ft :: "u64 \<Rightarrow> FILETIME" where
  "u64_to_ft v = \<lparr>dwLowDateTime = ucast v, dwHighDateTime = ucast (drop_bit 32 v)\<rparr>"

record 'c find_data =
  dwFileAttributes :: u32
  ftCreationTime :: FILETIME
  ftLastAccessTime :: FILETIME
  ftLastWriteTime :: FILETIME
  nFileSizeHigh :: u32
  nFileSizeLow :: u32
  cFileName :: "'c list"

definition no_time :: FILETIME where
  "no_time = \<lparr>dwLowDateTime = 0, dwHighDateTime = 0\<rparr>"

text \<open>\<^verbatim>\<open>fill_find_data_common\<close>: everything zero, and what \<^verbatim>\<open>stat\<close> tells; then the name.\<close>

definition fill_find_data_common :: "stat option \<Rightarrow> 'c list \<Rightarrow> 'c find_data" where
  "fill_find_data_common st name = (case st of
       None \<Rightarrow> \<lparr>dwFileAttributes = 0, ftCreationTime = no_time, ftLastAccessTime = no_time, ftLastWriteTime = no_time,
         nFileSizeHigh = 0, nFileSizeLow = 0, cFileName = name\<rparr>
     | Some st \<Rightarrow> let m = u64_to_ft (st_mtime st * 10000000 + FILETIME_EPOCH) in
         \<lparr>dwFileAttributes = stat_to_win_attrs st, ftCreationTime = m, ftLastAccessTime = m, ftLastWriteTime = m,
          nFileSizeHigh = ucast (drop_bit 32 (st_size st)), nFileSizeLow = ucast (st_size st AND 0xFFFFFFFF),
          cFileName = name\<rparr>)"

definition fill_find_data_w :: "(bytes \<Rightarrow> stat option) \<Rightarrow> bytes \<Rightarrow> bytes \<Rightarrow> u16 find_data" where
  "fill_find_data_w st fullpath name =
    fill_find_data_common (st (c_string fullpath)) (case utf8_to_wchar (Some name) 260 of Some w \<Rightarrow> w | None \<Rightarrow> [])"

definition fill_find_data_a :: "(bytes \<Rightarrow> stat option) \<Rightarrow> bytes \<Rightarrow> bytes \<Rightarrow> u8 find_data" where
  "fill_find_data_a st fullpath name = fill_find_data_common (st (c_string fullpath)) (take 259 name)"

section \<open>Matching and ordering\<close>

text \<open>\<^verbatim>\<open>strrchr\<close>: what comes before and after the last occurrence.\<close>

definition last_split :: "u8 \<Rightarrow> bytes \<Rightarrow> (bytes \<times> bytes) option" where
  "last_split c s = (if c \<in> set s
     then Some (rev (tl (dropWhile (\<lambda>x. x \<noteq> c) (rev s))), rev (takeWhile (\<lambda>x. x \<noteq> c) (rev s)))
     else None)"

definition NAME_MAX :: nat where
  "NAME_MAX = 255"

definition win_fnmatch :: "(bytes \<Rightarrow> bytes \<Rightarrow> bool) \<Rightarrow> bytes \<Rightarrow> bytes \<Rightarrow> bool" where
  "win_fnmatch fnmatch glob name \<longleftrightarrow> fnmatch glob name \<or>
    (case last_split 46 glob of
       Some (prefix, rest) \<Rightarrow> rest = [42] \<and> length prefix < NAME_MAX + 2 \<and>
         fnmatch (if prefix \<noteq> [] then prefix else [42]) name
     | None \<Rightarrow> False)"

definition upper_unit :: "u16 \<Rightarrow> u16" where
  "upper_unit c = (if 97 \<le> c \<and> c \<le> 122 then c - 32 else c)"

definition name_units :: "bytes \<Rightarrow> u16 list" where
  "name_units x = (case utf8_to_wchar (Some x) (NAME_MAX + 1) of Some w \<Rightarrow> w | None \<Rightarrow> [])"

fun strcmp :: "bytes \<Rightarrow> bytes \<Rightarrow> int" where
  "strcmp [] [] = 0"
| "strcmp [] (y # ys) = - 1"
| "strcmp (x # xs) [] = 1"
| "strcmp (x # xs) (y # ys) = (if x < y then - 1 else if y < x then 1 else strcmp xs ys)"

text \<open>The loop of \<^verbatim>\<open>find_name_cmp\<close>; a string ends in a NUL unit.\<close>

fun units_cmp :: "u16 list \<Rightarrow> u16 list \<Rightarrow> int \<Rightarrow> int" where
  "units_cmp [] [] r = r"
| "units_cmp [] (d # t) r = (if 0 \<noteq> upper_unit d then (if 0 < upper_unit d then - 1 else 1) else r)"
| "units_cmp (c # s) [] r = (if upper_unit c \<noteq> 0 then (if upper_unit c < 0 then - 1 else 1) else r)"
| "units_cmp (c # s) (d # t) r = (if upper_unit c \<noteq> upper_unit d
     then (if upper_unit c < upper_unit d then - 1 else 1)
     else if upper_unit c = 0 then r else units_cmp s t r)"

definition find_name_cmp :: "bytes \<Rightarrow> bytes \<Rightarrow> int" where
  "find_name_cmp x y = units_cmp (name_units x) (name_units y) (strcmp x y)"

fun qinsert :: "('a \<Rightarrow> 'a \<Rightarrow> int) \<Rightarrow> 'a \<Rightarrow> 'a list \<Rightarrow> 'a list" where
  "qinsert cmp x [] = [x]"
| "qinsert cmp x (y # ys) = (if cmp x y \<le> 0 then x # y # ys else y # qinsert cmp x ys)"

definition qsort :: "('a \<Rightarrow> 'a \<Rightarrow> int) \<Rightarrow> 'a list \<Rightarrow> 'a list" where
  "qsort cmp xs = foldr (qinsert cmp) xs []"

section \<open>Opening a search\<close>

definition PATH_MAX :: nat where
  "PATH_MAX = 4096"

text \<open>\<^verbatim>\<open>snprintf\<close> of a string into a buffer.\<close>

definition snprintf_s :: "nat \<Rightarrow> bytes \<Rightarrow> bytes" where
  "snprintf_s n s = take (n - 1) s"

text \<open>The directory and the pattern of a path.\<close>

definition dir_glob :: "bytes \<Rightarrow> bytes \<times> bytes" where
  "dir_glob posix = (let tmp = snprintf_s PATH_MAX posix in
     (case last_split ch_slash tmp of
        Some (d, g) \<Rightarrow> if g \<noteq> [] then (snprintf_s PATH_MAX d, snprintf_s 260 g)
          else (snprintf_s PATH_MAX (if d \<noteq> [] then d else [ch_slash]), [46])
      | None \<Rightarrow> ([46], take 259 tmp)))"

definition selected :: "(bytes \<Rightarrow> bytes \<Rightarrow> bool) \<Rightarrow> bytes \<Rightarrow> bytes \<Rightarrow> bool" where
  "selected fnmatch glob nm = (if glob = [46] then nm = [46]
     else nm \<noteq> [46] \<and> nm \<noteq> [46, 46] \<and> win_fnmatch fnmatch glob nm)"

record find_host =
  opendir :: "bytes \<Rightarrow> bytes list option"
  host_fnmatch :: "bytes \<Rightarrow> bytes \<Rightarrow> bool"
  host_stat :: "bytes \<Rightarrow> stat option"

text \<open>
  \<^verbatim>\<open>find_ctx_open\<close>: the new context, or the error.  \<open>mem\<close> says whether the allocation of the
  context succeeds, \<open>room\<close> how many names can be stored.
\<close>

definition find_ctx_open :: "find_host \<Rightarrow> bool \<Rightarrow> nat option \<Rightarrow> bytes \<Rightarrow> u32 + FindCtx" where
  "find_ctx_open fs mem room posix =
    (let (dir, glob) = dir_glob posix; dir' = (if dir \<noteq> [] then dir else [46])
     in (case opendir fs dir' of
         None \<Rightarrow> Inl ERROR_PATH_NOT_FOUND
       | Some ents \<Rightarrow> if \<not> mem then Inl ERROR_OUTOFMEMORY
           else let found = filter (selected (host_fnmatch fs) glob) ents
                in if (\<exists>n. room = Some n \<and> n < length found) then Inl ERROR_OUTOFMEMORY
                   else if found = [] then Inl ERROR_FILE_NOT_FOUND
                   else Inr \<lparr>names = qsort find_name_cmp found, next_ix = 1, dirpath = snprintf_s PATH_MAX dir'\<rparr>))"

text \<open>The pattern as it reaches \<^verbatim>\<open>find_ctx_open\<close>.\<close>

definition posix_pattern :: "u16 list \<Rightarrow> bytes" where
  "posix_pattern pattern = (case win_path_to_posix (wchar_to_utf8 (Some pattern) PATH_MAX) PATH_MAX of
     Some p \<Rightarrow> c_string p | None \<Rightarrow> [])"

definition FindFirstFileExW ::
    "find_host \<Rightarrow> int option \<Rightarrow> nat option \<Rightarrow> u16 list \<Rightarrow> nat \<Rightarrow> shim \<Rightarrow> ((u64 \<times> u16 find_data option) \<times> shim) option" where
  "FindFirstFileExW fs mem room pattern t s =
    (case find_ctx_open fs (mem \<noteq> None) room (posix_pattern pattern) of
       Inl e \<Rightarrow> Some ((INVALID_HANDLE_VALUE, None), SET_LAST_ERROR t e s)
     | Inr ctx \<Rightarrow> (case mem of
           None \<Rightarrow> None
         | Some p \<Rightarrow> let name = names ctx ! 0;
               pfd = fill_find_data_w (host_stat fs) (path_join PATH_MAX (dirpath ctx) name) name
             in do {
               (h, s1) \<leftarrow> handle_alloc_find p t (set_obj p \<lparr>refcount = 0, body = FindB ctx\<rparr> s);
               s2 \<leftarrow> (if h = INVALID_HANDLE_VALUE then find_ctx_free p s1 else Some s1);
               Some ((h, Some pfd), s2) }))"

section \<open>Continuing a search\<close>

text \<open>The entry after the last, or the end of the search.\<close>

fun find_next_b :: "body \<Rightarrow> (bytes option \<times> body) option" where
  "find_next_b (FindB ctx) = (if next_ix ctx < length (names ctx)
     then Some (Some (names ctx ! next_ix ctx), FindB (ctx\<lparr>next_ix := next_ix ctx + 1\<rparr>))
     else Some (None, FindB ctx))"
| "find_next_b _ = None"

definition FindNextFileW :: "find_host \<Rightarrow> u64 \<Rightarrow> nat \<Rightarrow> shim \<Rightarrow> ((bool \<times> u16 find_data option) \<times> shim) option" where
  "FindNextFileW fs h t s = do {
     (q, s1) \<leftarrow> get_find_ctx h t s;
     (case q of
        None \<Rightarrow> Some ((False, None), s1)
      | Some (k, p) \<Rightarrow> do {
          dir \<leftarrow> (case objs s1 p of Some ob \<Rightarrow> (case body ob of FindB ctx \<Rightarrow> Some (dirpath ctx) | _ \<Rightarrow> None) | None \<Rightarrow> None);
          (r, s2) \<leftarrow> with_body p find_next_b s1;
          s3 \<leftarrow> release_find_ctx p (if r = None then SET_LAST_ERROR t ERROR_NO_MORE_FILES s2 else s2);
          Some (case r of
              None \<Rightarrow> (False, None)
            | Some name \<Rightarrow> (True, Some (fill_find_data_w (host_stat fs) (path_join PATH_MAX dir name) name)), s3) }) }"

definition FindFirstFileW ::
    "find_host \<Rightarrow> int option \<Rightarrow> nat option \<Rightarrow> u16 list \<Rightarrow> nat \<Rightarrow> shim \<Rightarrow> ((u64 \<times> u16 find_data option) \<times> shim) option" where
  "FindFirstFileW fs mem room pattern t s = FindFirstFileExW fs mem room pattern t s"

text \<open>The ANSI variants: the same search, with names as bytes.\<close>

definition find_first_posix ::
    "find_host \<Rightarrow> int option \<Rightarrow> nat option \<Rightarrow> bytes \<Rightarrow> nat \<Rightarrow> shim \<Rightarrow> ((u64 \<times> u8 find_data option) \<times> shim) option" where
  "find_first_posix fs mem room posix t s =
    (case find_ctx_open fs (mem \<noteq> None) room posix of
       Inl e \<Rightarrow> Some ((INVALID_HANDLE_VALUE, None), SET_LAST_ERROR t e s)
     | Inr ctx \<Rightarrow> (case mem of
           None \<Rightarrow> None
         | Some p \<Rightarrow> let name = names ctx ! 0;
               pfd = fill_find_data_a (host_stat fs) (path_join PATH_MAX (dirpath ctx) name) name
             in do {
               (h, s1) \<leftarrow> handle_alloc_find p t (set_obj p \<lparr>refcount = 0, body = FindB ctx\<rparr> s);
               s2 \<leftarrow> (if h = INVALID_HANDLE_VALUE then find_ctx_free p s1 else Some s1);
               Some ((h, Some pfd), s2) }))"

definition posix_pattern_a :: "bytes \<Rightarrow> bytes" where
  "posix_pattern_a pattern = (case win_path_to_posix (Some pattern) PATH_MAX of Some p \<Rightarrow> c_string p | None \<Rightarrow> [])"

definition FindFirstFileExA ::
    "find_host \<Rightarrow> int option \<Rightarrow> nat option \<Rightarrow> bytes \<Rightarrow> nat \<Rightarrow> shim \<Rightarrow> ((u64 \<times> u8 find_data option) \<times> shim) option" where
  "FindFirstFileExA fs mem room pattern t s = find_first_posix fs mem room (posix_pattern_a pattern) t s"

definition FindFirstFileA ::
    "find_host \<Rightarrow> int option \<Rightarrow> nat option \<Rightarrow> bytes \<Rightarrow> nat \<Rightarrow> shim \<Rightarrow> ((u64 \<times> u8 find_data option) \<times> shim) option" where
  "FindFirstFileA fs mem room pattern t s = find_first_posix fs mem room (posix_pattern_a pattern) t s"

definition FindNextFileA :: "find_host \<Rightarrow> u64 \<Rightarrow> nat \<Rightarrow> shim \<Rightarrow> ((bool \<times> u8 find_data option) \<times> shim) option" where
  "FindNextFileA fs h t s = do {
     (q, s1) \<leftarrow> get_find_ctx h t s;
     (case q of
        None \<Rightarrow> Some ((False, None), s1)
      | Some (k, p) \<Rightarrow> do {
          dir \<leftarrow> (case objs s1 p of Some ob \<Rightarrow> (case body ob of FindB ctx \<Rightarrow> Some (dirpath ctx) | _ \<Rightarrow> None) | None \<Rightarrow> None);
          (r, s2) \<leftarrow> with_body p find_next_b s1;
          s3 \<leftarrow> release_find_ctx p (if r = None then SET_LAST_ERROR t ERROR_NO_MORE_FILES s2 else s2);
          Some (case r of
              None \<Rightarrow> (False, None)
            | Some name \<Rightarrow> (True, Some (fill_find_data_a (host_stat fs) (path_join PATH_MAX dir name) name)), s3) }) }"

section \<open>The order of names\<close>

text \<open>
  What \<^verbatim>\<open>find_name_cmp\<close> compares: the upper-cased units up to the first NUL, then the bytes, both
  in lexicographic order.
\<close>

definition cut_units :: "u16 list \<Rightarrow> u16 list" where
  "cut_units s = takeWhile (\<lambda>c. c \<noteq> 0) (map upper_unit s)"

definition find_key :: "bytes \<Rightarrow> u16 list \<times> bytes" where
  "find_key x = (cut_units (name_units x), x)"

lemma strcmp_less: "strcmp x y = (if x < y then - 1 else if y < x then 1 else 0)"
  by (induction x y rule: strcmp.induct) auto

lemma units_cmp_less:
  "units_cmp s t r = (if cut_units s < cut_units t then - 1 else if cut_units t < cut_units s then 1 else r)"
  by (induction s t r rule: units_cmp.induct) (auto simp: cut_units_def word_neq_0_conv)

lemma find_name_cmp_key: "find_name_cmp x y \<le> 0 \<longleftrightarrow> find_key x \<le> find_key y"
  by (auto simp: find_name_cmp_def units_cmp_less strcmp_less find_key_def less_eq_prod_def)

lemma find_key_inj: "find_key x = find_key y \<Longrightarrow> x = y"
  by (simp add: find_key_def)

lemma qinsert_insort: "qinsert find_name_cmp x ys = insort_key find_key x ys"
  by (induction ys) (simp_all add: find_name_cmp_key)

lemma qsort_sort: "qsort find_name_cmp xs = sort_key find_key xs"
  by (simp add: qsort_def sort_key_def qinsert_insort fun_eq_iff [symmetric] cong: foldr_cong)

text \<open>Different names have only one arrangement in this order.\<close>

lemma qsort_unique:
  assumes "mset ys = mset xs" and "sorted_wrt (\<lambda>x y. find_name_cmp x y \<le> 0) ys"
  shows "ys = qsort find_name_cmp xs"
proof -
  have "sorted (map find_key ys)"
    using assms(2) by (simp add: sorted_wrt_map find_name_cmp_key)
  then have "sort (map find_key xs) = map find_key ys"
    using assms(1) by (intro properties_for_sort) simp_all
  moreover have "sort (map find_key xs) = map find_key (sort_key find_key xs)"
    by (rule properties_for_sort) simp_all
  ultimately have "map find_key ys = map find_key (sort_key find_key xs)" by simp
  moreover have "inj find_key" by (rule injI) (rule find_key_inj)
  ultimately show ?thesis by (simp add: qsort_sort inj_map_eq_map)
qed

section \<open>A search from its first entry to its last\<close>

definition find_at :: "u64 \<Rightarrow> int \<Rightarrow> FindCtx \<Rightarrow> shim \<Rightarrow> bool" where
  "find_at h p ctx s \<longleftrightarrow> 0 \<le> handle_to_idx h \<and> slot_at s (handle_to_idx h) = \<lparr>kind = H_FIND, uval = p\<rparr> \<and>
     objs s p = Some \<lparr>refcount = 1, body = FindB ctx\<rparr>"

definition entry_data :: "find_host \<Rightarrow> bytes \<Rightarrow> bytes \<Rightarrow> u16 find_data" where
  "entry_data fs dir name = fill_find_data_w (host_stat fs) (path_join PATH_MAX dir name) name"

lemma FindNextFileW_step:
  assumes "find_at h p ctx s"
  shows "if next_ix ctx < length (names ctx)
    then \<exists>s'. FindNextFileW fs h t s = Some ((True, Some (entry_data fs (dirpath ctx) (names ctx ! next_ix ctx))), s')
      \<and> find_at h p (ctx\<lparr>next_ix := next_ix ctx + 1\<rparr>) s'
    else \<exists>s'. FindNextFileW fs h t s = Some ((False, None), s') \<and> find_at h p ctx s' \<and> last_error s' t = ERROR_NO_MORE_FILES"
  using assms
  by (auto simp: find_at_def FindNextFileW_def get_find_ctx_def retain_def with_body_def release_find_ctx_def
      release_def entry_data_def set_obj_def SET_LAST_ERROR_def Let_def)

text \<open>Calling \<^verbatim>\<open>FindNextFileW\<close> at most \<open>n\<close> times, until it fails.\<close>

fun find_rest :: "find_host \<Rightarrow> u64 \<Rightarrow> nat \<Rightarrow> nat \<Rightarrow> shim \<Rightarrow> (u16 find_data list \<times> shim) option" where
  "find_rest fs h t 0 s = Some ([], s)"
| "find_rest fs h t (Suc n) s = do {
     ((ok, d), s') \<leftarrow> FindNextFileW fs h t s;
     (case d of
        Some x \<Rightarrow> do { (xs, s'') \<leftarrow> find_rest fs h t n s'; Some (x # xs, s'') }
      | None \<Rightarrow> Some ([], s')) }"

lemma find_rest_all:
  assumes "find_at h p ctx s" and "length (names ctx) - next_ix ctx < n"
  shows "\<exists>s'. find_rest fs h t n s = Some (map (entry_data fs (dirpath ctx)) (drop (next_ix ctx) (names ctx)), s')
    \<and> last_error s' t = ERROR_NO_MORE_FILES"
  using assms
proof (induction n arbitrary: ctx s)
  case (Suc n)
  note step = FindNextFileW_step [OF Suc.prems(1), of fs t]
  show ?case
  proof (cases "next_ix ctx < length (names ctx)")
    case True
    with step obtain s1 where s1:
      "FindNextFileW fs h t s = Some ((True, Some (entry_data fs (dirpath ctx) (names ctx ! next_ix ctx))), s1)"
      "find_at h p (ctx\<lparr>next_ix := next_ix ctx + 1\<rparr>) s1" by auto
    have "drop (next_ix ctx) (names ctx) = names ctx ! next_ix ctx # drop (next_ix ctx + 1) (names ctx)"
      using True by (simp add: Cons_nth_drop_Suc)
    moreover have "length (names ctx) - (next_ix ctx + 1) < n" using Suc.prems(2) True by linarith
    ultimately show ?thesis using Suc.IH [OF s1(2)] s1(1) by auto
  next
    case False
    with step show ?thesis by auto
  qed
qed simp

lemma FindFirst_result:
  assumes "FindFirstFileExW fs (Some p) room pattern t s = Some ((h, d), s1)" and "h \<noteq> INVALID_HANDLE_VALUE"
    and "length (g_handles s) = MAX_HANDLES"
  obtains ctx where "find_ctx_open fs True room (posix_pattern pattern) = Inr ctx"
    "find_at h p ctx s1" "d = Some (entry_data fs (dirpath ctx) (names ctx ! 0))"
proof -
  obtain ctx where ctx: "find_ctx_open fs True room (posix_pattern pattern) = Inr ctx"
    using assms(1,2) by (auto simp: FindFirstFileExW_def split: sum.splits)
  obtain h' s' where a: "handle_alloc H_FIND p t (set_obj p \<lparr>refcount = 1, body = FindB ctx\<rparr>
      (set_obj p \<lparr>refcount = 0, body = FindB ctx\<rparr> s)) = (h', s')"
    by (cases "handle_alloc H_FIND p t (set_obj p \<lparr>refcount = 1, body = FindB ctx\<rparr>
      (set_obj p \<lparr>refcount = 0, body = FindB ctx\<rparr> s))")
  have r: "h' = h" "s1 = s'" "d = Some (entry_data fs (dirpath ctx) (names ctx ! 0))"
    using assms(1,2) ctx a
    by (auto simp: FindFirstFileExW_def handle_alloc_find_def entry_data_def Let_def
        bind_eq_Some_conv split: if_splits)
  from a show ?thesis
  proof (rule handle_alloc_cases)
    assume "h' = INVALID_HANDLE_VALUE"
    with r(1) assms(2) show ?thesis by simp
  next
    fix i assume i: "i < MAX_HANDLES" "h' = idx_to_handle (int i)"
      "s' = set_slot i \<lparr>kind = H_FIND, uval = p\<rparr> (set_obj p \<lparr>refcount = 1, body = FindB ctx\<rparr>
        (set_obj p \<lparr>refcount = 0, body = FindB ctx\<rparr> s))"
    then have "find_at h p ctx s1"
      using assms(3) r idx_handle_valid [OF i(1)] by (simp add: find_at_def)
    then show ?thesis using ctx r(3) by (intro that)
  qed (simp add: assms(3))
qed


text \<open>A directory of five entries, and everything matches.\<close>

definition sample_dirs :: find_host where
  "sample_dirs = \<lparr>opendir = (\<lambda>d. if d = [97] then Some [[98], [46], [46, 46], [65], [97]] else None),
     host_fnmatch = (\<lambda>g n. True), host_stat = (\<lambda>p. None)\<rparr>"

lemma find_free_init: "find_free (set_obj p ob handles_init) = Some 3"
proof -
  have "replicate 4093 free_slot = free_slot # replicate 4092 free_slot"
    by (simp add: replicate_Suc [symmetric] del: replicate_Suc)
  then show ?thesis by (simp add: find_free_def handles_init_def set_obj_def MAX_HANDLES_def free_slot_def)
qed

lemma set_obj_twice: "set_obj p a (set_obj p b s) = set_obj p a s"
  by (simp add: set_obj_def)

lemma sample_pattern: "posix_pattern [97, 92, 42] = [97, 47, 42]"
  by (simp add: posix_pattern_def wchar_to_utf8_def win_path_to_posix_def to_slash_def is_high_def utf8_enc_def
      PATH_MAX_def c_string_def)

lemma sample_dir_glob: "dir_glob [97, 47, 42] = ([97], [42])"
  by (simp add: dir_glob_def snprintf_s_def PATH_MAX_def last_split_def)

lemma sample_name_units: "name_units [65] = [65]" "name_units [97] = [97]" "name_units [98] = [98]"
  by (simp_all add: name_units_def utf8_to_wchar_def c_string_def NAME_MAX_def utf8_next_def)

lemma sample_sorted: "qsort find_name_cmp [[98], [65], [97]] = [[65], [97], [98]]"
  by (simp add: qsort_def find_name_cmp_def sample_name_units upper_unit_def)

lemma sample_search:
  "FindFirstFileExW sample_dirs (Some 64) None [97, 92, 42] 1 handles_init =
    Some ((4, Some (entry_data sample_dirs [97] [65])),
      set_slot 3 \<lparr>kind = H_FIND, uval = 64\<rparr>
        (set_obj 64 \<lparr>refcount = 1, body = FindB \<lparr>names = [[65], [97], [98]], next_ix = 1, dirpath = [97]\<rparr>\<rparr> handles_init))"
proof -
  have "find_ctx_open sample_dirs True None [97, 47, 42] = Inr \<lparr>names = [[65], [97], [98]], next_ix = 1, dirpath = [97]\<rparr>"
    by (simp add: find_ctx_open_def sample_dir_glob sample_dirs_def selected_def win_fnmatch_def sample_sorted
        snprintf_s_def PATH_MAX_def Let_def)
  then show ?thesis
    by (simp add: FindFirstFileExW_def sample_pattern handle_alloc_find_def handle_alloc_def find_free_init
        entry_data_def idx_to_handle_def set_obj_twice Let_def)
qed


text \<open>
  Searching the root: a pattern directly under the root leaves an empty directory name, for
  which \<^verbatim>\<open>find_ctx_open\<close> opens the current directory: \<^verbatim>\<open>C:\\*\<close> lists the same entries as \<^verbatim>\<open>*\<close>,
  whatever the host's file system.
\<close>

theorem root_search_lists_current_directory:
  "posix_pattern [67, 58, 92, 42] = [47, 42] \<and> posix_pattern [42] = [42] \<and>
   find_ctx_open fs mem room [47, 42] = find_ctx_open fs mem room [42]"
proof -
  have "dir_glob [47, 42] = ([], [42])" "dir_glob [42] = ([46], [42])"
    by (simp_all add: dir_glob_def snprintf_s_def PATH_MAX_def last_split_def)
  then have "find_ctx_open fs mem room [47, 42] = find_ctx_open fs mem room [42]"
    by (simp add: find_ctx_open_def)
  moreover have "posix_pattern [67, 58, 92, 42] = [47, 42]" "posix_pattern [42] = [42]"
    by (simp_all add: posix_pattern_def wchar_to_utf8_def win_path_to_posix_def to_slash_def is_high_def utf8_enc_def
        is_letter_def PATH_MAX_def c_string_def)
  ultimately show ?thesis by simp
qed

end
