(* ===== verification/Shim_Tls.thy ===== *)
theory Shim_Tls
  imports Shim_Types
begin

text \<open>
  Thread-local storage (shim.cpp, PE TLS directory; shim_kernel32_critsec.hpp, \<^verbatim>\<open>Tls*\<close>;
  shim_kernel32_fls.hpp, \<^verbatim>\<open>Fls*\<close> and \<^verbatim>\<open>shim_thread_exit\<close>).  \<^verbatim>\<open>TlsAlloc\<close>, \<^verbatim>\<open>FlsAlloc\<close> and the static TLS
  of the image take their indices from one set of 64, a 64-bit mask; every thread has an array
  of 64 values, a null pointer when it could not be allocated.  The calls the shim makes into
  the program (TLS callbacks, FLS callbacks) and the memory it frees are recorded in a trace.
\<close>

section \<open>State\<close>

datatype tls_event =
    TlsCallback nat u64 u64 u32 | FlsCallback nat u64 u64 | FreeBlock u64 | FreeSlots nat | StoreIndex u64 u32

record ShimTlsInfo =
  template_va :: u64
  template_sz :: u64
  tls_zero_fill :: u64
  align_chars :: u64
  index_va :: u64
  callbacks_va :: u64

record tls =
  g_tls_alloc_used :: u64
  g_fls_callbacks :: "u64 list"
  tls_slots :: "nat \<Rightarrow> u64 list option"
  g_tls_static_idx :: u32
  g_tls_info :: ShimTlsInfo
  g_tls_align :: u64
  g_image_base :: u64
  blocks :: "u64 \<rightharpoonup> bytes"
  tls_error :: "nat \<Rightarrow> u32"
  tls_trace :: "tls_event list"

abbreviation no_index :: u32 where "no_index \<equiv> 0xFFFFFFFF"

definition tls_note :: "tls_event \<Rightarrow> tls \<Rightarrow> tls" where
  "tls_note e s = s\<lparr>tls_trace := tls_trace s @ [e]\<rparr>"

definition tls_set_error :: "nat \<Rightarrow> u32 \<Rightarrow> tls \<Rightarrow> tls" where
  "tls_set_error t e s = s\<lparr>tls_error := (tls_error s)(t := e)\<rparr>"

text \<open>The part of \<^verbatim>\<open>shim_init_teb\<close> that gives a thread its array (\<open>ok\<close>: the allocation succeeds).\<close>

definition init_slots :: "bool \<Rightarrow> nat \<Rightarrow> tls \<Rightarrow> tls" where
  "init_slots ok t s = s\<lparr>tls_slots := (tls_slots s)(t := if ok then Some (replicate 64 0) else None)\<rparr>"

section \<open>Indices\<close>

text \<open>The loop \<^verbatim>\<open>TlsAlloc\<close>, \<^verbatim>\<open>FlsAlloc\<close> and \<^verbatim>\<open>shim_register_tls\<close> share, from index \<open>i\<close> on.\<close>

function claim_from :: "u64 \<Rightarrow> nat \<Rightarrow> u32 \<times> u64" where
  "claim_from m i = (if 64 \<le> i then (no_index, m)
     else if \<not> bit m i then (of_nat i, m OR push_bit i 1)
     else claim_from m (i + 1))"
  by pat_completeness auto
termination
  by (relation "measure (\<lambda>(m, i). 64 - i)") auto

declare claim_from.simps [simp del]

definition claim_index :: "tls \<Rightarrow> u32 \<times> tls" where
  "claim_index s = (case claim_from (g_tls_alloc_used s) 0 of (i, m) \<Rightarrow> (i, s\<lparr>g_tls_alloc_used := m\<rparr>))"

definition drop_index :: "u32 \<Rightarrow> tls \<Rightarrow> tls" where
  "drop_index idx s = s\<lparr>g_tls_alloc_used := g_tls_alloc_used s AND NOT (push_bit (unat idx) 1)\<rparr>"

definition TlsAlloc :: "tls \<Rightarrow> u32 \<times> tls" where
  "TlsAlloc s = claim_index s"

definition slots_set :: "nat \<Rightarrow> nat \<Rightarrow> u64 \<Rightarrow> tls \<Rightarrow> tls" where
  "slots_set t i v s = s\<lparr>tls_slots := (tls_slots s)(t := map_option (\<lambda>a. a[i := v]) (tls_slots s t))\<rparr>"

definition slot_value :: "nat \<Rightarrow> nat \<Rightarrow> tls \<Rightarrow> u64" where
  "slot_value t i s = (case tls_slots s t of None \<Rightarrow> 0 | Some a \<Rightarrow> a ! i)"

definition TlsFree :: "u32 \<Rightarrow> nat \<Rightarrow> tls \<Rightarrow> bool \<times> tls" where
  "TlsFree idx t s = (if 64 \<le> idx then (False, s) else (True, drop_index idx (slots_set t (unat idx) 0 s)))"

definition TlsGetValue :: "u32 \<Rightarrow> nat \<Rightarrow> tls \<Rightarrow> u64 \<times> tls" where
  "TlsGetValue idx t s = (let s1 = tls_set_error t 0 s in
     if 64 \<le> idx then (0, s1)
     else if drop_bit (unat idx) (g_tls_alloc_used s1) AND 1 = 0 then (0, s1)
     else (slot_value t (unat idx) s1, s1))"

definition TlsSetValue :: "u32 \<Rightarrow> u64 \<Rightarrow> nat \<Rightarrow> tls \<Rightarrow> bool \<times> tls" where
  "TlsSetValue idx v t s =
    (if 64 \<le> idx then (False, tls_set_error t ERROR_INVALID_PARAMETER s)
     else if tls_slots s t = None then (False, tls_set_error t ERROR_INVALID_PARAMETER s)
     else (True, slots_set t (unat idx) v s))"

definition FlsAlloc :: "u64 \<Rightarrow> tls \<Rightarrow> u32 \<times> tls" where
  "FlsAlloc callback s = (case claim_index s of (idx, s1) \<Rightarrow>
     (idx, if idx \<noteq> no_index then s1\<lparr>g_fls_callbacks := (g_fls_callbacks s1)[unat idx := callback]\<rparr> else s1))"

definition FlsFree :: "u32 \<Rightarrow> nat \<Rightarrow> tls \<Rightarrow> bool \<times> tls" where
  "FlsFree idx t s =
    (if 64 \<le> idx then (False, tls_set_error t ERROR_INVALID_PARAMETER s)
     else let i = unat idx; val = slot_value t i s; cb = g_fls_callbacks s ! i;
            s1 = drop_index idx (s\<lparr>g_fls_callbacks := (g_fls_callbacks s)[i := 0]\<rparr>)
          in (True, if val \<noteq> 0 \<and> cb \<noteq> 0 then tls_note (FlsCallback t cb val) (slots_set t i 0 s1) else s1))"

definition FlsGetValue :: "u32 \<Rightarrow> nat \<Rightarrow> tls \<Rightarrow> u64 \<times> tls" where
  "FlsGetValue idx t s = (let s1 = tls_set_error t 0 s in
     if 64 \<le> idx then (0, tls_set_error t ERROR_INVALID_PARAMETER s1)
     else (slot_value t (unat idx) s1, s1))"

definition FlsSetValue :: "u32 \<Rightarrow> u64 \<Rightarrow> nat \<Rightarrow> tls \<Rightarrow> bool \<times> tls" where
  "FlsSetValue idx v t s =
    (if 64 \<le> idx then (False, tls_set_error t ERROR_INVALID_PARAMETER s)
     else (True, slots_set t (unat idx) v s))"

section \<open>The static block and the callbacks of the image\<close>

text \<open>The callbacks are a null-terminated array in the image; \<open>rd\<close> reads a quadword of memory.\<close>

partial_function (option) callback_list :: "(u64 \<Rightarrow> u64) \<Rightarrow> u64 \<Rightarrow> u64 list option" where
  "callback_list rd p = (if rd p = 0 then Some []
     else Option.bind (callback_list rd (p + 8)) (\<lambda>cs. Some (rd p # cs)))"

definition run_tls_callbacks :: "(u64 \<Rightarrow> u64) \<Rightarrow> u32 \<Rightarrow> nat \<Rightarrow> tls \<Rightarrow> tls option" where
  "run_tls_callbacks rd reason t s = (let p = callbacks_va (g_tls_info s) in
     if p = 0 then Some s
     else map_option (\<lambda>cs. s\<lparr>tls_trace := tls_trace s @ map (\<lambda>fn. TlsCallback t fn (g_image_base s) reason) cs\<rparr>)
       (callback_list rd p))"

text \<open>
  \<^verbatim>\<open>tls_static_init_thread\<close>: \<open>tmpl\<close> are the bytes of the template in the image and \<open>mem\<close> the
  address the allocation gives, if any.
\<close>

definition block_size :: "tls \<Rightarrow> u64" where
  "block_size s = (let sz = template_sz (g_tls_info s) + tls_zero_fill (g_tls_info s) in if sz = 0 then 64 else sz)"

definition block_bytes :: "bytes \<Rightarrow> tls \<Rightarrow> bytes" where
  "block_bytes tmpl s = (let z = replicate (unat (block_size s)) 0; n = unat (template_sz (g_tls_info s)) in
     if template_va (g_tls_info s) \<noteq> 0 \<and> n \<noteq> 0 then take n tmpl @ drop n z else z)"

definition tls_static_init_thread :: "bytes \<Rightarrow> u64 option \<Rightarrow> nat \<Rightarrow> tls \<Rightarrow> tls" where
  "tls_static_init_thread tmpl mem t s =
    (if g_tls_static_idx s = no_index \<or> tls_slots s t = None then s
     else if slot_value t (unat (g_tls_static_idx s)) s \<noteq> 0 then s
     else (case mem of
         None \<Rightarrow> s
       | Some p \<Rightarrow> slots_set t (unat (g_tls_static_idx s)) p (s\<lparr>blocks := (blocks s)(p \<mapsto> block_bytes tmpl s)\<rparr>)))"

definition tls_align_of :: "u64 \<Rightarrow> u64" where
  "tls_align_of chars = (let n = ucast (drop_bit 20 chars) AND 0xF :: u32;
      a = (if 1 \<le> n then push_bit (unat n - 1) 1 else 1) in if a < 16 then 16 else a)"

text \<open>\<open>base\<close> is the image base after \<^verbatim>\<open>discover_image_base\<close>, which reads the loaded image.\<close>

definition shim_register_tls :: "u64 \<Rightarrow> (u64 \<Rightarrow> u64) \<Rightarrow> bytes \<Rightarrow> u64 option \<Rightarrow> ShimTlsInfo option \<Rightarrow> nat \<Rightarrow> tls \<Rightarrow> tls option" where
  "shim_register_tls base rd tmpl mem info t s = (case info of
       None \<Rightarrow> Some s
     | Some info \<Rightarrow>
         let s1 = s\<lparr>g_image_base := base, g_tls_info := info, g_tls_align := tls_align_of (align_chars info)\<rparr>;
             s2 = (if index_va info \<noteq> 0
               then let (i, s') = claim_index s1;
                        s'' = (if i \<noteq> no_index then s'\<lparr>g_tls_static_idx := i\<rparr> else s')
                    in if g_tls_static_idx s'' = no_index then s''
                       else tls_static_init_thread tmpl mem t (tls_note (StoreIndex (index_va info) (g_tls_static_idx s'')) s'')
               else s1)
         in run_tls_callbacks rd 1 t s2)"

section \<open>A thread's life\<close>

text \<open>The steps of \<^verbatim>\<open>thread_trampoline\<close> before the thread's function, and those after it.\<close>

definition thread_start :: "(u64 \<Rightarrow> u64) \<Rightarrow> bytes \<Rightarrow> bool \<Rightarrow> u64 option \<Rightarrow> nat \<Rightarrow> tls \<Rightarrow> tls option" where
  "thread_start rd tmpl ok mem t s =
    map_option (tls_static_init_thread tmpl mem t) (run_tls_callbacks rd 2 t (init_slots ok t s))"

text \<open>
  The loop of \<^verbatim>\<open>shim_thread_exit\<close>.  A callback is code of the program and may write to the
  array: \<open>eff\<close> says what is in the array after it.
\<close>

function exit_loop :: "(u64 \<Rightarrow> u64 \<Rightarrow> u64 list \<Rightarrow> u64 list) \<Rightarrow> u64 list \<Rightarrow> nat \<Rightarrow> u64 list \<Rightarrow> (nat \<times> u64 \<times> u64) list \<times> u64 list" where
  "exit_loop eff cbs i a = (if 64 \<le> i then ([], a)
     else if a ! i = 0 \<or> cbs ! i = 0 then exit_loop eff cbs (i + 1) a
     else (case exit_loop eff cbs (i + 1) (eff (cbs ! i) (a ! i) (a[i := 0])) of
         (cs, a') \<Rightarrow> ((i, cbs ! i, a ! i) # cs, a')))"
  by pat_completeness auto
termination
  by (relation "measure (\<lambda>(eff, cbs, i, a). 64 - i)") auto

declare exit_loop.simps [simp del]

definition shim_thread_exit :: "(u64 \<Rightarrow> u64 \<Rightarrow> u64 list \<Rightarrow> u64 list) \<Rightarrow> nat \<Rightarrow> tls \<Rightarrow> tls" where
  "shim_thread_exit eff t s = (case tls_slots s t of
       None \<Rightarrow> s
     | Some a \<Rightarrow> (case exit_loop eff (g_fls_callbacks s) 0 a of (calls, a') \<Rightarrow>
         let s1 = s\<lparr>tls_trace := tls_trace s @ map (\<lambda>(i, cb, v). FlsCallback t cb v) calls,
                    tls_slots := (tls_slots s)(t := None)\<rparr>;
             s2 = (if g_tls_static_idx s \<noteq> no_index
               then let p = a' ! unat (g_tls_static_idx s)
                    in if p = 0 then s1 else tls_note (FreeBlock p) (s1\<lparr>blocks := (blocks s1)(p := None)\<rparr>)
               else s1)
         in tls_note (FreeSlots t) s2))"

section \<open>The pool of indices\<close>

text \<open>The indices in use as a set; claiming takes the least free one.\<close>

definition in_use :: "tls \<Rightarrow> nat set" where
  "in_use s = {i. i < 64 \<and> bit (g_tls_alloc_used s) i}"

lemma claim_from_spec:
  assumes "i \<le> 64"
  shows "if \<forall>j. i \<le> j \<and> j < 64 \<longrightarrow> bit m j then claim_from m i = (no_index, m)
    else let k = (LEAST j. i \<le> j \<and> \<not> bit m j) in k < 64 \<and> claim_from m i = (of_nat k, m OR push_bit k 1)"
  using assms
proof (induction m i rule: claim_from.induct)
  case (1 m i)
  consider "64 \<le> i" | "i < 64" "\<not> bit m i" | "i < 64" "bit m i" by linarith
  then show ?case
  proof cases
    case 1
    then show ?thesis by (auto simp: claim_from.simps)
  next
    case 2
    then have "(LEAST j. i \<le> j \<and> \<not> bit m j) = i" by (intro Least_equality) auto
    moreover have "\<not> (\<forall>j. i \<le> j \<and> j < 64 \<longrightarrow> bit m j)" using 2 by auto
    moreover have "claim_from m i = (of_nat i, m OR push_bit i 1)" using 2 by (subst claim_from.simps) simp
    ultimately show ?thesis using 2(1) by (simp only: if_False Let_def)
  next
    case 3
    have e: "(\<lambda>j. i \<le> j \<and> \<not> bit m j) = (\<lambda>j. i + 1 \<le> j \<and> \<not> bit m j)"
      using 3(2) by (auto simp: fun_eq_iff) (metis le_neq_implies_less Suc_leI)
    have a: "(\<forall>j. i \<le> j \<and> j < 64 \<longrightarrow> bit m j) = (\<forall>j. i + 1 \<le> j \<and> j < 64 \<longrightarrow> bit m j)"
      using 3(2) by (metis Suc_eq_plus1 Suc_leD Suc_leI le_neq_implies_less)
    have c: "claim_from m i = claim_from m (i + 1)" using 3 by (subst claim_from.simps) simp
    show ?thesis unfolding e a c using 1(1) 3 by simp
  qed
qed

lemma in_use_all: "in_use s = {..<64} \<longleftrightarrow> (\<forall>j<64. bit (g_tls_alloc_used s) j)"
  by (auto simp: in_use_def)

lemma least_unused:
  assumes "in_use s \<noteq> {..<64}"
  shows "(LEAST j. \<not> bit (g_tls_alloc_used s) j) = (LEAST j. j \<notin> in_use s)"
    "(LEAST j. j \<notin> in_use s) < 64"
proof -
  obtain k where k: "k < 64" "\<not> bit (g_tls_alloc_used s) k" using assms by (auto simp: in_use_all)
  let ?l = "LEAST j. \<not> bit (g_tls_alloc_used s) j"
  have l: "\<not> bit (g_tls_alloc_used s) ?l" "?l \<le> k" 
    using LeastI [of "\<lambda>j. \<not> bit (g_tls_alloc_used s) j" k] Least_le [of "\<lambda>j. \<not> bit (g_tls_alloc_used s) j" k] k(2)
    by blast+
  then have "(LEAST j. j \<notin> in_use s) = ?l"
    using l k(1) by (intro Least_equality) (auto simp: in_use_def intro: Least_le)
  then show "?l = (LEAST j. j \<notin> in_use s)" "(LEAST j. j \<notin> in_use s) < 64" using l k by simp_all
qed

lemma small_index: "k < 64 \<Longrightarrow> unat (of_nat k :: u32) = k \<and> (of_nat k :: u32) \<noteq> no_index"
  by (auto simp: unat_of_nat word_unat_eq_iff)

lemma claim_index_spec:
  assumes "claim_index s = (i, s')"
  shows "in_use s = {..<64} \<Longrightarrow> i = no_index \<and> s' = s"
    and "in_use s \<noteq> {..<64} \<Longrightarrow> i \<noteq> no_index \<and> unat i = (LEAST j. j \<notin> in_use s) \<and> unat i < 64 \<and>
      s' = s\<lparr>g_tls_alloc_used := g_tls_alloc_used s OR push_bit (unat i) 1\<rparr>"
proof -
  note c = claim_from_spec [of 0 "g_tls_alloc_used s", simplified, folded in_use_all]
  show "i = no_index \<and> s' = s" if "in_use s = {..<64}"
    using c assms that in_use_all [of s] by (auto simp: claim_index_def)
  show "i \<noteq> no_index \<and> unat i = (LEAST j. j \<notin> in_use s) \<and> unat i < 64 \<and>
      s' = s\<lparr>g_tls_alloc_used := g_tls_alloc_used s OR push_bit (unat i) 1\<rparr>" if "in_use s \<noteq> {..<64}"
    using c assms that in_use_all [of s] least_unused [OF that] small_index [of "LEAST j. j \<notin> in_use s"]
    by (auto simp: claim_index_def Let_def)
qed

lemma in_use_small: "in_use s \<subseteq> {..<64}"
  by (auto simp: in_use_def)

lemma in_use_claim: "i < 64 \<Longrightarrow> in_use (s\<lparr>g_tls_alloc_used := g_tls_alloc_used s OR push_bit i 1\<rparr>) = insert i (in_use s)"
  by (auto simp: in_use_def bit_simps)

lemma in_use_drop: "unat idx < 64 \<Longrightarrow> in_use (drop_index idx s) = in_use s - {unat idx}"
  by (auto simp: in_use_def drop_index_def bit_simps)

lemma in_use_irrelevant [simp]:
  "in_use (slots_set t i v s) = in_use s" "in_use (tls_note e s) = in_use s" "in_use (tls_set_error t r s) = in_use s"
  "in_use (s\<lparr>g_fls_callbacks := c\<rparr>) = in_use s"
  by (simp_all add: in_use_def slots_set_def tls_note_def tls_set_error_def)

text \<open>The contract of an allocator of indices, and what its clients rely on.\<close>

fun claims :: "('s \<Rightarrow> u32 \<times> 's) \<Rightarrow> nat \<Rightarrow> 's \<Rightarrow> u32 list \<times> 's" where
  "claims alloc 0 s = ([], s)"
| "claims alloc (Suc n) s = (case alloc s of (i, s') \<Rightarrow> case claims alloc n s' of (is, s'') \<Rightarrow> (i # is, s''))"

locale index_pool =
  fixes alloc :: "'s \<Rightarrow> u32 \<times> 's" and dispose :: "u32 \<Rightarrow> 's \<Rightarrow> 's" and pool :: "'s \<Rightarrow> nat set"
  assumes alloc_full: "pool s = {..<64} \<Longrightarrow> fst (alloc s) = no_index \<and> pool (snd (alloc s)) = pool s"
    and alloc_least: "pool s \<noteq> {..<64} \<Longrightarrow> fst (alloc s) \<noteq> no_index \<and> unat (fst (alloc s)) < 64 \<and>
      unat (fst (alloc s)) = (LEAST j. j \<notin> pool s) \<and> pool (snd (alloc s)) = insert (unat (fst (alloc s))) (pool s)"
    and dispose_pool: "unat i < 64 \<Longrightarrow> pool (dispose i s) = pool s - {unat i}"
    and pool_small: "pool s \<subseteq> {..<64}"
begin

lemma alloc_new:
  assumes "fst (alloc s) \<noteq> no_index"
  shows "unat (fst (alloc s)) \<notin> pool s"
proof -
  have n: "pool s \<noteq> {..<64}" using assms alloc_full by blast
  then obtain j where "j \<notin> pool s" using pool_small [of s] by (metis finite_lessThan infinite_UNIV_nat finite_subset ex_new_if_finite)
  then show ?thesis using alloc_least [OF n] by (metis LeastI)
qed

lemma alloc_after_dispose:
  assumes "fst (alloc s) \<noteq> no_index"
  shows "pool (dispose (fst (alloc s)) (snd (alloc s))) = pool s"
proof -
  have "pool s \<noteq> {..<64}" using assms alloc_full by blast
  with alloc_least [OF this] dispose_pool [of "fst (alloc s)" "snd (alloc s)"] alloc_new [OF assms]
  show ?thesis by auto
qed

lemma claims_in_order:
  assumes "pool s = {..<k}" and "k + n \<le> 64"
  shows "map unat (fst (claims alloc n s)) = [k..<k + n] \<and> pool (snd (claims alloc n s)) = {..<k + n}"
  using assms
proof (induction n arbitrary: s k)
  case (Suc n)
  obtain i s1 where a: "alloc s = (i, s1)" by (cases "alloc s")
  have "pool s \<noteq> {..<64}" using Suc.prems by auto
  note l = alloc_least [OF this, unfolded a, simplified]
  have "(LEAST j. j \<notin> pool s) = k" using Suc.prems(1) by (intro Least_equality) auto
  with l Suc.prems have "unat i = k" "pool s1 = {..<Suc k}" by (simp_all add: lessThan_Suc)
  with Suc.IH [of s1 "Suc k"] Suc.prems(2) a show ?case by (auto simp: upt_conv_Cons case_prod_beta)
qed simp

end

interpretation tls_pool: index_pool TlsAlloc "\<lambda>i s. snd (TlsFree i t s)" in_use for t
proof
  fix s
  show "fst (TlsAlloc s) = no_index \<and> in_use (snd (TlsAlloc s)) = in_use s" if "in_use s = {..<64}"
    using claim_index_spec(1) [of s "fst (claim_index s)" "snd (claim_index s)"] that by (simp add: TlsAlloc_def)
  show "fst (TlsAlloc s) \<noteq> no_index \<and> unat (fst (TlsAlloc s)) < 64 \<and> unat (fst (TlsAlloc s)) = (LEAST j. j \<notin> in_use s) \<and>
      in_use (snd (TlsAlloc s)) = insert (unat (fst (TlsAlloc s))) (in_use s)" if "in_use s \<noteq> {..<64}"
    using claim_index_spec(2) [of s "fst (claim_index s)" "snd (claim_index s)"] that
      in_use_claim [of "unat (fst (claim_index s))" s]
    by (simp add: TlsAlloc_def)
qed (auto simp: TlsFree_def in_use_drop word_le_nat_alt in_use_small)

interpretation fls_pool: index_pool "FlsAlloc cb" "\<lambda>i s. snd (FlsFree i t s)" in_use for cb t
proof
  fix s
  show "fst (FlsAlloc cb s) = no_index \<and> in_use (snd (FlsAlloc cb s)) = in_use s" if "in_use s = {..<64}"
    using tls_pool.alloc_full [OF that] by (auto simp: FlsAlloc_def TlsAlloc_def case_prod_beta)
  show "fst (FlsAlloc cb s) \<noteq> no_index \<and> unat (fst (FlsAlloc cb s)) < 64 \<and>
      unat (fst (FlsAlloc cb s)) = (LEAST j. j \<notin> in_use s) \<and>
      in_use (snd (FlsAlloc cb s)) = insert (unat (fst (FlsAlloc cb s))) (in_use s)" if "in_use s \<noteq> {..<64}"
    using tls_pool.alloc_least [OF that] by (auto simp: FlsAlloc_def TlsAlloc_def case_prod_beta)
qed (auto simp: FlsFree_def in_use_drop word_le_nat_alt Let_def in_use_small)

text \<open>
  The pool of TLS and FLS indices.  Both allocators refine one abstract operation on the set
  of indices in use: while one of the 64 is free they return the least such index and add it,
  otherwise they return \<^verbatim>\<open>0xFFFFFFFF\<close> and change nothing; \<^verbatim>\<open>TlsFree\<close> and \<^verbatim>\<open>FlsFree\<close> remove the index they
  are given.  So the first \<open>n\<close> allocations in an empty pool give 0 to \<open>n - 1\<close>, and an
  allocation never returns an index that is in use, whichever allocator gave it out.
\<close>

theorem index_pool_shared:
  "(in_use s = {..<64} \<longrightarrow> fst (TlsAlloc s) = no_index \<and> fst (FlsAlloc cb s) = no_index) \<and>
   (in_use s \<noteq> {..<64} \<longrightarrow>
      unat (fst (TlsAlloc s)) = (LEAST j. j \<notin> in_use s) \<and> unat (fst (FlsAlloc cb s)) = (LEAST j. j \<notin> in_use s) \<and>
      (LEAST j. j \<notin> in_use s) \<notin> in_use s \<and>
      in_use (snd (TlsAlloc s)) = insert (LEAST j. j \<notin> in_use s) (in_use s) \<and>
      in_use (snd (FlsAlloc cb s)) = insert (LEAST j. j \<notin> in_use s) (in_use s)) \<and>
   (unat idx < 64 \<longrightarrow> in_use (snd (TlsFree idx t s)) = in_use s - {unat idx} \<and>
      in_use (snd (FlsFree idx t s)) = in_use s - {unat idx}) \<and>
   (in_use s = {} \<and> n \<le> 64 \<longrightarrow> map unat (fst (claims TlsAlloc n s)) = [0..<n])"
proof -
  have "map unat (fst (claims TlsAlloc n s)) = [0..<n]" if "in_use s = {} \<and> n \<le> 64"
    using tls_pool.claims_in_order [of s 0 n] that by simp
  moreover have "(LEAST j. j \<notin> in_use s) \<notin> in_use s" if "in_use s \<noteq> {..<64}"
    using tls_pool.alloc_new [of s] tls_pool.alloc_least [OF that] by simp
  ultimately show ?thesis
    using tls_pool.alloc_full [of s] fls_pool.alloc_full [of s cb] tls_pool.alloc_least [of s]
      fls_pool.alloc_least [of s cb] tls_pool.dispose_pool [of idx t s] fls_pool.dispose_pool [of idx t s]
    by auto
qed

text \<open>A state with nothing allocated and one thread.\<close>

definition tls_start :: tls where
  "tls_start = \<lparr>g_tls_alloc_used = 0, g_fls_callbacks = replicate 64 0, tls_slots = (\<lambda>_. None)(1 := Some (replicate 64 0)),
     g_tls_static_idx = no_index,
     g_tls_info = \<lparr>template_va = 0, template_sz = 0, tls_zero_fill = 0, align_chars = 0, index_va = 0, callbacks_va = 0\<rparr>,
     g_tls_align = 16, g_image_base = 0x400000, blocks = Map.empty, tls_error = (\<lambda>_. 0), tls_trace = []\<rparr>"

theorem index_pool_shared_witness:
  "in_use tls_start \<noteq> {..<64} \<and> in_use (snd (TlsAlloc tls_start)) = insert (LEAST j. j \<notin> in_use tls_start) (in_use tls_start) \<and>
   map unat (fst (claims TlsAlloc 3 tls_start)) = [0, 1, 2]"
proof -
  have e: "in_use tls_start = {}" by (simp add: in_use_def tls_start_def)
  have "in_use tls_start \<noteq> {..<64}" unfolding e by (metis lessThan_iff empty_iff zero_less_numeral)
  with index_pool_shared [of tls_start 0 0 1 3] e show ?thesis by (auto simp: upt_rec)
qed

section \<open>Values\<close>

lemma slot_value_set:
  "tls_slots s t = Some a \<Longrightarrow> i < length a \<Longrightarrow>
    slot_value t' j (slots_set t i v s) = (if t' = t \<and> j = i then v else slot_value t' j s)"
  by (auto simp: slot_value_def slots_set_def)

lemma allocated_bit: "drop_bit i (m :: u64) AND 1 = 0 \<longleftrightarrow> \<not> bit m i"
  by (simp add: and_one_eq even_iff_mod_2_eq_zero [symmetric] even_drop_bit_iff_not_bit)

lemma tls_value_round_trip:
  assumes "unat idx \<in> in_use s" and "tls_slots s t = Some a" and "length a = 64"
  shows "fst (TlsGetValue idx t (snd (TlsSetValue idx v t s))) = v"
    and "t' \<noteq> t \<or> j \<noteq> idx \<Longrightarrow> fst (TlsGetValue j t' (snd (TlsSetValue idx v t s))) = fst (TlsGetValue j t' s)"
proof -
  have i: "\<not> 64 \<le> idx" "unat idx < 64" "bit (g_tls_alloc_used s) (unat idx)"
    using assms(1) by (auto simp: in_use_def word_le_nat_alt)
  have sv: "slot_value t' j' (slots_set t (unat idx) v s) = (if t' = t \<and> j' = unat idx then v else slot_value t' j' s)" for t' j'
    using slot_value_set [OF assms(2), of "unat idx"] assms(3) i(2) by simp
  have g: "slot_value t' j' (tls_set_error t'' e s') = slot_value t' j' s'" for t' j' t'' e s'
    by (simp add: slot_value_def tls_set_error_def)
  have u: "g_tls_alloc_used (tls_set_error t'' e s') = g_tls_alloc_used s'"
    "g_tls_alloc_used (slots_set t'' k w s') = g_tls_alloc_used s'" for t'' e k w s'
    by (simp_all add: tls_set_error_def slots_set_def)
  show "fst (TlsGetValue idx t (snd (TlsSetValue idx v t s))) = v"
    using i assms(2) by (simp add: TlsGetValue_def TlsSetValue_def Let_def g u sv allocated_bit)
  show "fst (TlsGetValue j t' (snd (TlsSetValue idx v t s))) = fst (TlsGetValue j t' s)" if "t' \<noteq> t \<or> j \<noteq> idx"
    using i assms(2) that
    by (auto simp: TlsGetValue_def TlsSetValue_def Let_def g u sv word_unat_eq_iff)
qed

section \<open>Static TLS\<close>

lemma callback_list_finite:
  assumes "\<And>i. i < n \<Longrightarrow> rd (p + 8 * of_nat i) \<noteq> 0" and "rd (p + 8 * of_nat n) = 0"
  shows "callback_list rd p = Some (map (\<lambda>i. rd (p + 8 * of_nat i)) [0..<n])"
  using assms
proof (induction n arbitrary: p)
  case 0
  then show ?case by (subst callback_list.simps) simp
next
  case (Suc n)
  have e: "p + 8 + 8 * of_nat i = p + 8 * of_nat (Suc i)" for i by (simp add: algebra_simps)
  have "callback_list rd (p + 8) = Some (map (\<lambda>i. rd (p + 8 + 8 * of_nat i)) [0..<n])"
    using Suc.prems by (intro Suc.IH) (simp_all only: e, simp_all)
  moreover have "rd p \<noteq> 0" using Suc.prems(1) [of 0] by simp
  moreover have "[0..<Suc n] = 0 # map Suc [0..<n]" by (simp add: map_Suc_upt upt_conv_Cons)
  ultimately show ?case by (subst callback_list.simps) (simp add: e comp_def del: upt_Suc)
qed

lemma run_tls_callbacks_keeps:
  assumes "run_tls_callbacks rd r t s = Some s'"
  shows "tls_slots s' = tls_slots s" "blocks s' = blocks s" "g_tls_static_idx s' = g_tls_static_idx s"
    "g_tls_info s' = g_tls_info s" "g_image_base s' = g_image_base s" "in_use s' = in_use s"
  using assms by (auto simp: run_tls_callbacks_def in_use_def Let_def split: if_splits)

lemma block_bytes_no_wrap:
  assumes "g_tls_info s = info" and "template_va info \<noteq> 0" and "template_sz info \<noteq> 0"
    and "unat (template_sz info) + unat (tls_zero_fill info) < 2 ^ 64" and "length tmpl = unat (template_sz info)"
  shows "block_bytes tmpl s = tmpl @ replicate (unat (tls_zero_fill info)) 0"
proof -
  have u: "unat (template_sz info + tls_zero_fill info) = unat (template_sz info) + unat (tls_zero_fill info)"
    using assms(4) by (subst unat_add_lem [THEN iffD1]) simp_all
  then have "template_sz info + tls_zero_fill info \<noteq> 0"
    using assms(3) by (metis add_is_0 unat_eq_0)
  with u have "unat (block_size s) = unat (template_sz info) + unat (tls_zero_fill info)"
    using assms(1) by (simp add: block_size_def)
  then show ?thesis using assms by (simp add: block_bytes_def Let_def unat_eq_0)
qed

lemma static_init_block:
  assumes "g_tls_static_idx s \<noteq> no_index" and "unat (g_tls_static_idx s) < 64"
    and "tls_slots s t = Some a" and "length a = 64" and "a ! unat (g_tls_static_idx s) = 0"
  shows "let s' = tls_static_init_thread tmpl (Some p) t s in
    slot_value t (unat (g_tls_static_idx s)) s' = p \<and> blocks s' = (blocks s)(p \<mapsto> block_bytes tmpl s) \<and>
    (\<forall>t'. t' \<noteq> t \<longrightarrow> tls_slots s' t' = tls_slots s t') \<and> g_tls_static_idx s' = g_tls_static_idx s \<and>
    g_tls_info s' = g_tls_info s \<and> tls_trace s' = tls_trace s"
  using assms by (simp add: tls_static_init_thread_def slot_value_def slots_set_def Let_def)


lemma run_no_callbacks: "\<exists>s'. run_tls_callbacks (\<lambda>_. 0) r t s = Some s'"
proof -
  have "callback_list (\<lambda>_. 0) p = Some []" for p by (subst callback_list.simps) simp
  then show ?thesis by (simp add: run_tls_callbacks_def Let_def)
qed

definition sample_info :: ShimTlsInfo where
  "sample_info = \<lparr>template_va = 0x5000, template_sz = 2, tls_zero_fill = 3, align_chars = 0, index_va = 0x6000, callbacks_va = 0x7000\<rparr>"


section \<open>The end of a thread\<close>

text \<open>
  With callbacks that leave the array alone, \<^verbatim>\<open>shim_thread_exit\<close> calls exactly the callbacks of the
  slots that hold a value and have one, in ascending order, each with the value.
\<close>

lemma exit_loop_calls:
  "i \<le> 64 \<Longrightarrow> length a = 64 \<Longrightarrow>
    fst (exit_loop (\<lambda>_ _ a. a) cbs i a) = map (\<lambda>j. (j, cbs ! j, a ! j)) (filter (\<lambda>j. a ! j \<noteq> 0 \<and> cbs ! j \<noteq> 0) [i..<64])"
proof (induction "64 - i" arbitrary: i a)
  case 0
  then show ?case by (subst exit_loop.simps) simp
next
  case (Suc n)
  then have i: "i < 64" "n = 64 - (i + 1)" by simp_all
  have u: "[i..<64] = i # [i + 1..<64]" using i by (simp add: upt_conv_Cons)
  show ?case
  proof (cases "a ! i = 0 \<or> cbs ! i = 0")
    case True
    then have "exit_loop (\<lambda>_ _ a. a) cbs i a = exit_loop (\<lambda>_ _ a. a) cbs (i + 1) a"
      using i by (subst exit_loop.simps) simp
    with Suc.hyps(1) [OF i(2), of a] Suc.prems i True u show ?thesis by auto
  next
    case False
    then have "fst (exit_loop (\<lambda>_ _ a. a) cbs i a) = (i, cbs ! i, a ! i) # fst (exit_loop (\<lambda>_ _ a. a) cbs (i + 1) (a[i := 0]))"
      using i by (subst exit_loop.simps) (simp add: case_prod_beta)
    moreover have "map (\<lambda>j. (j, cbs ! j, a[i := 0] ! j)) (filter (\<lambda>j. a[i := 0] ! j \<noteq> 0 \<and> cbs ! j \<noteq> 0) [i + 1..<64])
        = map (\<lambda>j. (j, cbs ! j, a ! j)) (filter (\<lambda>j. a ! j \<noteq> 0 \<and> cbs ! j \<noteq> 0) [i + 1..<64])"
      by (intro map_cong filter_cong) auto
    ultimately show ?thesis using Suc.hyps(1) [OF i(2), of "a[i := 0]"] Suc.prems i False u by auto
  qed
qed

end
