(* ===== verification/Shim_Memory.thy ===== *)
theory Shim_Memory
  imports Shim_Types
begin

text \<open>
  Memory (shim_kernel32_mem.hpp, the tracker of shim.cpp, \<^verbatim>\<open>VirtualProtect\<close> of
  shim_kernel32_misc.hpp).  The address space of the process is a protection per mapped page
  of 4096 bytes and the bytes at every address; the tracker maps the base of an allocation to
  its size.  What the kernel chooses (where a mapping without an address goes, whether a
  mapping is granted at all) and whether the tracker can grow is the argument \<open>vm_host\<close>; the
  rest of \<^verbatim>\<open>mmap\<close>, \<^verbatim>\<open>munmap\<close>, \<^verbatim>\<open>mprotect\<close> and \<^verbatim>\<open>madvise\<close> is written out.  The heap maps the address
  of a block to its usable bytes; which block \<^verbatim>\<open>malloc\<close> and \<^verbatim>\<open>realloc\<close> answer with, and what a
  fresh block holds, is the argument \<open>malloc_host\<close>.
\<close>

section \<open>Pages\<close>

abbreviation MEM_COMMIT :: u32 where "MEM_COMMIT \<equiv> 0x1000"
abbreviation MEM_RESERVE :: u32 where "MEM_RESERVE \<equiv> 0x2000"
abbreviation MEM_DECOMMIT :: u32 where "MEM_DECOMMIT \<equiv> 0x4000"
abbreviation MEM_RELEASE :: u32 where "MEM_RELEASE \<equiv> 0x8000"
abbreviation PAGE_NOACCESS :: u32 where "PAGE_NOACCESS \<equiv> 0x01"
abbreviation PAGE_READONLY :: u32 where "PAGE_READONLY \<equiv> 0x02"
abbreviation PAGE_READWRITE :: u32 where "PAGE_READWRITE \<equiv> 0x04"
abbreviation PAGE_EXECUTE :: u32 where "PAGE_EXECUTE \<equiv> 0x10"
abbreviation PAGE_EXECUTE_READ :: u32 where "PAGE_EXECUTE_READ \<equiv> 0x20"
abbreviation PAGE_EXECUTE_READWRITE :: u32 where "PAGE_EXECUTE_READWRITE \<equiv> 0x40"
abbreviation PROT_NONE :: u32 where "PROT_NONE \<equiv> 0"
abbreviation PROT_READ :: u32 where "PROT_READ \<equiv> 1"
abbreviation PROT_WRITE :: u32 where "PROT_WRITE \<equiv> 2"
abbreviation PROT_EXEC :: u32 where "PROT_EXEC \<equiv> 4"

record vm =
  vm_prot :: "nat \<rightharpoonup> u32"
  vm_mem :: "nat \<Rightarrow> u8"
  mmap_table :: "nat \<rightharpoonup> nat"
  vm_error :: u32

record vm_host =
  vh_pick :: "vm \<Rightarrow> nat \<Rightarrow> nat option"
  vh_grant :: "vm \<Rightarrow> nat \<Rightarrow> nat \<Rightarrow> bool"
  vh_track :: "vm \<Rightarrow> bool"

definition vm_pages :: "nat \<Rightarrow> nat \<Rightarrow> nat set" where
  "vm_pages a n = {a div 4096 ..< (a + n + 4095) div 4096}"

abbreviation in_pages :: "nat set \<Rightarrow> nat \<Rightarrow> bool" where
  "in_pages P x \<equiv> x div 4096 \<in> P"

datatype mmap_flags = Anywhere | Fixed_noreplace | Fixed

definition map_pages :: "nat \<Rightarrow> nat \<Rightarrow> u32 \<Rightarrow> vm \<Rightarrow> vm" where
  "map_pages a n prot v = v\<lparr>
     vm_prot := (\<lambda>p. if p \<in> vm_pages a n then Some prot else vm_prot v p),
     vm_mem := (\<lambda>x. if in_pages (vm_pages a n) x then 0 else vm_mem v x)\<rparr>"

definition pages_free :: "nat \<Rightarrow> nat \<Rightarrow> vm \<Rightarrow> bool" where
  "pages_free a n v \<longleftrightarrow> (\<forall>p \<in> vm_pages a n. vm_prot v p = None)"

definition mmap :: "vm_host \<Rightarrow> nat \<Rightarrow> nat \<Rightarrow> u32 \<Rightarrow> mmap_flags \<Rightarrow> vm \<Rightarrow> nat option \<times> vm" where
  "mmap h a n prot fl v =
    (if n = 0 then (None, v)
     else case fl of
       Anywhere \<Rightarrow> (case vh_pick h v n of None \<Rightarrow> (None, v) | Some b \<Rightarrow> (Some b, map_pages b n prot v))
     | Fixed_noreplace \<Rightarrow>
         if a mod 4096 = 0 \<and> vh_grant h v a n \<and> pages_free a n v then (Some a, map_pages a n prot v) else (None, v)
     | Fixed \<Rightarrow> if a mod 4096 = 0 \<and> vh_grant h v a n then (Some a, map_pages a n prot v) else (None, v))"

definition munmap :: "nat \<Rightarrow> nat \<Rightarrow> vm \<Rightarrow> vm" where
  "munmap a n v = (if a mod 4096 \<noteq> 0 \<or> n = 0 then v
     else v\<lparr>vm_prot := (\<lambda>p. if p \<in> vm_pages a n then None else vm_prot v p)\<rparr>)"

text \<open>\<^verbatim>\<open>mprotect\<close> stops with \<^verbatim>\<open>ENOMEM\<close> at the first page of the range that is not mapped.\<close>

definition mprotect :: "nat \<Rightarrow> nat \<Rightarrow> u32 \<Rightarrow> vm \<Rightarrow> errno option \<times> vm" where
  "mprotect a n prot v = (if a mod 4096 \<noteq> 0 then (Some EINVAL, v)
     else (if \<forall>p \<in> vm_pages a n. vm_prot v p \<noteq> None then None else Some ENOMEM,
       v\<lparr>vm_prot := (\<lambda>p. if p \<in> vm_pages a n \<and> (\<forall>q \<in> {a div 4096..p}. vm_prot v q \<noteq> None) then Some prot
          else vm_prot v p)\<rparr>))"

definition madvise_dontneed :: "nat \<Rightarrow> nat \<Rightarrow> vm \<Rightarrow> vm" where
  "madvise_dontneed a n v = (if a mod 4096 \<noteq> 0 then v
     else v\<lparr>vm_mem := (\<lambda>x. if in_pages (vm_pages a n) x then 0 else vm_mem v x)\<rparr>)"

section \<open>Virtual memory\<close>

definition mmap_track_add :: "vm_host \<Rightarrow> nat \<Rightarrow> nat \<Rightarrow> vm \<Rightarrow> bool \<times> vm" where
  "mmap_track_add h base sz v =
    (case mmap_table v base of
       Some s \<Rightarrow> (True, v\<lparr>mmap_table := (mmap_table v)(base \<mapsto> (if sz > s then sz else s))\<rparr>)
     | None \<Rightarrow> if vh_track h v then (True, v\<lparr>mmap_table := (mmap_table v)(base \<mapsto> sz)\<rparr>) else (False, v))"

definition mmap_track_remove :: "nat \<Rightarrow> vm \<Rightarrow> nat \<times> vm" where
  "mmap_track_remove base v = (case mmap_table v base of
     Some s \<Rightarrow> (s, v\<lparr>mmap_table := (mmap_table v)(base := None)\<rparr>) | None \<Rightarrow> (0, v))"

definition prot_from_protect :: "u32 \<Rightarrow> u32" where
  "prot_from_protect protect = (let p = protect AND 0xFF in
     if p = PAGE_NOACCESS then PROT_NONE
     else if p = PAGE_READONLY then PROT_READ
     else if p = PAGE_READWRITE then PROT_READ OR PROT_WRITE
     else if p = PAGE_EXECUTE then PROT_EXEC
     else if p = PAGE_EXECUTE_READ then PROT_EXEC OR PROT_READ
     else if p = PAGE_EXECUTE_READWRITE then PROT_EXEC OR PROT_READ OR PROT_WRITE
     else PROT_READ OR PROT_WRITE)"

definition vm_fail :: "vm \<Rightarrow> nat \<times> vm" where
  "vm_fail v = (0, v\<lparr>vm_error := ERROR_OUTOFMEMORY\<rparr>)"

text \<open>The end of both branches: enter the region in the tracker or give it back.\<close>

definition va_track :: "vm_host \<Rightarrow> nat \<Rightarrow> nat \<Rightarrow> vm \<Rightarrow> nat \<times> vm" where
  "va_track h p sz v = (case mmap_track_add h p sz v of
     (True, v') \<Rightarrow> (p, v') | (False, v') \<Rightarrow> vm_fail (munmap p sz v'))"

definition VirtualAlloc :: "vm_host \<Rightarrow> nat \<Rightarrow> nat \<Rightarrow> u32 \<Rightarrow> u32 \<Rightarrow> vm \<Rightarrow> nat \<times> vm" where
  "VirtualAlloc h addr sz type protect v = (let prot = prot_from_protect protect in
     if addr \<noteq> 0 then
       (case mmap h addr sz prot Fixed_noreplace v of
          (Some p, v1) \<Rightarrow> va_track h p sz v1
        | (None, v1) \<Rightarrow>
            (case mmap h addr sz prot Fixed v1 of
               (None, v2) \<Rightarrow> vm_fail v2
             | (Some p, v2) \<Rightarrow> if p \<noteq> addr then vm_fail (munmap p sz v2) else va_track h p sz v2))
     else
       (case mmap h addr sz prot Anywhere v of
          (None, v1) \<Rightarrow> vm_fail v1
        | (Some p, v1) \<Rightarrow> va_track h p sz v1))"

definition VirtualFree :: "nat \<Rightarrow> nat \<Rightarrow> u32 \<Rightarrow> vm \<Rightarrow> bool \<times> vm" where
  "VirtualFree addr sz type v =
    (if type AND MEM_RELEASE \<noteq> 0 then
       (if sz \<noteq> 0 then (False, v\<lparr>vm_error := ERROR_INVALID_PARAMETER\<rparr>)
        else let (tracked, v') = mmap_track_remove addr v in
          (True, if tracked \<noteq> 0 then munmap addr tracked v' else v'))
     else if type AND MEM_DECOMMIT \<noteq> 0 then
       (True, madvise_dontneed addr sz (snd (mprotect addr sz PROT_NONE v)))
     else (True, v))"

definition VirtualProtect :: "nat \<Rightarrow> nat \<Rightarrow> u32 \<Rightarrow> vm \<Rightarrow> (bool \<times> u32) \<times> vm" where
  "VirtualProtect addr sz np v = (let pa = addr div 4096 * 4096;
       ps = (addr + sz - pa + 4095) div 4096 * 4096 in
     (case mprotect pa ps (prot_from_protect np) v of
        (Some e, v') \<Rightarrow> ((False, PAGE_READWRITE), v'\<lparr>vm_error := errno_to_win32 e\<rparr>)
      | (None, v') \<Rightarrow> ((True, PAGE_READWRITE), v')))"

section \<open>The regions of a program\<close>

text \<open>
  A kernel that places a mapping without an address on free pages.
\<close>

definition vm_host_ok :: "vm_host \<Rightarrow> bool" where
  "vm_host_ok h \<longleftrightarrow> (\<forall>v n b. vh_pick h v n = Some b \<longrightarrow> b \<noteq> 0 \<and> b mod 4096 = 0 \<and> pages_free b n v)"

text \<open>
  The calls of a program that asks for memory anywhere, at an address of its own with free
  pages, or at the base of a region it has (to commit a part of a reservation from its start),
  and that frees and decommits what it likes.
\<close>

definition asks_region :: "nat \<Rightarrow> nat \<Rightarrow> vm \<Rightarrow> bool" where
  "asks_region addr sz v \<longleftrightarrow>
    addr = 0 \<or> pages_free addr sz v \<or> (case mmap_table v addr of Some n \<Rightarrow> sz \<le> n | None \<Rightarrow> False)"

inductive vm_step :: "vm_host \<Rightarrow> vm \<Rightarrow> vm \<Rightarrow> bool" for h where
  alloc: "asks_region addr sz v \<Longrightarrow> VirtualAlloc h addr sz type protect v = (p, v') \<Longrightarrow> vm_step h v v'"
| free: "VirtualFree addr sz type v = (r, v') \<Longrightarrow> vm_step h v v'"
| protect: "VirtualProtect addr sz np v = (r, v') \<Longrightarrow> vm_step h v v'"
| store: "vm_prot v (x div 4096) \<noteq> None \<Longrightarrow> vm_step h v (v\<lparr>vm_mem := (vm_mem v)(x := b)\<rparr>)"

inductive vm_run :: "vm_host \<Rightarrow> vm \<Rightarrow> vm \<Rightarrow> bool" for h where
  refl: "vm_run h v v"
| step: "vm_run h v v' \<Longrightarrow> vm_step h v' v'' \<Longrightarrow> vm_run h v v''"

text \<open>Every region the tracker holds is mapped, and no two of them share a page.\<close>

definition regions_ok :: "vm \<Rightarrow> bool" where
  "regions_ok v \<longleftrightarrow>
    (\<forall>b n. mmap_table v b = Some n \<longrightarrow> 0 < n \<and> b \<noteq> 0 \<and> b mod 4096 = 0 \<and> vm_pages b n \<subseteq> dom (vm_prot v)) \<and>
    (\<forall>b b' n n'. mmap_table v b = Some n \<longrightarrow> mmap_table v b' = Some n' \<longrightarrow> b \<noteq> b' \<longrightarrow> vm_pages b n \<inter> vm_pages b' n' = {})"

lemma vm_pages_base: "0 < n \<Longrightarrow> b mod 4096 = 0 \<Longrightarrow> b div 4096 \<in> vm_pages b n"
  by (auto simp: vm_pages_def)

lemma vm_pages_mono: "m \<le> n \<Longrightarrow> vm_pages b m \<subseteq> vm_pages b n"
  unfolding vm_pages_def by (simp add: div_le_mono ivl_subset)

lemma regions_region:
  "regions_ok v \<Longrightarrow> mmap_table v b = Some n \<Longrightarrow> 0 < n \<and> b \<noteq> 0 \<and> b mod 4096 = 0 \<and> vm_pages b n \<subseteq> dom (vm_prot v)"
  by (auto simp: regions_ok_def)

lemma regions_disjoint:
  "regions_ok v \<Longrightarrow> mmap_table v b = Some n \<Longrightarrow> mmap_table v b' = Some n' \<Longrightarrow> b \<noteq> b' \<Longrightarrow>
    vm_pages b n \<inter> vm_pages b' n' = {}"
  unfolding regions_ok_def by metis

lemma regions_okI:
  assumes "\<And>b n. mmap_table v b = Some n \<Longrightarrow> 0 < n \<and> b \<noteq> 0 \<and> b mod 4096 = 0 \<and> vm_pages b n \<subseteq> dom (vm_prot v)"
    and "\<And>b b' n n'. mmap_table v b = Some n \<Longrightarrow> mmap_table v b' = Some n' \<Longrightarrow> b \<noteq> b' \<Longrightarrow> vm_pages b n \<inter> vm_pages b' n' = {}"
  shows "regions_ok v"
  using assms unfolding regions_ok_def by metis

text \<open>What changes protections but maps the same pages keeps the regions.\<close>

lemma regions_ok_same:
  assumes ok: "regions_ok v" and t: "mmap_table v' = mmap_table v" and d: "dom (vm_prot v) \<subseteq> dom (vm_prot v')"
  shows "regions_ok v'"
  by (rule regions_okI; unfold t) (use regions_region[OF ok] regions_disjoint[OF ok] d in \<open>blast+\<close>)

lemma dom_map_pages: "dom (vm_prot (map_pages b n prot v)) = dom (vm_prot v) \<union> vm_pages b n"
  by (auto simp: map_pages_def split: if_splits)

lemma dom_munmap:
  "b mod 4096 = 0 \<Longrightarrow> 0 < n \<Longrightarrow> dom (vm_prot (munmap b n v)) = dom (vm_prot v) - vm_pages b n"
  by (auto simp: munmap_def split: if_splits)

lemma mmap_table_pages [simp]: "mmap_table (map_pages b n prot v) = mmap_table v"
  "mmap_table (munmap b n v) = mmap_table v" "mmap_table (madvise_dontneed b n v) = mmap_table v"
  by (simp_all add: map_pages_def munmap_def madvise_dontneed_def)

lemma vm_prot_madvise [simp]: "vm_prot (madvise_dontneed b n v) = vm_prot v"
  by (simp add: madvise_dontneed_def)

lemma pages_free_dom: "pages_free b n v \<longleftrightarrow> vm_pages b n \<inter> dom (vm_prot v) = {}"
  by (auto simp: pages_free_def)

lemma regions_ok_add:
  assumes ok: "regions_ok v" and b: "b \<noteq> 0" "b mod 4096 = 0" "0 < n" and fr: "pages_free b n v"
  shows "mmap_table v b = None" (is ?fresh)
    and "regions_ok ((map_pages b n prot v)\<lparr>mmap_table := (mmap_table v)(b \<mapsto> n)\<rparr>)" (is ?ok)
proof -
  have out: "vm_pages b n \<inter> vm_pages b' n' = {}" if "mmap_table v b' = Some n'" for b' n'
    using regions_region[OF ok that] fr unfolding pages_free_dom by blast
  show f: ?fresh
  proof (rule ccontr)
    assume "mmap_table v b \<noteq> None"
    then obtain m where m: "mmap_table v b = Some m" by blast
    then have "b div 4096 \<in> vm_pages b m"
      using regions_region[OF ok m] b(2) by (simp add: vm_pages_base)
    moreover have "b div 4096 \<in> vm_pages b n" using b by (simp add: vm_pages_base)
    ultimately show False using out[OF m] by blast
  qed
  show ?ok
  proof (rule regions_okI)
    fix b' n' assume "mmap_table (map_pages b n prot v\<lparr>mmap_table := (mmap_table v)(b \<mapsto> n)\<rparr>) b' = Some n'"
    then show "0 < n' \<and> b' \<noteq> 0 \<and> b' mod 4096 = 0 \<and>
        vm_pages b' n' \<subseteq> dom (vm_prot (map_pages b n prot v\<lparr>mmap_table := (mmap_table v)(b \<mapsto> n)\<rparr>))"
      using b regions_region[OF ok, of b' n'] by (simp add: dom_map_pages split: if_splits) blast
  next
    fix b1 b2 n1 n2
    assume "mmap_table (map_pages b n prot v\<lparr>mmap_table := (mmap_table v)(b \<mapsto> n)\<rparr>) b1 = Some n1"
      "mmap_table (map_pages b n prot v\<lparr>mmap_table := (mmap_table v)(b \<mapsto> n)\<rparr>) b2 = Some n2" "b1 \<noteq> b2"
    then show "vm_pages b1 n1 \<inter> vm_pages b2 n2 = {}"
      using out[of b1 n1] out[of b2 n2] regions_disjoint[OF ok, of b1 n1 b2 n2]
      by (simp split: if_splits) blast
  qed
qed

text \<open>Releasing a region unmaps its pages and nothing else.\<close>

lemma VirtualFree_release:
  assumes ok: "regions_ok v" and b: "mmap_table v b = Some n" and t: "type AND MEM_RELEASE \<noteq> 0"
  shows "VirtualFree b 0 type v = (True, munmap b n (v\<lparr>mmap_table := (mmap_table v)(b := None)\<rparr>))"
  using regions_region[OF ok b] b t by (simp add: VirtualFree_def mmap_track_remove_def)

lemma regions_ok_release:
  assumes ok: "regions_ok v" and b: "mmap_table v b = Some n"
  shows "regions_ok (munmap b n (v\<lparr>mmap_table := (mmap_table v)(b := None)\<rparr>))"
proof -
  have bn: "b mod 4096 = 0" "0 < n" using regions_region[OF ok b] by simp_all
  show ?thesis
  proof (rule regions_okI)
    fix b' n' assume "mmap_table (munmap b n (v\<lparr>mmap_table := (mmap_table v)(b := None)\<rparr>)) b' = Some n'"
    then have b': "mmap_table v b' = Some n'" "b' \<noteq> b" by (simp_all split: if_splits)
    show "0 < n' \<and> b' \<noteq> 0 \<and> b' mod 4096 = 0 \<and>
        vm_pages b' n' \<subseteq> dom (vm_prot (munmap b n (v\<lparr>mmap_table := (mmap_table v)(b := None)\<rparr>)))"
      using regions_region[OF ok b'(1)] regions_disjoint[OF ok b'(1) b b'(2)] by (auto simp: dom_munmap[OF bn])
  next
    fix b1 b2 n1 n2
    assume "mmap_table (munmap b n (v\<lparr>mmap_table := (mmap_table v)(b := None)\<rparr>)) b1 = Some n1"
      "mmap_table (munmap b n (v\<lparr>mmap_table := (mmap_table v)(b := None)\<rparr>)) b2 = Some n2" "b1 \<noteq> b2"
    then show "vm_pages b1 n1 \<inter> vm_pages b2 n2 = {}"
      using regions_disjoint[OF ok, of b1 n1 b2 n2] by (simp split: if_splits)
  qed
qed

lemma mprotect_mapped: "mprotect a n prot v = (r, v') \<Longrightarrow>
    mmap_table v' = mmap_table v \<and> vm_mem v' = vm_mem v \<and> dom (vm_prot v') = dom (vm_prot v)"
  by (auto simp: mprotect_def vm_pages_def split: if_splits)

lemma regions_ok_free:
  assumes ok: "regions_ok v" and f: "VirtualFree addr sz type v = (r, v')"
  shows "regions_ok v'"
proof (cases "type AND MEM_RELEASE = 0")
  case True
  have "regions_ok (madvise_dontneed addr sz (snd (mprotect addr sz PROT_NONE v)))"
    using mprotect_mapped[of addr sz PROT_NONE v "fst (mprotect addr sz PROT_NONE v)"] by (intro regions_ok_same[OF ok]) simp_all
  then show ?thesis using f ok True by (auto simp: VirtualFree_def split: if_splits)
next
  case rel: False
  show ?thesis
  proof (cases "sz = 0")
    case True
    show ?thesis
    proof (cases "mmap_table v addr")
      case None
      then show ?thesis using f ok rel True by (auto simp: VirtualFree_def mmap_track_remove_def)
    next
      case (Some n)
      show ?thesis
        using f VirtualFree_release[OF ok Some rel] regions_ok_release[OF ok Some] True by simp
    qed
  next
    case False
    then show ?thesis
      using f rel by (auto simp: VirtualFree_def intro: regions_ok_same[OF ok])
  qed
qed

lemma va_track_fresh:
  assumes ok: "regions_ok v" and b: "b \<noteq> 0" "b mod 4096 = 0" "0 < n" and fr: "pages_free b n v"
    and r: "va_track h b n (map_pages b n prot v) = (p, v')"
  shows "regions_ok v'"
proof -
  have "regions_ok (munmap b n (map_pages b n prot v)\<lparr>vm_error := e\<rparr>)" for e
    using fr b by (intro regions_ok_same[OF ok]) (auto simp: dom_munmap dom_map_pages pages_free_dom)
  then show ?thesis
    using r regions_ok_add(1)[OF ok b fr] regions_ok_add(2)[OF ok b fr, of prot]
    by (auto simp: va_track_def mmap_track_add_def vm_fail_def split: if_splits)
qed

lemma va_track_again:
  assumes ok: "regions_ok v" and b: "mmap_table v b = Some m" and n: "n \<le> m"
    and r: "va_track h b n (map_pages b n prot v) = (p, v')"
  shows "regions_ok v'"
proof -
  have "v' = (map_pages b n prot v)\<lparr>mmap_table := mmap_table v\<rparr>"
    using r b n by (auto simp: va_track_def mmap_track_add_def fun_upd_idem)
  then show ?thesis by (intro regions_ok_same[OF ok]) (simp_all add: dom_map_pages)
qed

lemma regions_ok_fail: "regions_ok v \<Longrightarrow> vm_fail v = (p, v') \<Longrightarrow> regions_ok v'"
  by (auto simp: vm_fail_def intro: regions_ok_same)

lemma regions_ok_alloc:
  assumes h: "vm_host_ok h" and ok: "regions_ok v" and a: "asks_region addr sz v"
    and r: "VirtualAlloc h addr sz type protect v = (p, v')"
  shows "regions_ok v'"
proof (cases "sz = 0")
  case True
  then show ?thesis
    using r regions_ok_fail[OF ok] by (auto simp: VirtualAlloc_def mmap_def Let_def split: if_splits)
next
  case n: False
  show ?thesis
  proof (cases "addr = 0")
    case True
    show ?thesis
    proof (cases "vh_pick h v sz")
      case None
      then show ?thesis using r n True regions_ok_fail[OF ok] by (auto simp: VirtualAlloc_def mmap_def Let_def)
    next
      case (Some b)
      then have "b \<noteq> 0" "b mod 4096 = 0" "pages_free b sz v" using h by (auto simp: vm_host_ok_def)
      then show ?thesis
        using r n True Some va_track_fresh[OF ok, of b sz] by (auto simp: VirtualAlloc_def mmap_def Let_def)
    qed
  next
    case False
    show ?thesis
    proof (cases "addr mod 4096 = 0 \<and> vh_grant h v addr sz")
      case no: False
      then show ?thesis
        using r n False regions_ok_fail[OF ok] by (auto simp: VirtualAlloc_def mmap_def Let_def)
    next
      case True
      then have t: "va_track h addr sz (map_pages addr sz (prot_from_protect protect) v) = (p, v')"
        using r n False by (auto simp: VirtualAlloc_def mmap_def Let_def split: if_splits)
      show ?thesis
      proof (cases "pages_free addr sz v")
        case fr: True
        then show ?thesis using va_track_fresh[OF ok _ _ _ _ t] False True n by simp
      next
        case nf: False
        then obtain m where "mmap_table v addr = Some m" "sz \<le> m"
          using a False by (auto simp: asks_region_def split: option.splits)
        then show ?thesis using va_track_again[OF ok _ _ t] by blast
      qed
    qed
  qed
qed

lemma VirtualProtect_mapped:
  assumes "VirtualProtect addr sz np v = (r, v')"
  shows "mmap_table v' = mmap_table v" and "dom (vm_prot v') = dom (vm_prot v)"
proof -
  define pa ps where "pa = addr div 4096 * 4096" and "ps = (addr + sz - pa + 4095) div 4096 * 4096"
  obtain e w where m: "mprotect pa ps (prot_from_protect np) v = (e, w)" by fastforce
  then have "vm_prot v' = vm_prot w \<and> mmap_table v' = mmap_table w"
    using assms by (cases e) (auto simp: VirtualProtect_def Let_def pa_def ps_def)
  then show "mmap_table v' = mmap_table v" "dom (vm_prot v') = dom (vm_prot v)"
    using mprotect_mapped[OF m] by simp_all
qed

lemma regions_ok_step: "vm_step h v v' \<Longrightarrow> vm_host_ok h \<Longrightarrow> regions_ok v \<Longrightarrow> regions_ok v'"
proof (induction rule: vm_step.induct)
  case (alloc addr sz v type protect p v')
  then show ?case by (blast intro: regions_ok_alloc)
next
  case (free addr sz type v r v')
  then show ?case by (blast intro: regions_ok_free)
next
  case (protect addr sz np v r v')
  then show ?case using VirtualProtect_mapped[OF protect.hyps] by (elim regions_ok_same) simp_all
next
  case (store v x b)
  then show ?case by (elim regions_ok_same) simp_all
qed

lemma regions_ok_run: "vm_run h v v' \<Longrightarrow> vm_host_ok h \<Longrightarrow> regions_ok v \<Longrightarrow> regions_ok v'"
  by (induction rule: vm_run.induct) (auto intro: regions_ok_step)


definition vm_start :: vm where
  "vm_start = \<lparr>vm_prot = Map.empty, vm_mem = (\<lambda>_. 0), mmap_table = Map.empty, vm_error = 0\<rparr>"

text \<open>The regions the tracker holds do not depend on what was mapped before the first call.\<close>

definition vm_untracked :: "vm \<Rightarrow> bool" where
  "vm_untracked v \<longleftrightarrow> mmap_table v = Map.empty"

lemma regions_ok_untracked: "vm_untracked v \<Longrightarrow> regions_ok v"
  by (rule regions_okI) (simp_all add: vm_untracked_def)

lemma vm_mem_munmap [simp]: "vm_mem (munmap b n v) = vm_mem v"
  by (simp add: munmap_def)

lemma vm_prot_munmap:
  "b mod 4096 = 0 \<Longrightarrow> 0 < n \<Longrightarrow> vm_prot (munmap b n v) p = (if p \<in> vm_pages b n then None else vm_prot v p)"
  by (simp add: munmap_def)


text \<open>A host that places mappings at the first gap from page 16 on.\<close>

definition gap_pages :: "nat list" where
  "gap_pages = [16, 17, 18, 19, 20, 21]"

definition gap_host :: vm_host where
  "gap_host = \<lparr>vh_pick = (\<lambda>v n. map_option ((*) 4096)
       (find (\<lambda>p. list_all (\<lambda>q. vm_prot v q = None) [p ..< p + (n + 4095) div 4096]) gap_pages)),
     vh_grant = (\<lambda>_ _ _. True), vh_track = (\<lambda>_. True)\<rparr>"

lemma gap_pages_pos: "p \<in> set gap_pages \<Longrightarrow> 0 < p"
  by (auto simp: gap_pages_def)

lemma gap_host_ok: "vm_host_ok gap_host"
proof -
  have "b \<noteq> 0 \<and> b mod 4096 = 0 \<and> pages_free b n v" if pk: "vh_pick gap_host v n = Some b" for v n b
  proof -
    obtain p where b: "b = 4096 * p"
      and f: "find (\<lambda>p. list_all (\<lambda>q. vm_prot v q = None) [p ..< p + (n + 4095) div 4096]) gap_pages = Some p"
      using pk by (auto simp: gap_host_def)
    note p = find_SomeD[OF f]
    have "(4096 * p + n + 4095) div 4096 = p + (n + 4095) div 4096"
      by (simp add: add.assoc)
    then show ?thesis using p b gap_pages_pos[of p] by (simp add: pages_free_def vm_pages_def list_all_iff)
  qed
  then show ?thesis by (simp add: vm_host_ok_def)
qed

lemmas vm_eval = VirtualAlloc_def va_track_def mmap_track_add_def mmap_def gap_host_def gap_pages_def prot_from_protect_def
  map_pages_def vm_pages_def pages_free_def vm_start_def VirtualFree_def mmap_track_remove_def munmap_def

lemma vm_alloc_anywhere:
  "vm_run gap_host v0 v \<Longrightarrow> VirtualAlloc gap_host 0 n t pr v = (p, v') \<Longrightarrow> vm_run gap_host v0 v'"
  by (blast intro: vm_run.step vm_step.alloc[where addr = 0] asks_region_def[THEN iffD2])


text \<open>
  A commit inside a reservation leaves its own entry in the tracker, which survives the
  release of the reservation; a later, smaller allocation that is placed there inherits the
  old size, and releasing it unmaps the neighbouring allocation too.
\<close>

theorem stale_region_unmaps_neighbour:
  "\<exists>v1 v2 v3 v4 v5 v6 v7.
    VirtualAlloc gap_host 0 0x4000 MEM_RESERVE PAGE_NOACCESS vm_start = (0x10000, v1) \<and>
    VirtualAlloc gap_host 0x11000 0x3000 MEM_COMMIT PAGE_READWRITE v1 = (0x11000, v2) \<and>
    VirtualFree 0x10000 0 MEM_RELEASE v2 = (True, v3) \<and> vm_prot v3 = Map.empty \<and>
    VirtualAlloc gap_host 0 0x1000 MEM_COMMIT PAGE_READWRITE v3 = (0x10000, v4) \<and>
    VirtualAlloc gap_host 0 0x1000 MEM_COMMIT PAGE_READWRITE v4 = (0x11000, v5) \<and>
    VirtualAlloc gap_host 0 0x1000 MEM_COMMIT PAGE_READWRITE v5 = (0x12000, v6) \<and> vm_prot v6 0x12 = Some (PROT_READ OR PROT_WRITE) \<and>
    VirtualFree 0x11000 0 MEM_RELEASE v6 = (True, v7) \<and> vm_prot v7 0x12 = None"
proof -
  define v1 where "v1 = snd (VirtualAlloc gap_host 0 0x4000 MEM_RESERVE PAGE_NOACCESS vm_start)"
  define v2 where "v2 = snd (VirtualAlloc gap_host 0x11000 0x3000 MEM_COMMIT PAGE_READWRITE v1)"
  define v3 where "v3 = snd (VirtualFree 0x10000 0 MEM_RELEASE v2)"
  have 1: "VirtualAlloc gap_host 0 0x4000 MEM_RESERVE PAGE_NOACCESS vm_start = (0x10000, v1)"
    unfolding v1_def by (simp add: vm_eval)
  have m1: "mmap_table v1 = [0x10000 \<mapsto> 0x4000]" "\<And>p. vm_prot v1 p = None \<longleftrightarrow> p \<notin> {16..<20}"
    unfolding v1_def by (simp_all add: vm_eval)
  have 2: "VirtualAlloc gap_host 0x11000 0x3000 MEM_COMMIT PAGE_READWRITE v1 = (0x11000, v2)"
    unfolding v2_def by (simp add: vm_eval m1)
  have m2: "mmap_table v2 = [0x10000 \<mapsto> 0x4000, 0x11000 \<mapsto> 0x3000]" "\<And>p. vm_prot v2 p = None \<longleftrightarrow> p \<notin> {16..<20}"
    unfolding v2_def by (auto simp add: vm_eval m1)
  have 3: "VirtualFree 0x10000 0 MEM_RELEASE v2 = (True, v3)"
    unfolding v3_def by (simp add: vm_eval m2)
  have m3: "mmap_table v3 = [0x11000 \<mapsto> 0x3000]" "vm_prot v3 = Map.empty"
    unfolding v3_def by (simp_all add: vm_eval m2 fun_eq_iff)
  define v4 where "v4 = snd (VirtualAlloc gap_host 0 0x1000 MEM_COMMIT PAGE_READWRITE v3)"
  define v5 where "v5 = snd (VirtualAlloc gap_host 0 0x1000 MEM_COMMIT PAGE_READWRITE v4)"
  define v6 where "v6 = snd (VirtualAlloc gap_host 0 0x1000 MEM_COMMIT PAGE_READWRITE v5)"
  have 4: "VirtualAlloc gap_host 0 0x1000 MEM_COMMIT PAGE_READWRITE v3 = (0x10000, v4)"
    unfolding v4_def by (simp add: vm_eval m3)
  have m4: "mmap_table v4 = [0x11000 \<mapsto> 0x3000, 0x10000 \<mapsto> 0x1000]" "\<And>p. vm_prot v4 p = None \<longleftrightarrow> p \<noteq> 16"
    unfolding v4_def by (auto simp add: vm_eval m3)
  have 5: "VirtualAlloc gap_host 0 0x1000 MEM_COMMIT PAGE_READWRITE v4 = (0x11000, v5)"
    unfolding v5_def by (simp add: vm_eval m4)
  have m5: "mmap_table v5 = [0x11000 \<mapsto> 0x3000, 0x10000 \<mapsto> 0x1000]" "\<And>p. vm_prot v5 p = None \<longleftrightarrow> p \<notin> {16, 17}"
    unfolding v5_def by (auto simp add: vm_eval m4 fun_upd_twist)
  have 6: "VirtualAlloc gap_host 0 0x1000 MEM_COMMIT PAGE_READWRITE v5 = (0x12000, v6)"
    unfolding v6_def by (simp add: vm_eval m5)
  have m6: "mmap_table v6 0x11000 = Some 0x3000" "vm_prot v6 0x12 = Some (PROT_READ OR PROT_WRITE)"
    unfolding v6_def by (simp_all add: vm_eval m5)
  have "VirtualFree 0x11000 0 MEM_RELEASE v6 = (True, munmap 0x11000 0x3000 (v6\<lparr>mmap_table := (mmap_table v6)(0x11000 := None)\<rparr>))"
    by (simp add: VirtualFree_def mmap_track_remove_def m6)
  moreover have "vm_prot (munmap 0x11000 0x3000 (v6\<lparr>mmap_table := (mmap_table v6)(0x11000 := None)\<rparr>)) 0x12 = None"
    by (simp add: munmap_def vm_pages_def)
  ultimately show ?thesis using 1 2 3 4 5 6 m3 m6 by blast
qed

section \<open>The heap\<close>

abbreviation HEAP_ZERO_MEMORY :: u32 where "HEAP_ZERO_MEMORY \<equiv> 8"
abbreviation HEAP_PSEUDO_HANDLE :: u64 where "HEAP_PSEUDO_HANDLE \<equiv> 1"

record heap =
  hp_blocks :: "nat \<rightharpoonup> bytes"
  hp_error :: u32

text \<open>
  \<open>mh_malloc\<close> and \<open>mh_realloc\<close>: the block the allocator answers with, and the bytes a block
  newly taken, or the part of a resized one that is not kept, happens to hold.
\<close>

record malloc_host =
  mh_malloc :: "(nat \<rightharpoonup> bytes) \<Rightarrow> nat \<Rightarrow> (nat \<times> bytes) option"
  mh_realloc :: "(nat \<rightharpoonup> bytes) \<Rightarrow> nat \<Rightarrow> nat \<Rightarrow> (nat \<times> bytes) option"

definition malloc_host_ok :: "malloc_host \<Rightarrow> bool" where
  "malloc_host_ok h \<longleftrightarrow>
    (\<forall>m n p bs. mh_malloc h m n = Some (p, bs) \<longrightarrow> 0x10000 \<le> p \<and> m p = None \<and> n \<le> length bs \<and> bs \<noteq> []) \<and>
    (\<forall>m p n q bs. mh_realloc h m p n = Some (q, bs) \<longrightarrow>
       0x10000 \<le> q \<and> (q = p \<or> m q = None) \<and> n \<le> length bs \<and> bs \<noteq> [])"

definition malloc :: "malloc_host \<Rightarrow> nat \<Rightarrow> heap \<Rightarrow> nat \<times> heap" where
  "malloc h n s = (case mh_malloc h (hp_blocks s) n of
     None \<Rightarrow> (0, s) | Some (p, bs) \<Rightarrow> (p, s\<lparr>hp_blocks := (hp_blocks s)(p \<mapsto> bs)\<rparr>))"

definition calloc :: "malloc_host \<Rightarrow> nat \<Rightarrow> heap \<Rightarrow> nat \<times> heap" where
  "calloc h n s = (case mh_malloc h (hp_blocks s) n of
     None \<Rightarrow> (0, s) | Some (p, bs) \<Rightarrow> (p, s\<lparr>hp_blocks := (hp_blocks s)(p \<mapsto> replicate n 0 @ drop n bs)\<rparr>))"

text \<open>A pointer that is no block is undefined behaviour: \<open>None\<close>.\<close>

definition free_mem :: "nat \<Rightarrow> heap \<Rightarrow> heap option" where
  "free_mem p s = (if p = 0 then Some s
     else case hp_blocks s p of None \<Rightarrow> None | Some _ \<Rightarrow> Some (s\<lparr>hp_blocks := (hp_blocks s)(p := None)\<rparr>))"

definition malloc_usable_size :: "nat \<Rightarrow> heap \<Rightarrow> nat option" where
  "malloc_usable_size p s = (if p = 0 then Some 0 else map_option length (hp_blocks s p))"

definition realloc :: "malloc_host \<Rightarrow> nat \<Rightarrow> nat \<Rightarrow> heap \<Rightarrow> (nat \<times> heap) option" where
  "realloc h p n s = (if p = 0 then Some (malloc h n s)
     else case hp_blocks s p of
       None \<Rightarrow> None
     | Some old \<Rightarrow> Some (case mh_realloc h (hp_blocks s) p n of
         None \<Rightarrow> (0, s)
       | Some (q, bs) \<Rightarrow> let k = min (length old) n in
           (q, s\<lparr>hp_blocks := (hp_blocks s)(p := None, q \<mapsto> take k old @ drop k bs)\<rparr>)))"

definition memset0 :: "nat \<Rightarrow> nat \<Rightarrow> nat \<Rightarrow> heap \<Rightarrow> heap" where
  "memset0 p k n s = (case hp_blocks s p of
     None \<Rightarrow> s | Some bs \<Rightarrow> s\<lparr>hp_blocks := (hp_blocks s)(p \<mapsto> take k bs @ replicate n 0 @ drop (k + n) bs)\<rparr>)"

definition heap_answer :: "nat \<times> heap \<Rightarrow> nat \<times> heap" where
  "heap_answer r = (case r of (p, s) \<Rightarrow> (p, if p = 0 then s\<lparr>hp_error := ERROR_OUTOFMEMORY\<rparr> else s))"

definition HeapCreate :: "u32 \<Rightarrow> nat \<Rightarrow> nat \<Rightarrow> u64" where
  "HeapCreate flags initial maxsz = HEAP_PSEUDO_HANDLE"

definition GetProcessHeap :: u64 where
  "GetProcessHeap = HEAP_PSEUDO_HANDLE"

definition HeapAlloc :: "malloc_host \<Rightarrow> u64 \<Rightarrow> u32 \<Rightarrow> nat \<Rightarrow> heap \<Rightarrow> nat \<times> heap" where
  "HeapAlloc h hp flags n s = heap_answer (if flags AND HEAP_ZERO_MEMORY \<noteq> 0 then calloc h n s else malloc h n s)"

definition HeapFree :: "u64 \<Rightarrow> u32 \<Rightarrow> nat \<Rightarrow> heap \<Rightarrow> (bool \<times> heap) option" where
  "HeapFree hp flags p s =
    (if p < 0x10000 \<and> p \<noteq> 0 then Some (False, s\<lparr>hp_error := ERROR_INVALID_PARAMETER\<rparr>)
     else map_option (Pair True) (free_mem p s))"

definition HeapReAlloc :: "malloc_host \<Rightarrow> u64 \<Rightarrow> u32 \<Rightarrow> nat \<Rightarrow> nat \<Rightarrow> heap \<Rightarrow> (nat \<times> heap) option" where
  "HeapReAlloc h hp flags p n s = (let alloc_size = if n \<noteq> 0 then n else 1 in
     if flags AND HEAP_ZERO_MEMORY \<noteq> 0 then
       (case (malloc_usable_size p s, realloc h p alloc_size s) of
          (Some old_sz, Some (q, s')) \<Rightarrow>
            Some (heap_answer (q, if q \<noteq> 0 \<and> n > old_sz \<and> (old_sz > 0 \<or> p = 0) then memset0 q old_sz (n - old_sz) s' else s'))
        | _ \<Rightarrow> None)
     else map_option heap_answer (realloc h p alloc_size s))"

definition HeapSize :: "u64 \<Rightarrow> u32 \<Rightarrow> nat \<Rightarrow> heap \<Rightarrow> nat option" where
  "HeapSize hp flags p s = malloc_usable_size p s"

definition HeapSetInformation :: "u64 \<Rightarrow> u32 \<Rightarrow> bool" where
  "HeapSetInformation hp cls = True"

text \<open>
  Growing a block with \<^verbatim>\<open>HEAP_ZERO_MEMORY\<close>: on failure nothing changes and the error is
  \<^verbatim>\<open>ERROR_OUTOFMEMORY\<close>; otherwise the new block holds the old bytes followed by zeros up to
  the requested size, the old block is gone and every other block is untouched, and freeing
  the answer succeeds.  What is kept reaches to the usable size of the old block: bytes
  between the size once requested and the usable size are not cleared.
\<close>

theorem heap_realloc_contents:
  assumes "malloc_host_ok h" and "hp_blocks s p = Some old" and "p \<noteq> 0" and "old \<noteq> []"
    and "flags AND HEAP_ZERO_MEMORY \<noteq> 0" and "n \<noteq> 0"
  shows "(\<exists>s'. HeapReAlloc h hp flags p n s = Some (0, s') \<and> hp_blocks s' = hp_blocks s \<and> hp_error s' = ERROR_OUTOFMEMORY) \<or>
    (\<exists>q bs s'. HeapReAlloc h hp flags p n s = Some (q, s') \<and> q \<noteq> 0 \<and> hp_blocks s' q = Some bs \<and> n \<le> length bs \<and>
       take n bs = take n old @ replicate (n - length old) 0 \<and>
       (\<forall>r. r \<noteq> q \<longrightarrow> hp_blocks s' r = (if r = p then None else hp_blocks s r)) \<and>
       HeapSize hp 0 q s' = Some (length bs) \<and>
       HeapFree hp 0 q s' = Some (True, s'\<lparr>hp_blocks := (hp_blocks s')(q := None)\<rparr>))"
proof (cases "mh_realloc h (hp_blocks s) p n")
  case None
  then show ?thesis
    using assms by (simp add: HeapReAlloc_def malloc_usable_size_def realloc_def heap_answer_def)
next
  case (Some r)
  obtain q bs where r: "mh_realloc h (hp_blocks s) p n = Some (q, bs)" using Some by (cases r) simp
  then have q: "0x10000 \<le> q" "n \<le> length bs" using assms(1) by (auto simp: malloc_host_ok_def)
  define k where "k = min (length old) n"
  define new where "new = (if n > length old then old @ replicate (n - length old) 0 @ drop n bs else take n old @ drop n bs)"
  have "HeapReAlloc h hp flags p n s = Some (q, s\<lparr>hp_blocks := (hp_blocks s)(p := None, q \<mapsto> new)\<rparr>)"
    using assms r q
    by (auto simp: HeapReAlloc_def malloc_usable_size_def realloc_def heap_answer_def memset0_def new_def Let_def)
  moreover have "n \<le> length new" "take n new = take n old @ replicate (n - length old) 0"
    using q by (auto simp: new_def)
  ultimately show ?thesis
    using q by (intro disjI2 exI[of _ q] exI[of _ new])
      (simp add: HeapSize_def malloc_usable_size_def HeapFree_def free_mem_def)
qed

text \<open>An allocator with one block of eight spare bytes, filled with a pattern, resized in place.\<close>

definition one_block_host :: malloc_host where
  "one_block_host = \<lparr>
     mh_malloc = (\<lambda>m n. if m 0x10000 = None then Some (0x10000, replicate (n + 8) 0xAA) else None),
     mh_realloc = (\<lambda>m p n. if p = 0x10000 then Some (p, replicate (n + 8) 0xAA) else None)\<rparr>"

lemma one_block_host_ok: "malloc_host_ok one_block_host"
  by (auto simp: malloc_host_ok_def one_block_host_def split: if_splits)

text \<open>Ten bytes that hold the pattern, grown to twenty: the eight spare bytes are kept as they are.\<close>

theorem heap_realloc_contents_witness:
  "\<exists>bs s'. HeapReAlloc one_block_host HEAP_PSEUDO_HANDLE HEAP_ZERO_MEMORY 0x10000 20
      (snd (HeapAlloc one_block_host HEAP_PSEUDO_HANDLE 0 10 \<lparr>hp_blocks = Map.empty, hp_error = 0\<rparr>)) = Some (0x10000, s') \<and>
    hp_blocks s' 0x10000 = Some bs \<and> take 20 bs = replicate 18 0xAA @ [0, 0]"
proof -
  define s where "s = snd (HeapAlloc one_block_host HEAP_PSEUDO_HANDLE 0 10 \<lparr>hp_blocks = Map.empty, hp_error = 0\<rparr>)"
  have b: "hp_blocks s 0x10000 = Some (replicate 18 0xAA)"
    by (simp add: s_def HeapAlloc_def malloc_def heap_answer_def one_block_host_def)
  obtain t where t: "HeapReAlloc one_block_host HEAP_PSEUDO_HANDLE HEAP_ZERO_MEMORY 0x10000 20 s = Some (0x10000, t)"
    using b by (simp add: HeapReAlloc_def malloc_usable_size_def realloc_def one_block_host_def heap_answer_def memset0_def)
  have two: "replicate 2 (0 :: u8) = [0, 0]" by (simp add: numeral_2_eq_2)
  have "HEAP_ZERO_MEMORY AND HEAP_ZERO_MEMORY \<noteq> (0 :: u32)" by simp
  then show ?thesis
    using heap_realloc_contents[OF one_block_host_ok b, of HEAP_ZERO_MEMORY 20 HEAP_PSEUDO_HANDLE] t
    unfolding s_def[symmetric] by (auto simp: two)
qed

end
