(* ===== verification/Shim_Posix.thy ===== *)
theory Shim_Posix
  imports Shim_Find "HOL-Library.State_Monad"
begin

text \<open>
  The files of the host as the shim uses them: names, inodes, open files and descriptors, and
  one definition per system call, in a state monad over \<open>world\<close>, which also holds the shim's
  own state.  What the host decides is the argument \<open>fhost\<close>: what other processes do to names
  and inodes before each call (\<open>fh_env\<close>, by the number of the call), whether a call fails for a
  reason outside this model (\<open>fh_fail\<close>: permissions, space, signals, a missing directory), how
  many bytes a transfer takes at most, which numbers are free, on which file system a name
  lies, which device and link count an inode has, whether \<^verbatim>\<open>renameat2\<close> knows \<^verbatim>\<open>RENAME_NOREPLACE\<close>, how
  a temporary name is completed.  Names are paths as given: symbolic links are not followed,
  and moving a directory says nothing of the names below it.
\<close>

section \<open>The world\<close>

type_synonym timespec = "u64 \<times> u64"

record inode =
  i_mode :: u32
  i_data :: bytes
  i_mtime :: timespec
  i_atime :: timespec

record ofile =
  of_ino :: nat
  of_pos :: nat
  of_read :: bool
  of_write :: bool

text \<open>\<open>w_log\<close> records the names whose file a call of this process replaced.\<close>

record world =
  w_shim :: shim
  w_names :: "bytes \<rightharpoonup> nat"
  w_inodes :: "nat \<rightharpoonup> inode"
  w_files :: "nat \<rightharpoonup> ofile"
  w_fds :: "int \<rightharpoonup> nat"
  w_clock :: nat
  w_log :: "bytes list"

record fhost =
  fh_env :: "nat \<Rightarrow> (bytes \<rightharpoonup> nat) \<times> (nat \<rightharpoonup> inode) \<Rightarrow> (bytes \<rightharpoonup> nat) \<times> (nat \<rightharpoonup> inode)"
  fh_fail :: "nat \<Rightarrow> errno option"
  fh_count :: "nat \<Rightarrow> nat"
  fh_ino :: "world \<Rightarrow> nat"
  fh_file :: "world \<Rightarrow> nat"
  fh_fd :: "world \<Rightarrow> int"
  fh_dev :: "bytes \<Rightarrow> nat"
  fh_now :: "nat \<Rightarrow> timespec"
  fh_ident :: "world \<Rightarrow> nat \<Rightarrow> u64 \<times> u64"
  fh_noreplace :: "errno option"
  fh_temp :: "world \<Rightarrow> bytes \<Rightarrow> bytes"

type_synonym 'a sys = "(world, errno + 'a) state"

definition fh_tick :: "fhost \<Rightarrow> world \<Rightarrow> world" where
  "fh_tick h w = (case fh_env h (w_clock w) (w_names w, w_inodes w) of (ns, is) \<Rightarrow>
     w\<lparr>w_names := ns, w_inodes := is, w_clock := Suc (w_clock w)\<rparr>)"

definition sys :: "fhost \<Rightarrow> (world \<Rightarrow> (errno + 'a) \<times> world) \<Rightarrow> 'a sys" where
  "sys h f = State (\<lambda>w. case fh_fail h (w_clock w) of
     Some e \<Rightarrow> (Inl e, fh_tick h w) | None \<Rightarrow> f (fh_tick h w))"

text \<open>A function on the shim's state as a step of the world.\<close>

definition via :: "(shim \<Rightarrow> 'a \<times> shim) \<Rightarrow> (world, 'a) state" where
  "via f = State (\<lambda>w. case f (w_shim w) of (r, s) \<Rightarrow> (r, w\<lparr>w_shim := s\<rparr>))"

section \<open>Opening and closing\<close>

abbreviation O_RDONLY :: u32 where "O_RDONLY \<equiv> 0"
abbreviation O_WRONLY :: u32 where "O_WRONLY \<equiv> 1"
abbreviation O_RDWR :: u32 where "O_RDWR \<equiv> 2"
abbreviation O_CREAT :: u32 where "O_CREAT \<equiv> 0x40"
abbreviation O_EXCL :: u32 where "O_EXCL \<equiv> 0x80"
abbreviation O_TRUNC :: u32 where "O_TRUNC \<equiv> 0x200"

abbreviation is_dir_mode :: "u32 \<Rightarrow> bool" where "is_dir_mode m \<equiv> m AND 0xF000 = 0x4000"
abbreviation is_reg_mode :: "u32 \<Rightarrow> bool" where "is_reg_mode m \<equiv> m AND 0xF000 = 0x8000"
abbreviation is_chr_mode :: "u32 \<Rightarrow> bool" where "is_chr_mode m \<equiv> m AND 0xF000 = 0x2000"
abbreviation is_fifo_mode :: "u32 \<Rightarrow> bool" where "is_fifo_mode m \<equiv> m AND 0xF000 = 0x1000"
abbreviation is_sock_mode :: "u32 \<Rightarrow> bool" where "is_sock_mode m \<equiv> m AND 0xF000 = 0xC000"

text \<open>
  The numbers the host offers for a new descriptor, open file or inode; one that is in use
  means that it has none left.
\<close>

definition fd_room :: "fhost \<Rightarrow> world \<Rightarrow> errno option" where
  "fd_room h w = (if fh_fd h w < 3 \<or> w_fds w (fh_fd h w) \<noteq> None then Some EMFILE
     else if w_files w (fh_file h w) \<noteq> None then Some (Other_errno 23) else None)"

definition open_ino :: "int \<Rightarrow> nat \<Rightarrow> nat \<Rightarrow> u32 \<Rightarrow> world \<Rightarrow> world" where
  "open_ino fd k i fl w = w\<lparr>w_files := (w_files w)(k \<mapsto>
         \<lparr>of_ino = i, of_pos = 0, of_read = (fl AND 3 \<noteq> O_WRONLY), of_write = (fl AND 3 \<noteq> O_RDONLY)\<rparr>),
       w_fds := (w_fds w)(fd \<mapsto> k)\<rparr>"

definition new_inode :: "fhost \<Rightarrow> bytes \<Rightarrow> nat \<Rightarrow> u32 \<Rightarrow> world \<Rightarrow> world" where
  "new_inode h path i perm w = w\<lparr>w_names := (w_names w)(path \<mapsto> i),
     w_inodes := (w_inodes w)(i \<mapsto>
       \<lparr>i_mode = 0x8000 OR perm, i_data = [], i_mtime = fh_now h (w_clock w), i_atime = fh_now h (w_clock w)\<rparr>)\<rparr>"

definition create_open :: "fhost \<Rightarrow> bytes \<Rightarrow> u32 \<Rightarrow> u32 \<Rightarrow> world \<Rightarrow> (errno + int) \<times> world" where
  "create_open h path fl perm w =
    (if w_inodes w (fh_ino h w) \<noteq> None then (Inl ENOSPC, w)
     else (Inr (fh_fd h w), open_ino (fh_fd h w) (fh_file h w) (fh_ino h w) fl (new_inode h path (fh_ino h w) perm w)))"

definition sys_open :: "fhost \<Rightarrow> bytes \<Rightarrow> u32 \<Rightarrow> u32 \<Rightarrow> int sys" where
  "sys_open h path fl perm = sys h (\<lambda>w. case fd_room h w of
     Some e \<Rightarrow> (Inl e, w)
   | None \<Rightarrow> (case w_names w path of
       None \<Rightarrow> if fl AND O_CREAT = 0 then (Inl ENOENT, w) else create_open h path fl perm w
     | Some i \<Rightarrow> if fl AND O_CREAT \<noteq> 0 \<and> fl AND O_EXCL \<noteq> 0 then (Inl EEXIST, w)
         else (case w_inodes w i of
           None \<Rightarrow> (Inl ENOENT, w)
         | Some ino \<Rightarrow> if is_dir_mode (i_mode ino) \<and> (fl AND 3 \<noteq> O_RDONLY \<or> fl AND O_CREAT \<noteq> 0) then (Inl EISDIR, w)
             else (Inr (fh_fd h w), open_ino (fh_fd h w) (fh_file h w) i fl
               (if fl AND O_TRUNC \<noteq> 0 \<and> is_reg_mode (i_mode ino)
                then w\<lparr>w_inodes := (w_inodes w)(i \<mapsto> ino\<lparr>i_data := []\<rparr>)\<rparr> else w)))))"

text \<open>A descriptor is gone after \<^verbatim>\<open>close\<close> even when that reports an error.\<close>

definition drop_fd :: "int \<Rightarrow> world \<Rightarrow> world" where
  "drop_fd fd w = w\<lparr>w_fds := (w_fds w)(fd := None)\<rparr>"

definition sys_close :: "fhost \<Rightarrow> int \<Rightarrow> unit sys" where
  "sys_close h fd = State (\<lambda>w. case w_fds w fd of
     None \<Rightarrow> (Inl EBADF, fh_tick h w)
   | Some _ \<Rightarrow> (case fh_fail h (w_clock w) of None \<Rightarrow> Inr () | Some e \<Rightarrow> Inl e, drop_fd fd (fh_tick h w)))"

definition sys_dup :: "fhost \<Rightarrow> int \<Rightarrow> int sys" where
  "sys_dup h fd = sys h (\<lambda>w. case w_fds w fd of
     None \<Rightarrow> (Inl EBADF, w)
   | Some k \<Rightarrow> if fh_fd h w < 3 \<or> w_fds w (fh_fd h w) \<noteq> None then (Inl EMFILE, w)
       else (Inr (fh_fd h w), w\<lparr>w_fds := (w_fds w)(fh_fd h w \<mapsto> k)\<rparr>))"

definition sys_dup2 :: "fhost \<Rightarrow> int \<Rightarrow> int \<Rightarrow> int sys" where
  "sys_dup2 h fd to = sys h (\<lambda>w. case w_fds w fd of
     None \<Rightarrow> (Inl EBADF, w)
   | Some k \<Rightarrow> (Inr to, w\<lparr>w_fds := (w_fds w)(to \<mapsto> k)\<rparr>))"

section \<open>Transfer and position\<close>

text \<open>The open file and the inode of a descriptor.\<close>

definition fd_file :: "world \<Rightarrow> int \<Rightarrow> (nat \<times> ofile \<times> inode) option" where
  "fd_file w fd = do {
     k \<leftarrow> w_fds w fd;
     f \<leftarrow> w_files w k;
     ino \<leftarrow> w_inodes w (of_ino f);
     Some (k, f, ino) }"

definition set_pos :: "nat \<Rightarrow> ofile \<Rightarrow> nat \<Rightarrow> world \<Rightarrow> world" where
  "set_pos k f p w = w\<lparr>w_files := (w_files w)(k \<mapsto> f\<lparr>of_pos := p\<rparr>)\<rparr>"

definition set_ino :: "nat \<Rightarrow> inode \<Rightarrow> world \<Rightarrow> world" where
  "set_ino i ino w = w\<lparr>w_inodes := (w_inodes w)(i \<mapsto> ino)\<rparr>"

definition sys_read :: "fhost \<Rightarrow> int \<Rightarrow> nat \<Rightarrow> bytes sys" where
  "sys_read h fd n = sys h (\<lambda>w. case fd_file w fd of
     None \<Rightarrow> (Inl EBADF, w)
   | Some (k, f, ino) \<Rightarrow> if \<not> of_read f then (Inl EBADF, w)
       else if is_dir_mode (i_mode ino) then (Inl EISDIR, w)
       else let bs = take (min n (fh_count h (w_clock w))) (drop (of_pos f) (i_data ino)) in
         (Inr bs, set_pos k f (of_pos f + length bs) w))"

text \<open>Writing past the end fills the gap with zeros.\<close>

definition overwrite :: "nat \<Rightarrow> bytes \<Rightarrow> bytes \<Rightarrow> bytes" where
  "overwrite p bs d = take p d @ replicate (p - length d) 0 @ bs @ drop (p + length bs) d"

definition sys_write :: "fhost \<Rightarrow> int \<Rightarrow> bytes \<Rightarrow> nat sys" where
  "sys_write h fd bs = sys h (\<lambda>w. case fd_file w fd of
     None \<Rightarrow> (Inl EBADF, w)
   | Some (k, f, ino) \<Rightarrow> if \<not> of_write f then (Inl EBADF, w)
       else let ws = take (fh_count h (w_clock w)) bs in
         (Inr (length ws), set_pos k f (of_pos f + length ws)
           (set_ino (of_ino f) (ino\<lparr>i_data := overwrite (of_pos f) ws (i_data ino), i_mtime := fh_now h (w_clock w)\<rparr>) w)))"

datatype whence = SEEK_SET | SEEK_CUR | SEEK_END

definition sys_lseek :: "fhost \<Rightarrow> int \<Rightarrow> int \<Rightarrow> whence \<Rightarrow> nat sys" where
  "sys_lseek h fd off wh = sys h (\<lambda>w. case fd_file w fd of
     None \<Rightarrow> (Inl EBADF, w)
   | Some (k, f, ino) \<Rightarrow> if is_fifo_mode (i_mode ino) \<or> is_sock_mode (i_mode ino) then (Inl (Other_errno 29), w)
       else let p = (case wh of SEEK_SET \<Rightarrow> off | SEEK_CUR \<Rightarrow> int (of_pos f) + off
                     | SEEK_END \<Rightarrow> int (length (i_data ino)) + off) in
         if p < 0 then (Inl EINVAL, w)
         else if p \<ge> 2 ^ 63 then (Inl (Other_errno 75), w)
         else (Inr (nat p), set_pos k f (nat p) w))"

definition sys_ftruncate :: "fhost \<Rightarrow> int \<Rightarrow> nat \<Rightarrow> unit sys" where
  "sys_ftruncate h fd n = sys h (\<lambda>w. case fd_file w fd of
     None \<Rightarrow> (Inl EBADF, w)
   | Some (k, f, ino) \<Rightarrow> if \<not> of_write f then (Inl EINVAL, w)
       else (Inr (), set_ino (of_ino f)
         (ino\<lparr>i_data := take n (i_data ino) @ replicate (n - length (i_data ino)) 0, i_mtime := fh_now h (w_clock w)\<rparr>) w))"

record fstat = stat +
  st_atime :: u64
  st_dev :: u64
  st_nlink :: u64
  st_ino :: u64

definition inode_stat :: "fhost \<Rightarrow> world \<Rightarrow> nat \<Rightarrow> inode \<Rightarrow> fstat" where
  "inode_stat h w i ino = \<lparr>st_mode = i_mode ino, st_mtime = fst (i_mtime ino), st_size = of_nat (length (i_data ino)),
     st_atime = fst (i_atime ino), st_dev = fst (fh_ident h w i), st_nlink = snd (fh_ident h w i), st_ino = of_nat i\<rparr>"

definition sys_fstat :: "fhost \<Rightarrow> int \<Rightarrow> fstat sys" where
  "sys_fstat h fd = sys h (\<lambda>w. case fd_file w fd of
     None \<Rightarrow> (Inl EBADF, w) | Some (k, f, ino) \<Rightarrow> (Inr (inode_stat h w (of_ino f) ino), w))"

text \<open>\<^verbatim>\<open>futimens\<close>: the times to set, or to leave a time as it is (\<^verbatim>\<open>UTIME_OMIT\<close>).\<close>

definition sys_futimens :: "fhost \<Rightarrow> int \<Rightarrow> timespec option \<Rightarrow> timespec option \<Rightarrow> unit sys" where
  "sys_futimens h fd at mt = sys h (\<lambda>w. case fd_file w fd of
     None \<Rightarrow> (Inl EBADF, w)
   | Some (k, f, ino) \<Rightarrow> (Inr (), set_ino (of_ino f)
       (ino\<lparr>i_atime := (case at of None \<Rightarrow> i_atime ino | Some t \<Rightarrow> t),
         i_mtime := (case mt of None \<Rightarrow> i_mtime ino | Some t \<Rightarrow> t)\<rparr>) w))"

definition sys_fsync :: "fhost \<Rightarrow> int \<Rightarrow> unit sys" where
  "sys_fsync h fd = sys h (\<lambda>w. case w_fds w fd of None \<Rightarrow> (Inl EBADF, w) | Some _ \<Rightarrow> (Inr (), w))"

section \<open>Names\<close>

definition is_dir_at :: "world \<Rightarrow> nat \<Rightarrow> bool" where
  "is_dir_at w i = (case w_inodes w i of Some ino \<Rightarrow> is_dir_mode (i_mode ino) | None \<Rightarrow> False)"

definition sys_unlink :: "fhost \<Rightarrow> bytes \<Rightarrow> unit sys" where
  "sys_unlink h path = sys h (\<lambda>w. case w_names w path of
     None \<Rightarrow> (Inl ENOENT, w)
   | Some i \<Rightarrow> if is_dir_at w i then (Inl EISDIR, w)
       else (Inr (), w\<lparr>w_names := (w_names w)(path := None)\<rparr>))"

definition move_name :: "bytes \<Rightarrow> bytes \<Rightarrow> nat \<Rightarrow> world \<Rightarrow> world" where
  "move_name from to i w = w\<lparr>w_names := (w_names w)(from := None, to \<mapsto> i)\<rparr>"

text \<open>\<^verbatim>\<open>rename\<close>: two names of the same file are left as they are; what \<open>to\<close> named is replaced.\<close>

definition sys_rename :: "fhost \<Rightarrow> bytes \<Rightarrow> bytes \<Rightarrow> unit sys" where
  "sys_rename h from to = sys h (\<lambda>w.
     if fh_dev h from \<noteq> fh_dev h to then (Inl EXDEV, w)
     else case w_names w from of
       None \<Rightarrow> (Inl ENOENT, w)
     | Some i \<Rightarrow> (case w_names w to of
         None \<Rightarrow> (Inr (), move_name from to i w)
       | Some j \<Rightarrow> if i = j then (Inr (), w)
           else if is_dir_at w i \<and> \<not> is_dir_at w j then (Inl ENOTDIR, w)
           else if \<not> is_dir_at w i \<and> is_dir_at w j then (Inl EISDIR, w)
           else (Inr (), (move_name from to i w)\<lparr>w_log := w_log w @ [to]\<rparr>)))"

definition sys_renameat2 :: "fhost \<Rightarrow> bytes \<Rightarrow> bytes \<Rightarrow> unit sys" where
  "sys_renameat2 h from to = sys h (\<lambda>w.
     case fh_noreplace h of Some e \<Rightarrow> (Inl e, w)
     | None \<Rightarrow> if fh_dev h from \<noteq> fh_dev h to then (Inl EXDEV, w)
     else case w_names w from of
       None \<Rightarrow> (Inl ENOENT, w)
     | Some i \<Rightarrow> if w_names w to \<noteq> None then (Inl EEXIST, w) else (Inr (), move_name from to i w))"

definition sys_link :: "fhost \<Rightarrow> bytes \<Rightarrow> bytes \<Rightarrow> unit sys" where
  "sys_link h from to = sys h (\<lambda>w.
     case w_names w from of
       None \<Rightarrow> (Inl ENOENT, w)
     | Some i \<Rightarrow> if w_names w to \<noteq> None then (Inl EEXIST, w)
         else if fh_dev h from \<noteq> fh_dev h to then (Inl EXDEV, w)
         else if is_dir_at w i then (Inl EPERM, w)
         else (Inr (), w\<lparr>w_names := (w_names w)(to \<mapsto> i)\<rparr>))"

definition sys_lstat :: "fhost \<Rightarrow> bytes \<Rightarrow> fstat sys" where
  "sys_lstat h path = sys h (\<lambda>w. case w_names w path of
     None \<Rightarrow> (Inl ENOENT, w)
   | Some i \<Rightarrow> (case w_inodes w i of None \<Rightarrow> (Inl ENOENT, w) | Some ino \<Rightarrow> (Inr (inode_stat h w i ino), w)))"

definition sys_mkdir :: "fhost \<Rightarrow> bytes \<Rightarrow> unit sys" where
  "sys_mkdir h path = sys h (\<lambda>w. if w_names w path \<noteq> None then (Inl EEXIST, w)
     else if w_inodes w (fh_ino h w) \<noteq> None then (Inl ENOSPC, w)
     else (Inr (), w\<lparr>w_names := (w_names w)(path \<mapsto> fh_ino h w),
       w_inodes := (w_inodes w)(fh_ino h w \<mapsto> \<lparr>i_mode = 0x41FF, i_data = [],
         i_mtime = fh_now h (w_clock w), i_atime = fh_now h (w_clock w)\<rparr>)\<rparr>))"

definition sys_rmdir :: "fhost \<Rightarrow> bytes \<Rightarrow> unit sys" where
  "sys_rmdir h path = sys h (\<lambda>w. case w_names w path of
     None \<Rightarrow> (Inl ENOENT, w)
   | Some i \<Rightarrow> if \<not> is_dir_at w i then (Inl ENOTDIR, w) else (Inr (), w\<lparr>w_names := (w_names w)(path := None)\<rparr>))"

definition chmod_ino :: "u32 \<Rightarrow> inode \<Rightarrow> inode" where
  "chmod_ino m ino = ino\<lparr>i_mode := (i_mode ino AND 0xF000) OR (m AND 0xFFF)\<rparr>"

definition sys_chmod :: "fhost \<Rightarrow> bytes \<Rightarrow> u32 \<Rightarrow> unit sys" where
  "sys_chmod h path m = sys h (\<lambda>w. case w_names w path of
     None \<Rightarrow> (Inl ENOENT, w)
   | Some i \<Rightarrow> (case w_inodes w i of None \<Rightarrow> (Inl ENOENT, w) | Some ino \<Rightarrow> (Inr (), set_ino i (chmod_ino m ino) w)))"

definition sys_fchmod :: "fhost \<Rightarrow> int \<Rightarrow> u32 \<Rightarrow> unit sys" where
  "sys_fchmod h fd m = sys h (\<lambda>w. case fd_file w fd of
     None \<Rightarrow> (Inl EBADF, w) | Some (k, f, ino) \<Rightarrow> (Inr (), set_ino (of_ino f) (chmod_ino m ino) w))"

text \<open>\<^verbatim>\<open>mkostemp\<close>: the name completed and the descriptor of the new file.\<close>

definition sys_mkostemp :: "fhost \<Rightarrow> bytes \<Rightarrow> (bytes \<times> int) sys" where
  "sys_mkostemp h prefix = sys h (\<lambda>w. let nm = prefix @ fh_temp h w prefix in
     if w_names w nm \<noteq> None then (Inl EEXIST, w)
     else case fd_room h w of Some e \<Rightarrow> (Inl e, w)
     | None \<Rightarrow> (case create_open h nm O_RDWR 0x180 w of
         (Inl e, w') \<Rightarrow> (Inl e, w') | (Inr fd, w') \<Rightarrow> (Inr (nm, fd), w')))"

section \<open>Hosts with free numbers, and hosts without interference\<close>

definition fhost_ok :: "fhost \<Rightarrow> bool" where
  "fhost_ok h \<longleftrightarrow>
    (\<forall>w. finite (dom (w_inodes w)) \<longrightarrow> w_inodes w (fh_ino h w) = None) \<and>
    (\<forall>w. finite (dom (w_files w)) \<longrightarrow> w_files w (fh_file h w) = None) \<and>
    (\<forall>w. finite (dom (w_fds w)) \<longrightarrow> w_fds w (fh_fd h w) = None \<and> 3 \<le> fh_fd h w)"

definition fhost_quiet :: "fhost \<Rightarrow> bool" where
  "fhost_quiet h \<longleftrightarrow> (\<forall>n x. fh_env h n x = x)"

lemma run_sys: "run_state (sys h f) w = (case fh_fail h (w_clock w) of
     Some e \<Rightarrow> (Inl e, fh_tick h w) | None \<Rightarrow> f (fh_tick h w))"
  by (simp add: sys_def)

lemma run_via: "run_state (via f) w = (case f (w_shim w) of (r, s) \<Rightarrow> (r, w\<lparr>w_shim := s\<rparr>))"
  by (simp add: via_def)

lemma fh_tick_quiet: "fhost_quiet h \<Longrightarrow> fh_tick h w = w\<lparr>w_clock := Suc (w_clock w)\<rparr>"
  by (simp add: fh_tick_def fhost_quiet_def)

lemma fh_tick_keeps [simp]:
  "w_shim (fh_tick h w) = w_shim w" "w_files (fh_tick h w) = w_files w" "w_fds (fh_tick h w) = w_fds w"
  "w_log (fh_tick h w) = w_log w" "w_clock (fh_tick h w) = Suc (w_clock w)"
  by (simp_all add: fh_tick_def split: prod.splits)

end
