(* ===== verification/Shim_Files.thy ===== *)
theory Shim_Files
  imports Shim_Posix
begin

text \<open>
  File functions on handles (shim_kernel32_file.hpp 7.4, shim_kernel32_filetime.hpp,
  shim_kernel32_file_a.hpp, \<^verbatim>\<open>make_open_flags\<close> of shim.cpp) over the host's files.  Each returns
  what the function returns together with what it stores through its pointer arguments.
\<close>

section \<open>Helpers\<close>

abbreviation ret :: "'a \<Rightarrow> (world, 'a) state" where "ret \<equiv> State_Monad.return"

abbreviation CREATE_NEW :: u32 where "CREATE_NEW \<equiv> 1"
abbreviation CREATE_ALWAYS :: u32 where "CREATE_ALWAYS \<equiv> 2"
abbreviation OPEN_EXISTING :: u32 where "OPEN_EXISTING \<equiv> 3"
abbreviation OPEN_ALWAYS :: u32 where "OPEN_ALWAYS \<equiv> 4"
abbreviation TRUNCATE_EXISTING :: u32 where "TRUNCATE_EXISTING \<equiv> 5"
abbreviation FILE_END :: u32 where "FILE_END \<equiv> 2"
abbreviation FILE_TYPE_UNKNOWN :: u32 where "FILE_TYPE_UNKNOWN \<equiv> 0"
abbreviation FILE_TYPE_DISK :: u32 where "FILE_TYPE_DISK \<equiv> 1"
abbreviation FILE_TYPE_CHAR :: u32 where "FILE_TYPE_CHAR \<equiv> 2"
abbreviation FILE_TYPE_PIPE :: u32 where "FILE_TYPE_PIPE \<equiv> 3"
abbreviation ERROR_BROKEN_PIPE :: u32 where "ERROR_BROKEN_PIPE \<equiv> 109"
abbreviation ERROR_ALREADY_EXISTS :: u32 where "ERROR_ALREADY_EXISTS \<equiv> 183"

definition set_error :: "nat \<Rightarrow> u32 \<Rightarrow> (world, unit) state" where
  "set_error t e = via (\<lambda>s. ((), SET_LAST_ERROR t e s))"

definition fail_errno :: "nat \<Rightarrow> errno \<Rightarrow> 'a \<Rightarrow> (world, 'a) state" where
  "fail_errno t e r = do { via (\<lambda>s. ((), set_errno_error t e s)); ret r }"

text \<open>What most functions do with a call: an error becomes the last error and \<open>FALSE\<close>.\<close>

definition bool_of :: "nat \<Rightarrow> 'a sys \<Rightarrow> (world, bool) state" where
  "bool_of t m = do { r \<leftarrow> m; (case r of Inl e \<Rightarrow> fail_errno t e False | Inr _ \<Rightarrow> ret True) }"

definition narrow_path :: "bytes \<Rightarrow> bytes" where
  "narrow_path name = (case win_path_to_posix (Some name) PATH_MAX of Some p \<Rightarrow> c_string p | None \<Rightarrow> [])"

definition make_open_flags :: "u32 \<Rightarrow> u32 \<Rightarrow> u32" where
  "make_open_flags access disp =
    (let oflags = (if access AND GENERIC_READ \<noteq> 0 \<and> access AND GENERIC_WRITE \<noteq> 0 then O_RDWR
         else if access AND GENERIC_WRITE \<noteq> 0 then O_WRONLY else O_RDONLY) in
     if disp = CREATE_NEW then oflags OR O_CREAT OR O_EXCL
     else if disp = CREATE_ALWAYS then oflags OR O_CREAT OR O_TRUNC
     else if disp = OPEN_EXISTING then oflags
     else if disp = OPEN_ALWAYS then oflags OR O_CREAT
     else if disp = TRUNCATE_EXISTING then O_RDWR OR O_TRUNC
     else oflags)"

section \<open>Standard handles\<close>

definition GetStdHandle :: "u32 \<Rightarrow> nat \<Rightarrow> (world, u64) state" where
  "GetStdHandle n t =
    (if n = STD_INPUT_HANDLE then ret (idx_to_handle 0)
     else if n = STD_OUTPUT_HANDLE then ret (idx_to_handle 1)
     else if n = STD_ERROR_HANDLE then ret (idx_to_handle 2)
     else do { set_error t ERROR_INVALID_PARAMETER; ret INVALID_HANDLE_VALUE })"

definition std_index :: "u32 \<Rightarrow> nat option" where
  "std_index n = (if n = STD_INPUT_HANDLE then Some 0 else if n = STD_OUTPUT_HANDLE then Some 1
     else if n = STD_ERROR_HANDLE then Some 2 else None)"

definition SetStdHandle :: "fhost \<Rightarrow> u32 \<Rightarrow> u64 \<Rightarrow> nat \<Rightarrow> (world, bool) state" where
  "SetStdHandle h n hnd t = do {
     new_fd \<leftarrow> via (get_fd hnd t);
     (if new_fd < 0 then ret False
      else case std_index n of
        None \<Rightarrow> ret False
      | Some idx \<Rightarrow> do {
          via (\<lambda>s. ((), set_slot idx ((g_handles s ! idx)\<lparr>uval := new_fd\<rparr>) s));
          sys_dup2 h new_fd (int idx);
          ret True }) }"

section \<open>Opening and closing\<close>

text \<open>The common end of the \<^verbatim>\<open>CreateFile\<close> functions: a handle for the descriptor, or close it.\<close>

definition hand_out :: "fhost \<Rightarrow> nat \<Rightarrow> errno + int \<Rightarrow> (world, u64) state" where
  "hand_out h t r = (case r of
     Inl e \<Rightarrow> fail_errno t e INVALID_HANDLE_VALUE
   | Inr fd \<Rightarrow> do {
       hret \<leftarrow> via (handle_alloc_file fd t);
       (if hret = INVALID_HANDLE_VALUE then do { sys_close h fd; ret hret } else ret hret) })"

definition CreateFileW :: "fhost \<Rightarrow> u16 list \<Rightarrow> u32 \<Rightarrow> u32 \<Rightarrow> nat \<Rightarrow> (world, u64) state" where
  "CreateFileW h name access disp t = do {
     r \<leftarrow> sys_open h (posix_pattern name) (make_open_flags access disp) 0x1B6;
     hand_out h t r }"

text \<open>\<^verbatim>\<open>strcasecmp\<close> with a console name.\<close>

definition lower_byte :: "u8 \<Rightarrow> u8" where
  "lower_byte c = (if 65 \<le> c \<and> c \<le> 90 then c + 32 else c)"

definition strcaseeq :: "bytes \<Rightarrow> bytes \<Rightarrow> bool" where
  "strcaseeq a b \<longleftrightarrow> map lower_byte a = map lower_byte b"

definition CreateFileA :: "fhost \<Rightarrow> bytes \<Rightarrow> u32 \<Rightarrow> u32 \<Rightarrow> nat \<Rightarrow> (world, u64) state" where
  "CreateFileA h name access disp t =
    (if strcaseeq name (str_bytes ''CONIN$'') \<or> strcaseeq name (str_bytes ''CONOUT$'') \<or> strcaseeq name (str_bytes ''CON'')
     then do {
       r \<leftarrow> sys_dup h (if strcaseeq name (str_bytes ''CONOUT$'') then 1 else 0);
       hand_out h t r }
     else do {
       r \<leftarrow> sys_open h (narrow_path name) (make_open_flags access disp) 0x1B6;
       hand_out h t r })"

text \<open>\<^verbatim>\<open>CloseHandle\<close> on the world: the descriptors the handle table gives up are closed.\<close>

fun close_fds :: "fhost \<Rightarrow> host_call list \<Rightarrow> (world, unit) state" where
  "close_fds h [] = ret ()"
| "close_fds h (Close fd # cs) = do { sys_close h fd; close_fds h cs }"
| "close_fds h (_ # cs) = close_fds h cs"

definition close_handle :: "fhost \<Rightarrow> u64 \<Rightarrow> nat \<Rightarrow> (world, bool option) state" where
  "close_handle h hnd t = do {
     w \<leftarrow> State_Monad.get;
     (case CloseHandle hnd t (w_shim w) of
        None \<Rightarrow> ret None
      | Some (r, s) \<Rightarrow> do {
          via (\<lambda>_. ((), s));
          close_fds h (drop (length (host_trace (w_shim w))) (host_trace s));
          ret (Some r) }) }"

section \<open>Transfer and position\<close>

definition ReadFile :: "fhost \<Rightarrow> u64 \<Rightarrow> u32 \<Rightarrow> nat \<Rightarrow> (world, bool \<times> bytes \<times> u32) state" where
  "ReadFile h hnd n t = do {
     fd \<leftarrow> via (get_fd hnd t);
     (if fd < 0 then ret (False, [], 0)
      else do {
        r \<leftarrow> sys_read h fd (unat n);
        (case r of Inl e \<Rightarrow> fail_errno t e (False, [], 0) | Inr bs \<Rightarrow> ret (True, bs, of_nat (length bs))) }) }"

definition WriteFile :: "fhost \<Rightarrow> u64 \<Rightarrow> bytes \<Rightarrow> nat \<Rightarrow> (world, bool \<times> u32) state" where
  "WriteFile h hnd bs t = do {
     fd \<leftarrow> via (get_fd hnd t);
     (if fd < 0 then ret (False, 0)
      else do {
        r \<leftarrow> sys_write h fd bs;
        (case r of Inl e \<Rightarrow> fail_errno t e (False, 0) | Inr k \<Rightarrow> ret (True, of_nat k)) }) }"

definition whence_of :: "u32 \<Rightarrow> whence" where
  "whence_of method = (if method = FILE_BEGIN then SEEK_SET else if method = FILE_CURRENT then SEEK_CUR else SEEK_END)"

definition SetFilePointerEx :: "fhost \<Rightarrow> u64 \<Rightarrow> u64 \<Rightarrow> u32 \<Rightarrow> nat \<Rightarrow> (world, bool \<times> u64) state" where
  "SetFilePointerEx h hnd dist method t = do {
     fd \<leftarrow> via (get_fd hnd t);
     (if fd < 0 then ret (False, 0)
      else do {
        r \<leftarrow> sys_lseek h fd (sint dist) (whence_of method);
        (case r of Inl e \<Rightarrow> fail_errno t e (False, 0) | Inr p \<Rightarrow> ret (True, of_nat p)) }) }"

text \<open>\<^verbatim>\<open>SetFilePointer\<close>: the signed low part is widened before the high part is put in.\<close>

definition seek_offset :: "u32 \<Rightarrow> u32 option \<Rightarrow> u64" where
  "seek_offset dist disthi = (case disthi of
     None \<Rightarrow> scast dist | Some hi \<Rightarrow> scast dist OR push_bit 32 (scast hi))"

definition SetFilePointer :: "fhost \<Rightarrow> u64 \<Rightarrow> u32 \<Rightarrow> u32 option \<Rightarrow> u32 \<Rightarrow> nat \<Rightarrow> (world, u32 \<times> u32 option) state" where
  "SetFilePointer h hnd dist disthi method t = do {
     fd \<leftarrow> via (get_fd hnd t);
     (if fd < 0 then ret (- 1, disthi)
      else do {
        r \<leftarrow> sys_lseek h fd (sint (seek_offset dist disthi)) (whence_of method);
        (case r of
           Inl e \<Rightarrow> fail_errno t e (- 1, disthi)
         | Inr p \<Rightarrow> ret (of_nat p, map_option (\<lambda>_. of_nat (p div 2 ^ 32)) disthi)) }) }"

definition SetEndOfFile :: "fhost \<Rightarrow> u64 \<Rightarrow> nat \<Rightarrow> (world, bool) state" where
  "SetEndOfFile h hnd t = do {
     fd \<leftarrow> via (get_fd hnd t);
     (if fd < 0 then ret False
      else do {
        r \<leftarrow> sys_lseek h fd 0 SEEK_CUR;
        (case r of Inl e \<Rightarrow> fail_errno t e False | Inr pos \<Rightarrow> bool_of t (sys_ftruncate h fd pos)) }) }"

definition FlushFileBuffers :: "fhost \<Rightarrow> u64 \<Rightarrow> nat \<Rightarrow> (world, bool) state" where
  "FlushFileBuffers h hnd t = do {
     fd \<leftarrow> via (get_fd hnd t);
     (if fd < 0 then ret False else do { sys_fsync h fd; ret True }) }"

definition GetFileSizeEx :: "fhost \<Rightarrow> u64 \<Rightarrow> nat \<Rightarrow> (world, u64 option) state" where
  "GetFileSizeEx h hnd t = do {
     fd \<leftarrow> via (get_fd hnd t);
     (if fd < 0 then do { set_error t ERROR_INVALID_HANDLE; ret None }
      else do {
        r \<leftarrow> sys_fstat h fd;
        (case r of Inl e \<Rightarrow> fail_errno t e None | Inr st \<Rightarrow> ret (Some (st_size st))) }) }"

definition GetFileSize :: "fhost \<Rightarrow> u64 \<Rightarrow> nat \<Rightarrow> (world, u32 \<times> u32 option) state" where
  "GetFileSize h hnd t = do {
     r \<leftarrow> GetFileSizeEx h hnd t;
     (case r of
        None \<Rightarrow> ret (0xFFFFFFFF, None)
      | Some sz \<Rightarrow> do { set_error t 0; ret (ucast sz, Some (ucast (drop_bit 32 sz))) }) }"

definition GetFileType :: "fhost \<Rightarrow> u64 \<Rightarrow> nat \<Rightarrow> (world, u32) state" where
  "GetFileType h hnd t = do {
     fd \<leftarrow> via (get_fd hnd t);
     (if fd < 0 then ret FILE_TYPE_UNKNOWN
      else do {
        r \<leftarrow> sys_fstat h fd;
        (case r of
           Inl e \<Rightarrow> ret FILE_TYPE_UNKNOWN
         | Inr st \<Rightarrow> ret (if is_reg_mode (st_mode st) then FILE_TYPE_DISK
             else if is_chr_mode (st_mode st) then FILE_TYPE_CHAR
             else if is_fifo_mode (st_mode st) then FILE_TYPE_PIPE else FILE_TYPE_UNKNOWN)) }) }"

text \<open>
  \<^verbatim>\<open>PeekNamedPipe\<close>: what \<^verbatim>\<open>FIONREAD\<close> (\<open>avail\<close>), \<^verbatim>\<open>poll\<close> (\<open>hup\<close>: the writers are gone) and a peek on a
  socket (\<open>peeked\<close>: the bytes got, if any) answer are arguments.
\<close>

definition PeekNamedPipe ::
    "fhost \<Rightarrow> (int \<Rightarrow> errno + nat) \<Rightarrow> (int \<Rightarrow> bool) \<Rightarrow> (int \<Rightarrow> nat \<Rightarrow> bytes option) \<Rightarrow> u64 \<Rightarrow> bool \<Rightarrow> u32 \<Rightarrow> nat \<Rightarrow>
      (world, (bytes \<times> u32) option) state" where
  "PeekNamedPipe h avail hup peeked hnd buf n t = do {
     fd \<leftarrow> via (get_fd hnd t);
     (if fd < 0 then ret None
      else do {
        r \<leftarrow> sys_fstat h fd;
        (case r of
           Inl e \<Rightarrow> fail_errno t e None
         | Inr st \<Rightarrow>
             if \<not> is_fifo_mode (st_mode st) \<and> \<not> is_sock_mode (st_mode st)
             then do { set_error t ERROR_INVALID_FUNCTION; ret None }
             else (case avail fd of
                 Inl e \<Rightarrow> fail_errno t e None
               | Inr a \<Rightarrow>
                   if a = 0 \<and> hup fd then do { set_error t ERROR_BROKEN_PIPE; ret None }
                   else let got = (if buf \<and> n \<noteq> 0 \<and> a > 0 \<and> is_sock_mode (st_mode st)
                       then (case peeked fd (min (unat n) a) of Some bs \<Rightarrow> bs | None \<Rightarrow> []) else [])
                     in ret (Some (got, of_nat a)))) }) }"

section \<open>Times, attributes and names\<close>

definition ft_to_ts :: "FILETIME option \<Rightarrow> timespec option" where
  "ft_to_ts ft = (case ft of
     None \<Rightarrow> None
   | Some f \<Rightarrow> let v = ft_to_u64 f in
       if v < FILETIME_EPOCH then Some (0, 0)
       else let v' = v - FILETIME_EPOCH in Some (v' div 10000000, (v' mod 10000000) * 100))"

definition SetFileTime :: "fhost \<Rightarrow> u64 \<Rightarrow> FILETIME option \<Rightarrow> FILETIME option \<Rightarrow> FILETIME option \<Rightarrow> nat \<Rightarrow> (world, bool) state" where
  "SetFileTime h hnd ctime atime mtime t = do {
     fd \<leftarrow> via (get_fd hnd t);
     (if fd < 0 then ret False
      else do { sys_futimens h fd (ft_to_ts atime) (ft_to_ts mtime); ret True }) }"

definition secs_to_ft :: "u64 \<Rightarrow> FILETIME" where
  "secs_to_ft s = u64_to_ft (s * 10000000 + FILETIME_EPOCH)"

definition GetFileTime :: "fhost \<Rightarrow> u64 \<Rightarrow> nat \<Rightarrow> (world, (FILETIME \<times> FILETIME \<times> FILETIME) option) state" where
  "GetFileTime h hnd t = do {
     fd \<leftarrow> via (get_fd hnd t);
     (if fd < 0 then ret None
      else do {
        r \<leftarrow> sys_fstat h fd;
        (case r of
           Inl e \<Rightarrow> fail_errno t e None
         | Inr st \<Rightarrow> ret (Some (secs_to_ft (st_mtime st), secs_to_ft (st_atime st), secs_to_ft (st_mtime st)))) }) }"

record BY_HANDLE_FILE_INFORMATION =
  fi_attributes :: u32
  fi_times :: "FILETIME \<times> FILETIME \<times> FILETIME"
  fi_serial :: u32
  fi_size :: "u32 \<times> u32"
  fi_links :: u32
  fi_index :: "u32 \<times> u32"

definition GetFileInformationByHandle ::
    "fhost \<Rightarrow> u64 \<Rightarrow> bool \<Rightarrow> nat \<Rightarrow> (world, BY_HANDLE_FILE_INFORMATION option) state" where
  "GetFileInformationByHandle h hnd info t = do {
     fd \<leftarrow> via (get_fd hnd t);
     (if fd < 0 \<or> \<not> info then ret None
      else do {
        r \<leftarrow> sys_fstat h fd;
        (case r of
           Inl e \<Rightarrow> fail_errno t e None
         | Inr st \<Rightarrow> ret (Some \<lparr>fi_attributes = stat_to_win_attrs (stat.truncate st),
             fi_times = (secs_to_ft (st_mtime st), secs_to_ft (st_atime st), secs_to_ft (st_mtime st)),
             fi_serial = ucast (st_dev st),
             fi_size = (ucast (drop_bit 32 (st_size st)), ucast (st_size st)),
             fi_links = ucast (st_nlink st),
             fi_index = (ucast (drop_bit 32 (st_ino st)), ucast (st_ino st))\<rparr>)) }) }"

definition DeleteFileA :: "fhost \<Rightarrow> bytes \<Rightarrow> nat \<Rightarrow> (world, bool) state" where
  "DeleteFileA h path t = bool_of t (sys_unlink h (narrow_path path))"

definition utf8_arg :: "u16 list \<Rightarrow> bytes" where
  "utf8_arg w = (case wchar_to_utf8 (Some w) PATH_MAX of Some b \<Rightarrow> c_string b | None \<Rightarrow> [])"

definition DeleteFileW :: "fhost \<Rightarrow> u16 list \<Rightarrow> nat \<Rightarrow> (world, bool) state" where
  "DeleteFileW h path t = DeleteFileA h (utf8_arg path) t"

definition new_mode :: "u32 \<Rightarrow> u32 \<Rightarrow> u32" where
  "new_mode attrs m =
    (let m1 = (if attrs AND 1 \<noteq> 0 then m AND NOT 0x92 else m OR 0x80) in
     if attrs AND 4 \<noteq> 0 then m1 OR 0x49
     else if is_reg_mode m1 then m1 AND NOT 0x49 else m1)"

definition SetFileAttributesA :: "fhost \<Rightarrow> bytes \<Rightarrow> u32 \<Rightarrow> nat \<Rightarrow> (world, bool) state" where
  "SetFileAttributesA h path attrs t = do {
     r \<leftarrow> sys_lstat h (narrow_path path);
     (case r of Inl e \<Rightarrow> fail_errno t e False
      | Inr st \<Rightarrow> bool_of t (sys_chmod h (narrow_path path) (new_mode attrs (st_mode st)))) }"

definition SetFileAttributesW :: "fhost \<Rightarrow> u16 list \<Rightarrow> u32 \<Rightarrow> nat \<Rightarrow> (world, bool) state" where
  "SetFileAttributesW h path attrs t = SetFileAttributesA h (utf8_arg path) attrs t"

definition CreateDirectoryW :: "fhost \<Rightarrow> u16 list \<Rightarrow> nat \<Rightarrow> (world, bool) state" where
  "CreateDirectoryW h path t = bool_of t (sys_mkdir h (posix_pattern path))"

definition RemoveDirectoryW :: "fhost \<Rightarrow> u16 list \<Rightarrow> nat \<Rightarrow> (world, bool) state" where
  "RemoveDirectoryW h path t = bool_of t (sys_rmdir h (posix_pattern path))"

definition CreateDirectoryA :: "fhost \<Rightarrow> bytes \<Rightarrow> nat \<Rightarrow> (world, bool) state" where
  "CreateDirectoryA h path t = bool_of t (sys_mkdir h (narrow_path path))"

definition GetFileAttributesA :: "fhost \<Rightarrow> bytes \<Rightarrow> nat \<Rightarrow> (world, u32) state" where
  "GetFileAttributesA h path t = do {
     r \<leftarrow> sys_lstat h (narrow_path path);
     (case r of Inl e \<Rightarrow> fail_errno t e 0xFFFFFFFF | Inr st \<Rightarrow> ret (stat_to_win_attrs (stat.truncate st))) }"

definition GetFileAttributesW :: "fhost \<Rightarrow> u16 list \<Rightarrow> nat \<Rightarrow> (world, u32) state" where
  "GetFileAttributesW h path t = GetFileAttributesA h (utf8_arg path) t"

section \<open>Descriptors and handles\<close>

text \<open>A handle slot of the program owns a descriptor.\<close>

definition owns_fd :: "shim \<Rightarrow> nat \<Rightarrow> int \<Rightarrow> bool" where
  "owns_fd s i fd \<longleftrightarrow> 3 \<le> i \<and> i < MAX_HANDLES \<and> kind (g_handles s ! i) = H_FILE \<and> uval (g_handles s ! i) = fd"

definition fds_owned :: "world \<Rightarrow> bool" where
  "fds_owned w \<longleftrightarrow> length (g_handles (w_shim w)) = MAX_HANDLES \<and>
    (\<forall>i fd. owns_fd (w_shim w) i fd \<longrightarrow> 3 \<le> fd \<and> fd \<in> dom (w_fds w)) \<and>
    (\<forall>i j fd. owns_fd (w_shim w) i fd \<longrightarrow> owns_fd (w_shim w) j fd \<longrightarrow> i = j) \<and>
    (\<forall>fd. 3 \<le> fd \<longrightarrow> fd \<in> dom (w_fds w) \<longrightarrow> (\<exists>i. owns_fd (w_shim w) i fd))"

text \<open>Steps that change neither the descriptors nor the table of handles.\<close>

definition same_fds :: "(world, 'a) state \<Rightarrow> bool" where
  "same_fds m \<longleftrightarrow> (\<forall>w. w_fds (snd (run_state m w)) = w_fds w \<and>
     g_handles (w_shim (snd (run_state m w))) = g_handles (w_shim w))"

named_theorems same_fds_intro \<open>steps that change neither descriptors nor handles\<close>

lemma same_fds_bind [same_fds_intro]:
  "same_fds m \<Longrightarrow> (\<And>a. same_fds (f a)) \<Longrightarrow> same_fds (State_Monad.bind m f)"
  unfolding same_fds_def by (auto split: prod.splits) (metis prod.sel(2))+

lemma same_fds_ret [same_fds_intro]: "same_fds (ret x)"
  by (simp add: same_fds_def)

lemma same_fds_error [same_fds_intro]: "same_fds (set_error t e)" "same_fds (fail_errno t er r)"
  by (simp_all add: same_fds_def set_error_def fail_errno_def run_via SET_LAST_ERROR_def set_errno_error_def)

lemma same_fds_get_fd [same_fds_intro]: "same_fds (via (get_fd hnd t))"
  by (simp add: same_fds_def run_via get_fd_def Let_def SET_LAST_ERROR_def)

lemma same_fds_sys:
  assumes "\<And>w r w'. f w = (r, w') \<Longrightarrow> w_fds w' = w_fds w \<and> w_shim w' = w_shim w"
  shows "same_fds (sys h f)"
  unfolding same_fds_def run_sys
proof
  fix w
  show "w_fds (snd (case fh_fail h (w_clock w) of None \<Rightarrow> f (fh_tick h w) | Some e \<Rightarrow> (Inl e, fh_tick h w))) = w_fds w \<and>
      g_handles (w_shim (snd (case fh_fail h (w_clock w) of None \<Rightarrow> f (fh_tick h w) | Some e \<Rightarrow> (Inl e, fh_tick h w))))
        = g_handles (w_shim w)"
    using assms[of "fh_tick h w" "fst (f (fh_tick h w))" "snd (f (fh_tick h w))"] by (simp split: option.splits)
qed

lemma same_fds_calls [same_fds_intro]:
  "same_fds (sys_read h fd n)" "same_fds (sys_write h fd bs)" "same_fds (sys_lseek h fd off wh)"
  "same_fds (sys_ftruncate h fd n)" "same_fds (sys_fstat h fd)" "same_fds (sys_futimens h fd at mt)"
  "same_fds (sys_fsync h fd)" "same_fds (sys_unlink h path)" "same_fds (sys_lstat h path)"
  "same_fds (sys_chmod h path m)" "same_fds (sys_mkdir h path)" "same_fds (sys_rmdir h path)"
  unfolding sys_read_def sys_write_def sys_lseek_def sys_ftruncate_def sys_fstat_def sys_futimens_def sys_fsync_def
    sys_unlink_def sys_lstat_def sys_chmod_def sys_mkdir_def sys_rmdir_def
  by (rule same_fds_sys; auto simp: set_pos_def set_ino_def Let_def split: option.splits if_splits whence.splits)+

lemma same_fds_bool_of [same_fds_intro]: "same_fds m \<Longrightarrow> same_fds (bool_of t m)"
  unfolding bool_of_def by (intro same_fds_intro) (auto intro: same_fds_intro split: sum.splits)

lemma same_fds_cases [same_fds_intro]:
  "(P \<Longrightarrow> same_fds a) \<Longrightarrow> (\<not> P \<Longrightarrow> same_fds b) \<Longrightarrow> same_fds (if P then a else b)"
  "(\<And>e. same_fds (f e)) \<Longrightarrow> (\<And>v. same_fds (g v)) \<Longrightarrow> same_fds (case r of Inl e \<Rightarrow> f e | Inr v \<Rightarrow> g v)"
  "same_fds c \<Longrightarrow> (\<And>v. same_fds (d v)) \<Longrightarrow> same_fds (case q of None \<Rightarrow> c | Some v \<Rightarrow> d v)"
  by (auto split: sum.splits option.splits)

text \<open>The functions on open files and on names.\<close>

lemma same_fds_files:
  "same_fds (ReadFile h hnd n t)" "same_fds (WriteFile h hnd bs t)" "same_fds (SetFilePointerEx h hnd dist method t)"
  "same_fds (SetFilePointer h hnd lo hi method t)" "same_fds (SetEndOfFile h hnd t)" "same_fds (FlushFileBuffers h hnd t)"
  "same_fds (GetFileSize h hnd t)" "same_fds (GetFileType h hnd t)" "same_fds (SetFileTime h hnd ct at mt t)"
  "same_fds (GetFileTime h hnd t)" "same_fds (GetFileInformationByHandle h hnd info t)" "same_fds (DeleteFileW h path t)"
  "same_fds (SetFileAttributesW h path attrs t)" "same_fds (CreateDirectoryW h path t)" "same_fds (RemoveDirectoryW h path t)"
  unfolding ReadFile_def WriteFile_def SetFilePointerEx_def SetFilePointer_def SetEndOfFile_def FlushFileBuffers_def
    GetFileSize_def GetFileSizeEx_def GetFileType_def SetFileTime_def GetFileTime_def GetFileInformationByHandle_def
    DeleteFileW_def DeleteFileA_def SetFileAttributesW_def SetFileAttributesA_def CreateDirectoryW_def RemoveDirectoryW_def
  by (intro same_fds_intro)+

lemma fds_ownedI:
  assumes "length (g_handles (w_shim w)) = MAX_HANDLES"
    and "\<And>i fd. owns_fd (w_shim w) i fd \<Longrightarrow> 3 \<le> fd \<and> fd \<in> dom (w_fds w)"
    and "\<And>i j fd. owns_fd (w_shim w) i fd \<Longrightarrow> owns_fd (w_shim w) j fd \<Longrightarrow> i = j"
    and "\<And>fd. 3 \<le> fd \<Longrightarrow> fd \<in> dom (w_fds w) \<Longrightarrow> \<exists>i. owns_fd (w_shim w) i fd"
  shows "fds_owned w"
  using assms unfolding fds_owned_def by blast

lemma fds_owned_cong:
  "fds_owned w \<Longrightarrow> w_fds w' = w_fds w \<Longrightarrow> g_handles (w_shim w') = g_handles (w_shim w) \<Longrightarrow> fds_owned w'"
  by (simp add: fds_owned_def owns_fd_def)

lemma fds_owned_same: "same_fds m \<Longrightarrow> fds_owned w \<Longrightarrow> run_state m w = (r, w') \<Longrightarrow> fds_owned w'"
  by (rule fds_owned_cong[of w]) (auto simp: same_fds_def dest!: spec[of _ w])

lemma handle_alloc_file_cases:
  assumes "length (g_handles s) = MAX_HANDLES" and "handle_alloc_file fd t s = (hret, s')"
  obtains (none) "hret = INVALID_HANDLE_VALUE" "g_handles s' = g_handles s"
  | (slot) i where "3 \<le> i" "i < MAX_HANDLES" "hret \<noteq> INVALID_HANDLE_VALUE" "handle_to_idx hret = int i"
      "kind (g_handles s ! i) = H_FREE" "g_handles s' = (g_handles s)[i := file_slot fd]"
proof (cases "find_free s")
  case None
  then show thesis using assms(2) none by (auto simp: handle_alloc_file_def handle_alloc_def SET_LAST_ERROR_def)
next
  case (Some i)
  note f = find_free_spec[OF Some assms(1)]
  have "hret = idx_to_handle (int i)" "g_handles s' = (g_handles s)[i := file_slot fd]"
    using assms(2) Some by (auto simp: handle_alloc_file_def handle_alloc_def file_slot_def)
  moreover have "handle_to_idx (idx_to_handle (int i)) = int i" using f by (simp add: idx_handle_valid)
  moreover have "handle_to_idx INVALID_HANDLE_VALUE = - 1" by (simp add: handle_to_idx_def)
  ultimately show thesis using slot[of i] f by fastforce
qed

text \<open>A new descriptor that is handed out is owned; one for which there is no slot is closed.\<close>

lemma owns_fd_update:
  "length (g_handles s) = MAX_HANDLES \<Longrightarrow> g_handles s' = (g_handles s)[i := sl] \<Longrightarrow> 3 \<le> i \<Longrightarrow> i < MAX_HANDLES \<Longrightarrow>
    owns_fd s' j fd \<longleftrightarrow> (if j = i then kind sl = H_FILE \<and> uval sl = fd else owns_fd s j fd)"
  by (auto simp: owns_fd_def nth_list_update)

lemma hand_out_owned:
  assumes ok: "fds_owned w" and new: "w_fds w fd = None" "3 \<le> fd"
    and w1: "w_shim w1 = w_shim w" "w_fds w1 = (w_fds w)(fd \<mapsto> k)"
    and r: "run_state (hand_out h t (Inr fd)) w1 = (r, w')"
  shows "fds_owned w'"
proof -
  have len: "length (g_handles (w_shim w)) = MAX_HANDLES" using ok by (simp add: fds_owned_def)
  obtain hret s' where a: "handle_alloc_file fd t (w_shim w1) = (hret, s')" by fastforce
  have free: "\<not> owns_fd (w_shim w) i fd" for i
    using ok new(1) unfolding fds_owned_def by (metis domIff)
  from len a[unfolded w1] show ?thesis
  proof (cases rule: handle_alloc_file_cases)
    case none
    then have "w_fds w' = w_fds w" "g_handles (w_shim w') = g_handles (w_shim w)"
      using r a w1 new
      by (auto simp: hand_out_def run_via sys_close_def drop_fd_def fun_upd_idem split: prod.splits)
    then show ?thesis by (rule fds_owned_cong[OF ok])
  next
    case (slot i)
    then have w': "w_fds w' = (w_fds w)(fd \<mapsto> k)" "g_handles (w_shim w') = (g_handles (w_shim w))[i := file_slot fd]"
      using r a w1 by (auto simp: hand_out_def run_via)
    note own = owns_fd_update[OF len w'(2) slot(1,2)]
    have i: "\<not> owns_fd (w_shim w) i x" for x using slot by (simp add: owns_fd_def)
    show ?thesis
    proof (rule fds_ownedI)
      show "\<exists>j. owns_fd (w_shim w') j x" if x: "3 \<le> x" "x \<in> dom (w_fds w')" for x
      proof (cases "x = fd")
        case False
        then obtain j where "owns_fd (w_shim w) j x" using ok x w'(1) by (auto simp: fds_owned_def)
        then show ?thesis using i own by metis
      qed (use own in \<open>auto simp: file_slot_def\<close>)
    qed (use ok free i len new in \<open>auto simp: fds_owned_def own w' file_slot_def split: if_splits\<close>)
  qed
qed

lemma sys_open_result:
  assumes "run_state (sys_open h path fl perm) w = (r, w')"
  shows "w_shim w' = w_shim w \<and> (case r of
    Inl e \<Rightarrow> w_fds w' = w_fds w
  | Inr fd \<Rightarrow> w_fds w fd = None \<and> 3 \<le> fd \<and> (\<exists>k. w_fds w' = (w_fds w)(fd \<mapsto> k)))"
  using assms
  by (auto simp: sys_open_def run_sys fd_room_def create_open_def open_ino_def new_inode_def split: option.splits if_splits)

lemma sys_dup_result:
  assumes "run_state (sys_dup h fd0) w = (r, w')"
  shows "w_shim w' = w_shim w \<and> (case r of
    Inl e \<Rightarrow> w_fds w' = w_fds w
  | Inr fd \<Rightarrow> w_fds w fd = None \<and> 3 \<le> fd \<and> (\<exists>k. w_fds w' = (w_fds w)(fd \<mapsto> k)))"
  using assms by (auto simp: sys_dup_def run_sys split: option.splits if_splits)

lemma hand_out_after:
  assumes ok: "fds_owned w" and r1: "w_shim w1 = w_shim w \<and> (case x of
      Inl e \<Rightarrow> w_fds w1 = w_fds w
    | Inr fd \<Rightarrow> w_fds w fd = None \<and> 3 \<le> fd \<and> (\<exists>k. w_fds w1 = (w_fds w)(fd \<mapsto> k)))"
    and r: "run_state (hand_out h t x) w1 = (r, w')"
  shows "fds_owned w'"
proof (cases x)
  case (Inl e)
  then have "fds_owned w1" using r1 by (intro fds_owned_cong[OF ok]) simp_all
  then show ?thesis
    using r Inl fds_owned_same[OF same_fds_error(2)] by (auto simp: hand_out_def)
next
  case (Inr fd)
  then obtain k where "w_fds w fd = None" "3 \<le> fd" "w_shim w1 = w_shim w" "w_fds w1 = (w_fds w)(fd \<mapsto> k)"
    using r1 by auto
  then show ?thesis using r Inr hand_out_owned[OF ok] by blast
qed

lemma CreateFile_owned:
  assumes "fds_owned w"
  shows "run_state (CreateFileW h name access disp t) w = (r, w') \<Longrightarrow> fds_owned w'"
    and "run_state (CreateFileA h nm access disp t) w = (r, w') \<Longrightarrow> fds_owned w'"
proof -
  have two: "fds_owned w'" if "run_state (State_Monad.bind m (hand_out h t)) w = (r, w')"
    "\<And>x w1. run_state m w = (x, w1) \<Longrightarrow> w_shim w1 = w_shim w \<and> (case x of Inl e \<Rightarrow> w_fds w1 = w_fds w
        | Inr fd \<Rightarrow> w_fds w fd = None \<and> 3 \<le> fd \<and> (\<exists>k. w_fds w1 = (w_fds w)(fd \<mapsto> k)))"
    for m :: "int sys"
    using that(1) hand_out_after[OF assms that(2)] by (auto split: prod.splits)
  show "run_state (CreateFileW h name access disp t) w = (r, w') \<Longrightarrow> fds_owned w'"
    unfolding CreateFileW_def by (erule two) (rule sys_open_result)
  show "run_state (CreateFileA h nm access disp t) w = (r, w') \<Longrightarrow> fds_owned w'"
    unfolding CreateFileA_def
    by (cases "strcaseeq nm (str_bytes ''CONIN$'') \<or> strcaseeq nm (str_bytes ''CONOUT$'') \<or> strcaseeq nm (str_bytes ''CON'')";
        simp only: if_True if_False; erule two)
      (erule sys_dup_result, erule sys_open_result)
qed

text \<open>Dropping a reference touches no slot and closes no descriptor.\<close>

definition no_close :: "host_call list \<Rightarrow> bool" where
  "no_close cs \<longleftrightarrow> (\<forall>fd. Close fd \<notin> set cs)"

lemma release_table:
  assumes "release k p s = Some s'"
  shows "g_handles s' = g_handles s \<and> (\<exists>cs. host_trace s' = host_trace s @ cs \<and> no_close cs)"
proof -
  have "g_handles x = g_handles y \<and> (\<exists>cs. host_trace x = host_trace y @ cs \<and> no_close cs)"
    if "destroy k p y = Some x" for x y
  proof (cases "objs y p")
    case None
    then show ?thesis using that by (auto simp: destroy_def find_ctx_free_def sync_obj_destroy_def split: if_splits)
  next
    case (Some ob)
    then show ?thesis
      using that by (cases k; cases "body ob")
        (auto simp: destroy_def find_ctx_free_def sync_obj_destroy_def free_obj_def host_do_def no_close_def split: if_splits)
  qed
  note d = this[of "set_obj p ob s" s' for ob]
  show ?thesis
    using assms d by (auto simp: release_def Let_def bind_eq_Some_conv set_obj_def no_close_def split: if_splits)
qed

lemma close_fds_none: "no_close cs \<Longrightarrow> run_state (close_fds h cs) w = ((), w)"
  by (induction h cs rule: close_fds.induct) (auto simp: no_close_def)

text \<open>Freeing a slot that owns a descriptor goes with closing it.\<close>

lemma fds_owned_free:
  assumes ok: "fds_owned w" and i: "3 \<le> i" "i < MAX_HANDLES"
    and t: "g_handles (w_shim w') = (g_handles (w_shim w))[i := sl]" "kind sl \<noteq> H_FILE"
    and f: "w_fds w' = (if kind (g_handles (w_shim w) ! i) = H_FILE
      then (w_fds w)(uval (g_handles (w_shim w) ! i) := None) else w_fds w)"
  shows "fds_owned w'"
proof -
  have len: "length (g_handles (w_shim w)) = MAX_HANDLES" using ok by (simp add: fds_owned_def)
  note own = owns_fd_update[OF len t(1) i]
  define fd where "fd = uval (g_handles (w_shim w) ! i)"
  have me: "owns_fd (w_shim w) i x \<longleftrightarrow> kind (g_handles (w_shim w) ! i) = H_FILE \<and> x = fd" for x
    using i by (auto simp: owns_fd_def fd_def)
  have one: "owns_fd (w_shim w) j x \<Longrightarrow> owns_fd (w_shim w) j' x \<Longrightarrow> j = j'" for j j' x
    using ok unfolding fds_owned_def by blast
  have had: "owns_fd (w_shim w) j x \<Longrightarrow> 3 \<le> x \<and> x \<in> dom (w_fds w)" for j x
    using ok unfolding fds_owned_def by blast
  have f': "dom (w_fds w') = (if kind (g_handles (w_shim w) ! i) = H_FILE then dom (w_fds w) - {fd} else dom (w_fds w))"
    using f by (auto simp: fd_def)
  show ?thesis
  proof (rule fds_ownedI)
    show "length (g_handles (w_shim w')) = MAX_HANDLES" using len t by simp
  next
    fix j x assume "owns_fd (w_shim w') j x"
    then have j: "j \<noteq> i" "owns_fd (w_shim w) j x" using own t(2) by (auto split: if_splits)
    then have "kind (g_handles (w_shim w) ! i) = H_FILE \<Longrightarrow> x \<noteq> fd" using me one by metis
    then show "3 \<le> x \<and> x \<in> dom (w_fds w')" using had[OF j(2)] f' by auto
  next
    fix j j' x assume "owns_fd (w_shim w') j x" "owns_fd (w_shim w') j' x"
    then show "j = j'" using own t(2) one by (auto split: if_splits)
  next
    fix x assume x: "3 \<le> x" "x \<in> dom (w_fds w')"
    then have "x \<in> dom (w_fds w)" using f' by (auto split: if_splits)
    then obtain j where j: "owns_fd (w_shim w) j x" using ok x(1) unfolding fds_owned_def by blast
    moreover have "j \<noteq> i"
    proof
      assume "j = i"
      then show False using j me x f' by auto
    qed
    ultimately show "\<exists>j. owns_fd (w_shim w') j x" using own by auto
  qed
qed

lemma sys_close_fds: "run_state (sys_close h fd) w = (r, w') \<Longrightarrow> w_fds w fd \<noteq> None \<Longrightarrow>
    w_fds w' = (w_fds w)(fd := None) \<and> w_shim w' = w_shim w"
  by (auto simp: sys_close_def drop_fd_def)

lemma close_drop_table:
  assumes "close_drop sl t s = Some (r, s')"
  shows "g_handles s' = g_handles s \<and> (if kind sl = H_FILE then host_trace s' = host_trace s @ [Close (uval sl)]
    else \<exists>cs. host_trace s' = host_trace s @ cs \<and> no_close cs)"
proof -
  have nil: "no_close []" "no_close [Dlclose p]" for p by (simp_all add: no_close_def)
  show ?thesis
    using assms nil release_table[of H_FIND] release_table[of "kind sl"]
    by (auto simp: close_drop_def release_find_ctx_def host_do_def SET_LAST_ERROR_def bind_eq_Some_conv
        split: if_splits)
qed

lemma close_handle_owned:
  assumes ok: "fds_owned w" and r: "run_state (close_handle h hnd t) w = (r, w')"
  shows "fds_owned w'"
proof (cases "CloseHandle hnd t (w_shim w)")
  case None
  then show ?thesis using r ok by (simp add: close_handle_def)
next
  case (Some q)
  obtain b s where q: "CloseHandle hnd t (w_shim w) = Some (b, s)" using Some by (cases q) simp
  define i where "i = nat (handle_to_idx hnd)"
  define sl where "sl = g_handles (w_shim w) ! i"
  have run: "run_state (close_fds h (drop (length (host_trace (w_shim w))) (host_trace s))) (w\<lparr>w_shim := s\<rparr>) = ((), w')"
    using r q by (auto simp: close_handle_def run_via split: prod.splits)
  show ?thesis
  proof (cases "handle_to_idx hnd \<le> 2")
    case True
    then have "s = w_shim w" using q by (auto simp: CloseHandle_def close_take_def)
    then show ?thesis using run ok by simp
  next
    case False
    have i: "3 \<le> i" "i < MAX_HANDLES" using False by (auto simp: i_def handle_to_idx_def Let_def MAX_HANDLES_def split: if_splits)
    define s1 where "s1 = (if kind sl \<noteq> H_FREE then set_slot i (sl\<lparr>kind := H_FREE\<rparr>) (w_shim w) else w_shim w)"
    have d: "close_drop sl t s1 = Some (b, s)"
      using q False by (auto simp: CloseHandle_def close_take_def Let_def i_def sl_def s1_def split: if_splits)
    note tab = close_drop_table[OF d]
    have s1: "host_trace s1 = host_trace (w_shim w)" by (simp add: s1_def set_slot_def)
    have idem: "kind sl = H_FREE \<Longrightarrow> sl\<lparr>kind := H_FREE\<rparr> = sl" by (cases sl) simp
    have sl1: "g_handles s1 = (g_handles (w_shim w))[i := sl\<lparr>kind := H_FREE\<rparr>]"
      by (cases "kind sl = H_FREE") (simp_all add: s1_def set_slot_def idem, simp add: sl_def)
    show ?thesis
    proof (cases "kind sl = H_FILE")
      case True
      then have "owns_fd (w_shim w) i (uval sl)" using i by (simp add: owns_fd_def sl_def)
      then have "w_fds w (uval sl) \<noteq> None" using ok unfolding fds_owned_def by blast
      then have "w_fds w' = (w_fds w)(uval sl := None) \<and> w_shim w' = s"
        using run tab True s1 by (auto split: prod.splits dest: sys_close_fds)
      then show ?thesis
        using fds_owned_free[OF ok i, of w' "sl\<lparr>kind := H_FREE\<rparr>"] True tab sl1 by (simp add: sl_def)
    next
      case f: False
      then obtain cs where "host_trace s = host_trace (w_shim w) @ cs" "no_close cs" using tab s1 by auto
      then have "w' = w\<lparr>w_shim := s\<rparr>" using run by (simp add: close_fds_none)
      then show ?thesis
        using fds_owned_free[OF ok i, of w' "sl\<lparr>kind := H_FREE\<rparr>"] f tab sl1 by (simp add: sl_def)
    qed
  qed
qed

text \<open>
  What a program does with files, in any order, on a host that may fail any call and while
  other processes change names and inodes; and what the functions on other kinds of handles do.
\<close>

inductive file_step :: "fhost \<Rightarrow> world \<Rightarrow> world \<Rightarrow> bool" for h where
  create_w: "run_state (CreateFileW h name access disp t) w = (r, w') \<Longrightarrow> file_step h w w'"
| create_a: "run_state (CreateFileA h name access disp t) w = (r, w') \<Longrightarrow> file_step h w w'"
| close: "run_state (close_handle h hnd t) w = (r, w') \<Longrightarrow> file_step h w w'"
| get_bytes: "run_state (ReadFile h hnd n t) w = (r, w') \<Longrightarrow> file_step h w w'"
| put_bytes: "run_state (WriteFile h hnd bs t) w = (r, w') \<Longrightarrow> file_step h w w'"
| seek: "run_state (SetFilePointer h hnd lo hi method t) w = (r, w') \<Longrightarrow> file_step h w w'"
| seek_ex: "run_state (SetFilePointerEx h hnd dist method t) w = (r, w') \<Longrightarrow> file_step h w w'"
| truncate: "run_state (SetEndOfFile h hnd t) w = (r, w') \<Longrightarrow> file_step h w w'"
| file_time: "run_state (SetFileTime h hnd ct at mt t) w = (r, w') \<Longrightarrow> file_step h w w'"
| delete: "run_state (DeleteFileW h path t) w = (r, w') \<Longrightarrow> file_step h w w'"
| attributes: "run_state (SetFileAttributesW h path attrs t) w = (r, w') \<Longrightarrow> file_step h w w'"
| mkdir: "run_state (CreateDirectoryW h path t) w = (r, w') \<Longrightarrow> file_step h w w'"
| rmdir: "run_state (RemoveDirectoryW h path t) w = (r, w') \<Longrightarrow> file_step h w w'"
| other: "length (g_handles s) = MAX_HANDLES \<Longrightarrow> (\<And>i fd. owns_fd s i fd \<longleftrightarrow> owns_fd (w_shim w) i fd) \<Longrightarrow>
    file_step h w (w\<lparr>w_shim := s\<rparr>)"

lemma file_step_owned: "file_step h w w' \<Longrightarrow> fds_owned w \<Longrightarrow> fds_owned w'"
proof (induction rule: file_step.induct)
  case (other s w)
  then show ?case by (simp add: fds_owned_def)
qed (erule CreateFile_owned[rotated] close_handle_owned[rotated], assumption |
    erule fds_owned_same[rotated 2], rule same_fds_files, assumption)+

text \<open>A process that has just started: the three standard descriptors and the initial table.\<close>

definition world_start :: "world \<Rightarrow> bool" where
  "world_start w \<longleftrightarrow> w_shim w = handles_init \<and> dom (w_fds w) = {0, 1, 2}"

lemma world_start_owned: "world_start w \<Longrightarrow> fds_owned w"
  by (rule fds_ownedI)
    (auto simp: world_start_def handles_init_def owns_fd_def MAX_HANDLES_def nth_append nth_Cons' free_slot_def split: if_splits)


section \<open>Creating and opening\<close>

text \<open>
  What \<^verbatim>\<open>CreateFile\<close> promises for a path with this content (\<open>None\<close>: no file): the Windows error, or
  the content of the file that is then open.
\<close>

definition win_create :: "u32 \<Rightarrow> bytes option \<Rightarrow> u32 + bytes" where
  "win_create disp content = (case content of
     None \<Rightarrow> if disp = OPEN_EXISTING \<or> disp = TRUNCATE_EXISTING then Inl ERROR_FILE_NOT_FOUND else Inr []
   | Some d \<Rightarrow> if disp = CREATE_NEW then Inl 80
       else if disp = CREATE_ALWAYS \<or> disp = TRUNCATE_EXISTING then Inr [] else Inr d)"

text \<open>The content of the file a name or an open handle refers to.\<close>

definition content_at :: "world \<Rightarrow> bytes \<Rightarrow> bytes option" where
  "content_at w path = do { i \<leftarrow> w_names w path; ino \<leftarrow> w_inodes w i; Some (i_data ino) }"

definition handle_content :: "world \<Rightarrow> u64 \<Rightarrow> nat \<Rightarrow> bytes option" where
  "handle_content w hnd t = do { (k, f, ino) \<leftarrow> fd_file w (fst (get_fd hnd t (w_shim w))); Some (i_data ino) }"

text \<open>A world in which every name has its inode, and a name that is free or of a regular file.\<close>

definition plain_name :: "world \<Rightarrow> bytes \<Rightarrow> bool" where
  "plain_name w path \<longleftrightarrow> (case w_names w path of None \<Rightarrow> True
     | Some i \<Rightarrow> (case w_inodes w i of None \<Rightarrow> False | Some ino \<Rightarrow> is_reg_mode (i_mode ino)))"

definition fhost_calm :: "fhost \<Rightarrow> bool" where
  "fhost_calm h \<longleftrightarrow> fhost_ok h \<and> fhost_quiet h \<and> (\<forall>n. fh_fail h n = None)"

definition world_ok :: "world \<Rightarrow> bool" where
  "world_ok w \<longleftrightarrow> finite (dom (w_inodes w)) \<and> finite (dom (w_files w)) \<and> finite (dom (w_fds w)) \<and>
     (\<forall>q i. w_names w q = Some i \<longrightarrow> i \<in> dom (w_inodes w))"

lemma run_sys_calm: "fhost_calm h \<Longrightarrow> run_state (sys h f) w = f (w\<lparr>w_clock := Suc (w_clock w)\<rparr>)"
  by (simp add: run_sys fhost_calm_def fh_tick_quiet)

lemma make_open_flags_bits:
  assumes "disp \<in> {CREATE_NEW, CREATE_ALWAYS, OPEN_EXISTING, OPEN_ALWAYS, TRUNCATE_EXISTING}"
  shows "make_open_flags access disp AND O_CREAT \<noteq> 0 \<longleftrightarrow> disp \<in> {CREATE_NEW, CREATE_ALWAYS, OPEN_ALWAYS}"
    and "make_open_flags access disp AND O_EXCL \<noteq> 0 \<longleftrightarrow> disp = CREATE_NEW"
    and "make_open_flags access disp AND O_TRUNC \<noteq> 0 \<longleftrightarrow> disp \<in> {CREATE_ALWAYS, TRUNCATE_EXISTING}"
  using assms by (auto simp: make_open_flags_def Let_def)

lemma fd_room_calm: "fhost_calm h \<Longrightarrow> world_ok w \<Longrightarrow>
    fd_room h w = None \<and> w_inodes w (fh_ino h w) = None \<and> w_fds w (fh_fd h w) = None \<and> 3 \<le> fh_fd h w"
  by (auto simp: fd_room_def fhost_calm_def fhost_ok_def world_ok_def not_less)

text \<open>What opening a free name or a regular file does.\<close>

definition opened :: "fhost \<Rightarrow> bytes \<Rightarrow> u32 \<Rightarrow> u32 \<Rightarrow> world \<Rightarrow> world" where
  "opened h path fl perm w = open_ino (fh_fd h w) (fh_file h w)
     (case w_names w path of None \<Rightarrow> fh_ino h w | Some i \<Rightarrow> i) fl
     (case w_names w path of
        None \<Rightarrow> new_inode h path (fh_ino h w) perm w
      | Some i \<Rightarrow> if fl AND O_TRUNC \<noteq> 0
          then w\<lparr>w_inodes := (w_inodes w)(i := map_option (i_data_update (\<lambda>_. [])) (w_inodes w i))\<rparr> else w)"

lemma reg_not_dir: "is_reg_mode m \<Longrightarrow> \<not> is_dir_mode m"
  by simp

lemma sys_open_calm:
  assumes h: "fhost_calm h" and w: "world_ok w" and p: "plain_name w path"
  defines "w1 \<equiv> w\<lparr>w_clock := Suc (w_clock w)\<rparr>"
  shows "run_state (sys_open h path fl perm) w =
    (if w_names w path = None then
       if fl AND O_CREAT = 0 then (Inl ENOENT, w1) else (Inr (fh_fd h w1), opened h path fl perm w1)
     else if fl AND O_CREAT \<noteq> 0 \<and> fl AND O_EXCL \<noteq> 0 then (Inl EEXIST, w1)
     else (Inr (fh_fd h w1), opened h path fl perm w1))"
proof -
  have w1: "world_ok w1" using w by (simp add: w1_def world_ok_def)
  note room = fd_room_calm[OF h w1]
  show ?thesis
  proof (cases "w_names w path")
    case None
    then have n: "w_names w1 path = None" by (simp add: w1_def)
    show ?thesis
      using room None n by (simp add: sys_open_def run_sys_calm[OF h] create_open_def opened_def flip: w1_def)
  next
    case (Some i)
    then obtain ino where ino: "w_inodes w i = Some ino" "is_reg_mode (i_mode ino)"
      using p by (auto simp: plain_name_def split: option.splits)
    have n: "w_names w1 path = Some i" "w_inodes w1 i = Some ino" using Some ino by (simp_all add: w1_def)
    show ?thesis
      using room Some ino n reg_not_dir[OF ino(2)]
      by (simp add: sys_open_def run_sys_calm[OF h] opened_def flip: w1_def)
  qed
qed

lemma hand_out_calm:
  assumes "length (g_handles (w_shim w)) = MAX_HANDLES" and "find_free (w_shim w) = Some i"
  shows "run_state (hand_out h t (Inr fd)) w = (idx_to_handle (int i), w\<lparr>w_shim := set_slot i (file_slot fd) (w_shim w)\<rparr>)"
    and "fst (get_fd (idx_to_handle (int i)) t' (set_slot i (file_slot fd) (w_shim w))) = fd"
    and "idx_to_handle (int i) \<noteq> INVALID_HANDLE_VALUE"
proof -
  note f = find_free_spec[OF assms(2,1)] and v = idx_handle_valid[OF find_free_spec(2)[OF assms(2,1)]]
  show "idx_to_handle (int i) \<noteq> INVALID_HANDLE_VALUE" by (rule v(2))
  show "run_state (hand_out h t (Inr fd)) w = (idx_to_handle (int i), w\<lparr>w_shim := set_slot i (file_slot fd) (w_shim w)\<rparr>)"
    using assms v(2) by (simp add: hand_out_def run_via handle_alloc_file_def handle_alloc_def file_slot_def)
  show "fst (get_fd (idx_to_handle (int i)) t' (set_slot i (file_slot fd) (w_shim w))) = fd"
    using f v(1) assms(1) by (simp add: get_fd_def Let_def set_slot_def file_slot_def)
qed

lemma opened_content:
  assumes "world_ok w" and "w_inodes w (fh_ino h w) = None" and "plain_name w path"
  shows "content_at (opened h path fl perm w) path =
      Some (case content_at w path of None \<Rightarrow> [] | Some d \<Rightarrow> if fl AND O_TRUNC \<noteq> 0 then [] else d)"
    and "fd_file (opened h path fl perm w) (fh_fd h w) \<noteq> None \<and>
      (\<forall>k f ino. fd_file (opened h path fl perm w) (fh_fd h w) = Some (k, f, ino) \<longrightarrow>
        content_at (opened h path fl perm w) path = Some (i_data ino))"
    and "q \<noteq> path \<Longrightarrow> w_names w path = None \<or> w_names w q \<noteq> w_names w path \<Longrightarrow>
      content_at (opened h path fl perm w) q = content_at w q"
proof -
  have fr: "w_names w q \<noteq> Some (fh_ino h w)" for q using assms(1,2) by (auto simp: world_ok_def)
  have old: "w_names w path = Some i \<Longrightarrow> \<exists>ino. w_inodes w i = Some ino" for i
    using assms(3) by (auto simp: plain_name_def split: option.splits)
  show "content_at (opened h path fl perm w) path =
      Some (case content_at w path of None \<Rightarrow> [] | Some d \<Rightarrow> if fl AND O_TRUNC \<noteq> 0 then [] else d)"
    using old by (auto simp: content_at_def opened_def open_ino_def new_inode_def split: option.splits)
  show "fd_file (opened h path fl perm w) (fh_fd h w) \<noteq> None \<and>
      (\<forall>k f ino. fd_file (opened h path fl perm w) (fh_fd h w) = Some (k, f, ino) \<longrightarrow>
        content_at (opened h path fl perm w) path = Some (i_data ino))"
    using old by (auto simp: content_at_def opened_def open_ino_def new_inode_def fd_file_def split: option.splits)
  show "content_at (opened h path fl perm w) q = content_at w q"
    if "q \<noteq> path" "w_names w path = None \<or> w_names w q \<noteq> w_names w path"
    using that fr[of q] by (cases "w_names w q") (auto simp: content_at_def opened_def open_ino_def new_inode_def split: option.splits)
qed

lemma content_at_clock [simp]: "content_at (w\<lparr>w_clock := n\<rparr>) = content_at w" "content_at (w\<lparr>w_shim := s\<rparr>) = content_at w"
  by (simp_all add: content_at_def fun_eq_iff)


section \<open>Reading, writing and seeking\<close>

text \<open>A handle that refers to an open file: its descriptor, open file and inode.\<close>

definition open_at :: "world \<Rightarrow> u64 \<Rightarrow> nat \<Rightarrow> int \<times> nat \<times> ofile \<times> inode \<Rightarrow> bool" where
  "open_at w hnd t x = (case x of (fd, k, f, ino) \<Rightarrow>
     get_fd hnd t (w_shim w) = (fd, w_shim w) \<and> 0 \<le> fd \<and> fd_file w fd = Some (k, f, ino))"

lemma run_get_fd: "get_fd hnd t (w_shim w) = (fd, w_shim w) \<Longrightarrow> run_state (via (get_fd hnd t)) w = (fd, w)"
  by (simp add: run_via)

lemma fd_file_update:
  assumes "fd_file w fd = Some (k, f, ino)"
  shows "fd_file (set_pos k f p (set_ino (of_ino f) ino' (w\<lparr>w_clock := c\<rparr>))) fd = Some (k, f\<lparr>of_pos := p\<rparr>, ino')"
    and "fd_file (set_pos k f p (w\<lparr>w_clock := c\<rparr>)) fd = Some (k, f\<lparr>of_pos := p\<rparr>, ino)"
  using assms by (auto simp: fd_file_def set_pos_def set_ino_def bind_eq_Some_conv)

lemma WriteFile_at:
  assumes "fhost_calm h" and "open_at w hnd t (fd, k, f, ino)" and "of_write f"
    and "length bs \<le> fh_count h (Suc (w_clock w))"
  shows "\<exists>w' ino'. run_state (WriteFile h hnd bs t) w = ((True, of_nat (length bs)), w') \<and> w_clock w' = Suc (w_clock w) \<and>
    i_data ino' = overwrite (of_pos f) bs (i_data ino) \<and> i_mode ino' = i_mode ino \<and>
    open_at w' hnd t (fd, k, f\<lparr>of_pos := of_pos f + length bs\<rparr>, ino')"
proof -
  have g: "get_fd hnd t (w_shim w) = (fd, w_shim w)" "0 \<le> fd" "fd_file w fd = Some (k, f, ino)"
    using assms(2) by (simp_all add: open_at_def)
  have c: "fd_file (w\<lparr>w_clock := c\<rparr>) fd = Some (k, f, ino)" for c using g(3) by (simp add: fd_file_def)
  define ino' where "ino' = ino\<lparr>i_data := overwrite (of_pos f) bs (i_data ino), i_mtime := fh_now h (Suc (w_clock w))\<rparr>"
  have "run_state (WriteFile h hnd bs t) w = ((True, of_nat (length bs)),
      set_pos k f (of_pos f + length bs) (set_ino (of_ino f) ino' (w\<lparr>w_clock := Suc (w_clock w)\<rparr>)))"
    using g(2) assms(3,4) by (simp add: WriteFile_def run_get_fd[OF g(1)] sys_write_def run_sys_calm[OF assms(1)] c Let_def ino'_def)
  then show ?thesis
    using g fd_file_update(1)[OF g(3)]
    by (intro exI[of _ ino'] exI) (auto simp: open_at_def set_pos_def set_ino_def ino'_def)
qed

lemma ReadFile_at:
  assumes "fhost_calm h" and "open_at w hnd t (fd, k, f, ino)" and "of_read f" and "\<not> is_dir_mode (i_mode ino)"
    and "unat n \<le> fh_count h (Suc (w_clock w))"
  defines "bs \<equiv> take (unat n) (drop (of_pos f) (i_data ino))"
  shows "\<exists>w'. run_state (ReadFile h hnd n t) w = ((True, bs, of_nat (length bs)), w') \<and>
    open_at w' hnd t (fd, k, f\<lparr>of_pos := of_pos f + length bs\<rparr>, ino)"
proof -
  have g: "get_fd hnd t (w_shim w) = (fd, w_shim w)" "0 \<le> fd" "fd_file w fd = Some (k, f, ino)"
    using assms(2) by (simp_all add: open_at_def)
  have c: "fd_file (w\<lparr>w_clock := c\<rparr>) fd = Some (k, f, ino)" for c using g(3) by (simp add: fd_file_def)
  have m: "min (unat n) (fh_count h (Suc (w_clock w))) = unat n" using assms(5) by simp
  have "run_state (ReadFile h hnd n t) w = ((True, bs, of_nat (length bs)),
      set_pos k f (of_pos f + length bs) (w\<lparr>w_clock := Suc (w_clock w)\<rparr>))"
    using g(2) assms(3,4)
    by (simp add: ReadFile_def run_get_fd[OF g(1)] sys_read_def run_sys_calm[OF assms(1)] c Let_def m bs_def)
  then show ?thesis
    using g fd_file_update(2)[OF g(3)] by (auto simp: open_at_def set_pos_def)
qed

lemma SetFilePointerEx_at:
  assumes "fhost_calm h" and "open_at w hnd t (fd, k, f, ino)" and "is_reg_mode (i_mode ino)" and "p < 2 ^ 63"
  shows "\<exists>w'. run_state (SetFilePointerEx h hnd (of_nat p) FILE_BEGIN t) w = ((True, of_nat p), w') \<and> w_clock w' = Suc (w_clock w) \<and>
    open_at w' hnd t (fd, k, f\<lparr>of_pos := p\<rparr>, ino)"
proof -
  have g: "get_fd hnd t (w_shim w) = (fd, w_shim w)" "0 \<le> fd" "fd_file w fd = Some (k, f, ino)"
    using assms(2) by (simp_all add: open_at_def)
  have c: "fd_file (w\<lparr>w_clock := c\<rparr>) fd = Some (k, f, ino)" for c using g(3) by (simp add: fd_file_def)
  have s: "sint (of_nat p :: u64) = int p"
    using assms(4) by (simp add: sint_uint unsigned_of_nat take_bit_nat_eq_self signed_take_bit_int_eq_self)
  have "run_state (SetFilePointerEx h hnd (of_nat p) FILE_BEGIN t) w = ((True, of_nat p), set_pos k f p (w\<lparr>w_clock := Suc (w_clock w)\<rparr>))"
    using g(2) assms(3,4)
    by (simp add: SetFilePointerEx_def run_get_fd[OF g(1)] sys_lseek_def run_sys_calm[OF assms(1)] c Let_def s whence_of_def)
  then show ?thesis
    using g fd_file_update(2)[OF g(3)] by (auto simp: open_at_def set_pos_def)
qed

lemma overwrite_read: "take (length bs) (drop p (overwrite p bs d)) = bs"
  by (cases "p \<le> length d") (simp_all add: overwrite_def)

text \<open>
  C21: What is written through a handle is read back from the same position, wherever the
  position was (also past the end of the file, where the gap is filled with zeros), and the
  rest of the file is as before.
\<close>

theorem write_seek_read:
  assumes "fhost_calm h" and "open_at w hnd t (fd, k, f, ino)" and "of_read f" and "of_write f" and "is_reg_mode (i_mode ino)"
    and "length bs < 2 ^ 32" and "\<forall>n. length bs \<le> fh_count h n" and "of_pos f < 2 ^ 63"
  shows "\<exists>w' ino'. run_state (do {
       r1 \<leftarrow> WriteFile h hnd bs t;
       r2 \<leftarrow> SetFilePointerEx h hnd (of_nat (of_pos f)) FILE_BEGIN t;
       r3 \<leftarrow> ReadFile h hnd (of_nat (length bs)) t;
       ret (r1, r2, r3) }) w
     = (((True, of_nat (length bs)), (True, of_nat (of_pos f)), (True, bs, of_nat (length bs))), w') \<and>
     open_at w' hnd t (fd, k, f\<lparr>of_pos := of_pos f + length bs\<rparr>, ino') \<and>
     i_data ino' = overwrite (of_pos f) bs (i_data ino)"
proof -
  obtain w1 ino' where w1: "run_state (WriteFile h hnd bs t) w = ((True, of_nat (length bs)), w1)"
    "i_data ino' = overwrite (of_pos f) bs (i_data ino)" "i_mode ino' = i_mode ino"
    "open_at w1 hnd t (fd, k, f\<lparr>of_pos := of_pos f + length bs\<rparr>, ino')"
    using WriteFile_at[OF assms(1,2,4)] assms(7) by blast
  have reg: "is_reg_mode (i_mode ino')" using assms(5) w1(3) by simp
  obtain w2 where w2: "run_state (SetFilePointerEx h hnd (of_nat (of_pos f)) FILE_BEGIN t) w1 = ((True, of_nat (of_pos f)), w2)"
    "open_at w2 hnd t (fd, k, f, ino')"
    using SetFilePointerEx_at[OF assms(1) w1(4) reg assms(8)] by auto
  have n: "unat (of_nat (length bs) :: u32) = length bs"
    using assms(6) by (simp add: unat_of_nat take_bit_nat_eq_self)
  have "unat (of_nat (length bs) :: u32) \<le> fh_count h (Suc (w_clock w2))" using assms(7) n by simp
  then obtain w3 where "run_state (ReadFile h hnd (of_nat (length bs)) t) w2 = ((True, bs, of_nat (length bs)), w3)"
    "open_at w3 hnd t (fd, k, f\<lparr>of_pos := of_pos f + length bs\<rparr>, ino')"
    using ReadFile_at[OF assms(1) w2(2) assms(3) reg_not_dir[OF reg], unfolded w1(2), where n = "of_nat (length bs)",
      unfolded n overwrite_read] by (auto simp: n)
  then show ?thesis using w1(1,2) w2(1) by auto
qed

lemma sint_split: "sint (lo :: u32) = uint lo - (if bit lo 31 then 2 ^ 32 else 0)"
  using uint_lt2p[of lo] by (simp add: sint_uint signed_take_bit_eq_take_bit_minus bit_uint_iff take_bit_int_eq_self)

lemma bit_31: "bit (lo :: u32) 31 \<longleftrightarrow> \<not> lo < 0x80000000"
proof -
  have u: "uint lo < 2 ^ 32" using uint_lt2p[of lo] by simp
  then have "uint lo div 2 ^ 31 = 1" if "\<not> uint lo < 2 ^ 31"
    using that by (intro int_div_pos_eq[where r = "uint lo - 2 ^ 31"]) simp_all
  then have "uint lo div 2 ^ 31 = (if uint lo < 2 ^ 31 then 0 else 1)"
    by (simp add: div_pos_pos_trivial)
  moreover have "bit lo 31 \<longleftrightarrow> bit (uint lo) 31" by (simp add: bit_uint_iff)
  moreover have "bit (uint lo) 31 \<longleftrightarrow> odd (uint lo div 2 ^ 31)" by (rule bit_iff_odd)
  ultimately show ?thesis by (simp add: word_less_def)
qed

lemma sint_of_int_64: "- (2 ^ 63) \<le> x \<Longrightarrow> x < 2 ^ 63 \<Longrightarrow> sint (of_int x :: u64) = x"
  by (simp add: signed_of_int signed_take_bit_int_eq_self)

lemma sint_32_bounds: "- (2 ^ 31) \<le> sint (x :: u32)" "sint (x :: u32) < 2 ^ 31"
  using sint_greater_eq[of x] sint_less[of x] by simp_all

lemma seek_offset_sum: "lo < 0x80000000 \<Longrightarrow> seek_offset lo (Some hi) = of_int (uint lo + sint hi * 2 ^ 32)"
proof -
  assume "lo < 0x80000000"
  then have l: "\<not> bit lo 31" by (simp add: bit_31)
  have "scast lo AND push_bit 32 (scast hi) = (0 :: u64)"
    using l by (auto intro!: bit_eqI simp: bit_simps dest: bit_imp_le_length)
  then have "seek_offset lo (Some hi) = scast lo + push_bit 32 (scast hi)"
    using word_plus_and_or[of "scast lo :: u64" "push_bit 32 (scast hi)"] by (simp add: seek_offset_def)
  also have "(scast lo :: u64) = of_int (sint lo)" by simp
  also have "sint lo = uint lo" using l by (simp add: sint_split)
  also have "push_bit 32 (scast hi :: u64) = of_int (sint hi * 2 ^ 32)"
    by (simp add: push_bit_eq_mult)
  finally show ?thesis by (simp only: of_int_add)
qed

text \<open>
  \<^verbatim>\<open>SetFilePointer\<close> combines the two halves of a position as intended exactly when the low half is
  below 2^31; otherwise the sign of the low half overwrites the high one.
\<close>

lemma seek_offset_value:
  "sint (seek_offset lo (Some hi)) = (if lo < 0x80000000 then sint hi * 2 ^ 32 + uint lo else uint lo - 2 ^ 32)"
proof (cases "lo < 0x80000000")
  case True
  then have "uint lo < 2147483648" "0 \<le> uint lo" "- 2147483648 \<le> sint hi" "sint hi < 2147483648"
    using sint_32_bounds[of hi] by (simp_all add: word_less_def)
  then have "- 9223372036854775808 \<le> uint lo + sint hi * 4294967296" "uint lo + sint hi * 4294967296 < 9223372036854775808"
    by linarith+
  then have "sint (of_int (uint lo + sint hi * 2 ^ 32) :: u64) = uint lo + sint hi * 2 ^ 32"
    by (intro sint_of_int_64) simp_all
  then show ?thesis using True by (simp only: seek_offset_sum[OF True] if_True add.commute)
next
  case False
  then have l: "bit lo 31" by (simp add: bit_31)
  have "seek_offset lo (Some hi) = scast lo"
    using l by (auto intro!: bit_eqI simp: bit_simps seek_offset_def)
  also have "\<dots> = of_int (sint lo)" by simp
  finally have "sint (seek_offset lo (Some hi)) = sint lo"
    using sint_32_bounds[of lo] by (simp only:) (rule sint_of_int_64; simp)
  then show ?thesis using False l by (simp add: sint_split)
qed

text \<open>
  \<^verbatim>\<open>SetFilePointer\<close> to a 64-bit position from the start of a file goes there and reports both
  halves of the position exactly when the low half is below 2^31; with a larger low half it
  fails with \<^verbatim>\<open>ERROR_INVALID_PARAMETER\<close> and leaves the position, whatever the high half is.
\<close>

theorem set_file_pointer_halves:
  assumes "fhost_calm h" and "open_at w hnd t (fd, k, f, ino)" and "is_reg_mode (i_mode ino)" and "hi < 0x80000000"
  shows "\<exists>w'. if lo < 0x80000000
    then run_state (SetFilePointer h hnd lo (Some hi) FILE_BEGIN t) w = ((lo, Some hi), w') \<and>
      open_at w' hnd t (fd, k, f\<lparr>of_pos := unat hi * 2 ^ 32 + unat lo\<rparr>, ino)
    else run_state (SetFilePointer h hnd lo (Some hi) FILE_BEGIN t) w = ((- 1, Some hi), w') \<and>
      last_error (w_shim w') t = ERROR_INVALID_PARAMETER \<and> fd_file w' fd = Some (k, f, ino)"
proof -
  have g: "get_fd hnd t (w_shim w) = (fd, w_shim w)" "0 \<le> fd" "fd_file w fd = Some (k, f, ino)"
    using assms(2) by (simp_all add: open_at_def)
  have c: "fd_file (w\<lparr>w_clock := c\<rparr>) fd = Some (k, f, ino)" "fd_file (w\<lparr>w_clock := c, w_shim := s\<rparr>) fd = Some (k, f, ino)" for c s
    using g(3) by (simp_all add: fd_file_def)
  have hi: "sint hi = int (unat hi)" using assms(4) by (simp add: sint_split bit_31)
  show ?thesis
  proof (cases "lo < 0x80000000")
    case True
    define p where "p = unat hi * 2 ^ 32 + unat lo"
    have o: "sint (seek_offset lo (Some hi)) = int p"
      using True by (simp add: seek_offset_value hi p_def)
    have b: "unat hi < 2147483648" "unat lo < 2147483648" using assms(4) True by (simp_all add: word_less_nat_alt)
    then have pb: "p < 2 ^ 63" by (simp add: p_def)
    have d: "p div 2 ^ 32 = unat hi" using b by (simp add: p_def)
    have "p mod 2 ^ 32 = unat lo" using b by (simp add: p_def)
    then have l: "(of_nat p :: u32) = lo"
      by (intro word_eq_unat) (simp add: unsigned_of_nat take_bit_eq_mod)
    have "run_state (SetFilePointer h hnd lo (Some hi) FILE_BEGIN t) w = ((lo, Some hi), set_pos k f p (w\<lparr>w_clock := Suc (w_clock w)\<rparr>))"
      using g(2) assms(3) pb d l
      by (simp add: SetFilePointer_def run_get_fd[OF g(1)] sys_lseek_def run_sys_calm[OF assms(1)] c Let_def o whence_of_def)
    then show ?thesis
      using True g fd_file_update(2)[OF g(3)] by (auto simp: open_at_def set_pos_def p_def)
  next
    case False
    have "uint lo < 2 ^ 32" using uint_lt2p[of lo] by simp
    then have "sint (seek_offset lo (Some hi)) < 0" using False by (simp add: seek_offset_value)
    then have "run_state (SetFilePointer h hnd lo (Some hi) FILE_BEGIN t) w =
        ((- 1, Some hi), w\<lparr>w_clock := Suc (w_clock w), w_shim := set_errno_error t EINVAL (w_shim w)\<rparr>)"
      using g(1,2) assms(3)
      by (simp add: SetFilePointer_def sys_lseek_def run_sys_calm[OF assms(1)] c Let_def whence_of_def fail_errno_def run_via)
    then show ?thesis using False c by (simp add: set_errno_error_def SET_LAST_ERROR_def)
  qed
qed

section \<open>A host\<close>

text \<open>A host without failures or other processes that counts up for fresh numbers.\<close>

definition fresh_nat :: "(nat \<rightharpoonup> 'a) \<Rightarrow> nat" where
  "fresh_nat m = (if dom m = {} then 0 else Suc (Max (dom m)))"

definition fresh_fd :: "(int \<rightharpoonup> 'a) \<Rightarrow> int" where
  "fresh_fd m = (if dom m = {} then 3 else max 3 (Max (dom m) + 1))"

definition calm_host :: fhost where
  "calm_host = \<lparr>fh_env = (\<lambda>_ x. x), fh_fail = (\<lambda>_. None), fh_count = (\<lambda>_. 2 ^ 32),
     fh_ino = (\<lambda>w. fresh_nat (w_inodes w)), fh_file = (\<lambda>w. fresh_nat (w_files w)), fh_fd = (\<lambda>w. fresh_fd (w_fds w)),
     fh_dev = (\<lambda>_. 0), fh_now = (\<lambda>_. (0, 0)), fh_ident = (\<lambda>_ _. (0, 1)), fh_noreplace = None,
     fh_temp = (\<lambda>w p. replicate 6 120)\<rparr>"

lemma fresh_nat_free: "finite (dom m) \<Longrightarrow> m (fresh_nat m) = None"
proof (rule ccontr)
  assume f: "finite (dom m)" and "m (fresh_nat m) \<noteq> None"
  then have d: "fresh_nat m \<in> dom m" by blast
  then show False using Max_ge[OF f d] by (auto simp: fresh_nat_def split: if_splits)
qed

lemma fresh_fd_free: "finite (dom m) \<Longrightarrow> m (fresh_fd m) = None \<and> 3 \<le> fresh_fd m"
proof (rule conjI, rule ccontr)
  assume f: "finite (dom m)" and "m (fresh_fd m) \<noteq> None"
  then have d: "fresh_fd m \<in> dom m" by blast
  then show False using Max_ge[OF f d] by (auto simp: fresh_fd_def split: if_splits)
qed (simp add: fresh_fd_def)

lemma calm_host_calm: "fhost_calm calm_host"
  by (auto simp: fhost_calm_def fhost_ok_def fhost_quiet_def calm_host_def fresh_nat_free fresh_fd_free)

text \<open>A process with a terminal on its standard descriptors and a file named \<^verbatim>\<open>a\<close>.\<close>

definition small_world :: world where
  "small_world = \<lparr>w_shim = handles_init, w_names = [[97] \<mapsto> 1],
     w_inodes = [0 \<mapsto> \<lparr>i_mode = 0x2180, i_data = [], i_mtime = (0, 0), i_atime = (0, 0)\<rparr>,
       1 \<mapsto> \<lparr>i_mode = 0x81A4, i_data = [1, 2, 3], i_mtime = (0, 0), i_atime = (0, 0)\<rparr>],
     w_files = [0 \<mapsto> \<lparr>of_ino = 0, of_pos = 0, of_read = True, of_write = True\<rparr>],
     w_fds = [0 \<mapsto> 0, 1 \<mapsto> 0, 2 \<mapsto> 0], w_clock = 0, w_log = []\<rparr>"

lemma small_world_ok: "world_ok small_world" "world_start small_world" "length (g_handles (w_shim small_world)) = MAX_HANDLES"
  by (auto simp: small_world_def world_ok_def world_start_def handles_init_def MAX_HANDLES_def split: if_splits)

lemma find_free_start: "find_free (w_shim small_world) = Some 3"
proof -
  have "replicate 4093 free_slot = free_slot # replicate 4092 free_slot"
    by (simp add: replicate_Suc [symmetric] del: replicate_Suc)
  then show ?thesis
    by (simp add: find_free_def small_world_def handles_init_def MAX_HANDLES_def free_slot_def)
qed

lemma pattern_a: "posix_pattern [97] = [97]"
  by (simp add: posix_pattern_def wchar_to_utf8_def win_path_to_posix_def to_slash_def is_high_def utf8_enc_def
      c_string_def PATH_MAX_def)

lemma plain_a: "plain_name small_world (posix_pattern [97])" "content_at small_world [97] = Some [1, 2, 3]"
  by (simp_all add: pattern_a plain_name_def content_at_def small_world_def)


text \<open>The state after opening \<^verbatim>\<open>a\<close> to read and write.\<close>

lemma open_a:
  obtains w hnd fd k f ino where "file_step calm_host small_world w" "open_at w hnd 1 (fd, k, f, ino)"
    "of_read f" "of_write f" "of_pos f = 0" "i_data ino = [1, 2, 3]" "is_reg_mode (i_mode ino)" "3 \<le> fd"
proof -
  define fl where "fl = make_open_flags (GENERIC_READ OR GENERIC_WRITE) OPEN_EXISTING"
  have fl: "fl = O_RDWR" by (simp add: fl_def make_open_flags_def)
  define w1 where "w1 = small_world\<lparr>w_clock := Suc (w_clock small_world)\<rparr>"
  define wo where "wo = opened calm_host [97] fl 0x1B6 w1"
  define w2 where "w2 = wo\<lparr>w_shim := set_slot 3 (file_slot (fh_fd calm_host w1)) (w_shim wo)\<rparr>"
  have sh: "w_shim wo = w_shim small_world"
    by (simp add: wo_def w1_def opened_def open_ino_def small_world_def fl)
  note ho = hand_out_calm[of wo 3, unfolded sh, OF small_world_ok(3) find_free_start]
  have n: "w_names small_world [97] = Some 1" by (simp add: small_world_def)
  have so: "run_state (sys_open calm_host [97] fl 0x1B6) small_world = (Inr (fh_fd calm_host w1), wo)"
    using sys_open_calm[OF calm_host_calm small_world_ok(1) plain_a(1), of fl "0x1B6"]
    by (simp add: pattern_a n fl flip: w1_def) (simp add: wo_def fl)
  have "run_state (CreateFileW calm_host [97] (GENERIC_READ OR GENERIC_WRITE) OPEN_EXISTING 1) small_world = (idx_to_handle 3, w2)"
    using so ho(1)[of calm_host 1 "fh_fd calm_host w1"] unfolding fl_def by (simp add: CreateFileW_def pattern_a w2_def sh)
  then have st: "file_step calm_host small_world w2" by (rule file_step.create_w)
  have w1: "world_ok w1" using small_world_ok(1) by (simp add: w1_def world_ok_def)
  have fd: "3 \<le> fh_fd calm_host w1" using fd_room_calm[OF calm_host_calm w1] by simp
  have "fst (get_fd (idx_to_handle 3) 1 (w_shim w2)) = fh_fd calm_host w1" using ho(2) by (simp add: w2_def sh)
  then have g: "get_fd (idx_to_handle 3) 1 (w_shim w2) = (fh_fd calm_host w1, w_shim w2)"
    using fd by (auto simp: get_fd_def Let_def split: if_splits)
  have "fd_file w2 (fh_fd calm_host w1) = Some (fh_file calm_host w1, \<lparr>of_ino = 1, of_pos = 0, of_read = True, of_write = True\<rparr>,
      \<lparr>i_mode = 0x81A4, i_data = [1, 2, 3], i_mtime = (0, 0), i_atime = (0, 0)\<rparr>)"
    by (simp add: fd_file_def w2_def wo_def opened_def open_ino_def w1_def small_world_def fl)
  then show thesis using that[OF st] g fd by (fastforce simp: open_at_def)
qed


theorem write_seek_read_witness:
  "\<exists>w hnd w'. file_step calm_host small_world w \<and> run_state (do {
       r1 \<leftarrow> WriteFile calm_host hnd [7, 8] 1;
       r2 \<leftarrow> SetFilePointerEx calm_host hnd 0 FILE_BEGIN 1;
       r3 \<leftarrow> ReadFile calm_host hnd 2 1;
       ret (r1, r2, r3) }) w = (((True, 2), (True, 0), (True, [7, 8], 2)), w')"
proof -
  obtain w hnd fd k f ino where w: "file_step calm_host small_world w"
    and o: "open_at w hnd 1 (fd, k, f, ino)" "of_read f" "of_write f" "of_pos f = 0" "i_data ino = [1, 2, 3]" "is_reg_mode (i_mode ino)"
    by (rule open_a) blast
  have "\<forall>n. length [7 :: u8, 8] \<le> fh_count calm_host n" by (simp add: calm_host_def)
  with write_seek_read[OF calm_host_calm o(1,2,3,6), of "[7, 8]"] show ?thesis using w o(4) by fastforce
qed

theorem set_file_pointer_halves_witness:
  "\<exists>w hnd w' w''. file_step calm_host small_world w \<and>
    run_state (SetFilePointer calm_host hnd 5 (Some 1) FILE_BEGIN 1) w = ((5, Some 1), w') \<and>
    run_state (SetFilePointer calm_host hnd 0x80000000 (Some 1) FILE_BEGIN 1) w = ((- 1, Some 1), w'')"
proof -
  obtain w hnd fd k f ino where w: "file_step calm_host small_world w"
    and o: "open_at w hnd 1 (fd, k, f, ino)" "is_reg_mode (i_mode ino)"
    by (rule open_a) blast
  show ?thesis
    using set_file_pointer_halves[OF calm_host_calm o, of 1 5] set_file_pointer_halves[OF calm_host_calm o, of 1 "0x80000000"] w
    by auto
qed

end
