(* ===== verification/Shim_Move.thy ===== *)
theory Shim_Move
  imports Shim_Files
begin

text \<open>
  Moving and linking files (shim_kernel32_tail.hpp): \<^verbatim>\<open>rename_noreplace\<close>, \<^verbatim>\<open>copy_beside\<close>, \<^verbatim>\<open>MoveFileExW\<close>,
  \<^verbatim>\<open>MoveFileW\<close> and \<^verbatim>\<open>CreateHardLink\<close>.  The copying loops retry interrupted calls and are given fuel, which
  counts their iterations; \<open>None\<close> means that it ran out.  \<open>mem\<close> says whether the buffer of the copy
  can be allocated.
\<close>

abbreviation MOVEFILE_REPLACE_EXISTING :: u32 where "MOVEFILE_REPLACE_EXISTING \<equiv> 1"
abbreviation MOVEFILE_COPY_ALLOWED :: u32 where "MOVEFILE_COPY_ALLOWED \<equiv> 2"

definition rename_noreplace :: "fhost \<Rightarrow> bytes \<Rightarrow> bytes \<Rightarrow> unit sys" where
  "rename_noreplace h from to = do {
     r \<leftarrow> sys_renameat2 h from to;
     (case r of
        Inr u \<Rightarrow> ret (Inr u)
      | Inl e \<Rightarrow>
          if e \<noteq> ENOSYS \<and> e \<noteq> EINVAL then ret (Inl e)
          else do {
            r \<leftarrow> sys_link h from to;
            (case r of
               Inr _ \<Rightarrow> sys_unlink h from
             | Inl e \<Rightarrow>
                 if e = EEXIST then ret (Inl EEXIST)
                 else do {
                   r \<leftarrow> sys_lstat h to;
                   (case r of Inr _ \<Rightarrow> ret (Inl EEXIST) | Inl _ \<Rightarrow> sys_rename h from to) }) }) }"

text \<open>The inner loop of \<^verbatim>\<open>copy_beside\<close>: write all of a buffer.\<close>

fun write_all :: "fhost \<Rightarrow> nat \<Rightarrow> int \<Rightarrow> bytes \<Rightarrow> (world, (errno + unit) option) state" where
  "write_all h 0 out bs = ret None"
| "write_all h (Suc n) out bs = (if bs = [] then ret (Some (Inr ()))
     else do {
       r \<leftarrow> sys_write h out bs;
       (case r of
          Inl e \<Rightarrow> if e \<noteq> EINTR then ret (Some (Inl e)) else write_all h n out bs
        | Inr k \<Rightarrow> write_all h n out (drop k bs)) })"

fun copy_loop :: "fhost \<Rightarrow> nat \<Rightarrow> int \<Rightarrow> int \<Rightarrow> (world, (errno + unit) option) state" where
  "copy_loop h 0 inp out = ret None"
| "copy_loop h (Suc n) inp out = do {
     r \<leftarrow> sys_read h inp 65536;
     (case r of
        Inl e \<Rightarrow> if e = EINTR then copy_loop h n inp out else ret (Some (Inl e))
      | Inr bs \<Rightarrow>
          if bs = [] then ret (Some (Inr ()))
          else do {
            x \<leftarrow> write_all h n out bs;
            (case x of
               None \<Rightarrow> ret None
             | Some (Inl e) \<Rightarrow> ret (Some (Inl e))
             | Some (Inr _) \<Rightarrow> copy_loop h n inp out) }) }"

definition temp_prefix :: "bytes \<Rightarrow> bytes" where
  "temp_prefix to = (case last_split ch_slash to of Some (d, _) \<Rightarrow> d @ [ch_slash] | None \<Rightarrow> []) @ str_bytes ''.pe2elf-''"

text \<open>The end of the copy: mode, both descriptors closed, and an unfinished copy removed.\<close>

definition copy_finish :: "fhost \<Rightarrow> u32 \<Rightarrow> int \<Rightarrow> int \<Rightarrow> bytes \<Rightarrow> errno + unit \<Rightarrow> (world, errno + bytes) state" where
  "copy_finish h mode inp out tmp r = do {
     r1 \<leftarrow> (case r of Inl e \<Rightarrow> ret (Inl e) | Inr _ \<Rightarrow> sys_fchmod h out (mode AND 0xFFF));
     sys_close h inp;
     c \<leftarrow> sys_close h out;
     (case (r1, c) of
        (Inr _, Inr _) \<Rightarrow> ret (Inr tmp)
      | (Inr _, Inl e) \<Rightarrow> do { sys_unlink h tmp; ret (Inl e) }
      | (Inl e, _) \<Rightarrow> do { sys_unlink h tmp; ret (Inl e) }) }"

definition copy_beside :: "fhost \<Rightarrow> nat \<Rightarrow> bool \<Rightarrow> bytes \<Rightarrow> bytes \<Rightarrow> (world, (errno + bytes) option) state" where
  "copy_beside h fuel mem from to =
    (if PATH_MAX \<le> length (temp_prefix to) + 6 then ret (Some (Inl ENAMETOOLONG))
     else do {
       r \<leftarrow> sys_open h from O_RDONLY 0;
       (case r of
          Inl e \<Rightarrow> ret (Some (Inl e))
        | Inr inp \<Rightarrow> do {
            st \<leftarrow> sys_fstat h inp;
            m \<leftarrow> (case st of Inl e \<Rightarrow> ret (Inl e) | Inr _ \<Rightarrow> sys_mkostemp h (temp_prefix to));
            (case (st, m) of
               (Inr s, Inr (tmp, out)) \<Rightarrow> do {
                 x \<leftarrow> (if mem then copy_loop h fuel inp out else ret (Some (Inl ENOMEM)));
                 (case x of
                    None \<Rightarrow> ret None
                  | Some y \<Rightarrow> do { z \<leftarrow> copy_finish h (st_mode s) inp out tmp y; ret (Some z) }) }
             | (Inl e, _) \<Rightarrow> do { sys_close h inp; ret (Some (Inl e)) }
             | (_, Inl e) \<Rightarrow> do { sys_close h inp; ret (Some (Inl e)) }) }) })"

definition move_once :: "fhost \<Rightarrow> bool \<Rightarrow> bytes \<Rightarrow> bytes \<Rightarrow> unit sys" where
  "move_once h replace from to = (if replace then sys_rename h from to else rename_noreplace h from to)"

text \<open>Across file systems: copy beside the target, give the copy the target's name, delete the source.\<close>

definition move_across :: "fhost \<Rightarrow> nat \<Rightarrow> bool \<Rightarrow> bool \<Rightarrow> bytes \<Rightarrow> bytes \<Rightarrow> (world, (errno + unit) option) state" where
  "move_across h fuel mem replace fp tp = do {
     there \<leftarrow> (if replace then ret (Inl ENOENT) else sys_lstat h tp);
     (case there of
        Inr _ \<Rightarrow> ret (Some (Inl EEXIST))
      | Inl _ \<Rightarrow> do {
          c \<leftarrow> copy_beside h fuel mem fp tp;
          (case c of
             None \<Rightarrow> ret None
           | Some (Inl e) \<Rightarrow> ret (Some (Inl e))
           | Some (Inr tmp) \<Rightarrow> do {
               r \<leftarrow> move_once h replace tmp tp;
               (case r of
                  Inl e \<Rightarrow> do { sys_unlink h tmp; ret (Some (Inl e)) }
                | Inr _ \<Rightarrow> do { u \<leftarrow> sys_unlink h fp; ret (Some u) }) }) }) }"

definition MoveFileExW ::
    "fhost \<Rightarrow> nat \<Rightarrow> bool \<Rightarrow> u16 list option \<Rightarrow> u16 list option \<Rightarrow> u32 \<Rightarrow> nat \<Rightarrow> (world, bool option) state" where
  "MoveFileExW h fuel mem from to flags t = (case (from, to) of
     (Some f, Some g) \<Rightarrow> do {
       let fp = posix_pattern f;
       let tp = posix_pattern g;
       let replace = (flags AND MOVEFILE_REPLACE_EXISTING \<noteq> 0);
       r \<leftarrow> move_once h replace fp tp;
       r' \<leftarrow> (if r = Inl EXDEV \<and> flags AND MOVEFILE_COPY_ALLOWED \<noteq> 0 then move_across h fuel mem replace fp tp else ret (Some r));
       (case r' of
          None \<Rightarrow> ret None
        | Some (Inr _) \<Rightarrow> ret (Some True)
        | Some (Inl e) \<Rightarrow>
            if e = EEXIST then do { set_error t ERROR_ALREADY_EXISTS; ret (Some False) }
            else fail_errno t e (Some False)) }
   | _ \<Rightarrow> do { set_error t ERROR_CALL_NOT_IMPLEMENTED; ret (Some False) })"

definition MoveFileW :: "fhost \<Rightarrow> u16 list \<Rightarrow> u16 list \<Rightarrow> nat \<Rightarrow> (world, bool) state" where
  "MoveFileW h from to t = bool_of t (sys_rename h (posix_pattern from) (posix_pattern to))"

definition CreateHardLinkW :: "fhost \<Rightarrow> u16 list \<Rightarrow> u16 list \<Rightarrow> nat \<Rightarrow> (world, bool) state" where
  "CreateHardLinkW h lnk tgt t = bool_of t (sys_link h (posix_pattern tgt) (posix_pattern lnk))"

definition wide_arg :: "bytes \<Rightarrow> u16 list" where
  "wide_arg s = (case utf8_to_wchar (Some s) PATH_MAX of Some w \<Rightarrow> w | None \<Rightarrow> [])"

definition CreateHardLinkA :: "fhost \<Rightarrow> bytes \<Rightarrow> bytes \<Rightarrow> nat \<Rightarrow> (world, bool) state" where
  "CreateHardLinkA h lnk tgt t = CreateHardLinkW h (wide_arg lnk) (wide_arg tgt) t"

section \<open>The target is never replaced\<close>

definition keeps_log :: "(world, 'a) state \<Rightarrow> bool" where
  "keeps_log m \<longleftrightarrow> (\<forall>w. w_log (snd (run_state m w)) = w_log w)"

named_theorems keeps_log_intro \<open>steps that replace no file\<close>

lemma keeps_log_bind [keeps_log_intro]:
  "keeps_log m \<Longrightarrow> (\<And>a. keeps_log (f a)) \<Longrightarrow> keeps_log (State_Monad.bind m f)"
  unfolding keeps_log_def by (auto split: prod.splits) (metis prod.sel(2))

lemma keeps_log_ret [keeps_log_intro]: "keeps_log (ret x)"
  by (simp add: keeps_log_def)

lemma keeps_log_error [keeps_log_intro]: "keeps_log (set_error t e)" "keeps_log (fail_errno t er r)"
  by (simp_all add: keeps_log_def set_error_def fail_errno_def run_via)

lemma keeps_log_cases [keeps_log_intro]:
  "(P \<Longrightarrow> keeps_log a) \<Longrightarrow> (\<not> P \<Longrightarrow> keeps_log b) \<Longrightarrow> keeps_log (if P then a else b)"
  "(\<And>e. r = Inl e \<Longrightarrow> keeps_log (f e)) \<Longrightarrow> (\<And>v. keeps_log (g v)) \<Longrightarrow> keeps_log (case r of Inl e \<Rightarrow> f e | Inr v \<Rightarrow> g v)"
  "keeps_log c \<Longrightarrow> (\<And>v. keeps_log (d v)) \<Longrightarrow> keeps_log (case q of None \<Rightarrow> c | Some v \<Rightarrow> d v)"
  "(\<And>a b. keeps_log (k a b)) \<Longrightarrow> keeps_log (case pr of (a, b) \<Rightarrow> k a b)"
  by (auto split: sum.splits option.splits prod.splits)

lemma keeps_log_sys:
  assumes "\<And>w r w'. f w = (r, w') \<Longrightarrow> w_log w' = w_log w"
  shows "keeps_log (sys h f)"
  unfolding keeps_log_def run_sys
proof
  fix w
  show "w_log (snd (case fh_fail h (w_clock w) of None \<Rightarrow> f (fh_tick h w) | Some e \<Rightarrow> (Inl e, fh_tick h w))) = w_log w"
    using assms[of "fh_tick h w" "fst (f (fh_tick h w))" "snd (f (fh_tick h w))"] by (simp split: option.splits)
qed

lemma keeps_log_calls [keeps_log_intro]:
  "keeps_log (sys_read h fd n)" "keeps_log (sys_write h fd bs)" "keeps_log (sys_fstat h fd)" "keeps_log (sys_fchmod h fd m)"
  "keeps_log (sys_unlink h path)" "keeps_log (sys_lstat h path)" "keeps_log (sys_link h from to)"
  "keeps_log (sys_renameat2 h from to)" "keeps_log (sys_open h path fl perm)" "keeps_log (sys_mkostemp h pre)"
  unfolding sys_read_def sys_write_def sys_fstat_def sys_fchmod_def sys_unlink_def sys_lstat_def sys_link_def
    sys_renameat2_def sys_open_def sys_mkostemp_def
  by (rule keeps_log_sys; auto simp: set_pos_def set_ino_def Let_def move_name_def create_open_def open_ino_def new_inode_def
      split: option.splits if_splits)+

lemma keeps_log_close [keeps_log_intro]: "keeps_log (sys_close h fd)"
  by (simp add: keeps_log_def sys_close_def drop_fd_def split: option.splits)

lemma keeps_log_write_all [keeps_log_intro]: "keeps_log (write_all h n out bs)"
  by (induction h n out bs rule: write_all.induct) (auto intro!: keeps_log_intro)

lemma keeps_log_copy_loop [keeps_log_intro]: "keeps_log (copy_loop h n inp out)"
  by (induction h n inp out rule: copy_loop.induct) (auto intro!: keeps_log_intro)

lemma keeps_log_copy_beside [keeps_log_intro]: "keeps_log (copy_beside h fuel mem from to)"
  unfolding copy_beside_def copy_finish_def by (intro keeps_log_intro)

text \<open>A kernel and file system with \<^verbatim>\<open>RENAME_NOREPLACE\<close>.\<close>

definition has_noreplace :: "fhost \<Rightarrow> bool" where
  "has_noreplace h \<longleftrightarrow> fh_noreplace h = None \<and> (\<forall>n. fh_fail h n \<noteq> Some ENOSYS \<and> fh_fail h n \<noteq> Some EINVAL)"

lemma renameat2_errors:
  "has_noreplace h \<Longrightarrow> run_state (sys_renameat2 h from to) w = (Inl e, w') \<Longrightarrow> e \<noteq> ENOSYS \<and> e \<noteq> EINVAL"
  by (auto simp: sys_renameat2_def run_sys has_noreplace_def split: option.splits if_splits)

lemma rename_noreplace_direct:
  "has_noreplace h \<Longrightarrow> rename_noreplace h from to = sys_renameat2 h from to"
  by (rule state_ext) (auto simp: rename_noreplace_def dest: renameat2_errors split: prod.splits sum.splits)

lemma keeps_log_move_across:
  assumes "has_noreplace h"
  shows "keeps_log (move_across h fuel mem False fp tp)"
  unfolding move_across_def move_once_def rename_noreplace_direct[OF assms] if_False
  by (intro keeps_log_intro)


section \<open>Copying\<close>

text \<open>
  In the middle of a copy of the file \<open>d\<close> (inode \<open>i\<close>) into inode \<open>j\<close>: \<open>n\<close> bytes have been read and
  \<open>m\<close> of them written; apart from the copy nothing has changed since \<open>w0\<close>.
\<close>

definition copying :: "world \<Rightarrow> int \<Rightarrow> int \<Rightarrow> nat \<Rightarrow> nat \<Rightarrow> bytes \<Rightarrow> nat \<Rightarrow> nat \<Rightarrow> world \<Rightarrow> bool" where
  "copying w0 inp out i j d n m w \<longleftrightarrow> i \<noteq> j \<and> m \<le> n \<and> n \<le> length d \<and>
    w_names w = w_names w0 \<and> w_fds w = w_fds w0 \<and> w_shim w = w_shim w0 \<and> (\<forall>x. x \<noteq> j \<longrightarrow> w_inodes w x = w_inodes w0 x) \<and>
    (\<exists>k1 f1 i1 k2 f2 i2. fd_file w inp = Some (k1, f1, i1) \<and> fd_file w out = Some (k2, f2, i2) \<and> k1 \<noteq> k2 \<and>
       of_ino f1 = i \<and> of_ino f2 = j \<and> of_read f1 \<and> of_write f2 \<and> \<not> is_dir_mode (i_mode i1) \<and>
       i_data i1 = d \<and> of_pos f1 = n \<and> i_data i2 = take m d \<and> of_pos f2 = m \<and> is_reg_mode (i_mode i2))"

definition fhost_moves :: "fhost \<Rightarrow> bool" where
  "fhost_moves h \<longleftrightarrow> fhost_calm h \<and> (\<forall>n. 1 \<le> fh_count h n)"

lemma fd_file_clock [simp]: "fd_file (w\<lparr>w_clock := c\<rparr>) fd = fd_file w fd"
  by (simp add: fd_file_def)

lemma fd_file_other:
  assumes "fd_file w a = Some (k1, f1, i1)" and "fd_file w b = Some (k2, f2, i2)" and "k1 \<noteq> k2" and "of_ino f1 \<noteq> of_ino f2"
  shows "fd_file (set_pos k1 f1 p w) b = Some (k2, f2, i2)"
    and "fd_file (set_pos k2 f2 p (set_ino (of_ino f2) x w)) a = Some (k1, f1, i1)"
  using assms by (auto simp: fd_file_def set_pos_def set_ino_def bind_eq_Some_conv)

lemma copying_read:
  assumes h: "fhost_moves h" and c: "copying w0 inp out i j d n n w"
  obtains bs w' where "run_state (sys_read h inp 65536) w = (Inr bs, w')"
    "bs = take (length bs) (drop n d)" "bs = [] \<longleftrightarrow> n = length d" "n + length bs \<le> length d"
    "copying w0 inp out i j d (n + length bs) n w'"
proof -
  obtain k1 f1 i1 k2 f2 i2 where f: "fd_file w inp = Some (k1, f1, i1)" "fd_file w out = Some (k2, f2, i2)" "k1 \<noteq> k2"
    "of_ino f1 = i" "of_ino f2 = j" "of_read f1" "of_write f2" "\<not> is_dir_mode (i_mode i1)"
    "i_data i1 = d" "of_pos f1 = n" "i_data i2 = take n d" "of_pos f2 = n" "is_reg_mode (i_mode i2)" "i \<noteq> j" "n \<le> length d"
    using c unfolding copying_def by blast
  have calm: "fhost_calm h" "1 \<le> fh_count h x" for x using h by (simp_all add: fhost_moves_def)
  define w1 where "w1 = w\<lparr>w_clock := Suc (w_clock w)\<rparr>"
  define bs where "bs = take (min 65536 (fh_count h (Suc (w_clock w)))) (drop n d)"
  have r: "run_state (sys_read h inp 65536) w = (Inr bs, set_pos k1 f1 (n + length bs) w1)"
    using f by (simp add: sys_read_def run_sys_calm[OF calm(1)] Let_def bs_def w1_def)
  have b: "bs = take (length bs) (drop n d)" "n + length bs \<le> length d"
    using f(15) by (auto simp: bs_def min_def)
  have e: "bs = [] \<longleftrightarrow> n = length d" using calm(2)[of "Suc (w_clock w)"] f(15) by (auto simp: bs_def)
  have "fd_file (set_pos k1 f1 (n + length bs) w1) inp = Some (k1, f1\<lparr>of_pos := n + length bs\<rparr>, i1)"
    using fd_file_update(2)[OF f(1)] by (simp add: w1_def)
  moreover have "fd_file (set_pos k1 f1 (n + length bs) w1) out = Some (k2, f2, i2)"
    using fd_file_other(1)[of w1] f by (simp add: w1_def)
  ultimately have "copying w0 inp out i j d (n + length bs) n (set_pos k1 f1 (n + length bs) w1)"
    using c f b unfolding copying_def by (auto simp: w1_def set_pos_def)
  then show thesis using that r b e by blast
qed

lemma copying_write:
  assumes h: "fhost_moves h" and c: "copying w0 inp out i j d n m w" and m: "m < n"
  obtains k w' where "run_state (sys_write h out (take (n - m) (drop m d))) w = (Inr k, w')" "1 \<le> k" "k \<le> n - m"
    "copying w0 inp out i j d n (m + k) w'"
proof -
  obtain k1 f1 i1 k2 f2 i2 where f: "fd_file w inp = Some (k1, f1, i1)" "fd_file w out = Some (k2, f2, i2)" "k1 \<noteq> k2"
    "of_ino f1 = i" "of_ino f2 = j" "of_read f1" "of_write f2" "\<not> is_dir_mode (i_mode i1)"
    "i_data i1 = d" "of_pos f1 = n" "i_data i2 = take m d" "of_pos f2 = m" "is_reg_mode (i_mode i2)" "i \<noteq> j" "n \<le> length d"
    using c unfolding copying_def by blast
  have calm: "fhost_calm h" "1 \<le> fh_count h x" for x using h by (simp_all add: fhost_moves_def)
  define w1 where "w1 = w\<lparr>w_clock := Suc (w_clock w)\<rparr>"
  define ws where "ws = take (fh_count h (Suc (w_clock w))) (take (n - m) (drop m d))"
  define i2' where "i2' = i2\<lparr>i_data := overwrite m ws (take m d), i_mtime := fh_now h (Suc (w_clock w))\<rparr>"
  have k: "1 \<le> length ws" "length ws \<le> n - m" using m f(15) calm(2)[of "Suc (w_clock w)"] by (auto simp: ws_def)
  have "overwrite m ws (take m d) = take (m + length ws) d"
    using f(15) m k by (simp add: overwrite_def ws_def take_add min_def)
  then have i2': "i_data i2' = take (m + length ws) d" "i_mode i2' = i_mode i2" by (simp_all add: i2'_def)
  define w2 where "w2 = set_pos k2 f2 (m + length ws) (set_ino (of_ino f2) i2' w1)"
  have r: "run_state (sys_write h out (take (n - m) (drop m d))) w = (Inr (length ws), w2)"
    using f by (simp add: sys_write_def run_sys_calm[OF calm(1)] Let_def ws_def w1_def w2_def i2'_def)
  have "fd_file w2 out = Some (k2, f2\<lparr>of_pos := m + length ws\<rparr>, i2')"
    using fd_file_update(1)[OF f(2)] by (simp add: w1_def w2_def)
  moreover have "fd_file w2 inp = Some (k1, f1, i1)"
    using fd_file_other(2)[of w1 inp k1 f1 i1 out k2 f2 i2] f by (simp add: w1_def w2_def)
  ultimately have "copying w0 inp out i j d n (m + length ws) w2"
    using c f k m i2' unfolding copying_def by (auto simp: w1_def w2_def set_pos_def set_ino_def)
  then show thesis using that r k by blast
qed

lemma write_all_copies:
  assumes h: "fhost_moves h"
  shows "copying w0 inp out i j d n m w \<Longrightarrow> n - m < fuel \<Longrightarrow>
    \<exists>w'. run_state (write_all h fuel out (take (n - m) (drop m d))) w = (Some (Inr ()), w') \<and> copying w0 inp out i j d n n w'"
proof (induction fuel arbitrary: m w)
  case (Suc fuel)
  have n: "m \<le> n" "n \<le> length d" using Suc.prems(1) by (auto simp: copying_def)
  show ?case
  proof (cases "m = n")
    case True
    then show ?thesis using Suc.prems by simp
  next
    case False
    then have m: "m < n" using n by simp
    obtain k w1 where k: "run_state (sys_write h out (take (n - m) (drop m d))) w = (Inr k, w1)" "1 \<le> k" "k \<le> n - m"
      "copying w0 inp out i j d n (m + k) w1" by (rule copying_write[OF h Suc.prems(1) m])
    have "drop k (take (n - m) (drop m d)) = take (n - (m + k)) (drop (m + k) d)"
      by (simp add: drop_take add.commute)
    moreover have "take (n - m) (drop m d) \<noteq> []" using m n by simp
    ultimately show ?thesis
      using Suc.IH[OF k(4)] Suc.prems(2) k by (simp add: drop_take)
  qed
qed simp

lemma copy_loop_copies:
  assumes h: "fhost_moves h"
  shows "copying w0 inp out i j d n n w \<Longrightarrow> length d - n + 2 \<le> fuel \<Longrightarrow>
    \<exists>w'. run_state (copy_loop h fuel inp out) w = (Some (Inr ()), w') \<and> copying w0 inp out i j d (length d) (length d) w'"
proof (induction fuel arbitrary: n w)
  case (Suc fuel)
  obtain bs w1 where r: "run_state (sys_read h inp 65536) w = (Inr bs, w1)"
    "bs = take (length bs) (drop n d)" "bs = [] \<longleftrightarrow> n = length d" "n + length bs \<le> length d"
    "copying w0 inp out i j d (n + length bs) n w1" by (rule copying_read[OF h Suc.prems(1)])
  show ?case
  proof (cases "bs = []")
    case True
    then show ?thesis using r by auto
  next
    case False
    have "(n + length bs) - n < fuel" using Suc.prems(2) r(4) by simp
    then obtain w2 where w2: "run_state (write_all h fuel out (take (length bs) (drop n d))) w1 = (Some (Inr ()), w2)"
      "copying w0 inp out i j d (n + length bs) (n + length bs) w2"
      using write_all_copies[OF h r(5)] by auto
    have "0 < length bs" using False by simp
    then have "length d - (n + length bs) + 2 \<le> fuel" using Suc.prems(2) r(4) by linarith
    then show ?thesis using Suc.IH[OF w2(2)] w2(1) r(1,2) False by auto
  qed
qed simp

text \<open>The temporary name beside \<open>to\<close> fits, is free, and lies on the same file system as \<open>to\<close>.\<close>

definition temp_name :: "fhost \<Rightarrow> world \<Rightarrow> bytes \<Rightarrow> bytes" where
  "temp_name h v to = temp_prefix to @ fh_temp h v (temp_prefix to)"

definition temp_free :: "fhost \<Rightarrow> world \<Rightarrow> bytes \<Rightarrow> bool" where
  "temp_free h w to \<longleftrightarrow> length (temp_prefix to) + 6 < PATH_MAX \<and>
    (\<forall>v. w_names v = w_names w \<longrightarrow>
       w_names w (temp_name h v to) = None \<and> temp_name h v to \<noteq> to \<and> fh_dev h (temp_name h v to) = fh_dev h to)"

lemma sys_mkostemp_calm:
  assumes h: "fhost_calm h" and w: "world_ok w" and t: "temp_free h w to"
  defines "w1 \<equiv> w\<lparr>w_clock := Suc (w_clock w)\<rparr>"
  shows "run_state (sys_mkostemp h (temp_prefix to)) w = (Inr (temp_name h w1 to, fh_fd h w1),
    open_ino (fh_fd h w1) (fh_file h w1) (fh_ino h w1) O_RDWR (new_inode h (temp_name h w1 to) (fh_ino h w1) 0x180 w1))"
proof -
  have "world_ok w1" using w by (simp add: w1_def world_ok_def)
  note room = fd_room_calm[OF h this]
  have "w_names w1 (temp_name h w1 to) = None" using t by (simp add: temp_free_def w1_def)
  then show ?thesis
    using room by (simp add: sys_mkostemp_def run_sys_calm[OF h] Let_def temp_name_def create_open_def flip: w1_def)
qed

lemma fd_file_open_ino:
  "fd_file (open_ino fd k i fl w) fd =
    map_option (\<lambda>ino. (k, \<lparr>of_ino = i, of_pos = 0, of_read = (fl AND 3 \<noteq> O_WRONLY), of_write = (fl AND 3 \<noteq> O_RDONLY)\<rparr>, ino)) (w_inodes w i)"
  "fd \<noteq> fd' \<Longrightarrow> w_fds w fd' \<noteq> Some k \<Longrightarrow> fd_file (open_ino fd k i fl w) fd' = fd_file w fd'"
  by (auto simp: fd_file_def open_ino_def split: option.splits bind_splits)

text \<open>From opening both files to the start of the loop.\<close>

lemma copy_start:
  assumes h: "fhost_moves h" and w: "world_ok w" and t: "temp_free h w to"
    and p: "w_names w from = Some i" "w_inodes w i = Some ino" "is_reg_mode (i_mode ino)"
  obtains inp w1 st w2 out tmp w3 j where
    "run_state (sys_open h from O_RDONLY 0) w = (Inr inp, w1)"
    "run_state (sys_fstat h inp) w1 = (Inr st, w2)" "st_mode st = i_mode ino"
    "run_state (sys_mkostemp h (temp_prefix to)) w2 = (Inr (tmp, out), w3)"
    "w_inodes w j = None" "w_names w tmp = None" "tmp \<noteq> to" "fh_dev h tmp = fh_dev h to"
    "w_names w3 = (w_names w)(tmp \<mapsto> j)" "\<forall>x. x \<noteq> j \<longrightarrow> w_inodes w3 x = w_inodes w x"
    "w_fds w inp = None" "w_fds w out = None" "inp \<noteq> out" "\<exists>k k'. w_fds w3 = (w_fds w)(inp \<mapsto> k, out \<mapsto> k')" "w_shim w3 = w_shim w"
    "copying w3 inp out i j (i_data ino) 0 0 w3"
proof -
  have calm: "fhost_calm h" using h by (simp add: fhost_moves_def)
  have pl: "plain_name w from" using p by (simp add: plain_name_def)
  define v1 where "v1 = w\<lparr>w_clock := Suc (w_clock w)\<rparr>"
  define w1 where "w1 = open_ino (fh_fd h v1) (fh_file h v1) i O_RDONLY v1"
  define w2 where "w2 = w1\<lparr>w_clock := Suc (w_clock w1)\<rparr>"
  define v3 where "v3 = w2\<lparr>w_clock := Suc (w_clock w2)\<rparr>"
  have "world_ok v1" using w by (simp add: v1_def world_ok_def)
  note room1 = fd_room_calm[OF calm this]
  have r1: "run_state (sys_open h from O_RDONLY 0) w = (Inr (fh_fd h v1), w1)"
    using sys_open_calm[OF calm w pl, of O_RDONLY 0] p by (simp add: opened_def w1_def v1_def)
  have f1: "fd_file w1 (fh_fd h v1) = Some (fh_file h v1, \<lparr>of_ino = i, of_pos = 0, of_read = True, of_write = False\<rparr>, ino)"
    using p by (simp add: w1_def fd_file_open_ino) (simp add: v1_def)
  have r2: "run_state (sys_fstat h (fh_fd h v1)) w1 = (Inr (inode_stat h w2 i ino), w2)"
    using f1 by (simp add: sys_fstat_def run_sys_calm[OF calm] w2_def)
  have w2: "world_ok w2" "world_ok v3"
    using w by (auto simp: w2_def w1_def v1_def v3_def open_ino_def world_ok_def)
  have t2: "temp_free h w2 to" using t by (simp add: temp_free_def w2_def w1_def v1_def open_ino_def)
  note room3 = fd_room_calm[OF calm w2(2)]
  define j out tmp k where "j = fh_ino h v3" and "out = fh_fd h v3" and "tmp = temp_name h v3 to" and "k = fh_file h v3"
  define w3 where "w3 = open_ino out k j O_RDWR (new_inode h tmp j 0x180 v3)"
  have r3: "run_state (sys_mkostemp h (temp_prefix to)) w2 = (Inr (tmp, out), w3)"
    using sys_mkostemp_calm[OF calm w2(1) t2] by (simp add: w3_def j_def out_def tmp_def k_def v3_def)
  have base: "w_names v3 = w_names w" "w_inodes v3 = w_inodes w" "w_fds v3 = (w_fds w)(fh_fd h v1 \<mapsto> fh_file h v1)"
    "w_files v3 (fh_file h v1) \<noteq> None" "w_shim v3 = w_shim w"
    by (simp_all add: v3_def w2_def w1_def v1_def open_ino_def)
  have k: "k \<noteq> fh_file h v1" using room3 base(4) by (auto simp: fd_room_def k_def split: if_splits)
  have ino3: "w_inodes w j = None" "w_fds w out = None" "out \<noteq> fh_fd h v1"
    using room3 base by (auto simp: j_def out_def split: if_splits)
  have ij: "i \<noteq> j" using p ino3(1) by auto
  have tmp: "w_names w tmp = None" "tmp \<noteq> to" "fh_dev h tmp = fh_dev h to"
    using t base(1) by (auto simp: temp_free_def tmp_def)
  have g1: "fd_file w3 (fh_fd h v1) = Some (fh_file h v1, \<lparr>of_ino = i, of_pos = 0, of_read = True, of_write = False\<rparr>, ino)"
  proof -
    have "fd_file v3 (fh_fd h v1) = Some (fh_file h v1, \<lparr>of_ino = i, of_pos = 0, of_read = True, of_write = False\<rparr>, ino)"
      using f1 by (simp add: v3_def w2_def)
    then have "fd_file (new_inode h tmp j 0x180 v3) (fh_fd h v1) = Some (fh_file h v1, \<lparr>of_ino = i, of_pos = 0, of_read = True, of_write = False\<rparr>, ino)"
      using ij by (auto simp: fd_file_def new_inode_def bind_eq_Some_conv)
    moreover have "w_fds (new_inode h tmp j 0x180 v3) (fh_fd h v1) \<noteq> Some k" using k base(3) by (simp add: new_inode_def)
    ultimately show ?thesis using ino3(3) by (simp add: w3_def fd_file_open_ino(2))
  qed
  have g2: "\<exists>i2. fd_file w3 out = Some (k, \<lparr>of_ino = j, of_pos = 0, of_read = True, of_write = True\<rparr>, i2) \<and> i_data i2 = [] \<and> is_reg_mode (i_mode i2)"
    by (simp add: w3_def fd_file_open_ino(1) new_inode_def)
  have "copying w3 (fh_fd h v1) out i j (i_data ino) 0 0 w3"
    using ij g1 g2 k p(3) reg_not_dir[OF p(3)] unfolding copying_def by auto
  moreover have "w_names w3 = (w_names w)(tmp \<mapsto> j)" "\<forall>x. x \<noteq> j \<longrightarrow> w_inodes w3 x = w_inodes w x" "w_shim w3 = w_shim w"
    "\<exists>k k'. w_fds w3 = (w_fds w)(fh_fd h v1 \<mapsto> k, out \<mapsto> k')"
    using base by (auto simp: w3_def open_ino_def new_inode_def)
  moreover have "w_fds w (fh_fd h v1) = None" using room1 by (simp add: v1_def)
  ultimately show thesis using that[OF r1 r2 _ r3] ino3 tmp by (simp add: inode_stat_def)
qed

text \<open>After a copy: \<open>tmp\<close> names a new file with the content, and nothing else has changed.\<close>

definition copied :: "world \<Rightarrow> bytes \<Rightarrow> nat \<Rightarrow> bytes \<Rightarrow> world \<Rightarrow> bool" where
  "copied w tmp j d w' \<longleftrightarrow> w_inodes w j = None \<and> w_names w tmp = None \<and>
    w_names w' = (w_names w)(tmp \<mapsto> j) \<and> (\<forall>x. x \<noteq> j \<longrightarrow> w_inodes w' x = w_inodes w x) \<and>
    (\<exists>ino. w_inodes w' j = Some ino \<and> i_data ino = d \<and> is_reg_mode (i_mode ino)) \<and> w_fds w' = w_fds w \<and> w_shim w' = w_shim w"

lemma chmod_ino_keeps: "i_data (chmod_ino m ino) = i_data ino" "is_reg_mode (i_mode (chmod_ino m ino)) \<longleftrightarrow> is_reg_mode (i_mode ino)"
proof -
  have "(i_mode ino AND 0xF000 OR m AND 0xFFF) AND 0xF000 = i_mode ino AND (0xF000 :: u32)"
    by (simp add: bit.conj_disj_distrib2 and.assoc)
  then show "i_data (chmod_ino m ino) = i_data ino" "is_reg_mode (i_mode (chmod_ino m ino)) \<longleftrightarrow> is_reg_mode (i_mode ino)"
    by (simp_all add: chmod_ino_def)
qed

lemma sys_close_calm:
  "fhost_calm h \<Longrightarrow> w_fds w fd \<noteq> None \<Longrightarrow> run_state (sys_close h fd) w = (Inr (), drop_fd fd (w\<lparr>w_clock := Suc (w_clock w)\<rparr>))"
  by (auto simp: sys_close_def fhost_calm_def fh_tick_quiet)

lemma copy_beside_copies:
  assumes h: "fhost_moves h" and w: "world_ok w" and t: "temp_free h w to"
    and p: "w_names w from = Some i" "w_inodes w i = Some ino" "is_reg_mode (i_mode ino)"
    and fuel: "length (i_data ino) + 2 \<le> fuel"
  obtains tmp j w' where "run_state (copy_beside h fuel True from to) w = (Some (Inr tmp), w')"
    "copied w tmp j (i_data ino) w'" "tmp \<noteq> to" "fh_dev h tmp = fh_dev h to"
proof -
  have calm: "fhost_calm h" using h by (simp add: fhost_moves_def)
  obtain inp w1 st w2 out tmp w3 j where s:
    "run_state (sys_open h from O_RDONLY 0) w = (Inr inp, w1)"
    "run_state (sys_fstat h inp) w1 = (Inr st, w2)"
    "run_state (sys_mkostemp h (temp_prefix to)) w2 = (Inr (tmp, out), w3)"
    and n: "w_inodes w j = None" "w_names w tmp = None" "tmp \<noteq> to" "fh_dev h tmp = fh_dev h to"
    "w_names w3 = (w_names w)(tmp \<mapsto> j)" "\<forall>x. x \<noteq> j \<longrightarrow> w_inodes w3 x = w_inodes w x"
    and fds: "w_fds w inp = None" "w_fds w out = None" "inp \<noteq> out" "\<exists>k k'. w_fds w3 = (w_fds w)(inp \<mapsto> k, out \<mapsto> k')"
    "w_shim w3 = w_shim w"
    and c: "copying w3 inp out i j (i_data ino) 0 0 w3"
    by (rule copy_start[OF h w t p])
  obtain w4 where w4: "run_state (copy_loop h fuel inp out) w3 = (Some (Inr ()), w4)"
    "copying w3 inp out i j (i_data ino) (length (i_data ino)) (length (i_data ino)) w4"
    using copy_loop_copies[OF h c] fuel by auto
  obtain k2 f2 i2 where f2: "fd_file w4 out = Some (k2, f2, i2)" "of_ino f2 = j" "i_data i2 = i_data ino" "is_reg_mode (i_mode i2)"
    using w4(2) unfolding copying_def by auto
  have base: "w_names w4 = w_names w3" "w_fds w4 = w_fds w3" "w_shim w4 = w_shim w3" "\<forall>x. x \<noteq> j \<longrightarrow> w_inodes w4 x = w_inodes w3 x"
    using w4(2) unfolding copying_def by simp_all
  define w5 where "w5 = set_ino j (chmod_ino (st_mode st AND 0xFFF) i2) (w4\<lparr>w_clock := Suc (w_clock w4)\<rparr>)"
  have r5: "run_state (sys_fchmod h out (st_mode st AND 0xFFF)) w4 = (Inr (), w5)"
    using f2 by (simp add: sys_fchmod_def run_sys_calm[OF calm] w5_def)
  define w6 where "w6 = drop_fd inp (w5\<lparr>w_clock := Suc (w_clock w5)\<rparr>)"
  define w7 where "w7 = drop_fd out (w6\<lparr>w_clock := Suc (w_clock w6)\<rparr>)"
  have "w_fds w5 inp \<noteq> None" using fds base by (auto simp: w5_def set_ino_def)
  then have r6: "run_state (sys_close h inp) w5 = (Inr (), w6)" by (simp add: sys_close_calm[OF calm] w6_def)
  have "w_fds w6 out \<noteq> None" using fds base by (auto simp: w6_def w5_def set_ino_def drop_fd_def)
  then have r7: "run_state (sys_close h out) w6 = (Inr (), w7)" by (simp add: sys_close_calm[OF calm] w7_def)
  have "run_state (copy_finish h (st_mode st) inp out tmp (Inr ())) w4 = (Inr tmp, w7)"
    by (simp add: copy_finish_def r5 r6 r7)
  then have run: "run_state (copy_beside h fuel True from to) w = (Some (Inr tmp), w7)"
    using s w4(1) t by (auto simp: copy_beside_def temp_free_def)
  have "w_fds w7 = w_fds w"
    using fds base by (auto simp: w7_def w6_def w5_def drop_fd_def set_ino_def fun_upd_twist fun_upd_idem)
  then have "copied w tmp j (i_data ino) w7"
    using n base f2 fds(5) by (auto simp: copied_def w7_def w6_def w5_def drop_fd_def set_ino_def chmod_ino_keeps)
  then show thesis using that run n by blast
qed

section \<open>The move\<close>

text \<open>Taking a free name within a file system, with and without \<^verbatim>\<open>renameat2\<close>.\<close>

definition moved :: "bytes \<Rightarrow> bytes \<Rightarrow> nat \<Rightarrow> world \<Rightarrow> world \<Rightarrow> bool" where
  "moved from to i w w' \<longleftrightarrow> w_names w' = (w_names w)(from := None, to \<mapsto> i) \<and> w_inodes w' = w_inodes w \<and> w_fds w' = w_fds w \<and>
     w_shim w' = w_shim w"

lemma move_once_calm:
  assumes h: "fhost_calm h" "fh_noreplace h \<in> {None, Some ENOSYS, Some EINVAL}"
    and n: "w_names w from = Some i" "w_names w to = None" "\<not> is_dir_at w i" "fh_dev h from = fh_dev h to"
  shows "\<exists>w'. run_state (move_once h replace from to) w = (Inr (), w') \<and> moved from to i w w'"
proof -
  have ft: "from \<noteq> to" using n by auto
  have d: "\<not> is_dir_at (w\<lparr>w_clock := c\<rparr>) i" "\<not> is_dir_at (w\<lparr>w_clock := c, w_names := x\<rparr>) i" for c x
    using n(3) by (simp_all add: is_dir_at_def)
  show ?thesis
    using n ft d h(2)
    by (auto simp: move_once_def rename_noreplace_def sys_rename_def sys_renameat2_def sys_link_def sys_unlink_def
        run_sys_calm[OF h(1)] move_name_def moved_def fun_upd_twist is_dir_at_def split: if_splits option.splits)
qed

lemma move_once_exdev:
  assumes h: "fhost_calm h" "fh_noreplace h \<in> {None, Some ENOSYS, Some EINVAL}"
    and n: "w_names w from = Some i" "w_names w to = None" "fh_dev h from \<noteq> fh_dev h to"
  shows "\<exists>c. run_state (move_once h replace from to) w = (Inl EXDEV, w\<lparr>w_clock := c\<rparr>)"
  using n h(2)
  by (auto simp: move_once_def rename_noreplace_def sys_rename_def sys_renameat2_def sys_link_def sys_lstat_def
      run_sys_calm[OF h(1)] split: if_splits option.splits)

text \<open>What a successful move means: the name is gone, the target has the content, the rest is as before.\<close>

definition move_done :: "bytes \<Rightarrow> bytes \<Rightarrow> bytes \<Rightarrow> world \<Rightarrow> world \<Rightarrow> bool" where
  "move_done from to d w w' \<longleftrightarrow> w_names w' from = None \<and> content_at w' to = Some d \<and>
     (\<forall>q. q \<noteq> from \<longrightarrow> q \<noteq> to \<longrightarrow> content_at w' q = content_at w q) \<and> w_fds w' = w_fds w \<and> w_shim w' = w_shim w"

lemma move_across_moves:
  assumes h: "fhost_moves h" "fh_noreplace h \<in> {None, Some ENOSYS, Some EINVAL}" and w: "world_ok w" and t: "temp_free h w to"
    and p: "w_names w from = Some i" "w_inodes w i = Some ino" "is_reg_mode (i_mode ino)" "w_names w to = None"
    and fuel: "length (i_data ino) + 2 \<le> fuel"
  shows "\<exists>w'. run_state (move_across h fuel True replace from to) w = (Some (Inr ()), w') \<and> move_done from to (i_data ino) w w'"
proof -
  have calm: "fhost_calm h" using h by (simp add: fhost_moves_def)
  define w0 where "w0 = (if replace then w else w\<lparr>w_clock := Suc (w_clock w)\<rparr>)"
  have r0: "\<exists>e. run_state (if replace then ret (Inl ENOENT) else sys_lstat h to) w = (Inl e, w0)"
    using p(4) by (simp add: w0_def sys_lstat_def run_sys_calm[OF calm])
  have eq: "w_names w0 = w_names w" "w_inodes w0 = w_inodes w" "w_fds w0 = w_fds w" "w_shim w0 = w_shim w" "content_at w0 = content_at w"
    by (simp_all add: w0_def)
  have ok: "world_ok w0" "temp_free h w0 to" using w t by (simp_all add: world_ok_def temp_free_def w0_def)
  obtain tmp j w1 where c: "run_state (copy_beside h fuel True from to) w0 = (Some (Inr tmp), w1)"
    "copied w0 tmp j (i_data ino) w1" "tmp \<noteq> to" "fh_dev h tmp = fh_dev h to"
    by (rule copy_beside_copies[OF h(1) ok, of "from" i ino fuel]) (use p fuel eq in simp_all)
  obtain jn where j: "w_inodes w1 j = Some jn" "i_data jn = i_data ino" "is_reg_mode (i_mode jn)" using c(2) by (auto simp: copied_def)
  have n1: "w_names w1 = (w_names w)(tmp \<mapsto> j)" "w_names w tmp = None" "w_inodes w j = None" "\<And>x. x \<noteq> j \<Longrightarrow> w_inodes w1 x = w_inodes w x"
    using c(2) eq by (auto simp: copied_def)
  have "\<not> is_dir_at w1 j" using j reg_not_dir[OF j(3)] by (simp add: is_dir_at_def)
  then obtain w2 where w2: "run_state (move_once h replace tmp to) w1 = (Inr (), w2)" "moved tmp to j w1 w2"
    using move_once_calm[OF calm h(2), of w1 tmp j to replace] c(3,4) n1(1) p(4) by auto
  have ft: "from \<noteq> to" "from \<noteq> tmp" "i \<noteq> j" using p n1 by auto
  define w3 where "w3 = w2\<lparr>w_clock := Suc (w_clock w2), w_names := (w_names w2)(from := None)\<rparr>"
  have "w_names w2 from = Some i" "w_inodes w2 i = Some ino" using w2(2) n1 ft p by (simp_all add: moved_def)
  then have "run_state (sys_unlink h from) w2 = (Inr (), w3)"
    using reg_not_dir[OF p(3)] by (simp add: sys_unlink_def run_sys_calm[OF calm] w3_def is_dir_at_def)
  then have run: "run_state (move_across h fuel True replace from to) w = (Some (Inr ()), w3)"
    using r0 c(1) w2(1) by (auto simp: move_across_def)
  have other: "content_at w3 q = content_at w q" if q: "q \<noteq> from" "q \<noteq> to" for q
  proof (cases "w_names w q")
    case None
    then show ?thesis using q w2(2) n1 by (simp add: content_at_def w3_def moved_def)
  next
    case (Some x)
    then have "q \<noteq> tmp" "x \<noteq> j" using n1 w by (auto simp: world_ok_def)
    then show ?thesis using Some q w2(2) n1 by (simp add: content_at_def w3_def moved_def)
  qed
  have "w_names w3 from = None" "content_at w3 to = Some (i_data ino)" "w_fds w3 = w_fds w" "w_shim w3 = w_shim w"
    using w2(2) j ft c(2) eq by (simp_all add: w3_def moved_def content_at_def copied_def)
  then have "move_done from to (i_data ino) w w3" using other by (simp add: move_done_def)
  then show ?thesis using run by blast
qed

text \<open>
  C23: On a host that does not interfere, \<^verbatim>\<open>MoveFileExW\<close> moves a regular file to a free name: the old
  name is gone, the target has the whole content, every other file and descriptor is as
  before.  This holds within a file system, and across file systems with \<^verbatim>\<open>MOVEFILE_COPY_ALLOWED\<close>,
  where the copying loops end within as many iterations as the file has bytes, however few
  bytes each call transfers, and for kernels with and without \<^verbatim>\<open>RENAME_NOREPLACE\<close>.
\<close>

theorem move_file_moves:
  assumes "fhost_moves h" and "fh_noreplace h \<in> {None, Some ENOSYS, Some EINVAL}" and "world_ok w"
    and "w_names w (posix_pattern from) = Some i" and "w_inodes w i = Some ino" and "is_reg_mode (i_mode ino)"
    and "w_names w (posix_pattern to) = None"
    and "fh_dev h (posix_pattern from) = fh_dev h (posix_pattern to) \<or>
      flags AND MOVEFILE_COPY_ALLOWED \<noteq> 0 \<and> temp_free h w (posix_pattern to) \<and> length (i_data ino) + 2 \<le> fuel"
  shows "\<exists>w'. run_state (MoveFileExW h fuel True (Some from) (Some to) flags t) w = (Some True, w') \<and>
    move_done (posix_pattern from) (posix_pattern to) (i_data ino) w w'"
proof -
  define fp tp replace where "fp = posix_pattern from" and "tp = posix_pattern to" and "replace = (flags AND MOVEFILE_REPLACE_EXISTING \<noteq> 0)"
  have calm: "fhost_calm h" using assms(1) by (simp add: fhost_moves_def)
  note n = assms(4,5,6,7)[folded fp_def tp_def]
  have nd: "\<not> is_dir_at w i" using n reg_not_dir[OF n(3)] by (simp add: is_dir_at_def)
  have ft: "fp \<noteq> tp" using n by auto
  show ?thesis
  proof (cases "fh_dev h fp = fh_dev h tp")
    case True
    obtain w' where w': "run_state (move_once h replace fp tp) w = (Inr (), w')" "moved fp tp i w w'"
      using move_once_calm[OF calm assms(2) n(1,4) nd True] by blast
    have "run_state (MoveFileExW h fuel True (Some from) (Some to) flags t) w = (Some True, w')"
      using w'(1) unfolding fp_def tp_def replace_def by (simp add: MoveFileExW_def Let_def)
    moreover have "move_done fp tp (i_data ino) w w'"
      using w'(2) n ft by (auto simp: move_done_def moved_def content_at_def)
    ultimately show ?thesis unfolding fp_def tp_def by blast
  next
    case False
    then have a: "flags AND MOVEFILE_COPY_ALLOWED \<noteq> 0" "temp_free h w tp" "length (i_data ino) + 2 \<le> fuel"
      using assms(8) by (simp_all add: fp_def tp_def)
    obtain c where c: "run_state (move_once h replace fp tp) w = (Inl EXDEV, w\<lparr>w_clock := c\<rparr>)"
      using move_once_exdev[OF calm assms(2) n(1,4) False] by blast
    have ok: "world_ok (w\<lparr>w_clock := c\<rparr>)" "temp_free h (w\<lparr>w_clock := c\<rparr>) tp"
      using assms(3) a(2) by (simp_all add: world_ok_def temp_free_def)
    obtain w' where w': "run_state (move_across h fuel True replace fp tp) (w\<lparr>w_clock := c\<rparr>) = (Some (Inr ()), w')"
      "move_done fp tp (i_data ino) (w\<lparr>w_clock := c\<rparr>) w'"
      using move_across_moves[OF assms(1,2) ok, of fp i ino fuel replace] n a(3) by auto
    have "run_state (MoveFileExW h fuel True (Some from) (Some to) flags t) w = (Some True, w')"
      using c w'(1) a(1) unfolding fp_def tp_def replace_def by (simp add: MoveFileExW_def Let_def)
    moreover have "move_done fp tp (i_data ino) w w'" using w'(2) by (simp add: move_done_def)
    ultimately show ?thesis unfolding fp_def tp_def by blast
  qed
qed

text \<open>A host with two file systems: the names that start with \<^verbatim>\<open>m\<close> lie on the second, and calls transfer one byte.\<close>

definition mount_host :: fhost where
  "mount_host = calm_host\<lparr>fh_count := (\<lambda>_. 1),
     fh_dev := (\<lambda>p. case last_split ch_slash p of Some _ \<Rightarrow> 1 | None \<Rightarrow> 0), fh_temp := (\<lambda>_ _. replicate 6 120)\<rparr>"

lemma mount_host_moves: "fhost_moves mount_host" "has_noreplace mount_host"
  using calm_host_calm
  by (simp_all add: fhost_moves_def mount_host_def fhost_calm_def fhost_ok_def fhost_quiet_def has_noreplace_def calm_host_def)

lemma pattern_target: "posix_pattern [109, 47, 98] = [109, 47, 98]"
  by (simp add: posix_pattern_def wchar_to_utf8_def win_path_to_posix_def to_slash_def is_high_def utf8_enc_def
      c_string_def PATH_MAX_def)

theorem move_file_moves_witness:
  "\<exists>w'. run_state (MoveFileExW mount_host 5 True (Some [97]) (Some [109, 47, 98]) MOVEFILE_COPY_ALLOWED 1) small_world = (Some True, w') \<and>
    w_names w' [97] = None \<and> content_at w' [109, 47, 98] = Some [1, 2, 3]"
proof -
  have n: "w_names small_world (posix_pattern [97]) = Some 1"
    "w_inodes small_world 1 = Some \<lparr>i_mode = 0x81A4, i_data = [1, 2, 3], i_mtime = (0, 0), i_atime = (0, 0)\<rparr>"
    "w_names small_world (posix_pattern [109, 47, 98]) = None"
    by (simp_all add: pattern_a pattern_target small_world_def)
  have pre: "temp_prefix [109, 47, 98] = [109, 47] @ str_bytes ''.pe2elf-''"
    by (simp add: temp_prefix_def last_split_def)
  have "temp_free mount_host small_world (posix_pattern [109, 47, 98])"
    unfolding temp_free_def pattern_target temp_name_def pre
    by (simp add: mount_host_def str_bytes_def PATH_MAX_def small_world_def last_split_def)
  then show ?thesis
    using move_file_moves[OF mount_host_moves(1) _ small_world_ok(1) n(1,2) _ n(3), of MOVEFILE_COPY_ALLOWED 5 1]
    by (auto simp: mount_host_def calm_host_def move_done_def pattern_a pattern_target)
qed


end
