(* ===== verification/Shim_Time.thy ===== *)
theory Shim_Time
  imports Shim_Files
begin

text \<open>
  Times (shim_kernel32_filetime.hpp, shim_kernel32_tail.hpp, shim_kernel32_sysinfo.hpp,
  shim_kernel32_file.hpp 7.5): \<^verbatim>\<open>FILETIME\<close>, \<^verbatim>\<open>SYSTEMTIME\<close> and DOS date and time.  \<^verbatim>\<open>gmtime_r\<close> and \<^verbatim>\<open>timegm\<close> are
  written out for the proleptic Gregorian calendar (seconds since 1970 without leap
  seconds); the time zone of the host (\<^verbatim>\<open>localtime_r\<close>, \<^verbatim>\<open>mktime\<close>) and its clocks are arguments.
\<close>

section \<open>The calendar\<close>

definition leap :: "int \<Rightarrow> bool" where
  "leap y \<longleftrightarrow> y mod 4 = 0 \<and> (y mod 100 \<noteq> 0 \<or> y mod 400 = 0)"

definition year_days :: "int \<Rightarrow> int" where
  "year_days y = (if leap y then 366 else 365)"

text \<open>The day of 1 January of a year, counted from 1970.\<close>

definition year_start :: "int \<Rightarrow> int" where
  "year_start y = 365 * (y - 1) + (y - 1) div 4 - (y - 1) div 100 + (y - 1) div 400 - 719162"

text \<open>The year a day falls in, and the day of that year.\<close>

function year_of :: "int \<Rightarrow> int \<Rightarrow> int \<times> int" where
  "year_of y d = (if d < 0 then year_of (y - 1) (d + year_days (y - 1))
     else if d \<ge> year_days y then year_of (y + 1) (d - year_days y) else (y, d))"
  by pat_completeness auto
termination
  by (relation "measure (\<lambda>(y, d). if d < 0 then nat (400 - d) else nat d)") (auto simp: year_days_def split: if_splits)

declare year_of.simps [simp del]

definition month_days :: "int \<Rightarrow> int list" where
  "month_days y = [31, if leap y then 29 else 28, 31, 30, 31, 30, 31, 31, 30, 31, 30, 31]"

fun month_of :: "int list \<Rightarrow> int \<Rightarrow> int \<Rightarrow> int \<times> int" where
  "month_of [] m d = (m, d)"
| "month_of (l # ls) m d = (if d < l then (m, d) else month_of ls (m + 1) (d - l))"

record tm =
  tm_sec :: int
  tm_min :: int
  tm_hour :: int
  tm_mday :: int
  tm_mon :: int
  tm_year :: int
  tm_wday :: int

definition gmtime :: "int \<Rightarrow> tm" where
  "gmtime t = (let days = t div 86400; r = t mod 86400; (y, yd) = year_of 1970 days; (m, md) = month_of (month_days y) 0 yd in
     \<lparr>tm_sec = r mod 60, tm_min = r div 60 mod 60, tm_hour = r div 3600, tm_mday = md + 1, tm_mon = m,
      tm_year = y - 1900, tm_wday = (4 + days) mod 7\<rparr>)"

text \<open>\<^verbatim>\<open>timegm\<close> takes fields out of their ranges as well.\<close>

definition timegm :: "tm \<Rightarrow> int" where
  "timegm t = (let y = tm_year t + 1900 + tm_mon t div 12; m = nat (tm_mon t mod 12) in
     (year_start y + sum_list (take m (month_days y)) + tm_mday t - 1) * 86400 + tm_hour t * 3600 + tm_min t * 60 + tm_sec t)"

section \<open>File times and system times\<close>

record SYSTEMTIME =
  wYear :: u16
  wMonth :: u16
  wDayOfWeek :: u16
  wDay :: u16
  wHour :: u16
  wMinute :: u16
  wSecond :: u16
  wMilliseconds :: u16

definition tm_to_systemtime :: "tm \<Rightarrow> u16 \<Rightarrow> SYSTEMTIME" where
  "tm_to_systemtime t ms = \<lparr>wYear = of_int (tm_year t + 1900), wMonth = of_int (tm_mon t + 1), wDayOfWeek = of_int (tm_wday t),
     wDay = of_int (tm_mday t), wHour = of_int (tm_hour t), wMinute = of_int (tm_min t), wSecond = of_int (tm_sec t),
     wMilliseconds = ms\<rparr>"

definition FileTimeToSystemTime :: "u64 option \<Rightarrow> SYSTEMTIME option" where
  "FileTimeToSystemTime ft = (case ft of
     None \<Rightarrow> None
   | Some t \<Rightarrow> if t < FILETIME_EPOCH then None
       else let t100 = t - FILETIME_EPOCH; secs = sint (t100 div 10000000); ms = ucast ((t100 div 10000) mod 1000 :: u64) in
         Some (tm_to_systemtime (gmtime secs) ms))"

definition posix_time_to_systemtime :: "int \<Rightarrow> u32 \<Rightarrow> SYSTEMTIME" where
  "posix_time_to_systemtime t ms = tm_to_systemtime (gmtime t) (ucast ms)"

definition systemtime_tm :: "SYSTEMTIME \<Rightarrow> tm" where
  "systemtime_tm st = \<lparr>tm_sec = uint (wSecond st), tm_min = uint (wMinute st), tm_hour = uint (wHour st),
     tm_mday = uint (wDay st), tm_mon = uint (wMonth st) - 1, tm_year = uint (wYear st) - 1900, tm_wday = 0\<rparr>"

definition systemtime_to_posix :: "SYSTEMTIME \<Rightarrow> int" where
  "systemtime_to_posix st = timegm (systemtime_tm st)"

definition GetSystemTime :: "int \<times> int \<Rightarrow> SYSTEMTIME" where
  "GetSystemTime ts = posix_time_to_systemtime (fst ts) (of_int (snd ts div 1000000))"

definition SystemTimeToFileTime :: "SYSTEMTIME option \<Rightarrow> FILETIME option" where
  "SystemTimeToFileTime st = (case st of
     None \<Rightarrow> None
   | Some s \<Rightarrow> let t = systemtime_to_posix s in
       if t = - 1 then None
       else Some (u64_to_ft (of_int t * 10000000 + FILETIME_EPOCH + ucast (wMilliseconds s) * 10000)))"

definition GetSystemTimeAsFileTime :: "int \<times> int \<Rightarrow> FILETIME" where
  "GetSystemTimeAsFileTime ts = u64_to_ft (of_int (fst ts) * 10000000 + of_int (snd ts) div 100 + FILETIME_EPOCH)"

text \<open>Local times: \<open>localtime\<close> and \<open>mktime\<close> of the host, and its present offset from UTC in seconds.\<close>

definition SystemTimeToTzSpecificLocalTime :: "(int \<Rightarrow> tm) \<Rightarrow> SYSTEMTIME option \<Rightarrow> SYSTEMTIME option" where
  "SystemTimeToTzSpecificLocalTime localtime utc =
    map_option (\<lambda>s. tm_to_systemtime (localtime (systemtime_to_posix s)) (wMilliseconds s)) utc"

definition TzSpecificLocalTimeToSystemTime :: "(tm \<Rightarrow> int) \<Rightarrow> SYSTEMTIME option \<Rightarrow> SYSTEMTIME option" where
  "TzSpecificLocalTimeToSystemTime mktime local =
    map_option (\<lambda>s. posix_time_to_systemtime (mktime (systemtime_tm s)) (ucast (wMilliseconds s))) local"

definition FileTimeToLocalFileTime :: "int \<Rightarrow> FILETIME option \<Rightarrow> FILETIME option" where
  "FileTimeToLocalFileTime gmtoff utc = map_option (\<lambda>f. u64_to_ft (ft_to_u64 f + of_int (gmtoff * 10000000))) utc"

definition LocalFileTimeToFileTime :: "int \<Rightarrow> FILETIME option \<Rightarrow> FILETIME option" where
  "LocalFileTimeToFileTime gmtoff local = map_option (\<lambda>f. u64_to_ft (ft_to_u64 f - of_int (gmtoff * 10000000))) local"

text \<open>
  The zone as it is now: \<open>Bias\<close> in minutes (C divides towards zero), its abbreviation under both names and
  no transition dates; a null pointer gets \<^verbatim>\<open>TIME_ZONE_ID_INVALID\<close>.
\<close>

record TIME_ZONE_INFORMATION =
  Bias :: "32 word"
  StandardName :: "u16 list"
  StandardDate :: "SYSTEMTIME option"
  StandardBias :: "32 word"
  DaylightName :: "u16 list"
  DaylightDate :: "SYSTEMTIME option"
  DaylightBias :: "32 word"

definition c_div :: "int \<Rightarrow> int \<Rightarrow> int" where
  "c_div a b = (if a < 0 then - ((- a) div b) else a div b)"

definition GetTimeZoneInformation ::
    "int \<Rightarrow> bytes option \<Rightarrow> bool \<Rightarrow> u32 \<times> TIME_ZONE_INFORMATION option \<times> u32 option" where
  "GetTimeZoneInformation gmtoff zone tzi =
    (if \<not> tzi then (0xFFFFFFFF, None, Some ERROR_INVALID_PARAMETER)
     else let name = (case zone of Some z \<Rightarrow> if z \<noteq> [] then z else str_bytes ''UTC'' | None \<Rightarrow> str_bytes ''UTC'');
              w = (case utf8_to_wchar (Some name) 32 of Some w \<Rightarrow> w | None \<Rightarrow> []) in
       (0, Some \<lparr>Bias = of_int (c_div (- gmtoff) 60), StandardName = w, StandardDate = None, StandardBias = 0,
          DaylightName = w, DaylightDate = None, DaylightBias = 0\<rparr>, None))"

definition timeGetTime :: "int \<times> int \<Rightarrow> u32" where
  "timeGetTime ts = ucast (of_int (fst ts) * 1000 + of_int (snd ts) div 1000000 :: u64)"

section \<open>DOS date and time\<close>

definition FileTimeToDosDateTime :: "FILETIME \<Rightarrow> bool \<times> u16 \<times> u16 \<times> u32 option" where
  "FileTimeToDosDateTime ft = (let v = ft_to_u64 ft in
     if v < FILETIME_EPOCH then (False, 0, 0, None)
     else let t = gmtime (sint ((v - FILETIME_EPOCH) div 10000000)) in
       if tm_year t < 80 then (False, 0, 0, Some ERROR_INVALID_PARAMETER)
       else (True, of_int (push_bit 9 (tm_year t - 80) OR push_bit 5 (tm_mon t + 1) OR tm_mday t),
         of_int (push_bit 11 (tm_hour t) OR push_bit 5 (tm_min t) OR drop_bit 1 (tm_sec t)), None))"

definition dos_tm :: "u16 \<Rightarrow> u16 \<Rightarrow> tm" where
  "dos_tm fatdate fattime = \<lparr>tm_sec = uint (push_bit 1 (fattime AND 0x1F)), tm_min = uint (drop_bit 5 fattime AND 0x3F),
     tm_hour = uint (drop_bit 11 fattime AND 0x1F), tm_mday = uint (fatdate AND 0x1F),
     tm_mon = uint (drop_bit 5 fatdate AND 0x0F) - 1, tm_year = uint (drop_bit 9 fatdate AND 0x7F) + 80, tm_wday = 0\<rparr>"

definition DosDateTimeToFileTime :: "u16 \<Rightarrow> u16 \<Rightarrow> FILETIME" where
  "DosDateTimeToFileTime fatdate fattime = u64_to_ft (of_int (timegm (dos_tm fatdate fattime)) * 10000000 + FILETIME_EPOCH)"

section \<open>The calendar is consistent\<close>

lemma div_pred:
  assumes "0 < (c :: int)"
  shows "y div c = (y - 1) div c + (if y mod c = 0 then 1 else 0)"
proof (cases "y mod c = 0")
  case True
  then have "y = c * (y div c)" using mult_div_mod_eq[of c y] by simp
  then have "y - 1 = c * (y div c - 1) + (c - 1)" unfolding right_diff_distrib by linarith
  then have "(y - 1) div c = y div c - 1" using assms by (intro int_div_pos_eq[where r = "c - 1"]) linarith+
  then show ?thesis using True by simp
next
  case False
  then have "0 < y mod c" "y mod c < c" using assms pos_mod_sign[of c y] pos_mod_bound[of c y] by linarith+
  moreover have "y - 1 = c * (y div c) + (y mod c - 1)" by simp
  ultimately have "(y - 1) div c = y div c" by (intro int_div_pos_eq[where r = "y mod c - 1"]) linarith+
  then show ?thesis using False by simp
qed

lemma year_start_Suc: "year_start (y + 1) = year_start y + year_days y"
proof -
  have "y mod 400 = 0 \<longrightarrow> y mod 100 = 0" "y mod 100 = 0 \<longrightarrow> y mod 4 = 0"
    using dvd_trans[of 100 400 y] dvd_trans[of 4 100 y] by (simp_all add: mod_eq_0_iff_dvd)
  moreover have "year_start (y + 1) = 365 * y + y div 4 - y div 100 + y div 400 - 719162"
    "year_start y = 365 * y - 365 + (y - 1) div 4 - (y - 1) div 100 + (y - 1) div 400 - 719162"
    by (simp_all only: year_start_def right_diff_distrib add_diff_cancel_right')
  ultimately show ?thesis
    unfolding year_days_def leap_def div_pred[of 4 y, simplified] div_pred[of 100 y, simplified] div_pred[of 400 y, simplified]
    by (cases "y mod 4 = 0"; cases "y mod 100 = 0"; cases "y mod 400 = 0"; simp only: simp_thms if_True if_False; linarith)
qed

lemma year_of_spec:
  "year_of y d = (y', d') \<Longrightarrow> year_start y' + d' = year_start y + d \<and> 0 \<le> d' \<and> d' < year_days y'"
proof (induction y d rule: year_of.induct)
  case (1 y d)
  consider "d < 0" | "0 \<le> d" "d \<ge> year_days y" | "0 \<le> d" "d < year_days y" by linarith
  then show ?case
  proof cases
    case 1
    then show ?thesis using "1.IH"(1) "1.prems" year_start_Suc[of "y - 1"] by (simp add: year_of.simps[of y d])
  next
    case 2
    then show ?thesis using "1.IH"(2) "1.prems" year_start_Suc[of y] by (simp add: year_of.simps[of y d])
  next
    case 3
    then show ?thesis using "1.prems" by (simp add: year_of.simps[of y d])
  qed
qed

lemma month_of_spec:
  "month_of ls m d = (m', d') \<Longrightarrow> 0 \<le> d \<Longrightarrow> d < sum_list ls \<Longrightarrow> list_all (\<lambda>l. 0 < l) ls \<Longrightarrow>
    m \<le> m' \<and> nat (m' - m) < length ls \<and> d = sum_list (take (nat (m' - m)) ls) + d' \<and> 0 \<le> d' \<and> d' < ls ! nat (m' - m)"
proof (induction ls m d rule: month_of.induct)
  case (2 l ls m d)
  show ?case
  proof (cases "d < l")
    case True
    then show ?thesis using 2 by auto
  next
    case False
    then have "m + 1 \<le> m' \<and> nat (m' - (m + 1)) < length ls \<and> d - l = sum_list (take (nat (m' - (m + 1))) ls) + d' \<and> 0 \<le> d' \<and>
        d' < ls ! nat (m' - (m + 1))" using 2 by simp
    moreover from this have "nat (m' - m) = Suc (nat (m' - (m + 1)))" by linarith
    ultimately show ?thesis by simp
  qed
qed simp

text \<open>The fields \<^verbatim>\<open>gmtime_r\<close> gives are in their ranges, and \<^verbatim>\<open>timegm\<close> gives the time back.\<close>

lemma sum_month_days: "sum_list (month_days y) = year_days y" "length (month_days y) = 12" "list_all (\<lambda>l. 0 < l) (month_days y)"
  by (simp_all add: month_days_def year_days_def)

lemma gmtime_fields:
  shows "0 \<le> tm_sec (gmtime t) \<and> tm_sec (gmtime t) < 60" "0 \<le> tm_min (gmtime t) \<and> tm_min (gmtime t) < 60"
    "0 \<le> tm_hour (gmtime t) \<and> tm_hour (gmtime t) < 24" "1 \<le> tm_mday (gmtime t) \<and> tm_mday (gmtime t) \<le> 31"
    "0 \<le> tm_mon (gmtime t) \<and> tm_mon (gmtime t) < 12" "0 \<le> tm_wday (gmtime t) \<and> tm_wday (gmtime t) < 7"
    and timegm_gmtime: "timegm (gmtime t) = t"
proof -
  obtain y yd where y: "year_of 1970 (t div 86400) = (y, yd)" by fastforce
  obtain m md where m: "month_of (month_days y) 0 yd = (m, md)" by fastforce
  have d: "year_start y + yd = t div 86400" "0 \<le> yd" "yd < year_days y"
    using year_of_spec[OF y] by (simp_all add: year_start_def)
  have mm: "0 \<le> m" "nat m < 12" "yd = sum_list (take (nat m) (month_days y)) + md" "0 \<le> md" "md < month_days y ! nat m"
    using month_of_spec[OF m d(2)] d(3) sum_month_days[of y] by simp_all
  have l: "month_days y ! k \<le> 31" if "k < 12" for k
    using that by (auto simp: month_days_def nth_Cons' split: if_splits)
  have g: "gmtime t = \<lparr>tm_sec = t mod 86400 mod 60, tm_min = t mod 86400 div 60 mod 60, tm_hour = t mod 86400 div 3600,
      tm_mday = md + 1, tm_mon = m, tm_year = y - 1900, tm_wday = (4 + t div 86400) mod 7\<rparr>"
    using y m by (simp add: gmtime_def Let_def)
  show "0 \<le> tm_sec (gmtime t) \<and> tm_sec (gmtime t) < 60" "0 \<le> tm_min (gmtime t) \<and> tm_min (gmtime t) < 60"
    "0 \<le> tm_wday (gmtime t) \<and> tm_wday (gmtime t) < 7" by (simp_all add: g)
  show "0 \<le> tm_hour (gmtime t) \<and> tm_hour (gmtime t) < 24"
    using zdiv_mono1[of "t mod 86400" 86399 3600] by (simp add: g pos_imp_zdiv_nonneg_iff)
  show "1 \<le> tm_mday (gmtime t) \<and> tm_mday (gmtime t) \<le> 31" "0 \<le> tm_mon (gmtime t) \<and> tm_mon (gmtime t) < 12"
    using mm l[OF mm(2)] by (simp_all add: g)
  have "r = r div 3600 * 3600 + r div 60 mod 60 * 60 + r mod 60" for r :: int
  proof -
    have "r div 3600 = r div 60 div 60" using zdiv_zmult2_eq[of 60 r 60] by simp
    then show ?thesis using div_mult_mod_eq[of r 60] div_mult_mod_eq[of "r div 60" 60] by linarith
  qed
  note clock = this[of "t mod 86400"]
  have "tm_mon (gmtime t) div 12 = 0" "tm_mon (gmtime t) mod 12 = m" using mm(1,2) by (simp_all add: g)
  then have "timegm (gmtime t) = (year_start y + sum_list (take (nat m) (month_days y)) + md) * 86400 +
      t mod 86400 div 3600 * 3600 + t mod 86400 div 60 mod 60 * 60 + t mod 86400 mod 60"
    by (simp add: timegm_def g)
  also have "year_start y + sum_list (take (nat m) (month_days y)) + md = t div 86400" using d(1) mm(3) by simp
  finally show "timegm (gmtime t) = t" using clock div_mult_mod_eq[of t 86400] by linarith
qed

lemma gmtime_year:
  assumes "0 \<le> t" "t < 2000000000000"
  shows "- 1900 \<le> tm_year (gmtime t)" "tm_year (gmtime t) < 63636"
proof -
  obtain y yd where y: "year_of 1970 (t div 86400) = (y, yd)" by fastforce
  have g: "tm_year (gmtime t) = y - 1900" using y by (simp add: gmtime_def Let_def split: prod.split)
  have d: "year_start y + yd = t div 86400" "0 \<le> yd" "yd < year_days y"
    using year_of_spec[OF y] by (simp_all add: year_start_def)
  have bounds: "c * (z div c) \<le> z" "z < c * (z div c) + c" if "0 < c" for z c :: int
    using that mult_div_mod_eq[of c z] pos_mod_sign[of c z] pos_mod_bound[of c z] by linarith+
  note b = bounds[of 86400 t, simplified] bounds[of 4 y, simplified] bounds[of 100 y, simplified] bounds[of 400 y, simplified]
  have "0 < year_start (y + 1)" using b d assms(1) unfolding year_start_Suc by linarith
  then have "0 < 365 * y + y div 4 - y div 100 + y div 400 - 719162" by (simp add: year_start_def)
  then show "- 1900 \<le> tm_year (gmtime t)" unfolding g using b by linarith
  have "365 * y + y div 4 - y div 100 + y div 400 - 719162 = year_start (y + 1)" by (simp add: year_start_def)
  also have "\<dots> \<le> t div 86400 + 366" using d unfolding year_start_Suc by (auto simp: year_days_def)
  finally show "tm_year (gmtime t) < 63636" unfolding g using b assms(2) by linarith
qed

section \<open>Round trips\<close>

text \<open>The fields of a \<^verbatim>\<open>SYSTEMTIME\<close> keep what \<^verbatim>\<open>gmtime_r\<close> gave, for every year of 16 bits.\<close>

lemma uint_of_int_u16: "0 \<le> k \<Longrightarrow> k < 65536 \<Longrightarrow> uint (of_int k :: u16) = k"
  by (simp add: uint_word_of_int take_bit_int_eq_self)

lemma systemtime_to_posix_gmtime:
  assumes "0 \<le> t" "t < 2000000000000"
  shows "systemtime_to_posix (tm_to_systemtime (gmtime t) ms) = t"
proof -
  have "systemtime_tm (tm_to_systemtime (gmtime t) ms) = (gmtime t)\<lparr>tm_wday := 0\<rparr>"
    using gmtime_fields(1-5)[of t] gmtime_year[OF assms]
    by (intro tm.equality) (simp_all add: systemtime_tm_def tm_to_systemtime_def uint_of_int_u16 del: of_int_add)
  then show ?thesis using timegm_gmtime[of t] by (simp add: systemtime_to_posix_def timegm_def)
qed

lemma file_time_ticks:
  assumes "FILETIME_EPOCH \<le> v"
  defines "n \<equiv> uint v - 116444736000000000"
  shows "0 \<le> n" "n < 2 ^ 64" "sint ((v - FILETIME_EPOCH) div 10000000) = n div 10000000"
    "uint ((v - FILETIME_EPOCH) div 10000 mod 1000) = n div 10000 mod 1000"
proof -
  have e: "uint FILETIME_EPOCH = 116444736000000000" by (simp add: FILETIME_EPOCH_def)
  have u: "uint (v - FILETIME_EPOCH) = n" using assms(1) by (simp add: uint_sub_if' e n_def word_le_def)
  show n: "0 \<le> n" using assms(1) by (simp add: word_le_def e n_def)
  show m: "n < 2 ^ 64" using uint_lt2p[of v] by (simp add: n_def)
  have q: "uint ((v - FILETIME_EPOCH) div 10000000) = n div 10000000" by (simp add: uint_div u)
  have "n div 10000000 < 2 ^ 63" using n m by (simp add: int_div_less_self)
  then show "sint ((v - FILETIME_EPOCH) div 10000000) = n div 10000000"
    using n by (simp add: sint_uint q signed_take_bit_int_eq_self pos_imp_zdiv_nonneg_iff)
  show "uint ((v - FILETIME_EPOCH) div 10000 mod 1000) = n div 10000 mod 1000" by (simp add: uint_div uint_mod u)
qed

text \<open>
  C39: every file time from 1970 on converts to a \<open>SYSTEMTIME\<close> and back, losing only what is below a
  millisecond: \<open>FileTimeToSystemTime\<close> succeeds and \<open>SystemTimeToFileTime\<close> of its result gives the file time
  rounded down to a multiple of 10000 ticks, up to the largest 64-bit file time.
\<close>

theorem system_time_round_trip:
  assumes "FILETIME_EPOCH \<le> v"
  shows "\<exists>st. FileTimeToSystemTime (Some v) = Some st \<and> SystemTimeToFileTime (Some st) = Some (u64_to_ft (v - v mod 10000))"
proof -
  define n where "n = uint v - 116444736000000000"
  note k = file_time_ticks[OF assms, folded n_def]
  define t where "t = n div 10000000"
  define ms where "ms = n div 10000 mod 1000"
  have t: "0 \<le> t" "t < 2000000000000" using k(1,2) by (simp_all add: t_def pos_imp_zdiv_nonneg_iff div_less_iff_less_mult)
  have m: "0 \<le> ms" "ms < 1000" by (simp_all add: ms_def)
  have w: "ucast ((v - FILETIME_EPOCH) div 10000 mod 1000) = (of_int ms :: u16)"
    using k(4) by (metis ms_def ucast_eq)
  define st where "st = tm_to_systemtime (gmtime t) (of_int ms)"
  have a: "FileTimeToSystemTime (Some v) = Some st"
    using assms by (simp add: FileTimeToSystemTime_def Let_def k(3) w st_def t_def not_less)
  have p: "systemtime_to_posix st = t" using systemtime_to_posix_gmtime[OF t] by (simp add: st_def)
  have um: "uint (wMilliseconds st) = ms" using m by (simp add: st_def tm_to_systemtime_def uint_of_int_u16)
  have "n div 10000 div 1000 = t" using zdiv_zmult2_eq[of 1000 n 10000] by (simp add: t_def)
  moreover have "uint v mod 10000 = n mod 10000"
    using mod_mult_self1[of n 11644473600000 10000] by (simp add: n_def)
  ultimately have i: "t * 10000000 + 116444736000000000 + ms * 10000 = uint v - uint v mod 10000"
    using div_mult_mod_eq[of n 10000] div_mult_mod_eq[of "n div 10000" 1000] unfolding ms_def n_def by linarith
  have "of_int t * 10000000 + FILETIME_EPOCH + ucast (wMilliseconds st) * 10000
      = of_int (t * 10000000 + 116444736000000000 + ms * 10000)"
    using um by (simp add: FILETIME_EPOCH_def ucast_eq)
  also have "\<dots> = v - v mod 10000" unfolding i by (simp add: word_mod_def)
  finally have "of_int t * 10000000 + FILETIME_EPOCH + ucast (wMilliseconds st) * 10000 = v - v mod 10000" .
  then have "SystemTimeToFileTime (Some st) = Some (u64_to_ft (v - v mod 10000))"
    using t(1) by (simp add: SystemTimeToFileTime_def Let_def p)
  with a show ?thesis by blast
qed

theorem system_time_round_trip_witness:
  "\<exists>st. FileTimeToSystemTime (Some 132223104000123456) = Some st \<and>
    SystemTimeToFileTime (Some st) = Some (u64_to_ft (132223104000123456 - 132223104000123456 mod 10000))"
  using system_time_round_trip[of 132223104000123456] by (simp add: FILETIME_EPOCH_def)

text \<open>The packed fields of a DOS date or time, and what is read back.\<close>

lemma or_push: "0 \<le> y \<Longrightarrow> y < 2 ^ i \<Longrightarrow> push_bit i x OR y = x * 2 ^ i + (y :: int)"
proof -
  assume "0 \<le> y" "y < 2 ^ i"
  then have y: "take_bit i y = y" by (simp add: take_bit_int_eq_self)
  have "push_bit i x AND take_bit i y = 0" by (rule bit_eqI) (simp add: bit_simps)
  then show ?thesis by (simp add: y push_bit_eq_mult disjunctive_add_eq_or)
qed

lemma pack_fields:
  assumes "0 \<le> a" "a < 2 ^ m" "0 \<le> b" "b < 2 ^ k" "0 \<le> c" "c < (32 :: int)" "m + k = 11"
  shows "uint (of_int (push_bit (k + 5) a OR push_bit 5 b OR c) :: u16) = (a * 2 ^ k + b) * 32 + c"
proof -
  have k: "(2 :: int) ^ m * 2 ^ k = 2048" using assms(7) by (simp flip: power_add)
  have "(b + 1) * 32 \<le> 2 ^ k * 32" using assms(4) by simp
  then have o: "push_bit 5 b OR c = b * 32 + c" "0 \<le> b * 32 + c" "b * 32 + c < 2 ^ (k + 5)"
    using assms(3,5,6) or_push[of c 5 b] by (simp_all add: power_add)
  have p: "push_bit (k + 5) a OR push_bit 5 b OR c = (a * 2 ^ k + b) * 32 + c"
    unfolding or.assoc o(1) or_push[OF o(2,3)] by (simp add: power_add algebra_simps)
  have "a + 1 \<le> 2 ^ m" using assms(2) by simp
  then have "(a + 1) * 2 ^ k \<le> 2048" unfolding k[symmetric] by (rule mult_right_mono) simp
  then have "(a * 2 ^ k + b) * 32 + c < 65536" using assms(4,6) by (simp add: algebra_simps)
  then show ?thesis unfolding p using assms(1,3,5) by (intro uint_of_int_u16) simp_all
qed

lemma unpack_field: "uint (drop_bit n w AND mask m :: u16) = uint w div 2 ^ n mod 2 ^ m"
proof -
  have "uint (drop_bit n w AND mask m) = take_bit m (drop_bit n (uint w))"
    by (simp only: take_bit_eq_mask[symmetric] unsigned_take_bit_eq)
      (simp add: unsigned_drop_bit_eq take_bit_int_eq_self uint_lt2p[of w, simplified])
  then show ?thesis by (simp add: take_bit_eq_mod drop_bit_eq_div)
qed

lemma dos_tm_fields:
  assumes "uint d = (y * 16 + m) * 32 + day" "uint f = (h * 64 + n) * 32 + s" "0 \<le> y" "y < 128" "0 \<le> m" "m < 16" "0 \<le> day" "day < 32"
    "0 \<le> h" "h < 32" "0 \<le> n" "n < 64" "0 \<le> s" "s < 32"
  shows "dos_tm d f = \<lparr>tm_sec = 2 * s, tm_min = n, tm_hour = h, tm_mday = day, tm_mon = m - 1, tm_year = y + 80, tm_wday = 0\<rparr>"
proof -
  have b: "uint (w AND 0x1F) = uint w mod 32" "uint (drop_bit n w AND 0x1F) = uint w div 2 ^ n mod 32"
    "uint (drop_bit n w AND 0x3F) = uint w div 2 ^ n mod 64" "uint (drop_bit n w AND 0x0F) = uint w div 2 ^ n mod 16"
    "uint (drop_bit n w AND 0x7F) = uint w div 2 ^ n mod 128" for n and w :: u16
    using unpack_field[of 0 w 5] unpack_field[of n w 4] unpack_field[of n w 5] unpack_field[of n w 6] unpack_field[of n w 7]
    by (simp_all add: mask_eq_exp_minus_1)
  have "uint d = 512 * y + (m * 32 + day)" "uint d = 32 * (y * 16 + m) + day"
    "uint f = 2048 * h + (n * 32 + s)" "uint f = 32 * (h * 64 + n) + s" unfolding assms(1,2) by simp_all
  then have q: "uint d div 512 = y" "uint d div 32 = y * 16 + m" "uint f div 2048 = h" "uint f div 32 = h * 64 + n"
    using assms(3-) int_div_pos_eq[of "uint d" 512 y] int_div_pos_eq[of "uint d" 32] int_div_pos_eq[of "uint f" 2048 h]
      int_div_pos_eq[of "uint f" 32] by simp_all
  have r: "uint d mod 32 = day" "uint f mod 32 = s"
    using mult_div_mod_eq[of 32 "uint d"] mult_div_mod_eq[of 32 "uint f"] assms(1,2) unfolding q(2,4) by simp_all
  have "uint (push_bit 1 (f AND 0x1F)) = 2 * s"
    using assms(13,14) r(2) b(1)[of f] by (simp add: push_bit_eq_mult uint_word_ariths(3) mod_pos_pos_trivial)
  then show ?thesis using assms(3-) by (simp add: dos_tm_def b(2-) b(1)[of d] q r)
qed

text \<open>
  A file time of the years 1980 to 2107 survives the way to a DOS date and time and back up to
  the two seconds a DOS time can tell apart: \<open>FileTimeToDosDateTime\<close> succeeds and
  \<open>DosDateTimeToFileTime\<close> gives the time rounded down to an even second.
\<close>

theorem dos_time_round_trip:
  assumes "FILETIME_EPOCH \<le> ft_to_u64 ft"
    and "80 \<le> tm_year (gmtime (sint ((ft_to_u64 ft - FILETIME_EPOCH) div 10000000)))"
    and "tm_year (gmtime (sint ((ft_to_u64 ft - FILETIME_EPOCH) div 10000000))) < 208"
  shows "\<exists>d f. FileTimeToDosDateTime ft = (True, d, f, None) \<and>
    DosDateTimeToFileTime d f = u64_to_ft (ft_to_u64 ft - (ft_to_u64 ft - FILETIME_EPOCH) mod 20000000)"
proof -
  define v where "v = ft_to_u64 ft"
  define n where "n = uint v - 116444736000000000"
  note k = file_time_ticks[OF assms(1)[folded v_def], folded n_def]
  define t where "t = n div 10000000"
  have year: "80 \<le> tm_year (gmtime t)" "tm_year (gmtime t) < 208" using assms(2,3) k(3) by (simp_all add: v_def t_def)
  define d :: u16 where "d = of_int (push_bit 9 (tm_year (gmtime t) - 80) OR push_bit 5 (tm_mon (gmtime t) + 1) OR tm_mday (gmtime t))"
  define f :: u16 where "f = of_int (push_bit 11 (tm_hour (gmtime t)) OR push_bit 5 (tm_min (gmtime t)) OR drop_bit 1 (tm_sec (gmtime t)))"
  have to: "FileTimeToDosDateTime ft = (True, d, f, None)"
    using assms(1) year k(3) by (simp add: FileTimeToDosDateTime_def Let_def not_less v_def t_def d_def f_def)
  note g = gmtime_fields(1-5)[of t]
  have ud: "uint d = ((tm_year (gmtime t) - 80) * 16 + (tm_mon (gmtime t) + 1)) * 32 + tm_mday (gmtime t)"
    unfolding d_def using g year pack_fields[of "tm_year (gmtime t) - 80" 7 "tm_mon (gmtime t) + 1" 4 "tm_mday (gmtime t)"] by simp
  have sec: "tm_sec (gmtime t) div 2 < 32" using g(1) zdiv_mono1[of "tm_sec (gmtime t)" 59 2] by simp
  have uf: "uint f = (tm_hour (gmtime t) * 64 + tm_min (gmtime t)) * 32 + tm_sec (gmtime t) div 2"
    unfolding f_def using g sec pack_fields[of "tm_hour (gmtime t)" 5 "tm_min (gmtime t)" 6 "tm_sec (gmtime t) div 2"]
    by (simp add: drop_bit_eq_div pos_imp_zdiv_nonneg_iff)
  have "dos_tm d f = (gmtime t)\<lparr>tm_sec := 2 * (tm_sec (gmtime t) div 2), tm_wday := 0\<rparr>"
    using g year sec by (simp add: dos_tm_fields[OF ud uf] pos_imp_zdiv_nonneg_iff)
  then have "timegm (dos_tm d f) = timegm (gmtime t) - tm_sec (gmtime t) mod 2"
    by (simp add: timegm_def Let_def minus_mod_eq_mult_div[symmetric])
  moreover have "tm_sec (gmtime t) mod 2 = t mod 2"
    by (simp add: gmtime_def Let_def mod_mod_cancel split: prod.split)
  ultimately have b: "timegm (dos_tm d f) = t - t mod 2" by (simp add: timegm_gmtime)
  have "t * 10000000 + n mod 10000000 = n" by (simp add: t_def)
  moreover have "n mod 20000000 = 10000000 * (t mod 2) + n mod 10000000" using zmod_zmult2_eq[of 2 n 10000000] by (simp add: t_def)
  ultimately have i: "(t - t mod 2) * 10000000 + 116444736000000000 = uint v - n mod 20000000"
    using n_def by (simp add: left_diff_distrib)
  have "uint (v - FILETIME_EPOCH) = n"
    using assms(1) by (simp add: uint_sub_if' word_le_def FILETIME_EPOCH_def n_def v_def)
  then have w: "(v - FILETIME_EPOCH) mod 20000000 = of_int (n mod 20000000)" by (simp add: word_mod_def)
  have "of_int (t - t mod 2) * 10000000 + FILETIME_EPOCH = of_int ((t - t mod 2) * 10000000 + 116444736000000000)"
    by (simp add: FILETIME_EPOCH_def)
  also have "\<dots> = v - (v - FILETIME_EPOCH) mod 20000000" unfolding i w by simp
  finally show ?thesis using to b by (auto simp: DosDateTimeToFileTime_def v_def)
qed

definition sample_time :: FILETIME where
  "sample_time = \<lparr>dwLowDateTime = 0x1B6A1540, dwHighDateTime = 0x01D5C038\<rparr>"

lemma sample_time_fields:
  "FILETIME_EPOCH \<le> ft_to_u64 sample_time"
  "tm_year (gmtime (sint ((ft_to_u64 sample_time - FILETIME_EPOCH) div 10000000))) = 120"
  by code_simp+

theorem dos_time_round_trip_witness:
  "\<exists>d f. FileTimeToDosDateTime sample_time = (True, d, f, None) \<and>
    DosDateTimeToFileTime d f = u64_to_ft (ft_to_u64 sample_time - (ft_to_u64 sample_time - FILETIME_EPOCH) mod 20000000)"
  by (rule dos_time_round_trip) (simp_all add: sample_time_fields)

text \<open>
  Outside the range: \<open>timegm\<close> gives \<open>- 1\<close> for the last second of 1969 as it does for a failure, and a year that DOS dates
  cannot hold loses its high bit: 1 January 2108 gets the date of 1 January 1980.
\<close>

lemma last_second_of_1969:
  "SystemTimeToFileTime (Some \<lparr>wYear = 1969, wMonth = 12, wDayOfWeek = 3, wDay = 31, wHour = 23, wMinute = 59, wSecond = 59,
     wMilliseconds = 0\<rparr>) = None"
  by code_simp

lemma dos_time_wraps_in_2108:
  "FileTimeToDosDateTime (u64_to_ft (4354819200 * 10000000 + FILETIME_EPOCH))
    = FileTimeToDosDateTime (u64_to_ft (315532800 * 10000000 + FILETIME_EPOCH))"
  by code_simp

end
