(* ===== verification/Shim_Fullpath.thy ===== *)
theory Shim_Fullpath
  imports Shim_Files
begin

text \<open>
  Path names without the file system (shim_kernel32_misc.hpp \<^verbatim>\<open>GetFullPathNameW\<close>, and from
  shim_kernel32_tail.hpp and shim_kernel32_file_a.hpp the current directory, the directory for
  temporary files, the environment strings and the identity stubs).  The current directory
  \<^verbatim>\<open>getcwd\<close> gives and the environment \<^verbatim>\<open>getenv\<close> reads are arguments.  A function answers with the value
  it returns, what it stored in the caller's buffer (without the terminating NUL; \<open>None\<close> when
  the buffer is left alone) and the last error it set.
\<close>

abbreviation ERROR_INVALID_NAME :: u32 where "ERROR_INVALID_NAME \<equiv> 123"
abbreviation ERROR_FILENAME_EXCED_RANGE :: u32 where "ERROR_FILENAME_EXCED_RANGE \<equiv> 206"

record 'c path_result =
  pr_ret :: u32
  pr_buf :: "'c list option"
  pr_part :: "nat option"
  pr_err :: "u32 option"

definition path_fail :: "u32 \<Rightarrow> 'c path_result" where
  "path_fail e = \<lparr>pr_ret = 0, pr_buf = None, pr_part = None, pr_err = Some e\<rparr>"

definition win_bytes :: "bytes \<Rightarrow> bytes" where
  "win_bytes p = (case posix_to_win_path (Some p) PATH_MAX of Some w \<Rightarrow> c_string w | None \<Rightarrow> [])"

definition wide :: "bytes \<Rightarrow> nat \<Rightarrow> u16 list" where
  "wide s n = (case utf8_to_wchar (Some s) n of Some w \<Rightarrow> w | None \<Rightarrow> [])"

section \<open>GetFullPathName\<close>

text \<open>\<^verbatim>\<open>full[0..n)\<close>: going up drops the bytes after the last separator, then the separator.\<close>

function drop_name :: "bytes \<Rightarrow> bytes" where
  "drop_name full = (if 1 < length full \<and> last full \<noteq> ch_slash then drop_name (butlast full) else full)"
  by pat_completeness auto
termination
  by (relation "measure length") auto

declare drop_name.simps [simp del]

definition full_up :: "bytes \<Rightarrow> bytes" where
  "full_up full = (let f = drop_name full in if 1 < length f then butlast f else f)"

definition full_step :: "bytes \<Rightarrow> bytes \<Rightarrow> bytes option" where
  "full_step full k =
    (if k = [46, 46] then Some (full_up full)
     else if k \<noteq> [] \<and> k \<noteq> [46] then
       (if PATH_MAX \<le> length full + 1 + length k then None
        else Some ((if 1 < length full then full @ [ch_slash] else full) @ k))
     else Some full)"

function full_loop :: "bytes \<Rightarrow> bytes \<Rightarrow> bytes option" where
  "full_loop full p =
    (if p = [] then Some full
     else let k = takeWhile (\<lambda>c. c \<noteq> ch_slash) p in
       (case full_step full k of
          None \<Rightarrow> None
        | Some f \<Rightarrow> full_loop f (drop (length k + 1) p)))"
  by pat_completeness auto
termination
  by (relation "measure (\<lambda>(full, p). length p)") auto

declare full_loop.simps [simp del]

definition full_path :: "errno + bytes \<Rightarrow> bytes \<Rightarrow> u32 + bytes" where
  "full_path cwd posix =
    (case (if posix \<noteq> [] \<and> hd posix = ch_slash then Inr [ch_slash] else cwd) of
       Inl e \<Rightarrow> Inl (errno_to_win32 e)
     | Inr start \<Rightarrow> (case full_loop start posix of
         None \<Rightarrow> Inl ERROR_FILENAME_EXCED_RANGE
       | Some full \<Rightarrow>
           if 1 < length full \<and> last posix = ch_slash
           then (if PATH_MAX \<le> length full + 1 then Inl ERROR_FILENAME_EXCED_RANGE else Inr (full @ [ch_slash]))
           else Inr full))"

text \<open>The file part: what follows the last backslash, if anything does.\<close>

fun after_last :: "'a \<Rightarrow> nat \<Rightarrow> 'a list \<Rightarrow> nat option" where
  "after_last c i [] = None"
| "after_last c i (x # xs) = (case after_last c (Suc i) xs of Some j \<Rightarrow> Some j | None \<Rightarrow> if x = c then Some (Suc i) else None)"

definition file_part :: "'a::zero \<Rightarrow> 'a list \<Rightarrow> nat option" where
  "file_part c w = (case after_last c 0 w of Some j \<Rightarrow> if j < length w then Some j else None | None \<Rightarrow> None)"

definition GetFullPathNameW :: "errno + bytes \<Rightarrow> u16 list option \<Rightarrow> u32 \<Rightarrow> bool \<Rightarrow> bool \<Rightarrow> u16 path_result" where
  "GetFullPathNameW cwd path sz buf part = (case path of
     None \<Rightarrow> path_fail ERROR_INVALID_NAME
   | Some p \<Rightarrow> if p = [] \<or> hd p = 0 then path_fail ERROR_INVALID_NAME
       else (case full_path cwd (narrow_path (utf8_arg p)) of
         Inl e \<Rightarrow> path_fail e
       | Inr full \<Rightarrow> let w = wide (win_bytes full) PATH_MAX; len = of_nat (length w) in
           if \<not> buf \<or> sz \<le> len then \<lparr>pr_ret = len + 1, pr_buf = None, pr_part = None, pr_err = None\<rparr>
           else \<lparr>pr_ret = len, pr_buf = Some w, pr_part = (if part then file_part 92 w else None), pr_err = None\<rparr>))"

definition GetFullPathNameA :: "errno + bytes \<Rightarrow> bytes option \<Rightarrow> u32 \<Rightarrow> bool \<Rightarrow> bool \<Rightarrow> u8 path_result" where
  "GetFullPathNameA cwd path sz buf part = (case path of
     None \<Rightarrow> path_fail ERROR_INVALID_NAME
   | Some p \<Rightarrow> let r = GetFullPathNameW cwd (Some (wide p PATH_MAX)) (of_nat PATH_MAX) True False in
       if pr_ret r = 0 then \<lparr>pr_ret = 0, pr_buf = None, pr_part = None, pr_err = pr_err r\<rparr>
       else let narrow = utf8_arg (case pr_buf r of Some w \<Rightarrow> w | None \<Rightarrow> []); n = of_nat (length narrow) in
         if \<not> buf \<or> sz \<le> n then \<lparr>pr_ret = n + 1, pr_buf = None, pr_part = None, pr_err = None\<rparr>
         else \<lparr>pr_ret = n, pr_buf = Some narrow, pr_part = (if part then file_part ch_backslash narrow else None), pr_err = None\<rparr>)"

section \<open>Directories\<close>

definition GetCurrentDirectoryA :: "errno + bytes \<Rightarrow> u32 \<Rightarrow> bool \<Rightarrow> u8 path_result" where
  "GetCurrentDirectoryA cwd sz buf = (case cwd of
     Inl e \<Rightarrow> path_fail (errno_to_win32 e)
   | Inr posix \<Rightarrow> let win = win_bytes posix; n = of_nat (length win) in
       if \<not> buf \<or> sz = 0 then \<lparr>pr_ret = n + 1, pr_buf = None, pr_part = None, pr_err = None\<rparr>
       else if sz \<le> n then \<lparr>pr_ret = n + 1, pr_buf = None, pr_part = None, pr_err = Some ERROR_INSUFFICIENT_BUFFER\<rparr>
       else \<lparr>pr_ret = n, pr_buf = Some win, pr_part = None, pr_err = None\<rparr>)"

definition GetCurrentDirectoryW :: "errno + bytes \<Rightarrow> u32 \<Rightarrow> bool \<Rightarrow> u16 path_result" where
  "GetCurrentDirectoryW cwd sz buf = (case cwd of
     Inl e \<Rightarrow> path_fail (errno_to_win32 e)
   | Inr posix \<Rightarrow>
       if \<not> buf \<or> sz = 0
       then \<lparr>pr_ret = of_nat (length (wide (win_bytes posix) PATH_MAX)) + 1, pr_buf = None, pr_part = None, pr_err = None\<rparr>
       else let w = wide (win_bytes posix) (unat sz) in
         \<lparr>pr_ret = of_nat (length w), pr_buf = Some w, pr_part = None, pr_err = None\<rparr>)"

text \<open>
  The directory for temporary files: the bytes \<^verbatim>\<open>win\<close> holds in the end, the terminating NUL
  included (the separator is put behind a path that lost its own to the cut).
\<close>

definition temp_win :: "(bytes \<Rightarrow> bytes option) \<Rightarrow> bytes" where
  "temp_win getenv =
    (let tmp = (case getenv (str_bytes ''TEMP'') of Some v \<Rightarrow> v | None \<Rightarrow> str_bytes ''/tmp'');
         win = win_bytes (snprintf_s PATH_MAX (tmp @ [ch_slash]))
     in (if win = [] \<or> last win \<noteq> ch_backslash then win @ [ch_backslash] else win) @ [0])"

definition GetTempPathW :: "(bytes \<Rightarrow> bytes option) \<Rightarrow> u32 \<Rightarrow> bool \<Rightarrow> u16 path_result" where
  "GetTempPathW getenv sz buf = (let win = temp_win getenv in
     \<lparr>pr_ret = of_nat (length win - 1), pr_buf = (if buf \<and> sz \<noteq> 0 then Some (wide win (unat sz)) else None),
      pr_part = None, pr_err = None\<rparr>)"

definition GetTempPathA :: "(bytes \<Rightarrow> bytes option) \<Rightarrow> u32 \<Rightarrow> bool \<Rightarrow> u8 path_result" where
  "GetTempPathA getenv sz buf = (let r = GetTempPathW getenv (of_nat PATH_MAX) True in
     \<lparr>pr_ret = pr_ret r,
      pr_buf = (if buf \<and> sz \<noteq> 0 then map_option c_string (wchar_to_utf8 (pr_buf r) (unat sz)) else None),
      pr_part = None, pr_err = None\<rparr>)"

definition system_dir :: bytes where
  "system_dir = str_bytes ''C:'' @ [ch_backslash] @ str_bytes ''Windows'' @ [ch_backslash] @ str_bytes ''System32''"

definition windows_dir :: bytes where
  "windows_dir = str_bytes ''C:'' @ [ch_backslash] @ str_bytes ''Windows''"

definition GetSystemDirectoryW :: "u32 \<Rightarrow> bool \<Rightarrow> u16 path_result" where
  "GetSystemDirectoryW sz buf = (let n = of_nat (length system_dir) in
     \<lparr>pr_ret = n, pr_buf = (if buf \<and> n < sz then Some (wide system_dir (unat sz)) else None), pr_part = None, pr_err = None\<rparr>)"

definition GetSystemDirectoryA :: "u32 \<Rightarrow> bool \<Rightarrow> u8 path_result" where
  "GetSystemDirectoryA sz buf = (let n = of_nat (length system_dir) in
     \<lparr>pr_ret = n, pr_buf = (if buf \<and> n < sz then Some (take (unat sz - 1) system_dir) else None), pr_part = None, pr_err = None\<rparr>)"

definition GetWindowsDirectoryA :: "u32 \<Rightarrow> bool \<Rightarrow> u8 path_result" where
  "GetWindowsDirectoryA sz buf = (let n = of_nat (length windows_dir) in
     if \<not> buf \<or> sz \<le> n then \<lparr>pr_ret = n + 1, pr_buf = None, pr_part = None, pr_err = None\<rparr>
     else \<lparr>pr_ret = n, pr_buf = Some windows_dir, pr_part = None, pr_err = None\<rparr>)"

definition c_units :: "u16 list \<Rightarrow> u16 list" where
  "c_units w = takeWhile (\<lambda>c. c \<noteq> 0) w"

definition GetLongPathNameW :: "u16 list option \<Rightarrow> u32 \<Rightarrow> bool \<Rightarrow> u16 path_result" where
  "GetLongPathNameW path sz buf = (case path of
     None \<Rightarrow> \<lparr>pr_ret = 0, pr_buf = None, pr_part = None, pr_err = None\<rparr>
   | Some p \<Rightarrow> let n = of_nat (length (c_units p)) in
       \<lparr>pr_ret = n, pr_buf = (if buf \<and> n < sz then Some (c_units p) else None), pr_part = None, pr_err = None\<rparr>)"

definition GetShortPathNameW :: "u16 list option \<Rightarrow> u32 \<Rightarrow> bool \<Rightarrow> u16 path_result" where
  "GetShortPathNameW path sz buf = GetLongPathNameW path sz buf"

definition GetLongPathNameA :: "bytes \<Rightarrow> u32 \<Rightarrow> bool \<Rightarrow> u8 path_result" where
  "GetLongPathNameA path sz buf = (let r = GetLongPathNameW (Some (wide path PATH_MAX)) (of_nat PATH_MAX) True in
     \<lparr>pr_ret = pr_ret r,
      pr_buf = (if buf \<and> sz \<noteq> 0 then map_option c_string (wchar_to_utf8 (pr_buf r) (unat sz)) else None),
      pr_part = None, pr_err = None\<rparr>)"

definition GetShortPathNameA :: "bytes \<Rightarrow> u32 \<Rightarrow> bool \<Rightarrow> u8 path_result" where
  "GetShortPathNameA path sz buf = GetLongPathNameA path sz buf"

text \<open>\<^verbatim>\<open>PathMatchSpecW\<close> matches the last part of the path: after the last backslash or, without one, the last slash.\<close>

definition match_base :: "bytes \<Rightarrow> bytes" where
  "match_base p = (case last_split ch_backslash p of Some (_, b) \<Rightarrow> b
     | None \<Rightarrow> (case last_split ch_slash p of Some (_, b) \<Rightarrow> b | None \<Rightarrow> p))"

definition PathMatchSpecW :: "(bytes \<Rightarrow> bytes \<Rightarrow> bool) \<Rightarrow> u16 list \<Rightarrow> u16 list \<Rightarrow> bool" where
  "PathMatchSpecW fnmatch path spec \<longleftrightarrow>
    win_fnmatch fnmatch (case wchar_to_utf8 (Some spec) 260 of Some b \<Rightarrow> c_string b | None \<Rightarrow> []) (match_base (utf8_arg path))"

definition PathMatchSpecA :: "(bytes \<Rightarrow> bytes \<Rightarrow> bool) \<Rightarrow> bytes \<Rightarrow> bytes \<Rightarrow> bool" where
  "PathMatchSpecA fnmatch path spec \<longleftrightarrow> PathMatchSpecW fnmatch (wide path PATH_MAX) (wide spec 260)"

section \<open>Environment strings\<close>

text \<open>
  The loop of \<^verbatim>\<open>ExpandEnvironmentStringsW\<close>: \<open>q\<close> is what is written to \<^verbatim>\<open>out\<close>, \<open>lim\<close> its room.  A reference
  to a variable that is not set (or whose name is too long) is copied from its first \<^verbatim>\<open>%\<close>
  on like any other character; a value without room is left out.
\<close>

definition var_ref :: "(bytes \<Rightarrow> bytes option) \<Rightarrow> bytes \<Rightarrow> (bytes \<times> nat) option" where
  "var_ref getenv p = (case p of
     [] \<Rightarrow> None
   | c # ns \<Rightarrow> if c = 37 \<and> 37 \<in> set ns
       then let nm = takeWhile (\<lambda>b. b \<noteq> 37) ns in
         if length nm < 256 then map_option (\<lambda>v. (v, length nm + 2)) (getenv nm) else None
       else None)"

function expand_loop :: "(bytes \<Rightarrow> bytes option) \<Rightarrow> nat \<Rightarrow> bytes \<Rightarrow> bytes \<Rightarrow> bytes" where
  "expand_loop getenv lim q p =
    (if p = [] \<or> \<not> length q < lim then q
     else (case var_ref getenv p of
       Some (v, k) \<Rightarrow> expand_loop getenv lim (if length q + length v < lim then q @ v else q) (drop k p)
     | None \<Rightarrow> expand_loop getenv lim (q @ [hd p]) (tl p)))"
  by pat_completeness auto
termination
  by (relation "measure (\<lambda>(getenv, lim, q, p). length p)")
    (auto simp: var_ref_def Let_def split: list.splits if_splits option.splits)

declare expand_loop.simps [simp del]

definition ExpandEnvironmentStringsW :: "(bytes \<Rightarrow> bytes option) \<Rightarrow> u16 list \<Rightarrow> u32 \<Rightarrow> bool \<Rightarrow> u16 path_result" where
  "ExpandEnvironmentStringsW getenv src sz dst =
    (let narrow = (case wchar_to_utf8 (Some src) 32768 of Some b \<Rightarrow> c_string b | None \<Rightarrow> []);
         out = expand_loop getenv 32767 [] narrow
     in if \<not> dst \<or> sz = 0 then \<lparr>pr_ret = of_nat (length out) + 1, pr_buf = None, pr_part = None, pr_err = None\<rparr>
        else let w = wide out (unat sz) in
          \<lparr>pr_ret = of_nat (length w) + 1, pr_buf = Some w, pr_part = None, pr_err = None\<rparr>)"

section \<open>Full paths as lists of names\<close>

text \<open>
  What a full path means: the list of the names from the root.  \<open>walk\<close> is the specification
  of a path against a directory: an empty name or a dot stays, two dots go up (not above the root),
  any other name goes down.
\<close>

definition render :: "bytes list \<Rightarrow> bytes" where
  "render cs = (if cs = [] then [ch_slash] else concat (map ((#) ch_slash) cs))"

fun split_on :: "'a \<Rightarrow> 'a list \<Rightarrow> 'a list list" where
  "split_on c [] = [[]]"
| "split_on c (x # xs) = (if x = c then [] # split_on c xs else (x # hd (split_on c xs)) # tl (split_on c xs))"

definition walk_step :: "bytes list \<Rightarrow> bytes \<Rightarrow> bytes list" where
  "walk_step cs k = (if k = [46, 46] then butlast cs else if k = [] \<or> k = [46] then cs else cs @ [k])"

definition walk :: "bytes list \<Rightarrow> bytes \<Rightarrow> bytes list" where
  "walk cs p = foldl walk_step cs (split_on ch_slash p)"

definition proper :: "bytes \<Rightarrow> bool" where
  "proper c \<longleftrightarrow> c \<noteq> [] \<and> c \<noteq> [46] \<and> c \<noteq> [46, 46] \<and> ch_slash \<notin> set c"

lemma split_on_nonempty: "split_on c xs \<noteq> []"
  by (cases xs) auto

lemma split_on_names: "k \<in> set (split_on c p) \<Longrightarrow> c \<notin> set k"
proof (induction p arbitrary: k)
  case (Cons x xs)
  show ?case using Cons split_on_nonempty[of c xs] by (cases "split_on c xs") (auto split: if_splits)
qed simp

lemma split_on_takeWhile:
  "split_on c p = takeWhile (\<lambda>x. x \<noteq> c) p #
    (if c \<in> set p then split_on c (drop (length (takeWhile (\<lambda>x. x \<noteq> c) p) + 1) p) else [])"
  by (induction p) auto

lemma walk_takeWhile:
  "p \<noteq> [] \<Longrightarrow> walk cs p = (let k = takeWhile (\<lambda>x. x \<noteq> ch_slash) p; cs' = walk_step cs k in
    if ch_slash \<in> set p then walk cs' (drop (length k + 1) p) else cs')"
  unfolding walk_def by (subst split_on_takeWhile) (simp add: Let_def)

lemma walk_step_proper: "list_all proper cs \<Longrightarrow> ch_slash \<notin> set k \<Longrightarrow> list_all proper (walk_step cs k)"
  by (auto simp: walk_step_def proper_def list_all_iff dest: in_set_butlastD)

lemma walk_proper: "list_all proper cs \<Longrightarrow> list_all proper (walk cs p)"
proof -
  have "list_all proper (foldl walk_step cs ks)" if "list_all proper cs" "\<And>k. k \<in> set ks \<Longrightarrow> ch_slash \<notin> set k" for ks
    using that by (induction ks arbitrary: cs) (auto intro: walk_step_proper)
  from this[of "split_on ch_slash p"] show "list_all proper cs \<Longrightarrow> list_all proper (walk cs p)"
    unfolding walk_def using split_on_names[of _ ch_slash p] by blast
qed

lemma render_snoc: "render (cs @ [c]) = (if cs = [] then [] else render cs) @ ch_slash # c"
  by (simp add: render_def)

lemma render_long: "list_all proper cs \<Longrightarrow> 1 < length (render cs) \<longleftrightarrow> cs \<noteq> []"
  by (cases cs) (auto simp: render_def proper_def)

lemma drop_name_append: "ch_slash \<notin> set c \<Longrightarrow> drop_name (f @ ch_slash # c) = f @ [ch_slash]"
proof (induction c rule: rev_induct)
  case Nil
  then show ?case by (simp add: drop_name.simps)
next
  case (snoc x xs)
  then show ?case using drop_name.simps[of "f @ ch_slash # xs @ [x]"] by (simp add: butlast_append)
qed

lemma full_up_render:
  assumes "list_all proper cs"
  shows "full_up (render cs) = render (butlast cs)"
proof (cases cs rule: rev_cases)
  case Nil
  then show ?thesis by (simp add: render_def full_up_def drop_name.simps)
next
  case (snoc ds c)
  then have "ch_slash \<notin> set c" using assms by (simp add: proper_def)
  then show ?thesis using snoc assms render_long[of ds]
    by (auto simp: full_up_def render_snoc drop_name_append Let_def drop_name_append[of c "[]", simplified]) (simp add: render_def)
qed

lemma full_step_render:
  assumes "list_all proper cs" and "length (render cs) + 1 + length k < PATH_MAX"
  shows "full_step (render cs) k = Some (render (walk_step cs k))"
  using assms render_long[OF assms(1)] full_up_render[OF assms(1)]
  by (auto simp: full_step_def walk_step_def render_snoc) (simp_all add: render_def)

lemma length_render_step: "length (render (walk_step cs k)) \<le> length (render cs) + 1 + length k"
proof (cases cs rule: rev_cases)
  case (snoc ds c)
  then show ?thesis by (auto simp: walk_step_def render_snoc) (simp_all add: render_def)
qed (simp add: walk_step_def render_def)

lemma full_loop_render:
  assumes "list_all proper cs" and "length (render cs) + length p + 1 < PATH_MAX"
  shows "full_loop (render cs) p = Some (render (walk cs p))"
  using assms
proof (induction "length p" arbitrary: cs p rule: less_induct)
  case less
  show ?case
  proof (cases "p = []")
    case True
    then show ?thesis by (simp add: full_loop.simps walk_def walk_step_def)
  next
    case False
    define k where "k = takeWhile (\<lambda>x. x \<noteq> ch_slash) p"
    define r where "r = drop (length k + 1) p"
    have k: "length k \<le> length p" by (simp add: k_def length_takeWhile_le)
    have sl: "ch_slash \<notin> set k" by (auto simp: k_def dest: set_takeWhileD)
    have l: "full_loop (render cs) p = full_loop (render (walk_step cs k)) r"
      using False full_step_render[OF less.prems(1), of k] less.prems(2) k
      by (simp add: full_loop.simps[of _ p] Let_def k_def r_def)
    show ?thesis
    proof (cases "ch_slash \<in> set p")
      case True
      then have "length k < length p" by (metis k_def k le_neq_implies_less takeWhile_eq_take take_all_iff order_refl sl)
      then have r: "length r + length k + 1 = length p" "length r < length p" by (simp_all add: r_def)
      have "full_loop (render (walk_step cs k)) r = Some (render (walk (walk_step cs k) r))"
        using less.prems r length_render_step[of cs k] by (intro less.hyps walk_step_proper sl) auto
      then show ?thesis using True l walk_takeWhile[OF False, of cs] by (simp add: Let_def k_def r_def)
    next
      case 2: False
      then have "k = p" by (auto simp: k_def takeWhile_eq_all_conv)
      then have "r = []" by (simp add: r_def)
      then show ?thesis using 2 l walk_takeWhile[OF False, of cs] by (simp add: full_loop.simps[of _ "[]"] Let_def k_def)
    qed
  qed
qed

definition full_name :: "bytes list \<Rightarrow> bytes \<Rightarrow> bytes" where
  "full_name cs p = (let ds = walk (if hd p = ch_slash then [] else cs) p in
     render ds @ (if ds \<noteq> [] \<and> last p = ch_slash then [ch_slash] else []))"

lemma length_render_walk:
  assumes "list_all proper cs" shows "length (render (walk cs p)) \<le> length (render cs) + length p + 1"
proof -
  have "length (render (foldl walk_step cs ks)) \<le> length (render cs) + length (concat ks) + length ks" for ks
  proof (induction ks arbitrary: cs)
    case (Cons k ks)
    show ?case using length_render_step[of cs k] order_trans[OF Cons.IH[of "walk_step cs k"]] by simp
  qed simp
  moreover have "length (concat (split_on c xs)) + length (split_on c xs) = length xs + 1" for c :: u8 and xs
  proof (induction xs)
    case (Cons x xs)
    then show ?case by (cases "split_on c xs") auto
  qed simp
  ultimately show ?thesis unfolding walk_def by (metis add.assoc)
qed

lemma full_path_render:
  assumes "p \<noteq> []" and "list_all proper cs" and "length (render cs) + length p + 2 < PATH_MAX"
  shows "full_path (Inr (render cs)) p = Inr (full_name cs p)"
proof -
  define start where "start = (if hd p = ch_slash then [] else cs)"
  have st: "list_all proper start" "length (render start) \<le> length (render cs)"
    using assms(2) by (auto simp: start_def render_def proper_def neq_Nil_conv Suc_le_eq)
  have l: "full_loop (render start) p = Some (render (walk start p))"
    using full_loop_render[OF st(1), of p] st(2) assms(3) by simp
  have b: "length (render (walk start p)) + 1 < PATH_MAX" using length_render_walk[OF st(1), of p] st(2) assms(3) by linarith
  have s: "(if p \<noteq> [] \<and> hd p = ch_slash then Inr [ch_slash] else Inr (render cs)) = Inr (render start)"
    using assms(1) by (simp add: start_def render_def)
  show ?thesis
    unfolding full_path_def full_name_def s using l b render_long[OF walk_proper[OF st(1)], of p]
    by (simp add: start_def[symmetric] Let_def)
qed


definition sample_relative :: "u16 list" where
  "sample_relative = map (\<lambda>c. ucast (of_char c :: u8)) ''..'' @ [92] @ map (\<lambda>c. ucast (of_char c :: u8)) ''b'' @ [92, 46, 92] @
     map (\<lambda>c. ucast (of_char c :: u8)) ''c''"

lemma sample_relative_narrow: "narrow_path (utf8_arg sample_relative) = str_bytes ''../b/./c''"
  by code_simp


text \<open>The walk of a full path from anywhere leads through its own names.\<close>

lemma split_on_append: "split_on c (xs @ c # ys) = split_on c xs @ split_on c ys"
proof (induction xs)
  case (Cons x xs)
  then show ?case using split_on_nonempty[of c xs] by (cases "split_on c xs") auto
qed simp

lemma split_on_whole: "c \<notin> set xs \<Longrightarrow> split_on c xs = [xs]"
  by (induction xs) auto

lemma walk_append: "walk cs (xs @ ch_slash # ys) = walk (walk cs xs) ys"
  by (simp add: walk_def split_on_append)

lemma walk_render: "list_all proper ds \<Longrightarrow> walk cs (render ds) = cs @ ds"
proof (induction ds rule: rev_induct)
  case Nil
  then show ?case by (simp add: render_def walk_def walk_step_def)
next
  case (snoc d ds)
  then have d: "walk xs d = xs @ [d]" for xs
    by (auto simp: walk_def proper_def split_on_whole walk_step_def)
  have w: "walk cs [] = cs" by (simp add: walk_def walk_step_def)
  show ?case
  proof (cases "ds = []")
    case True
    then show ?thesis using d w walk_append[of cs "[]" d] by (simp add: render_def)
  next
    case False
    then show ?thesis using d snoc by (simp add: render_snoc walk_append)
  qed
qed

lemma walk_full: "list_all proper ds \<Longrightarrow> walk [] (render ds @ (if b then [ch_slash] else [])) = ds"
  using walk_append[of "[]" "render ds" "[]"] walk_render[of ds "[]"] by (auto simp: walk_def walk_step_def)

lemma last_render: "list_all proper ds \<Longrightarrow> last (render ds) = ch_slash \<longleftrightarrow> ds = []"
proof (cases ds rule: rev_cases)
  case (snoc es d)
  then show "list_all proper ds \<Longrightarrow> ?thesis" by (auto simp: render_snoc proper_def) (metis last_in_set)
qed (simp add: render_def)

lemma hd_render: "render ds \<noteq> [] \<and> hd (render ds) = ch_slash"
  by (cases ds) (auto simp: render_def)

lemma full_name_stable:
  assumes "list_all proper ds"
  shows "full_name cs (render ds @ (if ds \<noteq> [] \<and> b then [ch_slash] else [])) = render ds @ (if ds \<noteq> [] \<and> b then [ch_slash] else [])"
  using walk_full[OF assms, of "ds \<noteq> [] \<and> b"] last_render[OF assms] hd_render[of ds]
  by (auto simp: full_name_def Let_def hd_append split: if_splits)

lemma narrow_win_bytes:
  assumes "f \<noteq> []" "hd f = ch_slash" "ch_backslash \<notin> set f" "0 \<notin> set f" "length f + 3 \<le> PATH_MAX"
  shows "narrow_path (win_bytes f) = f"
proof -
  obtain w where "posix_to_win_path (Some f) PATH_MAX = Some (w @ [0])" "0 \<notin> set w"
      "win_path_to_posix (Some w) PATH_MAX = Some (f @ [0])"
    using path_round_trip[of f PATH_MAX PATH_MAX] assms by auto
  then show ?thesis using assms(4) by (simp add: win_bytes_def narrow_path_def c_string_nul)
qed

text \<open>
  Full paths are a fixed point.  What \<open>GetFullPathNameW\<close> computed, given back as a Windows path from whatever
  directory is then current, is the same file name: the translation to a Windows path and back and the
  walk from the root change nothing, a trailing separator included.
\<close>

theorem full_path_stable:
  assumes "full_path (Inr (render cs)) p = Inr full" and "p \<noteq> []" and "list_all proper cs" and "list_all proper cs'"
    and "length (render cs) + length p + 6 < PATH_MAX" and "length (render cs') + length full + 2 < PATH_MAX"
    and "ch_backslash \<notin> set full" and "0 \<notin> set full"
  shows "full_path (Inr (render cs')) (narrow_path (win_bytes full)) = Inr full"
proof -
  define ds where "ds = walk (if hd p = ch_slash then [] else cs) p"
  have ds: "list_all proper ds" using walk_proper assms(3) by (simp add: ds_def)
  have f: "full = render ds @ (if ds \<noteq> [] \<and> last p = ch_slash then [ch_slash] else [])"
    using full_path_render[OF assms(2,3)] assms(1,5) by (simp add: full_name_def ds_def Let_def)
  have ne: "full \<noteq> []" "hd full = ch_slash" using hd_render[of ds] by (auto simp: f)
  have "render cs' \<noteq> []" using hd_render[of cs'] by simp
  then have "narrow_path (win_bytes full) = full" using narrow_win_bytes[OF ne assms(7,8)] assms(6) by (cases "render cs'") simp_all
  then show ?thesis
    using full_path_render[OF ne(1) assms(4,6)] full_name_stable[OF ds, of cs' "last p = ch_slash"] by (simp add: f)
qed

theorem full_path_stable_witness:
  "full_path (Inr (render [str_bytes ''usr''])) (narrow_path (win_bytes (str_bytes ''/home/b/c''))) = Inr (str_bytes ''/home/b/c'')"
proof (rule full_path_stable[where p = "str_bytes ''../b/./c''" and cs = "[str_bytes ''home'', str_bytes ''a'']"])
  show "full_path (Inr (render [str_bytes ''home'', str_bytes ''a''])) (str_bytes ''../b/./c'') = Inr (str_bytes ''/home/b/c'')"
    by code_simp
qed (simp_all add: str_bytes_def proper_def render_def PATH_MAX_def)

section \<open>Bounds\<close>

lemma win_bytes_eq:
  "0 \<notin> set p \<Longrightarrow> win_bytes p = (let pre = (if p \<noteq> [] \<and> hd p = ch_slash then [67, ch_colon] else []) in
    pre @ take (PATH_MAX - 1 - length pre) (map to_backslash p))"
proof -
  assume "0 \<notin> set p"
  then have z: "0 \<notin> set (take n (map to_backslash p))" for n by (auto simp: to_backslash_def dest!: in_set_takeD)
  define pre :: bytes where "pre = (if p \<noteq> [] \<and> hd p = ch_slash then [67, ch_colon] else [])"
  have "c_string ((pre @ take (PATH_MAX - 1 - length pre) (map to_backslash p)) @ [0])
      = pre @ take (PATH_MAX - 1 - length pre) (map to_backslash p)"
    using z by (intro c_string_nul) (auto simp: pre_def split: if_splits)
  moreover have "posix_to_win_path (Some p) PATH_MAX = Some (pre @ take (PATH_MAX - 1 - length pre) (map to_backslash p) @ [0])"
    by (auto simp: posix_to_win_path_def PATH_MAX_def hd_conv_nth pre_def)
  ultimately show ?thesis by (simp add: win_bytes_def pre_def[symmetric] Let_def)
qed

text \<open>
  \<open>GetTempPathW\<close> stays inside its buffers for every value of \<^verbatim>\<open>TEMP\<close> with room for the drive, the two
  separators and the NUL; when an absolute \<^verbatim>\<open>TEMP\<close> of 4093 bytes or more loses its separator to the cut, the
  separator that is put back and its NUL take 4097 bytes, one more than the buffer has.
\<close>

theorem temp_path_bounds:
  assumes "getenv (str_bytes ''TEMP'') = Some tmp" and "0 \<notin> set tmp"
  shows "(length tmp + 5 \<le> PATH_MAX \<longrightarrow> length (temp_win getenv) \<le> PATH_MAX) \<and>
    (tmp \<noteq> [] \<and> hd tmp = ch_slash \<and> PATH_MAX \<le> length tmp + 3 \<and> tmp ! (PATH_MAX - 4) \<noteq> ch_slash \<and> tmp ! (PATH_MAX - 4) \<noteq> ch_backslash
      \<longrightarrow> length (temp_win getenv) = PATH_MAX + 1)"
proof (intro conjI impI)
  define p where "p = snprintf_s PATH_MAX (tmp @ [ch_slash])"
  have z: "0 \<notin> set p" using assms(2) by (auto simp: p_def snprintf_s_def dest: in_set_takeD)
  have t: "temp_win getenv = (if win_bytes p = [] \<or> last (win_bytes p) \<noteq> ch_backslash then win_bytes p @ [ch_backslash] else win_bytes p) @ [0]"
    by (simp add: temp_win_def assms(1) p_def)
  {
    assume "length tmp + 5 \<le> PATH_MAX"
    then have "length p \<le> length tmp + 1" by (simp add: p_def snprintf_s_def)
    then have "length (win_bytes p) \<le> length tmp + 3" by (auto simp: win_bytes_eq[OF z] Let_def)
    then show "length (temp_win getenv) \<le> PATH_MAX" using \<open>length tmp + 5 \<le> PATH_MAX\<close> by (simp add: t)
  next
    assume l: "tmp \<noteq> [] \<and> hd tmp = ch_slash \<and> PATH_MAX \<le> length tmp + 3 \<and> tmp ! (PATH_MAX - 4) \<noteq> ch_slash \<and> tmp ! (PATH_MAX - 4) \<noteq> ch_backslash"
    have "take 4093 p = take 4093 tmp" using l by (simp add: p_def snprintf_s_def PATH_MAX_def)
    moreover have "p \<noteq> []" "hd p = ch_slash" using l by (auto simp: p_def snprintf_s_def PATH_MAX_def hd_append)
    ultimately have w: "win_bytes p = [67, ch_colon] @ map to_backslash (take 4093 tmp)"
      by (simp add: win_bytes_eq[OF z] Let_def PATH_MAX_def take_map)
    have "take 4093 tmp = take 4092 tmp @ [tmp ! 4092]" using l take_Suc_conv_app_nth[of 4092 tmp] by (simp add: PATH_MAX_def)
    then have "last (win_bytes p) \<noteq> ch_backslash" using l by (simp add: w PATH_MAX_def to_backslash_def)
    then show "length (temp_win getenv) = PATH_MAX + 1" using l by (simp add: t w PATH_MAX_def)
  }
qed

theorem temp_path_bounds_witness:
  "length (temp_win (\<lambda>_. Some (str_bytes ''/var/tmp''))) \<le> PATH_MAX \<and>
   length (temp_win (\<lambda>_. Some (ch_slash # replicate 4092 97))) = PATH_MAX + 1"
  using temp_path_bounds[of "\<lambda>_. Some (str_bytes ''/var/tmp'')" "str_bytes ''/var/tmp''"]
    temp_path_bounds[of "\<lambda>_. Some (ch_slash # replicate 4092 97)" "ch_slash # replicate 4092 97"]
  by (simp add: PATH_MAX_def str_bytes_def)

lemma expand_loop_bound: "length q \<le> lim \<Longrightarrow> length (expand_loop getenv lim q p) \<le> lim"
proof (induction getenv lim q p rule: expand_loop.induct)
  case (1 getenv lim q p)
  show ?case
  proof (cases "p = [] \<or> \<not> length q < lim")
    case True
    then show ?thesis using 1 by (simp add: expand_loop.simps[of getenv lim q p])
  next
    case False
    then show ?thesis using 1
      by (cases "var_ref getenv p") (auto simp: expand_loop.simps[of getenv lim q p])
  qed
qed

lemma expand_loop_plain:
  assumes "37 \<notin> set p" and "length q + length p \<le> lim"
  shows "expand_loop getenv lim q p = q @ p"
  using assms
proof (induction p arbitrary: q)
  case (Cons c p)
  then show ?case by (simp add: expand_loop.simps[of getenv lim q "c # p"] var_ref_def)
qed (simp add: expand_loop.simps)

end
