(* ===== verification/Shim_Module.thy ===== *)
theory Shim_Module
  imports Shim_Fullpath
begin

text \<open>
  Libraries (shim_kernel32_module.hpp and the ANSI variants in shim_kernel32_misc.hpp,
  shim_kernel32_file_a.hpp and shim_kernel32_tail.hpp).  The dynamic linker of the host is an
  argument: \<^verbatim>\<open>dlopen\<close>, \<^verbatim>\<open>dlsym\<close> and \<^verbatim>\<open>dladdr\<close> on addresses (0 is \<^verbatim>\<open>NULL\<close>, which is \<^verbatim>\<open>RTLD_DEFAULT\<close> for \<^verbatim>\<open>dlsym\<close>) and
  the link \<^verbatim>\<open>/proc/self/exe\<close>; \<open>img\<close> is \<^verbatim>\<open>g_image_base\<close>.  \<open>None\<close> is a read outside a buffer.
\<close>

abbreviation ERROR_MOD_NOT_FOUND :: u32 where "ERROR_MOD_NOT_FOUND \<equiv> 126"
abbreviation ERROR_PROC_NOT_FOUND :: u32 where "ERROR_PROC_NOT_FOUND \<equiv> 127"
abbreviation LOAD_LIBRARY_AS_DATAFILE :: u32 where "LOAD_LIBRARY_AS_DATAFILE \<equiv> 2"
abbreviation RTLD_LAZY :: u32 where "RTLD_LAZY \<equiv> 1"
abbreviation RTLD_NOLOAD :: u32 where "RTLD_NOLOAD \<equiv> 4"
abbreviation RTLD_GLOBAL :: u32 where "RTLD_GLOBAL \<equiv> 0x100"
abbreviation RTLD_DEFAULT :: u64 where "RTLD_DEFAULT \<equiv> 0"

record dl_host =
  dlopen :: "bytes \<Rightarrow> u32 \<Rightarrow> u64"
  dlsym :: "u64 \<Rightarrow> bytes \<Rightarrow> u64"
  dladdr :: "u64 \<Rightarrow> (bytes \<times> u64) option"
  self_exe :: "errno + bytes"

section \<open>The Windows DLLs the shim stands for\<close>

datatype WinModuleId = WM_KERNEL32 | WM_USER32 | WM_ADVAPI32 | WM_SHELL32 | WM_SHLWAPI | WM_WINMM | WM_MSVCRT | WM_PSAPI

definition all_modules :: "WinModuleId list" where
  "all_modules = [WM_KERNEL32, WM_USER32, WM_ADVAPI32, WM_SHELL32, WM_SHLWAPI, WM_WINMM, WM_MSVCRT, WM_PSAPI]"

fun wm_index :: "WinModuleId \<Rightarrow> nat" where
  "wm_index WM_KERNEL32 = 0"
| "wm_index WM_USER32 = 1"
| "wm_index WM_ADVAPI32 = 2"
| "wm_index WM_SHELL32 = 3"
| "wm_index WM_SHLWAPI = 4"
| "wm_index WM_WINMM = 5"
| "wm_index WM_MSVCRT = 6"
| "wm_index WM_PSAPI = 7"

abbreviation WM_COUNT :: nat where "WM_COUNT \<equiv> 8"

fun g_win_module_prefix :: "WinModuleId \<Rightarrow> bytes" where
  "g_win_module_prefix WM_KERNEL32 = str_bytes ''kernel32_''"
| "g_win_module_prefix WM_USER32 = str_bytes ''user32_''"
| "g_win_module_prefix WM_ADVAPI32 = str_bytes ''advapi32_''"
| "g_win_module_prefix WM_SHELL32 = str_bytes ''shell32_''"
| "g_win_module_prefix WM_SHLWAPI = str_bytes ''shlwapi_''"
| "g_win_module_prefix WM_WINMM = str_bytes ''winmm_''"
| "g_win_module_prefix WM_MSVCRT = str_bytes ''msvcrt_''"
| "g_win_module_prefix WM_PSAPI = str_bytes ''psapi_''"

definition WIN_MODULE_BASE :: u64 where
  "WIN_MODULE_BASE = of_nat MAX_HANDLES + 1"

definition WIN_MODULE_HANDLE :: "WinModuleId \<Rightarrow> u64" where
  "WIN_MODULE_HANDLE wm = WIN_MODULE_BASE + of_nat (wm_index wm)"

text \<open>\<^verbatim>\<open>IS_WIN_MODULE\<close> and \<^verbatim>\<open>WIN_MODULE_IDX\<close>, on signed pointers.\<close>

definition win_module :: "u64 \<Rightarrow> WinModuleId option" where
  "win_module h = (if sint WIN_MODULE_BASE \<le> sint h \<and> sint h < sint WIN_MODULE_BASE + int WM_COUNT
     then Some (all_modules ! nat (sint h - sint WIN_MODULE_BASE)) else None)"

definition MAIN_IMAGE_MODULE :: u64 where
  "MAIN_IMAGE_MODULE = of_nat MAX_HANDLES + 1 + of_nat WM_COUNT"

definition is_main_image :: "u64 \<Rightarrow> u64 \<Rightarrow> bool" where
  "is_main_image img h \<longleftrightarrow> h = MAIN_IMAGE_MODULE \<or> h = img"

definition win_dll_classify :: "bytes \<Rightarrow> WinModuleId option" where
  "win_dll_classify lower =
    (if lower = str_bytes ''kernel32'' then Some WM_KERNEL32
     else if lower = str_bytes ''user32'' then Some WM_USER32
     else if lower = str_bytes ''advapi32'' then Some WM_ADVAPI32
     else if lower = str_bytes ''shell32'' then Some WM_SHELL32
     else if lower = str_bytes ''shlwapi'' then Some WM_SHLWAPI
     else if lower = str_bytes ''winmm'' then Some WM_WINMM
     else if lower = str_bytes ''msvcrt'' then Some WM_MSVCRT
     else if take 9 lower = str_bytes ''vcruntime'' then Some WM_MSVCRT
     else if lower = str_bytes ''ucrtbase'' then Some WM_MSVCRT
     else if lower = str_bytes ''psapi'' then Some WM_PSAPI
     else None)"

definition dll_lower :: "u8 \<Rightarrow> u8" where
  "dll_lower c = (if 65 \<le> c \<and> c \<le> 90 then c + 32 else c)"

text \<open>The name after the last separator of either kind.\<close>

fun dll_base :: "bytes \<Rightarrow> bytes \<Rightarrow> bytes" where
  "dll_base base [] = base"
| "dll_base base (c # cs) = dll_base (if c = ch_slash \<or> c = ch_backslash then cs else base) cs"

definition win_dll_basename :: "bytes \<Rightarrow> nat \<Rightarrow> bytes" where
  "win_dll_basename path out_sz =
    (let out = map dll_lower (take (out_sz - 1) (dll_base path path)); n = length out in
     if 4 < n \<and> drop (n - 4) out = str_bytes ''.dll'' then take (n - 4) out else out)"

text \<open>What \<^verbatim>\<open>LoadLibrary\<close> and \<^verbatim>\<open>GetModuleHandle\<close> do with a library the host does not have.\<close>

definition pseudo_module :: "bytes \<Rightarrow> nat \<Rightarrow> shim \<Rightarrow> u64 \<times> shim" where
  "pseudo_module narrow t s = (case win_dll_classify (win_dll_basename narrow 64) of
     None \<Rightarrow> (0, SET_LAST_ERROR t ERROR_MOD_NOT_FOUND s)
   | Some wm \<Rightarrow> (WIN_MODULE_HANDLE wm, SET_LAST_ERROR t 0 s))"

section \<open>Module handles\<close>

definition GetModuleHandleA :: "dl_host \<Rightarrow> u64 \<Rightarrow> bytes option \<Rightarrow> nat \<Rightarrow> shim \<Rightarrow> u64 \<times> shim" where
  "GetModuleHandleA dl img name t s = (case name of
     None \<Rightarrow> (img, s)
   | Some n \<Rightarrow> let h = dlopen dl (narrow_path n) (RTLD_NOLOAD OR RTLD_LAZY) in
       if h \<noteq> 0 then (h, s) else pseudo_module n t s)"

definition GetModuleHandleW :: "dl_host \<Rightarrow> u64 \<Rightarrow> u16 list option \<Rightarrow> nat \<Rightarrow> shim \<Rightarrow> u64 \<times> shim" where
  "GetModuleHandleW dl img name t s = (case name of
     None \<Rightarrow> (img, s)
   | Some w \<Rightarrow> let h = dlopen dl (narrow_path (utf8_arg w)) (RTLD_NOLOAD OR RTLD_LAZY) in
       if h \<noteq> 0 then (h, s) else pseudo_module (utf8_arg w) t s)"

text \<open>
  \<^verbatim>\<open>GetModuleHandleExW\<close>: \<open>addr\<close> is the pointer passed as the name, \<open>name\<close> the string there; the answer, what
  \<^verbatim>\<open>*phModule\<close> is set to, and the state.
\<close>

abbreviation GET_MODULE_HANDLE_EX_FLAG_FROM_ADDRESS :: u32 where "GET_MODULE_HANDLE_EX_FLAG_FROM_ADDRESS \<equiv> 4"

definition GetModuleHandleExW ::
    "dl_host \<Rightarrow> u64 \<Rightarrow> u32 \<Rightarrow> u64 \<Rightarrow> u16 list option \<Rightarrow> nat \<Rightarrow> shim \<Rightarrow> bool \<times> u64 \<times> shim" where
  "GetModuleHandleExW dl img flags addr name t s =
    (if flags AND GET_MODULE_HANDLE_EX_FLAG_FROM_ADDRESS \<noteq> 0 then
       (if addr = 0 then (False, 0, SET_LAST_ERROR t ERROR_INVALID_PARAMETER s)
        else (case dladdr dl addr of
          None \<Rightarrow> (False, 0, SET_LAST_ERROR t ERROR_MOD_NOT_FOUND s)
        | Some (fname, fbase) \<Rightarrow>
            if fbase = img then (True, img, s)
            else let h = dlopen dl fname (RTLD_NOLOAD OR RTLD_LAZY) in
              if h = 0 then (False, 0, SET_LAST_ERROR t ERROR_MOD_NOT_FOUND s) else (True, h, s)))
     else (case GetModuleHandleW dl img name t s of (h, s') \<Rightarrow> (h \<noteq> 0, h, s')))"

definition GetModuleHandleExA ::
    "dl_host \<Rightarrow> u64 \<Rightarrow> u32 \<Rightarrow> u64 \<Rightarrow> bytes option \<Rightarrow> nat \<Rightarrow> shim \<Rightarrow> bool \<times> u64 \<times> shim" where
  "GetModuleHandleExA dl img flags addr name t s =
    (if flags AND GET_MODULE_HANDLE_EX_FLAG_FROM_ADDRESS \<noteq> 0 then GetModuleHandleExW dl img flags addr None t s
     else GetModuleHandleExW dl img flags addr (map_option (\<lambda>n. wide n PATH_MAX) name) t s)"

text \<open>The library a handle of the table stands for (0 for none).\<close>

definition handle_lib :: "u64 \<Rightarrow> shim \<Rightarrow> u64" where
  "handle_lib h s = (let idx = handle_to_idx h in
     if 0 \<le> idx \<and> kind (slot_at s idx) = H_MODULE then of_int (uval (slot_at s idx)) else 0)"

definition lib_file :: "dl_host \<Rightarrow> u64 \<Rightarrow> bytes option" where
  "lib_file dl dlh = (let sym = dlsym dl dlh (str_bytes ''_init'') in
     map_option fst (dladdr dl (if sym = 0 then dlh else sym)))"

definition GetModuleFileNameW :: "dl_host \<Rightarrow> u64 \<Rightarrow> u64 \<Rightarrow> u32 \<Rightarrow> shim \<Rightarrow> u16 path_result" where
  "GetModuleFileNameW dl img h sz s =
    (let tell = (\<lambda>tmp. let w = wide (win_bytes tmp) (unat sz) in
           \<lparr>pr_ret = of_nat (length w), pr_buf = (if sz = 0 then None else Some w), pr_part = None, pr_err = None\<rparr>) in
     if h = 0 \<or> is_main_image img h
     then (case self_exe dl of Inl e \<Rightarrow> path_fail (errno_to_win32 e) | Inr exe \<Rightarrow> tell (take (PATH_MAX - 1) exe))
     else let dlh = handle_lib h s in
       if dlh \<noteq> 0 then (case lib_file dl dlh of Some f \<Rightarrow> tell (take (PATH_MAX - 1) f) | None \<Rightarrow> tell [])
       else tell [])"

text \<open>
  The ANSI variant copies a library's path without a NUL of its own: a path of 4095 bytes or more is read past
  the buffer.
\<close>

definition GetModuleFileNameA :: "dl_host \<Rightarrow> u64 \<Rightarrow> u64 \<Rightarrow> u32 \<Rightarrow> shim \<Rightarrow> u8 path_result option" where
  "GetModuleFileNameA dl img h sz s =
    (let tell = (\<lambda>tmp. let w = take (unat sz - 1) (win_bytes tmp) in
           \<lparr>pr_ret = of_nat (length w), pr_buf = Some w, pr_part = None, pr_err = None\<rparr>) in
     if sz = 0 then Some (path_fail ERROR_INVALID_PARAMETER)
     else if h = 0 \<or> is_main_image img h
     then Some (case self_exe dl of Inl e \<Rightarrow> path_fail (errno_to_win32 e) | Inr exe \<Rightarrow> tell (take (PATH_MAX - 1) exe))
     else let dlh = handle_lib h s in
       if dlh \<noteq> 0 then (case lib_file dl dlh of
           Some f \<Rightarrow> if length f < PATH_MAX - 1 then Some (tell f) else None
         | None \<Rightarrow> Some (tell []))
       else Some \<lparr>pr_ret = 0, pr_buf = Some [], pr_part = None, pr_err = None\<rparr>)"

section \<open>Loading and looking up\<close>

definition LoadLibraryExW :: "dl_host \<Rightarrow> u16 list \<Rightarrow> u32 \<Rightarrow> nat \<Rightarrow> shim \<Rightarrow> u64 \<times> shim" where
  "LoadLibraryExW dl name flags t s =
    (let dlflags = (if flags AND LOAD_LIBRARY_AS_DATAFILE \<noteq> 0 then RTLD_LAZY else RTLD_LAZY OR RTLD_GLOBAL);
         h = dlopen dl (narrow_path (utf8_arg name)) dlflags in
     if h \<noteq> 0 then (case handle_alloc_module (uint h) t s of (hret, s') \<Rightarrow>
       if hret \<noteq> INVALID_HANDLE_VALUE then (hret, s') else pseudo_module (utf8_arg name) t (host_do (Dlclose (uint h)) s'))
     else pseudo_module (utf8_arg name) t s)"

definition LoadLibraryA :: "dl_host \<Rightarrow> bytes \<Rightarrow> nat \<Rightarrow> shim \<Rightarrow> u64 \<times> shim" where
  "LoadLibraryA dl name t s = LoadLibraryExW dl (wide name PATH_MAX) 0 t s"

definition LoadLibraryW :: "dl_host \<Rightarrow> u16 list \<Rightarrow> nat \<Rightarrow> shim \<Rightarrow> u64 \<times> shim" where
  "LoadLibraryW dl name t s = LoadLibraryExW dl name 0 t s"

definition FreeLibrary :: "u64 \<Rightarrow> u64 \<Rightarrow> shim \<Rightarrow> bool \<times> shim" where
  "FreeLibrary img h s =
    (if win_module h \<noteq> None \<or> is_main_image img h then (True, s)
     else let idx = handle_to_idx h in
       if idx < 0 \<or> kind (slot_at s idx) \<noteq> H_MODULE then (False, s)
       else (True, host_do (Dlclose (uval (slot_at s idx))) (set_slot (nat idx) \<lparr>kind = H_FREE, uval = 0\<rparr> s)))"

text \<open>
  \<^verbatim>\<open>GetProcAddress\<close>.  The name for the shim's own exports is put together in a buffer of 256 bytes:
  the prefix, then the name and one byte more (its NUL, when the name was not cut).
\<close>

definition proc_name :: "WinModuleId \<Rightarrow> bytes \<Rightarrow> bytes" where
  "proc_name wm fn = (let prefix = g_win_module_prefix wm; nlen = min (length fn) (256 - length prefix - 1) in
     prefix @ take (nlen + 1) (fn @ [0]))"

definition GetProcAddress :: "dl_host \<Rightarrow> u64 \<Rightarrow> u64 \<Rightarrow> bytes option \<Rightarrow> nat \<Rightarrow> shim \<Rightarrow> (u64 \<times> shim) option" where
  "GetProcAddress dl img h name t s =
    (let tell = (\<lambda>sym. Some (sym, if sym = 0 then SET_LAST_ERROR t ERROR_PROC_NOT_FOUND s else s)) in
     case win_module h of
       Some wm \<Rightarrow> (case name of
           None \<Rightarrow> tell 0
         | Some fn \<Rightarrow> if 0 \<in> set (proc_name wm fn) then tell (dlsym dl RTLD_DEFAULT (c_string (proc_name wm fn))) else None)
     | None \<Rightarrow>
         let dlh = (if is_main_image img h \<or> h = 0 then RTLD_DEFAULT else handle_lib h s) in
         tell (case name of None \<Rightarrow> 0 | Some fn \<Rightarrow> dlsym dl dlh fn))"

section \<open>Properties\<close>

lemma win_module_handle: "win_module (WIN_MODULE_HANDLE wm) = Some wm"
  by (cases wm) (simp_all add: win_module_def WIN_MODULE_HANDLE_def WIN_MODULE_BASE_def MAX_HANDLES_def all_modules_def)

lemma handle_not_module:
  assumes "0 \<le> handle_to_idx h" shows "win_module h = None" "h \<noteq> MAIN_IMAGE_MODULE" "h \<noteq> 0"
  using assms
  by (auto simp: handle_to_idx_def win_module_def WIN_MODULE_BASE_def MAIN_IMAGE_MODULE_def MAX_HANDLES_def Let_def split: if_splits)

lemma prefix_nonzero: "0 \<notin> set (g_win_module_prefix wm)" "length (g_win_module_prefix wm) < 255"
  by (cases wm; simp add: str_bytes_def)+

lemma proc_name_fits:
  assumes "0 \<notin> set fn"
  shows "length (g_win_module_prefix wm) + length fn < 256 \<Longrightarrow> proc_name wm fn = g_win_module_prefix wm @ fn @ [0]"
    and "0 \<in> set (proc_name wm fn) \<longleftrightarrow> length (g_win_module_prefix wm) + length fn < 256"
  using assms prefix_nonzero[of wm]
  by (auto simp: proc_name_def Let_def min_def dest: in_set_takeD split: if_splits)

text \<open>
  The functions of the Windows DLLs the shim stands for are found under the shim's names.  A library the host does not
  have whose name (any directory, any case, with or without \<^verbatim>\<open>.dll\<close>) is one of the DLLs gives a
  pseudo-handle; through it \<open>GetProcAddress\<close> looks up exactly the DLL's prefix followed by the function's name among
  the shim's exports, and freeing it changes nothing.
\<close>

theorem windows_dll_lookup:
  assumes "\<And>flags. dlopen dl (narrow_path (utf8_arg name)) flags = 0"
    and "win_dll_classify (win_dll_basename (utf8_arg name) 64) = Some wm"
    and "0 \<notin> set fn" and "length (g_win_module_prefix wm) + length fn < 256"
  shows "\<exists>h s'. LoadLibraryExW dl name flags t s = (h, s') \<and> fst (GetModuleHandleW dl img (Some name) t s) = h \<and>
    map_option fst (GetProcAddress dl img h (Some fn) t s') = Some (dlsym dl RTLD_DEFAULT (g_win_module_prefix wm @ fn)) \<and>
    FreeLibrary img h s' = (True, s')"
proof -
  have "GetProcAddress dl img (WIN_MODULE_HANDLE wm) (Some fn) t s'
      = (let sym = dlsym dl RTLD_DEFAULT (g_win_module_prefix wm @ fn) in
         Some (sym, if sym = 0 then SET_LAST_ERROR t ERROR_PROC_NOT_FOUND s' else s'))" for s'
    using proc_name_fits[OF assms(3), of wm] assms(3,4) prefix_nonzero(1)[of wm] c_string_nul[of "g_win_module_prefix wm @ fn"]
    by (simp add: GetProcAddress_def win_module_handle Let_def)
  then show ?thesis
    using assms(1,2)
    by (simp add: LoadLibraryExW_def GetModuleHandleW_def pseudo_module_def FreeLibrary_def win_module_handle Let_def)
qed

definition no_libs :: dl_host where
  "no_libs = \<lparr>dlopen = (\<lambda>_ _. 0), dlsym = (\<lambda>_ nm. if nm = str_bytes ''kernel32_FlsAlloc'' then 0x401000 else 0), dladdr = (\<lambda>_. None),
     self_exe = Inr (str_bytes ''/home/a/prog'')\<rparr>"

definition sample_dll :: "u16 list" where
  "sample_dll = map (\<lambda>c. ucast (of_char c :: u8)) ''C:'' @ [92] @ map (\<lambda>c. ucast (of_char c :: u8)) ''KERNEL32.DLL''"

lemma sample_dll_base: "win_dll_classify (win_dll_basename (utf8_arg sample_dll) 64) = Some WM_KERNEL32"
  by code_simp

theorem windows_dll_lookup_witness:
  "\<exists>h s'. LoadLibraryExW no_libs sample_dll 0 1 handles_init = (h, s') \<and>
    fst (GetModuleHandleW no_libs 0x400000 (Some sample_dll) 1 handles_init) = h \<and>
    map_option fst (GetProcAddress no_libs 0x400000 h (Some (str_bytes ''FlsAlloc'')) 1 s')
      = Some (dlsym no_libs RTLD_DEFAULT (g_win_module_prefix WM_KERNEL32 @ str_bytes ''FlsAlloc'')) \<and>
    FreeLibrary 0x400000 h s' = (True, s')"
  by (rule windows_dll_lookup) (simp_all add: no_libs_def sample_dll_base str_bytes_def)

text \<open>
  A name too long for the buffer is not refused: \<open>GetProcAddress\<close> through a pseudo-handle reads outside its 256 bytes
  exactly when prefix and name together have 256 bytes or more.
\<close>

theorem proc_address_overread:
  assumes "0 \<notin> set fn"
  shows "GetProcAddress dl img (WIN_MODULE_HANDLE wm) (Some fn) t s = None \<longleftrightarrow> 256 \<le> length (g_win_module_prefix wm) + length fn"
  using proc_name_fits(2)[OF assms, of wm] by (auto simp: GetProcAddress_def win_module_handle Let_def)

theorem proc_address_overread_witness:
  "GetProcAddress no_libs 0x400000 (WIN_MODULE_HANDLE WM_KERNEL32) (Some (replicate 247 65)) 1 handles_init = None"
  by (subst proc_address_overread) (simp_all add: str_bytes_def)

text \<open>
  The life of a library of the host.  \<open>LoadLibraryExW\<close> puts it in a free slot; \<open>GetProcAddress\<close> through the handle asks that library
  and no other; \<open>FreeLibrary\<close> closes it once and empties the slot, after which the handle is refused.
\<close>

theorem library_life_cycle:
  assumes "dlopen dl (narrow_path (utf8_arg name)) (if flags AND LOAD_LIBRARY_AS_DATAFILE \<noteq> 0 then RTLD_LAZY else RTLD_LAZY OR RTLD_GLOBAL) = lib"
    and "lib \<noteq> 0" and "length (g_handles s) = MAX_HANDLES" and "find_free s = Some i" and "img \<noteq> idx_to_handle (int i)"
  shows "\<exists>h s1 s2. LoadLibraryExW dl name flags t s = (h, s1) \<and> h \<noteq> INVALID_HANDLE_VALUE \<and>
    map_option fst (GetProcAddress dl img h (Some fn) t s1) = Some (dlsym dl lib fn) \<and>
    FreeLibrary img h s1 = (True, s2) \<and> host_trace s2 = host_trace s @ [Dlclose (uint lib)] \<and>
    g_handles s2 = (g_handles s)[i := free_slot] \<and> FreeLibrary img h s2 = (False, s2)"
proof -
  note f = find_free_spec[OF assms(4,3)]
  define h where "h = idx_to_handle (int i)"
  define s1 where "s1 = set_slot i \<lparr>kind = H_MODULE, uval = uint lib\<rparr> s"
  define s2 where "s2 = host_do (Dlclose (uint lib)) (set_slot i free_slot s1)"
  have i: "handle_to_idx h = int i" "h \<noteq> INVALID_HANDLE_VALUE" using f idx_handle_valid[of i] by (simp_all add: h_def)
  have nm: "win_module h = None" "\<not> is_main_image img h" "h \<noteq> 0"
    using handle_not_module[of h] i assms(5) by (auto simp: is_main_image_def h_def)
  have at: "slot_at s1 (int i) = \<lparr>kind = H_MODULE, uval = uint lib\<rparr>" "slot_at s2 (int i) = free_slot"
    using f(2) assms(3) by (simp_all add: s1_def s2_def set_slot_def host_do_def)
  have "LoadLibraryExW dl name flags t s = (h, s1)"
    using assms(1,2,4) i by (simp add: LoadLibraryExW_def handle_alloc_module_def handle_alloc_def h_def s1_def Let_def)
  moreover have "map_option fst (GetProcAddress dl img h (Some fn) t s1) = Some (dlsym dl lib fn)"
    using nm at(1) i by (simp add: GetProcAddress_def handle_lib_def Let_def)
  moreover have "FreeLibrary img h s1 = (True, s2)" "FreeLibrary img h s2 = (False, s2)"
    using nm at i by (simp_all add: FreeLibrary_def s2_def free_slot_def Let_def)
  moreover have "host_trace s2 = host_trace s @ [Dlclose (uint lib)]" "g_handles s2 = (g_handles s)[i := free_slot]"
    by (simp_all add: s2_def s1_def host_do_def set_slot_def)
  ultimately show ?thesis using i(2) by blast
qed

definition one_lib :: dl_host where
  "one_lib = no_libs\<lparr>dlopen := \<lambda>f _. if f = str_bytes ''a.so'' then 0x7F0000001000 else 0\<rparr>"

definition sample_so :: "u16 list" where
  "sample_so = map (\<lambda>c. ucast (of_char c :: u8)) ''a.so''"

lemma sample_so_narrow: "narrow_path (utf8_arg sample_so) = str_bytes ''a.so''"
  by code_simp

theorem library_life_cycle_witness:
  "\<exists>h s1 s2. LoadLibraryExW one_lib sample_so 0 1 handles_init = (h, s1) \<and> h \<noteq> INVALID_HANDLE_VALUE \<and>
    map_option fst (GetProcAddress one_lib 0x400000 h (Some [102]) 1 s1) = Some (dlsym one_lib 0x7F0000001000 [102]) \<and>
    FreeLibrary 0x400000 h s1 = (True, s2) \<and> host_trace s2 = host_trace handles_init @ [Dlclose (uint (0x7F0000001000 :: u64))] \<and>
    g_handles s2 = (g_handles handles_init)[3 := free_slot] \<and> FreeLibrary 0x400000 h s2 = (False, s2)"
proof (rule library_life_cycle)
  show "find_free handles_init = Some 3" using find_free_start by (simp add: small_world_def)
qed (simp_all add: one_lib_def sample_so_narrow handles_init_def MAX_HANDLES_def idx_to_handle_def)

text \<open>
  The handle \<open>GetModuleHandleW\<close> gives for a library of the host is not one of the shim's table: through it \<open>GetProcAddress\<close>
  searches everything that is loaded instead of that library, and \<open>FreeLibrary\<close> refuses it, so
  that the reference \<^verbatim>\<open>dlopen\<close> took is never given back.
\<close>

theorem raw_module_handle:
  assumes "dlopen dl (narrow_path (utf8_arg name)) (RTLD_NOLOAD OR RTLD_LAZY) = lib" and "lib \<noteq> 0" and "int MAX_HANDLES + 9 < sint lib"
    and "lib \<noteq> img"
  shows "GetModuleHandleW dl img (Some name) t s = (lib, s) \<and>
    map_option fst (GetProcAddress dl img lib (Some fn) t s) = Some (dlsym dl RTLD_DEFAULT fn) \<and> FreeLibrary img lib s = (False, s)"
proof -
  have "win_module lib = None" "lib \<noteq> MAIN_IMAGE_MODULE" "handle_to_idx lib = - 1"
    using assms(3) by (auto simp: win_module_def WIN_MODULE_BASE_def MAIN_IMAGE_MODULE_def handle_to_idx_def MAX_HANDLES_def Let_def)
  then show ?thesis using assms
    by (simp add: GetModuleHandleW_def GetProcAddress_def FreeLibrary_def handle_lib_def is_main_image_def Let_def)
qed

theorem raw_module_handle_witness:
  "GetModuleHandleW one_lib 0x400000 (Some sample_so) 1 handles_init = (0x7F0000001000, handles_init) \<and>
    map_option fst (GetProcAddress one_lib 0x400000 0x7F0000001000 (Some [102]) 1 handles_init) = Some (dlsym one_lib RTLD_DEFAULT [102]) \<and>
    FreeLibrary 0x400000 0x7F0000001000 handles_init = (False, handles_init)"
  by (rule raw_module_handle) (simp_all add: one_lib_def sample_so_narrow MAX_HANDLES_def)

end
