(* ===== verification/Shim_Ctrl.thy ===== *)
theory Shim_Ctrl
  imports Shim_Types
begin

text \<open>
  Console control handlers (shim_kernel32_tail.hpp, \<^verbatim>\<open>SetConsoleCtrlHandler\<close>).  The state is the list of
  registered handlers, the pipe from the signal handler to the dispatcher thread (\<open>None\<close> before it
  exists and when it could not be made), whether \<^verbatim>\<open>pthread_once\<close> has run, the disposition of \<^verbatim>\<open>SIGINT\<close>, and
  the calls of handlers made so far.  A handler is an address (0 is \<^verbatim>\<open>NULL\<close>); what it answers is an
  argument.  A signal and the dispatcher are steps of their own, so that they come in any
  order with the calls of the program.
\<close>

datatype disposition = SIG_DFL | SIG_IGN | posix_sigint_handler

record ctrl =
  g_ctrl_handlers :: "int list"
  g_ctrl_pipe :: "u8 list option"
  g_ctrl_once :: bool
  dispatcher :: bool
  sigint :: disposition
  called :: "(int \<times> u32) list"

abbreviation CTRL_C_EVENT :: u32 where "CTRL_C_EVENT \<equiv> 0"

definition CTRL_HANDLER_MAX :: nat where
  "CTRL_HANDLER_MAX = 8"

definition ctrl_start :: ctrl where
  "ctrl_start = \<lparr>g_ctrl_handlers = [], g_ctrl_pipe = None, g_ctrl_once = False, dispatcher = False, sigint = SIG_DFL, called = []\<rparr>"

section \<open>The operations\<close>

text \<open>\<^verbatim>\<open>ctrl_init\<close> under \<^verbatim>\<open>pthread_once\<close>: whether the pipe and the thread could be made.\<close>

definition ctrl_init :: "bool \<Rightarrow> bool \<Rightarrow> ctrl \<Rightarrow> ctrl" where
  "ctrl_init pipe_ok thread_ok s =
    (if g_ctrl_once s then s
     else if pipe_ok then s\<lparr>g_ctrl_once := True, g_ctrl_pipe := Some [], dispatcher := thread_ok\<rparr>
     else s\<lparr>g_ctrl_once := True\<rparr>)"

text \<open>Removing puts the last handler in the place of the removed one.\<close>

fun swap_remove :: "'a \<Rightarrow> 'a list \<Rightarrow> 'a list" where
  "swap_remove h [] = []"
| "swap_remove h (x # xs) = (if x = h then (if xs = [] then [] else last xs # butlast xs) else x # swap_remove h xs)"

definition ctrl_update :: "int \<Rightarrow> bool \<Rightarrow> int list \<Rightarrow> int list" where
  "ctrl_update handler add hs =
    (if add then (if length hs < CTRL_HANDLER_MAX then hs @ [handler] else hs) else swap_remove handler hs)"

definition SetConsoleCtrlHandler :: "bool \<Rightarrow> bool \<Rightarrow> int \<Rightarrow> bool \<Rightarrow> ctrl \<Rightarrow> bool \<times> ctrl" where
  "SetConsoleCtrlHandler pipe_ok thread_ok handler add s =
    (if handler = 0 then (True, s\<lparr>sigint := if add then SIG_IGN else SIG_DFL\<rparr>)
     else let s1 = ctrl_init pipe_ok thread_ok s; hs = ctrl_update handler add (g_ctrl_handlers s1) in
       (True, s1\<lparr>g_ctrl_handlers := hs, sigint := if hs \<noteq> [] then posix_sigint_handler else SIG_DFL\<rparr>))"

text \<open>\<^verbatim>\<open>SIGINT\<close>: \<open>None\<close> when the default action ends the process.\<close>

definition deliver_sigint :: "ctrl \<Rightarrow> ctrl option" where
  "deliver_sigint s = (case sigint s of
     SIG_DFL \<Rightarrow> None
   | SIG_IGN \<Rightarrow> Some s
   | posix_sigint_handler \<Rightarrow> Some (case g_ctrl_pipe s of None \<Rightarrow> s | Some bs \<Rightarrow> s\<lparr>g_ctrl_pipe := Some (bs @ [ucast CTRL_C_EVENT])\<rparr>))"

text \<open>The handlers of a snapshot, from the last to the first, until one answers that it is done.\<close>

fun ctrl_invoke_all :: "(int \<Rightarrow> u32 \<Rightarrow> bool) \<Rightarrow> u32 \<Rightarrow> int list \<Rightarrow> (int \<times> u32) list" where
  "ctrl_invoke_all run ev [] = []"
| "ctrl_invoke_all run ev (h # hs) = (h, ev) # (if run h ev then [] else ctrl_invoke_all run ev hs)"

definition ctrl_dispatch :: "(int \<Rightarrow> u32 \<Rightarrow> bool) \<Rightarrow> ctrl \<Rightarrow> ctrl option" where
  "ctrl_dispatch run s =
    (if dispatcher s then (case g_ctrl_pipe s of
       Some (b # bs) \<Rightarrow> Some (s\<lparr>g_ctrl_pipe := Some bs, called := called s @ ctrl_invoke_all run (ucast b) (rev (g_ctrl_handlers s))\<rparr>)
     | _ \<Rightarrow> None)
     else None)"

section \<open>Runs\<close>

inductive ctrl_step :: "(int \<Rightarrow> u32 \<Rightarrow> bool) \<Rightarrow> ctrl \<Rightarrow> ctrl \<Rightarrow> bool" for run where
  set_handler: "ctrl_step run s (snd (SetConsoleCtrlHandler pipe_ok thread_ok handler add s))"
| interrupt: "deliver_sigint s = Some s' \<Longrightarrow> ctrl_step run s s'"
| dispatch: "ctrl_dispatch run s = Some s' \<Longrightarrow> ctrl_step run s s'"

inductive ctrl_reach :: "(int \<Rightarrow> u32 \<Rightarrow> bool) \<Rightarrow> ctrl \<Rightarrow> bool" for run where
  start: "ctrl_reach run ctrl_start"
| step: "ctrl_reach run s \<Longrightarrow> ctrl_step run s s' \<Longrightarrow> ctrl_reach run s'"

definition ctrl_ok :: "ctrl \<Rightarrow> bool" where
  "ctrl_ok s \<longleftrightarrow> length (g_ctrl_handlers s) \<le> CTRL_HANDLER_MAX \<and> 0 \<notin> set (g_ctrl_handlers s) \<and>
    (sigint s = posix_sigint_handler \<longrightarrow> g_ctrl_handlers s \<noteq> [] \<and> g_ctrl_once s) \<and>
    (g_ctrl_handlers s \<noteq> [] \<longrightarrow> g_ctrl_once s) \<and> (dispatcher s \<longrightarrow> g_ctrl_pipe s \<noteq> None) \<and> (g_ctrl_pipe s \<noteq> None \<longrightarrow> g_ctrl_once s) \<and>
    (case g_ctrl_pipe s of None \<Rightarrow> True | Some bs \<Rightarrow> list_all (\<lambda>b. b = 0) bs) \<and>
    list_all (\<lambda>(h, ev). h \<noteq> 0 \<and> ev = CTRL_C_EVENT) (called s)"

lemma swap_remove_props: "length (swap_remove h hs) \<le> length hs" "set (swap_remove h hs) \<subseteq> set hs"
proof -
  show "length (swap_remove h hs) \<le> length hs" by (induction hs) auto
  show "set (swap_remove h hs) \<subseteq> set hs" by (induction hs) (auto dest: in_set_butlastD split: if_splits)
qed

lemma ctrl_init_ok: "ctrl_ok s \<Longrightarrow> ctrl_ok (ctrl_init p q s)"
  "g_ctrl_once (ctrl_init p q s)" "g_ctrl_handlers (ctrl_init p q s) = g_ctrl_handlers s"
  by (auto simp: ctrl_ok_def ctrl_init_def split: option.splits)

lemma invoke_all_ok: "0 \<notin> set hs \<Longrightarrow> list_all (\<lambda>(h, ev'). h \<noteq> 0 \<and> ev' = ev) (ctrl_invoke_all run ev hs)"
  by (induction hs) auto

lemma ctrl_step_ok:
  assumes "ctrl_step run s s'" and "ctrl_ok s"
  shows "ctrl_ok s'"
  using assms(1)
proof (cases rule: ctrl_step.cases)
  case 1: (set_handler pipe_ok thread_ok handler add)
  define s1 where "s1 = ctrl_init pipe_ok thread_ok s"
  define hs where "hs = ctrl_update handler add (g_ctrl_handlers s1)"
  have s1: "ctrl_ok s1" "g_ctrl_once s1" "g_ctrl_handlers s1 = g_ctrl_handlers s" using ctrl_init_ok assms(2) by (simp_all add: s1_def)
  have hs: "length hs \<le> CTRL_HANDLER_MAX" "handler \<noteq> 0 \<longrightarrow> 0 \<notin> set hs"
    using s1(1) swap_remove_props[of handler "g_ctrl_handlers s1"] by (auto simp: hs_def ctrl_update_def ctrl_ok_def)
  show ?thesis
  proof (cases "handler = 0")
    case True
    then show ?thesis using assms(2) 1 by (auto simp: SetConsoleCtrlHandler_def ctrl_ok_def)
  next
    case False
    then have "s' = s1\<lparr>g_ctrl_handlers := hs, sigint := if hs \<noteq> [] then posix_sigint_handler else SIG_DFL\<rparr>"
      using 1 by (simp add: SetConsoleCtrlHandler_def s1_def hs_def Let_def)
    then show ?thesis using s1 hs False by (auto simp: ctrl_ok_def split: option.splits)
  qed
next
  case interrupt
  then show ?thesis using assms(2) by (auto simp: deliver_sigint_def ctrl_ok_def split: disposition.splits option.splits)
next
  case dispatch
  then show ?thesis using assms(2) invoke_all_ok[of "rev (g_ctrl_handlers s)" 0 run]
    by (auto simp: ctrl_dispatch_def ctrl_ok_def split: if_splits option.splits list.splits)
qed

text \<open>
  However the program registers handlers, interrupts arrive and the dispatcher runs, at most eight handlers are
  registered, none of them null; the signal handler is installed only while there are handlers and after the
  pipe was set up; the pipe holds nothing but Ctrl-C events, and only registered handlers were called, with that event.
\<close>

theorem ctrl_invariant:
  assumes "ctrl_reach run s"
  shows "ctrl_ok s"
  using assms
proof induction
  case start
  then show ?case by (simp add: ctrl_ok_def ctrl_start_def CTRL_HANDLER_MAX_def)
next
  case (step s s')
  then show ?case by (blast intro: ctrl_step_ok)
qed

theorem ctrl_invariant_witness:
  "ctrl_ok (snd (SetConsoleCtrlHandler True True 0x401000 True ctrl_start))"
  by (rule ctrl_invariant[of "\<lambda>_ _. True"]) (rule ctrl_reach.step[OF ctrl_reach.start ctrl_step.set_handler])

section \<open>Who is called\<close>

definition add_handlers :: "int list \<Rightarrow> ctrl \<Rightarrow> ctrl" where
  "add_handlers hs s = fold (\<lambda>h s. snd (SetConsoleCtrlHandler True True h True s)) hs s"

lemma add_handlers_spec:
  assumes "0 \<notin> set hs" and "length (g_ctrl_handlers s) + length hs \<le> CTRL_HANDLER_MAX" and "g_ctrl_handlers s @ hs \<noteq> []"
    and "g_ctrl_handlers s \<noteq> [] \<longrightarrow> g_ctrl_once s \<and> sigint s = posix_sigint_handler"
  shows "add_handlers hs s = (ctrl_init True True s)\<lparr>g_ctrl_handlers := g_ctrl_handlers s @ hs, sigint := posix_sigint_handler\<rparr>"
  using assms
proof (induction hs arbitrary: s)
  case Nil
  then show ?case by (simp add: add_handlers_def ctrl_init_def)
next
  case (Cons h hs)
  define s1 where "s1 = snd (SetConsoleCtrlHandler True True h True s)"
  have s1: "s1 = (ctrl_init True True s)\<lparr>g_ctrl_handlers := g_ctrl_handlers s @ [h], sigint := posix_sigint_handler\<rparr>"
    using Cons.prems by (simp add: s1_def SetConsoleCtrlHandler_def ctrl_update_def ctrl_init_ok(3) Let_def)
  have "add_handlers hs s1 = (ctrl_init True True s1)\<lparr>g_ctrl_handlers := g_ctrl_handlers s1 @ hs, sigint := posix_sigint_handler\<rparr>"
    using Cons.prems by (intro Cons.IH) (auto simp: s1 ctrl_init_ok(2))
  moreover have "ctrl_init True True s1 = s1" using ctrl_init_ok(2)[of True True s] by (simp add: s1 ctrl_init_def)
  moreover have "add_handlers (h # hs) s = add_handlers hs s1" by (simp add: add_handlers_def s1_def)
  ultimately show ?case by (simp add: s1)
qed

text \<open>
  Ctrl-C reaches the handlers in the order Windows documents: after up to eight handlers were registered, an interrupt
  and one round of the dispatcher call the one registered last first, each further one only when those before it did not
  handle the event.
\<close>

theorem ctrl_c_reaches_handlers:
  assumes "0 \<notin> set hs" and "hs \<noteq> []" and "length hs \<le> CTRL_HANDLER_MAX"
  shows "\<exists>s1 s2. deliver_sigint (add_handlers hs ctrl_start) = Some s1 \<and> ctrl_dispatch run s1 = Some s2 \<and>
    called s2 = map (\<lambda>h. (h, CTRL_C_EVENT)) (let p = takeWhile (\<lambda>h. \<not> run h CTRL_C_EVENT) (rev hs) in
      p @ take 1 (drop (length p) (rev hs))) \<and> g_ctrl_pipe s2 = Some []"
proof -
  have i: "ctrl_invoke_all run ev xs = map (\<lambda>h. (h, ev)) (let p = takeWhile (\<lambda>h. \<not> run h ev) xs in p @ take 1 (drop (length p) xs))" for ev xs
    by (induction xs) (auto simp: Let_def)
  have "add_handlers hs ctrl_start
      = \<lparr>g_ctrl_handlers = hs, g_ctrl_pipe = Some [], g_ctrl_once = True, dispatcher = True, sigint = posix_sigint_handler, called = []\<rparr>"
    using add_handlers_spec[of hs ctrl_start] assms by (simp add: ctrl_start_def ctrl_init_def)
  then show ?thesis by (simp add: deliver_sigint_def ctrl_dispatch_def i)
qed

theorem ctrl_c_reaches_handlers_witness:
  "\<exists>s1 s2. deliver_sigint (add_handlers [1, 2, 3] ctrl_start) = Some s1 \<and> ctrl_dispatch (\<lambda>h _. h = 2) s1 = Some s2 \<and>
    called s2 = [(3, CTRL_C_EVENT), (2, CTRL_C_EVENT)] \<and> g_ctrl_pipe s2 = Some []"
  using ctrl_c_reaches_handlers[of "[1, 2, 3]" "\<lambda>h _. h = 2"] by (simp add: CTRL_HANDLER_MAX_def Let_def)

text \<open>
  Two departures from that order and from what a null handler means.  Removing a handler moves the last one to its place: of three
  handlers without the first, the second is called before the third.  And \<^verbatim>\<open>SetConsoleCtrlHandler(NULL, FALSE)\<close>, which ends
  ignoring Ctrl-C, restores the default action although handlers are registered: the next interrupt ends the process.
\<close>

lemma ctrl_removal_reorders:
  assumes "distinct [a, b, c]" and "0 \<notin> {a, b, c}"
  shows "g_ctrl_handlers (snd (SetConsoleCtrlHandler True True a False (add_handlers [a, b, c] ctrl_start))) = [c, b]"
  using add_handlers_spec[of "[a, b, c]" ctrl_start] assms
  by (simp add: SetConsoleCtrlHandler_def ctrl_update_def ctrl_start_def ctrl_init_def CTRL_HANDLER_MAX_def Let_def)

text \<open>
  Ending to ignore Ctrl-C loses the handlers: with handlers registered, ignoring Ctrl-C and then restoring its
  normal processing leaves the default action of the signal installed, so that an interrupt ends the process although
  the handlers are still registered.
\<close>

theorem null_handler_disables:
  assumes "handler \<noteq> 0"
  shows "let s = snd (SetConsoleCtrlHandler True True 0 False (snd (SetConsoleCtrlHandler True True 0 True
      (snd (SetConsoleCtrlHandler True True handler True ctrl_start)))))
    in g_ctrl_handlers s = [handler] \<and> deliver_sigint s = None"
  using assms by (simp add: SetConsoleCtrlHandler_def ctrl_update_def ctrl_start_def ctrl_init_def CTRL_HANDLER_MAX_def deliver_sigint_def Let_def)

theorem null_handler_disables_witness:
  "deliver_sigint (snd (SetConsoleCtrlHandler True True 0 False (snd (SetConsoleCtrlHandler True True 0 True
      (snd (SetConsoleCtrlHandler True True 0x401000 True ctrl_start)))))) = None"
  using null_handler_disables[of "0x401000"] by (simp add: Let_def)

end
