(* ===== verification/Shim_Cmdline.thy ===== *)
theory Shim_Cmdline
  imports Shim_Unicode
begin

text \<open>
  The command line (shim.cpp, \<^verbatim>\<open>rebuild_cmdline\<close>, \<^verbatim>\<open>split_cmdline\<close>, \<^verbatim>\<open>build_argv\<close>,
  \<^verbatim>\<open>build_env_block\<close>; shim_kernel32_tail.hpp, \<^verbatim>\<open>CommandLineToArgvW\<close>).  The arguments of the
  process, separated by NULs, are quoted into one Windows command line, which the program
  splits again.  Characters are words of any width where the same text is built from UTF-8
  bytes and read as UTF-16 units.
\<close>

abbreviation chr_space :: "'a::len word" where "chr_space \<equiv> 32"
abbreviation chr_tab :: "'a::len word" where "chr_tab \<equiv> 9"
abbreviation chr_quote :: "'a::len word" where "chr_quote \<equiv> 34"
abbreviation chr_bslash :: "'a::len word" where "chr_bslash \<equiv> 92"

section \<open>Building the command line\<close>

text \<open>The NUL-terminated strings of \<^verbatim>\<open>/proc/self/cmdline\<close>.\<close>

function split_nul :: "bytes \<Rightarrow> bytes list" where
  "split_nul [] = []"
| "split_nul (b # bs) = takeWhile (\<lambda>c. c \<noteq> 0) (b # bs) # split_nul (drop (length (takeWhile (\<lambda>c. c \<noteq> 0) (b # bs)) + 1) (b # bs))"
  by pat_completeness auto
termination
  by (relation "measure length") auto

text \<open>\<^verbatim>\<open>if( out<cap ) g_cmdline[out++] = c\<close>, for one character and for several.\<close>

definition put :: "nat \<Rightarrow> bytes \<Rightarrow> u8 \<Rightarrow> bytes" where
  "put cap out c = (if length out < cap then out @ [c] else out)"

definition puts :: "nat \<Rightarrow> bytes \<Rightarrow> bytes \<Rightarrow> bytes" where
  "puts cap out cs = foldl (put cap) out cs"

definition needs_quotes :: "bool \<Rightarrow> 'a::len word list \<Rightarrow> bool" where
  "needs_quotes first arg \<longleftrightarrow> arg = [] \<or> chr_space \<in> set arg \<or> chr_tab \<in> set arg \<or> \<not> first \<and> chr_quote \<in> set arg"

text \<open>The characters of one argument; \<open>bs\<close> counts the backslashes just before.\<close>

fun put_arg :: "nat \<Rightarrow> bool \<Rightarrow> nat \<Rightarrow> bytes \<Rightarrow> bytes \<Rightarrow> nat \<times> bytes" where
  "put_arg cap first bs [] out = (bs, out)"
| "put_arg cap first bs (c # cs) out =
     (if \<not> first \<and> c = chr_quote
      then put_arg cap first 0 cs (put cap (puts cap out (replicate (bs + 1) chr_bslash)) c)
      else put_arg cap first (if c = chr_bslash then bs + 1 else 0) cs (put cap out c))"

fun put_args :: "nat \<Rightarrow> bool \<Rightarrow> bytes list \<Rightarrow> bytes \<Rightarrow> bytes" where
  "put_args cap first [] out = out"
| "put_args cap first (arg # args) out =
     (let out1 = (if first then out else put cap out chr_space);
          q = needs_quotes first arg;
          out2 = (if q then put cap out1 chr_quote else out1);
          (bs, out3) = put_arg cap first 0 arg out2;
          out4 = (if q then put cap (if first then out3 else puts cap out3 (replicate bs chr_bslash)) chr_quote
                  else out3)
      in put_args cap False args out4)"

definition cmdline_cap :: nat where
  "cmdline_cap = 32767"

text \<open>
  \<^verbatim>\<open>rebuild_cmdline\<close>: the override, or the arguments of the process; the wide copy is made
  afterwards, unless there were no arguments at all.
\<close>

definition rebuild_cmdline :: "bytes option \<Rightarrow> bytes option \<Rightarrow> u16 list \<Rightarrow> bytes \<times> u16 list" where
  "rebuild_cmdline override raw old_w =
    (let wide = (\<lambda>s. case utf8_to_wchar (Some s) 32768 of Some w \<Rightarrow> w | None \<Rightarrow> [])
     in (case override of
         Some s \<Rightarrow> (take cmdline_cap s, wide (take cmdline_cap s))
       | None \<Rightarrow> (case raw of
           None \<Rightarrow> ([], old_w)
         | Some r \<Rightarrow> if r = [] then ([], old_w)
             else let s = put_args cmdline_cap True (split_nul r) [] in (s, wide s))))"

section \<open>Splitting it\<close>

text \<open>\<^verbatim>\<open>split_cmdline\<close>: whitespace separates, quotes group; \<open>tok\<close> is the token so far.\<close>

definition flush_tok :: "bool \<Rightarrow> bytes \<Rightarrow> bytes list" where
  "flush_tok in_quote tok = (if tok = [] \<and> \<not> in_quote then [] else [tok])"

fun split_cmdline_loop :: "bool \<Rightarrow> bytes \<Rightarrow> bytes \<Rightarrow> bytes list" where
  "split_cmdline_loop in_quote tok [] = flush_tok in_quote tok"
| "split_cmdline_loop in_quote tok (c # cs) =
     (if c = chr_quote then split_cmdline_loop (\<not> in_quote) tok cs
      else if \<not> in_quote \<and> (c = chr_space \<or> c = chr_tab)
      then flush_tok in_quote tok @ split_cmdline_loop in_quote [] cs
      else split_cmdline_loop in_quote (tok @ [c]) cs)"

definition split_cmdline :: "bytes \<Rightarrow> bytes list" where
  "split_cmdline s = split_cmdline_loop False [] s"

text \<open>
  \<^verbatim>\<open>build_argv\<close>: the number of arguments is counted by the starts of non-empty strings, then
  that many strings are copied.
\<close>

fun count_starts :: "u8 \<Rightarrow> bytes \<Rightarrow> nat" where
  "count_starts prev [] = 0"
| "count_starts prev (b # bs) = (if prev = 0 \<and> b \<noteq> 0 then 1 else 0) + count_starts b bs"

definition raw_argc :: "bytes \<Rightarrow> nat" where
  "raw_argc raw = (case raw of [] \<Rightarrow> 0 | b # bs \<Rightarrow> 1 + count_starts b bs)"

definition build_argv :: "bytes option \<Rightarrow> bytes option \<Rightarrow> bytes list option" where
  "build_argv override raw = (case override of
       Some s \<Rightarrow> Some (split_cmdline s)
     | None \<Rightarrow> (case raw of
         None \<Rightarrow> None
       | Some r \<Rightarrow> if r = [] then None else Some (take (raw_argc r) (split_nul r))))"

text \<open>
  \<^verbatim>\<open>CommandLineToArgvW\<close>: one argument, and what is left of the line after it.
\<close>

function argv_arg :: "bool \<Rightarrow> u16 list \<Rightarrow> u16 list \<times> u16 list" where
  "argv_arg quoted [] = ([], [])"
| "argv_arg quoted (c # p) =
     (if \<not> quoted \<and> (c = chr_space \<or> c = chr_tab) then ([], c # p)
      else if c = chr_bslash then
        let b = length (takeWhile (\<lambda>x. x = chr_bslash) p) + 1;
            p' = dropWhile (\<lambda>x. x = chr_bslash) p
        in if p' \<noteq> [] \<and> p' ! 0 = chr_quote
           then if odd b
             then (case argv_arg quoted (tl p') of (a, r) \<Rightarrow> (replicate (b div 2) chr_bslash @ chr_quote # a, r))
             else (case argv_arg quoted p' of (a, r) \<Rightarrow> (replicate (b div 2) chr_bslash @ a, r))
           else (case argv_arg quoted p' of (a, r) \<Rightarrow> (replicate b chr_bslash @ a, r))
      else if c = chr_quote then
        if quoted \<and> p \<noteq> [] \<and> p ! 0 = chr_quote
        then (case argv_arg quoted (tl p) of (a, r) \<Rightarrow> (chr_quote # a, r))
        else argv_arg (\<not> quoted) p
      else (case argv_arg quoted p of (a, r) \<Rightarrow> (c # a, r)))"
  by pat_completeness auto
termination
proof (relation "measure (\<lambda>(q, p). length p)", goal_cases)
  case 1
  then show ?case by simp
qed (auto simp: less_Suc_eq_le intro: le_trans [OF length_dropWhile_le] le_trans [OF diff_le_self])

definition is_ws :: "u16 \<Rightarrow> bool" where
  "is_ws c \<longleftrightarrow> c = chr_space \<or> c = chr_tab"

declare argv_arg.simps [simp del]

lemma argv_arg_shrinks:
  assumes "\<And>q ys. length ys \<le> length p \<Longrightarrow> length (snd (argv_arg q ys)) \<le> length ys"
    and "q \<or> \<not> is_ws c"
  shows "length (snd (argv_arg q (c # p))) \<le> length p"
proof -
  have le: "length (snd (argv_arg q' ys)) \<le> length p" if "length ys \<le> length p" for q' :: bool and ys :: "u16 list"
    using assms(1) [OF that, of q'] that by simp
  have d: "length (dropWhile (\<lambda>x. x = chr_bslash) p) \<le> length p" by (rule length_dropWhile_le)
  then have "length (tl (dropWhile (\<lambda>x. x = chr_bslash) p)) \<le> length p" by simp
  with d show ?thesis
    using assms(2) by (simp add: argv_arg.simps is_ws_def case_prod_beta Let_def le)
qed

lemma argv_arg_length: "length (snd (argv_arg q p)) \<le> length p"
proof (induction "length p" arbitrary: q p rule: less_induct)
  case less
  show ?case
  proof (cases p)
    case (Cons c cs)
    show ?thesis
    proof (cases "q \<or> \<not> is_ws c")
      case True
      have "length (snd (argv_arg q (c # cs))) \<le> length cs"
        using less Cons True by (intro argv_arg_shrinks) simp_all
      then show ?thesis using Cons by simp
    next
      case False
      then show ?thesis using Cons by (simp add: argv_arg.simps is_ws_def)
    qed
  qed (simp add: argv_arg.simps)
qed

lemma argv_arg_progress:
  assumes "p \<noteq> []" and "\<not> is_ws (hd p)"
  shows "length (snd (argv_arg False p)) < length p"
  using argv_arg_shrinks [of "tl p" False "hd p"] assms argv_arg_length by (cases p) simp_all

text \<open>The arguments after the first.\<close>

function argv_args :: "u16 list \<Rightarrow> u16 list list" where
  "argv_args p = (let p' = dropWhile is_ws p in
     if p' = [] then [] else (case argv_arg False p' of (a, r) \<Rightarrow> a # argv_args r))"
  by pat_completeness auto
termination
proof (relation "measure length")
  fix p p' r a
  assume e: "p' = dropWhile is_ws p" "p' \<noteq> []" "(a, r) = argv_arg False p'"
  then have "\<not> is_ws (hd p')" using hd_dropWhile [of is_ws p] by simp
  with e have "length r < length p'" using argv_arg_progress [of p'] by (metis snd_conv)
  then show "(r, p) \<in> measure length"
    using length_dropWhile_le [of is_ws p] e(1) by simp
qed simp

declare argv_args.simps [simp del]

text \<open>
  The first argument ends at the second quote when the line starts with one, else at whitespace.
  An empty line gives the path of the program, which is an argument here.
\<close>

definition argv_first :: "u16 list \<Rightarrow> u16 list \<times> u16 list" where
  "argv_first p = (if p \<noteq> [] \<and> p ! 0 = chr_quote
     then (takeWhile (\<lambda>c. c \<noteq> chr_quote) (tl p), drop 1 (dropWhile (\<lambda>c. c \<noteq> chr_quote) (tl p)))
     else (takeWhile (\<lambda>c. \<not> is_ws c) p, dropWhile (\<lambda>c. \<not> is_ws c) p))"

definition CommandLineToArgvW :: "u16 list \<Rightarrow> u16 list \<Rightarrow> u16 list list" where
  "CommandLineToArgvW self line = (if line = [] then [self]
     else (case argv_first line of (a, r) \<Rightarrow> a # argv_args r))"

section \<open>Quoting\<close>

text \<open>What \<^verbatim>\<open>rebuild_cmdline\<close> writes when the buffer is large enough, for characters of any width.\<close>

fun esc :: "bool \<Rightarrow> nat \<Rightarrow> 'a::len word list \<Rightarrow> 'a word list" where
  "esc first bs [] = []"
| "esc first bs (c # cs) = (if \<not> first \<and> c = chr_quote
     then replicate (bs + 1) chr_bslash @ c # esc first 0 cs
     else c # esc first (if c = chr_bslash then bs + 1 else 0) cs)"

fun trailing :: "bool \<Rightarrow> nat \<Rightarrow> 'a::len word list \<Rightarrow> nat" where
  "trailing first bs [] = bs"
| "trailing first bs (c # cs) = (if \<not> first \<and> c = chr_quote then trailing first 0 cs
     else trailing first (if c = chr_bslash then bs + 1 else 0) cs)"

definition quote_arg :: "bool \<Rightarrow> 'a::len word list \<Rightarrow> 'a word list" where
  "quote_arg first arg = (if needs_quotes first arg
     then chr_quote # esc first 0 arg @ (if first then [] else replicate (trailing first 0 arg) chr_bslash) @ [chr_quote]
     else esc first 0 arg)"

fun cmdline_of :: "bool \<Rightarrow> 'a::len word list list \<Rightarrow> 'a word list" where
  "cmdline_of first [] = []"
| "cmdline_of first (arg # args) = (if first then [] else [chr_space]) @ quote_arg first arg @ cmdline_of False args"

lemma puts_take: "length out \<le> cap \<Longrightarrow> puts cap out cs = take cap (out @ cs)"
proof (induction cs arbitrary: out)
  case (Cons c cs)
  have "puts cap out (c # cs) = puts cap (put cap out c) cs" by (simp add: puts_def)
  also have "\<dots> = take cap (put cap out c @ cs)" using Cons by (simp add: put_def)
  also have "\<dots> = take cap (out @ c # cs)" using Cons.prems by (auto simp: put_def take_Cons')
  finally show ?case .
qed (simp add: puts_def)

lemma put_take: "length out \<le> cap \<Longrightarrow> put cap out c = take cap (out @ [c])"
  by (auto simp: put_def)

lemma take_take_append: "take n (take n xs @ ys) = take n (xs @ ys)"
  by (cases "n \<le> length xs") simp_all

lemma put_arg_take:
  "length out \<le> cap \<Longrightarrow> put_arg cap first bs cs out = (trailing first bs cs, take cap (out @ esc first bs cs))"
proof (induction cs arbitrary: first bs out)
  case (Cons c cs)
  have q: "put cap (puts cap out (replicate b chr_bslash)) d = take cap (out @ replicate b chr_bslash @ [d])" for b d
    using Cons.prems by (simp add: put_take puts_take take_take_append del: take_append)
  have p: "put cap out d = take cap (out @ [d])" for d using Cons.prems by (rule put_take)
  show ?case
    by (cases first; cases "c = chr_quote")
      (simp_all add: Cons.IH q p take_take_append del: take_append replicate_Suc)
qed simp

lemma put_args_take: "length out \<le> cap \<Longrightarrow> put_args cap first args out = take cap (out @ cmdline_of first args)"
proof (induction args arbitrary: first out)
  case (Cons arg args)
  define out1 where "out1 = (if first then out else put cap out chr_space)"
  define out2 where "out2 = (if needs_quotes first arg then put cap out1 chr_quote else out1)"
  define out3 where "out3 = take cap (out2 @ esc first 0 arg)"
  define out4 where "out4 = (if needs_quotes first arg
     then put cap (if first then out3 else puts cap out3 (replicate (trailing first 0 arg) chr_bslash)) chr_quote
     else out3)"
  have o1: "out1 = take cap (out @ (if first then [] else [chr_space]))" "length out1 \<le> cap"
    using Cons.prems by (auto simp: out1_def put_take)
  have o2: "out2 = take cap (out1 @ (if needs_quotes first arg then [chr_quote] else []))" "length out2 \<le> cap"
    using o1(2) by (auto simp: out2_def put_take)
  have l3: "length out3 \<le> cap" by (simp add: out3_def)
  have "out4 = take cap (out3 @ (if needs_quotes first arg
      then (if first then [] else replicate (trailing first 0 arg) chr_bslash) @ [chr_quote] else []))"
    using l3 by (auto simp: out4_def put_take puts_take take_take_append simp del: take_append)
  then have o4: "out4 = take cap (out @ (if first then [] else [chr_space]) @ quote_arg first arg)" "length out4 \<le> cap"
    unfolding out3_def o2(1) o1(1) quote_arg_def
    by (auto simp: take_take_append simp del: take_append)
  have "put_args cap first (arg # args) out = put_args cap False args out4"
    using put_arg_take [OF o2(2), of first 0 arg]
    by (simp add: Let_def out1_def [symmetric] out2_def [symmetric] out3_def [symmetric] out4_def [symmetric]
        del: take_append)
  also have "\<dots> = take cap (out4 @ cmdline_of False args)" by (rule Cons.IH [OF o4(2)])
  also have "\<dots> = take cap (out @ cmdline_of first (arg # args))"
    unfolding o4(1) by (simp add: take_take_append del: take_append)
  finally show ?case .
qed simp

section \<open>Splitting what was quoted\<close>

abbreviation ends_arg :: "u16 list \<Rightarrow> bool" where
  "ends_arg r \<equiv> r = [] \<or> is_ws (hd r)"

lemma argv_arg_end: "ends_arg r \<Longrightarrow> argv_arg False r = ([], r)"
  by (cases r) (auto simp: argv_arg.simps is_ws_def)

lemma argv_arg_close:
  assumes "ends_arg r"
  shows "argv_arg True (chr_quote # r) = ([], r)"
proof -
  have "\<not> (r \<noteq> [] \<and> r ! 0 = chr_quote)" using assms by (cases r) (auto simp: is_ws_def)
  then have "argv_arg True (chr_quote # r) = argv_arg False r" by (subst argv_arg.simps) (simp, blast)
  then show ?thesis using assms by (simp add: argv_arg_end)
qed

lemma argv_arg_char:
  "c \<noteq> chr_bslash \<Longrightarrow> c \<noteq> chr_quote \<Longrightarrow> q \<or> \<not> is_ws c \<Longrightarrow>
    argv_arg q (c # p) = (c # fst (argv_arg q p), snd (argv_arg q p))"
  by (auto simp: argv_arg.simps is_ws_def case_prod_beta)

text \<open>A run of backslashes.\<close>

lemma argv_arg_run:
  assumes "0 < n" and "p = [] \<or> hd p \<noteq> chr_bslash"
  shows "argv_arg q (replicate n chr_bslash @ p) = (if p \<noteq> [] \<and> hd p = chr_quote
    then if odd n then (replicate (n div 2) chr_bslash @ chr_quote # fst (argv_arg q (tl p)), snd (argv_arg q (tl p)))
      else (replicate (n div 2) chr_bslash @ fst (argv_arg q p), snd (argv_arg q p))
    else (replicate n chr_bslash @ fst (argv_arg q p), snd (argv_arg q p)))"
proof -
  obtain m where n: "n = Suc m" using assms(1) by (cases n) simp_all
  let ?B = "\<lambda>x :: u16. x = chr_bslash"
  have t: "takeWhile ?B (replicate m chr_bslash @ p) = replicate m chr_bslash"
    and d: "dropWhile ?B (replicate m chr_bslash @ p) = p"
    using assms(2) by (cases p; simp add: takeWhile_append dropWhile_append)+
  have h: "p \<noteq> [] \<Longrightarrow> p ! 0 = hd p" by (cases p) simp_all
  have "argv_arg q (replicate n chr_bslash @ p) = argv_arg q (chr_bslash # (replicate m chr_bslash @ p))"
    by (simp add: n)
  also have "\<dots> = (if p \<noteq> [] \<and> p ! 0 = chr_quote
    then if odd n then (replicate (n div 2) chr_bslash @ chr_quote # fst (argv_arg q (tl p)), snd (argv_arg q (tl p)))
      else (replicate (n div 2) chr_bslash @ fst (argv_arg q p), snd (argv_arg q p))
    else (replicate n chr_bslash @ fst (argv_arg q p), snd (argv_arg q p)))"
    by (simp only: argv_arg.simps(2) t d Let_def case_prod_beta n length_replicate) simp
  finally show ?thesis using h by (cases "p = []") simp_all
qed

text \<open>Inside quotes the escaped text is read back up to the closing quote.\<close>

lemma argv_arg_quoted:
  assumes "ends_arg r"
  shows "argv_arg True (replicate b chr_bslash @ esc False b cs @ replicate (trailing False b cs) chr_bslash @ chr_quote # r)
    = (replicate b chr_bslash @ cs, r)"
proof (induction cs arbitrary: b)
  case Nil
  have "argv_arg True (replicate (b + b) chr_bslash @ chr_quote # r) = (replicate b chr_bslash, r)"
    using assms argv_arg_run [of "b + b" "chr_quote # r" True]
    by (cases "b = 0") (simp_all add: argv_arg_close mult_2 [symmetric])
  then show ?case by (simp add: replicate_add)
next
  case (Cons c cs)
  let ?tail = "\<lambda>b. esc False b cs @ replicate (trailing False b cs) chr_bslash @ chr_quote # r"
  consider "c = chr_quote" | "c = chr_bslash" | "c \<noteq> chr_quote" "c \<noteq> chr_bslash" by blast
  then show ?case
  proof cases
    case 1
    have "argv_arg True (replicate (b + (b + 1)) chr_bslash @ chr_quote # ?tail 0) = (replicate b chr_bslash @ chr_quote # cs, r)"
      using Cons.IH [of 0] argv_arg_run [of "b + (b + 1)" "chr_quote # ?tail 0" True] by simp
    then show ?thesis using 1 by (simp only: replicate_add esc.simps trailing.simps append.assoc append.simps) simp
  next
    case 2
    then show ?thesis using Cons.IH [of "b + 1"] by (simp add: replicate_app_Cons_same)
  next
    case 3
    then have "argv_arg True (c # ?tail 0) = (c # cs, r)"
      using Cons.IH [of 0] by (simp add: argv_arg_char)
    then show ?thesis
      using 3 argv_arg_run [of b "c # ?tail 0" True] by (cases "b = 0") simp_all
  qed
qed

lemma argv_arg_plain:
  assumes "ends_arg r" and "chr_quote \<notin> set cs" and "\<And>c. c \<in> set cs \<Longrightarrow> \<not> is_ws c"
  shows "argv_arg False (replicate b chr_bslash @ cs @ r) = (replicate b chr_bslash @ cs, r)"
  using assms(2,3)
proof (induction cs arbitrary: b)
  case Nil
  have h: "r = [] \<or> hd r \<noteq> chr_bslash" "\<not> (r \<noteq> [] \<and> hd r = chr_quote)"
    using assms(1) by (auto simp: is_ws_def)
  show ?case
    using assms(1) argv_arg_run [OF _ h(1), of b False] h(2)
    by (cases "b = 0") (simp_all add: argv_arg_end del: de_Morgan_conj)
next
  case (Cons c cs)
  show ?case
  proof (cases "c = chr_bslash")
    case True
    then show ?thesis using Cons.IH [of "b + 1"] Cons.prems by (simp add: replicate_app_Cons_same)
  next
    case False
    then have "argv_arg False (c # cs @ r) = (c # cs, r)"
      using Cons.IH [of 0] Cons.prems by (simp add: argv_arg_char)
    then show ?thesis
      using False Cons.prems argv_arg_run [of b "c # cs @ r" False] by (cases "b = 0") simp_all
  qed
qed

lemma esc_plain: "first \<or> chr_quote \<notin> set cs \<Longrightarrow> esc first b cs = cs"
  by (induction cs arbitrary: b) auto

lemma not_needs_quotes:
  "\<not> needs_quotes first (arg :: u16 list) \<Longrightarrow> arg \<noteq> [] \<and> (first \<or> chr_quote \<notin> set arg) \<and> (\<forall>c \<in> set arg. \<not> is_ws c)"
  by (auto simp: needs_quotes_def is_ws_def)

lemma argv_arg_quote_arg:
  assumes "ends_arg r"
  shows "argv_arg False (quote_arg False arg @ r) = (arg, r)"
proof (cases "needs_quotes False arg")
  case True
  let ?p = "esc False 0 arg @ replicate (trailing False 0 arg) chr_bslash @ chr_quote # r"
  have "argv_arg False (chr_quote # ?p) = argv_arg True ?p" by (simp add: argv_arg.simps(2))
  then show ?thesis using True argv_arg_quoted [OF assms, of 0 arg] by (simp add: quote_arg_def)
next
  case False
  then show ?thesis
    using argv_arg_plain [OF assms, of arg 0] not_needs_quotes [OF False] by (simp add: quote_arg_def esc_plain)
qed

lemma quote_arg_start: "quote_arg first arg \<noteq> [] \<and> \<not> is_ws (hd (quote_arg first arg))"
proof (cases "needs_quotes first arg")
  case False
  then show ?thesis using not_needs_quotes [OF False] by (cases arg) (auto simp: quote_arg_def esc_plain)
qed (simp add: quote_arg_def is_ws_def)

lemma ends_cmdline: "ends_arg (cmdline_of False args)"
  by (cases args) (simp_all add: is_ws_def)

lemma argv_args_cmdline: "argv_args (cmdline_of False args) = args"
proof (induction args)
  case (Cons arg args)
  have "dropWhile is_ws (cmdline_of False (arg # args)) = quote_arg False arg @ cmdline_of False args"
    using quote_arg_start [of False arg] by (cases "quote_arg False arg") (auto simp: is_ws_def)
  then show ?case
    using quote_arg_start [of False arg] argv_arg_quote_arg [OF ends_cmdline, of arg args] Cons.IH
    by (subst argv_args.simps) (simp add: Let_def)
qed (simp add: argv_args.simps)

lemma argv_first_cmdline:
  assumes "chr_quote \<notin> set arg"
  shows "argv_first (cmdline_of True (arg # args)) = (arg, cmdline_of False args)"
proof (cases "needs_quotes True arg")
  case True
  have "takeWhile (\<lambda>c. c \<noteq> chr_quote) (arg @ chr_quote # r) = arg"
    "dropWhile (\<lambda>c. c \<noteq> chr_quote) (arg @ chr_quote # r) = chr_quote # r" for r
    using assms by (auto simp: takeWhile_append dropWhile_append)
  then show ?thesis using True assms by (simp add: argv_first_def quote_arg_def esc_plain)
next
  case False
  note n = not_needs_quotes [OF False]
  have h: "(arg @ r) ! 0 \<noteq> chr_quote" for r using assms n by (cases arg) auto
  have "takeWhile (\<lambda>c. \<not> is_ws c) (arg @ r) = arg" "dropWhile (\<lambda>c. \<not> is_ws c) (arg @ r) = r" if "ends_arg r" for r
    using that n by (cases r; auto simp: takeWhile_append dropWhile_append)+
  from this [OF ends_cmdline] show ?thesis using False h by (simp add: argv_first_def quote_arg_def esc_plain)
qed

section \<open>Quoting and UTF-8\<close>

text \<open>The UTF-8 form of a wide string, and its split into ASCII characters and the others.\<close>

definition utf8_of :: "u16 list \<Rightarrow> bytes" where
  "utf8_of w = concat (map utf8_enc (code_points w))"

lemma utf8_enc_high:
  assumes "scalar c" and "0x80 \<le> unat c" and "b \<in> set (utf8_enc c)"
  shows "128 \<le> unat b"
proof -
  have m: "unat (x AND 0x3F :: u32) < 64" for x by (simp only: masks unat_and_mask) simp
  have t: "128 \<le> unat (ucast (0x80 OR (x AND 0x3F :: u32)) :: u8)" for x
    using marked_bytes(1) [OF m [of x]] by simp
  have c: "unat c < 0x110000" using assms(1) by (simp add: scalar_def)
  have l2: "128 \<le> unat (ucast (0xC0 OR drop_bit 6 c) :: u8)" if "unat c < 0x800"
    using that by (subst marked_bytes) (simp_all add: unat_drop)
  have l3: "128 \<le> unat (ucast (0xE0 OR drop_bit 12 c) :: u8)" if "unat c < 0x10000"
    using that by (subst marked_bytes) (simp_all add: unat_drop)
  have l4: "128 \<le> unat (ucast (0xF0 OR drop_bit 18 c) :: u8)"
    using c by (subst marked_bytes) (simp_all add: unat_drop)
  from assms(2,3) t l2 l3 l4 show ?thesis
    by (auto simp: utf8_enc_def word_less_nat_alt split: if_splits)
qed

text \<open>A character no command-line rule looks at.\<close>

definition plain :: "'a::len word \<Rightarrow> bool" where
  "plain c \<longleftrightarrow> c \<noteq> chr_space \<and> c \<noteq> chr_tab \<and> c \<noteq> chr_quote \<and> c \<noteq> chr_bslash \<and> c \<noteq> 0"

lemma plain_high: "128 \<le> unat (b :: u8) \<Longrightarrow> plain b" "128 \<le> unat (c :: u16) \<Longrightarrow> plain c"
  by (auto simp: plain_def)

lemma utf8_text_induct [consumes 1, case_names Nil ascii other]:
  assumes "utf16_ok w" and "P []"
    and "\<And>c cs. c \<noteq> 0 \<Longrightarrow> unat c < 128 \<Longrightarrow> utf16_ok cs \<Longrightarrow> P cs \<Longrightarrow> P (c # cs)"
    and "\<And>u h cs. u \<noteq> [] \<Longrightarrow> h \<noteq> [] \<Longrightarrow> \<forall>c \<in> set u. plain c \<Longrightarrow> \<forall>b \<in> set h. plain b \<Longrightarrow>
      (\<And>r. utf8_of (u @ r) = h @ utf8_of r) \<Longrightarrow> (\<And>r. utf16_ok r \<Longrightarrow> utf16_ok (u @ r)) \<Longrightarrow>
      utf16_ok cs \<Longrightarrow> P cs \<Longrightarrow> P (u @ cs)"
  shows "P w"
  using assms(1)
proof (induction rule: utf16_ok_induct)
  case Nil
  show ?case by (rule assms(2))
next
  case (pair c d ds)
  let ?j = "join_surrogates c d"
  have j: "scalar ?j" "0x80 \<le> unat ?j" using unat_join [OF pair(1,2)] by (auto simp: scalar_def)
  have p: "plain c" "plain d" using pair(1,2) by (auto intro!: plain_high simp: is_high_def is_low_def word_le_nat_alt)
  have "P ([c, d] @ ds)"
    using length_utf8_enc(1) [of ?j] pair p utf8_enc_high [OF j]
    by (intro assms(4) [where h = "utf8_enc ?j"]) (auto simp: high_nonzero utf8_of_def intro: plain_high)
  then show ?case by simp
next
  case (single c cs)
  show ?case
  proof (cases "unat c < 128")
    case False
    have "scalar (ucast c)" using code_points_scalar [of "[c]" "ucast c"] single(1-3) by simp
    then have h: "b \<in> set (utf8_enc (ucast c)) \<Longrightarrow> 128 \<le> unat b" for b using utf8_enc_high False by simp
    have "P ([c] @ cs)"
      using length_utf8_enc(1) [of "ucast c"] single False h
      by (intro assms(4) [where h = "utf8_enc (ucast c)"])
        (auto simp: utf8_of_def code_points_single simp del: code_points.simps intro: plain_high)
    then show ?thesis by simp
  qed (use single assms(3) in simp)
qed

lemma ascii_ucast:
  assumes "unat (c :: u16) < 128"
  shows "unat (ucast c :: u8) = unat c"
  using assms by (simp add: unsigned_ucast_eq take_bit_nat_eq_self)

lemma ascii_chars:
  assumes "unat (c :: u16) < 128"
  shows "(ucast c :: u8) = chr_space \<longleftrightarrow> c = chr_space" "(ucast c :: u8) = chr_tab \<longleftrightarrow> c = chr_tab"
    "(ucast c :: u8) = chr_quote \<longleftrightarrow> c = chr_quote" "(ucast c :: u8) = chr_bslash \<longleftrightarrow> c = chr_bslash"
    "(ucast c :: u8) = 0 \<longleftrightarrow> c = 0"
  by (simp_all add: word_unat_eq_iff ascii_ucast [OF assms])

lemma esc_skip:
  "u \<noteq> [] \<Longrightarrow> \<forall>c \<in> set u. plain c \<Longrightarrow> esc first b (u @ r) = u @ esc first 0 r"
  "u \<noteq> [] \<Longrightarrow> \<forall>c \<in> set u. plain c \<Longrightarrow> trailing first b (u @ r) = trailing first 0 r"
proof (induction u arbitrary: b)
  case (Cons c u)
  { case 1 then show ?case using Cons.IH by (cases "u = []") (auto simp: plain_def) }
  { case 2 then show ?case using Cons.IH by (cases "u = []") (auto simp: plain_def) }
qed simp_all

lemma utf8_of_ascii:
  assumes "unat c < 128"
  shows "utf8_of (c # r) = ucast c # utf8_of r"
proof -
  have "\<not> is_high c" using assms by (auto simp: is_high_def word_le_nat_alt)
  moreover have "(ucast (ucast c :: u32) :: u8) = ucast c" by (rule bit_word_eqI) (auto simp: bit_simps)
  ultimately show ?thesis
    using assms by (simp add: utf8_of_def code_points_single utf8_enc_def word_less_nat_alt del: code_points.simps)
qed

lemma utf8_of_nil: "utf8_of [] = []"
  by (simp add: utf8_of_def)

lemma utf8_of_special:
  "utf8_of (chr_space # r) = chr_space # utf8_of r" "utf8_of (chr_quote # r) = chr_quote # utf8_of r"
  "utf8_of (chr_bslash # r) = chr_bslash # utf8_of r"
  by (simp_all add: utf8_of_ascii)

lemma utf8_of_bslashes: "utf8_of (replicate n chr_bslash @ r) = replicate n chr_bslash @ utf8_of r"
  by (induction n) (simp_all add: utf8_of_special)

lemma utf8_of_append: "utf16_ok w \<Longrightarrow> utf8_of (w @ r) = utf8_of w @ utf8_of r"
  by (induction w rule: utf8_text_induct) (simp_all add: utf8_of_nil utf8_of_ascii)

lemma esc_utf8: "utf16_ok w \<Longrightarrow> esc first b (utf8_of w) = utf8_of (esc first b w)"
proof (induction w arbitrary: first b rule: utf8_text_induct)
  case (ascii c cs)
  then show ?case
    by (simp add: ascii_chars utf8_of_ascii utf8_of_bslashes)
next
  case (other u h cs)
  then show ?case by (simp add: esc_skip)
qed (simp add: utf8_of_def)

lemma trailing_utf8: "utf16_ok w \<Longrightarrow> trailing first b (utf8_of w) = trailing first b w"
  by (induction w arbitrary: first b rule: utf8_text_induct) (simp_all add: ascii_chars esc_skip utf8_of_nil utf8_of_ascii)

lemma set_utf8: "utf16_ok w \<Longrightarrow> (chr_space \<in> set (utf8_of w) \<longleftrightarrow> chr_space \<in> set w) \<and>
    (chr_tab \<in> set (utf8_of w) \<longleftrightarrow> chr_tab \<in> set w) \<and> (chr_quote \<in> set (utf8_of w) \<longleftrightarrow> chr_quote \<in> set w) \<and>
    0 \<notin> set (utf8_of w) \<and> (utf8_of w = [] \<longleftrightarrow> w = [])"
proof (induction w rule: utf8_text_induct)
  case (ascii c cs)
  have "chr_space = (ucast c :: u8) \<longleftrightarrow> chr_space = c" "chr_tab = (ucast c :: u8) \<longleftrightarrow> chr_tab = c"
    "chr_quote = (ucast c :: u8) \<longleftrightarrow> chr_quote = c" "0 = (ucast c :: u8) \<longleftrightarrow> 0 = c"
    using ascii_chars [OF ascii(2)] by metis+
  with ascii show ?case by (simp add: utf8_of_ascii)
next
  case (other u h cs)
  then show ?case by (auto simp: plain_def)
qed (simp add: utf8_of_nil)

lemma needs_quotes_utf8: "utf16_ok w \<Longrightarrow> needs_quotes first (utf8_of w) \<longleftrightarrow> needs_quotes first w"
  by (simp add: needs_quotes_def set_utf8)

lemma utf16_ok_append: "utf16_ok w \<Longrightarrow> utf16_ok r \<Longrightarrow> utf16_ok (w @ r)"
  by (induction rule: utf16_ok_induct) (simp_all add: high_nonzero)

lemma utf16_ok_ascii: "c \<noteq> 0 \<Longrightarrow> unat c < 128 \<Longrightarrow> utf16_ok r \<Longrightarrow> utf16_ok (c # r)"
  by (auto simp: is_high_def is_low_def word_le_nat_alt)

lemma utf16_ok_bslashes: "utf16_ok r \<Longrightarrow> utf16_ok (replicate n chr_bslash @ r)"
  by (induction n) (auto intro!: utf16_ok_ascii simp del: utf16_ok.simps)

lemma utf16_ok_esc: "utf16_ok w \<Longrightarrow> utf16_ok (esc first b w)"
proof (induction w arbitrary: b rule: utf8_text_induct)
  case (ascii c cs)
  then show ?case
    by (auto intro!: utf16_ok_ascii utf16_ok_bslashes simp del: utf16_ok.simps)
next
  case (other u h cs)
  then show ?case by (simp add: esc_skip)
qed simp

lemma utf16_ok_quote_arg:
  assumes "utf16_ok arg" and "utf16_ok r"
  shows "utf16_ok (quote_arg first arg @ r)"
proof -
  have q: "utf16_ok (chr_quote # r)" by (rule utf16_ok_ascii) (use assms in simp_all)
  have e: "utf16_ok (esc first 0 arg @ x)" if "utf16_ok x" for x
    using assms(1) that by (intro utf16_ok_append utf16_ok_esc)
  have "utf16_ok (chr_quote # (esc first 0 arg @ replicate n chr_bslash @ chr_quote # r))" for n
    by (rule utf16_ok_ascii) (simp_all add: e utf16_ok_bslashes q del: utf16_ok.simps)
  note n = this
  show ?thesis
  proof (cases "needs_quotes first arg")
    case True
    then show ?thesis using n [of 0] n [of "trailing first 0 arg"] by (cases first) (simp_all add: quote_arg_def del: utf16_ok.simps)
  next
    case False
    then show ?thesis using e [OF assms(2)] by (simp add: quote_arg_def)
  qed
qed

lemma quote_arg_utf8:
  assumes "utf16_ok arg"
  shows "utf8_of (quote_arg first arg @ r) = quote_arg first (utf8_of arg) @ utf8_of r"
  using assms
  by (simp add: quote_arg_def needs_quotes_utf8 esc_utf8 trailing_utf8 utf16_ok_esc utf8_of_append
      utf8_of_special utf8_of_bslashes)

lemma cmdline_utf8: "list_all utf16_ok args \<Longrightarrow>
    utf8_of (cmdline_of first args) = cmdline_of first (map utf8_of args) \<and> utf16_ok (cmdline_of first args)"
proof (induction args arbitrary: first)
  case (Cons arg args)
  have "utf16_ok (quote_arg f arg @ cmdline_of False args)" for f
    using Cons by (intro utf16_ok_quote_arg) simp_all
  with Cons show ?case
    by (simp add: quote_arg_utf8 utf8_of_special utf16_ok_ascii del: utf16_ok.simps)
qed (simp add: utf8_of_nil)

section \<open>The whole round trip\<close>

lemma split_nul_cons: "0 \<notin> set a \<Longrightarrow> split_nul (a @ 0 # r) = a # split_nul r"
  by (cases a) (auto simp: takeWhile_append)

lemma split_nul_args: "list_all (\<lambda>a. 0 \<notin> set a) args \<Longrightarrow> split_nul (concat (map (\<lambda>a. a @ [0]) args)) = args"
  by (induction args) (simp_all add: split_nul_cons)

lemma length_utf8_of: "utf16_ok w \<Longrightarrow> length w \<le> length (utf8_of w)"
proof (induction rule: utf16_ok_induct)
  case (pair c d ds)
  have "\<not> join_surrogates c d < 0x10000" using unat_join [OF pair(1,2)] by (auto simp: word_less_nat_alt)
  then have "2 \<le> length (utf8_enc (join_surrogates c d))" by (auto simp: utf8_enc_def word_less_nat_alt)
  with pair show ?case by (simp add: utf8_of_def)
next
  case (single c cs)
  then show ?case
    using length_utf8_enc(1) [of "ucast c"] by (simp add: utf8_of_def code_points_single del: code_points.simps)
qed simp

lemma utf8_to_wchar_of:
  assumes "utf16_ok w" and "length w < n"
  shows "utf8_to_wchar (Some (utf8_of w)) n = Some w"
proof -
  have "c_string (utf8_of w) = utf8_of w"
    using set_utf8 [OF assms(1)] by (auto simp: c_string_def takeWhile_eq_all_conv)
  moreover have "utf8_to_wchar_loop n 0 (utf8_of w) = w"
    using code_points_scalar [OF assms(1)] code_points_utf16 [OF assms(1)] assms(2)
      utf8_to_wchar_all [of "code_points w" 0 n] by (simp add: utf8_of_def)
  ultimately show ?thesis using assms(2) by (simp add: utf8_to_wchar_def)
qed

lemma fst_rebuild_cmdline:
  "raw \<noteq> [] \<Longrightarrow> fst (rebuild_cmdline None (Some raw) old) = put_args cmdline_cap True (split_nul raw) []"
  by (simp add: rebuild_cmdline_def Let_def)

lemma rebuild_cmdline_fits:
  assumes "raw \<noteq> []" and "length (cmdline_of True (split_nul raw)) < cmdline_cap"
  shows "length (fst (rebuild_cmdline None (Some raw) old)) < cmdline_cap"
  using assms by (simp add: fst_rebuild_cmdline put_args_take)

text \<open>
  C26: the command line.  The arguments of the process are any well-formed wide strings,
  given to \<^verbatim>\<open>rebuild_cmdline\<close> as the NUL-terminated UTF-8 of \<^verbatim>\<open>/proc/self/cmdline\<close>; the first
  has no quote in it.  As long as the line it writes does not fill the buffer,
  \<^verbatim>\<open>CommandLineToArgvW\<close> splits the wide line into exactly these arguments: spaces, quotes,
  runs of backslashes, empty arguments and characters outside ASCII included.
\<close>

theorem command_line_round_trip:
  assumes "args \<noteq> []" and "list_all utf16_ok args" and "chr_quote \<notin> set (hd args)"
    and "raw = concat (map (\<lambda>w. concat (map utf8_enc (code_points w)) @ [0]) args)"
    and "length (fst (rebuild_cmdline None (Some raw) old)) < cmdline_cap"
  shows "CommandLineToArgvW self (snd (rebuild_cmdline None (Some raw) old)) = args"
proof -
  let ?w = "cmdline_of True args"
  have raw: "raw = concat (map (\<lambda>a. a @ [0]) (map utf8_of args))" "raw \<noteq> []"
    using assms(1,4) by (auto simp: utf8_of_def comp_def neq_Nil_conv)
  have "list_all (\<lambda>a. 0 \<notin> set a) (map utf8_of args)"
    using assms(2) set_utf8 by (auto simp: list_all_iff)
  then have s: "split_nul raw = map utf8_of args" unfolding raw(1) by (rule split_nul_args)
  note u = cmdline_utf8 [OF assms(2), of True]
  let ?s = "put_args cmdline_cap True (map utf8_of args) []"
  have r: "rebuild_cmdline None (Some raw) old
      = (?s, case utf8_to_wchar (Some ?s) 32768 of Some w \<Rightarrow> w | None \<Rightarrow> [])"
    using raw(2) s by (simp add: rebuild_cmdline_def Let_def)
  have "?s = take cmdline_cap (utf8_of ?w)" using u by (simp add: put_args_take)
  with assms(5) r have e: "?s = utf8_of ?w" and l: "length (utf8_of ?w) < cmdline_cap" by auto
  have "utf8_to_wchar (Some ?s) 32768 = Some ?w"
    unfolding e using u l length_utf8_of [of ?w] by (intro utf8_to_wchar_of) (simp_all add: cmdline_cap_def)
  with r have w: "snd (rebuild_cmdline None (Some raw) old) = ?w" by simp
  obtain a as where args: "args = a # as" using assms(1) by (cases args) simp_all
  have "?w \<noteq> []" using args quote_arg_start [of True a] by simp
  moreover have "argv_first ?w = (a, cmdline_of False as)"
    using args assms(3) argv_first_cmdline [of a as] by simp
  ultimately show ?thesis
    unfolding w CommandLineToArgvW_def by (simp add: args argv_args_cmdline del: cmdline_of.simps)
qed

theorem command_line_round_trip_witness:
  "CommandLineToArgvW [0x78] (snd (rebuild_cmdline None
     (Some [0x61, 0x20, 0x62, 0, 0x5C, 0x22, 0, 0, 0x63, 0x20, 0x5C, 0, 0xC3, 0xA9, 0]) []))
   = [[0x61, 0x20, 0x62], [0x5C, 0x22], [], [0x63, 0x20, 0x5C], [0xE9]]"
proof (rule command_line_round_trip)
  show "[0x61, 0x20, 0x62, 0, 0x5C, 0x22, 0, 0, 0x63, 0x20, 0x5C, 0, 0xC3, 0xA9, 0]
    = concat (map (\<lambda>w. concat (map utf8_enc (code_points w)) @ [0])
        [[0x61, 0x20, 0x62], [0x5C, 0x22], [], [0x63, 0x20, 0x5C], [0xE9 :: u16]])"
    by (simp add: utf8_enc_def is_high_def is_low_def)
  show "length (fst (rebuild_cmdline None
     (Some [0x61, 0x20, 0x62, 0, 0x5C, 0x22, 0, 0, 0x63, 0x20, 0x5C, 0, 0xC3, 0xA9, 0]) [])) < cmdline_cap"
    by (rule rebuild_cmdline_fits) (simp_all add: quote_arg_def needs_quotes_def cmdline_cap_def)
qed (simp_all add: is_high_def is_low_def)

text \<open>
  \<^verbatim>\<open>build_argv\<close> counts the arguments by the starts of non-empty strings but copies the empty
  ones too, so every empty argument pushes one argument off the end of the program's
  \<^verbatim>\<open>argv\<close>; \<^verbatim>\<open>split_cmdline\<close>, used with an explicit command line, drops an empty pair of quotes.
\<close>

theorem empty_arguments_lost:
  "build_argv None (Some [0x61, 0, 0, 0x62, 0]) = Some [[0x61], []] \<and>
   split_nul [0x61, 0, 0, 0x62, 0] = [[0x61], [], [0x62]] \<and>
   build_argv (Some [0x61, 0x20, 0x22, 0x22, 0x20, 0x62]) raw = Some [[0x61], [0x62]]"
  by (simp add: build_argv_def raw_argc_def split_cmdline_def flush_tok_def)

end
