(* ===== verification/Shim_Loader.thy ===== *)
theory Shim_Loader
  imports Shim_Cmdline
begin

text \<open>
  The loader of converted libraries (load.cpp): how its arguments become the command line that the program sees,
  through \<^verbatim>\<open>WINAPI_SHIM_CMDLINE\<close> and \<^verbatim>\<open>shim_reload_cmdline\<close> (shim.cpp).
\<close>

section \<open>The code\<close>

definition load_quotes :: "'a::len word list \<Rightarrow> bool" where
  "load_quotes a \<longleftrightarrow> a = [] \<or> chr_space \<in> set a \<or> chr_tab \<in> set a"

definition load_arg :: "'a::len word list \<Rightarrow> 'a word list" where
  "load_arg a = (if load_quotes a then [chr_quote] @ a @ [chr_quote] else a)"

text \<open>The loop over the arguments from the third on; \<open>first\<close> at its start.\<close>

fun load_join :: "bool \<Rightarrow> 'a::len word list list \<Rightarrow> 'a word list" where
  "load_join first [] = []"
| "load_join first (a # as) = (if first then [] else [chr_space]) @ load_arg a @ load_join False as"

definition load_shim_cmdline :: "'a::len word list \<Rightarrow> 'a word list list \<Rightarrow> 'a word list" where
  "load_shim_cmdline so_path args = (
     let cmdline = load_join True args in
     [chr_quote] @ so_path @ [chr_quote] @ (if cmdline \<noteq> [] then [chr_space] @ cmdline else []))"

text \<open>\<open>dlopen\<close> and \<open>dlsym\<close> are the dynamic linker's; the program is entered with the command line without its name.\<close>

datatype load_outcome = Load_Exit int | Load_Enter nat bytes

definition load_main :: "(bytes \<Rightarrow> nat option) \<Rightarrow> (nat \<Rightarrow> bytes \<Rightarrow> nat option) \<Rightarrow> bytes list \<Rightarrow> load_outcome" where
  "load_main dlopen dlsym argv = (
     if length argv < 2 then Load_Exit 1
     else case dlopen (argv ! 1) of
         None \<Rightarrow> Load_Exit 1
       | Some h \<Rightarrow> (case dlsym h (str_bytes ''_entrypoint'') of
           None \<Rightarrow> Load_Exit 1
         | Some entry \<Rightarrow> Load_Enter entry (load_join True (drop 2 argv))))"

text \<open>What \<^verbatim>\<open>shim_reload_cmdline\<close> leaves: the command line in both widths and the vector of the C runtime.\<close>

definition shim_reload_cmdline :: "bytes \<Rightarrow> bytes option \<Rightarrow> u16 list \<Rightarrow> (bytes \<times> u16 list) \<times> bytes list option" where
  "shim_reload_cmdline override raw old_w =
     (rebuild_cmdline (Some override) raw old_w, build_argv (Some override) raw)"

section \<open>The vector of the C runtime\<close>

lemma split_quoted: "chr_quote \<notin> set a \<Longrightarrow> split_cmdline_loop True tok (a @ chr_quote # r) = split_cmdline_loop False (tok @ a) r"
  by (induction a arbitrary: tok) auto

lemma split_plain: "\<not> load_quotes (c # a) \<Longrightarrow> chr_quote \<notin> set (c # a) \<Longrightarrow>
    split_cmdline_loop False tok ((c # a) @ r) = split_cmdline_loop False (tok @ c # a) r"
proof (induction a arbitrary: tok c)
  case (Cons d a)
  then show ?case using Cons.IH[of d "tok @ [c]"] by (auto simp: load_quotes_def)
qed (auto simp: load_quotes_def)

lemma split_load_arg: "chr_quote \<notin> set a \<Longrightarrow> split_cmdline_loop False [] (load_arg a @ r) = split_cmdline_loop False a r"
proof (cases "load_quotes a")
  case True
  assume "chr_quote \<notin> set a"
  then show ?thesis using True split_quoted[of a "[]" r] by (simp add: load_arg_def)
next
  case False
  assume "chr_quote \<notin> set a"
  then show ?thesis using False split_plain[of "hd a" "tl a" "[]" r] by (cases a) (auto simp: load_arg_def load_quotes_def)
qed

lemma split_load_join:
  "\<forall>a\<in>set args. chr_quote \<notin> set a \<Longrightarrow>
    split_cmdline_loop False tok (load_join False args) = flush_tok False tok @ filter (\<lambda>a. a \<noteq> []) args"
proof (induction args arbitrary: tok)
  case (Cons a args)
  have "split_cmdline_loop False tok (load_join False (a # args)) = flush_tok False tok @ split_cmdline_loop False a (load_join False args)"
    using split_load_arg[of a "load_join False args"] Cons.prems by simp
  then show ?case using Cons by (simp add: flush_tok_def)
qed simp

lemma load_join_first: "load_join True args = [] \<longleftrightarrow> args = []"
  by (cases args) (auto simp: load_arg_def load_quotes_def)

lemma load_line: "load_shim_cmdline so args = chr_quote # so @ chr_quote # load_join False args"
  using load_join_first[of args] by (cases args) (auto simp: load_shim_cmdline_def Let_def)

text \<open>
  The arguments that the loader was given arrive in \<^verbatim>\<open>argv\<close> of the converted program, after the path of the library,
  as long as none of them has a quote in it; the empty ones among them are lost.
\<close>

theorem loader_arguments_arrive:
  assumes "so \<noteq> []" "chr_quote \<notin> set so" and "\<forall>a\<in>set args. chr_quote \<notin> set a"
  shows "snd (shim_reload_cmdline (load_shim_cmdline so args) raw old_w) = Some (so # filter (\<lambda>a. a \<noteq> []) args)"
proof -
  have "split_cmdline (load_shim_cmdline so args) = split_cmdline_loop True [] (so @ chr_quote # load_join False args)"
    by (simp add: load_line split_cmdline_def)
  also have "\<dots> = so # filter (\<lambda>a. a \<noteq> []) args"
    using split_quoted[OF assms(2)] split_load_join[OF assms(3)] assms(1) by (simp add: flush_tok_def)
  finally show ?thesis by (simp add: shim_reload_cmdline_def build_argv_def)
qed

theorem loader_arguments_arrive_witness:
  "snd (shim_reload_cmdline (load_shim_cmdline [46, 47, 97] [[98, 32, 99], [], [100]]) None []) = Some [[46, 47, 97], [98, 32, 99], [100]]"
  using loader_arguments_arrive[of "[46, 47, 97]" "[[98, 32, 99], [], [100]]" None "[]"] by simp

section \<open>The command line as Windows programs split it\<close>

text \<open>Arguments on which the loader quotes as \<^verbatim>\<open>rebuild_cmdline\<close> does.\<close>

definition load_plain :: "'a::len word list \<Rightarrow> bool" where
  "load_plain a \<longleftrightarrow> chr_quote \<notin> set a \<and> (load_quotes a \<and> a \<noteq> [] \<longrightarrow> last a \<noteq> chr_bslash)"

lemma trailing_last: "chr_quote \<notin> set a \<Longrightarrow> a \<noteq> [] \<Longrightarrow> last a \<noteq> chr_bslash \<Longrightarrow> trailing False b (a :: u16 list) = 0"
  by (induction a arbitrary: b) (auto split: if_splits)

lemma load_arg_quote: "chr_quote \<notin> set a \<Longrightarrow> (load_quotes a \<Longrightarrow> trailing False 0 a = 0) \<Longrightarrow> load_arg a = quote_arg False a"
  by (auto simp: load_arg_def quote_arg_def needs_quotes_def load_quotes_def esc_plain)

lemma load_plain_utf8:
  assumes "utf16_ok a" "load_plain a"
  shows "load_arg (utf8_of a) = quote_arg False (utf8_of a)"
proof (rule load_arg_quote)
  have n: "utf8_of a = [] \<longleftrightarrow> a = []" using length_utf8_of[OF assms(1)] by (auto simp: utf8_of_nil)
  show "chr_quote \<notin> set (utf8_of a)" using assms(2) set_utf8[OF assms(1)] by (simp add: load_plain_def)
  assume q: "load_quotes (utf8_of a)"
  then have "load_quotes a" using set_utf8[OF assms(1)] n by (auto simp: load_quotes_def)
  then have "trailing False 0 a = 0" using assms(2) trailing_last[of a 0] by (cases "a = []") (auto simp: load_plain_def)
  then show "trailing False 0 (utf8_of a) = 0" using trailing_utf8[OF assms(1), of False 0] by simp
qed

lemma load_join_cmdline:
  "list_all utf16_ok args \<Longrightarrow> \<forall>a\<in>set args. load_plain a \<Longrightarrow> load_join False (map utf8_of args) = cmdline_of False (map utf8_of args)"
  by (induction args) (simp_all add: load_plain_utf8)

text \<open>
  C27: \<^verbatim>\<open>CommandLineToArgvW\<close> of the command line the loader hands over gives the path of the library and the arguments,
  empty ones included, whatever their characters, as long as none has a quote in it, none that is quoted ends in a
  backslash, and the line fits the buffer.
\<close>

theorem loader_command_line:
  assumes "utf16_ok so" "list_all utf16_ok args" and "chr_quote \<notin> set so" and "\<forall>a\<in>set args. load_plain a"
    and "length (load_shim_cmdline (utf8_of so) (map utf8_of args)) < cmdline_cap"
  shows "CommandLineToArgvW self (snd (fst (shim_reload_cmdline (load_shim_cmdline (utf8_of so) (map utf8_of args)) raw old_w))) = so # args"
proof -
  let ?w = "chr_quote # so @ chr_quote # cmdline_of False args" and ?s = "load_shim_cmdline (utf8_of so) (map utf8_of args)"
  have line: "?s = utf8_of ?w"
    using load_join_cmdline[OF assms(2,4)] cmdline_utf8[OF assms(2), of False]
    by (simp add: load_line utf8_of_special utf8_of_append[OF assms(1)])
  have ok: "utf16_ok ?w"
    using cmdline_utf8[OF assms(2), of False] assms(1) by (intro utf16_ok_ascii utf16_ok_append) auto
  have l: "length (utf8_of ?w) < cmdline_cap" using assms(5) unfolding line .
  then have "length ?w < 32768" using length_utf8_of[OF ok] unfolding cmdline_cap_def by linarith
  then have "utf8_to_wchar (Some (utf8_of ?w)) 32768 = Some ?w" by (rule utf8_to_wchar_of[OF ok])
  then have w: "snd (fst (shim_reload_cmdline ?s raw old_w)) = ?w"
    unfolding line using l by (simp add: shim_reload_cmdline_def rebuild_cmdline_def Let_def)
  have "takeWhile (\<lambda>c. c \<noteq> chr_quote) (so @ chr_quote # r) = so" "dropWhile (\<lambda>c. c \<noteq> chr_quote) (so @ chr_quote # r) = chr_quote # r" for r
    using assms(3) by (auto simp: takeWhile_append dropWhile_append)
  then have "argv_first ?w = (so, cmdline_of False args)" by (simp add: argv_first_def)
  then show ?thesis unfolding w CommandLineToArgvW_def by (simp add: argv_args_cmdline del: cmdline_of.simps)
qed

theorem loader_command_line_witness:
  "CommandLineToArgvW [] (snd (fst (shim_reload_cmdline (load_shim_cmdline [46, 47, 97] [[98, 32, 99], [], [100, 92]]) None []))) =
    [[46, 47, 97], [98, 32, 99], [], [100, 92]]"
proof -
  have u: "utf8_of [46, 47, 97] = [46, 47, 97]" "map utf8_of [[98, 32, 99], [], [100, 92]] = [[98, 32, 99], [], [100, 92]]"
    by (simp_all add: utf8_of_def utf8_enc_def is_high_def is_low_def)
  have "length (load_shim_cmdline (utf8_of [46, 47, 97]) (map utf8_of [[98, 32, 99], [], [100, 92]])) < cmdline_cap"
    unfolding u by (simp add: load_shim_cmdline_def load_arg_def load_quotes_def Let_def cmdline_cap_def)
  moreover have "utf16_ok [46, 47, 97]" "list_all utf16_ok [[98, 32, 99], [], [100, 92]]"
    "\<forall>a\<in>set [[98, 32, 99], [], [100, 92 :: u16]]. load_plain a"
    by (auto simp: load_plain_def load_quotes_def is_high_def is_low_def)
  ultimately show ?thesis using loader_command_line[of "[46, 47, 97]" "[[98, 32, 99], [], [100, 92]]" "[]" None "[]"] unfolding u by simp
qed

text \<open>A quoted argument that ends in a backslash swallows what follows.\<close>

lemma loader_backslash:
  "CommandLineToArgvW [] (load_shim_cmdline [97] [[98, 32, 92], [99]]) = [[97], [98, 32, 34, 32, 99]]"
  by (simp add: load_line load_arg_def load_quotes_def CommandLineToArgvW_def argv_first_def argv_args.simps is_ws_def argv_arg.simps Let_def)

end
