(* ===== verification/Msvcrt_Format.thy ===== *)
theory Msvcrt_Format
  imports Shim_Unicode "HOL-Library.Monad_Syntax"
begin

text \<open>
  The formatter of the C runtime, \<^verbatim>\<open>ms_vformat\<close> (shim_msvcrt.hpp), and the functions built on it.  A format is
  the memory from its first byte on: a byte beyond what the list holds is not known to be readable, and reading it is
  \<open>None\<close>, as is writing outside the 64 bytes of \<^verbatim>\<open>fs\<close>.  The host's \<^verbatim>\<open>snprintf\<close> is a parameter that
  yields the text of one conversion; the arguments are the 8-byte cells that \<^verbatim>\<open>va_list\<close> walks over.
\<close>

section \<open>A directive\<close>

definition peek :: "bytes \<Rightarrow> u8 option" where
  "peek p = (case p of [] \<Rightarrow> None | c # _ \<Rightarrow> Some c)"

definition is_digit :: "u8 \<Rightarrow> bool" where
  "is_digit c \<longleftrightarrow> 48 \<le> c \<and> c \<le> 57"

definition is_flag :: "u8 \<Rightarrow> bool" where
  "is_flag c \<longleftrightarrow> c = 45 \<or> c = 43 \<or> c = 32 \<or> c = 35 \<or> c = 48"

text \<open>Appending to \<^verbatim>\<open>fs[64]\<close>.\<close>

definition fs_push :: "bytes \<Rightarrow> u8 \<Rightarrow> bytes option" where
  "fs_push fs c = (if length fs < 64 then Some (fs @ [c]) else None)"

text \<open>Copying characters of one class while 63 of the 64 bytes are not used up.\<close>

fun copy_while :: "(u8 \<Rightarrow> bool) \<Rightarrow> bytes \<Rightarrow> bytes \<Rightarrow> (bytes \<times> bytes) option" where
  "copy_while q [] fs = None"
| "copy_while q (c # p) fs = (if c \<noteq> 0 \<and> q c \<and> length fs < 63 then do { fs' \<leftarrow> fs_push fs c; copy_while q p fs' } else Some (c # p, fs))"

text \<open>The decimal digits of an \<^verbatim>\<open>int\<close> argument, as \<^verbatim>\<open>snprintf\<close> with its limit stores them.\<close>

function dec_digits :: "nat \<Rightarrow> bytes" where
  "dec_digits n = (if n < 10 then [of_nat (48 + n)] else dec_digits (n div 10) @ [of_nat (48 + n mod 10)])"
  by pat_completeness auto
termination
  by (relation "measure id") auto

declare dec_digits.simps [simp del]

definition dec_int :: "int \<Rightarrow> bytes" where
  "dec_int i = (if i < 0 then 45 # dec_digits (nat (- i)) else dec_digits (nat i))"

definition star_arg :: "u64 \<Rightarrow> bytes \<Rightarrow> bytes" where
  "star_arg v fs = take 63 (fs @ dec_int (sint (ucast v :: u32)))"

text \<open>A width or a precision: a star takes an argument, else digits are copied.  The argument index goes with the rest.\<close>

definition number_part :: "(nat \<Rightarrow> u64) \<Rightarrow> nat \<Rightarrow> bytes \<Rightarrow> bytes \<Rightarrow> (bytes \<times> bytes \<times> nat) option" where
  "number_part args k p fs = do {
     c \<leftarrow> peek p;
     (if c = 42 then Some (tl p, star_arg (args k) fs, k + 1)
      else do { (p', fs') \<leftarrow> copy_while is_digit p fs; Some (p', fs', k) }) }"

text \<open>The length modifiers; each character is read only when those before it match.\<close>

definition length_part :: "bytes \<Rightarrow> (bytes \<times> bool) option" where
  "length_part p = do {
     c \<leftarrow> peek p;
     (if c = 108 then do { d \<leftarrow> peek (tl p); Some (if d = 108 then (tl (tl p), True) else (tl p, False)) }
      else if c = 104 then do { d \<leftarrow> peek (tl p); Some (if d = 104 then (tl (tl p), False) else (tl p, False)) }
      else if c = 122 \<or> c = 106 \<or> c = 116 then Some (tl p, True)
      else if c = 73 then do {
        d \<leftarrow> peek (tl p);
        (if d = 54 then do { e \<leftarrow> peek (tl (tl p)); Some (if e = 52 then (tl (tl (tl p)), True) else (tl p, True)) }
         else if d = 51 then do { e \<leftarrow> peek (tl (tl p)); Some (if e = 50 then (tl (tl (tl p)), False) else (tl p, True)) }
         else Some (tl p, True)) }
      else Some (p, False)) }"

record directive =
  d_fs :: bytes
  d_ll :: bool
  d_conv :: u8

text \<open>The text of \<^verbatim>\<open>fs\<close> so far, cut back to leave room for the conversion, and the conversion character.\<close>

definition precision_part :: "(nat \<Rightarrow> u64) \<Rightarrow> nat \<Rightarrow> bytes \<Rightarrow> bytes \<Rightarrow> (bytes \<times> bytes \<times> nat) option" where
  "precision_part args k p fs = do {
     c \<leftarrow> peek p;
     (if c = 46 \<and> length fs < 63 then do { fs' \<leftarrow> fs_push fs c; number_part args k (tl p) fs' } else Some (p, fs, k)) }"

definition parse_directive :: "(nat \<Rightarrow> u64) \<Rightarrow> nat \<Rightarrow> bytes \<Rightarrow> (directive \<times> bytes \<times> nat) option" where
  "parse_directive args k p = do {
     (p1, fs1) \<leftarrow> copy_while is_flag p [37];
     (p2, fs2, k2) \<leftarrow> number_part args k p1 fs1;
     (p3, fs3, k3) \<leftarrow> precision_part args k2 p2 fs2;
     (p4, ll) \<leftarrow> length_part p3;
     conv \<leftarrow> peek p4;
     Some (\<lparr>d_fs = take 59 fs3, d_ll = ll, d_conv = conv\<rparr>, tl p4, k3) }"

section \<open>Conversions\<close>

datatype carg = CInt int | CLongLong int | CUInt nat | CULongLong nat | CDouble u64 | CStr bytes | CPtr u64

text \<open>The host: the text of a conversion, and the strings in memory.\<close>

record fmt_host =
  snpf :: "bytes \<Rightarrow> carg \<Rightarrow> bytes"
  cstr_at :: "u64 \<Rightarrow> bytes"
  wide_at :: "u64 \<Rightarrow> u16 list"

text \<open>The conversion characters are stored behind the rest of \<^verbatim>\<open>fs\<close>, with a terminator; \<^verbatim>\<open>tmp\<close> has 512 bytes.\<close>

fun fs_pushes :: "bytes \<Rightarrow> bytes \<Rightarrow> bytes option" where
  "fs_pushes fs [] = (if length fs < 64 then Some fs else None)"
| "fs_pushes fs (c # cs) = do { fs' \<leftarrow> fs_push fs c; fs_pushes fs' cs }"

definition tmp_text :: "fmt_host \<Rightarrow> bytes \<Rightarrow> bytes \<Rightarrow> carg \<Rightarrow> bytes option" where
  "tmp_text h fs conv a = do { fs' \<leftarrow> fs_pushes fs conv; Some (take 511 (takeWhile (\<lambda>b. b \<noteq> 0) (snpf h fs' a))) }"

text \<open>The text of a directive, what \<^verbatim>\<open>%n\<close> stores where, and whether the argument \<open>v\<close> was consumed.\<close>

definition convert_arg :: "fmt_host \<Rightarrow> directive \<Rightarrow> u64 \<Rightarrow> nat \<Rightarrow> (bytes \<times> (u64 \<times> nat) list \<times> bool) option" where
  "convert_arg h d v out = (
     let c = d_conv d; fs = d_fs d; ll = d_ll d; with_arg = map_option (\<lambda>t. (t, [], True)) in
     if c = 100 \<or> c = 105 then
       with_arg (if ll then tmp_text h fs [108, 108, 100] (CLongLong (sint v)) else tmp_text h fs [100] (CInt (sint (ucast v :: u32))))
     else if c = 117 \<or> c = 111 \<or> c = 120 \<or> c = 88 then
       with_arg (if ll then tmp_text h fs [108, 108, c] (CULongLong (unat v)) else tmp_text h fs [c] (CUInt (unat (ucast v :: u32))))
     else if c = 102 \<or> c = 70 \<or> c = 101 \<or> c = 69 \<or> c = 103 \<or> c = 71 \<or> c = 97 \<or> c = 65 then
       with_arg (tmp_text h fs [c] (CDouble v))
     else if c = 115 then
       with_arg (tmp_text h fs [115] (CStr (if v = 0 then str_bytes ''(null)'' else cstr_at h v)))
     else if c = 83 then
       Some (if v = 0 then [] else (case wchar_to_utf8 (Some (wide_at h v)) 512 of Some t \<Rightarrow> t | None \<Rightarrow> []), [], True)
     else if c = 99 then
       Some (takeWhile (\<lambda>b. b \<noteq> 0) [ucast v], [], True)
     else if c = 112 then
       Some (take 511 (takeWhile (\<lambda>b. b \<noteq> 0) (snpf h [37, 112] (CPtr v))), [], True)
     else if c = 110 then
       Some ([], if v = 0 then [] else [(v, out)], True)
     else Some (takeWhile (\<lambda>b. b \<noteq> 0) [c], [], False))"

section \<open>The loop\<close>

lemma copy_while_length: "copy_while q p fs = Some (p', fs') \<Longrightarrow> length p' \<le> length p"
  by (induction p arbitrary: fs) (fastforce split: if_splits Option.bind_splits)+

lemma peek_Some: "peek p = Some c \<longleftrightarrow> (\<exists>q. p = c # q)"
  by (auto simp: peek_def split: list.splits)

lemma number_part_length: "number_part args k p fs = Some (p', fs', k') \<Longrightarrow> length p' \<le> length p"
  by (fastforce simp: number_part_def peek_Some dest: copy_while_length split: Option.bind_splits if_splits)

lemma precision_part_length: "precision_part args k p fs = Some (p', fs', k') \<Longrightarrow> length p' \<le> length p"
  by (fastforce simp: precision_part_def peek_Some dest: number_part_length split: Option.bind_splits if_splits)

lemma length_part_length: "length_part p = Some (p', ll) \<Longrightarrow> length p' \<le> length p"
  by (auto simp: length_part_def peek_Some split: Option.bind_splits if_splits)

lemma parse_directive_length: "parse_directive args k p = Some (d, p', k') \<Longrightarrow> length p' < length p"
  by (fastforce simp: parse_directive_def peek_Some dest: copy_while_length number_part_length precision_part_length length_part_length
    split: Option.bind_splits)

function vformat_loop :: "fmt_host \<Rightarrow> (nat \<Rightarrow> u64) \<Rightarrow> int \<Rightarrow> bytes \<Rightarrow> nat \<Rightarrow> bytes \<Rightarrow> (u64 \<times> nat) list \<Rightarrow> (bytes \<times> (u64 \<times> nat) list) option" where
  "vformat_loop h args bufsz [] k out ws = None"
| "vformat_loop h args bufsz (c # p) k out ws =
     (if c = 0 \<or> \<not> int (length out) < bufsz - 512 then Some (out, ws)
      else if c \<noteq> 37 then vformat_loop h args bufsz p k (out @ [c]) ws
      else (case peek p of
          None \<Rightarrow> None
        | Some d \<Rightarrow>
            if d = 0 then Some (out, ws)
            else if d = 37 then vformat_loop h args bufsz (tl p) k (out @ [37]) ws
            else (case parse_directive args k p of
                None \<Rightarrow> None
              | Some (dir, p', k') \<Rightarrow> (case convert_arg h dir (args k') (length out) of
                    None \<Rightarrow> None
                  | Some (tmp, w, used) \<Rightarrow>
                      vformat_loop h args bufsz p' (if used then k' + 1 else k')
                        (out @ take (nat (bufsz - 1 - int (length out))) tmp) (ws @ w)))))"
  by pat_completeness auto
termination
  by (relation "measure (\<lambda>(h, args, bufsz, p, k, out, ws). length p)") (auto dest: parse_directive_length simp: peek_Some)

declare vformat_loop.simps(2) [simp del]

definition ms_vformat :: "fmt_host \<Rightarrow> (nat \<Rightarrow> u64) \<Rightarrow> int \<Rightarrow> bytes option \<Rightarrow> (bytes \<times> (u64 \<times> nat) list) option" where
  "ms_vformat h args bufsz fmt = (case fmt of None \<Rightarrow> Some ([], []) | Some p \<Rightarrow> vformat_loop h args bufsz p 0 [] [])"

text \<open>
  \<^verbatim>\<open>write\<close> is a parameter: how many bytes it accepts, -1 for an error.  \<^verbatim>\<open>sprintf\<close> works in an allocated buffer of the same
  size (\<open>got\<close> tells whether there was memory) and copies the text and a terminator to the caller's.
\<close>

definition ms_vfprintf_fd :: "(bytes \<Rightarrow> int) \<Rightarrow> fmt_host \<Rightarrow> (nat \<Rightarrow> u64) \<Rightarrow> bytes option \<Rightarrow> int option" where
  "ms_vfprintf_fd wr h args fmt = map_option (\<lambda>(out, ws). if wr out < 0 then - 1 else wr out) (ms_vformat h args 65536 fmt)"

definition msvcrt_sprintf :: "bool \<Rightarrow> fmt_host \<Rightarrow> (nat \<Rightarrow> u64) \<Rightarrow> bytes option \<Rightarrow> (nat \<times> bytes) option" where
  "msvcrt_sprintf got h args fmt =
     (if got then map_option (\<lambda>(out, ws). (length out, out @ [0])) (ms_vformat h args 65536 fmt) else Some (0, [0]))"

section \<open>Properties\<close>

lemma fs_push_Some: "length fs < 64 \<Longrightarrow> fs_push fs c = Some (fs @ [c])"
  by (simp add: fs_push_def)

text \<open>Every part of a directive keeps \<^verbatim>\<open>fs\<close> within 63 bytes.\<close>

lemma copy_while_fs: "copy_while q p fs = Some (p', fs') \<Longrightarrow> length fs \<le> 63 \<Longrightarrow> length fs' \<le> 63"
  by (induction p arbitrary: fs) (fastforce simp: fs_push_def split: if_splits)+

lemma number_part_fs: "number_part args k p fs = Some (p', fs', k') \<Longrightarrow> length fs \<le> 63 \<Longrightarrow> length fs' \<le> 63"
  by (auto simp: number_part_def star_arg_def dest: copy_while_fs split: Option.bind_splits if_splits)

lemma tmp_text_Some:
  assumes "length fs \<le> 59" "length conv \<le> 3"
  shows "\<exists>t. tmp_text h fs conv a = Some t \<and> length t \<le> 511"
proof -
  have "length fs + length cs < 64 \<Longrightarrow> fs_pushes fs cs = Some (fs @ cs)" for fs cs
    by (induction cs arbitrary: fs) (auto simp: fs_push_def)
  from this[of fs conv] assms show ?thesis by (simp add: tmp_text_def)
qed

lemma convert_arg_Some:
  assumes "length (d_fs d) \<le> 59"
  shows "\<exists>t w u. convert_arg h d v out = Some (t, w, u)"
proof -
  have "\<forall>cs a. \<exists>t. length cs \<le> 3 \<longrightarrow> tmp_text h (d_fs d) cs a = Some t" using tmp_text_Some[OF assms] by blast
  then obtain F where F: "length cs \<le> 3 \<Longrightarrow> tmp_text h (d_fs d) cs a = Some (F cs a)" for cs a unfolding choice_iff by blast
  have "convert_arg h d v out \<noteq> None" by (simp add: convert_arg_def Let_def F ex_bool_eq)
  then show ?thesis by auto
qed

text \<open>A terminated string, then one more zero byte: there is always something to read.\<close>

lemma copy_while_stops:
  "0 \<in> set p \<Longrightarrow> length fs \<le> 63 \<Longrightarrow> \<exists>p' fs'. copy_while q p fs = Some (p', fs') \<and> (\<exists>r. p = r @ p' \<and> 0 \<notin> set r) \<and> length fs' \<le> 63"
proof (induction p arbitrary: fs)
  case (Cons c p)
  show ?case
  proof (cases "c \<noteq> 0 \<and> q c \<and> length fs < 63")
    case True
    then obtain p' fs' r where "copy_while q p (fs @ [c]) = Some (p', fs')" "p = r @ p'" "0 \<notin> set r" "length fs' \<le> 63"
      using Cons.IH[of "fs @ [c]"] Cons.prems by fastforce
    then show ?thesis using True by (intro exI[of _ p'] exI[of _ fs']) (auto simp: fs_push_def intro!: exI[of _ "c # r"])
  qed (use Cons.prems in auto)
qed simp

text \<open>What follows a part of a directive: nothing but nonzero bytes have been passed.\<close>

definition within :: "bytes \<Rightarrow> bytes \<Rightarrow> bool" where
  "within p p' \<longleftrightarrow> (\<exists>r. p = r @ p' \<and> 0 \<notin> set r)"

lemma within_refl: "within p p"
  by (auto simp: within_def)

lemma within_trans: "within p q \<Longrightarrow> within q r \<Longrightarrow> within p r"
  by (fastforce simp: within_def)

lemma within_tl: "p = c # q \<Longrightarrow> c \<noteq> 0 \<Longrightarrow> within p q"
  by (auto simp: within_def intro: exI[of _ "[c]"])

lemma within_zero: "within p p' \<Longrightarrow> 0 \<in> set p \<Longrightarrow> 0 \<in> set p'"
  by (auto simp: within_def)

lemma zero_cons: "0 \<in> set p \<Longrightarrow> \<exists>c q. p = (c :: u8) # q"
  by (cases p) auto

lemma number_part_stops:
  assumes "0 \<in> set p" "length fs \<le> 63"
  shows "\<exists>p' fs' k'. number_part args k p fs = Some (p', fs', k') \<and> within p p' \<and> length fs' \<le> 63"
proof -
  obtain c q where p: "p = c # q" using zero_cons[OF assms(1)] by blast
  obtain p' fs' where "copy_while is_digit p fs = Some (p', fs')" "within p p'" "length fs' \<le> 63"
    using copy_while_stops[OF assms, of is_digit] unfolding within_def by blast
  then show ?thesis using p within_tl[OF p] by (auto simp: number_part_def peek_def star_arg_def)
qed

lemma precision_part_stops:
  assumes "0 \<in> set p" "length fs \<le> 63"
  shows "\<exists>p' fs' k'. precision_part args k p fs = Some (p', fs', k') \<and> within p p' \<and> length fs' \<le> 63"
proof -
  obtain c q where p: "p = c # q" using zero_cons[OF assms(1)] by blast
  show ?thesis
  proof (cases "c = 46 \<and> length fs < 63")
    case True
    then have "0 \<in> set q" using assms(1) p by auto
    then obtain p' fs' k' where "number_part args k q (fs @ [c]) = Some (p', fs', k')" "within q p'" "length fs' \<le> 63"
      using number_part_stops[of q "fs @ [c]" args k] True by auto
    then show ?thesis using True p within_trans[OF within_tl[OF p]] by (auto simp: precision_part_def peek_def fs_push_def)
  qed (use p assms within_refl in \<open>auto simp: precision_part_def peek_def\<close>)
qed

lemma within_Cons: "within (c # p) p' \<longleftrightarrow> p' = c # p \<or> c \<noteq> 0 \<and> within p p'"
  unfolding within_def by (force simp: Cons_eq_append_conv)

lemma length_part_stops:
  assumes "0 \<in> set p"
  shows "\<exists>p' ll. length_part p = Some (p', ll) \<and> within p p'"
proof -
  obtain c q where p: "p = c # q" using zero_cons[OF assms] by blast
  consider "c = 0" | d r where "c \<noteq> 0" "q = d # r" "d = 0" | d e t where "c \<noteq> 0" "q = d # e # t" "d \<noteq> 0"
    using assms p zero_cons by (metis set_ConsD)
  then show ?thesis
  proof cases
    case 1
    then show ?thesis using p by (simp add: length_part_def peek_def within_refl ex_bool_eq)
  next
    case 2
    then show ?thesis using p by (simp add: length_part_def peek_def within_refl within_Cons ex_bool_eq)
  next
    case 3
    then show ?thesis using p by (simp add: length_part_def peek_def within_refl within_Cons ex_bool_eq)
  qed
qed

lemma within_form:
  assumes "within (f @ 0 # ys) p'" "0 \<notin> set f"
  shows "\<exists>g. p' = g @ 0 # ys \<and> 0 \<notin> set g"
proof -
  obtain r where r: "f @ 0 # ys = r @ p'" "0 \<notin> set r" using assms(1) by (auto simp: within_def)
  then obtain us where "f = r @ us \<and> us @ 0 # ys = p' \<or> f @ us = r \<and> 0 # ys = us @ p'"
    by (auto simp: append_eq_append_conv2)
  then show ?thesis
  proof
    assume "f = r @ us \<and> us @ 0 # ys = p'"
    then show ?thesis using assms(2) by auto
  next
    assume a: "f @ us = r \<and> 0 # ys = us @ p'"
    then have "us = []" using r(2) by (cases us) auto
    then show ?thesis using a by auto
  qed
qed

lemma parse_directive_stops:
  assumes "0 \<notin> set f"
  shows "\<exists>d p' k'. parse_directive args k (f @ 0 # ys) = Some (d, p', k') \<and> length (d_fs d) \<le> 59 \<and>
    ((\<exists>g. p' = g @ 0 # ys \<and> 0 \<notin> set g) \<or> p' = ys)"
proof -
  let ?p = "f @ 0 # ys"
  have z: "0 \<in> set ?p" by simp
  obtain p1 fs1 where 1: "copy_while is_flag ?p [37] = Some (p1, fs1)" "within ?p p1" "length fs1 \<le> 63"
    using copy_while_stops[OF z, of "[37]" is_flag] unfolding within_def by auto
  note z1 = within_zero[OF 1(2) z]
  obtain p2 fs2 k2 where 2: "number_part args k p1 fs1 = Some (p2, fs2, k2)" "within p1 p2" "length fs2 \<le> 63"
    using number_part_stops[OF z1 1(3)] by blast
  note z2 = within_zero[OF 2(2) z1]
  obtain p3 fs3 k3 where 3: "precision_part args k2 p2 fs2 = Some (p3, fs3, k3)" "within p2 p3"
    using precision_part_stops[OF z2 2(3)] by blast
  note z3 = within_zero[OF 3(2) z2]
  obtain p4 ll where 4: "length_part p3 = Some (p4, ll)" "within p3 p4" using length_part_stops[OF z3] by blast
  have "within ?p p4" using 1(2) 2(2) 3(2) 4(2) within_trans by blast
  then obtain g where g: "p4 = g @ 0 # ys" "0 \<notin> set g" using within_form assms by blast
  then obtain c q where c: "p4 = c # q" "(\<exists>g'. q = g' @ 0 # ys \<and> 0 \<notin> set g') \<or> q = ys" by (cases g) auto
  then show ?thesis using 1(1) 2(1) 3(1) 4(1) by (auto simp: parse_directive_def peek_def)
qed

text \<open>What a run leaves: either a terminated string followed by one more zero, or the last zero of it.\<close>

definition fmt_ok :: "bytes \<Rightarrow> bool" where
  "fmt_ok p \<longleftrightarrow> (\<exists>f ys. 0 \<notin> set f \<and> p = f @ 0 # 0 # ys) \<or> (\<exists>ys. p = 0 # ys)"

lemma vformat_loop_Some:
  "fmt_ok p \<Longrightarrow> int (length out) < bufsz \<Longrightarrow> \<exists>out' ws'. vformat_loop h args bufsz p k out ws = Some (out', ws') \<and> int (length out') < bufsz"
proof (induction "length p" arbitrary: p k out ws rule: less_induct)
  case less
  obtain c q where p: "p = c # q" using less.prems(1) by (cases p) (auto simp: fmt_ok_def)
  show ?case
  proof (cases "c = 0 \<or> \<not> int (length out) < bufsz - 512")
    case True
    then show ?thesis using p less.prems by (simp add: vformat_loop.simps(2))
  next
    case False
    then obtain f ys where f: "q = f @ 0 # 0 # ys" "0 \<notin> set f" using less.prems(1) p by (auto simp: fmt_ok_def Cons_eq_append_conv)
    have q_ok: "fmt_ok q" using f by (auto simp: fmt_ok_def)
    show ?thesis
    proof (cases "c = 37")
      case False
      obtain o' w' where "vformat_loop h args bufsz q k (out @ [c]) ws = Some (o', w')" "int (length o') < bufsz"
        using less.hyps[of q "out @ [c]" k ws] q_ok p \<open>\<not> (c = 0 \<or> _)\<close> by auto
      then show ?thesis using p False \<open>\<not> (c = 0 \<or> _)\<close> by (simp add: vformat_loop.simps(2))
    next
      case pc: True
      obtain d r where d: "q = d # r" using f by (cases f) auto
      consider "d = 0" | "d = 37" | "d \<noteq> 0" "d \<noteq> 37" by blast
      then show ?thesis
      proof cases
        case 1
        then show ?thesis using p pc d False less.prems(2) by (simp add: vformat_loop.simps(2) peek_def)
      next
        case 2
        have "fmt_ok r" using f d 2 by (cases f) (auto simp: fmt_ok_def)
        then obtain o' w' where "vformat_loop h args bufsz r k (out @ [37]) ws = Some (o', w')" "int (length o') < bufsz"
          using less.hyps[of r "out @ [37]" k ws] p d False by auto
        then show ?thesis using p pc d 2 False by (simp add: vformat_loop.simps(2) peek_def)
      next
        case 3
        obtain dir p' k' where dir: "parse_directive args k q = Some (dir, p', k')" "length (d_fs dir) \<le> 59"
            "(\<exists>g. p' = g @ 0 # 0 # ys \<and> 0 \<notin> set g) \<or> p' = 0 # ys"
          using parse_directive_stops[OF f(2), of args k "0 # ys"] f(1) by auto
        then have ok: "fmt_ok p'" by (auto simp: fmt_ok_def)
        obtain tmp w u where t: "convert_arg h dir (args k') (length out) = Some (tmp, w, u)" using convert_arg_Some[OF dir(2)] by blast
        define out2 where "out2 = out @ take (nat (bufsz - 1 - int (length out))) tmp"
        have l2: "int (length out2) < bufsz" using less.prems(2) by (auto simp: out2_def)
        obtain o' w' where "vformat_loop h args bufsz p' (if u then k' + 1 else k') out2 (ws @ w) = Some (o', w')" "int (length o') < bufsz"
          using less.hyps[OF _ ok l2, of "if u then k' + 1 else k'" "ws @ w"] parse_directive_length[OF dir(1)] p by auto
        then show ?thesis using p pc d 3 False dir(1) t by (simp add: vformat_loop.simps(2) peek_def out2_def)
      qed
    qed
  qed
qed


definition sample_host_fmt :: fmt_host where
  "sample_host_fmt = \<lparr>snpf = (\<lambda>fs a. case a of CInt i \<Rightarrow> dec_int i | CStr s \<Rightarrow> s | _ \<Rightarrow> []), cstr_at = (\<lambda>a. str_bytes ''abc''), wide_at = (\<lambda>a. [])\<rparr>"


text \<open>
  A directive that the format's terminator cuts short takes the terminator for its conversion character, and
  what lies in memory behind the format is read as format: here it is printed.
\<close>

theorem vformat_overreads:
  "ms_vformat h args 65536 (Some ([37, 53, 0] @ str_bytes ''secret'' @ 0 # rest)) = Some (str_bytes ''secret'', [])"
  by (simp add: ms_vformat_def vformat_loop.simps(2) peek_def parse_directive_def is_flag_def is_digit_def fs_push_def number_part_def
    precision_part_def length_part_def convert_arg_def str_bytes_def)

text \<open>Text without directives is copied as it is, as far as the buffer allows.\<close>

theorem vformat_plain:
  assumes "0 \<notin> set f" "37 \<notin> set f" "int (length f) + 512 < bufsz"
  shows "ms_vformat h args bufsz (Some (f @ 0 # rest)) = Some (f, [])"
proof -
  have "int (length out + length f) + 512 < bufsz \<Longrightarrow> vformat_loop h args bufsz (f @ 0 # rest) k out [] = Some (out @ f, [])" for out k
    using assms(1,2) by (induction f arbitrary: out) (auto simp: vformat_loop.simps(2))
  from this[of "[]"] assms(3) show ?thesis by (simp add: ms_vformat_def)
qed

theorem vformat_plain_witness: "ms_vformat sample_host_fmt (\<lambda>k. 0) 65536 (Some (str_bytes ''ok'' @ [0])) = Some (str_bytes ''ok'', [])"
  by (rule vformat_plain) (simp_all add: str_bytes_def)

end
