(* ===== verification/Shim_Env.thy ===== *)
theory Shim_Env
  imports Shim_Unicode "HOL-Library.Monad_Syntax"
begin

text \<open>
  The environment (build_env_block of shim.cpp, shim_kernel32_startup.hpp, SetEnvironmentVariableA of
  shim_kernel32_tail.hpp): the variables of the process, the cached blocks on the heap and the functions on both.
  A pointer is an address, 0 the null pointer; a function answers \<open>None\<close> when it frees what is not allocated or reads
  what was never written.
\<close>

section \<open>The blocks\<close>

definition env_total :: "bytes list \<Rightarrow> nat" where
  "env_total env = sum_list (map (\<lambda>e. length e + 1) env) + 1"

definition env_narrow :: "bytes list \<Rightarrow> bytes" where
  "env_narrow env = concat (map (\<lambda>e. e @ [0]) env) @ [0]"

text \<open>The wide block: \<open>room\<close> is what is left of it.\<close>

fun env_wide :: "nat \<Rightarrow> bytes list \<Rightarrow> u16 list" where
  "env_wide room [] = [0]"
| "env_wide room (e # es) = (
     let w = (case utf8_to_wchar (Some e) room of Some w \<Rightarrow> w | None \<Rightarrow> []) in
     w @ 0 # env_wide (room - (length w + 1)) es)"

datatype env_block = Narrow bytes | Wide "u16 list"

type_synonym env_heap = "nat \<Rightarrow> env_block option"

record env_state =
  environ :: "bytes list"
  heap :: env_heap
  g_env_block :: nat
  g_env_block_w :: nat

text \<open>\<open>malloc\<close> answers a free address or 0.\<close>

definition malloc_ok :: "(nat \<Rightarrow> env_heap \<Rightarrow> nat) \<Rightarrow> bool" where
  "malloc_ok malloc \<longleftrightarrow> (\<forall>n h. malloc n h \<noteq> 0 \<longrightarrow> h (malloc n h) = None)"

definition free_block :: "nat \<Rightarrow> env_state \<Rightarrow> env_state option" where
  "free_block p s =
     (if p = 0 then Some s else if heap s p = None then None else Some (s\<lparr>heap := (heap s)(p := None)\<rparr>))"

definition build_env_block :: "(nat \<Rightarrow> env_heap \<Rightarrow> nat) \<Rightarrow> env_state \<Rightarrow> env_state" where
  "build_env_block malloc s = (
     let total = env_total (environ s);
         a = malloc total (heap s) in
     if a = 0 then s\<lparr>g_env_block := 0\<rparr>
     else let h1 = (heap s)(a \<mapsto> Narrow (env_narrow (environ s)));
              w = malloc (total * 2) h1 in
          if w = 0 then s\<lparr>heap := h1(a := None), g_env_block := 0, g_env_block_w := 0\<rparr>
          else s\<lparr>heap := h1(w \<mapsto> Wide (env_wide total (environ s))), g_env_block := a, g_env_block_w := w\<rparr>)"

section \<open>The functions\<close>

definition GetEnvironmentStrings :: "(nat \<Rightarrow> env_heap \<Rightarrow> nat) \<Rightarrow> env_state \<Rightarrow> nat \<times> env_state" where
  "GetEnvironmentStrings malloc s = (
     let s' = (if g_env_block s = 0 then build_env_block malloc s else s) in (g_env_block s', s'))"

definition GetEnvironmentStringsW :: "(nat \<Rightarrow> env_heap \<Rightarrow> nat) \<Rightarrow> env_state \<Rightarrow> nat \<times> env_state" where
  "GetEnvironmentStringsW malloc s = (
     let s' = (if g_env_block_w s = 0 then build_env_block malloc s else s) in (g_env_block_w s', s'))"

definition GetEnvironmentStringsA :: "(nat \<Rightarrow> env_heap \<Rightarrow> nat) \<Rightarrow> env_state \<Rightarrow> nat \<times> env_state" where
  "GetEnvironmentStringsA = GetEnvironmentStrings"

definition FreeEnvironmentStringsA :: "nat \<Rightarrow> env_state \<Rightarrow> env_state option" where
  "FreeEnvironmentStringsA p s = (if p \<noteq> g_env_block s then free_block p s else Some s)"

definition FreeEnvironmentStringsW :: "nat \<Rightarrow> env_state \<Rightarrow> env_state option" where
  "FreeEnvironmentStringsW p s = (if p \<noteq> g_env_block_w s then free_block p s else Some s)"

text \<open>The C library on the variables: an entry is a name, an equals sign and a value.\<close>

definition env_entry :: "bytes \<Rightarrow> bytes \<Rightarrow> bool" where
  "env_entry nm e \<longleftrightarrow> length nm < length e \<and> take (length nm) e = nm \<and> e ! length nm = 61"

definition env_getenv :: "bytes list \<Rightarrow> bytes \<Rightarrow> bytes option" where
  "env_getenv env nm = (if nm = [] then None else map_option (drop (length nm + 1)) (find (env_entry nm) env))"

definition name_ok :: "bytes \<Rightarrow> bool" where
  "name_ok nm \<longleftrightarrow> nm \<noteq> [] \<and> 61 \<notin> set nm"

fun put_entry :: "bytes \<Rightarrow> bytes \<Rightarrow> bytes list \<Rightarrow> bytes list" where
  "put_entry nm v [] = [nm @ [61] @ v]"
| "put_entry nm v (e # es) = (if env_entry nm e then (nm @ [61] @ v) # es else e # put_entry nm v es)"

definition env_setenv :: "bytes \<Rightarrow> bytes \<Rightarrow> bytes list \<Rightarrow> int \<times> bytes list" where
  "env_setenv nm v env = (if name_ok nm then (0, put_entry nm v env) else (- 1, env))"

definition env_unsetenv :: "bytes \<Rightarrow> bytes list \<Rightarrow> int \<times> bytes list" where
  "env_unsetenv nm env = (if name_ok nm then (0, filter (\<lambda>e. \<not> env_entry nm e) env) else (- 1, env))"

definition lower8 :: "u8 \<Rightarrow> u8" where
  "lower8 c = (if 65 \<le> c \<and> c \<le> 90 then c + 32 else c)"

text \<open>\<^verbatim>\<open>strncasecmp\<close> on as many bytes as the name has, then the equals sign.\<close>

definition env_entry_ci :: "bytes \<Rightarrow> bytes \<Rightarrow> bool" where
  "env_entry_ci nm e \<longleftrightarrow> length nm < length e \<and> map lower8 (take (length nm) e) = map lower8 nm \<and> e ! length nm = 61"

record env_answer =
  ea_ret :: nat
  ea_buf :: "bytes option"
  ea_err :: "nat option"

definition GetEnvironmentVariableA :: "bytes list \<Rightarrow> bytes option \<Rightarrow> bool \<Rightarrow> nat \<Rightarrow> env_answer" where
  "GetEnvironmentVariableA env name buf_null room = (
     let exact = (case name of None \<Rightarrow> None | Some nm \<Rightarrow> env_getenv env nm);
         v = (case (exact, name) of
                (None, Some nm) \<Rightarrow> if nm = [] then None else map_option (drop (length nm + 1)) (find (env_entry_ci nm) env)
              | _ \<Rightarrow> exact) in
     case v of
       None \<Rightarrow> \<lparr>ea_ret = 0, ea_buf = None, ea_err = Some 203\<rparr>
     | Some v \<Rightarrow> if buf_null \<or> room \<le> length v then \<lparr>ea_ret = length v + 1, ea_buf = None, ea_err = None\<rparr>
                 else \<lparr>ea_ret = length v, ea_buf = Some (v @ [0]), ea_err = None\<rparr>)"

definition SetEnvironmentVariableA :: "bytes \<Rightarrow> bytes option \<Rightarrow> env_state \<Rightarrow> bool \<times> env_state" where
  "SetEnvironmentVariableA nm val s = (case val of
     None \<Rightarrow> (True, s\<lparr>environ := snd (env_unsetenv nm (environ s))\<rparr>)
   | Some v \<Rightarrow> (fst (env_setenv nm v (environ s)) = 0, s\<lparr>environ := snd (env_setenv nm v (environ s))\<rparr>))"

definition SetEnvironmentVariableW :: "u16 list option \<Rightarrow> u16 list option \<Rightarrow> env_state \<Rightarrow> (bool \<times> env_state) option" where
  "SetEnvironmentVariableW name val s = do {
     nm \<leftarrow> wchar_to_utf8 name 512;
     env \<leftarrow> (case val of
         None \<Rightarrow> Some (snd (env_unsetenv (c_string nm) (environ s)))
       | Some v \<Rightarrow> map_option (\<lambda>b. snd (env_setenv (c_string nm) (c_string b) (environ s))) (wchar_to_utf8 (Some v) 4096));
     s1 \<leftarrow> free_block (g_env_block_w s) (s\<lparr>environ := env\<rparr>);
     s2 \<leftarrow> free_block (g_env_block s1) (s1\<lparr>g_env_block_w := 0\<rparr>);
     Some (True, s2\<lparr>g_env_block := 0\<rparr>) }"

section \<open>The blocks fit\<close>

text \<open>What a string of the environment becomes.\<close>

definition env_decode :: "bytes \<Rightarrow> u16 list" where
  "env_decode e = utf8_to_wchar_loop (length e + 2) 0 (c_string e)"

lemma utf8_cont_empty: "utf8_cont n i v [] = (if n = 0 then Inr v else Inl i)"
  by (cases n) auto

lemma utf8_next_wide:
  assumes n: "utf8_next c bs = (k, cp, bad)" and cp: "\<not> cp < 0x10000"
  shows "2 \<le> k" and "bs \<noteq> []"
proof -
  have "\<not> c < 0x80"
  proof
    assume "c < 0x80"
    then have "cp = ucast c" using n by (simp add: utf8_next_def)
    then have "unat cp < 256" using unat_byte_less[of c] by simp
    then show False using cp by (simp add: word_less_nat_alt)
  qed
  moreover have "cp \<noteq> 0xFFFD" using cp by auto
  ultimately show "2 \<le> k" "bs \<noteq> []"
    using n by (auto simp: utf8_next_def utf8_lead_def utf8_cont_empty split: if_splits option.splits sum.splits)
qed

lemma length_utf8_to_wchar_loop: "length (utf8_to_wchar_loop d i bs) \<le> length bs"
proof (induction d i bs rule: utf8_to_wchar_loop.induct)
  case (2 d i b bs)
  obtain k cp bad where n: "utf8_next b bs = (k, cp, bad)" by (metis prod_cases3)
  have k: "0 < k" using utf8_next_pos[OF n] .
  show ?case
  proof (cases "i + 1 < d")
    case True
    show ?thesis
    proof (cases "cp < 0x10000")
      case small: True
      then have "length (utf8_to_wchar_loop d (i + 1) (drop k (b # bs))) \<le> length (drop k (b # bs))"
        using 2(1)[OF _ n[symmetric]] True by simp
      then show ?thesis using True n small k by (simp add: Suc_le_eq)
    next
      case False
      then have k2: "2 \<le> k" "bs \<noteq> []" using utf8_next_wide[OF n] by auto
      show ?thesis
      proof (cases "i + 2 \<ge> d")
        case fits: False
        then have "length (utf8_to_wchar_loop d (i + 2) (drop k (b # bs))) \<le> length (drop k (b # bs))"
          using 2(2)[OF _ n[symmetric]] True False by simp
        moreover have "k \<le> length (b # bs) \<or> drop k (b # bs) = []" by auto
        moreover have "2 \<le> length (b # bs)" using k2(2) by (cases bs) auto
        ultimately show ?thesis using True n False fits k2 by (auto simp: utf16_enc_def)
      qed (use True n False in simp)
    qed
  qed simp
qed simp

text \<open>Two buffers that are both large enough are filled alike.\<close>

lemma utf8_to_wchar_loop_room:
  "i + length bs + 2 \<le> d \<Longrightarrow> j + length bs + 2 \<le> d' \<Longrightarrow> utf8_to_wchar_loop d i bs = utf8_to_wchar_loop d' j bs"
proof (induction d i bs arbitrary: d' j rule: utf8_to_wchar_loop.induct)
  case (2 d i b bs)
  obtain k cp bad where n: "utf8_next b bs = (k, cp, bad)" by (metis prod_cases3)
  have k: "0 < k" using utf8_next_pos[OF n] .
  have r: "i + 1 < d" "j + 1 < d'" using 2(3,4) by auto
  show ?case
  proof (cases "cp < 0x10000")
    case True
    have "utf8_to_wchar_loop d (i + 1) (drop k (b # bs)) = utf8_to_wchar_loop d' (j + 1) (drop k (b # bs))"
      using 2(1)[OF _ n[symmetric] refl True, of "j + 1" d'] r 2(3,4) k by simp
    then show ?thesis using r n True by simp
  next
    case False
    then have k2: "2 \<le> k" "bs \<noteq> []" using utf8_next_wide[OF n] by auto
    then have len: "2 \<le> length (b # bs)" by (cases bs) auto
    then have "utf8_to_wchar_loop d (i + 2) (drop k (b # bs)) = utf8_to_wchar_loop d' (j + 2) (drop k (b # bs))"
      using 2(2)[OF _ n[symmetric] refl False, of "j + 2" d'] r 2(3,4) k2 by simp
    then show ?thesis using r n False 2(3,4) len by simp
  qed
qed simp

lemma length_c_string: "length (c_string e) \<le> length e"
  by (simp add: c_string_def length_takeWhile_le)

lemma length_env_decode: "length (env_decode e) \<le> length e"
  unfolding env_decode_def using length_utf8_to_wchar_loop length_c_string by (rule le_trans)

lemma env_wide_full: "env_total env \<le> room \<Longrightarrow> env_wide room env = concat (map (\<lambda>e. env_decode e @ [0]) env) @ [0]"
proof (induction env arbitrary: room)
  case (Cons e es)
  have room: "length e + 2 \<le> room" using Cons.prems by (simp add: env_total_def)
  then have "utf8_to_wchar_loop room 0 (c_string e) = env_decode e"
    unfolding env_decode_def using length_c_string[of e] by (intro utf8_to_wchar_loop_room) simp_all
  then have w: "utf8_to_wchar (Some e) room = Some (env_decode e)" using room by (simp add: utf8_to_wchar_def)
  have "env_total es \<le> room - (length (env_decode e) + 1)"
    using Cons.prems length_env_decode[of e] by (simp add: env_total_def)
  then show ?case using Cons.IH w by (simp add: Let_def)
qed simp

text \<open>
  For every environment the two blocks that \<^verbatim>\<open>build_env_block\<close> fills fit what it allocated: the narrow one exactly,
  and the wide one holds every string converted without loss, in at most as many units.
\<close>

theorem env_blocks_fit:
  "length (env_narrow env) = env_total env \<and>
   env_wide (env_total env) env = concat (map (\<lambda>e. env_decode e @ [0]) env) @ [0] \<and>
   length (env_wide (env_total env) env) \<le> env_total env"
proof -
  have "length (concat (map (\<lambda>e. env_decode e @ [0]) env)) \<le> sum_list (map (\<lambda>e. length e + 1) env)"
    using length_env_decode by (induction env) (auto intro: add_mono)
  moreover have "length (env_narrow env) = env_total env"
    by (simp add: env_narrow_def env_total_def length_concat comp_def)
  ultimately show ?thesis by (simp add: env_wide_full) (simp add: env_total_def)
qed

section \<open>The cached blocks\<close>

definition env_inv :: "env_state \<Rightarrow> bool" where
  "env_inv s \<longleftrightarrow> heap s 0 = None \<and>
     (g_env_block s = 0 \<and> g_env_block_w s = 0 \<or>
      g_env_block s \<noteq> 0 \<and> g_env_block_w s \<noteq> 0 \<and> g_env_block s \<noteq> g_env_block_w s \<and>
      heap s (g_env_block s) = Some (Narrow (env_narrow (environ s))) \<and>
      heap s (g_env_block_w s) = Some (Wide (concat (map (\<lambda>e. env_decode e @ [0]) (environ s)) @ [0])))"

text \<open>The calls of a client that gives back the current block or none.\<close>

inductive env_reach :: "(nat \<Rightarrow> env_heap \<Rightarrow> nat) \<Rightarrow> env_state \<Rightarrow> bool" for malloc where
  start: "h 0 = None \<Longrightarrow> env_reach malloc \<lparr>environ = env, heap = h, g_env_block = 0, g_env_block_w = 0\<rparr>"
| get: "env_reach malloc s \<Longrightarrow> env_reach malloc (snd (GetEnvironmentStrings malloc s))"
| get_w: "env_reach malloc s \<Longrightarrow> env_reach malloc (snd (GetEnvironmentStringsW malloc s))"
| free: "env_reach malloc s \<Longrightarrow> p \<in> {0, g_env_block s} \<Longrightarrow> FreeEnvironmentStringsA p s = Some s' \<Longrightarrow> env_reach malloc s'"
| free_w: "env_reach malloc s \<Longrightarrow> p \<in> {0, g_env_block_w s} \<Longrightarrow> FreeEnvironmentStringsW p s = Some s' \<Longrightarrow> env_reach malloc s'"
| set_w: "env_reach malloc s \<Longrightarrow> SetEnvironmentVariableW name val s = Some (b, s') \<Longrightarrow> env_reach malloc s'"

lemma build_inv:
  assumes "malloc_ok malloc" "env_inv s" "g_env_block s = 0 \<or> g_env_block_w s = 0"
  shows "env_inv (build_env_block malloc s) \<and> environ (build_env_block malloc s) = environ s"
proof -
  let ?t = "env_total (environ s)"
  let ?a = "malloc ?t (heap s)"
  let ?h = "(heap s)(?a \<mapsto> Narrow (env_narrow (environ s)))"
  let ?w = "malloc (?t * 2) ?h"
  have z: "heap s 0 = None" "g_env_block s = 0" "g_env_block_w s = 0" using assms(2,3) by (auto simp: env_inv_def)
  have "?w \<noteq> 0 \<longrightarrow> ?h ?w = None" using assms(1) unfolding malloc_ok_def by blast
  then have "?w \<noteq> 0 \<longrightarrow> ?w \<noteq> ?a" by auto
  then show ?thesis using z by (auto simp: build_env_block_def env_inv_def Let_def env_wide_full)
qed

lemma env_reach_inv: "env_reach malloc s \<Longrightarrow> malloc_ok malloc \<Longrightarrow> env_inv s"
proof (induction rule: env_reach.induct)
  case (get s)
  then show ?case using build_inv[of malloc s] by (auto simp: GetEnvironmentStrings_def Let_def)
next
  case (get_w s)
  then show ?case using build_inv[of malloc s] by (auto simp: GetEnvironmentStringsW_def Let_def)
next
  case (set_w s name val b s')
  then show ?case by (auto simp: SetEnvironmentVariableW_def free_block_def env_inv_def bind_eq_Some_conv split: if_splits)
qed (auto simp: env_inv_def FreeEnvironmentStringsA_def FreeEnvironmentStringsW_def free_block_def split: if_splits)

text \<open>
  As long as variables are only changed through \<^verbatim>\<open>SetEnvironmentVariableW\<close> and blocks freed when they are the
  current ones, both \<^verbatim>\<open>GetEnvironmentStrings\<close> functions answer with an allocated block that shows the environment as it is
  now, or with the null pointer.
\<close>

theorem env_blocks_current:
  assumes "malloc_ok malloc" "env_reach malloc s"
  shows "(let (p, s') = GetEnvironmentStrings malloc s in environ s' = environ s \<and>
      (p = 0 \<or> heap s' p = Some (Narrow (env_narrow (environ s))))) \<and>
    (let (p, s') = GetEnvironmentStringsW malloc s in environ s' = environ s \<and>
      (p = 0 \<or> heap s' p = Some (Wide (concat (map (\<lambda>e. env_decode e @ [0]) (environ s)) @ [0]))))"
proof -
  have inv: "env_inv s" using env_reach_inv[OF assms(2,1)] .
  have "env_inv (snd (GetEnvironmentStrings malloc s))" "environ (snd (GetEnvironmentStrings malloc s)) = environ s"
      "env_inv (snd (GetEnvironmentStringsW malloc s))" "environ (snd (GetEnvironmentStringsW malloc s)) = environ s"
    using inv build_inv[OF assms(1) inv] by (auto simp: GetEnvironmentStrings_def GetEnvironmentStringsW_def Let_def)
  then show ?thesis
    by (auto simp: env_inv_def GetEnvironmentStrings_def GetEnvironmentStringsW_def Let_def)
qed

definition malloc_two :: "nat \<Rightarrow> env_heap \<Rightarrow> nat" where
  "malloc_two n h = (if h 4096 = None then 4096 else if h 8192 = None then 8192 else 0)"

lemma malloc_two_ok: "malloc_ok malloc_two"
  by (simp add: malloc_ok_def malloc_two_def)

definition sample_env :: env_state where
  "sample_env = \<lparr>environ = [[65, 61, 49]], heap = (\<lambda>_. None), g_env_block = 0, g_env_block_w = 0\<rparr>"

lemma sample_env_reach: "env_reach malloc sample_env"
  unfolding sample_env_def by (rule env_reach.start) simp

theorem env_blocks_current_witness:
  "heap (snd (GetEnvironmentStrings malloc_two sample_env)) 4096 = Some (Narrow [65, 61, 49, 0, 0])"
  using env_blocks_current[OF malloc_two_ok sample_env_reach]
  by (simp add: GetEnvironmentStrings_def sample_env_def build_env_block_def malloc_two_def Let_def env_narrow_def)

text \<open>
  A client that holds a block over a call of \<^verbatim>\<open>SetEnvironmentVariableW\<close>, as Windows allows, frees it twice: the block
  is gone when the client passes it to \<^verbatim>\<open>FreeEnvironmentStringsA\<close>.
\<close>

theorem env_block_freed_twice:
  assumes "malloc_ok malloc" "env_reach malloc s" "GetEnvironmentStrings malloc s = (p, s1)" "p \<noteq> 0"
    and "SetEnvironmentVariableW name val s1 = Some (b, s2)"
  shows "heap s2 p = None \<and> FreeEnvironmentStringsA p s2 = None"
proof -
  have "env_inv s1" using env_reach.get[OF assms(2)] assms(1,3) env_reach_inv by (metis snd_conv)
  moreover have "g_env_block s1 = p" using assms(3) by (auto simp: GetEnvironmentStrings_def Let_def)
  ultimately have "heap s2 p = None" "g_env_block s2 = 0"
    using assms(4,5) by (auto simp: SetEnvironmentVariableW_def free_block_def env_inv_def bind_eq_Some_conv split: if_splits)
  then show ?thesis using assms(4) by (simp add: FreeEnvironmentStringsA_def free_block_def)
qed

theorem env_block_freed_twice_witness:
  "\<exists>s1 s2. GetEnvironmentStrings malloc_two sample_env = (4096, s1) \<and> SetEnvironmentVariableW (Some [66]) (Some [67]) s1 = Some (True, s2) \<and>
    FreeEnvironmentStringsA 4096 s2 = None"
proof -
  let ?s1 = "snd (GetEnvironmentStrings malloc_two sample_env)"
  have g: "GetEnvironmentStrings malloc_two sample_env = (4096, ?s1)"
    by (simp add: GetEnvironmentStrings_def sample_env_def build_env_block_def malloc_two_def Let_def)
  have "\<exists>s2. SetEnvironmentVariableW (Some [66]) (Some [67]) ?s1 = Some (True, s2)"
    by (simp add: GetEnvironmentStrings_def sample_env_def build_env_block_def malloc_two_def Let_def SetEnvironmentVariableW_def
      wchar_to_utf8_def free_block_def)
  then obtain s2 where "SetEnvironmentVariableW (Some [66]) (Some [67]) ?s1 = Some (True, s2)" by blast
  then show ?thesis using env_block_freed_twice[OF malloc_two_ok sample_env_reach g] g by fastforce
qed

section \<open>Setting and reading a variable\<close>

lemma env_entry_name: "env_entry nm e \<Longrightarrow> 61 \<notin> set nm \<Longrightarrow> takeWhile (\<lambda>b. b \<noteq> 61) e = nm"
proof -
  assume e: "env_entry nm e" and "61 \<notin> set nm"
  then have "\<forall>b\<in>set nm. b \<noteq> 61" by auto
  moreover have "e = nm @ 61 # drop (Suc (length nm)) e"
    using e id_take_nth_drop[of "length nm" e] by (simp add: env_entry_def)
  ultimately show "takeWhile (\<lambda>b. b \<noteq> 61) e = nm" by (metis (mono_tags, lifting) append_Nil2 takeWhile.simps(2) takeWhile_append2)
qed

lemma env_entry_unique: "env_entry m e \<Longrightarrow> env_entry nm e \<Longrightarrow> 61 \<notin> set m \<Longrightarrow> 61 \<notin> set nm \<Longrightarrow> m = nm"
  using env_entry_name by metis

lemma env_entry_put [simp]: "env_entry nm (nm @ 61 # v)"
  by (simp add: env_entry_def)

lemma find_put: "find (env_entry nm) (put_entry nm v env) = Some (nm @ 61 # v)"
  by (induction env) auto

lemma find_put_other:
  assumes "m \<noteq> nm" "61 \<notin> set m" "61 \<notin> set nm"
  shows "find (env_entry m) (put_entry nm v env) = find (env_entry m) env"
proof -
  have "\<not> env_entry m (nm @ 61 # v)" using env_entry_unique[of m "nm @ 61 # v" nm] env_entry_put[of nm v] assms by blast
  moreover have "\<not> env_entry m e" if "env_entry nm e" for e using env_entry_unique[of m e nm] assms that by auto
  ultimately show ?thesis by (induction env) auto
qed

lemma find_unset: "find (env_entry nm) (filter (\<lambda>e. \<not> env_entry nm e) env) = None"
  by (auto simp: find_None_iff)

lemma find_unset_other:
  assumes "m \<noteq> nm" "61 \<notin> set m" "61 \<notin> set nm"
  shows "find (env_entry m) (filter (\<lambda>e. \<not> env_entry nm e) env) = find (env_entry m) env"
proof -
  have "\<not> env_entry m e" if "env_entry nm e" for e using env_entry_unique[of m e nm] assms that by auto
  then show ?thesis by (induction env) auto
qed

text \<open>
  A variable that \<^verbatim>\<open>SetEnvironmentVariableA\<close> set reads back through \<^verbatim>\<open>GetEnvironmentVariableA\<close> under the same name:
  the value with its terminator when the buffer has room for both, else the size needed; a variable set to null is
  gone, and neither call changes what another name gives.
\<close>

theorem env_set_get:
  assumes "name_ok nm"
  shows "(let s' = snd (SetEnvironmentVariableA nm (Some v) s) in
      GetEnvironmentVariableA (environ s') (Some nm) buf_null room =
        (if buf_null \<or> room \<le> length v then \<lparr>ea_ret = length v + 1, ea_buf = None, ea_err = None\<rparr>
         else \<lparr>ea_ret = length v, ea_buf = Some (v @ [0]), ea_err = None\<rparr>) \<and>
      (\<forall>m. name_ok m \<and> m \<noteq> nm \<longrightarrow> env_getenv (environ s') m = env_getenv (environ s) m)) \<and>
    (let s' = snd (SetEnvironmentVariableA nm None s) in env_getenv (environ s') nm = None \<and>
      (\<forall>m. name_ok m \<and> m \<noteq> nm \<longrightarrow> env_getenv (environ s') m = env_getenv (environ s) m))"
  using assms
  by (auto simp: SetEnvironmentVariableA_def env_setenv_def env_unsetenv_def GetEnvironmentVariableA_def env_getenv_def find_put
      find_put_other find_unset find_unset_other name_ok_def Let_def)

theorem env_set_get_witness:
  "GetEnvironmentVariableA (environ (snd (SetEnvironmentVariableA [66] (Some [67, 68]) sample_env))) (Some [66]) False 3 =
    \<lparr>ea_ret = 2, ea_buf = Some [67, 68, 0], ea_err = None\<rparr>"
proof -
  have "name_ok [66]" by (simp add: name_ok_def)
  from env_set_get[OF this, of "[67, 68]" sample_env False 3] show ?thesis by (simp add: Let_def)
qed

text \<open>Names are looked up without regard to case but set with it: here \<^verbatim>\<open>Path\<close> is set beside \<^verbatim>\<open>PATH\<close>, which keeps its value.\<close>

lemma env_case_split:
  "let s' = snd (SetEnvironmentVariableA [80, 97, 116, 104] (Some [98]) (sample_env\<lparr>environ := [[80, 65, 84, 72, 61, 97]]\<rparr>)) in
    ea_buf (GetEnvironmentVariableA (environ s') (Some [80, 65, 84, 72]) False 9) = Some [97, 0] \<and> length (environ s') = 2"
  by code_simp

text \<open>The narrow variant leaves the cached block as it was.\<close>

lemma env_block_stale:
  "g_env_block s \<noteq> 0 \<Longrightarrow> GetEnvironmentStrings malloc (snd (SetEnvironmentVariableA nm val s)) =
    (g_env_block s, snd (SetEnvironmentVariableA nm val s)) \<and> heap (snd (SetEnvironmentVariableA nm val s)) = heap s"
  by (auto simp: SetEnvironmentVariableA_def GetEnvironmentStrings_def Let_def split: option.splits)

end
