(* ===== verification/Shim_Locale.thy ===== *)
theory Shim_Locale
  imports Msvcrt_Format Shim_Env
begin

text \<open>
  Locale data and messages (shim_kernel32_locale.hpp, FormatMessageW of shim_kernel32_misc.hpp), folding and
  comparing strings and temporary file names (shim_kernel32_tail.hpp), the narrow environment expansion and comparing
  memory (shim_kernel32_a.hpp).  A C string is the list of its bytes before the NUL.
\<close>

section \<open>Locale\<close>

definition locale_value :: "u32 \<Rightarrow> string" where
  "locale_value lctype = (let t = lctype AND 0xffff in
     if t = 0x0003 then ''1252''
     else if t = 0x0005 then ''437''
     else if t = 0x0059 then ''en''
     else if t = 0x005A then ''US''
     else if t = 0x1004 then ''UTF-8''
     else '''')"

text \<open>The bytes stored, all \<open>n\<close> of them; a negative size writes outside the buffer.\<close>

definition GetLocaleInfoA :: "u32 \<Rightarrow> bool \<Rightarrow> int \<Rightarrow> (int \<times> bytes option) option" where
  "GetLocaleInfoA lctype buf_null n = (
     let val = str_bytes (locale_value lctype) in
     if buf_null \<or> n = 0 then Some (int (length val) + 1, None)
     else if n < 0 then None
     else let buf = take (nat n - 1) (val @ replicate (nat n) 0) @ [0] in
          Some (int (length (c_string buf)) + 1, Some buf))"

definition GetLocaleInfoW :: "u32 \<Rightarrow> bool \<Rightarrow> int \<Rightarrow> (int \<times> u16 list option) option" where
  "GetLocaleInfoW lctype buf_null n = (case GetLocaleInfoA lctype False 64 of
     Some (r, Some tmp) \<Rightarrow>
       if buf_null \<or> n = 0 then Some (r, None)
       else Some (r, utf8_to_wchar (Some tmp) (if n < 0 then 2 ^ 64 - nat (- n) else nat n))
   | _ \<Rightarrow> None)"

text \<open>The identifier the callback gets, once; its answer is not looked at.\<close>

definition EnumSystemLocalesW :: "bool \<Rightarrow> bool \<times> u16 list list" where
  "EnumSystemLocalesW fn_null = (if fn_null then (False, [])
     else (True, case utf8_to_wchar (Some (str_bytes ''00000409'')) 9 of Some w \<Rightarrow> [w] | None \<Rightarrow> []))"

definition GetUserDefaultLCID :: u32 where
  "GetUserDefaultLCID = 0x0409"

definition IsValidLocale :: "u32 \<Rightarrow> bool" where
  "IsValidLocale lcid \<longleftrightarrow> lcid = 0x0409 \<or> lcid = 0x0400 \<or> lcid = 0x0800 \<or> lcid = 0x007F"

lemma default_locale_listed: "IsValidLocale GetUserDefaultLCID \<and> snd (EnumSystemLocalesW False) = [map of_char ''00000409'']"
  by code_simp

lemma locale_info_cut:
  assumes "0 < n"
  shows "GetLocaleInfoA lctype False n =
    Some (int (min (nat n) (length (locale_value lctype) + 1)), Some (take (nat n - 1) (str_bytes (locale_value lctype) @ replicate (nat n) 0) @ [0]))"
proof -
  let ?v = "str_bytes (locale_value lctype)"
  have nz: "\<forall>b\<in>set ?v. b \<noteq> 0" by (auto simp: locale_value_def Let_def str_bytes_def)
  have "c_string (take k (?v @ replicate m 0) @ [0]) = take k ?v" for k m
    using nz unfolding c_string_def by (auto simp: takeWhile_append dest: in_set_takeD)
  then have "length (c_string (take (nat n - 1) (?v @ replicate (nat n) 0) @ [0])) = min (nat n - 1) (length (locale_value lctype))"
    by (simp add: min.commute del: take_append)
  moreover have "int (min (nat n - 1) l) + 1 = int (min (nat n) (l + 1))" for l using assms by linarith
  ultimately show ?thesis using assms by (simp add: GetLocaleInfoA_def Let_def del: take_append)
qed

section \<open>Messages\<close>

text \<open>
  \<^verbatim>\<open>format_message_expand\<close>: \<open>out\<close> is what is in the buffer of \<open>n\<close> bytes; \<open>sub fmt i\<close> is what \<^verbatim>\<open>snprintf\<close> makes of argument
  \<open>i\<close> with the conversion \<^verbatim>\<open>%fmt\<close>, at most 255 bytes.
\<close>

definition message_conversion :: "bytes \<Rightarrow> bytes \<times> bytes" where
  "message_conversion p = (case p of
     c # q \<Rightarrow>
       if c = 33
       then let fmt = take 15 (takeWhile (\<lambda>b. b \<noteq> 33) q); r = drop (length fmt) q in
            (fmt, case r of d # r' \<Rightarrow> if d = 33 then r' else r | [] \<Rightarrow> [])
       else (str_bytes ''s'', p)
   | [] \<Rightarrow> (str_bytes ''s'', []))"

lemma message_conversion_length: "length (snd (message_conversion p)) \<le> length p"
proof (cases p)
  case (Cons c q)
  have "length (case drop n q of d # r' \<Rightarrow> if d = 33 then r' else drop n q | [] \<Rightarrow> []) \<le> length q" for n
  proof (cases "drop n q")
    case (Cons d r')
    then have "length q - n = Suc (length r')" by (metis length_Cons length_drop)
    then have "Suc (length r') \<le> length q" by linarith
    then show ?thesis using Cons by simp
  qed simp
  then show ?thesis using Cons by (simp add: message_conversion_def Let_def le_SucI del: length_take)
qed (simp add: message_conversion_def)

function message_loop :: "(bytes \<Rightarrow> nat \<Rightarrow> bytes) \<Rightarrow> nat \<Rightarrow> bytes \<Rightarrow> bytes \<Rightarrow> bytes" where
  "message_loop sub n out [] = out"
| "message_loop sub n out (c # p) =
     (if n - 1 \<le> length out then out
      else if c = 37 \<and> p \<noteq> [] \<and> 49 \<le> hd p \<and> hd p \<le> 57
      then (let (fmt, r) = message_conversion (tl p) in
            message_loop sub n (take (n - 1) (out @ sub fmt (unat (hd p) - 49))) r)
      else if c = 37 \<and> p \<noteq> [] \<and> hd p = 37 then message_loop sub n (out @ [37]) (tl p)
      else message_loop sub n (out @ [c]) p)"
  by pat_completeness auto
termination
proof (relation "measure (\<lambda>(sub, n, out, p). length p)", goal_cases)
  case (2 sub n out c p x fmt r)
  then have "length r \<le> length (tl p)" using message_conversion_length[of "tl p"] by (metis snd_conv)
  then show ?case by simp
qed auto

definition format_message_expand :: "(bytes \<Rightarrow> nat \<Rightarrow> bytes) \<Rightarrow> bytes \<Rightarrow> nat \<Rightarrow> bytes" where
  "format_message_expand sub msg n = message_loop sub n [] msg"

definition message_table :: "(nat \<times> string) list" where
  "message_table =
    [(0, ''The operation completed successfully.''),
     (2, ''The system cannot find the file specified.''),
     (3, ''The system cannot find the path specified.''),
     (5, ''Access is denied.''),
     (6, ''The handle is invalid.''),
     (8, ''Not enough memory resources are available.''),
     (18, ''There are no more files.''),
     (87, ''The parameter is incorrect.''),
     (183, ''Cannot create a file when that file already exists.'')]"

definition message_text :: "nat \<Rightarrow> bytes" where
  "message_text msgId = (case map_of message_table msgId of
     Some m \<Rightarrow> str_bytes m
   | None \<Rightarrow> str_bytes ''Error '' @ dec_digits msgId)"

definition FormatMessageA :: "(bytes \<Rightarrow> nat \<Rightarrow> bytes) \<Rightarrow> nat \<Rightarrow> bool \<Rightarrow> nat \<Rightarrow> nat \<times> bytes option" where
  "FormatMessageA sub msgId buf_null n =
     (if buf_null \<or> n = 0 then (0, None)
      else let out = format_message_expand sub (message_text msgId) n in (length out, Some (out @ [0])))"

text \<open>The wide variant: \<open>alloc\<close> stands for FORMAT_MESSAGE_ALLOCATE_BUFFER, with the outcome of \<^verbatim>\<open>malloc\<close>.\<close>

definition FormatMessageW :: "(bytes \<Rightarrow> nat \<Rightarrow> bytes) \<Rightarrow> bool option \<Rightarrow> nat \<Rightarrow> bool \<Rightarrow> nat \<Rightarrow> nat \<times> u16 list option" where
  "FormatMessageW sub alloc msgId buf_null n = (
     let (k, buf) = FormatMessageA sub msgId False 4096;
         narrow = (if k = 0 then str_bytes ''Error '' @ dec_digits msgId else (case buf of Some b \<Rightarrow> take k b | None \<Rightarrow> [])) in
     case alloc of
       Some ok \<Rightarrow> if ok then (length narrow, Some (map ucast narrow @ [0])) else (0, None)
     | None \<Rightarrow> if buf_null \<or> n = 0 then (length narrow, None)
               else (length (take (n - 1) narrow), Some (map ucast (take (n - 1) narrow) @ [0])))"

lemma message_loop_bound: "length out \<le> n - 1 \<Longrightarrow> length (message_loop sub n out p) \<le> n - 1"
  by (induction sub n out p rule: message_loop.induct) (auto split: prod.splits)

lemma message_loop_plain: "37 \<notin> set p \<Longrightarrow> length out \<le> n - 1 \<Longrightarrow> message_loop sub n out p = take (n - 1) (out @ p)"
proof (induction p arbitrary: out)
  case (Cons c p)
  then show ?case using Cons.IH[of "out @ [c]"] by auto
qed simp

lemma dec_digits_no_percent: "37 \<notin> set (dec_digits k)"
proof (induction k rule: dec_digits.induct)
  case (1 n)
  have d: "(48 + of_nat (d :: nat) :: u8) \<noteq> 37" if "d < 10" for d
  proof
    assume "(48 + of_nat d :: u8) = 37"
    moreover have "\<forall>d\<in>set [0..<10]. (48 + of_nat d :: u8) \<noteq> 37" by code_simp
    ultimately show False using that by auto
  qed
  show ?case using 1 d[of n] d[of "n mod 10"] by (subst dec_digits.simps) auto
qed

lemma message_text_no_percent: "37 \<notin> set (message_text k)"
  using dec_digits_no_percent[of k]
  by (auto simp: message_text_def message_table_def str_bytes_def split: option.splits if_splits)

text \<open>
  \<^verbatim>\<open>FormatMessageA\<close> stores the text of the code, cut to one byte less than the buffer, with its terminator, whatever
  arguments come with it; expanding any other text stays within the buffer too.
\<close>

theorem format_message_fits:
  "(0 < n \<longrightarrow> FormatMessageA sub msgId False n = (min (n - 1) (length (message_text msgId)), Some (take (n - 1) (message_text msgId) @ [0]))) \<and>
   length (format_message_expand sub msg n) \<le> n - 1"
  using message_loop_plain[OF message_text_no_percent, of "[]" n sub msgId] message_loop_bound[of "[]" n sub msg]
  by (simp add: FormatMessageA_def format_message_expand_def Let_def min.commute)

section \<open>Expanding the environment\<close>

text \<open>
  \<^verbatim>\<open>ExpandEnvironmentStringsA\<close> on a buffer of 8192 bytes: an unknown name is put back, cut to 255 bytes; what does not fit is
  left out.
\<close>

definition expand_cap :: nat where
  "expand_cap = 8192"

definition expand_value :: "(bytes \<Rightarrow> bytes option) \<Rightarrow> bytes \<Rightarrow> bytes \<Rightarrow> bytes" where
  "expand_value getenv var out = (case getenv var of
     Some v \<Rightarrow> if length out + length v < expand_cap then out @ v else out
   | None \<Rightarrow> if length out + length var + 2 < expand_cap then out @ [37] @ var @ [37] else out)"

function expand_a :: "(bytes \<Rightarrow> bytes option) \<Rightarrow> bytes \<Rightarrow> bytes \<Rightarrow> bytes" where
  "expand_a getenv out [] = out"
| "expand_a getenv out (c # p) =
     (if expand_cap \<le> length out + 2 then out
      else if c = 37 \<and> 37 \<in> set p
      then (let nm = takeWhile (\<lambda>b. b \<noteq> 37) p in
            expand_a getenv (expand_value getenv (take 255 nm) out) (drop (length nm + 1) p))
      else expand_a getenv (out @ [c]) p)"
  by pat_completeness auto
termination
  by (relation "measure (\<lambda>(getenv, out, p). length p)") auto

text \<open>The value and what is stored.\<close>

definition ExpandEnvironmentStringsA :: "(bytes \<Rightarrow> bytes option) \<Rightarrow> bytes option \<Rightarrow> bool \<Rightarrow> nat \<Rightarrow> nat \<times> bytes option" where
  "ExpandEnvironmentStringsA getenv src dst_null n = (case src of
     None \<Rightarrow> (0, None)
   | Some s \<Rightarrow> let out = expand_a getenv [] s; need = length out + 1 in
       (need, if dst_null then None
              else if need \<le> n then Some (out @ [0])
              else if 0 < n then Some (take (n - 1) (out @ [0]) @ [0]) else None))"

lemma expand_value_bound: "length out < expand_cap \<Longrightarrow> length (expand_value getenv var out) < expand_cap"
  by (auto simp: expand_value_def split: option.splits)

lemma expand_a_bound: "length out < expand_cap \<Longrightarrow> length (expand_a getenv out p) < expand_cap"
proof (induction getenv out p rule: expand_a.induct)
  case (2 getenv out c p)
  then show ?case using expand_value_bound by (auto simp: Let_def)
qed simp

lemma expand_a_fits: "fst (ExpandEnvironmentStringsA getenv src dst_null n) \<le> expand_cap"
  using expand_a_bound[of "[]" getenv] by (auto simp: ExpandEnvironmentStringsA_def Let_def expand_cap_def Suc_le_eq split: option.splits)

lemma expand_a_plain: "37 \<notin> set p \<Longrightarrow> length out + length p + 1 < expand_cap \<Longrightarrow> expand_a getenv out p = out @ p"
  by (induction p arbitrary: out) auto

section \<open>Folding and comparing\<close>

text \<open>\<open>lower\<close> and \<open>upper\<close> are the C library's; a negative length counts the terminator.\<close>

definition FoldStringW :: "(u16 \<Rightarrow> u16) \<Rightarrow> (u16 \<Rightarrow> u16) \<Rightarrow> u32 \<Rightarrow> u16 list option \<Rightarrow> int \<Rightarrow> bool \<Rightarrow> int \<Rightarrow> int \<times> u16 list option" where
  "FoldStringW lower upper flags src src_len dst_null dst_size = (case src of
     None \<Rightarrow> (0, None)
   | Some s \<Rightarrow>
       let text = (if src_len < 0 then takeWhile (\<lambda>c. c \<noteq> 0) s @ [0] else take (nat src_len) s);
           n = (if src_len < 0 then int (length text) else src_len) in
       if dst_null \<or> dst_size = 0 then (n, None)
       else let w = (if n < dst_size then n else dst_size) in
            (w, Some (map (\<lambda>c. if flags AND 0x100 \<noteq> 0 then lower c else if flags AND 0x200 \<noteq> 0 then upper c else c) (take (nat w) text))))"

fun byte_cmp :: "(u8 \<Rightarrow> u8) \<Rightarrow> bytes \<Rightarrow> bytes \<Rightarrow> int" where
  "byte_cmp f (a # as) (b # bs) = (if f a = f b then byte_cmp f as bs else uint (f a) - uint (f b))"
| "byte_cmp f as bs = (if as \<noteq> [] then 1 else if bs \<noteq> [] then - 1 else 0)"

definition CompareStringA :: "bool \<Rightarrow> bytes option \<Rightarrow> int \<Rightarrow> bytes option \<Rightarrow> int \<Rightarrow> int" where
  "CompareStringA ignore_case s1 n1 s2 n2 = (case (s1, s2) of
     (Some s1, Some s2) \<Rightarrow>
       let f = (if ignore_case then lower8 else id);
           c1 = (if n1 < 0 then int (length s1) else n1);
           c2 = (if n2 < 0 then int (length s2) else n2);
           k = nat (min c1 c2);
           r0 = (if n1 < 0 \<and> n2 < 0 then byte_cmp f s1 s2 else byte_cmp f (take k s1) (take k s2));
           r = (if \<not> (n1 < 0 \<and> n2 < 0) \<and> r0 = 0 then c1 - c2 else r0) in
       if r < 0 then 1 else if r > 0 then 3 else 2
   | _ \<Rightarrow> 0)"

lemma byte_cmp_flip: "(byte_cmp f as bs < 0) = (0 < byte_cmp f bs as)"
  by (induction f as bs rule: byte_cmp.induct) (auto split: list.splits)

lemma byte_cmp_0: "byte_cmp f as bs = 0 \<longleftrightarrow> map f as = map f bs"
  by (induction f as bs rule: byte_cmp.induct) (auto simp: word_uint_eq_iff)

text \<open>Whole strings: equal exactly when the same text, and exchanging them exchanges less and greater.\<close>

lemma compare_strings:
  "CompareStringA ic (Some a) (- 1) (Some b) (- 1) = 2 \<longleftrightarrow> (if ic then map lower8 a = map lower8 b else a = b)"
  "CompareStringA ic (Some a) (- 1) (Some b) (- 1) + CompareStringA ic (Some b) (- 1) (Some a) (- 1) = 4"
  using byte_cmp_0[of "if ic then lower8 else id" a b] byte_cmp_0[of "if ic then lower8 else id" b a]
    byte_cmp_flip[of "if ic then lower8 else id" a b] byte_cmp_flip[of "if ic then lower8 else id" b a]
  by (auto simp: CompareStringA_def Let_def)

definition RtlCompareMemory :: "bytes \<Rightarrow> bytes \<Rightarrow> nat \<Rightarrow> nat" where
  "RtlCompareMemory s1 s2 len = length (takeWhile (\<lambda>(a, b). a = b) (zip (take len s1) (take len s2)))"

section \<open>Temporary files\<close>

text \<open>The hash of the characters that \<^verbatim>\<open>mkstemps\<close> chose; its lowest bit is set, 0 being the sign of failure.\<close>

definition temp_hash :: "bytes \<Rightarrow> u32" where
  "temp_hash rnd = foldl (\<lambda>h b. (h XOR ucast b) * 0x01000193) 0x811c9dc5 (takeWhile (\<lambda>b. b \<noteq> 46) (take 6 rnd)) OR 1"

definition hex_upper :: "nat \<Rightarrow> u8" where
  "hex_upper d = (if d < 10 then of_nat (48 + d) else of_nat (55 + d))"

definition temp_number :: "u32 \<Rightarrow> bytes" where
  "temp_number u = map (\<lambda>k. hex_upper (unat u div 16 ^ k mod 16)) [3, 2, 1, 0]"

text \<open>
  Directory and prefix are in UTF-8; \<open>mkstemps\<close> answers the six characters or an error.  The name is cut to the buffer
  of 4096 bytes.
\<close>

definition GetTempFileNameW :: "(bytes \<Rightarrow> bytes option) \<Rightarrow> bytes \<Rightarrow> bytes \<Rightarrow> u32 \<Rightarrow> u32 \<times> bytes option" where
  "GetTempFileNameW mkstemps dir prefix unique = (
     let pfx = take 3 prefix in
     if unique \<noteq> 0 then (unique, Some (take 4095 (dir @ [47] @ pfx @ temp_number unique @ str_bytes ''.tmp'')))
     else case mkstemps (dir @ [47] @ pfx) of
         None \<Rightarrow> (0, None)
       | Some rnd \<Rightarrow> (temp_hash rnd, Some (dir @ [47] @ pfx @ rnd @ str_bytes ''.tmp'')))"

lemma temp_hash_nonzero: "temp_hash rnd \<noteq> 0"
proof -
  have "bit (temp_hash rnd) 0" by (simp add: temp_hash_def bit_simps)
  then show ?thesis by auto
qed

lemma temp_file_result: "fst (GetTempFileNameW mkstemps dir prefix unique) = 0 \<longleftrightarrow> snd (GetTempFileNameW mkstemps dir prefix unique) = None"
  using temp_hash_nonzero by (auto simp: GetTempFileNameW_def Let_def split: option.splits)

end
