(* ===== verification/Shim_Char.thy ===== *)
theory Shim_Char
  imports Shim_Strings Shim_Locale
begin

text \<open>
  Characters of the ANSI interface: the case conversion and the OEM conversion of shim_user32.hpp, the string functions
  of shim_kernel32_miscstubs.hpp and \<^verbatim>\<open>FoldStringA\<close> (shim_kernel32_tail.hpp).  A string argument is the memory it
  points to, its terminator and what follows included; the C library's \<^verbatim>\<open>tolower\<close> and its kin are arguments.
\<close>

section \<open>Case conversion\<close>

text \<open>The functions take a pointer or, below \<^verbatim>\<open>0x10000\<close>, a single character in place of it.\<close>

datatype 'c char_arg = Char_Value u64 | Char_Text "'c list"

text \<open>\<open>None\<close> is a loop that leaves the memory without having met a terminator.\<close>

fun case_loop :: "('a::len word \<Rightarrow> 'a word) \<Rightarrow> 'a word list \<Rightarrow> 'a word list option" where
  "case_loop f [] = None"
| "case_loop f (c # cs) = (if c = 0 then Some (c # cs) else map_option ((#) (f c)) (case_loop f cs))"

definition CharLowerA :: "(int \<Rightarrow> int) \<Rightarrow> u8 char_arg \<Rightarrow> u8 char_arg option" where
  "CharLowerA tolower s = (case s of
       Char_Value v \<Rightarrow> Some (Char_Value (of_int (tolower (uint (ucast v :: u8)))))
     | Char_Text m \<Rightarrow> map_option Char_Text (case_loop (\<lambda>c. of_int (tolower (uint c))) m))"

definition CharLowerW :: "(u32 \<Rightarrow> u32) \<Rightarrow> u16 char_arg \<Rightarrow> u16 char_arg option" where
  "CharLowerW towlower s = (case s of
       Char_Value v \<Rightarrow> Some (Char_Value (ucast (towlower (ucast v))))
     | Char_Text m \<Rightarrow> map_option Char_Text (case_loop (\<lambda>c. ucast (towlower (ucast c))) m))"

definition CharUpperA :: "(int \<Rightarrow> int) \<Rightarrow> u8 char_arg \<Rightarrow> u8 char_arg option" where
  "CharUpperA toupper s = (case s of
       Char_Value v \<Rightarrow> Some (Char_Value (of_int (toupper (sint (ucast v :: u32)))))
     | Char_Text m \<Rightarrow> map_option Char_Text (case_loop (\<lambda>c. of_int (toupper (uint c))) m))"

definition CharUpperW :: "(u32 \<Rightarrow> u32) \<Rightarrow> u16 char_arg \<Rightarrow> u16 char_arg option" where
  "CharUpperW towupper s = (case s of
       Char_Value v \<Rightarrow> Some (Char_Value (ucast (towupper (ucast v))))
     | Char_Text m \<Rightarrow> map_option Char_Text (case_loop (\<lambda>c. ucast (towupper (ucast c))) m))"

text \<open>The characters before the terminator are converted in place, and nothing behind it is touched.\<close>

lemma case_loop_text: "0 \<notin> set s \<Longrightarrow> case_loop f (s @ 0 # rest) = Some (map f s @ 0 # rest)"
  by (induction s) auto

lemma char_lower_text:
  assumes "0 \<notin> set s"
  shows "CharLowerA tolower (Char_Text (s @ 0 # rest)) = Some (Char_Text (map (\<lambda>c. of_int (tolower (uint c))) s @ 0 # rest))"
  using assms by (simp add: CharLowerA_def case_loop_text)

text \<open>
  A single character is narrowed to a byte by \<^verbatim>\<open>CharLowerA\<close> only: \<^verbatim>\<open>CharUpperA\<close> hands \<^verbatim>\<open>toupper\<close> numbers outside the range
  for which the C standard defines it.
\<close>

lemma char_value_range:
  "CharLowerA f (Char_Value 0x141) = Some (Char_Value (of_int (f 0x41)))"
  "CharUpperA f (Char_Value 0x141) = Some (Char_Value (of_int (f 0x141)))"
  by (simp_all add: CharLowerA_def CharUpperA_def)

section \<open>OEM characters\<close>

text \<open>What is stored at the destination, if anything; the code page is UTF-8 on both sides.\<close>

definition CharToOemA :: "bytes option \<Rightarrow> bool \<Rightarrow> bytes option" where
  "CharToOemA src dst_null = (case src of None \<Rightarrow> None | Some m \<Rightarrow> if dst_null then None else Some (c_string m @ [0]))"

definition CharToOemBuffA :: "bytes option \<Rightarrow> bool \<Rightarrow> nat \<Rightarrow> bytes option" where
  "CharToOemBuffA src dst_null len = (case src of None \<Rightarrow> None | Some m \<Rightarrow> if dst_null then None else Some (take len m))"

definition CharToOemBuffW :: "u16 list option \<Rightarrow> bool \<Rightarrow> nat \<Rightarrow> bool \<times> bytes option" where
  "CharToOemBuffW src dst_null len =
    (if src = None \<or> dst_null then (False, None) else (True, map_option (take len) (wchar_to_utf8 src 65536)))"

definition CharToOemW :: "u16 list option \<Rightarrow> bool \<Rightarrow> bytes option" where
  "CharToOemW src dst_null = (if src = None \<or> dst_null then None else map_option (\<lambda>u. u @ [0]) (wchar_to_utf8 src 65536))"

definition OemToCharA :: "bytes option \<Rightarrow> bool \<Rightarrow> bytes option" where
  "OemToCharA src dst_null = CharToOemA src dst_null"

definition OemToCharW :: "bytes option \<Rightarrow> bool \<Rightarrow> u16 list option" where
  "OemToCharW src dst_null = (if src = None \<or> dst_null then None else map_option (\<lambda>w. w @ [0]) (utf8_to_wchar src 65536))"

definition OemToCharBuffA :: "bytes option \<Rightarrow> bool \<Rightarrow> nat \<Rightarrow> bytes option" where
  "OemToCharBuffA src dst_null len = CharToOemBuffA src dst_null len"

definition OemToCharBuffW :: "bytes option \<Rightarrow> bool \<Rightarrow> nat \<Rightarrow> u16 list option" where
  "OemToCharBuffW src dst_null len = (if src = None \<or> dst_null then None else map_option (\<lambda>w. w @ [0]) (utf8_to_wchar src len))"

lemma unat_widen [simp]: "unat (ucast (c :: u8) :: u16) = unat c"
proof -
  have "unat c < 2 ^ 16" using unat_byte_less[of c] by simp
  then show ?thesis by (simp add: unsigned_ucast_eq take_bit_nat_eq_self)
qed

lemma c_string_append: "0 \<notin> set s \<Longrightarrow> c_string (s @ m) = s @ c_string m"
  by (induction s) (auto simp: c_string_def)

lemma decode_ascii_full:
  "\<forall>b\<in>set s. b < 0x80 \<Longrightarrow> i + length s = n \<Longrightarrow> utf8_to_wchar_loop n i (s @ r) = map ucast (butlast s)"
proof (induction s arbitrary: i)
  case Nil
  then show ?case by (cases r) simp_all
next
  case (Cons b s)
  show ?case
  proof (cases "s = []")
    case False
    have "(ucast b :: u32) < 0x10000" by (simp add: word_less_nat_alt) (use unat_byte_less[of b] in linarith)
    moreover have "unat (ucast b :: u32) < 0x10000" using unat_byte_less[of b] by simp
    then have "(ucast (ucast b :: u32) :: u16) = ucast b" by (simp only: word_unat_eq_iff unat_ucast_small16 unat_ucast_u8 unat_widen)
    moreover have "utf8_to_wchar_loop n (i + 1) (s @ r) = map ucast (butlast s)" using Cons False by simp
    moreover have "Suc i < n" using Cons.prems(2) False by (cases s) auto
    ultimately show ?thesis using Cons.prems False by (simp add: utf8_next_def)
  qed (use Cons.prems in simp)
qed

text \<open>
  Windows converts \<open>len\<close> characters that need no terminator.  Here the last character of the text is replaced by a
  terminator, whatever memory follows it.
\<close>

lemma oem_buffer_loses_last:
  assumes "0 \<notin> set s" "\<forall>b\<in>set s. b < 0x80" "s \<noteq> []"
  shows "OemToCharBuffW (Some (s @ rest)) False (length s) = Some (map ucast (butlast s) @ [0])"
  using assms decode_ascii_full[of s 0 "length s" "c_string rest"] by (simp add: OemToCharBuffW_def utf8_to_wchar_def c_string_append)

text \<open>In the other direction the length counts bytes, and a character outside ASCII is cut in two.\<close>

lemma oem_buffer_cuts_character: "CharToOemBuffW (Some (0xE9 # 0 # rest)) False 1 = (True, Some [0xC3])"
  by (simp add: CharToOemBuffW_def wchar_to_utf8_def is_high_def utf8_enc_def)

section \<open>Strings of the ANSI interface\<close>

definition GetStringTypeA :: "u32 \<Rightarrow> bytes option \<Rightarrow> int \<Rightarrow> bool \<Rightarrow> u32 + u16 list" where
  "GetStringTypeA type src n types_null = (case src of
       None \<Rightarrow> Inl ERROR_INVALID_PARAMETER
     | Some s \<Rightarrow> if types_null \<or> n = 0 then Inl ERROR_INVALID_PARAMETER
         else Inr (map (\<lambda>c. if type = 1 then classify_ctype1 (ucast c) else 0) (if n < 0 then c_string s else take (nat n) s)))"

definition ansi_upper :: "u8 \<Rightarrow> u8" where
  "ansi_upper c = (if 0x61 \<le> c \<and> c \<le> 0x7A then c - 32 else c)"

definition LCMapStringA :: "u32 \<Rightarrow> bytes \<Rightarrow> int \<Rightarrow> bool \<Rightarrow> int \<Rightarrow> int \<times> bytes" where
  "LCMapStringA flags src srclen dst_null dstlen = (
     let n = (if srclen < 0 then int (length (c_string src)) + 1 else srclen);
         units = take (nat (min n dstlen)) (if srclen < 0 then c_string src @ [0] else src) in
     (n, if \<not> dst_null \<and> 0 < dstlen then (if flags AND LCMAP_UPPERCASE \<noteq> 0 then map ansi_upper units else units) else []))"

lemma ascii_upper_widen: "ascii_upper (ucast c) = ucast (ansi_upper c)"
proof (cases "0x61 \<le> c \<and> c \<le> 0x7A")
  case True
  then have r: "97 \<le> unat c" "unat c \<le> 122" by (simp_all add: word_le_nat_alt)
  then have "unat (ucast c - 32 :: u16) = unat (ucast (c - 32) :: u16)" by (simp add: unat_sub word_le_nat_alt)
  then show ?thesis using r by (simp add: ascii_upper_def ansi_upper_def word_le_nat_alt word_unat_eq_iff)
qed (auto simp: ascii_upper_def ansi_upper_def word_le_nat_alt)

lemma widen_nul: "(ucast (c :: u8) :: u16) = 0 \<longleftrightarrow> c = 0"
  by (simp add: word_unat_eq_iff)

text \<open>
  The ANSI function is the wide one on bytes, as long as lower case is not asked for: that flag it ignores.
\<close>

lemma lcmap_ansi_agrees:
  assumes "flags AND LCMAP_LOWERCASE = 0"
  shows "LCMapStringW flags (map ucast src) srclen dst_null dstlen = map_prod id (map ucast) (LCMapStringA flags src srclen dst_null dstlen)"
proof -
  have n: "ascii_upper 0 = 0" "ansi_upper 0 = 0" by (simp_all add: ascii_upper_def ansi_upper_def)
  have m: "map ascii_upper (take k [0]) = map (\<lambda>x. ucast (ansi_upper x)) (take k [0])" "take k [0 :: u16] = map ucast (take k [0 :: u8])" for k
    by (cases k; simp add: n)+
  show ?thesis
    using assms by (simp add: LCMapStringW_def LCMapStringA_def c_string_def takeWhile_map comp_def widen_nul ascii_upper_widen take_map Let_def m)
qed

lemma lcmap_ansi_keeps_case: "LCMapStringA LCMAP_LOWERCASE [0x41, 0] (- 1) False 2 = (2, [0x41, 0])"
  by (simp add: LCMapStringA_def c_string_def)

text \<open>\<^verbatim>\<open>FoldStringA\<close> with its two arrays on the stack: what they hold before the call follows what is stored.\<close>

definition FoldStringA :: "(u16 \<Rightarrow> u16) \<Rightarrow> (u16 \<Rightarrow> u16) \<Rightarrow> u32 \<Rightarrow> bytes option \<Rightarrow> int \<Rightarrow> bool \<Rightarrow> nat \<Rightarrow> u16 list \<Rightarrow> u16 list \<Rightarrow> int \<times> bytes option" where
  "FoldStringA lower upper flags src src_len dst_null dst_size stack_src stack_dst = (case src of
     None \<Rightarrow> (0, None)
   | Some s \<Rightarrow>
       let n = (if src_len < 0 then int (length (c_string s)) + 1 else src_len);
           wsrc = utf8_to_wchar_loop 4096 0 (c_string s) @ 0 # stack_src;
           (r, out) = FoldStringW lower upper flags (Some wsrc) n False 4096;
           wdst = (case out of None \<Rightarrow> stack_dst | Some u \<Rightarrow> u @ stack_dst) in
       (r, if dst_null \<or> dst_size = 0 then None else map_option (\<lambda>b. b @ [0]) (wchar_to_utf8 (Some wdst) dst_size)))"

text \<open>With a length that does not count a terminator the result is read on into what the stack held.\<close>

lemma fold_ansi_reads_stack: "FoldStringA id id 0 (Some [97, 0]) 1 False 64 js (0x62 # 0 # jd) = (1, Some [97, 98, 0])"
  by (simp add: FoldStringA_def FoldStringW_def c_string_def utf8_next_def wchar_to_utf8_def is_high_def utf8_enc_def)

end
