(* ===== verification/Shim_Info.thy ===== *)
theory Shim_Info
  imports Shim_Unicode "HOL-Library.Monad_Syntax"
begin

text \<open>
  What the program is told of the system and of itself: versions, memory, processors, disks, times, the base of the
  image (shim.cpp, shim_kernel32_a.hpp, shim_kernel32_tail.hpp, shim_kernel32_sysinfo.hpp, shim_kernel32_misc.hpp,
  shim_kernel32_proc.hpp, shim_kernel32_thread.hpp), the console (shim_kernel32_console.hpp and its parts), critical
  sections and lists (shim_kernel32_critsec.hpp), clocks (shim_kernel32_smallstubs.hpp, shim_kernel32_miscstubs.hpp) and
  \<^verbatim>\<open>BSTR\<close> strings (shim_misc_dlls.hpp).  What the host answers is an argument.
\<close>

section \<open>Stores into a caller's structure\<close>

text \<open>\<open>None\<close> is a store outside the buffer.\<close>

definition store :: "nat \<Rightarrow> bytes \<Rightarrow> bytes \<Rightarrow> bytes option" where
  "store k bs buf = (if k + length bs \<le> length buf then Some (take k buf @ bs @ drop (k + length bs) buf) else None)"

fun stores :: "(nat \<times> bytes) list \<Rightarrow> bytes \<Rightarrow> bytes option" where
  "stores [] buf = Some buf"
| "stores ((k, bs) # ws) buf = do { buf' \<leftarrow> store k bs buf; stores ws buf' }"

lemma length_store: "store k bs buf = Some buf' \<Longrightarrow> length buf' = length buf"
  by (auto simp: store_def split: if_splits)

lemma stores_ok: "(\<forall>(k, bs)\<in>set ws. k + length bs \<le> length buf) \<longleftrightarrow> (\<exists>buf'. stores ws buf = Some buf')"
proof (induction ws arbitrary: buf)
  case (Cons w ws)
  obtain k bs where w: "w = (k, bs)" by (cases w)
  show ?case
  proof (cases "store k bs buf")
    case (Some buf')
    then have "k + length bs \<le> length buf" "length buf' = length buf" by (auto simp: store_def split: if_splits)
    then show ?thesis using Cons.IH[of buf'] Some w by simp
  qed (simp add: w store_def split: if_splits)
qed simp

section \<open>Versions\<close>

definition version_fields :: "(nat \<times> bytes) list" where
  "version_fields = [(4, le_bytes 4 (6 :: u32)), (8, le_bytes 4 (1 :: u32)), (12, le_bytes 4 (7601 :: u32)), (16, le_bytes 4 (2 :: u32))]"

text \<open>The result and the structure; \<open>sz\<close> is what the caller wrote into its first field, the list its real bytes.\<close>

definition GetVersionExA :: "bytes \<Rightarrow> (bool \<times> bytes) option" where
  "GetVersionExA buf = (
     let sz = unat (le_word (take 4 buf) :: u32) in
     if sz < 148 then Some (False, buf)
     else map_option (Pair True) (stores ((4, replicate (sz - 4) 0) # version_fields @ [(20, str_bytes ''Service Pack 1'' @ [0])] @
       (if 156 \<le> sz then [(148, le_bytes 2 (1 :: u16)), (150, le_bytes 2 (0 :: u16)), (152, le_bytes 2 (0 :: u16)), (154, [1])] else [])) buf))"

definition GetVersionExW :: "bytes \<Rightarrow> (bool \<times> bytes) option" where
  "GetVersionExW buf = (
     let sz = unat (le_word (take 4 buf) :: u32); fill = (if sz < 284 then sz else 284) in
     if sz < 276 then Some (False, buf)
     else map_option (Pair True) (stores ((4, replicate (fill - 4) 0) # version_fields @
       (if 284 \<le> sz then [(276, le_bytes 2 (1 :: u16)), (278, le_bytes 2 (0 :: u16)), (280, le_bytes 2 (0 :: u16)), (282, [1])] else [])) buf))"

definition GetVersion :: u32 where
  "GetVersion = push_bit 16 7601 OR push_bit 8 1 OR 6"

text \<open>
  \<^verbatim>\<open>GetVersionExW\<close> stays within a structure of the published size whatever size the caller claims, as its comment
  promises; \<^verbatim>\<open>GetVersionExA\<close> writes behind any structure that is smaller than claimed.
\<close>

theorem version_stores:
  assumes "4 \<le> length buf"
  defines "sz \<equiv> unat (le_word (take 4 buf) :: u32)"
  shows "(min sz 284 \<le> length buf \<longrightarrow> (\<exists>r. GetVersionExW buf = Some r)) \<and> (148 \<le> sz \<and> length buf < sz \<longrightarrow> GetVersionExA buf = None)"
proof -
  have "\<exists>r. GetVersionExW buf = Some r" if le: "min sz 284 \<le> length buf"
  proof (cases "sz < 276")
    case False
    have "\<exists>b. stores ((4, replicate ((if sz < 284 then sz else 284) - 4) 0) # version_fields @
       (if 284 \<le> sz then [(276, le_bytes 2 (1 :: u16)), (278, le_bytes 2 (0 :: u16)), (280, le_bytes 2 (0 :: u16)), (282, [1])] else [])) buf = Some b"
      using le False by (subst stores_ok[symmetric]) (cases "sz < 284"; auto simp: version_fields_def)
    then show ?thesis using False by (auto simp: GetVersionExW_def sz_def[symmetric] Let_def)
  qed (simp add: GetVersionExW_def sz_def[symmetric] ex_bool_eq)
  moreover have "GetVersionExA buf = None" if "148 \<le> sz" "length buf < sz"
    using that by (auto simp: GetVersionExA_def sz_def[symmetric] Let_def store_def)
  ultimately show ?thesis by blast
qed

theorem version_stores_witness:
  "GetVersionExA (le_bytes 4 (300 :: u32) @ replicate 200 0) = None"
proof -
  have "le_word (take 4 (le_bytes 4 (300 :: u32) @ replicate 200 0)) = (300 :: u32)" by (simp add: codec_simps del: le_bytes.simps)
  then show ?thesis using version_stores[of "le_bytes 4 (300 :: u32) @ replicate 200 0"] by simp
qed

section \<open>Memory\<close>

text \<open>\<^verbatim>\<open>sysinfo\<close>: tot and free memory in bytes; the load in percent.\<close>

definition memory_load :: "u64 \<Rightarrow> u64 \<Rightarrow> u32" where
  "memory_load tot avail = (if tot \<noteq> 0 then ucast (100 - avail * 100 div tot) else 0)"

definition GlobalMemoryStatusEx :: "(u64 \<times> u64) option \<Rightarrow> bytes \<Rightarrow> (bool \<times> bytes) option" where
  "GlobalMemoryStatusEx info buf = (
     let len = le_word (take 4 buf) :: u32 in
     if len < 64 then Some (False, buf)
     else map_option (Pair True) (stores ((0, replicate 64 0) # (0, le_bytes 4 len) # (case info of
         None \<Rightarrow> []
       | Some (tot, avail) \<Rightarrow>
           [(4, le_bytes 4 (memory_load tot avail)), (8, le_bytes 8 tot), (16, le_bytes 8 avail), (24, le_bytes 8 tot), (32, le_bytes 8 avail),
            (40, le_bytes 8 (push_bit 40 2 :: u64)), (48, le_bytes 8 (push_bit 40 2 :: u64)), (56, le_bytes 8 (0 :: u64))])) buf))"

definition GlobalMemoryStatus :: "(u64 \<times> u64) option \<Rightarrow> bytes \<Rightarrow> bytes option" where
  "GlobalMemoryStatus info buf = stores ((0, replicate 32 0) # (0, le_bytes 4 (32 :: u32)) # (case info of
       None \<Rightarrow> []
     | Some (tot, avail) \<Rightarrow> [(4, le_bytes 4 (memory_load tot avail)), (8, le_bytes 8 tot), (16, le_bytes 8 avail), (24, le_bytes 8 tot)])) buf"

lemma memory_load_percent: "unat avail \<le> unat tot \<Longrightarrow> unat avail * 100 < 2 ^ 64 \<Longrightarrow> unat (memory_load tot avail) \<le> 100"
proof -
  assume le: "unat avail \<le> unat tot" and nw: "unat avail * 100 < 2 ^ 64"
  show ?thesis
  proof (cases "tot = 0")
    case False
    have m: "unat (avail * 100) = unat avail * 100" using nw unat_mult_nowrap[of avail 100] by simp
    have "unat avail * 100 div unat tot \<le> unat tot * 100 div unat tot" using le by (intro div_le_mono) simp
    then have q: "unat (avail * 100 div tot) \<le> 100" using m False by (simp add: unat_div_distrib unsigned_eq_0_iff)
    then have "unat (100 - avail * 100 div tot) = 100 - unat (avail * 100 div tot)" by (subst unat_sub) (auto simp: word_le_nat_alt)
    then have "unat (100 - avail * 100 div tot) \<le> 100" by simp
    then have "unat (ucast (100 - avail * 100 div tot) :: u32) \<le> 100" by (simp add: unsigned_ucast_eq take_bit_nat_eq_self)
    then show ?thesis using False by (simp add: memory_load_def)
  qed (simp add: memory_load_def)
qed

text \<open>The lines of \<^verbatim>\<open>/proc/self/status\<close> in KiB by their names, and the faults \<^verbatim>\<open>getrusage\<close> counts.\<close>

definition status_value :: "string \<Rightarrow> (string \<times> u64) list \<Rightarrow> u64" where
  "status_value k st = foldl (\<lambda>v (n, x). if n = k then push_bit 10 x else v) 0 st"

definition K32GetProcessMemoryInfo :: "(string \<times> u64) list \<Rightarrow> u32 \<Rightarrow> nat \<Rightarrow> bytes \<Rightarrow> (bool \<times> bytes) option" where
  "K32GetProcessMemoryInfo st faults cb pmc = (
     if cb < 72 then Some (False, pmc)
     else let hwm = status_value ''VmHWM'' st; rss = status_value ''VmRSS'' st;
              priv = status_value ''RssAnon'' st + status_value ''VmSwap'' st;
              n = (if 80 \<le> cb then 80 else 72) in
          map_option (Pair True) (stores ([(0, replicate n 0), (0, le_bytes 4 (of_nat n :: u32)), (4, le_bytes 4 faults),
            (8, le_bytes 8 hwm), (16, le_bytes 8 rss), (56, le_bytes 8 priv), (64, le_bytes 8 (if priv < hwm then hwm else priv))] @
            (if 80 \<le> n then [(72, le_bytes 8 priv)] else [])) pmc))"

lemma process_memory_fits: "cb \<le> length pmc \<Longrightarrow> \<exists>r. K32GetProcessMemoryInfo st faults cb pmc = Some r"
proof (cases "cb < 72")
  case False
  assume "cb \<le> length pmc"
  then have "\<exists>b. stores ([(0, replicate (if 80 \<le> cb then 80 else 72) 0), (0, le_bytes 4 (of_nat (if 80 \<le> cb then 80 else 72) :: u32)), (4, le_bytes 4 faults),
            (8, le_bytes 8 h), (16, le_bytes 8 r), (56, le_bytes 8 p), (64, le_bytes 8 q)] @
            (if 80 \<le> (if 80 \<le> cb then 80 else 72 :: nat) then [(72, le_bytes 8 p)] else [])) pmc = Some b" for h r p q :: u64
    using False by (subst stores_ok[symmetric]) auto
  then show ?thesis using False unfolding K32GetProcessMemoryInfo_def Let_def by fastforce
qed (simp add: K32GetProcessMemoryInfo_def ex_bool_eq)

text \<open>\<^verbatim>\<open>VirtualQuery\<close> on the lines of \<^verbatim>\<open>/proc/self/maps\<close>: start, end and whether it may be read, written and executed.\<close>

type_synonym map_line = "nat \<times> nat \<times> bool \<times> bool \<times> bool"

definition map_protection :: "bool \<times> bool \<times> bool \<Rightarrow> u32" where
  "map_protection p = (case p of (r, w, x) \<Rightarrow>
     if r \<and> w \<and> x then 0x40 else if r \<and> w then 0x04 else if r \<and> x then 0x20 else if r then 0x02 else if x then 0x10 else 0x01)"

text \<open>Base, size, state and protection of the region; the last three fields are stored as far as the buffer reaches.\<close>

definition VirtualQuery :: "map_line list \<Rightarrow> nat \<Rightarrow> nat \<Rightarrow> nat \<times> (nat \<times> nat \<times> u32 \<times> u32) option" where
  "VirtualQuery maps target buflen = (
     if buflen < 28 then (0, None)
     else case find (\<lambda>(s, e, _). s \<le> target \<and> target < e) maps of
         Some (s, e, p) \<Rightarrow> (min buflen 48, Some (s, if 32 \<le> buflen then e - s else 0, if 36 \<le> buflen then 0x1000 else 0, if 40 \<le> buflen then map_protection p else 0))
       | None \<Rightarrow> (28, Some (target div 4096 * 4096, if 32 \<le> buflen then 0x1000 else 0, if 36 \<le> buflen then 0x10000 else 0, 0)))"

lemma virtual_query_contains: "48 \<le> buflen \<Longrightarrow> VirtualQuery maps a buflen = (r, Some (s, n, st, p)) \<Longrightarrow> s \<le> a \<and> a < s + n"
proof -
  assume "48 \<le> buflen" and q: "VirtualQuery maps a buflen = (r, Some (s, n, st, p))"
  show ?thesis
  proof (cases "find (\<lambda>(s, e, _). s \<le> a \<and> a < e) maps")
    case None
    then have "s = a div 4096 * 4096" "n = 4096" using q \<open>48 \<le> buflen\<close> by (auto simp: VirtualQuery_def)
    moreover have "a = a div 4096 * 4096 + a mod 4096" "a mod 4096 < 4096" by simp_all
    ultimately show ?thesis by linarith
  next
    case (Some l)
    then obtain e pr where "l = (s, e, pr)" "n = e - s" using q \<open>48 \<le> buflen\<close> by (cases l) (auto simp: VirtualQuery_def)
    moreover have "case l of (s, e, _) \<Rightarrow> s \<le> a \<and> a < e" using Some by (auto simp: find_Some_iff)
    ultimately show ?thesis by auto
  qed
qed

section \<open>Processors and disks\<close>

definition feature_bit :: "u32 \<Rightarrow> u32 \<Rightarrow> u32 \<Rightarrow> bool" where
  "feature_bit edx1 edx_ext feature =
     (if feature = 2 then bit edx1 8
      else if feature = 3 then bit edx1 23
      else if feature = 6 then bit edx1 25
      else if feature = 8 then bit edx1 4
      else if feature = 7 then bit edx_ext 31
      else False)"

text \<open>\<^verbatim>\<open>PF_FLOATING_POINT_EMULATED\<close>, 0, is false like the rest.  SSE2, feature 10, which every such processor has, is among the rest.\<close>

lemma sse2_not_reported: "\<not> feature_bit edx1 edx_ext 10"
  by (simp add: feature_bit_def)

definition active_mask :: "nat \<Rightarrow> u64" where
  "active_mask np = (if np < 64 then 2 ^ np - 1 else - 1)"

definition GetSystemInfo :: "u32 \<Rightarrow> nat \<Rightarrow> bytes \<Rightarrow> bytes option" where
  "GetSystemInfo page np info = stores
     [(0, replicate 48 0), (0, le_bytes 2 (9 :: u16)), (4, le_bytes 4 page), (8, le_bytes 8 (0x10000 :: u64)), (16, le_bytes 8 (0x7fffffffefff0000 :: u64)),
      (32, le_bytes 4 (of_nat np :: u32)), (24, le_bytes 8 (active_mask np)), (36, le_bytes 4 (8664 :: u32)), (40, le_bytes 4 (65536 :: u32))] info"

lemma active_mask_bits: "bit (active_mask np) k \<longleftrightarrow> k < 64 \<and> k < np"
proof (cases "np < 64")
  case True
  then have "active_mask np = mask np" by (simp add: active_mask_def mask_eq_exp_minus_1)
  then show ?thesis using True by (auto simp: bit_simps)
qed (auto simp: active_mask_def bit_simps)

definition affinity_mask :: "(nat \<Rightarrow> bool) \<Rightarrow> u64" where
  "affinity_mask cpus = foldl (\<lambda>m i. if cpus i then m OR push_bit i 1 else m) 0 [0..<64]"

lemma affinity_mask_bits: "bit (affinity_mask cpus) k \<longleftrightarrow> k < 64 \<and> cpus k"
proof -
  have "bit (foldl (\<lambda>m i. if cpus i then m OR push_bit i 1 else m) (m0 :: u64) [0..<n]) k \<longleftrightarrow> bit m0 k \<or> k < n \<and> cpus k" if "n \<le> 64" for m0 n
    using that by (induction n) (auto simp: bit_simps less_Suc_eq)
  from this[of 64 0] show ?thesis by (simp add: affinity_mask_def)
qed

definition SetThreadAffinityMask :: "(nat \<Rightarrow> bool) \<Rightarrow> u64" where
  "SetThreadAffinityMask cpus = (if affinity_mask cpus \<noteq> 0 then affinity_mask cpus else 1)"

text \<open>A block size as sectors of at most 4096 bytes, up to 64 of them.\<close>

function sector_loop :: "nat \<Rightarrow> nat \<Rightarrow> nat \<times> nat" where
  "sector_loop bps spc = (if 4096 < bps \<and> spc < 64 then sector_loop (bps div 2) (spc * 2) else (bps, spc))"
  by pat_completeness auto
termination
  by (relation "measure fst") auto

declare sector_loop.simps [simp del]

record disk_space =
  f_frsize :: nat
  f_bsize :: nat
  f_blocks :: nat
  f_bfree :: nat
  f_bavail :: nat

definition disk_block :: "disk_space \<Rightarrow> nat" where
  "disk_block v = (if f_frsize v \<noteq> 0 then f_frsize v else f_bsize v)"

text \<open>Sectors per cluster, bytes per sector, free and all clusters.\<close>

definition GetDiskFreeSpaceA :: "disk_space option \<Rightarrow> (nat \<times> nat \<times> u32 \<times> u32) option" where
  "GetDiskFreeSpaceA vfs = (case vfs of
     None \<Rightarrow> None
   | Some v \<Rightarrow> (case sector_loop (disk_block v mod 2 ^ 32) 1 of (bps, spc) \<Rightarrow> Some (spc, bps, of_nat (f_bavail v), of_nat (f_blocks v))))"

definition GetDiskFreeSpaceExW :: "disk_space option \<Rightarrow> bool \<times> u64 \<times> u64 \<times> u64" where
  "GetDiskFreeSpaceExW vfs = (case vfs of
     None \<Rightarrow> (False, 0, 0, 0)
   | Some v \<Rightarrow> (True, of_nat (disk_block v * f_bavail v), of_nat (disk_block v * f_blocks v), of_nat (disk_block v * f_bfree v)))"

lemma sector_loop_product: "64 dvd bps * spc \<Longrightarrow> spc \<in> {1, 2, 4, 8, 16, 32, 64} \<Longrightarrow> (case sector_loop bps spc of (b, s) \<Rightarrow> b * s = bps * spc)"
proof (induction bps spc rule: sector_loop.induct)
  case (1 bps spc)
  show ?case
  proof (cases "4096 < bps \<and> spc < 64")
    case True
    then have ev: "even bps" using 1(2,3) by (auto elim!: dvdE)
    then have e: "bps div 2 * (spc * 2) = bps * spc" by (metis dvd_div_mult_self mult.assoc mult.commute)
    then have "case sector_loop (bps div 2) (spc * 2) of (b, s) \<Rightarrow> b * s = bps div 2 * (spc * 2)"
      using 1(1)[OF True] 1(2,3) True by auto
    then show ?thesis using e True by (subst sector_loop.simps) simp
  qed (subst sector_loop.simps, auto)
qed

section \<open>The base of the image\<close>

text \<open>
  One loaded module: whether it is the program itself, and its \<^verbatim>\<open>PT_LOAD\<close> segments as address and size in the file.
  \<open>mz\<close> says where the bytes of memory are \<^verbatim>\<open>MZ\<close>.
\<close>

type_synonym loaded_module = "bool \<times> (u64 \<times> nat) list"

definition find_main_exe_base :: "(u64 \<Rightarrow> bool) \<Rightarrow> loaded_module \<Rightarrow> u64 \<times> u64 \<Rightarrow> u64 \<times> u64" where
  "find_main_exe_base mz md st = (
     let (is_main, segs) = md; (pe_base, base) = st;
         (lowest, pe) = foldl (\<lambda>(lowest, pe) (va, filesz).
            (if va < lowest then va else lowest, if pe = 0 \<and> 64 \<le> filesz \<and> mz va then va else pe)) (- 1, pe_base) segs in
     (pe, if is_main \<and> lowest \<noteq> - 1 then lowest else base))"

definition discover_image_base :: "(u64 \<Rightarrow> bool) \<Rightarrow> loaded_module list \<Rightarrow> u64 \<Rightarrow> u64 \<times> u64" where
  "discover_image_base mz mods image_base = (
     let (pe_base, base) = foldl (\<lambda>st md. find_main_exe_base mz md st) (0, 0) mods in
     (pe_base, if base \<noteq> 0 \<and> mz base then base else if pe_base \<noteq> 0 then pe_base else if base \<noteq> 0 then base else image_base))"

definition pe_segment :: "(u64 \<Rightarrow> bool) \<Rightarrow> u64 \<times> nat \<Rightarrow> bool" where
  "pe_segment mz s \<longleftrightarrow> 64 \<le> snd s \<and> mz (fst s)"

definition first_pe :: "(u64 \<Rightarrow> bool) \<Rightarrow> (u64 \<times> nat) list \<Rightarrow> u64" where
  "first_pe mz segs = (case find (pe_segment mz) segs of None \<Rightarrow> 0 | Some s \<Rightarrow> fst s)"

lemma pe_fold: "\<forall>s\<in>set segs. fst s \<noteq> 0 \<Longrightarrow>
    snd (foldl (\<lambda>(lowest, pe) (va, filesz). (if va < lowest then va else lowest, if pe = 0 \<and> 64 \<le> filesz \<and> mz va then va else pe)) (l, p) segs) =
      (if p \<noteq> 0 then p else first_pe mz segs)"
proof (induction segs arbitrary: l p)
  case (Cons s segs)
  obtain va f where s: "s = (va, f)" by (cases s)
  have va: "va \<noteq> 0" using Cons.prems s by simp
  show ?case
    using Cons.IH[of "if va < l then va else l" "if p = 0 \<and> 64 \<le> f \<and> mz va then va else p"] Cons.prems va
    by (simp add: s first_pe_def pe_segment_def)
qed (simp add: first_pe_def)

lemma find_append: "find P (xs @ ys) = (case find P xs of None \<Rightarrow> find P ys | Some x \<Rightarrow> Some x)"
  by (induction xs) auto

lemma first_pe_append: "\<forall>s\<in>set xs. fst s \<noteq> 0 \<Longrightarrow> first_pe mz (xs @ ys) = (if first_pe mz xs \<noteq> 0 then first_pe mz xs else first_pe mz ys)"
  by (cases "find (pe_segment mz) xs") (auto simp: first_pe_def find_append dest: find_SomeD)

lemma pe_modules: "\<forall>s\<in>set (concat (map snd mods)). fst s \<noteq> 0 \<Longrightarrow>
    fst (foldl (\<lambda>st md. find_main_exe_base mz md st) (p, b) mods) = (if p \<noteq> 0 then p else first_pe mz (concat (map snd mods)))"
proof (induction mods arbitrary: p b)
  case (Cons md mods)
  obtain m segs where md: "md = (m, segs)" by (cases md)
  have s: "\<forall>s\<in>set segs. fst s \<noteq> 0" using Cons.prems md by auto
  have "fst (find_main_exe_base mz md (p, b)) = (if p \<noteq> 0 then p else first_pe mz segs)"
    using pe_fold[OF s, of mz "- 1" p] by (simp add: md find_main_exe_base_def case_prod_beta)
  moreover obtain b1 where "find_main_exe_base mz md (p, b) = (fst (find_main_exe_base mz md (p, b)), b1)" by (metis prod.collapse)
  ultimately show ?case
    using Cons.IH[of "fst (find_main_exe_base mz md (p, b))" b1] Cons.prems first_pe_append[OF s, of mz "concat (map snd mods)"]
    by (auto simp: md)
qed (simp add: first_pe_def)

text \<open>
  When some loaded module has a segment of at least 64 bytes of file that begins with the PE signature, the base that
  the shim settles on for TLS callbacks and resources is an address where that signature is, for any order of the
  modules, the loader's own program included.
\<close>

theorem image_base_is_pe:
  assumes "\<forall>s\<in>set (concat (map snd mods)). fst s \<noteq> 0" and "\<exists>s\<in>set (concat (map snd mods)). pe_segment mz s"
  shows "mz (snd (discover_image_base mz mods image_base)) \<and> mz (fst (discover_image_base mz mods image_base))"
proof -
  obtain p' b' where f: "foldl (\<lambda>st md. find_main_exe_base mz md st) (0, 0) mods = (p', b')" by fastforce
  then have p': "p' = first_pe mz (concat (map snd mods))" using pe_modules[OF assms(1), of mz 0 0] by simp
  obtain s where s: "find (pe_segment mz) (concat (map snd mods)) = Some s"
    using assms(2) by (cases "find (pe_segment mz) (concat (map snd mods))") (auto simp: find_None_iff)
  then have "pe_segment mz s" "s \<in> set (concat (map snd mods))" by (blast dest: find_SomeD)+
  then have "mz p'" "p' \<noteq> 0" using p' s assms(1) by (auto simp: first_pe_def pe_segment_def)
  then show ?thesis using f by (simp add: discover_image_base_def)
qed

theorem image_base_is_pe_witness:
  "snd (discover_image_base (\<lambda>a. a = 0x7000) [(True, [(0x5000, 100)]), (False, [(0x7000, 4096)])] 0x400000) = 0x7000"
  using image_base_is_pe[of "[(True, [(0x5000, 100)]), (False, [(0x7000, 4096)])]" "\<lambda>a. a = 0x7000" "0x400000"] by (simp add: pe_segment_def)

section \<open>Console\<close>

text \<open>\<open>write_file\<close> is \<^verbatim>\<open>WriteFile\<close> on the handle: success and bytes written; the last component is \<^verbatim>\<open>*pWritten\<close>.\<close>

definition WriteConsoleW :: "(bytes \<Rightarrow> bool \<times> nat) \<Rightarrow> u16 list \<Rightarrow> nat \<Rightarrow> bool \<times> nat" where
  "WriteConsoleW write_file wbuf nChars = (
     let n = (if nChars < 65535 then nChars else 65535);
         utf8 = (case wchar_to_utf8 (Some (take n wbuf)) 262143 of Some b \<Rightarrow> b | None \<Rightarrow> []);
         (r, written) = write_file utf8 in
     (r, if 0 < written then nChars else 0))"

text \<open>A long text is cut, but its whole length is reported as written.\<close>

lemma write_console_cut:
  assumes "65535 \<le> nChars"
  shows "WriteConsoleW w wbuf nChars = WriteConsoleW w (take 65535 wbuf) nChars"
    and "snd (WriteConsoleW w wbuf nChars) \<in> {0, nChars}"
  using assms by (auto simp: WriteConsoleW_def Let_def split: prod.splits)

definition console_fd :: "int option \<Rightarrow> int" where
  "console_fd fd = (case fd of Some f \<Rightarrow> f | None \<Rightarrow> 0)"

text \<open>\<open>tty\<close>: canonical mode and echo of the terminal, if it is one.\<close>

definition GetConsoleMode :: "(int \<Rightarrow> (bool \<times> bool) option) \<Rightarrow> int option \<Rightarrow> u32" where
  "GetConsoleMode tty fd = (case tty (console_fd fd) of
     None \<Rightarrow> 1 OR 2
   | Some (canon, echo) \<Rightarrow> (if canon then 2 OR 1 else 0) OR (if echo then 4 else 0) OR 1 OR 2)"

text \<open>The bytes \<^verbatim>\<open>read\<close> gave become characters one by one.\<close>

definition ReadConsoleW :: "(nat \<Rightarrow> bytes option) \<Rightarrow> nat \<Rightarrow> bool \<times> u16 list" where
  "ReadConsoleW read_fd nchars =
     (if nchars = 0 then (False, [])
      else case read_fd (if nchars < 4096 then nchars else 4095) of
          None \<Rightarrow> (False, [])
        | Some bs \<Rightarrow> (True, map ucast (take nchars bs)))"

definition ReadConsoleInputA :: "u8 option \<Rightarrow> bytes \<Rightarrow> nat \<Rightarrow> (bool \<times> nat \<times> bytes) option" where
  "ReadConsoleInputA ch rec count =
     (if count = 0 then Some (False, 0, rec)
      else case ch of
          None \<Rightarrow> Some (False, 0, rec)
        | Some c \<Rightarrow> map_option (\<lambda>r. (True, 1, r)) (stores [(0, replicate 20 0), (0, le_bytes 2 (1 :: u16)), (4, le_bytes 4 (1 :: u32)), (8, le_bytes 2 (1 :: u16)), (14, le_bytes 2 (ucast c :: u16))] rec))"

definition GetConsoleScreenBufferInfo :: "bytes \<Rightarrow> bytes option" where
  "GetConsoleScreenBufferInfo b = stores [(0, replicate 22 0), (0, le_bytes 2 (80 :: u16)), (2, le_bytes 2 (25 :: u16)), (8, le_bytes 2 (7 :: u16)), (10, le_bytes 2 (0 :: u16)),
     (12, le_bytes 2 (0 :: u16)), (14, le_bytes 2 (79 :: u16)), (16, le_bytes 2 (24 :: u16)), (18, le_bytes 2 (80 :: u16)), (20, le_bytes 2 (25 :: u16))] b"

lemma screen_buffer_fits: "22 \<le> length b \<longleftrightarrow> (\<exists>b'. GetConsoleScreenBufferInfo b = Some b')"
  unfolding GetConsoleScreenBufferInfo_def by (subst stores_ok[symmetric]) auto

section \<open>Critical sections and lists\<close>

text \<open>A recursive mutex: owner and depth.  \<open>None\<close> when the caller has to wait, or leaves what it does not own.\<close>

type_synonym crit_sec = "(nat \<times> nat) option"

definition InitializeCriticalSection :: crit_sec where
  "InitializeCriticalSection = None"

definition EnterCriticalSection :: "nat \<Rightarrow> crit_sec \<Rightarrow> crit_sec option" where
  "EnterCriticalSection me cs = (case cs of None \<Rightarrow> Some (Some (me, 1)) | Some (t, d) \<Rightarrow> if t = me then Some (Some (me, d + 1)) else None)"

definition TryEnterCriticalSection :: "nat \<Rightarrow> crit_sec \<Rightarrow> bool \<times> crit_sec" where
  "TryEnterCriticalSection me cs = (case EnterCriticalSection me cs of Some cs' \<Rightarrow> (True, cs') | None \<Rightarrow> (False, cs))"

definition LeaveCriticalSection :: "nat \<Rightarrow> crit_sec \<Rightarrow> crit_sec option" where
  "LeaveCriticalSection me cs = (case cs of None \<Rightarrow> None
   | Some (t, d) \<Rightarrow> if t \<noteq> me then None else Some (if d \<le> 1 then None else Some (me, d - 1)))"

lemma leave_enter:
  assumes "EnterCriticalSection me cs = Some cs'" "\<forall>t d. cs = Some (t, d) \<longrightarrow> 0 < d"
  shows "LeaveCriticalSection me cs' = Some cs"
  using assms by (auto simp: EnterCriticalSection_def LeaveCriticalSection_def split: option.splits if_splits)

lemma enter_excludes: "EnterCriticalSection me cs = Some cs' \<Longrightarrow> other \<noteq> me \<Longrightarrow> EnterCriticalSection other cs' = None"
  by (auto simp: EnterCriticalSection_def split: option.splits if_splits)

text \<open>The header of a list of entries: depth and sequence, next entry.\<close>

definition InterlockedFlushSList :: "u64 \<times> u64 \<Rightarrow> u64 \<times> (u64 \<times> u64)" where
  "InterlockedFlushSList q = (snd q AND NOT 0xF, (fst q AND NOT 0xFFFF, 0))"

lemma flush_flushed: "fst (InterlockedFlushSList (snd (InterlockedFlushSList q))) = 0 \<and> snd (InterlockedFlushSList (snd (InterlockedFlushSList q))) = snd (InterlockedFlushSList q)"
  by (simp add: InterlockedFlushSList_def and.assoc)

section \<open>Clocks\<close>

definition GetTickCount :: "nat \<times> nat \<Rightarrow> u32" where
  "GetTickCount ts = (case ts of (sec, nsec) \<Rightarrow> of_nat (sec * 1000 + nsec div 1000000))"

definition QueryPerformanceCounter :: "nat \<times> nat \<Rightarrow> u64" where
  "QueryPerformanceCounter ts = (case ts of (sec, nsec) \<Rightarrow> of_nat (sec * 1000000000 + nsec))"

text \<open>When \<^verbatim>\<open>Sleep\<close> wakes up.\<close>

definition sleep_deadline :: "nat \<times> nat \<Rightarrow> u32 \<Rightarrow> nat \<times> nat" where
  "sleep_deadline now ms = (case now of (sec, nsec) \<Rightarrow>
     let s = sec + unat ms div 1000; n = nsec + unat ms mod 1000 * 1000000 in
     if 1000000000 \<le> n then (s + 1, n - 1000000000) else (s, n))"

lemma sleep_deadline_exact:
  assumes "nsec < 1000000000"
  shows "case sleep_deadline (sec, nsec) ms of (s, n) \<Rightarrow> n < 1000000000 \<and> s * 1000000000 + n = sec * 1000000000 + nsec + unat ms * 1000000"
proof -
  have "m * 1000000 = m div 1000 * 1000000000 + m mod 1000 * 1000000" for m :: nat
    using div_mult_mod_eq[of m 1000] by linarith
  then have e: "unat ms * 1000000 = unat ms div 1000 * 1000000000 + unat ms mod 1000 * 1000000" .
  have "unat ms mod 1000 < 1000" by simp
  then show ?thesis using e assms unfolding sleep_deadline_def Let_def by auto
qed

definition process_time :: "nat \<times> nat \<Rightarrow> u64" where
  "process_time tv = (case tv of (sec, usec) \<Rightarrow> of_nat (sec * 10000000 + usec * 10))"

section \<open>BSTR\<close>

text \<open>The block: the length in bytes, the characters, a terminator.\<close>

definition SysAllocString :: "u16 list option \<Rightarrow> bytes option" where
  "SysAllocString src = (case src of None \<Rightarrow> None
   | Some s \<Rightarrow> let w = takeWhile (\<lambda>c. c \<noteq> 0) s in
       Some (le_bytes 4 (of_nat (2 * length w) :: u32) @ concat (map (le_bytes 2) w) @ [0, 0]))"

lemma bstr_length:
  assumes "SysAllocString (Some s) = Some blk" "2 * length s < 2 ^ 32"
  shows "unat (le_word (take 4 blk) :: u32) = 2 * length (takeWhile (\<lambda>c. c \<noteq> 0) s) \<and> length blk = 6 + 2 * length (takeWhile (\<lambda>c. c \<noteq> 0) s)"
proof -
  let ?w = "takeWhile (\<lambda>c. c \<noteq> 0) s"
  have l: "length (concat (map (le_bytes 2) w)) = 2 * length w" for w :: "u16 list" by (induction w) auto
  have "2 * length ?w < 2 ^ 32" using assms(2) length_takeWhile_le[of "\<lambda>c. c \<noteq> 0" s] by linarith
  then have u: "unat (of_nat (2 * length ?w) :: u32) = 2 * length ?w" by (intro unat_of_nat_small) simp
  have "take 4 blk = le_bytes 4 (of_nat (2 * length ?w) :: u32)"
    using assms(1) by (auto simp: SysAllocString_def Let_def simp del: le_bytes.simps of_nat_mult)
  then have "le_word (take 4 blk) = (of_nat (2 * length ?w) :: u32)" by (simp add: le_word_le_bytes del: le_bytes.simps of_nat_mult)
  then show ?thesis using assms(1) u l by (auto simp: SysAllocString_def Let_def simp del: le_bytes.simps of_nat_mult)
qed

section \<open>Messages of the crash handler\<close>

text \<open>\<^verbatim>\<open>crash_write_int\<close>: the decimal number, its sign and a newline in a buffer of 12; \<open>None\<close> below its start.\<close>

function crash_digits :: "nat \<Rightarrow> bytes \<Rightarrow> nat \<Rightarrow> (bytes \<times> nat) option" where
  "crash_digits v acc i = (if i = 0 then None
     else let acc' = of_nat (48 + v mod 10) # acc in if v div 10 = 0 then Some (acc', i - 1) else crash_digits (v div 10) acc' (i - 1))"
  by pat_completeness auto
termination
  by (relation "measure (\<lambda>(v, acc, i). i)") auto

declare crash_digits.simps [simp del]

definition crash_write_int :: "int \<Rightarrow> bytes option" where
  "crash_write_int v = (case crash_digits (nat (abs v)) [10] 11 of
     None \<Rightarrow> None
   | Some (s, i) \<Rightarrow> if v < 0 then (if i = 0 then None else Some (45 # s)) else Some s)"

definition crash_write_hex :: "u64 \<Rightarrow> bytes" where
  "crash_write_hex v = map (\<lambda>k. let d = unat v div 16 ^ k mod 16 in if d < 10 then of_nat (48 + d) else of_nat (87 + d)) (rev [0..<16]) @ [32]"

lemma crash_digits_room: "v < 10 ^ n \<Longrightarrow> 0 < n \<Longrightarrow> n \<le> i \<Longrightarrow> \<exists>s j. crash_digits v acc i = Some (s, j) \<and> i - n \<le> j"
proof (induction n arbitrary: v acc i)
  case (Suc n)
  show ?case
  proof (cases "v div 10 = 0")
    case True
    then show ?thesis using Suc.prems by (subst crash_digits.simps) (auto simp: Let_def)
  next
    case False
    then have "0 < n" using Suc.prems(1) by (cases n) auto
    moreover have "v div 10 < 10 ^ n" using Suc.prems(1) by (simp add: less_mult_imp_div_less mult.commute)
    moreover have "n \<le> i - 1" using Suc.prems(3) by simp
    ultimately obtain s j where "crash_digits (v div 10) (of_nat (48 + v mod 10) # acc) (i - 1) = Some (s, j)" "i - 1 - n \<le> j"
      using Suc.IH[of "v div 10" "i - 1" "of_nat (48 + v mod 10) # acc"] by blast
    then show ?thesis using False Suc.prems(3) by (subst crash_digits.simps) (auto simp: Let_def)
  qed
qed simp

lemma crash_write_int_fits: "abs v < 2 ^ 31 \<Longrightarrow> \<exists>s. crash_write_int v = Some s"
proof -
  assume "abs v < 2 ^ 31"
  then have "nat (abs v) < 10 ^ 10" by simp
  then obtain s j where "crash_digits (nat (abs v)) [10] 11 = Some (s, j)" "11 - 10 \<le> j" using crash_digits_room[of "nat (abs v)" 10 11 "[10]"] by auto
  then show ?thesis by (auto simp: crash_write_int_def)
qed

end
