(* ===== verification/Shim_Start.thy ===== *)
theory Shim_Start
  imports Shim_Info Shim_Handles "HOL-Library.Multiset"
begin

text \<open>
  What the shim sets up before the program runs (shim.cpp): the thread and process environment blocks that inlined
  code reaches through \<^verbatim>\<open>gs\<close>, the wrapper of \<^verbatim>\<open>pthread_create\<close> that gives every thread its own, and the raw command
  line of the process.
\<close>

section \<open>Fields of a buffer\<close>

definition bytes_at :: "nat \<Rightarrow> nat \<Rightarrow> bytes \<Rightarrow> bytes" where
  "bytes_at k n buf = take n (drop k buf)"

definition clear_of :: "nat \<Rightarrow> nat \<Rightarrow> nat \<times> bytes \<Rightarrow> bool" where
  "clear_of k n w \<longleftrightarrow> fst w + length (snd w) \<le> k \<or> k + n \<le> fst w"

text \<open>The bytes a sequence of stores leaves in a bytes_at, when the last store into it fills it exactly.\<close>

fun written :: "nat \<Rightarrow> nat \<Rightarrow> (nat \<times> bytes) list \<Rightarrow> bytes option" where
  "written k n [] = None"
| "written k n (w # ws) = (if fst w = k \<and> length (snd w) = n \<and> list_all (clear_of k n) ws then Some (snd w) else written k n ws)"

lemma bytes_at_store:
  assumes "store k bs buf = Some buf'"
  shows "bytes_at k (length bs) buf' = bs" "clear_of j n (k, bs) \<Longrightarrow> bytes_at j n buf' = bytes_at j n buf"
proof -
  have b: "k + length bs \<le> length buf" "buf' = take k buf @ bs @ drop (k + length bs) buf"
    using assms by (auto simp: store_def split: if_splits)
  then show "bytes_at k (length bs) buf' = bs" by (simp add: bytes_at_def)
  assume "clear_of j n (k, bs)"
  then consider "k + length bs \<le> j" | "j + n \<le> k" by (auto simp: clear_of_def)
  then show "bytes_at j n buf' = bytes_at j n buf"
  proof cases
    case 1
    have "drop j buf' = drop j buf" using b 1 by simp
    then show ?thesis by (simp add: bytes_at_def)
  next
    case 2
    then have "take n (drop j (take k buf)) = take n (drop j buf)" by (simp add: drop_take)
    moreover have "take n (drop j (take k buf @ bs @ drop (k + length bs) buf)) = take n (drop j (take k buf))" using b(1) 2 by simp
    ultimately show ?thesis using b(2) by (simp add: bytes_at_def)
  qed
qed

lemma bytes_at_stores_other: "stores ws buf = Some buf' \<Longrightarrow> list_all (clear_of k n) ws \<Longrightarrow> bytes_at k n buf' = bytes_at k n buf"
proof (induction ws arbitrary: buf)
  case (Cons w ws)
  then show ?case by (cases w) (auto simp: bind_eq_Some_conv bytes_at_store(2))
qed simp

lemma bytes_at_stores: "stores ws buf = Some buf' \<Longrightarrow> written k n ws = Some bs \<Longrightarrow> bytes_at k n buf' = bs"
proof (induction ws arbitrary: buf)
  case (Cons w ws)
  obtain j xs where w: "w = (j, xs)" by (cases w)
  obtain b where b: "store j xs buf = Some b" "stores ws b = Some buf'" using Cons.prems(1) w by (auto simp: bind_eq_Some_conv)
  show ?case
  proof (cases "j = k \<and> length xs = n \<and> list_all (clear_of k n) ws")
    case True
    then show ?thesis using Cons.prems(2) w bytes_at_store(1)[OF b(1)] bytes_at_stores_other[OF b(2), of k n] by simp
  qed (use Cons.IH[OF b(2)] Cons.prems(2) w in auto)
qed simp

section \<open>The environment blocks\<close>

text \<open>Where the arrays lie.\<close>

record fake_at =
  at_teb :: u64
  at_peb :: u64
  at_ldr :: u64
  at_params :: u64
  at_empty :: u64
  at_heap :: u64

definition ldr_writes :: "fake_at \<Rightarrow> (nat \<times> bytes) list" where
  "ldr_writes at = [(0, replicate 0x60 0), (0, le_bytes 4 (0x60 :: u32)), (4, [1]),
     (0x10, le_bytes 8 (at_ldr at + 0x10)), (0x18, le_bytes 8 (at_ldr at + 0x10)),
     (0x20, le_bytes 8 (at_ldr at + 0x20)), (0x28, le_bytes 8 (at_ldr at + 0x20)),
     (0x30, le_bytes 8 (at_ldr at + 0x30)), (0x38, le_bytes 8 (at_ldr at + 0x30))]"

definition params_writes :: "fake_at \<Rightarrow> (nat \<times> bytes) list" where
  "params_writes at = [(0, replicate 0x200 0), (0, le_bytes 4 (0x200 :: u32)), (4, le_bytes 4 (0x200 :: u32)), (8, le_bytes 4 (1 :: u32)),
     (0x18, le_bytes 8 (- 1 :: u64)), (0x28, le_bytes 8 (idx_to_handle 0)), (0x30, le_bytes 8 (idx_to_handle 1)), (0x38, le_bytes 8 (idx_to_handle 2)),
     (0x68, le_bytes 2 (0 :: u16)), (0x6a, le_bytes 2 (2 :: u16)), (0x70, le_bytes 8 (at_empty at)),
     (0x78, le_bytes 2 (0 :: u16)), (0x7a, le_bytes 2 (2 :: u16)), (0x80, le_bytes 8 (at_empty at))]"

definition peb_writes :: "fake_at \<Rightarrow> (nat \<times> bytes) list" where
  "peb_writes at = [(0, replicate 0x1000 0), (0x10, le_bytes 8 (0x400000 :: u64)), (0x18, le_bytes 8 (at_ldr at)),
     (0x20, le_bytes 8 (at_params at)), (0x30, le_bytes 8 (at_heap at)), (2, [0])]"

record fake_blocks =
  fake_teb :: bytes
  fake_peb :: bytes
  fake_ldr_data :: bytes
  fake_proc_params :: bytes

text \<open>The arrays as the process finds them: static storage of the sizes declared.\<close>

definition blocks_sized :: "fake_blocks \<Rightarrow> bool" where
  "blocks_sized b \<longleftrightarrow> length (fake_teb b) = 0x2000 \<and> length (fake_peb b) = 0x1000 \<and> length (fake_ldr_data b) = 0x60 \<and>
     length (fake_proc_params b) = 0x200"

definition init_fake_peb :: "fake_at \<Rightarrow> fake_blocks \<Rightarrow> fake_blocks option" where
  "init_fake_peb at b = do {
     ldr \<leftarrow> stores (ldr_writes at) (fake_ldr_data b);
     params \<leftarrow> stores (params_writes at) (fake_proc_params b);
     peb \<leftarrow> stores (peb_writes at) (fake_peb b);
     Some (b\<lparr>fake_peb := peb, fake_ldr_data := ldr, fake_proc_params := params\<rparr>) }"

text \<open>The image base that \<^verbatim>\<open>discover_image_base\<close> settled on goes into the process environment block.\<close>

definition publish_image_base :: "u64 \<Rightarrow> fake_blocks \<Rightarrow> fake_blocks option" where
  "publish_image_base ib b = do { peb \<leftarrow> store 0x10 (le_bytes 8 ib) (fake_peb b); Some (b\<lparr>fake_peb := peb\<rparr>) }"

text \<open>What the host tells of the thread: its numbers, the block of TLS slots, the bounds of its stack.\<close>

record thread_host =
  th_pid :: u32
  th_tid :: u32
  th_slots :: u64
  th_stack :: "(u64 \<times> u64) option"

definition teb_writes :: "fake_at \<Rightarrow> thread_host \<Rightarrow> (nat \<times> bytes) list" where
  "teb_writes at h = [(0, replicate 0x2000 0), (0x30, le_bytes 8 (at_teb at)), (0x60, le_bytes 8 (at_peb at)),
     (0x40, le_bytes 4 (th_pid h)), (0x48, le_bytes 4 (th_tid h)), (0x58, le_bytes 8 (th_slots h))] @
     (case th_stack h of None \<Rightarrow> []
      | Some (a, n) \<Rightarrow> if a \<noteq> 0 \<and> n \<noteq> 0 then [(0x10, le_bytes 8 a), (0x08, le_bytes 8 (a + n))] else []) @
     [(0x68, le_bytes 4 (0 :: u32))]"

definition shim_init_teb :: "fake_at \<Rightarrow> thread_host \<Rightarrow> fake_blocks \<Rightarrow> fake_blocks option" where
  "shim_init_teb at h b =
    (if bytes_at 0x30 8 (fake_teb b) = le_bytes 8 (at_teb at) then Some b
     else do { teb \<leftarrow> stores (teb_writes at h) (fake_teb b); Some (b\<lparr>fake_teb := teb\<rparr>) })"

text \<open>The beginning of \<^verbatim>\<open>shim_init\<close>; \<^verbatim>\<open>handles_init\<close>, called in between, touches none of the arrays.\<close>

definition start_blocks :: "fake_at \<Rightarrow> thread_host \<Rightarrow> u64 \<Rightarrow> fake_blocks \<Rightarrow> fake_blocks option" where
  "start_blocks at h ib b = do {
     b1 \<leftarrow> init_fake_peb at b;
     b2 \<leftarrow> publish_image_base ib b1;
     shim_init_teb at h b2 }"

section \<open>What the program reaches through its segment register\<close>

text \<open>Reading the memory the four arrays make up.\<close>

fun peek_at :: "(u64 \<times> bytes) list \<Rightarrow> u64 \<Rightarrow> nat \<Rightarrow> bytes option" where
  "peek_at [] a n = None"
| "peek_at ((b, bs) # ms) a n =
    (if unat b \<le> unat a \<and> unat a + n \<le> unat b + length bs then Some (bytes_at (unat a - unat b) n bs) else peek_at ms a n)"

definition deref :: "(u64 \<times> bytes) list \<Rightarrow> u64 \<Rightarrow> u64 option" where
  "deref ms a = map_option le_word (peek_at ms a 8)"

definition blocks_memory :: "fake_at \<Rightarrow> fake_blocks \<Rightarrow> (u64 \<times> bytes) list" where
  "blocks_memory at b = [(at_teb at, fake_teb b), (at_peb at, fake_peb b), (at_ldr at, fake_ldr_data b), (at_params at, fake_proc_params b)]"

text \<open>The arrays do not overlap and end below the top of memory.\<close>

definition apart :: "(u64 \<times> bytes) list \<Rightarrow> bool" where
  "apart ms \<longleftrightarrow> (\<forall>(b, bs)\<in>set ms. unat b + length bs < 2 ^ 64) \<and>
     sorted_wrt (\<lambda>x y. unat (fst x) + length (snd x) \<le> unat (fst y) \<or> unat (fst y) + length (snd y) \<le> unat (fst x)) ms"

lemma peek_at_block:
  assumes "apart ms" "(b, bs) \<in> set ms" "k + n \<le> length bs" "0 < n"
  shows "peek_at ms (b + of_nat k) n = Some (bytes_at k n bs)"
proof -
  have "unat b + length bs < 2 ^ 64" using assms(1,2) by (auto simp: apart_def)
  then have a: "unat (b + of_nat k) = unat b + k"
    using assms(3,4) by (simp add: unat_word_ariths unat_of_nat)
  show ?thesis using assms
  proof (induction ms)
    case (Cons m ms)
    obtain c cs where m: "m = (c, cs)" by (cases m)
    have "apart ms" using Cons.prems(1) by (auto simp: apart_def)
    moreover have "\<not> (unat c \<le> unat b + k \<and> unat b + k + n \<le> unat c + length cs)" if "(b, bs) \<in> set ms"
      using Cons.prems(1,3,4) that m by (force simp: apart_def)
    ultimately show ?case using Cons m a by auto
  qed simp
qed

lemma deref_block:
  assumes "apart ms" "(b, bs) \<in> set ms" "k + 8 \<le> length bs" "bytes_at k 8 bs = le_bytes 8 (v :: u64)"
  shows "deref ms (b + of_nat k) = Some v"
  using peek_at_block[OF assms(1,2,3)] assms(4) by (simp add: deref_def le_word_le_bytes)

lemma length_stores: "stores ws buf = Some buf' \<Longrightarrow> length buf' = length buf"
proof (induction ws arbitrary: buf)
  case (Cons w ws)
  then show ?case by (cases w) (auto simp: bind_eq_Some_conv dest: length_store)
qed simp

lemma teb_written:
  "written 0x30 8 (teb_writes at h) = Some (le_bytes 8 (at_teb at))" "written 0x60 8 (teb_writes at h) = Some (le_bytes 8 (at_peb at))"
  by (auto simp: teb_writes_def clear_of_def simp del: le_bytes.simps split: option.splits)

lemma ldr_written:
  "k \<in> {0x10, 0x20, 0x30} \<Longrightarrow> written k 8 (ldr_writes at) = Some (le_bytes 8 (at_ldr at + of_nat k))"
  by (auto simp: ldr_writes_def clear_of_def simp del: le_bytes.simps)

lemma peb_written: "written 0x18 8 (peb_writes at) = Some (le_bytes 8 (at_ldr at))"
  by (simp add: peb_writes_def clear_of_def del: le_bytes.simps)

lemma writes_fit:
  "\<forall>(k, bs)\<in>set (ldr_writes at). k + length bs \<le> 0x60" "\<forall>(k, bs)\<in>set (params_writes at). k + length bs \<le> 0x200"
  "\<forall>(k, bs)\<in>set (peb_writes at). k + length bs \<le> 0x1000" "\<forall>(k, bs)\<in>set (teb_writes at h). k + length bs \<le> 0x2000"
  by (auto simp: ldr_writes_def params_writes_def peb_writes_def teb_writes_def simp del: le_bytes.simps split: option.splits)

lemma start_blocks_Some:
  assumes "blocks_sized b" and "bytes_at 0x30 8 (fake_teb b) \<noteq> le_bytes 8 (at_teb at)"
  obtains b' where "start_blocks at h ib b = Some b'" "blocks_sized b'"
    and "bytes_at 0x30 8 (fake_teb b') = le_bytes 8 (at_teb at)" "bytes_at 0x60 8 (fake_teb b') = le_bytes 8 (at_peb at)"
    and "bytes_at 0x10 8 (fake_peb b') = le_bytes 8 ib" "bytes_at 0x18 8 (fake_peb b') = le_bytes 8 (at_ldr at)"
    and "\<And>k. k \<in> {0x10, 0x20, 0x30} \<Longrightarrow> bytes_at k 8 (fake_ldr_data b') = le_bytes 8 (at_ldr at + of_nat k)"
proof -
  note len = assms(1) [unfolded blocks_sized_def]
  obtain ldr where ldr: "stores (ldr_writes at) (fake_ldr_data b) = Some ldr" using stores_ok[of "ldr_writes at" "fake_ldr_data b"] writes_fit(1) len by auto
  obtain params where params: "stores (params_writes at) (fake_proc_params b) = Some params"
    using stores_ok[of "params_writes at" "fake_proc_params b"] writes_fit(2) len by auto
  obtain peb where peb: "stores (peb_writes at) (fake_peb b) = Some peb" using stores_ok[of "peb_writes at" "fake_peb b"] writes_fit(3) len by auto
  have lp: "length peb = 0x1000" using length_stores[OF peb] len by simp
  then obtain peb' where peb': "store 0x10 (le_bytes 8 ib) peb = Some peb'" by (simp add: store_def)
  obtain teb where teb: "stores (teb_writes at h) (fake_teb b) = Some teb" using stores_ok[of "teb_writes at h" "fake_teb b"] writes_fit(4) len by auto
  define b' where "b' = b\<lparr>fake_peb := peb', fake_ldr_data := ldr, fake_proc_params := params, fake_teb := teb\<rparr>"
  show thesis
  proof (rule that[of b'])
    show "start_blocks at h ib b = Some b'"
      using assms(2) ldr params peb peb' teb by (simp add: start_blocks_def init_fake_peb_def publish_image_base_def shim_init_teb_def b'_def)
    show "blocks_sized b'"
      using len length_stores[OF ldr] length_stores[OF params] length_stores[OF teb] length_store[OF peb'] lp by (simp add: blocks_sized_def b'_def)
    show "bytes_at 0x30 8 (fake_teb b') = le_bytes 8 (at_teb at)" "bytes_at 0x60 8 (fake_teb b') = le_bytes 8 (at_peb at)"
      using bytes_at_stores[OF teb teb_written(1)] bytes_at_stores[OF teb teb_written(2)] by (simp_all add: b'_def)
    show "bytes_at 0x10 8 (fake_peb b') = le_bytes 8 ib" using bytes_at_store(1)[OF peb'] by (simp add: b'_def)
    show "bytes_at 0x18 8 (fake_peb b') = le_bytes 8 (at_ldr at)"
      using bytes_at_store(2)[OF peb', where j = "0x18" and n = 8] bytes_at_stores[OF peb peb_written] by (simp add: b'_def clear_of_def)
    show "bytes_at k 8 (fake_ldr_data b') = le_bytes 8 (at_ldr at + of_nat k)" if "k \<in> {0x10, 0x20, 0x30}" for k
      using bytes_at_stores[OF ldr ldr_written[OF that]] by (simp add: b'_def)
  qed
qed

lemma apart_lengths:
  assumes "blocks_sized b" "blocks_sized b'" "apart (blocks_memory at b)"
  shows "apart (blocks_memory at b')"
  using assms by (simp add: apart_def blocks_memory_def blocks_sized_def)

text \<open>
  After the start the blocks fit their arrays, and what inlined code finds by following pointers from \<^verbatim>\<open>gs\<close> is
  consistent: the thread block knows its own address and the process block, the process block the base of the image and
  the loader's data, whose three lists of modules lead from their heads back to their heads, so that a walk ends.
\<close>

theorem program_view:
  assumes "blocks_sized b" "apart (blocks_memory at b)" "bytes_at 0x30 8 (fake_teb b) \<noteq> le_bytes 8 (at_teb at)"
  shows "\<exists>b'. start_blocks at h ib b = Some b' \<and> (let m = deref (blocks_memory at b') in
    m (at_teb at + 0x30) = Some (at_teb at) \<and> m (at_teb at + 0x60) = Some (at_peb at) \<and>
    m (at_peb at + 0x10) = Some ib \<and> m (at_peb at + 0x18) = Some (at_ldr at) \<and>
    m (at_ldr at + 0x10) = Some (at_ldr at + 0x10) \<and> m (at_ldr at + 0x20) = Some (at_ldr at + 0x20) \<and>
    m (at_ldr at + 0x30) = Some (at_ldr at + 0x30))"
proof -
  obtain b' where b': "start_blocks at h ib b = Some b'" "blocks_sized b'"
    and f: "bytes_at 0x30 8 (fake_teb b') = le_bytes 8 (at_teb at)" "bytes_at 0x60 8 (fake_teb b') = le_bytes 8 (at_peb at)"
      "bytes_at 0x10 8 (fake_peb b') = le_bytes 8 ib" "bytes_at 0x18 8 (fake_peb b') = le_bytes 8 (at_ldr at)"
    and l: "\<And>k. k \<in> {0x10, 0x20, 0x30} \<Longrightarrow> bytes_at k 8 (fake_ldr_data b') = le_bytes 8 (at_ldr at + of_nat k)"
    using start_blocks_Some[OF assms(1,3), where h = h and ib = ib] by blast
  note d = deref_block[OF apart_lengths[OF assms(1) b'(2) assms(2)]]
  have m: "(at_teb at, fake_teb b') \<in> set (blocks_memory at b')" "(at_peb at, fake_peb b') \<in> set (blocks_memory at b')"
    "(at_ldr at, fake_ldr_data b') \<in> set (blocks_memory at b')" by (simp_all add: blocks_memory_def)
  note n = b'(2) [unfolded blocks_sized_def]
  have "deref (blocks_memory at b') (at_ldr at + of_nat k) = Some (at_ldr at + of_nat k)" if "k \<in> {0x10, 0x20, 0x30}" for k
    using d[OF m(3) _ l[OF that]] that n by auto
  from this[of "0x10"] this[of "0x20"] this[of "0x30"] show ?thesis
    using b'(1) d[OF m(1) _ f(1)] d[OF m(1) _ f(2)] d[OF m(2) _ f(3)] d[OF m(2) _ f(4)] n by (simp add: Let_def)
qed

definition sample_at :: fake_at where
  "sample_at = \<lparr>at_teb = 0x10000, at_peb = 0x20000, at_ldr = 0x30000, at_params = 0x40000, at_empty = 0x50000, at_heap = 0x60000\<rparr>"

definition zero_blocks :: fake_blocks where
  "zero_blocks = \<lparr>fake_teb = replicate 0x2000 0, fake_peb = replicate 0x1000 0, fake_ldr_data = replicate 0x60 0, fake_proc_params = replicate 0x200 0\<rparr>"

definition sample_thread :: thread_host where
  "sample_thread = \<lparr>th_pid = 7, th_tid = 7, th_slots = 0x70000, th_stack = Some (0x100000, 0x800000)\<rparr>"

theorem program_view_witness:
  "\<exists>b'. start_blocks sample_at sample_thread 0x140000000 zero_blocks = Some b' \<and>
    deref (blocks_memory sample_at b') 0x10060 = Some 0x20000 \<and> deref (blocks_memory sample_at b') 0x20010 = Some 0x140000000"
proof -
  have z: "blocks_sized zero_blocks" by (simp add: blocks_sized_def zero_blocks_def)
  have a: "apart (blocks_memory sample_at zero_blocks)" by (simp add: apart_def blocks_memory_def zero_blocks_def sample_at_def)
  have "(le_word (replicate 8 (0 :: u8)) :: u64) = 0" by (simp add: le_word_def numeral_eq_Suc)
  then have "replicate 8 0 \<noteq> le_bytes 8 (0x10000 :: u64)" using le_word_le_bytes[of 8 "0x10000 :: u64"] by auto
  then have "bytes_at 0x30 8 (fake_teb zero_blocks) \<noteq> le_bytes 8 (at_teb sample_at)"
    by (simp add: bytes_at_def zero_blocks_def sample_at_def del: le_bytes.simps)
  from program_view[OF z a this, of sample_thread "0x140000000"] show ?thesis
    by (auto simp: Let_def sample_at_def)
qed

section \<open>Starting threads\<close>

text \<open>
  The wrapper of \<^verbatim>\<open>pthread_create\<close> passes function and argument to the new thread in a block of memory.  A call is
  between allocating the block and the host's \<^verbatim>\<open>pthread_create\<close>, about to free the block of a refused call, or has
  answered; a thread is at the entry of the trampoline, has read and freed the block, or runs its function, after
  \<^verbatim>\<open>shim_thread_attach\<close>.  The host interleaves their steps as it likes.
\<close>

type_synonym job = "nat \<times> u64"

datatype activity = Calling nat job | Refused nat int | Answered int | Entry nat | Unpacked job | Running job

text \<open>\<open>accepted\<close> lists what the host agreed to start, for the statements below.\<close>

record starts =
  start_args :: "nat \<Rightarrow> job option"
  acts :: "activity list"
  accepted :: "job list"

abbreviation ENOMEM_ERR :: int where "ENOMEM_ERR \<equiv> 12"
abbreviation ENOSYS_ERR :: int where "ENOSYS_ERR \<equiv> 38"

text \<open>A call: whether \<^verbatim>\<open>dlsym\<close> found the host's function, and what \<^verbatim>\<open>malloc\<close> answered.\<close>

definition pthread_create :: "bool \<Rightarrow> nat \<Rightarrow> job \<Rightarrow> starts \<Rightarrow> starts" where
  "pthread_create found a j s =
    (if \<not> found then s\<lparr>acts := acts s @ [Answered ENOSYS_ERR]\<rparr>
     else if a = 0 then s\<lparr>acts := acts s @ [Answered ENOMEM_ERR]\<rparr>
     else s\<lparr>start_args := (start_args s)(a := Some j), acts := acts s @ [Calling a j]\<rparr>)"

text \<open>One step of activity \<open>i\<close>; \<open>r\<close> is the answer of the host's function.  \<open>None\<close> is a use of a freed block.\<close>

definition start_step :: "nat \<Rightarrow> int \<Rightarrow> starts \<Rightarrow> starts option" where
  "start_step i r s = (case acts s ! i of
       Calling a j \<Rightarrow>
         if r = 0 then Some (s\<lparr>acts := (acts s)[i := Answered 0] @ [Entry a], accepted := accepted s @ [j]\<rparr>)
         else Some (s\<lparr>acts := (acts s)[i := Refused a r]\<rparr>)
     | Refused a e \<Rightarrow> (case start_args s a of
         None \<Rightarrow> None
       | Some _ \<Rightarrow> Some (s\<lparr>start_args := (start_args s)(a := None), acts := (acts s)[i := Answered e]\<rparr>))
     | Entry a \<Rightarrow> (case start_args s a of
         None \<Rightarrow> None
       | Some j \<Rightarrow> Some (s\<lparr>start_args := (start_args s)(a := None), acts := (acts s)[i := Unpacked j]\<rparr>))
     | Unpacked j \<Rightarrow> Some (s\<lparr>acts := (acts s)[i := Running j]\<rparr>)
     | Answered e \<Rightarrow> Some s
     | Running j \<Rightarrow> Some s)"

inductive starts_reach :: "starts \<Rightarrow> bool" where
  init: "starts_reach \<lparr>start_args = Map.empty, acts = [], accepted = []\<rparr>"
| call: "starts_reach s \<Longrightarrow> start_args s a = None \<Longrightarrow> starts_reach (pthread_create found a j s)"
| step: "starts_reach s \<Longrightarrow> i < length (acts s) \<Longrightarrow> start_step i r s = Some s' \<Longrightarrow> starts_reach s'"

text \<open>The block an activity owns, and the job it will run or runs.\<close>

fun owned :: "activity \<Rightarrow> nat list" where
  "owned (Calling a j) = [a]"
| "owned (Refused a e) = [a]"
| "owned (Entry a) = [a]"
| "owned x = []"

fun job_of :: "(nat \<Rightarrow> job option) \<Rightarrow> activity \<Rightarrow> job list" where
  "job_of m (Entry a) = (case m a of None \<Rightarrow> [] | Some j \<Rightarrow> [j])"
| "job_of m (Unpacked j) = [j]"
| "job_of m (Running j) = [j]"
| "job_of m x = []"

definition starts_inv :: "starts \<Rightarrow> bool" where
  "starts_inv s \<longleftrightarrow> distinct (concat (map owned (acts s))) \<and> set (concat (map owned (acts s))) = dom (start_args s) \<and>
     (\<forall>a j. Calling a j \<in> set (acts s) \<longrightarrow> start_args s a = Some j) \<and>
     mset (accepted s) = mset (concat (map (job_of (start_args s)) (acts s)))"

text \<open>An activity in the middle of the list, replaced by another.\<close>

lemma split_acts:
  assumes "i < length xs"
  obtains ys x zs where "xs = ys @ x # zs" "xs ! i = x" "\<And>y. xs[i := y] = ys @ y # zs"
  using that[of "take i xs" "xs ! i" "drop (Suc i) xs"] assms by (simp add: id_take_nth_drop[symmetric] upd_conv_take_nth_drop)

lemma job_of_upd: "a \<notin> set (owned x) \<Longrightarrow> job_of (m(a := v)) x = job_of m x"
  by (cases x) auto

lemma jobs_upd: "a \<notin> set (concat (map owned xs)) \<Longrightarrow> map (job_of (m(a := v))) xs = map (job_of m) xs"
  by (induction xs) (auto simp: job_of_upd)

lemma call_inv:
  assumes "starts_inv s" "start_args s a = None"
  shows "starts_inv (pthread_create found a j s)"
proof -
  have a: "a \<notin> set (concat (map owned (acts s)))" using assms by (auto simp: starts_inv_def)
  have c: "Calling a k \<notin> set (acts s)" for k using a by force
  show ?thesis
  proof (cases "found \<and> a \<noteq> 0")
    case True
    have "map (job_of ((start_args s)(a \<mapsto> j))) (acts s) = map (job_of (start_args s)) (acts s)" by (rule jobs_upd[OF a])
    then show ?thesis using True assms a c by (auto simp: starts_inv_def pthread_create_def simp del: map_eq_conv)
  qed (use assms in \<open>auto simp: starts_inv_def pthread_create_def\<close>)
qed

lemma owned_Some: "starts_inv s \<Longrightarrow> x \<in> set (acts s) \<Longrightarrow> a \<in> set (owned x) \<Longrightarrow> \<exists>j. start_args s a = Some j"
  by (rule domD) (auto simp: starts_inv_def)

lemma release_inv:
  assumes inv: "starts_inv s" and s: "acts s = ys @ x # zs" "owned x = [a]" and y: "owned y = []"
    and j: "job_of (start_args s) x = job_of m y"
  shows "start_args s a \<noteq> None \<and> (m = (start_args s)(a := None) \<longrightarrow> starts_inv (s\<lparr>start_args := m, acts := ys @ y # zs\<rparr>))"
proof -
  note inv' = inv[unfolded starts_inv_def s(1)]
  have n: "a \<notin> set (concat (map owned ys))" "a \<notin> set (concat (map owned zs))" using inv' s(2) by auto
  have c: "Calling a k \<notin> set ys" "Calling a k \<notin> set zs" for k using n by force+
  have "start_args s a \<noteq> None" using owned_Some[OF inv, of x a] s by auto
  moreover have "starts_inv (s\<lparr>start_args := m, acts := ys @ y # zs\<rparr>)" if m: "m = (start_args s)(a := None)"
    unfolding starts_inv_def
  proof (intro conjI allI impI)
    show "distinct (concat (map owned (acts (s\<lparr>start_args := m, acts := ys @ y # zs\<rparr>))))" using inv' y by auto
    show "set (concat (map owned (acts (s\<lparr>start_args := m, acts := ys @ y # zs\<rparr>)))) = dom (start_args (s\<lparr>start_args := m, acts := ys @ y # zs\<rparr>))"
      using inv' y s(2) n m by auto
    show "start_args (s\<lparr>start_args := m, acts := ys @ y # zs\<rparr>) b = Some k"
      if "Calling b k \<in> set (acts (s\<lparr>start_args := m, acts := ys @ y # zs\<rparr>))" for b k
    proof -
      have "Calling b k \<in> set ys \<union> set zs" using that y by auto
      moreover have "b \<noteq> a" using calculation c(1)[of k] c(2)[of k] by blast
      moreover have "Calling b k \<in> set (ys @ x # zs)" using calculation(1) by auto
      then have "start_args s b = Some k" using inv' by blast
      ultimately show ?thesis using m by simp
    qed
    show "mset (accepted (s\<lparr>start_args := m, acts := ys @ y # zs\<rparr>)) =
      mset (concat (map (job_of (start_args (s\<lparr>start_args := m, acts := ys @ y # zs\<rparr>))) (acts (s\<lparr>start_args := m, acts := ys @ y # zs\<rparr>))))"
      using inv' jobs_upd[OF n(1)] jobs_upd[OF n(2)] m j by (simp del: map_eq_conv)
  qed
  ultimately show ?thesis by blast
qed

lemma step_inv:
  assumes inv: "starts_inv s" and i: "i < length (acts s)"
  shows "\<exists>s'. start_step i r s = Some s' \<and> starts_inv s'"
proof -
  obtain ys x zs where x: "acts s = ys @ x # zs" "acts s ! i = x" "\<And>y. (acts s)[i := y] = ys @ y # zs" by (rule split_acts[OF i]) blast
  note inv' = inv[unfolded starts_inv_def x(1)]
  note d = start_step_def x(2,3)
  show ?thesis
  proof (cases x)
    case (Calling a j)
    then have s0: "start_args s a = Some j" using inv x(1) unfolding starts_inv_def by (metis in_set_conv_decomp)
    show ?thesis
    proof (cases "r = 0")
      case True
      then show ?thesis using inv' Calling by (auto simp: d starts_inv_def s0)
    next
      case False
      then show ?thesis using inv' Calling by (auto simp: d starts_inv_def)
    qed
  next
    case (Refused a e)
    then show ?thesis using release_inv[OF inv x(1), of a "Answered e" "(start_args s)(a := None)"] by (auto simp: d)
  next
    case (Entry a)
    then obtain j where j: "start_args s a = Some j" using owned_Some[OF inv, of x a] x(1) by auto
    then show ?thesis using Entry release_inv[OF inv x(1), of a "Unpacked j" "(start_args s)(a := None)"] by (auto simp: d)
  next
    case (Unpacked j)
    then show ?thesis using inv' by (auto simp: d starts_inv_def)
  qed (use inv in \<open>auto simp: d\<close>)
qed

lemma starts_reach_inv: "starts_reach s \<Longrightarrow> starts_inv s"
proof (induction rule: starts_reach.induct)
  case init
  show ?case by (simp add: starts_inv_def)
next
  case (call s a found j)
  then show ?case by (simp add: call_inv)
next
  case (step s i r s')
  then show ?case using step_inv[OF step.IH step.hyps(2), of r] by auto
qed

text \<open>
  In every interleaving no step reads or frees a block that is gone, and the jobs the threads run or are about to run
  are exactly those the host accepted, each once.  When every call has answered and every thread runs its function, no
  block is left allocated.
\<close>

theorem threads_start_once:
  assumes "starts_reach s"
  shows "(\<forall>i r. i < length (acts s) \<longrightarrow> start_step i r s \<noteq> None) \<and>
    mset (accepted s) = mset (concat (map (job_of (start_args s)) (acts s))) \<and>
    (list_all (\<lambda>x. owned x = []) (acts s) \<longrightarrow> start_args s = Map.empty)"
proof -
  have inv: "starts_inv s" by (rule starts_reach_inv[OF assms])
  have "start_args s = Map.empty" if "list_all (\<lambda>x. owned x = []) (acts s)"
  proof -
    have "set (concat (map owned (acts s))) = {}" using that by (auto simp: list_all_iff)
    moreover have "set (concat (map owned (acts s))) = dom (start_args s)" using inv by (simp only: starts_inv_def)
    ultimately have "dom (start_args s) = {}" by (simp only:)
    then show ?thesis by simp
  qed
  moreover have "start_step i r s \<noteq> None" if "i < length (acts s)" for i r using step_inv[OF inv that, of r] by auto
  ultimately show ?thesis using inv by (simp add: starts_inv_def)
qed

section \<open>The raw command line\<close>

text \<open>
  The loop of \<^verbatim>\<open>read_cmdline_raw\<close>: \<open>chunk\<close> is what the \<open>k\<close>-th \<^verbatim>\<open>read\<close> is ready to give, \<open>grow\<close> whether \<^verbatim>\<open>realloc\<close> has
  room for so many bytes, and \<open>rest\<close> what of the file is not read yet.
\<close>

definition read_size :: "(nat \<Rightarrow> nat \<Rightarrow> int) \<Rightarrow> nat \<Rightarrow> nat \<Rightarrow> bytes \<Rightarrow> bytes \<Rightarrow> nat" where
  "read_size chunk k cap buf rest = min (nat (chunk k (cap - length buf))) (min (cap - length buf) (length rest))"

lemma read_size_le: "read_size chunk k cap buf rest \<le> length rest" "read_size chunk k cap buf rest \<le> cap - length buf"
  by (simp_all add: read_size_def)

lemma read_size_Nil [simp]: "read_size chunk k cap buf [] = 0"
  by (simp add: read_size_def)

function read_raw :: "(nat \<Rightarrow> nat \<Rightarrow> int) \<Rightarrow> (nat \<Rightarrow> bool) \<Rightarrow> nat \<Rightarrow> nat \<Rightarrow> bytes \<Rightarrow> bytes \<Rightarrow> bytes option" where
  "read_raw chunk grow k cap buf rest = (
     let n = read_size chunk k cap buf rest; buf' = buf @ take n rest in
     if n = 0 then Some buf
     else if length buf' = cap then (if grow (cap * 2 + 1) then read_raw chunk grow (Suc k) (cap * 2) buf' (drop n rest) else None)
     else read_raw chunk grow (Suc k) cap buf' (drop n rest))"
  by pat_completeness auto
termination
  by (relation "measure (\<lambda>(chunk, grow, k, cap, buf, rest). length rest)") (auto intro!: diff_less)

declare read_raw.simps [simp del]

definition read_cmdline_raw :: "(nat \<Rightarrow> nat \<Rightarrow> int) \<Rightarrow> (nat \<Rightarrow> bool) \<Rightarrow> bytes option \<Rightarrow> bytes option" where
  "read_cmdline_raw chunk grow file = (case file of None \<Rightarrow> None
     | Some bs \<Rightarrow> if grow 65537 then read_raw chunk grow 0 65536 [] bs else None)"

definition shim_cmdline_override :: "bytes option \<Rightarrow> bytes option" where
  "shim_cmdline_override env = (case env of None \<Rightarrow> None | Some s \<Rightarrow> if s = [] then None else Some s)"

lemma read_raw_all:
  assumes "\<And>k room. 0 < room \<Longrightarrow> 0 < chunk k room" "\<And>n. grow n"
  shows "length buf < cap \<Longrightarrow> read_raw chunk grow k cap buf rest = Some (buf @ rest)"
proof (induction "length rest" arbitrary: k cap buf rest rule: less_induct)
  case less
  define n where "n = read_size chunk k cap buf rest"
  have step: "n \<noteq> 0 \<Longrightarrow> read_raw chunk grow k cap buf rest =
      read_raw chunk grow (Suc k) (if length (buf @ take n rest) = cap then cap * 2 else cap) (buf @ take n rest) (drop n rest)"
    by (subst read_raw.simps) (auto simp: n_def[symmetric] Let_def assms(2))
  show ?case
  proof (cases "rest = []")
    case False
    then have n: "n \<noteq> 0" "n \<le> length rest" "n \<le> cap - length buf"
      using assms(1)[of "cap - length buf" k] less.prems by (auto simp: n_def read_size_def)
    have "length (drop n rest) < length rest" using n False by simp
    from less.hyps[OF this, of "buf @ take n rest" "if length (buf @ take n rest) = cap then cap * 2 else cap" "Suc k"]
    show ?thesis using step n less.prems by (auto split: if_splits)
  qed (simp add: read_raw.simps)
qed

text \<open>The whole command line is read, in whatever pieces it comes, as long as no read fails and memory lasts.\<close>

lemma read_cmdline_complete:
  assumes "\<And>k room. 0 < room \<Longrightarrow> 0 < chunk k room" "\<And>n. grow n"
  shows "read_cmdline_raw chunk grow (Some bs) = Some bs"
  using read_raw_all[of chunk grow "[]" 65536 0 bs] assms by (simp add: read_cmdline_raw_def)

text \<open>A read that a signal interrupts ends the loop like the end of the file.\<close>

lemma read_cmdline_interrupted: "read_cmdline_raw (\<lambda>k n. if k = 0 then 1 else - 1) (\<lambda>_. True) (Some [97, 98]) = Some [97]"
  by (simp add: read_cmdline_raw_def read_raw.simps read_size_def)

end
