(* ===== verification/Shim_Resource.thy ===== *)
theory Shim_Resource
  imports Prelude "HOL-Library.Monad_Syntax"
begin

text \<open>
  String resources (shim_user32.hpp): the walk through the resource directory of a loaded image that
  \<^verbatim>\<open>LoadStringA\<close> and \<^verbatim>\<open>LoadStringW\<close> make.  Memory answers \<open>None\<close> where nothing is mapped, and a function answers
  \<open>None\<close> when it reads there; addresses are natural numbers, offsets of 32 bits are words where the code
  computes with them.
\<close>

section \<open>Memory\<close>

type_synonym image_memory = "nat \<Rightarrow> u8 option"

fun read_bytes :: "image_memory \<Rightarrow> nat \<Rightarrow> nat \<Rightarrow> bytes option" where
  "read_bytes m a 0 = Some []"
| "read_bytes m a (Suc n) = do { b \<leftarrow> m a; bs \<leftarrow> read_bytes m (a + 1) n; Some (b # bs) }"

definition rd16 :: "image_memory \<Rightarrow> nat \<Rightarrow> u16 option" where
  "rd16 m a = map_option le_word (read_bytes m a 2)"

definition rd32 :: "image_memory \<Rightarrow> nat \<Rightarrow> u32 option" where
  "rd32 m a = map_option le_word (read_bytes m a 4)"

section \<open>The code\<close>

definition sizeof_ResDir :: nat where "sizeof_ResDir = 16"
definition sizeof_ResDirEnt :: nat where "sizeof_ResDirEnt = 8"
definition sizeof_ResData :: nat where "sizeof_ResData = 16"

text \<open>The entries from address \<open>a\<close> on, \<open>k\<close> of them.  The inner option is the pointer returned, as an offset.\<close>

fun res_scan :: "image_memory \<Rightarrow> u32 \<Rightarrow> u16 \<Rightarrow> nat \<Rightarrow> nat \<Rightarrow> nat option option" where
  "res_scan m rsrc_size ident a 0 = Some None"
| "res_scan m rsrc_size ident a (Suc k) = do {
     nm \<leftarrow> rd32 m a;
     if \<not> bit nm 31 \<and> ucast nm = ident then do {
       off \<leftarrow> rd32 m (a + 4);
       let off' = off AND 0x7FFFFFFF;
       Some (if rsrc_size \<le> off' then None else Some (unat off')) }
     else res_scan m rsrc_size ident (a + 8) k }"

definition res_find_id :: "image_memory \<Rightarrow> nat \<Rightarrow> u32 \<Rightarrow> u32 \<Rightarrow> u16 \<Rightarrow> nat option option" where
  "res_find_id m rsrc rsrc_size dir_off ident =
     (if unat rsrc_size < unat dir_off + sizeof_ResDir then Some None
      else do {
        named \<leftarrow> rd16 m (rsrc + unat dir_off + 12);
        ids \<leftarrow> rd16 m (rsrc + unat dir_off + 14);
        let n = (ucast named + ucast ids :: u32);
        let ent_off = dir_off + of_nat sizeof_ResDir;
        if rsrc_size < ent_off + n * of_nat sizeof_ResDirEnt then Some None
        else res_scan m rsrc_size ident (rsrc + unat ent_off) (unat n) })"

text \<open>Skipping the strings of a block of sixteen.\<close>

fun skip_strings :: "image_memory \<Rightarrow> nat \<Rightarrow> nat \<Rightarrow> nat \<Rightarrow> nat option option" where
  "skip_strings m blk_end blk 0 = Some (Some blk)"
| "skip_strings m blk_end blk (Suc k) =
     (if blk_end < blk + 2 then Some None
      else do { slen \<leftarrow> rd16 m blk; skip_strings m blk_end (blk + 2 + unat slen * 2) k })"

fun read_units :: "image_memory \<Rightarrow> nat \<Rightarrow> nat \<Rightarrow> u16 list option" where
  "read_units m a 0 = Some []"
| "read_units m a (Suc n) = do { u \<leftarrow> rd16 m a; us \<leftarrow> read_units m (a + 2) n; Some (u # us) }"

datatype str_dest = No_Dest | Wide_Dest | Ansi_Dest

text \<open>What is stored before the terminator.\<close>

datatype str_text = No_Text | Wide_Text "u16 list" | Ansi_Text bytes

definition ansi_char :: "u16 \<Rightarrow> u8" where
  "ansi_char u = (if u < 256 then ucast u else 63)"

definition copy_string :: "image_memory \<Rightarrow> str_dest \<Rightarrow> nat \<Rightarrow> u16 \<Rightarrow> int \<Rightarrow> (int \<times> str_text) option" where
  "copy_string m dest blk slen bufmax =
     (if bufmax \<le> 0 then Some (uint slen, No_Text)
      else let out = (if slen < of_int (bufmax - 1) then uint slen else bufmax - 1) in
           case dest of
             No_Dest \<Rightarrow> Some (out, No_Text)
           | Wide_Dest \<Rightarrow> do { us \<leftarrow> read_units m blk (nat out); Some (out, Wide_Text us) }
           | Ansi_Dest \<Rightarrow> do { us \<leftarrow> read_units m blk (nat out); Some (out, Ansi_Text (map ansi_char us)) })"

text \<open>The string of index \<open>idx\<close> in the block from \<open>blk\<close> to \<open>blk_end\<close>.\<close>

definition block_string :: "image_memory \<Rightarrow> str_dest \<Rightarrow> nat \<Rightarrow> nat \<Rightarrow> nat \<Rightarrow> int \<Rightarrow> (int \<times> str_text) option" where
  "block_string m dest blk0 blk_end idx bufmax = do {
     p \<leftarrow> skip_strings m blk_end blk0 idx;
     case p of
       None \<Rightarrow> Some (0, No_Text)
     | Some blk \<Rightarrow>
         if blk_end < blk + 2 then Some (0, No_Text)
         else do {
           slen0 \<leftarrow> rd16 m blk;
           let slen = (if blk_end < blk + 2 + unat slen0 * 2 then of_nat ((blk_end - (blk + 2)) div 2) else slen0);
           copy_string m dest (blk + 2) slen bufmax } }"

text \<open>The third level: the first language, its data entry and the checks on it.\<close>

definition string_data :: "image_memory \<Rightarrow> str_dest \<Rightarrow> nat \<Rightarrow> u32 \<Rightarrow> u32 \<Rightarrow> nat \<Rightarrow> u32 \<Rightarrow> int \<Rightarrow> (int \<times> str_text) option" where
  "string_data m dest base rsrc_rva rsrc_size l3 ident bufmax = (
     let rsrc = base + unat rsrc_rva in
     if rsrc + unat rsrc_size < rsrc + l3 + sizeof_ResDir + sizeof_ResDirEnt then Some (0, No_Text)
     else do {
       named \<leftarrow> rd16 m (rsrc + l3 + 12);
       ids \<leftarrow> rd16 m (rsrc + l3 + 14);
       if unat named + unat ids = 0 then Some (0, No_Text)
       else do {
         off \<leftarrow> rd32 m (rsrc + l3 + sizeof_ResDir + 4);
         let data_off = off AND 0x7FFFFFFF;
         if unat rsrc_size < unat data_off + sizeof_ResData then Some (0, No_Text)
         else do {
           rva \<leftarrow> rd32 m (rsrc + unat data_off);
           sz \<leftarrow> rd32 m (rsrc + unat data_off + 4);
           if rva < rsrc_rva \<or> rsrc_size < rva - rsrc_rva + sz then Some (0, No_Text)
           else block_string m dest (base + unat rva) (base + unat rva + unat sz) (unat (ident mod 16)) bufmax } } })"

text \<open>The directory of the image at \<open>base\<close>: address and size of the resources.\<close>

definition resource_dir :: "image_memory \<Rightarrow> nat \<Rightarrow> (u32 \<times> u32) option option" where
  "resource_dir m base = do {
     mz \<leftarrow> rd16 m base;
     if mz \<noteq> 0x5A4D then Some None
     else do {
       pe_off \<leftarrow> rd32 m (base + 60);
       pe \<leftarrow> rd32 m (base + unat pe_off);
       if pe \<noteq> 0x00004550 then Some None
       else do {
         magic \<leftarrow> rd16 m (base + unat pe_off + 24);
         if magic \<noteq> 0x020B then Some None
         else do {
           rva \<leftarrow> rd32 m (base + unat pe_off + 24 + 112 + 16);
           sz \<leftarrow> rd32 m (base + unat pe_off + 24 + 112 + 20);
           Some (if rva = 0 \<or> sz = 0 then None else Some (rva, sz)) } } } }"

text \<open>Which image is meant; 0 is the null pointer.\<close>

definition string_base :: "image_memory \<Rightarrow> nat \<Rightarrow> nat \<Rightarrow> nat \<Rightarrow> nat option" where
  "string_base m g_image_base g_pe_base hmod = (
     let base = (if hmod < 0x10000 then g_image_base else hmod) in
     if base = 0 then Some 0
     else do { mz \<leftarrow> rd16 m base; Some (if mz \<noteq> 0x5A4D then g_pe_base else base) })"

definition load_string_impl :: "image_memory \<Rightarrow> nat \<Rightarrow> nat \<Rightarrow> nat \<Rightarrow> u32 \<Rightarrow> str_dest \<Rightarrow> int \<Rightarrow> (int \<times> str_text) option" where
  "load_string_impl m g_image_base g_pe_base hmod ident dest bufmax = do {
     base \<leftarrow> string_base m g_image_base g_pe_base hmod;
     if base = 0 then Some (0, No_Text)
     else do {
       d \<leftarrow> resource_dir m base;
       case d of
         None \<Rightarrow> Some (0, No_Text)
       | Some (rsrc_rva, rsrc_size) \<Rightarrow> do {
           l2 \<leftarrow> res_find_id m (base + unat rsrc_rva) rsrc_size 0 6;
           case l2 of
             None \<Rightarrow> Some (0, No_Text)
           | Some off2 \<Rightarrow> do {
               l3 \<leftarrow> res_find_id m (base + unat rsrc_rva) rsrc_size (of_nat off2) (ucast (ident div 16 + 1));
               case l3 of
                 None \<Rightarrow> Some (0, No_Text)
               | Some off3 \<Rightarrow> string_data m dest base rsrc_rva rsrc_size off3 ident bufmax } } } }"

definition user32_LoadStringW :: "image_memory \<Rightarrow> nat \<Rightarrow> nat \<Rightarrow> nat \<Rightarrow> u32 \<Rightarrow> bool \<Rightarrow> int \<Rightarrow> (int \<times> str_text) option" where
  "user32_LoadStringW m ib pb hinst ident buf_null sz = load_string_impl m ib pb hinst ident (if buf_null then No_Dest else Wide_Dest) sz"

definition user32_LoadStringA :: "image_memory \<Rightarrow> nat \<Rightarrow> nat \<Rightarrow> nat \<Rightarrow> u32 \<Rightarrow> bool \<Rightarrow> int \<Rightarrow> (int \<times> str_text) option" where
  "user32_LoadStringA m ib pb hinst ident buf_null sz = load_string_impl m ib pb hinst ident (if buf_null then No_Dest else Ansi_Dest) sz"

section \<open>Bytes that memory holds\<close>

definition holds :: "image_memory \<Rightarrow> nat \<Rightarrow> bytes \<Rightarrow> bool" where
  "holds m a bs \<longleftrightarrow> read_bytes m a (length bs) = Some bs"

definition mapped :: "image_memory \<Rightarrow> nat \<Rightarrow> nat \<Rightarrow> bool" where
  "mapped m a n \<longleftrightarrow> (\<forall>i<n. m (a + i) \<noteq> None)"

lemma mapped_Suc: "mapped m a (Suc n) \<longleftrightarrow> m a \<noteq> None \<and> mapped m (a + 1) n"
  unfolding mapped_def by (auto simp: less_Suc_eq_0_disj)

lemma read_mapped: "mapped m a n \<Longrightarrow> \<exists>bs. read_bytes m a n = Some bs \<and> length bs = n"
  by (induction n arbitrary: a) (fastforce simp: mapped_Suc)+

lemma mapped_mono: "mapped m a n \<Longrightarrow> a \<le> b \<Longrightarrow> b + k \<le> a + n \<Longrightarrow> mapped m b k"
proof -
  assume m: "mapped m a n" and le: "a \<le> b" "b + k \<le> a + n"
  have "m (b + i) \<noteq> None" if "i < k" for i
  proof -
    have "b - a + i < n" using le that by linarith
    then have "m (a + (b - a + i)) \<noteq> None" using m unfolding mapped_def by blast
    then show ?thesis using le by simp
  qed
  then show ?thesis by (simp add: mapped_def)
qed

lemma rd16_mapped: "mapped m a n \<Longrightarrow> a \<le> b \<Longrightarrow> b + 2 \<le> a + n \<Longrightarrow> \<exists>w. rd16 m b = Some w"
  using read_mapped[OF mapped_mono, of m a n b 2] by (auto simp: rd16_def)

lemma rd32_mapped: "mapped m a n \<Longrightarrow> a \<le> b \<Longrightarrow> b + 4 \<le> a + n \<Longrightarrow> \<exists>w. rd32 m b = Some w"
  using read_mapped[OF mapped_mono, of m a n b 4] by (auto simp: rd32_def)

lemma read_units_mapped: "mapped m a n \<Longrightarrow> a \<le> b \<Longrightarrow> b + 2 * k \<le> a + n \<Longrightarrow> \<exists>us. read_units m b k = Some us"
proof (induction k arbitrary: b)
  case (Suc k)
  then obtain u us where "rd16 m b = Some u" "read_units m (b + 2) k = Some us"
    using rd16_mapped[of m a n b] Suc.IH[of "b + 2"] by fastforce
  then show ?case by simp
qed simp

lemma holds_append [simp]: "holds m a (xs @ ys) \<longleftrightarrow> holds m a xs \<and> holds m (a + length xs) ys"
proof (induction xs arbitrary: a)
  case Nil
  then show ?case by (simp add: holds_def)
next
  case (Cons x xs)
  have "holds m a (x # zs) \<longleftrightarrow> m a = Some x \<and> holds m (a + 1) zs" for zs by (auto simp: holds_def bind_eq_Some_conv)
  then show ?case using Cons.IH[of "a + 1"] by simp
qed

lemma holds_concat: "holds m a (concat xss) \<Longrightarrow> k < length xss \<Longrightarrow> holds m (a + length (concat (take k xss))) (xss ! k)"
proof (induction xss arbitrary: a k)
  case (Cons xs xss)
  then show ?case by (cases k) (auto simp flip: add.assoc)
qed simp

lemma rd16_holds: "holds m a (le_bytes 2 w) \<Longrightarrow> rd16 m a = Some w"
  by (simp add: holds_def rd16_def le_word_le_bytes del: le_bytes.simps)

lemma rd32_holds: "holds m a (le_bytes 4 w) \<Longrightarrow> rd32 m a = Some w"
  by (simp add: holds_def rd32_def le_word_le_bytes del: le_bytes.simps)

lemma read_units_holds: "holds m a (concat (map (le_bytes 2) us)) \<Longrightarrow> k \<le> length us \<Longrightarrow> read_units m a k = Some (take k us)"
proof (induction us arbitrary: a k)
  case (Cons u us)
  then show ?case using rd16_holds[of m a u] by (cases k) (auto simp del: le_bytes.simps)
qed simp

section \<open>The layout of string resources\<close>

text \<open>
  The bytes of a resource section that holds only strings, in the layout of the PE format: a directory of types with
  the one entry 6, a directory of the blocks, for each block a directory with one language and a data entry, then the
  blocks themselves, each string behind its length.
\<close>

definition dir_bytes :: "(u32 \<times> u32) list \<Rightarrow> bytes" where
  "dir_bytes ents = replicate 12 0 @ le_bytes 2 (0 :: u16) @ le_bytes 2 (of_nat (length ents) :: u16) @
     concat (map (\<lambda>(nm, off). le_bytes 4 nm @ le_bytes 4 off) ents)"

definition data_bytes :: "u32 \<Rightarrow> u32 \<Rightarrow> bytes" where
  "data_bytes rva sz = le_bytes 4 rva @ le_bytes 4 sz @ replicate 8 0"

definition string_bytes :: "u16 list \<Rightarrow> bytes" where
  "string_bytes s = le_bytes 2 (of_nat (length s) :: u16) @ concat (map (le_bytes 2) s)"

definition strings_bytes :: "u16 list list \<Rightarrow> bytes" where
  "strings_bytes strs = concat (map string_bytes strs)"

type_synonym string_table = "(u16 \<times> u16 list list) list"

definition lang_off :: "string_table \<Rightarrow> nat \<Rightarrow> nat" where
  "lang_off bs k = 40 + 8 * length bs + 24 * k"

definition entry_off :: "string_table \<Rightarrow> nat \<Rightarrow> nat" where
  "entry_off bs k = 40 + 32 * length bs + 16 * k"

definition data_off :: "string_table \<Rightarrow> nat \<Rightarrow> nat" where
  "data_off bs k = 40 + 48 * length bs + length (concat (map (strings_bytes \<circ> snd) (take k bs)))"

definition subdir :: "nat \<Rightarrow> u32" where
  "subdir n = 0x80000000 OR of_nat n"

definition rsrc_bytes :: "nat \<Rightarrow> string_table \<Rightarrow> bytes" where
  "rsrc_bytes rva bs =
     dir_bytes [(6, subdir 24)] @
     dir_bytes (map (\<lambda>k. (ucast (fst (bs ! k)), subdir (lang_off bs k))) [0..<length bs]) @
     concat (map (\<lambda>k. dir_bytes [(0x409, of_nat (entry_off bs k))]) [0..<length bs]) @
     concat (map (\<lambda>k. data_bytes (of_nat (rva + data_off bs k)) (of_nat (length (strings_bytes (snd (bs ! k)))))) [0..<length bs]) @
     concat (map (strings_bytes \<circ> snd) bs)"

text \<open>Strings of at most 65535 characters in blocks of sixteen, and a section within 32 bits of address.\<close>

definition table_ok :: "nat \<Rightarrow> string_table \<Rightarrow> bool" where
  "table_ok rva bs \<longleftrightarrow> length bs < 65536 \<and> 0 < rva \<and> rva + length (rsrc_bytes rva bs) < 2 ^ 31 \<and>
     (\<forall>(b, strs)\<in>set bs. length strs = 16 \<and> (\<forall>s\<in>set strs. length s < 65536))"

lemma length_concat_uniform: "(\<And>x. x \<in> set xs \<Longrightarrow> length (f x) = c) \<Longrightarrow> length (concat (map f xs)) = c * length xs"
  by (induction xs) auto

lemma length_dir_bytes [simp]: "length (dir_bytes ents) = 16 + 8 * length ents"
  unfolding dir_bytes_def by (simp add: length_concat_uniform[of ents _ 8] case_prod_beta)

lemma length_data_bytes [simp]: "length (data_bytes a b) = 16"
  by (simp add: data_bytes_def)

lemma length_concat_data [simp]: "length (concat (map (\<lambda>k. data_bytes (f k) (g k)) xs)) = 16 * length xs"
  by (rule length_concat_uniform) simp

lemma length_concat_dir [simp]: "length (concat (map (\<lambda>k. dir_bytes [f k]) xs)) = 24 * length xs"
  by (rule length_concat_uniform) simp

lemma length_string_bytes [simp]: "length (string_bytes s) = 2 + 2 * length s"
  unfolding string_bytes_def by (simp add: length_concat_uniform[of s "le_bytes 2" 2])

lemma length_rsrc_bytes: "length (rsrc_bytes rva bs) = data_off bs (length bs)"
  unfolding rsrc_bytes_def data_off_def
  by simp

lemma holds_uniform:
  assumes "holds m a (concat (map f [0..<n]))" "k < n" "\<And>i. i < n \<Longrightarrow> length (f i) = c"
  shows "holds m (a + c * k) (f k)"
proof -
  have "length (concat (take k (map f [0..<n]))) = c * k"
    unfolding take_map using assms(2,3) length_concat_uniform[of "[0..<k]" f c] by simp
  then show ?thesis using holds_concat[OF assms(1), of k] assms(2) by simp
qed

text \<open>The four kinds of pieces of a section, each at its offset.\<close>

lemma holds_rsrc:
  assumes "holds m a (rsrc_bytes rva bs)"
  shows "holds m a (dir_bytes [(6, subdir 24)])"
    and "holds m (a + 24) (dir_bytes (map (\<lambda>k. (ucast (fst (bs ! k)), subdir (lang_off bs k))) [0..<length bs]))"
    and "k < length bs \<Longrightarrow> holds m (a + lang_off bs k) (dir_bytes [(0x409, of_nat (entry_off bs k))])"
    and "k < length bs \<Longrightarrow> holds m (a + entry_off bs k) (data_bytes (of_nat (rva + data_off bs k)) (of_nat (length (strings_bytes (snd (bs ! k))))))"
    and "k < length bs \<Longrightarrow> holds m (a + data_off bs k) (strings_bytes (snd (bs ! k)))"
proof -
  let ?n = "length bs"
  have h: "holds m a (dir_bytes [(6, subdir 24)])"
    "holds m (a + 24) (dir_bytes (map (\<lambda>k. (ucast (fst (bs ! k)), subdir (lang_off bs k))) [0..<?n]))"
    "holds m (a + (40 + 8 * ?n)) (concat (map (\<lambda>k. dir_bytes [(0x409, of_nat (entry_off bs k))]) [0..<?n]))"
    "holds m (a + (40 + 32 * ?n)) (concat (map (\<lambda>k. data_bytes (of_nat (rva + data_off bs k)) (of_nat (length (strings_bytes (snd (bs ! k)))))) [0..<?n]))"
    "holds m (a + (40 + 48 * ?n)) (concat (map (strings_bytes \<circ> snd) bs))"
    using assms unfolding rsrc_bytes_def by (simp_all add: algebra_simps)
  show "holds m a (dir_bytes [(6, subdir 24)])" by (rule h(1))
  show "holds m (a + 24) (dir_bytes (map (\<lambda>k. (ucast (fst (bs ! k)), subdir (lang_off bs k))) [0..<?n]))" by (rule h(2))
  show "holds m (a + lang_off bs k) (dir_bytes [(0x409, of_nat (entry_off bs k))])" if "k < ?n"
    using holds_uniform[OF h(3) that, of 24] by (simp add: lang_off_def algebra_simps)
  show "holds m (a + entry_off bs k) (data_bytes (of_nat (rva + data_off bs k)) (of_nat (length (strings_bytes (snd (bs ! k))))))" if "k < ?n"
    using holds_uniform[OF h(4) that, of 16] by (simp add: entry_off_def algebra_simps)
  show "holds m (a + data_off bs k) (strings_bytes (snd (bs ! k)))" if "k < ?n"
    using holds_concat[OF h(5), of k] that by (simp add: data_off_def take_map algebra_simps)
qed

section \<open>Walking a well-formed section\<close>

lemma subdir_off: "n < 2 ^ 31 \<Longrightarrow> unat (subdir n AND 0x7FFFFFFF) = n"
proof -
  assume n: "n < 2 ^ 31"
  have c: "(0x7FFFFFFF :: u32) = mask 31" by (simp add: mask_eq_exp_minus_1)
  have "\<forall>k\<in>set [0..<31]. \<not> bit (0x80000000 :: u32) k" by code_simp
  then have "subdir n AND 0x7FFFFFFF = take_bit 31 (of_nat n)"
    unfolding subdir_def c by (auto simp: bit_eq_iff bit_simps)
  also have "unat \<dots> = n" using n by (simp add: unsigned_take_bit_eq unat_of_nat take_bit_nat_eq_self)
  finally show ?thesis .
qed

lemma plain_off: "n < 2 ^ 31 \<Longrightarrow> unat (of_nat n AND 0x7FFFFFFF :: u32) = n"
proof -
  assume n: "n < 2 ^ 31"
  have "(0x7FFFFFFF :: u32) = mask 31" by (simp add: mask_eq_exp_minus_1)
  then have "(of_nat n AND 0x7FFFFFFF :: u32) = take_bit 31 (of_nat n)" by (simp add: take_bit_eq_mask)
  then show ?thesis using n by (simp add: unsigned_take_bit_eq unat_of_nat take_bit_nat_eq_self)
qed

definition ent_match :: "u16 \<Rightarrow> u32 \<times> u32 \<Rightarrow> bool" where
  "ent_match ident e \<longleftrightarrow> \<not> bit (fst e) 31 \<and> ucast (fst e) = ident"

definition ent_result :: "u32 \<Rightarrow> u32 \<times> u32 \<Rightarrow> nat option" where
  "ent_result n e = (if n \<le> snd e AND 0x7FFFFFFF then None else Some (unat (snd e AND 0x7FFFFFFF)))"

lemma res_scan_holds:
  "holds m a (concat (map (\<lambda>(nm, off). le_bytes 4 nm @ le_bytes 4 off) ents)) \<Longrightarrow>
    res_scan m n ident a (length ents) = Some (case find (ent_match ident) ents of None \<Rightarrow> None | Some e \<Rightarrow> ent_result n e)"
proof (induction ents arbitrary: a)
  case (Cons e ents)
  then have "rd32 m a = Some (fst e)" "rd32 m (a + 4) = Some (snd e)"
    by (auto simp: case_prod_beta rd32_holds simp del: le_bytes.simps)
  moreover have "holds m (a + 8) (concat (map (\<lambda>(nm, off). le_bytes 4 nm @ le_bytes 4 off) ents))"
    using Cons.prems by (cases e) (simp add: algebra_simps del: le_bytes.simps)
  ultimately show ?case using Cons.IH[of "a + 8"] by (simp add: ent_match_def ent_result_def)
qed simp

lemma res_find_holds:
  assumes h: "holds m (rsrc + off) (dir_bytes ents)" and le: "off + 16 + 8 * length ents \<le> n" and n: "n < 2 ^ 32" "length ents < 65536"
  shows "res_find_id m rsrc (of_nat n) (of_nat off) ident =
    Some (case find (ent_match ident) ents of None \<Rightarrow> None | Some e \<Rightarrow> ent_result (of_nat n) e)"
proof -
  have u: "unat (of_nat off :: u32) = off" "unat (of_nat n :: u32) = n" using le n by (simp_all add: unat_of_nat)
  have rd: "rd16 m (rsrc + off + 12) = Some 0" "rd16 m (rsrc + off + 14) = Some (of_nat (length ents))"
    using h unfolding dir_bytes_def by (auto simp: rd16_holds algebra_simps simp del: le_bytes.simps)
  have h': "holds m (rsrc + (off + 16)) (concat (map (\<lambda>(nm, off). le_bytes 4 nm @ le_bytes 4 off) ents))"
    using h unfolding dir_bytes_def by (simp add: algebra_simps del: le_bytes.simps)
  have c: "unat (ucast (of_nat (length ents) :: u16) :: u32) = length ents"
    using n(2) by (simp add: unsigned_ucast_eq unat_of_nat take_bit_nat_eq_self)
  then have cw: "(ucast (of_nat (length ents) :: u16) :: u32) = of_nat (length ents)" by (metis of_nat_unat ucast_id)
  have l: "unat (of_nat (length ents) :: u32) = length ents" using n(2) by (simp add: unat_of_nat)
  have sum: "unat (of_nat off + 16 + of_nat (length ents) * 8 :: u32) = off + 16 + 8 * length ents"
  proof -
    have "(of_nat off + 16 + of_nat (length ents) * 8 :: u32) = of_nat (off + 16 + 8 * length ents)" by simp
    also have "unat \<dots> = off + 16 + 8 * length ents" using le n(1) by (subst unat_of_nat) simp
    finally show ?thesis .
  qed
  have e: "unat (of_nat off + 16 :: u32) = off + 16"
  proof -
    have "(of_nat off + 16 :: u32) = of_nat (off + 16)" by simp
    also have "unat \<dots> = off + 16" using le n(1) by (subst unat_of_nat) simp
    finally show ?thesis .
  qed
  show ?thesis
    using res_scan_holds[OF h', of "of_nat n" ident] le rd
    by (simp add: res_find_id_def u l e sum cw sizeof_ResDir_def sizeof_ResDirEnt_def word_less_nat_alt unat_of_nat_small Let_def)
qed

lemma skip_strings_holds:
  assumes "holds m a (strings_bytes strs)" "k \<le> length strs" "\<forall>s\<in>set strs. length s < 65536"
    and "a + length (strings_bytes strs) \<le> e"
  shows "skip_strings m e a k = Some (Some (a + length (strings_bytes (take k strs))))"
  using assms
proof (induction strs arbitrary: a k)
  case Nil
  then show ?case by (simp add: strings_bytes_def)
next
  case (Cons s strs)
  have r: "rd16 m a = Some (of_nat (length s))"
    using Cons.prems(1) by (auto simp: strings_bytes_def string_bytes_def rd16_holds simp del: le_bytes.simps)
  have u: "unat (of_nat (length s) :: u16) = length s" using Cons.prems(3) by (simp add: unat_of_nat)
  have h: "holds m (a + 2 + 2 * length s) (strings_bytes strs)"
    using Cons.prems(1) by (simp add: strings_bytes_def algebra_simps)
  show ?case
  proof (cases k)
    case (Suc j)
    have "skip_strings m e (a + 2 + 2 * length s) j = Some (Some (a + 2 + 2 * length s + length (strings_bytes (take j strs))))"
      using Cons.IH[OF h, of j] Cons.prems Suc by (simp add: strings_bytes_def algebra_simps)
    then show ?thesis using Suc r u Cons.prems(4) by (simp add: strings_bytes_def algebra_simps)
  qed (simp add: strings_bytes_def)
qed

lemma block_string_holds:
  assumes h: "holds m a (strings_bytes strs)" and k: "k < length strs" and s: "\<forall>s\<in>set strs. length s < 65536"
  defines "p \<equiv> a + length (strings_bytes (take k strs)) + 2"
  shows "block_string m dest a (a + length (strings_bytes strs)) k bufmax = copy_string m dest p (of_nat (length (strs ! k))) bufmax"
    and "holds m p (concat (map (le_bytes 2) (strs ! k)))"
    and "p + 2 * length (strs ! k) \<le> a + length (strings_bytes strs)"
proof -
  have split: "strings_bytes strs = strings_bytes (take k strs) @ string_bytes (strs ! k) @ strings_bytes (drop (Suc k) strs)"
    using k by (subst id_take_nth_drop[OF k]) (simp add: strings_bytes_def)
  have at: "holds m (a + length (strings_bytes (take k strs))) (string_bytes (strs ! k))"
    using h by (subst (asm) split) simp
  show "holds m p (concat (map (le_bytes 2) (strs ! k)))"
    using at unfolding string_bytes_def p_def by (simp del: le_bytes.simps)
  have len: "length (strings_bytes strs) = length (strings_bytes (take k strs)) + (2 + 2 * length (strs ! k)) + length (strings_bytes (drop (Suc k) strs))"
    by (subst split) simp
  then show "p + 2 * length (strs ! k) \<le> a + length (strings_bytes strs)" by (simp add: p_def)
  have "rd16 m (a + length (strings_bytes (take k strs))) = Some (of_nat (length (strs ! k)))"
    using at unfolding string_bytes_def by (auto simp: rd16_holds simp del: le_bytes.simps)
  moreover have "unat (of_nat (length (strs ! k)) :: u16) = length (strs ! k)" using k s by (simp add: unat_of_nat)
  ultimately show "block_string m dest a (a + length (strings_bytes strs)) k bufmax = copy_string m dest p (of_nat (length (strs ! k))) bufmax"
    using skip_strings_holds[OF h less_imp_le[OF k] s order_refl] len by (simp add: block_string_def p_def)
qed

section \<open>LoadString finds the string\<close>

text \<open>The headers of a 64-bit image with the resource directory \<open>rva\<close>, \<open>n\<close>.\<close>

definition pe_image_at :: "image_memory \<Rightarrow> nat \<Rightarrow> nat \<Rightarrow> nat \<Rightarrow> bool" where
  "pe_image_at m base rva n \<longleftrightarrow> (\<exists>lfanew :: u32.
     holds m base (le_bytes 2 (0x5A4D :: u16)) \<and> holds m (base + 60) (le_bytes 4 lfanew) \<and>
     holds m (base + unat lfanew) (le_bytes 4 (0x4550 :: u32)) \<and> holds m (base + unat lfanew + 24) (le_bytes 2 (0x20B :: u16)) \<and>
     holds m (base + unat lfanew + 24 + 112 + 16) (le_bytes 4 (of_nat rva :: u32)) \<and>
     holds m (base + unat lfanew + 24 + 112 + 20) (le_bytes 4 (of_nat n :: u32)))"

lemma resource_dir_at:
  assumes "pe_image_at m base rva n" "0 < rva" "rva < 2 ^ 32" "0 < n" "n < 2 ^ 32"
  shows "resource_dir m base = Some (Some (of_nat rva, of_nat n))" and "rd16 m base = Some 0x5A4D"
proof -
  have "unat (of_nat rva :: u32) = rva" "unat (of_nat n :: u32) = n" using assms(3,5) by (simp_all add: unat_of_nat)
  then have z: "(of_nat rva :: u32) \<noteq> 0" "(of_nat n :: u32) \<noteq> 0" using assms(2,4) by (metis less_not_refl unsigned_0)+
  show "resource_dir m base = Some (Some (of_nat rva, of_nat n))"
    using assms(1) z unfolding pe_image_at_def resource_dir_def by (auto dest!: rd16_holds rd32_holds)
  show "rd16 m base = Some 0x5A4D" using assms(1) unfolding pe_image_at_def by (auto dest!: rd16_holds)
qed

lemma map_of_find: "map_of bs x = map_option snd (find (\<lambda>e. fst e = x) bs)"
  by (induction bs) auto

lemma ent_match_block [simp]: "ent_match x (ucast (b :: u16), off) \<longleftrightarrow> b = x"
proof -
  have "(ucast (ucast b :: u32) :: u16) = b" by (auto simp: bit_eq_iff bit_simps)
  moreover have "\<not> bit (ucast b :: u32) 31" using bit_imp_le_length[of b 31] by (auto simp: bit_simps)
  ultimately show ?thesis by (simp add: ent_match_def)
qed

lemma find_block:
  assumes "find (\<lambda>e. fst e = x) bs = Some e"
  shows "\<exists>k<length bs. bs ! k = e \<and> find (ent_match x) (map (\<lambda>k. (ucast (fst (bs ! k)), f k)) [0..<length bs]) = Some (ucast (fst e), f k)"
proof -
  obtain k where k: "k < length bs" "fst (bs ! k) = x" "e = bs ! k" "\<forall>j<k. fst (bs ! j) \<noteq> x"
    using assms unfolding find_Some_iff by auto
  then have "find (ent_match x) (map (\<lambda>k. (ucast (fst (bs ! k)), f k)) [0..<length bs]) = Some (ucast (fst e), f k)"
    unfolding find_Some_iff by (intro exI[of _ k]) auto
  then show ?thesis using k by auto
qed

lemma find_no_block:
  assumes "find (\<lambda>e. fst e = x) bs = None"
  shows "find (ent_match x) (map (\<lambda>k. (ucast (fst (bs ! k)), f k)) [0..<length bs]) = None"
  using assms unfolding find_None_iff by (auto, metis nth_mem prod.collapse)

lemma data_off_mono: "k < length bs \<Longrightarrow> data_off bs k + length (strings_bytes (snd (bs ! k))) \<le> data_off bs (length bs)"
  unfolding data_off_def by (subst (3) id_take_nth_drop[of k bs]) auto

text \<open>What is left of the call once the headers and directories are read.\<close>

lemma string_data_found:
  assumes h: "holds m (base + rva) (rsrc_bytes rva bs)" and ok: "table_ok rva bs" and k: "k < length bs"
  defines "n \<equiv> length (rsrc_bytes rva bs)"
  shows "string_data m dest base (of_nat rva) (of_nat n) (lang_off bs k) ident bufmax =
    block_string m dest (base + rva + data_off bs k) (base + rva + data_off bs k + length (strings_bytes (snd (bs ! k)))) (unat (ident mod 16)) bufmax"
proof -
  have n: "n = data_off bs (length bs)" "rva + n < 2 ^ 31" using ok by (simp_all add: n_def length_rsrc_bytes table_ok_def)
  have d: "data_off bs k + length (strings_bytes (snd (bs ! k))) \<le> n" using data_off_mono[OF k] n by simp
  have e: "lang_off bs k + 24 \<le> n" "entry_off bs k + 16 \<le> data_off bs k" "40 \<le> data_off bs k"
    using k n unfolding lang_off_def entry_off_def data_off_def by (auto simp: n)
  have rd: "rd16 m (base + rva + lang_off bs k + 12) = Some 0" "rd16 m (base + rva + lang_off bs k + 14) = Some 1"
      "rd32 m (20 + base + rva + lang_off bs k) = Some (of_nat (entry_off bs k))"
    using holds_rsrc(3)[OF h k] unfolding dir_bytes_def by (auto simp: rd16_holds rd32_holds algebra_simps simp del: le_bytes.simps)
  have rd2: "rd32 m (base + rva + entry_off bs k) = Some (of_nat (rva + data_off bs k))"
      "rd32 m (base + rva + entry_off bs k + 4) = Some (of_nat (length (strings_bytes (snd (bs ! k)))))"
    using holds_rsrc(4)[OF h k] unfolding data_bytes_def by (auto simp: rd32_holds algebra_simps simp del: le_bytes.simps of_nat_add)
  have u: "unat (of_nat rva :: u32) = rva" "unat (of_nat n :: u32) = n" "unat (of_nat (rva + data_off bs k) :: u32) = rva + data_off bs k"
      "unat (of_nat (length (strings_bytes (snd (bs ! k)))) :: u32) = length (strings_bytes (snd (bs ! k)))"
    using n d by (simp_all only: unat_of_nat) simp_all
  have p: "unat (of_nat (entry_off bs k) AND 0x7FFFFFFF :: u32) = entry_off bs k" using e d n by (intro plain_off) linarith
  have w: "of_nat (rva + data_off bs k) - of_nat rva + of_nat (length (strings_bytes (snd (bs ! k)))) = (of_nat (data_off bs k + length (strings_bytes (snd (bs ! k)))) :: u32)"
    by simp
  have c: "\<not> of_nat (rva + data_off bs k) < (of_nat rva :: u32)" "\<not> of_nat n < (of_nat (data_off bs k + length (strings_bytes (snd (bs ! k)))) :: u32)"
    using n d u by (simp_all only: word_less_nat_alt unat_of_nat) simp_all
  show ?thesis
    using e d by (simp add: string_data_def sizeof_ResDir_def sizeof_ResDirEnt_def sizeof_ResData_def Let_def u rd rd2 p w c add.assoc[symmetric] del: of_nat_add)
qed

definition string_image :: "image_memory \<Rightarrow> nat \<Rightarrow> nat \<Rightarrow> string_table \<Rightarrow> bool" where
  "string_image m base rva bs \<longleftrightarrow> 0 < base \<and> table_ok rva bs \<and>
     pe_image_at m base rva (length (rsrc_bytes rva bs)) \<and> holds m (base + rva) (rsrc_bytes rva bs)"

definition names_image :: "nat \<Rightarrow> nat \<Rightarrow> nat \<Rightarrow> bool" where
  "names_image hmod g_image_base base \<longleftrightarrow> (if hmod < 0x10000 then g_image_base = base else hmod = base)"

definition block_of :: "u32 \<Rightarrow> u16" where
  "block_of ident = ucast (ident div 16 + 1)"

lemma index_in_block: "unat (ident mod 16 :: u32) < 16"
proof -
  have "unat (ident mod 16) = unat ident mod 16" by (simp add: unat_mod_distrib)
  then show ?thesis by simp
qed

lemma load_string_core:
  assumes "string_image m base rva bs" "names_image hmod ib base"
  shows "map_of bs (block_of ident) = None \<Longrightarrow> load_string_impl m ib pb hmod ident dest bufmax = Some (0, No_Text)"
    and "map_of bs (block_of ident) = Some strs \<Longrightarrow>
      \<exists>p. load_string_impl m ib pb hmod ident dest bufmax = copy_string m dest p (of_nat (length (strs ! unat (ident mod 16)))) bufmax \<and>
        holds m p (concat (map (le_bytes 2) (strs ! unat (ident mod 16)))) \<and> length (strs ! unat (ident mod 16)) < 65536"
proof -
  let ?n = "length (rsrc_bytes rva bs)" and ?x = "block_of ident"
  have im: "0 < base" "table_ok rva bs" "pe_image_at m base rva ?n" and h: "holds m (base + rva) (rsrc_bytes rva bs)"
    using assms(1) by (auto simp: string_image_def)
  have n: "0 < rva" "rva + ?n < 2 ^ 31" "length bs < 65536" "?n = data_off bs (length bs)"
    using im(2) by (auto simp: table_ok_def length_rsrc_bytes)
  have n40: "40 + 48 * length bs \<le> ?n" by (simp add: n(4) data_off_def)
  have dir: "resource_dir m base = Some (Some (of_nat rva, of_nat ?n))" and mz: "rd16 m base = Some 0x5A4D"
    using resource_dir_at[OF im(3)] n n40 by auto
  have sb: "string_base m ib pb hmod = Some base"
    using assms(2) im(1) mz by (auto simp: names_image_def string_base_def Let_def)
  have u: "unat (of_nat rva :: u32) = rva" "unat (of_nat ?n :: u32) = ?n" using n by (simp_all add: unat_of_nat)
  have l2: "res_find_id m (base + rva) (of_nat ?n) 0 6 = Some (Some 24)"
    using res_find_holds[of m "base + rva" 0 "[(6, subdir 24)]" ?n 6] holds_rsrc(1)[OF h] n n40 subdir_off[of 24] u
    by (simp add: ent_match_def ent_result_def word_le_nat_alt)
  let ?ents = "map (\<lambda>k. (ucast (fst (bs ! k)), subdir (lang_off bs k))) [0..<length bs] :: (u32 \<times> u32) list"
  have l3: "res_find_id m (base + rva) (of_nat ?n) (of_nat 24) ?x =
      Some (case find (ent_match ?x) ?ents of None \<Rightarrow> None | Some e \<Rightarrow> ent_result (of_nat ?n) e)"
    using res_find_holds[of m "base + rva" 24 ?ents ?n ?x] holds_rsrc(2)[OF h] n n40 by simp
  have start: "load_string_impl m ib pb hmod ident dest bufmax =
      (case find (ent_match ?x) ?ents of None \<Rightarrow> Some (0, No_Text)
       | Some e \<Rightarrow> (case ent_result (of_nat ?n) e of None \<Rightarrow> Some (0, No_Text)
           | Some off3 \<Rightarrow> string_data m dest base (of_nat rva) (of_nat ?n) off3 ident bufmax))"
    using im(1) l3 by (auto simp: load_string_impl_def sb dir u l2 block_of_def split: option.splits)
  show "load_string_impl m ib pb hmod ident dest bufmax = Some (0, No_Text)" if "map_of bs ?x = None"
    using find_no_block[of ?x bs "\<lambda>k. subdir (lang_off bs k)"] that start by (simp add: map_of_find)
  show "\<exists>p. load_string_impl m ib pb hmod ident dest bufmax = copy_string m dest p (of_nat (length (strs ! unat (ident mod 16)))) bufmax \<and>
        holds m p (concat (map (le_bytes 2) (strs ! unat (ident mod 16)))) \<and> length (strs ! unat (ident mod 16)) < 65536" if some: "map_of bs ?x = Some strs"
  proof -
    obtain k where k: "k < length bs" "snd (bs ! k) = strs"
        "find (ent_match ?x) ?ents = Some (ucast (fst (bs ! k)), subdir (lang_off bs k))"
      using find_block[of ?x bs _ "\<lambda>k. subdir (lang_off bs k)"] some by (auto simp: map_of_find)
    have strs: "length strs = 16" "\<forall>s\<in>set strs. length s < 65536"
      using im(2) nth_mem[OF k(1)] k(2) by (auto simp: table_ok_def case_prod_beta)
    have lo: "lang_off bs k < ?n" using k(1) n40 by (simp add: lang_off_def)
    then have "ent_result (of_nat ?n) (ucast (fst (bs ! k)), subdir (lang_off bs k)) = Some (lang_off bs k)"
      using n u subdir_off[of "lang_off bs k"] by (simp add: ent_result_def word_le_nat_alt)
    then have "load_string_impl m ib pb hmod ident dest bufmax =
        block_string m dest (base + rva + data_off bs k) (base + rva + data_off bs k + length (strings_bytes strs)) (unat (ident mod 16)) bufmax"
      using start k string_data_found[OF h im(2) k(1)] by simp
    moreover have "holds m (base + rva + data_off bs k) (strings_bytes strs)" using holds_rsrc(5)[OF h k(1)] k(2) by simp
    ultimately show ?thesis using block_string_holds[of m _ strs] strs index_in_block[of ident] by (metis nth_mem)
  qed
qed

lemma copy_string_holds:
  assumes "holds m p (concat (map (le_bytes 2) s))" "length s < 65536" "0 < bufmax" "bufmax \<le> 65536"
  shows "copy_string m Wide_Dest p (of_nat (length s)) bufmax = Some (int (length (take (nat (bufmax - 1)) s)), Wide_Text (take (nat (bufmax - 1)) s))"
    and "copy_string m Ansi_Dest p (of_nat (length s)) bufmax =
      Some (int (length (take (nat (bufmax - 1)) s)), Ansi_Text (map ansi_char (take (nat (bufmax - 1)) s)))"
proof -
  have l: "unat (of_nat (length s) :: u16) = length s" using assms(2) by (simp add: unat_of_nat)
  then have ul: "uint (of_nat (length s) :: u16) = int (length s)" by (simp add: uint_nat)
  have b: "(of_int (bufmax - 1) :: u16) = of_nat (nat (bufmax - 1))" using assms(3) by simp
  have "unat (of_nat (nat (bufmax - 1)) :: u16) = nat (bufmax - 1)" using assms(3,4) by (intro unat_of_nat_small) simp
  then have c: "(of_nat (length s) < (of_int (bufmax - 1) :: u16)) = (length s < nat (bufmax - 1))" unfolding b by (simp add: word_less_nat_alt l)
  have t: "read_units m p (min (nat (bufmax - 1)) (length s)) = Some (take (nat (bufmax - 1)) s)"
    using read_units_holds[OF assms(1), of "min (nat (bufmax - 1)) (length s)"] by (simp add: min_def)
  have o: "(if of_nat (length s) < (of_int (bufmax - 1) :: u16) then uint (of_nat (length s) :: u16) else bufmax - 1) = int (min (nat (bufmax - 1)) (length s))"
    unfolding c ul using assms(3) by auto
  show "copy_string m Wide_Dest p (of_nat (length s)) bufmax = Some (int (length (take (nat (bufmax - 1)) s)), Wide_Text (take (nat (bufmax - 1)) s))"
    unfolding copy_string_def o using assms(3) t by (simp add: Let_def min.commute)
  show "copy_string m Ansi_Dest p (of_nat (length s)) bufmax =
      Some (int (length (take (nat (bufmax - 1)) s)), Ansi_Text (map ansi_char (take (nat (bufmax - 1)) s)))"
    unfolding copy_string_def o using assms(3) t by (simp add: Let_def min.commute)
qed

text \<open>
  C29: In a loaded image whose resource section holds a table of strings in the format of PE files, \<^verbatim>\<open>LoadStringW\<close> with
  a buffer of up to 65536 characters finds the string of an identifier, cut to the buffer, and answers its length; it
  answers 0 for an identifier whose block the table has not.
\<close>

theorem load_string_finds:
  assumes "string_image m base rva bs" "names_image hmod ib base" "0 < bufmax" "bufmax \<le> 65536"
  shows "user32_LoadStringW m ib pb hmod ident False bufmax = Some (case map_of bs (block_of ident) of
      None \<Rightarrow> (0, No_Text)
    | Some strs \<Rightarrow> let s = take (nat (bufmax - 1)) (strs ! unat (ident mod 16)) in (int (length s), Wide_Text s))"
proof (cases "map_of bs (block_of ident)")
  case None
  then show ?thesis using load_string_core(1)[OF assms(1,2)] by (simp add: user32_LoadStringW_def)
next
  case (Some strs)
  then obtain p where "load_string_impl m ib pb hmod ident Wide_Dest bufmax =
      copy_string m Wide_Dest p (of_nat (length (strs ! unat (ident mod 16)))) bufmax"
      "holds m p (concat (map (le_bytes 2) (strs ! unat (ident mod 16))))" "length (strs ! unat (ident mod 16)) < 65536"
    using load_string_core(2)[OF assms(1,2) Some] by blast
  then show ?thesis using copy_string_holds(1)[of m p _ bufmax] assms(3,4) Some by (simp add: user32_LoadStringW_def Let_def)
qed

text \<open>
  With a larger buffer the length is compared with the room cut to 16 bits: a string no shorter than that remainder is
  copied as if it filled the buffer, reading far behind it.
\<close>

lemma load_string_long_buffer:
  assumes "string_image m base rva bs" "names_image hmod ib base" "map_of bs (block_of ident) = Some strs"
    and "65536 < bufmax" "(bufmax - 1) mod 65536 \<le> int (length (strs ! unat (ident mod 16)))"
  shows "\<exists>p. user32_LoadStringW m ib pb hmod ident False bufmax = map_option (\<lambda>us. (bufmax - 1, Wide_Text us)) (read_units m p (nat (bufmax - 1)))"
proof -
  let ?s = "strs ! unat (ident mod 16)"
  obtain p where p: "load_string_impl m ib pb hmod ident Wide_Dest bufmax = copy_string m Wide_Dest p (of_nat (length ?s)) bufmax" "length ?s < 65536"
    using load_string_core(2)[OF assms(1-3)] by blast
  have "unat (of_nat (length ?s) :: u16) = length ?s" using p(2) by (simp add: unat_of_nat)
  moreover have "uint (of_int k :: u16) = k mod 65536" for k by (simp add: unsigned_of_int take_bit_eq_mod)
  ultimately have "\<not> of_nat (length ?s) < (of_int (bufmax - 1) :: u16)" using assms(5) unfolding word_less_def by (metis not_le uint_nat)
  then have "copy_string m Wide_Dest p (of_nat (length ?s)) bufmax = map_option (\<lambda>us. (bufmax - 1, Wide_Text us)) (read_units m p (nat (bufmax - 1)))"
    using assms(4) by (cases "read_units m p (nat (bufmax - 1))") (simp_all add: copy_string_def Let_def del: of_int_diff)
  then show ?thesis using p(1) by (auto simp: user32_LoadStringW_def)
qed

section \<open>An image for every table\<close>

definition place :: "nat \<Rightarrow> bytes \<Rightarrow> image_memory \<Rightarrow> image_memory" where
  "place a bs m = (\<lambda>x. if a \<le> x \<and> x < a + length bs then Some (bs ! (x - a)) else m x)"

lemma read_bytes_eq: "(\<And>i. i < length bs \<Longrightarrow> m (a + i) = Some (bs ! i)) \<Longrightarrow> read_bytes m a (length bs) = Some bs"
proof (induction bs arbitrary: a)
  case (Cons b bs)
  have "m a = Some b" using Cons.prems[of 0] by simp
  moreover have "read_bytes m (a + 1) (length bs) = Some bs" using Cons.prems[of "Suc _"] by (intro Cons.IH) simp
  ultimately show ?case by simp
qed simp

lemma holds_place: "holds (place a bs m) a bs"
  unfolding holds_def by (rule read_bytes_eq) (simp add: place_def)

lemma read_bytes_place: "x + n \<le> a \<Longrightarrow> read_bytes (place a bs m) x n = read_bytes m x n"
  by (induction n arbitrary: x) (simp_all add: place_def)

lemma holds_place_before: "x + length ys \<le> a \<Longrightarrow> holds (place a bs m) x ys \<longleftrightarrow> holds m x ys"
  by (simp add: holds_def read_bytes_place)

definition image_header_bytes :: "nat \<Rightarrow> nat \<Rightarrow> bytes" where
  "image_header_bytes rva n = le_bytes 2 (0x5A4D :: u16) @ replicate 58 0 @ le_bytes 4 (64 :: u32) @
     le_bytes 4 (0x4550 :: u32) @ replicate 20 0 @ le_bytes 2 (0x20B :: u16) @ replicate 126 0 @ le_bytes 4 (of_nat rva :: u32) @ le_bytes 4 (of_nat n :: u32)"

lemma header_image: "holds m base (image_header_bytes rva n) \<Longrightarrow> pe_image_at m base rva n"
proof -
  assume h: "holds m base (image_header_bytes rva n)"
  have u: "unat (64 :: u32) = 64" by simp
  show ?thesis
    unfolding pe_image_at_def
    by (rule exI[of _ 64], unfold u) (use h in \<open>simp add: image_header_bytes_def algebra_simps del: le_bytes.simps\<close>)
qed

lemma string_image_exists:
  assumes "table_ok rva bs" "0 < base" "224 \<le> rva"
  defines "n \<equiv> length (rsrc_bytes rva bs)"
  shows "string_image (place (base + rva) (rsrc_bytes rva bs) (place base (image_header_bytes rva n) (\<lambda>_. None))) base rva bs"
proof -
  have l: "length (image_header_bytes rva n) = 224" by (simp add: image_header_bytes_def)
  have "holds (place base (image_header_bytes rva n) (\<lambda>_. None)) base (image_header_bytes rva n)" by (rule holds_place)
  then have h: "holds (place (base + rva) (rsrc_bytes rva bs) (place base (image_header_bytes rva n) (\<lambda>_. None))) base (image_header_bytes rva n)"
    using assms(3) l by (subst holds_place_before) auto
  then have "pe_image_at (place (base + rva) (rsrc_bytes rva bs) (place base (image_header_bytes rva n) (\<lambda>_. None))) base rva n"
    by (rule header_image)
  then show ?thesis using assms(1,2) holds_place by (simp add: string_image_def n_def)
qed

definition sample_table :: string_table where
  "sample_table = [(3, replicate 15 [72, 105] @ [[66, 121, 101]])]"

lemma sample_table_ok: "table_ok 4096 sample_table"
  unfolding table_ok_def by (simp add: length_rsrc_bytes sample_table_def data_off_def strings_bytes_def length_concat sum_list_replicate)

theorem load_string_finds_witness:
  "\<exists>m. user32_LoadStringW m 65536 0 0 47 False 3 = Some (2, Wide_Text [66, 121])"
proof -
  obtain m where m: "string_image m 65536 4096 sample_table" using string_image_exists[OF sample_table_ok, of 65536] by auto
  have "names_image 0 65536 65536" by (simp add: names_image_def)
  from load_string_finds[OF m this, of 3 0 47] show ?thesis by (auto simp: sample_table_def block_of_def nth_append)
qed

section \<open>Reads stay inside the section\<close>

text \<open>A data entry whose end, taken in 32 bits from the start of the section, wraps around.\<close>

definition wrapping_entry :: "image_memory \<Rightarrow> nat \<Rightarrow> u32 \<Rightarrow> u32 \<Rightarrow> bool" where
  "wrapping_entry m rsrc rsrc_rva rsrc_size \<longleftrightarrow> (\<exists>off rva sz. off + 16 \<le> unat rsrc_size \<and> rd32 m (rsrc + off) = Some rva \<and>
     rd32 m (rsrc + off + 4) = Some sz \<and> 2 ^ 32 \<le> unat (rva - rsrc_rva) + unat sz)"

lemma res_scan_mapped: "mapped m r n \<Longrightarrow> r \<le> a \<Longrightarrow> a + 8 * k \<le> r + n \<Longrightarrow> \<exists>x. res_scan m z ident a k = Some x"
proof (induction k arbitrary: a)
  case (Suc k)
  obtain nm where "rd32 m a = Some nm" using rd32_mapped[OF Suc.prems(1), of a] Suc.prems by auto
  moreover obtain off where "rd32 m (a + 4) = Some off" using rd32_mapped[OF Suc.prems(1), of "a + 4"] Suc.prems by auto
  moreover obtain x where "res_scan m z ident (a + 8) k = Some x" using Suc.IH[of "a + 8"] Suc.prems by auto
  ultimately show ?case by (auto simp: Let_def)
qed simp

lemma res_scan_inside: "res_scan m n ident a k = Some (Some off) \<Longrightarrow> off < unat n"
  by (induction k arbitrary: a) (auto simp: bind_eq_Some_conv Let_def word_le_nat_alt split: if_splits)

lemma res_find_inside: "res_find_id m rsrc n off ident = Some (Some x) \<Longrightarrow> x < unat n"
  by (auto simp: res_find_id_def bind_eq_Some_conv Let_def dest: res_scan_inside split: if_splits)

lemma res_find_mapped:
  assumes "mapped m rsrc (unat n)" "unat n < 2 ^ 32 - 2 ^ 20"
  shows "\<exists>x. res_find_id m rsrc n off ident = Some x"
proof (cases "unat n < unat off + sizeof_ResDir")
  case False
  then have le: "unat off + 16 \<le> unat n" by (simp add: sizeof_ResDir_def)
  obtain named ids where rd: "rd16 m (rsrc + unat off + 12) = Some named" "rd16 m (rsrc + unat off + 14) = Some ids"
    using rd16_mapped[OF assms(1), of "rsrc + unat off + 12"] rd16_mapped[OF assms(1), of "rsrc + unat off + 14"] le by auto
  let ?k = "ucast named + ucast ids :: u32"
  have k: "unat ?k \<le> 131070"
  proof -
    have c: "unat (ucast (w :: u16) :: u32) \<le> 65535" for w :: u16
    proof -
      have "unat w < 2 ^ LENGTH(16)" by (rule unsigned_less)
      then show ?thesis by (simp add: unsigned_ucast_eq take_bit_nat_eq_self)
    qed
    then have "unat (ucast named :: u32) + unat (ucast ids :: u32) \<le> 131070" using c[of named] c[of ids] by linarith
    then show ?thesis using unat_add_nowrap[of "ucast named :: u32" "ucast ids"] by simp
  qed
  have e: "unat (off + 16) = unat off + 16" using le assms(2) unat_add_nowrap[of off 16] by simp
  have s: "unat (off + 16 + ?k * 8) = unat off + 16 + 8 * unat ?k"
  proof -
    have m8: "unat (?k * 8) = unat ?k * 8" using k unat_mult_nowrap[of ?k 8] by simp
    then show ?thesis using le assms(2) k e unat_add_nowrap[of "off + 16" "?k * 8"] by simp
  qed
  show ?thesis
  proof (cases "n < off + 16 + ?k * 8")
    case True
    then show ?thesis using rd False by (simp add: res_find_id_def sizeof_ResDirEnt_def sizeof_ResDir_def Let_def)
  next
    case fits: False
    then obtain x where "res_scan m n ident (rsrc + (unat off + 16)) (unat ?k) = Some x"
      using res_scan_mapped[OF assms(1), of "rsrc + (unat off + 16)" "unat ?k" n ident] s by (auto simp: word_less_nat_alt)
    then show ?thesis using rd False fits e by (simp add: res_find_id_def sizeof_ResDirEnt_def sizeof_ResDir_def Let_def)
  qed
qed (simp add: res_find_id_def)

lemma skip_strings_mapped:
  "mapped m r n \<Longrightarrow> r \<le> a \<Longrightarrow> e \<le> r + n \<Longrightarrow> \<exists>x. skip_strings m e a k = Some x \<and> (\<forall>b. x = Some b \<longrightarrow> a \<le> b)"
proof (induction k arbitrary: a)
  case (Suc k)
  show ?case
  proof (cases "e < a + 2")
    case False
    then obtain l where l: "rd16 m a = Some l" using rd16_mapped[OF Suc.prems(1), of a] Suc.prems by auto
    obtain x where "skip_strings m e (a + 2 + unat l * 2) k = Some x" "\<forall>b. x = Some b \<longrightarrow> a + 2 + unat l * 2 \<le> b"
      using Suc.IH[of "a + 2 + unat l * 2"] Suc.prems by auto
    then show ?thesis using False l by fastforce
  qed simp
qed simp

lemma copy_string_mapped:
  assumes "mapped m r n" "r \<le> p" "p + 2 * unat slen \<le> r + n" "bufmax \<le> 65536"
  shows "\<exists>x. copy_string m dest p slen bufmax = Some x"
proof (cases "bufmax \<le> 0")
  case False
  let ?out = "if slen < of_int (bufmax - 1) then uint slen else bufmax - 1"
  have "nat ?out \<le> unat slen"
  proof (cases "slen < of_int (bufmax - 1)")
    case no: False
    have u: "uint (of_int k :: u16) = k mod 65536" for k by (simp add: unsigned_of_int take_bit_eq_mod)
    then have "uint (of_int (bufmax - 1) :: u16) = bufmax - 1" using False assms(4) by (simp only: u) simp
    then have "bufmax - 1 \<le> uint slen" using no unfolding word_less_def by linarith
    then show ?thesis using no by (simp add: nat_le_iff)
  qed simp
  then have "p + 2 * nat ?out \<le> r + n" using assms(3) by linarith
  then obtain us where "read_units m p (nat ?out) = Some us" using read_units_mapped[OF assms(1,2)] by blast
  then show ?thesis using False unfolding copy_string_def Let_def by (cases dest) simp_all
qed (simp add: copy_string_def)

lemma block_string_mapped:
  assumes "mapped m r n" "r \<le> a" "e \<le> r + n" "bufmax \<le> 65536"
  shows "\<exists>x. block_string m dest a e k bufmax = Some x"
proof -
  obtain x where x: "skip_strings m e a k = Some x" "\<forall>b. x = Some b \<longrightarrow> a \<le> b"
    using skip_strings_mapped[OF assms(1-3)] by blast
  show ?thesis
  proof (cases x)
    case (Some b)
    show ?thesis
    proof (cases "e < b + 2")
      case False
      have b: "r \<le> b" using assms(2) x Some by force
      then obtain l where l: "rd16 m b = Some l" using rd16_mapped[OF assms(1), of b] False assms(3) by auto
      let ?l = "if e < b + 2 + unat l * 2 then of_nat ((e - (b + 2)) div 2) else l"
      have "unat l < 2 ^ LENGTH(16)" by (rule unsigned_less)
      then have "unat (of_nat ((e - (b + 2)) div 2) :: u16) = (e - (b + 2)) div 2" if "e < b + 2 + unat l * 2"
        using that by (intro unat_of_nat_small) (simp add: less_mult_imp_div_less)
      then have "b + 2 + 2 * unat ?l \<le> r + n" using False assms(3) by auto
      then obtain y where "copy_string m dest (b + 2) ?l bufmax = Some y" using copy_string_mapped[OF assms(1), of "b + 2" ?l bufmax dest] b assms(4) by auto
      then show ?thesis using x(1) Some False l by (simp add: block_string_def Let_def)
    qed (use x Some in \<open>simp add: block_string_def\<close>)
  qed (use x in \<open>simp add: block_string_def\<close>)
qed

lemma string_data_mapped:
  assumes m: "mapped m (base + unat rva0) (unat n)" and none: "string_data m dest base rva0 n l3 ident bufmax = None" and b: "bufmax \<le> 65536"
  shows "wrapping_entry m (base + unat rva0) rva0 n"
proof -
  let ?rsrc = "base + unat rva0"
  have l3: "l3 + 24 \<le> unat n" using none by (auto simp: string_data_def Let_def sizeof_ResDir_def sizeof_ResDirEnt_def split: if_splits)
  obtain d1 d2 off where rd: "rd16 m (?rsrc + l3 + 12) = Some d1" "rd16 m (?rsrc + l3 + 14) = Some d2" "rd32 m (?rsrc + l3 + 16 + 4) = Some off"
    using rd16_mapped[OF m, of "?rsrc + l3 + 12"] rd16_mapped[OF m, of "?rsrc + l3 + 14"] rd32_mapped[OF m, of "?rsrc + l3 + 16 + 4"] l3 by auto
  let ?o = "unat (off AND 0x7FFFFFFF)"
  have o: "?o + 16 \<le> unat n"
    using none rd by (auto simp: string_data_def Let_def sizeof_ResDir_def sizeof_ResDirEnt_def sizeof_ResData_def add.assoc split: if_splits)
  then obtain rva sz where d: "rd32 m (?rsrc + ?o) = Some rva" "rd32 m (?rsrc + ?o + 4) = Some sz"
    using rd32_mapped[OF m, of "?rsrc + ?o"] rd32_mapped[OF m, of "?rsrc + ?o + 4"] by auto
  have none': "block_string m dest (base + unat rva) (base + unat rva + unat sz) (unat (ident mod 16)) bufmax = None"
      and c: "rva0 \<le> rva" "rva - rva0 + sz \<le> n"
    using none rd d by (auto simp: string_data_def Let_def sizeof_ResDir_def sizeof_ResDirEnt_def sizeof_ResData_def add.assoc not_less split: if_splits)
  have "2 ^ 32 \<le> unat (rva - rva0) + unat sz"
  proof (rule ccontr)
    assume "\<not> 2 ^ 32 \<le> unat (rva - rva0) + unat sz"
    then have "unat (rva - rva0) + unat sz \<le> unat n" using c(2) unat_add_nowrap[of "rva - rva0" sz] by (simp add: word_le_nat_alt)
    moreover have "unat (rva - rva0) = unat rva - unat rva0" "unat rva0 \<le> unat rva" using c(1) by (simp_all add: unat_sub word_le_nat_alt)
    ultimately have "?rsrc \<le> base + unat rva" "base + unat rva + unat sz \<le> ?rsrc + unat n" by linarith+
    then show False using block_string_mapped[OF m] none' b by (metis option.distinct(1))
  qed
  then show ?thesis using o d unfolding wrapping_entry_def by blast
qed


text \<open>An image of one page with one data entry, given by its section.\<close>

definition small_image :: "bytes \<Rightarrow> image_memory" where
  "small_image sec = place 65536 (image_header_bytes 224 (length sec) @ sec) (\<lambda>_. None)"

definition wrapping_section :: bytes where
  "wrapping_section = dir_bytes [(6, subdir 24)] @ dir_bytes [(1, subdir 48)] @ dir_bytes [(0x409, 72)] @ data_bytes 296 (- 72)"

lemma small_image_parts:
  shows "pe_image_at (small_image sec) 65536 224 (length sec)" and "mapped (small_image sec) 65760 (length sec)"
    and "holds (small_image sec) 65760 sec"
proof -
  have l: "length (image_header_bytes 224 (length sec)) = 224" by (simp add: image_header_bytes_def)
  have h: "holds (small_image sec) 65536 (image_header_bytes 224 (length sec))" "holds (small_image sec) 65760 sec"
    using holds_place[of 65536 "image_header_bytes 224 (length sec) @ sec" "\<lambda>_. None"] l unfolding small_image_def by simp_all
  show "pe_image_at (small_image sec) 65536 224 (length sec)" using h(1) by (rule header_image)
  show "holds (small_image sec) 65760 sec" by (rule h(2))
  show "mapped (small_image sec) 65760 (length sec)" unfolding mapped_def small_image_def place_def using l by simp
qed


text \<open>The exception is real: here the call reads behind the image.\<close>

lemma read_units_unmapped: "m (a + 2 * j) = None \<Longrightarrow> j < k \<Longrightarrow> read_units m a k = None"
proof (induction k arbitrary: a j)
  case (Suc k)
  show ?case
  proof (cases j)
    case 0
    then have "rd16 m a = None" using Suc.prems by (simp add: rd16_def numeral_2_eq_2)
    then show ?thesis by simp
  next
    case (Suc i)
    then have "read_units m (a + 2) k = None" using Suc.prems Suc.IH[of "a + 2" i] \<open>j < Suc k\<close> \<open>m (a + 2 * j) = None\<close> by simp
    then show ?thesis by (cases "rd16 m a") simp_all
  qed
qed simp

lemma wrapping_entry_overreads:
  "load_string_impl (small_image wrapping_section) 0 0 65536 0 Wide_Dest 1000 = None"
proof -
  let ?m = "small_image wrapping_section"
  have n: "length wrapping_section = 88" by (simp add: wrapping_section_def)
  have h: "holds ?m 65760 (dir_bytes [(6, subdir 24)])" "holds ?m 65784 (dir_bytes [(1, subdir 48)])"
    "holds ?m 65808 (dir_bytes [(0x409, 72)])" "holds ?m 65832 (data_bytes 296 (- 72))"
    using small_image_parts(3)[of wrapping_section] unfolding wrapping_section_def by simp_all
  have dir: "resource_dir ?m 65536 = Some (Some (224, 88))" and mz: "rd16 ?m 65536 = Some 0x5A4D"
    using resource_dir_at[OF small_image_parts(1), of wrapping_section] by (simp_all add: n)
  have l2: "res_find_id ?m 65760 88 0 6 = Some (Some 24)"
    using res_find_holds[of ?m 65760 0 "[(6, subdir 24)]" 88 6] h(1) subdir_off[of 24] by (simp add: ent_match_def ent_result_def word_le_nat_alt)
  have l3: "res_find_id ?m 65760 88 24 1 = Some (Some 48)"
    using res_find_holds[of ?m 65760 24 "[(1, subdir 48)]" 88 1] h(2) subdir_off[of 48] by (simp add: ent_match_def ent_result_def word_le_nat_alt)
  have rd: "rd16 ?m 65820 = Some 0" "rd16 ?m 65822 = Some 1" "rd32 ?m 65828 = Some 72"
    using h(3) unfolding dir_bytes_def by (auto simp: rd16_holds rd32_holds simp del: le_bytes.simps)
  have rd2: "rd32 ?m 65832 = Some 296" "rd32 ?m 65836 = Some (- 72)"
    using h(4) unfolding data_bytes_def by (auto simp: rd32_holds simp del: le_bytes.simps)
  have "le_bytes 4 (296 :: u32) = le_bytes 2 (296 :: u16) @ [0, 0]" by code_simp
  then have "holds ?m 65832 (le_bytes 2 (296 :: u16))" using h(4) unfolding data_bytes_def by simp
  then have len: "rd16 ?m 65832 = Some 296" by (rule rd16_holds)
  have "?m 65848 = None" by (simp add: small_image_def place_def n) (simp add: image_header_bytes_def)
  then have u: "read_units ?m 65834 296 = None" using read_units_unmapped[of ?m 65834 7 296] by simp
  show ?thesis
    by (simp add: load_string_impl_def string_base_def mz dir l2 l3 string_data_def sizeof_ResDir_def sizeof_ResDirEnt_def sizeof_ResData_def
      rd rd2 block_string_def len copy_string_def u Let_def)
qed

end
