(* ===== verification/Shim_Veh.thy ===== *)
theory Shim_Veh
  imports Shim_Types "HOL-Library.Monad_Syntax"
begin

text \<open>
  Vectored exception handlers (shim_kernel32_veh.hpp) and the functions that dispatch to them
  (shim_kernel32_except.hpp).  The handlers are a doubly linked list of nodes in an explicit heap, a pointer is
  an address or \<open>None\<close>; an operation that dereferences a pointer the heap does not hold, or walks for ever, has
  no result.  The handlers and the filter are parameters that may change the whole program's state, the list
  included.
\<close>

section \<open>The list\<close>

record 'h VEHEntry =
  v_prev :: "nat option"
  v_next :: "nat option"
  v_fn :: 'h

record 'h veh =
  veh_heap :: "nat \<Rightarrow> 'h VEHEntry option"
  g_veh_head :: "nat option"
  g_veh_tail :: "nat option"
  veh_last_error :: u32

definition veh_start :: "'h veh" where
  "veh_start = \<lparr>veh_heap = Map.empty, g_veh_head = None, g_veh_tail = None, veh_last_error = 0\<rparr>"

text \<open>Writing a field through a pointer.\<close>

definition store_node :: "nat \<Rightarrow> ('h VEHEntry \<Rightarrow> 'h VEHEntry) \<Rightarrow> 'h veh \<Rightarrow> 'h veh option" where
  "store_node a f s = (case veh_heap s a of None \<Rightarrow> None | Some n \<Rightarrow> Some (s\<lparr>veh_heap := (veh_heap s)(a \<mapsto> f n)\<rparr>))"

definition store_if :: "nat option \<Rightarrow> ('h VEHEntry \<Rightarrow> 'h VEHEntry) \<Rightarrow> 'h veh \<Rightarrow> 'h veh option" where
  "store_if p f s = (case p of None \<Rightarrow> Some s | Some a \<Rightarrow> store_node a f s)"

text \<open>\<open>mem\<close> is what \<^verbatim>\<open>malloc\<close> returns, a null handler is \<open>None\<close>.\<close>

definition AddVectoredExceptionHandler :: "nat option \<Rightarrow> u32 \<Rightarrow> 'h option \<Rightarrow> 'h veh \<Rightarrow> (nat option \<times> 'h veh) option" where
  "AddVectoredExceptionHandler mem first handler s = (case handler of
     None \<Rightarrow> Some (None, s\<lparr>veh_last_error := ERROR_INVALID_PARAMETER\<rparr>)
   | Some h \<Rightarrow> (case mem of
       None \<Rightarrow> Some (None, s\<lparr>veh_last_error := ERROR_OUTOFMEMORY\<rparr>)
     | Some e \<Rightarrow>
         if first \<noteq> 0 then do {
           let s1 = s\<lparr>veh_heap := (veh_heap s)(e \<mapsto> \<lparr>v_prev = None, v_next = g_veh_head s, v_fn = h\<rparr>)\<rparr>;
           s2 \<leftarrow> store_if (g_veh_head s1) (\<lambda>n. n\<lparr>v_prev := Some e\<rparr>) s1;
           Some (Some e, s2\<lparr>g_veh_head := Some e, g_veh_tail := (if g_veh_tail s2 = None then Some e else g_veh_tail s2)\<rparr>) }
         else do {
           let s1 = s\<lparr>veh_heap := (veh_heap s)(e \<mapsto> \<lparr>v_prev = g_veh_tail s, v_next = None, v_fn = h\<rparr>)\<rparr>;
           s2 \<leftarrow> store_if (g_veh_tail s1) (\<lambda>n. n\<lparr>v_next := Some e\<rparr>) s1;
           Some (Some e, s2\<lparr>g_veh_tail := Some e, g_veh_head := (if g_veh_head s2 = None then Some e else g_veh_head s2)\<rparr>) }))"

text \<open>The search compares addresses only, so that a stale handle is never dereferenced.\<close>

partial_function (option) veh_find :: "(nat \<Rightarrow> 'h VEHEntry option) \<Rightarrow> nat \<Rightarrow> nat option \<Rightarrow> bool option" where
  "veh_find heap e p = (case p of
     None \<Rightarrow> Some False
   | Some a \<Rightarrow> if a = e then Some True else (case heap a of None \<Rightarrow> None | Some n \<Rightarrow> veh_find heap e (v_next n)))"

definition RemoveVectoredExceptionHandler :: "nat option \<Rightarrow> 'h veh \<Rightarrow> (u32 \<times> 'h veh) option" where
  "RemoveVectoredExceptionHandler handle s = (case handle of
     None \<Rightarrow> Some (0, s)
   | Some e \<Rightarrow> do {
       found \<leftarrow> veh_find (veh_heap s) e (g_veh_head s);
       (if \<not> found then Some (0, s)
        else do {
          n \<leftarrow> veh_heap s e;
          s1 \<leftarrow> (if v_prev n \<noteq> None then store_if (v_prev n) (\<lambda>m. m\<lparr>v_next := v_next n\<rparr>) s
            else Some (s\<lparr>g_veh_head := v_next n\<rparr>));
          n' \<leftarrow> veh_heap s1 e;
          s2 \<leftarrow> (if v_next n' \<noteq> None then store_if (v_next n') (\<lambda>m. m\<lparr>v_prev := v_prev n'\<rparr>) s1
            else Some (s1\<lparr>g_veh_tail := v_prev n'\<rparr>));
          Some (1, s2\<lparr>veh_heap := (veh_heap s2)(e := None)\<rparr>) }) })"

text \<open>The first \<open>k\<close> handlers from a pointer on.\<close>

fun veh_snapshot :: "(nat \<Rightarrow> 'h VEHEntry option) \<Rightarrow> nat \<Rightarrow> nat option \<Rightarrow> 'h list option" where
  "veh_snapshot heap 0 p = Some []"
| "veh_snapshot heap (Suc k) None = Some []"
| "veh_snapshot heap (Suc k) (Some a) = (case heap a of
     None \<Rightarrow> None
   | Some n \<Rightarrow> map_option (\<lambda>fs. v_fn n # fs) (veh_snapshot heap k (v_next n)))"

text \<open>The calls, with the lock released: \<open>run h x w\<close> is the answer of a handler and the state it leaves.\<close>

fun call_handlers :: "('h \<Rightarrow> 'x \<Rightarrow> 'w \<Rightarrow> int \<times> 'w) \<Rightarrow> 'x \<Rightarrow> 'h list \<Rightarrow> 'w \<Rightarrow> int \<times> 'w" where
  "call_handlers run x [] w = (0, w)"
| "call_handlers run x (h # hs) w = (case run h x w of (r, w') \<Rightarrow> if r = - 1 then (r, w') else call_handlers run x hs w')"

definition run_vectored_handlers :: "('h \<Rightarrow> 'x \<Rightarrow> 'w \<Rightarrow> int \<times> 'w) \<Rightarrow> ('w \<Rightarrow> 'h veh) \<Rightarrow> 'x \<Rightarrow> 'w \<Rightarrow> (int \<times> 'w) option" where
  "run_vectored_handlers run veh_of x w =
     map_option (\<lambda>hs. call_handlers run x hs w) (veh_snapshot (veh_heap (veh_of w)) 32 (g_veh_head (veh_of w)))"

section \<open>Raising and filtering\<close>

text \<open>What a call does in the end: it returns to its caller or ends the process.\<close>

datatype outcome = Returned int | Exited int

record ExceptionRecord =
  x_code :: u32
  x_flags :: u32
  x_nparams :: u32
  x_params :: "u64 list"

text \<open>\<open>args\<close> is \<open>None\<close> for the null pointer, else what the memory at its index holds.\<close>

definition exception_record :: "u32 \<Rightarrow> u32 \<Rightarrow> u32 \<Rightarrow> (nat \<Rightarrow> u64) option \<Rightarrow> ExceptionRecord" where
  "exception_record code flags nargs args = (
     let n = (if nargs > 15 then 15 else nargs) in
     \<lparr>x_code = code, x_flags = flags, x_nparams = n,
      x_params = (case args of None \<Rightarrow> replicate 15 0 | Some a \<Rightarrow> map a [0..<unat n] @ replicate (15 - unat n) 0)\<rparr>)"

definition RaiseException :: "('h \<Rightarrow> ExceptionRecord \<Rightarrow> 'w \<Rightarrow> int \<times> 'w) \<Rightarrow> ('w \<Rightarrow> 'h veh) \<Rightarrow> u32 \<Rightarrow> u32 \<Rightarrow> u32 \<Rightarrow> (nat \<Rightarrow> u64) option \<Rightarrow> 'w \<Rightarrow>
    (outcome \<times> 'w) option" where
  "RaiseException run veh_of code flags nargs args w = do {
     (vr, w') \<leftarrow> run_vectored_handlers run veh_of (exception_record code flags nargs args) w;
     Some (if vr = - 1 then Returned 0 else if flags AND 1 \<noteq> 0 then Exited (sint code) else Returned 0, w') }"

text \<open>The top-level filter is a cell of its own, swapped atomically.\<close>

definition SetUnhandledExceptionFilter :: "'f option \<Rightarrow> 'f option \<Rightarrow> 'f option \<times> 'f option" where
  "SetUnhandledExceptionFilter new cell = (cell, new)"

definition UnhandledExceptionFilter :: "('h \<Rightarrow> 'x \<Rightarrow> 'w \<Rightarrow> int \<times> 'w) \<Rightarrow> ('w \<Rightarrow> 'h veh) \<Rightarrow> ('w \<Rightarrow> 'f option) \<Rightarrow> ('f \<Rightarrow> 'x \<Rightarrow> 'w \<Rightarrow> int \<times> 'w) \<Rightarrow>
    'x \<Rightarrow> 'w \<Rightarrow> (outcome \<times> 'w) option" where
  "UnhandledExceptionFilter run veh_of cell_of filt x w = do {
     (vr, w1) \<leftarrow> run_vectored_handlers run veh_of x w;
     Some (if vr = - 1 then (Returned vr, w1)
       else (case cell_of w1 of
           None \<Rightarrow> (Exited 1, w1)
         | Some f \<Rightarrow> (case filt f x w1 of (r, w2) \<Rightarrow> if r = - 1 then (Returned r, w2) else (Exited 1, w2)))) }"

text \<open>
  The unwinder's stubs, and the module a code address lies in: \<open>dladdr\<close> is the loader's answer, a base address if there is one.
\<close>

definition RtlLookupFunctionEntry :: "u64 \<Rightarrow> u64 option \<Rightarrow> u64 option \<times> u64 option" where
  "RtlLookupFunctionEntry pc base = (None, (case base of None \<Rightarrow> None | Some b \<Rightarrow> Some 0))"

definition RtlPcToFileHeader :: "(u64 \<Rightarrow> u64 option) \<Rightarrow> u64 \<Rightarrow> u64 option" where
  "RtlPcToFileHeader dladdr pc = (case dladdr pc of Some b \<Rightarrow> (if b \<noteq> 0 then Some b else None) | None \<Rightarrow> None)"

text \<open>The context record of 1232 bytes: flags and the three registers.\<close>

definition RtlCaptureContext :: "u64 \<Rightarrow> u64 \<Rightarrow> u64 \<Rightarrow> bytes" where
  "RtlCaptureContext rsp rbp rip = le_bytes 4 (0x10001f :: u32) @ replicate 148 0 @ le_bytes 8 rsp @ le_bytes 8 rbp @ replicate 80 0 @
     le_bytes 8 rip @ replicate 976 0"

section \<open>The list that the nodes represent\<close>

text \<open>
  A list of addresses with their handlers: each node points to its neighbours, head and tail to the ends, and
  every allocated node is on the list.
\<close>

definition first_addr :: "(nat \<times> 'h) list \<Rightarrow> nat option" where
  "first_addr xs = (case xs of [] \<Rightarrow> None | x # _ \<Rightarrow> Some (fst x))"

definition last_addr :: "nat option \<Rightarrow> (nat \<times> 'h) list \<Rightarrow> nat option" where
  "last_addr p xs = (if xs = [] then p else Some (fst (last xs)))"

text \<open>A segment between the node before it and the node after it.\<close>

fun dll :: "(nat \<Rightarrow> 'h VEHEntry option) \<Rightarrow> nat option \<Rightarrow> (nat \<times> 'h) list \<Rightarrow> nat option \<Rightarrow> bool" where
  "dll heap p [] q \<longleftrightarrow> True"
| "dll heap p ((a, h) # xs) q \<longleftrightarrow>
     heap a = Some \<lparr>v_prev = p, v_next = (if xs = [] then q else first_addr xs), v_fn = h\<rparr> \<and> dll heap (Some a) xs q"

definition veh_rep :: "'h veh \<Rightarrow> (nat \<times> 'h) list \<Rightarrow> bool" where
  "veh_rep s xs \<longleftrightarrow> distinct (map fst xs) \<and> dll (veh_heap s) None xs None \<and> g_veh_head s = first_addr xs \<and>
     g_veh_tail s = last_addr None xs \<and> dom (veh_heap s) = fst ` set xs"

lemma first_addr_simps [simp]:
  "first_addr [] = None" "first_addr (x # xs) = Some (fst x)" "xs \<noteq> [] \<Longrightarrow> first_addr (xs @ ys) = first_addr xs"
  by (auto simp: first_addr_def split: list.splits)

lemma last_addr_simps [simp]:
  "last_addr p [] = p" "last_addr p (xs @ [x]) = Some (fst x)" "last_addr p (x # xs) = last_addr (Some (fst x)) xs"
  by (auto simp: last_addr_def)

lemma dll_cong: "(\<And>x. x \<in> fst ` set xs \<Longrightarrow> h' x = h x) \<Longrightarrow> dll h' p xs q = dll h p xs q"
  by (induction xs arbitrary: p) auto

lemma dll_append:
  "dll h p (xs @ ys) q \<longleftrightarrow> dll h p xs (if ys = [] then q else first_addr ys) \<and> dll h (last_addr p xs) ys q"
proof (induction xs arbitrary: p)
  case (Cons x xs)
  then show ?case by (cases x; cases "xs = []"; cases "ys = []") simp_all
qed simp

text \<open>Redirecting the pointer before a segment, and the one after it.\<close>

lemma dll_set_prev:
  assumes "dll h p ((a, f) # xs) q" "a \<notin> fst ` set xs" "h a = Some n"
  shows "dll (h(a \<mapsto> n\<lparr>v_prev := p'\<rparr>)) p' ((a, f) # xs) q"
proof -
  have "dll (h(a \<mapsto> n\<lparr>v_prev := p'\<rparr>)) (Some a) xs q = dll h (Some a) xs q" using assms(2) by (intro dll_cong) auto
  then show ?thesis using assms by simp
qed

lemma dll_set_next:
  assumes "dll h p (xs @ [(a, f)]) q" "a \<notin> fst ` set xs" "h a = Some n"
  shows "dll (h(a \<mapsto> n\<lparr>v_next := q'\<rparr>)) p (xs @ [(a, f)]) q'"
proof -
  have "dll (h(a \<mapsto> n\<lparr>v_next := q'\<rparr>)) p xs (Some a) = dll h p xs (Some a)" using assms(2) by (intro dll_cong) auto
  then show ?thesis using assms by (simp add: dll_append)
qed

lemma veh_rep_start: "veh_rep veh_start []"
  by (simp add: veh_rep_def veh_start_def)

text \<open>The operations on the abstract list.\<close>

fun abs_add :: "nat option \<Rightarrow> u32 \<Rightarrow> 'h option \<Rightarrow> (nat \<times> 'h) list \<Rightarrow> (nat \<times> 'h) list" where
  "abs_add (Some e) first (Some h) xs = (if first \<noteq> 0 then (e, h) # xs else xs @ [(e, h)])"
| "abs_add _ first _ xs = xs"

definition abs_remove :: "nat option \<Rightarrow> (nat \<times> 'h) list \<Rightarrow> (nat \<times> 'h) list" where
  "abs_remove e xs = [x \<leftarrow> xs. Some (fst x) \<noteq> e]"

lemma add_first_rep:
  assumes r: "veh_rep s xs" and e: "veh_heap s e = None" and f: "first \<noteq> 0"
  shows "\<exists>s'. AddVectoredExceptionHandler (Some e) first (Some h) s = Some (Some e, s') \<and> veh_rep s' ((e, h) # xs)"
proof (cases xs)
  case Nil
  then have s: "g_veh_head s = None" "g_veh_tail s = None" "dom (veh_heap s) = {}" using r by (auto simp: veh_rep_def)
  then show ?thesis using Nil f by (simp add: AddVectoredExceptionHandler_def store_if_def veh_rep_def)
next
  case (Cons y ys)
  obtain b g where y: "y = (b, g)" by (cases y)
  have b: "veh_heap s b = Some \<lparr>v_prev = None, v_next = (if ys = [] then None else first_addr ys), v_fn = g\<rparr>"
    and d: "distinct (b # map fst ys)" "dll (veh_heap s) None ((b, g) # ys) None" "e \<notin> fst ` set xs"
    using r e Cons y by (auto simp: veh_rep_def)
  have eb: "e \<noteq> b" using e b by auto
  define h1 where "h1 = (veh_heap s)(e \<mapsto> \<lparr>v_prev = None, v_next = Some b, v_fn = h\<rparr>)"
  have "dll h1 None ((b, g) # ys) None = dll (veh_heap s) None ((b, g) # ys) None"
    using d(3) Cons y by (intro dll_cong) (auto simp: h1_def)
  then have "dll (h1(b \<mapsto> (the (h1 b))\<lparr>v_prev := Some e\<rparr>)) (Some e) ((b, g) # ys) None"
    using d b eb by (intro dll_set_prev[where p = None]) (auto simp: h1_def)
  moreover have "g_veh_head s = Some b" "g_veh_tail s \<noteq> None" "g_veh_tail s = last_addr None xs" "dom (veh_heap s) = fst ` set xs"
    using r Cons y by (auto simp: veh_rep_def last_addr_def)
  ultimately show ?thesis using b eb d Cons y r f
    by (auto simp: AddVectoredExceptionHandler_def store_if_def store_node_def veh_rep_def h1_def last_addr_def)
qed

lemma add_last_rep:
  assumes r: "veh_rep s xs" and e: "veh_heap s e = None"
  shows "\<exists>s'. AddVectoredExceptionHandler (Some e) 0 (Some h) s = Some (Some e, s') \<and> veh_rep s' (xs @ [(e, h)])"
proof (cases xs rule: rev_cases)
  case Nil
  then have s: "g_veh_head s = None" "g_veh_tail s = None" "dom (veh_heap s) = {}" using r by (auto simp: veh_rep_def)
  then show ?thesis using Nil by (simp add: AddVectoredExceptionHandler_def store_if_def veh_rep_def)
next
  case (snoc ys y)
  obtain b g where y: "y = (b, g)" by (cases y)
  have b: "veh_heap s b = Some \<lparr>v_prev = last_addr None ys, v_next = None, v_fn = g\<rparr>"
    and d: "distinct (map fst ys)" "b \<notin> fst ` set ys" "dll (veh_heap s) None (ys @ [(b, g)]) None" "e \<notin> fst ` set xs"
    using r e snoc y by (auto simp: veh_rep_def dll_append)
  have eb: "e \<noteq> b" using e b by auto
  define h1 where "h1 = (veh_heap s)(e \<mapsto> \<lparr>v_prev = Some b, v_next = None, v_fn = h\<rparr>)"
  have "dll h1 None (ys @ [(b, g)]) None = dll (veh_heap s) None (ys @ [(b, g)]) None"
    using d(4) snoc y by (intro dll_cong) (auto simp: h1_def)
  then have seg: "dll (h1(b \<mapsto> (the (h1 b))\<lparr>v_next := Some e\<rparr>)) None (ys @ [(b, g)]) (Some e)"
    using d b eb by (intro dll_set_next[where q = None]) (auto simp: h1_def)
  have ends: "g_veh_tail s = Some b" "g_veh_head s \<noteq> None" "g_veh_head s = first_addr xs" "dom (veh_heap s) = fst ` set xs"
    using r snoc y by (auto simp: veh_rep_def first_addr_def split: list.splits)
  let ?xs = "(ys @ [(b, g)]) @ [(e, h)]"
  have "dll (h1(b \<mapsto> (the (h1 b))\<lparr>v_next := Some e\<rparr>)) None ?xs None"
    using seg eb by (subst dll_append) (simp add: h1_def)
  moreover have "first_addr ?xs = first_addr xs" unfolding snoc y by (rule first_addr_simps(3)) simp
  moreover have "last_addr None ?xs = Some e" by (simp only: last_addr_simps fst_conv)
  ultimately have "veh_rep (s\<lparr>veh_heap := h1(b \<mapsto> (the (h1 b))\<lparr>v_next := Some e\<rparr>), g_veh_tail := Some e, g_veh_head := g_veh_head s\<rparr>) ?xs"
    using ends d snoc y eb by (auto simp: veh_rep_def h1_def)
  then show ?thesis using ends b eb snoc y
    by (auto simp: AddVectoredExceptionHandler_def store_if_def store_node_def h1_def)
qed

lemma veh_find_dll:
  "dll heap p xs None \<Longrightarrow> veh_find heap e (first_addr xs) = Some (e \<in> fst ` set xs)"
proof (induction xs arbitrary: p)
  case Nil
  then show ?case by (simp add: veh_find.simps)
next
  case (Cons x xs)
  then show ?case by (cases x; cases "xs = []") (auto simp: veh_find.simps[of heap e "Some _"] veh_find.simps[of heap e None])
qed

lemma snapshot_dll:
  "dll heap p xs None \<Longrightarrow> veh_snapshot heap k (first_addr xs) = Some (map snd (take k xs))"
proof (induction xs arbitrary: p k)
  case Nil
  then show ?case by (cases k) auto
next
  case (Cons x xs)
  then show ?case by (cases x; cases k; cases "xs = []") auto
qed

lemma remove_rep:
  assumes r: "veh_rep s xs" and e: "e \<in> fst ` set xs"
  shows "\<exists>s'. RemoveVectoredExceptionHandler (Some e) s = Some (1, s') \<and> veh_rep s' (abs_remove (Some e) xs)"
proof -
  obtain ys f zs where xs: "xs = ys @ (e, f) # zs" using e by (auto dest!: split_list)
  note rep = r[unfolded veh_rep_def]
  have d: "distinct (map fst ys)" "distinct (map fst zs)" "e \<notin> fst ` set ys" "e \<notin> fst ` set zs" "fst ` set ys \<inter> fst ` set zs = {}"
    using rep xs by auto
  have dl: "dll (veh_heap s) None ys (Some e)" "dll (veh_heap s) (Some e) zs None"
      "veh_heap s e = Some \<lparr>v_prev = last_addr None ys, v_next = first_addr zs, v_fn = f\<rparr>"
    using rep xs by (auto simp: dll_append)
  have hd: "g_veh_head s = (if ys = [] then Some e else first_addr ys)" "g_veh_tail s = (if zs = [] then Some e else last_addr None zs)"
    using rep xs by (auto simp: last_addr_def)
  have found: "veh_find (veh_heap s) e (g_veh_head s) = Some True" using veh_find_dll[of "veh_heap s" None xs e] rep e by simp
  have abs: "abs_remove (Some e) xs = ys @ zs" 
  proof -
    have "filter (\<lambda>x. fst x \<noteq> e) ys = ys" "filter (\<lambda>x. fst x \<noteq> e) zs = zs" using d(3,4) by (force simp: filter_id_conv)+
    then show ?thesis by (simp add: abs_remove_def xs)
  qed
  define h1 where "h1 = (if ys = [] then veh_heap s else (veh_heap s)(fst (last ys) \<mapsto> (the (veh_heap s (fst (last ys))))\<lparr>v_next := first_addr zs\<rparr>))"
  define h2 where "h2 = (if zs = [] then h1 else h1(fst (hd zs) \<mapsto> (the (h1 (fst (hd zs))))\<lparr>v_prev := last_addr None ys\<rparr>))"
  have ys1: "dll h1 None ys (first_addr zs)"
  proof (cases ys rule: rev_cases)
    case (snoc ys' y)
    then show ?thesis using dl(1) d(1,3) dll_set_next[of "veh_heap s" None ys' "fst y" "snd y" "Some e" "the (veh_heap s (fst y))" "first_addr zs"]
      by (cases y) (auto simp: h1_def dll_append)
  qed simp
  have apart: "ys \<noteq> [] \<Longrightarrow> fst (last ys) \<notin> fst ` set zs" "zs \<noteq> [] \<Longrightarrow> fst (hd zs) \<notin> fst ` set ys"
    using d(5) by (metis IntI empty_iff imageI last_in_set hd_in_set)+
  then have apart': "x \<in> fst ` set zs \<Longrightarrow> ys \<noteq> [] \<Longrightarrow> x \<noteq> fst (last ys)" "x \<in> fst ` set ys \<Longrightarrow> zs \<noteq> [] \<Longrightarrow> x \<noteq> fst (hd zs)" for x by blast+
  have h1': "h1 x = veh_heap s x" if "x \<in> fst ` set zs" for x using apart'(1)[OF that] by (simp add: h1_def)
  have h2': "h2 x = h1 x" if "x \<in> fst ` set ys" for x using apart'(2)[OF that] by (simp add: h2_def)
  have zs1: "dll h1 (Some e) zs None"
    using dl(2) dll_cong[of zs h1 "veh_heap s" "Some e" None] h1' by blast
  have zs2: "dll h2 (last_addr None ys) zs None"
  proof (cases zs)
    case (Cons z zs')
    then show ?thesis using zs1 d(2) dll_set_prev[of h1 "Some e" "fst z" "snd z" zs' None "the (h1 (fst z))" "last_addr None ys"]
      by (cases z) (auto simp: h2_def)
  qed simp
  have ys2: "dll h2 None ys (first_addr zs)" using ys1 dll_cong[of ys h2 h1 None "first_addr zs"] h2' by blast
  define s' where "s' = s\<lparr>veh_heap := h2(e := None), g_veh_head := (if ys = [] then first_addr zs else g_veh_head s),
    g_veh_tail := (if zs = [] then last_addr None ys else g_veh_tail s)\<rparr>"
  have "dll (h2(e := None)) None (ys @ zs) None"
  proof -
    have "dll (h2(e := None)) None ys (first_addr zs)" "dll (h2(e := None)) (last_addr None ys) zs None"
      using ys2 zs2 d(3,4) by (subst dll_cong[where h = h2]; auto)+
    then show ?thesis by (auto simp: dll_append)
  qed
  moreover have "dom (h2(e := None)) = fst ` set (ys @ zs)"
  proof -
    have "dom h1 = dom (veh_heap s)" using rep xs by (cases ys rule: rev_cases) (auto simp: h1_def)
    moreover have "dom h2 = dom h1" using calculation rep xs by (cases zs) (auto simp: h2_def)
    ultimately show ?thesis using rep xs d(3,4) by auto
  qed
  moreover have "g_veh_head s' = first_addr (ys @ zs)" "g_veh_tail s' = last_addr None (ys @ zs)"
    using hd by (auto simp: s'_def last_addr_def)
  ultimately have "veh_rep s' (ys @ zs)" using d by (auto simp: veh_rep_def s'_def)
  moreover have "RemoveVectoredExceptionHandler (Some e) s = Some (1, s')"
  proof -
    define s1 where "s1 = s\<lparr>veh_heap := h1, g_veh_head := (if ys = [] then first_addr zs else g_veh_head s)\<rparr>"
    define n where "n = \<lparr>v_prev = last_addr None ys, v_next = first_addr zs, v_fn = f\<rparr>"
    have l: "fst (last ys) \<in> fst ` set ys" if "ys \<noteq> []" using that by simp
    have z: "fst (hd zs) \<in> fst ` set zs" if "zs \<noteq> []" using that by simp
    have dom: "a \<in> fst ` set xs \<Longrightarrow> veh_heap s a \<noteq> None" for a using rep by blast
    have dl': "ys \<noteq> [] \<longrightarrow> veh_heap s (fst (last ys)) \<noteq> None" using l dom[of "fst (last ys)"] xs by (simp add: image_Un)
    have 1: "(if v_prev n \<noteq> None then store_if (v_prev n) (\<lambda>m. m\<lparr>v_next := v_next n\<rparr>) s else Some (s\<lparr>g_veh_head := v_next n\<rparr>)) = Some s1"
      using dl' by (auto simp: n_def s1_def h1_def last_addr_def store_if_def store_node_def split: option.splits)
    have he: "veh_heap s1 e = Some n" using l d(3) dl(3) by (auto simp: s1_def h1_def n_def)
    have dom1: "a \<in> fst ` set zs \<Longrightarrow> h1 a \<noteq> None" for a using dom xs by (auto simp: h1_def)
    have dz: "zs \<noteq> [] \<longrightarrow> h1 (fst (hd zs)) \<noteq> None" using z dom1 by blast
    have fz: "first_addr zs = (if zs = [] then None else Some (fst (hd zs)))" by (cases zs) auto
    have 2: "(if v_next n \<noteq> None then store_if (v_next n) (\<lambda>m. m\<lparr>v_prev := v_prev n\<rparr>) s1 else Some (s1\<lparr>g_veh_tail := v_prev n\<rparr>)) =
        Some (s1\<lparr>veh_heap := h2, g_veh_tail := (if zs = [] then last_addr None ys else g_veh_tail s)\<rparr>)"
      using dz by (auto simp: n_def s1_def h2_def fz store_if_def store_node_def split: option.splits)
    have s'_eq: "s' = s1\<lparr>veh_heap := h2(e := None), g_veh_tail := (if zs = [] then last_addr None ys else g_veh_tail s)\<rparr>"
      by (simp add: s'_def s1_def)
    show ?thesis using found dl(3) 1 2 he unfolding n_def[symmetric] s'_eq
      by (simp add: RemoveVectoredExceptionHandler_def del: not_None_eq)
  qed
  ultimately show ?thesis using abs by simp
qed

section \<open>Properties\<close>

text \<open>One call on the nodes and on the abstract list: what is returned, and the state after it.\<close>

datatype 'h veh_op = Veh_Add "nat option" u32 "'h option" | Veh_Remove "nat option"

fun veh_exec :: "'h veh_op \<Rightarrow> 'h veh \<Rightarrow> 'h veh option" where
  "veh_exec (Veh_Add mem first h) s = map_option snd (AddVectoredExceptionHandler mem first h s)"
| "veh_exec (Veh_Remove e) s = map_option snd (RemoveVectoredExceptionHandler e s)"

fun abs_exec :: "'h veh_op \<Rightarrow> (nat \<times> 'h) list \<Rightarrow> (nat \<times> 'h) list" where
  "abs_exec (Veh_Add mem first h) xs = abs_add mem first h xs"
| "abs_exec (Veh_Remove e) xs = abs_remove e xs"

text \<open>\<^verbatim>\<open>malloc\<close> returns memory that is not in use.\<close>

fun fresh_ops :: "'h veh_op list \<Rightarrow> (nat \<times> 'h) list \<Rightarrow> bool" where
  "fresh_ops [] xs = True"
| "fresh_ops (op # ops) xs = ((case op of Veh_Add (Some e) first (Some h) \<Rightarrow> e \<notin> fst ` set xs | _ \<Rightarrow> True) \<and> fresh_ops ops (abs_exec op xs))"

fun veh_execs :: "'h veh_op list \<Rightarrow> 'h veh \<Rightarrow> 'h veh option" where
  "veh_execs [] s = Some s"
| "veh_execs (op # ops) s = do { s' \<leftarrow> veh_exec op s; veh_execs ops s' }"

lemma veh_rep_error [simp]: "veh_rep (s\<lparr>veh_last_error := e\<rparr>) xs = veh_rep s xs"
  by (simp add: veh_rep_def)

lemma veh_exec_rep:
  assumes r: "veh_rep s xs" and f: "fresh_ops (op # ops) xs"
  shows "\<exists>s'. veh_exec op s = Some s' \<and> veh_rep s' (abs_exec op xs)"
proof (cases op)
  case (Veh_Add mem first h)
  show ?thesis
  proof (cases "h = None \<or> mem = None")
    case True
    then show ?thesis using r Veh_Add by (cases h; cases mem) (auto simp: AddVectoredExceptionHandler_def)
  next
    case False
    then obtain e g where m: "mem = Some e" "h = Some g" by auto
    then have "veh_heap s e = None" using f r Veh_Add by (auto simp: veh_rep_def)
    then show ?thesis using add_first_rep[OF r, of e first g] add_last_rep[OF r, of e g] Veh_Add m by (cases "first = 0") auto
  qed
next
  case (Veh_Remove e)
  show ?thesis
  proof (cases "\<exists>a. e = Some a \<and> a \<in> fst ` set xs")
    case True
    then show ?thesis using remove_rep[OF r] Veh_Remove by fastforce
  next
    case False
    then have "abs_remove e xs = xs" by (force simp: abs_remove_def filter_id_conv)
    moreover have "RemoveVectoredExceptionHandler e s = Some (0, s)"
      using False r veh_find_dll[of "veh_heap s" None xs] by (cases e) (auto simp: RemoveVectoredExceptionHandler_def veh_rep_def)
    ultimately show ?thesis using Veh_Remove r by simp
  qed
qed

text \<open>
  C33: The doubly linked list implements a list of handlers: after any sequence of additions at either end and of
  removals, by valid, stale or null handles, no freed or unknown node has been dereferenced, and head,
  tail and all pointers represent the abstract list.
\<close>

theorem veh_refines_list:
  assumes "fresh_ops ops []"
  shows "\<exists>s. veh_execs ops veh_start = Some s \<and> veh_rep s (fold abs_exec ops [])"
proof -
  have "veh_rep s xs \<Longrightarrow> fresh_ops ops xs \<Longrightarrow> \<exists>s'. veh_execs ops s = Some s' \<and> veh_rep s' (fold abs_exec ops xs)" for s xs
  proof (induction ops arbitrary: s xs)
    case (Cons op ops)
    obtain s1 where "veh_exec op s = Some s1" "veh_rep s1 (abs_exec op xs)" using veh_exec_rep[OF Cons.prems] by blast
    then show ?case using Cons.IH[of s1 "abs_exec op xs"] Cons.prems(2) by simp
  qed simp
  then show ?thesis using assms veh_rep_start by blast
qed

theorem veh_refines_list_witness:
  "\<exists>s. veh_execs [Veh_Add (Some 16) 0 (Some ''a''), Veh_Add (Some 48) 1 (Some ''b''), Veh_Add (Some 80) 0 (Some ''c''), Veh_Remove (Some 16),
      Veh_Remove (Some 16)] veh_start = Some s \<and> veh_rep s [(48, ''b''), (80, ''c'')]"
  using veh_refines_list[of "[Veh_Add (Some 16) 0 (Some ''a''), Veh_Add (Some 48) 1 (Some ''b''), Veh_Add (Some 80) 0 (Some ''c''),
    Veh_Remove (Some 16), Veh_Remove (Some 16)]"] by (simp add: abs_remove_def)

text \<open>
  A dispatch calls the handlers in the order of the list until one of them continues execution, but never
  more than 32 of them: those behind are passed over without a word.
\<close>

theorem dispatch_order:
  assumes "veh_rep (veh_of w) xs"
  shows "run_vectored_handlers run veh_of x w = Some (call_handlers run x (map snd (take 32 xs)) w)"
  using assms snapshot_dll[of "veh_heap (veh_of w)" None xs 32] by (simp add: run_vectored_handlers_def veh_rep_def)

definition veh_one :: "string veh" where
  "veh_one = \<lparr>veh_heap = [16 \<mapsto> \<lparr>v_prev = None, v_next = None, v_fn = ''a''\<rparr>], g_veh_head = Some 16, g_veh_tail = Some 16, veh_last_error = 0\<rparr>"

theorem dispatch_order_witness: "run_vectored_handlers (\<lambda>h x w. (- 1, w + 1)) (\<lambda>w. veh_one) () (0 :: nat) = Some (- 1, 1)"
proof -
  have "veh_rep veh_one [(16, ''a'')]" by (simp add: veh_rep_def veh_one_def last_addr_def)
  then show ?thesis using dispatch_order[of "\<lambda>w. veh_one" "0 :: nat" "[(16, ''a'')]" "\<lambda>h x w. (- 1, w + 1)" "()"] by simp
qed

end
