(* ===== verification/Msvcrt_Qsort.thy ===== *)
theory Msvcrt_Qsort
  imports Prelude "HOL-Library.Multiset" "HOL-Library.Monad_Syntax"
begin

text \<open>
  \<^verbatim>\<open>msvcrt_qsort\<close> (shim_msvcrt.hpp): a quicksort in place with an explicit stack and a selection
  sort for short ranges.  The array is the list of its elements, an index an element number;
  the comparator is an arbitrary function on elements.  \<open>None\<close> is an access outside the array, an index
  below zero or a push on the full stack, so that a result shows that none of them happens.
\<close>

section \<open>Elements\<close>

definition ms_swap_elems :: "'a list \<Rightarrow> nat \<Rightarrow> nat \<Rightarrow> 'a list option" where
  "ms_swap_elems xs i j = (if i < length xs \<and> j < length xs then Some (xs[i := xs ! j, j := xs ! i]) else None)"

definition ms_cmp_elems :: "('a \<Rightarrow> 'a \<Rightarrow> int) \<Rightarrow> 'a list \<Rightarrow> nat \<Rightarrow> nat \<Rightarrow> int option" where
  "ms_cmp_elems cmp xs i j = (if i < length xs \<and> j < length xs then Some (cmp (xs ! i) (xs ! j)) else None)"

section \<open>Short ranges\<close>

text \<open>The index of a largest element of \<^verbatim>\<open>lo..shi\<close>, then the selection sort.\<close>

function max_elem :: "('a \<Rightarrow> 'a \<Rightarrow> int) \<Rightarrow> 'a list \<Rightarrow> nat \<Rightarrow> nat \<Rightarrow> nat \<Rightarrow> nat option" where
  "max_elem cmp xs p shi mx =
    (if p \<le> shi then do { c \<leftarrow> ms_cmp_elems cmp xs p mx; max_elem cmp xs (p + 1) shi (if 0 < c then p else mx) }
     else Some mx)"
  by pat_completeness auto
termination
  by (relation "measure (\<lambda>(cmp, xs, p, shi, mx). Suc shi - p)") auto

function select_sort :: "('a \<Rightarrow> 'a \<Rightarrow> int) \<Rightarrow> 'a list \<Rightarrow> nat \<Rightarrow> nat \<Rightarrow> 'a list option" where
  "select_sort cmp xs lo shi =
    (if lo < shi then do {
       mx \<leftarrow> max_elem cmp xs (lo + 1) shi lo;
       xs' \<leftarrow> ms_swap_elems xs mx shi;
       select_sort cmp xs' lo (shi - 1) }
     else Some xs)"
  by pat_completeness auto
termination
  by (relation "measure (\<lambda>(cmp, xs, lo, shi). shi)") auto

section \<open>Partitioning\<close>

text \<open>The two kinds of \<^verbatim>\<open>do ... while\<close>: up while below a limit and not greater, down while above a limit.\<close>

function scan_up :: "('a \<Rightarrow> 'a \<Rightarrow> int) \<Rightarrow> 'a list \<Rightarrow> nat \<Rightarrow> nat \<Rightarrow> nat \<Rightarrow> nat option" where
  "scan_up cmp xs mid lim i =
    (if i + 1 < lim then do {
       c \<leftarrow> ms_cmp_elems cmp xs (i + 1) mid;
       (if c \<le> 0 then scan_up cmp xs mid lim (i + 1) else Some (i + 1)) }
     else Some (i + 1))"
  by pat_completeness auto
termination
  by (relation "measure (\<lambda>(cmp, xs, mid, lim, i). lim - i)") auto

fun scan_down :: "('a \<Rightarrow> 'a \<Rightarrow> int) \<Rightarrow> 'a list \<Rightarrow> nat \<Rightarrow> nat \<Rightarrow> (int \<Rightarrow> bool) \<Rightarrow> nat \<Rightarrow> nat option" where
  "scan_down cmp xs mid lim go 0 = None"
| "scan_down cmp xs mid lim go (Suc i) =
    (if lim < i then do {
       c \<leftarrow> ms_cmp_elems cmp xs i mid;
       (if go c then scan_down cmp xs mid lim go i else Some i) }
     else Some i)"

definition order2 :: "('a \<Rightarrow> 'a \<Rightarrow> int) \<Rightarrow> nat \<Rightarrow> nat \<Rightarrow> 'a list \<Rightarrow> 'a list option" where
  "order2 cmp i j xs = do { c \<leftarrow> ms_cmp_elems cmp xs i j; (if 0 < c then ms_swap_elems xs i j else Some xs) }"

definition median3 :: "('a \<Rightarrow> 'a \<Rightarrow> int) \<Rightarrow> nat \<Rightarrow> nat \<Rightarrow> nat \<Rightarrow> 'a list \<Rightarrow> 'a list option" where
  "median3 cmp lo mid hi xs = do {
     xs1 \<leftarrow> order2 cmp lo mid xs;
     xs2 \<leftarrow> order2 cmp lo hi xs1;
     order2 cmp mid hi xs2 }"

text \<open>The bounds of the two scans of one round.\<close>

definition sweep_up :: "('a \<Rightarrow> 'a \<Rightarrow> int) \<Rightarrow> 'a list \<Rightarrow> nat \<Rightarrow> nat \<Rightarrow> nat \<Rightarrow> nat option" where
  "sweep_up cmp xs mid hi loguy = do {
     l1 \<leftarrow> (if loguy < mid then scan_up cmp xs mid mid loguy else Some loguy);
     (if mid \<le> l1 then scan_up cmp xs mid (hi + 1) l1 else Some l1) }"

definition sweep_down :: "('a \<Rightarrow> 'a \<Rightarrow> int) \<Rightarrow> 'a list \<Rightarrow> nat \<Rightarrow> nat \<Rightarrow> nat option" where
  "sweep_down cmp xs mid higuy = scan_down cmp xs mid mid (\<lambda>c. 0 < c) higuy"

lemma scan_down_less: "scan_down cmp xs mid lim go i = Some j \<Longrightarrow> j < i"
  by (induction i arbitrary: j) (auto split: if_splits Option.bind_splits intro: less_SucI)

function part_loop :: "('a \<Rightarrow> 'a \<Rightarrow> int) \<Rightarrow> 'a list \<Rightarrow> nat \<Rightarrow> nat \<Rightarrow> nat \<Rightarrow> nat \<Rightarrow> ('a list \<times> nat \<times> nat \<times> nat) option" where
  "part_loop cmp xs mid hi loguy higuy = (case sweep_up cmp xs mid hi loguy of
     None \<Rightarrow> None
   | Some l \<Rightarrow> (case sweep_down cmp xs mid higuy of
       None \<Rightarrow> None
     | Some h \<Rightarrow>
         if h < l then Some (xs, mid, l, h)
         else (case ms_swap_elems xs l h of
             None \<Rightarrow> None
           | Some xs' \<Rightarrow> part_loop cmp xs' (if mid = h then l else mid) hi l h)))"
  by pat_completeness auto
termination
  by (relation "measure (\<lambda>(cmp, xs, mid, hi, loguy, higuy). higuy)") (auto simp: sweep_down_def dest: scan_down_less)

text \<open>Skipping the elements equal to the pivot below the upper part.\<close>

definition skip_equal :: "('a \<Rightarrow> 'a \<Rightarrow> int) \<Rightarrow> 'a list \<Rightarrow> nat \<Rightarrow> nat \<Rightarrow> nat \<Rightarrow> nat option" where
  "skip_equal cmp xs lo mid higuy = do {
     g1 \<leftarrow> (if mid < higuy then scan_down cmp xs mid mid (\<lambda>c. c = 0) higuy else Some higuy);
     (if g1 \<le> mid then scan_down cmp xs mid lo (\<lambda>c. c = 0) g1 else Some g1) }"

text \<open>The two parts \<^verbatim>\<open>lo..higuy\<close> and \<^verbatim>\<open>loguy..hi\<close> that remain to be sorted.\<close>

definition ms_partition :: "('a \<Rightarrow> 'a \<Rightarrow> int) \<Rightarrow> nat \<Rightarrow> nat \<Rightarrow> 'a list \<Rightarrow> ('a list \<times> nat \<times> nat) option" where
  "ms_partition cmp lo hi xs = do {
     let mid = lo + (hi - lo + 1) div 2;
     xs1 \<leftarrow> median3 cmp lo mid hi xs;
     (xs2, mid', loguy, h) \<leftarrow> part_loop cmp xs1 mid hi lo hi;
     higuy \<leftarrow> skip_equal cmp xs2 lo mid' (h + 1);
     Some (xs2, loguy, higuy) }"

declare max_elem.simps [simp del] select_sort.simps [simp del] scan_up.simps [simp del] scan_down.simps(2) [simp del]
  part_loop.simps [simp del]

section \<open>What every comparator leaves intact\<close>

text \<open>A rearrangement of the range \<open>lo..hi\<close>.\<close>

definition shuffled :: "nat \<Rightarrow> nat \<Rightarrow> 'a list \<Rightarrow> 'a list \<Rightarrow> bool" where
  "shuffled lo hi xs ys \<longleftrightarrow> length ys = length xs \<and> mset ys = mset xs \<and> (\<forall>i. i < lo \<or> hi < i \<longrightarrow> ys ! i = xs ! i) \<and>
    (\<forall>i. lo \<le> i \<longrightarrow> i \<le> hi \<longrightarrow> i < length xs \<longrightarrow> (\<exists>j. lo \<le> j \<and> j \<le> hi \<and> j < length xs \<and> ys ! i = xs ! j))"

lemma shuffled_refl [simp]: "shuffled lo hi xs xs"
  by (auto simp: shuffled_def)

lemma shuffled_length: "shuffled lo hi xs ys \<Longrightarrow> length ys = length xs"
  by (simp add: shuffled_def)

lemma shuffled_trans: "shuffled lo hi xs ys \<Longrightarrow> shuffled lo hi ys zs \<Longrightarrow> shuffled lo hi xs zs"
  by (simp add: shuffled_def) metis

lemma shuffled_mono:
  assumes "shuffled lo hi xs ys" and "lo' \<le> lo" and "hi \<le> hi'"
  shows "shuffled lo' hi' xs ys"
  unfolding shuffled_def
proof (intro conjI allI impI)
  show "length ys = length xs" "mset ys = mset xs" using assms(1) by (simp_all add: shuffled_def)
  show "ys ! i = xs ! i" if "i < lo' \<or> hi' < i" for i using assms that by (auto simp: shuffled_def)
  show "\<exists>j\<ge>lo'. j \<le> hi' \<and> j < length xs \<and> ys ! i = xs ! j" if at: "lo' \<le> i" "i \<le> hi'" "i < length xs" for i
  proof (cases "lo \<le> i \<and> i \<le> hi")
    case True
    then obtain j where "lo \<le> j" "j \<le> hi" "j < length xs" "ys ! i = xs ! j" using assms(1) at(3) by (auto simp: shuffled_def)
    then show ?thesis using assms(2,3) by (intro exI[of _ j]) auto
  next
    case False
    then have "ys ! i = xs ! i" using assms(1) by (auto simp: shuffled_def)
    then show ?thesis using at by blast
  qed
qed

lemma swap_Some:
  "i < length xs \<Longrightarrow> j < length xs \<Longrightarrow> \<exists>ys. ms_swap_elems xs i j = Some ys \<and> length ys = length xs \<and>
    ys ! i = xs ! j \<and> ys ! j = xs ! i \<and> (\<forall>k. k \<noteq> i \<longrightarrow> k \<noteq> j \<longrightarrow> ys ! k = xs ! k)"
  by (auto simp: ms_swap_elems_def nth_list_update)

lemma swap_shuffled:
  assumes "ms_swap_elems xs i j = Some ys" and "lo \<le> i" "i \<le> hi" "lo \<le> j" "j \<le> hi"
  shows "shuffled lo hi xs ys"
proof -
  have l: "i < length xs" "j < length xs" and ys: "ys = xs[i := xs ! j, j := xs ! i]"
    using assms(1) by (auto simp: ms_swap_elems_def split: if_splits)
  show ?thesis
    unfolding shuffled_def
  proof (intro conjI allI impI)
    show "mset ys = mset xs" using l mset_swap[of j xs i] by (simp add: ys list_update_swap nth_list_update)
    show "\<exists>m\<ge>lo. m \<le> hi \<and> m < length xs \<and> ys ! k = xs ! m" if "lo \<le> k" "k \<le> hi" "k < length xs" for k
      using that l assms(2-5) by (cases "k = j"; cases "k = i") (auto simp: ys nth_list_update)
  qed (use assms l in \<open>auto simp: ys nth_list_update\<close>)
qed

lemma max_elem_Some:
  "shi < length xs \<Longrightarrow> mx < length xs \<Longrightarrow> lo \<le> mx \<Longrightarrow> mx \<le> shi \<Longrightarrow> lo \<le> p \<Longrightarrow>
    \<exists>m. max_elem cmp xs p shi mx = Some m \<and> lo \<le> m \<and> m \<le> shi"
proof (induction cmp xs p shi mx rule: max_elem.induct)
  case (1 cmp xs p shi mx)
  then show ?case by (subst max_elem.simps) (auto simp: ms_cmp_elems_def)
qed

lemma select_sort_Some:
  "shi < length xs \<Longrightarrow> \<exists>ys. select_sort cmp xs lo shi = Some ys \<and> shuffled lo shi xs ys"
proof (induction shi arbitrary: xs)
  case 0
  then show ?case by (subst select_sort.simps) simp
next
  case (Suc k)
  show ?case
  proof (cases "lo < Suc k")
    case True
    then obtain m where m: "max_elem cmp xs (lo + 1) (Suc k) lo = Some m" "lo \<le> m" "m \<le> Suc k"
      using max_elem_Some[of "Suc k" xs lo lo "lo + 1" cmp] Suc.prems by auto
    obtain zs where z: "ms_swap_elems xs m (Suc k) = Some zs" using swap_Some[of m xs "Suc k"] m Suc.prems by auto
    have sz: "shuffled lo (Suc k) xs zs" using swap_shuffled[OF z] m True by simp
    then obtain ys where "select_sort cmp zs lo k = Some ys" "shuffled lo k zs ys"
      using Suc.IH[of zs] Suc.prems by (auto simp: shuffled_def)
    then show ?thesis
      using True m z shuffled_trans[OF sz, of ys] shuffled_mono[of lo k zs ys lo "Suc k"] by (subst select_sort.simps) simp
  next
    case False
    then show ?thesis by (subst select_sort.simps) simp
  qed
qed

lemma scan_up_Some:
  "mid < length xs \<Longrightarrow> lim \<le> length xs \<Longrightarrow> i < lim \<Longrightarrow> \<exists>j. scan_up cmp xs mid lim i = Some j \<and> i < j \<and> j \<le> lim \<and>
    (\<forall>k. i < k \<longrightarrow> k < j \<longrightarrow> cmp (xs ! k) (xs ! mid) \<le> 0) \<and> (j < lim \<longrightarrow> 0 < cmp (xs ! j) (xs ! mid))"
proof (induction cmp xs mid lim i rule: scan_up.induct)
  case (1 cmp xs mid lim i)
  show ?case
  proof (cases "i + 1 < lim")
    case False
    then show ?thesis using 1 by (subst scan_up.simps) auto
  next
    case True
    have c: "ms_cmp_elems cmp xs (i + 1) mid = Some (cmp (xs ! (i + 1)) (xs ! mid))" using 1 True by (simp add: ms_cmp_elems_def)
    show ?thesis
    proof (cases "cmp (xs ! (i + 1)) (xs ! mid) \<le> 0")
      case le: True
      obtain j where j: "scan_up cmp xs mid lim (i + 1) = Some j" "i + 1 < j" "j \<le> lim"
          "\<forall>k. i + 1 < k \<longrightarrow> k < j \<longrightarrow> cmp (xs ! k) (xs ! mid) \<le> 0" "j < lim \<longrightarrow> 0 < cmp (xs ! j) (xs ! mid)"
        using "1.IH"[OF True c le] "1.prems" True by auto
      have "cmp (xs ! k) (xs ! mid) \<le> 0" if "i < k" "k < j" for k
        using j(4) le that by (cases "k = i + 1") auto
      then show ?thesis using j True c le by (subst scan_up.simps) auto
    next
      case False
      then show ?thesis using True c by (subst scan_up.simps) auto
    qed
  qed
qed

lemma scan_down_Some:
  "mid < length xs \<Longrightarrow> i \<le> length xs \<Longrightarrow> lim < i \<Longrightarrow> \<exists>j. scan_down cmp xs mid lim go i = Some j \<and> lim \<le> j \<and> j < i \<and>
    (\<forall>k. j < k \<longrightarrow> k < i \<longrightarrow> go (cmp (xs ! k) (xs ! mid))) \<and> (lim < j \<longrightarrow> \<not> go (cmp (xs ! j) (xs ! mid)))"
proof (induction i)
  case (Suc i)
  show ?case
  proof (cases "lim < i \<and> go (cmp (xs ! i) (xs ! mid))")
    case True
    then obtain j where j: "scan_down cmp xs mid lim go i = Some j" "lim \<le> j" "j < i"
        "\<forall>k. j < k \<longrightarrow> k < i \<longrightarrow> go (cmp (xs ! k) (xs ! mid))" "lim < j \<longrightarrow> \<not> go (cmp (xs ! j) (xs ! mid))"
      using Suc by auto
    have "go (cmp (xs ! k) (xs ! mid))" if "j < k" "k < Suc i" for k using j(4) True that by (cases "k = i") auto
    then show ?thesis using j True Suc.prems by (auto simp: ms_cmp_elems_def scan_down.simps(2))
  next
    case False
    then show ?thesis using Suc.prems by (auto simp: ms_cmp_elems_def scan_down.simps(2))
  qed
qed simp

lemma sweep_up_Some:
  assumes "loguy < hi" "mid < hi" "hi < length xs"
  shows "\<exists>l. sweep_up cmp xs mid hi loguy = Some l \<and> loguy < l \<and> l \<le> hi + 1 \<and> l \<noteq> mid \<and>
    (\<forall>k. loguy < k \<longrightarrow> k < l \<longrightarrow> k = mid \<or> cmp (xs ! k) (xs ! mid) \<le> 0) \<and> (l \<le> hi \<longrightarrow> 0 < cmp (xs ! l) (xs ! mid))"
proof -
  have m: "mid < length xs" using assms by simp
  obtain l1 where l1: "(if loguy < mid then scan_up cmp xs mid mid loguy else Some loguy) = Some l1" "loguy \<le> l1"
      "\<forall>k. loguy < k \<longrightarrow> k < l1 \<longrightarrow> cmp (xs ! k) (xs ! mid) \<le> 0" "l1 < mid \<longrightarrow> loguy < l1 \<and> 0 < cmp (xs ! l1) (xs ! mid)"
      "l1 \<le> mid \<or> l1 = loguy"
  proof (cases "loguy < mid")
    case True
    then show thesis using scan_up_Some[OF m, of mid loguy cmp] m that by (auto simp: less_imp_le)
  qed (use that in auto)
  show ?thesis
  proof (cases "mid \<le> l1")
    case False
    then show ?thesis using l1 assms by (auto simp: sweep_up_def)
  next
    case True
    have "l1 < hi + 1" using l1(5) assms by auto
    then obtain l where l: "scan_up cmp xs mid (hi + 1) l1 = Some l" "l1 < l" "l \<le> hi + 1"
        "\<forall>k. l1 < k \<longrightarrow> k < l \<longrightarrow> cmp (xs ! k) (xs ! mid) \<le> 0" "l < hi + 1 \<longrightarrow> 0 < cmp (xs ! l) (xs ! mid)"
      using scan_up_Some[OF m, of "hi + 1" l1 cmp] assms by auto
    have "k = mid \<or> cmp (xs ! k) (xs ! mid) \<le> 0" if "loguy < k" "k < l" for k
      using l(4) l1(3,5) that True by (cases k l1 rule: linorder_cases) auto
    then show ?thesis using l l1(1,2) True by (auto simp: sweep_up_def)
  qed
qed

lemma sweep_down_Some:
  assumes "mid < higuy" "higuy \<le> hi" "hi < length xs"
  shows "\<exists>h. sweep_down cmp xs mid higuy = Some h \<and> mid \<le> h \<and> h < higuy \<and>
    (\<forall>k. h < k \<longrightarrow> k < higuy \<longrightarrow> 0 < cmp (xs ! k) (xs ! mid)) \<and> (h = mid \<or> cmp (xs ! h) (xs ! mid) \<le> 0)"
  using scan_down_Some[of mid xs higuy mid cmp "\<lambda>c. 0 < c"] assms by (force simp: sweep_down_def)

text \<open>
  What the partition loop maintains: \<open>v\<close> is the pivot, the elements up to \<open>a\<close> are at most \<open>v\<close>, those from
  \<open>b\<close> to before \<open>hi\<close> are greater.
\<close>

definition split_at :: "('a \<Rightarrow> 'a \<Rightarrow> int) \<Rightarrow> 'a \<Rightarrow> nat \<Rightarrow> nat \<Rightarrow> 'a list \<Rightarrow> nat \<Rightarrow> nat \<Rightarrow> nat \<Rightarrow> bool" where
  "split_at cmp v lo hi xs mid a b \<longleftrightarrow> xs ! mid = v \<and> (\<forall>k. lo \<le> k \<longrightarrow> k < a \<longrightarrow> cmp (xs ! k) v \<le> 0) \<and>
    (\<forall>k. b < k \<longrightarrow> k < hi \<longrightarrow> 0 < cmp (xs ! k) v)"

lemma part_loop_Some:
  assumes "lo \<le> loguy" "loguy < hi" "lo < mid" "mid < higuy" "higuy \<le> hi" "hi < length xs"
  shows "\<exists>ys mid' l h. part_loop cmp xs mid hi loguy higuy = Some (ys, mid', l, h) \<and> shuffled lo hi xs ys \<and> ys ! hi = xs ! hi \<and>
    lo < mid' \<and> mid' \<le> h \<and> h < l \<and> lo < l \<and> l \<le> hi + 1 \<and> h < hi \<and>
    (split_at cmp v lo hi xs mid (loguy + 1) (higuy - 1) \<and> cmp v v \<le> 0 \<longrightarrow> split_at cmp v lo hi ys mid' l h)"
  using assms
proof (induction higuy arbitrary: xs mid loguy rule: less_induct)
  case (less higuy)
  obtain l where l: "sweep_up cmp xs mid hi loguy = Some l" "loguy < l" "l \<le> hi + 1" "l \<noteq> mid"
      "\<forall>k. loguy < k \<longrightarrow> k < l \<longrightarrow> k = mid \<or> cmp (xs ! k) (xs ! mid) \<le> 0" "l \<le> hi \<longrightarrow> 0 < cmp (xs ! l) (xs ! mid)"
    using sweep_up_Some[of loguy hi mid xs cmp] less.prems by auto
  obtain h where h: "sweep_down cmp xs mid higuy = Some h" "mid \<le> h" "h < higuy"
      "\<forall>k. h < k \<longrightarrow> k < higuy \<longrightarrow> 0 < cmp (xs ! k) (xs ! mid)" "h = mid \<or> cmp (xs ! h) (xs ! mid) \<le> 0"
    using sweep_down_Some[of mid higuy hi xs cmp] less.prems by auto
  have below: "cmp (xs ! k) v \<le> 0" if "split_at cmp v lo hi xs mid (loguy + 1) (higuy - 1)" "cmp v v \<le> 0" "lo \<le> k" "k < l" for k
  proof (cases "k \<le> loguy")
    case False
    then show ?thesis using that l(5)[rule_format, of k] by (auto simp: split_at_def)
  qed (use that in \<open>auto simp: split_at_def\<close>)
  have above: "0 < cmp (xs ! k) v" if "split_at cmp v lo hi xs mid (loguy + 1) (higuy - 1)" "h < k" "k < hi" for k
    using that h(4) by (cases "k < higuy") (auto simp: split_at_def)
  show ?case
  proof (cases "h < l")
    case True
    then have "part_loop cmp xs mid hi loguy higuy = Some (xs, mid, l, h)" using l(1) h(1) by (simp add: part_loop.simps[of cmp xs mid])
    moreover have "split_at cmp v lo hi xs mid l h"
      if sp: "split_at cmp v lo hi xs mid (loguy + 1) (higuy - 1)" "cmp v v \<le> 0"
      using below[OF sp] above[OF sp(1)] sp(1) unfolding split_at_def by blast
    moreover have "lo < l" "h < hi" using l(2) h(3) less.prems by linarith+
    ultimately show ?thesis using True l(3) h(2) less.prems(3) shuffled_refl by blast
  next
    case False
    then have ix: "l \<le> h" "h < hi" "l < length xs" "h < length xs" using h less.prems by auto
    obtain zs where z: "ms_swap_elems xs l h = Some zs" "length zs = length xs" "zs ! l = xs ! h" "zs ! h = xs ! l"
        "\<forall>k. k \<noteq> l \<longrightarrow> k \<noteq> h \<longrightarrow> zs ! k = xs ! k"
      using swap_Some[OF ix(3,4)] by auto
    define mid' where "mid' = (if mid = h then l else mid)"
    have zsh: "shuffled lo hi xs zs" using swap_shuffled[OF z(1)] ix less.prems l h by simp
    have mid': "lo < mid'" "mid' < h" "zs ! mid' = xs ! mid" using ix l h less.prems z by (auto simp: mid'_def)
    have step: "part_loop cmp xs mid hi loguy higuy = part_loop cmp zs mid' hi l h"
      using False l(1) h(1) z(1) by (simp add: part_loop.simps[of cmp xs mid] mid'_def)
    have next_split: "split_at cmp v lo hi zs mid' (l + 1) (h - 1)"
      if sp: "split_at cmp v lo hi xs mid (loguy + 1) (higuy - 1)" "cmp v v \<le> 0"
    proof -
      have v: "xs ! mid = v" using sp(1) by (simp add: split_at_def)
      have "cmp (zs ! k) v \<le> 0" if "lo \<le> k" "k < l + 1" for k
        using that below[OF sp, of k] h(5) z ix v sp(2) by (cases "k = l") auto
      moreover have "0 < cmp (zs ! k) v" if "h - 1 < k" "k < hi" for k
        using that above[OF sp(1), of k] l(6) z ix v mid' by (cases "k = h") auto
      ultimately show ?thesis using v mid'(3) by (simp add: split_at_def)
    qed
    have "\<exists>ys mid'' l' h'. part_loop cmp zs mid' hi l h = Some (ys, mid'', l', h') \<and> shuffled lo hi zs ys \<and> ys ! hi = zs ! hi \<and>
        lo < mid'' \<and> mid'' \<le> h' \<and> h' < l' \<and> lo < l' \<and> l' \<le> hi + 1 \<and> h' < hi \<and>
        (split_at cmp v lo hi zs mid' (l + 1) (h - 1) \<and> cmp v v \<le> 0 \<longrightarrow> split_at cmp v lo hi ys mid'' l' h')"
      using less.prems l h ix z(2) mid' by (intro less.IH) auto
    then obtain ys mid'' l' h' where r: "part_loop cmp zs mid' hi l h = Some (ys, mid'', l', h')" "shuffled lo hi zs ys" "ys ! hi = zs ! hi"
        "lo < mid'' \<and> mid'' \<le> h' \<and> h' < l' \<and> lo < l' \<and> l' \<le> hi + 1 \<and> h' < hi"
        "split_at cmp v lo hi zs mid' (l + 1) (h - 1) \<and> cmp v v \<le> 0 \<longrightarrow> split_at cmp v lo hi ys mid'' l' h'"
      by blast
    have "zs ! hi = xs ! hi" using z ix by auto
    then show ?thesis using r step next_split shuffled_trans[OF zsh r(2)] by (intro exI[of _ ys] exI[of _ mid''] exI[of _ l'] exI[of _ h']) auto
  qed
qed

lemma order2_Some:
  assumes "i < length xs" "j < length xs" "lo \<le> i" "i \<le> hi" "lo \<le> j" "j \<le> hi"
  shows "\<exists>ys. order2 cmp i j xs = Some ys \<and> shuffled lo hi xs ys \<and> (\<forall>k. k \<noteq> i \<longrightarrow> k \<noteq> j \<longrightarrow> ys ! k = xs ! k) \<and>
    (ys ! i = xs ! i \<and> ys ! j = xs ! j \<and> cmp (xs ! i) (xs ! j) \<le> 0 \<or> ys ! i = xs ! j \<and> ys ! j = xs ! i \<and> 0 < cmp (xs ! i) (xs ! j))"
proof -
  obtain ys where y: "ms_swap_elems xs i j = Some ys" "ys ! i = xs ! j" "ys ! j = xs ! i" "\<forall>k. k \<noteq> i \<longrightarrow> k \<noteq> j \<longrightarrow> ys ! k = xs ! k"
    using swap_Some[OF assms(1,2)] by auto
  show ?thesis using y swap_shuffled[OF y(1) assms(3-6)] assms(1,2) by (auto simp: order2_def ms_cmp_elems_def)
qed

lemma skip_equal_Some:
  assumes "lo < mid" "mid \<le> h" "h < length xs"
  shows "\<exists>g. skip_equal cmp xs lo mid (h + 1) = Some g \<and> lo \<le> g \<and> g \<le> h \<and>
    (\<forall>k. g < k \<longrightarrow> k \<le> h \<longrightarrow> k = mid \<or> cmp (xs ! k) (xs ! mid) = 0)"
proof -
  have m: "mid < length xs" using assms by simp
  obtain g1 where g1: "scan_down cmp xs mid mid (\<lambda>c. c = 0) (h + 1) = Some g1" "mid \<le> g1" "g1 < h + 1"
      "\<forall>k. g1 < k \<longrightarrow> k < h + 1 \<longrightarrow> cmp (xs ! k) (xs ! mid) = 0"
    using scan_down_Some[OF m, of "h + 1" mid cmp "\<lambda>c. c = 0"] assms by auto
  show ?thesis
  proof (cases "g1 \<le> mid")
    case False
    then show ?thesis using g1 assms by (auto simp: skip_equal_def)
  next
    case True
    then obtain g where g: "scan_down cmp xs mid lo (\<lambda>c. c = 0) g1 = Some g" "lo \<le> g" "g < g1"
        "\<forall>k. g < k \<longrightarrow> k < g1 \<longrightarrow> cmp (xs ! k) (xs ! mid) = 0"
      using scan_down_Some[OF m, of g1 lo cmp "\<lambda>c. c = 0"] assms g1 by auto
    have "k = mid \<or> cmp (xs ! k) (xs ! mid) = 0" if "g < k" "k \<le> h" for k
      using g(4) g1(2,4) True that by (cases k g1 rule: linorder_cases) auto
    then show ?thesis using g g1 True assms by (auto simp: skip_equal_def)
  qed
qed

section \<open>Comparators\<close>

text \<open>What C demands of the comparator of \<^verbatim>\<open>qsort\<close>: its signs are those of a total preorder.\<close>

locale comparator =
  fixes cmp :: "'a \<Rightarrow> 'a \<Rightarrow> int"
  assumes cmp_flip: "0 < cmp a b \<longleftrightarrow> cmp b a < 0"
    and cmp_trans: "cmp a b \<le> 0 \<Longrightarrow> cmp b c \<le> 0 \<Longrightarrow> cmp a c \<le> 0"
begin

lemma cmp_refl: "cmp a a = 0"
  using cmp_flip[of a a] by linarith

lemma cmp_zero: "cmp a b = 0 \<longleftrightarrow> cmp b a = 0"
  using cmp_flip[of a b] cmp_flip[of b a] by linarith

lemma cmp_total: "0 < cmp a b \<Longrightarrow> cmp b a \<le> 0"
  using cmp_flip[of a b] by linarith

lemma median3_sorted:
  assumes "lo < mid" "mid < hi" "hi < length xs"
  shows "\<exists>ys. median3 cmp lo mid hi xs = Some ys \<and> shuffled lo hi xs ys \<and> cmp (ys ! lo) (ys ! mid) \<le> 0 \<and> cmp (ys ! mid) (ys ! hi) \<le> 0"
proof -
  obtain x1 where x1: "order2 cmp lo mid xs = Some x1" "shuffled lo hi xs x1" "cmp (x1 ! lo) (x1 ! mid) \<le> 0"
    using order2_Some[of lo xs mid lo hi cmp] assms cmp_total by fastforce
  have l1: "length x1 = length xs" using x1(2) by (rule shuffled_length)
  obtain x2 where x2: "order2 cmp lo hi x1 = Some x2" "shuffled lo hi x1 x2" "x2 ! mid = x1 ! mid" "cmp (x2 ! lo) (x2 ! hi) \<le> 0"
      "x2 ! lo = x1 ! lo \<or> x2 ! lo = x1 ! hi \<and> 0 < cmp (x1 ! lo) (x1 ! hi)"
    using order2_Some[of lo x1 hi lo hi cmp] assms l1 cmp_total by fastforce
  have l2: "length x2 = length xs" using shuffled_length[OF x2(2)] l1 by simp
  have lm: "cmp (x2 ! lo) (x2 ! mid) \<le> 0" using x2(3,5) x1(3) cmp_trans[OF cmp_total] by auto
  obtain x3 where x3: "order2 cmp mid hi x2 = Some x3" "shuffled lo hi x2 x3" "x3 ! lo = x2 ! lo" "cmp (x3 ! mid) (x3 ! hi) \<le> 0"
      "x3 ! mid = x2 ! mid \<or> x3 ! mid = x2 ! hi"
    using order2_Some[of mid x2 hi lo hi cmp] assms l2 cmp_total by fastforce
  then have "cmp (x3 ! lo) (x3 ! mid) \<le> 0" using lm x2(4) by auto
  then show ?thesis using x1 x2 x3 shuffled_trans[OF shuffled_trans[OF x1(2) x2(2)] x3(2)] by (auto simp: median3_def)
qed

lemma max_elem_greatest:
  "shi < length xs \<Longrightarrow> mx < length xs \<Longrightarrow> max_elem cmp xs p shi mx = Some m \<Longrightarrow>
    cmp (xs ! mx) (xs ! m) \<le> 0 \<and> (\<forall>k. p \<le> k \<longrightarrow> k \<le> shi \<longrightarrow> cmp (xs ! k) (xs ! m) \<le> 0)"
proof (induction "Suc shi - p" arbitrary: p mx)
  case 0
  then show ?case by (auto simp: max_elem.simps[of cmp xs p] cmp_refl)
next
  case (Suc d)
  define mx' where "mx' = (if 0 < cmp (xs ! p) (xs ! mx) then p else mx)"
  have p: "p \<le> shi" "p < length xs" using Suc by auto
  have r: "max_elem cmp xs (p + 1) shi mx' = Some m"
    using Suc.prems p by (simp add: max_elem.simps[of cmp xs p] ms_cmp_elems_def mx'_def)
  have ih: "cmp (xs ! mx') (xs ! m) \<le> 0" "\<forall>k. p + 1 \<le> k \<longrightarrow> k \<le> shi \<longrightarrow> cmp (xs ! k) (xs ! m) \<le> 0"
    using Suc.hyps(1)[of "p + 1" mx'] Suc.hyps(2) Suc.prems p r by (auto simp: mx'_def)
  have "cmp (xs ! p) (xs ! mx') \<le> 0" "cmp (xs ! mx) (xs ! mx') \<le> 0" by (auto simp: mx'_def cmp_refl cmp_total)
  then have "cmp (xs ! p) (xs ! m) \<le> 0" "cmp (xs ! mx) (xs ! m) \<le> 0" using ih(1) cmp_trans by blast+
  then show ?case using ih(2) by (metis Suc_eq_plus1 not_less_eq_eq order_antisym)
qed

lemma select_sort_sorted:
  "shi < length xs \<Longrightarrow> select_sort cmp xs lo shi = Some ys \<Longrightarrow> lo \<le> i \<Longrightarrow> i < j \<Longrightarrow> j \<le> shi \<Longrightarrow> cmp (ys ! i) (ys ! j) \<le> 0"
proof (induction shi arbitrary: xs j)
  case (Suc k)
  obtain m where m: "max_elem cmp xs (lo + 1) (Suc k) lo = Some m" "lo \<le> m" "m \<le> Suc k"
    using max_elem_Some[of "Suc k" xs lo lo "lo + 1" cmp] Suc.prems by auto
  obtain zs where z: "ms_swap_elems xs m (Suc k) = Some zs" "length zs = length xs" "zs ! m = xs ! Suc k" "zs ! Suc k = xs ! m"
      "\<forall>i. i \<noteq> m \<longrightarrow> i \<noteq> Suc k \<longrightarrow> zs ! i = xs ! i"
    using swap_Some[of m xs "Suc k"] m Suc.prems by auto
  have r: "select_sort cmp zs lo k = Some ys" using Suc.prems m z by (simp add: select_sort.simps[of cmp xs])
  then have sh: "shuffled lo k zs ys" using select_sort_Some[of k zs cmp lo] z(2) Suc.prems by auto
  have top: "cmp (xs ! q) (xs ! m) \<le> 0" if "lo \<le> q" "q \<le> Suc k" for q
  proof (cases "q = lo")
    case False
    then show ?thesis using max_elem_greatest[OF _ _ m(1)] Suc.prems that by auto
  qed (use max_elem_greatest[OF _ _ m(1)] Suc.prems in auto)
  show ?case
  proof (cases "j = Suc k")
    case False
    then show ?thesis using Suc.IH[of zs j] r z(2) Suc.prems by simp
  next
    case True
    have "ys ! j = xs ! m" using sh z(4) True by (auto simp: shuffled_def)
    moreover obtain q where "lo \<le> q" "q \<le> k" "ys ! i = zs ! q"
      using sh Suc.prems(1,3,4) True z(2) by (auto simp: shuffled_def)
    moreover from this have "zs ! q = xs ! q \<or> zs ! q = xs ! Suc k" using z by (cases "q = m") auto
    ultimately show ?thesis using top[of q] top[of "Suc k"] Suc.prems by auto
  qed
qed simp

lemma ms_partition_parts:
  assumes "lo + 8 \<le> hi" "hi < length xs"
  shows "\<exists>ys l g. ms_partition cmp lo hi xs = Some (ys, l, g) \<and>
    (\<forall>i j. lo \<le> i \<longrightarrow> i < j \<longrightarrow> j \<le> hi \<longrightarrow> j \<le> g \<or> l \<le> i \<or> cmp (ys ! i) (ys ! j) \<le> 0)"
proof -
  define mid where "mid = lo + (hi - lo + 1) div 2"
  have mid: "lo < mid" "mid < hi" using assms(1) by (auto simp: mid_def)
  obtain x1 where x1: "median3 cmp lo mid hi xs = Some x1" "shuffled lo hi xs x1" "cmp (x1 ! lo) (x1 ! mid) \<le> 0" "cmp (x1 ! mid) (x1 ! hi) \<le> 0"
    using median3_sorted[OF mid assms(2)] by auto
  define v where "v = x1 ! mid"
  have len1: "hi < length x1" using shuffled_length[OF x1(2)] assms(2) by simp
  obtain ys mid' l h where q: "part_loop cmp x1 mid hi lo hi = Some (ys, mid', l, h)" "shuffled lo hi x1 ys" "ys ! hi = x1 ! hi"
      "lo < mid'" "mid' \<le> h" "h < l" "lo < l" "l \<le> hi + 1" "h < hi"
      "split_at cmp v lo hi x1 mid (lo + 1) (hi - 1) \<and> cmp v v \<le> 0 \<longrightarrow> split_at cmp v lo hi ys mid' l h"
    using part_loop_Some[OF order_refl _ mid order_refl len1, of cmp v] assms by auto
  have sp: "split_at cmp v lo hi ys mid' l h"
    using q(10) x1(3) cmp_refl[of v] assms(1) by (auto simp: split_at_def v_def le_less_Suc_eq)
  have len2: "hi < length ys" using shuffled_length[OF q(2)] len1 by simp
  obtain g where g: "skip_equal cmp ys lo mid' (h + 1) = Some g" "lo \<le> g" "g \<le> h"
      "\<forall>k. g < k \<longrightarrow> k \<le> h \<longrightarrow> k = mid' \<or> cmp (ys ! k) (ys ! mid') = 0"
    using skip_equal_Some[OF q(4,5), of ys cmp] len2 q(9) by auto
  have v: "ys ! mid' = v" using sp by (simp add: split_at_def)
  have top: "cmp v (ys ! hi) \<le> 0" using x1(4) q(3) by (simp add: v_def)
  have low: "cmp (ys ! k) v \<le> 0" if "lo \<le> k" "k < l" for k using sp that by (auto simp: split_at_def)
  have high: "cmp v (ys ! k) \<le> 0" if at: "g < k" "k \<le> hi" for k
  proof -
    consider "k \<le> h" | "h < k" "k < hi" | "k = hi" using at by linarith
    then show ?thesis
    proof cases
      case 1
      then show ?thesis using g(4) at v cmp_zero cmp_refl by (metis order_refl)
    next
      case 2
      then show ?thesis using sp cmp_total by (auto simp: split_at_def)
    next
      case 3
      then show ?thesis using top by simp
    qed
  qed
  have "cmp (ys ! i) (ys ! j) \<le> 0" if "lo \<le> i" "i < j" "j \<le> hi" "\<not> j \<le> g" "\<not> l \<le> i" for i j
    using cmp_trans[OF low[of i] high[of j]] that by simp
  moreover have "ms_partition cmp lo hi xs = Some (ys, l, g)"
    using x1(1) q(1) g(1) unfolding mid_def ms_partition_def by (simp add: Let_def)
  ultimately show ?thesis by (metis nat_less_le not_le)
qed

end

lemma median3_Some:
  assumes "lo < mid" "mid < hi" "hi < length xs"
  shows "\<exists>ys. median3 cmp lo mid hi xs = Some ys \<and> shuffled lo hi xs ys"
proof -
  obtain x1 where x1: "order2 cmp lo mid xs = Some x1" "shuffled lo hi xs x1"
    using order2_Some[of lo xs mid lo hi cmp] assms by auto
  obtain x2 where x2: "order2 cmp lo hi x1 = Some x2" "shuffled lo hi x1 x2"
    using order2_Some[of lo x1 hi lo hi cmp] assms shuffled_length[OF x1(2)] by auto
  obtain x3 where x3: "order2 cmp mid hi x2 = Some x3" "shuffled lo hi x2 x3"
    using order2_Some[of mid x2 hi lo hi cmp] assms shuffled_length[OF x1(2)] shuffled_length[OF x2(2)] by auto
  then show ?thesis using x1 x2 shuffled_trans[OF shuffled_trans[OF x1(2) x2(2)] x3(2)] by (simp add: median3_def)
qed

lemma ms_partition_Some:
  assumes "lo + 8 \<le> hi" "hi < length xs"
  shows "\<exists>ys l g. ms_partition cmp lo hi xs = Some (ys, l, g) \<and> shuffled lo hi xs ys \<and> lo \<le> g \<and> g < hi \<and> g < l \<and> lo < l \<and> l \<le> hi + 1"
proof -
  define mid where "mid = lo + (hi - lo + 1) div 2"
  have mid: "lo < mid" "mid < hi" using assms(1) by (auto simp: mid_def)
  obtain x1 where x1: "median3 cmp lo mid hi xs = Some x1" "shuffled lo hi xs x1" using median3_Some[OF mid assms(2)] by auto
  have len1: "hi < length x1" using shuffled_length[OF x1(2)] assms(2) by simp
  obtain ys mid' l h where q: "part_loop cmp x1 mid hi lo hi = Some (ys, mid', l, h)" "shuffled lo hi x1 ys"
      "lo < mid'" "mid' \<le> h" "h < l" "lo < l" "l \<le> hi + 1" "h < hi"
    using part_loop_Some[OF order_refl _ mid order_refl len1, of cmp "x1 ! mid"] assms by auto
  obtain g where g: "skip_equal cmp ys lo mid' (h + 1) = Some g" "lo \<le> g" "g \<le> h"
    using skip_equal_Some[OF q(3,4), of ys cmp] shuffled_length[OF q(2)] len1 q(8) by auto
  have "ms_partition cmp lo hi xs = Some (ys, l, g)"
    using x1(1) q(1) g(1) unfolding mid_def ms_partition_def by (simp add: Let_def)
  then show ?thesis using g(2,3) q(5-8) shuffled_trans[OF x1(2) q(2)] by auto
qed

lemma order2_inside: "order2 cmp i j xs = Some ys \<Longrightarrow> i < length xs \<and> j < length xs \<and> length ys = length xs"
  by (auto simp: order2_def ms_cmp_elems_def ms_swap_elems_def split: Option.bind_splits if_splits)

lemma median3_inside: "median3 cmp lo mid hi xs = Some ys \<Longrightarrow> hi < length xs"
  by (fastforce simp: median3_def split: Option.bind_splits dest: order2_inside)

lemma ms_partition_bounds:
  assumes "ms_partition cmp lo hi xs = Some (ys, l, g)" and "lo + 8 \<le> hi"
  shows "lo \<le> g" "g < hi" "g < l" "lo < l" "l \<le> hi + 1" "hi < length xs"
proof -
  have "hi < length xs" using assms(1) by (auto simp: ms_partition_def Let_def split: Option.bind_splits dest: median3_inside)
  then show "lo \<le> g" "g < hi" "g < l" "lo < l" "l \<le> hi + 1" "hi < length xs"
    using ms_partition_Some[OF assms(2), of xs cmp] assms(1) by auto
qed

section \<open>The stack of ranges\<close>

text \<open>
  The head of the work list is the current range \<^verbatim>\<open>lo..hi\<close>, its tail the stack \<^verbatim>\<open>lostk\<close>, \<^verbatim>\<open>histk\<close> from its top.
  The comparison of the two parts is one of \<^verbatim>\<open>size_t\<close> values: \<^verbatim>\<open>hi - loguy\<close> wraps around when nothing is above.
\<close>

definition stk_slots :: nat where
  "stk_slots = 62"

definition push_range :: "nat \<times> nat \<Rightarrow> (nat \<times> nat) list \<Rightarrow> (nat \<times> nat) list option" where
  "push_range r stk = (if fst r < snd r then (if length stk < stk_slots then Some (r # stk) else None) else Some stk)"

definition enter_range :: "nat \<times> nat \<Rightarrow> (nat \<times> nat) list \<Rightarrow> (nat \<times> nat) list" where
  "enter_range r stk = (if fst r < snd r then r # stk else stk)"

definition next_ranges :: "nat \<Rightarrow> nat \<Rightarrow> nat \<Rightarrow> nat \<Rightarrow> (nat \<times> nat) list \<Rightarrow> (nat \<times> nat) list option" where
  "next_ranges lo hi loguy higuy stk =
    (if (of_nat hi - of_nat loguy :: 64 word) \<le> of_nat higuy - of_nat lo
     then map_option (enter_range (loguy, hi)) (push_range (lo, higuy) stk)
     else map_option (enter_range (lo, higuy)) (push_range (loguy, hi) stk))"

definition range_weight :: "nat \<times> nat \<Rightarrow> nat" where
  "range_weight r = 2 * (snd r - fst r) + 1"

lemma next_ranges_cases:
  assumes "next_ranges lo hi l g stk = Some work"
  shows "\<exists>new. work = new @ stk \<and> set new = {r \<in> {(lo, g), (l, hi)}. fst r < snd r} \<and> (new = [] \<or> (\<exists>a. new = [a]) \<or> new = [(lo, g), (l, hi)] \<or> new = [(l, hi), (lo, g)])"
  using assms by (auto simp: next_ranges_def push_range_def enter_range_def split: if_splits)

lemma next_ranges_weight:
  assumes "next_ranges lo hi l g stk = Some work" "lo \<le> g" "g < hi" "g < l" "lo < l" "l \<le> hi + 1"
  shows "sum_list (map range_weight work) < range_weight (lo, hi) + sum_list (map range_weight stk)"
  using assms by (auto simp: next_ranges_def push_range_def enter_range_def range_weight_def split: if_splits)

function qsort_loop :: "('a \<Rightarrow> 'a \<Rightarrow> int) \<Rightarrow> (nat \<times> nat) list \<Rightarrow> 'a list \<Rightarrow> 'a list option" where
  "qsort_loop cmp [] xs = Some xs"
| "qsort_loop cmp ((lo, hi) # stk) xs =
    (if hi - lo + 1 \<le> 8 then (case select_sort cmp xs lo hi of None \<Rightarrow> None | Some xs' \<Rightarrow> qsort_loop cmp stk xs')
     else (case ms_partition cmp lo hi xs of
         None \<Rightarrow> None
       | Some (xs', loguy, higuy) \<Rightarrow> (case next_ranges lo hi loguy higuy stk of
           None \<Rightarrow> None
         | Some work \<Rightarrow> qsort_loop cmp work xs')))"
  by pat_completeness auto
termination
proof (relation "measure (\<lambda>(cmp, work, xs). sum_list (map range_weight work))", goal_cases)
  case (3 cmp lo hi stk xs p xs' q l g work)
  then have "lo + 8 \<le> hi" by simp
  then show ?case using ms_partition_bounds[of cmp lo hi xs xs' l g] next_ranges_weight[of lo hi l g stk work] 3 by simp
qed (auto simp: range_weight_def)

declare qsort_loop.simps(2) [simp del]

definition msvcrt_qsort :: "('a \<Rightarrow> 'a \<Rightarrow> int) option \<Rightarrow> nat \<Rightarrow> 'a list \<Rightarrow> 'a list option" where
  "msvcrt_qsort cmp sz xs = (case cmp of
     None \<Rightarrow> Some xs
   | Some c \<Rightarrow> if length xs < 2 \<or> sz = 0 then Some xs else qsort_loop c [(0, length xs - 1)] xs)"

section \<open>The stack never overflows\<close>

text \<open>A range at depth \<open>d\<close> has at most \<open>n / 2 ^ d\<close> elements.\<close>

definition work_ok :: "nat \<Rightarrow> (nat \<times> nat) list \<Rightarrow> bool" where
  "work_ok n work \<longleftrightarrow> (\<forall>d < length work. snd (rev work ! d) < n \<and> fst (rev work ! d) \<le> snd (rev work ! d) \<and>
    (snd (rev work ! d) - fst (rev work ! d) + 1) * 2 ^ d \<le> n)"

lemma work_ok_Nil [simp]: "work_ok n []"
  by (simp add: work_ok_def)

lemma work_ok_Cons [simp]:
  "work_ok n ((lo, hi) # stk) \<longleftrightarrow> work_ok n stk \<and> lo \<le> hi \<and> hi < n \<and> (hi - lo + 1) * 2 ^ length stk \<le> n"
  by (auto simp: work_ok_def nth_append less_Suc_eq)

lemma work_ok_smaller:
  assumes "work_ok n ((lo, hi) # stk)" and "lo' \<le> hi'" "hi' \<le> hi" "hi' - lo' \<le> hi - lo"
  shows "work_ok n ((lo', hi') # stk)"
proof -
  have "(hi' - lo' + 1) * 2 ^ length stk \<le> (hi - lo + 1) * 2 ^ length stk" using assms(4) by (intro mult_le_mono1) simp
  then show ?thesis using assms unfolding work_ok_Cons by linarith
qed

lemma work_ok_half:
  assumes "work_ok n ((lo, hi) # stk)" "work_ok n (r # stk)" and "lo' \<le> hi'" "hi' \<le> hi" "2 * (hi' - lo' + 1) \<le> hi - lo + 1"
  shows "work_ok n ((lo', hi') # r # stk)"
proof -
  have "2 * (hi' - lo' + 1) * 2 ^ length stk \<le> (hi - lo + 1) * 2 ^ length stk" using assms(5) by (intro mult_le_mono1) simp
  moreover have "(hi' - lo' + 1) * 2 ^ length (r # stk) = 2 * (hi' - lo' + 1) * 2 ^ length stk" by simp
  ultimately have "(hi' - lo' + 1) * 2 ^ length (r # stk) \<le> n" using assms(1) unfolding work_ok_Cons by linarith
  then show ?thesis using assms(1-4) unfolding work_ok_Cons by (metis le_less_trans)
qed

lemma work_ok_depth:
  assumes "work_ok n ((lo, hi) # stk)" "lo + 8 \<le> hi" "n < 2 ^ 64"
  shows "length stk < stk_slots"
proof (rule ccontr)
  assume "\<not> length stk < stk_slots"
  then have "(2::nat) ^ 62 \<le> 2 ^ length stk" by (intro power_increasing) (auto simp: stk_slots_def)
  then have "9 * (2::nat) ^ 62 \<le> (hi - lo + 1) * 2 ^ length stk" using assms(2) by (intro mult_le_mono) auto
  then have "9 * (2::nat) ^ 62 \<le> n" using assms(1) by simp
  then show False using assms(3) by simp
qed

lemma unat_of_nat_diff:
  assumes "a \<le> b" "b < 2 ^ 64"
  shows "unat (of_nat b - of_nat a :: 64 word) = b - a"
proof -
  have "unat (of_nat (b - a) :: 64 word) = b - a" using assms by (simp only: unat_of_nat take_bit_nat_eq_self_iff) (simp add: take_bit_nat_eq_self)
  then show ?thesis using assms(1) by (simp add: of_nat_diff)
qed

lemma next_ranges_ok:
  assumes w: "work_ok n ((lo, hi) # stk)" and "lo + 8 \<le> hi" "n < 2 ^ 64"
    and g: "lo \<le> g" "g < hi" "g < l" "lo < l" "l \<le> hi + 1"
  shows "\<exists>work. next_ranges lo hi l g stk = Some work \<and> work_ok n work"
proof -
  have d: "length stk < stk_slots" using work_ok_depth[OF assms(1-3)] .
  have n: "hi < 2 ^ 64" using w assms(3) by simp
  have gl: "unat (of_nat g - of_nat lo :: 64 word) = g - lo" using g n by (intro unat_of_nat_diff) auto
  show ?thesis
  proof (cases "l \<le> hi")
    case True
    have hl: "unat (of_nat hi - of_nat l :: 64 word) = hi - l" using True n by (intro unat_of_nat_diff) auto
    show ?thesis
    proof (cases "hi - l \<le> g - lo")
      case le: True
      then have "next_ranges lo hi l g stk = Some (enter_range (l, hi) (if lo < g then (lo, g) # stk else stk))"
        using d gl hl by (simp add: next_ranges_def push_range_def word_le_nat_alt)
      moreover have "work_ok n ((lo, g) # stk)" by (rule work_ok_smaller[OF w]) (use g in auto)
      moreover from this have "work_ok n ((l, hi) # (lo, g) # stk)" by (rule work_ok_half[OF w]) (use g le True in auto)
      moreover have "work_ok n ((l, hi) # stk)" by (rule work_ok_smaller[OF w]) (use g True in auto)
      ultimately show ?thesis using w by (auto simp: enter_range_def)
    next
      case gt: False
      then have "next_ranges lo hi l g stk = Some (enter_range (lo, g) (if l < hi then (l, hi) # stk else stk))"
        using d gl hl by (simp add: next_ranges_def push_range_def word_le_nat_alt)
      moreover have "work_ok n ((l, hi) # stk)" by (rule work_ok_smaller[OF w]) (use g True in auto)
      moreover from this have "work_ok n ((lo, g) # (l, hi) # stk)" by (rule work_ok_half[OF w]) (use g gt True in auto)
      moreover have "work_ok n ((lo, g) # stk)" by (rule work_ok_smaller[OF w]) (use g in auto)
      ultimately show ?thesis using w by (auto simp: enter_range_def)
    qed
  next
    case False
    have "work_ok n ((lo, g) # stk)" by (rule work_ok_smaller[OF w]) (use g in auto)
    then show ?thesis using w d False by (auto simp: next_ranges_def push_range_def enter_range_def)
  qed
qed

lemma qsort_loop_Some:
  "work_ok (length xs) work \<Longrightarrow> length xs < 2 ^ 64 \<Longrightarrow> \<exists>ys. qsort_loop cmp work xs = Some ys \<and> mset ys = mset xs"
proof (induction cmp work xs rule: qsort_loop.induct)
  case (2 cmp lo hi stk xs)
  show ?case
  proof (cases "hi - lo + 1 \<le> 8")
    case True
    obtain zs where z: "select_sort cmp xs lo hi = Some zs" "shuffled lo hi xs zs"
      using select_sort_Some[of hi xs cmp lo] "2.prems" by auto
    then show ?thesis using "2.IH"(1)[OF True z(1)] "2.prems" True by (auto simp: shuffled_def qsort_loop.simps(2))
  next
    case False
    then have big: "lo + 8 \<le> hi" by simp
    obtain zs l g where p: "ms_partition cmp lo hi xs = Some (zs, l, g)" "shuffled lo hi xs zs"
        "lo \<le> g" "g < hi" "g < l" "lo < l" "l \<le> hi + 1"
      using ms_partition_Some[OF big, of xs cmp] "2.prems" by auto
    obtain work where w: "next_ranges lo hi l g stk = Some work" "work_ok (length xs) work"
      using next_ranges_ok[OF "2.prems"(1) big "2.prems"(2) p(3-7)] by auto
    then show ?thesis using "2.IH"(2)[OF False p(1) refl refl w(1)] "2.prems" p False by (auto simp: shuffled_def qsort_loop.simps(2))
  qed
qed simp

section \<open>The result is sorted\<close>

text \<open>Two elements may be out of order only inside one range that is still to be sorted; these ranges are disjoint.\<close>

definition pending :: "('a \<Rightarrow> 'a \<Rightarrow> int) \<Rightarrow> (nat \<times> nat) list \<Rightarrow> 'a list \<Rightarrow> bool" where
  "pending cmp work xs \<longleftrightarrow> sorted_wrt (\<lambda>r s. snd r < fst s \<or> snd s < fst r) work \<and>
    (\<forall>i j. i < j \<longrightarrow> j < length xs \<longrightarrow> cmp (xs ! i) (xs ! j) \<le> 0 \<or> (\<exists>r \<in> set work. fst r \<le> i \<and> j \<le> snd r))"

lemma pending_step:
  assumes pend: "pending cmp ((lo, hi) # stk) xs" and sh: "shuffled lo hi xs ys"
    and sub: "\<forall>r \<in> set new. lo \<le> fst r \<and> snd r \<le> hi" and dis: "sorted_wrt (\<lambda>r s. snd r < fst s \<or> snd s < fst r) new"
    and inner: "\<And>i j. lo \<le> i \<Longrightarrow> i < j \<Longrightarrow> j \<le> hi \<Longrightarrow> cmp (ys ! i) (ys ! j) \<le> 0 \<or> (\<exists>r \<in> set new. fst r \<le> i \<and> j \<le> snd r)"
  shows "pending cmp (new @ stk) ys"
proof -
  have out: "\<forall>s \<in> set stk. hi < fst s \<or> snd s < lo" using pend by (auto simp: pending_def)
  have old: "cmp (xs ! i) (xs ! j) \<le> 0 \<or> (lo \<le> i \<and> j \<le> hi) \<or> (\<exists>r \<in> set stk. fst r \<le> i \<and> j \<le> snd r)" if "i < j" "j < length xs" for i j
    using pend that by (auto simp: pending_def)
  have "cmp (ys ! i) (ys ! j) \<le> 0 \<or> (\<exists>r \<in> set (new @ stk). fst r \<le> i \<and> j \<le> snd r)" if ij: "i < j" "j < length xs" for i j
  proof -
    have same: "ys ! k = xs ! k" if "k < lo \<or> hi < k" for k using sh that by (auto simp: shuffled_def)
    have from_range: "\<exists>k. lo \<le> k \<and> k \<le> hi \<and> k < length xs \<and> ys ! m = xs ! k" if "lo \<le> m" "m \<le> hi" "m < length xs" for m
      using sh that by (auto simp: shuffled_def)
    consider "lo \<le> i" "j \<le> hi" | "i < lo \<or> hi < i" "j < lo \<or> hi < j" | "lo \<le> i" "i \<le> hi" "hi < j" | "i < lo" "lo \<le> j" "j \<le> hi"
      using ij by linarith
    then show ?thesis
    proof cases
      case 1
      then show ?thesis using inner[of i j] ij by auto
    next
      case 2
      then have "cmp (xs ! i) (xs ! j) \<le> 0 \<or> (\<exists>r \<in> set stk. fst r \<le> i \<and> j \<le> snd r)" using old[OF ij] ij by linarith
      then show ?thesis using 2 same by auto
    next
      case 3
      then obtain k where k: "lo \<le> k" "k \<le> hi" "ys ! i = xs ! k" using from_range[of i] ij by auto
      then have "k < j" using 3 by simp
      moreover have "\<not> (fst r \<le> k \<and> j \<le> snd r)" if "r \<in> set stk" for r using that out k 3 by fastforce
      ultimately have "cmp (xs ! k) (xs ! j) \<le> 0" using old[of k j] ij 3 by auto
      then show ?thesis using k(3) same[of j] 3 by simp
    next
      case 4
      then obtain k where k: "lo \<le> k" "k \<le> hi" "k < length xs" "ys ! j = xs ! k" using from_range[of j] ij by auto
      then have "i < k" using 4 by simp
      moreover have "\<not> (fst r \<le> i \<and> k \<le> snd r)" if "r \<in> set stk" for r using that out k 4 by fastforce
      ultimately have "cmp (xs ! i) (xs ! k) \<le> 0" using old[of i k] k 4 by auto
      then show ?thesis using k(4) same[of i] 4 by simp
    qed
  qed
  moreover have "sorted_wrt (\<lambda>r s. snd r < fst s \<or> snd s < fst r) (new @ stk)"
    using pend dis sub out by (fastforce simp: pending_def sorted_wrt_append)
  ultimately show ?thesis using sh by (auto simp: pending_def shuffled_def)
qed

context comparator begin

lemma ms_partition_pending:
  assumes "pending cmp ((lo, hi) # stk) xs" "ms_partition cmp lo hi xs = Some (ys, l, g)" "next_ranges lo hi l g stk = Some work"
    and big: "lo + 8 \<le> hi"
  shows "pending cmp work ys"
proof -
  note b = ms_partition_bounds[OF assms(2) big]
  have sh: "shuffled lo hi xs ys" using ms_partition_Some[OF big b(6), of cmp] assms(2) by auto
  have ord: "j \<le> g \<or> l \<le> i \<or> cmp (ys ! i) (ys ! j) \<le> 0" if "lo \<le> i" "i < j" "j \<le> hi" for i j
    using ms_partition_parts[OF big b(6)] assms(2) that by auto
  obtain new where new: "work = new @ stk" "set new = {r \<in> {(lo, g), (l, hi)}. fst r < snd r}"
      "new = [] \<or> (\<exists>a. new = [a]) \<or> new = [(lo, g), (l, hi)] \<or> new = [(l, hi), (lo, g)]"
    using next_ranges_cases[OF assms(3)] by blast
  have "cmp (ys ! i) (ys ! j) \<le> 0 \<or> (\<exists>r \<in> set new. fst r \<le> i \<and> j \<le> snd r)" if at: "lo \<le> i" "i < j" "j \<le> hi" for i j
  proof -
    consider "cmp (ys ! i) (ys ! j) \<le> 0" | "j \<le> g" | "l \<le> i" using ord[OF at] by auto
    then show ?thesis
    proof cases
      case 2
      then have "(lo, g) \<in> set new" using at new(2) by simp
      then show ?thesis using 2 at by force
    next
      case 3
      then have "(l, hi) \<in> set new" using at new(2) by simp
      then show ?thesis using 3 at by force
    qed simp
  qed
  moreover have "\<forall>r \<in> set new. lo \<le> fst r \<and> snd r \<le> hi" using b new(2) by auto
  moreover have "sorted_wrt (\<lambda>r s. snd r < fst s \<or> snd s < fst r) new" using new(3) b by auto
  ultimately show ?thesis using pending_step[OF assms(1) sh, of new] new(1) by blast
qed

lemma qsort_loop_sorted:
  "c = cmp \<Longrightarrow> pending c work xs \<Longrightarrow> work_ok (length xs) work \<Longrightarrow> length xs < 2 ^ 64 \<Longrightarrow> qsort_loop c work xs = Some ys \<Longrightarrow>
    i < j \<Longrightarrow> j < length xs \<Longrightarrow> cmp (ys ! i) (ys ! j) \<le> 0"
proof (induction c work xs rule: qsort_loop.induct)
  case (1 c xs)
  then show ?case by (auto simp: pending_def)
next
  case (2 c lo hi stk xs)
  note c = "2.prems"(1)
  show ?case
  proof (cases "hi - lo + 1 \<le> 8")
    case True
    have inb: "hi < length xs" using "2.prems"(3) by simp
    obtain zs where z: "select_sort cmp xs lo hi = Some zs" "shuffled lo hi xs zs"
      using select_sort_Some[OF inb, of cmp lo] by auto
    have "pending cmp ([] @ stk) zs"
      by (rule pending_step[OF "2.prems"(2)[unfolded c] z(2)]) (use select_sort_sorted[OF inb z(1)] in auto)
    then show ?thesis using "2.IH"(1)[OF True, unfolded c, OF z(1)] c "2.prems" True z by (simp add: shuffled_length qsort_loop.simps(2))
  next
    case False
    then have big: "lo + 8 \<le> hi" by simp
    obtain zs l g where p: "ms_partition cmp lo hi xs = Some (zs, l, g)" "shuffled lo hi xs zs"
        "lo \<le> g" "g < hi" "g < l" "lo < l" "l \<le> hi + 1"
      using ms_partition_Some[OF big, of xs cmp] "2.prems" by auto
    obtain work where w: "next_ranges lo hi l g stk = Some work" "work_ok (length xs) work"
      using next_ranges_ok[OF "2.prems"(3) big "2.prems"(4) p(3-7)] by auto
    have "pending cmp work zs" using ms_partition_pending[OF "2.prems"(2)[unfolded c] p(1) w(1) big] .
    then show ?thesis using "2.IH"(2)[OF False, unfolded c, OF p(1) refl refl w(1)] c "2.prems" p w False by (simp add: shuffled_length qsort_loop.simps(2))
  qed
qed

end

section \<open>Properties\<close>

text \<open>
  C31: Whatever the comparator answers, \<^verbatim>\<open>msvcrt_qsort\<close> returns with the same elements, possibly in another
  order: the loops end, no element outside the array is touched, no index goes below zero and the stack of
  62 ranges never overflows.
\<close>

theorem qsort_permutes:
  assumes "length xs < 2 ^ 64"
  shows "\<exists>ys. msvcrt_qsort cmp sz xs = Some ys \<and> mset ys = mset xs"
proof (cases "cmp = None \<or> length xs < 2 \<or> sz = 0")
  case False
  then obtain c where c: "cmp = Some c" "2 \<le> length xs" "sz \<noteq> 0" by auto
  then have "work_ok (length xs) [(0, length xs - 1)]" by (simp add: Suc_le_eq)
  then show ?thesis using qsort_loop_Some[OF _ assms, of "[(0, length xs - 1)]" c] c unfolding msvcrt_qsort_def by simp
qed (auto simp: msvcrt_qsort_def split: option.splits)

theorem qsort_permutes_witness:
  "\<exists>ys. msvcrt_qsort (Some (\<lambda>a b. 1)) 4 [3::int, 1, 2, 9, 8, 7, 6, 5, 4, 0, 3] = Some ys \<and> mset ys = mset [3, 1, 2, 9, 8, 7, 6, 5, 4, 0, 3]"
  by (rule qsort_permutes) simp

text \<open>
  C32: With a comparator whose signs are those of a total preorder, every pair of elements of the result of
  \<^verbatim>\<open>msvcrt_qsort\<close> is in order.
\<close>

theorem qsort_sorts:
  assumes "\<forall>a b. (0 < c a b) = (c b a < 0)" and "\<forall>a b d. c a b \<le> 0 \<longrightarrow> c b d \<le> 0 \<longrightarrow> c a d \<le> 0"
    and "length xs < 2 ^ 64" "sz \<noteq> 0"
  shows "\<exists>ys. msvcrt_qsort (Some c) sz xs = Some ys \<and> (\<forall>i j. i < j \<longrightarrow> j < length ys \<longrightarrow> c (ys ! i) (ys ! j) \<le> 0)"
proof (cases "length xs < 2")
  case True
  then show ?thesis by (auto simp: msvcrt_qsort_def)
next
  case False
  have cmp: "comparator c" by unfold_locales (use assms in blast)+
  have w: "work_ok (length xs) [(0, length xs - 1)]" using False by (simp add: Suc_le_eq)
  obtain ys where y: "qsort_loop c [(0, length xs - 1)] xs = Some ys" "mset ys = mset xs"
    using qsort_loop_Some[OF w assms(3)] by auto
  have "pending c [(0, length xs - 1)] xs" by (auto simp: pending_def)
  then have "\<forall>i j. i < j \<longrightarrow> j < length xs \<longrightarrow> c (ys ! i) (ys ! j) \<le> 0"
    using comparator.qsort_loop_sorted[OF cmp refl _ w assms(3) y(1)] by blast
  then show ?thesis using y False assms(4) mset_eq_length[OF y(2)] by (auto simp: msvcrt_qsort_def)
qed

theorem qsort_sorts_witness:
  "\<exists>ys. msvcrt_qsort (Some (\<lambda>a b. a - b)) 4 [3::int, 1, 2, 9, 8, 7, 6, 5, 4, 0, 3] = Some ys \<and>
    (\<forall>i j. i < j \<longrightarrow> j < length ys \<longrightarrow> (\<lambda>a b. a - b) (ys ! i) (ys ! j) \<le> 0)"
  by (rule qsort_sorts) auto

end
