(* ===== verification/Msvcrt_Wide.thy ===== *)
theory Msvcrt_Wide
  imports Msvcrt_Format Msvcrt_Qsort
begin

text \<open>
  Smaller functions of the C runtime (shim_msvcrt.hpp): strings of 16-bit characters, numbers, \<^verbatim>\<open>scanf\<close>, \<^verbatim>\<open>fgets\<close>,
  signals, \<^verbatim>\<open>setjmp\<close> and \<^verbatim>\<open>longjmp\<close>.  A terminated string is the list of its characters before the
  terminator; a pointer into it is what lies behind it.
\<close>

section \<open>Strings of 16-bit characters\<close>

fun msvcrt_wcslen :: "u16 list option \<Rightarrow> nat" where
  "msvcrt_wcslen None = 0"
| "msvcrt_wcslen (Some s) = length s"

text \<open>
  Copying works on the memory itself, cells of 16 bits: source and destination may overlap, and then the loop
  need not end.
\<close>

partial_function (option) wcscpy_loop :: "(nat \<Rightarrow> u16) \<Rightarrow> nat \<Rightarrow> nat \<Rightarrow> (nat \<Rightarrow> u16) option" where
  "wcscpy_loop m d s = (if m s = 0 then Some (m(d := 0)) else wcscpy_loop (m(d := m s)) (d + 1) (s + 1))"

definition msvcrt_wcscpy :: "(nat \<Rightarrow> u16) \<Rightarrow> nat \<Rightarrow> nat \<Rightarrow> (nat \<Rightarrow> u16) option" where
  "msvcrt_wcscpy m d s = wcscpy_loop m d s"

partial_function (option) wcs_end :: "(nat \<Rightarrow> u16) \<Rightarrow> nat \<Rightarrow> nat option" where
  "wcs_end m d = (if m d = 0 then Some d else wcs_end m (d + 1))"

definition msvcrt_wcscat :: "(nat \<Rightarrow> u16) \<Rightarrow> nat \<Rightarrow> nat \<Rightarrow> (nat \<Rightarrow> u16) option" where
  "msvcrt_wcscat m d s = do { e \<leftarrow> wcs_end m d; wcscpy_loop m e s }"

fun msvcrt_wcschr :: "u16 list \<Rightarrow> u16 \<Rightarrow> u16 list option" where
  "msvcrt_wcschr [] c = (if c = 0 then Some [] else None)"
| "msvcrt_wcschr (a # s) c = (if a = c then Some (a # s) else msvcrt_wcschr s c)"

fun wcsrchr_loop :: "u16 list \<Rightarrow> u16 \<Rightarrow> u16 list option \<Rightarrow> u16 list option" where
  "wcsrchr_loop [] c last_hit = (if c = 0 then Some [] else last_hit)"
| "wcsrchr_loop (a # s) c last_hit = wcsrchr_loop s c (if a = c then Some (a # s) else last_hit)"

definition msvcrt_wcsrchr :: "u16 list \<Rightarrow> u16 \<Rightarrow> u16 list option" where
  "msvcrt_wcsrchr s c = wcsrchr_loop s c None"

definition head_unit :: "u16 list \<Rightarrow> int" where
  "head_unit s = (case s of [] \<Rightarrow> 0 | a # _ \<Rightarrow> uint a)"

fun msvcrt_wcscmp :: "u16 list \<Rightarrow> u16 list \<Rightarrow> int" where
  "msvcrt_wcscmp (a # as) (b # bs) = (if a \<noteq> 0 \<and> a = b then msvcrt_wcscmp as bs else uint a - uint b)"
| "msvcrt_wcscmp as bs = head_unit as - head_unit bs"

text \<open>\<^verbatim>\<open>tolower\<close> in the C locale: an argument outside the table is returned as it is.\<close>

definition c_tolower :: "u16 \<Rightarrow> u16" where
  "c_tolower c = (if 65 \<le> c \<and> c \<le> 90 then c + 32 else c)"

fun msvcrt_wcsicmp :: "u16 list \<Rightarrow> u16 list \<Rightarrow> int" where
  "msvcrt_wcsicmp (a # as) (b # bs) = (if a \<noteq> 0 \<and> c_tolower a = c_tolower b then msvcrt_wcsicmp as bs else uint (c_tolower a) - uint (c_tolower b))"
| "msvcrt_wcsicmp as bs = head_unit (map c_tolower as) - head_unit (map c_tolower bs)"

definition msvcrt_wcslwr :: "u16 list \<Rightarrow> u16 list" where
  "msvcrt_wcslwr s = map c_tolower s"

section \<open>The comparisons as comparators\<close>

text \<open>Both are fit for \<^verbatim>\<open>qsort\<close>; ignoring case is comparing the lower-case strings.\<close>

lemma wcscmp_flip: "msvcrt_wcscmp as bs = - msvcrt_wcscmp bs as"
  by (induction as bs rule: msvcrt_wcscmp.induct) (auto simp: head_unit_def)

lemma wcscmp_trans: "msvcrt_wcscmp as bs \<le> 0 \<Longrightarrow> msvcrt_wcscmp bs cs \<le> 0 \<Longrightarrow> msvcrt_wcscmp as cs \<le> 0"
proof (induction as bs arbitrary: cs rule: msvcrt_wcscmp.induct [case_names both left_end right_end])
  case (both a as b bs)
  show ?case
  proof (cases cs)
    case Nil
    then show ?thesis using both by (auto simp: head_unit_def split: if_splits)
  next
    case (Cons c cs')
    have "a \<noteq> b \<longrightarrow> uint a \<noteq> uint b" "b \<noteq> c \<longrightarrow> uint b \<noteq> uint c" "0 \<le> uint c" by (auto simp: word_uint_eq_iff)
    then show ?thesis using both Cons by (auto split: if_splits)
  qed
next
  case (left_end bs)
  then show ?case by (cases cs) (auto simp: head_unit_def)
next
  case (right_end as)
  then show ?case by (cases as; cases cs) (auto simp: head_unit_def unsigned_eq_0_iff)
qed

lemma c_tolower_0: "c_tolower c = 0 \<longleftrightarrow> c = 0"
proof (cases "65 \<le> c \<and> c \<le> 90")
  case True
  then have "unat (c + 32) = unat c + 32" by (subst unat_plus_if') (auto simp: word_le_nat_alt)
  then have "c + 32 \<noteq> 0" by (metis add_is_0 unat_0 zero_neq_numeral)
  moreover have "c \<noteq> 0" using True by auto
  ultimately show ?thesis using True by (simp add: c_tolower_def)
qed (auto simp: c_tolower_def)

lemma wcsicmp_lower: "msvcrt_wcsicmp as bs = msvcrt_wcscmp (map c_tolower as) (map c_tolower bs)"
  by (induction as bs rule: msvcrt_wcsicmp.induct) (auto simp: c_tolower_0)

interpretation wcs: comparator msvcrt_wcscmp
proof
  fix a b c :: "u16 list"
  show "0 < msvcrt_wcscmp a b \<longleftrightarrow> msvcrt_wcscmp b a < 0" using wcscmp_flip[of a b] by linarith
  show "msvcrt_wcscmp a c \<le> 0" if "msvcrt_wcscmp a b \<le> 0" "msvcrt_wcscmp b c \<le> 0" using wcscmp_trans that by blast
qed

interpretation wcsi: comparator msvcrt_wcsicmp
proof
  fix a b c :: "u16 list"
  show "0 < msvcrt_wcsicmp a b \<longleftrightarrow> msvcrt_wcsicmp b a < 0"
    using wcs.cmp_flip[of "map c_tolower a" "map c_tolower b"] by (simp add: wcsicmp_lower)
  show "msvcrt_wcsicmp a c \<le> 0" if "msvcrt_wcsicmp a b \<le> 0" "msvcrt_wcsicmp b c \<le> 0"
    using wcs.cmp_trans that unfolding wcsicmp_lower by blast
qed

section \<open>Arguments\<close>

text \<open>\<^verbatim>\<open>__wgetmainargs\<close>: each byte of an argument becomes one character.\<close>

definition widen_bytes :: "bytes \<Rightarrow> u16 list" where
  "widen_bytes s = map ucast s"

definition msvcrt_wgetmainargs :: "bytes list \<Rightarrow> bytes list \<Rightarrow> nat \<times> u16 list list \<times> u16 list list \<times> int" where
  "msvcrt_wgetmainargs argv env = (length argv, map widen_bytes argv, map widen_bytes env, 0)"

section \<open>Numbers\<close>

definition digit_char :: "int \<Rightarrow> u8" where
  "digit_char d = (if d < 10 then of_int (48 + d) else of_int (97 + d - 10))"

text \<open>The digits behind \<^verbatim>\<open>%lu\<close> and \<^verbatim>\<open>%lx\<close>.\<close>

function nat_digits :: "nat \<Rightarrow> nat \<Rightarrow> bytes" where
  "nat_digits b n = (if n < b \<or> b < 2 then [digit_char (int n)] else nat_digits b (n div b) @ [digit_char (int (n mod b))])"
  by pat_completeness auto
termination
  by (relation "measure snd") auto

declare nat_digits.simps [simp del]

text \<open>
  The loop of \<^verbatim>\<open>_ultoa\<close>: \<open>i\<close> is the index into \<^verbatim>\<open>tmp[66]\<close>, \<open>None\<close> a division by zero or an index below zero.
\<close>

fun ultoa_loop :: "u64 \<Rightarrow> u64 \<Rightarrow> nat \<Rightarrow> bytes \<Rightarrow> bytes option" where
  "ultoa_loop v r 0 acc = (if v = 0 then Some acc else None)"
| "ultoa_loop v r (Suc i) acc =
     (if v = 0 then Some acc else if r = 0 then None else ultoa_loop (v div r) r i (digit_char (sint (ucast (v mod r) :: u32)) # acc))"

definition msvcrt_ultoa :: "u64 \<Rightarrow> int \<Rightarrow> bytes option" where
  "msvcrt_ultoa val radix =
     (if radix = 10 then Some (nat_digits 10 (unat val))
      else if radix = 16 then Some (nat_digits 16 (unat val))
      else if val = 0 then Some [48]
      else ultoa_loop val (of_int radix) 65 [])"

section \<open>Digits read back\<close>

definition char_digit :: "u8 \<Rightarrow> nat" where
  "char_digit c = (if c \<le> 57 then unat c - 48 else unat c - 87)"

definition digits_value :: "nat \<Rightarrow> bytes \<Rightarrow> nat" where
  "digits_value b s = foldl (\<lambda>v c. v * b + char_digit c) 0 s"

lemma char_digit_char:
  assumes "d < 36"
  shows "char_digit (digit_char (int d)) = d"
proof -
  have "\<forall>d\<in>set [0..<36]. char_digit (digit_char (int d)) = d" by code_simp
  with assms show ?thesis by auto
qed

lemma nat_digits_value:
  assumes "2 \<le> b" "b \<le> 36"
  shows "digits_value b (nat_digits b n) = n"
  using assms
proof (induction b n rule: nat_digits.induct)
  case (1 b n)
  have "n mod b < 36" using 1 by (meson less_le_trans mod_less_divisor not_less zero_less_numeral order.strict_trans1)
  then show ?case
    using 1 by (subst nat_digits.simps) (auto simp: digits_value_def char_digit_char)
qed

lemma nat_digits_length:
  assumes "2 \<le> b" "n < b ^ k" "0 < k"
  shows "length (nat_digits b n) \<le> k"
  using assms
proof (induction b n arbitrary: k rule: nat_digits.induct)
  case (1 b n)
  show ?case
  proof (cases "n < b")
    case True
    then show ?thesis using 1 by (subst nat_digits.simps) auto
  next
    case False
    then obtain j where k: "k = Suc j" "0 < j" using 1(3,4) by (cases k; cases "k - 1") auto
    have "n div b < b ^ j" using 1(3) k by (simp add: less_mult_imp_div_less mult.commute)
    then have "length (nat_digits b (n div b)) \<le> j" using 1(1)[of j] 1(2) False k by auto
    then show ?thesis using False k 1(2) by (subst nat_digits.simps) auto
  qed
qed

lemma digit_of_remainder:
  assumes "unat (r :: u64) \<le> 36" "r \<noteq> 0"
  shows "sint (ucast (v mod r) :: u32) = int (unat v mod unat r)"
proof -
  have lt: "unat v mod unat r < 36" using assms by (metis less_le_trans mod_less_divisor unat_gt_0)
  then have "unat (ucast (v mod r) :: u32) = unat v mod unat r" 
    by (simp add: unsigned_ucast_eq take_bit_nat_eq_self unat_mod_distrib)
  moreover have "sint w = int (unat w)" if "unat w < 36" for w :: u32
  proof -
    have "uint w < 36" using that by (metis int_eq_iff_numeral of_nat_less_iff uint_nat of_nat_numeral)
    moreover have "0 \<le> uint w" by simp
    ultimately have "- 2147483648 \<le> uint w" "uint w < 2147483648" by linarith+
    then show ?thesis by (simp add: sint_uint signed_take_bit_int_eq_self_iff uint_nat[symmetric])
  qed
  ultimately show ?thesis using lt by metis
qed

lemma ultoa_loop_digits:
  assumes "v \<noteq> 0" "2 \<le> unat r" "unat r \<le> 36" "unat v < unat r ^ i"
  shows "ultoa_loop v r i acc = Some (nat_digits (unat r) (unat v) @ acc)"
  using assms
proof (induction i arbitrary: v acc)
  case 0
  then show ?case by (simp add: unsigned_eq_0_iff)
next
  case (Suc i)
  have d: "digit_char (sint (ucast (v mod r) :: u32)) = digit_char (int (unat v mod unat r))" and r0: "r \<noteq> 0"
    using digit_of_remainder[of r v] Suc.prems by fastforce+
  show ?case
  proof (cases "unat v < unat r")
    case True
    then have "unat (v div r) = 0" by (simp add: unat_div_distrib)
    then have "v div r = 0" by (simp only: unsigned_eq_0_iff)
    moreover have "ultoa_loop 0 r i x = Some x" for x by (cases i) auto
    ultimately show ?thesis using True Suc.prems d r0 by (simp add: nat_digits.simps)
  next
    case False
    have q: "unat (v div r) = unat v div unat r" by (simp add: unat_div_distrib)
    then have "unat (v div r) < unat r ^ i" using Suc.prems(4) by (simp add: less_mult_imp_div_less mult.commute)
    moreover have "v div r \<noteq> 0" using q False Suc.prems(2) by (metis div_greater_zero_iff not_less unat_0 zero_less_numeral less_le_trans gr_implies_not0)
    ultimately show ?thesis using Suc.IH[of "v div r"] Suc.prems False d r0 q
      by (subst nat_digits.simps) (auto simp: unat_div_distrib)
  qed
qed

text \<open>
  \<^verbatim>\<open>_ultoa\<close> with a radix from 2 to 36 always ends inside its \<^verbatim>\<open>tmp\<close> and writes at most 64
  digits, which read back in that radix as the number.
\<close>

theorem ultoa_roundtrip:
  assumes "2 \<le> radix" "radix \<le> 36"
  shows "\<exists>s. msvcrt_ultoa v radix = Some s \<and> 0 < length s \<and> length s \<le> 64 \<and> digits_value (nat radix) s = unat v"
proof -
  let ?b = "nat radix"
  have b: "2 \<le> ?b" "?b \<le> 36" using assms by auto
  have r: "unat (of_int radix :: u64) = ?b" using assms by (simp add: unsigned_of_int take_bit_int_eq_self)
  have lt: "unat v < ?b ^ 64"
  proof -
    have "unat v < 2 ^ 64" using unsigned_less[of v] by simp
    also have "2 ^ 64 \<le> ?b ^ 64" using b(1) by (rule power_mono) simp
    finally show ?thesis .
  qed
  moreover have "?b ^ 64 \<le> ?b ^ 65" using b(1) by (intro power_increasing) auto
  ultimately have "unat v < ?b ^ 65" by linarith
  then have "msvcrt_ultoa v radix = Some (nat_digits ?b (unat v))"
    using ultoa_loop_digits[of v "of_int radix" 65 "[]"] b r assms
    by (auto simp: msvcrt_ultoa_def nat_digits.simps[of _ 0] digit_char_def)
  moreover have "nat_digits ?b (unat v) \<noteq> []" by (subst nat_digits.simps) auto
  ultimately show ?thesis using nat_digits_length[OF b(1) lt] nat_digits_value[OF b] by auto
qed

theorem ultoa_roundtrip_witness:
  "\<exists>s. msvcrt_ultoa 255 2 = Some s \<and> 0 < length s \<and> length s \<le> 64 \<and> digits_value 2 s = 255"
  using ultoa_roundtrip[of 2 255] by simp

section \<open>Input\<close>

text \<open>What the successive one-byte reads answer; \<open>None\<close> is a read that never returns.\<close>

datatype read_result = Got u8 | Interrupted | No_More

fun fgets_loop :: "nat \<Rightarrow> read_result list \<Rightarrow> bytes \<Rightarrow> (bytes \<times> read_result list) option" where
  "fgets_loop 0 rs buf = Some (buf, rs)"
| "fgets_loop (Suc n) [] buf = None"
| "fgets_loop (Suc n) (r # rs) buf = (case r of
     Interrupted \<Rightarrow> fgets_loop (Suc n) rs buf
   | No_More \<Rightarrow> Some (buf, rs)
   | Got c \<Rightarrow> if c = 10 then Some (buf @ [c], rs) else fgets_loop n rs (buf @ [c]))"

text \<open>The line, or the null pointer when not a byte came.\<close>

definition msvcrt_fgets :: "bool \<Rightarrow> int \<Rightarrow> read_result list \<Rightarrow> (bytes option \<times> read_result list) option" where
  "msvcrt_fgets buf_null n rs =
     (if buf_null \<or> n \<le> 0 then Some (None, rs)
      else map_option (\<lambda>(buf, rs'). (if buf = [] then None else Some (buf @ [0]), rs')) (fgets_loop (nat (n - 1)) rs []))"

text \<open>\<^verbatim>\<open>scanf\<close> on the line that was read; \<open>src\<close> is what is left of it before its terminator.\<close>

datatype stored = Stored_Int u64 u32 | Stored_Str u64 bytes | Stored_Char u64 u8

definition is_blank :: "u8 \<Rightarrow> bool" where
  "is_blank c \<longleftrightarrow> c = 32 \<or> c = 9"

definition is_space3 :: "u8 \<Rightarrow> bool" where
  "is_space3 c \<longleftrightarrow> c = 32 \<or> c = 9 \<or> c = 10"

text \<open>A run of digits as a \<^verbatim>\<open>long\<close>; overflow is undefined.\<close>

fun scan_digits :: "int \<Rightarrow> bytes \<Rightarrow> (int \<times> bytes) option" where
  "scan_digits v [] = Some (v, [])"
| "scan_digits v (c # s) =
     (if is_digit c then (if v * 10 + int (unat c - 48) < 2 ^ 63 then scan_digits (v * 10 + int (unat c - 48)) s else None) else Some (v, c # s))"

record scan_state =
  sc_src :: bytes
  sc_arg :: nat
  sc_count :: nat
  sc_stored :: "stored list"

definition scan_store :: "bool \<Rightarrow> (nat \<Rightarrow> u64) \<Rightarrow> (u64 \<Rightarrow> stored list) \<Rightarrow> scan_state \<Rightarrow> scan_state" where
  "scan_store suppress args st s =
     (if suppress then s
      else s\<lparr>sc_arg := sc_arg s + 1, sc_count := sc_count s + 1,
        sc_stored := sc_stored s @ (if args (sc_arg s) = 0 then [] else st (args (sc_arg s)))\<rparr>)"

definition scan_int :: "bool \<Rightarrow> (nat \<Rightarrow> u64) \<Rightarrow> scan_state \<Rightarrow> scan_state option" where
  "scan_int suppress args s = do {
     let src = dropWhile is_blank (sc_src s);
     let neg = (case src of c # _ \<Rightarrow> c = 45 | [] \<Rightarrow> False);
     (v, src') \<leftarrow> scan_digits 0 (if neg then tl src else src);
     Some (scan_store suppress args (\<lambda>a. [Stored_Int a (of_int (if neg then - v else v))]) (s\<lparr>sc_src := src'\<rparr>)) }"

definition scan_str :: "bool \<Rightarrow> (nat \<Rightarrow> u64) \<Rightarrow> scan_state \<Rightarrow> scan_state" where
  "scan_str suppress args s = (
     let src = dropWhile is_blank (sc_src s);
         word = takeWhile (\<lambda>c. \<not> is_space3 c) src;
         consumed = (suppress \<or> args (sc_arg s) \<noteq> 0) in
     scan_store suppress args (\<lambda>a. [Stored_Str a word]) (s\<lparr>sc_src := (if consumed then drop (length word) src else src)\<rparr>))"

definition scan_char :: "bool \<Rightarrow> (nat \<Rightarrow> u64) \<Rightarrow> scan_state \<Rightarrow> scan_state" where
  "scan_char suppress args s = (case sc_src s of
     [] \<Rightarrow> scan_store suppress args (\<lambda>a. []) s
   | c # src \<Rightarrow> scan_store suppress args (\<lambda>a. [Stored_Char a c])
       (s\<lparr>sc_src := (if suppress \<or> args (sc_arg s) \<noteq> 0 then src else c # src)\<rparr>))"

definition scan_directive :: "u8 \<Rightarrow> bool \<Rightarrow> (nat \<Rightarrow> u64) \<Rightarrow> scan_state \<Rightarrow> scan_state option" where
  "scan_directive c suppress args s =
     (if c = 100 \<or> c = 105 then scan_int suppress args s
      else if c = 115 then Some (scan_str suppress args s)
      else if c = 99 then Some (scan_char suppress args s)
      else Some s)"

function scanf_loop :: "(nat \<Rightarrow> u64) \<Rightarrow> bytes \<Rightarrow> scan_state \<Rightarrow> scan_state option" where
  "scanf_loop args [] s = None"
| "scanf_loop args (c # p) s =
     (if c = 0 then Some s
      else if c \<noteq> 37 then scanf_loop args p (case sc_src s of d # src \<Rightarrow> if d = c then s\<lparr>sc_src := src\<rparr> else s | [] \<Rightarrow> s)
      else (case p of
          [] \<Rightarrow> None
        | d # q \<Rightarrow>
            if d = 42 then (case q of
                [] \<Rightarrow> None
              | e # q' \<Rightarrow> (case scan_directive e True args s of None \<Rightarrow> None | Some s' \<Rightarrow> scanf_loop args q' s'))
            else (case scan_directive d False args s of None \<Rightarrow> None | Some s' \<Rightarrow> scanf_loop args q s')))"
  by pat_completeness auto
termination
  by (relation "measure (\<lambda>(args, p, s). length p)") auto

declare scanf_loop.simps(2) [simp del]

text \<open>\<open>line\<close> is what \<^verbatim>\<open>read\<close> delivered, at most 4095 bytes; nothing is the end of the input.\<close>

definition msvcrt_scanf :: "(nat \<Rightarrow> u64) \<Rightarrow> bytes \<Rightarrow> bytes \<Rightarrow> (int \<times> stored list) option" where
  "msvcrt_scanf args line fmt =
     (if line = [] then Some (- 1, [])
      else map_option (\<lambda>s. (int (sc_count s), sc_stored s))
        (scanf_loop args fmt \<lparr>sc_src = takeWhile (\<lambda>b. b \<noteq> 0) line, sc_arg = 0, sc_count = 0, sc_stored = []\<rparr>))"

end
