(* ===== verification/Msvcrt_Signal.thy ===== *)
theory Msvcrt_Signal
  imports Prelude
begin

text \<open>
  Signals, \<^verbatim>\<open>_setjmp\<close> and \<^verbatim>\<open>longjmp\<close>, the standard streams and the start-up helpers of the C runtime
  (shim_msvcrt.hpp).
\<close>

section \<open>Signals\<close>

text \<open>
  The tables \<^verbatim>\<open>g_msvcrt_sighandlers\<close> and \<^verbatim>\<open>g_msvcrt_winsig\<close>, and the dispositions the kernel holds for the process.
  A handler is its address, 0 is \<^verbatim>\<open>SIG_DFL\<close> and 1 is \<^verbatim>\<open>SIG_IGN\<close>.
\<close>

record sig_state =
  g_msvcrt_sighandlers :: "nat \<Rightarrow> u64"
  g_msvcrt_winsig :: "nat \<Rightarrow> int"
  dispositions :: "nat \<Rightarrow> u64"

text \<open>\<^verbatim>\<open>sigaction\<close> refuses signal 0, \<^verbatim>\<open>SIGKILL\<close>, \<^verbatim>\<open>SIGSTOP\<close> and the two signals the C library keeps for itself.\<close>

definition sigaction_ok :: "nat \<Rightarrow> bool" where
  "sigaction_ok n \<longleftrightarrow> n \<notin> {0, 9, 19, 32, 33} \<and> n < 65"

text \<open>The old disposition; the caller's zeroed structure is left alone on failure.\<close>

definition sigaction :: "nat \<Rightarrow> u64 \<Rightarrow> sig_state \<Rightarrow> u64 \<times> sig_state" where
  "sigaction n h s = (if sigaction_ok n then (dispositions s n, s\<lparr>dispositions := (dispositions s)(n := h)\<rparr>) else (0, s))"

definition linux_signal :: "int \<Rightarrow> int" where
  "linux_signal sig = (if sig = 22 then 6 else sig)"

text \<open>\<open>tramp\<close> is the address of \<^verbatim>\<open>msvcrt_signal_trampoline\<close>.\<close>

definition msvcrt_signal :: "u64 \<Rightarrow> int \<Rightarrow> u64 \<Rightarrow> sig_state \<Rightarrow> u64 \<times> sig_state" where
  "msvcrt_signal tramp sig handler s = (
     let lsig = linux_signal sig; n = nat lsig in
     if lsig < 0 \<or> lsig \<ge> 64 then (- 1, s)
     else let prev = g_msvcrt_sighandlers s n;
              keep = \<not> (handler = 0 \<or> handler = 1);
              s1 = s\<lparr>g_msvcrt_sighandlers := (g_msvcrt_sighandlers s)(n := if keep then handler else 0),
                     g_msvcrt_winsig := (g_msvcrt_winsig s)(n := if keep then sig else 0)\<rparr>;
              (old, s2) = sigaction n (if keep then tramp else handler) s1 in
          (if prev \<noteq> 0 then prev else old, s2))"

text \<open>The handler that the trampoline calls and its argument.\<close>

definition msvcrt_signal_trampoline :: "int \<Rightarrow> sig_state \<Rightarrow> (u64 \<times> int) option" where
  "msvcrt_signal_trampoline sig s =
     (if sig < 0 \<or> sig \<ge> 64 then None
      else if g_msvcrt_sighandlers s (nat sig) \<noteq> 0 then Some (g_msvcrt_sighandlers s (nat sig), g_msvcrt_winsig s (nat sig))
      else None)"

text \<open>What a signal that arrives does.\<close>

datatype delivery = Default_Action | Ignored | Calls "(u64 \<times> int) option" | Raw_Call u64

definition deliver :: "u64 \<Rightarrow> nat \<Rightarrow> sig_state \<Rightarrow> delivery" where
  "deliver tramp n s = (
     let h = dispositions s n in
     if h = 0 then Default_Action else if h = 1 then Ignored
     else if h = tramp then Calls (msvcrt_signal_trampoline (int n) s) else Raw_Call h)"

text \<open>The state the library starts in: no handler of the client, whatever dispositions the process inherited.\<close>

definition sig_init :: "(nat \<Rightarrow> u64) \<Rightarrow> sig_state" where
  "sig_init d = \<lparr>g_msvcrt_sighandlers = (\<lambda>_. 0), g_msvcrt_winsig = (\<lambda>_. 0), dispositions = d\<rparr>"

text \<open>A signal that goes to the trampoline has a handler; a recorded handler is a real address.\<close>

definition sig_inv :: "u64 \<Rightarrow> sig_state \<Rightarrow> bool" where
  "sig_inv tramp s \<longleftrightarrow>
     (\<forall>n. dispositions s n = tramp \<longrightarrow> g_msvcrt_sighandlers s n \<noteq> 0 \<and> sigaction_ok n) \<and> (\<forall>n. g_msvcrt_sighandlers s n \<notin> {1, tramp})"

inductive sig_reach :: "u64 \<Rightarrow> sig_state \<Rightarrow> bool" for tramp where
  start: "(\<forall>n. d n \<noteq> tramp) \<Longrightarrow> sig_reach tramp (sig_init d)"
| call: "sig_reach tramp s \<Longrightarrow> h \<noteq> tramp \<Longrightarrow> sig_reach tramp (snd (msvcrt_signal tramp sig h s))"

lemmas sig_defs = msvcrt_signal_def sigaction_def Let_def

lemma signal_inv:
  assumes "sig_inv tramp s" "h \<noteq> tramp" "1 < tramp"
  shows "sig_inv tramp (snd (msvcrt_signal tramp sig h s))"
proof -
  have "tramp \<noteq> 0" "tramp \<noteq> 1" using assms(3) by auto
  then show ?thesis using assms(1,2) unfolding sig_inv_def by (auto simp: sig_defs)
qed

lemma sig_reach_inv: "sig_reach tramp s \<Longrightarrow> 1 < tramp \<Longrightarrow> sig_inv tramp s"
  by (induction rule: sig_reach.induct) (auto simp: signal_inv, auto simp: sig_inv_def sig_init_def)

text \<open>
  After any calls of \<^verbatim>\<open>signal\<close>, a client that registers a handler for a signal \<^verbatim>\<open>sigaction\<close> accepts has it called, with
  the number it registered (22 for \<^verbatim>\<open>SIGABRT\<close>, though Linux delivers 6), and the next call of \<^verbatim>\<open>signal\<close> gives that
  handler back; no call ever gives out the address of the trampoline.
\<close>

theorem signal_delivers:
  assumes "sig_reach tramp s" "1 < tramp" "tramp \<noteq> - 1" "1 < h" "h \<noteq> tramp" "0 \<le> linux_signal sig" "linux_signal sig < 64"
    and "sigaction_ok (nat (linux_signal sig))"
  shows "(let (r, s') = msvcrt_signal tramp sig h s in
      deliver tramp (nat (linux_signal sig)) s' = Calls (Some (h, sig)) \<and> (\<forall>g. fst (msvcrt_signal tramp sig g s') = h)) \<and>
    (\<forall>k g. fst (msvcrt_signal tramp k g s) \<noteq> tramp)"
proof -
  have n: "tramp \<noteq> 0" "tramp \<noteq> 1" "h \<noteq> 0" "h \<noteq> 1" using assms(2,4) by auto
  have "sig_inv tramp s" using assms(1,2) by (rule sig_reach_inv)
  then have "fst (msvcrt_signal tramp k g s) \<noteq> tramp" for k g
    using n assms(3) by (auto simp: sig_defs sig_inv_def)
  then show ?thesis using n assms(6-8) by (simp add: sig_defs deliver_def msvcrt_signal_trampoline_def)
qed

theorem signal_delivers_witness:
  "deliver 4096 6 (snd (msvcrt_signal 4096 22 8192 (sig_init (\<lambda>_. 0)))) = Calls (Some (8192, 22))"
proof -
  have "sig_reach 4096 (sig_init (\<lambda>_. 0))" by (rule sig_reach.start) simp
  from signal_delivers[OF this, of 8192 22] show ?thesis by (simp add: linux_signal_def sigaction_ok_def Let_def split: prod.splits)
qed

text \<open>\<^verbatim>\<open>signal(SIGKILL, h)\<close> does not report the failure, and records a handler that is never called.\<close>

lemma signal_kill_silent:
  "let (r, s) = msvcrt_signal 4096 9 8192 (sig_init (\<lambda>_. 0)) in
    r = 0 \<and> g_msvcrt_sighandlers s 9 = 8192 \<and> deliver 4096 9 s = Default_Action"
  by (simp add: sig_defs deliver_def linux_signal_def sigaction_ok_def sig_init_def)

section \<open>setjmp and longjmp\<close>

text \<open>
  The registers that the two routines touch, and the memory as cells of 8 bytes by address.  The stack pointer and
  the buffer are aligned to 8 bytes.
\<close>

record jmp_cpu =
  rax :: u64
  rbx :: u64
  rcx :: u64
  rdx :: u64
  jmp_rsp :: u64
  rbp :: u64
  rsi :: u64
  jmp_rdi :: u64
  r10 :: u64
  r11 :: u64
  r12 :: u64
  r13 :: u64
  r14 :: u64
  r15 :: u64
  jmp_rip :: u64
  xmm6_15 :: "nat \<Rightarrow> u64 \<times> u64"
  cells :: "u64 \<Rightarrow> u64"

text \<open>A store to the buffer at \<^verbatim>\<open>rcx\<close>; the instructions of \<^verbatim>\<open>_setjmp\<close> in order.\<close>

definition save_reg :: "u64 \<Rightarrow> (jmp_cpu \<Rightarrow> u64) \<Rightarrow> jmp_cpu \<Rightarrow> jmp_cpu" where
  "save_reg k r s = s\<lparr>cells := (cells s)(rcx s + k := r s)\<rparr>"

definition near_ret :: "jmp_cpu \<Rightarrow> jmp_cpu" where
  "near_ret s = s\<lparr>jmp_rip := cells s (jmp_rsp s), jmp_rsp := jmp_rsp s + 8\<rparr>"

definition load_rax :: "(jmp_cpu \<Rightarrow> u64) \<Rightarrow> jmp_cpu \<Rightarrow> jmp_cpu" where
  "load_rax v s = s\<lparr>rax := v s\<rparr>"

definition msvcrt_setjmp :: "jmp_cpu \<Rightarrow> jmp_cpu" where
  "msvcrt_setjmp s = fold (\<lambda>i s. i s)
     [save_reg 0 rdx,
      save_reg 8 rbx,
      load_rax (\<lambda>s. jmp_rsp s + 8),
      save_reg 16 rax,
      save_reg 24 rbp,
      save_reg 32 rsi,
      save_reg 40 jmp_rdi,
      save_reg 48 r12,
      save_reg 56 r13,
      save_reg 64 r14,
      save_reg 72 r15,
      load_rax (\<lambda>s. cells s (jmp_rsp s)),
      save_reg 80 rax,
      load_rax (\<lambda>s. 0),
      near_ret] s"

definition msvcrt_longjmp :: "jmp_cpu \<Rightarrow> jmp_cpu" where
  "msvcrt_longjmp s0 = (
     let b = rcx s0; m = cells s0;
         s1 = s0\<lparr>r10 := m (b + 16), r11 := m (b + 80), rbx := m (b + 8), rbp := m (b + 24), rsi := m (b + 32), jmp_rdi := m (b + 40),
                 r12 := m (b + 48), r13 := m (b + 56), r14 := m (b + 64), r15 := m (b + 72)\<rparr>;
         s2 = s1\<lparr>rax := ucast (ucast (rdx s1) :: u32)\<rparr>;
         s3 = (if rax s2 = 0 then s2\<lparr>rax := 1\<rparr> else s2) in
     s3\<lparr>jmp_rsp := r10 s3, jmp_rip := r11 s3\<rparr>)"

text \<open>The registers a function of the Windows convention keeps for its caller, the integer ones.\<close>

definition callee_saved :: "jmp_cpu \<Rightarrow> u64 list" where
  "callee_saved s = [rbx s, jmp_rsp s, rbp s, rsi s, jmp_rdi s, r12 s, r13 s, r14 s, r15 s, jmp_rip s]"

definition jump_slots :: "u64 \<Rightarrow> u64 list" where
  "jump_slots b = map (\<lambda>k. b + k) [0, 8, 16, 24, 32, 40, 48, 56, 64, 72, 80]"

lemma save_reg_simps [simp]:
  "rax (save_reg k r s) = rax s" "rbx (save_reg k r s) = rbx s" "rcx (save_reg k r s) = rcx s" "rdx (save_reg k r s) = rdx s"
  "jmp_rsp (save_reg k r s) = jmp_rsp s" "rbp (save_reg k r s) = rbp s" "rsi (save_reg k r s) = rsi s" "jmp_rdi (save_reg k r s) = jmp_rdi s"
  "r12 (save_reg k r s) = r12 s" "r13 (save_reg k r s) = r13 s" "r14 (save_reg k r s) = r14 s" "r15 (save_reg k r s) = r15 s"
  "cells (save_reg k r s) = (cells s)(rcx s + k := r s)"
  by (simp_all add: save_reg_def)

lemma load_rax_simps [simp]:
  "rax (load_rax v s) = v s" "rbx (load_rax v s) = rbx s" "rcx (load_rax v s) = rcx s" "rdx (load_rax v s) = rdx s"
  "jmp_rsp (load_rax v s) = jmp_rsp s" "rbp (load_rax v s) = rbp s" "rsi (load_rax v s) = rsi s" "jmp_rdi (load_rax v s) = jmp_rdi s"
  "r12 (load_rax v s) = r12 s" "r13 (load_rax v s) = r13 s" "r14 (load_rax v s) = r14 s" "r15 (load_rax v s) = r15 s"
  "cells (load_rax v s) = cells s"
  by (simp_all add: load_rax_def)

lemma near_ret_simps [simp]:
  "rax (near_ret s) = rax s" "rbx (near_ret s) = rbx s" "rcx (near_ret s) = rcx s" "rbp (near_ret s) = rbp s" "rsi (near_ret s) = rsi s" "jmp_rdi (near_ret s) = jmp_rdi s"
  "r12 (near_ret s) = r12 s" "r13 (near_ret s) = r13 s" "r14 (near_ret s) = r14 s" "r15 (near_ret s) = r15 s" "cells (near_ret s) = cells s"
  "jmp_rip (near_ret s) = cells s (jmp_rsp s)" "jmp_rsp (near_ret s) = jmp_rsp s + 8"
  by (simp_all add: near_ret_def)

lemma setjmp_keeps:
  "rbx (msvcrt_setjmp s) = rbx s" "rcx (msvcrt_setjmp s) = rcx s" "rbp (msvcrt_setjmp s) = rbp s" "rsi (msvcrt_setjmp s) = rsi s"
  "jmp_rdi (msvcrt_setjmp s) = jmp_rdi s" "r12 (msvcrt_setjmp s) = r12 s" "r13 (msvcrt_setjmp s) = r13 s" "r14 (msvcrt_setjmp s) = r14 s"
  "r15 (msvcrt_setjmp s) = r15 s" "jmp_rsp (msvcrt_setjmp s) = jmp_rsp s + 8" "rax (msvcrt_setjmp s) = 0"
  by (simp_all add: msvcrt_setjmp_def)

lemma setjmp_saves:
  assumes "jmp_rsp s \<notin> set (jump_slots (rcx s))"
  defines "m \<equiv> cells (msvcrt_setjmp s)" and "b \<equiv> rcx s"
  shows "m (b + 8) = rbx s" "m (b + 16) = jmp_rsp s + 8" "m (b + 24) = rbp s" "m (b + 32) = rsi s" "m (b + 40) = jmp_rdi s"
    "m (b + 48) = r12 s" "m (b + 56) = r13 s" "m (b + 64) = r14 s" "m (b + 72) = r15 s" "m (b + 80) = cells s (jmp_rsp s)"
    "jmp_rip (msvcrt_setjmp s) = cells s (jmp_rsp s)"
  using assms(1) unfolding m_def b_def by (simp_all add: msvcrt_setjmp_def jump_slots_def)

text \<open>
  C35: \<^verbatim>\<open>longjmp\<close> on a buffer that \<^verbatim>\<open>_setjmp\<close> filled resumes behind that call of \<^verbatim>\<open>_setjmp\<close>: instruction and stack pointer
  and the integer registers a Windows callee keeps are those \<^verbatim>\<open>_setjmp\<close> returned with, whatever they have become
  since, and \<^verbatim>\<open>eax\<close> is the second argument, or 1 when that is 0.
\<close>

theorem setjmp_longjmp:
  assumes "jmp_rsp s \<notin> set (jump_slots (rcx s))"
    and "rcx t = rcx s" and "\<forall>a\<in>set (jump_slots (rcx s)). cells t a = cells (msvcrt_setjmp s) a"
  shows "callee_saved (msvcrt_longjmp t) = callee_saved (msvcrt_setjmp s) \<and> rax (msvcrt_setjmp s) = 0 \<and>
    rax (msvcrt_longjmp t) = (if ucast (rdx t) = (0 :: u32) then 1 else ucast (ucast (rdx t) :: u32))"
proof -
  have m: "cells t (rcx s + k) = cells (msvcrt_setjmp s) (rcx s + k)" if "k \<in> set [8, 16, 24, 32, 40, 48, 56, 64, 72, 80]" for k
    using assms(3) that by (auto simp: jump_slots_def)
  have r: "(ucast (w :: u32) :: u64) = 0 \<longleftrightarrow> w = 0" for w
    by (metis unat_ucast_u32_u64 unsigned_0 unsigned_eq_0_iff)
  show ?thesis
    using assms(2) setjmp_saves[OF assms(1)] by (simp add: callee_saved_def msvcrt_longjmp_def Let_def setjmp_keeps m r)
qed

definition sample_cpu :: jmp_cpu where
  "sample_cpu = \<lparr>rax = 0, rbx = 1, rcx = 4096, rdx = 7, jmp_rsp = 8192, rbp = 2, rsi = 3, jmp_rdi = 4, r10 = 5, r11 = 6, r12 = 7, r13 = 8,
    r14 = 9, r15 = 10, jmp_rip = 11, xmm6_15 = (\<lambda>_. (0, 0)), cells = (\<lambda>a. a)\<rparr>"

theorem setjmp_longjmp_witness:
  "callee_saved (msvcrt_longjmp ((msvcrt_setjmp sample_cpu)\<lparr>rbx := 99, jmp_rsp := 4, rdx := 0\<rparr>)) = callee_saved (msvcrt_setjmp sample_cpu)"
proof -
  have "jmp_rsp sample_cpu \<notin> set (jump_slots (rcx sample_cpu))" by (simp add: sample_cpu_def jump_slots_def)
  moreover have "rcx ((msvcrt_setjmp sample_cpu)\<lparr>rbx := 99, jmp_rsp := 4, rdx := 0\<rparr>) = rcx sample_cpu" by (simp add: setjmp_keeps)
  ultimately show ?thesis
    using setjmp_longjmp[of sample_cpu "(msvcrt_setjmp sample_cpu)\<lparr>rbx := 99, jmp_rsp := 4, rdx := 0\<rparr>"] by simp
qed

text \<open>The vector registers that a Windows callee keeps are not among the saved ones.\<close>

lemma longjmp_xmm: "xmm6_15 (msvcrt_longjmp t) = xmm6_15 t"
  by (simp add: msvcrt_longjmp_def Let_def)

section \<open>Standard streams, locks and tables\<close>

text \<open>\<^verbatim>\<open>g_fake_iob\<close>: three records of 48 bytes, the descriptor in the four bytes from 28; \<open>fileno\<close> is the C library's.\<close>

definition put_int32 :: "nat \<Rightarrow> u8 \<Rightarrow> u8 list \<Rightarrow> u8 list" where
  "put_int32 k v bs = (((bs[k := v])[k + 1 := 0])[k + 2 := 0])[k + 3 := 0]"

definition init_fake_iob :: "u8 list" where
  "init_fake_iob = put_int32 124 2 (put_int32 120 2 (put_int32 76 1 (put_int32 72 2 (put_int32 28 0 (put_int32 24 1 (replicate 144 0))))))"

definition iob_int :: "u8 list \<Rightarrow> nat \<Rightarrow> u32" where
  "iob_int bs k = ucast (bs ! k) OR push_bit 8 (ucast (bs ! (k + 1))) OR push_bit 16 (ucast (bs ! (k + 2))) OR push_bit 24 (ucast (bs ! (k + 3)))"

definition win_file_to_fd :: "u8 list \<Rightarrow> nat \<Rightarrow> (nat \<Rightarrow> int) \<Rightarrow> nat \<Rightarrow> int" where
  "win_file_to_fd iob base fileno f =
     (if base \<le> f \<and> f < base + 144 then sint (iob_int iob (((f - base) div 48) * 48 + 28)) else fileno f)"

lemma stream_descriptor:
  assumes "i < 3" "k < 48"
  shows "win_file_to_fd init_fake_iob base fileno (base + 48 * i + k) = int i"
proof -
  have "\<forall>i\<in>set [0..<3]. sint (iob_int init_fake_iob (i * 48 + 28)) = int i" by code_simp
  then have "sint (iob_int init_fake_iob (i * 48 + 28)) = int i" using assms by simp
  then show ?thesis using assms by (simp add: win_file_to_fd_def)
qed

text \<open>The recursive locks of \<^verbatim>\<open>_lock\<close>: owner and depth; \<open>None\<close> when the caller has to wait, or unlocks what it does not own.\<close>

type_synonym crt_locks = "nat \<Rightarrow> (nat \<times> nat) option"

definition msvcrt_lock :: "nat \<Rightarrow> int \<Rightarrow> crt_locks \<Rightarrow> crt_locks option" where
  "msvcrt_lock me n l =
     (if n < 0 \<or> n \<ge> 32 then Some l
      else case l (nat n) of None \<Rightarrow> Some (l(nat n := Some (me, 1)))
           | Some (t, d) \<Rightarrow> if t = me then Some (l(nat n := Some (me, d + 1))) else None)"

definition msvcrt_unlock :: "nat \<Rightarrow> int \<Rightarrow> crt_locks \<Rightarrow> crt_locks option" where
  "msvcrt_unlock me n l =
     (if n < 0 \<or> n \<ge> 32 then Some l
      else case l (nat n) of None \<Rightarrow> None
           | Some (t, d) \<Rightarrow> if t \<noteq> me then None else Some (l(nat n := if d \<le> 1 then None else Some (me, d - 1))))"

lemma unlock_lock:
  assumes "msvcrt_lock me n l = Some l'" "\<forall>i t d. l i = Some (t, d) \<longrightarrow> 0 < d"
  shows "msvcrt_unlock me n l' = Some l"
  using assms by (fastforce simp: msvcrt_lock_def msvcrt_unlock_def fun_upd_idem_iff split: if_splits option.splits)

text \<open>\<^verbatim>\<open>_initterm\<close>: the functions that are called, in order.\<close>

definition msvcrt_initterm :: "u64 list \<Rightarrow> u64 list" where
  "msvcrt_initterm table = [fn \<leftarrow> table. fn \<noteq> 0]"

text \<open>\<^verbatim>\<open>__getmainargs\<close>: the count, the vector and the environment, expansion of wildcards ignored.\<close>

definition msvcrt_getmainargs :: "'a list \<Rightarrow> 'a list \<Rightarrow> nat \<times> 'a list \<times> 'a list \<times> int \<times> int" where
  "msvcrt_getmainargs main_argv environ = (length main_argv, main_argv, environ, 0, 0)"

section \<open>Output streams\<close>

text \<open>
  Bytes that reached the descriptor, and those the C library's own \<^verbatim>\<open>stdout\<close> holds back.  \<open>drain\<close> is its buffering:
  how many held bytes it sends after an output.
\<close>

record out_state =
  sent :: "u8 list"
  held :: "u8 list"

definition libc_put :: "(u8 list \<Rightarrow> nat) \<Rightarrow> u8 list \<Rightarrow> out_state \<Rightarrow> out_state" where
  "libc_put drain bs s = (let h = held s @ bs in s\<lparr>sent := sent s @ take (drain h) h, held := drop (drain h) h\<rparr>)"

definition msvcrt_puts :: "(u8 list \<Rightarrow> nat) \<Rightarrow> u8 list \<Rightarrow> out_state \<Rightarrow> out_state" where
  "msvcrt_puts drain bs = libc_put drain (bs @ [10])"

definition msvcrt_putchar :: "(u8 list \<Rightarrow> nat) \<Rightarrow> u8 \<Rightarrow> out_state \<Rightarrow> out_state" where
  "msvcrt_putchar drain c = libc_put drain [c]"

text \<open>\<^verbatim>\<open>printf\<close>, \<^verbatim>\<open>fputc\<close> and \<^verbatim>\<open>fwrite\<close> write to the descriptor; here the write takes everything.\<close>

definition fd_write :: "u8 list \<Rightarrow> out_state \<Rightarrow> out_state" where
  "fd_write bs s = s\<lparr>sent := sent s @ bs\<rparr>"

definition msvcrt_fflush :: "out_state \<Rightarrow> int \<times> out_state" where
  "msvcrt_fflush s = (0, s)"

text \<open>The stream is flushed when the process exits.\<close>

definition at_exit :: "out_state \<Rightarrow> u8 list" where
  "at_exit s = sent s @ held s"

text \<open>With nothing held back the order is that of the calls; otherwise \<^verbatim>\<open>fflush\<close> does not help.\<close>

lemma unbuffered_order:
  assumes "drain = length" "held s = []"
  shows "sent (fd_write b (msvcrt_puts drain a s)) = sent s @ a @ [10] @ b"
  using assms by (simp add: msvcrt_puts_def libc_put_def fd_write_def)

text \<open>
  When \<^verbatim>\<open>stdout\<close> is a pipe or a file, so that the C library holds its output back, a \<^verbatim>\<open>puts\<close> followed by \<^verbatim>\<open>fflush\<close>
  and \<^verbatim>\<open>printf\<close> comes out after what \<^verbatim>\<open>printf\<close> wrote: \<^verbatim>\<open>fflush\<close> leaves the text where it is.
\<close>

lemma fflush_keeps_order_wrong:
  "at_exit (fd_write b (snd (msvcrt_fflush (msvcrt_puts (\<lambda>_. 0) a \<lparr>sent = s, held = []\<rparr>)))) = s @ b @ a @ [10]"
  by (simp add: at_exit_def fd_write_def msvcrt_fflush_def msvcrt_puts_def libc_put_def)

text \<open>Results of the calls on a descriptor; \<open>r\<close> is what \<^verbatim>\<open>write\<close> or \<^verbatim>\<open>lseek\<close> answers.\<close>

definition msvcrt_fwrite :: "bool \<Rightarrow> nat \<Rightarrow> nat \<Rightarrow> (nat \<Rightarrow> int) \<Rightarrow> nat" where
  "msvcrt_fwrite buf_null sz count write_n =
     (if buf_null \<or> sz = 0 \<or> count = 0 then 0
      else let r = write_n (sz * count mod 2 ^ 64) in if r < 0 then 0 else nat r div sz)"

definition msvcrt_fputc :: "int \<Rightarrow> (u8 \<Rightarrow> int) \<Rightarrow> int" where
  "msvcrt_fputc c write_byte = (if write_byte (of_int c) = 1 then c else - 1)"

definition msvcrt_fseek :: "(int \<Rightarrow> nat \<Rightarrow> int) \<Rightarrow> u64 \<Rightarrow> nat \<Rightarrow> int" where
  "msvcrt_fseek lseek reg whence = (if lseek (sint (ucast reg :: u32)) whence < 0 then - 1 else 0)"

definition msvcrt_fclose :: "nat \<Rightarrow> (nat \<Rightarrow> int) \<Rightarrow> nat \<Rightarrow> int" where
  "msvcrt_fclose base fclose f = (if f = 0 then - 1 else if base \<le> f \<and> f < base + 144 then 0 else fclose f)"

lemma fwrite_bound: "(\<And>n. write_n n \<le> int n) \<Longrightarrow> sz * count < 2 ^ 64 \<Longrightarrow> msvcrt_fwrite b sz count write_n \<le> count"
proof (cases "b \<or> sz = 0 \<or> count = 0 \<or> write_n (sz * count) < 0")
  case False
  assume "\<And>n. write_n n \<le> int n" "sz * count < 2 ^ 64"
  then have "nat (write_n (sz * count)) \<le> count * sz" by (metis mult.commute nat_le_iff)
  then have "nat (write_n (sz * count)) div sz \<le> count * sz div sz" by (rule div_le_mono)
  then show ?thesis using False \<open>sz * count < 2 ^ 64\<close> by (simp add: msvcrt_fwrite_def Let_def)
qed (auto simp: msvcrt_fwrite_def Let_def)

end
