(* ===== verification/Pedump_Text.thy ===== *)
theory Pedump_Text
  imports Elf_Types Pe_Types
begin

text \<open>
  The common parts of the dumper (pedump.cpp): reading a struct through \<^verbatim>\<open>Buffer::at\<close> and a string through
  \<^verbatim>\<open>Buffer::str\<close>, the conversions of \<^verbatim>\<open>printf\<close> that it uses, and its tables of names.  Output is the list of bytes
  printed.  A function that dereferences what \<^verbatim>\<open>at\<close> returns answers \<open>None\<close> when that is undefined.
\<close>

section \<open>Buffer\<close>

text \<open>
  \<^verbatim>\<open>at\<close> compares \<^verbatim>\<open>off + sizeof(T)\<close>, a \<^verbatim>\<open>size_t\<close>, with the size: \<open>Some None\<close> is the null pointer, \<open>None\<close> a pointer
  outside the buffer, which the check lets through when the sum wraps around.
\<close>

definition pd_at :: "nat \<Rightarrow> bytes \<Rightarrow> u64 \<Rightarrow> bytes option option" where
  "pd_at n data off =
     (if length data < unat (off + of_nat n) then Some None
      else if unat off + n \<le> length data then Some (Some (take n (drop (unat off) data)))
      else None)"

definition pd_get :: "(bytes \<Rightarrow> 'a) \<Rightarrow> nat \<Rightarrow> bytes \<Rightarrow> u64 \<Rightarrow> 'a option option" where
  "pd_get dec n data off = map_option (map_option dec) (pd_at n data off)"

definition pd_str :: "bytes \<Rightarrow> u64 \<Rightarrow> bytes" where
  "pd_str data off =
     (if length data \<le> unat off then []
      else if 0 \<in> set (drop (unat off) data) then takeWhile (\<lambda>b. b \<noteq> 0) (drop (unat off) data)
      else [])"

definition pd_u16 :: "bytes \<Rightarrow> u64 \<Rightarrow> u16 option option" where
  "pd_u16 = pd_get le_word 2"

definition pd_u32 :: "bytes \<Rightarrow> u64 \<Rightarrow> u32 option option" where
  "pd_u32 = pd_get le_word 4"

definition pd_u64 :: "bytes \<Rightarrow> u64 \<Rightarrow> u64 option option" where
  "pd_u64 = pd_get le_word 8"

section \<open>printf\<close>

text \<open>Literal text, \<^verbatim>\<open>%u\<close>, \<^verbatim>\<open>%x\<close>, \<^verbatim>\<open>%d\<close> and \<^verbatim>\<open>%s\<close> with a width.\<close>

abbreviation lit :: "string \<Rightarrow> bytes" where
  "lit \<equiv> str_bytes"

abbreviation nl :: bytes where
  "nl \<equiv> [10]"

definition pr_digit :: "nat \<Rightarrow> u8" where
  "pr_digit d = (if d < 10 then of_nat (48 + d) else of_nat (87 + d))"

function pr_digits :: "nat \<Rightarrow> nat \<Rightarrow> bytes" where
  "pr_digits base n = (if n < base \<or> base < 2 then [pr_digit n] else pr_digits base (n div base) @ [pr_digit (n mod base)])"
  by pat_completeness auto
termination
  by (relation "measure snd") auto

declare pr_digits.simps [simp del]

definition lpad :: "u8 \<Rightarrow> nat \<Rightarrow> bytes \<Rightarrow> bytes" where
  "lpad c w s = replicate (w - length s) c @ s"

definition rpad :: "nat \<Rightarrow> bytes \<Rightarrow> bytes" where
  "rpad w s = s @ replicate (w - length s) 32"

definition pr_hex :: "nat \<Rightarrow> 'a::len word \<Rightarrow> bytes" where
  "pr_hex w x = lpad 48 w (pr_digits 16 (unat x))"

definition pr_u :: "nat \<Rightarrow> nat \<Rightarrow> bytes" where
  "pr_u w n = lpad 32 w (pr_digits 10 n)"

definition pr_d :: "int \<Rightarrow> bytes" where
  "pr_d i = (if i < 0 then 45 # pr_digits 10 (nat (- i)) else pr_digits 10 (nat i))"

section \<open>Names\<close>

definition pe_machine_str :: "u16 \<Rightarrow> string" where
  "pe_machine_str m =
     (if m = 0 then ''UNKNOWN'' else if m = 0x014c then ''I386'' else if m = 0x0200 then ''IA64''
      else if m = 0x8664 then ''AMD64'' else if m = 0x01c0 then ''ARM'' else if m = 0xaa64 then ''ARM64''
      else if m = 0x01c4 then ''ARMNT'' else ''OTHER'')"

definition pe_subsystem_str :: "u16 \<Rightarrow> string" where
  "pe_subsystem_str s =
     (if s = 1 then ''NATIVE'' else if s = 2 then ''WINDOWS_GUI'' else if s = 3 then ''WINDOWS_CUI''
      else if s = 7 then ''POSIX_CUI'' else if s = 9 then ''WINDOWS_CE_GUI'' else if s = 10 then ''EFI_APPLICATION''
      else if s = 14 then ''XBOX'' else ''OTHER'')"

text \<open>The words of a flag set whose bits are given.\<close>

definition flag_words :: "(nat \<times> string) list \<Rightarrow> 'a::len word \<Rightarrow> bytes" where
  "flag_words tab c = concat (map (\<lambda>(n, s). if bit c n then lit s else []) tab)"

definition print_section_flags :: "u32 \<Rightarrow> bytes" where
  "print_section_flags c = flag_words
     [(5, '' CODE''), (6, '' IDATA''), (7, '' UDATA''), (25, '' DISCARDABLE''), (26, '' NO_CACHE''), (27, '' NO_PAGE''),
      (28, '' SHARED''), (29, '' EXECUTE''), (30, '' READ''), (31, '' WRITE'')] c"

definition elf_type_str :: "u16 \<Rightarrow> string" where
  "elf_type_str t = (if unat t < 5 then [''NONE'', ''REL'', ''EXEC'', ''DYN'', ''CORE''] ! unat t else ''OTHER'')"

text \<open>A \<^verbatim>\<open>switch\<close> over constants.\<close>

definition name_of :: "('k \<times> string) list \<Rightarrow> 'k \<Rightarrow> string" where
  "name_of tab k = (case map_of tab k of Some s \<Rightarrow> s | None \<Rightarrow> ''OTHER'')"

definition elf_machine_str :: "u16 \<Rightarrow> string" where
  "elf_machine_str = name_of
     [(0, ''NONE''), (2, ''SPARC''), (3, ''386''), (8, ''MIPS''), (20, ''PPC''), (21, ''PPC64''), (40, ''ARM''), (50, ''IA64''),
      (62, ''AMD64''), (183, ''AArch64''), (243, ''RISC-V'')]"

definition elf_sh_type_str :: "u32 \<Rightarrow> string" where
  "elf_sh_type_str = name_of
     [(0, ''NULL''), (1, ''PROGBITS''), (2, ''SYMTAB''), (3, ''STRTAB''), (4, ''RELA''), (5, ''HASH''), (6, ''DYNAMIC''),
      (7, ''NOTE''), (8, ''NOBITS''), (9, ''REL''), (10, ''SHLIB''), (11, ''DYNSYM''), (14, ''INIT_ARRAY''),
      (15, ''FINI_ARRAY''), (16, ''PREINIT_ARRAY''), (17, ''GROUP''), (18, ''SYMTAB_SHNDX''), (0x6ffffff6, ''GNU_HASH''),
      (0x6ffffffe, ''VERNEED''), (0x6fffffff, ''VERSYM''), (0x6ffffff9, ''GNU_RELRO'')]"

definition elf_seg_type_str :: "u32 \<Rightarrow> string" where
  "elf_seg_type_str = name_of
     [(0, ''NULL''), (1, ''LOAD''), (2, ''DYNAMIC''), (3, ''INTERP''), (4, ''NOTE''), (5, ''SHLIB''), (6, ''PHDR''), (7, ''TLS''),
      (0x6474e550, ''GNU_EH_FRAME''), (0x6474e551, ''GNU_STACK''), (0x6474e552, ''GNU_RELRO''), (0x6474e553, ''GNU_PROPERTY'')]"

text \<open>The only table with a null result; the 32-bit tags are sign-extended into the argument.\<close>

definition elf_dyn_tag_str :: "u64 \<Rightarrow> string option" where
  "elf_dyn_tag_str = map_of
     [(0, ''NULL''), (1, ''NEEDED''), (2, ''PLTRELSZ''), (3, ''PLTGOT''), (4, ''HASH''), (5, ''STRTAB''), (6, ''SYMTAB''),
      (7, ''RELA''), (8, ''RELASZ''), (9, ''RELAENT''), (10, ''STRSZ''), (11, ''SYMENT''), (12, ''INIT''), (13, ''FINI''),
      (14, ''SONAME''), (15, ''RPATH''), (16, ''SYMBOLIC''), (17, ''REL''), (18, ''RELSZ''), (19, ''RELENT''),
      (20, ''PLTREL''), (21, ''DEBUG''), (22, ''TEXTREL''), (23, ''JMPREL''), (24, ''BIND_NOW''), (25, ''INIT_ARRAY''),
      (26, ''FINI_ARRAY''), (27, ''INIT_ARRAYSZ''), (28, ''FINI_ARRAYSZ''), (29, ''RUNPATH''), (30, ''FLAGS''),
      (0x6ffffef5, ''GNU_HASH''), (0x6ffffff0, ''VERSYM''), (0x6ffffffe, ''VERNEED''), (0x6fffffff, ''VERNEEDNUM''),
      (0x6ffffff9, ''RELACOUNT''), (0x6ffffffb, ''FLAGS_1'')]"

definition elf_sym_binding :: "u8 \<Rightarrow> string" where
  "elf_sym_binding info = name_of [(0, ''LOCAL''), (1, ''GLOBAL''), (2, ''WEAK'')] (drop_bit 4 info)"

definition elf_sym_type :: "u8 \<Rightarrow> string" where
  "elf_sym_type info = name_of
     [(0, ''NOTYPE''), (1, ''OBJECT''), (2, ''FUNC''), (3, ''SECTION''), (4, ''FILE''), (6, ''TLS''), (10, ''GNU_IFUNC'')] (info AND 0xF)"

definition elf_reloc_x64 :: "u32 \<Rightarrow> bytes" where
  "elf_reloc_x64 type = (case map_of
     [(0, ''R_X86_64_NONE''), (1, ''R_X86_64_64''), (2, ''R_X86_64_PC32''), (3, ''R_X86_64_GOT32''), (4, ''R_X86_64_PLT32''),
      (5, ''R_X86_64_COPY''), (6, ''R_X86_64_GLOB_DAT''), (7, ''R_X86_64_JUMP_SLOT''), (8, ''R_X86_64_RELATIVE''),
      (9, ''R_X86_64_GOTPCREL''), (10, ''R_X86_64_32''), (11, ''R_X86_64_32S''), (24, ''R_X86_64_PC64''),
      (37, ''R_X86_64_TLSDESC''), (38, ''R_X86_64_IRELATIVE'')] type of
       Some s \<Rightarrow> lit s
     | None \<Rightarrow> lit ''R_X86_64_'' @ pr_u 0 (unat type))"

section \<open>Facts\<close>

text \<open>Where the sum cannot wrap, \<^verbatim>\<open>at\<close> is the checked access of util.hpp.\<close>

lemma pd_at_small:
  assumes "unat off + n < 2 ^ 64"
  shows "pd_at n data off = Some (buf_at n data (unat off))"
proof -
  have "unat (of_nat n :: u64) = n" using assms by (simp add: unat_of_nat take_bit_nat_eq_self)
  then have "unat (off + of_nat n) = unat off + n" using assms by (simp add: unat_word_ariths)
  then show ?thesis by (simp add: pd_at_def buf_at_def)
qed

lemma pd_get_small: "unat off + n < 2 ^ 64 \<Longrightarrow> pd_get dec n data off = Some (map_option dec (buf_at n data (unat off)))"
  by (simp add: pd_get_def pd_at_small)

lemma pd_str_eq: "pd_str data off = buf_str data (unat off)"
proof -
  have "has_nul bs \<longleftrightarrow> 0 \<in> set bs" for bs by (induction bs) auto
  then show ?thesis by (simp add: pd_str_def buf_str_def c_str_def)
qed

text \<open>The sum that wraps: a pointer far outside the buffer passes the check.\<close>

lemma pd_at_wraps: "unat off + n = 2 ^ 64 \<Longrightarrow> length data < 2 ^ 63 \<Longrightarrow> n < 2 ^ 63 \<Longrightarrow> pd_at n data off = None"
proof -
  assume a: "unat off + n = 2 ^ 64" "length data < 2 ^ 63" "n < 2 ^ 63"
  have n: "unat (of_nat n :: u64) = n" using a by (simp add: unat_of_nat take_bit_nat_eq_self)
  have "unat (off + of_nat n) = (unat off + n) mod 2 ^ 64" using n by (simp add: unat_word_ariths)
  then show ?thesis using a by (simp add: pd_at_def)
qed

end
