(* ===== verification/Pedump_Pe.thy ===== *)
theory Pedump_Pe
  imports Pedump_Text Pe_Sections "HOL-Library.Monad_Syntax"
begin

text \<open>
  \<^verbatim>\<open>dump_pe\<close> (pedump.cpp), one definition per part of the listing, on files of any size and content.  The
  offsets are computed at the widths of the source.  Loops over file contents take a number of
  iterations, \<open>None\<close> is undefined behaviour or too few of them; the theorems tell the two apart.
\<close>

section \<open>Structures\<close>

text \<open>The structs that pe_types.hpp has as well are those of \<open>Pe_Types\<close>; the 32-bit header and the exception entry are new.\<close>

record pe32_optional_header =
  o32_Magic :: u16
  o32_MajorLinkerVersion :: u8
  o32_MinorLinkerVersion :: u8
  o32_SizeOfCode :: u32
  o32_SizeOfInitializedData :: u32
  o32_SizeOfUninitializedData :: u32
  o32_AddressOfEntryPoint :: u32
  o32_BaseOfCode :: u32
  o32_BaseOfData :: u32
  o32_ImageBase :: u32
  o32_SectionAlignment :: u32
  o32_FileAlignment :: u32
  o32_MajorOperatingSystemVersion :: u16
  o32_MinorOperatingSystemVersion :: u16
  o32_MajorImageVersion :: u16
  o32_MinorImageVersion :: u16
  o32_MajorSubsystemVersion :: u16
  o32_MinorSubsystemVersion :: u16
  o32_Win32VersionValue :: u32
  o32_SizeOfImage :: u32
  o32_SizeOfHeaders :: u32
  o32_CheckSum :: u32
  o32_Subsystem :: u16
  o32_DLLCharacteristics :: u16
  o32_SizeOfStackReserve :: u32
  o32_SizeOfStackCommit :: u32
  o32_SizeOfHeapReserve :: u32
  o32_SizeOfHeapCommit :: u32
  o32_LoaderFlags :: u32
  o32_NumberOfRvaAndSize :: u32

definition dec_pe32_optional_header :: "bytes \<Rightarrow> pe32_optional_header" where
  "dec_pe32_optional_header b = \<lparr>o32_Magic = le_word (field 0 2 b),
     o32_MajorLinkerVersion = le_word (field 2 1 b), o32_MinorLinkerVersion = le_word (field 3 1 b),
     o32_SizeOfCode = le_word (field 4 4 b), o32_SizeOfInitializedData = le_word (field 8 4 b),
     o32_SizeOfUninitializedData = le_word (field 12 4 b), o32_AddressOfEntryPoint = le_word (field 16 4 b),
     o32_BaseOfCode = le_word (field 20 4 b), o32_BaseOfData = le_word (field 24 4 b), o32_ImageBase = le_word (field 28 4 b),
     o32_SectionAlignment = le_word (field 32 4 b), o32_FileAlignment = le_word (field 36 4 b),
     o32_MajorOperatingSystemVersion = le_word (field 40 2 b), o32_MinorOperatingSystemVersion = le_word (field 42 2 b),
     o32_MajorImageVersion = le_word (field 44 2 b), o32_MinorImageVersion = le_word (field 46 2 b),
     o32_MajorSubsystemVersion = le_word (field 48 2 b), o32_MinorSubsystemVersion = le_word (field 50 2 b),
     o32_Win32VersionValue = le_word (field 52 4 b), o32_SizeOfImage = le_word (field 56 4 b),
     o32_SizeOfHeaders = le_word (field 60 4 b), o32_CheckSum = le_word (field 64 4 b),
     o32_Subsystem = le_word (field 68 2 b), o32_DLLCharacteristics = le_word (field 70 2 b),
     o32_SizeOfStackReserve = le_word (field 72 4 b), o32_SizeOfStackCommit = le_word (field 76 4 b),
     o32_SizeOfHeapReserve = le_word (field 80 4 b), o32_SizeOfHeapCommit = le_word (field 84 4 b),
     o32_LoaderFlags = le_word (field 88 4 b), o32_NumberOfRvaAndSize = le_word (field 92 4 b)\<rparr>"

record pe_exception_entry_x64 =
  address_start_rva :: u32
  address_end_rva :: u32
  unwind_info_rva :: u32

definition dec_exception_entry :: "bytes \<Rightarrow> pe_exception_entry_x64" where
  "dec_exception_entry b = \<lparr>address_start_rva = le_word (field 0 4 b), address_end_rva = le_word (field 4 4 b),
     unwind_info_rva = le_word (field 8 4 b)\<rparr>"

record PESectionMap_Entry =
  pe_va :: u32
  pe_raw :: u32
  pe_rawsz :: u32
  pe_virtsz :: u32

fun pd_rva_to_offset :: "PESectionMap_Entry list \<Rightarrow> u32 \<Rightarrow> u32" where
  "pd_rva_to_offset [] rva = 0"
| "pd_rva_to_offset (e # es) rva =
     (let end_va = pe_va e + max (pe_virtsz e) (pe_rawsz e) in
      if pe_va e \<le> rva \<and> rva < end_va then
        (let delta = rva - pe_va e in if delta < pe_rawsz e then pe_raw e + delta else pd_rva_to_offset es rva)
      else pd_rva_to_offset es rva)"

section \<open>Headers\<close>

definition pe_header_lines :: "pe_header \<Rightarrow> bytes" where
  "pe_header_lines peh =
     lit ''[PE Header]'' @ nl @
     lit ''  Machine:          0x'' @ pr_hex 4 (Machine peh) @ lit '' ('' @ lit (pe_machine_str (Machine peh)) @ lit '')'' @ nl @
     lit ''  NumberOfSections: '' @ pr_u 0 (unat (NumberOfSections peh)) @ nl @
     lit ''  TimeDateStamp:    0x'' @ pr_hex 8 (peh_TimeDateStamp peh) @ nl @
     lit ''  Characteristics:  0x'' @ pr_hex 4 (peh_Characteristics peh) @
     flag_words [(1, '' EXE''), (13, '' DLL''), (5, '' LARGE_ADDR'')] (peh_Characteristics peh) @ nl"

text \<open>What is printed of an optional header, the width of its image base aside.\<close>

definition opt_lines :: "string \<Rightarrow> bytes \<Rightarrow> u32 \<Rightarrow> u32 \<Rightarrow> u32 \<Rightarrow> u16 \<Rightarrow> u16 \<Rightarrow> u32 \<Rightarrow> u32 \<Rightarrow> u32 \<Rightarrow> bytes" where
  "opt_lines kind base ep img hdrs subs dllc secal fileal ndd =
     lit ''[Optional Header '' @ lit kind @ lit '']'' @ nl @
     lit ''  ImageBase:        0x'' @ base @ nl @
     lit ''  EntryPoint RVA:   0x'' @ pr_hex 8 ep @ nl @
     lit ''  SizeOfImage:      0x'' @ pr_hex 0 img @ nl @
     lit ''  SizeOfHeaders:    0x'' @ pr_hex 0 hdrs @ nl @
     lit ''  Subsystem:        '' @ pr_u 0 (unat subs) @ lit '' ('' @ lit (pe_subsystem_str subs) @ lit '')'' @ nl @
     lit ''  DLLChar:          0x'' @ pr_hex 4 dllc @ nl @
     lit ''  SectionAlign:     0x'' @ pr_hex 0 secal @ nl @
     lit ''  FileAlign:        0x'' @ pr_hex 0 fileal @ nl @
     lit ''  NumDataDirs:      '' @ pr_u 0 (unat ndd) @ nl"

definition opt64_lines :: "pe64_optional_header \<Rightarrow> bytes" where
  "opt64_lines oh = opt_lines ''PE64'' (pr_hex 16 (ImageBase oh)) (AddressOfEntryPoint oh) (SizeOfImage oh) (SizeOfHeaders oh)
     (Subsystem oh) (DLLCharacteristics oh) (SectionAlignment oh) (FileAlignment oh) (NumberOfRvaAndSize oh)"

definition opt32_lines :: "pe32_optional_header \<Rightarrow> bytes" where
  "opt32_lines oh = opt_lines ''PE32'' (pr_hex 8 (o32_ImageBase oh)) (o32_AddressOfEntryPoint oh) (o32_SizeOfImage oh) (o32_SizeOfHeaders oh)
     (o32_Subsystem oh) (o32_DLLCharacteristics oh) (o32_SectionAlignment oh) (o32_FileAlignment oh) (o32_NumberOfRvaAndSize oh)"

text \<open>\<^verbatim>\<open>get_dd\<close>: a data directory that the header counts and the file holds.\<close>

definition get_dd :: "bytes \<Rightarrow> u64 \<Rightarrow> u32 \<Rightarrow> u32 \<Rightarrow> pe_data_directory option option" where
  "get_dd data dd_off num_dd idx =
     (if num_dd \<le> idx then Some None else pd_get dec_pe_data_directory 8 data (dd_off + ucast idx * 8))"

definition dd_used :: "pe_data_directory option \<Rightarrow> pe_data_directory option" where
  "dd_used dd = (case dd of None \<Rightarrow> None | Some d \<Rightarrow> if RelativeVirtualAddress d \<noteq> 0 \<and> dd_Size d \<noteq> 0 then Some d else None)"

section \<open>Sections\<close>

definition section_line :: "pe_section \<Rightarrow> bytes" where
  "section_line s = lit ''  '' @ rpad 8 (takeWhile (\<lambda>b. b \<noteq> 0) (Name s)) @ lit ''  '' @ pr_hex 8 (sec_VirtualAddress s) @
     lit ''  '' @ pr_hex 8 (VirtualSize s) @ lit ''  '' @ pr_hex 8 (PointerToRawData s) @ lit ''  '' @ pr_hex 8 (SizeOfRawData s) @
     lit '' '' @ print_section_flags (sec_Characteristics s) @ nl"

definition map_entry :: "pe_section \<Rightarrow> PESectionMap_Entry" where
  "map_entry s = \<lparr>pe_va = sec_VirtualAddress s, pe_raw = PointerToRawData s, pe_rawsz = SizeOfRawData s, pe_virtsz = VirtualSize s\<rparr>"

fun dump_sections :: "bytes \<Rightarrow> u64 \<Rightarrow> u32 \<Rightarrow> nat \<Rightarrow> (bytes \<times> PESectionMap_Entry list) option" where
  "dump_sections data sec_off i 0 = Some ([], [])"
| "dump_sections data sec_off i (Suc n) = do {
     p \<leftarrow> pd_get dec_pe_section 40 data (sec_off + ucast i * 40);
     (case p of
        None \<Rightarrow> Some ([], [])
      | Some s \<Rightarrow> do {
          (out, secs) \<leftarrow> dump_sections data sec_off (i + 1) n;
          Some (section_line s @ out, map_entry s # secs) }) }"

section \<open>Imports\<close>

definition hint_name_line :: "bytes \<Rightarrow> PESectionMap_Entry list \<Rightarrow> u32 \<Rightarrow> bytes option" where
  "hint_name_line data secs rva = (
     let hint_off = pd_rva_to_offset secs rva in
     if unat (hint_off + 2) < length data then do {
       p \<leftarrow> pd_u16 data (ucast hint_off);
       hint \<leftarrow> p;
       Some (lit ''    ['' @ pr_u 5 (unat hint) @ lit ''] '' @ pd_str data (ucast (hint_off + 2)) @ nl) }
     else Some [])"

definition thunk_line64 :: "bytes \<Rightarrow> PESectionMap_Entry list \<Rightarrow> u64 \<Rightarrow> bytes option" where
  "thunk_line64 data secs v =
     (if v AND 0x8000000000000000 \<noteq> 0 then Some (lit ''    ordinal #'' @ pr_u 0 (unat (v AND 0xFFFF)) @ nl)
      else hint_name_line data secs (ucast (v AND 0x7FFFFFFF)))"

definition thunk_line32 :: "bytes \<Rightarrow> PESectionMap_Entry list \<Rightarrow> u32 \<Rightarrow> bytes option" where
  "thunk_line32 data secs v =
     (if v AND 0x80000000 \<noteq> 0 then Some (lit ''    ordinal #'' @ pr_u 0 (unat (v AND 0xFFFF)) @ nl)
      else hint_name_line data secs (v AND 0x7FFFFFFF))"

fun dump_thunks :: "nat \<Rightarrow> bool \<Rightarrow> bytes \<Rightarrow> PESectionMap_Entry list \<Rightarrow> u32 \<Rightarrow> u32 \<Rightarrow> bytes option" where
  "dump_thunks 0 is64 data secs ilt_off j = None"
| "dump_thunks (Suc f) is64 data secs ilt_off j =
     (if is64 then do {
        p \<leftarrow> pd_u64 data (ucast (ilt_off + j * 8));
        (case p of
           None \<Rightarrow> Some []
         | Some v \<Rightarrow> if v = 0 then Some [] else do {
             line \<leftarrow> thunk_line64 data secs v; rest \<leftarrow> dump_thunks f is64 data secs ilt_off (j + 1); Some (line @ rest) }) }
      else do {
        p \<leftarrow> pd_u32 data (ucast (ilt_off + j * 4));
        (case p of
           None \<Rightarrow> Some []
         | Some v \<Rightarrow> if v = 0 then Some [] else do {
             line \<leftarrow> thunk_line32 data secs v; rest \<leftarrow> dump_thunks f is64 data secs ilt_off (j + 1); Some (line @ rest) }) })"

fun dump_imports :: "nat \<Rightarrow> nat \<Rightarrow> bool \<Rightarrow> bytes \<Rightarrow> PESectionMap_Entry list \<Rightarrow> u32 \<Rightarrow> u32 \<Rightarrow> bytes option" where
  "dump_imports fuel 0 is64 data secs imp_off idx = None"
| "dump_imports fuel (Suc f) is64 data secs imp_off idx = do {
     p \<leftarrow> pd_get dec_pe_import 20 data (ucast imp_off + ucast idx * 20);
     (case p of
        None \<Rightarrow> Some []
      | Some imp \<Rightarrow>
          if imp_NameRVA imp = 0 \<and> ImportLookupTableRVA imp = 0 \<and> ImportAddressTableRVA imp = 0 then Some []
          else do {
            let name_off = pd_rva_to_offset secs (imp_NameRVA imp);
            let ilt_rva = (if ImportLookupTableRVA imp \<noteq> 0 then ImportLookupTableRVA imp else ImportAddressTableRVA imp);
            let ilt_off = pd_rva_to_offset secs ilt_rva;
            thunks \<leftarrow> (if ilt_off = 0 then Some [] else dump_thunks fuel is64 data secs ilt_off 0);
            rest \<leftarrow> dump_imports fuel f is64 data secs imp_off (idx + 1);
            Some (lit ''  DLL: '' @ pd_str data (ucast name_off) @ nl @ thunks @ rest) }) }"

section \<open>Exports\<close>

text \<open>The ordinal is an \<^verbatim>\<open>int\<close> after promotion; the address table slot is dereferenced without a check.\<close>

definition export_line :: "bytes \<Rightarrow> PESectionMap_Entry list \<Rightarrow> pe_data_directory \<Rightarrow> u32 \<Rightarrow> u32 \<Rightarrow> u32 \<Rightarrow> u16 \<Rightarrow> bytes option" where
  "export_line data secs dd base eat_off name_rva ord = do {
     fn_rva \<leftarrow> (if eat_off = 0 then Some 0 else do { p \<leftarrow> pd_u32 data (ucast (eat_off + ucast ord * 4)); p });
     let sym_off = pd_rva_to_offset secs name_rva;
     let fwd = (RelativeVirtualAddress dd \<le> fn_rva \<and> fn_rva < RelativeVirtualAddress dd + dd_Size dd);
     let head = lit ''  ['' @ pr_u 5 (unat (ucast ord + base)) @ lit ''] '' @ rpad 40 (pd_str data (ucast sym_off));
     Some (if fwd then head @ lit '' -> '' @ pd_str data (ucast (pd_rva_to_offset secs fn_rva)) @ lit '' (forwarder)'' @ nl
           else head @ lit '' rva=0x'' @ pr_hex 8 fn_rva @ nl) }"

fun dump_export_names :: "bytes \<Rightarrow> PESectionMap_Entry list \<Rightarrow> pe_data_directory \<Rightarrow> u32 \<Rightarrow> u32 \<Rightarrow> u32 \<Rightarrow> u32 \<Rightarrow> u32 \<Rightarrow> nat \<Rightarrow> bytes option" where
  "dump_export_names data secs dd base eat_off enpt_off eot_off i 0 = Some []"
| "dump_export_names data secs dd base eat_off enpt_off eot_off i (Suc n) = do {
     np \<leftarrow> pd_u32 data (ucast (enpt_off + i * 4));
     ordp \<leftarrow> pd_u16 data (ucast (eot_off + i * 2));
     (case (np, ordp) of
        (Some name_rva, Some ord) \<Rightarrow> do {
          line \<leftarrow> export_line data secs dd base eat_off name_rva ord;
          rest \<leftarrow> dump_export_names data secs dd base eat_off enpt_off eot_off (i + 1) n;
          Some (line @ rest) }
      | _ \<Rightarrow> Some []) }"

definition dump_exports :: "bytes \<Rightarrow> PESectionMap_Entry list \<Rightarrow> pe_data_directory \<Rightarrow> bytes option" where
  "dump_exports data secs dd = do {
     p \<leftarrow> pd_get dec_pe_export 40 data (ucast (pd_rva_to_offset secs (RelativeVirtualAddress dd)));
     (case p of
        None \<Rightarrow> Some (nl @ lit ''[Exports]'' @ nl)
      | Some edt \<Rightarrow> do {
          names \<leftarrow> dump_export_names data secs dd (OrdinalBase edt) (pd_rva_to_offset secs (FunctionsRVA edt))
            (pd_rva_to_offset secs (NamesRVA edt)) (pd_rva_to_offset secs (NameOrdinalsRVA edt)) 0 (unat (NumberOfNames edt));
          Some (nl @ lit ''[Exports]'' @ nl @
            lit ''  DLL Name:      '' @ pd_str data (ucast (pd_rva_to_offset secs (exp_NameRVA edt))) @ nl @
            lit ''  OrdinalBase:   '' @ pr_u 0 (unat (OrdinalBase edt)) @ nl @
            lit ''  NumFunctions:  '' @ pr_u 0 (unat (NumberOfFunctions edt)) @ nl @
            lit ''  NumNames:      '' @ pr_u 0 (unat (NumberOfNames edt)) @ nl @ names) }) }"

section \<open>Base relocations\<close>

definition reloc_type_name :: "u16 \<Rightarrow> string" where
  "reloc_type_name t =
     (if t < 11 then [''ABS'', ''HIGH'', ''LOW'', ''HIGHLOW'', ''HIGHADJ'', ''MIPS_JMPADDR'', ''ARM_MOV32'', ''THUMB_MOV32'', '''', '''', ''DIR64''] ! unat t
      else ''UNK'')"

text \<open>The entries of one block: what is printed and how many are counted.\<close>

fun dump_reloc_entries :: "bytes \<Rightarrow> u32 \<Rightarrow> u32 \<Rightarrow> u32 \<Rightarrow> nat \<Rightarrow> (bytes \<times> u32) option" where
  "dump_reloc_entries data page cur i 0 = Some ([], 0)"
| "dump_reloc_entries data page cur i (Suc n) = do {
     p \<leftarrow> pd_u16 data (ucast (cur + 8 + i * 2));
     (case p of
        None \<Rightarrow> Some ([], 0)
      | Some e \<Rightarrow> do {
          let type = drop_bit 12 e AND 0xF;
          let offs = e AND 0x0FFF;
          (out, k) \<leftarrow> dump_reloc_entries data page cur (i + 1) n;
          Some (if type = 0 then (out, k)
            else (lit ''    0x'' @ pr_hex 8 (page + ucast offs) @ lit ''  type='' @ rpad 12 (lit (reloc_type_name type)) @
                  lit '' ('' @ pr_u 0 (unat type) @ lit '')'' @ nl @ out, k + 1)) }) }"

text \<open>The blocks: \<^verbatim>\<open>cur + sizeof\<close> is compared as a \<^verbatim>\<open>size_t\<close>, but \<^verbatim>\<open>cur += BlockSize\<close> wraps at 32 bits.\<close>

fun dump_reloc_blocks :: "nat \<Rightarrow> bytes \<Rightarrow> u32 \<Rightarrow> u32 \<Rightarrow> (bytes \<times> u32) option" where
  "dump_reloc_blocks 0 data r_end cur = None"
| "dump_reloc_blocks (Suc f) data r_end cur =
     (if unat cur + 8 \<le> unat r_end \<and> unat cur < length data then do {
        p \<leftarrow> pd_get dec_pe_base_reloc 8 data (ucast cur);
        (case p of
           None \<Rightarrow> Some ([], 0)
         | Some blk \<Rightarrow>
             if SizeOfBlock blk < 8 then Some ([], 0)
             else do {
               let n = (SizeOfBlock blk - 8) div 2;
               (out, k) \<leftarrow> dump_reloc_entries data (blk_VirtualAddress blk) cur 0 (unat n);
               (rest, k') \<leftarrow> dump_reloc_blocks f data r_end (cur + SizeOfBlock blk);
               Some (lit ''  Block PageRVA=0x'' @ pr_hex 8 (blk_VirtualAddress blk) @ lit ''  entries='' @ pr_u 0 (unat n) @ nl @ out @ rest,
                     k + k') }) }
      else Some ([], 0))"

definition dump_relocs :: "nat \<Rightarrow> bytes \<Rightarrow> PESectionMap_Entry list \<Rightarrow> pe_data_directory \<Rightarrow> bytes option" where
  "dump_relocs fuel data secs dd = do {
     let r_off = pd_rva_to_offset secs (RelativeVirtualAddress dd);
     (out, total) \<leftarrow> dump_reloc_blocks fuel data (r_off + dd_Size dd) r_off;
     Some (nl @ lit ''[Base Relocations]'' @ nl @ out @ lit ''  Total relocation entries: '' @ pr_u 0 (unat total) @ nl) }"

section \<open>Exceptions\<close>

fun dump_exception_entries :: "bytes \<Rightarrow> u32 \<Rightarrow> u32 \<Rightarrow> nat \<Rightarrow> bytes option" where
  "dump_exception_entries data e_off i 0 = Some []"
| "dump_exception_entries data e_off i (Suc n) = do {
     p \<leftarrow> pd_get dec_exception_entry 12 data (ucast e_off + ucast i * 12);
     (case p of
        None \<Rightarrow> Some []
      | Some e \<Rightarrow> do {
          rest \<leftarrow> dump_exception_entries data e_off (i + 1) n;
          Some (lit ''  0x'' @ pr_hex 8 (address_start_rva e) @ lit ''    0x'' @ pr_hex 8 (address_end_rva e) @
                lit ''    0x'' @ pr_hex 8 (unwind_info_rva e) @ nl @ rest) }) }"

definition dump_exceptions :: "bytes \<Rightarrow> PESectionMap_Entry list \<Rightarrow> u16 \<Rightarrow> pe_data_directory \<Rightarrow> bytes option" where
  "dump_exceptions data secs machine dd =
     (if machine = 0x8664 \<or> machine = 0xaa64 then do {
        let n = dd_Size dd div 12;
        out \<leftarrow> dump_exception_entries data (pd_rva_to_offset secs (RelativeVirtualAddress dd)) 0 (unat n);
        Some (nl @ lit ''[Exceptions / .pdata]'' @ nl @
          lit ''  '' @ rpad 12 (lit ''StartRVA'') @ lit ''  '' @ rpad 12 (lit ''EndRVA'') @ lit ''  '' @ rpad 12 (lit ''UnwindRVA'') @ nl @
          out @ lit ''  ('' @ pr_u 0 (unat n) @ lit '' entries)'' @ nl) }
      else Some (nl @ lit ''[Exceptions / .pdata]'' @ nl @
          lit ''  (ARM/MIPS exception format '' @ [0xE2, 0x80, 0x94] @ lit '' not decoded)'' @ nl))"

section \<open>The whole listing\<close>

text \<open>A part of the listing that is printed when its directory is there and neither its address nor its size is zero.\<close>

definition dd_part :: "pe_data_directory option option \<Rightarrow> (pe_data_directory \<Rightarrow> bytes option) \<Rightarrow> bytes option" where
  "dd_part dd part = do { d \<leftarrow> dd; (case dd_used d of None \<Rightarrow> Some [] | Some d' \<Rightarrow> part d') }"

definition dump_pe_body :: "nat \<Rightarrow> bytes \<Rightarrow> pe_header \<Rightarrow> bool \<Rightarrow> u64 \<Rightarrow> u32 \<Rightarrow> bytes option" where
  "dump_pe_body fuel data peh is64 dd_off num_dd = do {
     (slines, secs) \<leftarrow> dump_sections data (dd_off + ucast num_dd * 8) 0 (unat (NumberOfSections peh));
     imports \<leftarrow> dd_part (get_dd data dd_off num_dd 1) (\<lambda>d. do {
        out \<leftarrow> dump_imports fuel fuel is64 data secs (pd_rva_to_offset secs (RelativeVirtualAddress d)) 0;
        Some (nl @ lit ''[Imports]'' @ nl @ out) });
     exports \<leftarrow> dd_part (get_dd data dd_off num_dd 0) (dump_exports data secs);
     relocs \<leftarrow> dd_part (get_dd data dd_off num_dd 5) (dump_relocs fuel data secs);
     excs \<leftarrow> dd_part (get_dd data dd_off num_dd 3) (dump_exceptions data secs (Machine peh));
     Some (nl @ lit ''[Sections] count='' @ pr_u 0 (unat (NumberOfSections peh)) @ nl @
       lit ''  '' @ rpad 8 (lit ''Name'') @ lit ''  VirtAddr  VirtSize    RawOff   RawSize  Flags'' @ nl @
       slines @ imports @ exports @ relocs @ excs @ nl) }"

definition dump_pe :: "nat \<Rightarrow> bytes \<Rightarrow> bytes option" where
  "dump_pe fuel data = do {
     let title = lit ''=== PE ==='' @ nl;
     dos \<leftarrow> pd_get dec_pe_dos_header 64 data 0;
     (case dos of
        None \<Rightarrow> Some (title @ lit ''Not a valid PE (bad DOS magic)'' @ nl)
      | Some d \<Rightarrow>
     if dos_Magic d \<noteq> 0x5A4D then Some (title @ lit ''Not a valid PE (bad DOS magic)'' @ nl) else do {
     let t1 = title @ lit ''[DOS] e_lfanew=0x'' @ pr_hex 0 (AddressOfNewExeHeader d) @ nl;
     let pe_off = (ucast (AddressOfNewExeHeader d) :: u64);
     p \<leftarrow> pd_get dec_pe_header 24 data pe_off;
     (case p of
        None \<Rightarrow> Some (t1 @ lit ''Bad PE signature'' @ nl)
      | Some peh \<Rightarrow>
     if signature peh \<noteq> [80, 69, 0, 0] then Some (t1 @ lit ''Bad PE signature'' @ nl) else do {
     let t2 = t1 @ pe_header_lines peh;
     let opt_off = pe_off + 24;
     m \<leftarrow> pd_u16 data opt_off;
     (case m of
        None \<Rightarrow> Some (t2 @ lit ''Cannot read optional header magic'' @ nl)
      | Some magic \<Rightarrow>
     if magic = 0x20B then do {
       o64 \<leftarrow> pd_get dec_pe64_optional_header 112 data opt_off;
       (case o64 of
          None \<Rightarrow> Some (t2 @ lit ''Cannot read PE64 optional header'' @ nl)
        | Some oh \<Rightarrow> map_option (\<lambda>out. t2 @ opt64_lines oh @ out)
            (dump_pe_body fuel data peh True (opt_off + 112) (NumberOfRvaAndSize oh))) }
     else do {
       o32 \<leftarrow> pd_get dec_pe32_optional_header 96 data opt_off;
       (case o32 of
          None \<Rightarrow> Some (t2 @ lit ''Cannot read PE32 optional header'' @ nl)
        | Some oh \<Rightarrow> map_option (\<lambda>out. t2 @ opt32_lines oh @ out)
            (dump_pe_body fuel data peh False (opt_off + 96) (o32_NumberOfRvaAndSize oh))) }) }) }) }"

section \<open>Where the listing is complete\<close>

lemma unat_add_le: "unat (a + b) \<le> unat a + unat (b :: 'a::len word)"
  by (simp add: unat_word_ariths mod_less_eq_dividend)

lemma unat_mult_le: "unat (a * b) \<le> unat a * unat (b :: 'a::len word)"
  by (simp add: unat_word_ariths mod_less_eq_dividend)

text \<open>Offsets that are sums of few 32-bit quantities never make \<^verbatim>\<open>at\<close> wrap.\<close>

lemma pd_get_near: "unat off < 2 ^ 63 \<Longrightarrow> n < 2 ^ 63 \<Longrightarrow> pd_get dec n data off = Some (map_option dec (buf_at n data (unat off)))"
  by (rule pd_get_small) simp

lemma pd_get_u32 [simp]: "n < 2 ^ 63 \<Longrightarrow> pd_get dec n data (ucast (x :: u32)) = Some (map_option dec (buf_at n data (unat x)))"
  using unat_u32_less[of x] by (subst pd_get_near) auto

lemma pd_get_entry:
  assumes "unat base < 2 ^ 62" "c < 2 ^ 20" "n < 2 ^ 63"
  shows "pd_get dec n data (base + ucast (i :: u32) * of_nat c) = Some (map_option dec (buf_at n data (unat (base + ucast i * of_nat c))))"
proof (rule pd_get_near)
  have c: "unat (of_nat c :: u64) = c" using assms(2) by (simp add: unat_of_nat take_bit_nat_eq_self)
  have "unat (ucast i * of_nat c :: u64) \<le> unat i * c" using unat_mult_le[of "ucast i :: u64" "of_nat c"] c by simp
  also have "\<dots> \<le> 2 ^ 32 * 2 ^ 20" using unat_u32_less[of i] assms(2) by (intro mult_le_mono) auto
  finally show "unat (base + ucast i * of_nat c) < 2 ^ 63" using unat_add_le[of base "ucast i * of_nat c"] assms(1) by simp
qed fact

lemma buf_at_Some: "buf_at n data off = Some b \<Longrightarrow> off + n \<le> length data"
  by (auto simp: buf_at_def split: if_splits)

text \<open>Raw data ends, with a margin of two bytes, before the 32-bit offsets do.\<close>

definition raw_in_range :: "PESectionMap_Entry list \<Rightarrow> bool" where
  "raw_in_range secs \<longleftrightarrow> (\<forall>e \<in> set secs. unat (pe_raw e) + unat (pe_rawsz e) + 2 < 2 ^ 32)"

lemma pd_rva_range: "raw_in_range secs \<Longrightarrow> unat (pd_rva_to_offset secs rva) + 2 < 2 ^ 32"
proof (induction secs)
  case (Cons e es)
  have "unat (pe_raw e + (rva - pe_va e)) + 2 < 2 ^ 32" if "rva - pe_va e < pe_rawsz e"
  proof -
    have "unat (rva - pe_va e) < unat (pe_rawsz e)" using that by (simp add: word_less_nat_alt)
    then show ?thesis using Cons.prems unat_add_le[of "pe_raw e" "rva - pe_va e"] by (fastforce simp: raw_in_range_def)
  qed
  then show ?case using Cons by (auto simp: Let_def raw_in_range_def)
qed simp

lemma hint_name_line_Some: "raw_in_range secs \<Longrightarrow> \<exists>out. hint_name_line data secs rva = Some out"
proof -
  assume r: "raw_in_range secs"
  define h where "h = pd_rva_to_offset secs rva"
  have "unat (h + 2) = unat h + 2" using pd_rva_range[OF r, of rva] by (simp add: unat_word_ariths h_def)
  then show ?thesis by (auto simp: hint_name_line_def h_def[symmetric] pd_u16_def buf_at_def Let_def)
qed

lemma thunk_lines_Some:
  "raw_in_range secs \<Longrightarrow> \<exists>out. thunk_line64 data secs v = Some out"
  "raw_in_range secs \<Longrightarrow> \<exists>out. thunk_line32 data secs w = Some out"
  using hint_name_line_Some by (auto simp: thunk_line64_def thunk_line32_def)

lemma thunk_step:
  assumes "unat (off + j * of_nat c :: u32) + c \<le> m" "m < 2 ^ 32" "c < 2 ^ 32"
  shows "unat (off + (j + 1) * of_nat c) = unat (off + j * of_nat c) + c"
proof -
  have c: "unat (of_nat c :: u32) = c" using assms(3) by (simp add: unat_of_nat take_bit_nat_eq_self)
  have "off + (j + 1) * of_nat c = (off + j * of_nat c) + of_nat c" by (simp add: algebra_simps)
  then have "unat (off + (j + 1) * of_nat c) = unat ((off + j * of_nat c) + of_nat c)" by (rule arg_cong)
  also have "\<dots> = unat (off + j * of_nat c) + unat (of_nat c :: u32)" by (rule unat_add_nowrap) (use assms c in simp)
  finally show ?thesis using c by simp
qed

lemma thunk_printers:
  assumes "raw_in_range secs"
  obtains F G where "\<And>v. thunk_line64 data secs v = Some (F v)" "\<And>v. thunk_line32 data secs v = Some (G v)"
proof -
  have "\<forall>v. \<exists>o'. thunk_line64 data secs v = Some o'" "\<forall>v. \<exists>o'. thunk_line32 data secs v = Some o'"
    using thunk_lines_Some[OF assms] by blast+
  then show thesis using that unfolding choice_iff by blast
qed

lemma dump_thunks_Some:
  assumes "raw_in_range secs" "length data < 2 ^ 32"
  shows "length data < unat (off + j * (if is64 then 8 else 4)) + f * 4 \<Longrightarrow> 0 < f \<Longrightarrow> \<exists>out. dump_thunks f is64 data secs off j = Some out"
proof (induction f arbitrary: j)
  case (Suc f)
  define c where "c = (if is64 then 8 else 4 :: nat)"
  show ?case
  proof (cases "unat (off + j * of_nat c) + c \<le> length data")
    case True
    have s: "unat (off + (j + 1) * of_nat c) = unat (off + j * of_nat c) + c"
      by (rule thunk_step[OF True assms(2)]) (simp add: c_def)
    have "length data < unat (off + (j + 1) * of_nat c) + f * 4" "0 < f"
      using Suc.prems s True by (cases is64; simp add: c_def)+
    then obtain rest where "dump_thunks f is64 data secs off (j + 1) = Some rest"
      using Suc.IH[of "j + 1"] by (auto simp: c_def split: if_splits)
    moreover obtain F G where "\<And>v. thunk_line64 data secs v = Some (F v)" "\<And>v. thunk_line32 data secs v = Some (G v)"
      by (rule thunk_printers[OF assms(1), of data]) (rule that)
    ultimately show ?thesis using True by (cases is64) (auto simp: c_def pd_u64_def pd_u32_def buf_at_def) 
  next
    case False
    then show ?thesis by (cases is64) (auto simp: c_def pd_u64_def pd_u32_def buf_at_def)
  qed
qed simp

lemma import_offset:
  assumes "unat (ucast (imp :: u32) + ucast (idx :: u32) * 20 :: u64) + 20 \<le> length data" "length data < 2 ^ 32"
  shows "unat (ucast imp + ucast (idx + 1) * 20 :: u64) = unat (ucast imp + ucast idx * 20 :: u64) + 20"
proof -
  have e: "unat (ucast imp + ucast i * 20 :: u64) = unat imp + unat (i :: u32) * 20" for i
  proof -
    have "unat (ucast i * 20 :: u64) = unat i * 20" using unat_u32_less[of i] by (subst unat_mult_nowrap) auto
    then show ?thesis using unat_u32_less[of i] unat_u32_less[of imp] by (subst unat_add_nowrap) auto
  qed
  have "unat (idx + 1) = unat idx + 1" using assms e[of idx] by (subst unat_add_nowrap) auto
  then show ?thesis using e by simp
qed

lemma dump_imports_Some:
  assumes r: "raw_in_range secs" and l: "length data < 2 ^ 32" and fuel: "length data < fuel"
  shows "length data < unat (ucast imp_off + ucast idx * 20 :: u64) + f \<Longrightarrow> 0 < f \<Longrightarrow>
    \<exists>out. dump_imports fuel f is64 data secs imp_off idx = Some out"
proof (induction f arbitrary: idx)
  case (Suc f)
  define off where "off = (ucast imp_off + ucast idx * 20 :: u64)"
  have at: "pd_get dec_pe_import 20 data off = Some (map_option dec_pe_import (buf_at 20 data (unat off)))"
    using pd_get_entry[of "ucast imp_off" 20 20 dec_pe_import data idx] unat_u32_less[of imp_off] by (simp add: off_def)
  show ?case
  proof (cases "buf_at 20 data (unat off)")
    case None
    then show ?thesis using at by (simp add: off_def)
  next
    case (Some b)
    then have "unat (ucast imp_off + ucast (idx + 1) * 20 :: u64) = unat off + 20"
      using import_offset[of imp_off idx data] buf_at_Some l by (simp add: off_def)
    moreover from this have "0 < f" using Suc.prems buf_at_Some[OF Some] by (simp add: off_def)
    ultimately obtain rest where "dump_imports fuel f is64 data secs imp_off (idx + 1) = Some rest"
      using Suc.IH[of "idx + 1"] Suc.prems by (auto simp: off_def)
    moreover have "\<forall>o'. \<exists>out. (if o' = 0 then Some [] else dump_thunks fuel is64 data secs o' 0) = Some out"
      using dump_thunks_Some[OF r l, of _ 0 is64 fuel] fuel by simp
    then obtain T where "\<And>o'. (if o' = 0 then Some [] else dump_thunks fuel is64 data secs o' 0) = Some (T o')" unfolding choice_iff by blast
    ultimately show ?thesis using at Some unfolding off_def by (simp only: dump_imports.simps Let_def) simp
  qed
qed simp

lemma dump_sections_Some:
  assumes "unat sec_off < 2 ^ 62"
  shows "\<exists>out secs. dump_sections data sec_off i n = Some (out, secs)"
proof (induction n arbitrary: i)
  case (Suc n)
  obtain out secs where "dump_sections data sec_off (i + 1) n = Some (out, secs)" using Suc[of "i + 1"] by auto
  then show ?case using pd_get_entry[of sec_off 40 40 dec_pe_section data i] assms by (auto split: option.splits)
qed simp

lemma dump_reloc_entries_Some: "\<exists>r. dump_reloc_entries data page cur i n = Some r"
proof (induction n arbitrary: i)
  case (Suc n)
  obtain out k where "dump_reloc_entries data page cur (i + 1) n = Some (out, k)" using Suc[of "i + 1"] by auto
  then show ?case by (auto simp: pd_u16_def Let_def split: option.splits)
qed simp

lemma dump_exception_entries_Some: "\<exists>r. dump_exception_entries data off i n = Some r"
proof (induction n arbitrary: i)
  case (Suc n)
  obtain out where "dump_exception_entries data off (i + 1) n = Some out" using Suc[of "i + 1"] by auto
  then show ?case using pd_get_entry[of "ucast off" 12 12 dec_exception_entry data i] unat_u32_less[of off]
    by (auto split: option.splits)
qed simp

lemma dump_exceptions_Some: "\<exists>r. dump_exceptions data secs m dd = Some r"
proof -
  obtain out where "dump_exception_entries data (pd_rva_to_offset secs (RelativeVirtualAddress dd)) 0 (unat (dd_Size dd div 12)) = Some out"
    using dump_exception_entries_Some by blast
  then show ?thesis by (simp add: dump_exceptions_def Let_def)
qed

text \<open>The blocks that the relocation loop visits, and directories none of whose blocks makes the 32-bit offset wrap.\<close>

inductive reloc_visits :: "bytes \<Rightarrow> u32 \<Rightarrow> u32 \<Rightarrow> u32 \<Rightarrow> bool" for data r_end r_off where
  start: "reloc_visits data r_end r_off r_off"
| step: "reloc_visits data r_end r_off cur \<Longrightarrow> unat cur + 8 \<le> unat r_end \<Longrightarrow> buf_at 8 data (unat cur) = Some b \<Longrightarrow>
    8 \<le> SizeOfBlock (dec_pe_base_reloc b) \<Longrightarrow> reloc_visits data r_end r_off (cur + SizeOfBlock (dec_pe_base_reloc b))"

definition relocs_advance :: "bytes \<Rightarrow> u32 \<Rightarrow> u32 \<Rightarrow> bool" where
  "relocs_advance data r_end r_off \<longleftrightarrow> (\<forall>cur b. reloc_visits data r_end r_off cur \<longrightarrow> buf_at 8 data (unat cur) = Some b \<longrightarrow>
     unat cur + 8 \<le> unat r_end \<longrightarrow> unat cur + unat (SizeOfBlock (dec_pe_base_reloc b)) < 2 ^ 32)"

lemma dump_reloc_blocks_Some:
  assumes adv: "relocs_advance data r_end r_off"
  shows "reloc_visits data r_end r_off cur \<Longrightarrow> length data < unat cur + f \<Longrightarrow> 0 < f \<Longrightarrow> \<exists>r. dump_reloc_blocks f data r_end cur = Some r"
proof (induction f arbitrary: cur)
  case (Suc f)
  show ?case
  proof (cases "unat cur + 8 \<le> unat r_end \<and> unat cur < length data")
    case go: True
    show ?thesis
    proof (cases "buf_at 8 data (unat cur)")
      case (Some b)
      define sz where "sz = SizeOfBlock (dec_pe_base_reloc b)"
      show ?thesis
      proof (cases "8 \<le> sz")
        case True
        have v: "reloc_visits data r_end r_off (cur + sz)" using reloc_visits.step[OF Suc.prems(1)] go Some True by (simp add: sz_def)
        have "unat cur + unat sz < 2 ^ 32" using adv Suc.prems(1) Some go by (simp add: relocs_advance_def sz_def)
        then have "unat (cur + sz) = unat cur + unat sz" by (intro unat_add_nowrap) simp
        moreover have "8 \<le> unat sz" using True by (simp add: word_le_nat_alt)
        ultimately have "\<exists>r. dump_reloc_blocks f data r_end (cur + sz) = Some r"
          using Suc.IH[OF v] Suc.prems(2) buf_at_Some[OF Some] by simp
        then obtain rest k' where "dump_reloc_blocks f data r_end (cur + sz) = Some (rest, k')" by auto
        moreover obtain out k where "dump_reloc_entries data (blk_VirtualAddress (dec_pe_base_reloc b)) cur 0 (unat ((sz - 8) div 2)) = Some (out, k)"
          using dump_reloc_entries_Some by fast
        ultimately show ?thesis using go Some by (simp add: Let_def sz_def)
      qed (use go Some in \<open>simp add: sz_def not_le\<close>)
    qed (use go in simp)
  next
    case False
    then show ?thesis by (subst dump_reloc_blocks.simps) (simp only: if_False, blast)
  qed
qed simp

text \<open>Every exported name has an ordinal inside an address table that the file holds.\<close>

definition exports_inside :: "bytes \<Rightarrow> PESectionMap_Entry list \<Rightarrow> pe_data_directory \<Rightarrow> bool" where
  "exports_inside data secs dd \<longleftrightarrow> (case buf_at 40 data (unat (pd_rva_to_offset secs (RelativeVirtualAddress dd))) of
     None \<Rightarrow> True
   | Some b \<Rightarrow>
      (let eat = pd_rva_to_offset secs (FunctionsRVA (dec_pe_export b)); eot = pd_rva_to_offset secs (NameOrdinalsRVA (dec_pe_export b)) in
       eat = 0 \<or> (\<forall>i < unat (NumberOfNames (dec_pe_export b)). case buf_at 2 data (unat (eot + of_nat i * 2)) of
          None \<Rightarrow> True
        | Some o' \<Rightarrow> unat (eat + ucast (le_word o' :: u16) * 4) + 4 \<le> length data)))"

lemma dump_export_names_Some:
  assumes "eat = 0 \<or> (\<forall>i < m. case buf_at 2 data (unat (eot + of_nat i * 2)) of
          None \<Rightarrow> True
        | Some o' \<Rightarrow> unat (eat + ucast (le_word o' :: u16) * 4) + 4 \<le> length data)"
  shows "k + n \<le> m \<Longrightarrow> \<exists>out. dump_export_names data secs dd base eat enpt eot (of_nat k) n = Some out"
proof (induction n arbitrary: k)
  case (Suc n)
  obtain rest where rest: "dump_export_names data secs dd base eat enpt eot (of_nat k + 1) n = Some rest"
    using Suc.IH[of "Suc k"] Suc.prems by (auto simp: add.commute)
  show ?case
  proof (cases "buf_at 2 data (unat (eot + of_nat k * 2))")
    case None
    then show ?thesis by (auto simp: pd_u16_def pd_u32_def split: option.splits)
  next
    case (Some o')
    have "eat = 0 \<or> unat (eat + ucast (le_word o' :: u16) * 4) + 4 \<le> length data"
      using assms Suc.prems Some by (auto dest!: spec[of _ k])
    then have "\<exists>line. export_line data secs dd base eat nrva (le_word o') = Some line" for nrva
      by (auto simp: export_line_def pd_u32_def buf_at_def Let_def)
    then obtain F where "\<And>nrva. export_line data secs dd base eat nrva (le_word o') = Some (F nrva)" by metis
    then show ?thesis using rest Some by (auto simp: pd_u16_def pd_u32_def split: option.splits)
  qed
qed simp

lemma dump_exports_Some:
  assumes "exports_inside data secs dd"
  shows "\<exists>out. dump_exports data secs dd = Some out"
proof (cases "buf_at 40 data (unat (pd_rva_to_offset secs (RelativeVirtualAddress dd)))")
  case None
  then show ?thesis by (simp add: dump_exports_def)
next
  case (Some b)
  define e where "e = dec_pe_export b"
  have "\<exists>out. dump_export_names data secs dd (OrdinalBase e) (pd_rva_to_offset secs (FunctionsRVA e))
            (pd_rva_to_offset secs (NamesRVA e)) (pd_rva_to_offset secs (NameOrdinalsRVA e)) (of_nat 0) (unat (NumberOfNames e)) = Some out"
    using assms Some unfolding exports_inside_def e_def by (intro dump_export_names_Some[where m = "unat (NumberOfNames (dec_pe_export b))"]) (auto simp: Let_def)
  then show ?thesis using Some by (auto simp: dump_exports_def e_def)
qed

section \<open>Properties\<close>

text \<open>
  On a file below 4 GB whose raw sections end inside the 32-bit range, whose exported ordinals lie in the
  address table and whose relocation blocks never make the 32-bit offset wrap, the listing after the PE
  headers is complete: nothing outside the buffer is read and one iteration per byte of the file is
  enough for every loop.
\<close>

theorem dump_pe_complete:
  assumes "length data < 2 ^ 32" "length data < fuel" "unat dd_off < 2 ^ 40"
    and "dump_sections data (dd_off + ucast num_dd * 8) 0 (unat (NumberOfSections peh)) = Some (lines, secs)" "raw_in_range secs"
    and "\<forall>d. get_dd data dd_off num_dd 0 = Some (Some d) \<longrightarrow> exports_inside data secs d"
    and "\<forall>d. get_dd data dd_off num_dd 5 = Some (Some d) \<longrightarrow>
      relocs_advance data (pd_rva_to_offset secs (RelativeVirtualAddress d) + dd_Size d) (pd_rva_to_offset secs (RelativeVirtualAddress d))"
  shows "\<exists>out. dump_pe_body fuel data peh is64 dd_off num_dd = Some out"
proof -
  have dd: "\<exists>d. get_dd data dd_off num_dd i = Some d" for i
    using pd_get_entry[of dd_off 8 8 dec_pe_data_directory data i] assms(3) by (auto simp: get_dd_def)
  have part: "\<exists>out. dd_part (get_dd data dd_off num_dd i) f = Some out"
    if "\<And>d. get_dd data dd_off num_dd i = Some (Some d) \<Longrightarrow> \<exists>out. f d = Some out" for i f
    using dd[of i] that by (auto simp: dd_part_def dd_used_def split: option.splits)
  have "\<exists>out. dump_imports fuel fuel is64 data secs off 0 = Some out" for off
    using dump_imports_Some[OF assms(5,1,2), of off 0 fuel] assms(2) by simp
  then have "\<exists>out. dd_part (get_dd data dd_off num_dd 1) (\<lambda>d. do {
        out \<leftarrow> dump_imports fuel fuel is64 data secs (pd_rva_to_offset secs (RelativeVirtualAddress d)) 0;
        Some (nl @ lit ''[Imports]'' @ nl @ out) }) = Some out"
    by (intro part) (metis Option.bind.bind_lunit)
  moreover have "\<exists>out. dd_part (get_dd data dd_off num_dd 0) (dump_exports data secs) = Some out"
    using assms(6) dump_exports_Some by (intro part) blast
  moreover have "\<exists>out. dd_part (get_dd data dd_off num_dd 5) (dump_relocs fuel data secs) = Some out"
  proof (rule part)
    fix d assume "get_dd data dd_off num_dd 5 = Some (Some d)"
    then have "relocs_advance data (pd_rva_to_offset secs (RelativeVirtualAddress d) + dd_Size d) (pd_rva_to_offset secs (RelativeVirtualAddress d))"
      using assms(7) by blast
    from dump_reloc_blocks_Some[OF this reloc_visits.start] obtain out k where
      "dump_reloc_blocks fuel data (pd_rva_to_offset secs (RelativeVirtualAddress d) + dd_Size d) (pd_rva_to_offset secs (RelativeVirtualAddress d)) = Some (out, k)"
      using assms(2) by (metis (no_types) gr0I less_nat_zero_code surj_pair trans_less_add2)
    then show "\<exists>out. dump_relocs fuel data secs d = Some out" by (simp add: dump_relocs_def Let_def)
  qed
  moreover have "\<exists>out. dd_part (get_dd data dd_off num_dd 3) (dump_exceptions data secs (Machine peh)) = Some out"
    using dump_exceptions_Some by (intro part) blast
  ultimately show ?thesis using assms(4) by (auto simp: dump_pe_body_def)
qed


text \<open>
  The offset the dumper prints names and tables from is the one the converter computes for the same
  section table, with 0 for an address that no section's raw data holds.
\<close>

theorem dumper_offset_agrees:
  "pd_rva_to_offset (map (\<lambda>e. \<lparr>pe_va = sec_va e, pe_raw = sec_raw e, pe_rawsz = sec_rawsz e, pe_virtsz = sec_virtsz e\<rparr>) secs) rva =
     (case rva_to_offset secs rva of None \<Rightarrow> 0 | Some off \<Rightarrow> off)"
  by (induction secs) (auto simp: in_sec_def sec_end_def Let_def)

text \<open>
  Two relocation blocks whose sizes add up to \<^verbatim>\<open>2^32\<close> send the dumper round for ever: \<^verbatim>\<open>cur\<close> returns to the
  first block and no number of iterations is enough.
\<close>

theorem dump_relocs_cycles:
  assumes "buf_at 8 data (unat cur) = Some b1" "buf_at 8 data (unat (cur + SizeOfBlock (dec_pe_base_reloc b1))) = Some b2"
    and "8 \<le> SizeOfBlock (dec_pe_base_reloc b1)" "SizeOfBlock (dec_pe_base_reloc b1) + SizeOfBlock (dec_pe_base_reloc b2) = 0"
    and "8 \<le> SizeOfBlock (dec_pe_base_reloc b2)"
    and "unat cur + 8 \<le> unat r_end" "unat (cur + SizeOfBlock (dec_pe_base_reloc b1)) + 8 \<le> unat r_end"
  shows "dump_reloc_blocks fuel data r_end cur = None"
proof -
  define s1 s2 where "s1 = SizeOfBlock (dec_pe_base_reloc b1)" and "s2 = SizeOfBlock (dec_pe_base_reloc b2)"
  have s: "cur + s1 + s2 = cur" "8 \<le> s1" "8 \<le> s2" "\<not> s1 < 8" "\<not> s2 < 8" using assms(3-5) by (simp_all add: s1_def s2_def add.assoc not_less)
  have len: "unat cur < length data" "unat (cur + s1) < length data" using assms(1,2) buf_at_Some by (fastforce simp: s1_def)+
  have bind_None: "(case_prod (\<lambda>out k. None :: (bytes \<times> u32) option)) = (\<lambda>_. None)" by auto
  have "dump_reloc_blocks fuel data r_end cur = None \<and> dump_reloc_blocks fuel data r_end (cur + s1) = None"
  proof (induction fuel)
    case (Suc f)
    have 1: "dump_reloc_blocks (Suc f) data r_end cur = None"
      using Suc assms(1,6) len s by (auto simp: s1_def[symmetric] Let_def bind_None split: Option.bind_splits)
    have rt: "dump_reloc_blocks f data r_end (cur + s1 + s2) = None" using Suc by (simp only: s(1))
    have 2: "dump_reloc_blocks (Suc f) data r_end (cur + s1) = None"
      using rt assms(2,7) len s(2-5) by (auto simp: s1_def[symmetric] s2_def[symmetric] Let_def bind_None split: Option.bind_splits)
    show ?case using 1 2 by blast
  qed simp
  then show ?thesis by blast
qed

definition cyclic_relocs :: bytes where
  "cyclic_relocs = [0, 0, 0, 0, 8, 0, 0, 0, 0, 0, 0, 0, 0xF8, 0xFF, 0xFF, 0xFF]"

theorem dump_relocs_cycles_witness: "\<forall>fuel. dump_reloc_blocks fuel cyclic_relocs 16 0 = None"
proof
  fix fuel
  show "dump_reloc_blocks fuel cyclic_relocs 16 0 = None"
    by (rule dump_relocs_cycles[of _ _ "take 8 cyclic_relocs" "drop 8 cyclic_relocs"])
      (simp_all add: cyclic_relocs_def buf_at_def dec_pe_base_reloc_def field_def le_word_def)
qed

end
