(* ===== verification/Pedump_Elf.thy ===== *)
theory Pedump_Elf
  imports Pedump_Pe Util
begin

text \<open>
  \<^verbatim>\<open>dump_elf\<close> and \<^verbatim>\<open>main\<close> (pedump.cpp).  The 64-bit structs are those of \<open>Elf_Types\<close>, the 32-bit ones are new.
  \<open>None\<close> is undefined behaviour: a pointer outside the buffer or an \<^verbatim>\<open>int\<close> product that overflows.
\<close>

section \<open>The 32-bit structures\<close>

record Elf32_Ehdr =
  e32_ident :: bytes
  e32_type :: u16
  e32_machine :: u16
  e32_version :: u32
  e32_entry :: u32
  e32_phoff :: u32
  e32_shoff :: u32
  e32_flags :: u32
  e32_ehsize :: u16
  e32_phentsize :: u16
  e32_phnum :: u16
  e32_shentsize :: u16
  e32_shnum :: u16
  e32_shstrndx :: u16

definition dec_ehdr32 :: "bytes \<Rightarrow> Elf32_Ehdr" where
  "dec_ehdr32 b = \<lparr>e32_ident = field 0 16 b, e32_type = le_word (field 16 2 b), e32_machine = le_word (field 18 2 b),
     e32_version = le_word (field 20 4 b), e32_entry = le_word (field 24 4 b), e32_phoff = le_word (field 28 4 b),
     e32_shoff = le_word (field 32 4 b), e32_flags = le_word (field 36 4 b), e32_ehsize = le_word (field 40 2 b),
     e32_phentsize = le_word (field 42 2 b), e32_phnum = le_word (field 44 2 b), e32_shentsize = le_word (field 46 2 b),
     e32_shnum = le_word (field 48 2 b), e32_shstrndx = le_word (field 50 2 b)\<rparr>"

record Elf32_Shdr =
  s32_name :: u32
  s32_type :: u32
  s32_flags :: u32
  s32_addr :: u32
  s32_offset :: u32
  s32_size :: u32
  s32_link :: u32
  s32_info :: u32
  s32_addralign :: u32
  s32_entsize :: u32

definition dec_shdr32 :: "bytes \<Rightarrow> Elf32_Shdr" where
  "dec_shdr32 b = \<lparr>s32_name = le_word (field 0 4 b), s32_type = le_word (field 4 4 b), s32_flags = le_word (field 8 4 b),
     s32_addr = le_word (field 12 4 b), s32_offset = le_word (field 16 4 b), s32_size = le_word (field 20 4 b),
     s32_link = le_word (field 24 4 b), s32_info = le_word (field 28 4 b), s32_addralign = le_word (field 32 4 b),
     s32_entsize = le_word (field 36 4 b)\<rparr>"

record Elf32_Phdr =
  p32_type :: u32
  p32_offset :: u32
  p32_vaddr :: u32
  p32_paddr :: u32
  p32_filesz :: u32
  p32_memsz :: u32
  p32_flags :: u32
  p32_align :: u32

definition dec_phdr32 :: "bytes \<Rightarrow> Elf32_Phdr" where
  "dec_phdr32 b = \<lparr>p32_type = le_word (field 0 4 b), p32_offset = le_word (field 4 4 b), p32_vaddr = le_word (field 8 4 b),
     p32_paddr = le_word (field 12 4 b), p32_filesz = le_word (field 16 4 b), p32_memsz = le_word (field 20 4 b),
     p32_flags = le_word (field 24 4 b), p32_align = le_word (field 28 4 b)\<rparr>"

record Elf32_Sym =
  st32_name :: u32
  st32_value :: u32
  st32_size :: u32
  st32_info :: u8
  st32_other :: u8
  st32_shndx :: u16

definition dec_sym32 :: "bytes \<Rightarrow> Elf32_Sym" where
  "dec_sym32 b = \<lparr>st32_name = le_word (field 0 4 b), st32_value = le_word (field 4 4 b), st32_size = le_word (field 8 4 b),
     st32_info = le_word (field 12 1 b), st32_other = le_word (field 13 1 b), st32_shndx = le_word (field 14 2 b)\<rparr>"

text \<open>A relocation with its addend, 0 in a \<^verbatim>\<open>REL\<close> table: offset, info, addend.\<close>

definition dec_rel64 :: "bytes \<Rightarrow> u64 \<times> u64 \<times> int" where
  "dec_rel64 b = (le_word (field 0 8 b), le_word (field 8 8 b), 0)"

definition dec_rela64 :: "bytes \<Rightarrow> u64 \<times> u64 \<times> int" where
  "dec_rela64 b = (le_word (field 0 8 b), le_word (field 8 8 b), sint (le_word (field 16 8 b) :: u64))"

definition dec_rel32 :: "bytes \<Rightarrow> u32 \<times> u32 \<times> int" where
  "dec_rel32 b = (le_word (field 0 4 b), le_word (field 4 4 b), 0)"

definition dec_rela32 :: "bytes \<Rightarrow> u32 \<times> u32 \<times> int" where
  "dec_rela32 b = (le_word (field 0 4 b), le_word (field 4 4 b), sint (le_word (field 8 4 b) :: u32))"

definition dec_dyn32 :: "bytes \<Rightarrow> u32 \<times> u32" where
  "dec_dyn32 b = (le_word (field 0 4 b), le_word (field 4 4 b))"

section \<open>The header\<close>

text \<open>The local variables of \<^verbatim>\<open>dump_elf\<close> that every later part reads.\<close>

record elf_vars =
  ev_type :: u16
  ev_machine :: u16
  ev_entry :: u64
  ev_phoff :: u64
  ev_shoff :: u64
  ev_phnum :: u16
  ev_shnum :: u16
  ev_shstrndx :: u16
  ev_phentsize :: u16
  ev_shentsize :: u16

definition vars64 :: "Elf64_Ehdr \<Rightarrow> elf_vars" where
  "vars64 h = \<lparr>ev_type = e_type h, ev_machine = e_machine h, ev_entry = e_entry h, ev_phoff = e_phoff h, ev_shoff = e_shoff h,
     ev_phnum = e_phnum h, ev_shnum = e_shnum h, ev_shstrndx = e_shstrndx h, ev_phentsize = e_phentsize h, ev_shentsize = e_shentsize h\<rparr>"

definition vars32 :: "Elf32_Ehdr \<Rightarrow> elf_vars" where
  "vars32 h = \<lparr>ev_type = e32_type h, ev_machine = e32_machine h, ev_entry = ucast (e32_entry h), ev_phoff = ucast (e32_phoff h),
     ev_shoff = ucast (e32_shoff h), ev_phnum = e32_phnum h, ev_shnum = e32_shnum h, ev_shstrndx = e32_shstrndx h,
     ev_phentsize = e32_phentsize h, ev_shentsize = e32_shentsize h\<rparr>"

definition abi_names :: "string list" where
  "abi_names = [''SYSV'', ''HP-UX'', ''NetBSD'', ''Linux'', ''GNU/Hurd'', '''', ''Solaris'', ''AIX'', ''IRIX'', ''FreeBSD'', ''Tru64'',
     ''Modesto'', ''OpenBSD'', ''OpenVMS'', ''NSK'', ''AROS'']"

definition ident_lines :: "bytes \<Rightarrow> bytes" where
  "ident_lines data =
     lit ''[ELF Ident]'' @ nl @
     lit ''  Class:   '' @ lit (if data ! 4 = 2 then ''ELF64'' else ''ELF32'') @ nl @
     lit ''  Data:    '' @ lit (if data ! 5 = 1 then ''LE'' else ''BE'') @ nl @
     lit ''  OSABI:   '' @ lit (if data ! 7 < 16 then abi_names ! unat (data ! 7) else ''OTHER'') @ nl"

definition header_lines :: "elf_vars \<Rightarrow> bytes" where
  "header_lines v =
     lit ''  Type:    '' @ lit (elf_type_str (ev_type v)) @ nl @
     lit ''  Machine: '' @ lit (elf_machine_str (ev_machine v)) @ nl @
     lit ''  Entry:   0x'' @ pr_hex 0 (ev_entry v) @ nl @
     lit ''  PHoff:   0x'' @ pr_hex 0 (ev_phoff v) @ lit ''  ('' @ pr_u 0 (unat (ev_phnum v)) @ lit '' entries, entsize='' @
       pr_u 0 (unat (ev_phentsize v)) @ lit '')'' @ nl @
     lit ''  SHoff:   0x'' @ pr_hex 0 (ev_shoff v) @ lit ''  ('' @ pr_u 0 (unat (ev_shnum v)) @ lit '' entries, entsize='' @
       pr_u 0 (unat (ev_shentsize v)) @ lit '')'' @ nl"

section \<open>Section headers by index\<close>

text \<open>The product of two \<^verbatim>\<open>uint16_t\<close> is one of \<^verbatim>\<open>int\<close> values, converted to \<^verbatim>\<open>size_t\<close> only afterwards.\<close>

definition int_product :: "u16 \<Rightarrow> u16 \<Rightarrow> u64 option" where
  "int_product i entsz = (if unat i * unat entsz < 2 ^ 31 then Some (of_nat (unat i * unat entsz)) else None)"

definition get_shdr_offset :: "elf_vars \<Rightarrow> u16 \<Rightarrow> u64 option" where
  "get_shdr_offset v idx = do { k \<leftarrow> int_product idx (ev_shentsize v); Some (ev_shoff v + k) }"

definition get_sh :: "(Elf64_Shdr \<Rightarrow> 'a::len word) \<Rightarrow> (Elf32_Shdr \<Rightarrow> 'a word) \<Rightarrow> bool \<Rightarrow> bytes \<Rightarrow> elf_vars \<Rightarrow> u16 \<Rightarrow> 'a word option" where
  "get_sh f64 f32 is64 data v idx = do {
     off \<leftarrow> get_shdr_offset v idx;
     (if is64 then do { s \<leftarrow> pd_get dec_shdr 64 data off; Some (case s of None \<Rightarrow> 0 | Some s' \<Rightarrow> f64 s') }
      else do { s \<leftarrow> pd_get dec_shdr32 40 data off; Some (case s of None \<Rightarrow> 0 | Some s' \<Rightarrow> f32 s') }) }"

definition get_sh_name_off :: "bool \<Rightarrow> bytes \<Rightarrow> elf_vars \<Rightarrow> u16 \<Rightarrow> u64 option" where
  "get_sh_name_off = get_sh (\<lambda>s. ucast (sh_name s)) (\<lambda>s. ucast (s32_name s))"

definition get_sh_offset :: "bool \<Rightarrow> bytes \<Rightarrow> elf_vars \<Rightarrow> u16 \<Rightarrow> u64 option" where
  "get_sh_offset = get_sh sh_offset (\<lambda>s. ucast (s32_offset s))"

definition get_sh_size :: "bool \<Rightarrow> bytes \<Rightarrow> elf_vars \<Rightarrow> u16 \<Rightarrow> u64 option" where
  "get_sh_size = get_sh sh_size (\<lambda>s. ucast (s32_size s))"

definition get_sh_entsize :: "bool \<Rightarrow> bytes \<Rightarrow> elf_vars \<Rightarrow> u16 \<Rightarrow> u64 option" where
  "get_sh_entsize = get_sh sh_entsize (\<lambda>s. ucast (s32_entsize s))"

definition get_sh_link :: "bool \<Rightarrow> bytes \<Rightarrow> elf_vars \<Rightarrow> u16 \<Rightarrow> u32 option" where
  "get_sh_link = get_sh sh_link s32_link"

definition get_sh_info :: "bool \<Rightarrow> bytes \<Rightarrow> elf_vars \<Rightarrow> u16 \<Rightarrow> u32 option" where
  "get_sh_info = get_sh sh_info s32_info"

definition get_sh_type :: "bool \<Rightarrow> bytes \<Rightarrow> elf_vars \<Rightarrow> u16 \<Rightarrow> u32 option" where
  "get_sh_type = get_sh sh_type s32_type"

definition get_sh_flags :: "bool \<Rightarrow> bytes \<Rightarrow> elf_vars \<Rightarrow> u16 \<Rightarrow> u64 option" where
  "get_sh_flags = get_sh sh_flags (\<lambda>s. ucast (s32_flags s))"

definition get_sh_addr :: "bool \<Rightarrow> bytes \<Rightarrow> elf_vars \<Rightarrow> u16 \<Rightarrow> u64 option" where
  "get_sh_addr = get_sh sh_addr (\<lambda>s. ucast (s32_addr s))"

definition shstrtab_off :: "bool \<Rightarrow> bytes \<Rightarrow> elf_vars \<Rightarrow> u64 option" where
  "shstrtab_off is64 data v =
     (if ev_shstrndx v \<noteq> 0 \<and> ev_shstrndx v < ev_shnum v then get_sh_offset is64 data v (ev_shstrndx v) else Some 0)"

definition sec_name_of :: "bool \<Rightarrow> bytes \<Rightarrow> elf_vars \<Rightarrow> u64 \<Rightarrow> u16 \<Rightarrow> bytes option" where
  "sec_name_of is64 data v strtab idx = do {
     name_off \<leftarrow> get_sh_name_off is64 data v idx;
     Some (if strtab = 0 then [] else pd_str data (strtab + name_off)) }"

text \<open>The first section from \<open>i\<close> on that passes a test, 0xFFFF when there is none.\<close>

fun find_sec :: "(u16 \<Rightarrow> bool option) \<Rightarrow> u16 \<Rightarrow> nat \<Rightarrow> u16 option" where
  "find_sec test i 0 = Some 0xFFFF"
| "find_sec test i (Suc n) = do { hit \<leftarrow> test i; (if hit then Some i else find_sec test (i + 1) n) }"

definition find_sec_by_type :: "bool \<Rightarrow> bytes \<Rightarrow> elf_vars \<Rightarrow> u32 \<Rightarrow> u16 option" where
  "find_sec_by_type is64 data v type = find_sec (\<lambda>i. map_option (\<lambda>t. t = type) (get_sh_type is64 data v i)) 0 (unat (ev_shnum v))"

definition find_sec_by_name :: "bool \<Rightarrow> bytes \<Rightarrow> elf_vars \<Rightarrow> u64 \<Rightarrow> bytes \<Rightarrow> u16 option" where
  "find_sec_by_name is64 data v strtab name =
     find_sec (\<lambda>i. map_option (\<lambda>s. s = name) (sec_name_of is64 data v strtab i)) 0 (unat (ev_shnum v))"

section \<open>Segments\<close>

definition flag_char :: "'a::len word \<Rightarrow> nat \<Rightarrow> char \<Rightarrow> bytes" where
  "flag_char flags n c = lit [if bit flags n then c else CHR ''-'']"

definition phdr_line64 :: "bytes \<Rightarrow> Elf64_Phdr \<Rightarrow> bytes" where
  "phdr_line64 data ph =
     lit ''  '' @ rpad 18 (lit (elf_seg_type_str (p_type ph))) @ lit ''  0x'' @ pr_hex 8 (p_offset ph) @ lit ''  0x'' @ pr_hex 16 (p_vaddr ph) @
     lit ''  0x'' @ pr_hex 16 (p_paddr ph) @ lit ''  0x'' @ pr_hex 8 (p_filesz ph) @ lit ''  0x'' @ pr_hex 8 (p_memsz ph) @ lit ''  '' @
     flag_char (p_flags ph) 2 CHR ''R'' @ flag_char (p_flags ph) 1 CHR ''W'' @ flag_char (p_flags ph) 0 CHR ''X'' @ nl @
     (if p_type ph = 3 \<and> unat (p_offset ph) < length data then lit ''    Interpreter: '' @ pd_str data (p_offset ph) @ nl else [])"

definition phdr_line32 :: "bytes \<Rightarrow> Elf32_Phdr \<Rightarrow> bytes" where
  "phdr_line32 data ph =
     lit ''  '' @ rpad 18 (lit (elf_seg_type_str (p32_type ph))) @ lit ''  0x'' @ pr_hex 8 (p32_offset ph) @ lit ''  0x'' @ pr_hex 8 (p32_vaddr ph) @
     lit ''  0x'' @ pr_hex 8 (p32_paddr ph) @ lit ''  0x'' @ pr_hex 8 (p32_filesz ph) @ lit ''  0x'' @ pr_hex 8 (p32_memsz ph) @ lit ''  '' @
     flag_char (p32_flags ph) 2 CHR ''R'' @ flag_char (p32_flags ph) 1 CHR ''W'' @ flag_char (p32_flags ph) 0 CHR ''X'' @ nl @
     (if p32_type ph = 3 \<and> unat (p32_offset ph) < length data then lit ''    Interpreter: '' @ pd_str data (ucast (p32_offset ph)) @ nl else [])"

fun dump_phdrs :: "bool \<Rightarrow> bytes \<Rightarrow> elf_vars \<Rightarrow> u16 \<Rightarrow> nat \<Rightarrow> bytes option" where
  "dump_phdrs is64 data v i 0 = Some []"
| "dump_phdrs is64 data v i (Suc n) = do {
     k \<leftarrow> int_product i (ev_phentsize v);
     line \<leftarrow> (if is64 then map_option (map_option (phdr_line64 data)) (pd_get dec_phdr 56 data (ev_phoff v + k))
       else map_option (map_option (phdr_line32 data)) (pd_get dec_phdr32 32 data (ev_phoff v + k)));
     (case line of None \<Rightarrow> Some [] | Some l \<Rightarrow> map_option (\<lambda>rest. l @ rest) (dump_phdrs is64 data v (i + 1) n)) }"

definition segments_title :: "nat \<Rightarrow> bytes" where
  "segments_title n = nl @ lit ''[Program Headers / Segments] count='' @ pr_u 0 n @ nl @
     lit ''  '' @ rpad 18 (lit ''Type'') @ lit ''  '' @ rpad 10 (lit ''FileOff'') @ lit ''  '' @ rpad 18 (lit ''VAddr'') @ lit ''  '' @
     rpad 18 (lit ''PAddr'') @ lit ''  '' @ rpad 10 (lit ''FileSz'') @ lit ''  '' @ rpad 10 (lit ''MemSz'') @ lit ''  Flags'' @ nl"

definition dump_segments :: "bool \<Rightarrow> bytes \<Rightarrow> elf_vars \<Rightarrow> bytes option" where
  "dump_segments is64 data v = do {
     out \<leftarrow> dump_phdrs is64 data v 0 (unat (ev_phnum v));
     Some (segments_title (unat (ev_phnum v)) @ out) }"

section \<open>Sections\<close>

definition shdr_line :: "bool \<Rightarrow> bytes \<Rightarrow> elf_vars \<Rightarrow> u64 \<Rightarrow> u16 \<Rightarrow> bytes option" where
  "shdr_line is64 data v strtab i = do {
     stype \<leftarrow> get_sh_type is64 data v i;
     sflags \<leftarrow> get_sh_flags is64 data v i;
     saddr \<leftarrow> get_sh_addr is64 data v i;
     soff \<leftarrow> get_sh_offset is64 data v i;
     ssz \<leftarrow> get_sh_size is64 data v i;
     name \<leftarrow> sec_name_of is64 data v strtab i;
     Some (lit ''  '' @ pr_u 3 (unat i) @ lit ''  '' @ rpad 20 name @ lit ''  '' @ rpad 14 (lit (elf_sh_type_str stype)) @
       lit ''  0x'' @ pr_hex 16 saddr @ lit ''  0x'' @ pr_hex 8 soff @ lit ''  0x'' @ pr_hex 8 ssz @ lit ''  '' @
       flag_char sflags 1 CHR ''W'' @ flag_char sflags 2 CHR ''A'' @ flag_char sflags 3 CHR ''X'' @ nl) }"

fun dump_shdrs :: "bool \<Rightarrow> bytes \<Rightarrow> elf_vars \<Rightarrow> u64 \<Rightarrow> u16 \<Rightarrow> nat \<Rightarrow> bytes option" where
  "dump_shdrs is64 data v strtab i 0 = Some []"
| "dump_shdrs is64 data v strtab i (Suc n) = do {
     line \<leftarrow> shdr_line is64 data v strtab i;
     rest \<leftarrow> dump_shdrs is64 data v strtab (i + 1) n;
     Some (line @ rest) }"

definition sections_title :: "nat \<Rightarrow> bytes" where
  "sections_title n = nl @ lit ''[Section Headers] count='' @ pr_u 0 n @ nl @
     lit ''  Idx  '' @ rpad 20 (lit ''Name'') @ lit ''  '' @ rpad 14 (lit ''Type'') @ lit ''  '' @ rpad 18 (lit ''Addr'') @ lit ''  '' @
     rpad 10 (lit ''Offset'') @ lit ''  '' @ rpad 10 (lit ''Size'') @ lit ''  Flags'' @ nl"

definition dump_section_headers :: "bool \<Rightarrow> bytes \<Rightarrow> elf_vars \<Rightarrow> u64 \<Rightarrow> bytes option" where
  "dump_section_headers is64 data v strtab = do {
     out \<leftarrow> dump_shdrs is64 data v strtab 0 (unat (ev_shnum v));
     Some (sections_title (unat (ev_shnum v)) @ out) }"

section \<open>The dynamic section\<close>

definition dyn_is_string :: "u64 \<Rightarrow> bool" where
  "dyn_is_string tag \<longleftrightarrow> tag = 1 \<or> tag = 14 \<or> tag = 15 \<or> tag = 29"

text \<open>A line of the listing: the tag as sign-extended and as printed, the value, the printers of both widths.\<close>

definition dyn_line :: "bytes \<Rightarrow> u64 \<Rightarrow> u64 \<Rightarrow> bytes \<Rightarrow> u64 \<Rightarrow> bytes \<Rightarrow> bytes" where
  "dyn_line data strtab tag tag_hex val val_hex = (case elf_dyn_tag_str tag of
     Some tname \<Rightarrow> lit ''  '' @ rpad 16 (lit tname) @ lit ''  0x'' @ val_hex @
       (if dyn_is_string tag then lit ''  '' @ [34] @ (if strtab \<noteq> 0 then pd_str data (strtab + val) else []) @ [34] else []) @ nl
   | None \<Rightarrow> lit ''  0x'' @ tag_hex @ lit ''  0x'' @ val_hex @ nl)"

definition dyn_line64 :: "bytes \<Rightarrow> u64 \<Rightarrow> Elf64_Dyn \<Rightarrow> bytes" where
  "dyn_line64 data strtab d = dyn_line data strtab (d_tag d) (pr_hex 16 (d_tag d)) (d_val d) (pr_hex 16 (d_val d))"

definition dyn_line32 :: "bytes \<Rightarrow> u64 \<Rightarrow> u32 \<times> u32 \<Rightarrow> bytes" where
  "dyn_line32 data strtab d = dyn_line data strtab (scast (fst d)) (pr_hex 8 (fst d)) (ucast (snd d)) (pr_hex 8 (snd d))"

text \<open>A table of entries from an offset on, up to an end marker or the first entry outside the file.\<close>

fun dump_table :: "(bytes \<Rightarrow> 'e) \<Rightarrow> nat \<Rightarrow> ('e \<Rightarrow> bool) \<Rightarrow> (u64 \<Rightarrow> 'e \<Rightarrow> bytes option) \<Rightarrow> bytes \<Rightarrow> u64 \<Rightarrow> u64 \<Rightarrow> nat \<Rightarrow> bytes option" where
  "dump_table dec entsz stop line data off i 0 = Some []"
| "dump_table dec entsz stop line data off i (Suc n) = do {
     p \<leftarrow> pd_get dec entsz data (off + i * of_nat entsz);
     (case p of
        None \<Rightarrow> Some []
      | Some e \<Rightarrow> if stop e then Some [] else do {
          l \<leftarrow> line i e;
          rest \<leftarrow> dump_table dec entsz stop line data off (i + 1) n;
          Some (l @ rest) }) }"

definition dump_dynamic :: "bool \<Rightarrow> bytes \<Rightarrow> elf_vars \<Rightarrow> bytes option" where
  "dump_dynamic is64 data v = do {
     dyn_idx \<leftarrow> find_sec_by_type is64 data v 6;
     (if dyn_idx = 0xFFFF then Some [] else do {
        doff \<leftarrow> get_sh_offset is64 data v dyn_idx;
        dsz \<leftarrow> get_sh_size is64 data v dyn_idx;
        link \<leftarrow> get_sh_link is64 data v dyn_idx;
        let strtab_idx = (ucast link :: u16);
        dynstrtab_off \<leftarrow> (if strtab_idx < ev_shnum v then get_sh_offset is64 data v strtab_idx else Some 0);
        out \<leftarrow> (if is64 then dump_table dec_dyn 16 (\<lambda>d. d_tag d = 0) (\<lambda>_ d. Some (dyn_line64 data dynstrtab_off d)) data doff 0 (unat (dsz div 16))
          else dump_table dec_dyn32 8 (\<lambda>d. fst d = 0) (\<lambda>_ d. Some (dyn_line32 data dynstrtab_off d)) data doff 0 (unat (dsz div 8)));
        Some (nl @ lit ''[Dynamic Section]'' @ nl @ out) }) }"

section \<open>Symbol tables\<close>

definition sym_line64 :: "bytes \<Rightarrow> u64 \<Rightarrow> u64 \<Rightarrow> Elf64_Sym \<Rightarrow> bytes" where
  "sym_line64 data strtab i s = lit ''  '' @ pr_u 4 (unat i) @ lit ''  '' @ pr_hex 16 (st_value s) @ lit ''  0x'' @ pr_hex 8 (st_size s) @
     lit ''  '' @ rpad 8 (lit (elf_sym_binding (st_info s))) @ lit ''  '' @ rpad 7 (lit (elf_sym_type (st_info s))) @ lit ''  '' @
     rpad 8 (pr_u 0 (unat (st_shndx s))) @ lit ''  '' @ (if strtab \<noteq> 0 then pd_str data (strtab + ucast (st_name s)) else []) @ nl"

definition sym_line32 :: "bytes \<Rightarrow> u64 \<Rightarrow> u64 \<Rightarrow> Elf32_Sym \<Rightarrow> bytes" where
  "sym_line32 data strtab i s = lit ''  '' @ pr_u 4 (unat i) @ lit ''  '' @ pr_hex 8 (st32_value s) @ lit ''  0x'' @ pr_hex 8 (st32_size s) @
     lit ''  '' @ rpad 8 (lit (elf_sym_binding (st32_info s))) @ lit ''  '' @ rpad 7 (lit (elf_sym_type (st32_info s))) @ lit ''  '' @
     rpad 8 (pr_u 0 (unat (st32_shndx s))) @ lit ''  '' @ (if strtab \<noteq> 0 then pd_str data (strtab + ucast (st32_name s)) else []) @ nl"

definition dump_symbols :: "bool \<Rightarrow> bytes \<Rightarrow> elf_vars \<Rightarrow> u64 \<Rightarrow> string \<Rightarrow> bytes option" where
  "dump_symbols is64 data v strtab secname = do {
     sym_idx \<leftarrow> find_sec_by_name is64 data v strtab (lit secname);
     (if sym_idx = 0xFFFF then Some [] else do {
        sym_off \<leftarrow> get_sh_offset is64 data v sym_idx;
        sym_sz \<leftarrow> get_sh_size is64 data v sym_idx;
        link \<leftarrow> get_sh_link is64 data v sym_idx;
        let str_idx = (ucast link :: u16);
        strtab_off \<leftarrow> (if str_idx < ev_shnum v then get_sh_offset is64 data v str_idx else Some 0);
        let n = sym_sz div (if is64 then 24 else 16);
        out \<leftarrow> (if is64 then dump_table dec_sym 24 (\<lambda>_. False) (\<lambda>i s. Some (sym_line64 data strtab_off i s)) data sym_off 0 (unat n)
          else dump_table dec_sym32 16 (\<lambda>_. False) (\<lambda>i s. Some (sym_line32 data strtab_off i s)) data sym_off 0 (unat n));
        Some (nl @ lit ''['' @ lit secname @ lit ''] '' @ pr_u 0 (unat n) @ lit '' symbols'' @ nl @
          lit ''   Idx  '' @ rpad 8 (lit ''Value'') @ lit ''  '' @ rpad 10 (lit ''Size'') @ lit ''  '' @ rpad 8 (lit ''Binding'') @ lit ''  '' @
          rpad 7 (lit ''Type'') @ lit ''  '' @ rpad 8 (lit ''SHndx'') @ lit ''  Name'' @ nl @ out) }) }"

section \<open>Relocations\<close>

definition reloc_line64 :: "bytes \<Rightarrow> u64 \<Rightarrow> u64 \<Rightarrow> u64 \<times> u64 \<times> int \<Rightarrow> bytes option" where
  "reloc_line64 data symtab strtab r = (case r of (off, info, addend) \<Rightarrow> do {
     let sym_idx = (ucast (drop_bit 32 info) :: u32);
     sname \<leftarrow> (if sym_idx \<noteq> 0 \<and> symtab \<noteq> 0 then do {
         s \<leftarrow> pd_get dec_sym 24 data (symtab + ucast sym_idx * 24);
         Some (case s of None \<Rightarrow> [] | Some y \<Rightarrow> if strtab \<noteq> 0 then pd_str data (strtab + ucast (st_name y)) else []) }
       else Some []);
     Some (lit ''    0x'' @ pr_hex 16 off @ lit ''  '' @ rpad 24 (elf_reloc_x64 (ucast info)) @ lit ''  '' @ rpad 10 (pr_d addend) @
       lit ''  '' @ sname @ nl) })"

definition reloc_line32 :: "bytes \<Rightarrow> u64 \<Rightarrow> u64 \<Rightarrow> u32 \<times> u32 \<times> int \<Rightarrow> bytes option" where
  "reloc_line32 data symtab strtab r = (case r of (off, info, addend) \<Rightarrow> do {
     let sym_idx = drop_bit 8 info;
     sname \<leftarrow> (if sym_idx \<noteq> 0 \<and> symtab \<noteq> 0 then do {
         s \<leftarrow> pd_get dec_sym32 16 data (symtab + ucast sym_idx * 16);
         Some (case s of None \<Rightarrow> [] | Some y \<Rightarrow> if strtab \<noteq> 0 then pd_str data (strtab + ucast (st32_name y)) else []) }
       else Some []);
     Some (lit ''    0x'' @ pr_hex 8 off @ lit ''  '' @ rpad 24 (elf_reloc_x64 (info AND 0xFF)) @ lit ''  '' @ rpad 10 (pr_d addend) @
       lit ''  '' @ sname @ nl) })"

text \<open>The entries of one relocation section; the size of an entry depends on the class and on the kind of the table.\<close>

definition dump_reloc_table :: "bool \<Rightarrow> bool \<Rightarrow> bytes \<Rightarrow> u64 \<Rightarrow> u64 \<Rightarrow> u64 \<Rightarrow> u64 \<Rightarrow> bytes option" where
  "dump_reloc_table is64 is_rela data roff rsz symtab strtab =
     (if is64 then
        (if is_rela then dump_table dec_rela64 24 (\<lambda>_. False) (\<lambda>_. reloc_line64 data symtab strtab) data roff 0 (unat (rsz div 24))
         else dump_table dec_rel64 16 (\<lambda>_. False) (\<lambda>_. reloc_line64 data symtab strtab) data roff 0 (unat (rsz div 16)))
      else
        (if is_rela then dump_table dec_rela32 12 (\<lambda>_. False) (\<lambda>_. reloc_line32 data symtab strtab) data roff 0 (unat (rsz div 12))
         else dump_table dec_rel32 8 (\<lambda>_. False) (\<lambda>_. reloc_line32 data symtab strtab) data roff 0 (unat (rsz div 8))))"

definition dump_reloc_section :: "bool \<Rightarrow> bytes \<Rightarrow> elf_vars \<Rightarrow> u64 \<Rightarrow> u16 \<Rightarrow> bytes option" where
  "dump_reloc_section is64 data v shstrtab i = do {
     stype \<leftarrow> get_sh_type is64 data v i;
     (if stype \<noteq> 4 \<and> stype \<noteq> 9 then Some [] else do {
        roff \<leftarrow> get_sh_offset is64 data v i;
        rsz \<leftarrow> get_sh_size is64 data v i;
        link \<leftarrow> get_sh_link is64 data v i;
        info \<leftarrow> get_sh_info is64 data v i;
        let sym_link = (ucast link :: u16);
        let target_idx = (ucast info :: u16);
        symtab_off \<leftarrow> (if sym_link < ev_shnum v then get_sh_offset is64 data v sym_link else Some 0);
        stridx \<leftarrow> (if sym_link < ev_shnum v then map_option (\<lambda>l. ucast l) (get_sh_link is64 data v sym_link) else Some (0xFFFF :: u16));
        strtab_off \<leftarrow> (if stridx < ev_shnum v then get_sh_offset is64 data v stridx else Some 0);
        name \<leftarrow> sec_name_of is64 data v shstrtab i;
        target \<leftarrow> sec_name_of is64 data v shstrtab target_idx;
        out \<leftarrow> dump_reloc_table is64 (stype = 4) data roff rsz symtab_off strtab_off;
        Some (lit ''  Section: '' @ name @ lit '' -> '' @ target @ nl @
          lit ''    '' @ rpad 18 (lit ''Offset'') @ lit ''  '' @ rpad 24 (lit ''Type'') @ lit ''  '' @ rpad 10 (lit ''Addend'') @ lit ''  Symbol'' @ nl @ out) }) }"

fun dump_reloc_sections :: "bool \<Rightarrow> bytes \<Rightarrow> elf_vars \<Rightarrow> u64 \<Rightarrow> u16 \<Rightarrow> nat \<Rightarrow> bytes option" where
  "dump_reloc_sections is64 data v shstrtab i 0 = Some []"
| "dump_reloc_sections is64 data v shstrtab i (Suc n) = do {
     s \<leftarrow> dump_reloc_section is64 data v shstrtab i;
     rest \<leftarrow> dump_reloc_sections is64 data v shstrtab (i + 1) n;
     Some (s @ rest) }"

section \<open>The whole listing\<close>

definition dump_elf_body :: "bool \<Rightarrow> bytes \<Rightarrow> elf_vars \<Rightarrow> bytes option" where
  "dump_elf_body is64 data v = do {
     strtab \<leftarrow> shstrtab_off is64 data v;
     segs \<leftarrow> dump_segments is64 data v;
     secs \<leftarrow> dump_section_headers is64 data v strtab;
     dyn \<leftarrow> dump_dynamic is64 data v;
     dynsym \<leftarrow> dump_symbols is64 data v strtab ''.dynsym'';
     symtab \<leftarrow> dump_symbols is64 data v strtab ''.symtab'';
     rels \<leftarrow> dump_reloc_sections is64 data v strtab 0 (unat (ev_shnum v));
     Some (header_lines v @ segs @ secs @ dyn @ dynsym @ symtab @ nl @ lit ''[Relocations]'' @ nl @ rels @ nl) }"

definition dump_elf :: "bytes \<Rightarrow> bytes option" where
  "dump_elf data = (
     let title = lit ''=== ELF ==='' @ nl in
     if length data < 16 then Some (title @ lit ''Too small'' @ nl)
     else if take 4 data \<noteq> [0x7f, 69, 76, 70] then Some (title @ lit ''Not ELF'' @ nl)
     else let t = title @ ident_lines data in
       if data ! 5 \<noteq> 1 then Some (t @ lit ''  Big-endian ELF not supported in this build'' @ nl)
       else if data ! 4 = 2 then do {
         eh \<leftarrow> pd_get dec_ehdr 64 data 0;
         (case eh of None \<Rightarrow> Some (t @ lit ''Cannot read ELF64 header'' @ nl)
          | Some h \<Rightarrow> map_option (\<lambda>out. t @ out) (dump_elf_body True data (vars64 h))) }
       else do {
         eh \<leftarrow> pd_get dec_ehdr32 52 data 0;
         (case eh of None \<Rightarrow> Some (t @ lit ''Cannot read ELF32 header'' @ nl)
          | Some h \<Rightarrow> map_option (\<lambda>out. t @ out) (dump_elf_body False data (vars32 h))) })"

section \<open>Entry point\<close>

definition pd_load :: "host_fs \<Rightarrow> bytes \<Rightarrow> bytes option" where
  "pd_load fs path = (case fs path of
     None \<Rightarrow> None
   | Some f \<Rightarrow>
       if ftell_size f \<le> 0 then None
       else if length (fread_data f) = nat (ftell_size f) then Some (fread_data f)
       else None)"

definition rule_line :: bytes where
  "rule_line = replicate 54 61 @ nl"

definition dump_file :: "nat \<Rightarrow> host_fs \<Rightarrow> bytes \<Rightarrow> bytes option" where
  "dump_file fuel fs path = (
     let head = nl @ rule_line @ lit ''File: '' @ path @ nl @ rule_line in
     case pd_load fs path of
       None \<Rightarrow> Some head
     | Some data \<Rightarrow>
         if length data < 4 then Some (head @ lit ''File too small'' @ nl)
         else if data ! 0 = 77 \<and> data ! 1 = 90 then map_option (\<lambda>out. head @ out) (dump_pe fuel data)
         else if take 4 data = [0x7f, 69, 76, 70] then map_option (\<lambda>out. head @ out) (dump_elf data)
         else Some (head @ lit ''Unknown format (magic: '' @ pr_hex 2 (data ! 0) @ lit '' '' @ pr_hex 2 (data ! 1) @ lit '' '' @
           pr_hex 2 (data ! 2) @ lit '' '' @ pr_hex 2 (data ! 3) @ lit '')'' @ nl))"

fun dump_files :: "nat \<Rightarrow> host_fs \<Rightarrow> bytes list \<Rightarrow> bytes option" where
  "dump_files fuel fs [] = Some []"
| "dump_files fuel fs (p # ps) = do { a \<leftarrow> dump_file fuel fs p; b \<leftarrow> dump_files fuel fs ps; Some (a @ b) }"

text \<open>Standard output and the exit status; the arguments are those after the program's name.\<close>

definition pedump_main :: "nat \<Rightarrow> host_fs \<Rightarrow> bytes list \<Rightarrow> (bytes \<times> int) option" where
  "pedump_main fuel fs args = (if args = [] then Some ([], 1) else map_option (\<lambda>out. (out, 0)) (dump_files fuel fs args))"

section \<open>Where the ELF listing is complete\<close>

text \<open>Tables of entries below 32 KB in the lower quarter of the address range, and so the sections' contents.\<close>

definition offsets_sane :: "bool \<Rightarrow> bytes \<Rightarrow> elf_vars \<Rightarrow> bool" where
  "offsets_sane is64 data v \<longleftrightarrow> length data < 2 ^ 62 \<and> unat (ev_phentsize v) \<le> 32768 \<and> unat (ev_shentsize v) \<le> 32768 \<and>
     unat (ev_phoff v) < 2 ^ 62 \<and> unat (ev_shoff v) < 2 ^ 62 \<and>
     (\<forall>i < ev_shnum v. case get_sh_offset is64 data v i of None \<Rightarrow> True | Some off \<Rightarrow> unat off < 2 ^ 62)"

lemma unat_u16_less: "unat (x :: u16) < 65536"
  using unsigned_less[of x] by simp

lemma int_product_Some:
  assumes "unat e \<le> 32768"
  shows "\<exists>k. int_product i e = Some k \<and> unat k < 2 ^ 31"
proof -
  have "unat i * unat e \<le> 65535 * 32768" using unat_u16_less[of i] assms by (intro mult_le_mono) auto
  then have l: "unat i * unat e < 2 ^ 31" by simp
  then have "unat (of_nat (unat i * unat e) :: u64) = unat i * unat e" by (intro unat_of_nat_small) simp
  with l show ?thesis by (simp add: int_product_def del: of_nat_mult)
qed

lemma pd_get_indexed:
  assumes "unat e \<le> 32768" "unat base < 2 ^ 62" "n < 2 ^ 20"
  shows "\<exists>k r. int_product i e = Some k \<and> pd_get dec n data (base + k) = Some r"
proof -
  obtain k where "int_product i e = Some k" "unat k < 2 ^ 31" using int_product_Some[OF assms(1)] by blast
  moreover from this have "unat (base + k) < 2 ^ 63" using unat_add_le[of base k] assms(2) by simp
  ultimately show ?thesis using assms(3) by (auto simp: pd_get_near)
qed

lemma get_sh_Some:
  assumes "offsets_sane is64 data v"
  shows "\<exists>x. get_sh f g is64 data v i = Some x"
proof -
  have e: "unat (ev_shentsize v) \<le> 32768" "unat (ev_shoff v) < 2 ^ 62" using assms by (auto simp: offsets_sane_def)
  show ?thesis using pd_get_indexed[OF e, of 64 i dec_shdr data] pd_get_indexed[OF e, of 40 i dec_shdr32 data]
    by (auto simp: get_sh_def get_shdr_offset_def)
qed

lemmas get_sh_defs = get_sh_name_off_def get_sh_offset_def get_sh_size_def get_sh_link_def get_sh_info_def get_sh_type_def
  get_sh_flags_def get_sh_addr_def

lemma getters_Some:
  assumes "offsets_sane is64 data v"
  shows "\<exists>x. get_sh_name_off is64 data v i = Some x"
    and "\<exists>x. get_sh_offset is64 data v i = Some x"
    and "\<exists>x. get_sh_size is64 data v i = Some x"
    and "\<exists>x. get_sh_link is64 data v i = Some x"
    and "\<exists>x. get_sh_info is64 data v i = Some x"
    and "\<exists>x. get_sh_type is64 data v i = Some x"
    and "\<exists>x. get_sh_flags is64 data v i = Some x"
    and "\<exists>x. get_sh_addr is64 data v i = Some x"
  unfolding get_sh_defs by (rule get_sh_Some[OF assms])+

lemma sec_name_Some: "offsets_sane is64 data v \<Longrightarrow> \<exists>s. sec_name_of is64 data v strtab i = Some s"
  using getters_Some(1)[of is64 data v i] by (auto simp: sec_name_of_def)

lemma find_sec_Some:
  "\<forall>j. \<exists>b. test j = Some b \<Longrightarrow> \<exists>k. find_sec test i n = Some k"
proof (induction n arbitrary: i)
  case (Suc n)
  then obtain b where "test i = Some b" by blast
  then show ?case using Suc.IH[OF Suc.prems] by simp
qed simp

text \<open>A hit is a section below the count; the fallback value is never one, so it stands for no section.\<close>

lemma find_sec_less:
  "find_sec test i n = Some k \<Longrightarrow> unat i + n \<le> 65535 \<Longrightarrow> k = 0xFFFF \<or> unat i \<le> unat k \<and> unat k < unat i + n"
proof (induction n arbitrary: i)
  case (Suc n)
  have "unat (i + 1) = unat i + 1" using Suc.prems(2) by (subst unat_add_nowrap) auto
  then show ?case using Suc.prems Suc.IH[of "i + 1"] by (auto split: Option.bind_splits if_splits)
qed simp

lemma dump_table_Some:
  assumes line: "\<And>i e. \<exists>l. line i e = Some l" and len: "length data < 2 ^ 62" and n: "entsz < 2 ^ 20"
  shows "unat (off + i * of_nat entsz) < 2 ^ 62 \<Longrightarrow> \<exists>out. dump_table dec entsz stop line data off i k = Some out"
proof (induction k arbitrary: i)
  case (Suc k)
  define o' where "o' = off + i * of_nat entsz"
  have at: "pd_get dec entsz data o' = Some (map_option dec (buf_at entsz data (unat o')))"
    using Suc.prems n by (intro pd_get_near) (auto simp: o'_def)
  show ?case
  proof (cases "buf_at entsz data (unat o')")
    case (Some b)
    have e: "off + (i + 1) * of_nat entsz = o' + of_nat entsz" by (simp add: o'_def algebra_simps)
    have "unat (o' + of_nat entsz) \<le> unat o' + entsz"
      using unat_add_le[of o' "of_nat entsz"] n by (simp add: unat_of_nat_small)
    then have "unat (off + (i + 1) * of_nat entsz) < 2 ^ 62" using buf_at_Some[OF Some] len unfolding e by simp
    then obtain rest where "dump_table dec entsz stop line data off (i + 1) k = Some rest" using Suc.IH by blast
    moreover obtain l where "line i (dec b) = Some l" using line by blast
    ultimately show ?thesis using at Some by (simp add: o'_def)
  qed (use at in \<open>simp add: o'_def\<close>)
qed simp

lemma dump_phdrs_Some:
  assumes "unat (ev_phentsize v) \<le> 32768" "unat (ev_phoff v) < 2 ^ 62"
  shows "\<exists>out. dump_phdrs is64 data v i n = Some out"
proof (induction n arbitrary: i)
  case (Suc n)
  obtain rest where "dump_phdrs is64 data v (i + 1) n = Some rest" using Suc by blast
  then show ?case using pd_get_indexed[OF assms, of 56 i dec_phdr data] pd_get_indexed[OF assms, of 32 i dec_phdr32 data]
    by (auto split: option.splits)
qed simp

lemma shdr_line_Some: "offsets_sane is64 data v \<Longrightarrow> \<exists>l. shdr_line is64 data v strtab i = Some l"
  using getters_Some(2,3,6-8)[of is64 data v i] sec_name_Some[of is64 data v strtab i] by (auto simp: shdr_line_def)

lemma dump_shdrs_Some: "offsets_sane is64 data v \<Longrightarrow> \<exists>out. dump_shdrs is64 data v strtab i n = Some out"
proof (induction n arbitrary: i)
  case (Suc n)
  obtain l where "shdr_line is64 data v strtab i = Some l" using shdr_line_Some[OF Suc.prems] by blast
  moreover obtain rest where "dump_shdrs is64 data v strtab (i + 1) n = Some rest" using Suc by blast
  ultimately show ?case by simp
qed simp

text \<open>A section of the file, or none.\<close>

lemma sec_offset_Some:
  assumes "offsets_sane is64 data v"
  shows "\<exists>off. (if k < ev_shnum v then get_sh_offset is64 data v k else Some 0) = Some off \<and> unat off < 2 ^ 62"
  using assms getters_Some(2)[OF assms, of k] by (auto simp: offsets_sane_def split: option.splits)

lemma found_offset_Some:
  assumes s: "offsets_sane is64 data v" and f: "find_sec test 0 (unat (ev_shnum v)) = Some k" and k: "k \<noteq> 0xFFFF"
  shows "\<exists>off. get_sh_offset is64 data v k = Some off \<and> unat off < 2 ^ 62"
proof -
  have "k < ev_shnum v" using find_sec_less[OF f] k unat_u16_less[of "ev_shnum v"] by (auto simp: word_less_nat_alt)
  then show ?thesis using sec_offset_Some[OF s, of k] by simp
qed

lemma dump_dynamic_Some:
  assumes s: "offsets_sane is64 data v"
  shows "\<exists>out. dump_dynamic is64 data v = Some out"
proof -
  have len: "length data < 2 ^ 62" using s by (simp add: offsets_sane_def)
  have hit: "\<forall>i. \<exists>b. map_option (\<lambda>t. t = 6) (get_sh_type is64 data v i) = Some b" using getters_Some(6)[OF s] by auto
  obtain k where k: "find_sec_by_type is64 data v 6 = Some k"
    using find_sec_Some[OF hit, of 0 "unat (ev_shnum v)"] by (auto simp: find_sec_by_type_def)
  show ?thesis
  proof (cases "k = 0xFFFF")
    case False
    obtain doff where d: "get_sh_offset is64 data v k = Some doff" "unat doff < 2 ^ 62"
      using found_offset_Some[OF s k[unfolded find_sec_by_type_def] False] by blast
    obtain dsz where z: "get_sh_size is64 data v k = Some dsz" using getters_Some(3)[OF s] by blast
    obtain link where l: "get_sh_link is64 data v k = Some link" using getters_Some(4)[OF s] by blast
    obtain st where st: "(if (ucast link :: u16) < ev_shnum v then get_sh_offset is64 data v (ucast link) else Some 0) = Some st"
      using sec_offset_Some[OF s] by blast
    obtain o64 o32 where
      "dump_table dec_dyn 16 (\<lambda>d. d_tag d = 0) (\<lambda>_ d. Some (dyn_line64 data st d)) data doff 0 (unat (dsz div 16)) = Some o64"
      "dump_table dec_dyn32 8 (\<lambda>d. fst d = 0) (\<lambda>_ d. Some (dyn_line32 data st d)) data doff 0 (unat (dsz div 8)) = Some o32"
      using dump_table_Some[OF _ len, of "\<lambda>_ d. Some (dyn_line64 data st d)" 16 doff 0 dec_dyn "\<lambda>d. d_tag d = 0" "unat (dsz div 16)"]
        dump_table_Some[OF _ len, of "\<lambda>_ d. Some (dyn_line32 data st d)" 8 doff 0 dec_dyn32 "\<lambda>d. fst d = 0" "unat (dsz div 8)"] d(2) by auto
    then show ?thesis using k False d(1) z l st by (simp add: dump_dynamic_def Let_def)
  qed (simp add: dump_dynamic_def k)
qed

lemma dump_symbols_Some:
  assumes s: "offsets_sane is64 data v"
  shows "\<exists>out. dump_symbols is64 data v strtab nm = Some out"
proof -
  have len: "length data < 2 ^ 62" using s by (simp add: offsets_sane_def)
  have hit: "\<forall>i. \<exists>b. map_option (\<lambda>s. s = lit nm) (sec_name_of is64 data v strtab i) = Some b"
    using sec_name_Some[OF s, of strtab] by auto
  obtain k where k: "find_sec_by_name is64 data v strtab (lit nm) = Some k"
    using find_sec_Some[OF hit, of 0 "unat (ev_shnum v)"] by (auto simp: find_sec_by_name_def)
  show ?thesis
  proof (cases "k = 0xFFFF")
    case False
    obtain sof where d: "get_sh_offset is64 data v k = Some sof" "unat sof < 2 ^ 62"
      using found_offset_Some[OF s k[unfolded find_sec_by_name_def] False] by blast
    obtain sz where z: "get_sh_size is64 data v k = Some sz" using getters_Some(3)[OF s] by blast
    obtain link where l: "get_sh_link is64 data v k = Some link" using getters_Some(4)[OF s] by blast
    obtain st where st: "(if (ucast link :: u16) < ev_shnum v then get_sh_offset is64 data v (ucast link) else Some 0) = Some st"
      using sec_offset_Some[OF s] by blast
    obtain o64 o32 where
      "dump_table dec_sym 24 (\<lambda>_. False) (\<lambda>i s. Some (sym_line64 data st i s)) data sof 0 (unat (sz div 24)) = Some o64"
      "dump_table dec_sym32 16 (\<lambda>_. False) (\<lambda>i s. Some (sym_line32 data st i s)) data sof 0 (unat (sz div 16)) = Some o32"
      using dump_table_Some[OF _ len, of "\<lambda>i s. Some (sym_line64 data st i s)" 24 sof 0 dec_sym "\<lambda>_. False" "unat (sz div 24)"]
        dump_table_Some[OF _ len, of "\<lambda>i s. Some (sym_line32 data st i s)" 16 sof 0 dec_sym32 "\<lambda>_. False" "unat (sz div 16)"] d(2) by auto
    then show ?thesis using k False d(1) z l st by (simp add: dump_symbols_def Let_def)
  qed (simp add: dump_symbols_def k)
qed

lemma reloc_lines_Some:
  assumes "unat symtab < 2 ^ 62"
  shows "\<exists>l. reloc_line64 data symtab strtab r = Some l" and "\<exists>l. reloc_line32 data symtab strtab r' = Some l"
  using pd_get_entry[OF assms, of 24 24 dec_sym data] pd_get_entry[OF assms, of 16 16 dec_sym32 data]
  by (auto simp: reloc_line64_def reloc_line32_def Let_def split: prod.splits)

lemma dump_reloc_table_Some:
  assumes "length data < 2 ^ 62" "unat symtab < 2 ^ 62" "unat roff < 2 ^ 62"
  shows "\<exists>out. dump_reloc_table is64 is_rela data roff rsz symtab strtab = Some out"
  using reloc_lines_Some[OF assms(2), of data strtab] assms(1,3)
  by (auto simp: dump_reloc_table_def intro!: dump_table_Some)

lemma dump_reloc_section_Some:
  assumes s: "offsets_sane is64 data v" and i: "i < ev_shnum v"
  shows "\<exists>out. dump_reloc_section is64 data v st i = Some out"
proof -
  have len: "length data < 2 ^ 62" using s by (simp add: offsets_sane_def)
  obtain ty where ty: "get_sh_type is64 data v i = Some ty" using getters_Some(6)[OF s] by blast
  obtain ro where ro: "get_sh_offset is64 data v i = Some ro" "unat ro < 2 ^ 62" using sec_offset_Some[OF s, of i] i by auto
  obtain rz where rz: "get_sh_size is64 data v i = Some rz" using getters_Some(3)[OF s] by blast
  obtain link where l: "get_sh_link is64 data v i = Some link" using getters_Some(4)[OF s] by blast
  obtain info where inf: "get_sh_info is64 data v i = Some info" using getters_Some(5)[OF s] by blast
  obtain sy where sy: "(if (ucast link :: u16) < ev_shnum v then get_sh_offset is64 data v (ucast link) else Some 0) = Some sy" "unat sy < 2 ^ 62"
    using sec_offset_Some[OF s] by blast
  obtain ix where ix: "(if (ucast link :: u16) < ev_shnum v then map_option (\<lambda>l. ucast l) (get_sh_link is64 data v (ucast link)) else Some (0xFFFF :: u16)) = Some ix"
    using getters_Some(4)[OF s, of "ucast link"] by (cases "(ucast link :: u16) < ev_shnum v") auto
  obtain sf where sf: "(if ix < ev_shnum v then get_sh_offset is64 data v ix else Some 0) = Some sf" using sec_offset_Some[OF s] by blast
  obtain n1 n2 where nm: "sec_name_of is64 data v st i = Some n1" "sec_name_of is64 data v st (ucast info) = Some n2"
    using sec_name_Some[OF s] by metis
  obtain out where "dump_reloc_table is64 (ty = 4) data ro rz sy sf = Some out"
    using dump_reloc_table_Some[OF len sy(2) ro(2)] by blast
  then show ?thesis using ty ro(1) rz l inf sy(1) ix sf nm by (simp add: dump_reloc_section_def Let_def)
qed

lemma dump_reloc_sections_Some:
  "offsets_sane is64 data v \<Longrightarrow> unat i + n \<le> unat (ev_shnum v) \<Longrightarrow> \<exists>out. dump_reloc_sections is64 data v st i n = Some out"
proof (induction n arbitrary: i)
  case (Suc n)
  have "i < ev_shnum v" using Suc.prems(2) by (simp add: word_less_nat_alt)
  then obtain l where "dump_reloc_section is64 data v st i = Some l" using dump_reloc_section_Some[OF Suc.prems(1)] by blast
  moreover have "unat (i + 1) = unat i + 1" using Suc.prems(2) unat_u16_less[of "ev_shnum v"] by (subst unat_add_nowrap) auto
  then obtain rest where "dump_reloc_sections is64 data v st (i + 1) n = Some rest" using Suc.IH[of "i + 1"] Suc.prems by auto
  ultimately show ?case by simp
qed simp

text \<open>
  The listing of an ELF file is complete, and nothing outside the buffer is read, when the offsets of its two
  header tables and of its sections lie in the lower quarter of the 64-bit range and table entries
  have at most 32768 bytes.
\<close>

theorem dump_elf_complete:
  assumes "offsets_sane is64 data v"
  shows "\<exists>out. dump_elf_body is64 data v = Some out"
proof -
  obtain st where "shstrtab_off is64 data v = Some st"
    using getters_Some(2)[OF assms, of "ev_shstrndx v"] by (cases "ev_shstrndx v \<noteq> 0 \<and> ev_shstrndx v < ev_shnum v") (auto simp: shstrtab_off_def)
  moreover obtain segs where "dump_segments is64 data v = Some segs"
    using dump_phdrs_Some[of v is64 data 0 "unat (ev_phnum v)"] assms by (auto simp: dump_segments_def offsets_sane_def)
  moreover obtain secs where "dump_section_headers is64 data v st = Some secs"
    using dump_shdrs_Some[OF assms, of st 0 "unat (ev_shnum v)"] by (auto simp: dump_section_headers_def)
  moreover obtain d where "dump_dynamic is64 data v = Some d" using dump_dynamic_Some[OF assms] by blast
  moreover obtain s1 s2 where "dump_symbols is64 data v st ''.dynsym'' = Some s1" "dump_symbols is64 data v st ''.symtab'' = Some s2"
    using dump_symbols_Some[OF assms] by metis
  moreover obtain r where "dump_reloc_sections is64 data v st 0 (unat (ev_shnum v)) = Some r"
    using dump_reloc_sections_Some[OF assms, of 0 "unat (ev_shnum v)" st] by auto
  ultimately show ?thesis by (simp add: dump_elf_body_def)
qed

end
