(* ===== verification/Pedump_Properties.thy ===== *)
theory Pedump_Properties
  imports Pedump_Elf Sample_Pe
begin

text \<open>
  The dumper on the files of the converter: the listing of a converted file, and the sample PE file on which
  the theorems of the dumper are exercised.
\<close>

section \<open>Dumping what the converter writes\<close>

lemma dump_phdrs_table:
  assumes tab: "\<forall>i < length ps. map_option dec_phdr (buf_at 56 data (64 + i * 56)) = Some (ps ! i)"
    and v: "ev_phentsize v = 56" "ev_phoff v = 64" and small: "length ps < 65536"
  shows "i + n = length ps \<Longrightarrow> dump_phdrs True data v (of_nat i) n = Some (concat (map (phdr_line64 data) (drop i ps)))"
proof (induction n arbitrary: i)
  case (Suc n)
  have i: "i < length ps" "i < 65536" using Suc.prems small by auto
  have iu: "unat (of_nat i :: u16) = i" using i(2) by (intro unat_of_nat_small) simp
  have e: "unat (56 :: u16) \<le> 32768" by simp
  have k: "int_product (of_nat i) 56 = Some (of_nat (i * 56))" using i(2) iu by (simp add: int_product_def)
  have off: "unat (64 + of_nat (i * 56) :: u64) = 64 + i * 56"
  proof -
    have "unat (of_nat (i * 56) :: u64) = i * 56" using i(2) by (intro unat_of_nat_small) simp
    then show ?thesis using i(2) by (subst unat_add_nowrap) (simp_all del: of_nat_mult)
  qed
  have "pd_get dec_phdr 56 data (64 + of_nat (i * 56)) = Some (Some (ps ! i))"
    using tab i off by (subst pd_get_near) (simp_all del: of_nat_mult)
  moreover have "dump_phdrs True data v (of_nat i + 1) n = Some (concat (map (phdr_line64 data) (drop (Suc i) ps)))"
    using Suc.IH[of "Suc i"] Suc.prems by (simp add: add.commute)
  ultimately show ?case using k v Cons_nth_drop_Suc[OF i(1), symmetric] by (simp del: of_nat_mult)
qed simp

lemma dump_no_sections:
  assumes "ev_shnum v = 0" and "dump_phdrs is64 data v 0 (unat (ev_phnum v)) = Some segs"
  shows "dump_elf_body is64 data v = Some (header_lines v @ segments_title (unat (ev_phnum v)) @ segs @ sections_title 0 @
    nl @ lit ''[Relocations]'' @ nl @ nl)"
  using assms by (simp add: dump_elf_body_def shstrtab_off_def dump_segments_def dump_section_headers_def dump_dynamic_def
    dump_symbols_def find_sec_by_type_def find_sec_by_name_def)

text \<open>A 64-bit little-endian file that starts with an encoded header is taken for one.\<close>

lemma dump_elf_encoded:
  assumes "data = enc_ehdr h @ rest" and "e_ident h = [0x7f, 69, 76, 70, 2, 1, 1, 0] @ replicate 8 0"
  shows "dump_elf data = map_option (\<lambda>out. lit ''=== ELF ==='' @ nl @ ident_lines data @ out) (dump_elf_body True data (vars64 h))"
proof -
  have len: "length (enc_ehdr h) = 64" by (rule length_enc_ehdr) (simp add: assms(2))
  have "take 64 data = enc_ehdr h" using assms(1) len by simp
  moreover have "dec_ehdr (enc_ehdr h) = h" using dec_enc_ehdr[of h "[]"] assms(2) by simp
  ultimately have "pd_get dec_ehdr 64 data 0 = Some (Some h)" using assms(1) len by (subst pd_get_near) (simp_all add: buf_at_def)
  moreover obtain rest' where "data = [0x7f, 69, 76, 70, 2, 1, 1, 0] @ rest'" using assms by (simp add: enc_ehdr_def)
  then have "take 4 data = [0x7f, 69, 76, 70]" "data ! 4 = 2" "data ! 5 = 1" by simp_all
  ultimately show ?thesis using assms(1) len by (cases "dump_elf_body True data (vars64 h)") (simp_all add: dump_elf_def Let_def)
qed



section \<open>Examples\<close>

text \<open>The sample file's sections as the dumper's map has them.\<close>

definition sample_map :: "PESectionMap_Entry list" where
  "sample_map = [\<lparr>pe_va = 0x1000, pe_raw = 0x168, pe_rawsz = 8, pe_virtsz = 8\<rparr>,
     \<lparr>pe_va = 0x2000, pe_raw = 0x170, pe_rawsz = 0x70, pe_virtsz = 0x70\<rparr>]"

lemma sample_dump_sections: "\<exists>out. dump_sections sample_pe (200 + ucast (10 :: u32) * 8) 0 2 = Some (out, sample_map)"
proof -
  have 0: "pd_get dec_pe_section 40 sample_pe 280 = Some (at_section sample_pe 280)"
    and 1: "pd_get dec_pe_section 40 sample_pe 320 = Some (at_section sample_pe 320)"
    by (simp_all add: pd_get_near at_section_def)
  have "\<exists>out. dump_sections sample_pe (200 + ucast (10 :: u32) * 8) 0 (Suc (Suc 0)) = Some (out, sample_map)"
    using sample_sec0 sample_sec1 by (simp add: 0 1 sample_map_def map_entry_def)
  then show ?thesis by (simp only: numeral_2_eq_2)
qed

lemma sample_blocks:
  "buf_at 8 sample_pe 464 = Some [0, 0x20, 0, 0, 12, 0, 0, 0]"
  "reloc_visits sample_pe 476 464 cur \<Longrightarrow> cur = 464 \<or> cur = 476"
proof -
  show b: "buf_at 8 sample_pe 464 = Some [0, 0x20, 0, 0, 12, 0, 0, 0]" by (simp add: sample_pe_def buf_at_def)
  show "reloc_visits sample_pe 476 464 cur \<Longrightarrow> cur = 464 \<or> cur = 476"
  proof (induction rule: reloc_visits.induct)
    case (step cur b)
    then show ?case using \<open>buf_at 8 sample_pe 464 = _\<close> by (auto simp: dec_pe_base_reloc_def field_def le_word_def)
  qed simp
qed

theorem dump_pe_complete_witness:
  "\<exists>out. dump_pe_body 481 sample_pe (dec_pe_header (take 24 (drop 64 sample_pe))) True 200 10 = Some out"
proof -
  let ?p = "dec_pe_header (take 24 (drop 64 sample_pe))"
  have n: "unat (NumberOfSections ?p) = 2" by (simp add: sample_read dec_pe_header_def)
  obtain lines where l: "dump_sections sample_pe (200 + ucast (10 :: u32) * 8) 0 (unat (NumberOfSections ?p)) = Some (lines, sample_map)"
    unfolding n using sample_dump_sections by blast
  have d0: "d = \<lparr>RelativeVirtualAddress = 0, dd_Size = 0\<rparr>" if "get_dd sample_pe 200 10 0 = Some (Some d)" for d
    using that by (simp add: get_dd_def pd_get_near sample_read dec_pe_data_directory_def)
  have d5: "d = \<lparr>RelativeVirtualAddress = 0x2060, dd_Size = 12\<rparr>" if "get_dd sample_pe 200 10 5 = Some (Some d)" for d
    using that by (simp add: get_dd_def pd_get_near sample_read dec_pe_data_directory_def)
  have "relocs_advance sample_pe 476 464"
    unfolding relocs_advance_def
  proof (intro allI impI)
    fix cur :: u32 and b
    assume a: "reloc_visits sample_pe 476 464 cur" "buf_at 8 sample_pe (unat cur) = Some b" "unat cur + 8 \<le> unat (476 :: u32)"
    then have "cur = 464" using sample_blocks(2)[OF a(1)] by auto
    then show "unat cur + unat (SizeOfBlock (dec_pe_base_reloc b)) < 2 ^ 32"
      using a(2) sample_blocks(1) by (auto simp: dec_pe_base_reloc_def field_def le_word_def)
  qed
  then have r5: "\<forall>d. get_dd sample_pe 200 10 5 = Some (Some d) \<longrightarrow>
      relocs_advance sample_pe (pd_rva_to_offset sample_map (RelativeVirtualAddress d) + dd_Size d) (pd_rva_to_offset sample_map (RelativeVirtualAddress d))"
    using d5 by (auto simp: sample_map_def)
  have e: "exports_inside sample_pe sample_map \<lparr>RelativeVirtualAddress = 0, dd_Size = 0\<rparr>"
    by (simp add: exports_inside_def sample_map_def dec_pe_export_def sample_read)
  have e0: "\<forall>d. get_dd sample_pe 200 10 0 = Some (Some d) \<longrightarrow> exports_inside sample_pe sample_map d"
    using d0 e by blast
  show ?thesis
    by (rule dump_pe_complete[OF _ _ _ l _ e0 r5]) (simp_all add: raw_in_range_def sample_map_def)
qed

lemma le_nat_zeros: "le_nat (replicate n 0) = 0"
  by (induction n) auto

definition one_section :: elf_vars where
  "one_section = \<lparr>ev_type = 2, ev_machine = 62, ev_entry = 0, ev_phoff = 0, ev_shoff = 0, ev_phnum = 1, ev_shnum = 1, ev_shstrndx = 0,
     ev_phentsize = 56, ev_shentsize = 64\<rparr>"

theorem dump_elf_complete_witness: "\<exists>out. dump_elf_body True (replicate 64 0) one_section = Some out"
proof (rule dump_elf_complete)
  have "get_sh_offset True (replicate 64 0) one_section 0 = Some 0"
    by (simp add: get_sh_offset_def get_sh_def get_shdr_offset_def int_product_def one_section_def pd_get_near buf_at_def
        dec_shdr_def field_def le_word_def le_nat_zeros)
  then show "offsets_sane True (replicate 64 0) one_section"
    by (auto simp: offsets_sane_def one_section_def word_less_nat_alt unat_eq_0)
qed

end
