(* ===== verification/Spec2Isabelle.thy ===== *)
theory Spec2Isabelle
  imports Pe_Properties Shim_Wait Shim_Strings Shim_Find Shim_Tls Shim_Memory Shim_Move Shim_Time Shim_Module
    Shim_Ctrl Shim_Loader Shim_Char Shim_Start Shim_Resource Shim_Veh Msvcrt_Wide Msvcrt_Signal Pedump_Properties
begin

text \<open>
  pe2elf turns a 64-bit Windows executable (PE32+) into an ELF executable or shared object
  that the Linux loader can map; the file \<^verbatim>\<open>winapi_shim.so\<close> that the result needs supplies the
  imported WinAPI functions.

  \<^bold>\<open>The converter.\<close>  \<^verbatim>\<open>main\<close> (pe2elf.cpp) parses the command line into a \<^verbatim>\<open>Converter\<close> and calls
  \<^verbatim>\<open>convert\<close>: \<^verbatim>\<open>PeImage\<close> (pe_image.hpp) reads the headers, imports, base relocations and the TLS
  directory, \<^verbatim>\<open>Builder\<close> (elf_build.hpp) makes the ELF tables, \<^verbatim>\<open>compute_plan\<close> (elf_plan.hpp)
  places them in the file and in memory, \<^verbatim>\<open>Writer\<close> (elf_write.hpp) emits the file.  The theories
  follow that order, one group of definitions per class, with the names of the source:

    \<^item> \<open>Prelude\<close>: machine words, byte lists, the little-endian codec, shared lemmas.
    \<^item> \<open>Util\<close> (util.hpp): the input buffer over a host file system, append, padding, \<^verbatim>\<open>align_up\<close>.
    \<^item> \<open>Pe_Types\<close>, \<open>Elf_Types\<close>: the packed structs as records, their decoders and encoders; the
      locale \<open>packed_struct\<close> states the round trip of a table of structs once.
    \<^item> \<open>Pe_Sections\<close>, \<open>Pe_Ordinals\<close>, \<open>Pe_Image\<close>, \<open>Pe_Relocs\<close> (pe_image.hpp): the section map,
      the ordinal resolver and its cache, \<^verbatim>\<open>parse\<close>, \<^verbatim>\<open>collect_imports\<close>, \<^verbatim>\<open>collect_relocs\<close>,
      \<^verbatim>\<open>collect_tls\<close>, \<^verbatim>\<open>rebase\<close>; \<open>Pe_Properties\<close> states what each of them records or refuses.
    \<^item> \<open>Elf_Plan\<close> (elf_plan.hpp): the layout on 64-bit words; sections do not overlap, and when
      the synthetic segment stays clear of the image and when it does not.
    \<^item> \<open>Elf_Symbols\<close>, \<open>Elf_Build\<close>, \<open>Elf_Segments\<close> (elf_build.hpp): strings, symbols, the System V
      hash table against the lookup of the ELF specification, the trampoline against a small
      model of the five instructions it consists of, the dynamic table, the patched sections,
      program and section headers.
    \<^item> \<open>Elf_Write\<close>, \<open>Convert\<close>, \<open>Convert_Tables\<close> (elf_write.hpp, pe2elf.cpp): the byte image of
      the output, the driver and the command line.
    \<^item> \<open>Sample_Pe\<close>: a complete 480-byte PE file and its conversion, on which the witnesses
      evaluate the definitions.

  A refused input is a value of \<open>conv_error + 'a\<close>, one constructor per message.  The host is a
  parameter: \<open>host_fs\<close> maps a path to a file (with what \<^verbatim>\<open>fseek\<close>, \<^verbatim>\<open>ftell\<close> and \<^verbatim>\<open>fread\<close> answer) and
  \<open>host_out\<close> tells how opening and writing the output fare.

  \<^bold>\<open>Fuel.\<close>  \<^verbatim>\<open>collect_relocs\<close> may run for ever (its 32-bit offset can wrap), so its model takes
  a number of iterations and answers with an error of its own when they do not suffice:
  \<open>collect_relocs_returns\<close> shows that one iteration per byte of the file is enough whenever no
  visited block makes the offset wrap, \<open>collect_relocs_cycles\<close> that no number is enough on a
  file with such a block.  Every other loop is a total function.

  \<^bold>\<open>The shim.\<close>  shim.cpp and the files it includes are the library the converted program is linked
  to.  Its handles index one table of slots; objects behind handles are counted references,
  and every exported function is a sequence of critical sections of the table's lock.  The
  model keeps that shape: a definition is one critical section or a sequence of them on the
  record \<open>shim\<close>, and \<open>None\<close> is a dereference of freed memory.

    \<^item> \<open>Shim_Types\<close> (shim_types.h, shim.cpp): constants, the error mapping, the kinds of handles.
    \<^item> \<open>Shim_Handles\<close>, \<open>Shim_Refs\<close> (shim.cpp, shim_kernel32_file.hpp): the table, taking and
      dropping references, closing; the invariant \<open>rc_inv\<close> that ties reference counts to slots
      and to the functions under way, and the locale \<open>ref_store\<close> for the bracket every function
      on objects has.
    \<^item> \<open>Shim_Sync\<close>, \<open>Shim_Wait\<close> (shim_kernel32_sync.hpp, shim_kernel32_thread.hpp): mutexes,
      events, semaphores, threads, single and multiple waits, duplication of handles.
      \<open>Shim_Safety\<close> has the interleavings of all critical sections as a step relation: nothing
      dangles, except in the two ways it exhibits.
    \<^item> \<open>Shim_Unicode\<close>, \<open>Shim_Strings\<close> (shim.cpp, shim_kernel32_string.hpp): UTF-8 and UTF-16, the
      code-page functions, case mapping and comparison.
    \<^item> \<open>Shim_Cmdline\<close> (shim.cpp, shim_kernel32_tail.hpp): quoting the arguments into a command
      line and splitting it.
    \<^item> \<open>Shim_Paths\<close>, \<open>Shim_Find\<close> (shim.cpp, shim_kernel32_file.hpp): path translation and the
      directory search; the host's directories, \<^verbatim>\<open>stat\<close> and \<^verbatim>\<open>fnmatch\<close> are parameters.
    \<^item> \<open>Shim_Tls\<close> (shim.cpp, shim_kernel32_critsec.hpp, shim_kernel32_fls.hpp): TLS and FLS
      indices (locale \<open>index_pool\<close>), the static TLS of the image and its callbacks.
    \<^item> \<open>Shim_Posix\<close>, \<open>Shim_Files\<close> (shim_kernel32_file.hpp, shim_kernel32_file_a.hpp,
      shim_kernel32_filetime.hpp, parts of shim_kernel32_tail.hpp and shim_kernel32_sysinfo.hpp): a host with names,
      inodes, open files and descriptors, its system calls in the state monad, and the file functions on
      it.  A call may fail, transfer fewer bytes than asked, and find that other processes have
      changed the names; what is shown of the descriptors holds in all such runs, the functional
      properties on a host that does not interfere.
    \<^item> \<open>Shim_Move\<close> (shim_kernel32_tail.hpp): moving files within and across file systems, links.
    \<^item> \<open>Shim_Memory\<close> (shim_kernel32_mem.hpp, shim.cpp): mappings on a page table with the table that remembers
      their sizes, and the heap functions.
    \<^item> \<open>Shim_Time\<close> (shim_kernel32_filetime.hpp, shim_kernel32_tail.hpp, shim_kernel32_sysinfo.hpp): file times,
      system times and DOS times over the Gregorian calendar.
    \<^item> \<open>Shim_Fullpath\<close> (shim_kernel32_misc.hpp, shim_kernel32_tail.hpp, shim_kernel32_file_a.hpp): full paths against
      a walk over lists of names, the current and the temporary directory, environment strings.
    \<^item> \<open>Shim_Module\<close> (shim_kernel32_module.hpp): libraries, the pseudo-handles of the Windows DLLs and the
      lookup of functions; this theory shows that it agrees with the names the converter
      gives imports (\<open>dynamic_lookup_agrees\<close>).
    \<^item> \<open>Shim_Ctrl\<close> (shim_kernel32_tail.hpp): console control handlers, with interrupts and the
      dispatcher as steps of their own.
    \<^item> \<open>Shim_Veh\<close> (shim_kernel32_veh.hpp, shim_kernel32_except.hpp): the doubly linked list of vectored
      exception handlers on a store of nodes, against a plain list; raising an exception and the context
      records.
    \<^item> \<open>Shim_Env\<close> (shim_kernel32_startup.hpp, shim.cpp): the environment, its two cached blocks on the heap and
      who may free them.
    \<^item> \<open>Shim_Resource\<close> (shim_user32.hpp): the walk through the resource directory of the loaded image to a string.
    \<^item> \<open>Shim_Locale\<close>, \<open>Shim_Info\<close> (shim_kernel32_locale.hpp and the reporting functions of the remaining files):
      the one locale, messages, expansion and comparison of strings; what is reported of the version, memory,
      processors, disks, consoles and clocks, with the buffers it is stored in; the image base.
    \<^item> \<open>Shim_Char\<close> (shim_user32.hpp, shim_kernel32_miscstubs.hpp): case and OEM conversion, the ANSI string functions
      against their wide counterparts.
    \<^item> \<open>Shim_Start\<close> (shim.cpp): the thread and process environment blocks as inlined code reaches them, the wrapper of
      \<^verbatim>\<open>pthread_create\<close> with its steps interleaved, the raw command line of the process.
    \<^item> \<open>Msvcrt_Format\<close>, \<open>Msvcrt_Qsort\<close>, \<open>Msvcrt_Wide\<close>, \<open>Msvcrt_Signal\<close> (shim_msvcrt.hpp): the part of the C
      runtime that the shim implements itself: formatted output, \<^verbatim>\<open>qsort\<close> with its stack of ranges (locale
      \<open>comparator\<close>), number and wide-string functions, \<^verbatim>\<open>scanf\<close>, signals, \<^verbatim>\<open>setjmp\<close> and \<^verbatim>\<open>longjmp\<close> on registers and
      memory cells, the locks and the streams.

  \<^bold>\<open>The tools.\<close>  \<open>Shim_Loader\<close> is \<^verbatim>\<open>load\<close> (load.cpp), which hands its arguments to the shim as a command line and jumps
  into a shared object.  \<open>Pedump_Text\<close>, \<open>Pedump_Pe\<close>, \<open>Pedump_Elf\<close> are \<^verbatim>\<open>pedump\<close> (pedump.cpp): the text it prints for
  a PE or an ELF file, with \<open>None\<close> for a read outside the buffer; \<open>Pedump_Properties\<close> applies it to the
  converter's output.

  A wait is given what ends it (the object, the deadline, a failing host call); the polling
  loop of \<^verbatim>\<open>WaitForMultipleObjects\<close> takes the list of clock readings it sees, one per round, and
  \<open>wait_multiple_returns\<close> shows that it returns as soon as one of them reaches the deadline.
  The list of TLS callbacks is read by a partial function, as its end is a null in the image.
  The loops that copy a file across file systems take a number of iterations, as each may
  transfer a single byte: \<open>move_file_moves\<close> shows that two more than the bytes of the file are enough.
  The dumper's loop over relocation blocks has the weakness of \<^verbatim>\<open>collect_relocs\<close> and takes fuel in the same way
  (\<open>dump_pe_complete\<close>, \<open>dump_relocs_cycles\<close>); the loops of \<^verbatim>\<open>qsort\<close> scan with an arbitrary comparator and are
  functions whose termination is proved for each of them (\<open>qsort_permutes\<close>).

  \<^bold>\<open>Not modelled.\<close>  The converter's progress and error messages beyond the kind of error; the \<^verbatim>\<open>chmod\<close> of the
  output; of the shim, what is only a call of the host or an answer that never changes: logging, the report
  of a crash, suspended threads' registers, the stubs of advapi32, shell32 and ole32 and the
  others that return a constant.  The calendar, \<^verbatim>\<open>gmtime_r\<close> and \<^verbatim>\<open>timegm\<close>, and the system calls are definitions of
  the development that stand for the C library; they have no counterpart under src/.
\<close>

section \<open>The converted file\<close>

text \<open>
  C1: the output file of a successful conversion.  It starts with the ELF header and the
  program headers, and holds, at the offsets of the plan, the interpreter name, the symbol
  table, the string table, the hash table, the relocation table, the dynamic table and the
  trampoline, then the data of every section and the copy of the PE headers; every entry of
  a table is decoded back from the file.  The header's type and entry point follow the
  options (\<^verbatim>\<open>--so\<close> enters at the safe byte, otherwise at the trampoline).
\<close>

theorem converted_file:
  assumes "convert fs host fuel cache conv ip op = Inr file" and "cache_ok fs cache"
  shows "\<exists>cache' img img' plan b. convert_image fs fuel cache conv ip = Inr (cache', img)
    \<and> convert_build conv img = Inr (img', plan, b)
    \<and> (build_sizes_ok b \<longrightarrow> file_holds file img' plan b
        \<and> e_type (dec_ehdr file) = (if pie conv \<or> c_so_mode conv then ET_DYN else ET_EXEC)
        \<and> e_entry (dec_ehdr file) = (if c_so_mode conv then safe_entry_va b else trampoline_va plan)
        \<and> e_phoff (dec_ehdr file) = 64 \<and> unat (e_phnum (dec_ehdr file)) = length (phdrs b))"
proof -
  obtain cache' img img' plan b b' shoff stoff where
      i: "convert_image fs fuel cache conv ip = Inr (cache', img)"
    and c: "convert_build conv img = Inr (img', plan, b)"
    and b': "b' = b \<or> b' = set_last_size (build_shdrs img' plan stoff (synth_va plan + stoff) b)"
    and w: "write_image img' plan b' (keep_shdr conv) (pie conv \<or> c_so_mode conv) shoff stoff = Inr file"
    using assms(1) by (rule convert_cases)
  have wf: "length (img_secs img) \<le> 96" "distinct (iat_sec_idx img)"
    using convert_image_wf [OF i assms(2)] by (auto simp: imports_wf_def)
  have so: "so_mode b = c_so_mode conv" by (rule convert_build_spec [OF c wf])
  have f': "so_mode b' = so_mode b" "safe_entry_va b' = safe_entry_va b" "phdrs b' = phdrs b"
    using b' by (auto simp: set_last_size_def build_shdrs_def Let_def case_prod_beta)
  have "file_holds file img' plan b
        \<and> e_type (dec_ehdr file) = (if pie conv \<or> c_so_mode conv then ET_DYN else ET_EXEC)
        \<and> e_entry (dec_ehdr file) = (if c_so_mode conv then safe_entry_va b else trampoline_va plan)
        \<and> e_phoff (dec_ehdr file) = 64 \<and> unat (e_phnum (dec_ehdr file)) = length (phdrs b)"
    if sz: "build_sizes_ok b"
  proof -
    obtain img1 where pf: "plan_for img1 img' plan b" "patched_sizes_ok img' b"
      using convert_build_plan_for [OF c wf sz] by blast
    have "length (phdrs b) \<le> 103" by (rule convert_build_spec [OF c wf]) (use wf in linarith)
    then have "unat (of_nat (length (phdrs b)) :: u16) = length (phdrs b)"
      by (intro unat_of_nat_small) simp
    with write_image_file_holds [OF pf w b'] so f' show ?thesis by (auto simp: write_ehdr_def)
  qed
  with i c show ?thesis by blast
qed

theorem converted_file_witness:
  "\<exists>file cache' img img' plan b.
     convert sample_fs sample_host 100 Map.empty new_converter (str_bytes ''in.exe'') [] = Inr file
     \<and> convert_build new_converter img = Inr (img', plan, b) \<and> file_holds file img' plan b
     \<and> e_entry (dec_ehdr file) = trampoline_va plan"
proof -
  obtain out where "convert sample_fs sample_host 100 Map.empty new_converter
      (str_bytes ''in.exe'') [] = Inr out"
    using sample_convert by blast
  moreover from converted_file [OF this] obtain cache' img img' plan b where
      "convert_image sample_fs 100 Map.empty new_converter (str_bytes ''in.exe'') = Inr (cache', img)"
      "convert_build new_converter img = Inr (img', plan, b)"
      "build_sizes_ok b \<longrightarrow> file_holds out img' plan b
        \<and> e_entry (dec_ehdr out) = trampoline_va plan"
    by (auto simp: new_converter_def)
  moreover have "img = sample_image"
    using calculation(2) sample_convert_image [of new_converter] by (simp add: new_converter_def)
  ultimately show ?thesis using sample_sizes by blast
qed





text \<open>
  C4: the dynamic linker can apply every relocation: each relocated address lies in a
  loadable segment that is writable.  (With \<^verbatim>\<open>--strip-pdata\<close> a section may have no segment.)
\<close>

theorem relocations_writable:
  assumes run: "convert_build conv img = Inr (img', plan, b)" and wf: "imports_wf img"
    and rel: "list_all (reloc_ok img) (img_relocs img)"
    and n: "length (img_secs img) \<le> 96" and sz: "build_sizes_ok b"
    and strip: "\<not> c_strip_pdata conv" and base: "unat (image_base img) + 2 ^ 32 \<le> 2 ^ 64"
  shows "\<forall>r \<in> set (rela_data b). \<exists>p \<in> set (phdrs b). maps_addr p (r_offset r) \<and> writable p"
proof
  fix r assume r: "r \<in> set (rela_data b)"
  have dist: "distinct (iat_sec_idx img)" using wf by (simp add: imports_wf_def)
  obtain img1 where pf: "plan_for img1 img' plan b" using convert_build_plan_for [OF run n dist sz] by blast
  obtain b5 where b5: "b = build_phdrs img' plan b5"
    by (rule convert_build_spec [OF run n dist]) blast
  have "strip_pdata b = c_strip_pdata conv" by (rule convert_build_spec [OF run n dist])
  then have ns: "\<not> strip_pdata b5"
    using strip build_phdrs_fields [of img' plan b5] b5
    by (metis Builder.select_convs(3) Builder.surjective Builder.update_convs(13))
  note ci = convert_build_image [OF run]
  obtain s where t: "rela_data b = all_relas img' (c_so_mode conv) (img_tls_words img) s (trampoline_va plan)"
    by (rule convert_build_tables [OF run wf n])
  consider (imp) ie where "ie \<in> set (img_imports img')" "r_offset r = image_base img' + ucast (iat_rva ie)"
    | (base) re where "re \<in> set (img_relocs img)" "r_offset r = re_va re"
    | (tramp) o' :: u64 where "unat o' < 80" "r_offset r = trampoline_va plan + o'"
  proof -
    have "r \<in> import_rela (image_base img') ` set (img_imports img') \<or> r \<in> base_rela ` set (img_relocs img)
        \<or> r_offset r \<in> (\<lambda>o'. trampoline_va plan + o') ` {24, 32, 64, 72}"
      using r ci(3) unfolding t by (auto simp: all_relas_def tls_rela_def split: if_splits)
    then show ?thesis using that by (auto simp: import_rela_def base_rela_def)
  qed
  then show "\<exists>p \<in> set (phdrs b). maps_addr p (r_offset r) \<and> writable p"
  proof cases
    case imp
    with import_slot_writable [OF wf run imp(1) b5 ns] show ?thesis by simp
  next
    case base
    with base_reloc_writable [OF rel run assms(7) base(1) b5 ns] show ?thesis by simp
  next
    case tramp
    with trampoline_writable [OF pf b5 tramp(1)] show ?thesis by simp
  qed
qed

theorem relocations_writable_witness:
  "\<exists>plan b. convert_build new_converter sample_image = Inr (sample_out_image, plan, b) \<and>
     (\<exists>p \<in> set (phdrs b). maps_addr p (r_offset (rela_data b ! 1)) \<and> writable p)"
proof -
  obtain plan b where r: "convert_build new_converter sample_image = Inr (sample_out_image, plan, b)"
    using sample_build by blast
  have wf: "length (img_secs sample_image) \<le> 96" by (rule sample_wf)
  obtain s where "rela_data b = all_relas sample_out_image (c_so_mode new_converter)
      (img_tls_words sample_image) s (trampoline_va plan)"
    by (rule convert_build_tables [OF r sample_imports_wf wf])
  then have "1 < length (rela_data b)"
    by (simp add: all_relas_def sample_out_image_def)
  then have "rela_data b ! 1 \<in> set (rela_data b)" by (rule nth_mem)
  with relocations_writable [OF r sample_imports_wf sample_relocs_ok wf sample_sizes [OF r]] r
  show ?thesis by (simp add: new_converter_def sample_image_fields)
qed

lemma and_f0: "x AND scast (0xf0 :: u8) = x AND NOT (mask 4 :: u64)"
proof -
  have "scast (0xf0 :: u8) = (NOT (mask 4) :: u64)" by (simp add: mask_eq_exp_minus_1)
  then show ?thesis by simp
qed

lemma aligned_minus_8:
  assumes m: "unat (y :: u64) mod 16 = 0"
  shows "unat (y - 8) mod 16 = 8"
proof (cases "y = 0")
  case True
  then show ?thesis by simp
next
  case False
  then have "unat y \<noteq> 0" by (simp add: unsigned_eq_0_iff)
  moreover obtain k where k: "unat y = 16 * k" using m by (metis mod_0_imp_dvd dvdE)
  ultimately obtain j where j: "unat y = 16 * j + 16" by (cases k) auto
  then have "8 \<le> y" by (simp add: word_le_nat_alt)
  then have "unat (y - 8) = unat y - 8" by (subst unat_sub) simp_all
  also have "\<dots> = 8 + j * 16" using j by simp
  finally show ?thesis by simp
qed

lemma loaded_at_self: "length bs < 2 ^ 64 \<Longrightarrow> loaded_at (\<lambda>x. bs ! unat (x - a)) a bs"
  by (simp add: loaded_at_def unat_of_nat_small)

text \<open>
  C5: executing the trampoline, from the bytes the builder emits: five instructions call
  through the cell at \<^verbatim>\<open>+24\<close> with the address of the TLS block at \<^verbatim>\<open>+32\<close> as argument and a
  16-byte aligned stack, and arrive at the PE entry point with the stack pointer 8 modulo
  16, as after a call; the TLS block holds the six fields of the PE's TLS directory.
\<close>

theorem trampoline_enters_pe:
  assumes run: "convert_build conv img = Inr (img', plan, b)"
    and n: "length (img_secs img) \<le> 96" and dist: "distinct (iat_sec_idx img)"
    and mem: "loaded_at m (trampoline_va plan) (take 24 (trampoline_data b))"
    and c: "rip c = trampoline_va plan"
  shows "\<exists>c'. cpu_run 5 m c = Some c' \<and> rip c' = image_base img + ucast (ep_rva img)
    \<and> calls c' = calls c @ [(trampoline_va plan + 24, trampoline_va plan + 32, rsp c AND NOT (mask 4))]
    \<and> unat (rsp c') mod 16 = 8
    \<and> drop 32 (trampoline_data b) = concat (map (le_bytes 8) (img_tls_words img))"
proof -
  obtain b3 b4 where t: "build_trampoline img' plan b3 = Inr b4"
    and tb: "trampoline_data b = trampoline_data b4" "tls_words b3 = img_tls_words img"
    by (rule convert_build_spec [OF run n dist]) blast
  note d = build_trampoline_data [OF t]
  let ?rel = "ucast (image_base img' + ucast (ep_rva img') - (trampoline_va plan + 23)) :: u32"
  have data: "trampoline_data b = trampoline_code ?rel @ concat (map (le_bytes 8) (img_tls_words img))"
    using d(1) tb(1) unfolding tb(2) [symmetric] tls_words_def by simp
  have "loaded_at m (trampoline_va plan) (take 24 (trampoline_code ?rel))"
    using mem by (simp add: data length_trampoline_code)
  note r = trampoline_code_run [OF this c]
  have "trampoline_va plan + 23 + scast ?rel = image_base img + ucast (ep_rva img)"
    using d(4) convert_build_image [OF run] by simp
  moreover have "unat (rsp c AND NOT (mask 4)) mod 16 = 0" by (simp only: unat_and_not_mask) simp
  then have "unat ((rsp c AND NOT (mask 4)) - 8) mod 16 = 8" by (rule aligned_minus_8)
  moreover note r [unfolded and_f0]
  ultimately show ?thesis by (simp add: data length_trampoline_code del: mask_eq_exp_minus_1)
qed

theorem trampoline_enters_pe_witness:
  "\<exists>plan b m c'. convert_build new_converter sample_image = Inr (sample_out_image, plan, b) \<and>
     cpu_run 5 m \<lparr>rip = trampoline_va plan, rsp = 0x7fff0008, rdi = 0, calls = []\<rparr> = Some c' \<and>
     rip c' = 0x140001000 \<and> unat (rsp c') mod 16 = 8"
proof -
  obtain plan b where r: "convert_build new_converter sample_image = Inr (sample_out_image, plan, b)"
    using sample_build by blast
  let ?bs = "take 24 (trampoline_data b)"
  have "loaded_at (\<lambda>x. ?bs ! unat (x - trampoline_va plan)) (trampoline_va plan) ?bs"
    by (rule loaded_at_self) simp
  from trampoline_enters_pe [OF r sample_wf this,
      of "\<lparr>rip = trampoline_va plan, rsp = 0x7fff0008, rdi = 0, calls = []\<rparr>"] r
  show ?thesis by (auto simp: sample_image_fields)
qed



text \<open>
  C7: in every loadable segment the file offset and the address agree modulo the page size,
  when the image base and the section addresses are page aligned.
\<close>

theorem load_segments_page_congruent:
  assumes run: "convert_build conv img = Inr (img', plan, b)"
    and n: "length (img_secs img) \<le> 96" and dist: "distinct (iat_sec_idx img)"
    and sz: "build_sizes_ok b"
    and al: "4096 dvd unat (image_base img)" "\<forall>e \<in> set (img_secs img). 4096 dvd unat (sec_va e)"
    and p: "p \<in> set (phdrs b)" "p_type p = PT_LOAD"
  shows "unat (p_offset p) mod 4096 = unat (p_vaddr p) mod 4096"
proof -
  obtain img1 b5 where c: "compute_plan img1 (length (interp_data b)) (length (dynsym_data b))
      (length (dynstr_data b)) (length (rela_data b)) (length (dynamic_data b))
      (length (hash_data b)) = (plan, img')" "img_secs img1 = img_secs img"
    and b5: "b = build_phdrs img' plan b5"
    by (rule convert_build_spec [OF run n dist]) blast
  note ci = convert_build_image [OF run]
  have "4096 dvd unat (sec_va e)" if "e \<in> set (img_secs img')" for e
    using that al(2) list_all2_right [OF ci(1) [unfolded same_secs_def]] by fastforce
  then have "page_congruent p"
    using phdrs_congruent [OF c(1) _ _ _ _ p [unfolded b5]] n c(2) sz al(1) ci(4)
    by (simp add: build_sizes_ok_def)
  then show ?thesis by (simp add: page_congruent_def dvd_eq_mod_eq_0)
qed

theorem load_segments_page_congruent_witness:
  "\<exists>plan b p. convert_build new_converter sample_image = Inr (sample_out_image, plan, b) \<and>
     p \<in> set (phdrs b) \<and> p_vaddr p = 0x140001000 \<and>
     unat (p_offset p) mod 4096 = unat (p_vaddr p) mod 4096"
proof -
  obtain plan b where r: "convert_build new_converter sample_image = Inr (sample_out_image, plan, b)"
    using sample_build by blast
  obtain b5 where b5: "b = build_phdrs sample_out_image plan b5"
    by (rule convert_build_spec [OF r sample_wf]) blast
  let ?p = "sec_phdr sample_out_image (int 0) (img_secs sample_out_image ! 0)"
  have m: "?p \<in> set (phdrs b)"
    unfolding b5 by (rule sec_phdr_in_phdrs)
      (simp_all add: sample_out_image_def sample_secs_def is_pdata_def str_bytes_def)
  have v: "p_vaddr ?p = 0x140001000" "p_type ?p = PT_LOAD"
    by (simp_all add: sec_phdr_def zero_phdr_def sample_out_image_def sample_image_fields sample_secs_def)
  have "4096 dvd unat (image_base sample_image)"
      "\<forall>e \<in> set (img_secs sample_image). 4096 dvd unat (sec_va e)"
    by (simp_all add: sample_image_fields sample_secs_def)
  from load_segments_page_congruent [OF r sample_wf sample_sizes [OF r] this m v(2)] r m v(1)
  show ?thesis by blast
qed

section \<open>Symbol numbers of the sample\<close>

theorem symbols_shared_by_name_witness:
  "\<exists>img' b'. build_synthetic_sections sample_image (init_builder new_converter sample_image) = (img', b') \<and>
     str_at (dynstr_data b') (unat (st_name (dynsym_data b' ! unat (sym_index (img_imports img' ! 0)))))
       (str_bytes ''k_F'')"
proof -
  obtain b1 where s: "build_synthetic_sections sample_image (init_builder new_converter sample_image) =
     (sample_image\<lparr>img_imports := [sample_import\<lparr>sym_index := 1\<rparr>]\<rparr>, b1)"
     "length (dynstr_data b1) = 46"
    using sample_synthetic by blast
  have "str_bytes ''k_F'' = [107, 95, 70]" by (simp add: str_bytes_def)
  with symbols_shared_by_name [OF s(1), of 0 0] s show ?thesis
    by (simp add: init_builder_fields sample_image_fields sample_sym_name)
qed

section \<open>Converter and shim\<close>

lemma to_lower_dot: "to_lower x = 46 \<longleftrightarrow> x = 46"
  by (auto simp: to_lower_def word_le_nat_alt unat_arith_simps split: if_splits)

lemma to_lower_dll:
  assumes "map to_lower ext = str_bytes ''.dll''"
  shows "\<exists>a b c. ext = [46, a, b, c] \<and> 46 \<notin> {a, b, c} \<and> to_lower a = 100 \<and> to_lower b = 108 \<and> to_lower c = 108"
proof -
  have d: "to_lower 46 = 46" by (simp add: to_lower_def)
  show ?thesis using assms by (auto simp: str_bytes_def map_eq_Cons_conv to_lower_dot d)
qed

text \<open>A name whose lower case is a prefix of the shim without its underscore.\<close>

lemma stem_chars:
  assumes "map to_lower stem @ [95] = g_win_module_prefix wm"
  shows "46 \<notin> set stem" "ch_slash \<notin> set stem" "ch_backslash \<notin> set stem" "0 < length stem" "length stem < 10"
proof -
  have m: "map to_lower stem = butlast (g_win_module_prefix wm)" using assms by (metis butlast_snoc)
  have p: "46 \<notin> set (butlast (g_win_module_prefix wm))" "47 \<notin> set (butlast (g_win_module_prefix wm))"
    "92 \<notin> set (butlast (g_win_module_prefix wm))" "0 < length (butlast (g_win_module_prefix wm))" "length (butlast (g_win_module_prefix wm)) < 10"
    by (cases wm; simp add: str_bytes_def)+
  have "to_lower 46 = 46" "to_lower 47 = 47" "to_lower 92 = 92" by (simp_all add: to_lower_def)
  then show "46 \<notin> set stem" "ch_slash \<notin> set stem" "ch_backslash \<notin> set stem"
    using p(1-3) unfolding m[symmetric] by (metis imageI image_set)+
  show "0 < length stem" "length stem < 10" using p(4,5) unfolding m[symmetric] by simp_all
qed

lemma dll_base_plain: "ch_slash \<notin> set cs \<Longrightarrow> ch_backslash \<notin> set cs \<Longrightarrow> dll_base base cs = base"
  by (induction cs arbitrary: base) auto

lemma rfind_last: "c \<notin> set ys \<Longrightarrow> rfind c (xs @ c # ys) = Some (length xs)"
proof -
  assume "c \<notin> set ys"
  then have "rfind c ys = None" by (induction ys) auto
  then show ?thesis by (induction xs) auto
qed

lemma classify_stem:
  assumes "map to_lower stem @ [95] = g_win_module_prefix wm" and "map to_lower ext = str_bytes ''.dll''"
  shows "win_dll_classify (win_dll_basename (stem @ ext) 64) = Some wm"
    and "make_elf_sym_name (stem @ ext) fn = g_win_module_prefix wm @ fn"
proof -
  obtain a b c where e: "ext = [46, a, b, c]" "46 \<notin> {a, b, c}" "to_lower a = 100" "to_lower b = 108" "to_lower c = 108"
    using to_lower_dll[OF assms(2)] by blast
  note st = stem_chars[OF assms(1)]
  have l: "dll_lower = to_lower" by (rule ext) (simp add: dll_lower_def to_lower_def)
  have "to_lower 47 = 47" "to_lower 92 = 92" by (simp_all add: to_lower_def)
  then have "ch_slash \<notin> set ext" "ch_backslash \<notin> set ext" using e by auto
  then have "dll_base (stem @ ext) (stem @ ext) = stem @ ext" using st(2,3) by (intro dll_base_plain) auto
  then have "win_dll_basename (stem @ ext) 64 = map to_lower stem"
    using st(4,5) assms(2) e(1) by (simp add: win_dll_basename_def Let_def l str_bytes_def)
  also have "\<dots> = butlast (g_win_module_prefix wm)" using assms(1) by (metis butlast_snoc)
  finally show "win_dll_classify (win_dll_basename (stem @ ext) 64) = Some wm"
    by (cases wm) (simp_all add: win_dll_classify_def str_bytes_def)
  have "rfind 46 (stem @ ext) = Some (length stem)" using e(1,2) rfind_last[of 46 "[a, b, c]" stem] by simp
  then show "make_elf_sym_name (stem @ ext) fn = g_win_module_prefix wm @ fn" using assms(1) by (simp add: make_elf_sym_name_def)
qed



end
